(* ===== verification/Prelude.thy ===== *)
theory Prelude
  imports Main "HOL-Library.Word"
begin

text \<open>
  The vocabulary every component shares: Rust's fixed-width integers as words, byte strings,
  results as sums, slice writes that may panic, little-endian byte forms, decimal printing and
  UTF-8 encoding, with the lemmas the component proofs rest on.

  Conventions. A \<open>usize\<close> (64 bits wide on every supported target) is a \<open>nat\<close>: all the sums the
  sources form are of lengths of vectors in memory and of values widened from 16 or 32 bits, so none
  reaches \<open>2 ^ 64\<close>. A \<open>Result\<close> is a sum with the error on the left. A function that may panic
  returns an option whose \<open>None\<close> is the panic. A Rust \<open>String\<close> is the list of its UTF-8 bytes as
  characters, so \<open>length\<close> is Rust's \<open>len\<close>; a Rust \<open>char\<close> is its code point.
\<close>

unbundle bit_operations_syntax

named_theorems wire_simps \<open>unfolding rules of the wire and codec model\<close>
named_theorems slice_simps \<open>effect of slice writes and swaps\<close>
named_theorems fence_simps \<open>rules about revision fences\<close>

section \<open>Integers, bytes, strings\<close>

type_synonym u8 = "8 word"
type_synonym u16 = "16 word"
type_synonym u32 = "32 word"
type_synonym u64 = "64 word"
type_synonym i16 = "16 word"
type_synonym i32 = "32 word"
type_synonym usize = nat
type_synonym bytes = "8 word list"
type_synonym scalar = nat

text \<open>\<open>str::as_bytes\<close>, and \<open>str::eq_ignore_ascii_case\<close> through \<open>to_ascii_lowercase\<close>.\<close>

definition as_bytes :: "string \<Rightarrow> bytes" where
  "as_bytes s = map of_char s"

definition ascii_lower :: "char \<Rightarrow> char" where
  "ascii_lower c = (let n = of_char c :: nat in if 65 \<le> n \<and> n \<le> 90 then char_of (n + 32) else c)"

definition to_ascii_lowercase :: "string \<Rightarrow> string" where
  "to_ascii_lowercase s = map ascii_lower s"

definition eq_ignore_ascii_case :: "string \<Rightarrow> string \<Rightarrow> bool" where
  "eq_ignore_ascii_case s t \<longleftrightarrow> to_ascii_lowercase s = to_ascii_lowercase t"

text \<open>\<open>checked_add\<close> and \<open>saturating_add\<close> on unsigned integers.\<close>

definition checked_add :: "'a::len word \<Rightarrow> 'a word \<Rightarrow> 'a word option" where
  "checked_add a b = (if unat a + unat b < 2 ^ LENGTH('a) then Some (a + b) else None)"

definition saturating_add :: "'a::len word \<Rightarrow> 'a word \<Rightarrow> 'a word" where
  "saturating_add a b = (if unat a + unat b < 2 ^ LENGTH('a) then a + b else - 1)"

text \<open>\<open>to_le_bytes\<close> and \<open>from_le_bytes\<close>.\<close>

definition le_bytes_16 :: "16 word \<Rightarrow> bytes" where
  "le_bytes_16 w = [ucast w, ucast (drop_bit 8 w)]"

definition of_le_16 :: "u8 \<Rightarrow> u8 \<Rightarrow> 16 word" where
  "of_le_16 a b = ucast a OR push_bit 8 (ucast b)"

definition le_bytes_32 :: "u32 \<Rightarrow> bytes" where
  "le_bytes_32 w = [ucast w, ucast (drop_bit 8 w), ucast (drop_bit 16 w), ucast (drop_bit 24 w)]"

definition of_le_32 :: "bytes \<Rightarrow> u32" where
  "of_le_32 bs = ucast (bs ! 0) OR push_bit 8 (ucast (bs ! 1))
     OR push_bit 16 (ucast (bs ! 2)) OR push_bit 24 (ucast (bs ! 3))"

text \<open>Decimal printing, as \<open>format!\<close> prints an unsigned integer.\<close>

fun decimal :: "nat \<Rightarrow> string" where
  "decimal n = (if n < 10 then [char_of (48 + n)] else decimal (n div 10) @ [char_of (48 + n mod 10)])"

declare decimal.simps [simp del]

text \<open>\<open>char::encode_utf8\<close>.\<close>

definition encode_utf8 :: "scalar \<Rightarrow> bytes" where
  "encode_utf8 c =
     (if c < 128 then [of_nat c]
      else if c < 2048 then [of_nat (192 + c div 64), of_nat (128 + c mod 64)]
      else if c < 65536 then
        [of_nat (224 + c div 4096), of_nat (128 + c div 64 mod 64), of_nat (128 + c mod 64)]
      else
        [of_nat (240 + c div 262144), of_nat (128 + c div 4096 mod 64),
         of_nat (128 + c div 64 mod 64), of_nat (128 + c mod 64)])"

text \<open>\<open>char::from_u32\<close>: the scalar values, without the surrogates.\<close>

definition char_from_u32 :: "u32 \<Rightarrow> scalar option" where
  "char_from_u32 w = (let n = unat w in
     if n < 55296 \<or> (57344 \<le> n \<and> n < 1114112) then Some n else None)"

section \<open>Results\<close>

type_synonym ('a, 'e) result = "'e + 'a"

fun and_then :: "('a, 'e) result \<Rightarrow> ('a \<Rightarrow> ('b, 'e) result) \<Rightarrow> ('b, 'e) result" where
  "and_then (Inl e) f = Inl e"
| "and_then (Inr a) f = f a"

fun map_err :: "('e \<Rightarrow> 'f) \<Rightarrow> ('a, 'e) result \<Rightarrow> ('a, 'f) result" where
  "map_err g (Inl e) = Inl (g e)"
| "map_err g (Inr a) = Inr a"

definition ok_or :: "'a option \<Rightarrow> 'e \<Rightarrow> ('a, 'e) result" where
  "ok_or x e = (case x of None \<Rightarrow> Inl e | Some a \<Rightarrow> Inr a)"

fun is_ok :: "('a, 'e) result \<Rightarrow> bool" where
  "is_ok (Inl e) = False"
| "is_ok (Inr a) = True"

section \<open>Slices\<close>

text \<open>
  \<open>xs[start..start + ys.len()].clone_from_slice(&ys)\<close>: a range past the end panics.
\<close>

definition slice_write :: "'a list \<Rightarrow> nat \<Rightarrow> 'a list \<Rightarrow> 'a list option" where
  "slice_write xs start ys =
     (if start + length ys \<le> length xs
      then Some (take start xs @ ys @ drop (start + length ys) xs) else None)"

text \<open>
  \<open>let (head, tail) = xs.split_at_mut(high); head[low..low + span].swap_with_slice(&mut tail[..span])\<close>.
\<close>

definition slice_swap :: "'a list \<Rightarrow> nat \<Rightarrow> nat \<Rightarrow> nat \<Rightarrow> 'a list option" where
  "slice_swap xs low high span =
     (if high \<le> length xs \<and> low + span \<le> high \<and> high + span \<le> length xs
      then Some (take low xs @ take span (drop high xs) @ take (high - (low + span)) (drop (low + span) xs)
                 @ take span (drop low xs) @ drop (high + span) xs)
      else None)"

section \<open>Lemmas\<close>

lemma and_then_eq_Inr [simp]:
  "and_then r f = Inr b \<longleftrightarrow> (\<exists>a. r = Inr a \<and> f a = Inr b)"
  by (cases r) auto

lemma ok_or_eq_Inr [simp]: "ok_or x e = Inr a \<longleftrightarrow> x = Some a"
  by (cases x) (auto simp: ok_or_def)

lemma map_err_eq_Inr [simp]: "map_err g r = Inr a \<longleftrightarrow> r = Inr a"
  by (cases r) auto

lemma is_ok_iff: "is_ok r \<longleftrightarrow> (\<exists>a. r = Inr a)"
  by (cases r) auto

lemma checked_add_Some [fence_simps]:
  "checked_add a b = Some c \<longleftrightarrow> c = a + b \<and> unat c = unat a + unat b"
  by (auto simp: checked_add_def unat_word_ariths)
    (metis unsigned_less mod_less_divisor zero_less_numeral zero_less_power)

lemma length_slice_write [slice_simps]: "slice_write xs s ys = Some zs \<Longrightarrow> length zs = length xs"
  by (auto simp: slice_write_def split: if_splits)

lemma nth_slice_write [slice_simps]:
  assumes "slice_write xs s ys = Some zs" and "i < length xs"
  shows "zs ! i = (if s \<le> i \<and> i < s + length ys then ys ! (i - s) else xs ! i)"
  using assms by (auto simp: slice_write_def nth_append min_def split: if_splits)

lemma set_slice_write [slice_simps]:
  "slice_write xs s ys = Some zs \<Longrightarrow> set zs \<subseteq> set xs \<union> set ys"
  by (auto simp: slice_write_def split: if_splits dest: in_set_takeD in_set_dropD)

lemma length_slice_swap [slice_simps]:
  "slice_swap xs l h n = Some zs \<Longrightarrow> length zs = length xs"
  by (auto simp: slice_swap_def split: if_splits)

lemma nth_slice_swap [slice_simps]:
  assumes "slice_swap xs l h n = Some zs" and "i < length xs"
  shows "zs ! i = (if l \<le> i \<and> i < l + n then xs ! (h + (i - l))
    else if h \<le> i \<and> i < h + n then xs ! (l + (i - h)) else xs ! i)"
proof -
  have b: "l + n \<le> h" "h + n \<le> length xs"
    and zs: "zs = take l xs @ take n (drop h xs) @ take (h - (l + n)) (drop (l + n) xs)
                 @ take n (drop l xs) @ drop (h + n) xs"
    using assms(1) by (simp_all add: slice_swap_def split: if_splits)
  have len: "length (take l xs) = l" "length (take n (drop h xs)) = n" "length (take n (drop l xs)) = n"
    "length (take (h - (l + n)) (drop (l + n) xs)) = h - (l + n)"
    using b by simp_all
  consider "i < l" | "l \<le> i" "i < l + n" | "l + n \<le> i" "i < h" | "h \<le> i" "i < h + n" | "h + n \<le> i"
    by linarith
  then show ?thesis
  proof cases
    case 1 with b show ?thesis unfolding zs nth_append len by simp
  next
    case 2 with b show ?thesis unfolding zs nth_append len by (simp add: less_diff_conv2)
  next
    case 3
    then have "i - l - n < h - (l + n)" by linarith
    with 3 b show ?thesis unfolding zs nth_append len by (simp add: less_diff_conv2)
  next
    case 4
    then have "\<not> i - l - n < h - (l + n)" "i - l - n - (h - (l + n)) = i - h" using b by linarith+
    with 4 b show ?thesis unfolding zs nth_append len by (simp add: less_diff_conv2)
  next
    case 5
    then have "\<not> i - l - n < h - (l + n)" "i - l - n - (h - (l + n)) = i - h" using b by linarith+
    with 5 b assms(2) show ?thesis unfolding zs nth_append len by (simp add: less_diff_conv2)
  qed
qed

lemma set_slice_swap [slice_simps]: "slice_swap xs l h n = Some zs \<Longrightarrow> set zs \<subseteq> set xs"
proof
  fix x assume s: "slice_swap xs l h n = Some zs" and "x \<in> set zs"
  then obtain i where i: "i < length xs" "x = zs ! i"
    by (auto simp: in_set_conv_nth length_slice_swap)
  with nth_slice_swap [OF s i(1)] s show "x \<in> set xs"
    by (auto simp: slice_swap_def split: if_splits)
qed

text \<open>Little-endian bytes read back.\<close>

lemma length_le_bytes_32 [simp]: "length (le_bytes_32 w) = 4"
  by (simp add: le_bytes_32_def)

lemma of_le_32_le_bytes_32 [simp]: "of_le_32 (le_bytes_32 w) = w"
proof (rule bit_word_eqI)
  fix n assume "n < LENGTH(32)"
  then show "bit (of_le_32 (le_bytes_32 w)) n = bit w n"
    by (cases "24 \<le> n"; cases "16 \<le> n"; cases "8 \<le> n")
      (auto simp: of_le_32_def le_bytes_32_def bit_simps)
qed

lemma of_le_32_append [simp]: "4 \<le> length p \<Longrightarrow> of_le_32 (p @ q) = of_le_32 p"
  by (auto simp: of_le_32_def nth_append)

lemma of_le_32_take [simp]: "4 \<le> n \<Longrightarrow> of_le_32 (take n p) = of_le_32 p"
  by (simp add: of_le_32_def)

lemma length_le_bytes_16 [simp]: "length (le_bytes_16 w) = 2"
  by (simp add: le_bytes_16_def)

lemma of_le_16_le_bytes [simp]: "of_le_16 (ucast w) (ucast (drop_bit 8 w)) = w"
  by (rule bit_word_eqI) (auto simp: of_le_16_def bit_simps)

text \<open>Lengths that fit a \<open>u32\<close>.\<close>

lemma unat_of_nat_u32: "n \<le> 2 ^ 32 - 1 \<Longrightarrow> unat (of_nat n :: u32) = n"
  by (simp add: unat_of_nat)

lemma of_nat_u32_eq_0: "n \<le> 2 ^ 32 - 1 \<Longrightarrow> (of_nat n = (0 :: u32)) = (n = 0)"
proof
  assume n: "n \<le> 2 ^ 32 - 1" and "of_nat n = (0 :: u32)"
  then have "unat (of_nat n :: u32) = unat (0 :: u32)" by (rule_tac arg_cong)
  with n show "n = 0" by (simp only: unat_of_nat_u32 unat_0)
qed simp

lemma unat_mod_256 [simp]: "of_nat (unat b mod 256) = (b :: u8)"
  using unsigned_less [of b, where ?'a = nat] by (simp add: mod_less)

lemma replicate_4: "replicate 4 x = [x, x, x, x]"
  by (simp add: numeral_eq_Suc)

text \<open>Decimal digits as bytes, and the reader that printing inverts.\<close>

lemma less_10_cases: "d < (10::nat) \<longleftrightarrow> d = 0 \<or> d = 1 \<or> d = 2 \<or> d = 3 \<or> d = 4 \<or> d = 5 \<or> d = 6 \<or> d = 7 \<or> d = 8 \<or> d = 9"
  by auto

lemma digit_char:
  assumes "d < 10"
  shows "(of_char (char_of (48 + d :: nat)) :: u8) = 48 + of_nat d"
proof -
  have "(of_char (char_of (48 + d :: nat)) :: u8) = of_nat (of_char (char_of (48 + d :: nat)))"
    by (rule of_nat_of_char[symmetric])
  also have "\<dots> = of_nat (48 + d)" using assms by simp
  finally show ?thesis by simp
qed

definition is_digit :: "u8 \<Rightarrow> bool" where
  "is_digit b \<longleftrightarrow> 0x30 \<le> b \<and> b \<le> 0x39"

fun read_digits :: "nat \<Rightarrow> bytes \<Rightarrow> nat \<times> bytes" where
  "read_digits acc [] = (acc, [])"
| "read_digits acc (b # bs) = (if is_digit b then read_digits (acc * 10 + unat (b - 0x30)) bs else (acc, b # bs))"

lemma read_digit:
  assumes "d < 10"
  shows "read_digits acc (of_char (char_of (48 + d :: nat)) # bs) = read_digits (acc * 10 + d) bs"
proof -
  have "(48 :: u8) \<le> 48 + of_nat d" "48 + of_nat d \<le> (57 :: u8)" "unat (of_nat d :: u8) = d"
    using assms by (auto simp: less_10_cases)
  then show ?thesis by (simp add: digit_char[OF assms] is_digit_def)
qed

lemma read_decimal: "read_digits 0 (as_bytes (decimal n) @ bs) = read_digits n bs"
proof (induction n arbitrary: bs rule: decimal.induct)
  case (1 n)
  show ?case
  proof (cases "n < 10")
    case True
    then show ?thesis using read_digit[OF True, of 0] by (subst decimal.simps) (simp add: as_bytes_def)
  next
    case False
    have "n mod 10 < 10" by simp
    from read_digit[OF this] 1[OF False] False show ?thesis
      by (subst decimal.simps) (simp add: as_bytes_def)
  qed
qed

section \<open>Interfaces\<close>

text \<open>Changes that keep an invariant, and what any sequence of them keeps.\<close>

locale preserved =
  fixes change :: "'c \<Rightarrow> 's \<Rightarrow> 's"
    and inv :: "'s \<Rightarrow> bool"
  assumes kept: "inv s \<Longrightarrow> inv (change c s)"
begin

lemma run_kept: "inv s \<Longrightarrow> inv (fold change cs s)"
  by (induction cs arbitrary: s) (auto simp: kept)

end

text \<open>A consumer fed in pieces whose step on one element is known: the cuts do not matter.\<close>

locale transducer =
  fixes feed :: "'s \<Rightarrow> 'a list \<Rightarrow> 's \<times> 'b list"
    and step :: "'s \<Rightarrow> 'a \<Rightarrow> 's \<times> 'b list"
  assumes feed_Nil: "feed s [] = (s, [])"
    and feed_Cons: "feed s (a # xs) = (fst (feed (fst (step s a)) xs), snd (step s a) @ snd (feed (fst (step s a)) xs))"
begin

lemma feed_append: "feed s (xs @ ys) = (fst (feed (fst (feed s xs)) ys), snd (feed s xs) @ snd (feed (fst (feed s xs)) ys))"
  by (induction xs arbitrary: s) (auto simp: feed_Nil feed_Cons)

lemma feed_concat:
  "feed s (concat pieces) =
     fold (\<lambda>piece (s, out). (fst (feed s piece), out @ snd (feed s piece))) pieces (s, [])"
proof -
  have "fold (\<lambda>piece (s, out). (fst (feed s piece), out @ snd (feed s piece))) pieces (s, out) =
      (fst (feed s (concat pieces)), out @ snd (feed s (concat pieces)))" for out
    by (induction pieces arbitrary: s out) (auto simp: feed_Nil feed_append)
  then show ?thesis by simp
qed

lemma feed_invariant:
  assumes "I s" "\<And>s a. I s \<Longrightarrow> I (fst (step s a))"
  shows "I (fst (feed s xs))"
  using assms(1) by (induction xs arbitrary: s) (auto simp: feed_Nil feed_Cons assms(2))

end

end
