(* ===== verification/Wire.thy ===== *)
theory Wire
  imports Prelude
begin

text \<open>
  The generation-1 wire model of \<open>crates/sheprd-protocol/src/wire.rs\<close>, \<open>endpoint.rs\<close> and
  \<open>error.rs\<close>: every message, struct and enum the daemon and its client exchange, with the fields
  and variants in the order the sources declare them (bincode encodes them by position). Field names
  carry a short prefix of their struct and constructors one of their enum, since Isabelle's constants
  share one name space; a struct-like variant has its fields as positional arguments.
\<close>

section \<open>Client input\<close>

datatype RenderEncoding = SemanticFrame | TerminalAnsi

record ClientSurfaceSize =
  css_cols :: u16
  css_rows :: u16

datatype ClientKeyKind = Press | Repeat | Release

datatype ClientKeyCode =
    K_Backspace | K_Enter | K_Left | K_Right | K_Up | K_Down | K_Home | K_End
  | K_PageUp | K_PageDown | K_Tab | K_BackTab | K_Delete | K_Insert | K_Esc
  | K_Char scalar | K_F u8 | K_Null

datatype ClientMouseButton = B_Left | B_Right | B_Middle

datatype ClientMouseKind =
    M_Down ClientMouseButton | M_Up ClientMouseButton | M_Drag ClientMouseButton
  | M_Moved | M_ScrollUp | M_ScrollDown | M_ScrollLeft | M_ScrollRight

datatype ClientMousePosition =
    Cell (cell_column: u16) (cell_row: u16)
  | Pixels (pix_x: u32) (pix_y: u32) (pix_column: u16) (pix_row: u16)

record ClientMouseGeometry =
  cmg_cols :: u16
  cmg_rows :: u16
  cmg_width_px :: u32
  cmg_height_px :: u32

record WindowsKeyRecord =
  wkr_key_down :: bool
  wkr_repeat_count :: u16
  wkr_virtual_key_code :: u16
  wkr_virtual_scan_code :: u16
  wkr_unicode :: u16
  wkr_control_key_state :: u32

datatype ClientPaneInputEvent =
    \<comment> \<open>code, modifiers, kind, repeat count, shifted code point, generated text, tracks release,
        physical key id, windows record\<close>
    Key ClientKeyCode u8 ClientKeyKind u16 "u32 option" "string option" bool "u32 option"
      "WindowsKeyRecord option"
  | TextCommit string
    \<comment> \<open>kind, position, geometry, modifiers, lines\<close>
  | Mouse ClientMouseKind ClientMousePosition "ClientMouseGeometry option" u8 u16
  | Paste string

section \<open>Client messages\<close>

record ClientHostColor =
  chc_r :: u8
  chc_g :: u8
  chc_b :: u8

datatype ClientHostDefaultColorKind = Foreground | Background

datatype ClientHostAppearance = Dark | Light

datatype ClientHostThemeUpdate =
    DefaultColor ClientHostDefaultColorKind ClientHostColor
  | PaletteColors "(u8 \<times> ClientHostColor) list"
  | Appearance ClientHostAppearance

datatype ClientClipboardImageTarget = DirectTerminal | Pane string | Popup string

datatype AttachScrollDirection = Scroll_Up | Scroll_Down

datatype AttachScrollSource = Wheel | PageKey bytes

datatype ClientMessage =
    \<comment> \<open>version, cols, rows, cell width, cell height, pixel mouse\<close>
    CM_TerminalHello u32 u16 u16 u32 u32 bool
  | CM_Input bytes
    \<comment> \<open>target, extension, data\<close>
  | CM_ClipboardImage ClientClipboardImageTarget string bytes
  | CM_Resize u16 u16 u32 u32 bool
  | CM_Detach
    \<comment> \<open>terminal id, takeover\<close>
  | CM_AttachTerminal string bool
    \<comment> \<open>source, direction, lines, column, row, modifiers\<close>
  | CM_AttachScroll AttachScrollSource AttachScrollDirection u16 "u16 option" "u16 option" u8
  | CM_ObserveTerminal string
  | CM_ControlTerminal string bool
    \<comment> \<open>transfer id, image id, success\<close>
  | CM_GraphicsTransmissionResult u64 u32 bool
  | CM_GraphicsTransmissionStarted u64 u32
    \<comment> \<open>version, cell width, cell height, surface size, pixel mouse, direct graphics, endpoint
        keybindings, mouse capture\<close>
  | CM_ClientShellHello u32 u32 u32 ClientSurfaceSize bool bool bool bool
  | CM_ClientShellResize u32 u32 ClientSurfaceSize bool
    \<comment> \<open>pane id, events\<close>
  | CM_ClientShellPaneInput string "ClientPaneInputEvent list"
  | CM_ClientShellPopupInput string "ClientPaneInputEvent list"
    \<comment> \<open>boot id, request\<close>
  | CM_ClientShellEndpointRequest string string
  | CM_AttachMouse ClientMouseKind ClientMousePosition "ClientMouseGeometry option" u8 u16
  | CM_ClientShellHostTheme ClientHostThemeUpdate
  | CM_ClientShellFocus bool
  | CM_ClientShellMouseCapture bool
    \<comment> \<open>kind, data\<close>
  | CM_EndpointControl string string

section \<open>Frames\<close>

record CellData =
  cell_symbol :: string
  cell_fg :: u32
  cell_bg :: u32
  cell_modifier :: u16
  cell_skip :: bool
  cell_hyperlink :: "u32 option"

type_synonym CursorShapeParam = u8

record CursorState =
  cur_x :: u16
  cur_y :: u16
  cur_visible :: bool
  cur_shape :: CursorShapeParam

record FrameData =
  fd_cells :: "CellData list"
  fd_width :: u16
  fd_height :: u16
  fd_cursor :: "CursorState option"
  fd_hyperlinks :: "string list"
  fd_graphics :: bytes

section \<open>Shell snapshots\<close>

datatype AgentStatus = Idle | Working | Blocked | Done | Unknown

text \<open>
  The human-readable branch of \<open>deserialize_client_shell_agent_status\<close>, and the names
  \<open>rename_all = "snake_case"\<close> serializes the variants under. The binary branch is the derived
  positional decoding.
\<close>

definition deserialize_client_shell_agent_status :: "string \<Rightarrow> AgentStatus" where
  "deserialize_client_shell_agent_status s =
     (if s = ''idle'' then Idle
      else if s = ''working'' then Working
      else if s = ''blocked'' then Blocked
      else if s = ''done'' then Done
      else Unknown)"

fun AgentStatus_name :: "AgentStatus \<Rightarrow> string" where
  "AgentStatus_name Idle = ''idle''"
| "AgentStatus_name Working = ''working''"
| "AgentStatus_name Blocked = ''blocked''"
| "AgentStatus_name Done = ''done''"
| "AgentStatus_name Unknown = ''unknown''"

record ClientShellProductAnnouncement =
  cspa_version :: string
  cspa_id :: string
  cspa_title :: string
  cspa_body :: string
  cspa_preview :: bool

record ClientShellReleaseNotes =
  csrn_version :: string
  csrn_body :: string
  csrn_preview :: bool

datatype ClientShellCommandAction =
  Act_Shell | Act_Pane | Act_Popup | Act_PluginAction | Act_Unknown

record ClientShellCommand =
  csc_command_id :: string
  csc_binding_label :: string
  csc_binding_labels :: "string list"
  csc_action :: ClientShellCommandAction
  csc_description :: "string option"

record ClientShellTabStatusSegment =
  csts_text :: string
  csts_accent :: bool

record ClientShellWorktree =
  cswt_key :: string
  cswt_label :: string
  cswt_is_linked_worktree :: bool

record ClientShellWorkspace =
  csw_workspace_id :: string
  csw_active_tab_id :: string
  csw_new_workspace_cwd :: string
  csw_number :: usize
  csw_label :: string
  csw_custom_label :: bool
  csw_branch :: "string option"
  csw_git_ahead_behind :: "(usize \<times> usize) option"
  csw_tokens :: "(string \<times> string) list"
  csw_worktree :: "ClientShellWorktree option"
  csw_focused :: bool
  csw_agent_status :: AgentStatus

record ClientShellTab =
  cst_tab_id :: string
  cst_workspace_id :: string
  cst_number :: usize
  cst_label :: string
  cst_custom_label :: bool
  cst_zoomed :: bool
  cst_focused :: bool
  cst_agent_status :: AgentStatus

record ClientShellPane =
  csp_pane_id :: string
  csp_workspace_id :: string
  csp_tab_id :: string
  csp_label :: "string option"
  csp_cwd :: "string option"
  csp_foreground_cwd :: "string option"
  csp_focused :: bool
  csp_right_click_passthrough :: bool

record ClientShellAgent =
  csa_pane_id :: string
  csa_workspace_id :: string
  csa_tab_id :: string
  csa_name :: "string option"
  csa_display_agent :: "string option"
  csa_agent :: "string option"
  csa_title :: "string option"
  csa_terminal_title :: "string option"
  csa_terminal_title_stripped :: "string option"
  csa_agent_status :: AgentStatus
  csa_state_change_seq :: u64
  csa_state_labels :: "(string \<times> string) list"
  csa_tokens :: "(string \<times> string) list"
  csa_focused :: bool

record ClientShellSnapshot =
  snap_boot_id :: string
  snap_revision :: u64
  snap_config_diagnostic :: "string option"
  snap_product_announcement :: "ClientShellProductAnnouncement option"
  snap_update_available :: "string option"
  snap_update_install_command :: string
  snap_server_keybindings_toml :: "string option"
  snap_latest_release_notes_available :: bool
  snap_integration_updates_available :: bool
  snap_worktree_directory :: string
  snap_release_notes :: "ClientShellReleaseNotes option"
  snap_focused_workspace_id :: "string option"
  snap_focused_tab_id :: "string option"
  snap_focused_pane_id :: "string option"
  snap_tab_bar_right :: "ClientShellTabStatusSegment list"
  snap_tab_bar_right_separator :: string
  snap_agent_view_label :: "string option"
  snap_agent_order :: "string list"
  snap_workspaces :: "ClientShellWorkspace list"
  snap_tabs :: "ClientShellTab list"
  snap_panes :: "ClientShellPane list"
  snap_agents :: "ClientShellAgent list"
  snap_commands :: "ClientShellCommand list"

section \<open>Pane surfaces\<close>

record SurfaceRect =
  rect_x :: u16
  rect_y :: u16
  rect_width :: u16
  rect_height :: u16

record PaneSurfaceScrollMetrics =
  pssm_offset_from_bottom :: u64
  pssm_max_offset_from_bottom :: u64
  pssm_viewport_rows :: u64

record PaneSurfacePane =
  pane_id :: string
  pane_content_revision :: u64
  pane_rect :: SurfaceRect
  pane_inner_rect :: SurfaceRect
  pane_scrollbar_rect :: "SurfaceRect option"
  pane_scroll :: "PaneSurfaceScrollMetrics option"
  pane_focused :: bool
  pane_mouse_reporting :: bool
  pane_sgr_pixel_mouse :: bool
  pane_alternate_screen_active :: bool
  pane_pixel_width :: u32
  pane_pixel_height :: u32

datatype PaneSurfaceSplitDirection = Split_Horizontal | Split_Vertical

record PaneSurfaceSplit =
  pss_direction :: PaneSurfaceSplitDirection
  pss_pos :: u16
  pss_area :: SurfaceRect
  pss_hit_rect :: SurfaceRect
  pss_path :: "bool list"

datatype SurfaceGraphicsTarget = Target_Pane string | Target_Popup string

datatype SurfaceGraphicsSource =
    Source_Terminal SurfaceGraphicsTarget u32
  | Source_PaneLayer string string

datatype SurfaceGraphicsFormat = Rgb | Rgba | Png

record SurfaceGraphicsAssetKey =
  key_source :: SurfaceGraphicsSource
  key_image_width :: u32
  key_image_height :: u32
  key_format :: SurfaceGraphicsFormat
  key_data_len :: u64
  key_data_fingerprint :: u64

record SurfaceGraphicsAsset =
  asset_key :: SurfaceGraphicsAssetKey
  asset_data :: bytes

record SurfaceGraphicsPlacement =
  pl_asset :: SurfaceGraphicsAssetKey
  pl_logical_placement_id :: u32
  pl_x :: u16
  pl_y :: u16
  pl_cols :: u32
  pl_rows :: u32
  pl_source_x :: u32
  pl_source_y :: u32
  pl_source_width :: u32
  pl_source_height :: u32
  pl_x_offset :: u32
  pl_y_offset :: u32
  pl_z :: i32
  pl_scrollback_offset :: u32

record SurfaceGraphicsScene =
  scene_assets :: "SurfaceGraphicsAsset list"
  scene_placements :: "SurfaceGraphicsPlacement list"
  scene_retained_assets :: "SurfaceGraphicsAssetKey list"

datatype ClientShellPopupSize = Cells u16 | Percent u8

record ClientShellPopupSurface =
  pop_terminal_id :: string
  pop_title :: string
  pop_width :: "ClientShellPopupSize option"
  pop_height :: "ClientShellPopupSize option"
  pop_frame :: FrameData
  pop_mouse_reporting :: bool
  pop_sgr_pixel_mouse :: bool
  pop_pixel_width :: u32
  pop_pixel_height :: u32

record PaneSurfaceFrame =
  psf_boot_id :: string
  psf_projection_revision :: u64
  psf_surface_revision :: u64
  psf_frame :: FrameData
  psf_panes :: "PaneSurfacePane list"
  psf_splits :: "PaneSurfaceSplit list"
  psf_popup :: "ClientShellPopupSurface option"
  psf_graphics :: SurfaceGraphicsScene

record PaneSurfacePatchRow =
  row_x :: u16
  row_y :: u16
  row_cells :: "CellData list"

record PaneSurfacePatch =
  psp_boot_id :: string
  psp_projection_revision :: u64
  psp_base_surface_revision :: u64
  psp_surface_revision :: u64
  psp_rows :: "PaneSurfacePatchRow list"
  psp_panes :: "PaneSurfacePane list"
  psp_cursor :: "CursorState option"

section \<open>Server messages\<close>

record TerminalFrame =
  tf_seq :: u64
  tf_width :: u16
  tf_height :: u16
  tf_full :: bool
  tf_bytes :: bytes

datatype NotifyKind = Sound | Toast | SystemToast

datatype SemanticNotificationKind = NeedsAttention | Finished | UpdateInstalled | Custom

datatype SemanticNotificationSound = Sound_Done | Sound_Request

datatype ToastHerdrPosition = TopLeft | TopRight | BottomLeft | BottomRight

record SemanticNotification =
  sn_kind :: SemanticNotificationKind
  sn_title :: string
  sn_body :: "string option"
  sn_sound :: "SemanticNotificationSound option"
  sn_agent :: "string option"
  sn_workspace_id :: "string option"
  sn_tab_id :: "string option"
  sn_pane_id :: "string option"
  sn_position :: "ToastHerdrPosition option"

datatype ServerMessage =
    \<comment> \<open>version, encoding, error\<close>
    SM_Welcome u32 RenderEncoding "string option"
  | SM_Terminal TerminalFrame
  | SM_Graphics bytes
  | SM_ServerShutdown "string option"
    \<comment> \<open>kind, message, body\<close>
  | SM_Notify NotifyKind string "string option"
  | SM_Clipboard string
  | SM_WindowTitle "string option"
  | SM_ReloadSoundConfig
    \<comment> \<open>enabled, SGR pixels\<close>
  | SM_MouseCapture bool bool
  | SM_TerminalBell u16
    \<comment> \<open>path, expected length, image id, transfer id, leading, control, surface asset\<close>
  | SM_GraphicsFile string u64 u32 u64 bytes string "SurfaceGraphicsAssetKey option"
  | SM_GraphicsTransmissionRetired u64 u32
  | SM_ClientShellSnapshot ClientShellSnapshot
  | SM_PaneSurface PaneSurfaceFrame
  | SM_SemanticNotification SemanticNotification
  | SM_ClientShellError string
    \<comment> \<open>flags, modify-other-keys level\<close>
  | SM_DirectTerminalKeyboardProtocol u16 u8
  | SM_ClientShellKeyboardReportAll bool
    \<comment> \<open>boot id, request id, final chunk, data\<close>
  | SM_ClientShellEndpointResponseChunk string string bool bytes
  | SM_PaneSurfacePatch PaneSurfacePatch
    \<comment> \<open>kind, data\<close>
  | SM_EndpointControl string string

text \<open>The position of a message's variant, which the positional encoding writes as its tag.\<close>

fun ServerMessage_tag :: "ServerMessage \<Rightarrow> u32" where
  "ServerMessage_tag (SM_Welcome _ _ _) = 0"
| "ServerMessage_tag (SM_Terminal _) = 1"
| "ServerMessage_tag (SM_Graphics _) = 2"
| "ServerMessage_tag (SM_ServerShutdown _) = 3"
| "ServerMessage_tag (SM_Notify _ _ _) = 4"
| "ServerMessage_tag (SM_Clipboard _) = 5"
| "ServerMessage_tag (SM_WindowTitle _) = 6"
| "ServerMessage_tag SM_ReloadSoundConfig = 7"
| "ServerMessage_tag (SM_MouseCapture _ _) = 8"
| "ServerMessage_tag (SM_TerminalBell _) = 9"
| "ServerMessage_tag (SM_GraphicsFile _ _ _ _ _ _ _) = 10"
| "ServerMessage_tag (SM_GraphicsTransmissionRetired _ _) = 11"
| "ServerMessage_tag (SM_ClientShellSnapshot _) = 12"
| "ServerMessage_tag (SM_PaneSurface _) = 13"
| "ServerMessage_tag (SM_SemanticNotification _) = 14"
| "ServerMessage_tag (SM_ClientShellError _) = 15"
| "ServerMessage_tag (SM_DirectTerminalKeyboardProtocol _ _) = 16"
| "ServerMessage_tag (SM_ClientShellKeyboardReportAll _) = 17"
| "ServerMessage_tag (SM_ClientShellEndpointResponseChunk _ _ _ _) = 18"
| "ServerMessage_tag (SM_PaneSurfacePatch _) = 19"
| "ServerMessage_tag (SM_EndpointControl _ _) = 20"

section \<open>The endpoint handshake\<close>

definition ENDPOINT_PROTOCOL_GENERATION :: u32 where
  "ENDPOINT_PROTOCOL_GENERATION = 1"
definition ENDPOINT_WELCOME_KIND :: string where
  "ENDPOINT_WELCOME_KIND = ''endpoint.welcome.v1''"
definition SNAPSHOT_CODEC_V1 :: string where
  "SNAPSHOT_CODEC_V1 = ''shell.snapshot.v1''"
definition ENDPOINT_SNAPSHOT_KIND :: string where
  "ENDPOINT_SNAPSHOT_KIND = SNAPSHOT_CODEC_V1"
definition SURFACE_CODEC_V1 :: string where
  "SURFACE_CODEC_V1 = ''shell.surface.v1''"
definition INPUT_CODEC_V1 :: string where
  "INPUT_CODEC_V1 = ''shell.input.semantic.v1''"
definition BLOB_CODEC_V1 :: string where
  "BLOB_CODEC_V1 = ''shell.blob.v1''"

record EndpointHandshakeError =
  ehe_code :: string
  ehe_message :: string

record EndpointServerWelcome =
  esw_generation :: u32
  esw_server_version :: string
  esw_snapshot_codec :: string
  esw_surface_codec :: string
  esw_input_codec :: string
  esw_blob_codec :: string
  esw_methods :: "string list"
  esw_capabilities :: "string list"
  esw_error :: "EndpointHandshakeError option"

section \<open>Errors\<close>

text \<open>
  The I/O error kinds the sources name, with one constructor for all others. An error of a library the
  sources only call (bincode, base64, serde) is opaque text, except bincode's wrapper around the
  writer's own I/O error, which carries the protocol error the bounded writer put in it.
\<close>

datatype io_kind = InvalidData | UnexpectedEof | WouldBlock | TimedOut | Interrupted | WriteZero
  | OtherKind string

type_synonym ext_error = string

datatype encode_error = EncodeIo io_kind string | EncodeOther ext_error

datatype Error =
    Io io_kind
  | Encode encode_error
  | Decode ext_error
  | FrameLimit
  | EmptyFrame
  | ClipboardImageSize
  | ClipboardImageExtension
  | ClipboardImageTarget
  | TrailingBytes
  | CellCount
  | HyperlinkIndex
  | CursorBounds
  | PatchIdentity
  | PatchRowBounds
  | PatchGeometry
  | PatchCursorBounds
  | EncodingLimit
  | EncodingPayload ext_error
  | EncodingJson ext_error
  | ScrollCount
  | ScrollTruncated
  | ScrollPayload
  | ScrollBounds
  | SurfaceBaseline
  | DeltaGridLimit
  | DeltaMetadataCells
  | DeltaSpan
  | DeltaPopup

fun Error_kind :: "Error \<Rightarrow> io_kind" where
  "Error_kind (Io k) = k"
| "Error_kind _ = InvalidData"

section \<open>Lemmas\<close>

lemma agent_status_name_round_trip:
  "deserialize_client_shell_agent_status (AgentStatus_name s) = s"
  by (cases s) (simp_all add: deserialize_client_shell_agent_status_def)

end
