(* ===== verification/Frame.thy ===== *)
theory Frame
  imports Wire
begin

text \<open>
  Surface frame invariants, \<open>crates/sheprd-protocol/src/frame.rs\<close>: the validation of a frame, the
  checks of a patch and its commit. A commit copies cells into slices, which panic out of range, so it
  returns an option; that it never does is a theorem. The last section states the contract every
  surface update shares as a locale, interpreted here on patches and later on each optional encoding.
\<close>

section \<open>Validation\<close>

definition hyperlink_dangling :: "nat \<Rightarrow> CellData \<Rightarrow> bool" where
  "hyperlink_dangling n c = (case cell_hyperlink c of None \<Rightarrow> False | Some i \<Rightarrow> unat i \<ge> n)"

definition cursor_outside :: "FrameData \<Rightarrow> CursorState option \<Rightarrow> bool" where
  "cursor_outside f cursor =
     (case cursor of None \<Rightarrow> False
      | Some c \<Rightarrow> cur_visible c \<and> (cur_x c \<ge> fd_width f \<or> cur_y c \<ge> fd_height f))"

definition FrameData_validate :: "FrameData \<Rightarrow> (unit, Error) result" where
  "FrameData_validate f =
     (if length (fd_cells f) \<noteq> unat (fd_width f) * unat (fd_height f) then Inl CellCount
      else if list_ex (hyperlink_dangling (length (fd_hyperlinks f))) (fd_cells f) then Inl HyperlinkIndex
      else if cursor_outside f (fd_cursor f) then Inl CursorBounds
      else Inr ())"

section \<open>Patches\<close>

definition patch_row_outside :: "FrameData \<Rightarrow> PaneSurfacePatchRow \<Rightarrow> bool" where
  "patch_row_outside f row \<longleftrightarrow>
     row_y row \<ge> fd_height f \<or>
     unat (row_x row) + length (row_cells row) > unat (fd_width f) \<or>
     list_ex (hyperlink_dangling (length (fd_hyperlinks f))) (row_cells row)"

definition same_geometry :: "PaneSurfacePane \<Rightarrow> PaneSurfacePane \<Rightarrow> bool" where
  "same_geometry p q \<longleftrightarrow>
     pane_id p = pane_id q \<and> pane_rect p = pane_rect q \<and> pane_inner_rect p = pane_inner_rect q"

definition validate_patch :: "PaneSurfaceFrame \<Rightarrow> PaneSurfacePatch \<Rightarrow> (unit, Error) result" where
  "validate_patch self patch =
     (if psp_boot_id patch \<noteq> psf_boot_id self
        \<or> psp_projection_revision patch \<noteq> psf_projection_revision self
        \<or> psp_base_surface_revision patch \<noteq> psf_surface_revision self
        \<or> checked_add (psf_surface_revision self) 1 \<noteq> Some (psp_surface_revision patch)
        \<or> psf_popup self \<noteq> None
      then Inl PatchIdentity
      else and_then (FrameData_validate (psf_frame self)) (\<lambda>_.
        if list_ex (patch_row_outside (psf_frame self)) (psp_rows patch) then Inl PatchRowBounds
        else if list_ex (\<lambda>pane. \<not> list_ex (\<lambda>p. same_geometry p pane) (psf_panes self)) (psp_panes patch)
          then Inl PatchGeometry
        else if cursor_outside (psf_frame self) (psp_cursor patch) then Inl PatchCursorBounds
        else Inr ()))"

definition commit_row :: "u16 \<Rightarrow> CellData list \<Rightarrow> PaneSurfacePatchRow \<Rightarrow> CellData list option" where
  "commit_row width cells row =
     slice_write cells (unat (row_y row) * unat width + unat (row_x row)) (row_cells row)"

fun commit_rows :: "u16 \<Rightarrow> CellData list \<Rightarrow> PaneSurfacePatchRow list \<Rightarrow> CellData list option" where
  "commit_rows width cells [] = Some cells"
| "commit_rows width cells (row # rows) =
     Option.bind (commit_row width cells row) (\<lambda>cells. commit_rows width cells rows)"

fun replace_pane :: "PaneSurfacePane list \<Rightarrow> PaneSurfacePane \<Rightarrow> PaneSurfacePane list" where
  "replace_pane [] pane = []"
| "replace_pane (p # ps) pane = (if pane_id p = pane_id pane then pane # ps else p # replace_pane ps pane)"

definition commit_patch :: "PaneSurfaceFrame \<Rightarrow> PaneSurfacePatch \<Rightarrow> PaneSurfaceFrame option" where
  "commit_patch self patch =
     map_option (\<lambda>cells. self\<lparr>
         psf_frame := (psf_frame self)\<lparr>fd_cells := cells, fd_cursor := psp_cursor patch\<rparr>,
         psf_panes := foldl replace_pane (psf_panes self) (psp_panes patch),
         psf_surface_revision := psp_surface_revision patch\<rparr>)
       (commit_rows (fd_width (psf_frame self)) (fd_cells (psf_frame self)) (psp_rows patch))"

text \<open>\<open>apply_patch(&mut self)\<close>: the frame afterwards and the result; \<open>None\<close> is a panic.\<close>

definition apply_patch ::
  "PaneSurfaceFrame \<Rightarrow> PaneSurfacePatch \<Rightarrow> (PaneSurfaceFrame \<times> (unit, Error) result) option" where
  "apply_patch self patch =
     (case validate_patch self patch of
        Inl e \<Rightarrow> Some (self, Inl e)
      | Inr _ \<Rightarrow> map_option (\<lambda>self. (self, Inr ())) (commit_patch self patch))"

section \<open>The screen a frame shows\<close>

text \<open>
  The abstract view of a frame: the cell at each column and row. A patch row replaces a run of cells of
  one row, whatever the layout of the vector.
\<close>

type_synonym screen = "nat \<Rightarrow> nat \<Rightarrow> CellData"

definition screen_of :: "FrameData \<Rightarrow> screen" where
  "screen_of f x y = fd_cells f ! (y * unat (fd_width f) + x)"

definition patch_screen :: "screen \<Rightarrow> PaneSurfacePatchRow \<Rightarrow> screen" where
  "patch_screen s row x y =
     (if y = unat (row_y row) \<and> unat (row_x row) \<le> x \<and> x < unat (row_x row) + length (row_cells row)
      then row_cells row ! (x - unat (row_x row)) else s x y)"

definition geometry_of :: "PaneSurfacePane \<Rightarrow> string \<times> SurfaceRect \<times> SurfaceRect" where
  "geometry_of p = (pane_id p, pane_rect p, pane_inner_rect p)"

definition valid_frame :: "PaneSurfaceFrame \<Rightarrow> bool" where
  "valid_frame f \<longleftrightarrow> FrameData_validate (psf_frame f) = Inr ()"

section \<open>A small surface\<close>

text \<open>A 2 by 2 surface with one pane, used to evaluate the definitions on a concrete input.\<close>

definition demo_cell :: "char \<Rightarrow> CellData" where
  "demo_cell c = \<lparr>cell_symbol = [c], cell_fg = 0, cell_bg = 0, cell_modifier = 0, cell_skip = False,
     cell_hyperlink = None\<rparr>"

definition demo_pane :: PaneSurfacePane where
  "demo_pane = \<lparr>pane_id = ''p1'', pane_content_revision = 1,
     pane_rect = \<lparr>rect_x = 0, rect_y = 0, rect_width = 2, rect_height = 2\<rparr>,
     pane_inner_rect = \<lparr>rect_x = 0, rect_y = 0, rect_width = 2, rect_height = 2\<rparr>,
     pane_scrollbar_rect = None, pane_scroll = None, pane_focused = True, pane_mouse_reporting = False,
     pane_sgr_pixel_mouse = False, pane_alternate_screen_active = False, pane_pixel_width = 0,
     pane_pixel_height = 0\<rparr>"

definition demo_frame :: PaneSurfaceFrame where
  "demo_frame = \<lparr>psf_boot_id = ''boot'', psf_projection_revision = 1, psf_surface_revision = 5,
     psf_frame = \<lparr>fd_cells = map demo_cell ''abcd'', fd_width = 2, fd_height = 2, fd_cursor = None,
       fd_hyperlinks = [], fd_graphics = []\<rparr>,
     psf_panes = [demo_pane], psf_splits = [], psf_popup = None,
     psf_graphics = \<lparr>scene_assets = [], scene_placements = [], scene_retained_assets = []\<rparr>\<rparr>"

definition demo_patch :: PaneSurfacePatch where
  "demo_patch = \<lparr>psp_boot_id = ''boot'', psp_projection_revision = 1, psp_base_surface_revision = 5,
     psp_surface_revision = 6,
     psp_rows = [\<lparr>row_x = 1, row_y = 0, row_cells = [demo_cell CHR ''Z'']\<rparr>],
     psp_panes = [demo_pane\<lparr>pane_focused := False\<rparr>], psp_cursor = None\<rparr>"

definition demo_patched :: PaneSurfaceFrame where
  "demo_patched = demo_frame\<lparr>psf_surface_revision := 6,
     psf_frame := (psf_frame demo_frame)\<lparr>fd_cells := map demo_cell ''aZcd''\<rparr>,
     psf_panes := [demo_pane\<lparr>pane_focused := False\<rparr>]\<rparr>"

section \<open>Lemmas\<close>

lemma FrameData_validate_iff:
  "FrameData_validate f = Inr u \<longleftrightarrow>
     length (fd_cells f) = unat (fd_width f) * unat (fd_height f) \<and>
     (\<forall>c \<in> set (fd_cells f). \<not> hyperlink_dangling (length (fd_hyperlinks f)) c) \<and>
     \<not> cursor_outside f (fd_cursor f)"
  by (auto simp: FrameData_validate_def list_ex_iff)

lemma validate_patch_iff:
  "validate_patch f p = Inr u \<longleftrightarrow>
     psp_boot_id p = psf_boot_id f \<and> psp_projection_revision p = psf_projection_revision f \<and>
     psp_base_surface_revision p = psf_surface_revision f \<and>
     checked_add (psf_surface_revision f) 1 = Some (psp_surface_revision p) \<and> psf_popup f = None \<and>
     valid_frame f \<and> (\<forall>r \<in> set (psp_rows p). \<not> patch_row_outside (psf_frame f) r) \<and>
     (\<forall>q \<in> set (psp_panes p). \<exists>p' \<in> set (psf_panes f). same_geometry p' q) \<and>
     \<not> cursor_outside (psf_frame f) (psp_cursor p)"
  by (auto simp: validate_patch_def valid_frame_def list_ex_iff)

lemma row_end_le:
  assumes "y < h" and "x + n \<le> w"
  shows "y * w + x + n \<le> w * (h :: nat)"
proof -
  have "Suc y * w \<le> h * w" using assms(1) by (intro mult_le_mono1) simp
  with assms(2) show ?thesis by (simp add: mult.commute)
qed

lemma row_index_lt: "y < h \<Longrightarrow> x < w \<Longrightarrow> y * w + x < w * (h :: nat)"
  using row_end_le [of y h x 1 w] by simp

lemma same_row_iff:
  assumes "x < w" and "a + n \<le> w"
  shows "b * w + a \<le> y * w + x \<and> y * w + x < b * w + a + n \<longleftrightarrow> y = b \<and> a \<le> x \<and> x < a + (n :: nat)"
    (is "?L \<longleftrightarrow> ?R")
proof
  assume L: ?L
  have "\<not> y < b"
  proof
    assume "y < b"
    then have "y * w + w \<le> b * w" using mult_le_mono1 [of "Suc y" b w] by simp
    with L assms show False by simp
  qed
  moreover have "\<not> b < y"
  proof
    assume "b < y"
    then have "b * w + w \<le> y * w" using mult_le_mono1 [of "Suc b" y w] by simp
    with L assms show False by simp
  qed
  ultimately have "y = b" by simp
  with L show ?R by simp
qed auto

lemma foldl_patch_screen_cong:
  "s x y = t x y \<Longrightarrow> foldl patch_screen s rows x y = foldl patch_screen t rows x y"
proof (induction rows arbitrary: s t)
  case (Cons row rows)
  from Cons.prems have "patch_screen s row x y = patch_screen t row x y"
    by (simp add: patch_screen_def)
  then have "foldl patch_screen (patch_screen s row) rows x y = foldl patch_screen (patch_screen t row) rows x y"
    by (rule Cons.IH)
  then show ?case by simp
qed simp

lemma cursor_outside_update [simp]:
  "cursor_outside (f\<lparr>fd_cells := cs\<rparr>) c = cursor_outside f c"
  "cursor_outside (f\<lparr>fd_cursor := c'\<rparr>) c = cursor_outside f c"
  by (simp_all add: cursor_outside_def split: option.split)

lemma commit_row_inside:
  assumes "length cells = unat w * unat h" and "row_y row < h"
    and "unat (row_x row) + length (row_cells row) \<le> unat w"
  shows "\<exists>cells'. commit_row w cells row = Some cells' \<and> length cells' = length cells \<and>
    set cells' \<subseteq> set cells \<union> set (row_cells row) \<and>
    (\<forall>x < unat w. \<forall>y < unat h. cells' ! (y * unat w + x) =
      patch_screen (\<lambda>x y. cells ! (y * unat w + x)) row x y)"
proof -
  let ?s = "unat (row_y row) * unat w + unat (row_x row)"
  have "?s + length (row_cells row) \<le> length cells"
    using row_end_le [of "unat (row_y row)" "unat h"] assms by (simp add: word_less_nat_alt)
  then obtain cells' where c: "slice_write cells ?s (row_cells row) = Some cells'"
    by (auto simp: slice_write_def)
  have "cells' ! (y * unat w + x) = patch_screen (\<lambda>x y. cells ! (y * unat w + x)) row x y"
    if "x < unat w" "y < unat h" for x y
    using nth_slice_write [OF c] row_index_lt [OF that(2,1)] assms(1)
      same_row_iff [OF that(1) assms(3), of "unat (row_y row)" y] by (auto simp: patch_screen_def)
  with c length_slice_write [OF c] set_slice_write [OF c] show ?thesis
    by (intro exI [of _ cells']) (auto simp: commit_row_def)
qed

lemma commit_rows_inside:
  assumes "length cells = unat w * unat h"
    and "\<forall>row \<in> set rows. row_y row < h \<and> unat (row_x row) + length (row_cells row) \<le> unat w"
  shows "\<exists>cells'. commit_rows w cells rows = Some cells' \<and> length cells' = length cells \<and>
    set cells' \<subseteq> set cells \<union> (\<Union>row \<in> set rows. set (row_cells row)) \<and>
    (\<forall>x < unat w. \<forall>y < unat h. cells' ! (y * unat w + x) =
       foldl patch_screen (\<lambda>x y. cells ! (y * unat w + x)) rows x y)"
  using assms
proof (induction rows arbitrary: cells)
  case (Cons row rows)
  from Cons.prems obtain c1 where c1: "commit_row w cells row = Some c1" "length c1 = length cells"
    "set c1 \<subseteq> set cells \<union> set (row_cells row)"
    and n1: "\<And>x y. x < unat w \<Longrightarrow> y < unat h \<Longrightarrow> c1 ! (y * unat w + x) =
      patch_screen (\<lambda>x y. cells ! (y * unat w + x)) row x y"
    using commit_row_inside [of cells w h row] by auto
  from Cons.IH [of c1] Cons.prems c1 obtain c2 where c2: "commit_rows w c1 rows = Some c2"
    "length c2 = length c1" "set c2 \<subseteq> set c1 \<union> (\<Union>row \<in> set rows. set (row_cells row))"
    and n2: "\<forall>x < unat w. \<forall>y < unat h. c2 ! (y * unat w + x) =
       foldl patch_screen (\<lambda>x y. c1 ! (y * unat w + x)) rows x y"
    by auto
  have "c2 ! (y * unat w + x) = foldl patch_screen (\<lambda>x y. cells ! (y * unat w + x)) (row # rows) x y"
    if "x < unat w" "y < unat h" for x y
  proof -
    have "c2 ! (y * unat w + x) = foldl patch_screen (\<lambda>x y. c1 ! (y * unat w + x)) rows x y"
      using n2 that by blast
    also have "\<dots> = foldl patch_screen (patch_screen (\<lambda>x y. cells ! (y * unat w + x)) row) rows x y"
      by (rule foldl_patch_screen_cong) (rule n1 [OF that])
    finally show ?thesis by simp
  qed
  moreover have "commit_rows w cells (row # rows) = Some c2" "length c2 = length cells"
    "set c2 \<subseteq> set cells \<union> (\<Union>row \<in> set (row # rows). set (row_cells row))"
    using c1 c2 by auto
  ultimately show ?case by blast
qed simp

lemma same_geometry_iff: "same_geometry p q \<longleftrightarrow> geometry_of p = geometry_of q"
  by (auto simp: same_geometry_def geometry_of_def)

lemma map_replace_pane:
  assumes "distinct (map pane_id ps)" and "geometry_of q \<in> set (map geometry_of ps)"
  shows "map geometry_of (replace_pane ps q) = map geometry_of ps"
  using assms by (induction ps) (auto simp: geometry_of_def image_iff)

lemma map_replace_panes:
  assumes "distinct (map pane_id ps)" and "\<forall>q \<in> set qs. geometry_of q \<in> set (map geometry_of ps)"
  shows "map geometry_of (foldl replace_pane ps qs) = map geometry_of ps"
  using assms
proof (induction qs arbitrary: ps)
  case (Cons q qs)
  then have eq: "map geometry_of (replace_pane ps q) = map geometry_of ps"
    by (intro map_replace_pane) auto
  have "map pane_id xs = map fst (map geometry_of xs)" for xs
    by (simp add: geometry_of_def)
  with Cons.prems eq have "map geometry_of (foldl replace_pane (replace_pane ps q) qs)
      = map geometry_of (replace_pane ps q)"
    by (intro Cons.IH) (simp_all del: set_map map_map)
  with eq show ?case by simp
qed simp

lemma replace_pane_ids [simp]: "map pane_id (replace_pane ps q) = map pane_id ps"
  by (induction ps) auto

lemma replace_panes_ids: "map pane_id (foldl replace_pane ps qs) = map pane_id ps"
  by (induction qs arbitrary: ps) simp_all

text \<open>The pane of an id, the first one as the code finds it.\<close>

definition pane_of :: "PaneSurfacePane list \<Rightarrow> string \<Rightarrow> PaneSurfacePane option" where
  "pane_of ps k = List.find (\<lambda>q. pane_id q = k) ps"

lemma pane_of_append: "pane_of (xs @ ys) k = (case pane_of xs k of Some q \<Rightarrow> Some q | None \<Rightarrow> pane_of ys k)"
  by (induction xs) (auto simp: pane_of_def)

lemma pane_of_replace_pane:
  "pane_id q \<in> set (map pane_id ps) \<Longrightarrow> pane_of (replace_pane ps q) k = (if pane_id q = k then Some q else pane_of ps k)"
  by (induction ps) (auto simp: pane_of_def)

lemma pane_of_replace_panes:
  assumes "\<forall>q \<in> set qs. pane_id q \<in> set (map pane_id ps)"
  shows "pane_of (foldl replace_pane ps qs) k = (case pane_of (rev qs) k of Some q \<Rightarrow> Some q | None \<Rightarrow> pane_of ps k)"
  using assms
proof (induction qs arbitrary: ps)
  case (Cons q qs)
  have "pane_of (foldl replace_pane (replace_pane ps q) qs) k
      = (case pane_of (rev qs) k of Some r \<Rightarrow> Some r | None \<Rightarrow> pane_of (replace_pane ps q) k)"
    by (rule Cons.IH) (use Cons.prems in \<open>simp del: set_map\<close>)
  then show ?case using Cons.prems
    by (simp add: pane_of_append pane_of_replace_pane split: option.split) (simp add: pane_of_def)
qed (simp add: pane_of_def)

lemma commit_patch_total:
  assumes "validate_patch f p = Inr ()"
  shows "\<exists>g. commit_patch f p = Some g \<and> valid_frame g \<and>
    psf_boot_id g = psf_boot_id f \<and> psf_projection_revision g = psf_projection_revision f \<and>
    unat (psf_surface_revision g) = unat (psf_surface_revision f) + 1 \<and> psf_popup g = psf_popup f \<and>
    psf_panes g = foldl replace_pane (psf_panes f) (psp_panes p) \<and>
    fd_width (psf_frame g) = fd_width (psf_frame f) \<and> fd_height (psf_frame g) = fd_height (psf_frame f) \<and>
    fd_hyperlinks (psf_frame g) = fd_hyperlinks (psf_frame f) \<and>
    fd_cursor (psf_frame g) = psp_cursor p \<and>
    (\<forall>x < unat (fd_width (psf_frame f)). \<forall>y < unat (fd_height (psf_frame f)).
       screen_of (psf_frame g) x y = foldl patch_screen (screen_of (psf_frame f)) (psp_rows p) x y)"
proof -
  let ?f = "psf_frame f"
  have v: "FrameData_validate ?f = Inr ()" and r: "\<forall>r \<in> set (psp_rows p). \<not> patch_row_outside ?f r"
    and c: "\<not> cursor_outside ?f (psp_cursor p)"
    and rev: "unat (psp_surface_revision p) = unat (psf_surface_revision f) + 1"
    using assms by (auto simp: validate_patch_iff valid_frame_def checked_add_Some)
  from v have len: "length (fd_cells ?f) = unat (fd_width ?f) * unat (fd_height ?f)"
    by (simp add: FrameData_validate_iff)
  with r obtain cells where cells: "commit_rows (fd_width ?f) (fd_cells ?f) (psp_rows p) = Some cells"
    "length cells = length (fd_cells ?f)"
    "set cells \<subseteq> set (fd_cells ?f) \<union> (\<Union>row \<in> set (psp_rows p). set (row_cells row))"
    and n: "\<forall>x < unat (fd_width ?f). \<forall>y < unat (fd_height ?f). cells ! (y * unat (fd_width ?f) + x) =
       foldl patch_screen (\<lambda>x y. fd_cells ?f ! (y * unat (fd_width ?f) + x)) (psp_rows p) x y"
    using commit_rows_inside [of "fd_cells ?f" "fd_width ?f" "fd_height ?f" "psp_rows p"]
    by (auto simp: patch_row_outside_def not_le not_less)
  have links: "\<forall>c \<in> set cells. \<not> hyperlink_dangling (length (fd_hyperlinks ?f)) c"
    using cells(3) v r by (force simp: FrameData_validate_iff patch_row_outside_def list_ex_iff)
  have "screen_of ?f = (\<lambda>x y. fd_cells ?f ! (y * unat (fd_width ?f) + x))"
    by (intro ext) (simp add: screen_of_def)
  with n links cells(1,2) len c rev show ?thesis
    by (auto simp: commit_patch_def valid_frame_def FrameData_validate_iff screen_of_def)
qed

lemma apply_patch_cases:
  "(\<exists>g. apply_patch f p = Some (g, Inr ())) \<or> (\<exists>e. apply_patch f p = Some (f, Inl e))"
proof (cases "validate_patch f p")
  case (Inr u)
  then obtain g where "commit_patch f p = Some g"
    using commit_patch_total [of f p] by auto
  with Inr show ?thesis by (simp add: apply_patch_def)
qed (simp add: apply_patch_def)

section \<open>The contract of a surface update\<close>

text \<open>
  What the projection relies on, whichever encoding carried an update: an accepted update names the
  revision it was made against, keeps the boot and the grid size, moves the surface revision on by
  exactly one and leaves a valid frame.
\<close>

locale surface_update =
  fixes upd :: "PaneSurfaceFrame \<Rightarrow> 'u \<Rightarrow> (PaneSurfaceFrame, 'e) result"
    and base_revision :: "'u \<Rightarrow> u64"
  assumes upd_base: "upd f u = Inr g \<Longrightarrow> base_revision u = psf_surface_revision f"
    and upd_revision: "upd f u = Inr g \<Longrightarrow> unat (psf_surface_revision g) = unat (psf_surface_revision f) + 1"
    and upd_boot: "upd f u = Inr g \<Longrightarrow> psf_boot_id g = psf_boot_id f"
    and upd_size: "upd f u = Inr g \<Longrightarrow>
      fd_width (psf_frame g) = fd_width (psf_frame f) \<and> fd_height (psf_frame g) = fd_height (psf_frame f)"
    and upd_valid: "upd f u = Inr g \<Longrightarrow> valid_frame f \<Longrightarrow> valid_frame g"
begin

fun run :: "PaneSurfaceFrame \<Rightarrow> 'u list \<Rightarrow> (PaneSurfaceFrame, 'e) result" where
  "run f [] = Inr f"
| "run f (u # us) = and_then (upd f u) (\<lambda>g. run g us)"

lemma run_append: "run f (us @ vs) = and_then (run f us) (\<lambda>g. run g vs)"
proof (induction us arbitrary: f)
  case (Cons u us)
  then show ?case by (cases "upd f u") simp_all
qed simp

lemma run_invariant:
  "run f us = Inr g \<Longrightarrow> valid_frame f \<Longrightarrow>
     valid_frame g \<and> psf_boot_id g = psf_boot_id f \<and>
     unat (psf_surface_revision g) = unat (psf_surface_revision f) + length us \<and>
     fd_width (psf_frame g) = fd_width (psf_frame f) \<and> fd_height (psf_frame g) = fd_height (psf_frame f)"
proof (induction us arbitrary: f)
  case (Cons u us)
  from Cons.prems(1) obtain h where h: "upd f u = Inr h" "run h us = Inr g" by auto
  from upd_valid [OF h(1) Cons.prems(2)] have "valid_frame h" .
  from Cons.IH [OF h(2) this] upd_revision [OF h(1)] upd_boot [OF h(1)] upd_size [OF h(1)]
  show ?case by simp
qed simp

lemma run_revision: "run f us = Inr g \<Longrightarrow> unat (psf_surface_revision g) = unat (psf_surface_revision f) + length us"
proof (induction us arbitrary: f)
  case (Cons u us)
  from Cons.prems obtain h where h: "upd f u = Inr h" "run h us = Inr g" by auto
  with Cons.IH [OF h(2)] upd_revision [OF h(1)] show ?case by simp
qed simp

lemma no_replay: "run f us = Inr g \<Longrightarrow> distinct (map base_revision us)"
proof (induction us arbitrary: g rule: rev_induct)
  case (snoc u us)
  from snoc.prems obtain h where h: "run f us = Inr h" "upd h u = Inr g"
    by (auto simp: run_append)
  have "base_revision v \<noteq> base_revision u" if v: "v \<in> set us" for v
  proof -
    from v obtain xs ys where us: "us = xs @ v # ys" by (auto simp: in_set_conv_decomp)
    with h(1) obtain k k' where k: "run f xs = Inr k" "upd k v = Inr k'"
      by (auto simp: run_append)
    have "unat (base_revision v) < unat (base_revision u)"
      using run_revision [OF k(1)] run_revision [OF h(1)] upd_base [OF k(2)] upd_base [OF h(2)] us
      by simp
    then show ?thesis by auto
  qed
  then have "base_revision u \<notin> base_revision ` set us" by (metis imageE)
  with snoc.IH [OF h(1)] show ?case by simp
qed simp

end

text \<open>Patches meet the contract.\<close>

definition patch_update :: "PaneSurfaceFrame \<Rightarrow> PaneSurfacePatch \<Rightarrow> (PaneSurfaceFrame, Error) result" where
  "patch_update f p = (case apply_patch f p of
      Some (g, Inr _) \<Rightarrow> Inr g | Some (_, Inl e) \<Rightarrow> Inl e | None \<Rightarrow> Inl PatchRowBounds)"

lemma patch_update_iff:
  "patch_update f p = Inr g \<longleftrightarrow> validate_patch f p = Inr () \<and> commit_patch f p = Some g"
  using commit_patch_total [of f p]
  by (cases "validate_patch f p") (auto simp: patch_update_def apply_patch_def)

interpretation patching: surface_update patch_update psp_base_surface_revision
proof
  fix f p g
  assume "patch_update f p = Inr g"
  then have v: "validate_patch f p = Inr ()" and g: "commit_patch f p = Some g"
    by (simp_all add: patch_update_iff)
  note t = commit_patch_total [OF v, unfolded g]
  from v show "psp_base_surface_revision p = psf_surface_revision f"
    by (simp add: validate_patch_iff)
  from t show "unat (psf_surface_revision g) = unat (psf_surface_revision f) + 1"
    and "psf_boot_id g = psf_boot_id f" and "valid_frame g"
    and "fd_width (psf_frame g) = fd_width (psf_frame f) \<and> fd_height (psf_frame g) = fd_height (psf_frame f)"
    by auto
qed

lemma demo_frame_valid: "valid_frame demo_frame"
  by (simp add: valid_frame_def FrameData_validate_iff demo_frame_def demo_cell_def
      hyperlink_dangling_def cursor_outside_def)

lemma demo_patch_applies: "apply_patch demo_frame demo_patch = Some (demo_patched, Inr ())"
proof -
  have "validate_patch demo_frame demo_patch = Inr ()"
    by (simp add: validate_patch_iff demo_frame_valid)
      (simp add: demo_frame_def demo_patch_def checked_add_def patch_row_outside_def demo_cell_def
        hyperlink_dangling_def cursor_outside_def same_geometry_def)
  moreover have "commit_patch demo_frame demo_patch = Some demo_patched"
    by (simp add: commit_patch_def demo_frame_def demo_patch_def demo_patched_def commit_row_def
        slice_write_def demo_pane_def)
  ultimately show ?thesis by (simp add: apply_patch_def)
qed

section \<open>Properties\<close>

text \<open>
  Applying a patch never panics, whatever the frame and the patch: the checks that can reject it
  imply every slice bound of the commit. A rejected patch leaves the frame untouched.
\<close>

theorem apply_patch_atomic:
  "(\<exists>g. apply_patch f p = Some (g, Inr ())) \<or> (\<exists>e. apply_patch f p = Some (f, Inl e))"
  by (rule apply_patch_cases)

text \<open>
  C27. An applied patch refines the row updates on the screen: every cell is the one the patch's rows
  write there, the last row winning, and otherwise the cell that was there; the cursor is the patch's.
  A pane that the patch names is what its last pane of this id says, every other pane is kept, and the
  panes stay in their places. The frame is valid again, its revision is the next one, and everything else
  (size, hyperlinks, graphics, splits, boot, projection) is kept; there was no popup and there is none.
\<close>

theorem apply_patch_screen:
  assumes "apply_patch f p = Some (g, Inr ())"
  shows "(\<forall>x < unat (fd_width (psf_frame f)). \<forall>y < unat (fd_height (psf_frame f)).
      screen_of (psf_frame g) x y = foldl patch_screen (screen_of (psf_frame f)) (psp_rows p) x y) \<and>
    valid_frame g \<and> fd_cursor (psf_frame g) = psp_cursor p \<and>
    fd_width (psf_frame g) = fd_width (psf_frame f) \<and> fd_height (psf_frame g) = fd_height (psf_frame f) \<and>
    fd_hyperlinks (psf_frame g) = fd_hyperlinks (psf_frame f) \<and> fd_graphics (psf_frame g) = fd_graphics (psf_frame f) \<and>
    map pane_id (psf_panes g) = map pane_id (psf_panes f) \<and>
    (\<forall>k. pane_of (psf_panes g) k = (case pane_of (rev (psp_panes p)) k of Some q \<Rightarrow> Some q | None \<Rightarrow> pane_of (psf_panes f) k)) \<and>
    psf_boot_id g = psf_boot_id f \<and> psf_projection_revision g = psf_projection_revision f \<and>
    unat (psf_surface_revision g) = unat (psf_surface_revision f) + 1 \<and>
    psf_splits g = psf_splits f \<and> psf_graphics g = psf_graphics f \<and> psf_popup f = None \<and> psf_popup g = None"
proof -
  from assms have v: "validate_patch f p = Inr ()" and c: "commit_patch f p = Some g"
    by (auto simp: apply_patch_def split: sum.splits)
  from v have known: "\<forall>q \<in> set (psp_panes p). pane_id q \<in> set (map pane_id (psf_panes f))"
    by (simp add: validate_patch_iff same_geometry_def) (metis image_eqI)
  have "psf_panes g = foldl replace_pane (psf_panes f) (psp_panes p) \<and> fd_graphics (psf_frame g) = fd_graphics (psf_frame f) \<and>
      psf_splits g = psf_splits f \<and> psf_graphics g = psf_graphics f"
    using c by (auto simp: commit_patch_def)
  moreover have "psf_popup f = None" using v by (simp add: validate_patch_iff)
  ultimately show ?thesis
    using commit_patch_total [OF v] c replace_panes_ids pane_of_replace_panes [OF known] by auto
qed

theorem apply_patch_screen_witness:
  "screen_of (psf_frame demo_patched) 1 0 = demo_cell CHR ''Z'' \<and>
   screen_of (psf_frame demo_patched) 0 1 = screen_of (psf_frame demo_frame) 0 1 \<and>
   valid_frame demo_patched \<and>
   pane_of (psf_panes demo_patched) (pane_id demo_pane) = Some (demo_pane\<lparr>pane_focused := False\<rparr>)"
proof -
  have w: "unat (fd_width (psf_frame demo_frame)) = 2" "unat (fd_height (psf_frame demo_frame)) = 2"
    by (simp_all add: demo_frame_def)
  have "foldl patch_screen (screen_of (psf_frame demo_frame)) (psp_rows demo_patch) 1 0 = demo_cell CHR ''Z''"
    "foldl patch_screen (screen_of (psf_frame demo_frame)) (psp_rows demo_patch) 0 1
      = screen_of (psf_frame demo_frame) 0 1"
    by (simp_all add: demo_patch_def patch_screen_def)
  moreover have "pane_of (rev (psp_panes demo_patch)) (pane_id demo_pane) = Some (demo_pane\<lparr>pane_focused := False\<rparr>)"
    by (simp add: demo_patch_def pane_of_def demo_pane_def)
  ultimately show ?thesis using apply_patch_screen [OF demo_patch_applies] w by simp
qed

text \<open>
  A patch never moves a pane: when the surface's pane ids are distinct, the ids and both rects of
  all its panes are the same, in the same order, after any applied patch.
\<close>

theorem apply_patch_geometry:
  assumes "apply_patch f p = Some (g, Inr ())" and "distinct (map pane_id (psf_panes f))"
  shows "map geometry_of (psf_panes g) = map geometry_of (psf_panes f)"
proof -
  from assms(1) have v: "validate_patch f p = Inr ()" and c: "commit_patch f p = Some g"
    by (auto simp: apply_patch_def split: sum.splits)
  from commit_patch_total [OF v] c have "psf_panes g = foldl replace_pane (psf_panes f) (psp_panes p)"
    by auto
  moreover from v have "\<forall>q \<in> set (psp_panes p). geometry_of q \<in> set (map geometry_of (psf_panes f))"
    by (simp add: validate_patch_iff same_geometry_iff) (metis image_eqI)
  ultimately show ?thesis
    using assms(2) by (simp only: map_replace_panes)
qed

theorem apply_patch_geometry_witness:
  "map geometry_of (psf_panes demo_patched) = map geometry_of (psf_panes demo_frame)"
  by (rule apply_patch_geometry [OF demo_patch_applies]) (simp add: demo_frame_def)

text \<open>
  C2. Patches are applied exactly once and in order: in any run of patches a surface accepts, each was
  made against a different revision, the last surface is as many revisions on as there are patches,
  and it is valid with the boot and size it began with.
\<close>

theorem patch_run_fenced:
  assumes "patching.run f ps = Inr g" and "valid_frame f"
  shows "distinct (map psp_base_surface_revision ps) \<and> valid_frame g \<and> psf_boot_id g = psf_boot_id f \<and>
    unat (psf_surface_revision g) = unat (psf_surface_revision f) + length ps \<and>
    fd_width (psf_frame g) = fd_width (psf_frame f) \<and> fd_height (psf_frame g) = fd_height (psf_frame f)"
  using patching.no_replay [OF assms(1)] patching.run_invariant [OF assms] by blast

theorem patch_run_fenced_witness:
  "patching.run demo_frame [demo_patch] = Inr demo_patched \<and>
   unat (psf_surface_revision demo_patched) = unat (psf_surface_revision demo_frame) + 1"
proof -
  have "patching.run demo_frame [demo_patch] = Inr demo_patched"
    by (simp add: patching.run.simps patch_update_def demo_patch_applies)
  with patch_run_fenced [OF this demo_frame_valid] show ?thesis by simp
qed

end
