(* ===== verification/Codec.thy ===== *)
theory Codec
  imports Wire
begin

text \<open>
  Length-prefixed framing, \<open>crates/sheprd-protocol/src/codec.rs\<close>, and the clipboard-image encoder
  built on it, \<open>clipboard.rs\<close>. The serializer is bincode, code outside the repository: it is the
  argument \<open>enc\<close> (the buffers it hands the writer, or its own error) of the encoders and the
  argument \<open>dec\<close> (the value and the number of bytes it used) of the decoders.
\<close>

section \<open>Limits\<close>

definition MAX_FRAME_SIZE :: nat where
  "MAX_FRAME_SIZE = 2 * 1024 * 1024"

definition MAX_GRAPHICS_FRAME_SIZE :: nat where
  "MAX_GRAPHICS_FRAME_SIZE = 32 * 1024 * 1024"

section \<open>Encoding\<close>

text \<open>
  The bounded writer: \<open>write\<close> refuses a buffer that would pass the limit, with an I/O error that
  wraps \<open>FrameLimit\<close>. bincode hands the writer its buffers in order and stops at the first error.
\<close>

record Bounded =
  bd_bytes :: bytes
  bd_limit :: usize

definition Bounded_write :: "Bounded \<Rightarrow> bytes \<Rightarrow> (Bounded, io_kind) result" where
  "Bounded_write w buf =
     (if length buf > bd_limit w - length (bd_bytes w) then Inl InvalidData
      else Inr (w\<lparr>bd_bytes := bd_bytes w @ buf\<rparr>))"

fun write_chunks :: "Bounded \<Rightarrow> bytes list \<Rightarrow> (Bounded, Error) result" where
  "write_chunks w [] = Inr w"
| "write_chunks w (c # cs) =
     (case Bounded_write w c of
        Inl k \<Rightarrow> Inl (Encode (EncodeIo k ''frame exceeds limit''))
      | Inr w' \<Rightarrow> write_chunks w' cs)"

definition encode_message ::
  "('m \<Rightarrow> (bytes list, ext_error) result) \<Rightarrow> 'm \<Rightarrow> usize \<Rightarrow> (bytes, Error) result" where
  "encode_message enc message limit =
     (let out = \<lparr>bd_bytes = replicate 4 0, bd_limit = min limit (2 ^ 32 - 1) + 4\<rparr> in
      case enc message of
        Inl e \<Rightarrow> Inl (Encode (EncodeOther e))
      | Inr chunks \<Rightarrow>
          and_then (write_chunks out chunks) (\<lambda>out.
            let len = of_nat (length (bd_bytes out) - 4) :: u32 in
            if len = 0 then Inl EmptyFrame
            else Inr (le_bytes_32 len @ drop 4 (bd_bytes out))))"

definition write_message ::
  "('m \<Rightarrow> (bytes list, ext_error) result) \<Rightarrow> bytes \<Rightarrow> 'm \<Rightarrow> usize \<Rightarrow> (bytes, Error) result" where
  "write_message enc writer message limit =
     and_then (encode_message enc message limit) (\<lambda>frame. Inr (writer @ frame))"

section \<open>Decoding\<close>

definition decode_payload ::
  "(bytes \<Rightarrow> ('m \<times> usize, ext_error) result) \<Rightarrow> bytes \<Rightarrow> ('m, Error) result" where
  "decode_payload dec payload =
     (if payload = [] \<or> length payload > MAX_GRAPHICS_FRAME_SIZE then Inl FrameLimit
      else case dec payload of
        Inl e \<Rightarrow> Inl (Decode e)
      | Inr (message, used) \<Rightarrow>
          if used \<noteq> length payload then Inl TrailingBytes else Inr message)"

text \<open>
  \<open>Read::read_exact\<close> on a source that holds the given bytes and then ends: what is left of the
  source, and the bytes read or \<open>UnexpectedEof\<close>.
\<close>

definition read_exact :: "bytes \<Rightarrow> nat \<Rightarrow> bytes \<times> (bytes, Error) result" where
  "read_exact source n =
     (if n \<le> length source then (drop n source, Inr (take n source))
      else ([], Inl (Io UnexpectedEof)))"

definition read_message ::
  "(bytes \<Rightarrow> ('m \<times> usize, ext_error) result) \<Rightarrow> bytes \<Rightarrow> usize \<Rightarrow> bytes \<times> ('m, Error) result" where
  "read_message dec source limit =
     (case read_exact source 4 of
        (rest, Inl e) \<Rightarrow> (rest, Inl e)
      | (rest, Inr prefix) \<Rightarrow>
          let len = unat (of_le_32 prefix) in
          if len = 0 \<or> len > min limit MAX_GRAPHICS_FRAME_SIZE then (rest, Inl FrameLimit)
          else case read_exact rest len of
            (rest', Inl e) \<Rightarrow> (rest', Inl e)
          | (rest', Inr payload) \<Rightarrow> (rest', decode_payload dec payload))"

section \<open>Streams of messages\<close>

text \<open>Several messages written to, and read from, one stream in sequence.\<close>

fun write_messages ::
  "('m \<Rightarrow> (bytes list, ext_error) result) \<Rightarrow> bytes \<Rightarrow> 'm list \<Rightarrow> usize \<Rightarrow> (bytes, Error) result" where
  "write_messages enc writer [] limit = Inr writer"
| "write_messages enc writer (m # ms) limit =
     and_then (write_message enc writer m limit) (\<lambda>w. write_messages enc w ms limit)"

fun read_messages ::
  "(bytes \<Rightarrow> ('m \<times> usize, ext_error) result) \<Rightarrow> bytes \<Rightarrow> nat \<Rightarrow> usize \<Rightarrow> bytes \<times> ('m list, Error) result" where
  "read_messages dec source 0 limit = (source, Inr [])"
| "read_messages dec source (Suc n) limit =
     (case read_message dec source limit of
        (rest, Inl e) \<Rightarrow> (rest, Inl e)
      | (rest, Inr m) \<Rightarrow>
          (case read_messages dec rest n limit of
             (rest', Inl e) \<Rightarrow> (rest', Inl e)
           | (rest', Inr ms) \<Rightarrow> (rest', Inr (m # ms))))"

section \<open>Clipboard images\<close>

definition MAX_CLIPBOARD_IMAGE_PAYLOAD :: nat where
  "MAX_CLIPBOARD_IMAGE_PAYLOAD = 16 * 1024 * 1024"

definition MAX_CLIPBOARD_IMAGE_TARGET_BYTES :: nat where
  "MAX_CLIPBOARD_IMAGE_TARGET_BYTES = 1024"

definition MAX_CLIPBOARD_IMAGE_FRAME_SIZE :: nat where
  "MAX_CLIPBOARD_IMAGE_FRAME_SIZE = MAX_CLIPBOARD_IMAGE_PAYLOAD + 2048"

fun validate_clipboard_image_target :: "ClientClipboardImageTarget \<Rightarrow> (unit, Error) result" where
  "validate_clipboard_image_target DirectTerminal = Inr ()"
| "validate_clipboard_image_target (Pane i) =
     (if i \<noteq> [] \<and> length i \<le> MAX_CLIPBOARD_IMAGE_TARGET_BYTES then Inr ()
      else Inl ClipboardImageTarget)"
| "validate_clipboard_image_target (Popup i) =
     (if i \<noteq> [] \<and> length i \<le> MAX_CLIPBOARD_IMAGE_TARGET_BYTES then Inr ()
      else Inl ClipboardImageTarget)"

definition clipboard_extension :: "string \<Rightarrow> string option" where
  "clipboard_extension extension =
     (case find (eq_ignore_ascii_case extension) [''png'', ''jpg'', ''gif'', ''webp'', ''bmp''] of
        Some e \<Rightarrow> Some e
      | None \<Rightarrow> if eq_ignore_ascii_case extension ''jpeg'' then Some ''jpg'' else None)"

definition encode_clipboard_image ::
  "(ClientMessage \<Rightarrow> (bytes list, ext_error) result) \<Rightarrow> ClientClipboardImageTarget \<Rightarrow> string \<Rightarrow> bytes
     \<Rightarrow> (bytes, Error) result" where
  "encode_clipboard_image enc target extension data =
     and_then (validate_clipboard_image_target target) (\<lambda>_.
       if data = [] \<or> length data > MAX_CLIPBOARD_IMAGE_PAYLOAD then Inl ClipboardImageSize
       else and_then (ok_or (clipboard_extension extension) ClipboardImageExtension) (\<lambda>extension.
         encode_message enc (CM_ClipboardImage target extension data) MAX_CLIPBOARD_IMAGE_FRAME_SIZE))"

section \<open>Lemmas\<close>

lemma write_chunks_ok:
  "write_chunks w cs = Inr w' \<Longrightarrow>
     w' = w\<lparr>bd_bytes := bd_bytes w @ concat cs\<rparr> \<and> length (concat cs) \<le> bd_limit w - length (bd_bytes w)"
proof (induction cs arbitrary: w)
  case (Cons c cs)
  then obtain v where v: "Bounded_write w c = Inr v" and rest: "write_chunks v cs = Inr w'"
    by (auto split: sum.splits)
  from v have "v = w\<lparr>bd_bytes := bd_bytes w @ c\<rparr>" "length c \<le> bd_limit w - length (bd_bytes w)"
    by (auto simp: Bounded_write_def split: if_splits)
  with Cons.IH [OF rest] show ?case by auto
qed simp

lemma write_chunks_fits:
  "length (concat cs) \<le> bd_limit w - length (bd_bytes w) \<Longrightarrow>
     write_chunks w cs = Inr (w\<lparr>bd_bytes := bd_bytes w @ concat cs\<rparr>)"
  by (induction cs arbitrary: w) (auto simp: Bounded_write_def)

lemma encode_message_iff:
  "encode_message enc m limit = Inr frame \<longleftrightarrow>
     (\<exists>cs. enc m = Inr cs \<and> concat cs \<noteq> [] \<and> length (concat cs) \<le> min limit (2 ^ 32 - 1) \<and>
        frame = le_bytes_32 (of_nat (length (concat cs))) @ concat cs)"
  (is "?L \<longleftrightarrow> ?R")
proof (cases "enc m")
  case (Inr cs)
  let ?n = "length (concat cs)"
  let ?out = "\<lparr>bd_bytes = replicate 4 0, bd_limit = min limit (2 ^ 32 - 1) + 4\<rparr>"
  show ?thesis
  proof (cases "?n \<le> min limit (2 ^ 32 - 1)")
    case True
    then have "write_chunks ?out cs = Inr (?out\<lparr>bd_bytes := replicate 4 0 @ concat cs\<rparr>)"
      by (simp add: write_chunks_fits)
    moreover have "of_nat ?n = (0 :: u32) \<longleftrightarrow> ?n = 0"
      using True by (intro of_nat_u32_eq_0) simp
    ultimately show ?thesis
      using Inr True by (auto simp: encode_message_def Let_def simp del: length_concat)
  next
    case False
    then have "write_chunks ?out cs \<noteq> Inr w" for w
      using write_chunks_ok [of ?out cs w] by auto
    with Inr False show ?thesis
      by (cases "write_chunks ?out cs") (auto simp: encode_message_def Let_def)
  qed
qed (simp add: encode_message_def)

lemma encode_message_prefix:
  assumes "encode_message enc m limit = Inr frame"
  shows "unat (of_le_32 frame) = length frame - 4"
proof -
  from assms obtain cs where "length (concat cs) \<le> 2 ^ 32 - 1"
    "frame = le_bytes_32 (of_nat (length (concat cs))) @ concat cs"
    by (auto simp: encode_message_iff)
  then show ?thesis by (simp only: of_le_32_append length_le_bytes_32 of_le_32_le_bytes_32 unat_of_nat_u32 length_append diff_add_inverse)
qed

lemma decode_payload_iff [wire_simps]:
  "decode_payload dec p = Inr m \<longleftrightarrow>
     p \<noteq> [] \<and> length p \<le> MAX_GRAPHICS_FRAME_SIZE \<and> dec p = Inr (m, length p)"
  by (auto simp: decode_payload_def split: sum.splits)

lemma read_exact_append [simp]: "read_exact (p @ q) (length p) = (q, Inr p)"
  by (simp add: read_exact_def)

lemma read_message_frame:
  assumes "0 < length p" and "length p \<le> min limit MAX_GRAPHICS_FRAME_SIZE"
  shows "read_message dec (le_bytes_32 (of_nat (length p)) @ p @ rest) limit
       = (rest, decode_payload dec p)"
proof -
  let ?l = "le_bytes_32 (of_nat (length p))"
  have "length p < 2 ^ 32" using assms(2) by (simp add: MAX_GRAPHICS_FRAME_SIZE_def)
  then have "unat (of_nat (length p) :: u32) = length p"
    by (intro unat_of_nat_u32) simp
  moreover have "read_exact (?l @ p @ rest) 4 = (p @ rest, Inr ?l)"
    using read_exact_append [of ?l "p @ rest"] by simp
  ultimately show ?thesis
    using assms by (auto simp: read_message_def Let_def)
qed

lemma write_messages_wire:
  "write_messages enc w ms limit = Inr wire \<Longrightarrow>
     wire = w @ concat (map (\<lambda>m. case encode_message enc m limit of Inl _ \<Rightarrow> [] | Inr f \<Rightarrow> f) ms)"
proof (induction ms arbitrary: w)
  case (Cons m ms)
  from Cons.prems obtain f where "encode_message enc m limit = Inr f"
    "write_messages enc (w @ f) ms limit = Inr wire"
    by (auto simp: write_message_def)
  with Cons.IH [of "w @ f"] show ?case by simp
qed simp

lemma read_message_encoded:
  assumes "encode_message enc m limit = Inr frame"
    and "\<And>cs. enc m = Inr cs \<Longrightarrow> dec (concat cs) = Inr (m, length (concat cs))"
    and "length frame \<le> MAX_GRAPHICS_FRAME_SIZE + 4"
  shows "read_message dec (frame @ rest) limit = (rest, Inr m)"
proof -
  from assms(1) obtain cs where cs: "enc m = Inr cs" "concat cs \<noteq> []"
    "length (concat cs) \<le> min limit (2 ^ 32 - 1)"
    "frame = le_bytes_32 (of_nat (length (concat cs))) @ concat cs"
    by (auto simp: encode_message_iff simp del: length_concat concat_eq_Nil_conv)
  with assms(3) have "length (concat cs) \<le> min limit MAX_GRAPHICS_FRAME_SIZE"
    by (simp del: length_concat)
  with cs have "read_message dec (frame @ rest) limit = (rest, decode_payload dec (concat cs))"
    using read_message_frame [of "concat cs" limit dec rest] by (simp del: length_concat concat_eq_Nil_conv)
  moreover have "decode_payload dec (concat cs) = Inr m"
    using cs assms(2,3) by (simp add: decode_payload_iff del: length_concat concat_eq_Nil_conv)
  ultimately show ?thesis by simp
qed

lemma clipboard_extension_canonical:
  assumes "clipboard_extension e = Some x"
  shows "x \<in> {''png'', ''jpg'', ''gif'', ''webp'', ''bmp''} \<and>
    (eq_ignore_ascii_case e x \<or> eq_ignore_ascii_case e ''jpeg'' \<and> x = ''jpg'')"
  using assms by (auto simp: clipboard_extension_def split: if_splits option.splits)

section \<open>Properties\<close>

text \<open>
  C18. Framing round trip: the frames written one after another for a list of messages are read back as
  exactly those messages, in order, and whatever follows them on the stream is left untouched, when
  every frame is within the graphics ceiling. It relies on bincode decoding what it encoded.
\<close>

theorem framing_round_trip:
  assumes bincode_round_trip:
    "\<And>m cs. m \<in> set ms \<Longrightarrow> enc m = Inr cs \<Longrightarrow> dec (concat cs) = Inr (m, length (concat cs))"
    and written: "write_messages enc w ms limit = Inr (w @ wire)"
    and limit: "limit \<le> MAX_GRAPHICS_FRAME_SIZE"
  shows "read_messages dec (wire @ rest) (length ms) limit = (rest, Inr ms)"
  using assms(1,2)
proof (induction ms arbitrary: w wire)
  case (Cons m ms)
  from Cons.prems(2) obtain f where f: "encode_message enc m limit = Inr f"
    and rest: "write_messages enc (w @ f) ms limit = Inr (w @ wire)"
    by (auto simp: write_message_def)
  from write_messages_wire [OF rest] obtain wire' where wire': "wire = f @ wire'" by auto
  from f limit have "length f \<le> MAX_GRAPHICS_FRAME_SIZE + 4"
    by (auto simp: encode_message_iff simp del: length_concat)
  with f Cons.prems(1) [of m] have
    "read_message dec (f @ wire' @ rest) limit = (wire' @ rest, Inr m)"
    by (intro read_message_encoded) auto
  moreover have "read_messages dec (wire' @ rest) (length ms) limit = (rest, Inr ms)"
    using Cons.prems(1) rest wire' by (intro Cons.IH [of "w @ f"]) auto
  ultimately show ?case by (simp add: wire')
qed simp

definition bincode_example_enc :: "u8 \<Rightarrow> (bytes list, ext_error) result" where
  "bincode_example_enc b = Inr [[b], [b, b]]"

definition bincode_example_dec :: "bytes \<Rightarrow> (u8 \<times> usize, ext_error) result" where
  "bincode_example_dec bs = (case bs of [] \<Rightarrow> Inl ''eof'' | b # _ \<Rightarrow> Inr (b, 3))"

theorem framing_round_trip_witness:
  "read_messages bincode_example_dec ([3, 0, 0, 0, 7, 7, 7, 3, 0, 0, 0, 9, 9, 9] @ [42])
     (length [7 :: u8, 9]) 100 = ([42], Inr [7, 9])"
proof (rule framing_round_trip)
  show "write_messages bincode_example_enc [] [7, 9] 100
      = Inr ([] @ [3, 0, 0, 0, 7, 7, 7, 3, 0, 0, 0, 9, 9, 9])"
    by (simp add: write_message_def encode_message_def bincode_example_enc_def Bounded_write_def
        Let_def le_bytes_32_def replicate_4)
next
  fix m cs assume "bincode_example_enc m = Inr cs"
  then show "bincode_example_dec (concat cs) = Inr (m, length (concat cs))"
    by (auto simp: bincode_example_enc_def bincode_example_dec_def)
qed (simp add: MAX_GRAPHICS_FRAME_SIZE_def)

text \<open>
  What the reader accepts: a message is returned only for a stream that begins with one whole
  frame, a nonzero length within both limits and then exactly that many bytes, all of which the
  decoder used; the rest of the stream is what follows that frame.
\<close>

theorem read_message_exact:
  assumes "read_message dec source limit = (rest, Inr m)"
  shows "\<exists>prefix payload. source = prefix @ payload @ rest \<and> length prefix = 4 \<and>
    unat (of_le_32 prefix) = length payload \<and> payload \<noteq> [] \<and>
    length payload \<le> min limit MAX_GRAPHICS_FRAME_SIZE \<and> dec payload = Inr (m, length payload)"
proof -
  let ?len = "unat (of_le_32 source)"
  have len: "4 \<le> length source" "?len \<noteq> 0" "?len \<le> min limit MAX_GRAPHICS_FRAME_SIZE"
    "?len \<le> length source - 4" "rest = drop ?len (drop 4 source)"
    "decode_payload dec (take ?len (drop 4 source)) = Inr m"
    using assms by (auto simp: read_message_def read_exact_def Let_def split: if_splits)
  have "source = take 4 source @ take ?len (drop 4 source) @ rest"
    by (simp only: len(5) append_take_drop_id)
  moreover have "length (take ?len (drop 4 source)) = ?len" using len(4) by simp
  ultimately show ?thesis
    using len by (intro exI [of _ "take 4 source"] exI [of _ "take ?len (drop 4 source)"])
      (auto simp: decode_payload_iff)
qed

theorem read_message_exact_witness:
  "\<exists>prefix payload. [3, 0, 0, 0, 7, 7, 7, 42] = prefix @ payload @ [42] \<and> length prefix = 4 \<and>
    unat (of_le_32 prefix) = length payload \<and> payload \<noteq> [] \<and>
    length payload \<le> min 100 MAX_GRAPHICS_FRAME_SIZE \<and>
    bincode_example_dec payload = Inr (7, length payload)"
proof -
  have "read_message bincode_example_dec [3, 0, 0, 0, 7, 7, 7, 42] 100 = ([42], Inr 7)"
    by (simp add: read_message_def read_exact_def Let_def of_le_32_def decode_payload_def
        MAX_GRAPHICS_FRAME_SIZE_def bincode_example_dec_def)
  from read_message_exact [OF this] show ?thesis .
qed

text \<open>
  A clipboard image that is encoded has a valid target, 1 byte to 16 MiB of data and one of the
  five canonical extensions, spelled as the caller's up to case (\<open>jpeg\<close> becoming \<open>jpg\<close>), and its
  frame carries exactly its length within the image frame bound.
\<close>

theorem encode_clipboard_image_sound:
  assumes "encode_clipboard_image enc target extension data = Inr frame"
  shows "validate_clipboard_image_target target = Inr () \<and>
    0 < length data \<and> length data \<le> MAX_CLIPBOARD_IMAGE_PAYLOAD \<and>
    (\<exists>x cs. x \<in> {''png'', ''jpg'', ''gif'', ''webp'', ''bmp''} \<and>
       (eq_ignore_ascii_case extension x \<or> eq_ignore_ascii_case extension ''jpeg'' \<and> x = ''jpg'') \<and>
       enc (CM_ClipboardImage target x data) = Inr cs \<and> frame = le_bytes_32 (of_nat (length (concat cs))) @ concat cs) \<and>
    4 < length frame \<and> length frame \<le> 4 + MAX_CLIPBOARD_IMAGE_FRAME_SIZE \<and>
    unat (of_le_32 frame) = length frame - 4"
proof -
  from assms obtain x where x: "clipboard_extension extension = Some x"
    and v: "validate_clipboard_image_target target = Inr ()"
    and d: "0 < length data" "length data \<le> MAX_CLIPBOARD_IMAGE_PAYLOAD"
    and m: "encode_message enc (CM_ClipboardImage target x data) MAX_CLIPBOARD_IMAGE_FRAME_SIZE = Inr frame"
    by (auto simp: encode_clipboard_image_def split: if_splits)
  from m obtain cs where cs: "enc (CM_ClipboardImage target x data) = Inr cs" "concat cs \<noteq> []"
    "length (concat cs) \<le> MAX_CLIPBOARD_IMAGE_FRAME_SIZE"
    "frame = le_bytes_32 (of_nat (length (concat cs))) @ concat cs"
    by (auto simp: encode_message_iff simp del: length_concat concat_eq_Nil_conv)
  then have "0 < length (concat cs)" by blast
  with cs have "4 < length frame \<and> length frame \<le> 4 + MAX_CLIPBOARD_IMAGE_FRAME_SIZE"
    by (simp del: length_concat)
  with v d cs(1,4) clipboard_extension_canonical [OF x] encode_message_prefix [OF m] show ?thesis
    by blast
qed

definition bincode_example_clipboard :: "ClientMessage \<Rightarrow> (bytes list, ext_error) result" where
  "bincode_example_clipboard m = Inr [[2], [5]]"

theorem encode_clipboard_image_sound_witness:
  "encode_clipboard_image bincode_example_clipboard (Pane ''p1'') ''JPEG'' [1, 2]
     = Inr [2, 0, 0, 0, 2, 5] \<and>
   unat (of_le_32 [2, 0, 0, 0, 2, 5]) = 2"
proof -
  have e: "clipboard_extension ''JPEG'' = Some ''jpg''" by code_simp
  have "encode_clipboard_image bincode_example_clipboard (Pane ''p1'') ''JPEG'' [1, 2]
     = Inr [2, 0, 0, 0, 2, 5]"
    by (simp add: encode_clipboard_image_def e MAX_CLIPBOARD_IMAGE_TARGET_BYTES_def ok_or_def
        MAX_CLIPBOARD_IMAGE_PAYLOAD_def encode_message_def bincode_example_clipboard_def Let_def
        Bounded_write_def MAX_CLIPBOARD_IMAGE_FRAME_SIZE_def le_bytes_32_def replicate_4)
  with encode_clipboard_image_sound [OF this] show ?thesis by simp
qed

end
