(* ===== verification/Surface_Scroll.thy ===== *)
theory Surface_Scroll
  imports Frame Codec
begin

text \<open>
  The scroll encoding of surface updates, \<open>crates/sheprd-protocol/src/surface_scroll.rs\<close>: a patch
  preceded by vertical shifts of disjoint regions. Base64 and bincode are outside the repository and
  are arguments (\<open>b64dec\<close>, \<open>b64enc\<close>, \<open>encoded_len\<close>, \<open>dec\<close>, \<open>enc\<close>). The lemmas lift the swaps of
  slices of the cell vector to swaps of rows on the screen, and from there to the shift they make.
\<close>

section \<open>The message\<close>

definition MAX_SCROLLS :: nat where
  "MAX_SCROLLS = 64"

definition SCROLL_BYTES :: nat where
  "SCROLL_BYTES = 10"

record SurfaceScroll =
  ss_rect :: SurfaceRect
  ss_shift :: i16

record ScrollPatch =
  sp_scrolls :: "SurfaceScroll list"
  sp_patch :: PaneSurfacePatch

text \<open>One 10-byte chunk, and the whole chunks of a byte string (\<open>as_chunks\<close>).\<close>

definition scroll_of_chunk :: "bytes \<Rightarrow> SurfaceScroll" where
  "scroll_of_chunk chunk =
     (let value = (\<lambda>at. of_le_16 (chunk ! at) (chunk ! (at + 1))) in
      \<lparr>ss_rect = \<lparr>rect_x = value 0, rect_y = value 2, rect_width = value 4, rect_height = value 6\<rparr>,
       ss_shift = of_le_16 (chunk ! 8) (chunk ! 9)\<rparr>)"

fun as_chunks :: "nat \<Rightarrow> bytes \<Rightarrow> bytes list" where
  "as_chunks 0 bs = []"
| "as_chunks (Suc k) bs = take SCROLL_BYTES bs # as_chunks k (drop SCROLL_BYTES bs)"

definition scroll_decode ::
  "(string \<Rightarrow> (bytes, ext_error) result) \<Rightarrow> (nat \<Rightarrow> bool \<Rightarrow> nat option)
     \<Rightarrow> (bytes \<Rightarrow> (ServerMessage \<times> usize, ext_error) result) \<Rightarrow> string \<Rightarrow> (ScrollPatch, Error) result" where
  "scroll_decode b64dec encoded_len dec data =
     (let limit = (case encoded_len MAX_FRAME_SIZE False of Some n \<Rightarrow> n | None \<Rightarrow> 2 ^ 64 - 1) in
      if length data > limit then Inl EncodingLimit
      else and_then (map_err EncodingPayload (b64dec data)) (\<lambda>bytes.
        case bytes of [] \<Rightarrow> Inl ScrollTruncated
        | b # _ \<Rightarrow>
          let count = unat b; header = 1 + count * SCROLL_BYTES in
          if count = 0 \<or> count > MAX_SCROLLS then Inl ScrollCount
          else if length bytes < header then Inl ScrollTruncated
          else
            let scrolls = map scroll_of_chunk
              (as_chunks (length (take (header - 1) (drop 1 bytes)) div SCROLL_BYTES) (take (header - 1) (drop 1 bytes)))
            in case read_message dec (drop header bytes) MAX_FRAME_SIZE of
              (frame, Inl e) \<Rightarrow> Inl e
            | (frame, Inr message) \<Rightarrow>
                if frame \<noteq> [] then Inl TrailingBytes
                else case message of
                  SM_PaneSurfacePatch patch \<Rightarrow> Inr \<lparr>sp_scrolls = scrolls, sp_patch = patch\<rparr>
                | _ \<Rightarrow> Inl ScrollPayload))"

definition scroll_bytes :: "SurfaceScroll \<Rightarrow> bytes" where
  "scroll_bytes scroll =
     (let rect = ss_rect scroll in
      concat (map le_bytes_16 [rect_x rect, rect_y rect, rect_width rect, rect_height rect])
        @ le_bytes_16 (ss_shift scroll))"

definition scroll_encode ::
  "(bytes \<Rightarrow> string) \<Rightarrow> (ServerMessage \<Rightarrow> (bytes list, ext_error) result) \<Rightarrow> ScrollPatch
     \<Rightarrow> (string, Error) result" where
  "scroll_encode b64enc enc self =
     (if length (sp_scrolls self) > 255 then Inl ScrollCount
      else and_then
        (write_message enc (of_nat (length (sp_scrolls self)) # concat (map scroll_bytes (sp_scrolls self)))
           (SM_PaneSurfacePatch (sp_patch self)) MAX_FRAME_SIZE)
        (\<lambda>bytes. Inr (b64enc bytes)))"

section \<open>Checks\<close>

text \<open>\<open>i16::unsigned_abs\<close>.\<close>

definition unsigned_abs :: "i16 \<Rightarrow> u16" where
  "unsigned_abs w = (if sint w < 0 then - w else w)"

definition scroll_fits :: "SurfaceScroll \<Rightarrow> u16 \<Rightarrow> u16 \<Rightarrow> bool" where
  "scroll_fits scroll width height =
     (let rect = ss_rect scroll in
      rect_width rect > 0 \<and> rect_height rect \<ge> 2 \<and> ss_shift scroll \<noteq> 0
      \<and> unsigned_abs (ss_shift scroll) < rect_height rect
      \<and> (case checked_add (rect_x rect) (rect_width rect) of None \<Rightarrow> False | Some e \<Rightarrow> e \<le> width)
      \<and> (case checked_add (rect_y rect) (rect_height rect) of None \<Rightarrow> False | Some e \<Rightarrow> e \<le> height))"

definition rects_overlap :: "SurfaceRect \<Rightarrow> SurfaceRect \<Rightarrow> bool" where
  "rects_overlap a b \<longleftrightarrow>
     rect_x a < rect_x b + rect_width b \<and> rect_x b < rect_x a + rect_width a
     \<and> rect_y a < rect_y b + rect_height b \<and> rect_y b < rect_y a + rect_height a"

fun scrolls_disjoint :: "SurfaceScroll list \<Rightarrow> bool" where
  "scrolls_disjoint [] = True"
| "scrolls_disjoint (s # ss) =
     (if list_ex (\<lambda>other. rects_overlap (ss_rect s) (ss_rect other)) ss then False
      else scrolls_disjoint ss)"

section \<open>Row swaps\<close>

text \<open>
  The swaps of \<open>for_each_swap\<close>, in order. \<open>height - distance\<close> underflows when the distance is the
  larger, which panics.
\<close>

definition for_each_swap :: "nat \<Rightarrow> i16 \<Rightarrow> (nat \<times> nat) list option" where
  "for_each_swap height shift =
     (let distance = unat (unsigned_abs shift) in
      if sint shift > 0 then
        (if distance \<le> height then Some (map (\<lambda>y. (y, y + distance)) [0..<height - distance]) else None)
      else Some (map (\<lambda>y. (y, y - distance)) (rev [distance..<height])))"

definition row_start :: "u16 \<Rightarrow> SurfaceRect \<Rightarrow> nat \<Rightarrow> nat" where
  "row_start width rect y = (unat (rect_y rect) + y) * unat width + unat (rect_x rect)"

fun swap_rows :: "u16 \<Rightarrow> SurfaceRect \<Rightarrow> CellData list \<Rightarrow> (nat \<times> nat) list \<Rightarrow> CellData list option" where
  "swap_rows width rect cells [] = Some cells"
| "swap_rows width rect cells ((a, b) # swaps) =
     Option.bind
       (slice_swap cells (row_start width rect (min a b)) (row_start width rect (max a b))
          (unat (rect_width rect)))
       (\<lambda>cells. swap_rows width rect cells swaps)"

fun scroll_regions :: "u16 \<Rightarrow> CellData list \<Rightarrow> SurfaceScroll list \<Rightarrow> CellData list option" where
  "scroll_regions width cells [] = Some cells"
| "scroll_regions width cells (s # ss) =
     Option.bind (for_each_swap (unat (rect_height (ss_rect s))) (ss_shift s)) (\<lambda>swaps.
       Option.bind (swap_rows width (ss_rect s) cells swaps) (\<lambda>cells. scroll_regions width cells ss))"

definition apply_scroll_patch ::
  "PaneSurfaceFrame \<Rightarrow> ScrollPatch \<Rightarrow> (PaneSurfaceFrame \<times> (unit, Error) result) option" where
  "apply_scroll_patch self scroll =
     (let scrolls = sp_scrolls scroll; patch = sp_patch scroll;
          width = fd_width (psf_frame self); height = fd_height (psf_frame self) in
      case validate_patch self patch of
        Inl e \<Rightarrow> Some (self, Inl e)
      | Inr _ \<Rightarrow>
          if \<not> list_all (\<lambda>s. scroll_fits s width height) scrolls then Some (self, Inl ScrollBounds)
          else if \<not> scrolls_disjoint scrolls then Some (self, Inl ScrollBounds)
          else Option.bind (scroll_regions width (fd_cells (psf_frame self)) scrolls) (\<lambda>cells.
            map_option (\<lambda>self. (self, Inr ()))
              (commit_patch (self\<lparr>psf_frame := (psf_frame self)\<lparr>fd_cells := cells\<rparr>\<rparr>) patch)))"

section \<open>The screen\<close>

definition in_rect :: "SurfaceRect \<Rightarrow> nat \<Rightarrow> nat \<Rightarrow> bool" where
  "in_rect r x y \<longleftrightarrow> unat (rect_x r) \<le> x \<and> x < unat (rect_x r) + unat (rect_width r)
     \<and> unat (rect_y r) \<le> y \<and> y < unat (rect_y r) + unat (rect_height r)"

text \<open>
  What scrolls do to a screen of \<open>w\<close> by \<open>h\<close> cells: outside their regions nothing changes, and inside
  each region every row that has a source row in the region shows that row.
\<close>

definition scrolled :: "nat \<Rightarrow> nat \<Rightarrow> SurfaceScroll list \<Rightarrow> screen \<Rightarrow> screen \<Rightarrow> bool" where
  "scrolled w h scrolls old new \<longleftrightarrow>
     (\<forall>x < w. \<forall>y < h. (\<forall>sc \<in> set scrolls. \<not> in_rect (ss_rect sc) x y) \<longrightarrow> new x y = old x y) \<and>
     (\<forall>sc \<in> set scrolls. \<forall>x y y'. in_rect (ss_rect sc) x y \<longrightarrow> in_rect (ss_rect sc) x y' \<longrightarrow>
        int y' = int y + sint (ss_shift sc) \<longrightarrow> new x y = old x y')"

text \<open>The screen a vector of cells shows at the given width.\<close>

definition flat :: "u16 \<Rightarrow> CellData list \<Rightarrow> screen" where
  "flat w cells x y = cells ! (y * unat w + x)"

definition swap_screen :: "SurfaceRect \<Rightarrow> screen \<Rightarrow> nat \<times> nat \<Rightarrow> screen" where
  "swap_screen r s ab x y =
     (if unat (rect_x r) \<le> x \<and> x < unat (rect_x r) + unat (rect_width r)
      then if y = unat (rect_y r) + fst ab then s x (unat (rect_y r) + snd ab)
           else if y = unat (rect_y r) + snd ab then s x (unat (rect_y r) + fst ab)
           else s x y
      else s x y)"

section \<open>Lemmas\<close>

subsection \<open>Swaps of rows make the shift\<close>

lemma foldl_swap_screen_outside:
  assumes "\<forall>(a, b) \<in> set sw. a < unat (rect_height r) \<and> b < unat (rect_height r)"
    and "\<not> in_rect r x y"
  shows "foldl (swap_screen r) s sw x y = s x y"
  using assms by (induction sw arbitrary: s) (auto simp: swap_screen_def in_rect_def)

lemma foldl_swap_up:
  assumes "unat (rect_x r) \<le> x" and "x < unat (rect_x r) + unat (rect_width r)" and "0 < d"
  shows "(i < k \<longrightarrow> foldl (swap_screen r) s (map (\<lambda>y. (y, y + d)) [0..<k]) x (unat (rect_y r) + i)
           = s x (unat (rect_y r) + i + d)) \<and>
         (k + d \<le> i \<longrightarrow> foldl (swap_screen r) s (map (\<lambda>y. (y, y + d)) [0..<k]) x (unat (rect_y r) + i)
           = s x (unat (rect_y r) + i))"
proof (induction k arbitrary: i)
  case (Suc k)
  from Suc.IH [of "k + d"] Suc.IH [of i] assms show ?case
    by (auto simp: swap_screen_def less_Suc_eq algebra_simps)
qed simp

lemma foldl_swap_down:
  assumes "unat (rect_x r) \<le> x" and "x < unat (rect_x r) + unat (rect_width r)" and "0 < d"
  shows "k + d \<le> h \<Longrightarrow>
     (h \<le> i + k \<and> i < h \<longrightarrow>
        foldl (swap_screen r) s (map (\<lambda>j. (h - 1 - j, h - 1 - j - d)) [0..<k]) x (unat (rect_y r) + i)
          = s x (unat (rect_y r) + i - d)) \<and>
     (i + k + d < h \<longrightarrow>
        foldl (swap_screen r) s (map (\<lambda>j. (h - 1 - j, h - 1 - j - d)) [0..<k]) x (unat (rect_y r) + i)
          = s x (unat (rect_y r) + i))"
proof (induction k arbitrary: i)
  case (Suc k)
  define F where "F = foldl (swap_screen r) s (map (\<lambda>j. (h - 1 - j, h - 1 - j - d)) [0..<k]) x"
  define G where "G = foldl (swap_screen r) s (map (\<lambda>j. (h - 1 - j, h - 1 - j - d)) [0..<Suc k]) x"
  define p q where "p = h - 1 - k" and "q = h - 1 - k - d"
  have pq: "p = q + d" "h = Suc (p + k)" using Suc.prems by (simp_all add: p_def q_def)
  have G: "G y = (if y = unat (rect_y r) + p then F (unat (rect_y r) + q)
       else if y = unat (rect_y r) + q then F (unat (rect_y r) + p) else F y)" for y
    using assms by (simp add: G_def F_def p_def q_def swap_screen_def)
  have IH: "h \<le> j + k \<Longrightarrow> j < h \<Longrightarrow> F (unat (rect_y r) + j) = s x (unat (rect_y r) + j - d)"
    "j + k + d < h \<Longrightarrow> F (unat (rect_y r) + j) = s x (unat (rect_y r) + j)" for j
    using Suc.IH [of j] Suc.prems by (simp_all add: F_def)
  have "G (unat (rect_y r) + i) = s x (unat (rect_y r) + i - d)" if i: "h \<le> i + Suc k" "i < h"
  proof (cases "i = p")
    case True
    have "F (unat (rect_y r) + q) = s x (unat (rect_y r) + q)" using pq by (intro IH) linarith
    with True pq G show ?thesis by simp
  next
    case False
    with i pq assms(3) have "h \<le> i + k" "i \<noteq> q" by linarith+
    with False i IH(1) G show ?thesis by simp
  qed
  moreover have "G (unat (rect_y r) + i) = s x (unat (rect_y r) + i)" if i: "i + Suc k + d < h"
  proof -
    from i pq assms(3) have "i \<noteq> p" "i \<noteq> q" "i + k + d < h" by linarith+
    with IH(2) G show ?thesis by simp
  qed
  ultimately show ?case unfolding G_def by blast
qed auto

lemma rev_upt_map: "d \<le> h \<Longrightarrow> rev [d..<h] = map (\<lambda>j. h - 1 - j) [0..<h - d]"
  by (rule nth_equalityI) (auto simp: rev_nth)

lemma sint_i16_range: "- (2 ^ 15) \<le> sint (w :: i16)" "sint (w :: i16) < 2 ^ 15"
  using sint_ge [of w] sint_lt [of w] by simp_all

lemma unat_unsigned_abs: "int (unat (unsigned_abs w)) = \<bar>sint w\<bar>"
proof -
  have u: "uint w = sint w mod 2 ^ 16"
    by (simp add: uint_sint take_bit_eq_mod)
  show ?thesis
  proof (cases "sint w < 0")
    case True
    have "uint (- w) = (- uint w) mod 2 ^ 16"
      by (simp add: uint_word_ariths)
    also have "\<dots> = (- sint w) mod 2 ^ 16"
      unfolding u by (rule mod_minus_eq)
    also have "\<dots> = - sint w"
      using True sint_i16_range [of w] by (intro mod_pos_pos_trivial) auto
    finally show ?thesis using True by (simp add: unsigned_abs_def)
  next
    case False
    then have "uint w = sint w"
      unfolding u using sint_i16_range [of w] by (intro mod_pos_pos_trivial) auto
    with False show ?thesis by (simp add: unsigned_abs_def)
  qed
qed

lemma sint_i16_eq_0: "sint (w :: i16) = 0 \<longleftrightarrow> w = 0"
  by (metis sint_0 signed_word_eqI)

lemma scroll_fitsD:
  assumes "scroll_fits sc w h"
  shows "unat (rect_x (ss_rect sc)) + unat (rect_width (ss_rect sc)) \<le> unat w"
    and "unat (rect_y (ss_rect sc)) + unat (rect_height (ss_rect sc)) \<le> unat h"
    and "sint (ss_shift sc) \<noteq> 0"
    and "unat (unsigned_abs (ss_shift sc)) < unat (rect_height (ss_rect sc))"
    and "unat (rect_x (ss_rect sc) + rect_width (ss_rect sc)) = unat (rect_x (ss_rect sc)) + unat (rect_width (ss_rect sc))"
    and "unat (rect_y (ss_rect sc) + rect_height (ss_rect sc)) = unat (rect_y (ss_rect sc)) + unat (rect_height (ss_rect sc))"
  using assms
  by (auto simp: scroll_fits_def Let_def checked_add_Some word_le_nat_alt word_less_nat_alt
      sint_i16_eq_0 split: option.splits)

lemma rects_disjoint:
  assumes "scroll_fits a w h" and "scroll_fits b w h" and "\<not> rects_overlap (ss_rect a) (ss_rect b)"
    and "in_rect (ss_rect a) x y"
  shows "\<not> in_rect (ss_rect b) x y"
  using assms(3,4) scroll_fitsD(5,6) [OF assms(1)] scroll_fitsD(5,6) [OF assms(2)]
  by (auto simp: rects_overlap_def in_rect_def word_less_nat_alt)

lemma for_each_swap_shift:
  assumes fits: "scroll_fits sc w h"
  defines "r \<equiv> ss_rect sc"
  shows "\<exists>sw. for_each_swap (unat (rect_height r)) (ss_shift sc) = Some sw \<and>
    (\<forall>(a, b) \<in> set sw. a < unat (rect_height r) \<and> b < unat (rect_height r) \<and> a \<noteq> b) \<and>
    (\<forall>s. \<forall>x y y'. in_rect r x y \<longrightarrow> in_rect r x y' \<longrightarrow> int y' = int y + sint (ss_shift sc) \<longrightarrow>
       foldl (swap_screen r) s sw x y = s x y')"
proof -
  define d where "d = unat (unsigned_abs (ss_shift sc))"
  define h' where "h' = unat (rect_height r)"
  define y0 where "y0 = unat (rect_y r)"
  have d: "int d = \<bar>sint (ss_shift sc)\<bar>" unfolding d_def by (rule unat_unsigned_abs)
  have dh: "d < h'" and nz: "sint (ss_shift sc) \<noteq> 0"
    using scroll_fitsD(3,4) [OF fits] by (simp_all add: r_def d_def h'_def)
  have rel: "\<exists>i. y = y0 + i \<and> i < h'" if "in_rect r x y" for x y
    using that by (auto simp: in_rect_def y0_def h'_def le_iff_add)
  have col: "unat (rect_x r) \<le> x" "x < unat (rect_x r) + unat (rect_width r)" if "in_rect r x y" for x y
    using that by (simp_all add: in_rect_def)
  show ?thesis
  proof (cases "sint (ss_shift sc) > 0")
    case True
    let ?sw = "map (\<lambda>y. (y, y + d)) [0..<h' - d]"
    have "foldl (swap_screen r) s ?sw x y = s x y'"
      if in_r: "in_rect r x y" "in_rect r x y'" and y': "int y' = int y + sint (ss_shift sc)" for s x y y'
    proof -
      from rel [OF in_r(1)] rel [OF in_r(2)] obtain i j where
        i: "y = y0 + i" "i < h'" and j: "y' = y0 + j" "j < h'" by blast
      have "y' = y0 + i + d" "i < h' - d" using i j y' True d by linarith+
      with foldl_swap_up [OF col [OF in_r(1)], of d i "h' - d" s] True d i(1) show ?thesis
        by (simp add: y0_def)
    qed
    with True dh d show ?thesis
      by (intro exI [of _ ?sw]) (auto simp: for_each_swap_def Let_def d_def [symmetric] h'_def [symmetric])
  next
    case False
    with nz have neg: "sint (ss_shift sc) < 0" by simp
    let ?sw = "map (\<lambda>j. (h' - 1 - j, h' - 1 - j - d)) [0..<h' - d]"
    have eq: "map (\<lambda>y. (y, y - d)) (rev [d..<h']) = ?sw"
      using dh by (simp add: rev_upt_map)
    have "foldl (swap_screen r) s ?sw x y = s x y'"
      if in_r: "in_rect r x y" "in_rect r x y'" and y': "int y' = int y + sint (ss_shift sc)" for s x y y'
    proof -
      from rel [OF in_r(1)] rel [OF in_r(2)] obtain i j where
        i: "y = y0 + i" "i < h'" and j: "y' = y0 + j" "j < h'" by blast
      have "y' = y0 + i - d" "h' \<le> i + (h' - d)" using i j y' neg d by linarith+
      with foldl_swap_down [OF col [OF in_r(1)], of d "h' - d" h' i s] neg d dh i show ?thesis
        by (simp add: y0_def)
    qed
    moreover have "\<forall>(a, b) \<in> set ?sw. a < h' \<and> b < h' \<and> a \<noteq> b" using dh d neg by auto
    moreover have "for_each_swap h' (ss_shift sc) = Some ?sw"
      using neg eq by (simp add: for_each_swap_def Let_def d_def [symmetric])
    ultimately show ?thesis
      by (intro exI [of _ ?sw]) (simp add: h'_def [symmetric])
  qed
qed

subsection \<open>Slices of the cell vector are rows of the screen\<close>

lemma slice_swap_rows:
  assumes len: "length cells = unat w * unat h"
    and fit: "unat (rect_x r) + unat (rect_width r) \<le> unat w"
      "unat (rect_y r) + unat (rect_height r) \<le> unat h"
    and ab: "a < unat (rect_height r)" "b < unat (rect_height r)" "a \<noteq> b"
  shows "\<exists>cells'. slice_swap cells (row_start w r (min a b)) (row_start w r (max a b))
      (unat (rect_width r)) = Some cells' \<and> length cells' = length cells \<and> set cells' \<subseteq> set cells \<and>
    (\<forall>x < unat w. \<forall>y < unat h. flat w cells' x y = swap_screen r (flat w cells) (a, b) x y)"
proof -
  define lo hi where "lo = unat (rect_y r) + min a b" and "hi = unat (rect_y r) + max a b"
  have lt: "lo < hi" "hi < unat h" using ab fit(2) by (auto simp: lo_def hi_def)
  have low: "row_start w r (min a b) = lo * unat w + unat (rect_x r)"
    and high: "row_start w r (max a b) = hi * unat w + unat (rect_x r)"
    by (simp_all add: row_start_def lo_def hi_def)
  have "Suc lo * unat w \<le> hi * unat w" using lt by (intro mult_le_mono1) simp
  then have "lo * unat w + unat (rect_x r) + unat (rect_width r) \<le> hi * unat w + unat (rect_x r)"
    using fit(1) by simp
  moreover have "hi * unat w + unat (rect_x r) + unat (rect_width r) \<le> length cells"
    using row_end_le [OF lt(2) fit(1)] len by simp
  ultimately obtain cells' where c: "slice_swap cells (lo * unat w + unat (rect_x r))
      (hi * unat w + unat (rect_x r)) (unat (rect_width r)) = Some cells'"
    by (auto simp: slice_swap_def)
  have "flat w cells' x y = swap_screen r (flat w cells) (a, b) x y"
    if "x < unat w" "y < unat h" for x y
  proof -
    have i: "y * unat w + x < length cells" using row_index_lt [OF that(2,1)] len by simp
    note rows = same_row_iff [OF that(1) fit(1), of _ y]
    show ?thesis
      using nth_slice_swap [OF c i] rows [of lo] rows [of hi] ab
      by (auto simp: flat_def swap_screen_def lo_def hi_def min_def max_def)
  qed
  with c low high length_slice_swap [OF c] set_slice_swap [OF c] show ?thesis by auto
qed

lemma foldl_swap_screen_cong:
  assumes "\<forall>x < w. \<forall>y < h. s x y = t x y"
    and "\<forall>(a, b) \<in> set sw. unat (rect_y r) + a < h \<and> unat (rect_y r) + b < h"
  shows "\<forall>x < w. \<forall>y < h. foldl (swap_screen r) s sw x y = foldl (swap_screen r) t sw x y"
  using assms
proof (induction sw arbitrary: s t)
  case (Cons ab sw)
  have "\<forall>x < w. \<forall>y < h. swap_screen r s ab x y = swap_screen r t ab x y"
    using Cons.prems by (cases ab) (auto simp: swap_screen_def)
  from Cons.IH [OF this] Cons.prems(2) show ?case by simp
qed simp

lemma swap_rows_inside:
  assumes "length cells = unat w * unat h"
    and fit: "unat (rect_x r) + unat (rect_width r) \<le> unat w"
      "unat (rect_y r) + unat (rect_height r) \<le> unat h"
    and "\<forall>(a, b) \<in> set sw. a < unat (rect_height r) \<and> b < unat (rect_height r) \<and> a \<noteq> b"
  shows "\<exists>cells'. swap_rows w r cells sw = Some cells' \<and> length cells' = length cells \<and>
    set cells' \<subseteq> set cells \<and>
    (\<forall>x < unat w. \<forall>y < unat h. flat w cells' x y = foldl (swap_screen r) (flat w cells) sw x y)"
  using assms(1,4)
proof (induction sw arbitrary: cells)
  case (Cons ab sw)
  obtain a b where ab: "ab = (a, b)" by force
  from Cons.prems ab obtain c1 where c1: "slice_swap cells (row_start w r (min a b))
      (row_start w r (max a b)) (unat (rect_width r)) = Some c1" "length c1 = length cells"
    "set c1 \<subseteq> set cells"
    and s1: "\<forall>x < unat w. \<forall>y < unat h. flat w c1 x y = swap_screen r (flat w cells) (a, b) x y"
    using slice_swap_rows [OF Cons.prems(1) fit, of a b] by auto
  from Cons.IH [of c1] Cons.prems c1 obtain c2 where c2: "swap_rows w r c1 sw = Some c2"
    "length c2 = length c1" "set c2 \<subseteq> set c1"
    and s2: "\<forall>x < unat w. \<forall>y < unat h. flat w c2 x y = foldl (swap_screen r) (flat w c1) sw x y"
    by auto
  have "\<forall>x < unat w. \<forall>y < unat h. foldl (swap_screen r) (flat w c1) sw x y
      = foldl (swap_screen r) (swap_screen r (flat w cells) (a, b)) sw x y"
    using Cons.prems(2) fit(2) by (intro foldl_swap_screen_cong s1) auto
  with c1 c2 s2 ab show ?case by auto
qed simp

lemma scroll_one:
  assumes "length cells = unat w * unat h" and fits: "scroll_fits sc w h"
  shows "\<exists>sw cells'. for_each_swap (unat (rect_height (ss_rect sc))) (ss_shift sc) = Some sw \<and>
    swap_rows w (ss_rect sc) cells sw = Some cells' \<and> length cells' = length cells \<and>
    set cells' \<subseteq> set cells \<and> scrolled (unat w) (unat h) [sc] (flat w cells) (flat w cells')"
proof -
  from for_each_swap_shift [OF fits] obtain sw where
    sw: "for_each_swap (unat (rect_height (ss_rect sc))) (ss_shift sc) = Some sw"
      "\<forall>(a, b) \<in> set sw. a < unat (rect_height (ss_rect sc)) \<and> b < unat (rect_height (ss_rect sc)) \<and> a \<noteq> b"
    and sh: "\<And>s x y y'. in_rect (ss_rect sc) x y \<Longrightarrow> in_rect (ss_rect sc) x y' \<Longrightarrow>
      int y' = int y + sint (ss_shift sc) \<Longrightarrow> foldl (swap_screen (ss_rect sc)) s sw x y = s x y'"
    by blast
  from swap_rows_inside [OF assms(1) scroll_fitsD(1,2) [OF fits] sw(2)] obtain cells' where
    c: "swap_rows w (ss_rect sc) cells sw = Some cells'" "length cells' = length cells"
      "set cells' \<subseteq> set cells"
    and s: "\<forall>x < unat w. \<forall>y < unat h. flat w cells' x y = foldl (swap_screen (ss_rect sc)) (flat w cells) sw x y"
    by blast
  have "foldl (swap_screen (ss_rect sc)) (flat w cells) sw x y = flat w cells x y"
    if "\<not> in_rect (ss_rect sc) x y" for x y
    using sw(2) that by (intro foldl_swap_screen_outside) auto
  moreover have "x < unat w \<and> y < unat h" if "in_rect (ss_rect sc) x y" for x y
    using that scroll_fitsD(1,2) [OF fits] by (auto simp: in_rect_def)
  ultimately have "scrolled (unat w) (unat h) [sc] (flat w cells) (flat w cells')"
    using s sh by (auto simp: scrolled_def)
  with sw(1) c show ?thesis by blast
qed

lemma scroll_regions_inside:
  assumes "length cells = unat w * unat h" and "\<forall>sc \<in> set scs. scroll_fits sc w h"
    and "scrolls_disjoint scs"
  shows "\<exists>cells'. scroll_regions w cells scs = Some cells' \<and> length cells' = length cells \<and>
    set cells' \<subseteq> set cells \<and> scrolled (unat w) (unat h) scs (flat w cells) (flat w cells')"
  using assms
proof (induction scs arbitrary: cells)
  case (Cons sc scs)
  from Cons.prems have fit: "scroll_fits sc w h" by simp
  from scroll_one [OF Cons.prems(1) this] obtain sw c1 where
    c1: "for_each_swap (unat (rect_height (ss_rect sc))) (ss_shift sc) = Some sw"
      "swap_rows w (ss_rect sc) cells sw = Some c1" "length c1 = length cells" "set c1 \<subseteq> set cells"
    and s1: "scrolled (unat w) (unat h) [sc] (flat w cells) (flat w c1)" by blast
  from Cons.IH [of c1] Cons.prems c1 obtain c2 where
    c2: "scroll_regions w c1 scs = Some c2" "length c2 = length c1" "set c2 \<subseteq> set c1"
    and s2: "scrolled (unat w) (unat h) scs (flat w c1) (flat w c2)"
    by (auto split: if_splits)
  have apart: "\<not> in_rect (ss_rect sc') x y" if "in_rect (ss_rect sc) x y" "sc' \<in> set scs" for sc' x y
    using rects_disjoint [OF fit, of sc' x y] Cons.prems(2,3) that
    by (auto simp: list_ex_iff split: if_splits)
  have inside: "x < unat w \<and> y < unat h" if "in_rect (ss_rect sc') x y" "sc' \<in> set (sc # scs)" for sc' x y
    using that scroll_fitsD(1,2) [of sc' w h] Cons.prems(2) by (force simp: in_rect_def)
  have "flat w c2 x y = flat w cells x y'"
    if "sc' \<in> set (sc # scs)" "in_rect (ss_rect sc') x y" "in_rect (ss_rect sc') x y'"
      "int y' = int y + sint (ss_shift sc')" for sc' x y y'
  proof (cases "sc' = sc")
    case True
    with that have "flat w c1 x y = flat w cells x y'" using s1 by (auto simp: scrolled_def)
    moreover have "flat w c2 x y = flat w c1 x y"
      using s2 apart that True inside [OF that(2,1)] by (auto simp: scrolled_def)
    ultimately show ?thesis by simp
  next
    case False
    with that have "sc' \<in> set scs" by simp
    then have "flat w c2 x y = flat w c1 x y'" using s2 that by (auto simp: scrolled_def)
    moreover have "flat w c1 x y' = flat w cells x y'"
      using s1 apart [of x y' sc'] that \<open>sc' \<in> set scs\<close> inside [OF that(3,1)] by (auto simp: scrolled_def)
    ultimately show ?thesis by simp
  qed
  moreover have "flat w c2 x y = flat w cells x y"
    if "x < unat w" "y < unat h" "\<forall>sc' \<in> set (sc # scs). \<not> in_rect (ss_rect sc') x y" for x y
    using s1 s2 that by (auto simp: scrolled_def)
  ultimately have "scrolled (unat w) (unat h) (sc # scs) (flat w cells) (flat w c2)"
    by (auto simp: scrolled_def)
  with c1 c2 show ?case by auto
qed (simp add: scrolled_def)

lemma validate_patch_cells:
  assumes "validate_patch f p = Inr ()" and "length cs = length (fd_cells (psf_frame f))"
    and "set cs \<subseteq> set (fd_cells (psf_frame f))"
  shows "validate_patch (f\<lparr>psf_frame := (psf_frame f)\<lparr>fd_cells := cs\<rparr>\<rparr>) p = Inr ()"
proof -
  have "patch_row_outside ((psf_frame f)\<lparr>fd_cells := cs\<rparr>) r = patch_row_outside (psf_frame f) r" for r
    by (simp add: patch_row_outside_def)
  with assms show ?thesis
    by (auto simp: validate_patch_iff valid_frame_def FrameData_validate_iff)
qed

lemma scroll_patch_total:
  assumes v: "validate_patch f (sp_patch s) = Inr ()"
    and fits: "list_all (\<lambda>sc. scroll_fits sc (fd_width (psf_frame f)) (fd_height (psf_frame f))) (sp_scrolls s)"
    and dis: "scrolls_disjoint (sp_scrolls s)"
  shows "\<exists>g mid. apply_scroll_patch f s = Some (g, Inr ()) \<and> valid_frame g \<and>
    psf_boot_id g = psf_boot_id f \<and> psf_projection_revision g = psf_projection_revision f \<and>
    unat (psf_surface_revision g) = unat (psf_surface_revision f) + 1 \<and>
    fd_width (psf_frame g) = fd_width (psf_frame f) \<and> fd_height (psf_frame g) = fd_height (psf_frame f) \<and>
    fd_cursor (psf_frame g) = psp_cursor (sp_patch s) \<and>
    scrolled (unat (fd_width (psf_frame f))) (unat (fd_height (psf_frame f))) (sp_scrolls s)
      (screen_of (psf_frame f)) mid \<and>
    (\<forall>x < unat (fd_width (psf_frame f)). \<forall>y < unat (fd_height (psf_frame f)).
       screen_of (psf_frame g) x y = foldl patch_screen mid (psp_rows (sp_patch s)) x y)"
proof -
  let ?w = "fd_width (psf_frame f)" and ?h = "fd_height (psf_frame f)" and ?c = "fd_cells (psf_frame f)"
  from v have "length ?c = unat ?w * unat ?h"
    by (auto simp: validate_patch_iff valid_frame_def FrameData_validate_iff)
  with fits dis obtain cs where cs: "scroll_regions ?w ?c (sp_scrolls s) = Some cs"
      "length cs = length ?c" "set cs \<subseteq> set ?c"
    and sc: "scrolled (unat ?w) (unat ?h) (sp_scrolls s) (flat ?w ?c) (flat ?w cs)"
    using scroll_regions_inside [of ?c ?w ?h "sp_scrolls s"] by (auto simp: list_all_iff)
  let ?f = "f\<lparr>psf_frame := (psf_frame f)\<lparr>fd_cells := cs\<rparr>\<rparr>"
  from commit_patch_total [OF validate_patch_cells [OF v cs(2,3)]] obtain g where
    g: "commit_patch ?f (sp_patch s) = Some g" "valid_frame g" "psf_boot_id g = psf_boot_id f"
      "psf_projection_revision g = psf_projection_revision f"
      "unat (psf_surface_revision g) = unat (psf_surface_revision f) + 1"
      "fd_width (psf_frame g) = ?w" "fd_height (psf_frame g) = ?h"
      "fd_cursor (psf_frame g) = psp_cursor (sp_patch s)"
    and scr: "\<forall>x < unat ?w. \<forall>y < unat ?h. screen_of (psf_frame g) x y =
       foldl patch_screen (screen_of (psf_frame ?f)) (psp_rows (sp_patch s)) x y"
    by auto
  have "screen_of (psf_frame f) = flat ?w ?c" "screen_of (psf_frame ?f) = flat ?w cs"
    by (simp_all add: fun_eq_iff screen_of_def flat_def)
  with sc scr have "scrolled (unat ?w) (unat ?h) (sp_scrolls s) (screen_of (psf_frame f)) (flat ?w cs)"
    "\<forall>x < unat ?w. \<forall>y < unat ?h. screen_of (psf_frame g) x y = foldl patch_screen (flat ?w cs) (psp_rows (sp_patch s)) x y"
    by simp_all
  moreover have "apply_scroll_patch f s = Some (g, Inr ())"
    using v fits dis cs(1) g(1) by (simp add: apply_scroll_patch_def Let_def)
  ultimately show ?thesis using g by blast
qed

lemma apply_scroll_patch_ok:
  assumes "apply_scroll_patch f s = Some (g, Inr ())"
  shows "validate_patch f (sp_patch s) = Inr ()"
    and "list_all (\<lambda>sc. scroll_fits sc (fd_width (psf_frame f)) (fd_height (psf_frame f))) (sp_scrolls s)"
    and "scrolls_disjoint (sp_scrolls s)"
  using assms by (auto simp: apply_scroll_patch_def Let_def split: sum.splits if_splits)

lemma apply_scroll_patch_cases:
  "(\<exists>g. apply_scroll_patch f s = Some (g, Inr ())) \<or> (\<exists>e. apply_scroll_patch f s = Some (f, Inl e))"
proof (cases "validate_patch f (sp_patch s) = Inr () \<and>
    list_all (\<lambda>sc. scroll_fits sc (fd_width (psf_frame f)) (fd_height (psf_frame f))) (sp_scrolls s) \<and>
    scrolls_disjoint (sp_scrolls s)")
  case True
  then show ?thesis using scroll_patch_total [of f s] by blast
next
  case False
  then show ?thesis by (auto simp: apply_scroll_patch_def Let_def split: sum.split)
qed

subsection \<open>Bytes of a scroll\<close>

lemma length_scroll_bytes [simp]: "length (scroll_bytes s) = SCROLL_BYTES"
  by (simp add: scroll_bytes_def Let_def SCROLL_BYTES_def)

lemma scroll_of_chunk_bytes [simp]: "scroll_of_chunk (scroll_bytes s) = s"
  by (simp add: scroll_of_chunk_def scroll_bytes_def Let_def le_bytes_16_def)

lemma as_chunks_bytes:
  "as_chunks (length ss) (concat (map scroll_bytes ss)) = map scroll_bytes ss"
  by (induction ss) simp_all

lemma length_scrolls: "length (concat (map scroll_bytes ss)) = length ss * SCROLL_BYTES"
  by (induction ss) simp_all

text \<open>Scroll patches meet the contract of a surface update.\<close>

definition scroll_update :: "PaneSurfaceFrame \<Rightarrow> ScrollPatch \<Rightarrow> (PaneSurfaceFrame, Error) result" where
  "scroll_update f s = (case apply_scroll_patch f s of
      Some (g, Inr _) \<Rightarrow> Inr g | Some (_, Inl e) \<Rightarrow> Inl e | None \<Rightarrow> Inl ScrollBounds)"

lemma scroll_update_iff: "scroll_update f s = Inr g \<longleftrightarrow> apply_scroll_patch f s = Some (g, Inr ())"
  by (auto simp: scroll_update_def split: option.splits sum.splits prod.splits)

interpretation scrolling: surface_update scroll_update "psp_base_surface_revision \<circ> sp_patch"
proof
  fix f s g
  assume "scroll_update f s = Inr g"
  then have a: "apply_scroll_patch f s = Some (g, Inr ())" by (simp add: scroll_update_iff)
  note ok = apply_scroll_patch_ok [OF a]
  note t = scroll_patch_total [OF ok, unfolded a]
  from ok(1) show "(psp_base_surface_revision \<circ> sp_patch) s = psf_surface_revision f"
    by (simp add: validate_patch_iff)
  from t show "unat (psf_surface_revision g) = unat (psf_surface_revision f) + 1"
    and "psf_boot_id g = psf_boot_id f" and "valid_frame g"
    and "fd_width (psf_frame g) = fd_width (psf_frame f) \<and> fd_height (psf_frame g) = fd_height (psf_frame f)"
    by auto
qed

section \<open>A small scroll\<close>

definition demo_scroll :: ScrollPatch where
  "demo_scroll = \<lparr>sp_scrolls = [\<lparr>ss_rect = \<lparr>rect_x = 0, rect_y = 0, rect_width = 2, rect_height = 2\<rparr>,
     ss_shift = 1\<rparr>], sp_patch = demo_patch\<lparr>psp_rows :=
       [\<lparr>row_x = 0, row_y = 1, row_cells = map demo_cell ''XY''\<rparr>], psp_panes := []\<rparr>\<rparr>"

definition demo_scrolled :: PaneSurfaceFrame where
  "demo_scrolled = demo_frame\<lparr>psf_surface_revision := 6,
     psf_frame := (psf_frame demo_frame)\<lparr>fd_cells := map demo_cell ''cdXY''\<rparr>\<rparr>"

lemma demo_scroll_applies: "apply_scroll_patch demo_frame demo_scroll = Some (demo_scrolled, Inr ())"
proof -
  have "validate_patch demo_frame (sp_patch demo_scroll) = Inr ()"
    by (simp add: validate_patch_iff demo_frame_valid)
      (simp add: demo_frame_def demo_scroll_def demo_patch_def checked_add_def patch_row_outside_def
        demo_cell_def hyperlink_dangling_def cursor_outside_def word_le_nat_alt)
  moreover have "scroll_regions 2 (map demo_cell ''abcd'') (sp_scrolls demo_scroll)
      = Some (map demo_cell ''cdab'')"
    by (simp add: demo_scroll_def for_each_swap_def unsigned_abs_def row_start_def slice_swap_def Let_def)
  moreover have "commit_patch (demo_frame\<lparr>psf_frame := (psf_frame demo_frame)\<lparr>fd_cells := map demo_cell ''cdab''\<rparr>\<rparr>)
      (sp_patch demo_scroll) = Some demo_scrolled"
    by (simp add: commit_patch_def demo_frame_def demo_scroll_def demo_patch_def demo_scrolled_def
        commit_row_def slice_write_def)
  moreover have "list_all (\<lambda>s. scroll_fits s 2 2) (sp_scrolls demo_scroll)" "scrolls_disjoint (sp_scrolls demo_scroll)"
    by (simp_all add: demo_scroll_def scroll_fits_def unsigned_abs_def checked_add_def Let_def)
  moreover have "fd_width (psf_frame demo_frame) = 2" "fd_height (psf_frame demo_frame) = 2"
    "fd_cells (psf_frame demo_frame) = map demo_cell ''abcd''"
    by (simp_all add: demo_frame_def)
  ultimately show ?thesis by (simp add: apply_scroll_patch_def Let_def)
qed

section \<open>Properties\<close>

text \<open>
  Applying a scroll patch never panics, whatever the frame, the regions and the patch, and a
  rejected one leaves the frame untouched: the checks before the first row moves imply every bound
  of the row swaps and of the commit.
\<close>

theorem apply_scroll_patch_atomic:
  "(\<exists>g. apply_scroll_patch f s = Some (g, Inr ())) \<or> (\<exists>e. apply_scroll_patch f s = Some (f, Inl e))"
  by (rule apply_scroll_patch_cases)

text \<open>
  C4. What an applied scroll patch shows: the old screen with the rows of every region moved by its
  shift (and nothing moved outside the regions), then the patch rows over it; the frame is valid, of
  the same size and one revision on.
\<close>

theorem apply_scroll_patch_screen:
  assumes "apply_scroll_patch f s = Some (g, Inr ())"
  shows "\<exists>mid. scrolled (unat (fd_width (psf_frame f))) (unat (fd_height (psf_frame f))) (sp_scrolls s)
        (screen_of (psf_frame f)) mid \<and>
      (\<forall>x < unat (fd_width (psf_frame f)). \<forall>y < unat (fd_height (psf_frame f)).
         screen_of (psf_frame g) x y = foldl patch_screen mid (psp_rows (sp_patch s)) x y) \<and>
      valid_frame g \<and> fd_width (psf_frame g) = fd_width (psf_frame f) \<and>
      fd_height (psf_frame g) = fd_height (psf_frame f) \<and>
      unat (psf_surface_revision g) = unat (psf_surface_revision f) + 1"
  using scroll_patch_total [OF apply_scroll_patch_ok [OF assms]] assms by force

theorem apply_scroll_patch_screen_witness:
  "valid_frame demo_scrolled \<and>
   screen_of (psf_frame demo_scrolled) 1 0 = screen_of (psf_frame demo_frame) 1 1"
proof -
  from apply_scroll_patch_screen [OF demo_scroll_applies] obtain mid where
    m: "scrolled 2 2 (sp_scrolls demo_scroll) (screen_of (psf_frame demo_frame)) mid"
      "\<forall>x < 2. \<forall>y < 2. screen_of (psf_frame demo_scrolled) x y
         = foldl patch_screen mid (psp_rows (sp_patch demo_scroll)) x y"
    and v: "valid_frame demo_scrolled"
    by (auto simp: demo_frame_def)
  from m(1) have "mid 1 0 = screen_of (psf_frame demo_frame) 1 1"
    by (simp add: scrolled_def demo_scroll_def in_rect_def)
  moreover have "screen_of (psf_frame demo_scrolled) 1 0 = mid 1 0"
    using m(2) by (simp add: demo_scroll_def patch_screen_def)
  ultimately show ?thesis using v by simp
qed

text \<open>
  C28. The scroll codec round trip: what \<open>encode\<close> emits for one to 64 scrolls, when it is within the
  receiver's length limit, decodes to the same scrolls and patch. It relies on base64 and bincode
  decoding what they encoded.
\<close>

theorem scroll_round_trip:
  assumes base64_round_trip: "\<And>bs. b64dec (b64enc bs) = Inr bs"
    and bincode_round_trip: "\<And>m cs. enc m = Inr cs \<Longrightarrow> dec (concat cs) = Inr (m, length (concat cs))"
    and encoded: "scroll_encode b64enc enc s = Inr data"
    and count: "1 \<le> length (sp_scrolls s)" "length (sp_scrolls s) \<le> MAX_SCROLLS"
    and within: "encoded_len MAX_FRAME_SIZE False = Some limit" "length data \<le> limit"
  shows "scroll_decode b64dec encoded_len dec data = Inr s"
proof -
  let ?n = "length (sp_scrolls s)" and ?c = "concat (map scroll_bytes (sp_scrolls s))"
  from encoded obtain fr where fr: "encode_message enc (SM_PaneSurfacePatch (sp_patch s)) MAX_FRAME_SIZE = Inr fr"
    and data: "data = b64enc (of_nat ?n # ?c @ fr)"
    by (auto simp: scroll_encode_def write_message_def split: if_splits)
  have n: "unat (of_nat ?n :: u8) = ?n" using count by (simp add: unat_of_nat MAX_SCROLLS_def)
  have "length fr \<le> MAX_GRAPHICS_FRAME_SIZE + 4"
    using fr by (auto simp: encode_message_iff MAX_FRAME_SIZE_def MAX_GRAPHICS_FRAME_SIZE_def simp del: length_concat)
  then have rd: "read_message dec fr MAX_FRAME_SIZE = ([], Inr (SM_PaneSurfacePatch (sp_patch s)))"
    using read_message_encoded [OF fr bincode_round_trip, of "[]"] by simp
  have len: "length ?c = ?n * SCROLL_BYTES" by (rule length_scrolls)
  have "(1 + ?n * SCROLL_BYTES - 1) div SCROLL_BYTES = ?n" by (simp add: SCROLL_BYTES_def)
  moreover have "sp_scrolls s \<noteq> []" using count(1) by auto
  ultimately show ?thesis
    using count(2) within rd as_chunks_bytes [of "sp_scrolls s"] len
    by (simp add: scroll_decode_def data base64_round_trip Let_def n comp_def del: length_concat)
qed

definition base64_example_enc :: "bytes \<Rightarrow> string" where
  "base64_example_enc bs = map (\<lambda>b. char_of (unat b)) bs"

definition base64_example_dec :: "string \<Rightarrow> (bytes, ext_error) result" where
  "base64_example_dec s = Inr (map (\<lambda>c. of_nat (of_char c)) s)"

definition bincode_example_patch_enc :: "ServerMessage \<Rightarrow> (bytes list, ext_error) result" where
  "bincode_example_patch_enc m =
     (if m = SM_PaneSurfacePatch (sp_patch demo_scroll) then Inr [[19], [1]] else Inl ''unsupported'')"

definition bincode_example_patch_dec :: "bytes \<Rightarrow> (ServerMessage \<times> usize, ext_error) result" where
  "bincode_example_patch_dec bs = Inr (SM_PaneSurfacePatch (sp_patch demo_scroll), length bs)"

theorem scroll_round_trip_witness:
  "scroll_decode base64_example_dec (\<lambda>n pad. Some (n + n)) bincode_example_patch_dec
     (base64_example_enc [1, 0, 0, 0, 0, 2, 0, 2, 0, 1, 0, 2, 0, 0, 0, 19, 1]) = Inr demo_scroll"
proof (rule scroll_round_trip [where b64enc = base64_example_enc and enc = bincode_example_patch_enc])
  show "scroll_encode base64_example_enc bincode_example_patch_enc demo_scroll
      = Inr (base64_example_enc [1, 0, 0, 0, 0, 2, 0, 2, 0, 1, 0, 2, 0, 0, 0, 19, 1])"
    by (simp add: scroll_encode_def write_message_def encode_message_def bincode_example_patch_enc_def
        Let_def MAX_FRAME_SIZE_def Bounded_write_def replicate_4 le_bytes_32_def)
      (simp add: demo_scroll_def scroll_bytes_def le_bytes_16_def Let_def)
  show "base64_example_dec (base64_example_enc bs) = Inr bs" for bs
    by (simp add: base64_example_dec_def base64_example_enc_def comp_def)
  show "bincode_example_patch_dec (concat cs) = Inr (m, length (concat cs))"
    if "bincode_example_patch_enc m = Inr cs" for m cs
    using that by (auto simp: bincode_example_patch_enc_def bincode_example_patch_dec_def split: if_splits)
qed (auto simp: demo_scroll_def MAX_SCROLLS_def MAX_FRAME_SIZE_def base64_example_enc_def)

end
