(* ===== verification/Surface_Delta.thy ===== *)
theory Surface_Delta
  imports Frame Codec
begin

text \<open>
  Surface deltas, \<open>crates/sheprd-protocol/src/surface_delta.rs\<close>: a recomputed surface sent as its
  metadata and the spans of cells that differ from the retained one. \<open>decode\<close> checks all that needs no
  baseline, \<open>reconstruct\<close> the rest. The copy of a span into the cells panics out of range; the lemmas
  show that what the checks accept never does.
\<close>

section \<open>The message\<close>

definition MAX_SPANS :: nat where
  "MAX_SPANS = 4096"

definition MAX_GRID_DIMENSION :: u16 where
  "MAX_GRID_DIMENSION = 4096"

definition MAX_GRID_CELLS :: nat where
  "MAX_GRID_CELLS = 1000000"

datatype GridUpdate = GU_Patch "PaneSurfacePatchRow list" | GU_Replace "CellData list"

record SurfaceDelta =
  sd_base_projection_revision :: u64
  sd_base_surface_revision :: u64
  sd_surface :: PaneSurfaceFrame
  sd_rows :: "PaneSurfacePatchRow list"
  sd_popup_cells :: "GridUpdate option"

section \<open>Checks\<close>

definition grid_cells :: "u16 \<Rightarrow> u16 \<Rightarrow> (usize, Error) result" where
  "grid_cells width height =
     (let cells = unat width * unat height in
      if width > MAX_GRID_DIMENSION \<or> height > MAX_GRID_DIMENSION \<or> cells > MAX_GRID_CELLS
      then Inl DeltaGridLimit else Inr cells)"

text \<open>The loop of \<open>check_rows\<close>, with \<open>previous_end\<close> and \<open>total\<close> (\<open>tot\<close>) as its state.\<close>

fun check_spans ::
  "u16 \<Rightarrow> u16 \<Rightarrow> usize \<Rightarrow> usize \<Rightarrow> usize \<Rightarrow> PaneSurfacePatchRow list \<Rightarrow> (unit, Error) result" where
  "check_spans width height budget previous_end tot [] = Inr ()"
| "check_spans width height budget previous_end tot (row # rows) =
     (let x = unat (row_x row); len = length (row_cells row) in
      if len = 0 \<or> row_y row \<ge> height \<or> x \<ge> unat width \<or> len > unat width - x then Inl DeltaSpan
      else
        let start = unat (row_y row) * unat width + x; tot = tot + len in
        if start < previous_end \<or> tot > budget then Inl DeltaSpan
        else check_spans width height budget (start + len) tot rows)"

definition check_rows :: "PaneSurfacePatchRow list \<Rightarrow> u16 \<Rightarrow> u16 \<Rightarrow> (unit, Error) result" where
  "check_rows rows width height =
     and_then (grid_cells width height) (\<lambda>budget.
       if length rows > min MAX_SPANS budget then Inl DeltaSpan
       else check_spans width height budget 0 0 rows)"

definition check_metadata :: "FrameData \<Rightarrow> (unit, Error) result" where
  "check_metadata frame =
     and_then (grid_cells (fd_width frame) (fd_height frame)) (\<lambda>_.
       if fd_cells frame \<noteq> [] then Inl DeltaMetadataCells else Inr ())"

text \<open>The match on the popup and its update at the end of \<open>decode\<close>.\<close>

fun check_popup :: "ClientShellPopupSurface option \<Rightarrow> GridUpdate option \<Rightarrow> (unit, Error) result" where
  "check_popup None (Some _) = Inl DeltaPopup"
| "check_popup (Some popup) update =
     and_then (check_metadata (pop_frame popup)) (\<lambda>_.
       let width = fd_width (pop_frame popup); height = fd_height (pop_frame popup) in
       case update of
         Some (GU_Patch rows) \<Rightarrow> check_rows rows width height
       | Some (GU_Replace cells) \<Rightarrow>
           and_then (grid_cells width height) (\<lambda>n. if length cells \<noteq> n then Inl DeltaPopup else Inr ())
       | None \<Rightarrow> Inl DeltaPopup)"
| "check_popup None None = Inr ()"

definition delta_decode ::
  "(string \<Rightarrow> (bytes, ext_error) result) \<Rightarrow> (bytes \<Rightarrow> (SurfaceDelta \<times> usize, ext_error) result)
     \<Rightarrow> string \<Rightarrow> (SurfaceDelta, Error) result" where
  "delta_decode b64dec dec data =
     (if length data > MAX_GRAPHICS_FRAME_SIZE then Inl EncodingLimit
      else and_then (map_err EncodingPayload (b64dec data)) (\<lambda>bytes.
        and_then (decode_payload dec bytes) (\<lambda>delta.
          let surface = sd_surface delta; graphics = psf_graphics surface in
          if length data > MAX_FRAME_SIZE \<and> scene_assets graphics = [] \<and> scene_placements graphics = []
             \<and> scene_retained_assets graphics = []
          then Inl EncodingLimit
          else and_then (check_metadata (psf_frame surface)) (\<lambda>_.
            and_then (check_rows (sd_rows delta) (fd_width (psf_frame surface)) (fd_height (psf_frame surface))) (\<lambda>_.
              and_then (check_popup (psf_popup surface) (sd_popup_cells delta)) (\<lambda>_. Inr delta))))))"

definition delta_encode ::
  "(bytes \<Rightarrow> string) \<Rightarrow> (SurfaceDelta \<Rightarrow> (bytes list, ext_error) result) \<Rightarrow> SurfaceDelta
     \<Rightarrow> (string, Error) result" where
  "delta_encode b64enc enc self =
     and_then (encode_message enc self MAX_GRAPHICS_FRAME_SIZE) (\<lambda>bytes. Inr (b64enc (drop 4 bytes)))"

section \<open>Reconstruction\<close>

fun apply_rows :: "CellData list \<Rightarrow> u16 \<Rightarrow> PaneSurfacePatchRow list \<Rightarrow> CellData list option" where
  "apply_rows cells width [] = Some cells"
| "apply_rows cells width (row # rows) =
     Option.bind (slice_write cells (unat (row_y row) * unat width + unat (row_x row)) (row_cells row))
       (\<lambda>cells. apply_rows cells width rows)"

definition same_popup_grid :: "ClientShellPopupSurface \<Rightarrow> ClientShellPopupSurface \<Rightarrow> bool" where
  "same_popup_grid previous next \<longleftrightarrow>
     pop_terminal_id previous = pop_terminal_id next
     \<and> fd_width (pop_frame previous) = fd_width (pop_frame next)
     \<and> fd_height (pop_frame previous) = fd_height (pop_frame next)
     \<and> length (fd_cells (pop_frame previous))
         = unat (fd_width (pop_frame next)) * unat (fd_height (pop_frame next))"

definition with_cells :: "ClientShellPopupSurface \<Rightarrow> CellData list \<Rightarrow> ClientShellPopupSurface" where
  "with_cells popup cells = popup\<lparr>pop_frame := (pop_frame popup)\<lparr>fd_cells := cells\<rparr>\<rparr>"

text \<open>The match on the popup and its update in \<open>reconstruct\<close>; \<open>None\<close> outside is a panic.\<close>

fun rebuild_popup ::
  "ClientShellPopupSurface option \<Rightarrow> GridUpdate option \<Rightarrow> ClientShellPopupSurface option
     \<Rightarrow> (ClientShellPopupSurface option, Error) result option" where
  "rebuild_popup None None base = Some (Inr None)"
| "rebuild_popup (Some popup) (Some (GU_Replace cells)) base = Some (Inr (Some (with_cells popup cells)))"
| "rebuild_popup (Some popup) (Some (GU_Patch rows)) base =
     (case base of
        Some previous \<Rightarrow>
          if same_popup_grid previous popup then
            map_option (\<lambda>cells. Inr (Some (with_cells popup cells)))
              (apply_rows (fd_cells (pop_frame previous)) (fd_width (pop_frame popup)) rows)
          else Some (Inl DeltaPopup)
      | None \<Rightarrow> Some (Inl DeltaPopup))"
| "rebuild_popup _ _ base = Some (Inl DeltaPopup)"

definition delta_reconstruct ::
  "SurfaceDelta \<Rightarrow> PaneSurfaceFrame \<Rightarrow> (PaneSurfaceFrame, Error) result option" where
  "delta_reconstruct self base =
     (let surface = sd_surface self;
          width = fd_width (psf_frame base); height = fd_height (psf_frame base) in
      if psf_boot_id surface \<noteq> psf_boot_id base
         \<or> sd_base_projection_revision self \<noteq> psf_projection_revision base
         \<or> sd_base_surface_revision self \<noteq> psf_surface_revision base
         \<or> checked_add (psf_surface_revision base) 1 \<noteq> Some (psf_surface_revision surface)
         \<or> psf_projection_revision surface < psf_projection_revision base
         \<or> (fd_width (psf_frame surface), fd_height (psf_frame surface)) \<noteq> (width, height)
         \<or> length (fd_cells (psf_frame base)) \<noteq> unat width * unat height
      then Some (Inl SurfaceBaseline)
      else case rebuild_popup (psf_popup surface) (sd_popup_cells self) (psf_popup base) of
          None \<Rightarrow> None
        | Some (Inl e) \<Rightarrow> Some (Inl e)
        | Some (Inr popup) \<Rightarrow>
            map_option (\<lambda>cells. Inr (surface\<lparr>psf_popup := popup,
                psf_frame := (psf_frame surface)\<lparr>fd_cells := cells\<rparr>\<rparr>))
              (apply_rows (fd_cells (psf_frame base)) width (sd_rows self)))"

section \<open>What the checks establish\<close>

text \<open>A delta every check of \<open>decode\<close> passed.\<close>

definition checked_delta :: "SurfaceDelta \<Rightarrow> bool" where
  "checked_delta d \<longleftrightarrow>
     check_metadata (psf_frame (sd_surface d)) = Inr () \<and>
     check_rows (sd_rows d) (fd_width (psf_frame (sd_surface d))) (fd_height (psf_frame (sd_surface d))) = Inr () \<and>
     check_popup (psf_popup (sd_surface d)) (sd_popup_cells d) = Inr ()"

text \<open>The spans as intervals of the row-major cell vector.\<close>

definition span_start :: "u16 \<Rightarrow> PaneSurfacePatchRow \<Rightarrow> nat" where
  "span_start width row = unat (row_y row) * unat width + unat (row_x row)"

definition span_cells :: "u16 \<Rightarrow> PaneSurfacePatchRow \<Rightarrow> nat set" where
  "span_cells width row = {span_start width row ..< span_start width row + length (row_cells row)}"

lemma apply_rows_commit: "apply_rows cells w rows = commit_rows w cells rows"
  by (induction rows arbitrary: cells) (simp_all add: commit_row_def cong: bind_option_cong)

lemma check_spans_inside:
  "check_spans w h b e t rows = Inr u \<Longrightarrow>
     \<forall>row \<in> set rows. row_y row < h \<and> unat (row_x row) + length (row_cells row) \<le> unat w \<and> row_cells row \<noteq> []"
proof (induction rows arbitrary: e t)
  case (Cons row rows)
  then show ?case
    by (auto simp: Let_def split: if_splits)
qed simp

lemma check_spans_ordered:
  "check_spans w h b e t rows = Inr u \<Longrightarrow>
     sorted_wrt (\<lambda>p q. span_start w p + length (row_cells p) \<le> span_start w q) rows \<and>
     (\<forall>row \<in> set rows. e \<le> span_start w row) \<and>
     t + sum_list (map (length \<circ> row_cells) rows) \<le> max b t"
proof (induction rows arbitrary: e t)
  case (Cons row rows)
  let ?e = "span_start w row + length (row_cells row)"
  from Cons.prems have rest: "check_spans w h b ?e (t + length (row_cells row)) rows = Inr u"
    and le: "e \<le> span_start w row" "t + length (row_cells row) \<le> b"
    by (auto simp: Let_def span_start_def split: if_splits)
  from Cons.IH [OF rest] le show ?case by fastforce
qed simp

lemma check_rows_iff:
  "check_rows rows w h = Inr u \<longleftrightarrow>
     w \<le> MAX_GRID_DIMENSION \<and> h \<le> MAX_GRID_DIMENSION \<and> unat w * unat h \<le> MAX_GRID_CELLS \<and>
     length rows \<le> min MAX_SPANS (unat w * unat h) \<and> check_spans w h (unat w * unat h) 0 0 rows = Inr ()"
  by (auto simp: check_rows_def grid_cells_def Let_def)

lemma checked_rows_apply:
  assumes "check_rows rows w h = Inr ()" and "length cells = unat w * unat h"
  shows "\<exists>cells'. apply_rows cells w rows = Some cells' \<and> length cells' = length cells \<and>
    set cells' \<subseteq> set cells \<union> (\<Union>row \<in> set rows. set (row_cells row)) \<and>
    (\<forall>x < unat w. \<forall>y < unat h. cells' ! (y * unat w + x) =
       foldl patch_screen (\<lambda>x y. cells ! (y * unat w + x)) rows x y)"
proof -
  have "\<forall>row \<in> set rows. row_y row < h \<and> unat (row_x row) + length (row_cells row) \<le> unat w"
    using assms(1) check_spans_inside [of w h "unat w * unat h" 0 0 rows "()"]
    by (auto simp: check_rows_iff)
  from commit_rows_inside [OF assms(2) this] show ?thesis by (simp add: apply_rows_commit)
qed

lemma delta_decode_iff:
  "delta_decode b64dec dec data = Inr d \<longleftrightarrow>
     length data \<le> MAX_GRAPHICS_FRAME_SIZE \<and>
     (\<exists>bs. b64dec data = Inr bs \<and> decode_payload dec bs = Inr d) \<and>
     (length data > MAX_FRAME_SIZE \<longrightarrow> scene_assets (psf_graphics (sd_surface d)) \<noteq> [] \<or>
        scene_placements (psf_graphics (sd_surface d)) \<noteq> [] \<or>
        scene_retained_assets (psf_graphics (sd_surface d)) \<noteq> []) \<and>
     checked_delta d"
  by (cases "b64dec data") (auto simp: delta_decode_def Let_def checked_delta_def)

lemma rebuild_popup_total:
  assumes "check_popup popup update = Inr ()"
  shows "\<exists>r. rebuild_popup popup update base = Some r"
proof (cases "(popup, update, base)" rule: rebuild_popup.cases)
  case (3 p rows b)
  with assms have rows: "check_rows rows (fd_width (pop_frame p)) (fd_height (pop_frame p)) = Inr ()"
    by (auto simp: Let_def)
  show ?thesis
  proof (cases b)
    case (Some previous)
    show ?thesis
    proof (cases "same_popup_grid previous p")
      case True
      then have "length (fd_cells (pop_frame previous))
          = unat (fd_width (pop_frame p)) * unat (fd_height (pop_frame p))"
        by (simp add: same_popup_grid_def)
      from checked_rows_apply [OF rows this] 3 Some True show ?thesis by auto
    qed (use 3 Some in simp)
  qed (use 3 in simp)
qed (use assms in auto)

text \<open>
  What the popup of a reconstructed surface is, given the retained one, the delta's and the update of its cells: none
  without one, and otherwise the delta's, on the grid of the retained popup when the update is by spans.
\<close>

definition popup_rebuilt ::
  "ClientShellPopupSurface option \<Rightarrow> ClientShellPopupSurface option \<Rightarrow> GridUpdate option \<Rightarrow> ClientShellPopupSurface option \<Rightarrow> bool" where
  "popup_rebuilt base popup update result \<longleftrightarrow>
     (case popup of
        None \<Rightarrow> update = None \<and> result = None
      | Some p \<Rightarrow>
          \<exists>cells. result = Some (p\<lparr>pop_frame := (pop_frame p)\<lparr>fd_cells := cells\<rparr>\<rparr>) \<and>
            length cells = unat (fd_width (pop_frame p)) * unat (fd_height (pop_frame p)) \<and>
            (update = Some (GU_Replace cells) \<or>
             (\<exists>rows old. update = Some (GU_Patch rows) \<and> base = Some old \<and> pop_terminal_id old = pop_terminal_id p \<and>
                fd_width (pop_frame old) = fd_width (pop_frame p) \<and> fd_height (pop_frame old) = fd_height (pop_frame p) \<and>
                (\<forall>x < unat (fd_width (pop_frame p)). \<forall>y < unat (fd_height (pop_frame p)).
                   cells ! (y * unat (fd_width (pop_frame p)) + x) = foldl patch_screen (screen_of (pop_frame old)) rows x y))))"

lemma rebuild_popup_rebuilt:
  assumes "check_popup popup update = Inr ()" "rebuild_popup popup update base = Some (Inr result)"
  shows "popup_rebuilt base popup update result"
proof (cases "(popup, update, base)" rule: rebuild_popup.cases)
  case (2 p cells b)
  with assms show ?thesis
    by (auto simp: popup_rebuilt_def with_cells_def Let_def grid_cells_def split: if_splits sum.splits)
next
  case (3 p rows b)
  with assms(1) have rows: "check_rows rows (fd_width (pop_frame p)) (fd_height (pop_frame p)) = Inr ()" by (auto simp: Let_def)
  from assms(2) 3 obtain old cells where old: "b = Some old" "same_popup_grid old p"
    and cells: "apply_rows (fd_cells (pop_frame old)) (fd_width (pop_frame p)) rows = Some cells" "result = Some (with_cells p cells)"
    by (auto split: option.splits if_splits)
  have len: "length (fd_cells (pop_frame old)) = unat (fd_width (pop_frame p)) * unat (fd_height (pop_frame p))"
    using old(2) by (simp add: same_popup_grid_def)
  have "screen_of (pop_frame old) = (\<lambda>x y. fd_cells (pop_frame old) ! (y * unat (fd_width (pop_frame p)) + x))"
    using old(2) by (intro ext) (simp add: screen_of_def same_popup_grid_def)
  with checked_rows_apply [OF rows len] 3 old cells len show ?thesis
    by (auto simp: popup_rebuilt_def with_cells_def same_popup_grid_def)
qed (use assms in \<open>auto simp: popup_rebuilt_def\<close>)

lemma delta_reconstruct_baseline:
  assumes "delta_reconstruct d base = Some (Inr g)"
  shows "psf_boot_id g = psf_boot_id base"
    and "sd_base_surface_revision d = psf_surface_revision base"
    and "sd_base_projection_revision d = psf_projection_revision base"
    and "unat (psf_surface_revision g) = unat (psf_surface_revision base) + 1"
    and "psf_projection_revision base \<le> psf_projection_revision g"
    and "fd_width (psf_frame g) = fd_width (psf_frame base)"
    and "fd_height (psf_frame g) = fd_height (psf_frame base)"
    and "length (fd_cells (psf_frame base)) = unat (fd_width (psf_frame base)) * unat (fd_height (psf_frame base))"
    and "\<exists>popup cells. g = (sd_surface d)\<lparr>psf_popup := popup, psf_frame := (psf_frame (sd_surface d))\<lparr>fd_cells := cells\<rparr>\<rparr>
       \<and> rebuild_popup (psf_popup (sd_surface d)) (sd_popup_cells d) (psf_popup base) = Some (Inr popup)
       \<and> apply_rows (fd_cells (psf_frame base)) (fd_width (psf_frame base)) (sd_rows d) = Some cells"
  using assms
  by (auto simp: delta_reconstruct_def Let_def checked_add_Some not_less split: if_splits option.splits sum.splits)

lemma checked_delta_total:
  assumes c: "checked_delta d"
  shows "\<exists>r. delta_reconstruct d base = Some r"
proof -
  from c obtain p where p: "rebuild_popup (psf_popup (sd_surface d)) (sd_popup_cells d) (psf_popup base) = Some p"
    using rebuild_popup_total [of "psf_popup (sd_surface d)" "sd_popup_cells d" "psf_popup base"]
    by (auto simp: checked_delta_def)
  have "\<exists>cells. apply_rows (fd_cells (psf_frame base)) (fd_width (psf_frame base)) (sd_rows d) = Some cells"
    if "fd_width (psf_frame (sd_surface d)) = fd_width (psf_frame base)"
      "fd_height (psf_frame (sd_surface d)) = fd_height (psf_frame base)"
      "length (fd_cells (psf_frame base)) = unat (fd_width (psf_frame base)) * unat (fd_height (psf_frame base))"
    using checked_rows_apply [OF _ that(3), of "sd_rows d"] c that(1,2) by (auto simp: checked_delta_def)
  with p show ?thesis
    by (auto simp: delta_reconstruct_def Let_def split: sum.split)
qed

text \<open>
  Deltas, reconstructed and validated as the session accepts them, meet the contract of a surface update.
\<close>

definition delta_update :: "PaneSurfaceFrame \<Rightarrow> SurfaceDelta \<Rightarrow> (PaneSurfaceFrame, Error) result" where
  "delta_update f d = (case delta_reconstruct d f of
      Some r \<Rightarrow> and_then r (\<lambda>g. and_then (FrameData_validate (psf_frame g)) (\<lambda>_. Inr g))
    | None \<Rightarrow> Inl DeltaSpan)"

lemma delta_update_iff:
  "delta_update f d = Inr g \<longleftrightarrow> delta_reconstruct d f = Some (Inr g) \<and> valid_frame g"
  by (auto simp: delta_update_def valid_frame_def split: option.splits)

interpretation delta: surface_update delta_update sd_base_surface_revision
  by unfold_locales (auto simp: delta_update_iff dest: delta_reconstruct_baseline)

section \<open>A small delta\<close>

definition demo_delta :: SurfaceDelta where
  "demo_delta = \<lparr>sd_base_projection_revision = 1, sd_base_surface_revision = 5,
     sd_surface = demo_frame\<lparr>psf_projection_revision := 2, psf_surface_revision := 6,
       psf_frame := (psf_frame demo_frame)\<lparr>fd_cells := []\<rparr>\<rparr>,
     sd_rows = [\<lparr>row_x = 1, row_y = 0, row_cells = [demo_cell CHR ''Z'']\<rparr>,
       \<lparr>row_x = 0, row_y = 1, row_cells = [demo_cell CHR ''W'']\<rparr>],
     sd_popup_cells = None\<rparr>"

definition demo_delta_next :: PaneSurfaceFrame where
  "demo_delta_next = demo_frame\<lparr>psf_projection_revision := 2, psf_surface_revision := 6,
     psf_frame := (psf_frame demo_frame)\<lparr>fd_cells := map demo_cell ''aZWd''\<rparr>\<rparr>"

lemma demo_delta_checked: "checked_delta demo_delta"
  by (simp add: checked_delta_def demo_delta_def demo_frame_def check_metadata_def grid_cells_def
      MAX_GRID_DIMENSION_def MAX_GRID_CELLS_def MAX_SPANS_def check_rows_def Let_def word_le_nat_alt word_less_nat_alt)

lemma demo_delta_reconstructs: "delta_reconstruct demo_delta demo_frame = Some (Inr demo_delta_next)"
  by (simp add: delta_reconstruct_def demo_delta_def demo_frame_def demo_delta_next_def checked_add_def
      slice_write_def Let_def)

section \<open>Properties\<close>

text \<open>
  A delta that was decoded never makes the reconstruction panic, whatever surface is retained: the
  result is the next surface or an error.
\<close>

theorem decoded_delta_total:
  assumes "delta_decode b64dec dec data = Inr d"
  shows "\<exists>r. delta_reconstruct d base = Some r"
  using assms by (intro checked_delta_total) (simp add: delta_decode_iff)

theorem decoded_delta_total_witness:
  "\<exists>r. delta_reconstruct demo_delta demo_frame = Some r"
proof (rule decoded_delta_total [where b64dec = "\<lambda>_. Inr [1]" and dec = "\<lambda>bs. Inr (demo_delta, length bs)"
      and data = "''x''"])
  show "delta_decode (\<lambda>_. Inr [1]) (\<lambda>bs. Inr (demo_delta, length bs)) ''x'' = Inr demo_delta"
    by (simp add: delta_decode_iff decode_payload_iff demo_delta_checked MAX_GRAPHICS_FRAME_SIZE_def MAX_FRAME_SIZE_def)
qed

text \<open>
  C29. A reconstructed surface is the retained one with the delta's spans over it: every cell is the one
  a span writes there, else the retained cell; no two spans write one cell, and together they carry no
  more cells than the grid has. A popup has the cells the delta gives, or the retained popup's with the
  spans over them. Everything else is the delta's metadata: the frame but for its cells (cursor,
  hyperlinks, graphics) and the surface but for its frame and its popup's cells. The boot and the size are
  kept, and the surface revision is the next one.
\<close>

theorem delta_reconstruct_screen:
  assumes "checked_delta d" and "delta_reconstruct d base = Some (Inr g)"
  shows "(\<forall>x < unat (fd_width (psf_frame base)). \<forall>y < unat (fd_height (psf_frame base)).
      screen_of (psf_frame g) x y = foldl patch_screen (screen_of (psf_frame base)) (sd_rows d) x y) \<and>
    length (fd_cells (psf_frame g)) = length (fd_cells (psf_frame base)) \<and>
    sorted_wrt (\<lambda>p q. span_cells (fd_width (psf_frame base)) p \<inter> span_cells (fd_width (psf_frame base)) q = {}) (sd_rows d) \<and>
    sum_list (map (length \<circ> row_cells) (sd_rows d)) \<le> length (fd_cells (psf_frame base)) \<and>
    psf_boot_id g = psf_boot_id base \<and> psf_projection_revision base \<le> psf_projection_revision g \<and>
    unat (psf_surface_revision g) = unat (psf_surface_revision base) + 1 \<and>
    fd_width (psf_frame g) = fd_width (psf_frame base) \<and> fd_height (psf_frame g) = fd_height (psf_frame base) \<and>
    psf_frame g = (psf_frame (sd_surface d))\<lparr>fd_cells := fd_cells (psf_frame g)\<rparr> \<and>
    g = (sd_surface d)\<lparr>psf_frame := psf_frame g, psf_popup := psf_popup g\<rparr> \<and>
    popup_rebuilt (psf_popup base) (psf_popup (sd_surface d)) (sd_popup_cells d) (psf_popup g)"
proof -
  note b = delta_reconstruct_baseline [OF assms(2)]
  let ?w = "fd_width (psf_frame base)" and ?h = "fd_height (psf_frame base)" and ?c = "fd_cells (psf_frame base)"
  from b(9) obtain popup cells where
    g: "g = (sd_surface d)\<lparr>psf_popup := popup, psf_frame := (psf_frame (sd_surface d))\<lparr>fd_cells := cells\<rparr>\<rparr>"
    and cells: "apply_rows ?c ?w (sd_rows d) = Some cells" by blast
  have dim: "fd_width (psf_frame (sd_surface d)) = ?w" "fd_height (psf_frame (sd_surface d)) = ?h"
    using b(6,7) by (simp_all add: g)
  with assms(1) have rows: "check_rows (sd_rows d) ?w ?h = Inr ()" by (simp add: checked_delta_def)
  have scr: "screen_of (psf_frame base) = (\<lambda>x y. ?c ! (y * unat ?w + x))"
    by (intro ext) (simp add: screen_of_def)
  from checked_rows_apply [OF rows b(8)] cells have
    "length cells = length ?c" "\<forall>x < unat ?w. \<forall>y < unat ?h. cells ! (y * unat ?w + x) =
       foldl patch_screen (screen_of (psf_frame base)) (sd_rows d) x y"
    by (auto simp: scr)
  moreover have "sorted_wrt (\<lambda>p q. span_cells ?w p \<inter> span_cells ?w q = {}) (sd_rows d)"
    "sum_list (map (length \<circ> row_cells) (sd_rows d)) \<le> length ?c"
    using check_spans_ordered [of ?w ?h "unat ?w * unat ?h" 0 0 "sd_rows d" "()"] rows b(8)
    by (auto simp: check_rows_iff span_cells_def elim!: sorted_wrt_mono_rel [rotated])
  moreover have "popup_rebuilt (psf_popup base) (psf_popup (sd_surface d)) (sd_popup_cells d) (psf_popup g)"
    using b(9) assms(1) rebuild_popup_rebuilt by (fastforce simp: checked_delta_def)
  ultimately show ?thesis
    using b dim by (simp add: g screen_of_def)
qed

theorem delta_reconstruct_screen_witness:
  "screen_of (psf_frame demo_delta_next) 1 0 = demo_cell CHR ''Z'' \<and>
   screen_of (psf_frame demo_delta_next) 0 0 = screen_of (psf_frame demo_frame) 0 0"
proof -
  have "unat (fd_width (psf_frame demo_frame)) = 2" "unat (fd_height (psf_frame demo_frame)) = 2"
    by (simp_all add: demo_frame_def)
  moreover have "foldl patch_screen (screen_of (psf_frame demo_frame)) (sd_rows demo_delta) 1 0 = demo_cell CHR ''Z''"
    "foldl patch_screen (screen_of (psf_frame demo_frame)) (sd_rows demo_delta) 0 0
      = screen_of (psf_frame demo_frame) 0 0"
    by (simp_all add: demo_delta_def patch_screen_def)
  ultimately show ?thesis
    using delta_reconstruct_screen [OF demo_delta_checked demo_delta_reconstructs] by simp
qed

end
