(* ===== verification/Surface_Reuse.thy ===== *)
theory Surface_Reuse
  imports Frame Codec
begin

text \<open>
  Two small parts of the surface protocol in \<open>crates/sheprd-protocol/src\<close>. \<open>surface_reuse.rs\<close>: a
  surface whose cells are all unchanged, sent as metadata. \<open>surface_prefix.rs\<close>: whether the first bytes
  of an unfinished frame announce an update to the surface on screen, so that input may be written
  before the frame is complete. serde_json and bincode are arguments.
\<close>

section \<open>Reuse\<close>

record SurfaceReuse =
  sr_base_surface_revision :: u64
  sr_surface :: PaneSurfaceFrame

definition reuse_decode ::
  "(string \<Rightarrow> (SurfaceReuse, ext_error) result) \<Rightarrow> string \<Rightarrow> (SurfaceReuse, Error) result" where
  "reuse_decode from_str data =
     (if length data > MAX_FRAME_SIZE then Inl EncodingLimit else map_err EncodingJson (from_str data))"

definition reuse_encode ::
  "(SurfaceReuse \<Rightarrow> (string, ext_error) result) \<Rightarrow> SurfaceReuse \<Rightarrow> (string, Error) result" where
  "reuse_encode to_string self = map_err EncodingJson (to_string self)"

definition reuse_reconstruct :: "SurfaceReuse \<Rightarrow> PaneSurfaceFrame \<Rightarrow> (PaneSurfaceFrame, Error) result" where
  "reuse_reconstruct self base =
     (let surface = sr_surface self in
      if psf_boot_id surface \<noteq> psf_boot_id base
         \<or> sr_base_surface_revision self \<noteq> psf_surface_revision base
         \<or> checked_add (psf_surface_revision base) 1 \<noteq> Some (psf_surface_revision surface)
         \<or> psf_projection_revision surface < psf_projection_revision base
         \<or> fd_width (psf_frame surface) \<noteq> fd_width (psf_frame base)
         \<or> fd_height (psf_frame surface) \<noteq> fd_height (psf_frame base)
         \<or> fd_cells (psf_frame surface) \<noteq> []
      then Inl SurfaceBaseline
      else Inr (surface\<lparr>psf_frame := (psf_frame surface)\<lparr>fd_cells := fd_cells (psf_frame base)\<rparr>\<rparr>))"

section \<open>Prefixes\<close>

definition MAX_HEADER_BYTES :: nat where
  "MAX_HEADER_BYTES = 512"

definition SURFACE_TAG :: u32 where
  "SURFACE_TAG = 13"

definition PATCH_TAG :: u32 where
  "PATCH_TAG = 19"

definition has_current_surface_prefix ::
  "(bytes \<Rightarrow> ((u32 \<times> string \<times> u64 \<times> u64) \<times> usize, ext_error) result)
     \<Rightarrow> (bytes \<Rightarrow> (u64 \<times> usize, ext_error) result)
     \<Rightarrow> bytes \<Rightarrow> ClientShellSnapshot \<Rightarrow> PaneSurfaceFrame \<Rightarrow> bool" where
  "has_current_surface_prefix header number payload snapshot surface =
     (if psf_boot_id surface \<noteq> snap_boot_id snapshot \<or> psf_popup surface \<noteq> None then False
      else
        let payload = take (min (length payload) MAX_HEADER_BYTES) payload in
        case header payload of
          Inl _ \<Rightarrow> False
        | Inr ((tag, boot_id, projection, revision), used) \<Rightarrow>
            if boot_id \<noteq> snap_boot_id snapshot \<or> projection \<noteq> snap_revision snapshot then False
            else if tag = SURFACE_TAG then revision > psf_surface_revision surface
            else if tag = PATCH_TAG then
              (case number (drop used payload) of
                 Inl _ \<Rightarrow> False
               | Inr (next, _) \<Rightarrow>
                   psf_projection_revision surface = projection
                   \<and> revision = psf_surface_revision surface
                   \<and> checked_add revision 1 = Some next)
            else False)"

text \<open>
  What the inspection relies on of bincode's positional encoding: the header read from the first bytes
  of a payload is the variant tag and the leading fields of the message the whole payload decodes to,
  and the number read after it is the next field of a patch.
\<close>

definition positional_header ::
  "(bytes \<Rightarrow> (ServerMessage \<times> usize, ext_error) result)
     \<Rightarrow> (bytes \<Rightarrow> ((u32 \<times> string \<times> u64 \<times> u64) \<times> usize, ext_error) result)
     \<Rightarrow> (bytes \<Rightarrow> (u64 \<times> usize, ext_error) result) \<Rightarrow> bool" where
  "positional_header dec header number \<longleftrightarrow>
     (\<forall>payload k m n tag boot projection revision used.
        dec payload = Inr (m, n) \<longrightarrow> header (take k payload) = Inr ((tag, boot, projection, revision), used) \<longrightarrow>
        tag = ServerMessage_tag m \<and>
        (\<forall>f. m = SM_PaneSurface f \<longrightarrow> boot = psf_boot_id f \<and> projection = psf_projection_revision f
           \<and> revision = psf_surface_revision f) \<and>
        (\<forall>p next l. m = SM_PaneSurfacePatch p \<longrightarrow> boot = psp_boot_id p \<and> projection = psp_projection_revision p
           \<and> revision = psp_base_surface_revision p
           \<and> (number (drop used (take k payload)) = Inr (next, l) \<longrightarrow> next = psp_surface_revision p)))"

section \<open>Lemmas\<close>

lemma reuse_reconstruct_baseline:
  assumes "reuse_reconstruct r base = Inr g"
  shows "psf_boot_id g = psf_boot_id base" and "sr_base_surface_revision r = psf_surface_revision base"
    and "unat (psf_surface_revision g) = unat (psf_surface_revision base) + 1"
    and "fd_width (psf_frame g) = fd_width (psf_frame base)"
    and "fd_height (psf_frame g) = fd_height (psf_frame base)"
    and "fd_cells (psf_frame g) = fd_cells (psf_frame base)"
    and "psf_projection_revision base \<le> psf_projection_revision g"
  using assms by (auto simp: reuse_reconstruct_def Let_def checked_add_Some not_less split: if_splits)

definition reuse_update :: "PaneSurfaceFrame \<Rightarrow> SurfaceReuse \<Rightarrow> (PaneSurfaceFrame, Error) result" where
  "reuse_update f r = and_then (reuse_reconstruct r f) (\<lambda>g. and_then (FrameData_validate (psf_frame g)) (\<lambda>_. Inr g))"

lemma reuse_update_iff: "reuse_update f r = Inr g \<longleftrightarrow> reuse_reconstruct r f = Inr g \<and> valid_frame g"
  by (auto simp: reuse_update_def valid_frame_def)

interpretation reuse: surface_update reuse_update sr_base_surface_revision
  by unfold_locales (auto simp: reuse_update_iff dest: reuse_reconstruct_baseline)

lemma tag_surface: "ServerMessage_tag m = SURFACE_TAG \<Longrightarrow> \<exists>f. m = SM_PaneSurface f"
  by (cases m) (simp_all add: SURFACE_TAG_def)

lemma tag_patch: "ServerMessage_tag m = PATCH_TAG \<Longrightarrow> \<exists>p. m = SM_PaneSurfacePatch p"
  by (cases m) (simp_all add: PATCH_TAG_def)

lemma current_prefix_cases:
  assumes positional: "positional_header dec header number"
    and current: "has_current_surface_prefix header number (take j payload) snapshot surface"
    and decoded: "dec payload = Inr (m, n)"
  shows "(\<exists>f. m = SM_PaneSurface f \<and> psf_boot_id f = snap_boot_id snapshot \<and>
        psf_projection_revision f = snap_revision snapshot \<and> psf_surface_revision f > psf_surface_revision surface) \<or>
    (\<exists>p. m = SM_PaneSurfacePatch p \<and> validate_patch surface p \<noteq> Inl PatchIdentity)"
proof -
  let ?k = "min (min (length (take j payload)) MAX_HEADER_BYTES) j"
  from current obtain tag boot projection revision used where
    h: "header (take ?k payload) = Inr ((tag, boot, projection, revision), used)"
    by (auto simp: has_current_surface_prefix_def Let_def take_take split: if_splits sum.splits)
  note pos = positional [unfolded positional_header_def, rule_format, OF decoded h]
  from current h have s: "psf_boot_id surface = snap_boot_id snapshot" "psf_popup surface = None"
    "boot = snap_boot_id snapshot" "projection = snap_revision snapshot" "tag = SURFACE_TAG \<or> tag = PATCH_TAG"
    by (auto simp: has_current_surface_prefix_def Let_def take_take split: if_splits)
  from s(5) show ?thesis
  proof
    assume t: "tag = SURFACE_TAG"
    then obtain f where "m = SM_PaneSurface f" using pos tag_surface [of m] by auto
    with pos s t current h show ?thesis
      by (auto simp: has_current_surface_prefix_def Let_def take_take split: if_splits)
  next
    assume t: "tag = PATCH_TAG"
    then obtain p where p: "m = SM_PaneSurfacePatch p" using pos tag_patch [of m] by auto
    from current h s t obtain nxt l where "number (drop used (take ?k payload)) = Inr (nxt, l)"
      "psf_projection_revision surface = projection" "revision = psf_surface_revision surface"
      "checked_add revision 1 = Some nxt"
      by (auto simp: has_current_surface_prefix_def Let_def take_take SURFACE_TAG_def PATCH_TAG_def split: if_splits sum.splits)
    with pos p s have "validate_patch surface p \<noteq> Inl PatchIdentity"
      by (auto simp: validate_patch_def FrameData_validate_def)
    with p show ?thesis by blast
  qed
qed

section \<open>Properties\<close>

definition demo_reuse :: SurfaceReuse where
  "demo_reuse = \<lparr>sr_base_surface_revision = 5, sr_surface = demo_frame\<lparr>psf_surface_revision := 6,
     psf_frame := (psf_frame demo_frame)\<lparr>fd_cells := []\<rparr>\<rparr>\<rparr>"

text \<open>
  A reused surface shows exactly the retained cells: the screen is that of the baseline, the rest
  is the message's metadata, and it follows the baseline it names by one revision.
\<close>

theorem reuse_keeps_screen:
  assumes "reuse_reconstruct r base = Inr g"
  shows "screen_of (psf_frame g) = screen_of (psf_frame base) \<and>
    g\<lparr>psf_frame := psf_frame (sr_surface r)\<rparr> = sr_surface r \<and>
    sr_base_surface_revision r = psf_surface_revision base \<and> psf_boot_id g = psf_boot_id base \<and>
    unat (psf_surface_revision g) = unat (psf_surface_revision base) + 1"
proof -
  note b = reuse_reconstruct_baseline [OF assms]
  from b(4,6) have "screen_of (psf_frame g) = screen_of (psf_frame base)"
    by (intro ext) (simp add: screen_of_def)
  moreover have "g\<lparr>psf_frame := psf_frame (sr_surface r)\<rparr> = sr_surface r"
    using assms by (auto simp: reuse_reconstruct_def Let_def split: if_splits)
  ultimately show ?thesis using b by simp
qed

theorem reuse_keeps_screen_witness:
  "screen_of (psf_frame (demo_frame\<lparr>psf_surface_revision := 6\<rparr>)) = screen_of (psf_frame demo_frame) \<and>
   unat (psf_surface_revision (demo_frame\<lparr>psf_surface_revision := 6\<rparr>)) = unat (psf_surface_revision demo_frame) + 1"
proof -
  have "reuse_reconstruct demo_reuse demo_frame = Inr (demo_frame\<lparr>psf_surface_revision := 6\<rparr>)"
    by (simp add: reuse_reconstruct_def demo_reuse_def demo_frame_def checked_add_def Let_def)
  from reuse_keeps_screen [OF this] show ?thesis by blast
qed

definition demo_snapshot :: ClientShellSnapshot where
  "demo_snapshot = \<lparr>snap_boot_id = ''boot'', snap_revision = 1, snap_config_diagnostic = None,
     snap_product_announcement = None, snap_update_available = None, snap_update_install_command = [],
     snap_server_keybindings_toml = None, snap_latest_release_notes_available = False,
     snap_integration_updates_available = False, snap_worktree_directory = [], snap_release_notes = None,
     snap_focused_workspace_id = None, snap_focused_tab_id = None, snap_focused_pane_id = None,
     snap_tab_bar_right = [], snap_tab_bar_right_separator = [], snap_agent_view_label = None,
     snap_agent_order = [], snap_workspaces = [], snap_tabs = [], snap_panes = [], snap_agents = [],
     snap_commands = []\<rparr>"

definition header_example :: "bytes \<Rightarrow> ((u32 \<times> string \<times> u64 \<times> u64) \<times> usize, ext_error) result" where
  "header_example bs = (if length bs < 4 then Inl ''eof'' else Inr ((19, ''boot'', 1, 5), 4))"

definition number_example :: "bytes \<Rightarrow> (u64 \<times> usize, ext_error) result" where
  "number_example bs = (if bs = [] then Inl ''eof'' else Inr (6, 1))"

text \<open>
  A current prefix is never misread: when the complete payload decodes, it is a surface of the
  snapshot's boot and revision that is newer than the one on screen, or a patch that the identity check
  of \<open>validate_patch\<close> lets through, so no other message and no stale update matches.
\<close>

theorem current_prefix_sound:
  assumes positional: "positional_header dec header number"
    and current: "has_current_surface_prefix header number payload snapshot surface"
    and decoded: "dec payload = Inr (m, n)"
  shows "(\<exists>f. m = SM_PaneSurface f \<and> psf_boot_id f = snap_boot_id snapshot \<and>
        psf_projection_revision f = snap_revision snapshot \<and> psf_surface_revision f > psf_surface_revision surface) \<or>
    (\<exists>p. m = SM_PaneSurfacePatch p \<and> validate_patch surface p \<noteq> Inl PatchIdentity)"
  by (rule current_prefix_cases [OF positional, where j = "length payload" and payload = payload, simplified, OF current decoded])

theorem current_prefix_sound_witness:
  "validate_patch demo_frame demo_patch \<noteq> Inl PatchIdentity"
proof -
  have "positional_header (\<lambda>bs. Inr (SM_PaneSurfacePatch demo_patch, length bs)) header_example number_example"
    by (simp add: positional_header_def header_example_def number_example_def demo_patch_def)
  moreover have "has_current_surface_prefix header_example number_example [1, 2, 3, 4, 5] demo_snapshot demo_frame"
    by (simp add: has_current_surface_prefix_def header_example_def number_example_def demo_snapshot_def
        demo_frame_def SURFACE_TAG_def PATCH_TAG_def checked_add_def MAX_HEADER_BYTES_def Let_def)
  ultimately have "(\<exists>f. SM_PaneSurfacePatch demo_patch = SM_PaneSurface f \<and> psf_boot_id f = snap_boot_id demo_snapshot \<and>
        psf_projection_revision f = snap_revision demo_snapshot \<and> psf_surface_revision f > psf_surface_revision demo_frame) \<or>
    (\<exists>p. SM_PaneSurfacePatch demo_patch = SM_PaneSurfacePatch p \<and> validate_patch demo_frame p \<noteq> Inl PatchIdentity)"
    by (rule current_prefix_sound) simp
  then show ?thesis by auto
qed

end
