(* ===== verification/Image_Store.thy ===== *)
theory Image_Store
  imports Wire
begin

text \<open>
  The image bytes a connection keeps, \<open>crates/sheprd-client/src/surface_images.rs\<close>. The hash map of
  images is an association list with distinct keys (its order is never observed), the hash sets of keys
  are sets; \<open>contains_key\<close> is membership in the keys, \<open>insert\<close> of an absent key conses, \<open>retain\<close>
  filters. The process-wide serial counter is passed through explicitly. \<open>self.bytes -= freed\<close> panics on
  underflow, so pruning returns an option; the invariant shows that it never does.
\<close>

section \<open>Assets\<close>

definition MAX_PLACEMENTS :: nat where
  "MAX_PLACEMENTS = 4096"

definition MAX_IMAGE_SIDE :: u32 where
  "MAX_IMAGE_SIDE = 10000"

definition MAX_IMAGES :: nat where
  "MAX_IMAGES = 256"

definition MAX_IMAGE_BYTES :: nat where
  "MAX_IMAGE_BYTES = 256 * 1024 * 1024"

record SurfaceImage =
  im_serial :: u64
  im_data :: bytes

type_synonym image_map = "(SurfaceGraphicsAssetKey \<times> SurfaceImage) list"

text \<open>\<open>SurfaceImage::new\<close>: the next serial (a wrapping \<open>fetch_add\<close>) and the image.\<close>

definition SurfaceImage_new :: "u64 \<Rightarrow> bytes \<Rightarrow> u64 \<times> SurfaceImage" where
  "SurfaceImage_new serial data = (serial + 1, \<lparr>im_serial = serial, im_data = data\<rparr>)"

definition checked_mul :: "u64 \<Rightarrow> u64 \<Rightarrow> u64 option" where
  "checked_mul a b = (if unat a * unat b < 2 ^ 64 then Some (a * b) else None)"

definition valid_asset :: "SurfaceGraphicsAssetKey \<Rightarrow> bytes \<Rightarrow> bool" where
  "valid_asset key data =
     (if data = [] \<or> length data \<noteq> unat (key_data_len key)
         \<or> \<not> (1 \<le> key_image_width key \<and> key_image_width key \<le> MAX_IMAGE_SIDE)
         \<or> \<not> (1 \<le> key_image_height key \<and> key_image_height key \<le> MAX_IMAGE_SIDE)
      then False
      else
        let pixels = ucast (key_image_width key) * ucast (key_image_height key) in
        case key_format key of
          Rgb \<Rightarrow> checked_mul pixels 3 = Some (key_data_len key)
        | Rgba \<Rightarrow> checked_mul pixels 4 = Some (key_data_len key)
        | Png \<Rightarrow> True)"

definition referenced :: "SurfaceGraphicsScene \<Rightarrow> SurfaceGraphicsAssetKey set" where
  "referenced scene = set (map pl_asset (scene_placements scene) @ scene_retained_assets scene)"

text \<open>\<open>SurfaceImages::from_iter\<close>: a later valid asset replaces an earlier one of the same key.\<close>

fun SurfaceImages_from_iter :: "u64 \<Rightarrow> image_map \<Rightarrow> SurfaceGraphicsAsset list \<Rightarrow> u64 \<times> image_map" where
  "SurfaceImages_from_iter serial images [] = (serial, images)"
| "SurfaceImages_from_iter serial images (a # as) =
     (if valid_asset (asset_key a) (asset_data a) then
        let (serial, image) = SurfaceImage_new serial (asset_data a) in
        SurfaceImages_from_iter serial
          ((asset_key a, image) # filter (\<lambda>(k, _). k \<noteq> asset_key a) images) as
      else SurfaceImages_from_iter serial images as)"

section \<open>The store\<close>

record ImageStore =
  is_images :: image_map
  is_bytes :: usize
  is_latest :: "SurfaceGraphicsAssetKey set"
  is_shown :: "SurfaceGraphicsAssetKey set"

definition ImageStore_default :: ImageStore where
  "ImageStore_default = \<lparr>is_images = [], is_bytes = 0, is_latest = {}, is_shown = {}\<rparr>"

definition image_bytes :: "image_map \<Rightarrow> nat" where
  "image_bytes images = sum_list (map (\<lambda>(_, image). length (im_data image)) images)"

text \<open>\<open>prune\<close>: the store afterwards and whether it changed; \<open>None\<close> is the underflow panic.\<close>

definition prune :: "ImageStore \<Rightarrow> (ImageStore \<times> bool) option" where
  "prune self =
     (let keep = (\<lambda>(key, _). key \<in> is_latest self \<or> key \<in> is_shown self);
          before = length (is_images self);
          images = filter keep (is_images self);
          freed = image_bytes (filter (Not \<circ> keep) (is_images self)) in
      if freed \<le> is_bytes self
      then Some (self\<lparr>is_images := images, is_bytes := is_bytes self - freed\<rparr>, length images \<noteq> before)
      else None)"

text \<open>The loop of \<open>receive\<close> over the assets.\<close>

fun receive_assets ::
  "u64 \<Rightarrow> ImageStore \<Rightarrow> bool \<Rightarrow> SurfaceGraphicsAsset list \<Rightarrow> u64 \<times> ImageStore \<times> bool" where
  "receive_assets serial self changed [] = (serial, self, changed)"
| "receive_assets serial self changed (asset # assets) =
     (if asset_key asset \<in> fst ` set (is_images self) \<or> asset_key asset \<notin> is_latest self
      then receive_assets serial self changed assets
      else if \<not> valid_asset (asset_key asset) (asset_data asset)
      then receive_assets serial self changed assets
      else if length (is_images self) \<ge> MAX_IMAGES
        \<or> length (asset_data asset) > MAX_IMAGE_BYTES - is_bytes self
      then receive_assets serial self changed assets
      else
        let (serial, image) = SurfaceImage_new serial (asset_data asset) in
        receive_assets serial
          (self\<lparr>is_bytes := is_bytes self + length (asset_data asset),
                is_images := (asset_key asset, image) # is_images self\<rparr>) True assets)"

definition receive ::
  "u64 \<Rightarrow> ImageStore \<Rightarrow> PaneSurfaceFrame \<Rightarrow> (u64 \<times> ImageStore \<times> PaneSurfaceFrame \<times> bool) option" where
  "receive serial self surface =
     (let scene = psf_graphics surface;
          scene = (if length (scene_placements scene) > MAX_PLACEMENTS
                   then scene\<lparr>scene_placements := take MAX_PLACEMENTS (scene_placements scene)\<rparr> else scene);
          assets = scene_assets scene;
          scene = scene\<lparr>scene_assets := []\<rparr> in
      Option.bind (prune (self\<lparr>is_latest := referenced scene\<rparr>)) (\<lambda>(self, changed).
        let (serial, self, changed) = receive_assets serial self changed assets in
        Some (serial, self, surface\<lparr>psf_graphics := scene\<rparr>, changed)))"

definition show_images :: "ImageStore \<Rightarrow> (ImageStore \<times> bool) option" where
  "show_images self = prune (self\<lparr>is_shown := is_latest self\<rparr>)"

definition published :: "ImageStore \<Rightarrow> image_map" where
  "published self = is_images self"

section \<open>The invariant\<close>

text \<open>
  The store counts its bytes exactly, keeps one image per key, each one what its key promises, and stays
  within both budgets.
\<close>

definition store_inv :: "ImageStore \<Rightarrow> bool" where
  "store_inv s \<longleftrightarrow>
     distinct (map fst (is_images s)) \<and> is_bytes s = image_bytes (is_images s) \<and>
     length (is_images s) \<le> MAX_IMAGES \<and> is_bytes s \<le> MAX_IMAGE_BYTES \<and>
     (\<forall>(k, image) \<in> set (is_images s). valid_asset k (im_data image))"

text \<open>Every kept image is one the newest or the shown surface names.\<close>

definition store_live :: "ImageStore \<Rightarrow> bool" where
  "store_live s \<longleftrightarrow> fst ` set (is_images s) \<subseteq> is_latest s \<union> is_shown s"

section \<open>Lemmas\<close>

lemma image_bytes_split: "image_bytes images = image_bytes (filter P images) + image_bytes (filter (Not \<circ> P) images)"
  by (induction images) (auto simp: image_bytes_def)

lemma distinct_map_filter_fst: "distinct (map fst xs) \<Longrightarrow> distinct (map fst (filter P xs))"
  by (rule distinct_map_filter)

lemma length_filter_eq: "length (filter P xs) = length xs \<longleftrightarrow> filter P xs = xs"
proof
  assume "length (filter P xs) = length xs"
  then have "\<forall>x \<in> set xs. P x" using length_filter_less [of _ xs P] by force
  then show "filter P xs = xs" by simp
qed simp

lemma prune_inv:
  assumes "is_bytes s = image_bytes (is_images s)" and "distinct (map fst (is_images s))"
    and "length (is_images s) \<le> MAX_IMAGES" and "is_bytes s \<le> MAX_IMAGE_BYTES"
    and "\<forall>(k, image) \<in> set (is_images s). valid_asset k (im_data image)"
  shows "\<exists>s' c. prune s = Some (s', c) \<and> store_inv s' \<and> store_live s' \<and>
    is_latest s' = is_latest s \<and> is_shown s' = is_shown s \<and>
    is_images s' = filter (\<lambda>(k, _). k \<in> is_latest s \<union> is_shown s) (is_images s) \<and>
    (c \<longleftrightarrow> is_images s' \<noteq> is_images s)"
proof -
  let ?keep = "\<lambda>(k, _). k \<in> is_latest s \<or> k \<in> is_shown s"
  have split: "is_bytes s = image_bytes (filter ?keep (is_images s)) + image_bytes (filter (Not \<circ> ?keep) (is_images s))"
    using assms(1) image_bytes_split [of "is_images s" ?keep] by simp
  have len: "length (filter ?keep (is_images s)) \<le> MAX_IMAGES"
    using assms(3) length_filter_le [of ?keep "is_images s"] by linarith
  have ch: "length (filter ?keep (is_images s)) \<noteq> length (is_images s) \<longleftrightarrow> filter ?keep (is_images s) \<noteq> is_images s"
    by (simp add: length_filter_eq)
  show ?thesis
    unfolding prune_def Let_def store_inv_def store_live_def
    using assms(2,4,5) split len ch by (simp add: distinct_map_filter_fst) auto
qed

lemma receive_assets_inv:
  assumes "store_inv s" and "store_live s"
    and "receive_assets serial s c assets = (serial', s', c')"
  shows "store_inv s' \<and> store_live s' \<and> is_latest s' = is_latest s \<and> is_shown s' = is_shown s \<and>
    (\<exists>new. is_images s' = new @ is_images s \<and> (c' \<longleftrightarrow> c \<or> new \<noteq> []))"
  using assms
proof (induction assets arbitrary: serial s c)
  case (Cons a as)
  let ?s = "s\<lparr>is_bytes := is_bytes s + length (asset_data a),
     is_images := (asset_key a, \<lparr>im_serial = serial, im_data = asset_data a\<rparr>) # is_images s\<rparr>"
  show ?case
  proof (cases "asset_key a \<notin> fst ` set (is_images s) \<and> asset_key a \<in> is_latest s \<and>
      valid_asset (asset_key a) (asset_data a) \<and> length (is_images s) < MAX_IMAGES \<and>
      length (asset_data a) \<le> MAX_IMAGE_BYTES - is_bytes s")
    case True
    then have r: "receive_assets (serial + 1) ?s True as = (serial', s', c')"
      using Cons.prems(3) by (simp add: SurfaceImage_new_def Let_def)
    have "store_inv ?s" "store_live ?s"
      using Cons.prems(1,2) True by (auto simp: store_inv_def store_live_def image_bytes_def)
    from Cons.IH [OF this r] show ?thesis by auto
  next
    case False
    then have "receive_assets serial s c as = (serial', s', c')"
      using Cons.prems(3) by (auto simp: not_less not_le split: if_splits)
    with Cons.IH Cons.prems(1,2) show ?thesis by blast
  qed
qed auto

lemma store_inv_sets [simp]:
  "store_inv (s\<lparr>is_latest := l\<rparr>) = store_inv s" "store_inv (s\<lparr>is_shown := l\<rparr>) = store_inv s"
  by (simp_all add: store_inv_def)

lemma store_prune:
  assumes "store_inv s"
  shows "\<exists>s' c. prune s = Some (s', c) \<and> store_inv s' \<and> store_live s' \<and>
    is_latest s' = is_latest s \<and> is_shown s' = is_shown s \<and>
    is_images s' = filter (\<lambda>(k, _). k \<in> is_latest s \<union> is_shown s) (is_images s) \<and>
    (c \<longleftrightarrow> is_images s' \<noteq> is_images s)"
  using assms by (intro prune_inv) (auto simp: store_inv_def)

lemma map_of_filter_key: "k \<in> A \<Longrightarrow> map_of (filter (\<lambda>(k, _). k \<in> A) xs) k = map_of xs k"
  by (induction xs) auto

lemma receive_total:
  assumes "store_inv s"
  shows "\<exists>serial' s' f' c. receive serial s f = Some (serial', s', f', c) \<and> store_inv s' \<and> store_live s' \<and>
    is_shown s' = is_shown s \<and> is_latest s' = referenced (psf_graphics f') \<and>
    scene_assets (psf_graphics f') = [] \<and> length (scene_placements (psf_graphics f')) \<le> MAX_PLACEMENTS \<and>
    (\<exists>g. f' = f\<lparr>psf_graphics := g\<rparr>) \<and>
    (\<forall>k \<in> is_latest s' \<union> is_shown s. k \<in> fst ` set (is_images s) \<longrightarrow>
       map_of (is_images s') k = map_of (is_images s) k) \<and>
    (\<not> c \<longrightarrow> is_images s' = is_images s)"
proof -
  let ?g0 = "psf_graphics f"
  define g1 where "g1 = (if length (scene_placements ?g0) > MAX_PLACEMENTS
    then ?g0\<lparr>scene_placements := take MAX_PLACEMENTS (scene_placements ?g0)\<rparr> else ?g0)"
  define g where "g = g1\<lparr>scene_assets := []\<rparr>"
  from assms have "store_inv (s\<lparr>is_latest := referenced g\<rparr>)" by simp
  from store_prune [OF this] obtain s1 c1 where
    p: "prune (s\<lparr>is_latest := referenced g\<rparr>) = Some (s1, c1)" and s1: "store_inv s1" "store_live s1"
      "is_latest s1 = referenced g" "is_shown s1 = is_shown s"
      "is_images s1 = filter (\<lambda>(k, _). k \<in> referenced g \<union> is_shown s) (is_images s)"
      "c1 \<longleftrightarrow> is_images s1 \<noteq> is_images s"
    by auto
  obtain serial' s' c where r: "receive_assets serial s1 c1 (scene_assets g1) = (serial', s', c)"
    by (metis prod_cases3)
  from receive_assets_inv [OF s1(1,2) r] obtain new where n: "store_inv s'" "store_live s'"
    "is_latest s' = referenced g" "is_shown s' = is_shown s" "is_images s' = new @ is_images s1" "c \<longleftrightarrow> c1 \<or> new \<noteq> []"
    using s1 by auto
  have "receive serial s f = Some (serial', s', f\<lparr>psf_graphics := g\<rparr>, c)"
    using p r by (simp add: receive_def Let_def g1_def [symmetric] g_def [symmetric])
  moreover have "map_of (is_images s') k = map_of (is_images s) k"
    if k: "k \<in> referenced g \<union> is_shown s" "k \<in> fst ` set (is_images s)" for k
  proof -
    have "k \<in> fst ` set (is_images s1)" using k by (force simp: s1(5))
    moreover have "distinct (map fst (is_images s'))" using n(1) by (simp add: store_inv_def)
    ultimately have "k \<notin> fst ` set new" unfolding n(5) by auto
    then have "map_of new k = None" by (simp add: map_of_eq_None_iff)
    then have "map_of (is_images s') k = map_of (is_images s1) k"
      unfolding n(5) by (simp add: map_add_def)
    also have "\<dots> = map_of (is_images s) k"
      unfolding s1(5) using k(1) by (rule map_of_filter_key)
    finally show ?thesis .
  qed
  ultimately show ?thesis
    using n s1(6) by (auto simp: g_def g1_def)
qed

lemma show_images_total:
  assumes "store_inv s"
  shows "\<exists>s' c. show_images s = Some (s', c) \<and> store_inv s' \<and> store_live s' \<and>
    is_latest s' = is_latest s \<and> is_shown s' = is_latest s \<and>
    is_images s' = filter (\<lambda>(k, _). k \<in> is_latest s) (is_images s) \<and> (c \<longleftrightarrow> is_images s' \<noteq> is_images s)"
  using store_prune [of "s\<lparr>is_shown := is_latest s\<rparr>"] assms by (simp add: show_images_def)

section \<open>Reachable stores\<close>

inductive store_reach :: "ImageStore \<Rightarrow> bool" where
  fresh: "store_reach ImageStore_default"
| received: "store_reach s \<Longrightarrow> receive serial s f = Some (serial', s', f', c) \<Longrightarrow> store_reach s'"
| shown: "store_reach s \<Longrightarrow> show_images s = Some (s', c) \<Longrightarrow> store_reach s'"

lemma store_reach_inv: "store_reach s \<Longrightarrow> store_inv s \<and> store_live s"
proof (induction rule: store_reach.induct)
  case fresh
  show ?case by (simp add: store_inv_def store_live_def ImageStore_default_def image_bytes_def)
next
  case (received s serial f serial' s' f' c)
  with receive_total [of s serial f] show ?case by auto
next
  case (shown s s' c)
  with show_images_total [of s] show ?case by auto
qed

section \<open>Properties\<close>

definition demo_key :: SurfaceGraphicsAssetKey where
  "demo_key = \<lparr>key_source = Source_Terminal (Target_Pane ''p1'') 7, key_image_width = 1, key_image_height = 1,
     key_format = Rgb, key_data_len = 3, key_data_fingerprint = 9\<rparr>"

definition demo_scene :: SurfaceGraphicsScene where
  "demo_scene = \<lparr>scene_assets = [\<lparr>asset_key = demo_key, asset_data = [1, 2, 3]\<rparr>,
     \<lparr>asset_key = demo_key\<lparr>key_data_len := 4\<rparr>, asset_data = [1, 2, 3, 4]\<rparr>],
     scene_placements = [], scene_retained_assets = [demo_key]\<rparr>"

definition demo_image_frame :: PaneSurfaceFrame where
  "demo_image_frame = \<lparr>psf_boot_id = ''boot'', psf_projection_revision = 1, psf_surface_revision = 1,
     psf_frame = \<lparr>fd_cells = [], fd_width = 0, fd_height = 0, fd_cursor = None, fd_hyperlinks = [], fd_graphics = []\<rparr>,
     psf_panes = [], psf_splits = [], psf_popup = None, psf_graphics = demo_scene\<rparr>"

definition demo_store :: ImageStore where
  "demo_store = \<lparr>is_images = [(demo_key, \<lparr>im_serial = 1, im_data = [1, 2, 3]\<rparr>)], is_bytes = 3,
     is_latest = {demo_key}, is_shown = {}\<rparr>"

lemma demo_receives:
  "receive 1 ImageStore_default demo_image_frame =
     Some (2, demo_store, demo_image_frame\<lparr>psf_graphics := demo_scene\<lparr>scene_assets := []\<rparr>\<rparr>, True)"
proof -
  have n: "demo_key\<lparr>key_data_len := 4\<rparr> \<noteq> demo_key" by (simp add: demo_key_def)
  have v: "valid_asset demo_key [1, 2, 3]"
    by (simp add: valid_asset_def demo_key_def MAX_IMAGE_SIDE_def checked_mul_def word_le_nat_alt)
  have "referenced (demo_scene\<lparr>scene_assets := []\<rparr>) = {demo_key}"
    by (simp add: referenced_def demo_scene_def)
  with n v show ?thesis
    by (simp add: receive_def demo_image_frame_def demo_scene_def Let_def MAX_PLACEMENTS_def prune_def
        ImageStore_default_def image_bytes_def SurfaceImage_new_def MAX_IMAGES_def MAX_IMAGE_BYTES_def demo_store_def
        n [symmetric])
qed

text \<open>
  C6. The image store stays within its budgets whatever surfaces arrive: every store reachable by
  receiving and showing surfaces counts its bytes exactly, holds at most 256 images and 256 MiB, one
  image per key and each exactly as its key describes, none that neither the newest nor the shown surface
  names, and the next receive or show never underflows the byte count.
\<close>

theorem image_store_safe:
  assumes "store_reach s"
  shows "distinct (map fst (is_images s)) \<and> is_bytes s = image_bytes (is_images s) \<and>
    length (is_images s) \<le> MAX_IMAGES \<and> is_bytes s \<le> MAX_IMAGE_BYTES \<and>
    (\<forall>(k, image) \<in> set (is_images s). valid_asset k (im_data image)) \<and>
    fst ` set (is_images s) \<subseteq> is_latest s \<union> is_shown s \<and>
    receive serial s f \<noteq> None \<and> show_images s \<noteq> None"
  using store_reach_inv [OF assms] receive_total [of s serial f] show_images_total [of s]
  unfolding store_inv_def store_live_def by auto

theorem image_store_safe_witness:
  "is_bytes demo_store = image_bytes (is_images demo_store) \<and> receive 2 demo_store demo_image_frame \<noteq> None"
  using image_store_safe [OF store_reach.received [OF store_reach.fresh demo_receives]] by blast

text \<open>
  A surface never loses the bytes it still needs: receiving a surface keeps every stored image that
  it or the shown surface references, unchanged, takes the asset bytes out of the surface and leaves the
  rest of it as it was, and reports no change only when the published set is the same.
\<close>

theorem receive_retains:
  assumes "store_inv s" and "receive serial s f = Some (serial', s', f', changed)"
  shows "(\<forall>k \<in> referenced (psf_graphics f') \<union> is_shown s. k \<in> fst ` set (is_images s) \<longrightarrow>
      map_of (published s') k = map_of (published s) k) \<and>
    scene_assets (psf_graphics f') = [] \<and> (\<exists>g. f' = f\<lparr>psf_graphics := g\<rparr>) \<and>
    length (scene_placements (psf_graphics f')) \<le> MAX_PLACEMENTS \<and>
    (\<not> changed \<longrightarrow> published s' = published s)"
  using receive_total [OF assms(1), of serial f] assms(2) by (auto simp: published_def)

theorem receive_retains_witness:
  "scene_assets (psf_graphics (demo_image_frame\<lparr>psf_graphics := demo_scene\<lparr>scene_assets := []\<rparr>\<rparr>)) = []"
proof -
  have "store_inv ImageStore_default" using store_reach_inv [OF store_reach.fresh] by simp
  from receive_retains [OF this demo_receives] show ?thesis by blast
qed

end
