(* ===== verification/Client_State.thy ===== *)
theory Client_State
  imports Surface_Scroll Surface_Delta Surface_Reuse Image_Store
begin

text \<open>
  The state of a connection, \<open>crates/sheprd-client/src/session.rs\<close>, \<open>session/barrier.rs\<close>,
  \<open>method.rs\<close>, \<open>limits.rs\<close>: the methods, errors and events, the health of the link and its deadlines.
  Instants and durations are nanoseconds. Logging is left out.
\<close>

section \<open>Limits\<close>

definition secs :: "nat \<Rightarrow> nat" where
  "secs n = n * 1000000000"

definition QUIET_PING :: nat where
  "QUIET_PING = secs 5"
definition TIMEOUT :: nat where
  "TIMEOUT = secs 10"
definition PING_TIMEOUT :: nat where
  "PING_TIMEOUT = secs 10"
definition COMMAND_TIMEOUT :: nat where
  "COMMAND_TIMEOUT = secs 60"
definition MAX_RESPONSE_BYTES :: nat where
  "MAX_RESPONSE_BYTES = 8 * 1024 * 1024"
definition MAX_INTERLEAVED_INPUT_BYTES :: nat where
  "MAX_INTERLEAVED_INPUT_BYTES = 4 * 1024"

section \<open>Methods\<close>

datatype Method =
    ClientShellSurfaceSet | CommandInvoke | IntegrationInstall | IntegrationInstallV2
  | IntegrationList | IntegrationListV2 | LayoutSetSplitRatio | PaneClear | PaneClose | PaneCopyMotion
  | PaneCopySearch | PaneEditScrollback | PaneFocus | PaneFocusDirection | PaneInputSet | PaneLinkActivate
  | PaneLinkResolve | PaneRename | PaneResize | PaneScroll | PaneSelectionRead | PaneSplit | PaneSwap
  | PaneZoom | ProductAnnouncementDismiss | ReleaseNotesDismiss | ServerReloadConfig | TabClose
  | TabCreate | TabFocus | TabMove | TabRename | WorkspaceClose | WorkspaceCreate | WorkspaceFocus
  | WorkspaceMove | WorkspaceMoveBlock | WorkspaceRename | WorktreeCreate | WorktreeList | WorktreeOpen
  | WorktreeRemove

primrec Method_as_str :: "Method \<Rightarrow> string" where
  "Method_as_str ClientShellSurfaceSet = ''client_shell.surface.set''"
| "Method_as_str CommandInvoke = ''command.invoke''"
| "Method_as_str IntegrationInstall = ''integration.install''"
| "Method_as_str IntegrationInstallV2 = ''integration.install.v2''"
| "Method_as_str IntegrationList = ''integration.list''"
| "Method_as_str IntegrationListV2 = ''integration.list.v2''"
| "Method_as_str LayoutSetSplitRatio = ''layout.set_split_ratio''"
| "Method_as_str PaneClear = ''pane.clear''"
| "Method_as_str PaneClose = ''pane.close''"
| "Method_as_str PaneCopyMotion = ''pane.copy_motion''"
| "Method_as_str PaneCopySearch = ''pane.copy_search''"
| "Method_as_str PaneEditScrollback = ''pane.edit_scrollback''"
| "Method_as_str PaneFocus = ''pane.focus''"
| "Method_as_str PaneFocusDirection = ''pane.focus_direction''"
| "Method_as_str PaneInputSet = ''pane.input.set''"
| "Method_as_str PaneLinkActivate = ''pane.link.activate''"
| "Method_as_str PaneLinkResolve = ''pane.link.resolve''"
| "Method_as_str PaneRename = ''pane.rename''"
| "Method_as_str PaneResize = ''pane.resize''"
| "Method_as_str PaneScroll = ''pane.scroll''"
| "Method_as_str PaneSelectionRead = ''pane.selection.read''"
| "Method_as_str PaneSplit = ''pane.split''"
| "Method_as_str PaneSwap = ''pane.swap''"
| "Method_as_str PaneZoom = ''pane.zoom''"
| "Method_as_str ProductAnnouncementDismiss = ''product_announcement.dismiss''"
| "Method_as_str ReleaseNotesDismiss = ''release_notes.dismiss''"
| "Method_as_str ServerReloadConfig = ''server.reload_config''"
| "Method_as_str TabClose = ''tab.close''"
| "Method_as_str TabCreate = ''tab.create''"
| "Method_as_str TabFocus = ''tab.focus''"
| "Method_as_str TabMove = ''tab.move''"
| "Method_as_str TabRename = ''tab.rename''"
| "Method_as_str WorkspaceClose = ''workspace.close''"
| "Method_as_str WorkspaceCreate = ''workspace.create''"
| "Method_as_str WorkspaceFocus = ''workspace.focus''"
| "Method_as_str WorkspaceMove = ''workspace.move''"
| "Method_as_str WorkspaceMoveBlock = ''workspace.move_block''"
| "Method_as_str WorkspaceRename = ''workspace.rename''"
| "Method_as_str WorktreeCreate = ''worktree.create''"
| "Method_as_str WorktreeList = ''worktree.list''"
| "Method_as_str WorktreeOpen = ''worktree.open''"
| "Method_as_str WorktreeRemove = ''worktree.remove''"

definition advertised_in :: "Method \<Rightarrow> string list \<Rightarrow> bool" where
  "advertised_in self methods = list_ex (\<lambda>m. m = Method_as_str self) methods"

definition supports_surface_interest :: "EndpointServerWelcome \<Rightarrow> bool" where
  "supports_surface_interest welcome \<longleftrightarrow>
     list_all (\<lambda>cap. list_ex (\<lambda>c. c = cap) (esw_capabilities welcome))
       [''surface_interest'', ''presentation_effects_fence'']
     \<and> advertised_in ClientShellSurfaceSet (esw_methods welcome)"

section \<open>Errors and events\<close>

datatype ClientError =
    CE_Io io_kind
  | CE_Protocol Error
  | CE_Json ext_error
  | CE_CommandBoot | CE_UnsupportedMethod | CE_UnsupportedSurfaceInterest
  | CE_Cancelled | CE_EventReceiverDropped
  | CE_SocketClosed | CE_PartialFrameTimeout | CE_FramePrefix | CE_FrameLength
  | CE_HealthTimeout | CE_HandshakeTimeout | CE_RequestTimeout
  | CE_ExpectedWelcome | CE_LegacyDaemon | CE_ClosedBeforeWelcome
  | CE_EndpointGeneration u32 string
  | CE_WelcomeKind
  | CE_WelcomeRejected string string
  | CE_IncompatibleCodecs
  | CE_MissingSurfaceInterest string
  | CE_MissingHealthCheck string
  | CE_SnapshotIdentity | CE_SurfaceBeforeSnapshot | CE_SurfaceIdentity
  | CE_PatchBeforeBaseline | CE_EncodedSurfaceBeforeBaseline | CE_SurfaceEncodingNotNegotiated
  | CE_ResponseBoot | CE_ResponseLimit | CE_UnsolicitedResponse | CE_ResponseId
  | CE_ServerShutdown string

text \<open>A JSON value, with the two lookups the session makes.\<close>

datatype JsonValue =
    JNull | JBool bool | JNumber string | JString string | JArray "JsonValue list"
  | JObject "(string \<times> JsonValue) list"

fun json_get :: "JsonValue \<Rightarrow> string \<Rightarrow> JsonValue option" where
  "json_get (JObject kvs) key = map_of kvs key"
| "json_get _ key = None"

fun json_as_str :: "JsonValue \<Rightarrow> string option" where
  "json_as_str (JString s) = Some s"
| "json_as_str _ = None"

datatype ClientEvent =
    EV_Connected EndpointServerWelcome
  | EV_Snapshot ClientShellSnapshot
  | EV_Surface PaneSurfaceFrame
  | EV_SurfaceImages image_map
  | EV_Response string JsonValue
  | EV_CommandRejected "string option" ClientError
  | EV_Message ServerMessage

section \<open>Health\<close>

record Health =
  h_received :: nat
  h_ping :: "(nat \<times> nat) option"

definition Health_new :: "nat \<Rightarrow> Health" where
  "Health_new now = \<lparr>h_received = now, h_ping = None\<rparr>"

definition Health_received :: "Health \<Rightarrow> nat \<Rightarrow> Health" where
  "Health_received self now = self\<lparr>h_received := now, h_ping := None\<rparr>"

definition Health_probe :: "Health \<Rightarrow> nat \<Rightarrow> nat \<Rightarrow> Health \<times> bool" where
  "Health_probe self now timeout =
     (let deadline = now + timeout in
      case h_ping self of
        Some (sent, due) \<Rightarrow> (self\<lparr>h_ping := Some (sent, min due deadline)\<rparr>, False)
      | None \<Rightarrow> (self\<lparr>h_ping := Some (now, deadline)\<rparr>, True))"

definition Health_deadline :: "Health \<Rightarrow> nat" where
  "Health_deadline self =
     (case h_ping self of None \<Rightarrow> h_received self + QUIET_PING | Some (_, due) \<Rightarrow> due)"

definition Health_tick :: "Health \<Rightarrow> nat \<Rightarrow> Health \<times> (bool, ClientError) result" where
  "Health_tick self now =
     (if now < Health_deadline self then (self, Inr False)
      else if h_ping self \<noteq> None then (self, Inl CE_HealthTimeout)
      else (self\<lparr>h_ping := Some (now, now + PING_TIMEOUT)\<rparr>, Inr True))"

section \<open>The session\<close>

record SurfaceEncodings =
  enc_reuse :: bool
  enc_delta :: bool
  enc_scroll :: bool

definition reuse_CAPABILITY :: string where "reuse_CAPABILITY = ''surface_reuse''"
definition delta_CAPABILITY :: string where "delta_CAPABILITY = ''surface_delta''"
definition scroll_CAPABILITY :: string where "scroll_CAPABILITY = ''surface_scroll''"
definition reuse_MESSAGE_KIND :: string where "reuse_MESSAGE_KIND = ''endpoint.surface-reuse.v1''"
definition delta_MESSAGE_KIND :: string where "delta_MESSAGE_KIND = ''endpoint.surface-delta.v1''"
definition scroll_MESSAGE_KIND :: string where "scroll_MESSAGE_KIND = ''endpoint.surface-scroll.v1''"

definition SurfaceEncodings_from :: "EndpointServerWelcome \<Rightarrow> SurfaceEncodings" where
  "SurfaceEncodings_from welcome =
     (let advertised = (\<lambda>capability. list_ex (\<lambda>c. c = capability) (esw_capabilities welcome)) in
      \<lparr>enc_reuse = advertised reuse_CAPABILITY, enc_delta = advertised delta_CAPABILITY,
       enc_scroll = advertised scroll_CAPABILITY\<rparr>)"

record Pending =
  pen_id :: string
  pen_method :: Method
  pen_bytes :: bytes
  pen_started :: nat

record Barrier =
  bar_pending :: Pending
  bar_request :: bytes
  bar_held :: "JsonValue option"
  bar_refused :: bool

record Session =
  ses_started :: nat
  ses_surface_active :: bool
  ses_remote :: bool
  ses_health :: "Health option"
  ses_welcome :: "EndpointServerWelcome option"
  ses_encodings :: SurfaceEncodings
  ses_snapshot :: "ClientShellSnapshot option"
  ses_surface :: "PaneSurfaceFrame option"
  ses_images :: ImageStore
  ses_pending :: "Pending option"
  ses_barrier :: "Barrier option"
  ses_pipeline_barriers :: bool

definition Session_new :: "nat \<Rightarrow> bool \<Rightarrow> bool \<Rightarrow> Session" where
  "Session_new now surface_active remote =
     \<lparr>ses_started = now, ses_surface_active = surface_active, ses_remote = remote, ses_health = None,
      ses_welcome = None, ses_encodings = \<lparr>enc_reuse = False, enc_delta = False, enc_scroll = False\<rparr>,
      ses_snapshot = None, ses_surface = None, ses_images = ImageStore_default, ses_pending = None,
      ses_barrier = None, ses_pipeline_barriers = False\<rparr>"

subsection \<open>Deadlines\<close>

definition handshake_deadline :: "Session \<Rightarrow> nat option" where
  "handshake_deadline self = (if ses_snapshot self = None then Some (ses_started self + TIMEOUT) else None)"

definition min_list_option :: "nat list \<Rightarrow> nat option" where
  "min_list_option xs = (case xs of [] \<Rightarrow> None | x # xs \<Rightarrow> Some (foldl min x xs))"

definition option_list :: "'a option \<Rightarrow> 'a list" where
  "option_list x = (case x of None \<Rightarrow> [] | Some a \<Rightarrow> [a])"

definition request_deadline :: "Session \<Rightarrow> nat option" where
  "request_deadline self =
     min_list_option (map (\<lambda>p. pen_started p + COMMAND_TIMEOUT)
       (option_list (ses_pending self) @ map bar_pending (option_list (ses_barrier self))))"

definition Session_deadline :: "Session \<Rightarrow> nat option" where
  "Session_deadline self =
     min_list_option (concat (map option_list [handshake_deadline self, request_deadline self]))"

definition check_timeouts :: "Session \<Rightarrow> nat \<Rightarrow> (unit, ClientError) result" where
  "check_timeouts self now =
     (if (case handshake_deadline self of None \<Rightarrow> False | Some due \<Rightarrow> now \<ge> due) then Inl CE_HandshakeTimeout
      else if (case request_deadline self of None \<Rightarrow> False | Some due \<Rightarrow> now \<ge> due) then Inl CE_RequestTimeout
      else Inr ())"

definition wait_timeout :: "nat \<Rightarrow> nat \<Rightarrow> nat option list \<Rightarrow> nat" where
  "wait_timeout now cap deadlines = foldl min (now + cap) (concat (map option_list deadlines)) - now"

subsection \<open>Lemmas\<close>

lemma foldl_min_Min: "foldl min (a :: nat) xs = Min (insert a (set xs))"
proof (induction xs arbitrary: a)
  case (Cons x xs)
  then show ?case by (cases "xs = []") (simp_all add: min.assoc)
qed simp

lemma foldl_min_le: "x \<in> insert a (set xs) \<Longrightarrow> foldl min (a :: nat) xs \<le> x"
  unfolding foldl_min_Min by (rule Min_le) simp_all

lemma foldl_min_mem: "foldl min (a :: nat) xs \<in> insert a (set xs)"
  unfolding foldl_min_Min by (rule Min_in) simp_all

lemma min_list_option_Some:
  "min_list_option xs = Some m \<longleftrightarrow> m \<in> set xs \<and> (\<forall>x \<in> set xs. m \<le> x)"
proof (cases xs)
  case (Cons a as)
  have m: "foldl min a as \<in> set xs" "\<forall>x \<in> set xs. foldl min a as \<le> x"
    using foldl_min_mem [of a as] foldl_min_le [of _ a as] unfolding Cons list.set by blast+
  have "min_list_option xs = Some (foldl min a as)" using Cons by (simp add: min_list_option_def)
  with m show ?thesis by (metis option.inject order_antisym)
qed (simp add: min_list_option_def)

lemma min_list_option_None: "min_list_option xs = None \<longleftrightarrow> xs = []"
  by (cases xs) (simp_all add: min_list_option_def)

lemma set_option_list [simp]: "set (option_list x) = set_option x"
  by (cases x) (simp_all add: option_list_def)

section \<open>Properties\<close>

text \<open>
  The worker never sleeps past a deadline: the wait ends no later than the cap and than every
  deadline that has not passed, and when none has passed it is exactly the earliest of them.
\<close>

theorem wait_timeout_exact:
  "now + wait_timeout now cap deadlines \<le> max now (now + cap) \<and>
   (\<forall>d. Some d \<in> set deadlines \<longrightarrow> now + wait_timeout now cap deadlines \<le> max now d) \<and>
   (\<exists>e \<in> insert (now + cap) {d. Some d \<in> set deadlines}. now + wait_timeout now cap deadlines = max now e)"
proof -
  let ?xs = "concat (map option_list deadlines)"
  have set: "set ?xs = {d. Some d \<in> set deadlines}"
    by (auto simp: option_list_def split: option.splits)
  have w: "now + wait_timeout now cap deadlines = max now (foldl min (now + cap) ?xs)"
    by (simp add: wait_timeout_def)
  have le: "foldl min (now + cap) ?xs \<le> d" if "d = now + cap \<or> Some d \<in> set deadlines" for d
    using foldl_min_le [of d "now + cap" ?xs] that unfolding set by blast
  have mem: "foldl min (now + cap) ?xs \<in> insert (now + cap) {d. Some d \<in> set deadlines}"
    using foldl_min_mem [of "now + cap" ?xs] unfolding set .
  show ?thesis
    unfolding w using le mem
    by (intro conjI allI impI max.mono order_refl bexI [of _ "foldl min (now + cap) ?xs"]) simp_all
qed

theorem wait_timeout_exact_witness:
  "3 + wait_timeout 3 10 [None, Some 7, Some 9] \<le> (7 :: nat) \<and> wait_timeout 3 10 [None, Some 7, Some 9] = 4"
  using wait_timeout_exact [of 3 10 "[None, Some 7, Some 9]"]
  by (auto simp: wait_timeout_def option_list_def)

text \<open>
  The instant the session reports as its deadline is exactly when its timeouts fire:
  \<open>check_timeouts\<close> fails at \<open>now\<close> if and only if there is a deadline at or before \<open>now\<close>.
\<close>

theorem check_timeouts_deadline:
  "(\<exists>e. check_timeouts s now = Inl e) \<longleftrightarrow> (\<exists>due. Session_deadline s = Some due \<and> due \<le> now)"
proof -
  have "(\<exists>due. Session_deadline s = Some due \<and> due \<le> now) \<longleftrightarrow>
      (\<exists>due. (handshake_deadline s = Some due \<or> request_deadline s = Some due) \<and> due \<le> now)"
    unfolding Session_deadline_def min_list_option_Some
    by (cases "handshake_deadline s"; cases "request_deadline s")
      (simp_all add: option_list_def, metis linear order_trans order_refl)
  then show ?thesis
    by (auto simp: check_timeouts_def split: option.splits)
qed

text \<open>
  A silent link is found out: after a message at \<open>t\<close>, ticks before \<open>t\<close> + 5 s do nothing, the first
  tick from then on, at \<open>p\<close>, asks for one ping, and with no message since, every later tick asks for
  nothing before \<open>p\<close> + 10 s and fails the link from then on; a probe in between only brings that
  instant forward.
\<close>

theorem health_detects_silence:
  assumes "h_ping h = None" and "h_received h + QUIET_PING \<le> p"
  shows "(\<forall>now < h_received h + QUIET_PING. Health_tick h now = (h, Inr False)) \<and>
    (\<exists>h'. Health_tick h p = (h', Inr True) \<and>
      (\<forall>now. Health_tick h' now = (h', if now < p + PING_TIMEOUT then Inr False else Inl CE_HealthTimeout)) \<and>
      (\<forall>now d. \<not> snd (Health_probe h' now d) \<and> Health_deadline (fst (Health_probe h' now d)) = min (p + PING_TIMEOUT) (now + d)))"
  using assms
  by (auto simp: Health_tick_def Health_deadline_def Health_probe_def Let_def)

theorem health_detects_silence_witness:
  "\<exists>h'. Health_tick (Health_new 0) QUIET_PING = (h', Inr True) \<and>
     Health_tick h' (QUIET_PING + PING_TIMEOUT) = (h', Inl CE_HealthTimeout)"
  using health_detects_silence [of "Health_new 0" QUIET_PING] by (auto simp: Health_new_def)

text \<open>
  Two methods never share a wire name, so the advertised list answers for exactly the method asked.
\<close>

theorem Method_as_str_inject: "Method_as_str m = Method_as_str n \<longleftrightarrow> m = n"
  by (cases m; cases n; simp)

end
