(* ===== verification/Client_Session.thy ===== *)
theory Client_Session
  imports Client_State
begin

text \<open>
  The handler of every message the daemon sends a connection, \<open>handle_message\<close> of
  \<open>crates/sheprd-client/src/session.rs\<close> with \<open>accept_surface\<close> and \<open>emit_patched\<close>, the barrier's
  checks of \<open>session/barrier.rs\<close>, and the worker's sends of commands and refused activations. A handler acts on the session, the process's image serial counter and
  the events delivered so far. Delivery is the argument \<open>emit\<close>: given the events delivered before, it
  takes the next or refuses it (the receiver is gone, or the connection is stopping); the socket writer is
  the argument \<open>wr\<close> in the same way. serde_json, base64
  and bincode are the fields of \<open>Externals\<close>. An action returns \<open>None\<close> when the code would panic.
\<close>

section \<open>Actions\<close>

record Externals =
  json_welcome :: "string \<Rightarrow> (EndpointServerWelcome, ext_error) result"
  json_snapshot :: "string \<Rightarrow> (ClientShellSnapshot, ext_error) result"
  json_reuse :: "string \<Rightarrow> (SurfaceReuse, ext_error) result"
  json_value :: "bytes \<Rightarrow> (JsonValue, ext_error) result"
  base64_decode :: "string \<Rightarrow> (bytes, ext_error) result"
  base64_encoded_len :: "nat \<Rightarrow> bool \<Rightarrow> nat option"
  bincode_message :: "bytes \<Rightarrow> (ServerMessage \<times> usize, ext_error) result"
  bincode_delta :: "bytes \<Rightarrow> (SurfaceDelta \<times> usize, ext_error) result"

record World =
  w_session :: Session
  w_serial :: u64
  w_events :: "ClientEvent list"
  w_written :: "bytes list"

type_synonym 'a act = "World \<Rightarrow> (World \<times> ('a, ClientError) result) option"
type_synonym sink = "ClientEvent list \<Rightarrow> ClientEvent \<Rightarrow> ClientError option"
type_synonym writer = "bytes list \<Rightarrow> bytes \<Rightarrow> ClientError option"

definition ret :: "'a \<Rightarrow> 'a act" where
  "ret x w = Some (w, Inr x)"

definition fail :: "ClientError \<Rightarrow> 'a act" where
  "fail e w = Some (w, Inl e)"

definition andthen :: "'a act \<Rightarrow> ('a \<Rightarrow> 'b act) \<Rightarrow> 'b act" where
  "andthen a f w = (case a w of None \<Rightarrow> None
     | Some (w', Inl e) \<Rightarrow> Some (w', Inl e)
     | Some (w', Inr x) \<Rightarrow> f x w')"

definition try_ok :: "('a, ClientError) result \<Rightarrow> 'a act" where
  "try_ok r w = Some (w, r)"

definition with_session :: "(Session \<Rightarrow> 'a act) \<Rightarrow> 'a act" where
  "with_session f w = f (w_session w) w"

definition update_session :: "(Session \<Rightarrow> Session) \<Rightarrow> unit act" where
  "update_session f w = Some (w\<lparr>w_session := f (w_session w)\<rparr>, Inr ())"

definition emit_event :: "sink \<Rightarrow> ClientEvent \<Rightarrow> unit act" where
  "emit_event emit ev w = (case emit (w_events w) ev of
     Some e \<Rightarrow> Some (w, Inl e)
   | None \<Rightarrow> Some (w\<lparr>w_events := w_events w @ [ev]\<rparr>, Inr ()))"

text \<open>\<open>stream.write_all\<close>: the stream takes all the bytes or fails.\<close>

definition write_all :: "writer \<Rightarrow> bytes \<Rightarrow> unit act" where
  "write_all wr bytes w = (case wr (w_written w) bytes of
     Some e \<Rightarrow> Some (w, Inl e)
   | None \<Rightarrow> Some (w\<lparr>w_written := w_written w @ [bytes]\<rparr>, Inr ()))"

definition when_act :: "bool \<Rightarrow> unit act \<Rightarrow> unit act" where
  "when_act b a = (if b then a else ret ())"

text \<open>The image store's operations as actions.\<close>

definition images_receive :: "PaneSurfaceFrame \<Rightarrow> (PaneSurfaceFrame \<times> bool) act" where
  "images_receive f w = (case receive (w_serial w) (ses_images (w_session w)) f of
     None \<Rightarrow> None
   | Some (serial, images, f', changed) \<Rightarrow>
       Some (w\<lparr>w_serial := serial, w_session := (w_session w)\<lparr>ses_images := images\<rparr>\<rparr>, Inr (f', changed)))"

definition images_show :: "bool act" where
  "images_show w = (case show_images (ses_images (w_session w)) of
     None \<Rightarrow> None
   | Some (images, changed) \<Rightarrow>
       Some (w\<lparr>w_session := (w_session w)\<lparr>ses_images := images\<rparr>\<rparr>, Inr changed))"

definition emit_images :: "sink \<Rightarrow> unit act" where
  "emit_images emit = with_session (\<lambda>s. emit_event emit (EV_SurfaceImages (published (ses_images s))))"

section \<open>Surfaces\<close>

definition publish_surface :: "sink \<Rightarrow> ClientShellSnapshot \<Rightarrow> PaneSurfaceFrame \<Rightarrow> bool \<Rightarrow> unit act" where
  "publish_surface emit s nxt changed =
     (let shown = psf_projection_revision nxt = snap_revision s in
      andthen (if shown then images_show else ret False) (\<lambda>c.
      andthen (when_act (changed \<or> c) (emit_images emit)) (\<lambda>_.
      andthen (when_act shown (emit_event emit (EV_Surface nxt))) (\<lambda>_.
        update_session (\<lambda>self. self\<lparr>ses_surface := Some nxt\<rparr>)))))"

definition accept_surface :: "sink \<Rightarrow> PaneSurfaceFrame \<Rightarrow> unit act" where
  "accept_surface emit nxt = with_session (\<lambda>self.
     case ses_snapshot self of
       None \<Rightarrow> fail CE_SurfaceBeforeSnapshot
     | Some s \<Rightarrow>
         if psf_boot_id nxt \<noteq> snap_boot_id s
            \<or> (case ses_surface self of None \<Rightarrow> False
               | Some old \<Rightarrow> psf_surface_revision nxt \<le> psf_surface_revision old)
         then fail CE_SurfaceIdentity
         else
           andthen (try_ok (map_err CE_Protocol (FrameData_validate (psf_frame nxt)))) (\<lambda>_.
           andthen (try_ok (case psf_popup nxt of None \<Rightarrow> Inr ()
             | Some popup \<Rightarrow> map_err CE_Protocol (FrameData_validate (pop_frame popup)))) (\<lambda>_.
           andthen (images_receive nxt) (\<lambda>(nxt, changed). publish_surface emit s nxt changed))))"

definition emit_patched :: "sink \<Rightarrow> PaneSurfaceFrame \<Rightarrow> unit act" where
  "emit_patched emit current = with_session (\<lambda>self.
     if (case ses_snapshot self of None \<Rightarrow> False | Some s \<Rightarrow> snap_revision s = psf_projection_revision current)
     then
       andthen images_show (\<lambda>changed.
       andthen (when_act changed (emit_images emit)) (\<lambda>_.
         emit_event emit (EV_Surface current)))
     else ret ())"

text \<open>
  An update in place of the retained surface, by a patch or a scroll patch: \<open>None\<close> of the update is its
  panic. The frame it leaves is stored whether it accepted or rejected the update.
\<close>

definition update_surface ::
  "(PaneSurfaceFrame \<Rightarrow> (PaneSurfaceFrame \<times> (unit, Error) result) option) \<Rightarrow> PaneSurfaceFrame \<Rightarrow> unit act" where
  "update_surface f current w = (case f current of
     None \<Rightarrow> None
   | Some (next, r) \<Rightarrow>
       Some (w\<lparr>w_session := (w_session w)\<lparr>ses_surface := Some next\<rparr>\<rparr>, map_err CE_Protocol r))"

definition handle_patched ::
  "sink \<Rightarrow> (PaneSurfaceFrame \<Rightarrow> (PaneSurfaceFrame \<times> (unit, Error) result) option) \<Rightarrow> unit act" where
  "handle_patched emit f = with_session (\<lambda>self.
     case ses_surface self of
       None \<Rightarrow> fail CE_PatchBeforeBaseline
     | Some current \<Rightarrow>
         andthen (update_surface f current) (\<lambda>_.
           with_session (\<lambda>self. case ses_surface self of
             None \<Rightarrow> fail CE_PatchBeforeBaseline
           | Some current \<Rightarrow> emit_patched emit current)))"

definition handle_scroll :: "Externals \<Rightarrow> sink \<Rightarrow> string \<Rightarrow> unit act" where
  "handle_scroll ext emit data = with_session (\<lambda>self.
     if \<not> enc_scroll (ses_encodings self) then fail CE_SurfaceEncodingNotNegotiated
     else andthen (try_ok (map_err CE_Protocol
         (scroll_decode (base64_decode ext) (base64_encoded_len ext) (bincode_message ext) data)))
       (\<lambda>scroll. handle_patched emit (\<lambda>f. apply_scroll_patch f scroll)))"

definition handle_delta :: "Externals \<Rightarrow> sink \<Rightarrow> string \<Rightarrow> unit act" where
  "handle_delta ext emit data = with_session (\<lambda>self.
     if \<not> enc_delta (ses_encodings self) then fail CE_SurfaceEncodingNotNegotiated
     else andthen (try_ok (map_err CE_Protocol (delta_decode (base64_decode ext) (bincode_delta ext) data)))
       (\<lambda>delta. case ses_surface self of
          None \<Rightarrow> fail CE_EncodedSurfaceBeforeBaseline
        | Some base \<Rightarrow>
            (case delta_reconstruct delta base of
               None \<Rightarrow> (\<lambda>w. None)
             | Some r \<Rightarrow> andthen (try_ok (map_err CE_Protocol r)) (accept_surface emit))))"

definition handle_reuse :: "Externals \<Rightarrow> sink \<Rightarrow> string \<Rightarrow> unit act" where
  "handle_reuse ext emit data = with_session (\<lambda>self.
     if \<not> enc_reuse (ses_encodings self) then fail CE_SurfaceEncodingNotNegotiated
     else andthen (try_ok (map_err CE_Protocol (reuse_decode (json_reuse ext) data)))
       (\<lambda>reuse. case ses_surface self of
          None \<Rightarrow> fail CE_EncodedSurfaceBeforeBaseline
        | Some base \<Rightarrow>
            andthen (try_ok (map_err CE_Protocol (reuse_reconstruct reuse base))) (accept_surface emit)))"

section \<open>The handshake and snapshots\<close>

definition verified_ordering :: "string \<Rightarrow> bool" where
  "verified_ordering server_version \<longleftrightarrow>
     server_version \<in> {''0.9.0'', ''0.9.1'', ''0.9.2'', ''0.9.3'', ''0.9.4'', ''0.9.5''}"

definition handle_welcome :: "Externals \<Rightarrow> sink \<Rightarrow> nat \<Rightarrow> ServerMessage \<Rightarrow> unit act" where
  "handle_welcome ext emit now message = with_session (\<lambda>self.
     case message of
       SM_EndpointControl kind data \<Rightarrow>
         if kind \<noteq> ENDPOINT_WELCOME_KIND then fail CE_WelcomeKind
         else andthen (try_ok (map_err CE_Json (json_welcome ext data))) (\<lambda>w.
           if esw_generation w \<noteq> ENDPOINT_PROTOCOL_GENERATION
           then fail (CE_EndpointGeneration (esw_generation w) (esw_server_version w))
           else case esw_error w of
             Some error \<Rightarrow> fail (CE_WelcomeRejected (ehe_code error) (ehe_message error))
           | None \<Rightarrow>
               if esw_snapshot_codec w \<noteq> SNAPSHOT_CODEC_V1 \<or> esw_surface_codec w \<noteq> SURFACE_CODEC_V1
                  \<or> esw_input_codec w \<noteq> INPUT_CODEC_V1 \<or> esw_blob_codec w \<noteq> BLOB_CODEC_V1
               then fail CE_IncompatibleCodecs
               else if (ses_remote self \<or> \<not> ses_surface_active self) \<and> \<not> supports_surface_interest w
               then fail (CE_MissingSurfaceInterest (esw_server_version w))
               else if ses_remote self \<and> \<not> list_ex (\<lambda>c. c = ''health_check'') (esw_capabilities w)
               then fail (CE_MissingHealthCheck (esw_server_version w))
               else
                 andthen (when_act (ses_remote self)
                   (update_session (\<lambda>self. self\<lparr>ses_health := Some (Health_new now)\<rparr>))) (\<lambda>_.
                 andthen (update_session (\<lambda>self. self\<lparr>ses_encodings := SurfaceEncodings_from w\<rparr>)) (\<lambda>_.
                 andthen (emit_event emit (EV_Connected w)) (\<lambda>_.
                   update_session (\<lambda>self. self\<lparr>ses_pipeline_barriers := verified_ordering (esw_server_version w),
                     ses_welcome := Some w\<rparr>)))))
     | SM_Welcome _ _ _ \<Rightarrow> fail CE_LegacyDaemon
     | _ \<Rightarrow> fail CE_ExpectedWelcome)"

definition handle_snapshot :: "Externals \<Rightarrow> sink \<Rightarrow> string \<Rightarrow> unit act" where
  "handle_snapshot ext emit data = with_session (\<lambda>self.
     andthen (try_ok (map_err CE_Json (json_snapshot ext data))) (\<lambda>nxt.
       if snap_boot_id nxt = []
          \<or> (case ses_snapshot self of None \<Rightarrow> False
             | Some s \<Rightarrow> snap_boot_id s \<noteq> snap_boot_id nxt \<or> snap_revision nxt < snap_revision s)
       then fail CE_SnapshotIdentity
       else
         let revision_changed = (case ses_snapshot self of None \<Rightarrow> True
               | Some s \<Rightarrow> snap_revision s \<noteq> snap_revision nxt) in
         andthen (update_session (\<lambda>self. self\<lparr>ses_snapshot := Some nxt\<rparr>)) (\<lambda>_.
         andthen (emit_event emit (EV_Snapshot nxt)) (\<lambda>_.
           case ses_surface self of
             Some current \<Rightarrow>
               if revision_changed \<and> psf_projection_revision current = snap_revision nxt then
                 andthen images_show (\<lambda>changed.
                 andthen (when_act changed (emit_images emit)) (\<lambda>_.
                   emit_event emit (EV_Surface current)))
               else ret ()
           | None \<Rightarrow> ret ()))))"

section \<open>Responses\<close>

definition awaits :: "Barrier \<Rightarrow> string \<Rightarrow> bool" where
  "awaits self request_id \<longleftrightarrow>
     pen_id (bar_pending self) = request_id \<and> bar_held self = None \<and> \<not> bar_refused self"

definition endpoint_busy :: "JsonValue \<Rightarrow> bool" where
  "endpoint_busy response =
     (case Option.bind (json_get response ''error'') (\<lambda>e. json_get e ''code'') of
        Some code \<Rightarrow> code = JString ''endpoint_busy'' | None \<Rightarrow> False)"

definition response_total :: "Session \<Rightarrow> nat" where
  "response_total self =
     sum_list (map (\<lambda>p. length (pen_bytes p))
       (option_list (ses_pending self) @ map bar_pending (option_list (ses_barrier self))))"

text \<open>The final chunk of a response, for the barrier or for the request.\<close>

definition deliver_held :: "sink \<Rightarrow> unit act" where
  "deliver_held emit = with_session (\<lambda>self.
     case (ses_pending self, ses_barrier self) of
       (None, Some b) \<Rightarrow>
         (case bar_held b of
            Some held \<Rightarrow>
              andthen (update_session (\<lambda>self. self\<lparr>ses_barrier := None\<rparr>)) (\<lambda>_.
                emit_event emit (EV_Response (pen_id (bar_pending b)) held))
          | None \<Rightarrow> ret ())
     | _ \<Rightarrow> ret ())"

definition final_response ::
  "Externals \<Rightarrow> sink \<Rightarrow> bool \<Rightarrow> string \<Rightarrow> bytes \<Rightarrow> unit act" where
  "final_response ext emit to_barrier request_id bytes =
     andthen (try_ok (map_err CE_Json (json_value ext bytes))) (\<lambda>response.
       if Option.bind (json_get response ''id'') json_as_str \<noteq> Some request_id then fail CE_ResponseId
       else
         let deliver = andthen (emit_event emit (EV_Response request_id response)) (\<lambda>_. deliver_held emit) in
         with_session (\<lambda>self.
           case (to_barrier, ses_barrier self) of
             (True, Some b) \<Rightarrow>
               if endpoint_busy response then
                 update_session (\<lambda>self. self\<lparr>ses_pipeline_barriers := False,
                   ses_barrier := Some (b\<lparr>bar_refused := True\<rparr>)\<rparr>)
               else if ses_pending self \<noteq> None then
                 update_session (\<lambda>self. self\<lparr>ses_barrier :=
                   Some (b\<lparr>bar_pending := (bar_pending b)\<lparr>pen_bytes := bytes\<rparr>, bar_held := Some response\<rparr>)\<rparr>)
               else andthen (update_session (\<lambda>self. self\<lparr>ses_barrier := None\<rparr>)) (\<lambda>_. deliver)
           | _ \<Rightarrow> deliver))"

text \<open>A chunk for the request in flight.\<close>

definition request_chunk :: "Externals \<Rightarrow> sink \<Rightarrow> string \<Rightarrow> bool \<Rightarrow> bytes \<Rightarrow> unit act" where
  "request_chunk ext emit request_id final_chunk data = with_session (\<lambda>self.
     case ses_pending self of
       Some p \<Rightarrow>
         if pen_id p \<noteq> request_id then fail CE_UnsolicitedResponse
         else
           let bytes = pen_bytes p @ data in
           if final_chunk then
             andthen (update_session (\<lambda>self. self\<lparr>ses_pending := None\<rparr>)) (\<lambda>_.
               final_response ext emit False request_id bytes)
           else update_session (\<lambda>self. self\<lparr>ses_pending := Some (p\<lparr>pen_bytes := bytes\<rparr>)\<rparr>)
     | None \<Rightarrow> fail CE_UnsolicitedResponse)"

definition handle_response ::
  "Externals \<Rightarrow> sink \<Rightarrow> string \<Rightarrow> string \<Rightarrow> bool \<Rightarrow> bytes \<Rightarrow> unit act" where
  "handle_response ext emit boot_id request_id final_chunk data = with_session (\<lambda>self.
     if (case ses_snapshot self of None \<Rightarrow> True | Some s \<Rightarrow> snap_boot_id s \<noteq> boot_id) then fail CE_ResponseBoot
     else if length data > MAX_RESPONSE_BYTES - response_total self then fail CE_ResponseLimit
     else case ses_barrier self of
       Some b \<Rightarrow>
         if awaits b request_id then
           let bytes = pen_bytes (bar_pending b) @ data in
           if final_chunk then
             andthen (update_session (\<lambda>self. self\<lparr>ses_barrier :=
                 Some (b\<lparr>bar_pending := (bar_pending b)\<lparr>pen_bytes := []\<rparr>\<rparr>)\<rparr>)) (\<lambda>_.
               final_response ext emit True request_id bytes)
           else update_session (\<lambda>self. self\<lparr>ses_barrier :=
             Some (b\<lparr>bar_pending := (bar_pending b)\<lparr>pen_bytes := bytes\<rparr>\<rparr>)\<rparr>)
         else request_chunk ext emit request_id final_chunk data
     | None \<Rightarrow> request_chunk ext emit request_id final_chunk data)"

section \<open>Every message\<close>

definition handle_ready :: "Externals \<Rightarrow> sink \<Rightarrow> ServerMessage \<Rightarrow> unit act" where
  "handle_ready ext emit message =
     (case message of
        SM_EndpointControl kind data \<Rightarrow>
          if kind = ENDPOINT_SNAPSHOT_KIND then handle_snapshot ext emit data
          else if kind = scroll_MESSAGE_KIND then handle_scroll ext emit data
          else if kind = delta_MESSAGE_KIND then handle_delta ext emit data
          else if kind = reuse_MESSAGE_KIND then handle_reuse ext emit data
          else ret ()
      | SM_PaneSurface nxt \<Rightarrow> accept_surface emit nxt
      | SM_PaneSurfacePatch patch \<Rightarrow> handle_patched emit (\<lambda>f. apply_patch f patch)
      | SM_ClientShellEndpointResponseChunk boot_id request_id final_chunk data \<Rightarrow>
          handle_response ext emit boot_id request_id final_chunk data
      | SM_ServerShutdown reason \<Rightarrow>
          fail (CE_ServerShutdown (case reason of Some r \<Rightarrow> r | None \<Rightarrow> ''server shutdown''))
      | other \<Rightarrow> emit_event emit (EV_Message other))"

definition handle_message :: "Externals \<Rightarrow> sink \<Rightarrow> nat \<Rightarrow> ServerMessage \<Rightarrow> unit act" where
  "handle_message ext emit now message =
     andthen (update_session (\<lambda>self. self\<lparr>ses_health := map_option (\<lambda>h. Health_received h now) (ses_health self)\<rparr>))
       (\<lambda>_. with_session (\<lambda>self.
          case ses_welcome self of
            None \<Rightarrow> handle_welcome ext emit now message
          | Some _ \<Rightarrow> handle_ready ext emit message))"

section \<open>Commands\<close>

record PendingRequest =
  req_id :: string
  req_method :: Method

text \<open>A command that carries no image: the image slot and the progress of partial writes are left out.\<close>

record Command =
  cmd_boot_id :: string
  cmd_bytes :: bytes
  cmd_input_pane :: "string option"
  cmd_request :: "PendingRequest option"

definition rejection_reason :: "Session \<Rightarrow> Command \<Rightarrow> ClientError option" where
  "rejection_reason self command =
     (if (case ses_snapshot self of None \<Rightarrow> True | Some s \<Rightarrow> snap_boot_id s \<noteq> cmd_boot_id command)
      then Some CE_CommandBoot
      else case cmd_request command of
        None \<Rightarrow> None
      | Some request \<Rightarrow>
          if (case ses_welcome self of None \<Rightarrow> True | Some w \<Rightarrow> \<not> advertised_in (req_method request) (esw_methods w))
          then Some CE_UnsupportedMethod
          else if req_method request = ClientShellSurfaceSet
            \<and> (case ses_welcome self of None \<Rightarrow> True | Some w \<Rightarrow> \<not> supports_surface_interest w)
          then Some CE_UnsupportedSurfaceInterest
          else None)"

definition pipelines :: "Session \<Rightarrow> Command \<Rightarrow> bool" where
  "pipelines self command \<longleftrightarrow>
     ses_pipeline_barriers self \<and> ses_barrier self = None
     \<and> (case cmd_request command of None \<Rightarrow> False | Some r \<Rightarrow> req_method r = ClientShellSurfaceSet)
     \<and> (case ses_pending self of None \<Rightarrow> False
        | Some p \<Rightarrow> pen_method p \<in> {PaneFocus, TabFocus, WorkspaceFocus})"

definition resend_ready :: "Session \<Rightarrow> bool" where
  "resend_ready self \<longleftrightarrow> ses_pending self = None
     \<and> (case ses_barrier self of None \<Rightarrow> False | Some b \<Rightarrow> bar_refused b)"

text \<open>\<open>take_refused_barrier\<close>: the barrier taken, and the session without it.\<close>

definition take_refused_barrier :: "Session \<Rightarrow> Session \<times> Barrier option" where
  "take_refused_barrier self =
     (if resend_ready self then (self\<lparr>ses_barrier := None\<rparr>, ses_barrier self) else (self, None))"

text \<open>
  A written API request takes the lease or, behind focus, the barrier.
\<close>

definition request_sent :: "nat \<Rightarrow> Command \<Rightarrow> unit act" where
  "request_sent now command = with_session (\<lambda>self.
     case cmd_request command of
       None \<Rightarrow> ret ()
     | Some request \<Rightarrow>
         let pending = \<lparr>pen_id = req_id request, pen_method = req_method request, pen_bytes = [],
               pen_started = now\<rparr> in
         if ses_pending self \<noteq> None then
           update_session (\<lambda>self. self\<lparr>ses_barrier := Some \<lparr>bar_pending = pending,
             bar_request = cmd_bytes command, bar_held = None, bar_refused = False\<rparr>\<rparr>)
         else update_session (\<lambda>self. self\<lparr>ses_pending := Some pending\<rparr>))"

text \<open>
  The worker's step for one command that carries no image, when no inbound frame is unfinished and no
  other output is started: rejected, kept in the queue (\<open>False\<close>), or written.
\<close>

definition send_command :: "sink \<Rightarrow> writer \<Rightarrow> nat \<Rightarrow> Command \<Rightarrow> bool act" where
  "send_command emit wr now command = with_session (\<lambda>self.
     case rejection_reason self command of
       Some reason \<Rightarrow>
         andthen (emit_event emit (EV_CommandRejected (map_option req_id (cmd_request command)) reason))
           (\<lambda>_. ret True)
     | None \<Rightarrow>
         if cmd_request command \<noteq> None \<and> (ses_pending self \<noteq> None \<or> ses_barrier self \<noteq> None)
            \<and> \<not> pipelines self command
         then ret False
         else
           andthen (write_all wr (cmd_bytes command)) (\<lambda>_.
           andthen (request_sent now command) (\<lambda>_. ret True)))"

text \<open>The resend of a refused activation, its request unchanged.\<close>

definition resend_barrier :: "writer \<Rightarrow> nat \<Rightarrow> unit act" where
  "resend_barrier wr now = with_session (\<lambda>self.
     case take_refused_barrier self of
       (self', None) \<Rightarrow> ret ()
     | (self', Some barrier) \<Rightarrow>
         andthen (update_session (\<lambda>_. self')) (\<lambda>_.
         andthen (write_all wr (bar_request barrier)) (\<lambda>_.
           update_session (\<lambda>self. self\<lparr>ses_pending := Some ((bar_pending barrier)\<lparr>pen_started := now\<rparr>)\<rparr>))))"

section \<open>Runs\<close>

datatype Step = Receive nat ServerMessage | Send nat Command | Resend nat

fun conn_step :: "Externals \<Rightarrow> sink \<Rightarrow> writer \<Rightarrow> Step \<Rightarrow> unit act" where
  "conn_step ext emit wr (Receive now m) = handle_message ext emit now m"
| "conn_step ext emit wr (Send now c) = andthen (send_command emit wr now c) (\<lambda>_. ret ())"
| "conn_step ext emit wr (Resend now) = resend_barrier wr now"

text \<open>The steps of a connection in order, until one fails it.\<close>

fun conn_run :: "Externals \<Rightarrow> sink \<Rightarrow> writer \<Rightarrow> Step list \<Rightarrow> unit act" where
  "conn_run ext emit wr [] = ret ()"
| "conn_run ext emit wr (st # sts) = andthen (conn_step ext emit wr st) (\<lambda>_. conn_run ext emit wr sts)"

definition connected_world :: "nat \<Rightarrow> bool \<Rightarrow> bool \<Rightarrow> u64 \<Rightarrow> World" where
  "connected_world now surface_active remote serial =
     \<lparr>w_session = Session_new now surface_active remote, w_serial = serial, w_events = [], w_written = []\<rparr>"

end
