(* ===== verification/Client_Invariant.thy ===== *)
theory Client_Invariant
  imports Client_Session
begin

text \<open>
  The invariant of a connection and the proof that every message keeps it. A weakest-precondition
  predicate for the actions of \<open>Client_Session\<close> (\<open>wp a Q w\<close>: the action does not panic and its outcome
  satisfies \<open>Q\<close>) carries the proofs; its equations are in \<open>wp_simps\<close>.
\<close>

named_theorems wp_simps \<open>weakest preconditions of actions\<close>

section \<open>Weakest preconditions\<close>

definition wp :: "'a act \<Rightarrow> (('a, ClientError) result \<Rightarrow> World \<Rightarrow> bool) \<Rightarrow> World \<Rightarrow> bool" where
  "wp a Q w = (case a w of None \<Rightarrow> False | Some (w', r) \<Rightarrow> Q r w')"

lemma wp_ret [wp_simps]: "wp (ret x) Q w = Q (Inr x) w"
  by (simp add: wp_def ret_def)

lemma wp_fail [wp_simps]: "wp (fail e) Q w = Q (Inl e) w"
  by (simp add: wp_def fail_def)

lemma wp_try_ok [wp_simps]: "wp (try_ok r) Q w = Q r w"
  by (simp add: wp_def try_ok_def)

lemma wp_with_session [wp_simps]: "wp (with_session f) Q w = wp (f (w_session w)) Q w"
  by (simp add: wp_def with_session_def)

lemma wp_update_session [wp_simps]: "wp (update_session f) Q w = Q (Inr ()) (w\<lparr>w_session := f (w_session w)\<rparr>)"
  by (simp add: wp_def update_session_def)

lemma wp_emit_event [wp_simps]: "wp (emit_event emit ev) Q w =
    (case emit (w_events w) ev of Some e \<Rightarrow> Q (Inl e) w
     | None \<Rightarrow> Q (Inr ()) (w\<lparr>w_events := w_events w @ [ev]\<rparr>))"
  by (simp add: wp_def emit_event_def split: option.split)

lemma wp_andthen [wp_simps]: "wp (andthen a f) Q w =
    wp a (\<lambda>r w'. case r of Inl e \<Rightarrow> Q (Inl e) w' | Inr x \<Rightarrow> wp (f x) Q w') w"
  by (auto simp: wp_def andthen_def split: option.split sum.split)

lemma wp_write_all [wp_simps]: "wp (write_all wr bytes) Q w =
    (case wr (w_written w) bytes of Some e \<Rightarrow> Q (Inl e) w
     | None \<Rightarrow> Q (Inr ()) (w\<lparr>w_written := w_written w @ [bytes]\<rparr>))"
  by (simp add: wp_def write_all_def split: option.split)

lemma wp_when_act [wp_simps]: "wp (when_act b a) Q w = (if b then wp a Q w else Q (Inr ()) w)"
  by (simp add: when_act_def wp_ret)

lemma wp_mono: "wp a Q w \<Longrightarrow> (\<And>r w'. Q r w' \<Longrightarrow> R r w') \<Longrightarrow> wp a R w"
  by (auto simp: wp_def split: option.splits)

lemma wp_emit_images [wp_simps]: "wp (emit_images emit) Q w =
    wp (emit_event emit (EV_SurfaceImages (is_images (ses_images (w_session w))))) Q w"
  by (simp add: emit_images_def wp_with_session published_def)

lemma wp_images_show:
  assumes "store_inv (ses_images (w_session w))"
    and "\<And>images c. store_inv images \<Longrightarrow> (c \<longleftrightarrow> is_images images \<noteq> is_images (ses_images (w_session w))) \<Longrightarrow>
      Q (Inr c) (w\<lparr>w_session := (w_session w)\<lparr>ses_images := images\<rparr>\<rparr>)"
  shows "wp images_show Q w"
proof -
  from show_images_total [OF assms(1)] obtain s' c where
    "show_images (ses_images (w_session w)) = Some (s', c)" "store_inv s'"
    "c \<longleftrightarrow> is_images s' \<noteq> is_images (ses_images (w_session w))" by blast
  with assms(2) [of s' c] show ?thesis by (simp add: wp_def images_show_def)
qed

lemma wp_images_receive:
  assumes "store_inv (ses_images (w_session w))"
    and "\<And>serial images g c. store_inv images \<Longrightarrow> (\<not> c \<longrightarrow> is_images images = is_images (ses_images (w_session w))) \<Longrightarrow>
      Q (Inr (f\<lparr>psf_graphics := g\<rparr>, c)) (w\<lparr>w_serial := serial, w_session := (w_session w)\<lparr>ses_images := images\<rparr>\<rparr>)"
  shows "wp (images_receive f) Q w"
  using receive_total [OF assms(1), of "w_serial w" f] assms(2)
  by (fastforce simp: wp_def images_receive_def)

section \<open>What the consumer sees\<close>

definition surfaces_of :: "ClientEvent list \<Rightarrow> PaneSurfaceFrame list" where
  "surfaces_of evs = concat (map (\<lambda>e. case e of EV_Surface f \<Rightarrow> [f] | _ \<Rightarrow> []) evs)"

definition snapshots_of :: "ClientEvent list \<Rightarrow> ClientShellSnapshot list" where
  "snapshots_of evs = concat (map (\<lambda>e. case e of EV_Snapshot s \<Rightarrow> [s] | _ \<Rightarrow> []) evs)"

definition last_images :: "ClientEvent list \<Rightarrow> image_map" where
  "last_images evs = foldl (\<lambda>m e. case e of EV_SurfaceImages m' \<Rightarrow> m' | _ \<Rightarrow> m) [] evs"

lemma surfaces_of_simps [simp]:
  "surfaces_of [] = []" "surfaces_of (evs @ evs') = surfaces_of evs @ surfaces_of evs'"
  "surfaces_of [EV_Surface f] = [f]" "surfaces_of [EV_Connected x] = []" "surfaces_of [EV_Snapshot s] = []"
  "surfaces_of [EV_SurfaceImages m] = []" "surfaces_of [EV_Response i v] = []" "surfaces_of [EV_Message msg] = []"
  "surfaces_of [EV_CommandRejected j e] = []"
  by (simp_all add: surfaces_of_def)

lemma snapshots_of_simps [simp]:
  "snapshots_of [] = []" "snapshots_of (evs @ evs') = snapshots_of evs @ snapshots_of evs'"
  "snapshots_of [EV_Surface f] = []" "snapshots_of [EV_Connected x] = []" "snapshots_of [EV_Snapshot s] = [s]"
  "snapshots_of [EV_SurfaceImages m] = []" "snapshots_of [EV_Response i v] = []" "snapshots_of [EV_Message msg] = []"
  "snapshots_of [EV_CommandRejected j e] = []"
  by (simp_all add: snapshots_of_def)

lemma last_images_simps [simp]:
  "last_images [] = []" "last_images (evs @ [EV_Surface f]) = last_images evs"
  "last_images (evs @ [EV_Connected x]) = last_images evs" "last_images (evs @ [EV_Snapshot s]) = last_images evs"
  "last_images (evs @ [EV_SurfaceImages m]) = m" "last_images (evs @ [EV_Response i v]) = last_images evs"
  "last_images (evs @ [EV_Message msg]) = last_images evs"
  "last_images (evs @ [EV_CommandRejected j e]) = last_images evs"
  by (simp_all add: last_images_def)

text \<open>
  Every delivered surface is of the boot and the revision of the snapshot delivered last before it.
\<close>

definition last_snapshot :: "ClientEvent list \<Rightarrow> ClientShellSnapshot option" where
  "last_snapshot evs = (case rev (snapshots_of evs) of [] \<Rightarrow> None | s # _ \<Rightarrow> Some s)"

definition surface_current :: "ClientEvent list \<Rightarrow> ClientEvent \<Rightarrow> bool" where
  "surface_current evs e = (case e of
     EV_Surface f \<Rightarrow> (\<exists>sn. last_snapshot evs = Some sn \<and> psf_boot_id f = snap_boot_id sn \<and>
       psf_projection_revision f = snap_revision sn)
   | _ \<Rightarrow> True)"

definition surfaces_current :: "ClientEvent list \<Rightarrow> bool" where
  "surfaces_current evs \<longleftrightarrow> (\<forall>i < length evs. surface_current (take i evs) (evs ! i))"

lemma surfaces_current_snoc [simp]:
  "surfaces_current (evs @ [e]) \<longleftrightarrow> surfaces_current evs \<and> surface_current evs e"
  by (auto simp: surfaces_current_def nth_append less_Suc_eq)

lemma last_snapshot_simps [simp]:
  "last_snapshot [] = None" "last_snapshot (evs @ [EV_Snapshot s]) = Some s"
  "last_snapshot (evs @ [EV_Surface f]) = last_snapshot evs"
  "last_snapshot (evs @ [EV_Connected x]) = last_snapshot evs"
  "last_snapshot (evs @ [EV_SurfaceImages m]) = last_snapshot evs"
  "last_snapshot (evs @ [EV_Response i v]) = last_snapshot evs"
  "last_snapshot (evs @ [EV_Message msg]) = last_snapshot evs"
  "last_snapshot (evs @ [EV_CommandRejected j e]) = last_snapshot evs"
  by (simp_all add: last_snapshot_def)

lemma surface_current_simps [simp]:
  "surface_current evs (EV_Snapshot s)" "surface_current evs (EV_Connected x)"
  "surface_current evs (EV_SurfaceImages m)" "surface_current evs (EV_Response i v)"
  "surface_current evs (EV_Message msg)" "surface_current evs (EV_CommandRejected j e)"
  by (simp_all add: surface_current_def)

section \<open>The invariant\<close>

definition valid_surface :: "PaneSurfaceFrame \<Rightarrow> bool" where
  "valid_surface f \<longleftrightarrow> valid_frame f \<and>
     (case psf_popup f of None \<Rightarrow> True | Some popup \<Rightarrow> FrameData_validate (pop_frame popup) = Inr ())"

text \<open>On the delivered events: surfaces are valid and strictly newer, snapshots never regress.\<close>

definition events_inv :: "ClientEvent list \<Rightarrow> bool" where
  "events_inv evs \<longleftrightarrow>
     (\<forall>f \<in> set (surfaces_of evs). valid_surface f) \<and>
     sorted_wrt (<) (map psf_surface_revision (surfaces_of evs)) \<and>
     sorted_wrt (\<lambda>s t. snap_boot_id s = snap_boot_id t \<and> snap_revision s \<le> snap_revision t) (snapshots_of evs) \<and>
     surfaces_current evs"

text \<open>The retained surface belongs to the snapshot's boot and is valid.\<close>

definition surface_inv :: "Session \<Rightarrow> bool" where
  "surface_inv s \<longleftrightarrow> (\<forall>f. ses_surface s = Some f \<longrightarrow> valid_surface f \<and>
     (\<exists>sn. ses_snapshot s = Some sn \<and> psf_boot_id f = snap_boot_id sn))"

text \<open>
  How the state bounds what was delivered: a delivered surface is older than the retained one, or is the
  retained one and its projection is not ahead of the snapshot; delivered snapshots are not ahead of the
  current one, which was delivered last; the image set last delivered is the store's.
\<close>

definition delivered_inv :: "Session \<Rightarrow> ClientEvent list \<Rightarrow> bool" where
  "delivered_inv s evs \<longleftrightarrow>
     (\<forall>f \<in> set (surfaces_of evs). \<exists>cur sn. ses_surface s = Some cur \<and> ses_snapshot s = Some sn \<and>
        psf_boot_id f = snap_boot_id sn \<and>
        (psf_surface_revision f < psf_surface_revision cur \<or>
         psf_surface_revision f = psf_surface_revision cur \<and> psf_projection_revision cur \<le> snap_revision sn)) \<and>
     (\<forall>t \<in> set (snapshots_of evs). \<exists>sn. ses_snapshot s = Some sn \<and>
        snap_boot_id t = snap_boot_id sn \<and> snap_revision t \<le> snap_revision sn) \<and>
     last_images evs = is_images (ses_images s) \<and> last_snapshot evs = ses_snapshot s"

definition response_inv :: "Session \<Rightarrow> bool" where
  "response_inv s \<longleftrightarrow> response_total s \<le> MAX_RESPONSE_BYTES \<and>
     (\<forall>b. ses_barrier s = Some b \<longrightarrow> bar_held b \<noteq> None \<longrightarrow> ses_pending s \<noteq> None)"

definition conn_inv :: "Session \<Rightarrow> ClientEvent list \<Rightarrow> bool" where
  "conn_inv s evs \<longleftrightarrow> store_inv (ses_images s) \<and> surface_inv s \<and> events_inv evs \<and>
     delivered_inv s evs \<and> response_inv s"

abbreviation session_inv :: "World \<Rightarrow> bool" where
  "session_inv w \<equiv> conn_inv (w_session w) (w_events w)"

text \<open>The outcome of an action: on success the whole invariant, on failure that of the events.\<close>

definition keeps :: "('a, ClientError) result \<Rightarrow> World \<Rightarrow> bool" where
  "keeps r w = (case r of Inl _ \<Rightarrow> events_inv (w_events w) | Inr _ \<Rightarrow> session_inv w)"

lemma keeps_simps [simp]:
  "keeps (Inl e) w = events_inv (w_events w)" "keeps (Inr x) w = session_inv w"
  by (simp_all add: keeps_def)

lemma conn_invD:
  assumes "conn_inv s evs"
  shows "store_inv (ses_images s)" "surface_inv s" "events_inv evs" "delivered_inv s evs" "response_inv s"
  using assms by (simp_all add: conn_inv_def)

lemma events_inv_append [simp]:
  "events_inv (evs @ [EV_Connected x]) = events_inv evs"
  "events_inv (evs @ [EV_SurfaceImages m]) = events_inv evs"
  "events_inv (evs @ [EV_Response i v]) = events_inv evs"
  "events_inv (evs @ [EV_Message msg]) = events_inv evs"
  "events_inv (evs @ [EV_CommandRejected j e]) = events_inv evs"
  by (simp_all add: events_inv_def)

lemma response_inv_update [simp]:
  "response_inv (s\<lparr>ses_surface := a\<rparr>) = response_inv s" "response_inv (s\<lparr>ses_images := b\<rparr>) = response_inv s"
  "response_inv (s\<lparr>ses_snapshot := c\<rparr>) = response_inv s" "response_inv (s\<lparr>ses_health := d\<rparr>) = response_inv s"
  "response_inv (s\<lparr>ses_welcome := e\<rparr>) = response_inv s" "response_inv (s\<lparr>ses_encodings := f\<rparr>) = response_inv s"
  "response_inv (s\<lparr>ses_pipeline_barriers := g\<rparr>) = response_inv s"
  by (simp_all add: response_inv_def response_total_def)

lemma surface_inv_update [simp]:
  "surface_inv (s\<lparr>ses_images := b\<rparr>) = surface_inv s" "surface_inv (s\<lparr>ses_health := d\<rparr>) = surface_inv s"
  "surface_inv (s\<lparr>ses_welcome := e\<rparr>) = surface_inv s" "surface_inv (s\<lparr>ses_encodings := f\<rparr>) = surface_inv s"
  "surface_inv (s\<lparr>ses_pipeline_barriers := g\<rparr>) = surface_inv s" "surface_inv (s\<lparr>ses_pending := h\<rparr>) = surface_inv s"
  "surface_inv (s\<lparr>ses_barrier := i\<rparr>) = surface_inv s"
  by (simp_all add: surface_inv_def)

lemma delivered_inv_update [simp]:
  "delivered_inv (s\<lparr>ses_health := d\<rparr>) evs = delivered_inv s evs"
  "delivered_inv (s\<lparr>ses_welcome := e\<rparr>) evs = delivered_inv s evs"
  "delivered_inv (s\<lparr>ses_encodings := f\<rparr>) evs = delivered_inv s evs"
  "delivered_inv (s\<lparr>ses_pipeline_barriers := g\<rparr>) evs = delivered_inv s evs"
  "delivered_inv (s\<lparr>ses_pending := h\<rparr>) evs = delivered_inv s evs"
  "delivered_inv (s\<lparr>ses_barrier := i\<rparr>) evs = delivered_inv s evs"
  "delivered_inv s (evs @ [EV_Connected x]) = delivered_inv s evs"
  "delivered_inv s (evs @ [EV_Response j v]) = delivered_inv s evs"
  "delivered_inv s (evs @ [EV_Message msg]) = delivered_inv s evs"
  "delivered_inv s (evs @ [EV_CommandRejected k r]) = delivered_inv s evs"
  by (simp_all add: delivered_inv_def)

text \<open>Delivering the pruned image set restores its part of the invariant.\<close>

lemma delivered_images:
  assumes "delivered_inv s evs"
  shows "is_images images = is_images (ses_images s) \<Longrightarrow> delivered_inv (s\<lparr>ses_images := images\<rparr>) evs"
    and "delivered_inv (s\<lparr>ses_images := images\<rparr>) (evs @ [EV_SurfaceImages (is_images images)])"
  using assms by (simp_all add: delivered_inv_def)

section \<open>Emitting a surface\<close>

text \<open>Showing the images and then emitting the retained surface, as three handlers do.\<close>

definition surface_fresh :: "Session \<Rightarrow> ClientEvent list \<Rightarrow> PaneSurfaceFrame \<Rightarrow> bool" where
  "surface_fresh s evs f \<longleftrightarrow> ses_surface s = Some f \<and>
     (\<exists>sn. ses_snapshot s = Some sn \<and> snap_revision sn = psf_projection_revision f) \<and>
     (\<forall>g \<in> set (surfaces_of evs). psf_surface_revision g < psf_surface_revision f)"

lemma conn_inv_emit_surface:
  assumes "conn_inv s evs" and "surface_fresh s evs f"
  shows "conn_inv s (evs @ [EV_Surface f])"
proof -
  note i = conn_invD [OF assms(1)]
  from assms(2) obtain sn where f: "ses_surface s = Some f" "ses_snapshot s = Some sn"
    "snap_revision sn = psf_projection_revision f"
    "\<forall>g \<in> set (surfaces_of evs). psf_surface_revision g < psf_surface_revision f"
    by (auto simp: surface_fresh_def)
  with i(2) have v: "valid_surface f" "psf_boot_id f = snap_boot_id sn" by (auto simp: surface_inv_def)
  have "events_inv (evs @ [EV_Surface f])"
    using i(3,4) f v
    by (auto simp: events_inv_def sorted_wrt_append delivered_inv_def surface_current_def)
  moreover have "delivered_inv s (evs @ [EV_Surface f])"
    using i(4) f v(2) by (auto simp: delivered_inv_def)
  ultimately show ?thesis using i by (simp add: conn_inv_def)
qed

lemma conn_inv_images:
  assumes "conn_inv s evs" and "store_inv images"
  shows "is_images images = is_images (ses_images s) \<Longrightarrow> conn_inv (s\<lparr>ses_images := images\<rparr>) evs"
    and "conn_inv (s\<lparr>ses_images := images\<rparr>) (evs @ [EV_SurfaceImages (is_images images)])"
  using conn_invD [OF assms(1)] assms(2) delivered_images [of s evs images]
  by (simp_all add: conn_inv_def)

lemma wp_show_surface:
  assumes inv: "session_inv w" and fresh: "surface_fresh (w_session w) (w_events w) f"
  shows "wp (andthen images_show (\<lambda>changed. andthen (when_act changed (emit_images emit))
    (\<lambda>_. emit_event emit (EV_Surface f)))) keeps w"
proof (subst wp_andthen, rule wp_images_show [OF conn_invD(1) [OF inv]], unfold sum.case)
  fix images c
  assume im: "store_inv images" and c: "c \<longleftrightarrow> is_images images \<noteq> is_images (ses_images (w_session w))"
  let ?w = "w\<lparr>w_session := (w_session w)\<lparr>ses_images := images\<rparr>\<rparr>"
  have fr: "surface_fresh (w_session ?w) (w_events w @ evs) f" if "surfaces_of evs = []" for evs
    using fresh that by (simp add: surface_fresh_def)
  note e = conn_invD(3) [OF inv]
  show "wp (andthen (when_act c (emit_images emit)) (\<lambda>_. emit_event emit (EV_Surface f))) keeps ?w"
  proof (cases c)
    case True
    from conn_inv_emit_surface [OF conn_inv_images(2) [OF inv im], of f] fr e True show ?thesis
      by (auto simp: wp_simps split: option.split)
  next
    case False
    with c have "conn_inv (w_session ?w) (w_events w)" using conn_inv_images(1) [OF inv im] by simp
    from conn_inv_emit_surface [OF this, of f] fr [of "[]"] e False show ?thesis
      by (auto simp: wp_simps split: option.split)
  qed
qed

section \<open>Every handler keeps the invariant\<close>

lemma conn_inv_surface:
  assumes inv: "conn_inv s evs" and snap: "ses_snapshot s = Some sn"
    and v: "valid_surface g" and boot: "psf_boot_id g = snap_boot_id sn"
    and newer: "\<And>old. ses_surface s = Some old \<Longrightarrow> psf_surface_revision old < psf_surface_revision g"
  shows "conn_inv (s\<lparr>ses_surface := Some g\<rparr>) evs"
    and "\<forall>f \<in> set (surfaces_of evs). psf_surface_revision f < psf_surface_revision g"
proof -
  note i = conn_invD [OF inv]
  show less: "\<forall>f \<in> set (surfaces_of evs). psf_surface_revision f < psf_surface_revision g"
    using i(4) newer unfolding delivered_inv_def by (metis order_less_trans)
  have "surface_inv (s\<lparr>ses_surface := Some g\<rparr>)"
    using v boot snap by (simp add: surface_inv_def)
  moreover have "delivered_inv (s\<lparr>ses_surface := Some g\<rparr>) evs"
    using i(4) less by (auto simp: delivered_inv_def)
  ultimately show "conn_inv (s\<lparr>ses_surface := Some g\<rparr>) evs"
    using i by (simp add: conn_inv_def)
qed

lemma wp_emit_patched:
  assumes inv: "session_inv w" and sf: "ses_surface (w_session w) = Some g"
    and newer: "\<forall>f \<in> set (surfaces_of (w_events w)). psf_surface_revision f < psf_surface_revision g"
  shows "wp (emit_patched emit g) keeps w"
proof (cases "\<exists>sn. ses_snapshot (w_session w) = Some sn \<and> snap_revision sn = psf_projection_revision g")
  case True
  with sf newer have "surface_fresh (w_session w) (w_events w) g" by (simp add: surface_fresh_def)
  from wp_show_surface [OF inv this] True show ?thesis
    by (auto simp: emit_patched_def wp_with_session)
next
  case False
  with inv show ?thesis
    by (auto simp: emit_patched_def wp_with_session wp_ret split: option.splits)
qed

text \<open>An update in place that meets the contract of a surface update.\<close>

lemma wp_handle_patched:
  assumes inv: "session_inv w"
    and total: "\<And>f. (\<exists>g. upd f = Some (g, Inr ())) \<or> (\<exists>e. upd f = Some (f, Inl e))"
    and ok: "\<And>f g. upd f = Some (g, Inr ()) \<Longrightarrow> valid_frame g \<and> psf_popup g = None \<and>
      psf_boot_id g = psf_boot_id f \<and> psf_surface_revision f < psf_surface_revision g"
  shows "wp (handle_patched emit upd) keeps w"
proof (cases "ses_surface (w_session w)")
  case None
  with conn_invD(3) [OF inv] show ?thesis by (simp add: handle_patched_def wp_simps)
next
  case (Some f)
  note i = conn_invD [OF inv]
  from total [of f] show ?thesis
  proof (elim disjE exE)
    fix e assume "upd f = Some (f, Inl e)"
    with Some i(3) show ?thesis
      by (simp add: handle_patched_def wp_simps update_surface_def wp_def [of "update_surface _ _"])
  next
    fix g assume g: "upd f = Some (g, Inr ())"
    from i(2) Some obtain sn where sn: "ses_snapshot (w_session w) = Some sn" "psf_boot_id f = snap_boot_id sn"
      by (auto simp: surface_inv_def)
    have v: "valid_surface g" using ok [OF g] by (simp add: valid_surface_def)
    have "conn_inv ((w_session w)\<lparr>ses_surface := Some g\<rparr>) (w_events w)"
      "\<forall>f \<in> set (surfaces_of (w_events w)). psf_surface_revision f < psf_surface_revision g"
      using conn_inv_surface [OF inv sn(1) v] ok [OF g] sn(2) Some by auto
    from wp_emit_patched [of "w\<lparr>w_session := (w_session w)\<lparr>ses_surface := Some g\<rparr>\<rparr>" g] this Some g show ?thesis
      by (simp add: handle_patched_def wp_simps update_surface_def wp_def [of "update_surface _ _"])
  qed
qed

lemma patched_ok:
  assumes "apply_patch f p = Some (g, Inr ())"
  shows "valid_frame g \<and> psf_popup g = None \<and> psf_boot_id g = psf_boot_id f \<and>
    psf_surface_revision f < psf_surface_revision g"
proof -
  from assms have v: "validate_patch f p = Inr ()" and c: "commit_patch f p = Some g"
    by (auto simp: apply_patch_def split: sum.splits)
  from v have "psf_popup f = None" by (simp add: validate_patch_iff)
  with commit_patch_total [OF v] c show ?thesis by (auto simp: word_less_nat_alt)
qed

lemma scrolled_ok:
  assumes "apply_scroll_patch f s = Some (g, Inr ())"
  shows "valid_frame g \<and> psf_popup g = None \<and> psf_boot_id g = psf_boot_id f \<and>
    psf_surface_revision f < psf_surface_revision g"
proof -
  note ok = apply_scroll_patch_ok [OF assms]
  have "psf_popup g = None"
    using assms ok(1) by (auto simp: apply_scroll_patch_def Let_def commit_patch_def validate_patch_iff
        split: sum.splits if_splits option.splits bind_splits)
  with scroll_patch_total [OF ok] assms show ?thesis by (auto simp: word_less_nat_alt)
qed

lemma accept_commit:
  assumes inv: "conn_inv s evs" and snap: "ses_snapshot s = Some sn"
    and v: "valid_surface g" and boot: "psf_boot_id g = snap_boot_id sn"
    and newer: "\<And>old. ses_surface s = Some old \<Longrightarrow> psf_surface_revision old < psf_surface_revision g"
    and im: "store_inv images" and c: "\<not> c \<Longrightarrow> is_images images = is_images (ses_images s)"
  defines "evs' \<equiv> evs @ (if c then [EV_SurfaceImages (is_images images)] else [])"
  defines "s' \<equiv> s\<lparr>ses_images := images, ses_surface := Some g\<rparr>"
  shows "conn_inv s' evs'"
    and "psf_projection_revision g = snap_revision sn \<Longrightarrow> conn_inv s' (evs' @ [EV_Surface g])"
proof -
  let ?u = "s\<lparr>ses_images := images\<rparr>"
  have u: "conn_inv ?u evs'"
    using conn_inv_images [OF inv im] c by (cases c) (simp_all add: evs'_def)
  have newer': "psf_surface_revision old < psf_surface_revision g" if "ses_surface ?u = Some old" for old
    using newer that by simp
  have snap': "ses_snapshot ?u = Some sn" using snap by simp
  note c = conn_inv_surface [OF u snap' v boot newer']
  show s': "conn_inv s' evs'" using c(1) by (simp add: s'_def)
  assume "psf_projection_revision g = snap_revision sn"
  with c(2) snap have "surface_fresh s' evs' g" by (simp add: surface_fresh_def s'_def)
  from conn_inv_emit_surface [OF s' this] show "conn_inv s' (evs' @ [EV_Surface g])" .
qed

lemma wp_publish_surface:
  assumes inv: "session_inv w" and snap: "ses_snapshot (w_session w) = Some sn"
    and v: "valid_surface g" and boot: "psf_boot_id g = snap_boot_id sn"
    and newer: "\<And>old. ses_surface (w_session w) = Some old \<Longrightarrow> psf_surface_revision old < psf_surface_revision g"
    and im: "store_inv images" and c: "\<not> c \<longrightarrow> is_images images = is_images (ses_images (w_session w))"
  shows "wp (publish_surface emit sn g c) keeps (w\<lparr>w_session := (w_session w)\<lparr>ses_images := images\<rparr>\<rparr>)"
proof -
  let ?w = "\<lambda>im. w\<lparr>w_session := (w_session w)\<lparr>ses_images := im\<rparr>\<rparr>"
  define tail where "tail c' shown = andthen (when_act c' (emit_images emit)) (\<lambda>_.
       andthen (when_act shown (emit_event emit (EV_Surface g))) (\<lambda>_.
         update_session (\<lambda>self. self\<lparr>ses_surface := Some g\<rparr>)))" for c' shown
  have tail: "wp (tail c' shown) keeps (?w im2)"
    if "store_inv im2" "\<not> c' \<Longrightarrow> is_images im2 = is_images (ses_images (w_session w))"
      "shown \<Longrightarrow> psf_projection_revision g = snap_revision sn" for c' shown im2
    using accept_commit [OF inv snap v boot newer that(1), of c'] that(2,3) conn_invD(3) [OF inv]
    unfolding tail_def by (cases c'; cases shown) (auto simp: wp_simps split: option.split)
  show ?thesis
  proof (cases "psf_projection_revision g = snap_revision sn")
    case True
    have "wp images_show (\<lambda>r w'. case r of Inl e \<Rightarrow> keeps (Inl e) w' | Inr c2 \<Rightarrow> wp (tail (c \<or> c2) True) keeps w') (?w images)"
      by (rule wp_images_show) (use im c True in \<open>auto intro!: tail simp del: keeps_simps\<close>)
    with True show ?thesis
      by (simp add: publish_surface_def Let_def wp_andthen [of images_show] tail_def [symmetric] del: keeps_simps)
  next
    case False
    with tail [OF im, of c False] c show ?thesis
      by (simp add: publish_surface_def Let_def wp_andthen [of "ret False"] wp_ret tail_def)
  qed
qed

lemma wp_accept_surface:
  assumes inv: "session_inv w"
  shows "wp (accept_surface emit nxt) keeps w"
proof (cases "ses_snapshot (w_session w)")
  case None
  with conn_invD(3) [OF inv] show ?thesis by (simp add: accept_surface_def wp_simps)
next
  case (Some sn)
  show ?thesis
  proof (cases "psf_boot_id nxt = snap_boot_id sn \<and> valid_surface nxt \<and>
      (\<forall>old. ses_surface (w_session w) = Some old \<longrightarrow> psf_surface_revision old < psf_surface_revision nxt)")
    case False
    with Some conn_invD(3) [OF inv] show ?thesis
      by (auto simp: accept_surface_def wp_simps valid_surface_def valid_frame_def not_le
          split: option.splits sum.splits)
  next
    case True
    have "wp (images_receive nxt) (\<lambda>r w'. case r of Inl e \<Rightarrow> keeps (Inl e) w'
        | Inr x \<Rightarrow> wp (case x of (nxt, changed) \<Rightarrow> publish_surface emit sn nxt changed) keeps w') w"
    proof (rule wp_images_receive [OF conn_invD(1) [OF inv]], unfold sum.case prod.case)
      fix serial images g c
      assume "store_inv images" "\<not> c \<longrightarrow> is_images images = is_images (ses_images (w_session w))"
      with wp_publish_surface [of "w\<lparr>w_serial := serial\<rparr>" sn "nxt\<lparr>psf_graphics := g\<rparr>" images c emit] inv Some True
      show "wp (publish_surface emit sn (nxt\<lparr>psf_graphics := g\<rparr>) c) keeps
         (w\<lparr>w_serial := serial, w_session := (w_session w)\<lparr>ses_images := images\<rparr>\<rparr>)"
        by (simp add: valid_surface_def valid_frame_def)
    qed
    with True Some show ?thesis
      by (auto simp: accept_surface_def wp_simps valid_surface_def valid_frame_def not_le
          simp del: keeps_simps split: option.splits)
  qed
qed

lemma wp_handle_scroll: "session_inv w \<Longrightarrow> wp (handle_scroll ext emit data) keeps w"
  using conn_invD(3) [of "w_session w" "w_events w"]
  by (auto simp: handle_scroll_def wp_simps split: sum.split
      intro!: wp_handle_patched apply_scroll_patch_cases dest: scrolled_ok)

lemma wp_handle_patch: "session_inv w \<Longrightarrow> wp (handle_patched emit (\<lambda>f. apply_patch f p)) keeps w"
  using apply_patch_cases patched_ok by (intro wp_handle_patched) blast+

lemma wp_handle_delta:
  assumes "session_inv w"
  shows "wp (handle_delta ext emit data) keeps w"
proof (cases "delta_decode (base64_decode ext) (bincode_delta ext) data")
  case (Inr d)
  have total: "\<exists>r. delta_reconstruct d base = Some r" for base
    using Inr by (intro checked_delta_total) (simp add: delta_decode_iff)
  show ?thesis
  proof (cases "ses_surface (w_session w)")
    case (Some base)
    with total [of base] Inr wp_accept_surface [OF assms] conn_invD(3) [OF assms] show ?thesis
      by (auto simp: handle_delta_def wp_simps split: sum.split)
  qed (use Inr conn_invD(3) [OF assms] in \<open>simp add: handle_delta_def wp_simps\<close>)
qed (use conn_invD(3) [OF assms] in \<open>simp add: handle_delta_def wp_simps\<close>)

lemma wp_handle_reuse:
  assumes "session_inv w"
  shows "wp (handle_reuse ext emit data) keeps w"
  using wp_accept_surface [OF assms] conn_invD(3) [OF assms]
  by (auto simp: handle_reuse_def wp_simps split: option.split sum.split)

lemma wp_handle_welcome:
  assumes "session_inv w"
  shows "wp (handle_welcome ext emit now m) keeps w"
  using assms conn_invD [OF assms]
  by (cases m) (auto simp: handle_welcome_def wp_simps conn_inv_def split: option.split sum.split)

lemma conn_inv_snapshot:
  assumes "conn_inv s evs"
    and "\<And>t. ses_snapshot s = Some t \<Longrightarrow> snap_boot_id t = snap_boot_id sn \<and> snap_revision t \<le> snap_revision sn"
  shows "conn_inv (s\<lparr>ses_snapshot := Some sn\<rparr>) (evs @ [EV_Snapshot sn])"
proof -
  note i = conn_invD [OF assms(1)]
  have "surface_inv (s\<lparr>ses_snapshot := Some sn\<rparr>)"
    using i(2) assms(2) by (fastforce simp: surface_inv_def)
  moreover have "\<forall>t \<in> set (snapshots_of evs). snap_boot_id t = snap_boot_id sn \<and> snap_revision t \<le> snap_revision sn"
    using i(4) assms(2) unfolding delivered_inv_def by (metis order_trans)
  moreover from this have "events_inv (evs @ [EV_Snapshot sn])"
    using i(3) by (auto simp: events_inv_def sorted_wrt_append)
  moreover have "delivered_inv (s\<lparr>ses_snapshot := Some sn\<rparr>) (evs @ [EV_Snapshot sn])"
    using i(4) assms(2) calculation(2) unfolding delivered_inv_def by (auto 0 4 intro: order_trans)
  ultimately show ?thesis using i by (simp add: conn_inv_def)
qed

text \<open>A surface already delivered is not delivered again when the snapshot moves on.\<close>

lemma snapshot_surface_fresh:
  assumes "conn_inv s evs" and "ses_surface s = Some f"
    and "\<And>t. ses_snapshot s = Some t \<Longrightarrow> snap_revision t < snap_revision sn"
    and "psf_projection_revision f = snap_revision sn"
  shows "surface_fresh (s\<lparr>ses_snapshot := Some sn\<rparr>) (evs @ [EV_Snapshot sn]) f"
proof -
  from conn_invD(2) [OF assms(1)] assms(2) obtain t where t: "ses_snapshot s = Some t"
    by (auto simp: surface_inv_def)
  have "psf_surface_revision g < psf_surface_revision f" if "g \<in> set (surfaces_of evs)" for g
    using conn_invD(4) [OF assms(1)] that assms(2,4) t assms(3) [OF t]
    unfolding delivered_inv_def by (metis option.inject leD)
  with assms show ?thesis by (simp add: surface_fresh_def)
qed

lemma wp_handle_snapshot:
  assumes inv: "session_inv w"
  shows "wp (handle_snapshot ext emit data) keeps w"
proof (cases "json_snapshot ext data")
  case (Inr sn)
  show ?thesis
  proof (cases "snap_boot_id sn = [] \<or> (\<exists>t. ses_snapshot (w_session w) = Some t \<and>
      (snap_boot_id t \<noteq> snap_boot_id sn \<or> snap_revision sn < snap_revision t))")
    case True
    with Inr conn_invD(3) [OF inv] show ?thesis
      by (auto simp: handle_snapshot_def wp_simps split: option.split)
  next
    case False
    let ?v = "w\<lparr>w_session := (w_session w)\<lparr>ses_snapshot := Some sn\<rparr>, w_events := w_events w @ [EV_Snapshot sn]\<rparr>"
    have v: "session_inv ?v"
      using False by (simp, intro conn_inv_snapshot inv) (auto simp: not_less)
    define again where "again f \<longleftrightarrow> ses_surface (w_session w) = Some f \<and> psf_projection_revision f = snap_revision sn \<and>
      (case ses_snapshot (w_session w) of None \<Rightarrow> True | Some t \<Rightarrow> snap_revision t \<noteq> snap_revision sn)" for f
    have show_f: "wp (andthen images_show (\<lambda>changed. andthen (when_act changed (emit_images emit))
        (\<lambda>_. emit_event emit (EV_Surface f)))) keeps ?v" if "again f" for f
    proof (rule wp_show_surface [OF v])
      have "snap_revision t < snap_revision sn" if "ses_snapshot (w_session w) = Some t" for t
        using False that \<open>again f\<close> by (auto simp: again_def not_less)
      then show "surface_fresh (w_session ?v) (w_events ?v) f"
        using snapshot_surface_fresh [OF inv, of f sn] that by (simp add: again_def)
    qed
    have guard: "\<not> (snap_boot_id sn = [] \<or> (case ses_snapshot (w_session w) of None \<Rightarrow> False
        | Some t \<Rightarrow> snap_boot_id t \<noteq> snap_boot_id sn \<or> snap_revision sn < snap_revision t))"
    proof (cases "ses_snapshot (w_session w)")
      case (Some t)
      with False show ?thesis by (simp only: option.case) blast
    qed (use False in simp)
    show ?thesis
    proof (cases "emit (w_events w) (EV_Snapshot sn)")
      case (Some e)
      with Inr guard conn_invD(3) [OF inv] show ?thesis
        by (simp add: handle_snapshot_def wp_simps)
    next
      case None
      have "wp (case ses_surface (w_session w) of
             Some current \<Rightarrow>
               if (case ses_snapshot (w_session w) of None \<Rightarrow> True | Some t \<Rightarrow> snap_revision t \<noteq> snap_revision sn)
                 \<and> psf_projection_revision current = snap_revision sn then
                 andthen images_show (\<lambda>changed.
                 andthen (when_act changed (emit_images emit)) (\<lambda>_. emit_event emit (EV_Surface current)))
               else ret ()
           | None \<Rightarrow> ret ()) keeps ?v"
        using v show_f unfolding again_def
        by (cases "ses_surface (w_session w)") (simp_all add: wp_ret)
      with Inr guard None show ?thesis
        by (simp add: handle_snapshot_def Let_def wp_with_session wp_try_ok wp_update_session wp_emit_event
            wp_andthen [of "try_ok _"] wp_andthen [of "update_session _"] wp_andthen [of "emit_event _ _"])
    qed
  qed
qed (use conn_invD(3) [OF inv] in \<open>simp add: handle_snapshot_def wp_simps\<close>)

section \<open>Responses\<close>

lemma response_total_eq:
  "response_total s = (case ses_pending s of None \<Rightarrow> 0 | Some p \<Rightarrow> length (pen_bytes p))
     + (case ses_barrier s of None \<Rightarrow> 0 | Some b \<Rightarrow> length (pen_bytes (bar_pending b)))"
  by (simp add: response_total_def option_list_def split: option.split)

text \<open>The invariant but for a response held back while no request is in flight.\<close>

definition held_inv :: "Session \<Rightarrow> ClientEvent list \<Rightarrow> bool" where
  "held_inv s evs \<longleftrightarrow> store_inv (ses_images s) \<and> surface_inv s \<and> events_inv evs \<and>
     delivered_inv s evs \<and> response_total s \<le> MAX_RESPONSE_BYTES"

lemma held_inv_conn: "conn_inv s evs \<Longrightarrow> held_inv s evs"
  by (simp add: conn_inv_def held_inv_def response_inv_def)

lemma conn_inv_held:
  "held_inv s evs \<Longrightarrow> (\<And>b. ses_barrier s = Some b \<Longrightarrow> bar_held b \<noteq> None \<Longrightarrow> ses_pending s \<noteq> None) \<Longrightarrow> conn_inv s evs"
  by (simp add: conn_inv_def held_inv_def response_inv_def)

lemma held_inv_event [simp]: "held_inv s (evs @ [EV_Response i v]) = held_inv s evs"
  by (simp add: held_inv_def)

lemma held_inv_requests:
  assumes "held_inv s evs" and "response_total (s\<lparr>ses_pending := p, ses_barrier := b\<rparr>) \<le> MAX_RESPONSE_BYTES"
  shows "held_inv (s\<lparr>ses_pending := p, ses_barrier := b\<rparr>) evs"
  using assms by (simp add: held_inv_def)

lemma held_inv_update:
  assumes "held_inv s evs"
  shows "response_total (s\<lparr>ses_pending := p\<rparr>) \<le> MAX_RESPONSE_BYTES \<Longrightarrow> held_inv (s\<lparr>ses_pending := p\<rparr>) evs"
    and "response_total (s\<lparr>ses_barrier := b\<rparr>) \<le> MAX_RESPONSE_BYTES \<Longrightarrow> held_inv (s\<lparr>ses_barrier := b\<rparr>) evs"
    and "held_inv (s\<lparr>ses_pipeline_barriers := c\<rparr>) evs"
  using assms by (simp_all add: held_inv_def response_total_def)

lemma wp_deliver_held:
  assumes "held_inv (w_session w) (w_events w)"
  shows "wp (deliver_held emit) keeps w"
proof (cases "ses_pending (w_session w) = None \<and> (\<exists>b h. ses_barrier (w_session w) = Some b \<and> bar_held b = Some h)")
  case True
  then obtain b h where b: "ses_pending (w_session w) = None" "ses_barrier (w_session w) = Some b" "bar_held b = Some h"
    by blast
  have "held_inv ((w_session w)\<lparr>ses_barrier := None\<rparr>) (w_events w @ [EV_Response (pen_id (bar_pending b)) h])"
    using assms b by (simp add: held_inv_update(2) response_total_eq)
  then have "conn_inv ((w_session w)\<lparr>ses_barrier := None\<rparr>) (w_events w @ [EV_Response (pen_id (bar_pending b)) h])"
    by (rule conn_inv_held) simp
  moreover have "events_inv (w_events w)" using assms by (simp add: held_inv_def)
  ultimately show ?thesis using b by (simp add: deliver_held_def wp_simps split: option.split)
next
  case False
  then have "conn_inv (w_session w) (w_events w)"
    using assms by (intro conn_inv_held) auto
  with False show ?thesis
    by (auto simp: deliver_held_def wp_simps split: option.split)
qed

text \<open>A response delivered, and then one held back for it.\<close>

lemma wp_deliver:
  assumes "held_inv (w_session w) (w_events w)"
  shows "wp (andthen (emit_event emit (EV_Response i v)) (\<lambda>_. deliver_held emit)) keeps w"
proof -
  have "events_inv (w_events w)" using assms by (simp add: held_inv_def)
  moreover have "wp (deliver_held emit) keeps (w\<lparr>w_events := w_events w @ [EV_Response i v]\<rparr>)"
    using assms by (intro wp_deliver_held) simp
  ultimately show ?thesis by (simp add: wp_andthen wp_emit_event split: option.split)
qed

lemma wp_final_request:
  assumes "held_inv (w_session w) (w_events w)"
  shows "wp (final_response ext emit False i bytes) keeps w"
proof -
  have "events_inv (w_events w)" using assms by (simp add: held_inv_def)
  with wp_deliver [OF assms] show ?thesis
    by (simp add: final_response_def Let_def wp_try_ok wp_with_session wp_fail wp_andthen [of "try_ok _"] split: sum.split)
qed

lemma wp_final_barrier:
  assumes inv: "held_inv (w_session w) (w_events w)" and b: "ses_barrier (w_session w) = Some b"
    and fresh: "bar_held b = None" and total: "response_total (w_session w) + length bytes \<le> MAX_RESPONSE_BYTES"
    and empty: "pen_bytes (bar_pending b) = []"
  shows "wp (final_response ext emit True i bytes) keeps w"
proof -
  let ?s = "w_session w"
  have e: "events_inv (w_events w)" using inv by (simp add: held_inv_def)
  have refused: "conn_inv (?s\<lparr>ses_pipeline_barriers := False, ses_barrier := Some (b\<lparr>bar_refused := True\<rparr>)\<rparr>) (w_events w)"
    using inv b fresh held_inv_update(3) [OF inv, of False]
    by (intro conn_inv_held held_inv_update(2)) (auto simp: response_total_eq held_inv_def)
  have held: "conn_inv (?s\<lparr>ses_barrier := Some (b\<lparr>bar_pending := (bar_pending b)\<lparr>pen_bytes := bytes\<rparr>, bar_held := Some v\<rparr>)\<rparr>) (w_events w)"
    if "ses_pending ?s \<noteq> None" for v
    using inv b total empty that
    by (intro conn_inv_held held_inv_update(2)) (auto simp: response_total_eq)
  have alone: "wp (andthen (emit_event emit (EV_Response i v)) (\<lambda>_. deliver_held emit)) keeps (w\<lparr>w_session := ?s\<lparr>ses_barrier := None\<rparr>\<rparr>)" for v
    using inv b by (intro wp_deliver) (simp add: held_inv_update(2) response_total_eq held_inv_def)
  show ?thesis
    using b e refused held alone
    by (simp add: final_response_def Let_def wp_try_ok wp_with_session wp_fail wp_update_session
        wp_andthen [of "try_ok _"] wp_andthen [of "update_session _"] split: sum.split)
qed

lemma wp_request_chunk:
  assumes inv: "session_inv w" and "length data \<le> MAX_RESPONSE_BYTES - response_total (w_session w)"
  shows "wp (request_chunk ext emit i final data) keeps w"
proof (cases "ses_pending (w_session w)")
  case (Some p)
  note h = held_inv_conn [OF inv]
  have t: "response_total (w_session w) + length data \<le> MAX_RESPONSE_BYTES"
    using assms(2) conn_invD(5) [OF inv] unfolding response_inv_def by linarith
  have "held_inv ((w_session w)\<lparr>ses_pending := None\<rparr>) (w_events w)"
    using t Some by (intro held_inv_update(1) [OF h]) (simp add: response_total_eq)
  then have fin: "wp (final_response ext emit False i bytes) keeps (w\<lparr>w_session := (w_session w)\<lparr>ses_pending := None\<rparr>\<rparr>)" for bytes
    by (intro wp_final_request) simp
  have "conn_inv ((w_session w)\<lparr>ses_pending := Some (p\<lparr>pen_bytes := pen_bytes p @ data\<rparr>)\<rparr>) (w_events w)"
    using t Some by (intro conn_inv_held held_inv_update(1) [OF h]) (auto simp: response_total_eq)
  with fin Some conn_invD(3) [OF inv] show ?thesis
    by (simp add: request_chunk_def wp_with_session wp_fail Let_def wp_update_session wp_andthen [of "update_session _"])
qed (use conn_invD(3) [OF inv] in \<open>simp add: request_chunk_def wp_simps\<close>)

lemma wp_handle_response:
  assumes inv: "session_inv w"
  shows "wp (handle_response ext emit boot i final data) keeps w"
proof (cases "length data \<le> MAX_RESPONSE_BYTES - response_total (w_session w)")
  case fit: True
  note h = held_inv_conn [OF inv] and e = conn_invD(3) [OF inv] and req = wp_request_chunk [OF inv fit]
  have t: "response_total (w_session w) + length data \<le> MAX_RESPONSE_BYTES"
    using fit conn_invD(5) [OF inv] unfolding response_inv_def by linarith
  show ?thesis
  proof (cases "\<exists>b. ses_barrier (w_session w) = Some b \<and> awaits b i")
    case True
    then obtain b where b: "ses_barrier (w_session w) = Some b" "awaits b i" by blast
    then have f: "bar_held b = None" by (simp add: awaits_def)
    let ?b = "\<lambda>bytes. Some (b\<lparr>bar_pending := (bar_pending b)\<lparr>pen_bytes := bytes\<rparr>\<rparr>)"
    have fin: "wp (final_response ext emit True i (pen_bytes (bar_pending b) @ data)) keeps
        (w\<lparr>w_session := (w_session w)\<lparr>ses_barrier := ?b []\<rparr>\<rparr>)"
      using t b f held_inv_update(2) [OF h, of "?b []"]
      by (intro wp_final_barrier [where b = "the (?b [])"]) (auto simp: response_total_eq split: option.splits)
    have "conn_inv ((w_session w)\<lparr>ses_barrier := ?b (pen_bytes (bar_pending b) @ data)\<rparr>) (w_events w)"
      using t b f by (intro conn_inv_held held_inv_update(2) [OF h]) (auto simp: response_total_eq)
    with fin b e fit show ?thesis
      by (simp add: handle_response_def wp_with_session wp_fail Let_def wp_update_session wp_andthen [of "update_session _"]
          split: option.split)
  next
    case False
    with req e fit show ?thesis
      by (auto simp: handle_response_def wp_with_session wp_fail split: option.split)
  qed
qed (use conn_invD(3) [OF inv] in \<open>auto simp: handle_response_def wp_simps split: option.split\<close>)

section \<open>Messages and runs\<close>

lemma wp_handle_ready:
  assumes "session_inv w"
  shows "wp (handle_ready ext emit m) keeps w"
proof -
  note e = conn_invD(3) [OF assms]
  have msg: "wp (emit_event emit (EV_Message m')) keeps w" for m'
    using assms by (simp add: wp_simps conn_inv_def split: option.split)
  show ?thesis
  proof (cases m)
    case (SM_EndpointControl kind data)
    with assms show ?thesis
      by (simp add: handle_ready_def wp_handle_snapshot wp_handle_scroll wp_handle_delta wp_handle_reuse wp_ret)
  qed (use assms e msg in \<open>simp_all add: handle_ready_def wp_accept_surface wp_handle_patch wp_handle_response wp_fail\<close>)
qed

lemma wp_handle_message:
  assumes "session_inv w"
  shows "wp (handle_message ext emit now m) keeps w"
proof -
  let ?v = "w\<lparr>w_session := (w_session w)\<lparr>ses_health := map_option (\<lambda>h. Health_received h now) (ses_health (w_session w))\<rparr>\<rparr>"
  have "session_inv ?v" using assms by (simp add: conn_inv_def)
  from wp_handle_welcome [OF this] wp_handle_ready [OF this] show ?thesis
    by (simp add: handle_message_def wp_simps split: option.split)
qed

lemma wp_send_command:
  assumes inv: "session_inv w"
  shows "wp (andthen (send_command emit wr now c) (\<lambda>_. ret ())) keeps w"
proof -
  note h = held_inv_conn [OF inv] and e = conn_invD(3) [OF inv] and r = conn_invD(5) [OF inv]
  have rej: "conn_inv (w_session w) (w_events w @ [EV_CommandRejected j x])" for j x
    using inv by (simp add: conn_inv_def)
  have bar: "conn_inv ((w_session w)\<lparr>ses_barrier := Some \<lparr>bar_pending = \<lparr>pen_id = a, pen_method = m, pen_bytes = [], pen_started = now\<rparr>,
      bar_request = q, bar_held = None, bar_refused = False\<rparr>\<rparr>) (w_events w)" for a m q
    using r by (intro conn_inv_held held_inv_update(2) [OF h]) (auto simp: response_inv_def response_total_eq)
  have pen: "conn_inv ((w_session w)\<lparr>ses_pending := Some \<lparr>pen_id = a, pen_method = m, pen_bytes = [], pen_started = now\<rparr>\<rparr>) (w_events w)" for a m
    using r by (intro conn_inv_held held_inv_update(1) [OF h]) (auto simp: response_inv_def response_total_eq)
  show ?thesis
    using inv e rej bar pen
    by (auto simp: send_command_def request_sent_def wp_simps Let_def split: option.split)
qed

lemma wp_resend_barrier:
  assumes inv: "session_inv w"
  shows "wp (resend_barrier wr now) keeps w"
proof (cases "resend_ready (w_session w)")
  case True
  then obtain b where b: "ses_barrier (w_session w) = Some b" "ses_pending (w_session w) = None"
    by (auto simp: resend_ready_def split: option.splits)
  let ?p = "Some ((bar_pending b)\<lparr>pen_started := now\<rparr>)"
  note h = held_inv_conn [OF inv]
  have "held_inv ((w_session w)\<lparr>ses_barrier := None, ses_pending := ?p\<rparr>) (w_events w)"
    using b conn_invD(5) [OF inv]
    by (intro held_inv_update(1) held_inv_update(2) [OF h]) (auto simp: response_inv_def response_total_eq)
  then have "conn_inv ((w_session w)\<lparr>ses_barrier := None, ses_pending := ?p\<rparr>) (w_events w)"
    by (rule conn_inv_held) simp
  with True b conn_invD(3) [OF inv] show ?thesis
    by (simp add: resend_barrier_def take_refused_barrier_def wp_simps split: option.split)
qed (use inv in \<open>simp add: resend_barrier_def take_refused_barrier_def wp_simps\<close>)

lemma wp_conn_step:
  assumes "session_inv w"
  shows "wp (conn_step ext emit wr st) keeps w"
proof (cases st)
  case (Receive now m)
  show ?thesis unfolding Receive conn_step.simps by (rule wp_handle_message [OF assms])
next
  case (Send now c)
  show ?thesis unfolding Send conn_step.simps by (rule wp_send_command [OF assms])
next
  case (Resend now)
  show ?thesis unfolding Resend conn_step.simps by (rule wp_resend_barrier [OF assms])
qed

lemma wp_conn_run:
  assumes "session_inv w"
  shows "wp (conn_run ext emit wr sts) keeps w"
  using assms
proof (induction sts arbitrary: w)
  case (Cons st sts)
  from wp_conn_step [OF Cons.prems] have
    "wp (conn_step ext emit wr st) (\<lambda>r w'. case r of Inl e \<Rightarrow> keeps (Inl e) w' | Inr x \<Rightarrow> wp (conn_run ext emit wr sts) keeps w') w"
    by (rule wp_mono) (use Cons.IH in \<open>auto split: sum.split\<close>)
  then show ?case by (simp add: wp_andthen)
qed (simp add: wp_simps)

lemma connected_world_inv: "session_inv (connected_world now active remote serial)"
  by (simp add: conn_inv_def connected_world_def Session_new_def store_inv_def ImageStore_default_def image_bytes_def
      surface_inv_def events_inv_def surfaces_current_def delivered_inv_def response_inv_def response_total_eq)

lemma conn_run_outcome:
  "\<exists>w' r. conn_run ext emit wr sts (connected_world now active remote serial) = Some (w', r) \<and> keeps r w'"
  using wp_conn_run [OF connected_world_inv, of ext emit wr sts now active remote serial]
  by (auto simp: wp_def split: option.splits)

section \<open>A connection\<close>

definition demo_welcome :: EndpointServerWelcome where
  "demo_welcome = \<lparr>esw_generation = 1, esw_server_version = ''0.9.5'', esw_snapshot_codec = SNAPSHOT_CODEC_V1,
     esw_surface_codec = SURFACE_CODEC_V1, esw_input_codec = INPUT_CODEC_V1, esw_blob_codec = BLOB_CODEC_V1,
     esw_methods = [''pane.focus''], esw_capabilities = [], esw_error = None\<rparr>"

definition demo_ext :: Externals where
  "demo_ext = \<lparr>json_welcome = (\<lambda>_. Inr demo_welcome), json_snapshot = (\<lambda>_. Inr demo_snapshot),
     json_reuse = (\<lambda>_. Inl ''reuse''), json_value = (\<lambda>_. Inr (JObject [(''id'', JString ''r1'')])),
     base64_decode = (\<lambda>_. Inl ''base64''), base64_encoded_len = (\<lambda>n _. Some (n + n)),
     bincode_message = (\<lambda>_. Inl ''bincode''), bincode_delta = (\<lambda>_. Inl ''bincode'')\<rparr>"

definition demo_session :: Session where
  "demo_session = (Session_new 0 True False)\<lparr>ses_welcome := Some demo_welcome, ses_pipeline_barriers := True,
     ses_snapshot := Some demo_snapshot, ses_surface := Some demo_patched\<rparr>"

definition demo_steps :: "Step list" where
  "demo_steps = [Receive 1 (SM_EndpointControl ENDPOINT_WELCOME_KIND ''w''),
     Receive 2 (SM_EndpointControl ENDPOINT_SNAPSHOT_KIND ''s''),
     Receive 3 (SM_PaneSurface demo_frame), Receive 4 (SM_PaneSurfacePatch demo_patch)]"

definition demo_world :: World where
  "demo_world = \<lparr>w_session = demo_session, w_serial = 1,
     w_events = [EV_Connected demo_welcome, EV_Snapshot demo_snapshot, EV_Surface demo_frame, EV_Surface demo_patched],
     w_written = []\<rparr>"

lemma demo_images:
  "receive 1 ImageStore_default demo_frame = Some (1, ImageStore_default, demo_frame, False)"
  "show_images ImageStore_default = Some (ImageStore_default, False)"
  by (simp_all add: receive_def show_images_def prune_def Let_def ImageStore_default_def demo_frame_def image_bytes_def
      referenced_def MAX_PLACEMENTS_def)

lemma demo_run:
  "conn_run demo_ext (\<lambda>_ _. None) (\<lambda>_ _. None) demo_steps (connected_world 0 True False 1) = Some (demo_world, Inr ())"
proof -
  have k: "ENDPOINT_SNAPSHOT_KIND = ''shell.snapshot.v1''" "ENDPOINT_WELCOME_KIND = ''endpoint.welcome.v1''"
    by (simp_all add: ENDPOINT_SNAPSHOT_KIND_def SNAPSHOT_CODEC_V1_def ENDPOINT_WELCOME_KIND_def)
  have b: "snap_boot_id demo_snapshot = ''boot''" "snap_revision demo_snapshot = 1" "psf_boot_id demo_frame = ''boot''"
    "psf_projection_revision demo_frame = 1" "psf_popup demo_frame = None" "psf_projection_revision demo_patched = 1"
    by (simp_all add: demo_snapshot_def demo_frame_def demo_patched_def)
  have w: "esw_generation demo_welcome = ENDPOINT_PROTOCOL_GENERATION" "esw_error demo_welcome = None"
    "esw_snapshot_codec demo_welcome = SNAPSHOT_CODEC_V1" "esw_surface_codec demo_welcome = SURFACE_CODEC_V1"
    "esw_input_codec demo_welcome = INPUT_CODEC_V1" "esw_blob_codec demo_welcome = BLOB_CODEC_V1"
    "verified_ordering (esw_server_version demo_welcome)"
    "SurfaceEncodings_from demo_welcome = \<lparr>enc_reuse = False, enc_delta = False, enc_scroll = False\<rparr>"
    by (simp_all add: demo_welcome_def ENDPOINT_PROTOCOL_GENERATION_def verified_ordering_def SurfaceEncodings_from_def)
  have v: "FrameData_validate (psf_frame demo_frame) = Inr ()"
    using demo_frame_valid by (simp add: valid_frame_def)
  show ?thesis
    by (simp add: demo_steps_def connected_world_def Session_new_def andthen_def handle_message_def update_session_def
        with_session_def handle_welcome_def try_ok_def demo_ext_def ret_def fail_def emit_event_def when_act_def
        handle_ready_def handle_snapshot_def accept_surface_def publish_surface_def images_receive_def images_show_def
        handle_patched_def update_surface_def emit_patched_def k Let_def demo_images b v w demo_patch_applies
        demo_world_def demo_session_def)
qed

definition demo_request_world :: World where
  "demo_request_world = demo_world\<lparr>w_session := demo_session\<lparr>ses_pending :=
     Some \<lparr>pen_id = ''r1'', pen_method = PaneFocus, pen_bytes = [], pen_started = 5\<rparr>\<rparr>\<rparr>"

definition demo_command :: Command where
  "demo_command = \<lparr>cmd_boot_id = ''boot'', cmd_bytes = [1, 2], cmd_input_pane = None,
     cmd_request = Some \<lparr>req_id = ''r1'', req_method = PaneFocus\<rparr>\<rparr>"

section \<open>Properties\<close>

text \<open>
  C1. A connection never panics and never shows a bad or stale surface: whatever the daemon sends, the
  libraries decode and the owner's queue refuses, and whichever commands are written in between, every
  run ends in a result, and the events delivered until then hold only valid surfaces, each of them of
  the boot and revision of the snapshot delivered last before it, their surface revisions strictly
  increasing (no surface is shown twice or out of order), and snapshots of one boot whose revisions never
  regress.
\<close>

theorem connection_safe:
  "\<exists>w r. conn_run ext emit wr steps (connected_world now active remote serial) = Some (w, r) \<and>
     list_all valid_surface (surfaces_of (w_events w)) \<and>
     surfaces_current (w_events w) \<and>
     sorted_wrt (<) (map psf_surface_revision (surfaces_of (w_events w))) \<and>
     sorted_wrt (\<lambda>s t. snap_boot_id s = snap_boot_id t \<and> snap_revision s \<le> snap_revision t) (snapshots_of (w_events w))"
proof -
  from conn_run_outcome [of ext emit wr steps now active remote serial] obtain w r where
    w: "conn_run ext emit wr steps (connected_world now active remote serial) = Some (w, r)" "keeps r w" by blast
  from w(2) have "events_inv (w_events w)"
    by (cases r) (simp_all add: conn_inv_def)
  with w(1) show ?thesis by (auto simp: events_inv_def list_all_iff)
qed

text \<open>
  The state of a connection that has not failed: the retained surface is valid and of the snapshot's
  boot; the owner holds exactly the images the store holds, each as its key describes and within the
  budgets; the responses being assembled are together within 8 MiB; and a response held back for order
  always has the request it waits for in flight.
\<close>

theorem connection_state:
  assumes "conn_run ext emit wr steps (connected_world now active remote serial) = Some (w, Inr ())"
  shows "surface_inv (w_session w) \<and> store_inv (ses_images (w_session w)) \<and>
    last_images (w_events w) = published (ses_images (w_session w)) \<and>
    response_total (w_session w) \<le> MAX_RESPONSE_BYTES \<and>
    (\<forall>b. ses_barrier (w_session w) = Some b \<longrightarrow> bar_held b \<noteq> None \<longrightarrow> ses_pending (w_session w) \<noteq> None)"
proof -
  from conn_run_outcome [of ext emit wr steps now active remote serial] assms have
    "conn_inv (w_session w) (w_events w)" by auto
  then show ?thesis
    by (simp add: conn_inv_def response_inv_def delivered_inv_def published_def)
qed

theorem connection_state_witness:
  "surface_inv demo_session \<and> last_images (w_events demo_world) = published (ses_images demo_session)"
  using connection_state [OF demo_run] by (simp add: demo_world_def)

end
