(* ===== verification/Client_Requests.thy ===== *)
theory Client_Requests
  imports Client_Invariant
begin

text \<open>
  The requests of a connection: what was written, what is in flight, and what was answered. An action is quiet when it
  leaves the requests alone; of the handlers only \<open>handle_response\<close>, and of the worker's steps only the sends, are not.
\<close>

section \<open>Requests of a connection\<close>

definition responses_of :: "ClientEvent list \<Rightarrow> string list" where
  "responses_of evs = List.map_filter (\<lambda>ev. case ev of EV_Response i _ \<Rightarrow> Some i | _ \<Rightarrow> None) evs"

text \<open>The focus request, or whichever was written first, and the activation behind it.\<close>

definition in_flight :: "Session \<Rightarrow> string list" where
  "in_flight s = map pen_id (option_list (ses_pending s) @ map bar_pending (option_list (ses_barrier s)))"

text \<open>The request that a step wrote, by its id.\<close>

fun written_by :: "Step \<Rightarrow> World \<Rightarrow> World \<Rightarrow> string list" where
  "written_by (Send now c) w w' = (if w_written w' = w_written w then [] else option_list (map_option req_id (cmd_request c)))"
| "written_by _ w w' = []"

fun requests_written :: "Externals \<Rightarrow> sink \<Rightarrow> writer \<Rightarrow> Step list \<Rightarrow> World \<Rightarrow> string list" where
  "requests_written ext emit wr [] w = []"
| "requests_written ext emit wr (st # sts) w =
     (case conn_step ext emit wr st w of
        Some (w', Inr _) \<Rightarrow> written_by st w w' @ requests_written ext emit wr sts w'
      | _ \<Rightarrow> [])"

definition asked :: "World \<Rightarrow> string list" where
  "asked w = responses_of (w_events w) @ in_flight (w_session w)"

lemma responses_of_simps [simp]:
  "responses_of [] = []" "responses_of (xs @ ys) = responses_of xs @ responses_of ys"
  "responses_of (EV_Response i v # evs) = i # responses_of evs" "responses_of (EV_Snapshot s # evs) = responses_of evs"
  "responses_of (EV_Surface f # evs) = responses_of evs" "responses_of (EV_SurfaceImages m # evs) = responses_of evs"
  "responses_of (EV_Connected x # evs) = responses_of evs" "responses_of (EV_Message m' # evs) = responses_of evs"
  "responses_of (EV_CommandRejected j e # evs) = responses_of evs"
  by (simp_all add: responses_of_def List.map_filter_def)

section \<open>Quiet actions\<close>

definition quiet :: "'a act \<Rightarrow> bool" where
  "quiet a \<longleftrightarrow> (\<forall>w w' r. a w = Some (w', r) \<longrightarrow>
     responses_of (w_events w') = responses_of (w_events w) \<and>
     ses_pending (w_session w') = ses_pending (w_session w) \<and> ses_barrier (w_session w') = ses_barrier (w_session w))"

named_theorems quiet_intros \<open>actions that leave the requests alone\<close>

lemma quiet_ret [quiet_intros]: "quiet (ret x)"
  by (simp add: quiet_def ret_def)

lemma quiet_fail [quiet_intros]: "quiet (fail e)"
  by (simp add: quiet_def fail_def)

lemma quiet_try_ok [quiet_intros]: "quiet (try_ok r)"
  by (simp add: quiet_def try_ok_def)

lemma quiet_panic [quiet_intros]: "quiet (\<lambda>w. None)"
  by (simp add: quiet_def)

lemma quiet_with_session [quiet_intros]: "(\<And>s. quiet (f s)) \<Longrightarrow> quiet (with_session f)"
  by (fastforce simp: quiet_def with_session_def)

lemma quiet_andthen [quiet_intros]: "quiet a \<Longrightarrow> (\<And>x. quiet (f x)) \<Longrightarrow> quiet (andthen a f)"
  unfolding quiet_def andthen_def by (auto split: option.splits sum.splits)

lemma quiet_update_session [quiet_intros]:
  "(\<And>s. ses_pending (f s) = ses_pending s \<and> ses_barrier (f s) = ses_barrier s) \<Longrightarrow> quiet (update_session f)"
  by (simp add: quiet_def update_session_def)

lemma quiet_emit_event [quiet_intros]: "responses_of [ev] = [] \<Longrightarrow> quiet (emit_event emit ev)"
  by (auto simp: quiet_def emit_event_def split: option.splits)

lemma quiet_when_act [quiet_intros]: "quiet a \<Longrightarrow> quiet (when_act b a)"
  by (simp add: when_act_def quiet_ret)

lemma quiet_images_receive [quiet_intros]: "quiet (images_receive f)"
  by (auto simp: quiet_def images_receive_def split: option.splits)

lemma quiet_images_show [quiet_intros]: "quiet images_show"
  by (auto simp: quiet_def images_show_def split: option.splits)

lemma quiet_update_surface [quiet_intros]: "quiet (update_surface f current)"
  by (auto simp: quiet_def update_surface_def split: option.splits)

lemma quiet_if [quiet_intros]: "(b \<Longrightarrow> quiet a) \<Longrightarrow> (\<not> b \<Longrightarrow> quiet a') \<Longrightarrow> quiet (if b then a else a')"
  by simp

lemma quiet_option [quiet_intros]: "quiet a \<Longrightarrow> (\<And>x. quiet (f x)) \<Longrightarrow> quiet (case r of None \<Rightarrow> a | Some x \<Rightarrow> f x)"
  by (cases r) auto

lemma quiet_prod [quiet_intros]: "(\<And>x y. quiet (f x y)) \<Longrightarrow> quiet (case p of (x, y) \<Rightarrow> f x y)"
  by (cases p) auto

lemma quiet_emit_images [quiet_intros]: "quiet (emit_images emit)"
  unfolding emit_images_def by (intro quiet_intros) simp

lemma quiet_publish_surface [quiet_intros]: "quiet (publish_surface emit s nxt changed)"
  unfolding publish_surface_def Let_def by (intro quiet_intros) simp_all

lemma quiet_accept_surface [quiet_intros]: "quiet (accept_surface emit nxt)"
  unfolding accept_surface_def by (intro quiet_intros)

lemma quiet_emit_patched [quiet_intros]: "quiet (emit_patched emit current)"
  unfolding emit_patched_def by (intro quiet_intros) simp

lemma quiet_handle_patched [quiet_intros]: "quiet (handle_patched emit f)"
  unfolding handle_patched_def by (intro quiet_intros)

lemma quiet_handle_scroll [quiet_intros]: "quiet (handle_scroll ext emit data)"
  unfolding handle_scroll_def by (intro quiet_intros)

lemma quiet_handle_delta [quiet_intros]: "quiet (handle_delta ext emit data)"
  unfolding handle_delta_def by (intro quiet_intros)

lemma quiet_handle_reuse [quiet_intros]: "quiet (handle_reuse ext emit data)"
  unfolding handle_reuse_def by (intro quiet_intros)

lemma quiet_handle_snapshot [quiet_intros]: "quiet (handle_snapshot ext emit data)"
  unfolding handle_snapshot_def Let_def by (intro quiet_intros) simp_all

lemma quiet_handle_welcome [quiet_intros]: "quiet (handle_welcome ext emit now m)"
  unfolding handle_welcome_def by (cases m; simp; intro quiet_intros; simp)

section \<open>Steps\<close>

lemma quiet_asked: "quiet a \<Longrightarrow> a w = Some (w', r) \<Longrightarrow> asked w' = asked w"
  by (fastforce simp: quiet_def asked_def in_flight_def)

lemma handle_response_asked:
  assumes "response_inv (w_session w)" "handle_response ext emit boot i final data w = Some (w', Inr ())"
  shows "asked w' = asked w"
proof -
  have h: "ses_barrier (w_session w) = Some b \<Longrightarrow> ses_pending (w_session w) = None \<Longrightarrow> bar_held b = None" for b
    using assms(1) by (auto simp: response_inv_def)
  show ?thesis
  proof (cases "\<exists>b. ses_barrier (w_session w) = Some b \<and> awaits b i")
    case True
    then obtain b where b: "ses_barrier (w_session w) = Some b" "awaits b i" by blast
    then have "wp (handle_response ext emit boot i final data) (\<lambda>r w'. r = Inr () \<longrightarrow> asked w' = asked w) w"
      by (auto simp: handle_response_def final_response_def deliver_held_def awaits_def wp_simps Let_def asked_def in_flight_def
          option_list_def split: option.splits sum.split)
    with assms(2) show ?thesis by (simp add: wp_def)
  next
    case False
    then have "wp (handle_response ext emit boot i final data) (\<lambda>r w'. r = Inr () \<longrightarrow> asked w' = asked w) w"
      by (auto simp: handle_response_def request_chunk_def final_response_def deliver_held_def wp_simps Let_def asked_def in_flight_def
          option_list_def split: option.splits sum.split)
    with assms(2) show ?thesis by (simp add: wp_def)
  qed
qed

lemma handle_message_asked:
  assumes "session_inv w" "handle_message ext emit now m w = Some (w', Inr ())"
  shows "asked w' = asked w"
proof -
  let ?v = "w\<lparr>w_session := (w_session w)\<lparr>ses_health := map_option (\<lambda>h. Health_received h now) (ses_health (w_session w))\<rparr>\<rparr>"
  have v: "asked ?v = asked w" "response_inv (w_session ?v)"
    using assms(1) by (simp_all add: asked_def in_flight_def conn_inv_def)
  consider (greeting) "handle_welcome ext emit now m ?v = Some (w', Inr ())" | (ready) "handle_ready ext emit m ?v = Some (w', Inr ())"
    using assms(2) by (auto simp: handle_message_def andthen_def update_session_def with_session_def split: option.splits)
  then have "asked w' = asked ?v"
  proof cases
    case greeting
    then show ?thesis by (rule quiet_asked [OF quiet_handle_welcome])
  next
    case ready
    have other: "quiet (emit_event emit (EV_Message m'))" for m' by (intro quiet_intros) simp
    show ?thesis
    proof (cases m)
      case (SM_EndpointControl kind data)
      then have "quiet (handle_ready ext emit m)" unfolding handle_ready_def by simp (intro quiet_intros conjI impI)
      then show ?thesis using ready quiet_asked by blast
    next
      case (SM_ClientShellEndpointResponseChunk boot i final data)
      with ready handle_response_asked [OF v(2)] show ?thesis by (simp add: handle_ready_def)
    qed (use ready quiet_asked [OF other] quiet_asked [OF quiet_accept_surface] quiet_asked [OF quiet_handle_patched]
        in \<open>auto simp: handle_ready_def fail_def\<close>)
  qed
  with v show ?thesis by simp
qed

lemma send_command_asked:
  assumes "send_command emit wr now c w = Some (w', r)"
  shows "asked w' = asked w @ (if w_written w' = w_written w then [] else option_list (map_option req_id (cmd_request c)))"
proof -
  have "wp (send_command emit wr now c) (\<lambda>r w'. asked w' = asked w @
      (if w_written w' = w_written w then [] else option_list (map_option req_id (cmd_request c)))) w"
    by (auto simp: send_command_def request_sent_def pipelines_def wp_simps Let_def asked_def in_flight_def option_list_def
        split: option.splits)
  with assms show ?thesis by (simp add: wp_def)
qed

lemma resend_barrier_asked: "resend_barrier wr now w = Some (w', Inr ()) \<Longrightarrow> asked w' = asked w"
  by (auto simp: resend_barrier_def take_refused_barrier_def resend_ready_def with_session_def andthen_def update_session_def ret_def
      write_all_def asked_def in_flight_def option_list_def split: option.splits if_splits)

lemma conn_step_asked:
  assumes "session_inv w" "conn_step ext emit wr st w = Some (w', Inr ())"
  shows "asked w' = asked w @ written_by st w w'"
proof (cases st)
  case (Send now c)
  with assms(2) obtain r where "send_command emit wr now c w = Some (w', r)"
    by (auto simp: andthen_def ret_def split: option.splits sum.splits)
  from send_command_asked [OF this] Send show ?thesis by simp
qed (use assms handle_message_asked resend_barrier_asked in auto)

lemma conn_run_asked:
  assumes "session_inv w" "conn_run ext emit wr sts w = Some (w', Inr ())"
  shows "asked w' = asked w @ requests_written ext emit wr sts w"
  using assms
proof (induction sts arbitrary: w)
  case (Cons st sts)
  then obtain v where v: "conn_step ext emit wr st w = Some (v, Inr ())" "conn_run ext emit wr sts v = Some (w', Inr ())"
    by (auto simp: andthen_def split: option.splits sum.splits)
  have "session_inv v" using wp_conn_step [OF Cons.prems(1), of ext emit wr st] v(1) by (simp add: wp_def)
  from Cons.IH [OF this v(2)] conn_step_asked [OF Cons.prems(1) v(1)] v(1) show ?case by simp
qed (simp add: ret_def)

section \<open>A focus request and the activation behind it\<close>

definition order_welcome :: EndpointServerWelcome where
  "order_welcome = demo_welcome\<lparr>esw_methods := [''pane.focus'', ''client_shell.surface.set''], esw_capabilities := [''surface_interest'', ''presentation_effects_fence'']\<rparr>"

text \<open>The response's id is read off its first byte.\<close>

definition order_ext :: Externals where
  "order_ext = demo_ext\<lparr>json_welcome := (\<lambda>_. Inr order_welcome),
     json_value := (\<lambda>bytes. Inr (JObject [(''id'', JString (if bytes = [7] then ''r1'' else ''r2''))]))\<rparr>"

definition order_steps :: "Step list" where
  "order_steps = [Receive 1 (SM_EndpointControl ENDPOINT_WELCOME_KIND ''w''), Receive 2 (SM_EndpointControl ENDPOINT_SNAPSHOT_KIND ''s''),
     Send 3 demo_command,
     Send 4 \<lparr>cmd_boot_id = ''boot'', cmd_bytes = [3], cmd_input_pane = None, cmd_request = Some \<lparr>req_id = ''r2'', req_method = ClientShellSurfaceSet\<rparr>\<rparr>,
     Receive 5 (SM_ClientShellEndpointResponseChunk ''boot'' ''r2'' True [8]),
     Receive 6 (SM_ClientShellEndpointResponseChunk ''boot'' ''r1'' True [7])]"

definition order_world :: World where
  "order_world = \<lparr>w_session = (Session_new 0 True False)\<lparr>ses_welcome := Some order_welcome, ses_pipeline_barriers := True,
       ses_snapshot := Some demo_snapshot\<rparr>, w_serial = 1,
     w_events = [EV_Connected order_welcome, EV_Snapshot demo_snapshot, EV_Response ''r1'' (JObject [(''id'', JString ''r1'')]),
       EV_Response ''r2'' (JObject [(''id'', JString ''r2'')])],
     w_written = [[1, 2], [3]]\<rparr>"

lemmas act_defs = andthen_def update_session_def with_session_def try_ok_def ret_def fail_def emit_event_def when_act_def write_all_def

lemma order_run:
  "conn_run order_ext (\<lambda>_ _. None) (\<lambda>_ _. None) order_steps (connected_world 0 True False 1) = Some (order_world, Inr ())" (is ?run)
  "requests_written order_ext (\<lambda>_ _. None) (\<lambda>_ _. None) order_steps (connected_world 0 True False 1) = [''r1'', ''r2'']" (is ?written)
proof -
  have k: "ENDPOINT_SNAPSHOT_KIND = ''shell.snapshot.v1''" "ENDPOINT_WELCOME_KIND = ''endpoint.welcome.v1''"
    by (simp_all add: ENDPOINT_SNAPSHOT_KIND_def SNAPSHOT_CODEC_V1_def ENDPOINT_WELCOME_KIND_def)
  have w: "esw_generation order_welcome = ENDPOINT_PROTOCOL_GENERATION" "esw_error order_welcome = None"
    "esw_snapshot_codec order_welcome = SNAPSHOT_CODEC_V1" "esw_surface_codec order_welcome = SURFACE_CODEC_V1"
    "esw_input_codec order_welcome = INPUT_CODEC_V1" "esw_blob_codec order_welcome = BLOB_CODEC_V1"
    "verified_ordering (esw_server_version order_welcome)" "supports_surface_interest order_welcome"
    "advertised_in PaneFocus (esw_methods order_welcome)" "advertised_in ClientShellSurfaceSet (esw_methods order_welcome)"
    "SurfaceEncodings_from order_welcome = \<lparr>enc_reuse = False, enc_delta = False, enc_scroll = False\<rparr>"
    "snap_boot_id demo_snapshot = ''boot''"
    by (simp_all add: order_welcome_def demo_welcome_def ENDPOINT_PROTOCOL_GENERATION_def verified_ordering_def SurfaceEncodings_from_def
        supports_surface_interest_def advertised_in_def demo_snapshot_def reuse_CAPABILITY_def delta_CAPABILITY_def scroll_CAPABILITY_def)
  note step = order_steps_def connected_world_def Session_new_def handle_message_def handle_welcome_def handle_ready_def
    handle_snapshot_def order_ext_def demo_ext_def k w Let_def send_command_def rejection_reason_def request_sent_def pipelines_def
    demo_command_def handle_response_def request_chunk_def final_response_def deliver_held_def awaits_def response_total_eq
    MAX_RESPONSE_BYTES_def endpoint_busy_def order_world_def option_list_def act_defs
  show ?run by (simp add: step)
  show ?written by (simp add: step)
qed

section \<open>Properties\<close>

text \<open>
  C7. Responses are delivered in the order their requests were written, and none is lost: after any run of a connection
  the requests it wrote are those answered, in this order, followed by those still in flight, of which there are at most
  two, and the response of the second is held back only while the first is in flight.
\<close>

theorem responses_in_order:
  assumes "conn_run ext emit wr steps (connected_world now active remote serial) = Some (w, Inr ())"
  shows "requests_written ext emit wr steps (connected_world now active remote serial)
      = responses_of (w_events w) @ in_flight (w_session w) \<and>
    length (in_flight (w_session w)) \<le> 2 \<and>
    (\<forall>b. ses_barrier (w_session w) = Some b \<and> bar_held b \<noteq> None \<longrightarrow> ses_pending (w_session w) \<noteq> None)"
proof -
  have "asked (connected_world now active remote serial) = []"
    by (simp add: asked_def connected_world_def Session_new_def in_flight_def option_list_def)
  with conn_run_asked [OF connected_world_inv assms] conn_run_outcome [of ext emit wr steps now active remote serial] assms
  show ?thesis by (auto simp: asked_def in_flight_def option_list_def conn_inv_def response_inv_def split: option.splits)
qed

theorem responses_in_order_witness:
  "requests_written order_ext (\<lambda>_ _. None) (\<lambda>_ _. None) order_steps (connected_world 0 True False 1) = [''r1'', ''r2''] \<and>
   [''r1'', ''r2''] = responses_of (w_events order_world) @ in_flight (w_session order_world)"
  using responses_in_order [OF order_run(1)] order_run(2) by simp

text \<open>
  C8. One API lease: a request is written only to the boot of the current snapshot and for a method the daemon advertised,
  and only when none is in flight, or as a surface activation directly behind an unanswered focus request of a daemon
  whose ordering is verified. Once written it holds the lease: it is the request in flight, or the activation that waits
  for its answer behind the focus request, and nothing else of the session has changed. The command sent after it cannot
  write a request, but for such an activation where this one was a focus request.
\<close>

theorem send_command_lease:
  assumes "send_command emit wr now c w = Some (w', r)" and "w_written w' \<noteq> w_written w" and "cmd_request c = Some q"
  shows "w_written w' = w_written w @ [cmd_bytes c] \<and>
    (\<exists>s wl. ses_snapshot (w_session w) = Some s \<and> snap_boot_id s = cmd_boot_id c \<and>
       ses_welcome (w_session w) = Some wl \<and> advertised_in (req_method q) (esw_methods wl)) \<and>
    (let pending = \<lparr>pen_id = req_id q, pen_method = req_method q, pen_bytes = [], pen_started = now\<rparr> in
     ses_pending (w_session w) = None \<and> ses_barrier (w_session w) = None \<and>
       w_session w' = (w_session w)\<lparr>ses_pending := Some pending\<rparr> \<or>
     (\<exists>p. ses_pending (w_session w) = Some p \<and> pen_method p \<in> {PaneFocus, TabFocus, WorkspaceFocus} \<and>
        req_method q = ClientShellSurfaceSet \<and> ses_pipeline_barriers (w_session w) \<and> ses_barrier (w_session w) = None \<and>
        w_session w' = (w_session w)\<lparr>ses_barrier := Some \<lparr>bar_pending = pending, bar_request = cmd_bytes c,
          bar_held = None, bar_refused = False\<rparr>\<rparr>)) \<and>
    (\<forall>emit' wr' now' c' w'' r' q'. send_command emit' wr' now' c' w' = Some (w'', r') \<and> cmd_request c' = Some q' \<and>
       w_written w'' \<noteq> w_written w' \<longrightarrow>
       ses_pending (w_session w) = None \<and> req_method q \<in> {PaneFocus, TabFocus, WorkspaceFocus} \<and>
       req_method q' = ClientShellSurfaceSet \<and> ses_pipeline_barriers (w_session w))"
proof -
  have "rejection_reason (w_session w) c = None"
    using assms(1,2)
    by (auto simp: send_command_def with_session_def andthen_def emit_event_def ret_def split: option.splits)
  then have boot: "\<exists>s wl. ses_snapshot (w_session w) = Some s \<and> snap_boot_id s = cmd_boot_id c \<and>
       ses_welcome (w_session w) = Some wl \<and> advertised_in (req_method q) (esw_methods wl)"
    using assms(3) by (auto simp: rejection_reason_def split: option.splits if_splits)
  let ?pending = "\<lparr>pen_id = req_id q, pen_method = req_method q, pen_bytes = [], pen_started = now\<rparr>"
  have "wp (send_command emit wr now c) (\<lambda>r w'. w_written w' \<noteq> w_written w \<longrightarrow>
      w_written w' = w_written w @ [cmd_bytes c] \<and>
      (ses_pending (w_session w) = None \<and> ses_barrier (w_session w) = None \<and>
         w_session w' = (w_session w)\<lparr>ses_pending := Some ?pending\<rparr> \<or>
       (\<exists>p. ses_pending (w_session w) = Some p \<and> pen_method p \<in> {PaneFocus, TabFocus, WorkspaceFocus} \<and>
          req_method q = ClientShellSurfaceSet \<and> ses_pipeline_barriers (w_session w) \<and> ses_barrier (w_session w) = None \<and>
          w_session w' = (w_session w)\<lparr>ses_barrier := Some \<lparr>bar_pending = ?pending, bar_request = cmd_bytes c,
            bar_held = None, bar_refused = False\<rparr>\<rparr>))) w"
    using assms(3) by (auto simp: send_command_def request_sent_def pipelines_def wp_simps Let_def split: option.splits)
  then have written: "w_written w' = w_written w @ [cmd_bytes c]" and
    lease: "ses_pending (w_session w) = None \<and> ses_barrier (w_session w) = None \<and>
         w_session w' = (w_session w)\<lparr>ses_pending := Some ?pending\<rparr> \<or>
       (\<exists>p. ses_pending (w_session w) = Some p \<and> pen_method p \<in> {PaneFocus, TabFocus, WorkspaceFocus} \<and>
          req_method q = ClientShellSurfaceSet \<and> ses_pipeline_barriers (w_session w) \<and> ses_barrier (w_session w) = None \<and>
          w_session w' = (w_session w)\<lparr>ses_barrier := Some \<lparr>bar_pending = ?pending, bar_request = cmd_bytes c,
            bar_held = None, bar_refused = False\<rparr>\<rparr>)"
    using assms(1,2) by (simp_all add: wp_def)
  have "ses_pending (w_session w) = None \<and> req_method q \<in> {PaneFocus, TabFocus, WorkspaceFocus} \<and>
       req_method q' = ClientShellSurfaceSet \<and> ses_pipeline_barriers (w_session w)"
    if "send_command emit' wr' now' c' w' = Some (w'', r')" "cmd_request c' = Some q'" "w_written w'' \<noteq> w_written w'"
    for emit' wr' now' c' w'' r' q'
  proof -
    from that have "pipelines (w_session w') c' \<or> ses_pending (w_session w') = None \<and> ses_barrier (w_session w') = None"
      by (auto simp: send_command_def with_session_def andthen_def emit_event_def ret_def split: option.splits if_splits)
    with lease that(2) show ?thesis by (auto simp: pipelines_def)
  qed
  with written boot lease show ?thesis unfolding Let_def by blast
qed

theorem send_command_lease_witness:
  "\<exists>s wl. ses_snapshot demo_session = Some s \<and> snap_boot_id s = ''boot'' \<and>
     ses_welcome demo_session = Some wl \<and> advertised_in PaneFocus (esw_methods wl) \<and>
     w_session demo_request_world = demo_session\<lparr>ses_pending :=
       Some \<lparr>pen_id = ''r1'', pen_method = PaneFocus, pen_bytes = [], pen_started = 5\<rparr>\<rparr>"
proof -
  have "rejection_reason demo_session demo_command = None"
    by (simp add: rejection_reason_def demo_session_def demo_command_def demo_snapshot_def demo_welcome_def advertised_in_def)
  then have "\<exists>r. send_command (\<lambda>_ _. None) (\<lambda>_ _. None) 5 demo_command demo_world = Some (demo_request_world\<lparr>w_written := [[1, 2]]\<rparr>, r)"
    by (simp add: send_command_def request_sent_def with_session_def demo_world_def demo_request_world_def demo_session_def Session_new_def
        demo_command_def write_all_def andthen_def update_session_def ret_def Let_def)
  then obtain r where "send_command (\<lambda>_ _. None) (\<lambda>_ _. None) 5 demo_command demo_world
      = Some (demo_request_world\<lparr>w_written := [[1, 2]]\<rparr>, r)" by blast
  from send_command_lease [OF this, of "\<lparr>req_id = ''r1'', req_method = PaneFocus\<rparr>"] show ?thesis
    by (auto simp: demo_world_def demo_command_def Let_def)
qed

end
