(* ===== verification/Client_Reader.thy ===== *)
theory Client_Reader
  imports Client_Session
begin

text \<open>
  Incremental reads and writes of frames, \<open>crates/sheprd-client/src/frame.rs\<close>, and the check that lets
  input out beside an unfinished inbound frame, \<open>permits_partial_input\<close> of \<open>session.rs\<close>. One call of
  \<open>read\<close> or \<open>write\<close> on the socket is an argument: the bytes it returned (at most as many as asked for) or
  the kind of its error. The lemmas show that however the stream is cut into reads, the reader yields
  exactly what \<open>read_message\<close> yields on the whole stream.
\<close>

section \<open>The image writer\<close>

record ImageWriter =
  iw_offset :: usize
  iw_started :: "nat option"

definition ImageWriter_default :: ImageWriter where
  "ImageWriter_default = \<lparr>iw_offset = 0, iw_started = None\<rparr>"

definition ImageWriter_deadline :: "ImageWriter \<Rightarrow> nat option" where
  "ImageWriter_deadline self = map_option (\<lambda>started. started + COMMAND_TIMEOUT) (iw_started self)"

definition retried :: "io_kind \<Rightarrow> bool" where
  "retried k \<longleftrightarrow> k \<in> {WouldBlock, TimedOut, Interrupted}"

text \<open>The bytes of one bounded attempt; \<open>None\<close> is the slice panic.\<close>

definition write_window :: "ImageWriter \<Rightarrow> bytes \<Rightarrow> bytes option" where
  "write_window self bytes =
     (let end = min (length bytes) (iw_offset self + 64 * 1024) in
      if iw_offset self \<le> end then Some (take (end - iw_offset self) (drop (iw_offset self) bytes)) else None)"

definition write_some ::
  "ImageWriter \<Rightarrow> bytes \<Rightarrow> nat \<Rightarrow> (nat, io_kind) result \<Rightarrow> (ImageWriter \<times> (bool, ClientError) result) option" where
  "write_some self bytes now outcome =
     (let self = self\<lparr>iw_started := (case iw_started self of None \<Rightarrow> Some now | Some t \<Rightarrow> Some t)\<rparr> in
      case write_window self bytes of
        None \<Rightarrow> None
      | Some _ \<Rightarrow>
          (case outcome of
             Inr n \<Rightarrow>
               if n = 0 then Some (self, Inl (CE_Io WriteZero))
               else let self = self\<lparr>iw_offset := iw_offset self + n\<rparr> in Some (self, Inr (iw_offset self = length bytes))
           | Inl k \<Rightarrow>
               if retried k then Some (self, Inr (iw_offset self = length bytes))
               else Some (self, Inl (CE_Io k))))"

text \<open>
  Attempts one after another on a frame until it is finished or fails, with what the stream took. The
  outcome of an attempt is the number of bytes the stream would take, cut to the window offered.
\<close>

fun write_attempts ::
  "ImageWriter \<Rightarrow> bytes \<Rightarrow> (nat \<times> (nat, io_kind) result) list \<Rightarrow> bytes
     \<Rightarrow> (ImageWriter \<times> bytes \<times> (bool, ClientError) result) option" where
  "write_attempts self bytes [] taken = Some (self, taken, Inr (iw_offset self = length bytes))"
| "write_attempts self bytes ((now, outcome) # rest) taken =
     (case write_window self bytes of
        None \<Rightarrow> None
      | Some window \<Rightarrow>
          let outcome = (case outcome of Inr n \<Rightarrow> Inr (min n (length window)) | Inl k \<Rightarrow> Inl k);
              got = (case outcome of Inr n \<Rightarrow> take n window | Inl _ \<Rightarrow> []) in
          (case write_some self bytes now outcome of
             None \<Rightarrow> None
           | Some (self, Inl e) \<Rightarrow> Some (self, taken @ got, Inl e)
           | Some (self, Inr True) \<Rightarrow> Some (self, taken @ got, Inr True)
           | Some (self, Inr False) \<Rightarrow> write_attempts self bytes rest (taken @ got)))"

section \<open>The frame reader\<close>

record FrameReader =
  fr_bytes :: bytes
  fr_target :: usize
  fr_started :: "nat option"
  fr_timeout :: nat

definition FrameReader_with_timeout :: "nat \<Rightarrow> FrameReader" where
  "FrameReader_with_timeout timeout = \<lparr>fr_bytes = [], fr_target = 4, fr_started = None, fr_timeout = timeout\<rparr>"

definition FrameReader_deadline :: "FrameReader \<Rightarrow> nat option" where
  "FrameReader_deadline self = map_option (\<lambda>started. started + fr_timeout self) (fr_started self)"

definition FrameReader_check_timeout :: "FrameReader \<Rightarrow> nat \<Rightarrow> (unit, ClientError) result" where
  "FrameReader_check_timeout self now =
     (case FrameReader_deadline self of
        Some due \<Rightarrow> if now \<ge> due then Inl CE_PartialFrameTimeout else Inr ()
      | None \<Rightarrow> Inr ())"

text \<open>The number of bytes one \<open>poll\<close> asks the stream for.\<close>

definition poll_len :: "FrameReader \<Rightarrow> nat" where
  "poll_len self = min 8192 (fr_target self - length (fr_bytes self))"

definition poll ::
  "(bytes \<Rightarrow> ('m \<times> usize, ext_error) result) \<Rightarrow> FrameReader \<Rightarrow> nat \<Rightarrow> (bytes, io_kind) result
     \<Rightarrow> FrameReader \<times> ('m option, ClientError) result" where
  "poll dec self now outcome =
     (case outcome of
        Inl k \<Rightarrow> if retried k then (self, Inr None) else (self, Inl (CE_Io k))
      | Inr [] \<Rightarrow> (self, Inl CE_SocketClosed)
      | Inr buf \<Rightarrow>
          let self = self\<lparr>fr_started := (case fr_started self of None \<Rightarrow> Some now | Some t \<Rightarrow> Some t),
                fr_bytes := fr_bytes self @ buf\<rparr> in
          if length (fr_bytes self) \<noteq> fr_target self then (self, Inr None)
          else if fr_target self = 4 then
            let len = unat (of_le_32 (fr_bytes self)) in
            if len = 0 \<or> len > MAX_GRAPHICS_FRAME_SIZE then (self, Inl CE_FrameLength)
            else (self\<lparr>fr_target := fr_target self + len\<rparr>, Inr None)
          else
            (case decode_payload dec (drop 4 (fr_bytes self)) of
               Inl e \<Rightarrow> (self, Inl (CE_Protocol e))
             | Inr message \<Rightarrow> (self\<lparr>fr_bytes := [], fr_target := 4, fr_started := None\<rparr>, Inr (Some message))))"

text \<open>
  Polls of one stream that holds \<open>source\<close>: at each, the stream returns the next bytes, at most as many as
  asked for and at least one unless it is at its end, or an error. The reader afterwards, the rest of
  the stream, the messages in order and the error that ended the polls, if any.
\<close>

fun polls ::
  "(bytes \<Rightarrow> ('m \<times> usize, ext_error) result) \<Rightarrow> FrameReader \<Rightarrow> bytes \<Rightarrow> (nat \<times> (nat, io_kind) result) list
     \<Rightarrow> FrameReader \<times> bytes \<times> 'm list \<times> ClientError option" where
  "polls dec self source [] = (self, source, [], None)"
| "polls dec self source ((now, outcome) # rest) =
     (let n = (case outcome of Inr n \<Rightarrow> min (max 1 n) (poll_len self) | Inl _ \<Rightarrow> 0);
          got = (case outcome of Inr _ \<Rightarrow> Inr (take n source) | Inl k \<Rightarrow> Inl k) in
      case poll dec self now got of
        (self, Inl e) \<Rightarrow> (self, drop n source, [], Some e)
      | (self, Inr m) \<Rightarrow>
          (case polls dec self (drop n source) rest of
             (self, source, ms, e) \<Rightarrow> (self, source, (case m of None \<Rightarrow> ms | Some m \<Rightarrow> m # ms), e)))"

section \<open>Input beside an unfinished frame\<close>

definition reader_surface_prefix ::
  "(bytes \<Rightarrow> ((u32 \<times> string \<times> u64 \<times> u64) \<times> usize, ext_error) result)
     \<Rightarrow> (bytes \<Rightarrow> (u64 \<times> usize, ext_error) result) \<Rightarrow> FrameReader \<Rightarrow> nat
     \<Rightarrow> ClientShellSnapshot \<Rightarrow> PaneSurfaceFrame \<Rightarrow> bool" where
  "reader_surface_prefix header number self now snapshot surface \<longleftrightarrow>
     (case FrameReader_deadline self of None \<Rightarrow> False | Some due \<Rightarrow> now < due)
     \<and> fr_target self > 4
     \<and> length (fr_bytes self) < fr_target self
     \<and> 4 \<le> length (fr_bytes self)
     \<and> has_current_surface_prefix header number (drop 4 (fr_bytes self)) snapshot surface"

definition permits_partial_input ::
  "(bytes \<Rightarrow> ((u32 \<times> string \<times> u64 \<times> u64) \<times> usize, ext_error) result)
     \<Rightarrow> (bytes \<Rightarrow> (u64 \<times> usize, ext_error) result) \<Rightarrow> bool \<Rightarrow> Session \<Rightarrow> Command \<Rightarrow> FrameReader \<Rightarrow> nat \<Rightarrow> bool" where
  "permits_partial_input header number windows self command reader now =
     (if windows \<or> ses_pending self \<noteq> None \<or> ses_barrier self \<noteq> None \<or> cmd_request command \<noteq> None
         \<or> length (cmd_bytes command) > MAX_INTERLEAVED_INPUT_BYTES
      then False
      else case (ses_snapshot self, ses_surface self, cmd_input_pane command) of
        (Some snapshot, Some surface, Some pane) \<Rightarrow>
          if cmd_boot_id command \<noteq> snap_boot_id snapshot \<or> psf_popup surface \<noteq> None
             \<or> snap_focused_pane_id snapshot \<noteq> Some pane
             \<or> \<not> reader_surface_prefix header number reader now snapshot surface
          then False
          else case (snap_focused_tab_id snapshot, snap_focused_workspace_id snapshot) of
            (Some tab, Some workspace) \<Rightarrow>
              list_ex (\<lambda>p. csp_pane_id p = pane \<and> csp_tab_id p = tab \<and> csp_workspace_id p = workspace)
                (snap_panes snapshot)
              \<and> list_ex (\<lambda>p. pane_id p = pane) (psf_panes surface)
          | _ \<Rightarrow> False
      | _ \<Rightarrow> False)"

section \<open>Lemmas\<close>

text \<open>The reader holds a proper prefix of one frame.\<close>

definition reader_inv :: "FrameReader \<Rightarrow> bool" where
  "reader_inv r \<longleftrightarrow> length (fr_bytes r) < fr_target r \<and>
     (fr_target r = 4 \<or>
      4 \<le> length (fr_bytes r) \<and> fr_target r = 4 + unat (of_le_32 (fr_bytes r)) \<and>
      0 < unat (of_le_32 (fr_bytes r)) \<and> unat (of_le_32 (fr_bytes r)) \<le> MAX_GRAPHICS_FRAME_SIZE)"

lemma read_message_whole:
  assumes "4 \<le> length bs" and "length bs = 4 + unat (of_le_32 bs)" and "0 < unat (of_le_32 bs)"
    and "unat (of_le_32 bs) \<le> MAX_GRAPHICS_FRAME_SIZE"
  shows "read_message dec (bs @ rest) MAX_GRAPHICS_FRAME_SIZE = (rest, decode_payload dec (drop 4 bs))"
  using assms by (simp add: read_message_def read_exact_def Let_def)

lemma poll_step:
  assumes inv: "reader_inv r" and "length buf \<le> poll_len r"
    and p: "poll dec r now (Inr buf) = (r', Inr out)"
  shows "reader_inv r' \<and>
    (case out of
       None \<Rightarrow> fr_bytes r' = fr_bytes r @ buf
     | Some m \<Rightarrow> fr_bytes r' = [] \<and>
         (\<forall>rest. read_message dec (fr_bytes r @ buf @ rest) MAX_GRAPHICS_FRAME_SIZE = (rest, Inr m)))"
proof -
  from p obtain b bs where buf: "buf = b # bs"
    by (cases buf) (simp_all add: poll_def)
  let ?bytes = "fr_bytes r @ buf"
  show ?thesis
  proof (cases "length ?bytes = fr_target r")
    case False
    with assms(2) inv have "length ?bytes < fr_target r" by (auto simp: poll_len_def reader_inv_def)
    with p buf inv show ?thesis
      by (auto simp: poll_def Let_def reader_inv_def)
  next
    case full: True
    show ?thesis
    proof (cases "fr_target r = 4")
      case True
      with p buf full show ?thesis by (auto simp: poll_def Let_def reader_inv_def split: if_splits)
    next
      case False
      with inv have t: "4 \<le> length (fr_bytes r)" "fr_target r = 4 + unat (of_le_32 (fr_bytes r))"
        "0 < unat (of_le_32 (fr_bytes r))" "unat (of_le_32 (fr_bytes r)) \<le> MAX_GRAPHICS_FRAME_SIZE"
        by (auto simp: reader_inv_def)
      have "read_message dec (?bytes @ rest) MAX_GRAPHICS_FRAME_SIZE = (rest, decode_payload dec (drop 4 ?bytes))" for rest
        by (rule read_message_whole) (use t full in auto)
      with p buf full False show ?thesis
        by (auto simp: poll_def Let_def reader_inv_def split: sum.splits)
    qed
  qed
qed

lemma polls_read:
  assumes "reader_inv r" and "polls dec r source sched = (r', source', ms, e)"
  shows "\<exists>rest. read_messages dec (fr_bytes r @ source) (length ms) MAX_GRAPHICS_FRAME_SIZE = (rest, Inr ms) \<and>
    (e = None \<longrightarrow> reader_inv r' \<and> rest = fr_bytes r' @ source')"
  using assms
proof (induction sched arbitrary: r source ms)
  case (Cons x sched)
  note inv = Cons.prems(1) and run = Cons.prems(2)
  obtain now outcome where x: "x = (now, outcome)" by force
  show ?case
  proof (cases outcome)
    case (Inl k)
    show ?thesis
    proof (cases "retried k")
      case True
      with run x Inl have "polls dec r source sched = (r', source', ms, e)"
        by (auto simp: poll_def split: prod.splits)
      with Cons.IH [OF inv this] show ?thesis by blast
    next
      case False
      with run x Inl show ?thesis by (auto simp: poll_def)
    qed
  next
    case (Inr n)
    let ?n = "min (max 1 n) (poll_len r)"
    obtain r1 o1 where p: "poll dec r now (Inr (take ?n source)) = (r1, o1)" by force
    show ?thesis
    proof (cases o1)
      case err: (Inl e')
      with run x Inr p show ?thesis by auto
    next
      case out: (Inr m)
      obtain ms2 where rest: "polls dec r1 (drop ?n source) sched = (r', source', ms2, e)"
        and ms: "ms = (case m of None \<Rightarrow> ms2 | Some m \<Rightarrow> m # ms2)"
        using run x Inr p out by (auto split: prod.splits)
      have s: "reader_inv r1" "case m of None \<Rightarrow> fr_bytes r1 = fr_bytes r @ take ?n source
         | Some m \<Rightarrow> fr_bytes r1 = [] \<and> (\<forall>rest. read_message dec (fr_bytes r @ take ?n source @ rest) MAX_GRAPHICS_FRAME_SIZE = (rest, Inr m))"
        using poll_step [OF inv _ p [unfolded out]] by auto
      note ih = Cons.IH [OF s(1) rest]
      show ?thesis
      proof (cases m)
        case None
        with s(2) have "fr_bytes r1 @ drop ?n source = fr_bytes r @ source" by simp
        with ih None ms show ?thesis by simp
      next
        case (Some m')
        with s(2) have b: "fr_bytes r1 = []"
          and all: "\<forall>rest. read_message dec (fr_bytes r @ take ?n source @ rest) MAX_GRAPHICS_FRAME_SIZE = (rest, Inr m')"
          by simp_all
        from spec [OF all, of "drop ?n source"] have
          "read_message dec (fr_bytes r @ source) MAX_GRAPHICS_FRAME_SIZE = (drop ?n source, Inr m')"
          by (simp only: append_take_drop_id)
        with b ih Some ms show ?thesis by auto
      qed
    qed
  qed
qed simp

lemma write_window_ok: "iw_offset w \<le> length bs \<Longrightarrow>
    write_window w bs = Some (take (min (length bs - iw_offset w) (64 * 1024)) (drop (iw_offset w) bs))"
  by (auto simp: write_window_def Let_def min_def)

lemma write_attempts_taken:
  assumes "iw_offset w \<le> length bs" and "taken = take (iw_offset w) bs"
  shows "\<exists>w' taken' r. write_attempts w bs sched taken = Some (w', taken', r) \<and> iw_offset w' \<le> length bs \<and>
    taken' = take (iw_offset w') bs \<and> (\<forall>b. r = Inr b \<longrightarrow> (b \<longleftrightarrow> iw_offset w' = length bs))"
  using assms
proof (induction sched arbitrary: w taken)
  case (Cons x sched)
  obtain now outcome where x: "x = (now, outcome)" by force
  define win where "win = take (min (length bs - iw_offset w) (64 * 1024)) (drop (iw_offset w) bs)"
  let ?w = "w\<lparr>iw_started := (case iw_started w of None \<Rightarrow> Some now | Some t \<Rightarrow> Some t)\<rparr>"
  have win: "write_window w bs = Some win" "write_window ?w bs = Some win"
    using Cons.prems(1) write_window_ok [of ?w bs] by (simp_all add: write_window_ok win_def)
  show ?case
  proof (cases outcome)
    case (Inl k)
    with Cons.prems Cons.IH [of ?w taken] x win show ?thesis
      by (cases "iw_offset w = length bs") (auto simp: write_some_def Let_def)
  next
    case (Inr n)
    define m where "m = min n (length win)"
    let ?v = "?w\<lparr>iw_offset := iw_offset w + m\<rparr>"
    have m: "iw_offset w + m \<le> length bs" "take m win = take m (drop (iw_offset w) bs)"
      using Cons.prems(1) by (auto simp: m_def win_def min_def)
    have t: "taken @ take m win = take (iw_offset w + m) bs"
      using Cons.prems m by (simp add: take_add)
    have eq: "write_attempts w bs (x # sched) taken =
        (if m = 0 then Some (?w, taken @ take m win, Inl (CE_Io WriteZero))
         else if iw_offset w + m = length bs then Some (?v, taken @ take m win, Inr True)
         else write_attempts ?v bs sched (taken @ take m win))"
      using x Inr win by (simp add: write_some_def m_def [symmetric])
    show ?thesis
      using Cons.IH [of ?v "taken @ take m win"] m(1) t Cons.prems unfolding eq by auto
  qed
qed simp

section \<open>Properties\<close>

text \<open>
  C5. However the stream is cut into reads, timeouts and retries, the reader yields exactly the messages
  \<open>read_message\<close> yields on the stream as a whole, in order, and loses nothing: what the reads that
  follow see begins with the unfinished frame the reader keeps.
\<close>

theorem polls_equal_read:
  assumes "polls dec (FrameReader_with_timeout t) source sched = (r, rest, ms, None)"
  shows "read_messages dec source (length ms) MAX_GRAPHICS_FRAME_SIZE = (fr_bytes r @ rest, Inr ms) \<and>
    length (fr_bytes r) < fr_target r"
  using polls_read [OF _ assms] by (auto simp: FrameReader_with_timeout_def reader_inv_def)

theorem polls_equal_read_witness:
  "read_messages bincode_example_dec [3, 0, 0, 0, 7, 7, 7, 3, 0] (length [7 :: u8]) MAX_GRAPHICS_FRAME_SIZE = ([3, 0], Inr [7])"
proof -
  have "polls bincode_example_dec (FrameReader_with_timeout 9) [3, 0, 0, 0, 7, 7, 7, 3, 0]
      [(1, Inr 3), (2, Inl WouldBlock), (3, Inr 9), (4, Inr 2), (5, Inr 7), (6, Inr 8)]
    = (\<lparr>fr_bytes = [3, 0], fr_target = 4, fr_started = Some 6, fr_timeout = 9\<rparr>, [], [7 :: u8], None)"
    by (simp add: FrameReader_with_timeout_def poll_def poll_len_def Let_def retried_def of_le_32_def
        MAX_GRAPHICS_FRAME_SIZE_def decode_payload_def bincode_example_dec_def)
  from polls_equal_read [OF this] show ?thesis by simp
qed

text \<open>
  A frame written in bounded attempts is never torn: whatever the stream takes at each attempt, it
  has taken exactly the frame's first \<open>offset\<close> bytes, the next attempt never slices out of range, and
  the writer reports the frame finished if and only if all of it is on the wire.
\<close>

theorem write_attempts_exact:
  "\<exists>w taken r. write_attempts ImageWriter_default frame sched [] = Some (w, taken, r) \<and>
     iw_offset w \<le> length frame \<and> taken = take (iw_offset w) frame \<and>
     (r = Inr True \<longrightarrow> taken = frame) \<and> (r = Inr False \<longrightarrow> iw_offset w < length frame)"
  using write_attempts_taken [of ImageWriter_default frame "[]" sched]
  by (fastforce simp: ImageWriter_default_def)

theorem write_attempts_exact_witness:
  "write_attempts ImageWriter_default [1, 2, 3] [(1, Inr 2), (2, Inl TimedOut), (3, Inr 5)] []
     = Some (\<lparr>iw_offset = 3, iw_started = Some 1\<rparr>, [1, 2, 3], Inr True) \<and>
   (\<exists>w taken r. write_attempts ImageWriter_default [1, 2, 3] [(1, Inr 2), (2, Inl TimedOut), (3, Inr 5)] [] = Some (w, taken, r)
      \<and> taken = take (iw_offset w) [1, 2, 3])"
  using write_attempts_exact [of "[1, 2, 3]" "[(1, Inr 2), (2, Inl TimedOut), (3, Inr 5)]"]
  by (auto simp: ImageWriter_default_def write_window_def write_some_def Let_def retried_def)

text \<open>
  Input overtakes an unfinished inbound frame only when that cannot matter: no request is in flight,
  the input is at most 4 KiB for the focused pane of the current boot and no popup is open, the pane is
  on the surface; and when the frame is complete and decodes, it is a newer surface of the current
  snapshot or a patch for the retained surface.
\<close>

theorem partial_input_sound:
  assumes positional: "positional_header dec header number"
    and permitted: "permits_partial_input header number windows s c r now"
    and complete: "fr_bytes r = take (length (fr_bytes r)) (prefix @ payload)" "length prefix = 4"
    and decoded: "dec payload = Inr (m, n)"
  shows "ses_pending s = None \<and> ses_barrier s = None \<and> length (cmd_bytes c) \<le> MAX_INTERLEAVED_INPUT_BYTES \<and>
    (\<exists>snapshot surface pane. ses_snapshot s = Some snapshot \<and> ses_surface s = Some surface \<and>
       cmd_input_pane c = Some pane \<and> cmd_boot_id c = snap_boot_id snapshot \<and>
       snap_focused_pane_id snapshot = Some pane \<and> psf_popup surface = None \<and>
       pane \<in> set (map pane_id (psf_panes surface)) \<and>
       ((\<exists>f. m = SM_PaneSurface f \<and> psf_boot_id f = snap_boot_id snapshot \<and>
           psf_projection_revision f = snap_revision snapshot \<and> psf_surface_revision f > psf_surface_revision surface) \<or>
        (\<exists>p. m = SM_PaneSurfacePatch p \<and> validate_patch surface p \<noteq> Inl PatchIdentity)))"
proof -
  from permitted obtain snapshot surface pane where
    p: "ses_pending s = None" "ses_barrier s = None" "length (cmd_bytes c) \<le> MAX_INTERLEAVED_INPUT_BYTES"
      "ses_snapshot s = Some snapshot" "ses_surface s = Some surface" "cmd_input_pane c = Some pane"
      "cmd_boot_id c = snap_boot_id snapshot" "snap_focused_pane_id snapshot = Some pane" "psf_popup surface = None"
      "list_ex (\<lambda>p. pane_id p = pane) (psf_panes surface)"
    and pre: "reader_surface_prefix header number r now snapshot surface"
    by (auto simp: permits_partial_input_def split: if_splits option.splits)
  have "drop 4 (fr_bytes r) = take (length (fr_bytes r) - 4) payload"
    using pre by (subst complete(1)) (simp add: complete(2) reader_surface_prefix_def)
  with pre have "has_current_surface_prefix header number (take (length (fr_bytes r) - 4) payload) snapshot surface"
    by (simp add: reader_surface_prefix_def)
  from current_prefix_cases [OF positional this decoded] p show ?thesis
    by (auto simp: list_ex_iff)
qed

definition demo_input :: Command where
  "demo_input = \<lparr>cmd_boot_id = ''boot'', cmd_bytes = [9], cmd_input_pane = Some ''p1'', cmd_request = None\<rparr>"

definition demo_focused :: ClientShellSnapshot where
  "demo_focused = demo_snapshot\<lparr>snap_focused_pane_id := Some ''p1'', snap_focused_tab_id := Some ''t1'',
     snap_focused_workspace_id := Some ''w1'',
     snap_panes := [\<lparr>csp_pane_id = ''p1'', csp_workspace_id = ''w1'', csp_tab_id = ''t1'', csp_label = None,
       csp_cwd = None, csp_foreground_cwd = None, csp_focused = True, csp_right_click_passthrough = False\<rparr>]\<rparr>"

definition demo_reader :: FrameReader where
  "demo_reader = \<lparr>fr_bytes = [9, 0, 0, 0, 1, 2, 3, 4, 5], fr_target = 13, fr_started = Some 1, fr_timeout = 9\<rparr>"

theorem partial_input_sound_witness:
  "validate_patch demo_frame demo_patch \<noteq> Inl PatchIdentity"
proof -
  let ?s = "(Session_new 0 True False)\<lparr>ses_snapshot := Some demo_focused, ses_surface := Some demo_frame\<rparr>"
  let ?dec = "\<lambda>bs. Inr (SM_PaneSurfacePatch demo_patch, length bs)"
  have a: "positional_header ?dec header_example number_example"
    by (simp add: positional_header_def header_example_def number_example_def demo_patch_def)
  have b: "permits_partial_input header_example number_example False ?s demo_input demo_reader 2"
    by (simp add: permits_partial_input_def Session_new_def demo_input_def demo_focused_def demo_reader_def demo_frame_def
        demo_pane_def MAX_INTERLEAVED_INPUT_BYTES_def reader_surface_prefix_def FrameReader_deadline_def demo_snapshot_def
        has_current_surface_prefix_def header_example_def number_example_def SURFACE_TAG_def PATCH_TAG_def checked_add_def
        MAX_HEADER_BYTES_def Let_def)
  have c: "fr_bytes demo_reader = take (length (fr_bytes demo_reader)) ([9, 0, 0, 0] @ [1, 2, 3, 4, 5, 6, 7, 8, 9])"
    by (simp add: demo_reader_def)
  from partial_input_sound [OF a b c, of "SM_PaneSurfacePatch demo_patch" 9] show ?thesis by auto
qed

end
