(* ===== verification/Core_Frame.thy ===== *)
theory Core_Frame
  imports Prelude
begin

text \<open>
  Framed mode of the core connection, \<open>crates/sheprd-core-client/src/frame.rs\<close>: frames on numbered
  channels, encoded behind a 9-byte header and decoded from a buffer that bytes arrive in. The buffer keeps
  what it already yielded until half of it is spent; the lemmas show that this is invisible: a decoder
  is the bytes it has not yielded yet.
\<close>

section \<open>Frames\<close>

definition HEADER :: nat where
  "HEADER = 9"

definition MAX_PAYLOAD :: nat where
  "MAX_PAYLOAD = 16 * 1048576"

datatype FrameError = TooLarge nat | UnknownKind u8

datatype Kind = Kind_Data | Kind_Credit | Kind_Close | Kind_Resize | Kind_Focus | Kind_Facts

fun u8_of_Kind :: "Kind \<Rightarrow> u8" where
  "u8_of_Kind Kind_Data = 0"
| "u8_of_Kind Kind_Credit = 1"
| "u8_of_Kind Kind_Close = 2"
| "u8_of_Kind Kind_Resize = 3"
| "u8_of_Kind Kind_Focus = 4"
| "u8_of_Kind Kind_Facts = 5"

definition Kind_try_from :: "u8 \<Rightarrow> (Kind, FrameError) result" where
  "Kind_try_from v =
     (if v = 0 then Inr Kind_Data else if v = 1 then Inr Kind_Credit else if v = 2 then Inr Kind_Close
      else if v = 3 then Inr Kind_Resize else if v = 4 then Inr Kind_Focus else if v = 5 then Inr Kind_Facts
      else Inl (UnknownKind v))"

record CoreFrame =
  cf_channel :: u32
  cf_kind :: Kind
  cf_payload :: bytes

definition encode_frame :: "u32 \<Rightarrow> Kind \<Rightarrow> bytes \<Rightarrow> (bytes, FrameError) result" where
  "encode_frame channel kind payload =
     (if length payload < 2 ^ 32 \<and> length payload \<le> MAX_PAYLOAD then
        Inr (le_bytes_32 channel @ [u8_of_Kind kind] @ le_bytes_32 (of_nat (length payload)) @ payload)
      else Inl (TooLarge (length payload)))"

section \<open>The decoder\<close>

record Decoder =
  dec_buffer :: bytes
  dec_start :: usize

definition Decoder_default :: Decoder where
  "Decoder_default = \<lparr>dec_buffer = [], dec_start = 0\<rparr>"

definition Decoder_push :: "Decoder \<Rightarrow> bytes \<Rightarrow> Decoder" where
  "Decoder_push self bytes =
     (let self = (if dec_start self > 0 \<and> dec_start self \<ge> length (dec_buffer self) div 2
        then \<lparr>dec_buffer = drop (dec_start self) (dec_buffer self), dec_start = 0\<rparr> else self) in
      self\<lparr>dec_buffer := dec_buffer self @ bytes\<rparr>)"

text \<open>\<open>next_frame\<close>; \<open>None\<close> outside is the panic of a slice that starts past the buffer.\<close>

definition next_frame :: "Decoder \<Rightarrow> (Decoder \<times> (CoreFrame option, FrameError) result) option" where
  "next_frame self =
     (if dec_start self > length (dec_buffer self) then None
      else
        let ready = drop (dec_start self) (dec_buffer self) in
        if length ready < HEADER then Some (self, Inr None)
        else
          let header = take HEADER ready; channel = of_le_32 header in
          case Kind_try_from (header ! 4) of
            Inl e \<Rightarrow> Some (self, Inl e)
          | Inr kind \<Rightarrow>
              let len = unat (of_le_32 (drop 5 header)) in
              if len > MAX_PAYLOAD then Some (self, Inl (TooLarge len))
              else if length ready < HEADER + len then Some (self, Inr None)
              else Some (self\<lparr>dec_start := dec_start self + (HEADER + len)\<rparr>,
                Inr (Some \<lparr>cf_channel = channel, cf_kind = kind, cf_payload = take len (drop HEADER ready)\<rparr>)))"

definition Decoder_pending :: "Decoder \<Rightarrow> nat" where
  "Decoder_pending self = length (dec_buffer self) - dec_start self"

section \<open>Frames of a byte string\<close>

text \<open>The reference: the first frame of a byte string and what follows it, and all its whole frames.\<close>

definition first_frame :: "bytes \<Rightarrow> ((CoreFrame \<times> bytes) option, FrameError) result" where
  "first_frame bs =
     (if length bs < HEADER then Inr None
      else case Kind_try_from (bs ! 4) of
        Inl e \<Rightarrow> Inl e
      | Inr kind \<Rightarrow>
          let len = unat (of_le_32 (drop 5 bs)) in
          if len > MAX_PAYLOAD then Inl (TooLarge len)
          else if length bs < HEADER + len then Inr None
          else Inr (Some (\<lparr>cf_channel = of_le_32 bs, cf_kind = kind, cf_payload = take len (drop HEADER bs)\<rparr>,
            drop (HEADER + len) bs)))"

lemma first_frame_shorter: "first_frame bs = Inr (Some (f, rest)) \<Longrightarrow> length rest < length bs"
  by (auto simp: first_frame_def HEADER_def Let_def split: if_splits sum.splits)

function all_frames :: "bytes \<Rightarrow> CoreFrame list \<times> bytes \<times> FrameError option" where
  "all_frames bs =
     (case first_frame bs of
        Inl e \<Rightarrow> ([], bs, Some e)
      | Inr None \<Rightarrow> ([], bs, None)
      | Inr (Some (f, rest)) \<Rightarrow> (case all_frames rest of (fs, r, e) \<Rightarrow> (f # fs, r, e)))"
  by pat_completeness auto
termination
  by (relation "measure length") (auto dest: first_frame_shorter)

declare all_frames.simps [simp del]

lemma all_frames_cases [simp]:
  "first_frame bs = Inl e \<Longrightarrow> all_frames bs = ([], bs, Some e)"
  "first_frame bs = Inr None \<Longrightarrow> all_frames bs = ([], bs, None)"
  "first_frame bs = Inr (Some (f, rest)) \<Longrightarrow> all_frames bs = (case all_frames rest of (fs, r, e) \<Rightarrow> (f # fs, r, e))"
  by (simp_all add: all_frames.simps [of bs])

text \<open>What the worker does with each read: push the bytes, then take frames until there is none.\<close>

function take_frames :: "Decoder \<Rightarrow> Decoder \<times> CoreFrame list \<times> FrameError option" where
  "take_frames d =
     (case next_frame d of
        Some (d', Inr (Some f)) \<Rightarrow> (case take_frames d' of (d'', fs, e) \<Rightarrow> (d'', f # fs, e))
      | Some (d', Inl e) \<Rightarrow> (d', [], Some e)
      | Some (d', Inr None) \<Rightarrow> (d', [], None)
      | None \<Rightarrow> (d, [], None))"
  by pat_completeness auto
termination
  by (relation "measure (\<lambda>d. length (dec_buffer d) - dec_start d)")
    (auto simp: next_frame_def HEADER_def Let_def split: if_splits sum.splits)

declare take_frames.simps [simp del]

fun feed :: "Decoder \<Rightarrow> bytes list \<Rightarrow> Decoder \<times> CoreFrame list \<times> FrameError option" where
  "feed d [] = (d, [], None)"
| "feed d (c # cs) =
     (case take_frames (Decoder_push d c) of
        (d', fs, Some e) \<Rightarrow> (d', fs, Some e)
      | (d', fs, None) \<Rightarrow> (case feed d' cs of (d'', gs, e) \<Rightarrow> (d'', fs @ gs, e)))"

section \<open>Lemmas\<close>

definition unread :: "Decoder \<Rightarrow> bytes" where
  "unread d = drop (dec_start d) (dec_buffer d)"

definition decoder_inv :: "Decoder \<Rightarrow> bool" where
  "decoder_inv d \<longleftrightarrow> dec_start d \<le> length (dec_buffer d)"

lemma Kind_round_trip [simp]: "Kind_try_from (u8_of_Kind k) = Inr k"
  by (cases k) (simp_all add: Kind_try_from_def)

lemma Kind_try_from_sound: "Kind_try_from v = Inr k \<Longrightarrow> v = u8_of_Kind k"
  by (auto simp: Kind_try_from_def split: if_splits)

lemma Decoder_push_view:
  assumes "decoder_inv d"
  shows "decoder_inv (Decoder_push d bs)" and "unread (Decoder_push d bs) = unread d @ bs"
  using assms by (auto simp: Decoder_push_def Let_def decoder_inv_def unread_def)

lemma next_frame_view:
  assumes "decoder_inv d"
  shows "\<exists>d' r. next_frame d = Some (d', r) \<and> decoder_inv d' \<and>
    (case r of
       Inl e \<Rightarrow> first_frame (unread d) = Inl e \<and> unread d' = unread d
     | Inr None \<Rightarrow> first_frame (unread d) = Inr None \<and> unread d' = unread d
     | Inr (Some f) \<Rightarrow> first_frame (unread d) = Inr (Some (f, unread d')))"
proof -
  let ?r = "drop (dec_start d) (dec_buffer d)"
  have h: "take HEADER ?r ! 4 = ?r ! 4" "of_le_32 (take HEADER ?r) = of_le_32 ?r"
    "of_le_32 (drop 5 (take HEADER ?r)) = of_le_32 (drop 5 ?r)" if "HEADER \<le> length ?r"
    using that by (simp_all add: HEADER_def of_le_32_def drop_take)
  show ?thesis
  proof (cases "HEADER \<le> length ?r")
    case False
    with assms show ?thesis
      by (auto simp: next_frame_def first_frame_def unread_def decoder_inv_def Let_def not_le not_less)
  next
    case True
    note h = h [OF True]
    show ?thesis
    proof (cases "Kind_try_from (?r ! 4)")
      case (Inl e)
      with assms True h show ?thesis
        by (auto simp: next_frame_def first_frame_def unread_def decoder_inv_def Let_def not_le not_less)
    next
      case (Inr k)
      define len where "len = unat (of_le_32 (drop 5 ?r))"
      have next_d: "next_frame d = (if len > MAX_PAYLOAD then Some (d, Inl (TooLarge len))
          else if length ?r < HEADER + len then Some (d, Inr None)
          else Some (d\<lparr>dec_start := dec_start d + (HEADER + len)\<rparr>,
            Inr (Some \<lparr>cf_channel = of_le_32 ?r, cf_kind = k, cf_payload = take len (drop HEADER ?r)\<rparr>)))"
        using assms True Inr unfolding next_frame_def Let_def h decoder_inv_def
        by (simp add: len_def not_less del: length_drop)
      have first_d: "first_frame ?r = (if len > MAX_PAYLOAD then Inl (TooLarge len)
          else if length ?r < HEADER + len then Inr None
          else Inr (Some (\<lparr>cf_channel = of_le_32 ?r, cf_kind = k, cf_payload = take len (drop HEADER ?r)\<rparr>, drop (HEADER + len) ?r)))"
        using True Inr by (simp add: first_frame_def len_def Let_def not_less del: length_drop)
      have "drop (HEADER + len) ?r = drop (dec_start d + (HEADER + len)) (dec_buffer d)"
        by (simp add: add.commute)
      then show ?thesis
        using assms True unfolding next_d unread_def first_d decoder_inv_def by auto
    qed
  qed
qed

lemma take_frames_view:
  assumes "decoder_inv d"
  shows "\<exists>d' fs e. take_frames d = (d', fs, e) \<and> decoder_inv d' \<and> all_frames (unread d) = (fs, unread d', e)"
  using assms
proof (induction d rule: take_frames.induct)
  case (1 d)
  from next_frame_view [OF 1(2)] obtain d' r where n: "next_frame d = Some (d', r)" "decoder_inv d'"
    "case r of Inl e \<Rightarrow> first_frame (unread d) = Inl e \<and> unread d' = unread d
     | Inr None \<Rightarrow> first_frame (unread d) = Inr None \<and> unread d' = unread d
     | Inr (Some f) \<Rightarrow> first_frame (unread d) = Inr (Some (f, unread d'))" by blast
  show ?case
  proof (cases r)
    case (Inl e)
    with n show ?thesis by (simp add: take_frames.simps [of d])
  next
    case (Inr m)
    show ?thesis
    proof (cases m)
      case None
      with Inr n show ?thesis by (simp add: take_frames.simps [of d])
    next
      case (Some f)
      with 1(1) [OF n(1) refl Inr Some n(2)] n Inr show ?thesis
        by (auto simp: take_frames.simps [of d])
    qed
  qed
qed

text \<open>More bytes never change a frame or an error already decided.\<close>

lemma first_frame_append:
  "first_frame p = Inl e \<Longrightarrow> first_frame (p @ x) = Inl e"
  "first_frame p = Inr (Some (f, r)) \<Longrightarrow> first_frame (p @ x) = Inr (Some (f, r @ x))"
proof -
  have h: "(p @ x) ! 4 = p ! 4" "of_le_32 (p @ x) = of_le_32 p"
    "of_le_32 (drop 5 (p @ x)) = of_le_32 (drop 5 p)" if "HEADER \<le> length p"
    using that by (auto simp: HEADER_def nth_append)
  show "first_frame p = Inl e \<Longrightarrow> first_frame (p @ x) = Inl e"
    using h by (auto simp: first_frame_def Let_def split: if_splits sum.splits)
  show "first_frame p = Inr (Some (f, r)) \<Longrightarrow> first_frame (p @ x) = Inr (Some (f, r @ x))"
    using h by (auto simp: first_frame_def Let_def split: if_splits sum.splits)
qed

lemma all_frames_append:
  "all_frames p = (fs, r, e) \<Longrightarrow> all_frames (p @ x) =
     (case e of Some e \<Rightarrow> (fs, r @ x, Some e) | None \<Rightarrow> (case all_frames (r @ x) of (gs, r', e') \<Rightarrow> (fs @ gs, r', e')))"
proof (induction p arbitrary: fs rule: all_frames.induct)
  case (1 p)
  show ?case
  proof (cases "first_frame p")
    case (Inl err)
    with 1(2) first_frame_append(1) [OF Inl, of x] show ?thesis
      by auto
  next
    case (Inr m)
    show ?thesis
    proof (cases m)
      case None
      with Inr 1(2) show ?thesis
        by (auto split: prod.splits)
    next
      case (Some fr)
      obtain f rest where fr: "fr = (f, rest)" by force
      obtain gs where gs: "all_frames rest = (gs, r, e)" "fs = f # gs"
        using 1(2) Inr Some fr by (auto split: prod.splits)
      from 1(1) [OF Inr Some fr [symmetric] gs(1)] gs(2) first_frame_append(2) [of p f rest x] Inr Some fr
      show ?thesis
        by (auto split: option.splits prod.splits)
    qed
  qed
qed

lemma feed_view:
  assumes "decoder_inv d" and "all_frames (unread d) = ([], unread d, None)" and "feed d cs = (d', fs, e)"
  shows "decoder_inv d' \<and> (case e of
      None \<Rightarrow> all_frames (unread d @ concat cs) = (fs, unread d', None)
    | Some e \<Rightarrow> \<exists>rest. all_frames (unread d @ concat cs) = (fs, rest, Some e))"
  using assms
proof (induction cs arbitrary: d fs)
  case (Cons c cs)
  let ?d = "Decoder_push d c"
  note push = Decoder_push_view [OF Cons.prems(1), of c]
  from take_frames_view [OF push(1)] obtain d1 fs1 e1 where
    t: "take_frames ?d = (d1, fs1, e1)" "decoder_inv d1" "all_frames (unread d @ c) = (fs1, unread d1, e1)"
    unfolding push(2) by blast
  show ?case
  proof (cases e1)
    case (Some err)
    with t Cons.prems(3) all_frames_append [OF t(3), of "concat cs"] show ?thesis by auto
  next
    case None
    obtain gs where f: "feed d1 cs = (d', gs, e)" "fs = fs1 @ gs"
      using Cons.prems(3) t(1) None by (auto split: prod.splits)
    have "all_frames (unread d1) = ([], unread d1, None)"
      using all_frames_append [OF t(3), of "[]"] t(3) None by (auto split: prod.splits)
    from Cons.IH [OF t(2) this f(1)] all_frames_append [OF t(3), of "concat cs"] None f(2)
    show ?thesis by (auto split: option.splits)
  qed
qed (simp split: option.split)

lemma first_frame_encoded:
  assumes "encode_frame c k p = Inr w"
  shows "first_frame (w @ rest) = Inr (Some (\<lparr>cf_channel = c, cf_kind = k, cf_payload = p\<rparr>, rest))"
proof -
  from assms have p: "length p < 2 ^ 32" "length p \<le> MAX_PAYLOAD"
    and w: "w = le_bytes_32 c @ [u8_of_Kind k] @ le_bytes_32 (of_nat (length p)) @ p"
    by (auto simp: encode_frame_def split: if_splits)
  have "unat (of_nat (length p) :: u32) = length p"
    using p(1) by (intro unat_of_nat_u32) simp
  moreover have "(w @ rest) ! 4 = u8_of_Kind k" by (simp add: w nth_append)
  moreover have "drop 5 (w @ rest) = le_bytes_32 (of_nat (length p)) @ p @ rest" by (simp add: w)
  moreover have d9: "drop 9 (w @ rest) = p @ rest" by (simp add: w)
  moreover have "drop (9 + length p) (w @ rest) = rest"
    by (metis add.commute append_eq_conv_conj d9 drop_drop)
  moreover have "length (w @ rest) = 9 + length p + length rest" "of_le_32 (w @ rest) = c" by (simp_all add: w)
  ultimately show ?thesis
    using p(2) by (simp only: first_frame_def Let_def HEADER_def) simp
qed

lemma all_frames_encoded:
  assumes "list_all2 (\<lambda>f w. encode_frame (cf_channel f) (cf_kind f) (cf_payload f) = Inr w) fs ws"
  shows "all_frames (concat ws @ rest) = (case all_frames rest of (gs, r, e) \<Rightarrow> (fs @ gs, r, e))"
  using assms
proof (induction rule: list_all2_induct)
  case (Cons f fs w ws)
  from first_frame_encoded [OF Cons(1), of "concat ws @ rest"] Cons(3) show ?case
    by (auto split: prod.splits)
qed (simp split: prod.split)

lemma all_frames_pending:
  "all_frames bs = (fs, r, None) \<Longrightarrow> first_frame r = Inr None"
proof (induction bs arbitrary: fs rule: all_frames.induct)
  case (1 bs)
  show ?case
  proof (cases "first_frame bs")
    case (Inr m)
    show ?thesis
    proof (cases m)
      case (Some fr)
      obtain f rest where fr: "fr = (f, rest)" by force
      with 1(2) Inr Some obtain gs where "all_frames rest = (gs, r, None)" by (auto split: prod.splits)
      from 1(1) [OF Inr Some fr [symmetric] this] show ?thesis .
    qed (use 1(2) Inr in auto)
  qed (use 1(2) in auto)
qed

lemma first_frame_None: "first_frame bs = Inr None \<Longrightarrow> length bs < HEADER + MAX_PAYLOAD"
  by (auto simp: first_frame_def Let_def split: if_splits sum.splits)

lemma feed_default:
  assumes "feed Decoder_default cs = (d, fs, e)"
  shows "decoder_inv d \<and> (case e of
      None \<Rightarrow> all_frames (concat cs) = (fs, unread d, None)
    | Some e \<Rightarrow> \<exists>rest. all_frames (concat cs) = (fs, rest, Some e))"
proof -
  have u: "unread Decoder_default = []" and i: "decoder_inv Decoder_default"
    by (simp_all add: unread_def Decoder_default_def decoder_inv_def)
  have "all_frames (unread Decoder_default) = ([], unread Decoder_default, None)"
    by (simp add: u first_frame_def HEADER_def)
  from feed_view [OF i this assms] show ?thesis by (simp only: u append_Nil)
qed

section \<open>Properties\<close>

text \<open>
  C3. Frames survive any cut of the stream: when the frames of a list are encoded one after another and
  the bytes arrive in whatever pieces, the decoder yields exactly those frames, in order, with no error
  and nothing left over.
\<close>

theorem frame_stream_round_trip:
  assumes "list_all2 (\<lambda>f w. encode_frame (cf_channel f) (cf_kind f) (cf_payload f) = Inr w) fs ws"
    and "concat pieces = concat ws"
  shows "\<exists>d. feed Decoder_default pieces = (d, fs, None) \<and> Decoder_pending d = 0"
proof -
  obtain d gs e where f: "feed Decoder_default pieces = (d, gs, e)" using prod_cases3 by blast
  have "first_frame [] = Inr None" by (simp add: first_frame_def HEADER_def)
  then have all: "all_frames (concat pieces) = (fs, [], None)"
    using all_frames_encoded [OF assms(1), of "[]"] by (simp add: assms(2))
  have "e = None" "gs = fs" "unread d = []"
    using feed_default [OF f] all by (auto split: option.splits)
  with f show ?thesis by (simp add: Decoder_pending_def unread_def)
qed

theorem frame_stream_round_trip_witness:
  "\<exists>d. feed Decoder_default [[7, 0, 0], [0, 1, 2, 0], [0, 0, 8, 9, 7], [0, 0, 0, 2, 0, 0, 0, 0]] =
     (d, [\<lparr>cf_channel = 7, cf_kind = Kind_Credit, cf_payload = [8, 9]\<rparr>,
          \<lparr>cf_channel = 7, cf_kind = Kind_Close, cf_payload = []\<rparr>], None) \<and> Decoder_pending d = 0"
  by (rule frame_stream_round_trip [where ws = "[[7, 0, 0, 0, 1, 2, 0, 0, 0, 8, 9], [7, 0, 0, 0, 2, 0, 0, 0, 0]]"])
    (simp_all add: encode_frame_def MAX_PAYLOAD_def le_bytes_32_def)

text \<open>
  What arrives is decoded as if it had arrived at once: the frames a decoder has yielded after any
  pieces are the whole frames of their concatenation, it fails exactly when that does and then with the
  same error, it never reads out of its buffer, and while it has not failed it waits on fewer bytes than
  one largest frame.
\<close>

theorem decoder_matches_stream:
  assumes "feed Decoder_default pieces = (d, fs, e)"
  shows "(\<exists>rest. all_frames (concat pieces) = (fs, rest, e)) \<and> next_frame d \<noteq> None \<and>
    (e = None \<longrightarrow> Decoder_pending d < HEADER + MAX_PAYLOAD)"
proof -
  note v = feed_default [OF assms]
  have "next_frame d \<noteq> None" using v next_frame_view [of d] by auto
  moreover have "Decoder_pending d < HEADER + MAX_PAYLOAD" if "e = None"
    using v that first_frame_None [OF all_frames_pending, of "concat pieces" fs "unread d"]
    by (simp add: Decoder_pending_def unread_def)
  ultimately show ?thesis using v by (auto split: option.splits)
qed

theorem decoder_matches_stream_witness:
  "\<exists>rest. all_frames (concat [[7, 0, 0, 0, 9, 0, 0], [0, 0]]) = ([], rest, Some (UnknownKind 9))"
proof -
  have p: "Decoder_push Decoder_default [7, 0, 0, 0, 9, 0, 0] = \<lparr>dec_buffer = [7, 0, 0, 0, 9, 0, 0], dec_start = 0\<rparr>"
    "Decoder_push \<lparr>dec_buffer = [7, 0, 0, 0, 9, 0, 0], dec_start = 0\<rparr> [0, 0]
      = \<lparr>dec_buffer = [7, 0, 0, 0, 9, 0, 0, 0, 0], dec_start = 0\<rparr>"
    by (simp_all add: Decoder_push_def Decoder_default_def)
  have "take_frames \<lparr>dec_buffer = [7, 0, 0, 0, 9, 0, 0], dec_start = 0\<rparr> =
      (\<lparr>dec_buffer = [7, 0, 0, 0, 9, 0, 0], dec_start = 0\<rparr>, [], None)"
    "take_frames \<lparr>dec_buffer = [7, 0, 0, 0, 9, 0, 0, 0, 0], dec_start = 0\<rparr> =
      (\<lparr>dec_buffer = [7, 0, 0, 0, 9, 0, 0, 0, 0], dec_start = 0\<rparr>, [], Some (UnknownKind 9))"
    by (subst take_frames.simps, simp add: next_frame_def HEADER_def Kind_try_from_def)+
  with p have "feed Decoder_default [[7, 0, 0, 0, 9, 0, 0], [0, 0]]
      = (\<lparr>dec_buffer = [7, 0, 0, 0, 9, 0, 0, 0, 0], dec_start = 0\<rparr>, [], Some (UnknownKind 9))" by simp
  from decoder_matches_stream [OF this] show ?thesis by blast
qed

text \<open>
  The spent part of the buffer never outweighs what is still unread: after every push at most half of
  the buffer is bytes already yielded.
\<close>

theorem push_compacts:
  assumes "dec_start d \<le> length (dec_buffer d)"
  shows "dec_start (Decoder_push d bytes) \<le> Decoder_pending (Decoder_push d bytes) \<and>
    Decoder_pending (Decoder_push d bytes) = Decoder_pending d + length bytes"
  using assms by (auto simp: Decoder_push_def Decoder_pending_def Let_def)

theorem push_compacts_witness:
  "Decoder_pending (Decoder_push \<lparr>dec_buffer = [1, 2, 3], dec_start = 2\<rparr> [4]) = 2"
  using push_compacts [of "\<lparr>dec_buffer = [1, 2, 3], dec_start = 2\<rparr>" "[4]"] by (simp add: Decoder_pending_def)

end
