(* ===== verification/Strings.thy ===== *)
theory Strings
  imports Prelude
begin

text \<open>
  The operations of Rust's \<open>str\<close> that the readers of text use. A \<open>str\<close> is the list of its characters' code
  points here, since these readers work on characters; \<open>str_len\<close> is its length in bytes.
\<close>

section \<open>Strings\<close>

type_synonym str = "scalar list"

definition chars :: "string \<Rightarrow> str" where
  "chars s = map of_char s"

definition str_len :: "str \<Rightarrow> nat" where
  "str_len s = sum_list (map (length \<circ> encode_utf8) s)"

text \<open>\<open>char::is_whitespace\<close>: the White_Space property.\<close>

definition is_whitespace :: "scalar \<Rightarrow> bool" where
  "is_whitespace c \<longleftrightarrow> (9 \<le> c \<and> c \<le> 13) \<or> c \<in> {32, 133, 160, 5760, 8232, 8233, 8239, 8287, 12288} \<or> (8192 \<le> c \<and> c \<le> 8202)"

definition trim :: "str \<Rightarrow> str" where
  "trim s = dropWhile is_whitespace (rev (dropWhile is_whitespace (rev s)))"

definition scalar_lower :: "scalar \<Rightarrow> scalar" where
  "scalar_lower c = (if 65 \<le> c \<and> c \<le> 90 then c + 32 else c)"

definition str_lower :: "str \<Rightarrow> str" where
  "str_lower s = map scalar_lower s"

fun split_once :: "scalar \<Rightarrow> str \<Rightarrow> (str \<times> str) option" where
  "split_once sep [] = None"
| "split_once sep (c # cs) = (if c = sep then Some ([], cs) else map_option (\<lambda>(a, b). (c # a, b)) (split_once sep cs))"

fun split_on :: "scalar \<Rightarrow> str \<Rightarrow> str list" where
  "split_on sep [] = [[]]"
| "split_on sep (c # cs) =
     (if c = sep then [] # split_on sep cs else case split_on sep cs of p # ps \<Rightarrow> (c # p) # ps | [] \<Rightarrow> [[c]])"

text \<open>\<open>split\<close> by a set of characters.\<close>

fun split_by :: "(scalar \<Rightarrow> bool) \<Rightarrow> str \<Rightarrow> str list" where
  "split_by sep [] = [[]]"
| "split_by sep (c # cs) =
     (if sep c then [] # split_by sep cs else case split_by sep cs of p # ps \<Rightarrow> (c # p) # ps | [] \<Rightarrow> [[c]])"

text \<open>\<open>trim_start_matches\<close>: the prefix is removed as long as it is there.\<close>

function trim_start_matches :: "str \<Rightarrow> str \<Rightarrow> str" where
  "trim_start_matches p s =
     (if p \<noteq> [] \<and> p = take (length p) s then trim_start_matches p (drop (length p) s) else s)"
  by pat_completeness auto
termination
proof (relation "measure (length \<circ> snd)")
  fix p s :: str
  assume "p \<noteq> [] \<and> p = take (length p) s"
  then have "s \<noteq> []" "0 < length p" by auto
  then show "((p, drop (length p) s), p, s) \<in> measure (length \<circ> snd)" by simp
qed simp

declare trim_start_matches.simps [simp del]

fun join :: "scalar \<Rightarrow> str list \<Rightarrow> str" where
  "join sep [] = []"
| "join sep [s] = s"
| "join sep (s # ss) = s @ sep # join sep ss"

definition ascii_digit :: "scalar \<Rightarrow> bool" where
  "ascii_digit c \<longleftrightarrow> 48 \<le> c \<and> c \<le> 57"

definition digits_value :: "str \<Rightarrow> nat" where
  "digits_value s = foldl (\<lambda>acc c. acc * 10 + (c - 48)) 0 s"

text \<open>\<open>str::parse\<close> for an unsigned integer up to \<open>limit\<close>: digits, after an optional plus sign.\<close>

definition parse_uint :: "nat \<Rightarrow> str \<Rightarrow> nat option" where
  "parse_uint limit s =
     (let digits = (case s of c # cs \<Rightarrow> if c = 43 then cs else s | [] \<Rightarrow> []) in
      if digits \<noteq> [] \<and> list_all ascii_digit digits \<and> digits_value digits \<le> limit then Some (digits_value digits) else None)"

section \<open>Lemmas\<close>

lemma digits_value_append: "digits_value (s @ [c]) = digits_value s * 10 + (c - 48)"
  by (simp add: digits_value_def)

lemma decimal_digits: "list_all ascii_digit (chars (decimal n)) \<and> digits_value (chars (decimal n)) = n \<and> decimal n \<noteq> []"
proof (induction n rule: decimal.induct)
  case (1 n)
  show ?case
  proof (cases "n < 10")
    case True
    then show ?thesis by (subst (1 2 3) decimal.simps) (simp add: chars_def ascii_digit_def digits_value_def)
  next
    case False
    have "n mod 10 < 10" by simp
    then have "ascii_digit (48 + n mod 10)" unfolding ascii_digit_def by linarith
    with 1 False show ?thesis
      by (subst (1 2 3) decimal.simps) (simp add: chars_def digits_value_append)
  qed
qed

lemma parse_uint_digits:
  "s \<noteq> [] \<Longrightarrow> list_all ascii_digit s \<Longrightarrow> parse_uint limit s = (if digits_value s \<le> limit then Some (digits_value s) else None)"
  by (cases s) (auto simp: parse_uint_def ascii_digit_def)

lemma parse_uint_decimal: "parse_uint limit (chars (decimal n)) = (if n \<le> limit then Some n else None)"
  using decimal_digits[of n] by (subst parse_uint_digits) (auto simp: chars_def)

lemma trim_id: "s \<noteq> [] \<Longrightarrow> \<not> is_whitespace (hd s) \<Longrightarrow> \<not> is_whitespace (last s) \<Longrightarrow> trim s = s"
proof -
  assume s: "s \<noteq> []" "\<not> is_whitespace (hd s)" "\<not> is_whitespace (last s)"
  then have "dropWhile is_whitespace (rev s) = rev s" "dropWhile is_whitespace s = s"
    by (simp_all add: dropWhile_eq_self_iff hd_rev)
  then show ?thesis by (simp add: trim_def)
qed

lemma digit_not_space: "ascii_digit c \<Longrightarrow> \<not> is_whitespace c"
  by (auto simp: ascii_digit_def is_whitespace_def)

lemma decimal_hd: "ascii_digit (hd (chars (decimal n) @ rest))" "chars (decimal n) \<noteq> []"
  using decimal_digits[of n] by (cases "chars (decimal n)"; auto simp: chars_def)+

lemma split_on_app: "sep \<notin> set s \<Longrightarrow> split_on sep (s @ sep # rest) = s # split_on sep rest"
  by (induction s) auto

lemma split_on_single: "sep \<notin> set s \<Longrightarrow> split_on sep s = [s]"
  by (induction s) auto

lemma split_on_join: "ss \<noteq> [] \<Longrightarrow> list_all (\<lambda>s. sep \<notin> set s) ss \<Longrightarrow> split_on sep (join sep ss) = ss"
  by (induction sep ss rule: join.induct) (auto simp: split_on_app split_on_single)

lemma split_once_None: "sep \<notin> set s \<Longrightarrow> split_once sep s = None"
  by (induction s) auto

lemma split_once_app: "sep \<notin> set s \<Longrightarrow> split_once sep (s @ sep # rest) = Some (s, rest)"
  by (induction s) auto

lemma split_by_app: "list_all (\<lambda>c. \<not> sep c) s \<Longrightarrow> sep d \<Longrightarrow> split_by sep (s @ d # rest) = s # split_by sep rest"
  by (induction s) auto

lemma split_by_single: "list_all (\<lambda>c. \<not> sep c) s \<Longrightarrow> split_by sep s = [s]"
  by (induction s) auto

end
