(* ===== verification/Core_Hello.thy ===== *)
theory Core_Hello
  imports Core_Frame Strings
begin

text \<open>
  The handshake with a core, \<open>crates/sheprd-core-client/src/hello.rs\<close>, and the methods a core offers,
  \<open>method.rs\<close>: which generation, release and methods this client accepts.
\<close>

section \<open>Methods\<close>

datatype CoreMethod =
  M_DocGet | M_DocSet | M_EventsSubscribe | M_Hello | M_TerminalAttach | M_TerminalKill | M_TerminalList | M_TerminalRun

definition CoreMethod_ALL :: "CoreMethod list" where
  "CoreMethod_ALL = [M_DocGet, M_DocSet, M_EventsSubscribe, M_Hello, M_TerminalAttach, M_TerminalKill, M_TerminalList, M_TerminalRun]"

fun method_as_str :: "CoreMethod \<Rightarrow> str" where
  "method_as_str M_DocGet = chars ''doc.get''"
| "method_as_str M_DocSet = chars ''doc.set''"
| "method_as_str M_EventsSubscribe = chars ''events.subscribe''"
| "method_as_str M_Hello = chars ''hello''"
| "method_as_str M_TerminalAttach = chars ''terminal.attach''"
| "method_as_str M_TerminalKill = chars ''terminal.kill''"
| "method_as_str M_TerminalList = chars ''terminal.list''"
| "method_as_str M_TerminalRun = chars ''terminal.run''"

fun method_required :: "CoreMethod \<Rightarrow> bool" where
  "method_required M_Hello = False"
| "method_required _ = True"

section \<open>The handshake\<close>

definition GENERATION :: u32 where "GENERATION = 1"
definition MIN_VERSION :: str where "MIN_VERSION = chars ''0.1.13''"

record CoreInfo =
  ci_id :: str
  ci_name :: str

record Hello =
  he_core :: CoreInfo
  he_features :: "str list"
  he_framed :: bool
  he_generation :: u32
  he_methods :: "str list"
  he_version :: str

datatype Mismatch = Missing "CoreMethod list" | Newer u32 | TooOld str

text \<open>\<open>version\<close>: the first three numbers, and the order of arrays.\<close>

definition version_sep :: "scalar \<Rightarrow> bool" where
  "version_sep c \<longleftrightarrow> c \<in> {46, 45, 43}"

definition version :: "str \<Rightarrow> nat list" where
  "version s =
     (let parts = map (\<lambda>part. case parse_uint (2 ^ 64 - 1) part of None \<Rightarrow> 0 | Some n \<Rightarrow> n)
        (split_by version_sep (trim_start_matches (chars ''hc '') (trim s))) in
      take 3 (parts @ [0, 0, 0]))"

fun array_less :: "nat list \<Rightarrow> nat list \<Rightarrow> bool" where
  "array_less (a # as) (b # bs) = (a < b \<or> a = b \<and> array_less as bs)"
| "array_less as bs = (as = [] \<and> bs \<noteq> [])"

definition Hello_check :: "Hello \<Rightarrow> (unit, Mismatch) result" where
  "Hello_check self =
     (if he_generation self > GENERATION then Inl (Newer (he_generation self))
      else if he_generation self < GENERATION \<or> array_less (version (he_version self)) (version MIN_VERSION)
      then Inl (TooOld (he_version self))
      else
        let missing = filter (\<lambda>method. method_required method \<and> \<not> list_ex (\<lambda>name. name = method_as_str method) (he_methods self))
          CoreMethod_ALL in
        if missing = [] then Inr () else Inl (Missing missing))"

section \<open>Lemmas\<close>

definition release :: "nat \<Rightarrow> nat \<Rightarrow> nat \<Rightarrow> str" where
  "release a b c = chars (decimal a) @ 46 # chars (decimal b) @ 46 # chars (decimal c)"

lemma digits_no_sep: "list_all (\<lambda>c. \<not> version_sep c) (chars (decimal n))"
proof -
  have "\<not> version_sep c" if "ascii_digit c" for c using that by (auto simp: ascii_digit_def version_sep_def)
  with decimal_digits[of n] show ?thesis by (auto simp: list_all_iff)
qed

lemma digits_no_prefix:
  assumes "ascii_digit (hd s)" "s \<noteq> []"
  shows "trim_start_matches (chars ''hc '') s = s"
proof -
  have "hd s \<noteq> 104" using assms(1) by (simp add: ascii_digit_def)
  with assms(2) have "chars ''hc '' \<noteq> take (length (chars ''hc '')) s" by (cases s) (auto simp: chars_def)
  then show ?thesis by (subst trim_start_matches.simps) simp
qed

lemma strip_hc:
  assumes "ascii_digit (hd s)" "s \<noteq> []"
  shows "trim_start_matches (chars ''hc '') (chars ''hc '' @ s) = s"
  using digits_no_prefix[OF assms] by (subst trim_start_matches.simps) (simp add: chars_def)

lemma release_hd: "ascii_digit (hd (release a b c @ suffix))" "release a b c \<noteq> []"
  using decimal_hd(1)[of a "46 # chars (decimal b) @ 46 # chars (decimal c) @ suffix"] by (simp_all add: release_def)

text \<open>The parts of a release, whatever suffix follows.\<close>

lemma release_parts:
  assumes "suffix = [] \<or> version_sep (hd suffix)"
  shows "\<exists>rest. split_by version_sep (release a b c @ suffix) = chars (decimal a) # chars (decimal b) # chars (decimal c) # rest"
proof -
  have dot: "version_sep 46" by (simp add: version_sep_def)
  have tail: "\<exists>rest. split_by version_sep (chars (decimal c) @ suffix) = chars (decimal c) # rest"
  proof (cases suffix)
    case Nil
    then show ?thesis by (simp add: split_by_single digits_no_sep)
  next
    case (Cons d ds)
    with assms show ?thesis by (simp add: split_by_app digits_no_sep)
  qed
  then show ?thesis by (auto simp: release_def split_by_app[OF digits_no_sep dot])
qed

lemma version_release:
  assumes "prefix = [] \<or> prefix = chars ''hc ''" "suffix = [] \<or> version_sep (hd suffix) \<and> \<not> is_whitespace (last suffix)"
    and "a < 2 ^ 64" "b < 2 ^ 64" "c < 2 ^ 64"
  shows "version (prefix @ release a b c @ suffix) = [a, b, c]"
proof -
  let ?s = "release a b c @ suffix"
  have hd: "ascii_digit (hd ?s)" "?s \<noteq> []" using release_hd[of a b c] by auto
  have "ascii_digit (last (release a b c))"
    using decimal_digits[of c] by (auto simp: release_def list_all_iff chars_def last_map)
  then have "\<not> is_whitespace (last ?s)" using assms(2) by (cases suffix) (auto simp: digit_not_space)
  moreover have "\<not> is_whitespace (hd (prefix @ ?s))"
    using assms(1) digit_not_space[OF hd(1)] by (elim disjE) (simp_all add: chars_def is_whitespace_def)
  ultimately have "trim (prefix @ ?s) = prefix @ ?s" using hd(2) by (intro trim_id) (simp_all only: last_append if_False append_is_Nil_conv simp_thms)
  moreover have "trim_start_matches (chars ''hc '') (prefix @ ?s) = ?s"
    using assms(1) digits_no_prefix[OF hd] strip_hc[OF hd] by auto
  moreover obtain rest where "split_by version_sep ?s = chars (decimal a) # chars (decimal b) # chars (decimal c) # rest"
    using release_parts assms(2) by blast
  ultimately show ?thesis using assms(3-) by (simp add: version_def Let_def parse_uint_decimal)
qed

section \<open>Properties\<close>

text \<open>
  Which cores are accepted: one whose version is a release, with or without the program's name before it
  and a suffix after it, is refused as newer past generation 1, as too old below generation 1 or below
  release 0.1.13, and otherwise for exactly the required methods it does not offer, if any.
\<close>

theorem hello_check_exact:
  assumes "he_version hello = prefix @ release a b c @ suffix" "prefix = [] \<or> prefix = chars ''hc ''"
    and "suffix = [] \<or> version_sep (hd suffix) \<and> \<not> is_whitespace (last suffix)"
    and "a < 2 ^ 64" "b < 2 ^ 64" "c < 2 ^ 64"
  shows "(Hello_check hello = Inl (Newer (he_generation hello)) \<longleftrightarrow> he_generation hello > 1) \<and>
    (Hello_check hello = Inl (TooOld (he_version hello)) \<longleftrightarrow>
       he_generation hello = 0 \<or> he_generation hello = 1 \<and> a = 0 \<and> (b = 0 \<or> b = 1 \<and> c < 13)) \<and>
    (Hello_check hello = Inr () \<longleftrightarrow>
       he_generation hello = 1 \<and> (a > 0 \<or> b > 1 \<or> b = 1 \<and> c \<ge> 13) \<and>
       (\<forall>m. m \<noteq> M_Hello \<longrightarrow> method_as_str m \<in> set (he_methods hello))) \<and>
    (\<forall>ms. Hello_check hello = Inl (Missing ms) \<longrightarrow>
       ms \<noteq> [] \<and> set ms = {m. m \<noteq> M_Hello \<and> method_as_str m \<notin> set (he_methods hello)})"
proof -
  have "version (he_version hello) = [a, b, c]" unfolding assms(1) by (rule version_release[OF assms(2-)])
  moreover have "version MIN_VERSION = [0, 1, 13]"
    using version_release[of "[]" "[]" 0 1 13]
    by (simp add: MIN_VERSION_def release_def chars_def decimal.simps)
  ultimately have old: "array_less (version (he_version hello)) (version MIN_VERSION) \<longleftrightarrow> a = 0 \<and> (b = 0 \<or> b = 1 \<and> c < 13)"
    by auto
  let ?gap = "\<lambda>m. method_required m \<and> \<not> list_ex (\<lambda>name. name = method_as_str m) (he_methods hello)"
  let ?missing = "filter ?gap CoreMethod_ALL"
  have all: "m \<in> set CoreMethod_ALL" for m by (cases m) (simp_all add: CoreMethod_ALL_def)
  have req: "method_required m \<longleftrightarrow> m \<noteq> M_Hello" for m by (cases m) simp_all
  have missing: "set ?missing = {m. m \<noteq> M_Hello \<and> method_as_str m \<notin> set (he_methods hello)}"
    using all by (auto simp: req list_ex_iff)
  then have none: "?missing = [] \<longleftrightarrow> (\<forall>m. m \<noteq> M_Hello \<longrightarrow> method_as_str m \<in> set (he_methods hello))"
    by (metis (mono_tags, lifting) empty_Collect_eq set_empty)
  have gen: "he_generation hello > GENERATION \<longleftrightarrow> he_generation hello > 1"
    "he_generation hello < GENERATION \<longleftrightarrow> he_generation hello = 0"
    by (auto simp: GENERATION_def word_gt_0)
  have one: "he_generation hello = 1 \<longleftrightarrow> \<not> he_generation hello > 1 \<and> he_generation hello \<noteq> 0"
    using gen(2)[unfolded GENERATION_def] by (cases "he_generation hello" "1 :: u32" rule: linorder_cases) auto
  have check: "Hello_check hello = (if he_generation hello > 1 then Inl (Newer (he_generation hello))
      else if he_generation hello = 0 \<or> a = 0 \<and> (b = 0 \<or> b = 1 \<and> c < 13) then Inl (TooOld (he_version hello))
      else if ?missing = [] then Inr () else Inl (Missing ?missing))"
    unfolding Hello_check_def Let_def gen old ..
  have release: "\<not> (a = 0 \<and> (b = 0 \<or> b = 1 \<and> c < 13)) \<longleftrightarrow> a > 0 \<or> b > 1 \<or> b = 1 \<and> c \<ge> 13" by auto
  show ?thesis
    unfolding check one none[symmetric] missing[symmetric]
    using release by (auto simp del: filter_empty_conv set_filter)
qed

definition demo_hello :: Hello where
  "demo_hello = \<lparr>he_core = \<lparr>ci_id = [], ci_name = []\<rparr>, he_features = [], he_framed = True, he_generation = 1,
     he_methods = map method_as_str [M_DocGet, M_TerminalRun], he_version = chars ''hc '' @ release 0 2 0 @ chars ''-beta''\<rparr>"

theorem hello_check_exact_witness:
  "he_version demo_hello = chars ''hc '' @ release 0 2 0 @ chars ''-beta'' \<and> version_sep (hd (chars ''-beta'')) \<and>
   \<not> is_whitespace (last (chars ''-beta'')) \<and> \<not> (Hello_check demo_hello = Inr ())"
proof -
  have v: "he_version demo_hello = chars ''hc '' @ release 0 2 0 @ chars ''-beta''" by (simp add: demo_hello_def)
  have s: "version_sep (hd (chars ''-beta''))" "\<not> is_whitespace (last (chars ''-beta''))"
    by (simp_all add: chars_def version_sep_def is_whitespace_def)
  have "M_DocSet \<noteq> M_Hello \<and> method_as_str M_DocSet \<notin> set (he_methods demo_hello)" by (simp add: demo_hello_def chars_def)
  moreover have "Hello_check demo_hello = Inr () \<longrightarrow>
      (\<forall>m. m \<noteq> M_Hello \<longrightarrow> method_as_str m \<in> set (he_methods demo_hello))"
    using hello_check_exact[OF v] s by simp
  ultimately show ?thesis using v s by blast
qed

end
