(* ===== verification/Core_Stream.thy ===== *)
theory Core_Stream
  imports Core_Hello
begin

text \<open>
  Stream channels of the core connection, \<open>crates/sheprd-core-client/src/stream.rs\<close>, and the line
  splitter of \<open>event.rs\<close>. An inbox is only touched under its lock, so its operations are atomic steps and
  every interleaving of the connection worker and the reader is a sequence of them; the wait inside
  \<open>take\<close> changes nothing. The queue to the socket writer is the argument \<open>queue\<close>: given the frames queued
  before, it takes the next or refuses it.
\<close>

section \<open>Lines\<close>

definition MAX_LINE :: nat where
  "MAX_LINE = MAX_PAYLOAD"

text \<open>The errors of \<open>crates/sheprd-backend/src/error.rs\<close>.\<close>

datatype BackendError = EmptySize | EmptyTerminalId | InvalidTerminalId | LargeSize u16 u16

text \<open>The errors of \<open>error.rs\<close> that connections and streams give; those of a library carry its message.\<close>

datatype CoreError =
    CE_Backend BackendError | CE_Busy | CE_Compat Mismatch | CE_Frame FrameError | CE_Invalid CoreMethod string | CE_Io string | CE_Json string | CE_Lost
  | CE_LongHello nat | CE_LongLine nat | CE_PastCredit | CE_Unframed
  | CE_Refused CoreMethod "str option" str | CE_Timeout CoreMethod

text \<open>\<open>split_inclusive\<close> at newlines.\<close>

fun split_inclusive :: "bytes \<Rightarrow> bytes list" where
  "split_inclusive [] = []"
| "split_inclusive (b # bs) =
     (if b = 10 then [b] # split_inclusive bs
      else case split_inclusive bs of [] \<Rightarrow> [[b]] | p # ps \<Rightarrow> (b # p) # ps)"

definition is_ascii_whitespace :: "u8 \<Rightarrow> bool" where
  "is_ascii_whitespace b \<longleftrightarrow> b \<in> {9, 10, 12, 13, 32}"

text \<open>The loop of \<open>Lines::push\<close>: the partial line afterwards and the lines, or the error.\<close>

fun push_pieces :: "bytes \<Rightarrow> bytes list \<Rightarrow> (bytes \<times> bytes list, CoreError) result" where
  "push_pieces partial [] = Inr (partial, [])"
| "push_pieces partial (piece # pieces) =
     (let partial = partial @ piece in
      if length partial > MAX_LINE + 1 then Inl (CE_LongLine MAX_LINE)
      else if partial \<noteq> [] \<and> last partial = 10 then
        let line = butlast partial in
        and_then (push_pieces [] pieces) (\<lambda>(partial, lines).
          Inr (partial, if list_all is_ascii_whitespace line then lines else line # lines))
      else push_pieces partial pieces)"

definition Lines_push :: "bytes \<Rightarrow> bytes \<Rightarrow> (bytes \<times> bytes list, CoreError) result" where
  "Lines_push partial bytes = push_pieces partial (split_inclusive bytes)"

text \<open>The lines of several reads.\<close>

fun push_reads :: "bytes \<Rightarrow> bytes list \<Rightarrow> (bytes \<times> bytes list, CoreError) result" where
  "push_reads partial [] = Inr (partial, [])"
| "push_reads partial (r # rs) =
     and_then (Lines_push partial r) (\<lambda>(partial, lines).
       and_then (push_reads partial rs) (\<lambda>(partial, lines'). Inr (partial, lines @ lines')))"

text \<open>The reference: a line ends at each newline, byte by byte.\<close>

fun lines_bytes :: "bytes \<Rightarrow> bytes \<Rightarrow> (bytes \<times> bytes list, CoreError) result" where
  "lines_bytes partial [] = Inr (partial, [])"
| "lines_bytes partial (b # bs) =
     (if length partial + 1 > MAX_LINE + 1 then Inl (CE_LongLine MAX_LINE)
      else if b = 10 then
        and_then (lines_bytes [] bs) (\<lambda>(rest, lines).
          Inr (rest, if list_all is_ascii_whitespace partial then lines else partial # lines))
      else lines_bytes (partial @ [b]) bs)"

section \<open>Inboxes\<close>

definition MAX_BUFFERED :: nat where
  "MAX_BUFFERED = 8 * 1048576"

record Closed =
  cl_exit_code :: "int option"
  cl_reason :: "string option"

datatype End = End_Closed Closed | End_Lost

definition Closed_parse :: "(bytes \<Rightarrow> (Closed, string) result) \<Rightarrow> bytes \<Rightarrow> Closed" where
  "Closed_parse from_slice payload =
     (if payload = [] then \<lparr>cl_exit_code = None, cl_reason = None\<rparr>
      else case from_slice payload of Inl _ \<Rightarrow> \<lparr>cl_exit_code = None, cl_reason = None\<rparr> | Inr c \<Rightarrow> c)"

record Chunk =
  ch_bytes :: bytes
  ch_end :: "End option"

record Inbox =
  in_bytes :: bytes
  in_end :: "End option"
  in_taken_end :: bool

definition Inbox_default :: Inbox where
  "Inbox_default = \<lparr>in_bytes = [], in_end = None, in_taken_end = False\<rparr>"

definition Route_push :: "Inbox \<Rightarrow> bytes \<Rightarrow> Inbox \<times> (unit, CoreError) result" where
  "Route_push inbox bytes =
     (if in_end inbox \<noteq> None then (inbox, Inr ())
      else if length (in_bytes inbox) + length bytes > MAX_BUFFERED then (inbox, Inl CE_PastCredit)
      else (inbox\<lparr>in_bytes := in_bytes inbox @ bytes\<rparr>, Inr ()))"

definition Route_end :: "Inbox \<Rightarrow> End \<Rightarrow> Inbox" where
  "Route_end inbox end = (case in_end inbox of None \<Rightarrow> inbox\<lparr>in_end := Some end\<rparr> | Some _ \<Rightarrow> inbox)"

definition Route_take :: "Inbox \<Rightarrow> Inbox \<times> Chunk" where
  "Route_take inbox =
     (let end = (if in_taken_end inbox then None else in_end inbox) in
      (inbox\<lparr>in_bytes := [], in_taken_end := in_taken_end inbox \<or> end \<noteq> None\<rparr>,
       \<lparr>ch_bytes = in_bytes inbox, ch_end = end\<rparr>))"

section \<open>Streams\<close>

type_synonym out_queue = "bytes list \<Rightarrow> bytes \<Rightarrow> CoreError option"

definition Link_send ::
  "out_queue \<Rightarrow> bytes list \<Rightarrow> u32 \<Rightarrow> Kind \<Rightarrow> bytes \<Rightarrow> bytes list \<times> (unit, CoreError) result" where
  "Link_send queue sent channel kind payload =
     (case encode_frame channel kind payload of
        Inl e \<Rightarrow> (sent, Inl (CE_Frame e))
      | Inr frame \<Rightarrow> (case queue sent frame of Some e \<Rightarrow> (sent, Inl e) | None \<Rightarrow> (sent @ [frame], Inr ())))"

definition Stream_read ::
  "out_queue \<Rightarrow> u32 \<Rightarrow> Inbox \<Rightarrow> bytes list \<Rightarrow> Inbox \<times> bytes list \<times> (Chunk, CoreError) result" where
  "Stream_read queue channel inbox sent =
     (let (inbox, chunk) = Route_take inbox; credit = length (ch_bytes chunk) in
      if credit < 2 ^ 32 \<and> credit > 0 \<and> ch_end chunk = None then
        (case Link_send queue sent channel Kind_Credit (le_bytes_32 (of_nat credit)) of
           (sent, Inl e) \<Rightarrow> (inbox, sent, Inl e)
         | (sent, Inr _) \<Rightarrow> (inbox, sent, Inr chunk))
      else (inbox, sent, Inr chunk))"

text \<open>\<open>slice::chunks\<close>.\<close>

function chunks :: "nat \<Rightarrow> bytes \<Rightarrow> bytes list" where
  "chunks n bs = (if bs = [] \<or> n = 0 then [] else take n bs # chunks n (drop n bs))"
  by pat_completeness auto
termination by (relation "measure (\<lambda>(n, bs). length bs)") auto

declare chunks.simps [simp del]

fun send_chunks :: "out_queue \<Rightarrow> u32 \<Rightarrow> bytes list \<Rightarrow> bytes list \<Rightarrow> bytes list \<times> (unit, CoreError) result" where
  "send_chunks queue channel sent [] = (sent, Inr ())"
| "send_chunks queue channel sent (c # cs) =
     (case Link_send queue sent channel Kind_Data c of
        (sent, Inl e) \<Rightarrow> (sent, Inl e)
      | (sent, Inr _) \<Rightarrow> send_chunks queue channel sent cs)"

definition Attachment_write :: "out_queue \<Rightarrow> u32 \<Rightarrow> bytes list \<Rightarrow> bytes \<Rightarrow> bytes list \<times> (unit, CoreError) result" where
  "Attachment_write queue channel sent bytes = send_chunks queue channel sent (chunks MAX_PAYLOAD bytes)"

definition Attachment_resize :: "out_queue \<Rightarrow> u32 \<Rightarrow> bytes list \<Rightarrow> u16 \<Rightarrow> u16 \<Rightarrow> bytes list \<times> (unit, CoreError) result" where
  "Attachment_resize queue channel sent cols rows =
     Link_send queue sent channel Kind_Resize (le_bytes_16 cols @ le_bytes_16 rows)"

definition Attachment_focus :: "out_queue \<Rightarrow> u32 \<Rightarrow> bytes list \<Rightarrow> bool \<Rightarrow> bytes list \<times> (unit, CoreError) result" where
  "Attachment_focus queue channel sent focused =
     Link_send queue sent channel Kind_Focus [if focused then 1 else 0]"

section \<open>Interleavings\<close>

text \<open>
  The steps on one inbox, in the order the lock serializes them: the worker parks bytes or an end, the
  reader takes. A push past the credit ends the connection.
\<close>

datatype RouteOp = Op_Push bytes | Op_End End | Op_Take

fun route_run :: "Inbox \<Rightarrow> RouteOp list \<Rightarrow> (Inbox \<times> Chunk list, CoreError) result" where
  "route_run inbox [] = Inr (inbox, [])"
| "route_run inbox (Op_Push bytes # ops) =
     (case Route_push inbox bytes of (inbox, Inl e) \<Rightarrow> Inl e | (inbox, Inr _) \<Rightarrow> route_run inbox ops)"
| "route_run inbox (Op_End e # ops) = route_run (Route_end inbox e) ops"
| "route_run inbox (Op_Take # ops) =
     (let (inbox, chunk) = Route_take inbox in
      and_then (route_run inbox ops) (\<lambda>(inbox, chunks). Inr (inbox, chunk # chunks)))"

text \<open>What was pushed before the first end, and that end.\<close>

fun pushed :: "RouteOp list \<Rightarrow> bytes" where
  "pushed [] = []"
| "pushed (Op_Push bytes # ops) = bytes @ pushed ops"
| "pushed (Op_End e # ops) = []"
| "pushed (Op_Take # ops) = pushed ops"

fun first_end :: "RouteOp list \<Rightarrow> End option" where
  "first_end [] = None"
| "first_end (Op_End e # ops) = Some e"
| "first_end (_ # ops) = first_end ops"

section \<open>Lemmas\<close>

lemma lines_bytes_append:
  "lines_bytes partial (a @ b) = and_then (lines_bytes partial a) (\<lambda>(p, ls).
     and_then (lines_bytes p b) (\<lambda>(p', ls'). Inr (p', ls @ ls')))"
proof (induction a arbitrary: partial)
  case Nil
  show ?case by (cases "lines_bytes partial b") auto
next
  case (Cons x a)
  show ?case
  proof (cases "lines_bytes [] a")
    case (Inr r)
    then show ?thesis using Cons.IH by (cases r; cases "lines_bytes (fst r) b") auto
  qed (use Cons.IH in auto)
qed

lemma push_pieces_long:
  "length partial > MAX_LINE + 1 \<Longrightarrow> p \<noteq> [] \<Longrightarrow> push_pieces partial (p # ps) = Inl (CE_LongLine MAX_LINE)"
  by simp

text \<open>A piece that ends without a newline can be joined with the bytes that follow it.\<close>

lemma push_split_cons:
  assumes "b \<noteq> 10" and "length partial < MAX_LINE + 1"
  shows "push_pieces partial (split_inclusive (b # bs)) = push_pieces (partial @ [b]) (split_inclusive bs)"
proof (cases "split_inclusive bs")
  case Nil
  with assms show ?thesis by simp
next
  case (Cons p ps)
  with assms show ?thesis by (simp only: split_inclusive.simps if_False list.case push_pieces.simps append_assoc append_Cons append_Nil Let_def)
qed

lemma split_inclusive_ne: "bs \<noteq> [] \<Longrightarrow> \<exists>p ps. split_inclusive bs = p # ps \<and> p \<noteq> []"
  by (induction bs) (auto split: list.splits)

lemma Lines_push_bytes:
  "length partial \<le> MAX_LINE + 1 \<Longrightarrow> Lines_push partial bs = lines_bytes partial bs"
proof (induction bs arbitrary: partial)
  case (Cons b bs)
  show ?case
  proof (cases "length partial < MAX_LINE + 1")
    case False
    with split_inclusive_ne [of "b # bs"] obtain p ps where "split_inclusive (b # bs) = p # ps" "p \<noteq> []" by auto
    with False show ?thesis by (cases p) (simp_all add: Lines_push_def)
  next
    case True
    show ?thesis
    proof (cases "b = 10")
      case nl: True
      have "lines_bytes [] bs = push_pieces [] (split_inclusive bs)"
        using Cons.IH [of "[]"] by (simp add: Lines_push_def)
      with nl True show ?thesis by (simp add: Lines_push_def)
    next
      case False
      with True push_split_cons [OF False True, of bs] Cons.IH [of "partial @ [b]"] show ?thesis
        by (simp add: Lines_push_def)
    qed
  qed
qed (simp add: Lines_push_def)

lemma lines_bytes_partial: "lines_bytes partial bs = Inr (p, ls) \<Longrightarrow> length partial \<le> MAX_LINE + 1 \<Longrightarrow> length p \<le> MAX_LINE + 1"
  by (induction bs arbitrary: partial p ls) (auto split: if_splits)

lemma push_reads_bytes:
  "length partial \<le> MAX_LINE + 1 \<Longrightarrow> push_reads partial rs = lines_bytes partial (concat rs)"
proof (induction rs arbitrary: partial)
  case (Cons r rs)
  show ?case
  proof (cases "lines_bytes partial r")
    case (Inr x)
    obtain p ls where x: "x = (p, ls)" by force
    with Inr Cons.prems have "length p \<le> MAX_LINE + 1" by (auto dest: lines_bytes_partial)
    with Cons.IH [of p] Cons.prems Inr x show ?thesis by (simp add: Lines_push_bytes lines_bytes_append)
  qed (use Cons.prems in \<open>simp add: Lines_push_bytes lines_bytes_append\<close>)
qed simp

lemma lines_bytes_short:
  "lines_bytes partial bs = Inr (p, ls) \<Longrightarrow> \<forall>l \<in> set ls. length l \<le> MAX_LINE \<and> \<not> list_all is_ascii_whitespace l"
  by (induction bs arbitrary: partial p ls) (auto split: if_splits)

text \<open>An inbox whose end was taken stays silent.\<close>

definition inbox_inv :: "Inbox \<Rightarrow> bool" where
  "inbox_inv b \<longleftrightarrow> length (in_bytes b) \<le> MAX_BUFFERED \<and> (in_taken_end b \<longrightarrow> in_end b \<noteq> None \<and> in_bytes b = [])"

definition silent :: Chunk where
  "silent = \<lparr>ch_bytes = [], ch_end = None\<rparr>"

lemma route_run_inv: "route_run b ops = Inr (b', cs) \<Longrightarrow> inbox_inv b \<Longrightarrow> inbox_inv b'"
proof (induction b ops arbitrary: cs rule: route_run.induct)
  case (2 b bytes ops)
  then show ?case
    by (auto simp: Route_push_def inbox_inv_def split: if_splits)
next
  case (3 b e ops)
  then show ?case by (auto simp: Route_end_def inbox_inv_def split: option.splits)
next
  case (4 b ops)
  then show ?case by (auto simp: Route_take_def inbox_inv_def Let_def)
qed simp

lemma route_run_silent:
  "route_run b ops = Inr (b', cs) \<Longrightarrow> in_taken_end b \<Longrightarrow> in_end b \<noteq> None \<Longrightarrow> in_bytes b = [] \<Longrightarrow> \<forall>c \<in> set cs. c = silent"
proof (induction b ops arbitrary: cs rule: route_run.induct)
  case (2 b bytes ops)
  then show ?case by (auto simp: Route_push_def)
next
  case (3 b e ops)
  then show ?case by (auto simp: Route_end_def split: option.splits)
next
  case (4 b ops)
  then show ?case by (auto simp: Route_take_def Let_def silent_def)
qed simp

definition still :: "Inbox \<Rightarrow> RouteOp list \<Rightarrow> bytes" where
  "still b ops = in_bytes b @ (if in_end b = None then pushed ops else [])"

definition ending :: "Inbox \<Rightarrow> RouteOp list \<Rightarrow> End option" where
  "ending b ops = (case in_end b of None \<Rightarrow> first_end ops | Some e \<Rightarrow> Some e)"

lemma route_run_delivers:
  "route_run b ops = Inr (b', cs) \<Longrightarrow> inbox_inv b \<Longrightarrow>
     concat (map ch_bytes cs) @ in_bytes b' = still b ops \<and>
     (\<forall>i < length cs. ch_end (cs ! i) \<noteq> None \<longrightarrow> ch_end (cs ! i) = ending b ops \<and>
        concat (map ch_bytes (take (Suc i) cs)) = still b ops \<and> (\<forall>c \<in> set (drop (Suc i) cs). c = silent))"
proof (induction b ops arbitrary: cs rule: route_run.induct)
  case (1 b)
  then show ?case by (simp add: still_def)
next
  case (2 b bytes ops)
  let ?b = "fst (Route_push b bytes)"
  from 2(2) have r: "Route_push b bytes = (?b, Inr ())" "route_run ?b ops = Inr (b', cs)"
    by (auto split: prod.splits sum.splits)
  have "inbox_inv ?b" "still ?b ops = still b (Op_Push bytes # ops)" "ending ?b ops = ending b (Op_Push bytes # ops)"
    using 2(3) r(1) by (auto simp: Route_push_def inbox_inv_def still_def ending_def split: if_splits option.splits)
  with 2(1) [OF r(1) [symmetric] refl r(2)] show ?case by simp
next
  case (3 b e ops)
  have "inbox_inv (Route_end b e)" "still (Route_end b e) ops = still b (Op_End e # ops)"
    "ending (Route_end b e) ops = ending b (Op_End e # ops)"
    using 3(3) by (auto simp: Route_end_def inbox_inv_def still_def ending_def split: option.splits)
  with 3 show ?case by simp
next
  case (4 b ops)
  obtain b1 c where t: "Route_take b = (b1, c)" by force
  with 4(2) obtain cs1 where r: "route_run b1 ops = Inr (b', cs1)" and cs: "cs = c # cs1" by auto
  have b1: "inbox_inv b1" "in_bytes b1 = []" "in_end b1 = in_end b" "ch_bytes c = in_bytes b"
    using t 4(3) by (auto simp: Route_take_def inbox_inv_def Let_def)
  have st: "still b (Op_Take # ops) = ch_bytes c @ still b1 ops" and en: "ending b (Op_Take # ops) = ending b1 ops"
    using b1 by (simp_all add: still_def ending_def split: option.split)
  note ih = 4(1) [OF t [symmetric] refl r b1(1)]
  have head: "ch_end c = ending b1 ops \<and> still b1 ops = [] \<and> (\<forall>x \<in> set cs1. x = silent)" if "ch_end c \<noteq> None"
  proof -
    from t that have x: "ch_end c = in_end b" "in_taken_end b1" "in_end b \<noteq> None"
      by (auto simp: Route_take_def Let_def split: if_splits)
    with b1 route_run_silent [OF r] show ?thesis by (auto simp: ending_def still_def)
  qed
  have "ch_end (cs ! i) = ending b1 ops \<and> concat (map ch_bytes (take (Suc i) cs)) = ch_bytes c @ still b1 ops \<and>
      (\<forall>c \<in> set (drop (Suc i) cs). c = silent)" if "i < length cs" "ch_end (cs ! i) \<noteq> None" for i
    using that head ih unfolding cs by (cases i) auto
  with ih show ?case unfolding st en cs by simp
qed

section \<open>Properties\<close>

text \<open>
  Lines are the same however the stream is cut: the lines collected from any reads are those of their
  concatenation, split at every newline with blank ones dropped, and the same line that is too long fails
  both; no line is longer than one frame's payload.
\<close>

theorem lines_any_reads:
  "push_reads [] reads = lines_bytes [] (concat reads) \<and>
   (\<forall>partial ls. push_reads [] reads = Inr (partial, ls) \<longrightarrow> list_all (\<lambda>l. length l \<le> MAX_LINE) ls)"
proof -
  have "push_reads [] reads = lines_bytes [] (concat reads)" by (rule push_reads_bytes) simp
  then show ?thesis using lines_bytes_short [of "[]" "concat reads"] by (auto simp: list_all_iff)
qed

theorem lines_any_reads_witness:
  "push_reads [] [[65], [66, 10, 32, 10], [67]] = Inr ([67], [[65, 66]]) \<and>
   push_reads [] [[65], [66, 10, 32, 10], [67]] = lines_bytes [] [65, 66, 10, 32, 10, 67]"
  using lines_any_reads [of "[[65], [66, 10, 32, 10], [67]]"]
  by (simp add: MAX_LINE_def MAX_PAYLOAD_def is_ascii_whitespace_def Lines_push_def)

text \<open>
  An inbox gives every byte once and its end last: in any interleaving of the worker's pushes and
  ends with the reader's takes, the chunks taken and what still waits are exactly what was pushed before
  the first end, in order and never more than 8 MiB waiting; the end is delivered once, is the first one,
  comes with the last byte, and every later chunk is empty.
\<close>

theorem route_delivers_once:
  assumes "route_run Inbox_default ops = Inr (inbox, taken)"
  shows "concat (map ch_bytes taken) @ in_bytes inbox = pushed ops \<and> length (in_bytes inbox) \<le> MAX_BUFFERED \<and>
    (\<forall>i < length taken. ch_end (taken ! i) \<noteq> None \<longrightarrow>
       ch_end (taken ! i) = first_end ops \<and> concat (map ch_bytes (take (Suc i) taken)) = pushed ops \<and>
       (\<forall>c \<in> set (drop (Suc i) taken). c = silent))"
proof -
  have i: "inbox_inv Inbox_default" by (simp add: inbox_inv_def Inbox_default_def)
  have "still Inbox_default ops = pushed ops" "ending Inbox_default ops = first_end ops"
    by (simp_all add: still_def ending_def Inbox_default_def)
  with route_run_delivers [OF assms i] route_run_inv [OF assms i] show ?thesis by (simp add: inbox_inv_def)
qed

theorem route_delivers_once_witness:
  "concat (map ch_bytes [\<lparr>ch_bytes = [1], ch_end = None\<rparr>, \<lparr>ch_bytes = [2], ch_end = Some End_Lost\<rparr>, silent]) = [1, 2]"
proof -
  have "route_run Inbox_default [Op_Push [1], Op_Take, Op_Push [2], Op_End End_Lost, Op_Push [3], Op_Take, Op_Take]
      = Inr (\<lparr>in_bytes = [], in_end = Some End_Lost, in_taken_end = True\<rparr>,
         [\<lparr>ch_bytes = [1], ch_end = None\<rparr>, \<lparr>ch_bytes = [2], ch_end = Some End_Lost\<rparr>, silent])"
    by (simp add: Inbox_default_def Route_push_def Route_take_def Route_end_def MAX_BUFFERED_def silent_def Let_def)
  from route_delivers_once [OF this] show ?thesis by simp
qed

text \<open>
  Reads give back exactly the credit they take: a read of a live stream queues one credit frame for
  the number of bytes it returns and nothing when it returns none; a read that returns the end queues
  nothing.
\<close>

theorem read_returns_credit:
  assumes "inbox_inv inbox" and "Stream_read queue channel inbox sent = (inbox', sent', Inr chunk)"
  shows "ch_bytes chunk = in_bytes inbox \<and> in_bytes inbox' = [] \<and>
    (if ch_bytes chunk \<noteq> [] \<and> ch_end chunk = None
     then \<exists>frame. sent' = sent @ [frame] \<and> first_frame frame = Inr (Some
       (\<lparr>cf_channel = channel, cf_kind = Kind_Credit, cf_payload = le_bytes_32 (of_nat (length (ch_bytes chunk)))\<rparr>, []))
       \<and> unat (of_nat (length (ch_bytes chunk)) :: u32) = length (ch_bytes chunk)
     else sent' = sent)"
proof -
  let ?p = "le_bytes_32 (of_nat (length (in_bytes inbox)))"
  have fits: "length (in_bytes inbox) < 2 ^ 32" using assms(1) by (simp add: inbox_inv_def MAX_BUFFERED_def)
  obtain w where w: "encode_frame channel Kind_Credit ?p = Inr w" by (simp add: encode_frame_def MAX_PAYLOAD_def)
  have "unat (of_nat (length (in_bytes inbox)) :: u32) = length (in_bytes inbox)"
    using fits by (intro unat_of_nat_u32) simp
  with assms(2) fits w first_frame_encoded [OF w, of "[]"] show ?thesis
    by (auto simp: Stream_read_def Route_take_def Link_send_def Let_def split: if_splits option.splits)
qed

theorem read_returns_credit_witness:
  "\<exists>frame. first_frame frame = Inr (Some (\<lparr>cf_channel = 7, cf_kind = Kind_Credit, cf_payload = [3, 0, 0, 0]\<rparr>, []))"
proof -
  let ?in = "\<lparr>in_bytes = [1, 2, 3], in_end = None, in_taken_end = False\<rparr>"
  have i: "inbox_inv ?in" by (simp add: inbox_inv_def MAX_BUFFERED_def)
  have "Stream_read (\<lambda>_ _. None) 7 ?in [] = (Inbox_default, [[7, 0, 0, 0, 1, 4, 0, 0, 0, 3, 0, 0, 0]], Inr \<lparr>ch_bytes = [1, 2, 3], ch_end = None\<rparr>)"
    by (simp add: Stream_read_def Route_take_def Link_send_def encode_frame_def MAX_PAYLOAD_def le_bytes_32_def Inbox_default_def Let_def)
  from read_returns_credit [OF i this] show ?thesis by (auto simp: le_bytes_32_def)
qed

end
