(* ===== verification/Core_Connection.thy ===== *)
theory Core_Connection
  imports Core_Stream "HOL-Library.AList"
begin

text \<open>
  One connection to a core, \<open>crates/sheprd-core-client/src/connection.rs\<close>: the worker that decodes and routes
  frames, the calls that wait for answers, and the handshake before them. The state the threads share is one
  record; the inboxes of streams and the reply channels of calls are objects at an address, since the
  worker's tables and the callers hold the same ones. Every operation is one step: the worker handles a frame,
  a caller registers, sends, receives or gives up. \<open>serde_json\<close> is the record \<open>JsonLib\<close>.
\<close>

definition MAX_HELLO :: nat where "MAX_HELLO = 65536"
definition MAX_IN_FLIGHT :: nat where "MAX_IN_FLIGHT = 64"
definition MAX_OUTBOUND :: nat where "MAX_OUTBOUND = 1024"
definition WRITE_BATCH :: nat where "WRITE_BATCH = 64"

section \<open>Answers\<close>

record Refusal =
  rf_kind :: "str option"
  rf_message :: str

record 'j JsonLib =
  js_from_slice :: "bytes \<Rightarrow> ('j, string) result"
  js_get :: "'j \<Rightarrow> string \<Rightarrow> 'j option"
  js_as_u64 :: "'j \<Rightarrow> u64 option"
  js_refusal :: "'j \<Rightarrow> (Refusal, string) result"
  js_hello :: "'j \<Rightarrow> (Hello, string) result"
  js_to_string :: "'j \<Rightarrow> str"
  js_null :: "'j"
  js_closed :: "bytes \<Rightarrow> (Closed, string) result"
  js_request :: "u64 \<Rightarrow> CoreMethod \<Rightarrow> 'j \<Rightarrow> (bytes, string) result"

definition into_error :: "Refusal \<Rightarrow> CoreMethod \<Rightarrow> CoreError" where
  "into_error self method = CE_Refused method (rf_kind self) (rf_message self)"

text \<open>A call's result or the refusal, and the stream it opened: its channel and the address of its inbox.\<close>

record 'j Reply =
  rp_result :: "('j, Refusal) result"
  rp_route :: "(u32 \<times> nat) option"

text \<open>The channel of one reply between the worker and a caller: whether the caller still holds its end.\<close>

record 'j Slot =
  sl_id :: u64
  sl_reply :: "'j Reply option"
  sl_open :: bool

record 'j Conn =
  cn_lost :: bool
  cn_pending :: "(u64 \<times> nat) list"
  cn_routes :: "(u32 \<times> nat) list"
  cn_inboxes :: "nat \<Rightarrow> Inbox"
  cn_next_inbox :: nat
  cn_slots :: "nat \<Rightarrow> 'j Slot"
  cn_next_slot :: nat
  cn_next_id :: u64
  cn_outbound :: "bytes list"
  cn_gone :: bool

definition Conn_new :: "'j Conn" where
  "Conn_new = \<lparr>cn_lost = False, cn_pending = [], cn_routes = [], cn_inboxes = \<lambda>_. Inbox_default, cn_next_inbox = 0,
     cn_slots = \<lambda>_. \<lparr>sl_id = 0, sl_reply = None, sl_open = False\<rparr>, cn_next_slot = 0, cn_next_id = 1,
     cn_outbound = [], cn_gone = False\<rparr>"

definition put_inbox :: "nat \<Rightarrow> Inbox \<Rightarrow> 'j Conn \<Rightarrow> 'j Conn" where
  "put_inbox r inbox w = w\<lparr>cn_inboxes := (cn_inboxes w)(r := inbox)\<rparr>"

definition put_slot :: "nat \<Rightarrow> 'j Slot \<Rightarrow> 'j Conn \<Rightarrow> 'j Conn" where
  "put_slot c slot w = w\<lparr>cn_slots := (cn_slots w)(c := slot)\<rparr>"

section \<open>The worker\<close>

text \<open>The result of an answer.\<close>

definition answer_result :: "'j JsonLib \<Rightarrow> 'j \<Rightarrow> ('j, Refusal) result" where
  "answer_result js message =
     (case js_get js message ''error'' of
        Some error \<Rightarrow>
          Inl (case js_refusal js error of Inr refusal \<Rightarrow> refusal
               | Inl _ \<Rightarrow> \<lparr>rf_kind = None, rf_message = js_to_string js error\<rparr>)
      | None \<Rightarrow> Inr (case js_get js message ''result'' of Some v \<Rightarrow> v | None \<Rightarrow> js_null js))"

text \<open>The channel an answer opens.\<close>

definition opened_channel :: "'j JsonLib \<Rightarrow> ('j, Refusal) result \<Rightarrow> u32 option" where
  "opened_channel js result =
     (case result of Inl _ \<Rightarrow> None
      | Inr v \<Rightarrow> Option.bind (Option.bind (js_get js v ''channel'') (js_as_u64 js))
          (\<lambda>channel. if unat channel < 2 ^ 32 then Some (ucast channel) else None))"

definition open_route :: "u32 option \<Rightarrow> 'j Conn \<Rightarrow> 'j Conn \<times> (u32 \<times> nat) option" where
  "open_route opened w =
     (case opened of None \<Rightarrow> (w, None)
      | Some channel \<Rightarrow>
          let r = cn_next_inbox w in
          ((put_inbox r Inbox_default w)\<lparr>cn_next_inbox := Suc r, cn_routes := AList.update channel r (cn_routes w)\<rparr>,
           Some (channel, r)))"

text \<open>\<open>try_send\<close> on the reply channel of capacity one, and what follows when nobody hears.\<close>

definition deliver :: "nat \<Rightarrow> 'j Reply \<Rightarrow> 'j Conn \<Rightarrow> 'j Conn" where
  "deliver waiter reply w =
     (let slot = cn_slots w waiter in
      if sl_open slot \<and> sl_reply slot = None then put_slot waiter (slot\<lparr>sl_reply := Some reply\<rparr>) w
      else case rp_route reply of None \<Rightarrow> w
        | Some (channel, _) \<Rightarrow> w\<lparr>cn_routes := AList.delete channel (cn_routes w)\<rparr>)"

definition Worker_answer :: "'j JsonLib \<Rightarrow> bytes \<Rightarrow> 'j Conn \<Rightarrow> 'j Conn \<times> (unit, CoreError) result" where
  "Worker_answer js payload w =
     (case js_from_slice js payload of
        Inl e \<Rightarrow> (w, Inl (CE_Json e))
      | Inr message \<Rightarrow>
          (case Option.bind (js_get js message ''id'') (js_as_u64 js) of
             None \<Rightarrow> (w, Inr ())
           | Some ident \<Rightarrow>
               (case map_of (cn_pending w) ident of
                  None \<Rightarrow> (w, Inr ())
                | Some waiter \<Rightarrow>
                    let w = w\<lparr>cn_pending := AList.delete ident (cn_pending w)\<rparr>;
                        result = answer_result js message;
                        (w, route) = open_route (opened_channel js result) w in
                    (deliver waiter \<lparr>rp_result = result, rp_route = route\<rparr> w, Inr ()))))"

definition dispatch :: "'j JsonLib \<Rightarrow> CoreFrame \<Rightarrow> 'j Conn \<Rightarrow> 'j Conn \<times> (unit, CoreError) result" where
  "dispatch js frame w =
     (if cf_channel frame = 0 then
        if cf_kind frame = Kind_Data then Worker_answer js (cf_payload frame) w else (w, Inr ())
      else if cf_kind frame = Kind_Data then
        (case map_of (cn_routes w) (cf_channel frame) of
           None \<Rightarrow> (w, Inr ())
         | Some r \<Rightarrow> (case Route_push (cn_inboxes w r) (cf_payload frame) of (inbox, result) \<Rightarrow> (put_inbox r inbox w, result)))
      else if cf_kind frame = Kind_Close then
        (case map_of (cn_routes w) (cf_channel frame) of
           None \<Rightarrow> (w, Inr ())
         | Some r \<Rightarrow>
             ((put_inbox r (Route_end (cn_inboxes w r) (End_Closed (Closed_parse (js_closed js) (cf_payload frame)))) w)
                \<lparr>cn_routes := AList.delete (cf_channel frame) (cn_routes w)\<rparr>, Inr ()))
      else (w, Inr ()))"

definition lose :: "'j Conn \<Rightarrow> 'j Conn" where
  "lose w = w\<lparr>cn_lost := True, cn_pending := [], cn_routes := [],
     cn_inboxes := \<lambda>r. if r \<in> snd ` set (cn_routes w) then Route_end (cn_inboxes w r) End_Lost else cn_inboxes w r\<rparr>"

text \<open>The loop over decoded frames: the state, the decoder, and the error that ends the connection. \<open>None\<close> is a panic of the decoder.\<close>

function dispatch_frames :: "'j JsonLib \<Rightarrow> Decoder \<Rightarrow> 'j Conn \<Rightarrow> (Decoder \<times> 'j Conn \<times> (unit, CoreError) result) option" where
  "dispatch_frames js d w =
     (case next_frame d of
        None \<Rightarrow> None
      | Some (d, Inl e) \<Rightarrow> Some (d, w, Inl (CE_Frame e))
      | Some (d, Inr None) \<Rightarrow> Some (d, w, Inr ())
      | Some (d, Inr (Some frame)) \<Rightarrow>
          (case dispatch js frame w of (w, Inl e) \<Rightarrow> Some (d, w, Inl e) | (w, Inr _) \<Rightarrow> dispatch_frames js d w))"
  by pat_completeness auto
termination
  by (relation "measure (\<lambda>(js, d, w). length (dec_buffer d) - dec_start d)")
    (auto simp: next_frame_def HEADER_def Let_def split: if_splits sum.splits)

declare dispatch_frames.simps [simp del]

text \<open>What a read returned.\<close>

datatype ReadResult = Read_Ok bytes | Read_Waiting | Read_Failed string

definition serve_read :: "'j JsonLib \<Rightarrow> ReadResult \<Rightarrow> Decoder \<Rightarrow> 'j Conn \<Rightarrow> (Decoder \<times> 'j Conn \<times> (unit, CoreError) result) option" where
  "serve_read js read d w =
     (case read of
        Read_Ok bytes \<Rightarrow> if bytes = [] then Some (d, w, Inl CE_Lost) else dispatch_frames js (Decoder_push d bytes) w
      | Read_Waiting \<Rightarrow> dispatch_frames js d w
      | Read_Failed e \<Rightarrow> Some (d, w, Inl (CE_Io e)))"

text \<open>The reads of \<open>serve\<close>, until one fails.\<close>

fun serve_reads :: "'j JsonLib \<Rightarrow> ReadResult list \<Rightarrow> Decoder \<Rightarrow> 'j Conn \<Rightarrow> (Decoder \<times> 'j Conn \<times> (unit, CoreError) result) option" where
  "serve_reads js [] d w = Some (d, w, Inr ())"
| "serve_reads js (read # reads) d w =
     (case serve_read js read d w of
        None \<Rightarrow> None
      | Some (d, w, Inl e) \<Rightarrow> Some (d, w, Inl e)
      | Some (d, w, Inr _) \<Rightarrow> serve_reads js reads d w)"

text \<open>\<open>write_queued\<close>: the frames a batch takes from the queue, until a write fails. \<open>alone\<close>: nobody can queue more.\<close>

fun write_batch :: "(bytes \<Rightarrow> string option) \<Rightarrow> bool \<Rightarrow> nat \<Rightarrow> bytes list \<Rightarrow> bytes list \<times> bytes list \<times> (bool, CoreError) result" where
  "write_batch write_all alone 0 queue = (queue, [], Inr True)"
| "write_batch write_all alone (Suc n) queue =
     (case queue of
        [] \<Rightarrow> ([], [], Inr (\<not> alone))
      | frame # queue \<Rightarrow>
          (case write_all frame of
             Some e \<Rightarrow> (queue, [], Inl (CE_Io e))
           | None \<Rightarrow> (case write_batch write_all alone n queue of (queue, written, result) \<Rightarrow> (queue, frame # written, result))))"

definition write_queued :: "(bytes \<Rightarrow> string option) \<Rightarrow> string option \<Rightarrow> bool \<Rightarrow> bytes list \<Rightarrow> bytes list \<times> bytes list \<times> (bool, CoreError) result" where
  "write_queued write_all flush alone queue =
     (case write_batch write_all alone WRITE_BATCH queue of
        (queue, written, Inr True) \<Rightarrow>
          (case flush of Some e \<Rightarrow> if written = [] then (queue, written, Inr True) else (queue, written, Inl (CE_Io e))
           | None \<Rightarrow> (queue, written, Inr True))
      | r \<Rightarrow> r)"

section \<open>Calls\<close>

text \<open>The queue to the worker, bounded and closed once the worker is gone.\<close>

definition outbound_queue :: "bool \<Rightarrow> out_queue" where
  "outbound_queue gone queue frame =
     (if gone then Some CE_Lost else if length queue \<ge> MAX_OUTBOUND then Some CE_Busy else None)"

text \<open>
  The steps of \<open>call\<close>: it begins unless the connection is lost, registers its reply channel unless too many
  wait, sends its request, and waits. The connection may be lost between any two of them.
\<close>

definition call_begin :: "'j Conn \<Rightarrow> (unit, CoreError) result" where
  "call_begin w = (if cn_lost w then Inl CE_Lost else Inr ())"

definition call_register :: "'j Conn \<Rightarrow> 'j Conn \<times> (nat, CoreError) result" where
  "call_register w =
     (let ident = cn_next_id w; c = cn_next_slot w;
          waiting = length (cn_pending w) < MAX_IN_FLIGHT;
          w = (put_slot c \<lparr>sl_id = ident, sl_reply = None, sl_open = waiting\<rparr> w)\<lparr>cn_next_id := ident + 1, cn_next_slot := Suc c\<rparr> in
      if waiting then (w\<lparr>cn_pending := AList.update ident c (cn_pending w)\<rparr>, Inr c) else (w, Inl CE_Busy))"

text \<open>Sending it; on failure it no longer waits.\<close>

definition forget_call :: "nat \<Rightarrow> 'j Conn \<Rightarrow> 'j Conn" where
  "forget_call c w =
     (put_slot c ((cn_slots w c)\<lparr>sl_open := False\<rparr>) w)\<lparr>cn_pending := AList.delete (sl_id (cn_slots w c)) (cn_pending w)\<rparr>"

definition call_send :: "'j JsonLib \<Rightarrow> CoreMethod \<Rightarrow> 'j \<Rightarrow> nat \<Rightarrow> 'j Conn \<Rightarrow> 'j Conn \<times> (unit, CoreError) result" where
  "call_send js method params c w =
     (case js_request js (sl_id (cn_slots w c)) method params of
        Inl e \<Rightarrow> (forget_call c w, Inl (CE_Json e))
      | Inr payload \<Rightarrow>
          (case Link_send (outbound_queue (cn_gone w)) (cn_outbound w) 0 Kind_Data payload of
             (queue, Inl e) \<Rightarrow> (forget_call c w, Inl e)
           | (queue, Inr _) \<Rightarrow> (w\<lparr>cn_outbound := queue\<rparr>, Inr ())))"

text \<open>Waiting: a reply that is there, a channel whose other end is gone, or nothing yet.\<close>

definition waits :: "nat \<Rightarrow> 'j Conn \<Rightarrow> bool" where
  "waits c w \<longleftrightarrow> map_of (cn_pending w) (sl_id (cn_slots w c)) = Some c"

definition call_receive :: "nat \<Rightarrow> 'j Conn \<Rightarrow> ('j Reply, CoreError) result option" where
  "call_receive c w =
     (case sl_reply (cn_slots w c) of
        Some reply \<Rightarrow> Some (Inr reply)
      | None \<Rightarrow> if waits c w then None else Some (Inl CE_Lost))"

definition call_finish :: "CoreMethod \<Rightarrow> 'j Reply \<Rightarrow> ('j \<times> (u32 \<times> nat) option, CoreError) result" where
  "call_finish method reply =
     (case rp_result reply of Inl refusal \<Rightarrow> Inl (into_error refusal method) | Inr v \<Rightarrow> Inr (v, rp_route reply))"

definition Core_stream :: "CoreMethod \<Rightarrow> (u32 \<times> nat) option \<Rightarrow> (u32 \<times> nat, CoreError) result" where
  "Core_stream method route = (case route of None \<Rightarrow> Inl (CE_Invalid method ''missing field channel'') | Some r \<Rightarrow> Inr r)"

section \<open>The handshake\<close>

definition hello_answer :: "'j JsonLib \<Rightarrow> CoreMethod \<Rightarrow> 'j \<Rightarrow> ('j, CoreError) result" where
  "hello_answer js method message =
     (case js_get js message ''error'' of
        Some error \<Rightarrow>
          (case js_refusal js error of Inl e \<Rightarrow> Inl (CE_Invalid method e) | Inr refusal \<Rightarrow> Inl (into_error refusal method))
      | None \<Rightarrow> Inr (case js_get js message ''result'' of Some v \<Rightarrow> v | None \<Rightarrow> js_null js))"

fun split_line :: "bytes \<Rightarrow> (bytes \<times> bytes) option" where
  "split_line [] = None"
| "split_line (b # bs) = (if b = 10 then Some ([b], bs) else map_option (\<lambda>(line, rest). (b # line, rest)) (split_line bs))"

text \<open>The loop over reads; a read that finds the deadline passed is \<open>None\<close> before it. The list ends when the loop still waits.\<close>

fun read_hello :: "'j JsonLib \<Rightarrow> bytes \<Rightarrow> (ReadResult option) list \<Rightarrow> ('j \<times> bytes, CoreError) result option" where
  "read_hello js buffer reads =
     (case split_line buffer of
        Some (line, rest) \<Rightarrow> Some (case js_from_slice js line of Inl e \<Rightarrow> Inl (CE_Json e) | Inr v \<Rightarrow> Inr (v, rest))
      | None \<Rightarrow>
          if length buffer > MAX_HELLO then Some (Inl (CE_LongHello MAX_HELLO))
          else
            (case reads of
               [] \<Rightarrow> None
             | None # _ \<Rightarrow> Some (Inl (CE_Timeout M_Hello))
             | Some (Read_Ok bytes) # reads \<Rightarrow> if bytes = [] then Some (Inl CE_Lost) else read_hello js (buffer @ bytes) reads
             | Some Read_Waiting # reads \<Rightarrow> read_hello js buffer reads
             | Some (Read_Failed e) # _ \<Rightarrow> Some (Inl (CE_Io e))))"

declare read_hello.simps [simp del]

text \<open>\<open>over\<close> after the first line is written: the accepted core and the decoder holding what came after its reply.\<close>

definition handshake :: "'j JsonLib \<Rightarrow> (ReadResult option) list \<Rightarrow> (Hello \<times> Decoder, CoreError) result option" where
  "handshake js reads =
     (case read_hello js [] reads of
        None \<Rightarrow> None
      | Some (Inl e) \<Rightarrow> Some (Inl e)
      | Some (Inr (reply, rest)) \<Rightarrow>
          Some (and_then (hello_answer js M_Hello reply) (\<lambda>v.
            case js_hello js v of
              Inl e \<Rightarrow> Inl (CE_Invalid M_Hello e)
            | Inr hello \<Rightarrow>
                if \<not> he_framed hello then Inl CE_Unframed
                else case Hello_check hello of
                  Inl mismatch \<Rightarrow> Inl (CE_Compat mismatch)
                | Inr _ \<Rightarrow> Inr (hello, Decoder_push Decoder_default rest))))"

section \<open>Interleavings\<close>

text \<open>
  The steps of the threads, in any order: the worker handles a frame, writes a batch or ends, callers register,
  send, receive and give up, and readers take what a stream holds. A step gives, for a read, the inbox it read from, the
  bytes it took out of it, and its result.
\<close>

datatype 'j ConnOp =
    Op_Frame CoreFrame
  | Op_Write "bytes \<Rightarrow> string option" "string option" bool
  | Op_Lose
  | Op_Gone
  | Op_Register
  | Op_Send CoreMethod 'j nat
  | Op_Receive nat
  | Op_GiveUp nat
  | Op_Read u32 nat

type_synonym ReadStep = "nat \<times> bytes \<times> (Chunk, CoreError) result"

fun conn_op :: "'j JsonLib \<Rightarrow> 'j ConnOp \<Rightarrow> 'j Conn \<Rightarrow> 'j Conn \<times> ReadStep list" where
  "conn_op js (Op_Frame frame) w =
     (if cn_lost w then w else case dispatch js frame w of (w, Inl _) \<Rightarrow> lose w | (w, Inr _) \<Rightarrow> w, [])"
| "conn_op js (Op_Write write_all flush alone) w =
     (if cn_lost w then w
      else case write_queued write_all flush alone (cn_outbound w) of
        (queue, _, Inr True) \<Rightarrow> w\<lparr>cn_outbound := queue\<rparr>
      | (queue, _, _) \<Rightarrow> lose (w\<lparr>cn_outbound := queue\<rparr>), [])"
| "conn_op js Op_Lose w = (lose w, [])"
| "conn_op js Op_Gone w = (if cn_lost w then w\<lparr>cn_gone := True, cn_outbound := []\<rparr> else w, [])"
| "conn_op js Op_Register w = (fst (call_register w), [])"
| "conn_op js (Op_Send method params c) w = (if c < cn_next_slot w then fst (call_send js method params c w) else w, [])"
| "conn_op js (Op_Receive c) w =
     (if c < cn_next_slot w \<and> call_receive c w \<noteq> None then put_slot c ((cn_slots w c)\<lparr>sl_open := False\<rparr>) w else w, [])"
| "conn_op js (Op_GiveUp c) w = (if c < cn_next_slot w then forget_call c w else w, [])"
| "conn_op js (Op_Read channel r) w =
     (case Stream_read (outbound_queue (cn_gone w)) channel (cn_inboxes w r) (cn_outbound w) of
        (inbox, queue, result) \<Rightarrow>
          ((put_inbox r inbox w)\<lparr>cn_outbound := queue\<rparr>, [(r, in_bytes (cn_inboxes w r), result)]))"

fun conn_run :: "'j JsonLib \<Rightarrow> 'j ConnOp list \<Rightarrow> 'j Conn \<Rightarrow> 'j Conn \<times> ReadStep list" where
  "conn_run js [] w = (w, [])"
| "conn_run js (x # ops) w =
     (case conn_op js x w of (w, cs) \<Rightarrow> case conn_run js ops w of (w, cs') \<Rightarrow> (w, cs @ cs'))"

end
