(* ===== verification/Core_Calls.thy ===== *)
theory Core_Calls
  imports Core_Connection
begin

text \<open>
  What holds of a connection to a core in every interleaving of its threads: the invariant of the shared
  state, the answers of calls, the bytes of streams, the end of a lost connection, and the bytes of a whole
  session from its handshake on.
\<close>

section \<open>Lemmas\<close>

declare map_of_eq_Some_iff [simp del]

text \<open>
  The invariant of the shared state, in parts: at most 64 calls wait, each under its own id and unanswered;
  every channel routes to an inbox of its own that has not ended, and none does once the connection is lost; ids count up; inboxes and the queue are bounded.
\<close>

definition pending_inv :: "'j Conn \<Rightarrow> bool" where
  "pending_inv w \<longleftrightarrow> distinct (map fst (cn_pending w)) \<and> length (cn_pending w) \<le> MAX_IN_FLIGHT \<and>
     (\<forall>ident c. map_of (cn_pending w) ident = Some c \<longrightarrow>
        c < cn_next_slot w \<and> sl_id (cn_slots w c) = ident \<and> sl_reply (cn_slots w c) = None)"

definition routes_inv :: "'j Conn \<Rightarrow> bool" where
  "routes_inv w \<longleftrightarrow> distinct (map fst (cn_routes w)) \<and> (cn_lost w \<longrightarrow> cn_routes w = []) \<and>
     (\<forall>channel r. map_of (cn_routes w) channel = Some r \<longrightarrow> r < cn_next_inbox w \<and> in_end (cn_inboxes w r) = None) \<and>
     (\<forall>a b r. map_of (cn_routes w) a = Some r \<and> map_of (cn_routes w) b = Some r \<longrightarrow> a = b)"

definition slots_inv :: "'j Conn \<Rightarrow> bool" where
  "slots_inv w \<longleftrightarrow> (\<forall>c < cn_next_slot w. sl_id (cn_slots w c) = of_nat (Suc c)) \<and> cn_next_id w = of_nat (Suc (cn_next_slot w))"

definition bounds_inv :: "'j Conn \<Rightarrow> bool" where
  "bounds_inv w \<longleftrightarrow> (\<forall>r. inbox_inv (cn_inboxes w r)) \<and> length (cn_outbound w) \<le> MAX_OUTBOUND"

definition conn_inv :: "'j Conn \<Rightarrow> bool" where
  "conn_inv w \<longleftrightarrow> pending_inv w \<and> routes_inv w \<and> slots_inv w \<and> bounds_inv w"

lemmas conn_inv_defs = conn_inv_def pending_inv_def routes_inv_def slots_inv_def bounds_inv_def

lemma conn_inv_new: "conn_inv Conn_new"
  by (simp add: conn_inv_defs Conn_new_def inbox_inv_def Inbox_default_def)

lemma length_update: "length (AList.update k v al) \<le> Suc (length al)"
  by (induction al) auto

lemma inbox_inv_ops:
  "inbox_inv b \<Longrightarrow> inbox_inv (fst (Route_push b bytes))" "inbox_inv b \<Longrightarrow> inbox_inv (Route_end b e)"
  "inbox_inv b \<Longrightarrow> inbox_inv (fst (Route_take b))" "inbox_inv Inbox_default" "in_end Inbox_default = None"
  by (auto simp: Route_push_def Route_end_def Route_take_def Inbox_default_def inbox_inv_def Let_def split: option.splits)

lemma put_inbox_inv:
  "conn_inv w \<Longrightarrow> inbox_inv b \<Longrightarrow> in_end b = in_end (cn_inboxes w r) \<Longrightarrow> conn_inv (put_inbox r b w)"
  by (auto simp: conn_inv_defs put_inbox_def)

lemma end_route_inv:
  assumes "conn_inv w" "map_of (cn_routes w) channel = Some r"
  shows "conn_inv ((put_inbox r (Route_end (cn_inboxes w r) e) w)\<lparr>cn_routes := AList.delete channel (cn_routes w)\<rparr>)"
proof -
  have "k = channel" if "map_of (cn_routes w) k = Some r" for k using assms that unfolding conn_inv_defs by blast
  with assms show ?thesis by (auto simp: conn_inv_defs put_inbox_def delete_conv' distinct_delete inbox_inv_ops)
qed

lemma delete_route_inv: "conn_inv w \<Longrightarrow> conn_inv (w\<lparr>cn_routes := AList.delete channel (cn_routes w)\<rparr>)"
  by (auto simp: conn_inv_defs delete_conv' distinct_delete)

lemma delete_pending_inv: "conn_inv w \<Longrightarrow> conn_inv (w\<lparr>cn_pending := AList.delete ident (cn_pending w)\<rparr>)"
  using length_delete_le[of ident "cn_pending w"] by (auto simp: conn_inv_defs delete_conv' distinct_delete)

lemma open_route_inv: "conn_inv w \<Longrightarrow> \<not> cn_lost w \<Longrightarrow> conn_inv (fst (open_route opened w))"
  by (cases opened)
    (auto simp: open_route_def conn_inv_defs put_inbox_def update_conv' distinct_update inbox_inv_ops Let_def split: if_splits
      intro: less_SucI)

text \<open>A slot nobody waits at may change, as long as its id stays.\<close>

lemma put_slot_inv:
  assumes "conn_inv w" "sl_id slot = sl_id (cn_slots w c)" "\<forall>ident. map_of (cn_pending w) ident \<noteq> Some c \<or> sl_reply slot = None"
  shows "conn_inv (put_slot c slot w)"
  using assms by (auto simp: conn_inv_defs put_slot_def)

lemma deliver_inv:
  assumes "conn_inv w" "\<forall>ident. map_of (cn_pending w) ident \<noteq> Some c"
  shows "conn_inv (deliver c reply w)"
  using assms delete_route_inv[OF assms(1)] by (auto simp: deliver_def Let_def intro: put_slot_inv split: option.split)

text \<open>A call waits under one id only.\<close>

lemma pending_once:
  "pending_inv w \<Longrightarrow> map_of (cn_pending w) ident = Some c \<Longrightarrow> map_of (AList.delete ident (cn_pending w)) k \<noteq> Some c"
  by (auto simp: pending_inv_def delete_conv')

lemma open_route_pending [simp]: "cn_pending (fst (open_route opened w)) = cn_pending w" "cn_slots (fst (open_route opened w)) = cn_slots w"
  by (simp_all add: open_route_def put_inbox_def Let_def split: option.split)

lemma Worker_answer_inv:
  assumes "conn_inv w" "\<not> cn_lost w"
  shows "conn_inv (fst (Worker_answer js payload w))"
proof -
  have "conn_inv (deliver c reply (fst (open_route opened (w\<lparr>cn_pending := AList.delete ident (cn_pending w)\<rparr>))))"
    if "map_of (cn_pending w) ident = Some c" for ident c reply opened
    using assms that pending_once[of w ident c]
    by (intro deliver_inv open_route_inv delete_pending_inv) (auto simp: conn_inv_def)
  with assms show ?thesis by (auto simp: Worker_answer_def Let_def case_prod_beta split: sum.split option.split)
qed

lemma route_ends [simp]:
  "in_end (fst (Route_push b bytes)) = in_end b" "in_end (fst (Route_take b)) = in_end b"
  by (simp_all add: Route_push_def Route_take_def Let_def)

lemma dispatch_inv: "conn_inv w \<Longrightarrow> \<not> cn_lost w \<Longrightarrow> conn_inv (fst (dispatch js frame w))"
proof -
  assume w: "conn_inv w" and lost: "\<not> cn_lost w"
  then have inbox: "inbox_inv (cn_inboxes w r)" for r by (simp add: conn_inv_defs)
  have "conn_inv (put_inbox r (fst (Route_push (cn_inboxes w r) bytes)) w)" for r bytes
    by (intro put_inbox_inv w inbox_inv_ops inbox route_ends)
  then show ?thesis
    using w lost by (auto simp: dispatch_def Worker_answer_inv case_prod_beta end_route_inv split: option.split)
qed

lemma lose_inv: "conn_inv w \<Longrightarrow> conn_inv (lose w)"
  by (auto simp: lose_def conn_inv_defs intro: inbox_inv_ops)

lemma call_register_inv: "conn_inv w \<Longrightarrow> conn_inv (fst (call_register w))"
  using length_update[of "cn_next_id w" "cn_next_slot w" "cn_pending w"]
  by (auto simp: call_register_def conn_inv_defs put_slot_def update_conv' distinct_update Let_def less_Suc_eq split: if_splits)

lemma forget_call_inv: "conn_inv w \<Longrightarrow> c < cn_next_slot w \<Longrightarrow> conn_inv (forget_call c w)"
  using length_delete_le[of "sl_id (cn_slots w c)" "cn_pending w"]
  by (auto simp: forget_call_def conn_inv_defs put_slot_def delete_conv' distinct_delete split: if_splits)

lemma outbound_inv: "conn_inv w \<Longrightarrow> length queue \<le> MAX_OUTBOUND \<Longrightarrow> conn_inv (w\<lparr>cn_outbound := queue\<rparr>)"
  by (simp add: conn_inv_defs)

lemma Link_send_bound:
  "Link_send (outbound_queue gone) queue channel kind payload = (queue', r) \<Longrightarrow> length queue \<le> MAX_OUTBOUND \<Longrightarrow> length queue' \<le> MAX_OUTBOUND"
  by (auto simp: Link_send_def outbound_queue_def split: sum.splits option.splits if_splits)

lemma call_send_inv:
  assumes "conn_inv w" "c < cn_next_slot w"
  shows "conn_inv (fst (call_send js method params c w))"
proof -
  have "length (cn_outbound w) \<le> MAX_OUTBOUND" using assms(1) by (simp add: conn_inv_defs)
  with forget_call_inv[OF assms] show ?thesis
    by (auto simp: call_send_def split: sum.split prod.split intro!: outbound_inv[OF assms(1)] dest: Link_send_bound)
qed

lemma Stream_read_bound:
  "Stream_read (outbound_queue gone) channel b queue = (b', queue', r) \<Longrightarrow> length queue \<le> MAX_OUTBOUND \<Longrightarrow>
    length queue' \<le> MAX_OUTBOUND \<and> b' = fst (Route_take b)"
  by (auto simp: Stream_read_def Let_def split: prod.splits if_splits sum.splits dest: Link_send_bound)

lemma write_batch_bound: "write_batch write_all alone n queue = (queue', written, r) \<Longrightarrow> length queue' \<le> length queue"
  by (induction n arbitrary: queue written) (auto split: list.splits option.splits prod.splits dest: le_SucI)

lemma write_queued_bound: "write_queued write_all flush alone queue = (queue', written, r) \<Longrightarrow> length queue' \<le> length queue"
  by (auto simp: write_queued_def split: prod.splits sum.splits bool.splits option.splits if_splits dest: write_batch_bound)

lemma conn_op_inv: "conn_inv w \<Longrightarrow> conn_inv (fst (conn_op js x w))"
proof (cases x)
  case (Op_Frame frame)
  assume w: "conn_inv w"
  show ?thesis using Op_Frame w dispatch_inv[OF w, of js frame] lose_inv[OF dispatch_inv[OF w, of js frame]]
    by (cases "cn_lost w") (auto split: prod.split sum.split)
next
  case (Op_Write write_all flush alone)
  assume w: "conn_inv w"
  have "length (cn_outbound w) \<le> MAX_OUTBOUND" using w by (simp add: conn_inv_defs)
  then have "conn_inv (w\<lparr>cn_outbound := queue\<rparr>)" if "write_queued write_all flush alone (cn_outbound w) = (queue, written, r)" for queue written r
    using write_queued_bound[OF that] by (intro outbound_inv[OF w]) simp
  with Op_Write w show ?thesis by (auto split: prod.split sum.split bool.split intro: lose_inv)
next
  case (Op_Receive c)
  assume w: "conn_inv w"
  have "sl_reply (cn_slots w c) = None" if "map_of (cn_pending w) ident = Some c" for ident
    using w that by (simp add: conn_inv_defs)
  with Op_Receive w show ?thesis by (auto intro: put_slot_inv)
next
  case (Op_Read channel r)
  assume w: "conn_inv w"
  obtain b queue res where read: "Stream_read (outbound_queue (cn_gone w)) channel (cn_inboxes w r) (cn_outbound w) = (b, queue, res)"
    by (metis prod_cases3)
  with w Stream_read_bound[OF read] have "length queue \<le> MAX_OUTBOUND" "b = fst (Route_take (cn_inboxes w r))"
    by (simp_all add: conn_inv_defs)
  with w have "conn_inv ((put_inbox r b w)\<lparr>cn_outbound := queue\<rparr>)"
    by (intro outbound_inv put_inbox_inv) (simp_all add: inbox_inv_ops conn_inv_defs)
  with Op_Read read show ?thesis by simp
next
  case Op_Gone
  assume "conn_inv w"
  with Op_Gone show ?thesis by (auto simp: conn_inv_defs)
qed (auto simp: lose_inv call_register_inv call_send_inv forget_call_inv split: if_splits)

interpretation conn: preserved "\<lambda>x w. fst (conn_op js x w)" conn_inv for js
  by unfold_locales (rule conn_op_inv)

lemma conn_run_fold: "fst (conn_run js ops w) = fold (\<lambda>x w. fst (conn_op js x w)) ops w"
  by (induction ops arbitrary: w) (auto simp: case_prod_beta)

lemma conn_run_inv: "conn_inv w \<Longrightarrow> conn_inv (fst (conn_run js ops w))"
  unfolding conn_run_fold by (rule conn.run_kept)

lemmas reachable_inv = conn_run_inv[OF conn_inv_new]

text \<open>What an answer opens, and that it changes no other route or inbox.\<close>

definition opens :: "'j JsonLib \<Rightarrow> bytes \<Rightarrow> u32 option" where
  "opens js payload = (case js_from_slice js payload of Inl _ \<Rightarrow> None | Inr m \<Rightarrow> opened_channel js (answer_result js m))"

lemma Worker_answer_frame:
  assumes "Worker_answer js payload w = (w', res)"
  shows "r < cn_next_inbox w \<Longrightarrow> cn_inboxes w' r = cn_inboxes w r"
    and "cn_next_inbox w \<le> cn_next_inbox w'"
    and "map_of (cn_routes w') k = Some r \<Longrightarrow> r < cn_next_inbox w \<Longrightarrow> map_of (cn_routes w) k = Some r"
    and "opens js payload \<noteq> Some k \<Longrightarrow> map_of (cn_routes w') k = map_of (cn_routes w) k"
    and "cn_outbound w' = cn_outbound w" "cn_lost w' = cn_lost w"
  using assms
  by (auto simp: Worker_answer_def open_route_def put_inbox_def put_slot_def deliver_def Let_def opens_def update_conv' delete_conv'
      split: sum.splits option.splits if_splits)

definition reopens :: "'j JsonLib \<Rightarrow> u32 \<Rightarrow> 'j ConnOp \<Rightarrow> bool" where
  "reopens js channel x =
     (case x of Op_Frame f \<Rightarrow> cf_channel f = 0 \<and> cf_kind f = Kind_Data \<and> opens js (cf_payload f) = Some channel | _ \<Rightarrow> False)"

text \<open>The bytes a step brings on a channel, and those it reads from an inbox.\<close>

definition step_data :: "u32 \<Rightarrow> 'j ConnOp \<Rightarrow> bytes" where
  "step_data channel x =
     (case x of Op_Frame f \<Rightarrow> if cf_channel f = channel \<and> cf_kind f = Kind_Data then cf_payload f else [] | _ \<Rightarrow> [])"

definition taken_from :: "nat \<Rightarrow> ReadStep list \<Rightarrow> bytes" where
  "taken_from r cs = concat (map (fst \<circ> snd) (filter (\<lambda>(k, _). k = r) cs))"

lemma taken_from_append: "taken_from r (xs @ ys) = taken_from r xs @ taken_from r ys"
  by (simp add: taken_from_def)

lemma taken_from_simps [simp]: "taken_from r [] = []" "taken_from r ((k, c) # cs) = (if k = r then fst c else []) @ taken_from r cs"
  by (simp_all add: taken_from_def)

lemma lose_inbox:
  "in_bytes (cn_inboxes (lose w) r) = in_bytes (cn_inboxes w r)"
  "map_of (cn_routes (lose w)) k = None" "cn_next_inbox (lose w) = cn_next_inbox w"
  "in_end (cn_inboxes w r) = Some e \<Longrightarrow> in_end (cn_inboxes (lose w) r) = Some e"
  "distinct (map fst (cn_routes w)) \<Longrightarrow> \<forall>k. map_of (cn_routes w) k \<noteq> Some r \<Longrightarrow> cn_inboxes (lose w) r = cn_inboxes w r"
  by (auto simp: lose_def Route_end_def image_iff map_of_eq_Some_iff split: option.split dest!: map_of_SomeD)

lemma lose_ends:
  "map_of (cn_routes w) k = Some r \<Longrightarrow> in_end (cn_inboxes w r) = None \<Longrightarrow> in_end (cn_inboxes (lose w) r) = Some End_Lost"
  by (force simp: lose_def Route_end_def dest!: map_of_SomeD)

lemma inv_routed:
  assumes "conn_inv w" "map_of (cn_routes w) k = Some r"
  shows "r < cn_next_inbox w" "in_end (cn_inboxes w r) = None" "\<And>k'. map_of (cn_routes w) k' = Some r \<Longrightarrow> k' = k"
    and "\<not> cn_lost w" "distinct (map fst (cn_routes w))"
  using assms unfolding conn_inv_defs by auto

text \<open>What a frame can do.\<close>

lemma dispatch_cases:
  assumes "dispatch js f w = (w', res)"
  obtains (answer) "cf_channel f = 0" "cf_kind f = Kind_Data" "Worker_answer js (cf_payload f) w = (w', res)"
    | (data) r' where "cf_channel f \<noteq> 0" "cf_kind f = Kind_Data" "map_of (cn_routes w) (cf_channel f) = Some r'"
        "w' = put_inbox r' (fst (Route_push (cn_inboxes w r') (cf_payload f))) w" "res = snd (Route_push (cn_inboxes w r') (cf_payload f))"
    | (close) r' e where "cf_channel f \<noteq> 0" "cf_kind f = Kind_Close" "map_of (cn_routes w) (cf_channel f) = Some r'"
        "w' = (put_inbox r' (Route_end (cn_inboxes w r') (End_Closed e)) w)\<lparr>cn_routes := AList.delete (cf_channel f) (cn_routes w)\<rparr>" "res = Inr ()"
    | (other) "w' = w" "res = Inr ()" "cf_kind f \<noteq> Kind_Data \<or> map_of (cn_routes w) (cf_channel f) = None"
  using assms by (auto simp: dispatch_def case_prod_beta split: if_splits option.splits)

text \<open>A frame on an open stream.\<close>

lemma dispatch_stream:
  fixes w :: "'j Conn"
  assumes inv: "conn_inv w" and k: "k \<noteq> 0" and route: "map_of (cn_routes w) k = Some r" and "dispatch js f w = (w', res)"
  shows "in_bytes (cn_inboxes w' r) = in_bytes (cn_inboxes w r) @ (if res = Inr () then step_data k (Op_Frame f :: 'j ConnOp) else [])"
    and "in_end (cn_inboxes w' r) = None \<Longrightarrow> \<not> reopens js k (Op_Frame f) \<Longrightarrow> map_of (cn_routes w') k = Some r"
    and "map_of (cn_routes w') k' = Some r \<Longrightarrow> k' = k \<and> in_end (cn_inboxes w' r) = None"
proof -
  note routed = inv_routed[OF inv route]
  show "in_bytes (cn_inboxes w' r) = in_bytes (cn_inboxes w r) @ (if res = Inr () then step_data k (Op_Frame f :: 'j ConnOp) else [])"
    using assms(4)
  proof (cases rule: dispatch_cases)
    case answer
    with k Worker_answer_frame(1)[OF answer(3) routed(1)] show ?thesis by (simp add: step_data_def)
  next
    case (data r')
    show ?thesis
    proof (cases "r' = r")
      case True
      then have "cf_channel f = k" using routed(3) data(3) by blast
      with data True routed(2) show ?thesis by (auto simp: put_inbox_def step_data_def Route_push_def)
    next
      case False
      then have "cf_channel f \<noteq> k" using data(3) route by auto
      with data False show ?thesis by (simp add: put_inbox_def step_data_def)
    qed
  next
    case close
    then show ?thesis by (simp add: put_inbox_def step_data_def Route_end_def split: option.split)
  next
    case other
    with route show ?thesis by (auto simp: step_data_def)
  qed
  show "map_of (cn_routes w') k = Some r" if "in_end (cn_inboxes w' r) = None" "\<not> reopens js k (Op_Frame f)"
    using assms(4)
  proof (cases rule: dispatch_cases)
    case answer
    with Worker_answer_frame(4)[OF answer(3), of k] that(2) route show ?thesis by (simp add: reopens_def)
  next
    case close
    have "cf_channel f \<noteq> k" using close(3,4) that(1) route by (auto simp: put_inbox_def Route_end_def split: option.splits)
    with close route show ?thesis by simp
  qed (use route in \<open>simp_all add: put_inbox_def\<close>)
  show "k' = k \<and> in_end (cn_inboxes w' r) = None" if "map_of (cn_routes w') k' = Some r"
    using assms(4)
  proof (cases rule: dispatch_cases)
    case answer
    with Worker_answer_frame(1,3)[OF answer(3)] that routed show ?thesis by auto
  next
    case close
    with that routed show ?thesis by (auto simp: put_inbox_def delete_conv' split: if_splits)
  qed (use that routed in \<open>auto simp: put_inbox_def\<close>)
qed

text \<open>Steps that neither handle a frame nor end the connection leave the routes alone, and the inboxes but for reads.\<close>

lemma quiet_step:
  assumes "conn_op js x w = (w', cs)" "\<forall>f. x \<noteq> Op_Frame f" "cn_lost w' = cn_lost w" "x \<noteq> Op_Lose"
  shows "cn_routes w' = cn_routes w \<and> cn_next_inbox w' = cn_next_inbox w \<and>
    in_bytes (cn_inboxes w r) = taken_from r cs @ in_bytes (cn_inboxes w' r) \<and> in_end (cn_inboxes w' r) = in_end (cn_inboxes w r)"
proof (cases x)
  case (Op_Read channel k)
  with assms(1) show ?thesis
    by (auto simp: put_inbox_def Stream_read_def Route_take_def Let_def split: prod.splits if_splits sum.splits)
next
  case (Op_Send name params c)
  with assms(1) show ?thesis
    by (auto simp: call_send_def forget_call_def put_slot_def split: if_splits sum.splits prod.splits)
next
  case (Op_Write write_all flush alone)
  with assms(1,3) show ?thesis by (auto simp: lose_def split: if_splits prod.splits sum.splits bool.splits)
qed (use assms in \<open>auto simp: call_register_def forget_call_def put_slot_def Let_def split: if_splits\<close>)

lemma lost_step:
  assumes "conn_op js x w = (w', cs)" "\<forall>f. x \<noteq> Op_Frame f" "cn_lost w' \<noteq> cn_lost w \<or> x = Op_Lose"
  shows "\<exists>queue. w' = lose (w\<lparr>cn_outbound := queue\<rparr>) \<and> cs = []"
proof (cases x)
  case Op_Lose
  with assms(1) have "w' = lose (w\<lparr>cn_outbound := cn_outbound w\<rparr>) \<and> cs = []" by simp
  then show ?thesis by blast
next
  case (Op_Write write_all flush alone)
  with assms(1,3) show ?thesis by (auto split: if_splits prod.splits sum.splits bool.splits)
next
  case (Op_Send name params c)
  with assms(1,3) show ?thesis
    by (auto simp: call_send_def forget_call_def put_slot_def split: if_splits sum.splits prod.splits)
next
  case (Op_Read channel k)
  with assms(1,3) show ?thesis by (auto simp: put_inbox_def split: prod.splits)
qed (use assms in \<open>auto simp: call_register_def forget_call_def put_slot_def Let_def split: if_splits\<close>)

text \<open>One step of an open stream: it stays open and keeps what was not taken from it, or it is closed.\<close>

lemma stream_step:
  assumes "conn_inv w" "k \<noteq> 0" "map_of (cn_routes w) k = Some r" "conn_op js x w = (w', cs)"
  shows "map_of (cn_routes w') k = Some r \<and> in_bytes (cn_inboxes w r) @ step_data k x = taken_from r cs @ in_bytes (cn_inboxes w' r) \<or>
    (\<forall>k'. map_of (cn_routes w') k' \<noteq> Some r) \<and> r < cn_next_inbox w' \<and>
    (\<exists>rest. in_bytes (cn_inboxes w r) @ step_data k x = taken_from r cs @ in_bytes (cn_inboxes w' r) @ rest) \<and>
    (in_end (cn_inboxes w' r) \<noteq> None \<or> reopens js k x)"
proof (cases "\<exists>f. x = Op_Frame f")
  case True
  then obtain f where x: "x = Op_Frame f" by blast
  obtain v res where v: "dispatch js f w = (v, res)" by force
  note inv = inv_routed[OF assms(1,3)] and stream = dispatch_stream[OF assms(1-3) v]
  have v_inv: "conn_inv v" using dispatch_inv[OF assms(1) inv(4), of js f] v by simp
  have nxt: "r < cn_next_inbox v"
    using inv(1) v Worker_answer_frame(2)[of js "cf_payload f" w v res]
    by (auto simp: dispatch_def put_inbox_def split: if_splits option.splits prod.splits)
  have w': "cs = []" "w' = (case res of Inl _ \<Rightarrow> lose v | Inr _ \<Rightarrow> v)"
    using assms(4) v x inv(4) by (auto split: sum.splits)
  show ?thesis
  proof (cases res)
    case (Inl e)
    have "in_end (cn_inboxes w' r) \<noteq> None \<or> reopens js k x"
    proof (cases "in_end (cn_inboxes v r)")
      case None
      with stream(2) have "reopens js k x \<or> map_of (cn_routes v) k = Some r" using x by blast
      with lose_ends[OF _ None] Inl w' show ?thesis by auto
    qed (use Inl w' lose_inbox(4) in auto)
    with Inl w' nxt stream(1) show ?thesis by (auto simp: lose_inbox)
  next
    case (Inr u)
    show ?thesis
    proof (cases "map_of (cn_routes v) k = Some r")
      case True
      moreover have "in_bytes (cn_inboxes w r) @ step_data k x = taken_from r cs @ in_bytes (cn_inboxes w' r)"
        unfolding w' x Inr by (simp add: stream(1) Inr)
      ultimately show ?thesis using Inr w' by simp
    next
      case False
      with stream(3) have "\<forall>k'. map_of (cn_routes v) k' \<noteq> Some r" by blast
      moreover have "in_end (cn_inboxes v r) \<noteq> None \<or> reopens js k x" using False stream(2) x by blast
      ultimately show ?thesis using Inr w' stream(1) nxt x by auto
    qed
  qed
next
  case frame: False
  then have data: "step_data k x = []" by (auto simp: step_data_def split: ConnOp.split)
  note inv = inv_routed[OF assms(1,3)]
  show ?thesis
  proof (cases "cn_lost w' = cn_lost w \<and> x \<noteq> Op_Lose")
    case True
    with quiet_step[OF assms(4), of r] frame assms(3) data show ?thesis by auto
  next
    case False
    with lost_step[OF assms(4)] frame obtain queue where "w' = lose (w\<lparr>cn_outbound := queue\<rparr>)" "cs = []" by blast
    moreover have "in_end (cn_inboxes (lose (w\<lparr>cn_outbound := queue\<rparr>)) r) = Some End_Lost"
      using lose_ends[of "w\<lparr>cn_outbound := queue\<rparr>" k r] assms(3) inv(2) by simp
    ultimately show ?thesis
      using lose_inbox(1,2,3)[of "w\<lparr>cn_outbound := queue\<rparr>"] inv(1) data by (intro disjI2) simp
  qed
qed

text \<open>A stream that is no longer routed keeps what it holds and its end, and is never routed again.\<close>

lemma unrouted_step:
  assumes "conn_inv w" "r < cn_next_inbox w" "\<forall>k. map_of (cn_routes w) k \<noteq> Some r" "conn_op js x w = (w', cs)"
  shows "(\<forall>k. map_of (cn_routes w') k \<noteq> Some r) \<and> r < cn_next_inbox w' \<and>
    in_bytes (cn_inboxes w r) = taken_from r cs @ in_bytes (cn_inboxes w' r) \<and> in_end (cn_inboxes w' r) = in_end (cn_inboxes w r)"
proof -
  have lost: "cn_inboxes (lose v) r = cn_inboxes v r" "(\<forall>k. map_of (cn_routes (lose v)) k \<noteq> Some r)" "cn_next_inbox (lose v) = cn_next_inbox v"
    if "conn_inv v" "\<forall>k. map_of (cn_routes v) k \<noteq> Some r" for v :: "'a Conn"
    using lose_inbox(2,3,5)[of v] that by (auto simp: conn_inv_defs)
  show ?thesis
  proof (cases "\<exists>f. x = Op_Frame f")
    case True
    then obtain f where x: "x = Op_Frame f" by blast
    obtain v res where v: "dispatch js f w = (v, res)" by force
    have keep: "cn_inboxes v r = cn_inboxes w r \<and> (\<forall>k. map_of (cn_routes v) k \<noteq> Some r) \<and> r < cn_next_inbox v"
      using v
    proof (cases rule: dispatch_cases)
      case answer
      with Worker_answer_frame(1,2,3)[OF answer(3)] assms(2,3) show ?thesis by (metis order_less_le_trans)
    next
      case (data r')
      then have "r' \<noteq> r" using assms(3) by auto
      with data assms(2,3) show ?thesis by (simp add: put_inbox_def)
    next
      case (close r' e)
      then have "r' \<noteq> r" using assms(3) by auto
      with close assms(2,3) show ?thesis by (simp add: put_inbox_def delete_conv')
    qed (use assms(2,3) in simp)
    show ?thesis
    proof (cases "cn_lost w")
      case False
      with dispatch_inv[OF assms(1) False, of js f] v have "conn_inv v" by simp
      with keep lost[OF this] assms(4) x v False show ?thesis by (auto split: sum.splits)
    qed (use assms x in auto)
  next
    case frame: False
    show ?thesis
    proof (cases "cn_lost w' = cn_lost w \<and> x \<noteq> Op_Lose")
      case True
      with quiet_step[OF assms(4), of r] frame assms(2,3) show ?thesis by auto
    next
      case False
      with lost_step[OF assms(4)] frame obtain queue where "w' = lose (w\<lparr>cn_outbound := queue\<rparr>)" "cs = []" by blast
      moreover have "lose (w\<lparr>cn_outbound := queue\<rparr>) = (lose w)\<lparr>cn_outbound := queue\<rparr>" by (cases w) (simp add: lose_def cong: if_cong)
      ultimately show ?thesis using lost[OF assms(1,3)] assms(2) by simp
    qed
  qed
qed

text \<open>Runs.\<close>

lemma chain_append: "a @ s = b @ v \<Longrightarrow> v @ d = c @ w @ rest \<Longrightarrow> a @ s @ d = b @ c @ w @ rest"
  by (metis append_assoc)

definition run_data :: "u32 \<Rightarrow> 'j ConnOp list \<Rightarrow> bytes" where
  "run_data k ops = concat (map (step_data k) ops)"

lemma run_step:
  "conn_run js (x # ops) w = (w', cs) \<longleftrightarrow>
    (\<exists>v cs1 cs2. conn_op js x w = (v, cs1) \<and> conn_run js ops v = (w', cs2) \<and> cs = cs1 @ cs2)"
  by (auto split: prod.split)

lemma unrouted_run:
  "conn_inv w \<Longrightarrow> r < cn_next_inbox w \<Longrightarrow> \<forall>k. map_of (cn_routes w) k \<noteq> Some r \<Longrightarrow> conn_run js ops w = (w', cs) \<Longrightarrow>
    (\<forall>k. map_of (cn_routes w') k \<noteq> Some r) \<and>
    in_bytes (cn_inboxes w r) = taken_from r cs @ in_bytes (cn_inboxes w' r) \<and> in_end (cn_inboxes w' r) = in_end (cn_inboxes w r)"
proof (induction ops arbitrary: w cs)
  case (Cons x ops)
  from Cons.prems(4) obtain v cs1 cs2 where step: "conn_op js x w = (v, cs1)" "conn_run js ops v = (w', cs2)" "cs = cs1 @ cs2"
    unfolding run_step by blast
  note unrouted = unrouted_step[OF Cons.prems(1-3) step(1)]
  have "conn_inv v" using conn_op_inv[OF Cons.prems(1), of js x] step(1) by simp
  from Cons.IH[OF this _ _ step(2)] unrouted step(3) show ?case by (auto simp: taken_from_append)
qed simp

lemma stream_run:
  "conn_inv w \<Longrightarrow> k \<noteq> 0 \<Longrightarrow> map_of (cn_routes w) k = Some r \<Longrightarrow> conn_run js ops w = (w', cs) \<Longrightarrow>
    (\<exists>rest. in_bytes (cn_inboxes w r) @ run_data k ops = taken_from r cs @ in_bytes (cn_inboxes w' r) @ rest \<and>
      (map_of (cn_routes w') k = Some r \<longrightarrow> rest = [])) \<and>
    (map_of (cn_routes w') k = Some r \<or> in_end (cn_inboxes w' r) \<noteq> None \<or> list_ex (reopens js k) ops)"
proof (induction ops arbitrary: w cs)
  case (Cons x ops)
  from Cons.prems(4) obtain v cs1 cs2 where step: "conn_op js x w = (v, cs1)" "conn_run js ops v = (w', cs2)" "cs = cs1 @ cs2"
    unfolding run_step by blast
  have v: "conn_inv v" using conn_op_inv[OF Cons.prems(1), of js x] step(1) by simp
  show ?case
  proof (cases "map_of (cn_routes v) k = Some r")
    case True
    with stream_step[OF Cons.prems(1-3) step(1)]
    have "in_bytes (cn_inboxes w r) @ step_data k x = taken_from r cs1 @ in_bytes (cn_inboxes v r)" by blast
    note here = this
    from Cons.IH[OF v Cons.prems(2) True step(2)] obtain rest where rest: "in_bytes (cn_inboxes v r) @ run_data k ops = taken_from r cs2 @ in_bytes (cn_inboxes w' r) @ rest"
      "map_of (cn_routes w') k = Some r \<longrightarrow> rest = []"
      "map_of (cn_routes w') k = Some r \<or> in_end (cn_inboxes w' r) \<noteq> None \<or> list_ex (reopens js k) ops" by blast
    have "in_bytes (cn_inboxes w r) @ run_data k (x # ops) = taken_from r cs @ in_bytes (cn_inboxes w' r) @ rest"
      using chain_append[OF here rest(1)] step(3) by (simp add: run_data_def taken_from_append)
    with rest(2,3) show ?thesis by auto
  next
    case False
    with stream_step[OF Cons.prems(1-3) step(1)] obtain rest where gone: "\<forall>k'. map_of (cn_routes v) k' \<noteq> Some r" "r < cn_next_inbox v"
      "in_bytes (cn_inboxes w r) @ step_data k x = taken_from r cs1 @ in_bytes (cn_inboxes v r) @ rest"
      "in_end (cn_inboxes v r) \<noteq> None \<or> reopens js k x" by blast
    from unrouted_run[OF v gone(2,1) step(2)] have keep: "\<forall>k'. map_of (cn_routes w') k' \<noteq> Some r"
      "in_bytes (cn_inboxes v r) = taken_from r cs2 @ in_bytes (cn_inboxes w' r)" "in_end (cn_inboxes w' r) = in_end (cn_inboxes v r)" by blast+
    have "in_bytes (cn_inboxes w r) @ run_data k (x # ops) =
        taken_from r cs @ in_bytes (cn_inboxes w' r) @ rest @ run_data k ops"
      using gone(3) keep(2) step(3) by (simp add: run_data_def taken_from_append append_assoc[symmetric] del: append_assoc)
    with keep gone(4) show ?thesis by auto
  qed
qed (simp add: run_data_def)

text \<open>How a call is answered: a frame on channel 0 whose message has its id.\<close>

definition answers :: "'j JsonLib \<Rightarrow> 'j ConnOp \<Rightarrow> u64 \<Rightarrow> 'j Reply \<Rightarrow> bool" where
  "answers js x ident reply \<longleftrightarrow>
     (\<exists>f m. x = Op_Frame f \<and> cf_channel f = 0 \<and> cf_kind f = Kind_Data \<and> js_from_slice js (cf_payload f) = Inr m \<and>
        Option.bind (js_get js m ''id'') (js_as_u64 js) = Some ident \<and> rp_result reply = answer_result js m \<and>
        map_option fst (rp_route reply) = opened_channel js (answer_result js m))"

text \<open>Right after the answer the channel it opened is routed to an empty inbox.\<close>

definition fresh_stream :: "'j Conn \<Rightarrow> 'j Reply \<Rightarrow> bool" where
  "fresh_stream w reply \<longleftrightarrow> (\<forall>k r. rp_route reply = Some (k, r) \<longrightarrow> map_of (cn_routes w) k = Some r \<and> cn_inboxes w r = Inbox_default)"

lemma Worker_answer_reply:
  assumes "pending_inv w" "Worker_answer js payload w = (w', res)"
  shows "cn_slots w' c = cn_slots w c \<or>
    (\<exists>m reply. js_from_slice js payload = Inr m \<and> res = Inr () \<and> sl_reply (cn_slots w c) = None \<and>
       Option.bind (js_get js m ''id'') (js_as_u64 js) = Some (sl_id (cn_slots w c)) \<and>
       cn_slots w' c = (cn_slots w c)\<lparr>sl_reply := Some reply\<rparr> \<and> rp_result reply = answer_result js m \<and>
       map_option fst (rp_route reply) = opened_channel js (answer_result js m) \<and> fresh_stream w' reply)"
  using assms
  by (auto simp: Worker_answer_def deliver_def open_route_def put_slot_def put_inbox_def pending_inv_def fresh_stream_def Let_def update_conv'
      split: sum.splits option.splits if_splits)

lemma dispatch_next_slot:
  assumes "dispatch js f w = (w', res)"
  shows "cn_next_slot w' = cn_next_slot w"
  using assms
proof (cases rule: dispatch_cases)
  case answer
  then show ?thesis
    by (auto simp: Worker_answer_def deliver_def open_route_def put_slot_def put_inbox_def Let_def
        split: sum.splits option.splits if_splits)
qed (auto simp: put_inbox_def)

lemma reply_step:
  assumes "conn_inv w" "conn_op js x w = (w', cs)" "c < cn_next_slot w"
  shows "c < cn_next_slot w' \<and> sl_id (cn_slots w' c) = sl_id (cn_slots w c) \<and>
    (sl_reply (cn_slots w' c) = sl_reply (cn_slots w c) \<or>
     sl_reply (cn_slots w c) = None \<and>
       (\<exists>reply. sl_reply (cn_slots w' c) = Some reply \<and> answers js x (sl_id (cn_slots w c)) reply \<and> fresh_stream w' reply))"
proof (cases x)
  case (Op_Frame f)
  obtain v res where v: "dispatch js f w = (v, res)" by force
  have lose: "cn_slots (lose u) = cn_slots u" "cn_next_slot (lose u) = cn_next_slot u" for u :: "'a Conn" by (simp_all add: lose_def)
  from v show ?thesis
  proof (cases rule: dispatch_cases)
    case answer
    have "pending_inv w" using assms(1) by (simp add: conn_inv_def)
    then show ?thesis
      using Worker_answer_reply[OF _ answer(3), of c] answer(1,2) assms(2,3) Op_Frame v lose dispatch_next_slot[OF v]
      by (cases "cn_lost w") (auto simp: answers_def split: sum.splits)
  qed (use assms(2,3) Op_Frame v lose in \<open>auto simp: put_inbox_def split: sum.splits if_splits\<close>)
next
  case (Op_Write write_all flush alone)
  with assms show ?thesis by (auto simp: lose_def split: if_splits prod.splits sum.splits bool.splits)
next
  case (Op_Send name params k)
  with assms show ?thesis by (auto simp: call_send_def forget_call_def put_slot_def split: if_splits sum.splits prod.splits)
next
  case (Op_Read channel k)
  with assms show ?thesis by (auto simp: put_inbox_def split: prod.splits)
qed (use assms in \<open>auto simp: lose_def call_register_def forget_call_def put_slot_def Let_def split: if_splits\<close>)

text \<open>A slot is made unanswered.\<close>

lemma new_slot:
  assumes "conn_op js x w = (w', cs)" "c < cn_next_slot w'" "\<not> c < cn_next_slot w"
  shows "sl_reply (cn_slots w' c) = None"
proof -
  show ?thesis
  proof (cases x)
    case (Op_Frame f)
    with assms show ?thesis by (auto simp: lose_def split: if_splits prod.splits sum.splits dest: dispatch_next_slot)
  next
    case (Op_Write write_all flush alone)
    with assms show ?thesis by (auto simp: lose_def split: if_splits prod.splits sum.splits bool.splits)
  next
    case (Op_Send name params k)
    with assms show ?thesis by (auto simp: call_send_def forget_call_def put_slot_def split: if_splits sum.splits prod.splits)
  next
    case (Op_Read channel k)
    with assms show ?thesis by (auto simp: put_inbox_def split: prod.splits)
  qed (use assms in \<open>auto simp: lose_def call_register_def forget_call_def put_slot_def Let_def less_Suc_eq split: if_splits\<close>)
qed

lemma conn_run_append: "conn_run js (xs @ ys) w = (fst (conn_run js ys (fst (conn_run js xs w))), snd (conn_run js xs w) @ snd (conn_run js ys (fst (conn_run js xs w))))"
  by (induction xs arbitrary: w) (auto simp: case_prod_beta)

text \<open>A reply is kept, and it was some frame's answer to that call.\<close>

lemma reply_kept:
  "conn_inv w \<Longrightarrow> c < cn_next_slot w \<Longrightarrow> sl_reply (cn_slots w c) = Some reply \<Longrightarrow>
    sl_reply (cn_slots (fst (conn_run js ops w)) c) = Some reply"
proof (induction ops arbitrary: w)
  case (Cons x ops)
  obtain v cs where v: "conn_op js x w = (v, cs)" by force
  have "conn_inv v" using conn_op_inv[OF Cons.prems(1), of js x] v by simp
  with Cons.IH[of v] reply_step[OF Cons.prems(1) v Cons.prems(2)] Cons.prems(3) v show ?case by (auto simp: case_prod_beta)
qed simp

lemma reply_source:
  "c < cn_next_slot (fst (conn_run js ops Conn_new)) \<Longrightarrow> sl_reply (cn_slots (fst (conn_run js ops Conn_new)) c) = Some reply \<Longrightarrow>
    \<exists>x \<in> set ops. answers js x (sl_id (cn_slots (fst (conn_run js ops Conn_new)) c)) reply"
proof (induction ops rule: rev_induct)
  case Nil
  then show ?case by (simp add: Conn_new_def)
next
  case (snoc x ops)
  let ?w = "fst (conn_run js ops Conn_new)"
  obtain v cs where v: "conn_op js x ?w = (v, cs)" by force
  have run: "fst (conn_run js (ops @ [x]) Conn_new) = v" using v by (simp add: conn_run_append)
  have c: "c < cn_next_slot ?w" using new_slot[OF v, of c] snoc.prems run by force
  from reply_step[OF reachable_inv v c] snoc.prems(2) run
  consider "sl_reply (cn_slots ?w c) = Some reply" | "answers js x (sl_id (cn_slots ?w c)) reply" by auto
  then show ?case
  proof cases
    case 1
    with snoc.IH[OF c 1] reply_step[OF reachable_inv v c] run show ?thesis by auto
  next
    case 2
    with reply_step[OF reachable_inv v c] run show ?thesis by auto
  qed
qed

text \<open>A call that does not wait never waits again.\<close>

lemma waits_step:
  assumes "conn_inv w" "conn_op js x w = (w', cs)" "c < cn_next_slot w" "waits c w'"
  shows "waits c w"
proof -
  have kept: "sl_id (cn_slots w' c) = sl_id (cn_slots w c)" using reply_step[OF assms(1-3)] by blast
  have answer: "map_of (cn_pending v) k = Some c \<Longrightarrow> map_of (cn_pending w) k = Some c" if "Worker_answer js payload w = (v, res)" for payload v res k
    using that by (auto simp: Worker_answer_def deliver_def open_route_def put_slot_def put_inbox_def Let_def delete_conv'
        split: sum.splits option.splits if_splits)
  have frame: "map_of (cn_pending v) k = Some c \<Longrightarrow> map_of (cn_pending w) k = Some c" if "dispatch js f w = (v, res)" for f v res k
    using that answer by (cases rule: dispatch_cases) (auto simp: put_inbox_def)
  have "map_of (cn_pending w) (sl_id (cn_slots w' c)) = Some c"
  proof (cases x)
    case (Op_Frame f)
    with assms(2,4) frame show ?thesis by (auto simp: waits_def lose_def split: if_splits prod.splits sum.splits)
  next
    case (Op_Write write_all flush alone)
    with assms(2,4) show ?thesis by (auto simp: waits_def lose_def split: if_splits prod.splits sum.splits bool.splits)
  next
    case (Op_Send name params k)
    with assms(2,4) show ?thesis
      by (auto simp: waits_def call_send_def forget_call_def put_slot_def delete_conv' split: if_splits sum.splits prod.splits)
  next
    case (Op_Read channel k)
    with assms(2,4) show ?thesis by (auto simp: waits_def put_inbox_def split: prod.splits)
  qed (use assms(2-4) in \<open>auto simp: waits_def lose_def call_register_def forget_call_def put_slot_def Let_def update_conv' delete_conv' split: if_splits\<close>)
  then show ?thesis unfolding waits_def kept .
qed

lemma waits_run: "conn_inv w \<Longrightarrow> c < cn_next_slot w \<Longrightarrow> waits c (fst (conn_run js ops w)) \<Longrightarrow> waits c w"
proof (induction ops arbitrary: w)
  case (Cons x ops)
  obtain v cs where v: "conn_op js x w = (v, cs)" by force
  have "conn_inv v" using conn_op_inv[OF Cons.prems(1), of js x] v by simp
  moreover have "c < cn_next_slot v" using reply_step[OF Cons.prems(1) v Cons.prems(2)] by blast
  ultimately have "waits c v" using Cons.IH[of v] Cons.prems(3) v by (auto simp: case_prod_beta)
  from waits_step[OF Cons.prems(1) v Cons.prems(2) this] show ?case .
qed simp

text \<open>
  A caller that has timed out but not yet withdrawn its id can still be answered; the stream that answer
  opens is then routed although nobody holds it.
\<close>

lemma late_answer_leaks:
  assumes "conn_inv w" "waits c w" "sl_open (cn_slots w c)" "call_receive c w = None"
    and "cf_channel f = 0" "cf_kind f = Kind_Data" "js_from_slice js (cf_payload f) = Inr m"
    and "Option.bind (js_get js m ''id'') (js_as_u64 js) = Some (sl_id (cn_slots w c))"
    and "opened_channel js (answer_result js m) = Some k"
  shows "\<exists>r. map_of (cn_routes (forget_call c (fst (dispatch js f w)))) k = Some r \<and>
    \<not> sl_open (cn_slots (forget_call c (fst (dispatch js f w))) c)"
  using assms
  by (auto simp: dispatch_def Worker_answer_def deliver_def open_route_def put_slot_def put_inbox_def forget_call_def waits_def call_receive_def
      Let_def update_conv' split: option.splits)

text \<open>The worker handles the frames of what it reads, in order.\<close>

fun dispatch_all :: "'j JsonLib \<Rightarrow> CoreFrame list \<Rightarrow> 'j Conn \<Rightarrow> 'j Conn \<times> (unit, CoreError) result" where
  "dispatch_all js [] w = (w, Inr ())"
| "dispatch_all js (f # fs) w = (case dispatch js f w of (w, Inl e) \<Rightarrow> (w, Inl e) | (w, Inr _) \<Rightarrow> dispatch_all js fs w)"

lemma dispatch_all_append:
  "dispatch_all js (fs @ gs) w = (case dispatch_all js fs w of (w, Inl e) \<Rightarrow> (w, Inl e) | (w, Inr _) \<Rightarrow> dispatch_all js gs w)"
  by (induction fs arbitrary: w) (auto split: prod.split sum.split)

lemma dispatch_frames_view:
  assumes "decoder_inv d"
  shows "\<exists>d' w' res. dispatch_frames js d w = Some (d', w', res) \<and> decoder_inv d' \<and>
    (res = Inr () \<longrightarrow> (\<exists>fs. all_frames (unread d) = (fs, unread d', None) \<and> dispatch_all js fs w = (w', Inr ())))"
  using assms
proof (induction js d w rule: dispatch_frames.induct)
  case (1 js d w)
  from next_frame_view[OF 1(2)] obtain d' r where n: "next_frame d = Some (d', r)" "decoder_inv d'"
    "case r of Inl e \<Rightarrow> first_frame (unread d) = Inl e \<and> unread d' = unread d
     | Inr None \<Rightarrow> first_frame (unread d) = Inr None \<and> unread d' = unread d
     | Inr (Some f) \<Rightarrow> first_frame (unread d) = Inr (Some (f, unread d'))" by blast
  show ?case
  proof (cases "\<exists>f. r = Inr (Some f)")
    case True
    then obtain f where r: "r = Inr (Some f)" by blast
    obtain v res where v: "dispatch js f w = (v, res)" by force
    show ?thesis
    proof (cases res)
      case (Inl e)
      with n r v show ?thesis by (simp add: dispatch_frames.simps[of js d w])
    next
      case (Inr u)
      with 1(1)[OF n(1) refl r refl v[symmetric] Inr n(2)] n r v show ?thesis
        by (auto simp: dispatch_frames.simps[of js d w])
    qed
  next
    case False
    with n show ?thesis by (cases r) (auto simp: dispatch_frames.simps[of js d w] split: option.splits)
  qed
qed

definition read_bytes :: "ReadResult list \<Rightarrow> bytes" where
  "read_bytes reads = concat (map (\<lambda>r. case r of Read_Ok bytes \<Rightarrow> bytes | _ \<Rightarrow> []) reads)"

lemma serve_read_view:
  assumes "decoder_inv d"
  shows "\<exists>d' w' res. serve_read js read d w = Some (d', w', res) \<and> decoder_inv d' \<and>
    (res = Inr () \<longrightarrow> (\<exists>fs. all_frames (unread d @ read_bytes [read]) = (fs, unread d', None) \<and> dispatch_all js fs w = (w', Inr ())))"
proof (cases read)
  case (Read_Ok bytes)
  show ?thesis
  proof (cases "bytes = []")
    case False
    note push = Decoder_push_view[OF assms, of bytes]
    from dispatch_frames_view[OF push(1), of js w] False Read_Ok show ?thesis
      by (simp add: serve_read_def read_bytes_def push(2))
  qed (use assms Read_Ok in \<open>simp add: serve_read_def\<close>)
next
  case Read_Waiting
  with dispatch_frames_view[OF assms, of js w] show ?thesis by (simp add: serve_read_def read_bytes_def)
qed (use assms in \<open>simp add: serve_read_def\<close>)

lemma serve_reads_view:
  "decoder_inv d \<Longrightarrow> \<exists>d' w' res. serve_reads js reads d w = Some (d', w', res) \<and>
    (res = Inr () \<and> reads \<noteq> [] \<longrightarrow>
      (\<exists>fs. all_frames (unread d @ read_bytes reads) = (fs, unread d', None) \<and> dispatch_all js fs w = (w', Inr ())))"
proof (induction reads arbitrary: d w)
  case (Cons read reads)
  from serve_read_view[OF Cons.prems, of js read w] obtain d1 w1 r1 where one: "serve_read js read d w = Some (d1, w1, r1)" "decoder_inv d1"
    "r1 = Inr () \<longrightarrow> (\<exists>fs. all_frames (unread d @ read_bytes [read]) = (fs, unread d1, None) \<and> dispatch_all js fs w = (w1, Inr ()))" by blast
  show ?case
  proof (cases r1)
    case (Inl e)
    with one(1) show ?thesis by simp
  next
    case (Inr u)
    with one(3) obtain fs where fs: "all_frames (unread d @ read_bytes [read]) = (fs, unread d1, None)" "dispatch_all js fs w = (w1, Inr ())" by auto
    from Cons.IH[OF one(2), of w1] obtain d' w' res where rest: "serve_reads js reads d1 w1 = Some (d', w', res)"
      "res = Inr () \<and> reads \<noteq> [] \<longrightarrow> (\<exists>gs. all_frames (unread d1 @ read_bytes reads) = (gs, unread d', None) \<and> dispatch_all js gs w1 = (w', Inr ()))"
      by blast
    have step: "serve_reads js (read # reads) d w = Some (d', w', res)" using one(1) Inr rest(1) by simp
    show ?thesis
    proof (cases "reads = []")
      case True
      with fs step rest(1) show ?thesis by auto
    next
      case False
      have "\<exists>fs. all_frames (unread d @ read_bytes (read # reads)) = (fs, unread d', None) \<and> dispatch_all js fs w = (w', Inr ())" if "res = Inr ()"
      proof -
        from rest(2) that False obtain gs where "all_frames (unread d1 @ read_bytes reads) = (gs, unread d', None)" "dispatch_all js gs w1 = (w', Inr ())" by blast
        with all_frames_append[OF fs(1), of "read_bytes reads"] fs(2) have
          "all_frames (unread d @ read_bytes (read # reads)) = (fs @ gs, unread d', None) \<and> dispatch_all js (fs @ gs) w = (w', Inr ())"
          by (simp add: read_bytes_def dispatch_all_append)
        then show ?thesis by blast
      qed
      with step show ?thesis by blast
    qed
  qed
qed simp

text \<open>The first line of the reads of a handshake; \<open>None\<close> is the deadline.\<close>

definition hello_bytes :: "ReadResult option list \<Rightarrow> bytes" where
  "hello_bytes reads = concat (map (\<lambda>r. case r of Some (Read_Ok bytes) \<Rightarrow> bytes | _ \<Rightarrow> []) reads)"

lemma split_line_Some:
  "split_line bs = Some (line, rest) \<Longrightarrow> bs = line @ rest \<and> (\<exists>body. line = body @ [10] \<and> 10 \<notin> set body)"
proof (induction bs arbitrary: line)
  case (Cons b bs)
  show ?case
  proof (cases "b = 10")
    case True
    with Cons.prems have "line = [] @ [10]" "rest = bs" by auto
    with True show ?thesis by auto
  next
    case False
    with Cons.prems obtain l where l: "split_line bs = Some (l, rest)" "line = b # l" by auto
    from Cons.IH[OF l(1)] obtain body where "bs = l @ rest" "l = body @ [10]" "10 \<notin> set body" by blast
    with False l(2) have "b # bs = line @ rest \<and> line = (b # body) @ [10] \<and> 10 \<notin> set (b # body)" by auto
    then show ?thesis by blast
  qed
qed simp

lemma read_hello_line:
  "read_hello js buffer reads = Some (Inr (v, rest)) \<Longrightarrow>
    \<exists>used unused line. reads = used @ unused \<and> split_line (buffer @ hello_bytes used) = Some (line, rest) \<and> js_from_slice js line = Inr v"
proof (induction reads arbitrary: buffer)
  case Nil
  then show ?case
    by (subst (asm) read_hello.simps) (auto simp: hello_bytes_def split: option.splits sum.splits if_splits)
next
  case (Cons r reads)
  show ?case
  proof (cases "split_line buffer")
    case (Some x)
    with Cons.prems have "split_line (buffer @ hello_bytes []) = Some (fst x, rest) \<and> js_from_slice js (fst x) = Inr v"
      by (subst (asm) read_hello.simps) (auto simp: hello_bytes_def split: sum.splits prod.splits)
    then show ?thesis by blast
  next
    case None
    then obtain more where "read_hello js (buffer @ more) reads = Some (Inr (v, rest))" "hello_bytes [r] = more"
      using Cons.prems
      by (subst (asm) read_hello.simps) (auto simp: hello_bytes_def split: option.splits ReadResult.splits if_splits)
    with Cons.IH[of "buffer @ more"] obtain used unused line where
      "reads = used @ unused" "split_line (buffer @ hello_bytes (r # used)) = Some (line, rest)" "js_from_slice js line = Inr v"
      by (auto simp: hello_bytes_def)
    then show ?thesis by (metis append_Cons)
  qed
qed

lemma handshake_accepts:
  assumes "handshake js reads = Some (Inr (hello, d))"
  obtains v rest where "read_hello js [] reads = Some (Inr (v, rest))" "he_framed hello" "Hello_check hello = Inr ()"
    "d = Decoder_push Decoder_default rest"
proof (cases "read_hello js [] reads")
  case (Some r)
  show ?thesis
  proof (cases r)
    case (Inr x)
    obtain v rest where x: "x = (v, rest)" by force
    from assms Some Inr x obtain y where "hello_answer js M_Hello v = Inr y"
      "(case js_hello js y of Inl e \<Rightarrow> Inl (CE_Invalid M_Hello e)
        | Inr hello \<Rightarrow> if \<not> he_framed hello then Inl CE_Unframed
            else case Hello_check hello of Inl mismatch \<Rightarrow> Inl (CE_Compat mismatch)
              | Inr _ \<Rightarrow> Inr (hello, Decoder_push Decoder_default rest)) = Inr (hello, d)"
      unfolding handshake_def by (simp only: option.case sum.case prod.case option.inject and_then_eq_Inr) blast
    then have "he_framed hello" "Hello_check hello = Inr ()" "d = Decoder_push Decoder_default rest"
      by (simp_all split: sum.splits if_splits)
    with that Some Inr x show ?thesis by blast
  qed (use assms Some in \<open>simp add: handshake_def\<close>)
qed (use assms in \<open>simp add: handshake_def\<close>)

section \<open>A small message format\<close>

text \<open>
  A message is its bytes: the first is the id, the rest the result, whose first byte is the channel. It
  satisfies what the examples below need of a message format.
\<close>

definition demo_hello_reply :: Hello where
  "demo_hello_reply = \<lparr>he_core = \<lparr>ci_id = [], ci_name = []\<rparr>, he_features = [], he_framed = True, he_generation = 1,
     he_methods = map method_as_str CoreMethod_ALL, he_version = chars ''0.1.13''\<rparr>"

definition demo_json :: "bytes JsonLib" where
  "demo_json = \<lparr>js_from_slice = Inr,
     js_get = \<lambda>m key. if key = ''result'' then Some (tl m) else if key = ''error'' \<or> m = [] then None else Some [hd m],
     js_as_u64 = \<lambda>v. if v = [] then None else Some (ucast (hd v)), js_refusal = \<lambda>_. Inl ''refusal'', js_hello = \<lambda>_. Inr demo_hello_reply,
     js_to_string = \<lambda>_. [], js_null = [], js_closed = \<lambda>_. Inl ''closed'', js_request = \<lambda>ident method params. Inr (ucast ident # params)\<rparr>"

abbreviation data_frame :: "u32 \<Rightarrow> bytes \<Rightarrow> CoreFrame" where
  "data_frame channel payload \<equiv> \<lparr>cf_channel = channel, cf_kind = Kind_Data, cf_payload = payload\<rparr>"

lemmas demo_eval = demo_json_def call_register_def put_slot_def put_inbox_def Conn_new_def MAX_IN_FLIGHT_def MAX_OUTBOUND_def dispatch_def
  Worker_answer_def open_route_def opened_channel_def answer_result_def deliver_def Inbox_default_def lose_def

section \<open>Properties\<close>

text \<open>
  C20. Every call gets the answer to its own request, and only one: in any interleaving of the worker and the
  callers at most 64 calls wait at once, the calls are numbered in order, a reply a call gets is what some
  frame on channel 0 answered to its number, with the stream that answer opened, and nothing replaces it.
\<close>

theorem calls_answered:
  assumes "c < cn_next_slot (fst (conn_run js ops Conn_new))"
  shows "let w = fst (conn_run js ops Conn_new) in
    length (cn_pending w) \<le> 64 \<and> sl_id (cn_slots w c) = of_nat (Suc c) \<and>
    (\<forall>reply. sl_reply (cn_slots w c) = Some reply \<longrightarrow>
       (\<exists>x \<in> set ops. answers js x (of_nat (Suc c)) reply) \<and>
       (\<forall>later. sl_reply (cn_slots (fst (conn_run js later w)) c) = Some reply))"
proof -
  let ?w = "fst (conn_run js ops Conn_new)"
  have inv: "conn_inv ?w" by (rule reachable_inv)
  then have ids: "sl_id (cn_slots ?w c) = of_nat (Suc c)" "length (cn_pending ?w) \<le> 64"
    using assms by (simp_all add: conn_inv_defs MAX_IN_FLIGHT_def)
  moreover have "\<exists>x \<in> set ops. answers js x (of_nat (Suc c)) reply" if "sl_reply (cn_slots ?w c) = Some reply" for reply
    using reply_source[OF assms that] ids(1) by simp
  ultimately show ?thesis using reply_kept[OF inv assms] unfolding Let_def by blast
qed

theorem calls_answered_witness:
  "0 < cn_next_slot (fst (conn_run demo_json [Op_Register, Op_Frame (data_frame 0 [1, 7])] Conn_new)) \<and>
   (\<exists>reply. sl_reply (cn_slots (fst (conn_run demo_json [Op_Register, Op_Frame (data_frame 0 [1, 7])] Conn_new)) 0) = Some reply \<and>
     (\<exists>x. answers demo_json x (of_nat (Suc 0)) reply))"
proof -
  let ?ops = "[Op_Register, Op_Frame (data_frame 0 [1, 7])] :: bytes ConnOp list"
  have n: "0 < cn_next_slot (fst (conn_run demo_json ?ops Conn_new))"
    and r: "sl_reply (cn_slots (fst (conn_run demo_json ?ops Conn_new)) 0) = Some \<lparr>rp_result = Inr [7], rp_route = Some (7, 0)\<rparr>"
    by (simp_all add: demo_eval)
  from calls_answered[OF n, unfolded Let_def] r n show ?thesis by blast
qed

text \<open>What the reader of an inbox was given: the chunks of the reads that did not fail.\<close>

definition got_from :: "nat \<Rightarrow> ReadStep list \<Rightarrow> bytes" where
  "got_from r cs = concat (map (\<lambda>(_, _, result). case result of Inr c \<Rightarrow> ch_bytes c | Inl _ \<Rightarrow> []) (filter (\<lambda>(k, _). k = r) cs))"

text \<open>A read gives what it took, or fails for want of room for its credit, and then what it took is nowhere.\<close>

definition read_ok :: "ReadStep \<Rightarrow> bool" where
  "read_ok x = (case snd (snd x) of Inr c \<Rightarrow> ch_bytes c = fst (snd x) | Inl e \<Rightarrow> fst (snd x) \<noteq> [] \<and> (e = CE_Busy \<or> e = CE_Lost))"

lemma Stream_read_ok:
  assumes "Stream_read (outbound_queue gone) channel b queue = (b', queue', res)"
  shows "read_ok (r, in_bytes b, res)"
proof -
  have "encode_frame channel Kind_Credit (le_bytes_32 n) \<noteq> Inl e" for n e
    by (simp add: encode_frame_def le_bytes_32_def MAX_PAYLOAD_def)
  then show ?thesis using assms
    by (auto simp: read_ok_def Stream_read_def Route_take_def Link_send_def outbound_queue_def Let_def
        split: if_splits sum.splits option.splits)
qed

lemma conn_op_reads: "conn_op js x w = (w', cs) \<Longrightarrow> list_all read_ok cs"
  by (cases x) (auto dest: Stream_read_ok split: prod.splits)

lemma conn_run_reads: "conn_run js ops w = (w', cs) \<Longrightarrow> list_all read_ok cs"
  by (induction ops arbitrary: w cs) (auto dest: conn_op_reads split: prod.splits)

lemma got_all: "list_all read_ok cs \<Longrightarrow> \<forall>(k, _, res) \<in> set cs. k = r \<longrightarrow> is_ok res \<Longrightarrow> got_from r cs = taken_from r cs"
  by (induction cs) (auto simp: got_from_def taken_from_def read_ok_def split: sum.splits)

text \<open>
  C19. The bytes of a stream reach its reader in order, and only a read that fails loses any: when a frame's answer
  gives a call a stream, then, whatever the threads do afterwards, what the reads took and what waits in its inbox are
  the payloads of the data frames on its channel, in order, up to some point; up to now, as long as the stream is open.
  It only stops being open with an end, unless the core opens the same channel again. A read gives its caller exactly the
  bytes it took; if it fails it has taken some, and the queue for their credit was full or gone: these bytes are lost. So
  while no read of the stream fails its reader is given every byte.
\<close>

theorem stream_exact:
  assumes "w = fst (conn_run js ops Conn_new)" "conn_op js (Op_Frame f) w = (v, cs)" "c < cn_next_slot w"
    and "sl_reply (cn_slots w c) = None" "sl_reply (cn_slots v c) = Some reply" "rp_route reply = Some (k, r)" "k \<noteq> 0"
    and "conn_run js later v = (u, reads)"
  shows "(\<exists>rest. run_data k later = taken_from r reads @ in_bytes (cn_inboxes u r) @ rest \<and>
      (map_of (cn_routes u) k = Some r \<longrightarrow> rest = [])) \<and>
    (map_of (cn_routes u) k = Some r \<or> in_end (cn_inboxes u r) \<noteq> None \<or> list_ex (reopens js k) later) \<and>
    (\<forall>(r', bytes, result) \<in> set reads. case result of
       Inr chunk \<Rightarrow> ch_bytes chunk = bytes | Inl e \<Rightarrow> bytes \<noteq> [] \<and> (e = CE_Busy \<or> e = CE_Lost)) \<and>
    ((\<forall>(r', bytes, result) \<in> set reads. r' = r \<longrightarrow> is_ok result) \<longrightarrow> got_from r reads = taken_from r reads)"
proof -
  have inv: "conn_inv w" unfolding assms(1) by (rule reachable_inv)
  have "conn_inv v" using conn_op_inv[OF inv, of js "Op_Frame f"] assms(2) by simp
  moreover have "fresh_stream v reply" using reply_step[OF inv assms(2,3)] assms(4,5) by auto
  then have "map_of (cn_routes v) k = Some r" "cn_inboxes v r = Inbox_default" using assms(6) by (auto simp: fresh_stream_def)
  ultimately have "(\<exists>rest. run_data k later = taken_from r reads @ in_bytes (cn_inboxes u r) @ rest \<and>
      (map_of (cn_routes u) k = Some r \<longrightarrow> rest = [])) \<and>
    (map_of (cn_routes u) k = Some r \<or> in_end (cn_inboxes u r) \<noteq> None \<or> list_ex (reopens js k) later)"
    using stream_run[of v k r js later u reads] assms(7,8) by (simp add: Inbox_default_def)
  moreover have reads: "list_all read_ok reads" by (rule conn_run_reads [OF assms(8)])
  then have "\<forall>(r', bytes, result) \<in> set reads. case result of
       Inr chunk \<Rightarrow> ch_bytes chunk = bytes | Inl e \<Rightarrow> bytes \<noteq> [] \<and> (e = CE_Busy \<or> e = CE_Lost)"
    by (auto simp: list_all_iff read_ok_def split: sum.splits)
  ultimately show ?thesis using got_all [OF reads, of r] by blast
qed

definition demo_later :: "bytes ConnOp list" where
  "demo_later = [Op_Frame (data_frame 7 [4, 5]), Op_Read 7 0, Op_Frame (data_frame 7 [6])]"

theorem stream_exact_witness:
  "\<exists>(u :: bytes Conn) reads. conn_run demo_json demo_later (fst (conn_op demo_json (Op_Frame (data_frame 0 [1, 7]))
     (fst (conn_run demo_json [Op_Register] Conn_new)))) = (u, reads) \<and>
   run_data 7 demo_later = got_from 0 reads @ in_bytes (cn_inboxes u 0) \<and> run_data 7 demo_later = [4, 5, 6]"
proof -
  let ?w = "fst (conn_run demo_json [Op_Register] Conn_new)" and ?f = "data_frame 0 [1, 7]"
  let ?v = "fst (conn_op demo_json (Op_Frame ?f) ?w)"
  let ?u = "fst (conn_run demo_json demo_later ?v)" and ?taken = "snd (conn_run demo_json demo_later ?v)"
  have v: "conn_op demo_json (Op_Frame ?f) ?w = (?v, snd (conn_op demo_json (Op_Frame ?f) ?w))"
    and u: "conn_run demo_json demo_later ?v = (?u, ?taken)" by simp_all
  have reply: "0 < cn_next_slot ?w" "sl_reply (cn_slots ?w 0) = None"
    "sl_reply (cn_slots ?v 0) = Some \<lparr>rp_result = Inr [7], rp_route = Some (7, 0)\<rparr>" by (simp_all add: demo_eval)
  have route: "rp_route \<lparr>rp_result = Inr [7] :: (bytes, Refusal) result, rp_route = Some (7, 0)\<rparr> = Some (7 :: u32, 0)" "(7 :: u32) \<noteq> 0" by simp_all
  note eval = demo_eval demo_later_def Stream_read_def Route_take_def Route_push_def Link_send_def outbound_queue_def encode_frame_def
    MAX_PAYLOAD_def MAX_BUFFERED_def le_bytes_32_def
  have "map_of (cn_routes ?u) 7 = Some 0" by (simp add: eval Let_def split: prod.split)
  moreover have "\<forall>(r', bytes, result) \<in> set ?taken. r' = 0 \<longrightarrow> is_ok result"
    by (simp add: eval Let_def split: prod.split)
  ultimately have "run_data 7 demo_later = got_from 0 ?taken @ in_bytes (cn_inboxes ?u 0)"
    using stream_exact[OF refl v reply route u] by auto
  moreover have "run_data 7 demo_later = [4, 5, 6]" by (simp add: run_data_def step_data_def demo_later_def)
  ultimately show ?thesis using u by blast
qed

text \<open>
  C22. Losing the connection settles everything: whatever happens afterwards, no call made before waits any
  longer, and every stream that was open has ended as lost.
\<close>

theorem lost_settles:
  assumes "w = fst (conn_run js ops Conn_new)" "u = fst (conn_run js later (fst (conn_op js Op_Lose w)))"
  shows "(c < cn_next_slot w \<longrightarrow> call_receive c u \<noteq> None) \<and>
    (map_of (cn_routes w) k = Some r \<longrightarrow> in_end (cn_inboxes u r) = Some End_Lost)"
proof -
  have w: "conn_inv w" unfolding assms(1) by (rule reachable_inv)
  have v: "conn_inv (lose w)" by (rule lose_inv[OF w])
  have u: "u = fst (conn_run js later (lose w))" using assms(2) by simp
  have "call_receive c u \<noteq> None" if "c < cn_next_slot w"
  proof -
    have "\<not> waits c (lose w)" by (simp add: waits_def lose_def)
    moreover have "c < cn_next_slot (lose w)" using that by (simp add: lose_def)
    ultimately have "\<not> waits c u" using waits_run[OF v] u by blast
    then show ?thesis by (simp add: call_receive_def split: option.split)
  qed
  moreover have "in_end (cn_inboxes u r) = Some End_Lost" if "map_of (cn_routes w) k = Some r"
  proof -
    note routed = inv_routed[OF w that]
    obtain cs where "conn_run js later (lose w) = (u, cs)" using u by (metis prod.collapse)
    from unrouted_run[OF v _ _ this, of r] routed(1) lose_inbox(2,3)[of w] lose_ends[OF that routed(2)] show ?thesis by simp
  qed
  ultimately show ?thesis by blast
qed

theorem lost_settles_witness:
  "\<exists>u :: bytes Conn. call_receive 0 u \<noteq> None \<and> in_end (cn_inboxes u 0) = Some End_Lost"
proof -
  let ?ops = "[Op_Register, Op_Frame (data_frame 0 [1, 7])] :: bytes ConnOp list"
  let ?w = "fst (conn_run demo_json ?ops Conn_new)"
  have n: "0 < cn_next_slot ?w" and r: "map_of (cn_routes ?w) 7 = Some 0" by (simp_all add: demo_eval)
  from lost_settles[OF refl refl, of 0 demo_json ?ops "[]" 7 0] n r show ?thesis by blast
qed

text \<open>
  C21. Nothing is lost between the handshake and the frames: however the reads are cut, an accepted handshake
  has read one line, the core's answer, from a core that is framed and passes the check; the worker
  never panics, and the frames it handled are the frames of exactly what followed that line.
\<close>

theorem session_frames_exact:
  assumes "handshake js reads = Some (Inr (hello, d))" "served \<noteq> []"
  shows "he_framed hello \<and> Hello_check hello = Inr () \<and>
    (\<exists>used unused body rest d' w' res. reads = used @ unused \<and> hello_bytes used = body @ 10 # rest \<and> 10 \<notin> set body \<and>
      serve_reads js served d w = Some (d', w', res) \<and>
      (res = Inr () \<longrightarrow> (\<exists>fs. all_frames (rest @ read_bytes served) = (fs, unread d', None) \<and> dispatch_all js fs w = (w', Inr ()))))"
proof -
  from assms(1) obtain v rest where hello: "read_hello js [] reads = Some (Inr (v, rest))"
    "he_framed hello" "Hello_check hello = Inr ()" "d = Decoder_push Decoder_default rest"
    by (rule handshake_accepts)
  have default: "decoder_inv Decoder_default" "unread Decoder_default = []" by (simp_all add: decoder_inv_def unread_def Decoder_default_def)
  have d: "decoder_inv d" "unread d = rest" using Decoder_push_view[OF default(1), of rest] default(2) hello(4) by simp_all
  from read_hello_line[OF hello(1)] obtain used unused line where
    used: "reads = used @ unused" "split_line (hello_bytes used) = Some (line, rest)" by auto
  from split_line_Some[OF used(2)] obtain body where "hello_bytes used = body @ 10 # rest" "10 \<notin> set body" by auto
  with serve_reads_view[OF d(1), of js served w] assms(2) used(1) hello(2,3) d(2) show ?thesis by blast
qed

theorem session_frames_exact_witness:
  "\<exists>d. handshake demo_json [Some (Read_Ok [0, 9]), Some Read_Waiting, Some (Read_Ok [10, 7, 0])] = Some (Inr (demo_hello_reply, d)) \<and>
   he_framed demo_hello_reply \<and> (\<exists>r. serve_reads demo_json [Read_Waiting] d Conn_new = Some r)"
proof -
  let ?reads = "[Some (Read_Ok [0, 9]), Some Read_Waiting, Some (Read_Ok [10, 7, 0])]"
  have "version (chars ''0.1.13'') = [0, 1, 13]"
    using version_release[of "[]" "[]" 0 1 13] by (simp add: release_def chars_def decimal.simps)
  then have "Hello_check demo_hello_reply = Inr ()"
    by (auto simp: Hello_check_def demo_hello_reply_def GENERATION_def MIN_VERSION_def filter_empty_conv list_ex_iff)
  then have h: "handshake demo_json ?reads = Some (Inr (demo_hello_reply, Decoder_push Decoder_default [7, 0]))"
    by (simp add: handshake_def read_hello.simps demo_json_def hello_answer_def MAX_HELLO_def demo_hello_reply_def)
  from session_frames_exact[OF h, of "[Read_Waiting]" Conn_new] h show ?thesis by blast
qed

end
