(* ===== verification/Core_Events.thy ===== *)
theory Core_Events
  imports Core_Stream Wire "HOL-Library.List_Lexorder"
begin

text \<open>
  The events of a core and the terminals they describe: the records of
  \<open>crates/sheprd-core-client/src/wire.rs\<close>, the notices of \<open>event.rs\<close>, the subscription of \<open>stream.rs\<close> that reads
  them, and \<open>backend.rs\<close>, which applies them to the records and tells the app what changed. A \<open>BTreeMap\<close> is
  the list of its entries in key order. The typed readers of \<open>serde_json\<close> are the record \<open>EventLib\<close>.
\<close>

section \<open>Ordered maps\<close>

fun btree_insert :: "'k::linorder \<Rightarrow> 'v \<Rightarrow> ('k \<times> 'v) list \<Rightarrow> ('k \<times> 'v) list" where
  "btree_insert k v [] = [(k, v)]"
| "btree_insert k v ((a, b) # m) = (if k < a then (k, v) # (a, b) # m else if k = a then (k, v) # m else (a, b) # btree_insert k v m)"

definition btree_remove :: "'k \<Rightarrow> ('k \<times> 'v) list \<Rightarrow> ('k \<times> 'v) list" where
  "btree_remove k m = filter (\<lambda>(a, _). a \<noteq> k) m"

text \<open>\<open>collect\<close>: a later entry replaces an earlier one with its key.\<close>

definition btree_collect :: "('k::linorder \<times> 'v) list \<Rightarrow> ('k \<times> 'v) list" where
  "btree_collect entries = foldl (\<lambda>m (k, v). btree_insert k v m) [] entries"

section \<open>Records\<close>

type_synonym labels = "(str \<times> str) list"

record Foreground =
  fg_argv :: "str list"
  fg_cwd :: str
  fg_name :: str
  fg_pid :: int

datatype StatusState = SS_Blocked | SS_Done | SS_Error | SS_Idle | SS_Working | SS_Other

record Status =
  st_app :: str
  st_kind :: "str option"
  st_msg :: str
  st_progress :: "u8 option"
  st_state :: StatusState
  st_title :: str

datatype TerminalState = TS_Finished | TS_Live | TS_Other

record Terminal =
  te_address :: str
  te_argv :: "str list"
  te_cols :: u16
  te_cwd :: str
  te_exit_code :: "int option"
  te_foreground :: "Foreground option"
  te_keep :: bool
  te_labels :: labels
  te_name :: "str option"
  te_parent :: "str option"
  te_pid :: "int option"
  te_reason :: "str option"
  te_rows :: u16
  te_state :: TerminalState
  te_status :: "Status option"
  te_title :: "str option"

section \<open>Notices\<close>

record 'j Ended =
  en_exit_code :: "int option"
  en_reason :: "str option"
  en_signal :: "'j option"

datatype 'j TerminalChange =
    TC_Created Terminal
  | TC_Finished "'j Ended"
  | TC_Foreground "Foreground option"
  | TC_Keep bool
  | TC_Labels labels "Terminal option"
  | TC_Lost "'j Ended"
  | TC_Removed
  | TC_Restarted Terminal
  | TC_Size u16 u16
  | TC_Status bool "Status option"
  | TC_Title "str option"
  | TC_Turn "str option" u64
  | TC_Unknown str

record 'j Event =
  ev_change :: "'j TerminalChange"
  ev_seq :: u64
  ev_terminal :: str

datatype 'j Notice =
    No_Doc "str option" str u64 u64
  | No_Event "'j Event"
  | No_Heartbeat u64
  | No_Missed u64 "Terminal list"

text \<open>The readers of \<open>serde_json\<close>, one for each type an event is read as.\<close>

type_synonym ('j, 'a) reader = "'j \<Rightarrow> ('a, string) result"

record 'j RawEvent =
  re_data :: 'j
  re_seq :: u64
  re_terminal :: str
  re_kind :: str

record 'j EventLib =
  el_message :: "bytes \<Rightarrow> (str \<times> 'j, string) result"
  el_type_is :: "'j \<Rightarrow> string \<Rightarrow> bool"
  el_doc :: "('j, str option \<times> str \<times> u64 \<times> u64) reader"
  el_raw_event :: "('j, 'j RawEvent) reader"
  el_seq :: "('j, u64) reader"
  el_missed :: "('j, u64 \<times> Terminal list) reader"
  el_terminal :: "('j, Terminal) reader"
  el_ended :: "('j, 'j Ended) reader"
  el_foreground :: "('j, Foreground option) reader"
  el_keep :: "('j, bool) reader"
  el_labels :: "('j, labels \<times> Terminal option) reader"
  el_size :: "('j, u16 \<times> u16) reader"
  el_status :: "('j, bool \<times> Status option) reader"
  el_title :: "('j, str option) reader"
  el_turn :: "('j, str option \<times> u64) reader"

definition read_as :: "('j, 'a) reader \<Rightarrow> 'j \<Rightarrow> ('a \<Rightarrow> ('b, CoreError) result) \<Rightarrow> ('b, CoreError) result" where
  "read_as reader v f = (case reader v of Inl e \<Rightarrow> Inl (CE_Json e) | Inr a \<Rightarrow> f a)"

definition raw_change :: "'j EventLib \<Rightarrow> 'j RawEvent \<Rightarrow> ('j TerminalChange, CoreError) result" where
  "raw_change lib raw =
     (let data = re_data raw; kind = re_kind raw in
      if kind = chars ''created'' then read_as (el_terminal lib) data (\<lambda>r. Inr (TC_Created r))
      else if kind = chars ''finished'' then read_as (el_ended lib) data (\<lambda>e. Inr (TC_Finished e))
      else if kind = chars ''foreground'' then read_as (el_foreground lib) data (\<lambda>f. Inr (TC_Foreground f))
      else if kind = chars ''keep'' then read_as (el_keep lib) data (\<lambda>k. Inr (TC_Keep k))
      else if kind = chars ''labels'' then read_as (el_labels lib) data (\<lambda>(labels, record). Inr (TC_Labels labels record))
      else if kind = chars ''lost'' then read_as (el_ended lib) data (\<lambda>e. Inr (TC_Lost e))
      else if kind = chars ''removed'' then Inr TC_Removed
      else if kind = chars ''restarted'' then read_as (el_terminal lib) data (\<lambda>r. Inr (TC_Restarted r))
      else if kind = chars ''size'' then read_as (el_size lib) data (\<lambda>(cols, rows). Inr (TC_Size cols rows))
      else if kind = chars ''status'' then read_as (el_status lib) data (\<lambda>(reported, status). Inr (TC_Status reported status))
      else if kind = chars ''title'' then read_as (el_title lib) data (\<lambda>title. Inr (TC_Title title))
      else if kind = chars ''turn'' then read_as (el_turn lib) data (\<lambda>(state, turn). Inr (TC_Turn state turn))
      else Inr (TC_Unknown kind))"

definition event_of :: "'j EventLib \<Rightarrow> 'j RawEvent \<Rightarrow> ('j Event, CoreError) result" where
  "event_of lib raw =
     and_then (raw_change lib raw) (\<lambda>change. Inr \<lparr>ev_change = change, ev_seq = re_seq raw, ev_terminal = re_terminal raw\<rparr>)"

definition event_parse :: "'j EventLib \<Rightarrow> bytes \<Rightarrow> ('j Notice option, CoreError) result" where
  "event_parse lib line =
     (case el_message lib line of
        Inl e \<Rightarrow> Inl (CE_Json e)
      | Inr (method, params) \<Rightarrow>
          if method = chars ''event'' \<and> el_type_is lib params ''doc'' then
            read_as (el_doc lib) params (\<lambda>(machine, name, seq, ver). Inr (Some (No_Doc machine name seq ver)))
          else if method = chars ''event'' then
            read_as (el_raw_event lib) params (\<lambda>raw. and_then (event_of lib raw) (\<lambda>event. Inr (Some (No_Event event))))
          else if method = chars ''heartbeat'' then read_as (el_seq lib) params (\<lambda>seq. Inr (Some (No_Heartbeat seq)))
          else if method = chars ''missed'' then
            read_as (el_missed lib) params (\<lambda>(seq, terminals). Inr (Some (No_Missed seq terminals)))
          else Inr None)"

section \<open>Subscriptions\<close>

record Subscription =
  su_ended :: bool
  su_lines :: bytes

text \<open>The notices of lines; one that cannot be read is skipped.\<close>

definition notices_of :: "'j EventLib \<Rightarrow> bytes list \<Rightarrow> 'j Notice list" where
  "notices_of lib lines = List.map_filter (\<lambda>line. case event_parse lib line of Inr notice \<Rightarrow> notice | Inl _ \<Rightarrow> None) lines"

definition Subscription_take :: "'j EventLib \<Rightarrow> Subscription \<Rightarrow> Chunk \<Rightarrow> (Subscription \<times> 'j Notice list, CoreError) result" where
  "Subscription_take lib self chunk =
     and_then (Lines_push (su_lines self) (ch_bytes chunk)) (\<lambda>(partial, lines).
       let notices = notices_of lib lines; ended = ch_end chunk \<noteq> None in
       if ended \<and> notices = [] then Inl CE_Lost
       else Inr (\<lparr>su_ended = ended, su_lines = partial\<rparr>, notices))"

text \<open>\<open>next\<close>: the inbox and queue afterwards, and the subscription with its notices, or the error that ends its use.\<close>

definition Subscription_next :: "'j EventLib \<Rightarrow> out_queue \<Rightarrow> u32 \<Rightarrow> Subscription \<Rightarrow> Inbox \<Rightarrow> bytes list
    \<Rightarrow> Inbox \<times> bytes list \<times> (Subscription \<times> 'j Notice list, CoreError) result" where
  "Subscription_next lib queue channel self inbox sent =
     (if su_ended self then (inbox, sent, Inl CE_Lost)
      else
        case Stream_read queue channel inbox sent of
          (inbox, sent, chunk) \<Rightarrow> (inbox, sent, and_then chunk (Subscription_take lib self)))"

section \<open>What the app shows\<close>

definition MAX_TERMINAL_ID :: nat where "MAX_TERMINAL_ID = 256"

text \<open>\<open>char::is_control\<close>: the control category.\<close>

definition is_control :: "scalar \<Rightarrow> bool" where
  "is_control c \<longleftrightarrow> c < 32 \<or> 127 \<le> c \<and> c < 160"

definition TerminalId_new :: "str \<Rightarrow> (str, BackendError) result" where
  "TerminalId_new ident =
     (if ident = [] then Inl EmptyTerminalId
      else if str_len ident > MAX_TERMINAL_ID \<or> list_ex is_control ident then Inl InvalidTerminalId else Inr ident)"

record Exit =
  ex_code :: "int option"

datatype RunState = RS_Running | RS_Lost | RS_Exited Exit

record TerminalInfo =
  ti_agent :: AgentStatus
  ti_cwd :: "str option"
  ti_id :: str
  ti_labels :: labels
  ti_name :: "str option"
  ti_state :: RunState
  ti_title :: "str option"

datatype Change = Upsert TerminalInfo | Removed str | Resync "TerminalInfo list"

fun agent_status :: "StatusState \<Rightarrow> AgentStatus" where
  "agent_status SS_Blocked = Blocked"
| "agent_status SS_Error = Blocked"
| "agent_status SS_Done = Done"
| "agent_status SS_Idle = Idle"
| "agent_status SS_Working = Working"
| "agent_status SS_Other = Unknown"

definition run_state :: "Terminal \<Rightarrow> RunState" where
  "run_state terminal =
     (case te_state terminal of
        TS_Finished \<Rightarrow> RS_Exited \<lparr>ex_code = te_exit_code terminal\<rparr>
      | TS_Live \<Rightarrow> if te_pid terminal = None \<and> te_reason terminal \<noteq> None then RS_Lost else RS_Running
      | TS_Other \<Rightarrow> RS_Running)"

text \<open>\<open>filter\<close> on an option.\<close>

definition nonempty :: "str option \<Rightarrow> str option" where
  "nonempty s = (case s of None \<Rightarrow> None | Some s \<Rightarrow> if s = [] then None else Some s)"

definition terminal_info :: "Terminal \<Rightarrow> (TerminalInfo, CoreError) result" where
  "terminal_info terminal =
     (let cwd = (case nonempty (map_option fg_cwd (te_foreground terminal)) of
         Some cwd \<Rightarrow> Some cwd | None \<Rightarrow> nonempty (Some (te_cwd terminal))) in
      case TerminalId_new (te_address terminal) of
        Inl e \<Rightarrow> Inl (CE_Backend e)
      | Inr ident \<Rightarrow>
          Inr \<lparr>ti_agent = (case te_status terminal of None \<Rightarrow> Unknown | Some status \<Rightarrow> agent_status (st_state status)),
            ti_cwd = cwd, ti_id = ident, ti_labels = te_labels terminal, ti_name = te_name terminal,
            ti_state = run_state terminal, ti_title = nonempty (te_title terminal)\<rparr>)"

fun terminal_infos :: "Terminal list \<Rightarrow> (TerminalInfo list, CoreError) result" where
  "terminal_infos [] = Inr []"
| "terminal_infos (t # ts) = and_then (terminal_info t) (\<lambda>i. and_then (terminal_infos ts) (\<lambda>is. Inr (i # is)))"

section \<open>Changes\<close>

record CoreChanges =
  cc_records :: "(str \<times> Terminal) list"
  cc_seq :: u64

definition by_address :: "Terminal list \<Rightarrow> (str \<times> Terminal) list" where
  "by_address terminals = btree_collect (map (\<lambda>t. (te_address t, t)) terminals)"

definition watch_records :: "u64 \<Rightarrow> Terminal list \<Rightarrow> (TerminalInfo list \<times> CoreChanges, CoreError) result" where
  "watch_records seq terminals =
     (let records = by_address terminals in
      and_then (terminal_infos (map snd records)) (\<lambda>snapshot. Inr (snapshot, \<lparr>cc_records = records, cc_seq = seq\<rparr>)))"

fun terminal_update :: "Terminal \<Rightarrow> 'j TerminalChange \<Rightarrow> Terminal \<times> bool" where
  "terminal_update record (TC_Finished ended) =
     (record\<lparr>te_state := TS_Finished, te_exit_code := en_exit_code ended, te_reason := en_reason ended, te_foreground := None, te_status := None\<rparr>, True)"
| "terminal_update record (TC_Foreground foreground) = (record\<lparr>te_foreground := foreground\<rparr>, True)"
| "terminal_update record (TC_Keep keep) = (record\<lparr>te_keep := keep\<rparr>, True)"
| "terminal_update record (TC_Labels labels r) = (record\<lparr>te_labels := labels\<rparr>, True)"
| "terminal_update record (TC_Lost ended) =
     (record\<lparr>te_exit_code := en_exit_code ended, te_reason := en_reason ended, te_pid := None, te_foreground := None\<rparr>, True)"
| "terminal_update record (TC_Size cols rows) = (record\<lparr>te_cols := cols, te_rows := rows\<rparr>, True)"
| "terminal_update record (TC_Status reported status) = (record\<lparr>te_status := status\<rparr>, True)"
| "terminal_update record (TC_Title title) = (record\<lparr>te_title := title\<rparr>, True)"
| "terminal_update record change = (record, False)"

text \<open>The record a change replaces its terminal's with, if it carries one.\<close>

fun carried :: "'j TerminalChange \<Rightarrow> Terminal option" where
  "carried (TC_Created record) = Some record"
| "carried (TC_Restarted record) = Some record"
| "carried (TC_Labels labels (Some record)) = Some record"
| "carried change = None"

definition upsert :: "CoreChanges \<Rightarrow> Terminal \<Rightarrow> CoreChanges \<times> (Change option, CoreError) result" where
  "upsert self record = (self, and_then (terminal_info record) (\<lambda>i. Inr (Some (Upsert i))))"

definition CoreChanges_apply :: "CoreChanges \<Rightarrow> str \<Rightarrow> 'j TerminalChange \<Rightarrow> CoreChanges \<times> (Change option, CoreError) result" where
  "CoreChanges_apply self address change =
     (if change = TC_Removed then
        (self\<lparr>cc_records := btree_remove address (cc_records self)\<rparr>,
         case TerminalId_new address of Inl e \<Rightarrow> Inl (CE_Backend e) | Inr ident \<Rightarrow> Inr (Some (Removed ident)))
      else
        case carried change of
          Some record \<Rightarrow> upsert (self\<lparr>cc_records := btree_insert address record (cc_records self)\<rparr>) record
        | None \<Rightarrow>
            (case map_of (cc_records self) address of
               None \<Rightarrow> (self, Inr None)
             | Some record \<Rightarrow>
                 (case terminal_update record change of
                    (record, False) \<Rightarrow> (self, Inr None)
                  | (record, True) \<Rightarrow> upsert (self\<lparr>cc_records := btree_insert address record (cc_records self)\<rparr>) record)))"

fun changes_loop :: "CoreChanges \<Rightarrow> Change list \<Rightarrow> 'j Notice list \<Rightarrow> CoreChanges \<times> (Change list, CoreError) result" where
  "changes_loop self changes [] = (self, Inr changes)"
| "changes_loop self changes (No_Doc machine name seq ver # notices) = changes_loop self changes notices"
| "changes_loop self changes (No_Heartbeat seq # notices) = changes_loop self changes notices"
| "changes_loop self changes (No_Missed seq terminals # notices) =
     (let self = self\<lparr>cc_seq := seq, cc_records := by_address terminals\<rparr> in
      case terminal_infos (map snd (cc_records self)) of
        Inl e \<Rightarrow> (self, Inl e)
      | Inr infos \<Rightarrow> changes_loop self [Resync infos] notices)"
| "changes_loop self changes (No_Event event # notices) =
     (if ev_seq event \<le> cc_seq self then changes_loop self changes notices
      else
        case CoreChanges_apply (self\<lparr>cc_seq := ev_seq event\<rparr>) (ev_terminal event) (ev_change event) of
          (self, Inl e) \<Rightarrow> (self, Inl e)
        | (self, Inr None) \<Rightarrow> changes_loop self changes notices
        | (self, Inr (Some change)) \<Rightarrow> changes_loop self (changes @ [change]) notices)"

section \<open>Lemmas\<close>

lemma map_of_btree_insert [simp]: "map_of (btree_insert k v m) = (map_of m)(k \<mapsto> v)"
  by (induction m) auto

lemma map_of_btree_remove [simp]: "map_of (btree_remove k m) = (map_of m)(k := None)"
  by (induction m) (auto simp: btree_remove_def)

text \<open>Every record is kept under its own address.\<close>

definition keyed :: "(str \<times> Terminal) list \<Rightarrow> bool" where
  "keyed records \<longleftrightarrow> list_all (\<lambda>(k, t). te_address t = k) records"

lemma keyed_insert: "keyed m \<Longrightarrow> te_address t = k \<Longrightarrow> keyed (btree_insert k t m)"
  by (induction m) (auto simp: keyed_def)

lemma keyed_remove: "keyed m \<Longrightarrow> keyed (btree_remove k m)"
  by (auto simp: keyed_def btree_remove_def list_all_iff)

lemma keyed_by_address: "keyed (by_address ts)"
proof -
  have "keyed (foldl (\<lambda>m (k, v). btree_insert k v m) m (map (\<lambda>t. (te_address t, t)) ts))" if "keyed m" for m
    using that by (induction ts arbitrary: m) (auto simp: keyed_insert)
  then show ?thesis by (simp add: by_address_def btree_collect_def keyed_def)
qed

lemma info_id: "terminal_info t = Inr i \<Longrightarrow> ti_id i = te_address t"
  by (auto simp: terminal_info_def TerminalId_new_def Let_def split: sum.splits if_splits)

lemma update_address: "te_address (fst (terminal_update t change)) = te_address t"
  by (cases change) simp_all

lemma update_same: "\<not> snd (terminal_update t change) \<Longrightarrow> fst (terminal_update t change) = t"
  by (cases change) simp_all

text \<open>What the app holds: the facts of every record, by id; and what a change does to it.\<close>

definition view_of :: "(str \<times> Terminal) list \<Rightarrow> str \<Rightarrow> TerminalInfo option" where
  "view_of records ident =
     (case map_of records ident of None \<Rightarrow> None
      | Some t \<Rightarrow> (case terminal_info t of Inl _ \<Rightarrow> None | Inr i \<Rightarrow> Some i))"

definition all_of :: "TerminalInfo list \<Rightarrow> str \<Rightarrow> TerminalInfo option" where
  "all_of infos = map_of (map (\<lambda>i. (ti_id i, i)) infos)"

fun app_change :: "(str \<Rightarrow> TerminalInfo option) \<Rightarrow> Change \<Rightarrow> (str \<Rightarrow> TerminalInfo option)" where
  "app_change view (Upsert i) = view(ti_id i \<mapsto> i)"
| "app_change view (Removed ident) = view(ident := None)"
| "app_change view (Resync infos) = all_of infos"

lemma infos_view:
  "terminal_infos (map snd records) = Inr infos \<Longrightarrow> keyed records \<Longrightarrow> all_of infos = view_of records"
proof (induction records arbitrary: infos)
  case (Cons r records)
  obtain k t where r: "r = (k, t)" by force
  from Cons.prems r obtain i "is" where i: "terminal_info t = Inr i" "terminal_infos (map snd records) = Inr is" "infos = i # is" by auto
  have "all_of is = view_of records" using Cons.IH[OF i(2)] Cons.prems(2) by (simp add: keyed_def)
  moreover have "ti_id i = k" using info_id[OF i(1)] Cons.prems(2) r by (simp add: keyed_def)
  ultimately show ?case using i r by (auto simp: all_of_def view_of_def fun_eq_iff)
qed (auto simp: all_of_def view_of_def)

lemma upsert_view:
  assumes "terminal_info t = Inr i" "te_address t = k"
  shows "(view_of records)(ti_id i \<mapsto> i) = view_of (btree_insert k t records)"
  using assms info_id[OF assms(1)] by (auto simp: view_of_def fun_eq_iff)

section \<open>The core's records\<close>

text \<open>
  What an event says of the records of the core, as its API documents it: a record it carries is that of its terminal from
  then on, a removed terminal has none, and any other change sets the fields it is about.
\<close>

definition on_record :: "str \<Rightarrow> (Terminal \<Rightarrow> Terminal) \<Rightarrow> (str \<rightharpoonup> Terminal) \<Rightarrow> (str \<rightharpoonup> Terminal)" where
  "on_record a f m = m(a := map_option f (m a))"

definition core_step :: "(str \<rightharpoonup> Terminal) \<Rightarrow> 'j Event \<Rightarrow> (str \<rightharpoonup> Terminal)" where
  "core_step m event =
     (let a = ev_terminal event in
      case ev_change event of
        TC_Created t \<Rightarrow> m(a \<mapsto> t)
      | TC_Restarted t \<Rightarrow> m(a \<mapsto> t)
      | TC_Removed \<Rightarrow> m(a := None)
      | TC_Labels labels (Some t) \<Rightarrow> m(a \<mapsto> t)
      | TC_Labels labels None \<Rightarrow> on_record a (\<lambda>t. t\<lparr>te_labels := labels\<rparr>) m
      | TC_Keep keep \<Rightarrow> on_record a (\<lambda>t. t\<lparr>te_keep := keep\<rparr>) m
      | TC_Size cols rows \<Rightarrow> on_record a (\<lambda>t. t\<lparr>te_cols := cols, te_rows := rows\<rparr>) m
      | TC_Title title \<Rightarrow> on_record a (\<lambda>t. t\<lparr>te_title := title\<rparr>) m
      | TC_Status reported status \<Rightarrow> on_record a (\<lambda>t. t\<lparr>te_status := status\<rparr>) m
      | TC_Foreground foreground \<Rightarrow> on_record a (\<lambda>t. t\<lparr>te_foreground := foreground\<rparr>) m
      | TC_Finished ended \<Rightarrow>
          on_record a (\<lambda>t. t\<lparr>te_state := TS_Finished, te_exit_code := en_exit_code ended, te_reason := en_reason ended,
            te_foreground := None, te_status := None\<rparr>) m
      | TC_Lost ended \<Rightarrow>
          on_record a (\<lambda>t. t\<lparr>te_pid := None, te_exit_code := en_exit_code ended, te_reason := en_reason ended, te_foreground := None\<rparr>) m
      | TC_Turn state turn \<Rightarrow> m
      | TC_Unknown kind \<Rightarrow> m)"

text \<open>The records of a list of terminals, the last of an address counting.\<close>

definition core_records :: "Terminal list \<Rightarrow> (str \<rightharpoonup> Terminal)" where
  "core_records terminals a = List.find (\<lambda>t. te_address t = a) (rev terminals)"

text \<open>
  What the core promises of the notices it sends, when \<open>C\<close> gives its records after each number and \<open>seq\<close> is the last one the
  app knows of: an event with a later number is the one that led from the records the app knows to those of its number
  (none is left out without a notice of what was missed), and that notice has the records of its number. Events that were
  sent before may come again.
\<close>

fun delivered :: "(u64 \<Rightarrow> str \<rightharpoonup> Terminal) \<Rightarrow> u64 \<Rightarrow> 'j Notice list \<Rightarrow> bool" where
  "delivered C seq [] = True"
| "delivered C seq (No_Event event # notices) =
     (if ev_seq event \<le> seq then delivered C seq notices
      else C (ev_seq event) = core_step (C seq) event \<and> delivered C (ev_seq event) notices)"
| "delivered C seq (No_Missed n terminals # notices) = (C n = core_records terminals \<and> delivered C n notices)"
| "delivered C seq (No_Doc machine name n ver # notices) = delivered C seq notices"
| "delivered C seq (No_Heartbeat n # notices) = delivered C seq notices"

fun last_seq :: "u64 \<Rightarrow> 'j Notice list \<Rightarrow> u64" where
  "last_seq seq [] = seq"
| "last_seq seq (No_Event event # notices) = last_seq (max seq (ev_seq event)) notices"
| "last_seq seq (No_Missed n terminals # notices) = last_seq n notices"
| "last_seq seq (No_Doc machine name n ver # notices) = last_seq seq notices"
| "last_seq seq (No_Heartbeat n # notices) = last_seq seq notices"

lemma delivered_append:
  "delivered C seq (xs @ ys) \<longleftrightarrow> delivered C seq xs \<and> delivered C (last_seq seq xs) ys"
  by (induction C seq xs rule: delivered.induct) (auto simp: max_def)

lemma last_seq_append: "last_seq seq (xs @ ys) = last_seq (last_seq seq xs) ys"
  by (induction seq xs rule: last_seq.induct) simp_all

lemma find_snoc: "List.find p (xs @ [x]) = (case List.find p xs of Some y \<Rightarrow> Some y | None \<Rightarrow> if p x then Some x else None)"
  by (induction xs) auto

lemma map_of_by_address: "map_of (by_address terminals) = core_records terminals"
proof -
  have "map_of (foldl (\<lambda>m (k, v). btree_insert k v m) m (map (\<lambda>t. (te_address t, t)) ts)) a
      = (case core_records ts a of Some t \<Rightarrow> Some t | None \<Rightarrow> map_of m a)" for m ts a
    by (induction ts arbitrary: m) (auto simp: core_records_def find_snoc split: option.splits)
  then show ?thesis by (auto simp: by_address_def btree_collect_def split: option.splits)
qed

text \<open>What the app is to show of a terminal.\<close>

definition facts_of :: "Terminal \<Rightarrow> TerminalInfo" where
  "facts_of t = \<lparr>
     ti_agent = (case te_status t of
         Some status \<Rightarrow> (if st_state status \<in> {SS_Blocked, SS_Error} then Blocked else if st_state status = SS_Done then Done
           else if st_state status = SS_Idle then Idle else if st_state status = SS_Working then Working else Unknown)
       | None \<Rightarrow> Unknown),
     ti_cwd = (case te_foreground t of
         Some foreground \<Rightarrow> if fg_cwd foreground \<noteq> [] then Some (fg_cwd foreground) else if te_cwd t \<noteq> [] then Some (te_cwd t) else None
       | None \<Rightarrow> if te_cwd t \<noteq> [] then Some (te_cwd t) else None),
     ti_id = te_address t, ti_labels = te_labels t, ti_name = te_name t,
     ti_state = (if te_state t = TS_Finished then RS_Exited \<lparr>ex_code = te_exit_code t\<rparr>
       else if te_state t = TS_Live \<and> te_pid t = None \<and> te_reason t \<noteq> None then RS_Lost else RS_Running),
     ti_title = (if te_title t = Some [] then None else te_title t)\<rparr>"

lemma terminal_info_facts:
  assumes "terminal_info t = Inr i"
  shows "i = facts_of t"
proof -
  have "agent_status x = (if x \<in> {SS_Blocked, SS_Error} then Blocked else if x = SS_Done then Done
      else if x = SS_Idle then Idle else if x = SS_Working then Working else Unknown)" for x by (cases x) simp_all
  then have agent: "(case te_status t of None \<Rightarrow> Unknown | Some status \<Rightarrow> agent_status (st_state status)) = ti_agent (facts_of t)"
    by (simp add: facts_of_def split: option.split)
  have cwd: "(case nonempty (map_option fg_cwd (te_foreground t)) of Some cwd \<Rightarrow> Some cwd | None \<Rightarrow> nonempty (Some (te_cwd t))) = ti_cwd (facts_of t)"
    by (simp add: facts_of_def nonempty_def split: option.split)
  have state: "run_state t = ti_state (facts_of t)" by (cases "te_state t") (auto simp: facts_of_def run_state_def)
  have title: "nonempty (te_title t) = ti_title (facts_of t)" by (simp add: facts_of_def nonempty_def split: option.split)
  have "ti_id i = te_address t" by (rule info_id[OF assms])
  with assms agent cwd state title have "ti_agent i = ti_agent (facts_of t)" "ti_cwd i = ti_cwd (facts_of t)" "ti_id i = ti_id (facts_of t)"
    "ti_labels i = ti_labels (facts_of t)" "ti_name i = ti_name (facts_of t)" "ti_state i = ti_state (facts_of t)" "ti_title i = ti_title (facts_of t)"
    by (auto simp: terminal_info_def Let_def split: sum.splits) (simp_all add: facts_of_def)
  then show ?thesis by (intro TerminalInfo.equality) simp_all
qed

definition all_shown :: "(str \<times> Terminal) list \<Rightarrow> bool" where
  "all_shown records \<longleftrightarrow> list_all (\<lambda>(k, t). is_ok (terminal_info t)) records"

lemma all_shown_insert: "all_shown m \<Longrightarrow> is_ok (terminal_info t) \<Longrightarrow> all_shown (btree_insert k t m)"
  by (induction m) (auto simp: all_shown_def)

lemma all_shown_remove: "all_shown m \<Longrightarrow> all_shown (btree_remove k m)"
  by (auto simp: all_shown_def btree_remove_def list_all_iff)

lemma all_shown_infos: "terminal_infos (map snd records) = Inr infos \<Longrightarrow> all_shown records"
  by (induction records arbitrary: infos) (auto simp: all_shown_def)

lemma view_of_shown: "all_shown records \<Longrightarrow> view_of records = (\<lambda>a. map_option facts_of (map_of records a))"
  by (fastforce simp: all_shown_def list_all_iff view_of_def is_ok_iff dest: terminal_info_facts map_of_SomeD split: option.splits sum.splits)

section \<open>Changes and the core's records\<close>

text \<open>What is kept: the records of the core at the last number, each under its own address and fit to be shown.\<close>

definition tracks :: "(u64 \<Rightarrow> str \<rightharpoonup> Terminal) \<Rightarrow> CoreChanges \<Rightarrow> bool" where
  "tracks C self \<longleftrightarrow> keyed (cc_records self) \<and> all_shown (cc_records self) \<and> map_of (cc_records self) = C (cc_seq self)"

text \<open>One change, as the core means it and as the app sees it.\<close>

lemma apply_view:
  assumes "CoreChanges_apply self (ev_terminal event) (ev_change event) = (self', Inr r)"
    and "keyed (cc_records self)" "all_shown (cc_records self)"
    and "\<And>t. core_step (map_of (cc_records self)) event (ev_terminal event) = Some t \<Longrightarrow> te_address t = ev_terminal event"
  shows "keyed (cc_records self') \<and> all_shown (cc_records self') \<and> cc_seq self' = cc_seq self \<and>
    map_of (cc_records self') = core_step (map_of (cc_records self)) event \<and>
    (case r of None \<Rightarrow> view_of (cc_records self') = view_of (cc_records self)
     | Some c \<Rightarrow> app_change (view_of (cc_records self)) c = view_of (cc_records self'))"
proof -
  let ?a = "ev_terminal event" and ?change = "ev_change event"
  have put: "keyed (cc_records s) \<and> all_shown (cc_records s) \<and> cc_seq s = cc_seq self \<and>
      map_of (cc_records s) = (map_of (cc_records self))(?a \<mapsto> t) \<and>
      (\<exists>c. r = Some c \<and> app_change (view_of (cc_records self)) c = view_of (cc_records s))"
    if "upsert (self\<lparr>cc_records := btree_insert ?a t (cc_records self)\<rparr>) t = (s, Inr r)" "te_address t = ?a" for t s
    using that assms(2,3) upsert_view[of t _ ?a "cc_records self"]
    by (auto simp: upsert_def keyed_insert all_shown_insert is_ok_iff)
  consider "?change = TC_Removed" | t where "?change \<noteq> TC_Removed" "carried ?change = Some t"
    | "?change \<noteq> TC_Removed" "carried ?change = None" by (cases "carried ?change") auto
  then show ?thesis
  proof cases
    case 1
    then have "TerminalId_new ?a = Inr ?a" "r = Some (Removed ?a)"
      "self' = self\<lparr>cc_records := btree_remove ?a (cc_records self)\<rparr>"
      using assms(1) by (auto simp: CoreChanges_apply_def TerminalId_new_def split: sum.splits if_splits)
    with 1 keyed_remove[OF assms(2)] all_shown_remove[OF assms(3)] show ?thesis by (auto simp: view_of_def fun_eq_iff core_step_def)
  next
    case 2
    then have step: "core_step (map_of (cc_records self)) event = (map_of (cc_records self))(?a \<mapsto> t)"
      by (cases ?change rule: carried.cases) (auto simp: core_step_def Let_def)
    then have "te_address t = ?a" using assms(4) by simp
    with step 2 assms(1) put[of t self'] show ?thesis by (auto simp: CoreChanges_apply_def)
  next
    case 3
    show ?thesis
    proof (cases "map_of (cc_records self) ?a")
      case None
      then have "core_step (map_of (cc_records self)) event = map_of (cc_records self)"
        using 3 by (cases ?change rule: carried.cases) (auto simp: core_step_def on_record_def fun_eq_iff Let_def)
      with None 3 assms show ?thesis by (auto simp: CoreChanges_apply_def)
    next
      case (Some t)
      let ?t = "fst (terminal_update t ?change)"
      have "te_address t = ?a" using Some assms(2) by (auto simp: keyed_def list_all_iff dest!: map_of_SomeD)
      then have "te_address ?t = ?a" by (simp add: update_address)
      moreover have "core_step (map_of (cc_records self)) event = (map_of (cc_records self))(?a \<mapsto> ?t)"
        using 3 Some by (cases ?change rule: carried.cases) (auto simp: core_step_def on_record_def fun_eq_iff Let_def)
      moreover have "(map_of (cc_records self))(?a \<mapsto> ?t) = map_of (cc_records self)" if "\<not> snd (terminal_update t ?change)"
        using Some update_same[OF that] by auto
      ultimately show ?thesis using 3 Some assms put[of ?t self']
        by (auto simp: CoreChanges_apply_def split: prod.splits bool.splits)
    qed
  qed
qed

lemma loop_tracks:
  assumes "\<And>n a t. C n a = Some t \<Longrightarrow> te_address t = a"
  shows "changes_loop self acc notices = (self', Inr changes) \<Longrightarrow> tracks C self \<Longrightarrow> delivered C (cc_seq self) notices \<Longrightarrow>
    foldl app_change v acc = view_of (cc_records self) \<Longrightarrow>
    tracks C self' \<and> cc_seq self' = last_seq (cc_seq self) notices \<and> foldl app_change v changes = view_of (cc_records self')"
proof (induction self acc notices rule: changes_loop.induct)
  case (4 self acc seq terminals notices)
  let ?self = "self\<lparr>cc_seq := seq, cc_records := by_address terminals\<rparr>"
  from 4(2) obtain infos where infos: "terminal_infos (map snd (by_address terminals)) = Inr infos"
    "changes_loop ?self [Resync infos] notices = (self', Inr changes)"
    by (auto simp: Let_def split: sum.splits)
  have "tracks C ?self" using 4(4) keyed_by_address all_shown_infos[OF infos(1)] by (simp add: tracks_def map_of_by_address)
  with 4(1)[OF refl, of infos] infos 4(4) infos_view[OF infos(1) keyed_by_address] show ?case by simp
next
  case (5 self acc event notices)
  show ?case
  proof (cases "ev_seq event \<le> cc_seq self")
    case True
    then have "max (cc_seq self) (ev_seq event) = cc_seq self" by simp
    with 5(1)[OF True] 5(4-) True show ?thesis by simp
  next
    case False
    let ?self = "self\<lparr>cc_seq := ev_seq event\<rparr>"
    obtain s r where s: "CoreChanges_apply ?self (ev_terminal event) (ev_change event) = (s, r)" by force
    with False 5(4) obtain c where r: "r = Inr c" by (cases r) auto
    have now: "C (ev_seq event) = core_step (map_of (cc_records self)) event" "delivered C (ev_seq event) notices"
      using 5(5,6) False by (auto simp: tracks_def)
    note view = apply_view[OF s[unfolded r]]
    have kept: "keyed (cc_records s) \<and> all_shown (cc_records s) \<and> cc_seq s = ev_seq event \<and> map_of (cc_records s) = C (ev_seq event) \<and>
        (case c of None \<Rightarrow> view_of (cc_records s) = view_of (cc_records self)
         | Some c \<Rightarrow> app_change (view_of (cc_records self)) c = view_of (cc_records s))"
      using view 5(5) now(1) assms[of "ev_seq event" "ev_terminal event"] by (cases c) (simp_all add: tracks_def)
    then have tracks: "tracks C s" by (simp add: tracks_def)
    have max: "max (cc_seq self) (ev_seq event) = ev_seq event" using False by simp
    show ?thesis
    proof (cases c)
      case None
      with False s r 5(2)[OF False s[symmetric] r None] 5(4,7) kept tracks now(2) max show ?thesis by simp
    next
      case (Some x)
      with False s r 5(3)[OF False s[symmetric] r Some] 5(4,7) kept tracks now(2) max show ?thesis by simp
    qed
  qed
qed auto

text \<open>Several calls of \<open>next\<close>, all of which succeed.\<close>

fun changes_run :: "CoreChanges \<Rightarrow> 'j Notice list list \<Rightarrow> (CoreChanges \<times> Change list) option" where
  "changes_run self [] = Some (self, [])"
| "changes_run self (batch # batches) =
     (case changes_loop self [] batch of
        (self, Inl e) \<Rightarrow> None
      | (self, Inr changes) \<Rightarrow> map_option (\<lambda>(self, more_changes). (self, changes @ more_changes)) (changes_run self batches))"

lemma run_tracks:
  assumes "\<And>n a t. C n a = Some t \<Longrightarrow> te_address t = a"
  shows "changes_run self batches = Some (self', changes) \<Longrightarrow> tracks C self \<Longrightarrow> delivered C (cc_seq self) (concat batches) \<Longrightarrow>
    tracks C self' \<and> cc_seq self' = last_seq (cc_seq self) (concat batches) \<and>
    foldl app_change (view_of (cc_records self)) changes = view_of (cc_records self')"
proof (induction batches arbitrary: self changes)
  case (Cons batch batches)
  from Cons.prems(1) obtain s cs cs' where step: "changes_loop self [] batch = (s, Inr cs)" "changes_run s batches = Some (self', cs')"
    "changes = cs @ cs'" by (auto split: prod.splits sum.splits)
  have "delivered C (cc_seq self) batch" using Cons.prems(3) by (simp add: delivered_append)
  from loop_tracks[OF assms step(1) Cons.prems(2) this, where v = "view_of (cc_records self)"]
  have s: "tracks C s" "cc_seq s = last_seq (cc_seq self) batch" "foldl app_change (view_of (cc_records self)) cs = view_of (cc_records s)" by simp_all
  with Cons.IH[OF step(2) s(1)] Cons.prems(3) step(3) show ?case by (simp add: delivered_append last_seq_append)
qed simp

text \<open>The reads of a subscription, all of which succeed.\<close>

fun subscription_run :: "'j EventLib \<Rightarrow> Subscription \<Rightarrow> Chunk list \<Rightarrow> (Subscription \<times> 'j Notice list, CoreError) result" where
  "subscription_run lib self [] = Inr (self, [])"
| "subscription_run lib self (chunk # pieces) =
     (if su_ended self then Inl CE_Lost
      else and_then (Subscription_take lib self chunk) (\<lambda>(self, notices).
        and_then (subscription_run lib self pieces) (\<lambda>(self, notices'). Inr (self, notices @ notices'))))"

lemma notices_append: "notices_of lib (xs @ ys) = notices_of lib xs @ notices_of lib ys"
  by (simp add: notices_of_def map_filter_def)

lemma subscription_lines:
  "subscription_run lib self pieces = Inr (self', notices) \<Longrightarrow>
    \<exists>lines. push_reads (su_lines self) (map ch_bytes pieces) = Inr (su_lines self', lines) \<and> notices = notices_of lib lines"
proof (induction pieces arbitrary: self notices)
  case Nil
  then show ?case by (simp add: notices_of_def map_filter_def)
next
  case (Cons chunk pieces)
  from Cons.prems obtain s ns ns' where step: "Subscription_take lib self chunk = Inr (s, ns)" "subscription_run lib s pieces = Inr (self', ns')"
    "notices = ns @ ns'" by (auto split: if_splits)
  from step(1) obtain lines where "Lines_push (su_lines self) (ch_bytes chunk) = Inr (su_lines s, lines)" "ns = notices_of lib lines"
    by (auto simp: Subscription_take_def Let_def split: if_splits)
  with Cons.IH[OF step(2)] step(3) show ?case by (auto simp: notices_append)
qed

section \<open>Properties\<close>

text \<open>
  C26. The app shows what the core reports: from a watch snapshot on, through any batches of notices, missed ones and
  repeated ones included, the app that applies the changes it is given shows exactly the facts of the core's own records
  after the last event it was told of, and of no other terminal. It relies on the core's promises: its records are under
  their own addresses, an event tells of the next change of them and of no later one without a notice of what was missed,
  and a snapshot or such a notice has the records of its number.
\<close>

theorem watch_tracks_records:
  assumes "watch_records seq terminals = Inr (snapshot, self)" "changes_run self batches = Some (self', changes)"
    and "\<And>n a t. C n a = Some t \<Longrightarrow> te_address t = a"
    and "C seq = core_records terminals" "delivered C seq (concat batches)"
  shows "foldl app_change (all_of snapshot) changes = (\<lambda>a. map_option facts_of (C (last_seq seq (concat batches)) a))"
proof -
  from assms(1) have infos: "terminal_infos (map snd (by_address terminals)) = Inr snapshot"
    and self: "cc_records self = by_address terminals" "cc_seq self = seq" by (auto simp: watch_records_def Let_def)
  have "tracks C self" using assms(4) keyed_by_address all_shown_infos[OF infos] self by (simp add: tracks_def map_of_by_address)
  from run_tracks[OF assms(3) assms(2) this] assms(5) self(2)
  have "tracks C self'" "cc_seq self' = last_seq seq (concat batches)"
    "foldl app_change (view_of (cc_records self)) changes = view_of (cc_records self')" by simp_all
  then show ?thesis using infos_view[OF infos keyed_by_address] self(1) by (simp add: tracks_def view_of_shown)
qed

definition demo_terminal :: "str \<Rightarrow> Terminal" where
  "demo_terminal address = \<lparr>te_address = address, te_argv = [], te_cols = 80, te_cwd = chars ''/'', te_exit_code = None, te_foreground = None,
     te_keep = True, te_labels = [], te_name = None, te_parent = None, te_pid = Some 7, te_reason = None, te_rows = 24, te_state = TS_Live,
     te_status = None, te_title = None\<rparr>"

text \<open>A title is set, an event comes again, and the terminal finishes.\<close>

definition demo_notices :: "nat Notice list list" where
  "demo_notices =
     [[No_Event \<lparr>ev_change = TC_Title (Some (chars ''x'')), ev_seq = 6, ev_terminal = chars ''t1''\<rparr>],
      [No_Event \<lparr>ev_change = TC_Title (Some (chars ''old'')), ev_seq = 4, ev_terminal = chars ''t1''\<rparr>,
       No_Event \<lparr>ev_change = TC_Finished \<lparr>en_exit_code = Some 3, en_reason = None, en_signal = None\<rparr>, ev_seq = 7, ev_terminal = chars ''t1''\<rparr>]]"

definition demo_core :: "u64 \<Rightarrow> str \<rightharpoonup> Terminal" where
  "demo_core n =
     (if n \<le> 5 then [chars ''t1'' \<mapsto> demo_terminal (chars ''t1'')]
      else if n = 6 then [chars ''t1'' \<mapsto> (demo_terminal (chars ''t1''))\<lparr>te_title := Some (chars ''x'')\<rparr>]
      else [chars ''t1'' \<mapsto> (demo_terminal (chars ''t1''))\<lparr>te_title := Some (chars ''x''), te_state := TS_Finished, te_exit_code := Some 3\<rparr>])"

theorem watch_tracks_records_witness:
  "\<exists>snapshot self self' changes. watch_records 5 [demo_terminal (chars ''t1'')] = Inr (snapshot, self) \<and>
   changes_run self demo_notices = Some (self', changes) \<and>
   foldl app_change (all_of snapshot) changes = (\<lambda>a. map_option facts_of (demo_core 7 a))"
proof -
  note eval = watch_records_def by_address_def btree_collect_def terminal_info_def TerminalId_new_def demo_terminal_def chars_def
    str_len_def encode_utf8_def MAX_TERMINAL_ID_def is_control_def Let_def CoreChanges_apply_def upsert_def
  obtain snapshot self where w: "watch_records 5 [demo_terminal (chars ''t1'')] = Inr (snapshot, self)"
    and self: "self = \<lparr>cc_records = [(chars ''t1'', demo_terminal (chars ''t1''))], cc_seq = 5\<rparr>"
    by (simp add: eval)
  obtain self' changes where r: "changes_run self demo_notices = Some (self', changes)"
    by (simp add: self demo_notices_def eval)
  have "delivered demo_core 5 (concat demo_notices)"
    by (auto simp: demo_notices_def demo_core_def core_step_def on_record_def demo_terminal_def fun_eq_iff Let_def)
  moreover have "\<And>n a t. demo_core n a = Some t \<Longrightarrow> te_address t = a" by (auto simp: demo_core_def demo_terminal_def split: if_splits)
  moreover have "demo_core 5 = core_records [demo_terminal (chars ''t1'')]" by (auto simp: demo_core_def core_records_def demo_terminal_def)
  moreover have "last_seq 5 (concat demo_notices) = 7" by (simp add: demo_notices_def max_def)
  ultimately have "foldl app_change (all_of snapshot) changes = (\<lambda>a. map_option facts_of (demo_core 7 a))"
    using watch_tracks_records[OF w r, of demo_core] by simp
  with w r show ?thesis by blast
qed

text \<open>
  A subscription reports every event once: however the stream is cut, the notices of all its reads are
  those of the lines of what arrived, in order, a line that cannot be read costs no other, and the
  unfinished line is kept.
\<close>

theorem subscription_exact:
  assumes "subscription_run lib \<lparr>su_ended = False, su_lines = []\<rparr> pieces = Inr (self, notices)"
  shows "\<exists>lines. lines_bytes [] (concat (map ch_bytes pieces)) = Inr (su_lines self, lines) \<and> notices = notices_of lib lines"
  using subscription_lines[OF assms] push_reads_bytes[of "[]" "map ch_bytes pieces"] by simp

text \<open>A reader that takes every line for a heartbeat numbered by its length.\<close>

definition demo_events :: "nat EventLib" where
  "demo_events = \<lparr>el_message = \<lambda>line. Inr (chars ''heartbeat'', length line), el_type_is = \<lambda>_ _. False, el_doc = \<lambda>_. Inl ''json'',
     el_raw_event = \<lambda>_. Inl ''json'', el_seq = \<lambda>n. Inr (of_nat n), el_missed = \<lambda>_. Inl ''json'', el_terminal = \<lambda>_. Inl ''json'',
     el_ended = \<lambda>_. Inl ''json'', el_foreground = \<lambda>_. Inl ''json'', el_keep = \<lambda>_. Inl ''json'', el_labels = \<lambda>_. Inl ''json'',
     el_size = \<lambda>_. Inl ''json'', el_status = \<lambda>_. Inl ''json'', el_title = \<lambda>_. Inl ''json'', el_turn = \<lambda>_. Inl ''json''\<rparr>"

theorem subscription_exact_witness:
  "\<exists>self. subscription_run demo_events \<lparr>su_ended = False, su_lines = []\<rparr>
      [\<lparr>ch_bytes = [65], ch_end = None\<rparr>, \<lparr>ch_bytes = [66, 10, 67], ch_end = None\<rparr>] = Inr (self, [No_Heartbeat 2]) \<and>
    (\<exists>lines. lines_bytes [] [65, 66, 10, 67] = Inr (su_lines self, lines) \<and> [No_Heartbeat 2] = notices_of demo_events lines)"
proof -
  have run: "subscription_run demo_events \<lparr>su_ended = False, su_lines = []\<rparr>
      [\<lparr>ch_bytes = [65], ch_end = None\<rparr>, \<lparr>ch_bytes = [66, 10, 67], ch_end = None\<rparr>]
    = Inr (\<lparr>su_ended = False, su_lines = [67]\<rparr>, [No_Heartbeat 2])"
    by (simp add: Subscription_take_def Lines_push_def MAX_LINE_def MAX_PAYLOAD_def notices_of_def map_filter_def is_ascii_whitespace_def
        event_parse_def demo_events_def chars_def read_as_def Let_def)
  have "concat (map ch_bytes [\<lparr>ch_bytes = [65], ch_end = None\<rparr>, \<lparr>ch_bytes = [66, 10, 67], ch_end = None\<rparr>]) = [65, 66, 10, 67]" by simp
  with subscription_exact[OF run] run show ?thesis by metis
qed

end
