(* ===== verification/Floats.thy ===== *)
theory Floats
  imports Prelude Complex_Main
begin

text \<open>
  Rounding of rationals to the binary floating-point numbers of a width, to nearest and ties to even, as the
  arithmetic of \<open>f32\<close> does it.
\<close>

fun bits :: "nat \<Rightarrow> nat" where
  "bits n = (if n = 0 then 0 else Suc (bits (n div 2)))"

declare bits.simps [simp del]

definition pow2 :: "int \<Rightarrow> rat" where
  "pow2 e = (if 0 \<le> e then 2 ^ nat e else 1 / 2 ^ nat (- e))"

text \<open>The exponent of a positive rational: \<open>pow2 e \<le> r < pow2 (e + 1)\<close>.\<close>

definition float_exp :: "rat \<Rightarrow> int" where
  "float_exp r = (let (n, d) = quotient_of r; e = int (bits (nat n)) - int (bits (nat d)) in
     if pow2 e \<le> r then e else e - 1)"

definition round_half_even :: "rat \<Rightarrow> int" where
  "round_half_even q = (let f = \<lfloor>q\<rfloor>; diff = q - of_int f in
     if diff < 1 / 2 then f else if diff > 1 / 2 then f + 1 else if even f then f else f + 1)"

end
