(* ===== verification/Panes.thy ===== *)
theory Panes
  imports Floats
begin

text \<open>
  The panes of a tab, \<open>crates/sheprd-session/src/panes.rs\<close>: the split tree, its changes and its
  geometry. A mutable borrow of a share is the path to its split (\<open>False\<close> for the first side). An \<open>f32\<close>
  in the unit square is a rational that every operation rounds to 24 significant bits, to nearest and
  ties to even; only a dragged fraction may be infinite or not a number.
\<close>

section \<open>Binary32 arithmetic\<close>

definition f32_round :: "rat \<Rightarrow> rat" where
  "f32_round r = (if r = 0 then 0 else
     let u = pow2 (max (float_exp \<bar>r\<bar>) (- 126) - 23) in of_int (round_half_even (r / u)) * u)"

datatype f32 = F32 rat | F32_inf bool | F32_nan

section \<open>Shares\<close>

definition MAX_PANES :: nat where
  "MAX_PANES = 16"
definition MIN_SHARE :: u16 where
  "MIN_SHARE = 100"
definition MAX_SHARE :: u16 where
  "MAX_SHARE = 900"
definition HALF :: u16 where
  "HALF = 500"
definition RESIZE_STEP :: int where
  "RESIZE_STEP = 50"
definition EPSILON :: rat where
  "EPSILON = f32_round (1 / 10000)"

datatype Axis = Row | Column

datatype Direction = D_Left | D_Right | D_Up | D_Down

fun Direction_axis :: "Direction \<Rightarrow> Axis" where
  "Direction_axis D_Left = Row"
| "Direction_axis D_Right = Row"
| "Direction_axis D_Up = Column"
| "Direction_axis D_Down = Column"

definition Direction_forward :: "Direction \<Rightarrow> bool" where
  "Direction_forward d \<longleftrightarrow> d \<in> {D_Right, D_Down}"

datatype Share = Share (share_value: u16)

definition Share_from :: "u16 \<Rightarrow> Share" where
  "Share_from s = Share (if s < MIN_SHARE then MIN_SHARE else if s > MAX_SHARE then MAX_SHARE else s)"

definition Share_default :: Share where
  "Share_default = Share HALF"

text \<open>\<open>clamp(0., 1.)\<close>, \<open>* 1000.\<close>, \<open>round\<close> (ties away from zero) and the saturating cast, \<open>NaN\<close> to 0.\<close>

fun f32_clamp01 :: "f32 \<Rightarrow> f32" where
  "f32_clamp01 (F32 r) = F32 (if r < 0 then 0 else if r > 1 then 1 else r)"
| "f32_clamp01 (F32_inf positive) = F32 (if positive then 1 else 0)"
| "f32_clamp01 F32_nan = F32_nan"

fun share_thousandths :: "f32 \<Rightarrow> u16" where
  "share_thousandths (F32 r) = of_int \<lfloor>f32_round (r * 1000) + 1 / 2\<rfloor>"
| "share_thousandths (F32_inf positive) = (if positive then - 1 else 0)"
| "share_thousandths F32_nan = 0"

definition Share_at :: "f32 \<Rightarrow> Share" where
  "Share_at fraction = Share_from (share_thousandths (f32_clamp01 fraction))"

definition Share_fraction :: "Share \<Rightarrow> rat" where
  "Share_fraction s = f32_round (of_nat (unat (share_value s)) / 1000)"

definition Share_moved :: "Share \<Rightarrow> int \<Rightarrow> Share" where
  "Share_moved s by = (let moved = max (int (unat MIN_SHARE)) (min (int (unat MAX_SHARE)) (int (unat (share_value s)) + by)) in
     Share (if 0 \<le> moved \<and> moved < 2 ^ 16 then of_int moved else HALF))"

section \<open>Trees\<close>

type_synonym TerminalId = string

datatype Node = Leaf TerminalId | Split Axis Share Node Node

datatype PanesError = Duplicate TerminalId | Full | Missing TerminalId

fun leaves :: "Node \<Rightarrow> TerminalId list" where
  "leaves (Leaf i) = [i]"
| "leaves (Split _ _ first second) = leaves first @ leaves second"

fun Node_contains :: "Node \<Rightarrow> TerminalId \<Rightarrow> bool" where
  "Node_contains (Leaf leaf) i = (leaf = i)"
| "Node_contains (Split _ _ first second) i = (Node_contains first i \<or> Node_contains second i)"

fun Node_split :: "Node \<Rightarrow> TerminalId \<Rightarrow> Axis \<Rightarrow> TerminalId \<Rightarrow> Node \<times> bool" where
  "Node_split (Leaf leaf) target axis new =
     (if leaf = target then (Split axis Share_default (Leaf leaf) (Leaf new), True) else (Leaf leaf, False))"
| "Node_split (Split own share first second) target axis new =
     (case Node_split first target axis new of
        (first', True) \<Rightarrow> (Split own share first' second, True)
      | (first', False) \<Rightarrow>
          (case Node_split second target axis new of (second', found) \<Rightarrow> (Split own share first' second', found)))"

fun Node_remove :: "Node \<Rightarrow> TerminalId \<Rightarrow> Node \<times> bool" where
  "Node_remove (Leaf leaf) i = (Leaf leaf, False)"
| "Node_remove (Split own share first second) i =
     (let kept = (if first = Leaf i then Some second else if second = Leaf i then Some first else None) in
      case kept of
        Some kept \<Rightarrow> (kept, True)
      | None \<Rightarrow>
          (case Node_remove first i of
             (first', True) \<Rightarrow> (Split own share first' second, True)
           | (first', False) \<Rightarrow>
               (case Node_remove second i of (second', found) \<Rightarrow> (Split own share first' second', found))))"

fun split_at :: "Node \<Rightarrow> bool list \<Rightarrow> Share option" where
  "split_at (Leaf _) path = None"
| "split_at (Split _ share first second) [] = Some share"
| "split_at (Split _ share first second) (side # rest) = split_at (if side then second else first) rest"

text \<open>The write through the borrowed share.\<close>

fun put_share :: "Node \<Rightarrow> bool list \<Rightarrow> Share \<Rightarrow> Node" where
  "put_share (Leaf i) path s = Leaf i"
| "put_share (Split axis share first second) [] s = Split axis s first second"
| "put_share (Split axis share first second) (side # rest) s =
     (if side then Split axis share first (put_share second rest s) else Split axis share (put_share first rest s) second)"

fun contains_split :: "Node \<Rightarrow> TerminalId \<Rightarrow> Axis \<Rightarrow> bool" where
  "contains_split (Leaf _) i axis = False"
| "contains_split (Split own share first second) i axis =
     (own = axis \<and> Node_contains (Split own share first second) i
      \<or> contains_split first i axis \<or> contains_split second i axis)"

fun nearest :: "Node \<Rightarrow> TerminalId \<Rightarrow> Axis \<Rightarrow> bool list option" where
  "nearest (Leaf _) i axis = None"
| "nearest (Split own share first second) i axis =
     (if Node_contains first i then
        (if contains_split first i axis then map_option ((#) False) (nearest first i axis)
         else if own = axis then Some [] else None)
      else if Node_contains second i then
        (if contains_split second i axis then map_option ((#) True) (nearest second i axis)
         else if own = axis then Some [] else None)
      else None)"

section \<open>Panes\<close>

record Panes =
  panes_root :: Node

fun first_duplicate :: "TerminalId list \<Rightarrow> TerminalId list \<Rightarrow> TerminalId option" where
  "first_duplicate before [] = None"
| "first_duplicate before (i # is) = (if i \<in> set before then Some i else first_duplicate (before @ [i]) is)"

definition Panes_try_from :: "Node \<Rightarrow> (Panes, PanesError) result" where
  "Panes_try_from node =
     (let ls = leaves node in
      if length ls > MAX_PANES then Inl Full
      else case first_duplicate [] ls of Some i \<Rightarrow> Inl (Duplicate i) | None \<Rightarrow> Inr \<lparr>panes_root = node\<rparr>)"

definition Panes_single :: "TerminalId \<Rightarrow> Panes" where
  "Panes_single i = \<lparr>panes_root = Leaf i\<rparr>"

definition Panes_terminals :: "Panes \<Rightarrow> TerminalId list" where
  "Panes_terminals self = leaves (panes_root self)"

definition Panes_count :: "Panes \<Rightarrow> nat" where
  "Panes_count self = length (Panes_terminals self)"

fun Node_first :: "Node \<Rightarrow> TerminalId" where
  "Node_first (Leaf i) = i"
| "Node_first (Split _ _ first second) = Node_first first"

definition Panes_contains :: "Panes \<Rightarrow> TerminalId \<Rightarrow> bool" where
  "Panes_contains self i = Node_contains (panes_root self) i"

definition Panes_split :: "Panes \<Rightarrow> TerminalId \<Rightarrow> Axis \<Rightarrow> TerminalId \<Rightarrow> Panes \<times> (unit, PanesError) result" where
  "Panes_split self target axis new =
     (if Panes_count self \<ge> MAX_PANES then (self, Inl Full)
      else if Panes_contains self new then (self, Inl (Duplicate new))
      else case Node_split (panes_root self) target axis new of
          (node, True) \<Rightarrow> (self\<lparr>panes_root := node\<rparr>, Inr ())
        | (node, False) \<Rightarrow> (self\<lparr>panes_root := node\<rparr>, Inl (Missing target)))"

definition Panes_remove :: "Panes \<Rightarrow> TerminalId \<Rightarrow> Panes \<times> bool" where
  "Panes_remove self i = (case Node_remove (panes_root self) i of (node, found) \<Rightarrow> (self\<lparr>panes_root := node\<rparr>, found))"

definition Panes_set_share :: "Panes \<Rightarrow> bool list \<Rightarrow> Share \<Rightarrow> Panes \<times> bool" where
  "Panes_set_share self path share =
     (case split_at (panes_root self) path of
        Some current \<Rightarrow>
          if current \<noteq> share then (self\<lparr>panes_root := put_share (panes_root self) path share\<rparr>, True) else (self, False)
      | None \<Rightarrow> (self, False))"

definition Panes_resize :: "Panes \<Rightarrow> TerminalId \<Rightarrow> Direction \<Rightarrow> Panes \<times> bool" where
  "Panes_resize self i direction =
     (let step = (if Direction_forward direction then RESIZE_STEP else - RESIZE_STEP) in
      case nearest (panes_root self) i (Direction_axis direction) of
        None \<Rightarrow> (self, False)
      | Some path \<Rightarrow>
          (case split_at (panes_root self) path of
             None \<Rightarrow> (self, False)
           | Some share \<Rightarrow>
               let moved = Share_moved share step in
               (self\<lparr>panes_root := put_share (panes_root self) path moved\<rparr>, moved \<noteq> share)))"

section \<open>Geometry\<close>

record Rect =
  r_x :: rat
  r_y :: rat
  r_width :: rat
  r_height :: rat

definition UNIT :: Rect where
  "UNIT = \<lparr>r_x = 0, r_y = 0, r_width = 1, r_height = 1\<rparr>"

fun Rect_cut :: "Rect \<Rightarrow> Axis \<Rightarrow> rat \<Rightarrow> Rect \<times> Rect" where
  "Rect_cut self Row fraction =
     (let width = f32_round (r_width self * fraction) in
      (self\<lparr>r_width := width\<rparr>,
       self\<lparr>r_x := f32_round (r_x self + width), r_width := f32_round (r_width self - width)\<rparr>))"
| "Rect_cut self Column fraction =
     (let height = f32_round (r_height self * fraction) in
      (self\<lparr>r_height := height\<rparr>,
       self\<lparr>r_y := f32_round (r_y self + height), r_height := f32_round (r_height self - height)\<rparr>))"

definition rect_overlap :: "rat \<Rightarrow> rat \<Rightarrow> rat \<Rightarrow> rat \<Rightarrow> rat" where
  "rect_overlap a a_len b b_len =
     f32_round (min (f32_round (a + a_len)) (f32_round (b + b_len)) - max a b)"

definition Rect_reach :: "Rect \<Rightarrow> Rect \<Rightarrow> Direction \<Rightarrow> rat option" where
  "Rect_reach self other direction =
     (let rows = rect_overlap (r_y self) (r_height self) (r_y other) (r_height other);
          cols = rect_overlap (r_x self) (r_width self) (r_x other) (r_width other);
          (gap, shared) = (case direction of
              D_Right \<Rightarrow> (f32_round (r_x other - f32_round (r_x self + r_width self)), rows)
            | D_Left \<Rightarrow> (f32_round (r_x self - f32_round (r_x other + r_width other)), rows)
            | D_Down \<Rightarrow> (f32_round (r_y other - f32_round (r_y self + r_height self)), cols)
            | D_Up \<Rightarrow> (f32_round (r_y self - f32_round (r_y other + r_height other)), cols)) in
      if \<bar>gap\<bar> < EPSILON \<and> shared > EPSILON then Some shared else None)"

fun Node_rects :: "Node \<Rightarrow> Rect \<Rightarrow> (TerminalId \<times> Rect) list" where
  "Node_rects (Leaf i) rect = [(i, rect)]"
| "Node_rects (Split axis share first second) rect =
     (let (a, b) = Rect_cut rect axis (Share_fraction share) in Node_rects first a @ Node_rects second b)"

definition Panes_rects :: "Panes \<Rightarrow> (TerminalId \<times> Rect) list" where
  "Panes_rects self = Node_rects (panes_root self) UNIT"

fun best_neighbor :: "(TerminalId \<times> rat) option \<Rightarrow> (TerminalId \<times> rat) list \<Rightarrow> (TerminalId \<times> rat) option" where
  "best_neighbor best [] = best"
| "best_neighbor best (c # cs) =
     (case best of
        Some b \<Rightarrow> if snd b \<ge> snd c then best_neighbor (Some b) cs else best_neighbor (Some c) cs
      | None \<Rightarrow> best_neighbor (Some c) cs)"

definition neighbor_candidates :: "(TerminalId \<times> Rect) list \<Rightarrow> Rect \<Rightarrow> TerminalId \<Rightarrow> Direction \<Rightarrow> (TerminalId \<times> rat) list" where
  "neighbor_candidates rects from i direction =
     List.map_filter (\<lambda>(pane, rect). map_option (\<lambda>shared. (pane, shared)) (Rect_reach from rect direction))
       (filter (\<lambda>(pane, _). pane \<noteq> i) rects)"

definition Panes_neighbor :: "Panes \<Rightarrow> TerminalId \<Rightarrow> Direction \<Rightarrow> TerminalId option" where
  "Panes_neighbor self i direction =
     (let rects = Panes_rects self in
      case find (\<lambda>(pane, _). pane = i) rects of
        None \<Rightarrow> None
      | Some (_, from) \<Rightarrow> map_option fst (best_neighbor None (neighbor_candidates rects from i direction)))"

section \<open>Sequences of changes\<close>

datatype PaneOp = PO_Split TerminalId Axis TerminalId | PO_Remove TerminalId | PO_Share "bool list" u16
  | PO_Drag "bool list" f32 | PO_Resize TerminalId Direction

fun pane_op :: "PaneOp \<Rightarrow> Panes \<Rightarrow> Panes" where
  "pane_op (PO_Split target axis new) self = fst (Panes_split self target axis new)"
| "pane_op (PO_Remove i) self = fst (Panes_remove self i)"
| "pane_op (PO_Share path share) self = fst (Panes_set_share self path (Share_from share))"
| "pane_op (PO_Drag path fraction) self = fst (Panes_set_share self path (Share_at fraction))"
| "pane_op (PO_Resize i direction) self = fst (Panes_resize self i direction)"

definition share_ok :: "Share \<Rightarrow> bool" where
  "share_ok s \<longleftrightarrow> MIN_SHARE \<le> share_value s \<and> share_value s \<le> MAX_SHARE"

fun shares_ok :: "Node \<Rightarrow> bool" where
  "shares_ok (Leaf _) = True"
| "shares_ok (Split _ share first second) = (share_ok share \<and> shares_ok first \<and> shares_ok second)"

definition panes_inv :: "Panes \<Rightarrow> bool" where
  "panes_inv self \<longleftrightarrow> distinct (Panes_terminals self) \<and> Panes_terminals self \<noteq> [] \<and> Panes_count self \<le> MAX_PANES
     \<and> shares_ok (panes_root self)"

text \<open>The path from the root to the leaf \<open>i\<close>, and the axis of the split at a path.\<close>

fun path_of :: "Node \<Rightarrow> TerminalId \<Rightarrow> bool list option" where
  "path_of (Leaf leaf) i = (if leaf = i then Some [] else None)"
| "path_of (Split _ _ first second) i =
     (case path_of first i of Some p \<Rightarrow> Some (False # p) | None \<Rightarrow> map_option ((#) True) (path_of second i))"

fun axis_at :: "Node \<Rightarrow> bool list \<Rightarrow> Axis option" where
  "axis_at (Leaf _) path = None"
| "axis_at (Split axis _ first second) [] = Some axis"
| "axis_at (Split axis _ first second) (side # rest) = axis_at (if side then second else first) rest"

text \<open>The pane \<open>new\<close> right after \<open>target\<close> in the order of the leaves.\<close>

fun insert_after :: "'a \<Rightarrow> 'a \<Rightarrow> 'a list \<Rightarrow> 'a list" where
  "insert_after target new [] = []"
| "insert_after target new (x # xs) = (if x = target then x # new # xs else x # insert_after target new xs)"

section \<open>Lemmas\<close>

lemma contains_leaves: "Node_contains n i \<longleftrightarrow> i \<in> set (leaves n)"
  by (induction n) auto

lemma leaves_not_empty [simp]: "leaves n \<noteq> []"
  by (induction n) auto

lemma insert_after_append:
  "insert_after t new (xs @ ys) = (if t \<in> set xs then insert_after t new xs @ ys else xs @ insert_after t new ys)"
  by (induction xs) auto

lemma insert_after_set: "set (insert_after t new xs) = (if t \<in> set xs then insert new (set xs) else set xs)"
  by (induction xs) auto

lemma insert_after_length: "length (insert_after t new xs) = length xs + (if t \<in> set xs then 1 else 0)"
  by (induction xs) auto

lemma insert_after_distinct: "distinct xs \<Longrightarrow> new \<notin> set xs \<Longrightarrow> distinct (insert_after t new xs)"
  by (induction xs) (auto simp: insert_after_set)

lemma insert_after_notin [simp]: "t \<notin> set xs \<Longrightarrow> insert_after t new xs = xs"
  by (induction xs) auto

lemma Node_split_found: "snd (Node_split n t ax new) \<longleftrightarrow> t \<in> set (leaves n)"
  by (induction n) (auto split: prod.split bool.split)

lemma Node_split_unfound: "t \<notin> set (leaves n) \<Longrightarrow> Node_split n t ax new = (n, False)"
  by (induction n) auto

lemma Node_split_leaves: "leaves (fst (Node_split n t ax new)) = insert_after t new (leaves n)"
proof (induction n)
  case (Split own share a b)
  show ?case
  proof (cases "t \<in> set (leaves a)")
    case True
    then obtain a' where a': "Node_split a t ax new = (a', True)"
      using Node_split_found[of a t ax new] by (cases "Node_split a t ax new") simp
    with Split.IH(1) have "leaves a' = insert_after t new (leaves a)" by simp
    with True a' show ?thesis by (simp add: insert_after_append)
  next
    case False
    then have a: "Node_split a t ax new = (a, False)" by (rule Node_split_unfound)
    obtain b' found where b': "Node_split b t ax new = (b', found)" by (cases "Node_split b t ax new")
    with Split.IH(2) have "leaves b' = insert_after t new (leaves b)" by simp
    with False a b' show ?thesis by (simp add: insert_after_append)
  qed
qed simp

lemma share_ok_default [simp]: "share_ok Share_default"
  by (simp add: share_ok_def Share_default_def HALF_def MIN_SHARE_def MAX_SHARE_def)

lemma share_ok_from [simp]: "share_ok (Share_from s)"
  by (auto simp: share_ok_def Share_from_def MIN_SHARE_def MAX_SHARE_def not_less)

lemma share_ok_at [simp]: "share_ok (Share_at x)"
  by (simp add: Share_at_def)

lemma Node_split_shares: "shares_ok n \<Longrightarrow> shares_ok (fst (Node_split n t ax new))"
  by (induction n) (auto split: prod.split bool.split)

text \<open>The four ways a removal goes through a split.\<close>

lemma Node_remove_first: "Node_remove (Split own share (Leaf i) b) i = (b, True)"
  by simp

lemma Node_remove_second: "a \<noteq> Leaf i \<Longrightarrow> Node_remove (Split own share a (Leaf i)) i = (a, True)"
  by simp

lemma Node_remove_inner:
  assumes "a \<noteq> Leaf i" "b \<noteq> Leaf i"
  shows "Node_remove (Split own share a b) i =
    (if snd (Node_remove a i) then (Split own share (fst (Node_remove a i)) b, True)
     else (Split own share (fst (Node_remove a i)) (fst (Node_remove b i)), snd (Node_remove b i)))"
  using assms by (auto split: prod.split bool.split)

lemmas Node_remove_cases = Node_remove_first Node_remove_second Node_remove_inner

lemma Node_remove_found: "snd (Node_remove n i) \<longleftrightarrow> i \<in> set (leaves n) \<and> n \<noteq> Leaf i"
proof (induction n)
  case (Split own share a b)
  then show ?case
    by (cases "a = Leaf i"; cases "b = Leaf i") (auto simp: Node_remove_cases simp del: Node_remove.simps)
qed simp

lemma Node_remove_unfound: "\<not> snd (Node_remove n i) \<Longrightarrow> Node_remove n i = (n, False)"
proof (induction n)
  case (Split own share a b)
  then show ?case
    by (cases "a = Leaf i"; cases "b = Leaf i")
       (auto simp: Node_remove_cases simp del: Node_remove.simps split: if_splits)
qed simp

lemma Node_remove_shares: "shares_ok n \<Longrightarrow> shares_ok (fst (Node_remove n i))"
proof (induction n)
  case (Split own share a b)
  then show ?case
    by (cases "a = Leaf i"; cases "b = Leaf i") (auto simp: Node_remove_cases simp del: Node_remove.simps)
qed simp

lemma Node_remove_leaves:
  assumes "snd (Node_remove n i)" "distinct (leaves n)"
  shows "leaves (fst (Node_remove n i)) = remove1 i (leaves n)"
  using assms
proof (induction n)
  case (Split own share a b)
  show ?case
  proof (cases "a = Leaf i \<or> b = Leaf i")
    case True
    with Split.prems show ?thesis
      by (cases "a = Leaf i") (auto simp: Node_remove_cases remove1_append simp del: Node_remove.simps)
  next
    case False
    note inner = Node_remove_inner[of a i b own share]
    show ?thesis
    proof (cases "snd (Node_remove a i)")
      case True
      with Split False inner show ?thesis
        using Node_remove_found[of a i] by (simp add: remove1_append del: Node_remove.simps)
    next
      case out: False
      with Node_remove_found[of a i] False have "i \<notin> set (leaves a)" by simp
      with Split False inner out show ?thesis
        by (simp add: remove1_append Node_remove_unfound del: Node_remove.simps)
    qed
  qed
qed simp

lemma Node_remove_split:
  assumes "new \<notin> set (leaves n)" "t \<in> set (leaves n)"
  shows "Node_remove (fst (Node_split n t ax new)) new = (n, True)"
  using assms
proof (induction n)
  case (Split own share a b)
  show ?case
  proof (cases "t \<in> set (leaves a)")
    case True
    then obtain a' where a': "Node_split a t ax new = (a', True)"
      using Node_split_found[of a t ax new] by (cases "Node_split a t ax new") simp
    with Split True have "Node_remove a' new = (a, True)" by simp
    moreover have "a' \<noteq> Leaf new" using calculation by auto
    moreover have "b \<noteq> Leaf new" using Split.prems by auto
    ultimately show ?thesis using a' by (simp add: Node_remove_inner del: Node_remove.simps)
  next
    case False
    then have a: "Node_split a t ax new = (a, False)" by (rule Node_split_unfound)
    obtain b' where b': "Node_split b t ax new = (b', True)"
      using Node_split_found[of b t ax new] Split.prems False by (cases "Node_split b t ax new") simp
    with Split False have "Node_remove b' new = (b, True)" by simp
    moreover have "b' \<noteq> Leaf new" using calculation by auto
    moreover have "a \<noteq> Leaf new" "\<not> snd (Node_remove a new)"
      using Split.prems Node_remove_found[of a new] by auto
    ultimately show ?thesis using a b'
      by (simp add: Node_remove_inner Node_remove_unfound del: Node_remove.simps)
  qed
qed auto

lemma put_share_leaves [simp]: "leaves (put_share n path s) = leaves n"
  by (induction n path s rule: put_share.induct) auto

lemma put_share_shares: "shares_ok n \<Longrightarrow> share_ok s \<Longrightarrow> shares_ok (put_share n path s)"
  by (induction n path s rule: put_share.induct) auto

lemma split_at_put_share: "split_at n path = Some old \<Longrightarrow> split_at (put_share n path s) q = (if q = path then Some s else split_at n q)"
proof (induction n path s arbitrary: q rule: put_share.induct)
  case (2 axis share first second s)
  then show ?case by (cases q) auto
next
  case (3 axis share first second side rest s)
  then show ?case by (cases q) (auto split: if_splits)
qed simp

lemma put_share_axis [simp]: "axis_at (put_share n path s) q = axis_at n q"
proof (induction n path s arbitrary: q rule: put_share.induct)
  case (2 axis share first second s)
  then show ?case by (cases q) auto
next
  case (3 axis share first second side rest s)
  then show ?case by (cases q) auto
qed simp

lemma split_at_ok: "shares_ok n \<Longrightarrow> split_at n path = Some s \<Longrightarrow> share_ok s"
  by (induction n path rule: split_at.induct) (auto split: if_splits)

lemma Share_moved_value:
  assumes "share_ok s" "\<bar>d\<bar> < 1000"
  shows "share_ok (Share_moved s d)
    \<and> int (unat (share_value (Share_moved s d))) = max 100 (min 900 (int (unat (share_value s)) + d))"
proof -
  have "int (unat (of_int m :: u16)) = m" if "100 \<le> m" "m \<le> 900" for m :: int
    using that by (simp add: unat_eq_nat_uint uint_word_of_int_eq take_bit_int_eq_self)
  moreover have "(100 :: u16) \<le> of_int m \<and> of_int m \<le> (900 :: u16)" if "100 \<le> m" "m \<le> 900" for m :: int
    using that by (simp add: word_le_def uint_word_of_int_eq take_bit_int_eq_self)
  ultimately show ?thesis
    by (simp add: share_ok_def Share_moved_def MIN_SHARE_def MAX_SHARE_def max_def min_def Let_def)
qed

lemma path_of_None: "path_of n i = None \<longleftrightarrow> i \<notin> set (leaves n)"
  by (induction n) (auto split: option.split)

lemma contains_split_contains: "contains_split n i ax \<Longrightarrow> i \<in> set (leaves n)"
  by (induction n) (auto simp: contains_leaves)

text \<open>Some split along the axis lies on the way to \<open>i\<close>.\<close>

definition on_path :: "Node \<Rightarrow> Axis \<Rightarrow> bool list \<Rightarrow> nat \<Rightarrow> bool" where
  "on_path n ax p k \<longleftrightarrow> k < length p \<and> axis_at n (take k p) = Some ax"

lemma on_path_Cons:
  "on_path (Split own share a b) ax (side # p) k \<longleftrightarrow>
     (case k of 0 \<Rightarrow> own = ax | Suc k' \<Rightarrow> on_path (if side then b else a) ax p k')"
  by (auto simp: on_path_def split: nat.split)

lemma ex_nat_Suc: "(\<exists>k. P k) \<longleftrightarrow> P 0 \<or> (\<exists>k. P (Suc k))"
  by (metis nat.exhaust)

definition innermost :: "Node \<Rightarrow> Axis \<Rightarrow> bool list \<Rightarrow> bool list \<Rightarrow> bool" where
  "innermost n ax p q \<longleftrightarrow> (\<exists>k. q = take k p \<and> on_path n ax p k \<and> (\<forall>j. on_path n ax p j \<longrightarrow> j \<le> k))"

lemma innermost_Cons:
  "innermost (Split own share a b) ax (side # p) q \<longleftrightarrow>
     (if \<exists>k. on_path (if side then b else a) ax p k
      then \<exists>q'. q = side # q' \<and> innermost (if side then b else a) ax p q' else own = ax \<and> q = [])"
proof -
  have all: "(\<forall>j. on_path (Split own share a b) ax (side # p) j \<longrightarrow> j \<le> m)
      \<longleftrightarrow> (\<forall>j. on_path (if side then b else a) ax p j \<longrightarrow> Suc j \<le> m)" for m
    by (auto simp: on_path_Cons split: nat.splits)
  show ?thesis
    unfolding innermost_def all by (subst ex_nat_Suc) (auto simp: on_path_Cons)
qed

lemma contains_split_path:
  assumes "distinct (leaves n)" "path_of n i = Some p"
  shows "contains_split n i ax \<longleftrightarrow> (\<exists>k. on_path n ax p k)"
  using assms
proof (induction n arbitrary: p)
  case (Split own share a b)
  have ex: "(\<exists>k. on_path (Split own share a b) ax (side # q) k)
      \<longleftrightarrow> own = ax \<or> (\<exists>k. on_path (if side then b else a) ax q k)" for side q
    by (subst ex_nat_Suc) (simp add: on_path_Cons)
  show ?case
  proof (cases "path_of a i")
    case None
    with Split.prems obtain q where q: "path_of b i = Some q" "p = True # q" by auto
    have "i \<notin> set (leaves a)" "i \<in> set (leaves b)"
      using None q path_of_None[of a i] path_of_None[of b i] by auto
    moreover have "\<not> contains_split a i ax" using calculation contains_split_contains by blast
    ultimately show ?thesis using Split q ex[of True q] by (auto simp: contains_leaves)
  next
    case (Some q)
    with Split.prems have p: "p = False # q" by simp
    have "i \<in> set (leaves a)" using Some path_of_None[of a i] by auto
    then have "i \<notin> set (leaves b)" using Split.prems by auto
    then have "\<not> contains_split b i ax" using contains_split_contains by blast
    with \<open>i \<in> set (leaves a)\<close> show ?thesis using Split Some p ex[of False q] by (auto simp: contains_leaves)
  qed
qed (auto simp: on_path_def)

lemma nearest_exact:
  assumes "distinct (leaves n)"
  shows "nearest n i ax = Some q \<longleftrightarrow> (\<exists>p. path_of n i = Some p \<and> innermost n ax p q)"
  using assms
proof (induction n arbitrary: q)
  case (Leaf leaf)
  then show ?case by (auto simp: on_path_def innermost_def)
next
  case (Split own share a b)
  show ?case
  proof (cases "path_of a i")
    case None
    then have a: "\<not> Node_contains a i" by (simp add: path_of_None contains_leaves)
    show ?thesis
    proof (cases "path_of b i")
      case None
      then have "\<not> Node_contains b i" by (simp add: path_of_None contains_leaves)
      with a None \<open>path_of a i = None\<close> show ?thesis by simp
    next
      case (Some p)
      then have b: "Node_contains b i" using path_of_None[of b i] by (auto simp: contains_leaves)
      have "contains_split b i ax \<longleftrightarrow> (\<exists>k. on_path b ax p k)"
        using contains_split_path[OF _ Some] Split.prems by simp
      with None a b Some Split show ?thesis by (auto simp: innermost_Cons)
    qed
  next
    case (Some p)
    then have a: "Node_contains a i" using path_of_None[of a i] by (auto simp: contains_leaves)
    have "contains_split a i ax \<longleftrightarrow> (\<exists>k. on_path a ax p k)"
      using contains_split_path[OF _ Some] Split.prems by simp
    with a Some Split show ?thesis by (auto simp: innermost_Cons)
  qed
qed

lemma pane_op_keeps: "panes_inv self \<Longrightarrow> panes_inv (pane_op change self)"
proof (cases change)
  case (PO_Split target axis new)
  assume "panes_inv self"
  then show ?thesis using PO_Split Node_split_found[of "panes_root self" target axis new]
      Node_split_leaves[of "panes_root self" target axis new] Node_split_shares[of "panes_root self" target axis new]
    by (cases "Node_split (panes_root self) target axis new")
       (auto simp: Panes_split_def panes_inv_def Panes_count_def Panes_terminals_def Panes_contains_def
          contains_leaves insert_after_length insert_after_distinct split: bool.split)
next
  case (PO_Remove i)
  assume "panes_inv self"
  then show ?thesis using PO_Remove Node_remove_leaves[of "panes_root self" i]
      Node_remove_unfound[of "panes_root self" i] Node_remove_shares[of "panes_root self" i]
    by (cases "Node_remove (panes_root self) i"; cases "snd (Node_remove (panes_root self) i)")
       (auto simp: Panes_remove_def panes_inv_def Panes_count_def Panes_terminals_def distinct_remove1
          length_remove1 intro: order_trans[OF diff_le_self])
next
  case (PO_Resize i direction)
  assume "panes_inv self"
  then show ?thesis using PO_Resize Share_moved_value
    by (auto simp: Panes_resize_def panes_inv_def Panes_count_def Panes_terminals_def Let_def RESIZE_STEP_def
        put_share_shares split_at_ok split: option.split)
qed (auto simp: panes_inv_def Panes_set_share_def Panes_count_def Panes_terminals_def put_share_shares split: option.split)

lemma first_duplicate_None: "first_duplicate seen xs = None \<longleftrightarrow> distinct xs \<and> set seen \<inter> set xs = {}"
  by (induction seen xs rule: first_duplicate.induct) auto

lemma try_from_inv: "Panes_try_from node = Inr self \<Longrightarrow> shares_ok node \<Longrightarrow> panes_inv self"
  by (auto simp: Panes_try_from_def panes_inv_def Panes_terminals_def Panes_count_def first_duplicate_None Let_def
      split: if_splits option.splits)

interpretation pane_changes: preserved pane_op panes_inv
  by unfold_locales (rule pane_op_keeps)

lemma Node_rects_ids: "map fst (Node_rects n rect) = leaves n"
  by (induction n arbitrary: rect) (auto split: prod.split)

text \<open>The reference choice: the first candidate that no other exceeds.\<close>

definition most_shared :: "('a \<times> rat) list \<Rightarrow> ('a \<times> rat) option" where
  "most_shared cs = find (\<lambda>b. \<forall>c \<in> set cs. snd c \<le> snd b) cs"

lemma most_shared_drop:
  assumes "snd c \<le> snd b"
  shows "most_shared (b # c # cs) = most_shared (b # cs)"
proof (cases "\<forall>d \<in> set cs. snd d \<le> snd b")
  case True
  with assms show ?thesis by (simp add: most_shared_def)
next
  case False
  with assms have "\<not> (\<forall>d \<in> set cs. snd d \<le> snd c)" by fastforce
  with False have no: "(\<forall>d \<in> set cs. snd d \<le> snd b) = False" "(\<forall>d \<in> set cs. snd d \<le> snd c) = False" by auto
  have "find (\<lambda>x. snd b \<le> snd x \<and> snd c \<le> snd x \<and> (\<forall>d \<in> set cs. snd d \<le> snd x)) cs
      = find (\<lambda>x. snd b \<le> snd x \<and> (\<forall>d \<in> set cs. snd d \<le> snd x)) cs"
    using assms by (intro find_cong) auto
  then show ?thesis unfolding most_shared_def list.set find.simps ball_simps no by simp
qed

lemma most_shared_exceed:
  assumes "snd b < snd c"
  shows "most_shared (b # c # cs) = most_shared (c # cs)"
proof -
  have "find (\<lambda>x. snd b \<le> snd x \<and> snd c \<le> snd x \<and> (\<forall>d \<in> set cs. snd d \<le> snd x)) cs
      = find (\<lambda>x. snd c \<le> snd x \<and> (\<forall>d \<in> set cs. snd d \<le> snd x)) cs"
    using assms by (intro find_cong) auto
  with assms show ?thesis by (simp add: most_shared_def)
qed

lemma best_neighbor_most:
  "best_neighbor best cs = most_shared ((case best of None \<Rightarrow> [] | Some b \<Rightarrow> [b]) @ cs)"
proof (induction best cs rule: best_neighbor.induct)
  case (1 best)
  then show ?case by (cases best) (simp_all add: most_shared_def)
next
  case (2 best c cs)
  then show ?case
    by (cases best) (auto simp: most_shared_drop most_shared_exceed not_le)
qed

lemma most_shared_None: "most_shared cs = None \<longleftrightarrow> cs = []"
proof
  assume none: "most_shared cs = None"
  show "cs = []"
  proof (rule ccontr)
    assume "cs \<noteq> []"
    then have "Max (snd ` set cs) \<in> snd ` set cs" by simp
    then obtain b where b: "b \<in> set cs" "snd b = Max (snd ` set cs)" by auto
    then have "\<forall>c \<in> set cs. snd c \<le> snd b" by simp
    with none b show False unfolding most_shared_def find_None_iff by blast
  qed
qed (simp add: most_shared_def)

lemma most_shared_Some:
  assumes "most_shared cs = Some b"
  shows "\<exists>us vs. cs = us @ b # vs \<and> (\<forall>c \<in> set us. snd c < snd b) \<and> (\<forall>c \<in> set cs. snd c \<le> snd b)"
proof -
  from assms obtain k where k: "k < length cs" "\<forall>c \<in> set cs. snd c \<le> snd b" "cs ! k = b"
    "\<forall>j < k. \<not> (\<forall>c \<in> set cs. snd c \<le> snd (cs ! j))"
    by (auto simp: most_shared_def find_Some_iff)
  have "snd c < snd b" if "c \<in> set (take k cs)" for c
  proof -
    from that obtain j where "j < k" "cs ! j = c" using k(1) by (auto simp: in_set_conv_nth)
    with k(2,4) show ?thesis by (metis not_le order.trans)
  qed
  with k id_take_nth_drop[of k cs] show ?thesis by blast
qed

lemma map_filter_split:
  "List.map_filter f xs = us' @ b # vs' \<Longrightarrow>
    \<exists>us x vs. xs = us @ x # vs \<and> List.map_filter f us = us' \<and> f x = Some b"
proof (induction xs arbitrary: us')
  case (Cons y xs)
  show ?case
  proof (cases "f y")
    case None
    with Cons.prems obtain us x vs where "xs = us @ x # vs \<and> List.map_filter f us = us' \<and> f x = Some b"
      using Cons.IH[of us'] by (auto simp: map_filter_simps)
    with None have "y # xs = (y # us) @ x # vs \<and> List.map_filter f (y # us) = us' \<and> f x = Some b"
      by (simp add: map_filter_simps)
    then show ?thesis by blast
  next
    case (Some c)
    show ?thesis
    proof (cases us')
      case Nil
      with Some Cons.prems have "y # xs = [] @ y # xs \<and> List.map_filter f [] = us' \<and> f y = Some b"
        by (simp add: map_filter_simps)
      then show ?thesis by blast
    next
      case (Cons u us'')
      with Some Cons.prems obtain us x vs where "xs = us @ x # vs \<and> List.map_filter f us = us'' \<and> f x = Some b" "u = c"
        using Cons.IH[of us''] by (auto simp: map_filter_simps)
      with Some Cons have "y # xs = (y # us) @ x # vs \<and> List.map_filter f (y # us) = us' \<and> f x = Some b"
        by (simp add: map_filter_simps)
      then show ?thesis by blast
    qed
  qed
qed (simp add: map_filter_simps)

lemma leaves_two: "i \<in> set (leaves n) \<Longrightarrow> n \<noteq> Leaf i \<longleftrightarrow> 2 \<le> length (leaves n)"
proof (cases n)
  case (Split own share a b)
  then have "length (leaves a) \<noteq> 0" "length (leaves b) \<noteq> 0" by simp_all
  then have "2 \<le> length (leaves a) + length (leaves b)" by linarith
  then have "2 \<le> length (leaves n)" using Split by simp
  then show ?thesis using Split by simp
qed auto

lemma axis_at_split_at: "axis_at n q = Some ax \<Longrightarrow> \<exists>s. split_at n q = Some s"
  by (induction n q rule: axis_at.induct) (auto split: if_splits)

lemma neighbor_candidates_alt:
  "neighbor_candidates rects from i d =
     List.map_filter (\<lambda>(k, r). if k \<noteq> i then map_option (\<lambda>s. (k, s)) (Rect_reach from r d) else None) rects"
  by (induction rects) (auto simp: neighbor_candidates_def map_filter_simps split: option.split if_splits)

lemma candidate_iff:
  "(k, s) \<in> set (neighbor_candidates rects from i d) \<longleftrightarrow> k \<noteq> i \<and> (\<exists>r. (k, r) \<in> set rects \<and> Rect_reach from r d = Some s)"
  by (induction rects) (auto simp: neighbor_candidates_alt map_filter_simps split: if_splits option.splits)

lemma neighbor_rect:
  assumes "distinct (map fst rects)" "(i, from) \<in> set rects"
  shows "find (\<lambda>(pane, _). pane = i) rects = Some (i, from)"
  using assms by (induction rects) (auto simp: rev_image_eqI)

section \<open>Properties\<close>

text \<open>
  C32. A tab's panes stay well formed through any sequence of splits, removals, drags and resizes from any
  tree that was accepted: every terminal is shown once, there are 1 to 16 of them, and every split gives
  each side at least a tenth.
\<close>

theorem panes_stay_well_formed:
  assumes "Panes_try_from node = Inr self" "shares_ok node"
  shows "let panes = fold pane_op changes self in
    distinct (Panes_terminals panes) \<and> 1 \<le> Panes_count panes \<and> Panes_count panes \<le> MAX_PANES \<and>
    (\<forall>path s. split_at (panes_root panes) path = Some s \<longrightarrow> 100 \<le> share_value s \<and> share_value s \<le> 900)"
proof -
  have "panes_inv (fold pane_op changes self)"
    using assms try_from_inv pane_changes.run_kept by blast
  then show ?thesis
    by (auto simp: panes_inv_def Panes_count_def Suc_le_eq Let_def share_ok_def MIN_SHARE_def MAX_SHARE_def
        dest: split_at_ok)
qed

definition demo_node :: Node where
  "demo_node = Split Row (Share 500) (Leaf ''a'') (Split Column (Share 300) (Leaf ''b'') (Leaf ''c''))"

theorem panes_stay_well_formed_witness:
  "Panes_try_from demo_node = Inr \<lparr>panes_root = demo_node\<rparr> \<and> shares_ok demo_node \<and>
   (let panes = fold pane_op [PO_Split ''b'' Row ''d'', PO_Remove ''a'', PO_Resize ''c'' D_Down] \<lparr>panes_root = demo_node\<rparr> in
    distinct (Panes_terminals panes) \<and> 1 \<le> Panes_count panes \<and> Panes_count panes \<le> MAX_PANES \<and>
    (\<forall>path s. split_at (panes_root panes) path = Some s \<longrightarrow> 100 \<le> share_value s \<and> share_value s \<le> 900))"
proof -
  have start: "Panes_try_from demo_node = Inr \<lparr>panes_root = demo_node\<rparr>" "shares_ok demo_node"
    by (simp_all add: Panes_try_from_def demo_node_def MAX_PANES_def share_ok_def MIN_SHARE_def MAX_SHARE_def)
  with panes_stay_well_formed[OF start] show ?thesis by blast
qed

text \<open>
  C33. What a split does, on every branch: a full tab, a terminal already shown and a missing pane are
  refused with their error and change nothing; otherwise the new pane comes right after the one split, and
  removing it gives back the very same panes.
\<close>

theorem panes_split_exact:
  "if Panes_count self \<ge> 16 then Panes_split self target axis new = (self, Inl Full)
   else if new \<in> set (Panes_terminals self) then Panes_split self target axis new = (self, Inl (Duplicate new))
   else if target \<notin> set (Panes_terminals self) then Panes_split self target axis new = (self, Inl (Missing target))
   else \<exists>panes. Panes_split self target axis new = (panes, Inr ())
     \<and> Panes_terminals panes = insert_after target new (Panes_terminals self)
     \<and> Panes_remove panes new = (self, True)"
proof -
  obtain node found where split: "Node_split (panes_root self) target axis new = (node, found)"
    by (cases "Node_split (panes_root self) target axis new")
  then have found: "found \<longleftrightarrow> target \<in> set (Panes_terminals self)"
    using Node_split_found[of "panes_root self" target axis new] by (simp add: Panes_terminals_def)
  show ?thesis
    using split found Node_split_unfound[of target "panes_root self" axis new]
      Node_split_leaves[of "panes_root self" target axis new] Node_remove_split[of new "panes_root self" target axis]
    by (auto simp: Panes_split_def Panes_remove_def Panes_contains_def contains_leaves Panes_terminals_def MAX_PANES_def
        split: bool.split)
qed

text \<open>
  A pane is removed exactly when it is shown and is not the last one; then the others keep their
  order, and otherwise nothing changes.
\<close>

theorem panes_remove_exact:
  assumes "distinct (Panes_terminals self)"
  shows "case Panes_remove self i of (panes, found) \<Rightarrow>
    (found \<longleftrightarrow> i \<in> set (Panes_terminals self) \<and> 2 \<le> Panes_count self) \<and>
    (if found then Panes_terminals panes = remove1 i (Panes_terminals self) else panes = self)"
proof -
  obtain node found where rm: "Node_remove (panes_root self) i = (node, found)"
    by (cases "Node_remove (panes_root self) i")
  have "found \<longleftrightarrow> i \<in> set (leaves (panes_root self)) \<and> 2 \<le> length (leaves (panes_root self))"
    using Node_remove_found[of "panes_root self" i] leaves_two[of i "panes_root self"] rm by auto
  then show ?thesis
    using assms rm Node_remove_unfound[of "panes_root self" i] Node_remove_leaves[of "panes_root self" i]
    by (auto simp: Panes_remove_def Panes_terminals_def Panes_count_def)
qed

theorem panes_remove_exact_witness:
  "distinct (Panes_terminals \<lparr>panes_root = demo_node\<rparr>) \<and>
   (case Panes_remove \<lparr>panes_root = demo_node\<rparr> ''b'' of (panes, found) \<Rightarrow>
     (found \<longleftrightarrow> ''b'' \<in> set (Panes_terminals \<lparr>panes_root = demo_node\<rparr>) \<and> 2 \<le> Panes_count \<lparr>panes_root = demo_node\<rparr>) \<and>
     (if found then Panes_terminals panes = remove1 ''b'' (Panes_terminals \<lparr>panes_root = demo_node\<rparr>)
      else panes = \<lparr>panes_root = demo_node\<rparr>)) \<and>
   snd (Panes_remove \<lparr>panes_root = demo_node\<rparr> ''b'')"
proof -
  have "distinct (Panes_terminals \<lparr>panes_root = demo_node\<rparr>)"
    by (simp add: Panes_terminals_def demo_node_def)
  with panes_remove_exact[OF this, of "''b''"] show ?thesis
    by (simp add: Panes_remove_def demo_node_def split: prod.splits)
qed

text \<open>
  A resize moves the innermost split along the direction's axis on the way to the pane, by one
  step of 50 within 100 and 900, and no other; it reports whether the share changed. Where no such split
  exists nothing changes.
\<close>

theorem panes_resize_nearest:
  assumes "panes_inv self"
  shows "let axis = Direction_axis direction; node = panes_root self; (panes, moved) = Panes_resize self i direction in
    ((\<nexists>p q. path_of node i = Some p \<and> innermost node axis p q) \<longrightarrow> panes = self \<and> \<not> moved) \<and>
    (\<forall>p q. path_of node i = Some p \<and> innermost node axis p q \<longrightarrow>
      (\<exists>old new. split_at node q = Some old
        \<and> int (unat (share_value new)) = max 100 (min 900 (int (unat (share_value old)) + (if Direction_forward direction then 50 else -50)))
        \<and> (moved \<longleftrightarrow> new \<noteq> old)
        \<and> (\<forall>r. split_at (panes_root panes) r = (if r = q then Some new else split_at node r))
        \<and> (\<forall>r. axis_at (panes_root panes) r = axis_at node r)
        \<and> Panes_terminals panes = Panes_terminals self))"
proof -
  let ?node = "panes_root self" and ?axis = "Direction_axis direction"
  let ?step = "if Direction_forward direction then 50 else - 50 :: int"
  have near: "nearest ?node i ?axis = Some q \<longleftrightarrow> (\<exists>p. path_of ?node i = Some p \<and> innermost ?node ?axis p q)" for q
    using assms by (intro nearest_exact) (simp add: panes_inv_def Panes_terminals_def)
  show ?thesis
  proof (cases "nearest ?node i ?axis")
    case None
    with near show ?thesis by (auto simp: Panes_resize_def Let_def)
  next
    case (Some q)
    then obtain p where p: "path_of ?node i = Some p" "innermost ?node ?axis p q" using near by auto
    have only: "r = q" if "path_of ?node i = Some p'" "innermost ?node ?axis p' r" for p' r
      using that near[of r] Some by auto
    from p(2) obtain old where old: "split_at ?node q = Some old"
      using axis_at_split_at by (fastforce simp: innermost_def on_path_def)
    then have "share_ok old" using assms split_at_ok by (auto simp: panes_inv_def)
    then have step: "int (unat (share_value (Share_moved old ?step))) = max 100 (min 900 (int (unat (share_value old)) + ?step))"
      using Share_moved_value[of old ?step] by simp
    have resize: "Panes_resize self i direction =
        (self\<lparr>panes_root := put_share ?node q (Share_moved old ?step)\<rparr>, Share_moved old ?step \<noteq> old)"
      using Some old by (simp add: Panes_resize_def Let_def RESIZE_STEP_def)
    show ?thesis
      unfolding Let_def resize prod.case
    proof (intro conjI impI allI)
      assume "\<nexists>p q. path_of ?node i = Some p \<and> innermost ?node ?axis p q"
      with p show "self\<lparr>panes_root := put_share ?node q (Share_moved old ?step)\<rparr> = self"
        "\<not> Share_moved old ?step \<noteq> old" by blast+
    next
      fix p' r
      assume "path_of ?node i = Some p' \<and> innermost ?node ?axis p' r"
      then have "r = q" using only by blast
      with old step split_at_put_share[OF old]
      show "\<exists>old' new. split_at ?node r = Some old' \<and>
          int (unat (share_value new)) = max 100 (min 900 (int (unat (share_value old')) + ?step)) \<and>
          (Share_moved old ?step \<noteq> old) = (new \<noteq> old') \<and>
          (\<forall>s. split_at (panes_root (self\<lparr>panes_root := put_share ?node q (Share_moved old ?step)\<rparr>)) s =
             (if s = r then Some new else split_at ?node s)) \<and>
          (\<forall>s. axis_at (panes_root (self\<lparr>panes_root := put_share ?node q (Share_moved old ?step)\<rparr>)) s = axis_at ?node s) \<and>
          Panes_terminals (self\<lparr>panes_root := put_share ?node q (Share_moved old ?step)\<rparr>) = Panes_terminals self"
        by (intro exI[of _ old] exI[of _ "Share_moved old ?step"]) (simp add: Panes_terminals_def)
    qed
  qed
qed

theorem panes_resize_nearest_witness:
  "panes_inv \<lparr>panes_root = demo_node\<rparr> \<and>
   (let panes = fst (Panes_resize \<lparr>panes_root = demo_node\<rparr> ''c'' D_Down) in
    split_at (panes_root panes) [True] = Some (Share 350) \<and> split_at (panes_root panes) [] = Some (Share 500))"
proof -
  have inv: "panes_inv \<lparr>panes_root = demo_node\<rparr>"
    by (simp add: panes_inv_def Panes_terminals_def Panes_count_def demo_node_def MAX_PANES_def share_ok_def
        MIN_SHARE_def MAX_SHARE_def)
  have on: "on_path demo_node Column [True, True] k \<longleftrightarrow> k = 1" for k
    by (cases k; cases "k - 1") (auto simp: on_path_def demo_node_def)
  have inner: "path_of demo_node ''c'' = Some [True, True]" "innermost demo_node Column [True, True] [True]"
    by (simp add: demo_node_def) (auto simp: innermost_def on intro!: exI[of _ 1])
  then have inner': "path_of (panes_root \<lparr>panes_root = demo_node\<rparr>) ''c'' = Some [True, True]
      \<and> innermost (panes_root \<lparr>panes_root = demo_node\<rparr>) Column [True, True] [True]" by simp
  obtain panes moved where rs: "Panes_resize \<lparr>panes_root = demo_node\<rparr> ''c'' D_Down = (panes, moved)" by fastforce
  note moves = panes_resize_nearest[OF inv, where direction = D_Down and i = "''c''",
      unfolded Let_def rs prod.case Direction_axis.simps, THEN conjunct2, rule_format, OF inner']
  then obtain old new where raw: "split_at (panes_root \<lparr>panes_root = demo_node\<rparr>) [True] = Some old"
      "int (unat (share_value new)) = max 100 (min 900 (int (unat (share_value old))
         + (if Direction_forward D_Down then 50 else - 50)))"
      "\<forall>r. split_at (panes_root panes) r = (if r = [True] then Some new else split_at (panes_root \<lparr>panes_root = demo_node\<rparr>) r)"
    by blast
  then have old: "old = Share 300" by (simp add: demo_node_def)
  from raw(2) have "uint (share_value new) = 350" by (simp add: old Direction_forward_def)
  then have "share_value new = 350" by (simp add: word_uint_eq_iff)
  then have "new = Share 350" by (cases new) simp
  with raw(3) have "split_at (panes_root panes) [True] = Some (Share 350)" "split_at (panes_root panes) [] = Some (Share 500)"
    by (auto simp: demo_node_def)
  with inv rs show ?thesis by (simp add: Let_def)
qed

text \<open>
  What it is for a pane to touch another's edge, by their edges: the right edge of the one is the left edge of the other
  up to the tolerance, and likewise downwards; leftwards and upwards it is the same seen from the other pane. What they
  share is the stretch of that edge both cover.
\<close>

definition right_edge :: "Rect \<Rightarrow> rat" where "right_edge r = f32_round (r_x r + r_width r)"

definition bottom_edge :: "Rect \<Rightarrow> rat" where "bottom_edge r = f32_round (r_y r + r_height r)"

definition shared_rows :: "Rect \<Rightarrow> Rect \<Rightarrow> rat" where
  "shared_rows a b = f32_round (min (bottom_edge a) (bottom_edge b) - max (r_y a) (r_y b))"

definition shared_columns :: "Rect \<Rightarrow> Rect \<Rightarrow> rat" where
  "shared_columns a b = f32_round (min (right_edge a) (right_edge b) - max (r_x a) (r_x b))"

definition shared_edge :: "Direction \<Rightarrow> Rect \<Rightarrow> Rect \<Rightarrow> rat" where
  "shared_edge d a b = (if d \<in> {D_Left, D_Right} then shared_rows a b else shared_columns a b)"

definition right_of :: "Rect \<Rightarrow> Rect \<Rightarrow> bool" where
  "right_of b a \<longleftrightarrow> \<bar>f32_round (r_x b - right_edge a)\<bar> < EPSILON \<and> EPSILON < shared_rows a b"

definition below :: "Rect \<Rightarrow> Rect \<Rightarrow> bool" where
  "below b a \<longleftrightarrow> \<bar>f32_round (r_y b - bottom_edge a)\<bar> < EPSILON \<and> EPSILON < shared_columns a b"

fun touches :: "Direction \<Rightarrow> Rect \<Rightarrow> Rect \<Rightarrow> bool" where
  "touches D_Right here r = right_of r here"
| "touches D_Left here r = right_of here r"
| "touches D_Down here r = below r here"
| "touches D_Up here r = below here r"

fun opposite :: "Direction \<Rightarrow> Direction" where
  "opposite D_Left = D_Right"
| "opposite D_Right = D_Left"
| "opposite D_Up = D_Down"
| "opposite D_Down = D_Up"

lemma reach_touches: "Rect_reach a b d = Some s \<longleftrightarrow> touches d a b \<and> s = shared_edge d a b"
  by (cases d) (auto simp: Rect_reach_def Let_def rect_overlap_def right_edge_def bottom_edge_def shared_rows_def
      shared_columns_def shared_edge_def right_of_def below_def min.commute max.commute)

lemma reach_none: "Rect_reach a b d = None \<longleftrightarrow> \<not> touches d a b"
  using reach_touches [of a b d] by (metis option.distinct(1) option.exhaust)

lemma touches_opposite: "touches (opposite d) b a \<longleftrightarrow> touches d a b"
  by (cases d) simp_all

lemma neighbor_best:
  assumes "distinct (Panes_terminals self)"
  shows "case Panes_neighbor self i direction of
      Some j \<Rightarrow> j \<noteq> i \<and> (\<exists>here us rect vs shared. (i, here) \<in> set (Panes_rects self)
          \<and> Panes_rects self = us @ (j, rect) # vs \<and> Rect_reach here rect direction = Some shared
          \<and> (\<forall>k r s. (k, r) \<in> set (Panes_rects self) \<and> k \<noteq> i \<and> Rect_reach here r direction = Some s \<longrightarrow> s \<le> shared)
          \<and> (\<forall>k r s. (k, r) \<in> set us \<and> k \<noteq> i \<and> Rect_reach here r direction = Some s \<longrightarrow> s < shared))
    | None \<Rightarrow> (\<forall>here k r. (i, here) \<in> set (Panes_rects self) \<and> (k, r) \<in> set (Panes_rects self) \<and> k \<noteq> i
          \<longrightarrow> Rect_reach here r direction = None)"
proof -
  let ?rects = "Panes_rects self" and ?cs = "\<lambda>here. neighbor_candidates (Panes_rects self) here i direction"
  have dist: "distinct (map fst ?rects)"
    using assms by (simp add: Panes_rects_def Node_rects_ids Panes_terminals_def)
  show ?thesis
  proof (cases "find (\<lambda>(pane, _). pane = i) ?rects")
    case None
    then have "\<nexists>here. (i, here) \<in> set ?rects" by (auto simp: find_None_iff)
    with None show ?thesis by (simp add: Panes_neighbor_def Let_def)
  next
    case (Some found)
    then obtain here where found: "found = (i, here)" "(i, here) \<in> set ?rects"
      by (cases found) (auto simp: find_Some_iff, metis nth_mem)
    have unique: "here' = here" if "(i, here') \<in> set ?rects" for here'
      using neighbor_rect[OF dist that] Some found by simp
    have nb: "Panes_neighbor self i direction = map_option fst (most_shared (?cs here))"
      using Some found by (simp add: Panes_neighbor_def Let_def best_neighbor_most)
    show ?thesis
    proof (cases "most_shared (?cs here)")
      case None
      then have "?cs here = []" by (simp add: most_shared_None)
      with candidate_iff[of _ _ ?rects here i direction]
      have "Rect_reach here r direction = None" if "(k, r) \<in> set ?rects" "k \<noteq> i" for k r
        using that by (metis empty_iff list.set(1) not_None_eq)
      with nb None unique show ?thesis by auto
    next
      case (Some b)
      obtain j shared where b: "b = (j, shared)" by (cases b)
      from most_shared_Some[OF Some] obtain us' vs' where cs: "?cs here = us' @ b # vs'"
        "\<forall>c \<in> set us'. snd c < snd b" "\<forall>c \<in> set (?cs here). snd c \<le> snd b" by blast
      from map_filter_split[OF cs(1)[unfolded neighbor_candidates_alt]] obtain us x vs where
        split: "?rects = us @ x # vs" "neighbor_candidates us here i direction = us'"
          "(case x of (k, r) \<Rightarrow> if k \<noteq> i then map_option (\<lambda>s. (k, s)) (Rect_reach here r direction) else None) = Some b"
        by (auto simp: neighbor_candidates_alt)
      then obtain rect where x: "x = (j, rect)" "j \<noteq> i" "Rect_reach here rect direction = Some shared"
        using b by (cases x) (auto split: if_splits)
      have le: "s \<le> shared" if "(k, r) \<in> set ?rects \<and> k \<noteq> i \<and> Rect_reach here r direction = Some s" for k r s
        using that cs(3) candidate_iff[of k s ?rects here i direction] b by auto
      have less: "s < shared" if "(k, r) \<in> set us \<and> k \<noteq> i \<and> Rect_reach here r direction = Some s" for k r s
        using that cs(2) candidate_iff[of k s us here i direction] split(2) b by auto
      have j: "Panes_neighbor self i direction = Some j" using nb Some b by simp
      have "?rects = us @ (j, rect) # vs" using split(1) x(1) by simp
      then show ?thesis unfolding j option.case using x(2,3) found(2) le less by blast
    qed
  qed
qed

text \<open>
  C34. The neighbor of a pane is another pane that touches its edge in the given direction and shares most of
  it, the first in layout order among equals; there is none only when no other pane touches that edge. From a
  neighbor there is always a neighbor back in the opposite direction.
\<close>

theorem panes_neighbor_best:
  assumes "distinct (Panes_terminals self)"
  shows "case Panes_neighbor self i direction of
      Some j \<Rightarrow> j \<noteq> i \<and> Panes_neighbor self j (opposite direction) \<noteq> None \<and>
        (\<exists>here us rect vs. (i, here) \<in> set (Panes_rects self)
          \<and> Panes_rects self = us @ (j, rect) # vs \<and> touches direction here rect
          \<and> (\<forall>(k, r) \<in> set (Panes_rects self). k \<noteq> i \<and> touches direction here r
               \<longrightarrow> shared_edge direction here r \<le> shared_edge direction here rect)
          \<and> (\<forall>(k, r) \<in> set us. k \<noteq> i \<and> touches direction here r
               \<longrightarrow> shared_edge direction here r < shared_edge direction here rect))
    | None \<Rightarrow> (\<forall>here k r. (i, here) \<in> set (Panes_rects self) \<and> (k, r) \<in> set (Panes_rects self) \<and> k \<noteq> i
          \<longrightarrow> \<not> touches direction here r)"
proof (cases "Panes_neighbor self i direction")
  case None
  with neighbor_best [OF assms, of i direction] show ?thesis by (simp add: reach_none)
next
  case (Some j)
  with neighbor_best [OF assms, of i direction] obtain here us rect vs where
    best: "j \<noteq> i" "(i, here) \<in> set (Panes_rects self)" "Panes_rects self = us @ (j, rect) # vs" "touches direction here rect"
      "\<forall>k r s. (k, r) \<in> set (Panes_rects self) \<and> k \<noteq> i \<and> Rect_reach here r direction = Some s \<longrightarrow> s \<le> shared_edge direction here rect"
      "\<forall>k r s. (k, r) \<in> set us \<and> k \<noteq> i \<and> Rect_reach here r direction = Some s \<longrightarrow> s < shared_edge direction here rect"
    by (auto simp: reach_touches)
  have "(j, rect) \<in> set (Panes_rects self)" using best(3) by simp
  with best(1,2,4) neighbor_best [OF assms, of j "opposite direction"] have "Panes_neighbor self j (opposite direction) \<noteq> None"
    by (auto simp: reach_none touches_opposite split: option.splits)
  moreover have "\<forall>(k, r) \<in> set (Panes_rects self). k \<noteq> i \<and> touches direction here r
      \<longrightarrow> shared_edge direction here r \<le> shared_edge direction here rect"
    "\<forall>(k, r) \<in> set us. k \<noteq> i \<and> touches direction here r
      \<longrightarrow> shared_edge direction here r < shared_edge direction here rect"
    using best(5,6) by (simp_all add: reach_touches split_beta) (metis surjective_pairing)+
  ultimately show ?thesis unfolding Some option.case using best(1-4) by blast
qed

lemma EPSILON_value: "EPSILON = 13743895 / 137438953472"
proof -
  have b: "bits 10000 = 14" "bits (Suc 0) = 1" by (simp_all add: bits.simps)
  have q: "quotient_of (1 / 10000) = (1, 10000)" by code_simp
  have "float_exp (1 / 10000) = -14" by (simp add: float_exp_def q b pow2_def)
  moreover have "\<lfloor>8589934592 / 625 :: rat\<rfloor> = 13743895" by (simp add: floor_eq_iff)
  ultimately show ?thesis by (simp add: EPSILON_def f32_round_def pow2_def round_half_even_def Let_def)
qed

text \<open>One pane beside two, the lower of which is three times as high.\<close>

definition demo_column :: Node where
  "demo_column = Split Row (Share 500) (Leaf ''a'') (Split Column (Share 250) (Leaf ''b'') (Leaf ''c''))"

lemma quarters:
  "f32_round 0 = 0" "f32_round (1 / 4) = 1 / 4" "f32_round (1 / 2) = 1 / 2" "f32_round (3 / 4) = 3 / 4" "f32_round 1 = 1"
proof -
  have "float_exp (1 / 4) = -2" "float_exp (1 / 2) = -1" "float_exp (3 / 4) = -1" "float_exp 1 = 0" by code_simp+
  then show "f32_round 0 = 0" "f32_round (1 / 4) = 1 / 4" "f32_round (1 / 2) = 1 / 2" "f32_round (3 / 4) = 3 / 4" "f32_round 1 = 1"
    by (simp_all add: f32_round_def pow2_def round_half_even_def)
qed

theorem panes_neighbor_best_witness:
  "Panes_neighbor \<lparr>panes_root = demo_column\<rparr> ''a'' D_Right = Some ''c'' \<and>
   Panes_neighbor \<lparr>panes_root = demo_column\<rparr> ''c'' D_Left \<noteq> None"
proof -
  have dist: "distinct (Panes_terminals \<lparr>panes_root = demo_column\<rparr>)" by (simp add: Panes_terminals_def demo_column_def)
  have "Panes_neighbor \<lparr>panes_root = demo_column\<rparr> ''a'' D_Right = Some ''c''"
    by (simp add: Panes_neighbor_def Panes_rects_def demo_column_def UNIT_def Share_fraction_def quarters Let_def neighbor_candidates_def
        Rect_reach_def rect_overlap_def EPSILON_value map_filter_simps)
  with panes_neighbor_best [OF dist, of "''a''" D_Right] show ?thesis by simp
qed

end
