(* ===== verification/Saved_Tabs.thy ===== *)
theory Saved_Tabs
  imports Panes
begin

text \<open>
  The saved tabs, \<open>crates/sheprd-session/src/saved.rs\<close>, over the panes. \<open>serde_json::from_slice\<close> and
  \<open>serde_json::from_value\<close> are arguments: the first gives the file's tabs with their raw location values,
  the second the panes' tree and the mirror flag of a value that is a core terminal. Reading the tree goes
  through \<open>Panes::try_from\<close>, as its derive does, and any failure makes the location none.
\<close>

definition MAX_SAVED_BYTES :: nat where
  "MAX_SAVED_BYTES = 1024 * 1024"
definition MAX_SAVED_TABS :: nat where
  "MAX_SAVED_TABS = 256"

datatype 'e SavedError = SE_Json 'e | SE_Large | SE_Many

record CoreLocation =
  cl_observe :: bool
  cl_panes :: Panes

record 'l SavedTab =
  st_id :: u64
  st_location :: "'l option"
  st_scope :: string
  st_title :: string
  st_workspace_id :: string

record CoreTab =
  ct_id :: u64
  ct_panes :: Panes
  ct_title :: string
  ct_workspace_id :: string

text \<open>A value's location: \<open>from_value(value).ok()\<close>, where the tree is accepted by \<open>Panes::try_from\<close>.\<close>

definition core_location :: "('v \<Rightarrow> (bool \<times> Node) option) \<Rightarrow> 'v option \<Rightarrow> CoreLocation option" where
  "core_location from_value v =
     (case v of None \<Rightarrow> None
      | Some value \<Rightarrow>
          (case from_value value of None \<Rightarrow> None
           | Some (observe, node) \<Rightarrow>
               (case Panes_try_from node of
                  Inl _ \<Rightarrow> None
                | Inr panes \<Rightarrow> Some \<lparr>cl_observe = observe, cl_panes = panes\<rparr>)))"

definition read_tab :: "('v \<Rightarrow> (bool \<times> Node) option) \<Rightarrow> 'v SavedTab \<Rightarrow> CoreLocation SavedTab" where
  "read_tab from_value tab =
     \<lparr>st_id = st_id tab, st_location = core_location from_value (st_location tab), st_scope = st_scope tab,
      st_title = st_title tab, st_workspace_id = st_workspace_id tab\<rparr>"

definition SavedTabs_parse ::
  "(bytes \<Rightarrow> ('v SavedTab list, 'e) result) \<Rightarrow> ('v \<Rightarrow> (bool \<times> Node) option) \<Rightarrow> bytes
    \<Rightarrow> (CoreLocation SavedTab list, 'e SavedError) result" where
  "SavedTabs_parse from_slice from_value bytes =
     (if length bytes > MAX_SAVED_BYTES then Inl SE_Large
      else and_then (map_err SE_Json (from_slice bytes)) (\<lambda>saved.
        if length saved > MAX_SAVED_TABS then Inl SE_Many else Inr (map (read_tab from_value) saved)))"

definition core_tabs :: "CoreLocation SavedTab list \<Rightarrow> string \<Rightarrow> CoreTab list" where
  "core_tabs tabs scope =
     List.map_filter
       (\<lambda>tab. case st_location tab of
           None \<Rightarrow> None
         | Some location \<Rightarrow>
             if \<not> cl_observe location then
               Some \<lparr>ct_id = st_id tab, ct_panes = cl_panes location, ct_title = st_title tab, ct_workspace_id = st_workspace_id tab\<rparr>
             else None)
       (filter (\<lambda>tab. st_scope tab = scope \<and> st_workspace_id tab \<noteq> []) tabs)"

section \<open>Lemmas\<close>

lemma core_tabs_iff:
  "t \<in> set (core_tabs tabs scope) \<longleftrightarrow>
    (\<exists>tab \<in> set tabs. st_scope tab = scope \<and> st_workspace_id tab \<noteq> [] \<and>
      st_location tab = Some \<lparr>cl_observe = False, cl_panes = ct_panes t\<rparr> \<and>
      t = \<lparr>ct_id = st_id tab, ct_panes = ct_panes t, ct_title = st_title tab, ct_workspace_id = st_workspace_id tab\<rparr>)"
  by (induction tabs) (auto simp: core_tabs_def map_filter_simps split: option.split if_splits)

lemma core_tabs_length: "length (core_tabs tabs scope) \<le> length tabs"
  by (induction tabs) (auto simp: core_tabs_def map_filter_simps split: option.split)

lemma core_location_inv:
  assumes "core_location from_value v = Some location"
    and "\<And>value observe node. from_value value = Some (observe, node) \<Longrightarrow> shares_ok node"
  shows "panes_inv (cl_panes location)"
  using assms by (auto simp: core_location_def dest!: try_from_inv split: option.splits sum.splits)

text \<open>
  The tab of a window that a saved tab is: one of the scope and of a workspace whose location reads as a core terminal
  that is typed into, not a mirror, with 1 to 16 panes of different terminals.
\<close>

definition tab_shown :: "('v \<Rightarrow> (bool \<times> Node) option) \<Rightarrow> string \<Rightarrow> 'v SavedTab \<Rightarrow> CoreTab option" where
  "tab_shown from_value scope tab =
     (case Option.bind (st_location tab) from_value of
        Some (observe, node) \<Rightarrow>
          if st_scope tab = scope \<and> st_workspace_id tab \<noteq> [] \<and> \<not> observe \<and> distinct (leaves node) \<and> length (leaves node) \<le> 16
          then Some \<lparr>ct_id = st_id tab, ct_panes = \<lparr>panes_root = node\<rparr>, ct_title = st_title tab, ct_workspace_id = st_workspace_id tab\<rparr>
          else None
      | None \<Rightarrow> None)"

lemma core_location_Some:
  "core_location from_value v = (case Option.bind v from_value of
     Some (observe, node) \<Rightarrow> if distinct (leaves node) \<and> length (leaves node) \<le> 16 then Some \<lparr>cl_observe = observe, cl_panes = \<lparr>panes_root = node\<rparr>\<rparr> else None
   | None \<Rightarrow> None)"
proof -
  have "Panes_try_from node = (if length (leaves node) \<le> 16 then if distinct (leaves node) then Inr \<lparr>panes_root = node\<rparr>
      else Inl (Duplicate (the (first_duplicate [] (leaves node)))) else Inl Full)" for node
    using first_duplicate_None [of "[]" "leaves node"]
    by (cases "first_duplicate [] (leaves node)") (auto simp: Panes_try_from_def MAX_PANES_def Let_def)
  then show ?thesis by (auto simp: core_location_def split: option.splits)
qed

lemma core_tabs_shown: "core_tabs (map (read_tab from_value) saved) scope = List.map_filter (tab_shown from_value scope) saved"
  by (induction saved)
    (auto simp: core_tabs_def map_filter_simps read_tab_def core_location_Some tab_shown_def split: option.splits if_splits)

section \<open>Properties\<close>

text \<open>
  C35. What saved tabs are read back: they are at most 256, from at most a megabyte, and of them exactly the tabs of the
  scope with a workspace that type into their terminals (no mirror of one), in the order they were saved; a tab whose
  location cannot be read costs no other tab, and the panes of every tab are well formed. The JSON reader is assumed to
  bring shares into range, as \<open>Share\<close>'s \<open>from\<close> attribute does.
\<close>

theorem saved_tabs_sound:
  assumes shares: "\<And>value observe node. from_value value = Some (observe, node) \<Longrightarrow> shares_ok node"
    and parsed: "SavedTabs_parse from_slice from_value bytes = Inr tabs"
  shows "length bytes \<le> 1048576 \<and> length (core_tabs tabs scope) \<le> 256
    \<and> (\<exists>saved. from_slice bytes = Inr saved \<and> length tabs = length saved
         \<and> core_tabs tabs scope = List.map_filter (tab_shown from_value scope) saved)
    \<and> (\<forall>t \<in> set (core_tabs tabs scope). ct_workspace_id t \<noteq> [] \<and> distinct (Panes_terminals (ct_panes t))
         \<and> 1 \<le> Panes_count (ct_panes t) \<and> Panes_count (ct_panes t) \<le> 16 \<and> shares_ok (panes_root (ct_panes t)))"
proof -
  from parsed obtain saved where saved: "from_slice bytes = Inr saved" "length saved \<le> MAX_SAVED_TABS"
      "tabs = map (read_tab from_value) saved" "length bytes \<le> MAX_SAVED_BYTES"
    by (cases "from_slice bytes") (auto simp: SavedTabs_parse_def split: if_splits)
  have "panes_inv (ct_panes t) \<and> ct_workspace_id t \<noteq> []" if t: "t \<in> set (core_tabs tabs scope)" for t
  proof -
    from t obtain tab where tab: "tab \<in> set tabs" "st_workspace_id tab \<noteq> []"
      "st_location tab = Some \<lparr>cl_observe = False, cl_panes = ct_panes t\<rparr>"
      "t = \<lparr>ct_id = st_id tab, ct_panes = ct_panes t, ct_title = st_title tab, ct_workspace_id = st_workspace_id tab\<rparr>"
      by (subst (asm) core_tabs_iff) blast
    from tab(1) saved(3) obtain raw where "tab = read_tab from_value raw" by auto
    with tab(3) have "core_location from_value (st_location raw) = Some \<lparr>cl_observe = False, cl_panes = ct_panes t\<rparr>"
      by (simp add: read_tab_def)
    from core_location_inv[OF this shares] have "panes_inv (ct_panes t)" by simp
    moreover have "ct_workspace_id t \<noteq> []" using tab(2,4) by (metis CoreTab.select_convs(4))
    ultimately show ?thesis by simp
  qed
  moreover have "length (core_tabs tabs scope) \<le> 256"
    using core_tabs_length[of tabs scope] saved(2,3) by (simp add: MAX_SAVED_TABS_def)
  ultimately show ?thesis using saved core_tabs_shown
    by (auto simp: MAX_SAVED_BYTES_def panes_inv_def Panes_count_def MAX_PANES_def Suc_le_eq)
qed

text \<open>A tab of the scope, one whose location cannot be read, a mirror, and one of another scope.\<close>

definition demo_saved :: "nat SavedTab list" where
  "demo_saved = map (\<lambda>(i, v, scope). \<lparr>st_id = of_nat i, st_location = Some v, st_scope = scope, st_title = ''t'', st_workspace_id = ''w''\<rparr>)
     [(1, 0, ''s''), (2, 9, ''s''), (3, 1, ''s''), (4, 0, ''other'')]"

definition demo_slice :: "bytes \<Rightarrow> (nat SavedTab list, unit) result" where
  "demo_slice bytes = Inr demo_saved"

definition demo_value :: "nat \<Rightarrow> (bool \<times> Node) option" where
  "demo_value v = (if v = 0 then Some (False, demo_node) else if v = 1 then Some (True, demo_node) else None)"

theorem saved_tabs_sound_witness:
  "core_tabs (map (read_tab demo_value) demo_saved) ''s''
     = [\<lparr>ct_id = 1, ct_panes = \<lparr>panes_root = demo_node\<rparr>, ct_title = ''t'', ct_workspace_id = ''w''\<rparr>]"
proof -
  have "\<And>value observe node. demo_value value = Some (observe, node) \<Longrightarrow> shares_ok node"
    by (auto simp: demo_value_def demo_node_def share_ok_def MIN_SHARE_def MAX_SHARE_def split: if_splits)
  moreover have "SavedTabs_parse demo_slice demo_value [] = Inr (map (read_tab demo_value) demo_saved)"
    by (simp add: SavedTabs_parse_def demo_slice_def MAX_SAVED_TABS_def demo_saved_def)
  ultimately have "core_tabs (map (read_tab demo_value) demo_saved) ''s'' = List.map_filter (tab_shown demo_value ''s'') demo_saved"
    using saved_tabs_sound [of demo_value demo_slice "[]" "map (read_tab demo_value) demo_saved" "''s''"] by (auto simp: demo_slice_def)
  then show ?thesis by (simp add: demo_saved_def tab_shown_def demo_value_def demo_node_def map_filter_simps)
qed

end
