(* ===== verification/Terminal_Scan.thy ===== *)
theory Terminal_Scan
  imports Prelude
begin

text \<open>
  The pass over a terminal's byte stream before the parser sees it, \<open>crates/sheprd-terminal/src/scan.rs\<close>:
  it holds OSC strings until they end, drops oversized ones and tracks Win32 input mode. \<open>feed\<close> is the
  loop of the source with its two indices; a call of \<open>forward\<close> appends its argument to the result.
\<close>

definition MAX_OSC_BYTES :: nat where
  "MAX_OSC_BYTES = 8 * 1024"

definition ESC :: u8 where "ESC = 0x1b"
definition BEL :: u8 where "BEL = 0x07"
definition CAN :: u8 where "CAN = 0x18"
definition SUB :: u8 where "SUB = 0x1a"
definition WIN32_INPUT_MODE :: u32 where "WIN32_INPUT_MODE = 9001"
definition PARAM_CAP :: u32 where "PARAM_CAP = 100000"

lemmas control_defs = ESC_def BEL_def CAN_def SUB_def

record Csi =
  csi_started :: bool
  csi_private :: bool
  csi_invalid :: bool
  csi_param :: u32
  csi_matched :: bool

definition Csi_default :: Csi where
  "Csi_default = \<lparr>csi_started = False, csi_private = False, csi_invalid = False, csi_param = 0, csi_matched = False\<rparr>"

datatype ScanState = Ground | Escape | InCsi Csi | Osc | OscEscape | Overflow | OverflowEscape

record Scanner =
  sc_state :: ScanState
  sc_win32_input :: bool
  sc_osc :: bytes

definition Scanner_default :: Scanner where
  "Scanner_default = \<lparr>sc_state = Ground, sc_win32_input = False, sc_osc = []\<rparr>"

definition end_param :: "Csi \<Rightarrow> Csi" where
  "end_param csi = csi\<lparr>csi_matched := csi_matched csi \<or> csi_param csi = WIN32_INPUT_MODE, csi_param := 0\<rparr>"

text \<open>One byte of a control sequence: the next state, and Win32 input mode.\<close>

definition csi_byte :: "Csi \<Rightarrow> u8 \<Rightarrow> bool \<Rightarrow> ScanState \<times> bool" where
  "csi_byte csi byte win32 =
     (if byte = ESC then (Escape, win32)
      else if byte = CAN \<or> byte = SUB then (Ground, win32)
      else if 0x30 \<le> byte \<and> byte \<le> 0x39 then
        (InCsi (csi\<lparr>csi_started := True, csi_param := min (csi_param csi * 10 + ucast (byte - 0x30)) PARAM_CAP\<rparr>), win32)
      else if byte = 0x3b \<or> byte = 0x3a then (InCsi (end_param (csi\<lparr>csi_started := True\<rparr>)), win32)
      else if 0x3c \<le> byte \<and> byte \<le> 0x3f then
        (let csi = (if \<not> csi_started csi \<and> \<not> csi_private csi \<and> byte = 0x3f then csi\<lparr>csi_private := True\<rparr>
                    else csi\<lparr>csi_invalid := True\<rparr>) in
         (InCsi (csi\<lparr>csi_started := True\<rparr>), win32))
      else if 0x20 \<le> byte \<and> byte \<le> 0x2f then (InCsi (csi\<lparr>csi_invalid := True\<rparr>), win32)
      else if 0x40 \<le> byte \<and> byte \<le> 0x7e then
        (let csi = end_param csi in
         (Ground, if csi_private csi \<and> \<not> csi_invalid csi \<and> csi_matched csi
                  then (if byte = 0x68 then True else if byte = 0x6c then False else win32) else win32))
      else (InCsi csi, win32))"

text \<open>\<open>Scanner::escape\<close>: the scanner, \<open>run\<close> and the forwarded slices.\<close>

definition Scanner_escape :: "Scanner \<Rightarrow> u8 \<Rightarrow> bytes \<Rightarrow> nat \<Rightarrow> nat \<Rightarrow> Scanner \<times> nat \<times> bytes list" where
  "Scanner_escape self byte bytes run index =
     (if byte = 0x5b then (self\<lparr>sc_state := InCsi Csi_default\<rparr>, run, [])
      else if byte = 0x5d then
        (self\<lparr>sc_osc := [byte], sc_state := Osc\<rparr>, index + 1,
         if run < index then [take (index - run) (drop run bytes)] else [])
      else if byte = 0x63 then (self\<lparr>sc_win32_input := False, sc_state := Ground\<rparr>, run, [])
      else if byte = ESC then (self\<lparr>sc_state := Escape\<rparr>, run, [])
      else if byte \<le> 0x17 \<or> byte = 0x19 \<or> (0x1c \<le> byte \<and> byte \<le> 0x1f) \<or> byte = 0x7f
      then (self\<lparr>sc_state := Escape\<rparr>, run, [])
      else (self\<lparr>sc_state := Ground\<rparr>, run, []))"

text \<open>\<open>end_osc\<close> empties the held string on both of its branches, which differ in the memory they keep.\<close>

definition end_osc :: "Scanner \<Rightarrow> Scanner" where
  "end_osc self = self\<lparr>sc_osc := [], sc_state := Ground\<rparr>"

definition holding :: "Scanner \<Rightarrow> bool" where
  "holding self \<longleftrightarrow> sc_state self \<in> {Osc, OscEscape, Overflow, OverflowEscape}"

text \<open>One pass of the loop: the scanner, \<open>run\<close>, the forwarded slices, and whether \<open>index\<close> advances.\<close>

definition feed_iter :: "bytes \<Rightarrow> Scanner \<Rightarrow> nat \<Rightarrow> nat \<Rightarrow> Scanner \<times> nat \<times> bytes list \<times> bool" where
  "feed_iter bytes self run index =
     (let byte = bytes ! index; osc = sc_osc self in
      case sc_state self of
        Ground \<Rightarrow> (if byte = ESC then self\<lparr>sc_state := Escape\<rparr> else self, run, [], True)
      | Escape \<Rightarrow> (case Scanner_escape self byte bytes run index of (s, r, f) \<Rightarrow> (s, r, f, True))
      | InCsi csi \<Rightarrow>
          (case csi_byte csi byte (sc_win32_input self) of
             (st, w) \<Rightarrow> (self\<lparr>sc_state := st, sc_win32_input := w\<rparr>, run, [], True))
      | Osc \<Rightarrow>
          if byte = BEL \<or> byte = CAN \<or> byte = SUB then (end_osc self, index + 1, [osc @ [byte]], True)
          else if byte = ESC then (self\<lparr>sc_state := OscEscape\<rparr>, run, [], True)
          else if length osc \<ge> MAX_OSC_BYTES then (self\<lparr>sc_osc := [], sc_state := Overflow\<rparr>, run, [[0x5c]], True)
          else (self\<lparr>sc_osc := osc @ [byte]\<rparr>, run, [], True)
      | OscEscape \<Rightarrow>
          if byte = 0x5c then (end_osc self, index + 1, [osc @ [ESC, byte]], True)
          else ((end_osc self)\<lparr>sc_state := Escape\<rparr>, index, [osc @ [ESC]], False)
      | Overflow \<Rightarrow>
          if byte = ESC then (self\<lparr>sc_state := OverflowEscape\<rparr>, run, [], True)
          else if byte = BEL \<or> byte = CAN \<or> byte = SUB then (end_osc self, index + 1, [], True)
          else (self, run, [], True)
      | OverflowEscape \<Rightarrow>
          if byte = 0x5c then (end_osc self, index + 1, [], True)
          else ((end_osc self)\<lparr>sc_state := Escape\<rparr>, index, [[ESC]], False))"

function feed_loop :: "bytes \<Rightarrow> Scanner \<Rightarrow> nat \<Rightarrow> nat \<Rightarrow> Scanner \<times> nat \<times> bytes list" where
  "feed_loop bytes self run index =
     (if index < length bytes then
        (case feed_iter bytes self run index of (self, run, forwarded, advance) \<Rightarrow>
           (case feed_loop bytes self run (if advance then index + 1 else index) of
              (self, run, rest) \<Rightarrow> (self, run, forwarded @ rest)))
      else (self, run, []))"
  by pat_completeness auto

text \<open>A byte is read again at most once: after \<open>continue\<close> the scanner is in an escape.\<close>

termination
proof (relation "measure (\<lambda>(bytes, self, run, index).
    2 * (length bytes - index) + (if sc_state self \<in> {OscEscape, OverflowEscape} then 1 else 0))", goal_cases)
  case 1
  show ?case by simp
next
  case 2
  then show ?case
    by (auto simp: feed_iter_def Let_def end_osc_def split: if_splits prod.splits ScanState.splits)
qed

declare feed_loop.simps [simp del]

definition Scanner_feed :: "Scanner \<Rightarrow> bytes \<Rightarrow> Scanner \<times> bytes list" where
  "Scanner_feed self bytes =
     (case feed_loop bytes self 0 0 of (self, run, forwarded) \<Rightarrow>
        (self, forwarded @ (if \<not> holding self \<and> run < length bytes then [drop run bytes] else [])))"

section \<open>The scanner byte by byte\<close>

text \<open>The reference: what one byte does to the scanner and what it passes on.\<close>

definition escape_byte :: "Scanner \<Rightarrow> u8 \<Rightarrow> Scanner \<times> bytes" where
  "escape_byte self byte =
     (case Scanner_escape self byte [] 0 0 of (s, _, _) \<Rightarrow> (s, if byte = 0x5d then [] else [byte]))"

definition scan_byte :: "Scanner \<Rightarrow> u8 \<Rightarrow> Scanner \<times> bytes" where
  "scan_byte self byte =
     (case sc_state self of
        Ground \<Rightarrow> (if byte = ESC then self\<lparr>sc_state := Escape\<rparr> else self, [byte])
      | Escape \<Rightarrow> escape_byte self byte
      | InCsi csi \<Rightarrow>
          (case csi_byte csi byte (sc_win32_input self) of
             (st, w) \<Rightarrow> (self\<lparr>sc_state := st, sc_win32_input := w\<rparr>, [byte]))
      | Osc \<Rightarrow>
          if byte = BEL \<or> byte = CAN \<or> byte = SUB then (end_osc self, sc_osc self @ [byte])
          else if byte = ESC then (self\<lparr>sc_state := OscEscape\<rparr>, [])
          else if length (sc_osc self) \<ge> MAX_OSC_BYTES then (self\<lparr>sc_osc := [], sc_state := Overflow\<rparr>, [0x5c])
          else (self\<lparr>sc_osc := sc_osc self @ [byte]\<rparr>, [])
      | OscEscape \<Rightarrow>
          if byte = 0x5c then (end_osc self, sc_osc self @ [ESC, byte])
          else (case escape_byte ((end_osc self)\<lparr>sc_state := Escape\<rparr>) byte of (s, b) \<Rightarrow> (s, sc_osc self @ [ESC] @ b))
      | Overflow \<Rightarrow>
          if byte = ESC then (self\<lparr>sc_state := OverflowEscape\<rparr>, [])
          else if byte = BEL \<or> byte = CAN \<or> byte = SUB then (end_osc self, [])
          else (self, [])
      | OverflowEscape \<Rightarrow>
          if byte = 0x5c then (end_osc self, [])
          else (case escape_byte ((end_osc self)\<lparr>sc_state := Escape\<rparr>) byte of (s, b) \<Rightarrow> (s, ESC # b)))"

fun scan_bytes :: "Scanner \<Rightarrow> bytes \<Rightarrow> Scanner \<times> bytes" where
  "scan_bytes self [] = (self, [])"
| "scan_bytes self (b # bs) =
     (case scan_byte self b of (s, out) \<Rightarrow> (case scan_bytes s bs of (s', rest) \<Rightarrow> (s', out @ rest)))"

text \<open>The bytes of a feed's slices, with those of the current run that are still to be passed on.\<close>

definition unsent :: "bytes \<Rightarrow> Scanner \<Rightarrow> nat \<Rightarrow> nat \<Rightarrow> bytes" where
  "unsent bytes self run index = (if holding self then [] else take (index - run) (drop run bytes))"

lemma Scanner_escape_osc:
  "Scanner_escape self 0x5d bytes run index =
    (self\<lparr>sc_osc := [0x5d], sc_state := Osc\<rparr>, index + 1, if run < index then [take (index - run) (drop run bytes)] else [])"
  by (simp add: Scanner_escape_def)

lemma Scanner_escape_other:
  assumes "byte \<noteq> 0x5d"
  obtains s where "\<And>bytes run index. Scanner_escape self byte bytes run index = (s, run, [])" "\<not> holding s"
    "sc_osc s = sc_osc self"
proof (rule that[of "fst (Scanner_escape self byte [] 0 0)"])
  show "Scanner_escape self byte bytes run index = (fst (Scanner_escape self byte [] 0 0), run, [])" for bytes run index
    using assms unfolding Scanner_escape_def by simp
  show "\<not> holding (fst (Scanner_escape self byte [] 0 0))" "sc_osc (fst (Scanner_escape self byte [] 0 0)) = sc_osc self"
    using assms unfolding Scanner_escape_def holding_def by simp_all
qed

lemma csi_byte_free: "csi_byte csi byte w = (st, w') \<Longrightarrow> st \<in> {Escape, Ground} \<or> (\<exists>c. st = InCsi c)"
  unfolding csi_byte_def Let_def by (auto split: if_split_asm)

lemma take_slice_Suc:
  "run \<le> index \<Longrightarrow> index < length xs \<Longrightarrow> take (Suc index - run) (drop run xs) = take (index - run) (drop run xs) @ [xs ! index]"
  by (simp add: Suc_diff_le take_Suc_conv_app_nth)

lemma escape_byte_osc: "escape_byte self 0x5d = (self\<lparr>sc_osc := [0x5d], sc_state := Osc\<rparr>, [])"
  by (simp add: escape_byte_def Scanner_escape_osc)

lemma feed_iter_escape:
  assumes "sc_state self = Escape" "feed_iter bytes self run index = (s, r, f, adv)" "run \<le> index" "index < length bytes"
  shows "adv \<and> scan_byte self (bytes ! index) = (s, snd (scan_byte self (bytes ! index))) \<and> r \<le> Suc index
    \<and> concat f @ unsent bytes s r (Suc index) = unsent bytes self run index @ snd (scan_byte self (bytes ! index))"
proof (cases "bytes ! index = 0x5d")
  case True
  with assms have "s = self\<lparr>sc_osc := [0x5d], sc_state := Osc\<rparr>" "r = Suc index" "adv"
      "f = (if run < index then [take (index - run) (drop run bytes)] else [])"
    by (auto simp: feed_iter_def Scanner_escape_osc)
  with assms(1) True show ?thesis
    by (auto simp: scan_byte_def escape_byte_osc unsent_def holding_def)
next
  case False
  obtain t where t: "\<forall>bs k n. Scanner_escape self (bytes ! index) bs k n = (t, k, [])" "\<not> holding t"
    using Scanner_escape_other[OF False, of self] by metis
  with assms have "s = t" "r = run" "adv" "f = []"
    by (auto simp: feed_iter_def)
  with assms t False take_slice_Suc[OF assms(3,4)] show ?thesis
    by (auto simp: scan_byte_def escape_byte_def unsent_def holding_def)
qed

lemma feed_iter_csi:
  assumes "sc_state self = InCsi csi" "feed_iter bytes self run index = (s, r, f, adv)" "run \<le> index" "index < length bytes"
  shows "adv \<and> scan_byte self (bytes ! index) = (s, snd (scan_byte self (bytes ! index))) \<and> r \<le> Suc index
    \<and> concat f @ unsent bytes s r (Suc index) = unsent bytes self run index @ snd (scan_byte self (bytes ! index))"
proof -
  obtain st w where c: "csi_byte csi (bytes ! index) (sc_win32_input self) = (st, w)" by fastforce
  from csi_byte_free[OF this] have "\<not> holding (self\<lparr>sc_state := st, sc_win32_input := w\<rparr>)" by (auto simp: holding_def)
  with assms c take_slice_Suc[OF assms(3,4)] show ?thesis
    by (auto simp: feed_iter_def scan_byte_def unsent_def holding_def Let_def)
qed

lemma feed_iter_advance:
  assumes "feed_iter bytes self run index = (s, r, f, True)" "run \<le> index" "index < length bytes"
  shows "scan_byte self (bytes ! index) = (s, snd (scan_byte self (bytes ! index))) \<and> r \<le> Suc index
    \<and> concat f @ unsent bytes s r (Suc index) = unsent bytes self run index @ snd (scan_byte self (bytes ! index))"
proof (cases "sc_state self")
  case Ground
  with assms take_slice_Suc[OF assms(2,3)] show ?thesis
    by (auto simp: feed_iter_def scan_byte_def unsent_def holding_def Let_def split: if_split_asm)
next
  case Escape
  from feed_iter_escape[OF this assms] show ?thesis by simp
next
  case (InCsi csi)
  from feed_iter_csi[OF this assms] show ?thesis by simp
qed (use assms in \<open>auto simp: feed_iter_def scan_byte_def unsent_def holding_def end_osc_def Let_def split: if_split_asm\<close>)

lemma scan_byte_Escape: "sc_state s = Escape \<Longrightarrow> scan_byte s b = escape_byte s b"
  by (simp add: scan_byte_def)

lemma feed_iter_again:
  assumes "feed_iter bytes self run index = (s, r, f, False)" "run \<le> index" "index < length bytes"
  shows "sc_state s = Escape \<and> r = index \<and> unsent bytes self run index = [] \<and> unsent bytes s r index = []
    \<and> scan_byte self (bytes ! index) =
        (fst (scan_byte s (bytes ! index)), concat f @ snd (scan_byte s (bytes ! index)))"
proof (cases "sc_state self")
  case Escape
  from feed_iter_escape[OF this assms] show ?thesis by simp
next
  case (InCsi csi)
  from feed_iter_csi[OF this assms] show ?thesis by simp
next
  case OscEscape
  with assms(1) have "bytes ! index \<noteq> 0x5c" "s = (end_osc self)\<lparr>sc_state := Escape\<rparr>" "r = index" "f = [sc_osc self @ [ESC]]"
    by (auto simp: feed_iter_def Let_def split: if_split_asm)
  with OscEscape show ?thesis
    by (simp add: scan_byte_Escape scan_byte_def[of self] unsent_def holding_def case_prod_beta)
next
  case OverflowEscape
  with assms(1) have "bytes ! index \<noteq> 0x5c" "s = (end_osc self)\<lparr>sc_state := Escape\<rparr>" "r = index" "f = [[ESC]]"
    by (auto simp: feed_iter_def Let_def split: if_split_asm)
  with OverflowEscape show ?thesis
    by (simp add: scan_byte_Escape scan_byte_def[of self] unsent_def holding_def case_prod_beta)
qed (use assms in \<open>simp_all add: feed_iter_def Let_def split: if_split_asm\<close>)

lemma scan_bytes_at:
  "index < length bytes \<Longrightarrow> scan_bytes self (drop index bytes) =
    (fst (scan_bytes (fst (scan_byte self (bytes ! index))) (drop (Suc index) bytes)),
     snd (scan_byte self (bytes ! index)) @ snd (scan_bytes (fst (scan_byte self (bytes ! index))) (drop (Suc index) bytes)))"
  by (simp add: Cons_nth_drop_Suc[symmetric] case_prod_beta)

lemma feed_loop_scans:
  assumes "run \<le> index" "index \<le> length bytes" "feed_loop bytes self run index = (s, r, f)"
  shows "s = fst (scan_bytes self (drop index bytes)) \<and> r \<le> length bytes
    \<and> concat f @ unsent bytes s r (length bytes) = unsent bytes self run index @ snd (scan_bytes self (drop index bytes))"
  using assms
proof (induction bytes self run index arbitrary: s r f rule: feed_loop.induct)
  case (1 bytes self run index)
  show ?case
  proof (cases "index < length bytes")
    case False
    with 1(2-4) show ?thesis by (subst (asm) feed_loop.simps) auto
  next
    case inside: True
    obtain s1 r1 f1 adv where iter: "feed_iter bytes self run index = (s1, r1, f1, adv)" by (metis prod_cases4)
    obtain s2 r2 f2 where rest: "feed_loop bytes s1 r1 (if adv then index + 1 else index) = (s2, r2, f2)"
      by (metis prod_cases3)
    have "feed_loop bytes self run index = (s2, r2, f1 @ f2)"
      using inside iter rest by (subst feed_loop.simps) simp
    with 1(4) have out: "s = s2" "r = r2" "f = f1 @ f2" by simp_all
    note IH = 1(1)[OF inside iter[symmetric] refl refl _ _ rest]
    note at_index = scan_bytes_at[OF inside, of self]
    show ?thesis
    proof (cases adv)
      case True
      with iter have "feed_iter bytes self run index = (s1, r1, f1, True)" by simp
      from feed_iter_advance[OF this 1(2) inside] have "fst (scan_byte self (bytes ! index)) = s1" "r1 \<le> Suc index"
        "concat f1 @ unsent bytes s1 r1 (Suc index) = unsent bytes self run index @ snd (scan_byte self (bytes ! index))"
        by (metis fst_conv)+
      with IH True inside show ?thesis unfolding out at_index by simp (metis append.assoc)
    next
      case False
      with iter have "feed_iter bytes self run index = (s1, r1, f1, False)" by simp
      note again = feed_iter_again[OF this 1(2) inside]
      with IH False inside scan_bytes_at[OF inside, of s1] show ?thesis unfolding out at_index by auto
    qed
  qed
qed

text \<open>The bytes that one feed passes on.\<close>

definition feed_bytes :: "Scanner \<Rightarrow> bytes \<Rightarrow> Scanner \<times> bytes" where
  "feed_bytes self bytes = (case Scanner_feed self bytes of (s, f) \<Rightarrow> (s, concat f))"

lemma feed_bytes_scans: "feed_bytes self bytes = scan_bytes self bytes"
proof -
  obtain s r f where loop: "feed_loop bytes self 0 0 = (s, r, f)" by (metis prod_cases3)
  have "unsent bytes self 0 0 = []" by (simp add: unsent_def)
  with feed_loop_scans[OF _ _ loop]
  have s: "s = fst (scan_bytes self bytes)" and f: "concat f @ unsent bytes s r (length bytes) = snd (scan_bytes self bytes)"
    by auto
  have "snd (feed_bytes self bytes) = concat f @ unsent bytes s r (length bytes)" "fst (feed_bytes self bytes) = s"
    using loop by (auto simp: feed_bytes_def Scanner_feed_def unsent_def not_less)
  with s f show ?thesis by (simp add: prod_eq_iff)
qed

interpretation scanner: transducer feed_bytes scan_byte
  by unfold_locales (simp_all add: feed_bytes_scans case_prod_beta)

section \<open>Bounds and transparency\<close>

text \<open>What the scanner keeps of the stream: the held string, and an escape that may end it.\<close>

definition held :: "Scanner \<Rightarrow> bytes" where
  "held self = (case sc_state self of Osc \<Rightarrow> sc_osc self | OscEscape \<Rightarrow> sc_osc self @ [ESC] | _ \<Rightarrow> [])"

definition dropping :: "Scanner \<Rightarrow> bool" where
  "dropping self \<longleftrightarrow> sc_state self \<in> {Overflow, OverflowEscape}"

definition scanner_inv :: "Scanner \<Rightarrow> bool" where
  "scanner_inv self \<longleftrightarrow> length (sc_osc self) \<le> MAX_OSC_BYTES \<and> (sc_state self \<notin> {Osc, OscEscape} \<longrightarrow> sc_osc self = [])"

lemma escape_byte_inv:
  assumes "sc_osc self = []" "sc_state self = Escape"
  shows "scanner_inv (fst (escape_byte self b)) \<and> \<not> dropping (fst (escape_byte self b))
    \<and> snd (escape_byte self b) @ held (fst (escape_byte self b)) = [b]
    \<and> snd (escape_byte self b) \<in> {[], [b]}"
proof (cases "b = 0x5d")
  case True
  then show ?thesis by (simp add: escape_byte_osc scanner_inv_def held_def dropping_def MAX_OSC_BYTES_def)
next
  case False
  from Scanner_escape_other[OF this, of self] obtain s where
    "Scanner_escape self b [] 0 0 = (s, 0, [])" "\<not> holding s" "sc_osc s = sc_osc self" by metis
  with False assms show ?thesis
    by (auto simp: escape_byte_def scanner_inv_def held_def holding_def dropping_def split: ScanState.split)
qed

lemma scan_byte_inv:
  assumes "scanner_inv self"
  shows "scanner_inv (fst (scan_byte self b))
    \<and> (\<not> dropping self \<and> \<not> dropping (fst (scan_byte self b)) \<longrightarrow>
         snd (scan_byte self b) @ held (fst (scan_byte self b)) = held self @ [b])
    \<and> length (snd (scan_byte self b)) \<le> MAX_OSC_BYTES + 2"
proof -
  have esc: "scanner_inv (fst (escape_byte ((end_osc self)\<lparr>sc_state := Escape\<rparr>) b))"
    "snd (escape_byte ((end_osc self)\<lparr>sc_state := Escape\<rparr>) b) @ held (fst (escape_byte ((end_osc self)\<lparr>sc_state := Escape\<rparr>) b)) = [b]"
    "length (snd (escape_byte ((end_osc self)\<lparr>sc_state := Escape\<rparr>) b)) \<le> 1"
    using escape_byte_inv[of "(end_osc self)\<lparr>sc_state := Escape\<rparr>" b] by (auto simp: end_osc_def)
  show ?thesis
  proof (cases "sc_state self")
    case Escape
    with assms escape_byte_inv[of self b] show ?thesis
      by (auto simp: scan_byte_Escape scanner_inv_def held_def[of self])
  next
    case (InCsi csi)
    obtain st w where c: "csi_byte csi b (sc_win32_input self) = (st, w)" by fastforce
    with csi_byte_free[OF c] InCsi assms show ?thesis
      by (auto simp: scan_byte_def scanner_inv_def held_def)
  next
    case OscEscape
    show ?thesis
    proof (cases "b = 0x5c")
      case True
      with OscEscape assms show ?thesis
        by (simp add: scan_byte_def scanner_inv_def held_def end_osc_def MAX_OSC_BYTES_def)
    next
      case False
      with OscEscape assms esc show ?thesis
        by (simp add: scan_byte_def case_prod_beta held_def[of self] scanner_inv_def[of self])
    qed
  next
    case OverflowEscape
    with assms esc show ?thesis
      by (cases "b = 0x5c")
         (simp_all add: scan_byte_def case_prod_beta scanner_inv_def[of self] dropping_def[of self] end_osc_def
            MAX_OSC_BYTES_def scanner_inv_def[of "self\<lparr>sc_osc := [], sc_state := Ground\<rparr>"])
  qed (use assms in \<open>auto simp: scan_byte_def scanner_inv_def held_def end_osc_def dropping_def MAX_OSC_BYTES_def\<close>)
qed

lemma scanner_inv_feed: "scanner_inv self \<Longrightarrow> scanner_inv (fst (feed_bytes self bytes))"
  by (rule scanner.feed_invariant) (auto simp: scan_byte_inv)

lemma scan_bytes_append:
  "scan_bytes s (xs @ ys) = (fst (scan_bytes (fst (scan_bytes s xs)) ys), snd (scan_bytes s xs) @ snd (scan_bytes (fst (scan_bytes s xs)) ys))"
  using scanner.feed_append[of s xs ys] by (simp add: feed_bytes_scans)

lemma scan_bytes_held:
  assumes "scanner_inv s" "\<And>k. k \<le> length bytes \<Longrightarrow> \<not> dropping (fst (scan_bytes s (take k bytes)))"
  shows "snd (scan_bytes s bytes) @ held (fst (scan_bytes s bytes)) = held s @ bytes"
  using assms
proof (induction bytes arbitrary: s)
  case (Cons b bs)
  let ?s = "fst (scan_byte s b)"
  have "\<not> dropping s" using Cons.prems(2)[of 0] by simp
  moreover have "\<not> dropping ?s" using Cons.prems(2)[of 1] by (simp add: case_prod_beta)
  ultimately have step: "snd (scan_byte s b) @ held ?s = held s @ [b]" "scanner_inv ?s"
    using scan_byte_inv[OF Cons.prems(1), of b] by auto
  have "\<not> dropping (fst (scan_bytes ?s (take k bs)))" if "k \<le> length bs" for k
    using Cons.prems(2)[of "Suc k"] that by (simp add: case_prod_beta)
  from Cons.IH[OF step(2) this] step(1) show ?case
    by (simp add: case_prod_beta)
qed (simp add: held_def split: ScanState.split)

text \<open>A string body: no byte that ends it.\<close>

definition osc_body :: "bytes \<Rightarrow> bool" where
  "osc_body body \<longleftrightarrow> set body \<inter> {ESC, BEL, CAN, SUB} = {}"

lemma scan_overflow: "sc_state s = Overflow \<Longrightarrow> osc_body body \<Longrightarrow> scan_bytes s body = (s, [])"
  by (induction body) (auto simp: scan_byte_def osc_body_def)

lemma scan_osc:
  assumes "sc_state s = Osc" "osc_body body" "length (sc_osc s) \<le> MAX_OSC_BYTES"
  shows "scan_bytes s body =
    (if length (sc_osc s) + length body \<le> MAX_OSC_BYTES then (s\<lparr>sc_osc := sc_osc s @ body\<rparr>, [])
     else (s\<lparr>sc_osc := [], sc_state := Overflow\<rparr>, [0x5c]))"
  using assms
proof (induction body arbitrary: s)
  case (Cons b bs)
  have b: "b \<notin> {ESC, BEL, CAN, SUB}" "osc_body bs" using Cons.prems(2) by (auto simp: osc_body_def)
  show ?case
  proof (cases "length (sc_osc s) \<ge> MAX_OSC_BYTES")
    case True
    with b Cons.prems have "scan_byte s b = (s\<lparr>sc_osc := [], sc_state := Overflow\<rparr>, [0x5c])"
      by (simp add: scan_byte_def)
    with True b show ?thesis by (simp add: scan_overflow)
  next
    case False
    with b Cons.prems have "scan_byte s b = (s\<lparr>sc_osc := sc_osc s @ [b]\<rparr>, [])"
      by (simp add: scan_byte_def)
    with False b Cons.prems Cons.IH[of "s\<lparr>sc_osc := sc_osc s @ [b]\<rparr>"] show ?thesis by simp
  qed
qed (simp add: MAX_OSC_BYTES_def)

section \<open>Control sequences\<close>

lemma digit_range:
  assumes "0x30 \<le> byte" "byte \<le> 0x39"
  shows "csi_byte csi byte w =
    (InCsi (csi\<lparr>csi_started := True, csi_param := min (csi_param csi * 10 + ucast (byte - 0x30)) PARAM_CAP\<rparr>), w)"
proof -
  have "byte \<noteq> ESC" "byte \<noteq> CAN" "byte \<noteq> SUB" using assms(1) by (auto simp: control_defs)
  with assms show ?thesis by (simp add: csi_byte_def)
qed

lemma digit_byte:
  assumes "d < 10"
  shows "csi_byte csi (of_char (char_of (48 + d :: nat))) w =
    (InCsi (csi\<lparr>csi_started := True, csi_param := min (csi_param csi * 10 + of_nat d) PARAM_CAP\<rparr>), w)"
proof -
  have "(48 :: u8) \<le> 48 + of_nat d" "48 + of_nat d \<le> (57 :: u8)" "ucast (of_nat d :: u8) = (of_nat d :: u32)"
    using assms by (auto simp: less_10_cases)
  then show ?thesis unfolding digit_char[OF assms] using digit_range[of "48 + of_nat d" csi w] by simp
qed

lemma scan_byte_csi:
  "sc_state s = InCsi csi \<Longrightarrow> csi_byte csi b (sc_win32_input s) = (st, w) \<Longrightarrow>
    scan_byte s b = (s\<lparr>sc_state := st, sc_win32_input := w\<rparr>, [b])"
  by (simp add: scan_byte_def)

lemma min_of_nat_u32: "k < 2 ^ 32 \<Longrightarrow> l < 2 ^ 32 \<Longrightarrow> min (of_nat k) (of_nat l) = (of_nat (min k l) :: u32)"
  by (simp add: min_def word_le_nat_alt unat_of_nat)

lemma capped_digit:
  assumes "d < 10" "p = of_nat (min m 100000)"
  shows "min (p * 10 + of_nat d) PARAM_CAP = (of_nat (min (m * 10 + d) 100000) :: u32)"
proof -
  let ?k = "min m 100000 * 10 + d"
  have k: "?k < 2 ^ 32" using assms(1) by (simp add: min_def)
  have "p * 10 + of_nat d = (of_nat ?k :: u32)" using assms(2) by simp
  moreover have "min (of_nat ?k) PARAM_CAP = (of_nat (min ?k 100000) :: u32)"
    using min_of_nat_u32[OF k, of 100000] by (simp add: PARAM_CAP_def)
  moreover have "min ?k 100000 = min (m * 10 + d) 100000" using assms(1) by (simp add: min_def)
  ultimately show ?thesis by simp
qed

lemma scan_decimal:
  assumes "sc_state s = InCsi csi" "csi_param csi = 0"
  shows "scan_bytes s (as_bytes (decimal n)) =
    (s\<lparr>sc_state := InCsi (csi\<lparr>csi_started := True, csi_param := of_nat (min n 100000)\<rparr>)\<rparr>, as_bytes (decimal n))"
proof (induction n rule: decimal.induct)
  case (1 n)
  show ?case
  proof (cases "n < 10")
    case True
    have "min (of_nat n) PARAM_CAP = (of_nat n :: u32)"
      using capped_digit[OF True, of 0 0] True by (simp add: min_def)
    then show ?thesis
      using True assms scan_byte_csi[OF assms(1) digit_byte[OF True]] by (subst (1 2) decimal.simps) (simp add: as_bytes_def)
  next
    case False
    let ?csi = "csi\<lparr>csi_started := True, csi_param := of_nat (min (n div 10) 100000)\<rparr>"
    have d: "n mod 10 < 10" by simp
    have "scan_byte (s\<lparr>sc_state := InCsi ?csi\<rparr>) (of_char (char_of (48 + n mod 10))) =
        (s\<lparr>sc_state := InCsi (csi\<lparr>csi_started := True, csi_param := of_nat (min n 100000)\<rparr>)\<rparr>, [of_char (char_of (48 + n mod 10))])"
      using scan_byte_csi[OF _ digit_byte[OF d], of "s\<lparr>sc_state := InCsi ?csi\<rparr>" ?csi]
        capped_digit[OF d refl, of "n div 10"] by simp
    with 1[OF False] show ?thesis
      using False by (subst (1 2) decimal.simps) (simp add: as_bytes_def scan_bytes_append)
  qed
qed

text \<open>The parameters of a private mode sequence, as numbers between semicolons.\<close>

fun csi_params :: "nat list \<Rightarrow> bytes" where
  "csi_params [] = []"
| "csi_params [n] = as_bytes (decimal n)"
| "csi_params (n # ns) = as_bytes (decimal n) @ [0x3b] @ csi_params ns"

lemma scan_params:
  assumes "sc_state s = InCsi csi" "csi_param csi = 0" "ns \<noteq> []"
  shows "\<exists>p. scan_bytes s (csi_params ns) =
      (s\<lparr>sc_state := InCsi (csi\<lparr>csi_started := True, csi_param := p, csi_matched := csi_matched csi \<or> 9001 \<in> set (butlast ns)\<rparr>)\<rparr>,
       csi_params ns) \<and> (p = 9001 \<longleftrightarrow> last ns = 9001)"
  using assms
proof (induction ns arbitrary: s csi rule: csi_params.induct)
  case (2 n)
  have "(of_nat (min n 100000) = (9001 :: u32)) \<longleftrightarrow> n = 9001"
    by (simp add: word_unat_eq_iff unat_of_nat min_def)
  with 2 show ?case by (auto simp: scan_decimal)
next
  case (3 n m ns)
  let ?csi = "csi\<lparr>csi_started := True, csi_param := of_nat (min n 100000)\<rparr>"
  have eq: "(of_nat (min n 100000) = WIN32_INPUT_MODE) \<longleftrightarrow> n = 9001"
    by (simp add: WIN32_INPUT_MODE_def word_unat_eq_iff unat_of_nat min_def)
  have semi: "csi_byte ?csi 0x3b w = (InCsi (end_param ?csi), w)" for w
    by (cases csi) (simp add: csi_byte_def control_defs)
  have "scan_byte (s\<lparr>sc_state := InCsi ?csi\<rparr>) 0x3b = (s\<lparr>sc_state := InCsi (end_param ?csi)\<rparr>, [0x3b])"
    using scan_byte_csi[OF _ semi, of "s\<lparr>sc_state := InCsi ?csi\<rparr>"] by simp
  with "3.IH"[of "s\<lparr>sc_state := InCsi (end_param ?csi)\<rparr>" "end_param ?csi"] scan_decimal[OF "3.prems"(1,2), of n] eq
  show ?case by (auto simp: scan_bytes_append end_param_def)
qed simp

lemma scan_mode:
  assumes "sc_state s = Ground" "ns \<noteq> []" "fin \<in> {0x68, 0x6c}"
  shows "scan_bytes s ([ESC, 0x5b, 0x3f] @ csi_params ns @ [fin]) =
    (s\<lparr>sc_win32_input := if 9001 \<in> set ns then fin = 0x68 else sc_win32_input s\<rparr>, [ESC, 0x5b, 0x3f] @ csi_params ns @ [fin])"
proof -
  let ?private = "Csi_default\<lparr>csi_private := True, csi_started := True\<rparr>"
  have start: "scan_bytes s [ESC, 0x5b, 0x3f] = (s\<lparr>sc_state := InCsi ?private\<rparr>, [ESC, 0x5b, 0x3f])"
    using assms(1) by (simp add: scan_byte_def escape_byte_def Scanner_escape_def csi_byte_def Csi_default_def control_defs)
  obtain p where params: "scan_bytes (s\<lparr>sc_state := InCsi ?private\<rparr>) (csi_params ns) =
      (s\<lparr>sc_state := InCsi (?private\<lparr>csi_param := p, csi_matched := 9001 \<in> set (butlast ns)\<rparr>)\<rparr>, csi_params ns)"
      "p = 9001 \<longleftrightarrow> last ns = 9001"
    using scan_params[of "s\<lparr>sc_state := InCsi ?private\<rparr>" ?private ns] assms(2) by (auto simp: Csi_default_def)
  have "9001 \<in> set (butlast ns) \<or> last ns = 9001 \<longleftrightarrow> 9001 \<in> set ns"
    using assms(2) by (metis append_butlast_last_id in_set_conv_decomp in_set_butlastD rotate1.simps(2) set_ConsD set_rotate1)
  with params(2) have "csi_byte (?private\<lparr>csi_param := p, csi_matched := 9001 \<in> set (butlast ns)\<rparr>) fin (sc_win32_input s) =
      (Ground, if 9001 \<in> set ns then fin = 0x68 else sc_win32_input s)"
    using assms(3) by (auto simp: csi_byte_def control_defs end_param_def Csi_default_def WIN32_INPUT_MODE_def)
  then have "scan_byte (s\<lparr>sc_state := InCsi (?private\<lparr>csi_param := p, csi_matched := 9001 \<in> set (butlast ns)\<rparr>)\<rparr>) fin =
      (s\<lparr>sc_win32_input := if 9001 \<in> set ns then fin = 0x68 else sc_win32_input s\<rparr>, [fin])"
    using assms(1) by (cases s) (simp add: scan_byte_def)
  then have last: "scan_bytes (s\<lparr>sc_state := InCsi (?private\<lparr>csi_param := p, csi_matched := 9001 \<in> set (butlast ns)\<rparr>)\<rparr>) [fin] =
      (s\<lparr>sc_win32_input := if 9001 \<in> set ns then fin = 0x68 else sc_win32_input s\<rparr>, [fin])" by simp
  show ?thesis unfolding scan_bytes_append start fst_conv snd_conv params(1) last ..
qed

section \<open>Properties\<close>

text \<open>
  C36. However the stream is cut into feeds, the scanner ends in the same state and passes on the same
  bytes: any sequence of feeds does what one feed of everything does.
\<close>

theorem scanner_any_cut:
  "fold (\<lambda>piece (s, out). case Scanner_feed s piece of (s', forwarded) \<Rightarrow> (s', out @ concat forwarded)) pieces (self, []) =
   (case Scanner_feed self (concat pieces) of (s, forwarded) \<Rightarrow> (s, concat forwarded))"
proof -
  have "(\<lambda>piece (s, out). case Scanner_feed s piece of (s', forwarded) \<Rightarrow> (s', out @ concat forwarded)) =
      (\<lambda>piece (s, out). (fst (feed_bytes s piece), out @ snd (feed_bytes s piece)))"
    by (auto simp: feed_bytes_def fun_eq_iff split: prod.split)
  then show ?thesis using scanner.feed_concat[of self pieces] by (simp add: feed_bytes_def)
qed

text \<open>
  The scanner never holds more than 8192 bytes, and it only holds or drops OSC strings: as long as it
  has not dropped an oversized one, what it has passed on and what it still holds are exactly what it read.
\<close>

theorem scanner_transparent:
  "case Scanner_feed Scanner_default bytes of (s, forwarded) \<Rightarrow>
     length (sc_osc s) \<le> 8192 \<and>
     ((\<forall>k \<le> length bytes. \<not> dropping (fst (Scanner_feed Scanner_default (take k bytes)))) \<longrightarrow>
        concat forwarded @ held s = bytes)"
proof -
  have start: "scanner_inv Scanner_default" "held Scanner_default = []"
    by (simp_all add: scanner_inv_def held_def Scanner_default_def)
  have fst_feed: "fst (Scanner_feed self xs) = fst (scan_bytes self xs)" for self xs
    using feed_bytes_scans[of self xs] by (auto simp: feed_bytes_def split: prod.splits dest: arg_cong[of _ _ fst])
  obtain s f where feed: "Scanner_feed Scanner_default bytes = (s, f)" by fastforce
  then have scan: "scan_bytes Scanner_default bytes = (s, concat f)"
    using feed_bytes_scans[of Scanner_default bytes] by (simp add: feed_bytes_def)
  have "length (sc_osc s) \<le> 8192"
    using scanner_inv_feed[OF start(1), of bytes] scan by (simp add: feed_bytes_scans scanner_inv_def MAX_OSC_BYTES_def)
  moreover have "concat f @ held s = bytes" if "\<forall>k \<le> length bytes. \<not> dropping (fst (Scanner_feed Scanner_default (take k bytes)))"
    using scan_bytes_held[OF start(1), of bytes] that scan start(2) by (simp add: fst_feed)
  ultimately show ?thesis using feed by simp
qed

theorem scanner_transparent_witness:
  "case Scanner_feed Scanner_default [0x61, ESC] of (s, forwarded) \<Rightarrow>
     length (sc_osc s) \<le> 8192 \<and> concat forwarded @ held s = [0x61, ESC]"
proof -
  have fst_feed: "fst (Scanner_feed self xs) = fst (scan_bytes self xs)" for self xs
    using feed_bytes_scans[of self xs] by (auto simp: feed_bytes_def split: prod.splits dest: arg_cong[of _ _ fst])
  have "\<not> dropping (fst (Scanner_feed Scanner_default (take k [0x61, ESC])))" if "k \<le> length [0x61, ESC]" for k
    using that by (cases k; cases "k - 1") (auto simp: fst_feed Scanner_default_def scan_byte_def dropping_def control_defs)
  with scanner_transparent[of "[0x61, ESC]"] show ?thesis by (auto split: prod.splits)
qed

text \<open>
  An OSC string is passed on whole when it has at most 8191 bytes after its bracket, and is otherwise
  replaced by an empty string terminator; either way the scanner is back where it was.
\<close>

theorem osc_whole_or_nothing:
  assumes "sc_state self = Ground" "sc_osc self = []" "osc_body body" "fin \<in> {BEL, CAN, SUB}"
  shows "case Scanner_feed self ([ESC, 0x5d] @ body @ [fin]) of (s, forwarded) \<Rightarrow>
    s = self \<and> concat forwarded = (if length body \<le> 8191 then [ESC, 0x5d] @ body @ [fin] else [ESC, 0x5c])"
proof -
  let ?osc = "self\<lparr>sc_osc := [0x5d], sc_state := Osc\<rparr>"
  have start: "scan_bytes self [ESC, 0x5d] = (?osc, [ESC])"
    using assms(1) by (cases self) (simp add: scan_byte_def escape_byte_osc control_defs)
  have body: "scan_bytes ?osc body =
      (if length body \<le> 8191 then (?osc\<lparr>sc_osc := 0x5d # body\<rparr>, []) else (?osc\<lparr>sc_osc := [], sc_state := Overflow\<rparr>, [0x5c]))"
    using scan_osc[of ?osc body] assms(3) by (auto simp: MAX_OSC_BYTES_def)
  have fin: "scan_bytes (?osc\<lparr>sc_osc := 0x5d # body\<rparr>) [fin] = (self, 0x5d # body @ [fin])"
    "scan_bytes (?osc\<lparr>sc_osc := [], sc_state := Overflow\<rparr>) [fin] = (self, [])"
    using assms(1,2,4) by (cases self; auto simp: scan_byte_def end_osc_def control_defs)+
  have "feed_bytes self ([ESC, 0x5d] @ body @ [fin]) =
      (self, if length body \<le> 8191 then [ESC, 0x5d] @ body @ [fin] else [ESC, 0x5c])"
    unfolding feed_bytes_scans scan_bytes_append start fst_conv snd_conv body using fin by simp
  then show ?thesis by (auto simp: feed_bytes_def split: prod.splits)
qed

theorem osc_whole_or_nothing_witness:
  "case Scanner_feed Scanner_default ([ESC, 0x5d] @ [0x30, 0x3b] @ [BEL]) of (s, forwarded) \<Rightarrow>
    s = Scanner_default \<and> concat forwarded = [ESC, 0x5d, 0x30, 0x3b, BEL]"
  using osc_whole_or_nothing[of Scanner_default "[0x30, 0x3b]" BEL]
  by (simp add: Scanner_default_def osc_body_def control_defs split: prod.splits)

text \<open>
  Win32 input mode follows the program's private mode sequences exactly: whatever parameters one has,
  it turns the mode on or off precisely when 9001 is among them, however large the others are, and the
  sequence itself is passed on.
\<close>

theorem win32_mode_exact:
  assumes "sc_state self = Ground" "ns \<noteq> []" "fin \<in> {0x68, 0x6c}"
  shows "case Scanner_feed self ([ESC, 0x5b, 0x3f] @ csi_params ns @ [fin]) of (s, forwarded) \<Rightarrow>
    s = self\<lparr>sc_win32_input := if 9001 \<in> set ns then fin = 0x68 else sc_win32_input self\<rparr> \<and>
    concat forwarded = [ESC, 0x5b, 0x3f] @ csi_params ns @ [fin]"
  using scan_mode[OF assms] unfolding feed_bytes_scans[symmetric] feed_bytes_def by (auto split: prod.splits)

theorem win32_mode_exact_witness:
  "case Scanner_feed Scanner_default ([ESC, 0x5b, 0x3f] @ csi_params [1, 9001] @ [0x68]) of (s, forwarded) \<Rightarrow>
    sc_win32_input s"
  using win32_mode_exact[of Scanner_default "[1, 9001]" "0x68"] by (auto simp: Scanner_default_def split: prod.splits)

end
