(* ===== verification/Terminal_Input.thy ===== *)
theory Terminal_Input
  imports Wire
begin

text \<open>
  What a terminal sends a program for the app's input, \<open>crates/sheprd-terminal/src/modes.rs\<close>,
  \<open>input.rs\<close>, \<open>input/keys.rs\<close>, \<open>input/kitty.rs\<close> and \<open>input/mouse.rs\<close>: the modes a program set, and the
  bytes of keys, mouse events, text and pastes under them. The emulator's own mode set is the argument
  \<open>contains\<close>. The Unicode case mappings of the standard library, \<open>char::to_uppercase\<close> and
  \<open>char::to_lowercase\<close>, are the record \<open>CaseTable\<close> of the functions from a character to the characters it
  maps to.
\<close>

section \<open>Modes\<close>

datatype MouseReporting = MR_Off | MR_Click | MR_Drag | MR_Motion

datatype MouseEncoding = ME_X10 | ME_Utf8 | ME_Sgr

record Modes =
  md_alt_screen :: bool
  md_alternate_scroll :: bool
  md_app_cursor :: bool
  md_app_keypad :: bool
  md_bracketed_paste :: bool
  md_focus_reporting :: bool
  md_kitty_keyboard :: u8
  md_line_feed_new_line :: bool
  md_mouse :: MouseReporting
  md_mouse_encoding :: MouseEncoding
  md_win32_input :: bool

definition Modes_default :: Modes where
  "Modes_default = \<lparr>md_alt_screen = False, md_alternate_scroll = False, md_app_cursor = False, md_app_keypad = False,
     md_bracketed_paste = False, md_focus_reporting = False, md_kitty_keyboard = 0, md_line_feed_new_line = False,
     md_mouse = MR_Off, md_mouse_encoding = ME_X10, md_win32_input = False\<rparr>"

definition reports_key_releases :: "Modes \<Rightarrow> bool" where
  "reports_key_releases modes \<longleftrightarrow> md_kitty_keyboard modes AND 2 \<noteq> 0"

definition reports_every_key :: "Modes \<Rightarrow> bool" where
  "reports_every_key modes \<longleftrightarrow> md_kitty_keyboard modes AND 8 \<noteq> 0"

text \<open>The flags of the emulator's mode set that are asked for.\<close>

datatype TermMode = MOUSE_MOTION | MOUSE_DRAG | MOUSE_REPORT_CLICK | SGR_MOUSE | UTF8_MOUSE
  | DISAMBIGUATE_ESC_CODES | REPORT_EVENT_TYPES | REPORT_ALTERNATE_KEYS | REPORT_ALL_KEYS_AS_ESC | REPORT_ASSOCIATED_TEXT
  | ALT_SCREEN | ALTERNATE_SCROLL | APP_CURSOR | APP_KEYPAD | BRACKETED_PASTE | FOCUS_IN_OUT | LINE_FEED_NEW_LINE

definition Modes_new :: "(TermMode \<Rightarrow> bool) \<Rightarrow> bool \<Rightarrow> Modes" where
  "Modes_new contains win32_input =
     (let mouse = (if contains MOUSE_MOTION then MR_Motion else if contains MOUSE_DRAG then MR_Drag
                   else if contains MOUSE_REPORT_CLICK then MR_Click else MR_Off);
          mouse_encoding = (if contains SGR_MOUSE then ME_Sgr else if contains UTF8_MOUSE then ME_Utf8 else ME_X10);
          kitty = [DISAMBIGUATE_ESC_CODES, REPORT_EVENT_TYPES, REPORT_ALTERNATE_KEYS, REPORT_ALL_KEYS_AS_ESC,
                   REPORT_ASSOCIATED_TEXT];
          kitty_keyboard = fold (\<lambda>(bit, _) flags. flags OR push_bit bit 1)
            (filter (\<lambda>(_, flag). contains flag) (enumerate 0 kitty)) 0 in
      \<lparr>md_alt_screen = contains ALT_SCREEN, md_alternate_scroll = contains ALTERNATE_SCROLL,
       md_app_cursor = contains APP_CURSOR, md_app_keypad = contains APP_KEYPAD,
       md_bracketed_paste = contains BRACKETED_PASTE, md_focus_reporting = contains FOCUS_IN_OUT,
       md_kitty_keyboard = kitty_keyboard, md_line_feed_new_line = contains LINE_FEED_NEW_LINE,
       md_mouse = mouse, md_mouse_encoding = mouse_encoding, md_win32_input = win32_input\<rparr>)"

section \<open>Shared encodings\<close>

definition ALT :: u8 where "ALT = 4"
definition CONTROL :: u8 where "CONTROL = 2"
definition HYPER :: u8 where "HYPER = 16"
definition META :: u8 where "META = 32"
definition SHIFT :: u8 where "SHIFT = 1"
definition SUPER :: u8 where "SUPER = 8"
definition MAX_REPEAT :: u16 where "MAX_REPEAT = 64"
definition PASTE_START :: bytes where "PASTE_START = [0x1b, 0x5b, 0x32, 0x30, 0x30, 0x7e]"
definition PASTE_END :: bytes where "PASTE_END = [0x1b, 0x5b, 0x32, 0x30, 0x31, 0x7e]"

lemmas modifier_defs = ALT_def CONTROL_def HYPER_def META_def SHIFT_def SUPER_def

text \<open>\<open>text.replace("\r\n", "\r")\<close>.\<close>

fun replace_crlf :: "bytes \<Rightarrow> bytes" where
  "replace_crlf [] = []"
| "replace_crlf [c] = [c]"
| "replace_crlf (c # d # cs) = (if c = 13 \<and> d = 10 then 13 # replace_crlf cs else c # replace_crlf (d # cs))"

definition paste :: "string \<Rightarrow> Modes \<Rightarrow> bytes" where
  "paste text modes =
     (if \<not> md_bracketed_paste modes then map (\<lambda>b. if b = 10 then 13 else b) (replace_crlf (as_bytes text))
      else PASTE_START @ filter (\<lambda>byte. byte \<noteq> 0x1b) (as_bytes text) @ PASTE_END)"

definition xterm_modifier :: "u8 \<Rightarrow> u8" where
  "xterm_modifier modifiers =
     1 + of_bool (modifiers AND SHIFT \<noteq> 0) + 2 * of_bool (modifiers AND ALT \<noteq> 0)
       + 4 * of_bool (modifiers AND CONTROL \<noteq> 0) + 8 * of_bool (modifiers AND (META OR SUPER) \<noteq> 0)"

definition repeats :: "u16 \<Rightarrow> nat" where
  "repeats count = unat (if count < 1 then 1 else if count > MAX_REPEAT then MAX_REPEAT else count)"

definition repeat_bytes :: "bytes \<Rightarrow> nat \<Rightarrow> bytes" where
  "repeat_bytes bytes n = concat (replicate n bytes)"

text \<open>A number printed by \<open>format!\<close>.\<close>

definition number :: "'a::len word \<Rightarrow> bytes" where
  "number w = as_bytes (decimal (unat w))"

section \<open>Keys\<close>

record CaseTable =
  to_uppercase :: "scalar \<Rightarrow> scalar list"
  to_lowercase :: "scalar \<Rightarrow> scalar list"

record KeyInput =
  ki_code :: ClientKeyCode
  ki_modifiers :: u8
  ki_kind :: ClientKeyKind
  ki_repeat_count :: u16
  ki_shifted :: "scalar option"
  ki_text :: "string option"
  ki_windows :: "WindowsKeyRecord option"

definition win32 :: "WindowsKeyRecord \<Rightarrow> bytes" where
  "win32 r = [0x1b, 0x5b] @ number (wkr_virtual_key_code r) @ [0x3b] @ number (wkr_virtual_scan_code r) @ [0x3b]
     @ number (wkr_unicode r) @ [0x3b] @ number (of_bool (wkr_key_down r) :: u8) @ [0x3b]
     @ number (wkr_control_key_state r) @ [0x3b] @ number (wkr_repeat_count r) @ [0x5f]"

definition alt_prefixed :: "u8 \<Rightarrow> bytes \<Rightarrow> bytes" where
  "alt_prefixed modifiers bytes = (if modifiers AND ALT \<noteq> 0 then [0x1b] else []) @ bytes"

definition csi_letter :: "u8 \<Rightarrow> u8 \<Rightarrow> bytes" where
  "csi_letter letter parameter = [0x1b, 0x5b, 0x31, 0x3b] @ number parameter @ [letter]"

definition csi_tilde :: "u8 \<Rightarrow> u8 \<Rightarrow> bytes" where
  "csi_tilde code parameter =
     (if parameter = 1 then [0x1b, 0x5b] @ number code @ [0x7e]
      else [0x1b, 0x5b] @ number code @ [0x3b] @ number parameter @ [0x7e])"

definition cursor_key :: "u8 \<Rightarrow> u8 \<Rightarrow> Modes \<Rightarrow> bytes" where
  "cursor_key letter parameter modes =
     (if parameter = 1 then (if md_app_cursor modes then [0x1b, 0x4f, letter] else [0x1b, 0x5b, letter])
      else csi_letter letter parameter)"

text \<open>The \<open>CSI n ~\<close> number of F5 to F20.\<close>

definition function_tilde :: "u8 \<Rightarrow> u8 option" where
  "function_tilde n = map_of
     [(5, 15), (6, 17), (7, 18), (8, 19), (9, 20), (10, 21), (11, 23), (12, 24), (13, 25), (14, 26), (15, 28), (16, 29),
      (17, 31), (18, 32), (19, 33), (20, 34)] n"

definition function_key :: "u8 \<Rightarrow> u8 \<Rightarrow> bytes" where
  "function_key n parameter =
     (if 1 \<le> n \<and> n \<le> 4 then
        (if parameter = 1 then [0x1b, 0x4f, 0x50 + n - 1] else csi_letter (0x50 + n - 1) parameter)
      else case function_tilde n of Some code \<Rightarrow> csi_tilde code parameter | None \<Rightarrow> [])"

definition shifted :: "CaseTable \<Rightarrow> scalar \<Rightarrow> scalar" where
  "shifted cases c = (case to_uppercase cases c of [upper] \<Rightarrow> upper | _ \<Rightarrow> c)"

text \<open>The C0 control Ctrl sends with a character.\<close>

definition control_byte :: "scalar \<Rightarrow> u8 option" where
  "control_byte c =
     (if (97 \<le> c \<and> c \<le> 122) \<or> (65 \<le> c \<and> c \<le> 90) then Some (of_nat c AND 0x1f)
      else if c = 64 \<or> c = 32 \<or> c = 50 then Some 0
      else if c = 91 \<or> c = 51 then Some 0x1b
      else if c = 92 \<or> c = 52 then Some 0x1c
      else if c = 93 \<or> c = 53 then Some 0x1d
      else if c = 94 \<or> c = 54 then Some 0x1e
      else if c = 95 \<or> c = 45 \<or> c = 47 \<or> c = 55 then Some 0x1f
      else if c = 63 \<or> c = 56 then Some 0x7f
      else None)"

definition char_text :: "CaseTable \<Rightarrow> scalar \<Rightarrow> KeyInput \<Rightarrow> bytes" where
  "char_text cases c key =
     (let modifiers = ki_modifiers key in
      case (if modifiers AND (CONTROL OR ALT) = 0 then ki_text key else None) of
        Some text \<Rightarrow> as_bytes text
      | None \<Rightarrow>
          let c = (if modifiers AND SHIFT \<noteq> 0 then (case ki_shifted key of Some s \<Rightarrow> s | None \<Rightarrow> shifted cases c) else c) in
          alt_prefixed modifiers (encode_utf8 c))"

definition char_key :: "CaseTable \<Rightarrow> scalar \<Rightarrow> KeyInput \<Rightarrow> bytes" where
  "char_key cases c key =
     (case (if ki_modifiers key AND CONTROL \<noteq> 0 then control_byte c else None) of
        Some byte \<Rightarrow> alt_prefixed (ki_modifiers key) [byte]
      | None \<Rightarrow> char_text cases c key)"

definition legacy :: "CaseTable \<Rightarrow> KeyInput \<Rightarrow> Modes \<Rightarrow> bytes" where
  "legacy cases key modes =
     (let modifiers = ki_modifiers key; parameter = xterm_modifier modifiers;
          back_tab = (let parameter = xterm_modifier (modifiers OR SHIFT) in
            if parameter = xterm_modifier SHIFT then [0x1b, 0x5b, 0x5a] else csi_letter 0x5a parameter) in
      case ki_code key of
        K_Enter \<Rightarrow> alt_prefixed modifiers (if md_line_feed_new_line modes then [13, 10] else [13])
      | K_Tab \<Rightarrow> if modifiers AND SHIFT = 0 then alt_prefixed modifiers [9] else back_tab
      | K_BackTab \<Rightarrow> back_tab
      | K_Backspace \<Rightarrow> alt_prefixed modifiers (if modifiers AND CONTROL \<noteq> 0 then [8] else [0x7f])
      | K_Esc \<Rightarrow> alt_prefixed modifiers [0x1b]
      | K_Null \<Rightarrow> alt_prefixed modifiers [0]
      | K_Up \<Rightarrow> cursor_key 0x41 parameter modes
      | K_Down \<Rightarrow> cursor_key 0x42 parameter modes
      | K_Right \<Rightarrow> cursor_key 0x43 parameter modes
      | K_Left \<Rightarrow> cursor_key 0x44 parameter modes
      | K_Home \<Rightarrow> cursor_key 0x48 parameter modes
      | K_End \<Rightarrow> cursor_key 0x46 parameter modes
      | K_Insert \<Rightarrow> csi_tilde 2 parameter
      | K_Delete \<Rightarrow> csi_tilde 3 parameter
      | K_PageUp \<Rightarrow> csi_tilde 5 parameter
      | K_PageDown \<Rightarrow> csi_tilde 6 parameter
      | K_F n \<Rightarrow> function_key n parameter
      | K_Char c \<Rightarrow> char_key cases c key)"

section \<open>The kitty keyboard protocol\<close>

definition DISAMBIGUATE :: u8 where "DISAMBIGUATE = 1"
definition EVENT_TYPES :: u8 where "EVENT_TYPES = 2"
definition ALL_KEYS :: u8 where "ALL_KEYS = 8"
definition F13 :: u32 where "F13 = 57376"

definition kitty_modifier :: "u8 \<Rightarrow> u8" where
  "kitty_modifier modifiers =
     fold (\<lambda>(_, v) parameter. parameter + v)
       (filter (\<lambda>(bit, _). modifiers AND bit \<noteq> 0)
         [(SHIFT, 1), (ALT, 2), (CONTROL, 4), (SUPER, 8), (HYPER, 16), (META, 32)]) 1"

definition kitty_base :: "CaseTable \<Rightarrow> scalar \<Rightarrow> scalar" where
  "kitty_base cases c = (case to_lowercase cases c of [lower] \<Rightarrow> lower | _ \<Rightarrow> c)"

definition kitty_fields :: "u8 \<Rightarrow> u8 \<Rightarrow> bytes" where
  "kitty_fields parameter event =
     (if event = 1 then (if parameter = 1 then [] else [0x3b] @ number parameter)
      else [0x3b] @ number parameter @ [0x3a] @ number event)"

definition csi_u :: "u32 \<Rightarrow> u8 \<Rightarrow> u8 \<Rightarrow> bytes" where
  "csi_u code parameter event = [0x1b, 0x5b] @ number code @ kitty_fields parameter event @ [0x75]"

definition kitty_tilde :: "u8 \<Rightarrow> u8 \<Rightarrow> u8 \<Rightarrow> bytes" where
  "kitty_tilde code parameter event = [0x1b, 0x5b] @ number code @ kitty_fields parameter event @ [0x7e]"

definition kitty_letter :: "CaseTable \<Rightarrow> u8 \<Rightarrow> u8 \<Rightarrow> u8 \<Rightarrow> KeyInput \<Rightarrow> Modes \<Rightarrow> bytes" where
  "kitty_letter cases final_byte parameter event key modes =
     (if parameter = 1 \<and> event = 1 then legacy cases key modes
      else [0x1b, 0x5b, 0x31] @ kitty_fields parameter event @ [final_byte])"

definition kitty_event :: "bool \<Rightarrow> ClientKeyKind \<Rightarrow> u8" where
  "kitty_event events kind = (if events then (case kind of Repeat \<Rightarrow> 2 | Release \<Rightarrow> 3 | Press \<Rightarrow> 1) else 1)"

definition kitty_legacy_text :: "KeyInput \<Rightarrow> bool \<Rightarrow> bool" where
  "kitty_legacy_text key all \<longleftrightarrow> \<not> all \<and>
     (case ki_code key of
        K_Char _ \<Rightarrow> ki_modifiers key AND NOT SHIFT = 0
      | K_Enter \<Rightarrow> ki_modifiers key = 0 | K_Tab \<Rightarrow> ki_modifiers key = 0 | K_Backspace \<Rightarrow> ki_modifiers key = 0
      | _ \<Rightarrow> False)"

definition kitty_bytes :: "CaseTable \<Rightarrow> KeyInput \<Rightarrow> Modes \<Rightarrow> u8 \<Rightarrow> bytes" where
  "kitty_bytes cases key modes event =
     (let flags = md_kitty_keyboard modes; all = (flags AND ALL_KEYS \<noteq> 0); parameter = kitty_modifier (ki_modifiers key) in
      case ki_code key of
        K_Esc \<Rightarrow> csi_u 27 parameter event
      | K_Enter \<Rightarrow> csi_u 13 parameter event
      | K_Tab \<Rightarrow> csi_u 9 parameter event
      | K_BackTab \<Rightarrow> csi_u 9 (kitty_modifier (ki_modifiers key OR SHIFT)) event
      | K_Backspace \<Rightarrow> csi_u 127 parameter event
      | K_Char c \<Rightarrow> csi_u (of_nat (kitty_base cases c)) parameter event
      | K_Up \<Rightarrow> kitty_letter cases 0x41 parameter event key modes
      | K_Down \<Rightarrow> kitty_letter cases 0x42 parameter event key modes
      | K_Right \<Rightarrow> kitty_letter cases 0x43 parameter event key modes
      | K_Left \<Rightarrow> kitty_letter cases 0x44 parameter event key modes
      | K_Home \<Rightarrow> kitty_letter cases 0x48 parameter event key modes
      | K_End \<Rightarrow> kitty_letter cases 0x46 parameter event key modes
      | K_Insert \<Rightarrow> kitty_tilde 2 parameter event
      | K_Delete \<Rightarrow> kitty_tilde 3 parameter event
      | K_PageUp \<Rightarrow> kitty_tilde 5 parameter event
      | K_PageDown \<Rightarrow> kitty_tilde 6 parameter event
      | K_F n \<Rightarrow>
          if 1 \<le> n \<and> n \<le> 4 then kitty_letter cases (0x50 + n - 1) parameter event key modes
          else if 13 \<le> n \<and> n \<le> 35 then csi_u (F13 + ucast (n - 13)) parameter event
          else (case function_tilde n of Some code \<Rightarrow> kitty_tilde code parameter event | None \<Rightarrow> [])
      | K_Null \<Rightarrow>
          if flags AND DISAMBIGUATE \<noteq> 0 \<or> all then csi_u 0 parameter event else legacy cases key modes)"

definition kitty_encode :: "CaseTable \<Rightarrow> KeyInput \<Rightarrow> Modes \<Rightarrow> bytes" where
  "kitty_encode cases key modes =
     (let flags = md_kitty_keyboard modes; events = (flags AND EVENT_TYPES \<noteq> 0); all = (flags AND ALL_KEYS \<noteq> 0);
          copies = (if events then 1 else repeats (ki_repeat_count key)) in
      if ki_kind key = Release \<and> \<not> events then []
      else if kitty_legacy_text key all then
        (if ki_kind key = Release then [] else repeat_bytes (legacy cases key modes) copies)
      else repeat_bytes (kitty_bytes cases key modes (kitty_event events (ki_kind key))) copies)"

definition keys_encode :: "CaseTable \<Rightarrow> KeyInput \<Rightarrow> Modes \<Rightarrow> bytes" where
  "keys_encode cases key modes =
     (case (if md_win32_input modes then ki_windows key else None) of
        Some r \<Rightarrow> win32 r
      | None \<Rightarrow>
          if md_kitty_keyboard modes \<noteq> 0 then kitty_encode cases key modes
          else if ki_kind key = Release then []
          else repeat_bytes (legacy cases key modes) (repeats (ki_repeat_count key)))"

section \<open>The mouse\<close>

definition X10_MAX :: u16 where "X10_MAX = 255 - 32 - 1"
definition UTF8_MAX :: u16 where "UTF8_MAX = 0x7ff - 32 - 1"

fun is_scroll :: "ClientMouseKind \<Rightarrow> bool" where
  "is_scroll M_ScrollUp = True" | "is_scroll M_ScrollDown = True"
| "is_scroll M_ScrollLeft = True" | "is_scroll M_ScrollRight = True"
| "is_scroll _ = False"

fun mouse_wanted :: "MouseReporting \<Rightarrow> ClientMouseKind \<Rightarrow> bool" where
  "mouse_wanted reporting (M_Down _) = True"
| "mouse_wanted reporting (M_Up _) = True"
| "mouse_wanted MR_Drag (M_Drag _) = True"
| "mouse_wanted reporting kind = (is_scroll kind \<or> reporting = MR_Motion)"

fun held_button :: "ClientMouseButton \<Rightarrow> u8" where
  "held_button B_Left = 0"
| "held_button B_Middle = 1"
| "held_button B_Right = 2"

fun mouse_button :: "ClientMouseKind \<Rightarrow> u8" where
  "mouse_button (M_Down b) = held_button b"
| "mouse_button (M_Up b) = held_button b"
| "mouse_button (M_Drag b) = held_button b + 32"
| "mouse_button M_Moved = 3 + 32"
| "mouse_button M_ScrollUp = 64"
| "mouse_button M_ScrollDown = 65"
| "mouse_button M_ScrollLeft = 66"
| "mouse_button M_ScrollRight = 67"

text \<open>One position of a legacy report: its bytes, or \<open>None\<close> past what the encoding carries.\<close>

definition legacy_value :: "MouseEncoding \<Rightarrow> u16 \<Rightarrow> bytes option" where
  "legacy_value encoding v =
     (case encoding of
        ME_Utf8 \<Rightarrow> if v \<le> UTF8_MAX then map_option encode_utf8 (char_from_u32 (ucast v + 33)) else None
      | ME_X10 \<Rightarrow> if v \<le> X10_MAX \<and> unat (v + 33) < 256 then Some [ucast (v + 33)] else None
      | ME_Sgr \<Rightarrow> None)"

definition mouse_legacy :: "u8 \<Rightarrow> u16 \<Rightarrow> u16 \<Rightarrow> MouseEncoding \<Rightarrow> bytes option" where
  "mouse_legacy button column row encoding =
     (case legacy_value encoding column of
        None \<Rightarrow> None
      | Some x \<Rightarrow> map_option (\<lambda>y. [0x1b, 0x5b, 0x4d, 32 + button] @ x @ y) (legacy_value encoding row))"

definition alternate_scroll :: "ClientMouseKind \<Rightarrow> u16 \<Rightarrow> Modes \<Rightarrow> bytes" where
  "alternate_scroll kind lines modes =
     (if \<not> md_alt_screen modes \<or> \<not> md_alternate_scroll modes then []
      else
        let turn = (\<lambda>letter. repeat_bytes [0x1b, if md_app_cursor modes then 0x4f else 0x5b, letter] (repeats lines)) in
        (case kind of M_ScrollUp \<Rightarrow> turn 0x41 | M_ScrollDown \<Rightarrow> turn 0x42 | _ \<Rightarrow> []))"

definition modifier_bits :: "u8 \<Rightarrow> u8" where
  "modifier_bits modifiers = 4 * of_bool (modifiers AND SHIFT \<noteq> 0) + 8 * of_bool (modifiers AND ALT \<noteq> 0)
     + 16 * of_bool (modifiers AND CONTROL \<noteq> 0)"

fun position_cell :: "ClientMousePosition \<Rightarrow> u16 \<times> u16" where
  "position_cell (Cell column row) = (column, row)"
| "position_cell (Pixels _ _ column row) = (column, row)"

definition mouse_report :: "ClientMouseKind \<Rightarrow> u16 \<Rightarrow> u16 \<Rightarrow> u8 \<Rightarrow> MouseEncoding \<Rightarrow> bytes option" where
  "mouse_report kind column row modifiers encoding =
     (let release = (case kind of M_Up _ \<Rightarrow> True | _ \<Rightarrow> False); button = mouse_button kind; bits = modifier_bits modifiers in
      case encoding of
        ME_Sgr \<Rightarrow> Some ([0x1b, 0x5b, 0x3c] @ number (button + bits) @ [0x3b] @ number (ucast column + 1 :: u32) @ [0x3b]
            @ number (ucast row + 1 :: u32) @ [if release then 0x6d else 0x4d])
      | _ \<Rightarrow> mouse_legacy ((if release then 3 else button) + bits) column row encoding)"

definition mouse_encode :: "ClientMouseKind \<Rightarrow> ClientMousePosition \<Rightarrow> u8 \<Rightarrow> u16 \<Rightarrow> Modes \<Rightarrow> bytes" where
  "mouse_encode kind position modifiers lines modes =
     (if md_mouse modes = MR_Off then alternate_scroll kind lines modes
      else if \<not> mouse_wanted (md_mouse modes) kind then []
      else
        let (column, row) = position_cell position in
        case mouse_report kind column row modifiers (md_mouse_encoding modes) of
          None \<Rightarrow> []
        | Some report \<Rightarrow> repeat_bytes report (if is_scroll kind then repeats lines else 1))"

section \<open>Events\<close>

fun input_encode :: "CaseTable \<Rightarrow> ClientPaneInputEvent \<Rightarrow> Modes \<Rightarrow> bytes" where
  "input_encode cases (Key code modifiers kind repeat_count shifted_codepoint generated_text _ _ windows_record) modes =
     keys_encode cases \<lparr>ki_code = code, ki_modifiers = modifiers, ki_kind = kind, ki_repeat_count = repeat_count,
       ki_shifted = Option.bind shifted_codepoint char_from_u32, ki_text = generated_text, ki_windows = windows_record\<rparr> modes"
| "input_encode cases (TextCommit text) modes = as_bytes text"
| "input_encode cases (Mouse kind position _ modifiers lines) modes = mouse_encode kind position modifiers lines modes"
| "input_encode cases (Paste text) modes = paste text modes"

section \<open>Readers\<close>

text \<open>The program's side: the text of a bracketed paste up to the end marker, with what follows it.\<close>

fun read_paste :: "bytes \<Rightarrow> (bytes \<times> bytes) option" where
  "read_paste [] = None"
| "read_paste (b # bs) =
     (if take 6 (b # bs) = PASTE_END then Some ([], drop 5 bs)
      else map_option (\<lambda>(text, rest). (b # text, rest)) (read_paste bs))"

text \<open>A mouse report: button code, column, row and release, as its encoding writes them.\<close>

definition read_sgr :: "bytes \<Rightarrow> (nat \<times> nat \<times> nat \<times> bool) option" where
  "read_sgr bs =
     (case read_digits 0 bs of (b, rest) \<Rightarrow>
        (case rest of
           s1 # rest \<Rightarrow> (case read_digits 0 rest of (x, rest) \<Rightarrow>
             (case rest of
                s2 # rest \<Rightarrow> (case read_digits 0 rest of (y, rest) \<Rightarrow>
                  if s1 = 0x3b \<and> s2 = 0x3b \<and> (rest = [0x6d] \<or> rest = [0x4d]) then Some (b, x, y, rest = [0x6d]) else None)
              | [] \<Rightarrow> None))
         | [] \<Rightarrow> None))"

fun read_value :: "MouseEncoding \<Rightarrow> bytes \<Rightarrow> (nat \<times> bytes) option" where
  "read_value ME_Utf8 (b # c # bs) =
     (if b < 128 then Some (unat b - 32, c # bs) else Some ((unat b - 192) * 64 + (unat c - 128) - 32, bs))"
| "read_value ME_Utf8 [b] = Some (unat b - 32, [])"
| "read_value enc (b # bs) = Some (unat b - 32, bs)"
| "read_value enc [] = None"

definition read_mouse :: "MouseEncoding \<Rightarrow> bytes \<Rightarrow> (nat \<times> nat \<times> nat \<times> bool) option" where
  "read_mouse enc bs =
     (if enc = ME_Sgr then (if take 3 bs = [0x1b, 0x5b, 0x3c] then read_sgr (drop 3 bs) else None)
      else if take 3 bs = [0x1b, 0x5b, 0x4d] \<and> 3 < length bs then
        Option.bind (read_value enc (drop 4 bs)) (\<lambda>(x, rest).
          Option.bind (read_value enc rest) (\<lambda>(y, rest). if rest = [] then Some (unat (bs ! 3) - 32, x, y, False) else None))
      else None)"

text \<open>The largest position an encoding carries.\<close>

definition mouse_fits :: "MouseEncoding \<Rightarrow> u16 \<Rightarrow> bool" where
  "mouse_fits enc v \<longleftrightarrow> (case enc of ME_Sgr \<Rightarrow> True | ME_X10 \<Rightarrow> unat v \<le> 222 | ME_Utf8 \<Rightarrow> unat v \<le> 2014)"

text \<open>A kitty report \<open>CSI code ; parameter : event u\<close>, the defaults 1 where a field is left out.\<close>

definition read_fields :: "bytes \<Rightarrow> (nat \<times> nat) option" where
  "read_fields bs =
     (case bs of
        [] \<Rightarrow> None
      | s # rest \<Rightarrow>
          if bs = [0x75] then Some (1, 1)
          else if s = 0x3b then
            (case read_digits 0 rest of (p, rest) \<Rightarrow>
               if rest = [0x75] then Some (p, 1)
               else (case rest of
                   c # rest \<Rightarrow> (case read_digits 0 rest of (e, rest) \<Rightarrow> if c = 0x3a \<and> rest = [0x75] then Some (p, e) else None)
                 | [] \<Rightarrow> None))
          else None)"

definition read_csi_u :: "bytes \<Rightarrow> (nat \<times> nat \<times> nat) option" where
  "read_csi_u bs =
     (if take 2 bs = [0x1b, 0x5b] then
        (case read_digits 0 (drop 2 bs) of (code, rest) \<Rightarrow> map_option (\<lambda>(p, e). (code, p, e)) (read_fields rest))
      else None)"

section \<open>Lemmas\<close>

lemma read_number:
  "bs \<noteq> [] \<Longrightarrow> \<not> is_digit (hd bs) \<Longrightarrow> read_digits 0 (number w @ bs) = (unat w, bs)"
  by (cases bs) (simp_all add: number_def read_decimal)

lemma not_digit [simp]: "\<not> is_digit 0x3b" "\<not> is_digit 0x3a" "\<not> is_digit 0x75" "\<not> is_digit 0x6d" "\<not> is_digit 0x4d"
  by (simp_all add: is_digit_def)

lemma read_sgr_number:
  "fin \<in> {0x6d, 0x4d} \<Longrightarrow>
   read_sgr (number a @ [0x3b] @ number b @ [0x3b] @ number c @ [fin]) = Some (unat a, unat b, unat c, fin = 0x6d)"
  by (auto simp: read_sgr_def read_number)

lemma read_fields_ok:
  "read_fields (kitty_fields parameter event @ [0x75]) = Some (unat parameter, unat event)"
  by (auto simp: read_fields_def kitty_fields_def read_number)

lemma number_not_nil: "number w \<noteq> []"
  by (simp add: number_def as_bytes_def decimal.simps)

lemma kitty_fields_start: "\<not> is_digit (hd (kitty_fields parameter event @ [0x75]))"
  by (simp add: kitty_fields_def)

lemma read_csi_u_ok: "read_csi_u (csi_u code parameter event) = Some (unat code, unat parameter, unat event)"
  using read_number[of "kitty_fields parameter event @ [0x75]" code] kitty_fields_start
  by (simp add: read_csi_u_def csi_u_def read_fields_ok)

lemma read_paste_ok: "0x1b \<notin> set body \<Longrightarrow> read_paste (body @ PASTE_END @ rest) = Some (body, rest)"
  by (induction body) (auto simp: PASTE_END_def)

lemma replace_crlf_lf: "10 \<notin> set (map (\<lambda>b. if b = 10 then 13 else b) bs)" for bs :: bytes
  by auto

text \<open>The kitty parameter minus one is the modifier set, bit by bit.\<close>

lemma kitty_modifier_sum:
  "kitty_modifier m = 1 + of_bool (m AND SHIFT \<noteq> 0) + 2 * of_bool (m AND ALT \<noteq> 0) + 4 * of_bool (m AND CONTROL \<noteq> 0)
     + 8 * of_bool (m AND SUPER \<noteq> 0) + 16 * of_bool (m AND HYPER \<noteq> 0) + 32 * of_bool (m AND META \<noteq> 0)"
  by (simp add: kitty_modifier_def)

lemma kitty_modifier_bits:
  "bit (kitty_modifier m - 1) 0 \<longleftrightarrow> m AND SHIFT \<noteq> 0" "bit (kitty_modifier m - 1) 1 \<longleftrightarrow> m AND ALT \<noteq> 0"
  "bit (kitty_modifier m - 1) 2 \<longleftrightarrow> m AND CONTROL \<noteq> 0" "bit (kitty_modifier m - 1) 3 \<longleftrightarrow> m AND SUPER \<noteq> 0"
  "bit (kitty_modifier m - 1) 4 \<longleftrightarrow> m AND HYPER \<noteq> 0" "bit (kitty_modifier m - 1) 5 \<longleftrightarrow> m AND META \<noteq> 0"
  unfolding kitty_modifier_sum
  by (cases "m AND SHIFT = 0"; cases "m AND ALT = 0"; cases "m AND CONTROL = 0"; cases "m AND SUPER = 0";
      cases "m AND HYPER = 0"; cases "m AND META = 0"; simp)+

lemma x10_value:
  assumes "unat v \<le> 222"
  shows "legacy_value ME_X10 v = Some [of_nat (unat v + 33)]"
proof -
  have "v \<le> X10_MAX" using assms by (simp add: X10_MAX_def word_le_nat_alt)
  moreover have sum: "unat (v + 33) = unat v + 33" using assms by (simp add: unat_word_ariths)
  moreover have "(ucast (v + 33) :: u8) = of_nat (unat v + 33)"
    unfolding sum[symmetric] by simp
  ultimately show ?thesis using assms by (simp add: legacy_value_def)
qed

lemma unat_ucast_u32: "unat (ucast (v :: u16) :: u32) = unat v"
  using unsigned_less[of v, where ?'a = nat] by (simp add: unsigned_ucast_eq take_bit_nat_eq_self)

lemma utf8_value:
  assumes "unat v \<le> 2014"
  shows "legacy_value ME_Utf8 v = Some (encode_utf8 (unat v + 33))"
proof -
  have "v \<le> UTF8_MAX" using assms by (simp add: UTF8_MAX_def word_le_nat_alt)
  moreover have "unat (ucast v + 33 :: u32) = unat v + 33" using assms by (simp add: unat_word_ariths unat_ucast_u32)
  ultimately show ?thesis using assms by (simp add: legacy_value_def char_from_u32_def)
qed

lemma legacy_value_None:
  assumes "enc \<noteq> ME_Sgr"
  shows "legacy_value enc v = None \<longleftrightarrow> \<not> mouse_fits enc v"
proof (cases "mouse_fits enc v")
  case True
  with assms show ?thesis by (cases enc) (auto simp: mouse_fits_def x10_value utf8_value)
next
  case False
  with assms show ?thesis
    by (cases enc) (auto simp: mouse_fits_def legacy_value_def X10_MAX_def UTF8_MAX_def word_le_nat_alt)
qed

lemma unat_u8: "n < 256 \<Longrightarrow> unat (of_nat n :: u8) = n"
  by (simp add: unat_of_nat)

lemma read_value_ok:
  assumes "enc \<noteq> ME_Sgr" "legacy_value enc v = Some bs"
  shows "read_value enc (bs @ rest) = Some (unat v + 1, rest)"
proof -
  have fits: "mouse_fits enc v" using assms legacy_value_None[of enc v] by auto
  show ?thesis
  proof (cases enc)
    case ME_X10
    with fits assms have "unat v \<le> 222" "bs = [of_nat (unat v + 33)]" by (auto simp: mouse_fits_def x10_value)
    with ME_X10 show ?thesis using unat_u8[of "unat v + 33"] by simp
  next
    case ME_Utf8
    with fits assms have v: "unat v \<le> 2014" "bs = encode_utf8 (unat v + 33)" by (auto simp: mouse_fits_def utf8_value)
    show ?thesis
    proof (cases "unat v + 33 < 128")
      case True
      then have "(of_nat (unat v + 33) :: u8) < 128" by (simp add: word_less_nat_alt unat_of_nat del: of_nat_add)
      with True v ME_Utf8 show ?thesis using unat_u8[of "unat v + 33"]
        by (cases rest) (auto simp: encode_utf8_def simp del: of_nat_add)
    next
      case False
      let ?n = "unat v + 33"
      have n: "192 + ?n div 64 < 256" "128 + ?n mod 64 < 256" using v(1) by auto
      have "\<not> (of_nat (192 + ?n div 64) :: u8) < 128"
        using n(1) by (simp add: word_less_nat_alt unat_of_nat del: of_nat_add)
      moreover have "?n div 64 * 64 + ?n mod 64 = ?n" by simp
      ultimately show ?thesis using False v ME_Utf8 unat_u8[OF n(1)] unat_u8[OF n(2)]
        by (auto simp: encode_utf8_def simp del: of_nat_add)
    qed
  qed (use assms in simp)
qed

lemma mouse_button_bound: "unat (mouse_button kind) \<le> 67"
  by (cases kind rule: mouse_button.cases) (simp_all, (case_tac b; simp)+)

lemma modifier_bits_bound: "unat (modifier_bits m) \<le> 28"
  unfolding modifier_bits_def
  by (cases "m AND SHIFT = 0"; cases "m AND ALT = 0"; cases "m AND CONTROL = 0"; simp)

lemma unat_add_u8: "unat a + unat b < 256 \<Longrightarrow> unat (a + b :: u8) = unat a + unat b"
  by (simp add: unat_word_ariths)

lemma unat_ucast_plus_one: "unat (ucast (v :: u16) + 1 :: u32) = unat v + 1"
  using unsigned_less[of v, where ?'a = nat] by (simp add: unat_word_ariths unat_ucast_u32)

lemma mouse_report_decodes:
  assumes "mouse_fits enc column" "mouse_fits enc row"
  shows "\<exists>report. mouse_report kind column row modifiers enc = Some report \<and>
    read_mouse enc report = Some
      ((if (\<exists>b. kind = M_Up b) \<and> enc \<noteq> ME_Sgr then 3 else unat (mouse_button kind)) + unat (modifier_bits modifiers),
       unat column + 1, unat row + 1, (\<exists>b. kind = M_Up b) \<and> enc = ME_Sgr)"
proof -
  let ?release = "case kind of M_Up _ \<Rightarrow> True | _ \<Rightarrow> False"
  have release: "?release \<longleftrightarrow> (\<exists>b. kind = M_Up b)" by (cases kind) auto
  have sum: "unat (b + modifier_bits modifiers) = unat b + unat (modifier_bits modifiers)" "unat (32 + (b + modifier_bits modifiers)) = 32 + unat b + unat (modifier_bits modifiers)"
    if "unat b \<le> 67" for b
    using that modifier_bits_bound[of modifiers] by (simp_all add: unat_word_ariths)
  show ?thesis
  proof (cases "enc = ME_Sgr")
    case True
    then show ?thesis
      using release read_sgr_number[of "if ?release then 0x6d else 0x4d" "mouse_button kind + modifier_bits modifiers"
          "ucast column + 1 :: u32" "ucast row + 1 :: u32"] sum[OF mouse_button_bound, of kind]
      by (auto simp: mouse_report_def read_mouse_def unat_ucast_plus_one)
  next
    case False
    with assms legacy_value_None[OF False] obtain x y where xy: "legacy_value enc column = Some x" "legacy_value enc row = Some y"
      by (metis not_None_eq)
    let ?button = "if ?release then 3 else mouse_button kind"
    have "mouse_report kind column row modifiers enc = Some ([0x1b, 0x5b, 0x4d, 32 + (?button + modifier_bits modifiers)] @ x @ y)"
      using False xy by (cases enc) (simp_all add: mouse_report_def mouse_legacy_def Let_def)
    moreover have "unat ?button \<le> 67" using mouse_button_bound[of kind] by simp
    ultimately show ?thesis
      using False release sum(2)[of ?button] read_value_ok[OF False xy(1), of y] read_value_ok[OF False xy(2), of "[]"]
      by (auto simp: read_mouse_def)
  qed
qed

lemma unat_kitty_modifier:
  "unat (kitty_modifier m) = 1 + of_bool (m AND SHIFT \<noteq> 0) + 2 * of_bool (m AND ALT \<noteq> 0) + 4 * of_bool (m AND CONTROL \<noteq> 0)
     + 8 * of_bool (m AND SUPER \<noteq> 0) + 16 * of_bool (m AND HYPER \<noteq> 0) + 32 * of_bool (m AND META \<noteq> 0)"
  unfolding kitty_modifier_sum
  by (cases "m AND SHIFT = 0"; cases "m AND ALT = 0"; cases "m AND CONTROL = 0"; cases "m AND SUPER = 0";
      cases "m AND HYPER = 0"; cases "m AND META = 0"; simp)

lemma repeats_range: "1 \<le> repeats count \<and> repeats count \<le> 64"
  by (auto simp: repeats_def MAX_REPEAT_def word_less_nat_alt)

text \<open>The key code of a text key.\<close>

fun kitty_code :: "CaseTable \<Rightarrow> ClientKeyCode \<Rightarrow> nat option" where
  "kitty_code cases (K_Char c) = Some (kitty_base cases c)"
| "kitty_code cases K_Enter = Some 13"
| "kitty_code cases K_Tab = Some 9"
| "kitty_code cases K_Backspace = Some 127"
| "kitty_code cases K_Esc = Some 27"
| "kitty_code cases _ = None"

section \<open>Properties\<close>

text \<open>
  C37. Pasted text cannot escape its paste: under bracketed paste the program that reads up to the end
  marker gets exactly the text without its escape bytes, and whatever comes next is not part of it;
  otherwise no line feed is sent.
\<close>

theorem paste_contained:
  "if md_bracketed_paste modes then
     take 6 (input_encode cases (Paste text) modes) = PASTE_START \<and>
     read_paste (drop 6 (input_encode cases (Paste text) modes) @ later)
       = Some (filter (\<lambda>b. b \<noteq> 0x1b) (as_bytes text), later)
   else 10 \<notin> set (input_encode cases (Paste text) modes)"
  using read_paste_ok[of "filter (\<lambda>b. b \<noteq> 0x1b) (as_bytes text)" later]
  by (auto simp: paste_def PASTE_START_def split: if_splits)

text \<open>
  A mouse report says what happened: while reporting is on, a wanted event at a position the encoding can
  carry is one report, or one per line of a wheel turn up to 64, that decodes to the button code with its
  modifiers, the 1-based cell and, in SGR, the release; anything else sends nothing.
\<close>

theorem mouse_reports_decode:
  assumes "md_mouse modes \<noteq> MR_Off"
  shows "let (column, row) = position_cell position; enc = md_mouse_encoding modes; released = (\<exists>b. kind = M_Up b);
      sent = input_encode cases (Mouse kind position geometry modifiers lines) modes in
    if mouse_wanted (md_mouse modes) kind \<and> mouse_fits enc column \<and> mouse_fits enc row then
      \<exists>report. sent = repeat_bytes report (if is_scroll kind then repeats lines else 1) \<and>
        read_mouse enc report = Some
          ((if released \<and> enc \<noteq> ME_Sgr then 3 else unat (mouse_button kind)) + unat (modifier_bits modifiers),
           unat column + 1, unat row + 1, released \<and> enc = ME_Sgr)
    else sent = []"
proof -
  obtain column row where cell: "position_cell position = (column, row)" by fastforce
  have none: "mouse_report kind column row modifiers enc = None"
    if "\<not> (mouse_fits enc column \<and> mouse_fits enc row)" for enc
  proof -
    have sgr: "enc \<noteq> ME_Sgr" using that by (auto simp: mouse_fits_def)
    then have "legacy_value enc column = None \<or> legacy_value enc row = None"
      using that legacy_value_None[OF sgr, of column] legacy_value_None[OF sgr, of row] by argo
    then have "mouse_legacy button column row enc = None" for button
      by (cases "legacy_value enc column") (auto simp: mouse_legacy_def)
    with sgr show ?thesis by (cases enc) (simp_all add: mouse_report_def Let_def)
  qed
  show ?thesis
  proof (cases "mouse_wanted (md_mouse modes) kind \<and> mouse_fits (md_mouse_encoding modes) column \<and> mouse_fits (md_mouse_encoding modes) row")
    case True
    with mouse_report_decodes[of "md_mouse_encoding modes" column row kind modifiers] obtain report where report:
      "mouse_report kind column row modifiers (md_mouse_encoding modes) = Some report"
      "read_mouse (md_mouse_encoding modes) report = Some
        ((if (\<exists>b. kind = M_Up b) \<and> md_mouse_encoding modes \<noteq> ME_Sgr then 3 else unat (mouse_button kind)) + unat (modifier_bits modifiers),
         unat column + 1, unat row + 1, (\<exists>b. kind = M_Up b) \<and> md_mouse_encoding modes = ME_Sgr)" by blast
    then have "mouse_encode kind position modifiers lines modes = repeat_bytes report (if is_scroll kind then repeats lines else 1)"
      using assms cell True by (simp add: mouse_encode_def)
    with report(2) show ?thesis unfolding Let_def cell prod.case input_encode.simps if_P[OF True] by blast
  next
    case False
    then have "mouse_encode kind position modifiers lines modes = []"
      using assms cell none[of "md_mouse_encoding modes"] by (auto simp: mouse_encode_def)
    then show ?thesis unfolding Let_def cell prod.case input_encode.simps if_not_P[OF False] .
  qed
qed

theorem mouse_reports_decode_witness:
  "md_mouse (Modes_default\<lparr>md_mouse := MR_Click, md_mouse_encoding := ME_Sgr\<rparr>) \<noteq> MR_Off \<and>
   (\<exists>report. input_encode \<lparr>to_uppercase = \<lambda>c. [c], to_lowercase = \<lambda>c. [c]\<rparr> (Mouse (M_Up B_Left) (Cell 4 9) None 4 1)
       (Modes_default\<lparr>md_mouse := MR_Click, md_mouse_encoding := ME_Sgr\<rparr>) = report \<and>
     read_mouse ME_Sgr report = Some (8, 5, 10, True))"
  using mouse_reports_decode[of "Modes_default\<lparr>md_mouse := MR_Click, md_mouse_encoding := ME_Sgr\<rparr>" "Cell 4 9" "M_Up B_Left"
      "\<lparr>to_uppercase = \<lambda>c. [c], to_lowercase = \<lambda>c. [c]\<rparr>" None 4 1]
  by (auto simp: Modes_default_def mouse_fits_def repeat_bytes_def modifier_bits_def modifier_defs)

text \<open>
  C38. Under "all keys as escapes" a text key is reported, never typed: the report, repeated 1 to 64 times,
  decodes to the key's code, to 1 plus its modifiers as kitty numbers them, and to the event type when the
  program asked for event types; a release it did not ask for sends nothing.
\<close>

theorem kitty_reports_decode:
  assumes "reports_every_key modes" "\<not> md_win32_input modes \<or> ki_windows key = None"
    and "kitty_code cases (ki_code key) = Some code" "code < 2 ^ 32"
  shows "if ki_kind key = Release \<and> \<not> reports_key_releases modes then keys_encode cases key modes = []
    else \<exists>report n. 1 \<le> n \<and> n \<le> 64 \<and> keys_encode cases key modes = repeat_bytes report n \<and>
      read_csi_u report = Some (code,
        1 + of_bool (ki_modifiers key AND SHIFT \<noteq> 0) + 2 * of_bool (ki_modifiers key AND ALT \<noteq> 0)
          + 4 * of_bool (ki_modifiers key AND CONTROL \<noteq> 0) + 8 * of_bool (ki_modifiers key AND SUPER \<noteq> 0)
          + 16 * of_bool (ki_modifiers key AND HYPER \<noteq> 0) + 32 * of_bool (ki_modifiers key AND META \<noteq> 0),
        if reports_key_releases modes then (case ki_kind key of Press \<Rightarrow> 1 | Repeat \<Rightarrow> 2 | Release \<Rightarrow> 3) else 1)"
proof -
  have all: "md_kitty_keyboard modes AND ALL_KEYS \<noteq> 0" "md_kitty_keyboard modes \<noteq> 0"
    using assms(1) by (auto simp: reports_every_key_def ALL_KEYS_def)
  have events: "reports_key_releases modes \<longleftrightarrow> md_kitty_keyboard modes AND EVENT_TYPES \<noteq> 0"
    by (simp add: reports_key_releases_def EVENT_TYPES_def)
  have plain: "keys_encode cases key modes = kitty_encode cases key modes"
    using assms(2) all(2) by (auto simp: keys_encode_def)
  have bytes: "kitty_bytes cases key modes event = csi_u (of_nat code) (kitty_modifier (ki_modifiers key)) event" for event
    using assms(3) by (cases "ki_code key") (auto simp: kitty_bytes_def Let_def)
  have "unat (of_nat code :: u32) = code" using assms(4) by (simp add: unat_of_nat)
  then have read: "read_csi_u (kitty_bytes cases key modes event) = Some (code, unat (kitty_modifier (ki_modifiers key)), unat event)" for event
    unfolding bytes read_csi_u_ok by simp
  have event: "unat (kitty_event (reports_key_releases modes) (ki_kind key)) =
      (if reports_key_releases modes then (case ki_kind key of Press \<Rightarrow> 1 | Repeat \<Rightarrow> 2 | Release \<Rightarrow> 3) else 1)"
    by (cases "ki_kind key") (auto simp: kitty_event_def)
  let ?n = "if reports_key_releases modes then 1 else repeats (ki_repeat_count key)"
  have "1 \<le> ?n \<and> ?n \<le> 64" using repeats_range[of "ki_repeat_count key"] by simp
  moreover have "kitty_encode cases key modes =
      (if ki_kind key = Release \<and> \<not> reports_key_releases modes then []
       else repeat_bytes (kitty_bytes cases key modes (kitty_event (reports_key_releases modes) (ki_kind key))) ?n)"
    using all(1) by (simp add: kitty_encode_def kitty_legacy_text_def Let_def events)
  ultimately show ?thesis
  proof (cases "ki_kind key = Release \<and> \<not> reports_key_releases modes")
    case True
    then show ?thesis using plain by (simp add: kitty_encode_def events)
  next
    case False
    assume "1 \<le> ?n \<and> ?n \<le> 64" "kitty_encode cases key modes =
      (if ki_kind key = Release \<and> \<not> reports_key_releases modes then []
       else repeat_bytes (kitty_bytes cases key modes (kitty_event (reports_key_releases modes) (ki_kind key))) ?n)"
    then show ?thesis unfolding plain if_not_P[OF False]
      using read[of "kitty_event (reports_key_releases modes) (ki_kind key)", unfolded event unat_kitty_modifier] by blast
  qed
qed

definition demo_key :: KeyInput where
  "demo_key = \<lparr>ki_code = K_Enter, ki_modifiers = 1, ki_kind = Press, ki_repeat_count = 1, ki_shifted = None, ki_text = None,
     ki_windows = None\<rparr>"

theorem kitty_reports_decode_witness:
  "\<exists>report n. 1 \<le> n \<and> n \<le> (64::nat) \<and>
     keys_encode \<lparr>to_uppercase = \<lambda>c. [c], to_lowercase = \<lambda>c. [c]\<rparr> demo_key (Modes_default\<lparr>md_kitty_keyboard := 8\<rparr>) = repeat_bytes report n \<and>
     read_csi_u report = Some (13, 2, 1)"
  using kitty_reports_decode[of "Modes_default\<lparr>md_kitty_keyboard := 8\<rparr>" demo_key "\<lparr>to_uppercase = \<lambda>c. [c], to_lowercase = \<lambda>c. [c]\<rparr>" 13]
  by (simp add: demo_key_def Modes_default_def reports_every_key_def reports_key_releases_def modifier_defs del: One_nat_def)

text \<open>
  The modes follow the emulator's flags: the kitty keyboard byte has a program's enhancement exactly when
  its flag is set, so releases and every key are reported exactly when asked for; the widest mouse mode wins.
\<close>

theorem modes_follow_flags:
  "let modes = Modes_new contains win32_input in
     (reports_key_releases modes \<longleftrightarrow> contains REPORT_EVENT_TYPES) \<and>
     (reports_every_key modes \<longleftrightarrow> contains REPORT_ALL_KEYS_AS_ESC) \<and>
     (md_kitty_keyboard modes = 0 \<longleftrightarrow> \<not> contains DISAMBIGUATE_ESC_CODES \<and> \<not> contains REPORT_EVENT_TYPES \<and>
        \<not> contains REPORT_ALTERNATE_KEYS \<and> \<not> contains REPORT_ALL_KEYS_AS_ESC \<and> \<not> contains REPORT_ASSOCIATED_TEXT) \<and>
     (md_mouse modes = MR_Off \<longleftrightarrow> \<not> contains MOUSE_MOTION \<and> \<not> contains MOUSE_DRAG \<and> \<not> contains MOUSE_REPORT_CLICK) \<and>
     (md_mouse modes = MR_Motion \<longleftrightarrow> contains MOUSE_MOTION) \<and> md_win32_input modes = win32_input"
  by (cases "contains DISAMBIGUATE_ESC_CODES"; cases "contains REPORT_EVENT_TYPES"; cases "contains REPORT_ALTERNATE_KEYS";
      cases "contains REPORT_ALL_KEYS_AS_ESC"; cases "contains REPORT_ASSOCIATED_TEXT";
      simp add: Modes_new_def Let_def reports_key_releases_def reports_every_key_def enumerate_eq_zip)

end
