(* ===== verification/Schedule_Text.thy ===== *)
theory Schedule_Text
  imports Strings
begin

text \<open>
  How schedules are written and read, \<open>crates/sheprd-automation/src/schedule.rs\<close>: times of day, sets of
  days and durations.
\<close>

section \<open>Times of day\<close>

record ClockTime =
  clock_hour :: u8
  clock_minute :: u8

definition ClockTime_parse :: "str \<Rightarrow> ClockTime option" where
  "ClockTime_parse s =
     Option.bind (split_once 58 s) (\<lambda>(hour, minute).
       if str_len hour \<noteq> 2 \<or> str_len minute \<noteq> 2 then None
       else Option.bind (parse_uint 255 hour) (\<lambda>hour. if \<not> hour < 24 then None
       else Option.bind (parse_uint 255 minute) (\<lambda>minute. if \<not> minute < 60 then None
       else Some \<lparr>clock_hour = of_nat hour, clock_minute = of_nat minute\<rparr>)))"

definition two_digits :: "nat \<Rightarrow> str" where
  "two_digits n = (if n < 10 then [48] else []) @ chars (decimal n)"

definition ClockTime_display :: "ClockTime \<Rightarrow> str" where
  "ClockTime_display t = two_digits (unat (clock_hour t)) @ [58] @ two_digits (unat (clock_minute t))"

section \<open>Days\<close>

type_synonym Days = u8

definition DAY_NAMES :: "str list" where
  "DAY_NAMES = map chars [''mon'', ''tue'', ''wed'', ''thu'', ''fri'', ''sat'', ''sun'']"

definition Days_ALL :: Days where "Days_ALL = 0x7f"
definition Days_WEEKDAYS :: Days where "Days_WEEKDAYS = 0x1f"
definition Days_WEEKENDS :: Days where "Days_WEEKENDS = 0x60"

text \<open>\<open>iter().position\<close>.\<close>

fun position :: "('a \<Rightarrow> bool) \<Rightarrow> 'a list \<Rightarrow> nat option" where
  "position P [] = None"
| "position P (x # xs) = (if P x then Some 0 else map_option Suc (position P xs))"

definition day_index :: "str \<Rightarrow> nat option" where
  "day_index name = position (\<lambda>day. day = trim name) DAY_NAMES"

fun days_parts :: "Days \<Rightarrow> str list \<Rightarrow> Days option" where
  "days_parts days [] = Some days"
| "days_parts days (part # parts) =
     (let part = str_lower (trim part) in
      Option.bind
        (case split_once 45 part of
           Some (first, until) \<Rightarrow> Option.bind (day_index first) (\<lambda>f. map_option (\<lambda>l. (f, l)) (day_index until))
         | None \<Rightarrow> map_option (\<lambda>d. (d, d)) (day_index part))
        (\<lambda>(first, until). if first > until then None
           else days_parts (fold (\<lambda>day days. days OR push_bit day 1) [first..<Suc until] days) parts))"

definition Days_parse :: "str \<Rightarrow> Days option" where
  "Days_parse s =
     (let t = str_lower (trim s) in
      if t = chars ''daily'' then Some Days_ALL
      else if t = chars ''weekdays'' then Some Days_WEEKDAYS
      else if t = chars ''weekends'' then Some Days_WEEKENDS
      else Option.bind (days_parts 0 (split_on 44 s)) (\<lambda>days. if days \<noteq> 0 then Some days else None))"

definition Days_contains :: "Days \<Rightarrow> nat \<Rightarrow> bool" where
  "Days_contains self day \<longleftrightarrow> day < 7 \<and> self AND push_bit day 1 \<noteq> 0"

definition Days_display :: "Days \<Rightarrow> str" where
  "Days_display self =
     (if self = Days_ALL then chars ''daily'' else if self = Days_WEEKDAYS then chars ''weekdays''
      else if self = Days_WEEKENDS then chars ''weekends''
      else join 44 (map (\<lambda>day. DAY_NAMES ! day) (filter (Days_contains self) [0..<7])))"

section \<open>Durations\<close>

fun duration_unit :: "scalar \<Rightarrow> nat option" where
  "duration_unit c = (if c = 115 then Some 1 else if c = 109 then Some 60 else if c = 104 then Some 3600
     else if c = 100 then Some 86400 else None)"

text \<open>The loop over the characters, in whole seconds; arithmetic past \<open>u64\<close> is refused.\<close>

fun duration_loop :: "nat \<Rightarrow> str \<Rightarrow> str \<Rightarrow> nat option" where
  "duration_loop acc number [] = (if number = [] \<and> acc > 0 then Some acc else None)"
| "duration_loop acc number (c # cs) =
     (if ascii_digit c then duration_loop acc (number @ [c]) cs
      else
        Option.bind (duration_unit c) (\<lambda>unit.
        Option.bind (parse_uint (2 ^ 64 - 1) number) (\<lambda>v.
          if v * unit < 2 ^ 64 \<and> acc + v * unit < 2 ^ 64 then duration_loop (acc + v * unit) [] cs else None)))"

definition parse_duration :: "str \<Rightarrow> nat option" where
  "parse_duration s = (let s = trim s in if s = [] then None else duration_loop 0 [] s)"

fun duration_parts :: "nat \<Rightarrow> (nat \<times> scalar) list \<Rightarrow> str" where
  "duration_parts seconds [] = []"
| "duration_parts seconds ((unit, suffix) # units) =
     (if seconds \<ge> unit then chars (decimal (seconds div unit)) @ [suffix] @ duration_parts (seconds mod unit) units
      else duration_parts seconds units)"

definition format_duration :: "nat \<Rightarrow> str" where
  "format_duration seconds =
     (let s = duration_parts seconds [(86400, 100), (3600, 104), (60, 109), (1, 115)] in
      if s = [] then chars ''0s'' else s)"

section \<open>Lemmas\<close>

lemma duration_loop_digits:
  "list_all ascii_digit ds \<Longrightarrow> duration_loop acc number (ds @ cs) = duration_loop acc (number @ ds) cs"
  by (induction ds arbitrary: number) auto

lemma duration_loop_part:
  assumes "duration_unit suffix = Some unit" "acc + v * unit < 2 ^ 64"
  shows "duration_loop acc [] (chars (decimal v) @ suffix # rest) = duration_loop (acc + v * unit) [] rest"
proof -
  have "unit \<ge> 1" using assms(1) by (auto split: if_splits)
  then have "v \<le> v * unit" by simp
  then have v: "v \<le> 2 ^ 64 - 1" using assms(2) by linarith
  have "\<not> ascii_digit suffix" using assms(1) by (auto simp: ascii_digit_def split: if_splits)
  with assms v show ?thesis
    using decimal_digits[of v] by (simp add: duration_loop_digits parse_uint_decimal del: duration_unit.simps)
qed

text \<open>The units, each dividing the one before.\<close>

lemma duration_parts_loop:
  assumes "list_all (\<lambda>(unit, suffix). duration_unit suffix = Some unit) units" "acc + seconds < 2 ^ 64"
  shows "duration_loop acc [] (duration_parts seconds units @ rest) =
    duration_loop (acc + (seconds - foldl (\<lambda>left (unit, _). left mod unit) seconds units)) [] rest"
  using assms
proof (induction units arbitrary: acc seconds)
  case (Cons u units)
  obtain unit suffix where u: "u = (unit, suffix)" by fastforce
  let ?left = "foldl (\<lambda>left (unit, _). left mod unit) (seconds mod unit) units"
  have left: "?left \<le> seconds mod unit"
  proof (induction units arbitrary: seconds unit)
    case (Cons v vs)
    then show ?case by (cases v) (auto intro: order_trans[OF Cons])
  qed simp
  show ?case
  proof (cases "seconds \<ge> unit")
    case True
    have fit: "acc + seconds div unit * unit < 2 ^ 64" "acc + seconds div unit * unit + seconds mod unit < 2 ^ 64"
      using Cons.prems(2) div_times_less_eq_dividend[of seconds unit] by (linarith, simp)
    have "duration_loop acc [] (duration_parts seconds (u # units) @ rest) =
        duration_loop (acc + seconds div unit * unit) [] (duration_parts (seconds mod unit) units @ rest)"
      using True u Cons.prems(1) duration_loop_part[OF _ fit(1)] by simp
    also have "\<dots> = duration_loop (acc + seconds div unit * unit + (seconds mod unit - ?left)) [] rest"
      using Cons.prems(1) fit(2) by (subst Cons.IH) (auto simp: u)
    also have "acc + seconds div unit * unit + (seconds mod unit - ?left) = acc + (seconds - ?left)"
      using left by (metis Nat.add_diff_assoc add.assoc div_mult_mod_eq)
    finally show ?thesis by (simp add: u)
  next
    case False
    with Cons show ?thesis by (simp add: u)
  qed
qed simp

lemma duration_parts_ends:
  "duration_parts seconds units \<noteq> [] \<Longrightarrow>
    ascii_digit (hd (duration_parts seconds units)) \<and> last (duration_parts seconds units) \<in> snd ` set units"
proof (induction seconds units rule: duration_parts.induct)
  case (2 seconds unit suffix units)
  then show ?case
    using decimal_hd(1)[of "seconds div unit" "suffix # duration_parts (seconds mod unit) units"] decimal_hd(2) by auto
qed simp

lemma duration_round:
  assumes "0 < seconds" "seconds < 2 ^ 64"
  shows "parse_duration (format_duration seconds) = Some seconds"
proof -
  let ?units = "[(86400, 100), (3600, 104), (60, 109), (1, 115)] :: (nat \<times> nat) list"
  let ?s = "duration_parts seconds ?units"
  have "duration_loop 0 [] (?s @ []) = duration_loop (0 + (seconds - foldl (\<lambda>left (unit, _). left mod unit) seconds ?units)) [] []"
    using assms(2) by (intro duration_parts_loop) auto
  then have loop: "duration_loop 0 [] ?s = Some seconds" using assms(1) by (simp del: duration_parts.simps)
  then have "?s \<noteq> []" by (auto simp del: duration_parts.simps)
  moreover have "ascii_digit (hd ?s)" "last ?s \<in> {100, 104, 109, 115}"
    using duration_parts_ends[OF calculation] by (simp_all del: duration_parts.simps)
  moreover have "\<not> is_whitespace (last ?s)"
    using calculation(3) by (elim insertE emptyE) (simp_all add: is_whitespace_def del: duration_parts.simps)
  ultimately have "trim ?s = ?s" using trim_id digit_not_space by blast
  with loop \<open>?s \<noteq> []\<close> show ?thesis by (simp add: parse_duration_def format_duration_def Let_def del: duration_parts.simps)
qed

lemma join_length: "ss \<noteq> [] \<Longrightarrow> list_all (\<lambda>s. length s = 3) ss \<Longrightarrow> length (join sep ss) mod 4 = 3"
proof (induction sep ss rule: join.induct)
  case (3 sep s s' ss)
  have len: "length (join sep (s # s' # ss)) = 4 + length (join sep (s' # ss))" using 3(3) by simp
  have "length (join sep (s' # ss)) mod 4 = 3" using 3(1,3) by simp
  then show ?case unfolding len by simp
qed auto

text \<open>A day's name is read as that day alone.\<close>

lemma less_7_cases: "d < (7::nat) \<longleftrightarrow> d = 0 \<or> d = 1 \<or> d = 2 \<or> d = 3 \<or> d = 4 \<or> d = 5 \<or> d = 6"
  by auto

lemma day_name:
  assumes "d < 7"
  shows "length (DAY_NAMES ! d) = 3" "44 \<notin> set (DAY_NAMES ! d)" "45 \<notin> set (DAY_NAMES ! d)"
    "str_lower (trim (DAY_NAMES ! d)) = DAY_NAMES ! d" "trim (DAY_NAMES ! d) = DAY_NAMES ! d" "day_index (DAY_NAMES ! d) = Some d"
    "str_lower (DAY_NAMES ! d) = DAY_NAMES ! d" "\<not> is_whitespace (hd (DAY_NAMES ! d))" "\<not> is_whitespace (last (DAY_NAMES ! d))"
    "DAY_NAMES ! d \<noteq> []"
  using assms unfolding less_7_cases
  by (elim disjE; simp add: DAY_NAMES_def chars_def trim_def is_whitespace_def str_lower_def scalar_lower_def day_index_def)+

lemma days_parts_names:
  "list_all (\<lambda>d. d < 7) ds \<Longrightarrow>
    days_parts days (map (\<lambda>d. DAY_NAMES ! d) ds) = Some (fold (\<lambda>d days. days OR push_bit d 1) ds days)"
  by (induction ds arbitrary: days) (auto simp: day_name split_once_None Let_def)

lemma bit_fold_or: "bit (fold (\<lambda>d days. days OR push_bit d 1) ds days) k \<longleftrightarrow> bit (days :: u8) k \<or> (k \<in> set ds \<and> k < 8)"
  by (induction ds arbitrary: days) (auto simp: bit_simps)

lemma Days_contains_bit: "Days_contains self d \<longleftrightarrow> d < 7 \<and> bit self d"
proof -
  have "self AND push_bit d 1 \<noteq> 0 \<longleftrightarrow> bit self d" if "d < 7"
    using that by (simp add: push_bit_of_1 and_exp_eq_0_iff_not_bit)
  then show ?thesis by (auto simp: Days_contains_def)
qed

lemma join_ends:
  "ss \<noteq> [] \<Longrightarrow> list_all (\<lambda>s. s \<noteq> [] \<and> \<not> is_whitespace (hd s) \<and> \<not> is_whitespace (last s)) ss \<Longrightarrow>
    join sep ss \<noteq> [] \<and> \<not> is_whitespace (hd (join sep ss)) \<and> \<not> is_whitespace (last (join sep ss))"
proof (induction sep ss rule: join.induct)
  case (3 sep s s' ss)
  have "join sep (s' # ss) \<noteq> [] \<and> \<not> is_whitespace (last (join sep (s' # ss)))" using 3(1,3) by simp
  with 3(3) show ?case by (simp add: hd_append)
qed auto

lemma days_list:
  assumes "self < 128" "self \<noteq> 0"
  shows "filter (Days_contains self) [0..<7] \<noteq> []" "fold (\<lambda>d days. days OR push_bit d 1) (filter (Days_contains self) [0..<7]) 0 = self"
proof -
  have high: "\<not> bit self k" if "7 \<le> k" for k
  proof -
    have "unat self < 2 ^ 7" using assms(1) by (simp add: word_less_nat_alt)
    also have "\<dots> \<le> (2 ^ k :: nat)" using that by (intro power_increasing) auto
    finally have "\<not> bit (unat self) k" by (simp add: bit_iff_odd)
    then show ?thesis by (simp add: bit_unsigned_iff)
  qed
  show fold: "fold (\<lambda>d days. days OR push_bit d 1) (filter (Days_contains self) [0..<7]) 0 = self"
  proof (rule bit_word_eqI)
    fix k
    assume "k < LENGTH(8)"
    then show "bit (fold (\<lambda>d days. days OR push_bit d 1) (filter (Days_contains self) [0..<7]) (0 :: u8)) k = bit self k"
      unfolding bit_fold_or using high[of k] by (cases "7 \<le> k") (auto simp: Days_contains_bit)
  qed
  show "filter (Days_contains self) [0..<7] \<noteq> []"
    using fold assms(2) by (cases "filter (Days_contains self) [0..<7]") auto
qed

lemma days_round:
  assumes "self < 128" "self \<noteq> 0"
  shows "Days_parse (Days_display self) = Some self"
proof (cases "self \<in> {Days_ALL, Days_WEEKDAYS, Days_WEEKENDS}")
  case True
  then show ?thesis
    by (elim insertE) (auto simp: Days_parse_def Days_display_def Days_ALL_def Days_WEEKDAYS_def Days_WEEKENDS_def chars_def
      trim_def is_whitespace_def str_lower_def scalar_lower_def)
next
  case False
  let ?names = "map (\<lambda>d. DAY_NAMES ! d) (filter (Days_contains self) [0..<7])"
  let ?s = "join 44 ?names"
  have seven: "list_all (\<lambda>d. d < 7) (filter (Days_contains self) [0..<7])" by (auto simp: list_all_iff)
  have names: "?names \<noteq> []" using days_list[OF assms] by simp
  have each: "list_all (\<lambda>s. length s = 3) ?names" "list_all (\<lambda>s. 44 \<notin> set s) ?names"
    by (auto simp: list_all_iff day_name)
  have "list_all (\<lambda>s. s \<noteq> [] \<and> \<not> is_whitespace (hd s) \<and> \<not> is_whitespace (last s)) ?names"
    by (auto simp: list_all_iff day_name)
  then have "trim ?s = ?s" using join_ends[OF names] trim_id by blast
  then have "length (str_lower (trim ?s)) mod 4 = 3" using join_length[OF names each(1)] by (simp add: str_lower_def)
  then have "str_lower (trim ?s) \<noteq> chars ''daily''" "str_lower (trim ?s) \<noteq> chars ''weekdays''"
    "str_lower (trim ?s) \<noteq> chars ''weekends''"
    by (auto simp: chars_def)
  moreover have "days_parts 0 (split_on 44 ?s) = Some self"
    using split_on_join[OF names each(2)] days_parts_names[OF seven, of 0] days_list(2)[OF assms] by simp
  moreover have "Days_display self = ?s" using False by (simp add: Days_display_def)
  ultimately show ?thesis using assms(2) by (simp add: Days_parse_def)
qed

lemma clock_round:
  assumes "clock_hour t < 24" "clock_minute t < 60"
  shows "ClockTime_parse (ClockTime_display t) = Some t"
proof -
  have two: "str_len (two_digits n) = 2 \<and> parse_uint 255 (two_digits n) = Some n \<and> 58 \<notin> set (two_digits n)" if "n < 100" for n
  proof (cases "n < 10")
    case True
    then have "two_digits n = [48, 48 + n]" by (simp add: two_digits_def decimal.simps chars_def)
    with True show ?thesis
      by (simp add: str_len_def encode_utf8_def parse_uint_def ascii_digit_def digits_value_def)
  next
    case False
    have "n div 10 < 10" "n mod 10 < 10" using that by auto
    moreover from this False have "two_digits n = [48 + n div 10, 48 + n mod 10]"
      by (simp add: two_digits_def decimal.simps[of n] decimal.simps[of "n div 10"] chars_def)
    ultimately show ?thesis using that
      by (auto simp: str_len_def encode_utf8_def parse_uint_def ascii_digit_def digits_value_def)
  qed
  have h: "unat (clock_hour t) < 24" "unat (clock_minute t) < 60" using assms by (simp_all add: word_less_nat_alt)
  then have "unat (clock_hour t) < 100" "unat (clock_minute t) < 100" by auto
  with two[of "unat (clock_hour t)"] two[of "unat (clock_minute t)"] h show ?thesis
    by (simp add: ClockTime_parse_def ClockTime_display_def split_once_app)
qed

section \<open>Properties\<close>

text \<open>
  C40. What a schedule prints reads back as itself: every positive duration that fits \<open>u64\<close> seconds, every
  nonempty set of days, and every time of day.
\<close>

theorem schedule_text_round_trip:
  assumes "0 < seconds" "seconds < 2 ^ 64" "days \<noteq> 0" "days < 128" "clock_hour time < 24" "clock_minute time < 60"
  shows "parse_duration (format_duration seconds) = Some seconds \<and> Days_parse (Days_display days) = Some days
    \<and> ClockTime_parse (ClockTime_display time) = Some time"
  using duration_round[OF assms(1,2)] days_round[OF assms(4,3)] clock_round[OF assms(5,6)] by simp

theorem schedule_text_round_trip_witness:
  "parse_duration (format_duration 5400) = Some 5400 \<and> Days_parse (Days_display 5) = Some 5
    \<and> ClockTime_parse (ClockTime_display \<lparr>clock_hour = 7, clock_minute = 5\<rparr>) = Some \<lparr>clock_hour = 7, clock_minute = 5\<rparr>"
  using schedule_text_round_trip[of 5400 5 "\<lparr>clock_hour = 7, clock_minute = 5\<rparr>"] by simp

text \<open>A time of day may carry signs, since \<open>u8\<close>'s parser takes a leading plus.\<close>

lemma clock_accepts_signs: "ClockTime_parse (chars ''+5:+7'') = Some \<lparr>clock_hour = 5, clock_minute = 7\<rparr>"
  by (simp add: ClockTime_parse_def chars_def str_len_def encode_utf8_def parse_uint_def ascii_digit_def digits_value_def)

text \<open>Zero is printed as \<open>0s\<close>, which is not read back, and ninety seconds is not printed in the shortest form that is.\<close>

lemma duration_zero_unread: "format_duration 0 = chars ''0s'' \<and> parse_duration (format_duration 0) = None"
  by (simp add: format_duration_def chars_def parse_duration_def trim_def is_whitespace_def ascii_digit_def parse_uint_def digits_value_def)

lemma duration_not_shortest:
  "format_duration 90 = chars ''1m30s'' \<and> parse_duration (chars ''90s'') = Some 90"
  by (simp add: format_duration_def chars_def parse_duration_def trim_def is_whitespace_def ascii_digit_def parse_uint_def digits_value_def decimal.simps digit_char)

end
