(* ===== verification/Cron.thy ===== *)
theory Cron
  imports Schedule_Text
begin

text \<open>
  Five-field cron expressions, \<open>crates/sheprd-automation/src/schedule/cron.rs\<close>: each field is read into a set
  of bits of a \<open>u64\<close>. The \<open>u8\<close> values of the source are natural numbers here; the reader bounds them by
  255, and every sum it forms by 19.
\<close>

definition MONTHS :: "str list" where
  "MONTHS = map chars [''jan'', ''feb'', ''mar'', ''apr'', ''may'', ''jun'', ''jul'', ''aug'', ''sep'', ''oct'', ''nov'', ''dec'']"

definition WEEKDAYS :: "str list" where
  "WEEKDAYS = map chars [''sun'', ''mon'', ''tue'', ''wed'', ''thu'', ''fri'', ''sat'']"

datatype CronError = CronFields | StepNotNumber | StepZero | OutOfRange | UnknownValue

record Cron =
  cron_text :: str
  cron_minutes :: u64
  cron_hours :: u64
  cron_days_of_month :: u64
  cron_months :: u64
  cron_days_of_week :: u64
  cron_any_day_of_month :: bool
  cron_any_day_of_week :: bool

text \<open>\<open>str::split_whitespace\<close>.\<close>

fun words_acc :: "str \<Rightarrow> str \<Rightarrow> str list" where
  "words_acc acc [] = (if acc = [] then [] else [acc])"
| "words_acc acc (c # cs) =
     (if is_whitespace c then (if acc = [] then words_acc [] cs else acc # words_acc [] cs) else words_acc (acc @ [c]) cs)"

definition split_whitespace :: "str \<Rightarrow> str list" where
  "split_whitespace s = words_acc [] s"

definition cron_value :: "str \<Rightarrow> nat \<Rightarrow> str list \<Rightarrow> (nat, CronError) result" where
  "cron_value s offset names =
     (case parse_uint 255 s of
        Some n \<Rightarrow> Inr n
      | None \<Rightarrow> ok_or (map_option (\<lambda>index. index + offset) (position (\<lambda>name. name = str_lower s) names)) UnknownValue)"

text \<open>A part of a field: its first and last value and its step.\<close>

definition cron_step :: "str \<Rightarrow> (str \<times> nat, CronError) result" where
  "cron_step part =
     (case split_once 47 part of
        Some (rng, step) \<Rightarrow>
          and_then (ok_or (parse_uint 255 step) StepNotNumber) (\<lambda>step. if step = 0 then Inl StepZero else Inr (rng, step))
      | None \<Rightarrow> Inr (part, 1))"

definition cron_range :: "str \<Rightarrow> nat \<Rightarrow> nat \<Rightarrow> nat \<Rightarrow> str list \<Rightarrow> (nat \<times> nat, CronError) result" where
  "cron_range rng step low high names =
     (if rng = chars ''*'' then Inr (low, high)
      else case split_once 45 rng of
        Some (first, until) \<Rightarrow>
          and_then (cron_value first low names) (\<lambda>first.
            and_then (cron_value until low names) (\<lambda>until. Inr (first, until)))
      | None \<Rightarrow> and_then (cron_value rng low names) (\<lambda>first. Inr (first, if step > 1 then high else first)))"

definition cron_part :: "str \<Rightarrow> nat \<Rightarrow> nat \<Rightarrow> str list \<Rightarrow> (nat \<times> nat \<times> nat, CronError) result" where
  "cron_part part low high names =
     and_then (cron_step part) (\<lambda>(rng, step).
       and_then (cron_range rng step low high names) (\<lambda>(first, until).
         if first < low \<or> until > high \<or> first > until then Inl OutOfRange else Inr (first, until, step)))"

text \<open>\<open>(first..=until).step_by(step)\<close>.\<close>

definition step_by :: "nat \<Rightarrow> nat \<Rightarrow> nat \<Rightarrow> nat list" where
  "step_by first until step = map (\<lambda>k. first + k * step) [0..<Suc ((until - first) div step)]"

fun cron_parts :: "u64 \<Rightarrow> str list \<Rightarrow> nat \<Rightarrow> nat \<Rightarrow> str list \<Rightarrow> (u64, CronError) result" where
  "cron_parts bits [] low high names = Inr bits"
| "cron_parts bits (part # parts) low high names =
     and_then (cron_part part low high names) (\<lambda>(first, until, step).
       cron_parts (fold (\<lambda>bit bits. bits OR push_bit bit 1) (step_by first until step) bits) parts low high names)"

definition cron_field :: "str \<Rightarrow> nat \<Rightarrow> nat \<Rightarrow> str list \<Rightarrow> (u64, CronError) result" where
  "cron_field s low high names = cron_parts 0 (split_on 44 s) low high names"

definition Cron_parse :: "str \<Rightarrow> (Cron, CronError) result" where
  "Cron_parse s =
     (let fields = split_whitespace s in
      case fields of
        [minute, hour, day, month, weekday] \<Rightarrow>
          and_then (cron_field weekday 0 7 WEEKDAYS) (\<lambda>days_of_week.
          let days_of_week = (if days_of_week AND push_bit 7 1 \<noteq> 0 then (days_of_week AND NOT (push_bit 7 1)) OR 1 else days_of_week) in
          and_then (cron_field minute 0 59 []) (\<lambda>minutes.
          and_then (cron_field hour 0 23 []) (\<lambda>hours.
          and_then (cron_field day 1 31 []) (\<lambda>days_of_month.
          and_then (cron_field month 1 12 MONTHS) (\<lambda>months.
            Inr \<lparr>cron_text = join 32 fields, cron_minutes = minutes, cron_hours = hours, cron_days_of_month = days_of_month,
              cron_months = months, cron_days_of_week = days_of_week, cron_any_day_of_month = (day = chars ''*''),
              cron_any_day_of_week = (weekday = chars ''*'')\<rparr>)))))
      | _ \<Rightarrow> Inl CronFields)"

definition cron_has :: "u64 \<Rightarrow> nat \<Rightarrow> bool" where
  "cron_has bits v \<longleftrightarrow> v < 64 \<and> bits AND push_bit v 1 \<noteq> 0"

definition matches_minute :: "Cron \<Rightarrow> nat \<Rightarrow> bool" where
  "matches_minute self minute = cron_has (cron_minutes self) minute"

definition matches_hour :: "Cron \<Rightarrow> nat \<Rightarrow> bool" where
  "matches_hour self hour = cron_has (cron_hours self) hour"

definition matches_day :: "Cron \<Rightarrow> nat \<Rightarrow> nat \<Rightarrow> nat \<Rightarrow> bool" where
  "matches_day self day month weekday =
     (let day_of_month = cron_has (cron_days_of_month self) day; day_of_week = cron_has (cron_days_of_week self) weekday;
          day_matches = (case (cron_any_day_of_month self, cron_any_day_of_week self) of
              (True, True) \<Rightarrow> True
            | (True, False) \<Rightarrow> day_of_week
            | (False, True) \<Rightarrow> day_of_month
            | (False, False) \<Rightarrow> day_of_month \<or> day_of_week) in
      cron_has (cron_months self) month \<and> day_matches)"

definition Cron_matches :: "Cron \<Rightarrow> nat \<Rightarrow> nat \<Rightarrow> nat \<Rightarrow> nat \<Rightarrow> nat \<Rightarrow> bool" where
  "Cron_matches self minute hour day month weekday \<longleftrightarrow>
     matches_minute self minute \<and> matches_hour self hour \<and> matches_day self day month weekday"

section \<open>The meaning of an expression\<close>

text \<open>A value is in a field when one of its parts has it: in range and a whole number of steps from the first.\<close>

definition in_part :: "str \<Rightarrow> nat \<Rightarrow> nat \<Rightarrow> str list \<Rightarrow> nat \<Rightarrow> bool" where
  "in_part part low high names v \<longleftrightarrow>
     (\<exists>first until step. cron_part part low high names = Inr (first, until, step) \<and>
        first \<le> v \<and> v \<le> until \<and> step dvd (v - first))"

definition in_field :: "str \<Rightarrow> nat \<Rightarrow> nat \<Rightarrow> str list \<Rightarrow> nat \<Rightarrow> bool" where
  "in_field s low high names v \<longleftrightarrow> (\<exists>part \<in> set (split_on 44 s). in_part part low high names v)"

section \<open>Lemmas\<close>

lemma cron_has_bit: "cron_has bits v \<longleftrightarrow> bit bits v"
proof (cases "v < 64")
  case True
  then show ?thesis by (simp add: cron_has_def push_bit_of_1 and_exp_eq_0_iff_not_bit)
next
  case False
  then have "\<not> bit bits v" using bit_imp_le_length[of bits v] by auto
  with False show ?thesis by (simp add: cron_has_def)
qed

lemma bit_fold_or_u64: "bit (fold (\<lambda>b bits. bits OR push_bit b 1) bs bits) k \<longleftrightarrow> bit (bits :: u64) k \<or> (k \<in> set bs \<and> k < 64)"
  by (induction bs arbitrary: bits) (auto simp: bit_simps)

lemma cron_step_pos: "cron_step part = Inr (rng, step) \<Longrightarrow> 0 < step"
  by (auto simp: cron_step_def ok_or_def split: option.splits if_splits)

lemma cron_part_range:
  assumes "cron_part part low high names = Inr (first, until, step)"
  shows "low \<le> first \<and> until \<le> high \<and> first \<le> until \<and> 0 < step"
  using assms by (auto simp: cron_part_def split: if_splits dest: cron_step_pos)

lemma step_by_iff:
  assumes "0 < step"
  shows "v \<in> set (step_by first until step) \<longleftrightarrow> first \<le> v \<and> (v \<le> until \<or> v = first) \<and> step dvd (v - first)"
proof
  assume "v \<in> set (step_by first until step)"
  then obtain k where k: "v = first + k * step" "k \<le> (until - first) div step"
    unfolding step_by_def set_map set_upt image_iff by (metis atLeastLessThan_iff less_Suc_eq_le)
  then have "k * step \<le> until - first" using assms by (simp add: less_eq_div_iff_mult_less_eq)
  with k show "first \<le> v \<and> (v \<le> until \<or> v = first) \<and> step dvd (v - first)" by auto
next
  assume v: "first \<le> v \<and> (v \<le> until \<or> v = first) \<and> step dvd (v - first)"
  then obtain k where k: "v = first + k * step" by (metis dvdE le_add_diff_inverse mult.commute)
  have "k \<le> (until - first) div step"
    using v k assms by (auto simp: less_eq_div_iff_mult_less_eq)
  with k show "v \<in> set (step_by first until step)" by (auto simp: step_by_def less_Suc_eq_le simp del: upt_Suc)
qed

lemma cron_parts_bits:
  assumes "cron_parts bits parts low high names = Inr result" "high < 64"
  shows "bit result v \<longleftrightarrow> bit bits v \<or> (\<exists>part \<in> set parts. in_part part low high names v)"
  using assms
proof (induction bits parts low high names rule: cron_parts.induct)
  case (2 bits part parts low high names)
  then obtain first until step where part: "cron_part part low high names = Inr (first, until, step)"
    and rest: "cron_parts (fold (\<lambda>bit set. set OR push_bit bit 1) (step_by first until step) bits) parts low high names = Inr result"
    by auto
  note bounds = cron_part_range[OF part]
  have "v \<in> set (step_by first until step) \<and> v < 64 \<longleftrightarrow> in_part part low high names v"
    using part bounds 2(3) by (auto simp: in_part_def step_by_iff)
  with "2.IH"[OF rest 2(3)] show ?case unfolding bit_fold_or_u64 by auto
qed simp

lemma cron_field_bits:
  "cron_field s low high names = Inr bits \<Longrightarrow> high < 64 \<Longrightarrow> cron_has bits v \<longleftrightarrow> in_field s low high names v"
  by (auto simp: cron_field_def in_field_def cron_has_bit cron_parts_bits)

lemma in_field_range: "in_field s low high names v \<Longrightarrow> low \<le> v \<and> v \<le> high"
  by (auto simp: in_field_def in_part_def dest!: cron_part_range)

section \<open>Properties\<close>

text \<open>
  A parsed expression means what cron means: a local time matches exactly when its minute, hour and month
  are in their fields and the day is right, where 7 in the last field is Sunday, a day field \<open>*\<close> leaves the
  other to decide, and two restricted day fields match when either does.
\<close>

theorem cron_matches_exact:
  assumes "Cron_parse s = Inr cron" "weekday < 7"
  shows "\<exists>m h d mo w. split_whitespace s = [m, h, d, mo, w] \<and> cron_text cron = join 32 [m, h, d, mo, w] \<and>
    (Cron_matches cron minute hour day month weekday \<longleftrightarrow>
       in_field m 0 59 [] minute \<and> in_field h 0 23 [] hour \<and> in_field mo 1 12 MONTHS month \<and>
       (let dom = in_field d 1 31 [] day;
            dow = in_field w 0 7 WEEKDAYS weekday \<or> weekday = 0 \<and> in_field w 0 7 WEEKDAYS 7 in
        if d = chars ''*'' then w = chars ''*'' \<or> dow else if w = chars ''*'' then dom else dom \<or> dow))"
proof -
  from assms(1) obtain m h d mo w where fields: "split_whitespace s = [m, h, d, mo, w]"
    by (auto simp: Cron_parse_def Let_def split: list.splits)
  with assms(1) obtain dw mi ho da mn where parsed: "cron_field w 0 7 WEEKDAYS = Inr dw" "cron_field m 0 59 [] = Inr mi"
      "cron_field h 0 23 [] = Inr ho" "cron_field d 1 31 [] = Inr da" "cron_field mo 1 12 MONTHS = Inr mn"
    and cron: "cron = \<lparr>cron_text = join 32 [m, h, d, mo, w], cron_minutes = mi, cron_hours = ho, cron_days_of_month = da,
      cron_months = mn, cron_days_of_week = (if dw AND push_bit 7 1 \<noteq> 0 then (dw AND NOT (push_bit 7 1)) OR 1 else dw),
      cron_any_day_of_month = (d = chars ''*''), cron_any_day_of_week = (w = chars ''*'')\<rparr>"
    by (auto simp: Cron_parse_def Let_def simp del: push_bit_of_1)
  have seven: "dw AND push_bit 7 1 \<noteq> 0 \<longleftrightarrow> bit dw 7" using cron_has_bit[of dw 7] by (simp add: cron_has_def)
  have "cron_has (cron_days_of_week cron) weekday \<longleftrightarrow> bit dw weekday \<or> weekday = 0 \<and> bit dw 7"
    using assms(2) unfolding cron cron_has_bit seven Cron.simps by (auto simp: less_7_cases bit_simps)
  then have dow: "cron_has (cron_days_of_week cron) weekday \<longleftrightarrow>
      in_field w 0 7 WEEKDAYS weekday \<or> weekday = 0 \<and> in_field w 0 7 WEEKDAYS 7"
    using cron_field_bits[OF parsed(1)] by (simp add: cron_has_bit)
  show ?thesis
    using fields dow cron_field_bits[OF parsed(2), of minute] cron_field_bits[OF parsed(3), of hour]
      cron_field_bits[OF parsed(4), of day] cron_field_bits[OF parsed(5), of month]
    by (auto simp: Cron_matches_def matches_minute_def matches_hour_def matches_day_def Let_def cron split: bool.splits)
qed

definition demo_cron :: str where
  "demo_cron = chars ''*/15 9 * * 7''"

theorem cron_matches_exact_witness:
  "\<exists>cron. Cron_parse demo_cron = Inr cron \<and> (0::nat) < 7 \<and>
    (\<exists>m h d mo w. split_whitespace demo_cron = [m, h, d, mo, w] \<and> cron_text cron = join 32 [m, h, d, mo, w] \<and>
      (Cron_matches cron 30 9 5 1 0 \<longleftrightarrow>
       in_field m 0 59 [] 30 \<and> in_field h 0 23 [] 9 \<and> in_field mo 1 12 MONTHS 1 \<and>
       (let dom = in_field d 1 31 [] 5; dow = in_field w 0 7 WEEKDAYS 0 \<or> (0::nat) = 0 \<and> in_field w 0 7 WEEKDAYS 7 in
        if d = chars ''*'' then w = chars ''*'' \<or> dow else if w = chars ''*'' then dom else dom \<or> dow)))"
proof -
  have "\<exists>cron. Cron_parse demo_cron = Inr cron"
    by (simp add: demo_cron_def chars_def Cron_parse_def split_whitespace_def is_whitespace_def cron_field_def cron_part_def
      cron_step_def cron_range_def cron_value_def parse_uint_def ascii_digit_def digits_value_def ok_or_def)
  then obtain cron where cron: "Cron_parse demo_cron = Inr cron" by blast
  have "(0::nat) < 7" by simp
  from cron_matches_exact[OF cron this, of 30 9 5 1] show ?thesis using cron \<open>(0::nat) < 7\<close> by blast
qed

end
