(* ===== verification/Schedule_Next.thy ===== *)
theory Schedule_Next
  imports Cron
begin

text \<open>
  When a schedule fires next and whether one is due, \<open>crates/sheprd-automation/src/schedule/next.rs\<close>. A
  timestamp is its whole seconds: the daemon makes them all with \<open>from_second\<close>, and every schedule adds
  whole seconds. The time library's own operations, for one time zone, are the fields of \<open>TimeLib\<close>; the
  sums of seconds are exact integers, since the \<open>i64\<close> ones saturate or are checked far beyond its range. A
  function that may run forever returns \<open>None\<close> then.
\<close>

section \<open>Time zones\<close>

type_synonym Timestamp = int

record ('l, 'd) TimeLib =
  tl_checked_add :: "Timestamp \<Rightarrow> int \<Rightarrow> Timestamp option"
  tl_from_second :: "int \<Rightarrow> Timestamp option"
  tl_to_zoned :: "Timestamp \<Rightarrow> 'l"
  tl_timestamp :: "'l \<Rightarrow> Timestamp"
  tl_minute :: "'l \<Rightarrow> nat"
  tl_hour :: "'l \<Rightarrow> nat"
  tl_day :: "'l \<Rightarrow> nat"
  tl_month :: "'l \<Rightarrow> nat"
  tl_sunday_offset :: "'l \<Rightarrow> nat"
  tl_start_of_day :: "'l \<Rightarrow> 'l option"
  tl_add_day :: "'l \<Rightarrow> 'l option"
  tl_start_of_hour :: "'l \<Rightarrow> 'l option"
  tl_add_hour :: "'l \<Rightarrow> 'l option"
  tl_date :: "'l \<Rightarrow> 'd"
  tl_date_add :: "'d \<Rightarrow> nat \<Rightarrow> 'd option"
  tl_monday_offset :: "'d \<Rightarrow> nat"
  tl_date_at :: "'d \<Rightarrow> nat \<Rightarrow> nat \<Rightarrow> 'l option"

section \<open>Schedules\<close>

definition LATE_AFTER :: nat where "LATE_AFTER = 120"
definition MISSED_WALK :: nat where "MISSED_WALK = 10000"
definition MISSED_PASSES :: nat where "MISSED_PASSES = 32"

datatype Schedule = At ClockTime Days | AtCron Cron | Every u64 | Manual

record Due =
  due_scheduled :: Timestamp
  due_late :: bool

datatype Unit = UnitDay | UnitHour

definition start_of_next :: "('l, 'd) TimeLib \<Rightarrow> 'l \<Rightarrow> Unit \<Rightarrow> Timestamp option" where
  "start_of_next lib local unit =
     map_option (tl_timestamp lib)
       (case unit of
          UnitDay \<Rightarrow> Option.bind (tl_start_of_day lib local) (tl_add_day lib)
        | UnitHour \<Rightarrow> Option.bind (tl_start_of_hour lib local) (tl_add_hour lib))"

text \<open>Where the walk goes from an instant that does not match, and whether it matches.\<close>

definition cron_at :: "('l, 'd) TimeLib \<Rightarrow> Cron \<Rightarrow> Timestamp \<Rightarrow> bool" where
  "cron_at lib cron t =
     (let local = tl_to_zoned lib t in
      Cron_matches cron (tl_minute lib local) (tl_hour lib local) (tl_day lib local) (tl_month lib local) (tl_sunday_offset lib local))"

definition cron_advance :: "('l, 'd) TimeLib \<Rightarrow> Cron \<Rightarrow> Timestamp \<Rightarrow> Timestamp option" where
  "cron_advance lib cron t =
     (let local = tl_to_zoned lib t in
      if \<not> matches_day cron (tl_day lib local) (tl_month lib local) (tl_sunday_offset lib local) then start_of_next lib local UnitDay
      else if \<not> matches_hour cron (tl_hour lib local) then start_of_next lib local UnitHour
      else tl_checked_add lib t 60)"

partial_function (option) cron_loop :: "('l, 'd) TimeLib \<Rightarrow> Cron \<Rightarrow> Timestamp \<Rightarrow> Timestamp \<Rightarrow> Timestamp option option" where
  "cron_loop lib cron limit t =
     (if t \<le> limit then
        if cron_at lib cron t then Some (Some t)
        else (case cron_advance lib cron t of None \<Rightarrow> Some None | Some u \<Rightarrow> cron_loop lib cron limit u)
      else Some None)"

definition next_cron :: "('l, 'd) TimeLib \<Rightarrow> Cron \<Rightarrow> Timestamp \<Rightarrow> Timestamp option option" where
  "next_cron lib cron after =
     (case (tl_checked_add lib after (8808 * 3600), tl_checked_add lib after 60) of
        (Some limit, Some start) \<Rightarrow>
          (case tl_from_second lib (start - start mod 60) of
             None \<Rightarrow> Some None
           | Some t \<Rightarrow> cron_loop lib cron limit t)
      | _ \<Rightarrow> Some None)"

definition next_every :: "('l, 'd) TimeLib \<Rightarrow> u64 \<Rightarrow> Timestamp \<Rightarrow> Timestamp option \<Rightarrow> Timestamp option" where
  "next_every lib seconds after anchor =
     (let step = uint seconds in
      if \<not> (0 < step \<and> step < 2 ^ 63) then None
      else
        let anchor = (case anchor of None \<Rightarrow> after | Some a \<Rightarrow> a);
            behind = after - anchor;
            steps = (if behind < 0 then 1 else behind div step + 1) in
        if steps * step < 2 ^ 63 then tl_checked_add lib anchor (steps * step) else None)"

definition at_day :: "('l, 'd) TimeLib \<Rightarrow> ClockTime \<Rightarrow> Days \<Rightarrow> Timestamp \<Rightarrow> nat \<Rightarrow> Timestamp option" where
  "at_day lib time days after offset =
     Option.bind (tl_date_add lib (tl_date lib (tl_to_zoned lib after)) offset) (\<lambda>date.
       if \<not> Days_contains days (tl_monday_offset lib date) then None
       else Option.bind (tl_date_at lib date (unat (clock_hour time)) (unat (clock_minute time))) (\<lambda>local.
         let t = tl_timestamp lib local in if t > after then Some t else None))"

text \<open>\<open>find_map\<close>.\<close>

fun find_map :: "('a \<Rightarrow> 'b option) \<Rightarrow> 'a list \<Rightarrow> 'b option" where
  "find_map f [] = None"
| "find_map f (x # xs) = (case f x of None \<Rightarrow> find_map f xs | Some y \<Rightarrow> Some y)"

fun next_after :: "('l, 'd) TimeLib \<Rightarrow> Schedule \<Rightarrow> Timestamp \<Rightarrow> Timestamp option \<Rightarrow> Timestamp option option" where
  "next_after lib Manual after anchor = Some None"
| "next_after lib (Every seconds) after anchor = Some (next_every lib seconds after anchor)"
| "next_after lib (At time days) after anchor = Some (find_map (at_day lib time days after) [0..<8])"
| "next_after lib (AtCron cron) after anchor = next_cron lib cron after"

section \<open>Due firings\<close>

text \<open>The inner walk: \<open>latest\<close>, \<open>after\<close>, \<open>anchor\<close>, and how many of the \<open>n\<close> occurrences were left to walk.\<close>

fun due_walk :: "(Timestamp \<Rightarrow> Timestamp option \<Rightarrow> Timestamp option option) \<Rightarrow> Timestamp \<Rightarrow> nat
    \<Rightarrow> Timestamp option \<Rightarrow> Timestamp \<Rightarrow> Timestamp option \<Rightarrow> (Timestamp option \<times> Timestamp \<times> Timestamp option \<times> nat) option" where
  "due_walk nxt now 0 latest after anchor = Some (latest, after, anchor, 0)"
| "due_walk nxt now (Suc n) latest after anchor =
     (case nxt after anchor of
        None \<Rightarrow> None
      | Some None \<Rightarrow> Some (latest, after, anchor, Suc n)
      | Some (Some t) \<Rightarrow>
          if t > now then Some (latest, after, anchor, Suc n) else due_walk nxt now n (Some t) t (Some t))"

fun due_passes :: "('l, 'd) TimeLib \<Rightarrow> (Timestamp \<Rightarrow> Timestamp option \<Rightarrow> Timestamp option option) \<Rightarrow> Timestamp \<Rightarrow> nat
    \<Rightarrow> Timestamp option \<Rightarrow> Timestamp \<Rightarrow> Timestamp option \<Rightarrow> Timestamp option option" where
  "due_passes lib nxt now 0 latest after anchor = Some latest"
| "due_passes lib nxt now (Suc passes) latest start anchor =
     (case due_walk nxt now MISSED_WALK latest start anchor of
        None \<Rightarrow> None
      | Some (latest, after, anchor, left_over) \<Rightarrow>
          if left_over > 0 then Some latest
          else
            let remaining = now - after; walked = after - start; skip = max (remaining - walked div 2) 0 in
            due_passes lib nxt now passes latest
              (case tl_checked_add lib after skip of None \<Rightarrow> after | Some t \<Rightarrow> t) anchor)"

definition due :: "('l, 'd) TimeLib \<Rightarrow> Schedule \<Rightarrow> Timestamp \<Rightarrow> Timestamp option \<Rightarrow> Timestamp \<Rightarrow> Due option option" where
  "due lib schedule checked anchor now =
     map_option (map_option (\<lambda>scheduled. \<lparr>due_scheduled = scheduled, due_late = nat (now - scheduled) > LATE_AFTER\<rparr>))
       (due_passes lib (next_after lib schedule) now MISSED_PASSES None checked anchor)"

section \<open>Lemmas\<close>

text \<open>What the time library documents: sums are exact, and a start of a day or hour is later than the instant.\<close>

definition exact_sums :: "('l, 'd) TimeLib \<Rightarrow> bool" where
  "exact_sums lib \<longleftrightarrow> (\<forall>t n u. tl_checked_add lib t n = Some u \<longrightarrow> u = t + n) \<and> (\<forall>n u. tl_from_second lib n = Some u \<longrightarrow> u = n)"

definition progresses :: "('l, 'd) TimeLib \<Rightarrow> bool" where
  "progresses lib \<longleftrightarrow> (\<forall>t unit u. start_of_next lib (tl_to_zoned lib t) unit = Some u \<longrightarrow> t < u)"

lemma exact_sumsD: "exact_sums lib \<Longrightarrow> tl_checked_add lib t n = Some u \<Longrightarrow> u = t + n"
  by (simp add: exact_sums_def)

lemma cron_advance_later: "exact_sums lib \<Longrightarrow> progresses lib \<Longrightarrow> cron_advance lib cron t = Some u \<Longrightarrow> t < u"
  by (auto simp: cron_advance_def progresses_def Let_def split: if_splits dest!: exact_sumsD)

lemma cron_loop_returns:
  assumes "exact_sums lib" "progresses lib"
  shows "\<exists>r. cron_loop lib cron limit t = Some r"
proof (induction "nat (limit + 1 - t)" arbitrary: t rule: less_induct)
  case less
  show ?case
  proof (cases "t \<le> limit \<and> \<not> cron_at lib cron t")
    case True
    show ?thesis
    proof (cases "cron_advance lib cron t")
      case (Some u)
      from cron_advance_later[OF assms this] True have "nat (limit + 1 - u) < nat (limit + 1 - t)" by auto
      from less[OF this] True Some show ?thesis by (subst cron_loop.simps) simp
    qed (use True in \<open>simp add: cron_loop.simps\<close>)
  qed (auto simp: cron_loop.simps)
qed

lemma next_after_returns:
  assumes "exact_sums lib" "progresses lib"
  shows "\<exists>r. next_after lib schedule after anchor = Some r"
  using cron_loop_returns[OF assms] by (cases schedule) (auto simp: next_cron_def split: option.split)

lemma next_every_first:
  assumes "exact_sums lib" "next_every lib seconds after anchor = Some t"
  shows "\<exists>k \<ge> 1. t = (case anchor of None \<Rightarrow> after | Some a \<Rightarrow> a) + k * uint seconds"
    and "after < t"
    and "\<And>k. 1 \<le> k \<Longrightarrow> (case anchor of None \<Rightarrow> after | Some a \<Rightarrow> a) + k * uint seconds > after \<Longrightarrow>
      t \<le> (case anchor of None \<Rightarrow> after | Some a \<Rightarrow> a) + k * uint seconds"
proof -
  let ?a = "case anchor of None \<Rightarrow> after | Some a \<Rightarrow> a" and ?s = "uint seconds"
  let ?k = "if after - ?a < 0 then 1 else (after - ?a) div ?s + 1"
  from assms have s: "0 < ?s" and t: "t = ?a + ?k * ?s"
    by (auto simp: next_every_def Let_def split: if_splits dest!: exact_sumsD)
  have k: "1 \<le> ?k" using s by (simp add: pos_imp_zdiv_nonneg_iff)
  then show "\<exists>k \<ge> 1. t = ?a + k * ?s" using t by blast
  have div: "(after - ?a) div ?s * ?s \<le> after - ?a" "after - ?a < (after - ?a) div ?s * ?s + ?s"
    using s by (simp_all add: minus_mod_eq_div_mult[symmetric]) 
  show after: "after < t"
  proof (cases "after - ?a < 0")
    case True
    then show ?thesis unfolding t using s by simp
  next
    case False
    then show ?thesis unfolding t using div(2) by (simp add: algebra_simps)
  qed
  fix k assume kk: "1 \<le> k" "?a + k * ?s > after"
  show "t \<le> ?a + k * ?s"
  proof (cases "after - ?a < 0")
    case True
    then show ?thesis unfolding t using kk(1) s by (simp add: mult_right_mono)
  next
    case False
    have "(after - ?a) div ?s * ?s < k * ?s" using div(1) kk(2) by linarith
    then have "(after - ?a) div ?s < k" using s by simp
    then have "((after - ?a) div ?s + 1) * ?s \<le> k * ?s" using s by (intro mult_right_mono) auto
    with False show ?thesis unfolding t by simp
  qed
qed

lemma find_map_Some: "find_map f xs = Some y \<Longrightarrow> \<exists>us x vs. xs = us @ x # vs \<and> f x = Some y \<and> (\<forall>u \<in> set us. f u = None)"
proof (induction xs)
  case (Cons x xs)
  show ?case
  proof (cases "f x")
    case None
    with Cons obtain us z vs where "xs = us @ z # vs" "f z = Some y" "\<forall>u \<in> set us. f u = None" by auto
    with None have "x # xs = (x # us) @ z # vs \<and> f z = Some y \<and> (\<forall>u \<in> set (x # us). f u = None)" by simp
    then show ?thesis by blast
  next
    case (Some z)
    with Cons.prems have "x # xs = [] @ x # xs \<and> f x = Some y \<and> (\<forall>u \<in> set []. f u = None)" by simp
    then show ?thesis by blast
  qed
qed simp

lemma cron_loop_result:
  "cron_loop lib cron limit t = Some (Some u) \<Longrightarrow> exact_sums lib \<Longrightarrow> progresses lib \<Longrightarrow> t \<le> u \<and> u \<le> limit \<and> cron_at lib cron u"
proof (induction "nat (limit + 1 - t)" arbitrary: t rule: less_induct)
  case less
  show ?case
  proof (cases "t \<le> limit \<and> \<not> cron_at lib cron t")
    case True
    with less.prems(1) obtain v where v: "cron_advance lib cron t = Some v" "cron_loop lib cron limit v = Some (Some u)"
      by (subst (asm) cron_loop.simps) (auto split: option.splits)
    from cron_advance_later[OF less.prems(2,3) v(1)] True have "nat (limit + 1 - v) < nat (limit + 1 - t)" "t < v" by auto
    from less.hyps[OF this(1) v(2) less.prems(2,3)] this(2) show ?thesis by auto
  next
    case False
    with less.prems(1) show ?thesis by (subst (asm) cron_loop.simps) (auto split: if_splits)
  qed
qed

lemma next_after_later:
  assumes "exact_sums lib" "progresses lib" "next_after lib schedule after anchor = Some (Some t)"
  shows "after < t"
proof (cases schedule)
  case (At time days)
  with assms(3) show ?thesis
    by (auto simp: at_day_def Let_def bind_eq_Some_conv split: if_splits dest!: find_map_Some)
next
  case (AtCron cron)
  with assms(3) obtain limit start u where u: "tl_checked_add lib after 60 = Some start"
    "tl_from_second lib (start - start mod 60) = Some u" "cron_loop lib cron limit u = Some (Some t)"
    by (auto simp: next_cron_def split: option.splits)
  have "u = start - start mod 60" using u(2) assms(1) by (simp add: exact_sums_def)
  moreover have "start = after + 60" using exact_sumsD[OF assms(1) u(1)] .
  moreover have "start mod 60 < 60" by simp
  moreover have "u \<le> t" using cron_loop_result[OF u(3) assms(1,2)] by simp
  ultimately show ?thesis by linarith
next
  case (Every seconds)
  with assms(3) next_every_first(2)[OF assms(1)] show ?thesis by simp
qed (use assms in simp)

text \<open>
  The starts of days and hours fall on whole minutes, as in every zone whose offset is one of whole minutes.
\<close>

definition whole_minute :: "Timestamp \<Rightarrow> bool" where
  "whole_minute t \<longleftrightarrow> t mod 60 = 0"

definition aligned :: "('l, 'd) TimeLib \<Rightarrow> bool" where
  "aligned lib \<longleftrightarrow> (\<forall>t unit u. start_of_next lib (tl_to_zoned lib t) unit = Some u \<longrightarrow> whole_minute u)"

text \<open>Two instants of the same date, or of the same hour of the day.\<close>

fun same_unit :: "('l, 'd) TimeLib \<Rightarrow> Unit \<Rightarrow> Timestamp \<Rightarrow> Timestamp \<Rightarrow> bool" where
  "same_unit lib UnitDay t w \<longleftrightarrow>
     tl_day lib (tl_to_zoned lib w) = tl_day lib (tl_to_zoned lib t) \<and>
     tl_month lib (tl_to_zoned lib w) = tl_month lib (tl_to_zoned lib t) \<and>
     tl_sunday_offset lib (tl_to_zoned lib w) = tl_sunday_offset lib (tl_to_zoned lib t)"
| "same_unit lib UnitHour t w \<longleftrightarrow> tl_hour lib (tl_to_zoned lib w) = tl_hour lib (tl_to_zoned lib t)"

text \<open>
  An instant that the step to the start of the next day or hour goes past although it is of another day or hour already:
  where a day begins late because the clocks are put forward at midnight, a day after its start is late on the next date.
\<close>

definition overshot :: "('l, 'd) TimeLib \<Rightarrow> Timestamp \<Rightarrow> Timestamp \<Rightarrow> bool" where
  "overshot lib after w \<longleftrightarrow>
     (\<exists>s unit u. after < s \<and> s \<le> w \<and> start_of_next lib (tl_to_zoned lib s) unit = Some u \<and> w < u \<and> \<not> same_unit lib unit s w)"

lemma cron_advance_skips:
  assumes "exact_sums lib" "aligned lib" "\<not> cron_at lib cron t" "cron_advance lib cron t = Some u" "whole_minute t" "after < t"
  shows "whole_minute u \<and> (\<forall>w. t \<le> w \<and> w < u \<and> whole_minute w \<and> cron_at lib cron w \<longrightarrow> overshot lib after w)"
proof -
  let ?l = "tl_to_zoned lib t"
  have over: "overshot lib after w" if "start_of_next lib ?l unit = Some u" "t \<le> w" "w < u" "\<not> same_unit lib unit t w" for unit w
    unfolding overshot_def using that assms(6) by blast
  show ?thesis
  proof (cases "matches_day cron (tl_day lib ?l) (tl_month lib ?l) (tl_sunday_offset lib ?l)")
    case False
    with assms(4) have u: "start_of_next lib ?l UnitDay = Some u" by (simp add: cron_advance_def Let_def)
    have "\<not> same_unit lib UnitDay t w" if "cron_at lib cron w" for w
      using that False by (auto simp: cron_at_def Cron_matches_def Let_def)
    with u over[OF u] assms(2) show ?thesis unfolding aligned_def by blast
  next
    case day: True
    show ?thesis
    proof (cases "matches_hour cron (tl_hour lib ?l)")
      case False
      with day assms(4) have u: "start_of_next lib ?l UnitHour = Some u" by (simp add: cron_advance_def Let_def)
      have "\<not> same_unit lib UnitHour t w" if "cron_at lib cron w" for w
        using that False by (auto simp: cron_at_def Cron_matches_def Let_def)
      with u over[OF u] assms(2) show ?thesis unfolding aligned_def by blast
    next
      case True
      with day assms(4) have "tl_checked_add lib t 60 = Some u" by (simp add: cron_advance_def Let_def)
      from exact_sumsD[OF assms(1) this] have u: "u = t + 60" .
      have "w = t" if "t \<le> w" "w < u" "whole_minute w" for w
      proof -
        have "(w - t) mod 60 = 0" using that(3) assms(5) unfolding whole_minute_def by (metis diff_zero mod_diff_eq mod_0)
        moreover have "0 \<le> w - t" "w - t < 60" using that(1,2) u by auto
        ultimately show ?thesis by (simp add: mod_pos_pos_trivial)
      qed
      then have none: "\<not> cron_at lib cron w" if "t \<le> w" "w < u" "whole_minute w" for w using that assms(3) by blast
      have "whole_minute u" using assms(5) unfolding u whole_minute_def by (simp only: mod_add_self2)
      then show ?thesis using none by blast
    qed
  qed
qed

lemma cron_loop_first:
  assumes "exact_sums lib" "progresses lib" "aligned lib"
    and "cron_loop lib cron limit t = Some (Some u)" "whole_minute t" "after < t"
  shows "whole_minute u \<and> (\<forall>w. t \<le> w \<and> w < u \<and> whole_minute w \<and> cron_at lib cron w \<longrightarrow> overshot lib after w)"
  using assms(4-)
proof (induction "nat (limit + 1 - t)" arbitrary: t rule: less_induct)
  case less
  show ?case
  proof (cases "t = u")
    case True
    with less.prems(2) show ?thesis by auto
  next
    case False
    with less.prems(1) have no: "t \<le> limit" "\<not> cron_at lib cron t"
      by (subst (asm) cron_loop.simps, simp split: if_splits)+
    with less.prems(1) obtain v where v: "cron_advance lib cron t = Some v" "cron_loop lib cron limit v = Some (Some u)"
      by (subst (asm) cron_loop.simps) (auto split: option.splits)
    note skip = cron_advance_skips[OF assms(1,3) no(2) v(1) less.prems(2,3)]
    from cron_advance_later[OF assms(1,2) v(1)] no(1) less.prems(3)
    have later: "nat (limit + 1 - v) < nat (limit + 1 - t)" "after < v" by auto
    note rest = less.hyps[OF later(1) v(2) skip[THEN conjunct1] later(2)]
    have "overshot lib after w" if "t \<le> w" "w < u" "whole_minute w" "cron_at lib cron w" for w
      using that skip rest by (cases "w < v") auto
    with rest show ?thesis by blast
  qed
qed

text \<open>The library represents every instant of the year and a day the walk covers.\<close>

definition representable :: "('l, 'd) TimeLib \<Rightarrow> Timestamp \<Rightarrow> bool" where
  "representable lib after \<longleftrightarrow> tl_checked_add lib after (8808 * 3600) \<noteq> None \<and> tl_checked_add lib after 60 \<noteq> None \<and>
     tl_from_second lib (after + 60 - (after + 60) mod 60) \<noteq> None \<and>
     (\<forall>t. after < t \<and> t \<le> after + 8808 * 3600 \<longrightarrow>
       tl_checked_add lib t 60 \<noteq> None \<and> (\<forall>unit. start_of_next lib (tl_to_zoned lib t) unit \<noteq> None))"

lemma representable_advance:
  "representable lib after \<Longrightarrow> after < t \<Longrightarrow> t \<le> after + 8808 * 3600 \<Longrightarrow> cron_advance lib cron t \<noteq> None"
  unfolding representable_def cron_advance_def Let_def by (simp split del: if_split split: if_splits)

lemma cron_loop_none:
  assumes "exact_sums lib" "progresses lib" "aligned lib"
    and ok: "\<And>t. after < t \<Longrightarrow> t \<le> limit \<Longrightarrow> cron_advance lib cron t \<noteq> None"
    and "cron_loop lib cron limit t = Some None" "after < t" "whole_minute t" "t \<le> w" "w \<le> limit" "whole_minute w" "cron_at lib cron w"
  shows "overshot lib after w"
  using assms(5-)
proof (induction "nat (limit + 1 - t)" arbitrary: t rule: less_induct)
  case less
  have "t \<le> limit" using less.prems(4,5) by simp
  with less.prems(1) have no: "\<not> cron_at lib cron t"
    by (subst (asm) cron_loop.simps) (simp split: if_splits)
  obtain v where v: "cron_advance lib cron t = Some v" using ok[OF less.prems(2) \<open>t \<le> limit\<close>] by blast
  with less.prems(1) no \<open>t \<le> limit\<close> have loop: "cron_loop lib cron limit v = Some None"
    by (subst (asm) cron_loop.simps) simp
  note skip = cron_advance_skips[OF assms(1,3) no v less.prems(3,2)]
  from cron_advance_later[OF assms(1,2) v] \<open>t \<le> limit\<close> have later: "nat (limit + 1 - v) < nat (limit + 1 - t)" "t < v" by auto
  show ?case
  proof (cases "w < v")
    case True
    then show ?thesis using skip less.prems(4,6,7) by blast
  next
    case False
    show ?thesis
      by (rule less.hyps[OF later(1) loop]) (use False skip later(2) less.prems(2,5,6,7) in auto)
  qed
qed

text \<open>The walk cannot return from an instant that is the start of its own next hour.\<close>

definition stuck :: "('l, 'd) TimeLib \<Rightarrow> Cron \<Rightarrow> Timestamp \<Rightarrow> Timestamp \<Rightarrow> bool" where
  "stuck lib cron limit t \<longleftrightarrow> t \<le> limit \<and> \<not> cron_at lib cron t \<and> cron_advance lib cron t = Some t"

lemma cron_loop_stuck: "cron_loop lib cron limit t = Some r \<Longrightarrow> \<not> stuck lib cron limit t"
proof (rule cron_loop.raw_induct[where P = "\<lambda>lib cron limit t r. \<not> stuck lib cron limit t"])
  fix loop :: "('a, 'b) TimeLib \<Rightarrow> Cron \<Rightarrow> Timestamp \<Rightarrow> Timestamp \<Rightarrow> Timestamp option option"
  fix lib cron limit t r
  assume ih: "\<And>lib cron limit t r. loop lib cron limit t = Some r \<Longrightarrow> \<not> stuck lib cron limit t"
    and body: "(if t \<le> limit then
        if cron_at lib cron t then Some (Some t)
        else (case cron_advance lib cron t of None \<Rightarrow> Some None | Some u \<Rightarrow> loop lib cron limit u)
      else Some None) = Some r"
  show "\<not> stuck lib cron limit t"
  proof
    assume stuck: "stuck lib cron limit t"
    with body have "loop lib cron limit t = Some r" by (simp add: stuck_def)
    with ih stuck show False by blast
  qed
qed

text \<open>Consecutive occurrences after an instant.\<close>

fun occurrences :: "(Timestamp \<Rightarrow> Timestamp option \<Rightarrow> Timestamp option option) \<Rightarrow> Timestamp \<Rightarrow> Timestamp option \<Rightarrow> Timestamp list \<Rightarrow> bool" where
  "occurrences nxt after anchor [] = True"
| "occurrences nxt after anchor (t # ts) = (nxt after anchor = Some (Some t) \<and> occurrences nxt t (Some t) ts)"

text \<open>Nothing more up to \<open>now\<close>.\<close>

definition none_until :: "Timestamp option option \<Rightarrow> Timestamp \<Rightarrow> bool" where
  "none_until r now \<longleftrightarrow> r = Some None \<or> (\<exists>t. r = Some (Some t) \<and> now < t)"

lemma due_walk_all:
  assumes "occurrences nxt after anchor ts" "\<forall>t \<in> set ts. t \<le> now" "length ts < n"
    and "none_until (nxt (if ts = [] then after else last ts) (if ts = [] then anchor else Some (last ts))) now"
  shows "\<exists>after' anchor' m. due_walk nxt now n latest after anchor =
    Some (if ts = [] then latest else Some (last ts), after', anchor', m) \<and> 0 < m"
  using assms
proof (induction ts arbitrary: n latest after anchor)
  case Nil
  then obtain m where "n = Suc m" by (cases n) auto
  with Nil show ?case by (auto simp: none_until_def)
next
  case (Cons t ts)
  then obtain m where n: "n = Suc m" "length ts < m" by (cases n) auto
  have "none_until (nxt (if ts = [] then t else last ts) (if ts = [] then Some t else Some (last ts))) now"
    using Cons.prems(4) by (auto split: if_splits)
  with Cons.IH[of t "Some t" m "Some t"] Cons.prems n show ?case by auto
qed

lemma due_walk_returns:
  "(\<And>a b. \<exists>r. nxt a b = Some r) \<Longrightarrow> \<exists>r. due_walk nxt now n latest after anchor = Some r"
proof (induction n arbitrary: latest after anchor)
  case (Suc n)
  obtain r where "nxt after anchor = Some r" using Suc.prems by blast
  with Suc.IH[OF Suc.prems] show ?case by (cases r) auto
qed simp

lemma due_passes_step:
  assumes "due_walk nxt now MISSED_WALK latest start anchor = Some (l, a, b, m)"
  shows "due_passes lib nxt now (Suc n) latest start anchor =
    (if m > 0 then Some l
     else due_passes lib nxt now n l
       (case tl_checked_add lib a (max (now - a - (a - start) div 2) 0) of None \<Rightarrow> a | Some t \<Rightarrow> t) b)"
  by (simp only: due_passes.simps assms option.case prod.case Let_def)

lemma due_passes_returns:
  assumes "\<And>a b. \<exists>r. nxt a b = Some r"
  shows "\<exists>r. due_passes lib nxt now n latest start anchor = Some r"
proof (induction n arbitrary: latest start anchor)
  case (Suc n)
  obtain w where "due_walk nxt now MISSED_WALK latest start anchor = Some w"
    using due_walk_returns[of nxt now MISSED_WALK latest start anchor, OF assms] by blast
  then obtain l a b m where "due_walk nxt now MISSED_WALK latest start anchor = Some (l, a, b, m)" by (cases w) simp
  from due_passes_step[OF this, of lib n] Suc.IH show ?case by (cases "m > 0") (simp_all del: due_passes.simps)
qed simp

text \<open>Every firing found lies after \<open>checked\<close> and not after \<open>now\<close>.\<close>

definition within :: "Timestamp \<Rightarrow> Timestamp \<Rightarrow> Timestamp option \<Rightarrow> bool" where
  "within checked now latest \<longleftrightarrow> (case latest of None \<Rightarrow> True | Some t \<Rightarrow> checked < t \<and> t \<le> now)"

lemma due_walk_within:
  assumes "\<And>a b t. nxt a b = Some (Some t) \<Longrightarrow> a < t"
    and "due_walk nxt now n latest after anchor = Some (latest', after', anchor', m)" "within checked now latest" "checked \<le> after"
  shows "within checked now latest' \<and> checked \<le> after'"
  using assms(2-)
proof (induction n arbitrary: latest after anchor)
  case (Suc n)
  show ?case
  proof (cases "\<exists>t. nxt after anchor = Some (Some t) \<and> t \<le> now")
    case True
    then obtain t where t: "nxt after anchor = Some (Some t)" "t \<le> now" by blast
    from assms(1)[OF t(1)] have "after < t" .
    with Suc.IH[of "Some t" t "Some t"] t Suc.prems show ?thesis by (auto simp: within_def)
  next
    case False
    with Suc.prems show ?thesis by (auto split: option.splits if_splits)
  qed
qed (auto simp: within_def)

lemma due_passes_within:
  assumes strict: "\<And>a b t. nxt a b = Some (Some t) \<Longrightarrow> a < t" and "exact_sums lib"
    and "due_passes lib nxt now n latest start anchor = Some r" "within checked now latest" "checked \<le> start"
  shows "within checked now r"
  using assms(3-)
proof (induction n arbitrary: latest start anchor)
  case (Suc n)
  obtain l a b m where walk: "due_walk nxt now MISSED_WALK latest start anchor = Some (l, a, b, m)"
    using Suc.prems(1) by (cases "due_walk nxt now MISSED_WALK latest start anchor") auto
  have step: "within checked now l \<and> checked \<le> a"
    by (rule due_walk_within[OF _ walk Suc.prems(2,3)]) (rule strict)
  show ?case
  proof (cases "m > 0")
    case True
    with due_passes_step[OF walk, of lib n] step Suc.prems(1) show ?thesis by (simp del: due_passes.simps)
  next
    case False
    let ?skip = "max (now - a - (a - start) div 2) 0"
    let ?after = "case tl_checked_add lib a ?skip of None \<Rightarrow> a | Some t \<Rightarrow> t"
    have "a \<le> ?after"
    proof (cases "tl_checked_add lib a ?skip")
      case (Some u)
      with exact_sumsD[OF assms(2) Some] show ?thesis by simp
    qed simp
    then have "checked \<le> ?after" using step by linarith
    moreover have "due_passes lib nxt now n l ?after b = Some r"
      using False Suc.prems(1) unfolding due_passes_step[OF walk] by (simp del: due_passes.simps)
    ultimately show ?thesis using Suc.IH step by blast
  qed
qed simp

text \<open>
  A zone whose clocks go back by less than an hour can make an instant the start of its own next hour; the
  walk then never returns.
\<close>

lemma cron_loop_diverges:
  assumes "t \<le> limit" "\<not> cron_at lib cron t" "cron_advance lib cron t = Some t"
  shows "cron_loop lib cron limit t = None"
  using cron_loop_stuck[of lib cron limit t] assms by (cases "cron_loop lib cron limit t") (auto simp: stuck_def)

lemma minute_start:
  "whole_minute (after + 60 - (after + 60) mod 60)" "after < after + 60 - (after + 60) mod 60"
  "after < w \<Longrightarrow> whole_minute w \<Longrightarrow> after + 60 - (after + 60) mod 60 \<le> w"
proof -
  let ?u = "after + 60 - (after + 60) mod 60"
  have minute: "?u mod 60 = 0" unfolding minus_mod_eq_mult_div by (rule mod_mult_self1_is_0)
  then show "whole_minute ?u" by (simp only: whole_minute_def)
  show "after < ?u" using pos_mod_bound[of 60 "after + 60"] by simp
  assume "after < w" "whole_minute w"
  then have w: "after < w" "w mod 60 = 0" by (simp_all only: whole_minute_def)
  show "?u \<le> w"
  proof (rule ccontr)
    assume "\<not> ?u \<le> w"
    then have "0 < ?u - w" "?u - w < 60" using w(1) pos_mod_sign[of 60 "after + 60"] by linarith+
    moreover have "(?u - w) mod 60 = 0" using minute w(2) by (metis diff_zero mod_diff_eq mod_0)
    ultimately show False by (simp add: mod_pos_pos_trivial)
  qed
qed

lemma next_cron_some:
  assumes "exact_sums lib" "progresses lib" "aligned lib" and found: "next_cron lib cron after = Some (Some t)"
  shows "after < t \<and> t \<le> after + 8808 * 3600 \<and> whole_minute t \<and> cron_at lib cron t \<and>
    (\<forall>w. after < w \<and> w < t \<and> whole_minute w \<and> cron_at lib cron w \<longrightarrow> overshot lib after w)"
proof -
  from found obtain limit start u where u: "tl_checked_add lib after (8808 * 3600) = Some limit"
    "tl_checked_add lib after 60 = Some start" "tl_from_second lib (start - start mod 60) = Some u"
    "cron_loop lib cron limit u = Some (Some t)"
    by (auto simp: next_cron_def split: option.splits)
  have sums: "start = after + 60" "limit = after + 8808 * 3600"
    using exact_sumsD[OF assms(1) u(2)] exact_sumsD[OF assms(1) u(1)] .
  have u': "u = after + 60 - (after + 60) mod 60" using u(3) assms(1) sums(1) by (simp add: exact_sums_def)
  have first: "whole_minute t \<and> (\<forall>w. u \<le> w \<and> w < t \<and> whole_minute w \<and> cron_at lib cron w \<longrightarrow> overshot lib after w)"
    by (rule cron_loop_first[OF assms(1-3) u(4)]) (use minute_start(1,2) u' in auto)
  have "overshot lib after w" if w: "after < w" "w < t" "whole_minute w" "cron_at lib cron w" for w
    using first minute_start(3)[OF w(1,3)] w u' by blast
  with first cron_loop_result[OF u(4) assms(1,2)] minute_start(2)[of after] u' sums(2) show ?thesis by auto
qed

lemma next_cron_none:
  assumes "exact_sums lib" "progresses lib" "aligned lib" and found: "next_cron lib cron after = Some None"
    and ok: "representable lib after" and w: "after < w" "w \<le> after + 8808 * 3600" "whole_minute w" "cron_at lib cron w"
  shows "overshot lib after w"
proof -
  let ?u = "after + 60 - (after + 60) mod 60"
  from ok obtain limit start u where u: "tl_checked_add lib after (8808 * 3600) = Some limit"
    "tl_checked_add lib after 60 = Some start" "tl_from_second lib ?u = Some u"
    by (auto simp: representable_def)
  have sums: "start = after + 60" "limit = after + 8808 * 3600" "u = ?u"
    using exact_sumsD[OF assms(1) u(2)] exact_sumsD[OF assms(1) u(1)] u(3) assms(1) by (simp_all add: exact_sums_def)
  from found u sums(1) have "cron_loop lib cron limit u = Some None" by (simp add: next_cron_def)
  then show ?thesis
    using cron_loop_none[OF assms(1-3), of after limit cron u w] representable_advance[OF ok] w minute_start[of after] sums(2,3)
    by simp
qed

section \<open>Coordinated universal time\<close>

text \<open>The time library for UTC: the proleptic Gregorian calendar on whole seconds.\<close>

definition civil :: "int \<Rightarrow> int \<times> int" where
  "civil d =
     (let doe = (d + 719468) mod 146097;
          yoe = (doe - doe div 1460 + doe div 36524 - doe div 146096) div 365;
          doy = doe - (365 * yoe + yoe div 4 - yoe div 100);
          mp = (5 * doy + 2) div 153 in
      (if mp < 10 then mp + 3 else mp - 9, doy - (153 * mp + 2) div 5 + 1))"

definition utc :: "(int, int) TimeLib" where
  "utc = \<lparr>tl_checked_add = \<lambda>t n. Some (t + n), tl_from_second = Some, tl_to_zoned = \<lambda>t. t, tl_timestamp = \<lambda>l. l,
     tl_minute = \<lambda>l. nat (l div 60 mod 60), tl_hour = \<lambda>l. nat (l div 3600 mod 24),
     tl_day = \<lambda>l. nat (snd (civil (l div 86400))), tl_month = \<lambda>l. nat (fst (civil (l div 86400))),
     tl_sunday_offset = \<lambda>l. nat ((l div 86400 + 4) mod 7),
     tl_start_of_day = \<lambda>l. Some (l - l mod 86400), tl_add_day = \<lambda>l. Some (l + 86400),
     tl_start_of_hour = \<lambda>l. Some (l - l mod 3600), tl_add_hour = \<lambda>l. Some (l + 3600),
     tl_date = \<lambda>l. l div 86400, tl_date_add = \<lambda>d n. Some (d + int n), tl_monday_offset = \<lambda>d. nat ((d + 3) mod 7),
     tl_date_at = \<lambda>d h m. Some (86400 * d + 3600 * int h + 60 * int m)\<rparr>"

lemma utc_exact: "exact_sums utc"
  by (simp add: exact_sums_def utc_def)

lemma utc_next: "start_of_next utc t UnitDay = Some (t - t mod 86400 + 86400)" "start_of_next utc t UnitHour = Some (t - t mod 3600 + 3600)"
  by (simp_all add: start_of_next_def utc_def)

lemma utc_progresses: "progresses utc"
proof -
  have "t < u" if "start_of_next utc t unit = Some u" for t unit u
    using that pos_mod_bound[of 86400 t] pos_mod_bound[of 3600 t] by (cases unit) (auto simp: utc_next)
  then show ?thesis by (simp add: progresses_def utc_def)
qed

lemma same_div:
  assumes "0 < n" "t \<le> w" "w < t - t mod n + n"
  shows "w div n = t div (n::int)"
proof -
  have "n * (t div n) \<le> w" "w < n * (t div n) + n"
    using assms mult_div_mod_eq[of n t] pos_mod_sign[of n t] by linarith+
  then have "0 \<le> w - n * (t div n)" "w - n * (t div n) < n" by linarith+
  then show ?thesis by (intro int_div_pos_eq[where r = "w - n * (t div n)"]) auto
qed

lemma utc_aligned: "aligned utc"
proof -
  have "whole_minute u" if "start_of_next utc t unit = Some u" for t unit u
  proof -
    have eq: "t - t mod 86400 + 86400 = 60 * (1440 * (t div 86400) + 1440)" "t - t mod 3600 + 3600 = 60 * (60 * (t div 3600) + 60)"
      by (simp_all add: minus_mod_eq_mult_div)
    have "whole_minute (t - t mod 86400 + 86400)" "whole_minute (t - t mod 3600 + 3600)"
      unfolding eq whole_minute_def by (rule mod_mult_self1_is_0)+
    with that show ?thesis by (cases unit) (auto simp only: utc_next option.inject)
  qed
  then show ?thesis by (simp add: aligned_def utc_def)
qed

text \<open>A zone at a fixed number of seconds from UTC, in which no step goes past another day or hour.\<close>

definition fixed_zone :: "int \<Rightarrow> (int, int) TimeLib" where
  "fixed_zone offset = utc\<lparr>tl_to_zoned := \<lambda>t. t + offset, tl_timestamp := \<lambda>l. l - offset\<rparr>"

lemma fixed_zone_exactly: "\<not> overshot (fixed_zone offset) after w"
proof -
  have zone: "tl_to_zoned (fixed_zone offset) = (\<lambda>t. t + offset)" by (simp add: fixed_zone_def)
  have "same_unit (fixed_zone offset) unit t w" if "start_of_next (fixed_zone offset) (t + offset) unit = Some u" "t \<le> w" "w < u" for t unit u
  proof (cases unit)
    case UnitDay
    with that have "(w + offset) div 86400 = (t + offset) div 86400"
      by (intro same_div) (auto simp: start_of_next_def fixed_zone_def utc_def)
    with UnitDay show ?thesis by (simp add: fixed_zone_def utc_def)
  next
    case UnitHour
    with that have "(w + offset) div 3600 = (t + offset) div 3600"
      by (intro same_div) (auto simp: start_of_next_def fixed_zone_def utc_def)
    with UnitHour show ?thesis by (simp add: fixed_zone_def utc_def)
  qed
  then show ?thesis unfolding overshot_def zone by blast
qed

lemma utc_exactly: "\<not> overshot utc after w"
  using fixed_zone_exactly[of 0] by (simp add: fixed_zone_def utc_def)

lemma utc_representable: "representable utc after"
proof -
  have "start_of_next utc t unit \<noteq> None" for t unit by (cases unit) (simp_all add: utc_next)
  then show ?thesis by (simp add: representable_def utc_def)
qed

section \<open>A day that begins at one\<close>

text \<open>
  A zone of UTC whose clocks are put forward by an hour as the second day begins: the first instant of that day is one
  o'clock, and a day after it is one o'clock of the third day. An expression for half past midnight on the third day's
  weekday matches then, but the walk through the second day steps past it.
\<close>

definition gap_zone :: "(int, int) TimeLib" where
  "gap_zone = utc\<lparr>tl_to_zoned := \<lambda>t. if t < 86400 then t else t + 3600, tl_timestamp := \<lambda>l. if l < 90000 then l else l - 3600,
     tl_start_of_day := \<lambda>l. Some (if l div 86400 = 1 then 90000 else l - l mod 86400)\<rparr>"

definition demo_saturdays :: Cron where
  "demo_saturdays = \<lparr>cron_text = chars ''30 0 * * 6'', cron_minutes = push_bit 30 1, cron_hours = 1,
     cron_days_of_month = mask 32, cron_months = mask 13, cron_days_of_week = push_bit 6 1,
     cron_any_day_of_month = True, cron_any_day_of_week = False\<rparr>"

lemma late_day_skipped:
  "cron_at gap_zone demo_saturdays 171000" "cron_advance gap_zone demo_saturdays 86460 = Some 172800"
  by code_simp+

section \<open>Properties\<close>

text \<open>
  An interval fires at the first whole number of steps from its anchor that is after the given time, and
  never at or before it.
\<close>

theorem every_first_after:
  assumes "exact_sums lib" "next_after lib (Every seconds) after anchor = Some (Some t)"
  shows "let start = (case anchor of None \<Rightarrow> after | Some a \<Rightarrow> a) in
    after < t \<and> (\<exists>k \<ge> 1. t = start + k * uint seconds) \<and>
    (\<forall>k \<ge> 1. after < start + k * uint seconds \<longrightarrow> t \<le> start + k * uint seconds)"
  using next_every_first[OF assms(1), of seconds after anchor t] assms(2) by (auto simp: Let_def)

theorem every_first_after_witness:
  "exact_sums utc \<and> next_after utc (Every 600) 1000 (Some 100) = Some (Some 1300) \<and>
   (1000 :: int) < 1300 \<and> (\<exists>k. 1 \<le> k \<and> (1300 :: int) = 100 + k * uint (600 :: u64)) \<and> (1300 :: int) \<le> 100 + 3 * uint (600 :: u64)"
proof -
  have n: "next_after utc (Every 600) 1000 (Some 100) = Some (Some 1300)"
    by (simp add: next_every_def utc_def)
  from every_first_after[OF utc_exact n] have first: "(1000 :: int) < 1300" "\<exists>k. 1 \<le> k \<and> (1300 :: int) = 100 + k * uint (600 :: u64)"
    by (simp_all add: Let_def)
  have "(1300 :: int) \<le> 100 + 3 * uint (600 :: u64)"
    by (rule every_first_after[OF utc_exact n, unfolded Let_def option.case, THEN conjunct2, THEN conjunct2, rule_format]) simp_all
  with first utc_exact n show ?thesis by blast
qed

text \<open>
  C39. The walk for a cron expression ends, and what it returns is the first matching minute but for those its steps go
  past: in a zone where the start of the next day or hour is always ahead and on a whole minute, \<open>next_after\<close> returns; an
  instant it returns is a whole minute after the given time that matches, and a matching minute before it is one that a step
  to the start of the next day or hour went past although the date or the hour had changed already (as it may where the
  clocks are put forward at midnight); when it returns nothing the same holds of every matching minute of the next year
  and a day, as long as the library represents them. In a zone at a fixed offset from UTC no step goes past any, so there
  it is the first of all.
\<close>

theorem cron_first_match:
  assumes "exact_sums lib" "progresses lib" "aligned lib"
  shows "\<exists>r. next_after lib (AtCron cron) after anchor = Some r \<and>
    (\<forall>t. r = Some t \<longrightarrow> after < t \<and> t \<le> after + 8808 * 3600 \<and> whole_minute t \<and> cron_at lib cron t \<and>
       (\<forall>w. after < w \<and> w < t \<and> whole_minute w \<and> cron_at lib cron w \<longrightarrow> overshot lib after w)) \<and>
    (r = None \<and> representable lib after \<longrightarrow>
       (\<forall>w. after < w \<and> w \<le> after + 8808 * 3600 \<and> whole_minute w \<and> cron_at lib cron w \<longrightarrow> overshot lib after w)) \<and>
    \<not> (\<exists>offset s w. overshot (fixed_zone offset) s w)"
proof -
  obtain r where r: "next_after lib (AtCron cron) after anchor = Some r" using next_after_returns[OF assms(1,2)] by blast
  then show ?thesis
    using next_cron_some[OF assms, of cron after] next_cron_none[OF assms, of cron after] fixed_zone_exactly by auto
qed

definition demo_mornings :: Cron where
  "demo_mornings = \<lparr>cron_text = chars ''30 9 * * *'', cron_minutes = push_bit 30 1, cron_hours = push_bit 9 1,
     cron_days_of_month = mask 32, cron_months = mask 13, cron_days_of_week = mask 7,
     cron_any_day_of_month = True, cron_any_day_of_week = True\<rparr>"

text \<open>In UTC it is the first matching minute of all.\<close>

theorem cron_first_match_witness:
  "\<exists>r. next_after utc (AtCron demo_mornings) 0 None = Some r \<and>
    (\<forall>t. r = Some t \<longrightarrow> 0 < t \<and> t \<le> 8808 * 3600 \<and> cron_at utc demo_mornings t \<and>
       (\<forall>w. 0 < w \<and> w < t \<and> whole_minute w \<longrightarrow> \<not> cron_at utc demo_mornings w)) \<and>
    (r = None \<longrightarrow> (\<forall>w. 0 < w \<and> w \<le> 8808 * 3600 \<and> whole_minute w \<longrightarrow> \<not> cron_at utc demo_mornings w))"
proof -
  have "(0 :: int) + 8808 * 3600 = 8808 * 3600" by simp
  with cron_first_match[OF utc_exact utc_progresses utc_aligned, of demo_mornings 0 None] utc_representable[of 0] utc_exactly[of 0]
  show ?thesis by metis
qed

text \<open>
  Missed firings collapse into one: when fewer than 10000 occurrences lie between \<open>checked\<close> and \<open>now\<close>,
  \<open>due\<close> returns the last of them, late when it is more than two minutes behind, and nothing when there
  are none; in every case what it returns is an instant after \<open>checked\<close> and not after \<open>now\<close>.
\<close>

theorem due_collapses:
  assumes "exact_sums lib" "progresses lib"
  shows "\<exists>r. due lib schedule checked anchor now = Some r \<and>
    (\<forall>d. r = Some d \<longrightarrow> checked < due_scheduled d \<and> due_scheduled d \<le> now \<and> (due_late d \<longleftrightarrow> 120 < now - due_scheduled d)) \<and>
    (\<forall>ts. occurrences (next_after lib schedule) checked anchor ts \<and> (\<forall>t \<in> set ts. t \<le> now) \<and> length ts < 10000 \<and>
       none_until (next_after lib schedule (if ts = [] then checked else last ts) (if ts = [] then anchor else Some (last ts))) now \<longrightarrow>
       map_option due_scheduled r = (if ts = [] then None else Some (last ts)))"
proof -
  let ?nxt = "next_after lib schedule"
  obtain l where l: "due_passes lib ?nxt now MISSED_PASSES None checked anchor = Some l"
    using due_passes_returns[of ?nxt] next_after_returns[OF assms] by blast
  let ?r = "map_option (\<lambda>scheduled. \<lparr>due_scheduled = scheduled, due_late = nat (now - scheduled) > LATE_AFTER\<rparr>) l"
  have "within checked now l"
    by (rule due_passes_within[OF next_after_later[OF assms] assms(1) l]) (auto simp: within_def)
  then have "checked < due_scheduled d \<and> due_scheduled d \<le> now \<and> (due_late d \<longleftrightarrow> 120 < now - due_scheduled d)" if "?r = Some d" for d
    using that by (auto simp: within_def LATE_AFTER_def)
  moreover have "map_option due_scheduled ?r = (if ts = [] then None else Some (last ts))"
    if ts: "occurrences ?nxt checked anchor ts" "\<forall>t \<in> set ts. t \<le> now" "length ts < 10000"
      "none_until (?nxt (if ts = [] then checked else last ts) (if ts = [] then anchor else Some (last ts))) now" for ts
  proof -
    have "length ts < MISSED_WALK" using ts(3) by (simp add: MISSED_WALK_def)
    from due_walk_all[OF ts(1,2) this ts(4), of None] obtain a b m where walk:
      "due_walk ?nxt now MISSED_WALK None checked anchor = Some (if ts = [] then None else Some (last ts), a, b, m)" "0 < m" by blast
    have "MISSED_PASSES = Suc 31" unfolding MISSED_PASSES_def by simp
    from l[unfolded this due_passes_step[OF walk(1)]] walk(2) have "l = (if ts = [] then None else Some (last ts))"
      by (simp only: if_True option.inject)
    then show ?thesis by simp
  qed
  moreover have "due lib schedule checked anchor now = Some ?r" using l by (simp add: due_def)
  ultimately show ?thesis by blast
qed

theorem due_collapses_witness:
  "exact_sums utc \<and> progresses utc \<and>
   (\<exists>r. due utc (Every 600) 0 (Some 0) 2000 = Some r \<and> map_option due_scheduled r = Some 1800)"
proof -
  let ?nxt = "next_after utc (Every 600)"
  have "occurrences ?nxt 0 (Some 0) [600, 1200, 1800]" "none_until (?nxt 1800 (Some 1800)) 2000"
    by (simp_all add: next_every_def none_until_def utc_def)
  with due_collapses[OF utc_exact utc_progresses, of "Every 600" 0 "Some 0" 2000] utc_exact utc_progresses show ?thesis
    by (auto dest!: spec[of _ "[600, 1200, 1800]"])
qed

end
