(* ===== verification/Std.thy ===== *)
theory Std
  imports Strings "HOL-Library.AList"
begin

text \<open>
  What the remote access crates use of Rust's standard library beside strings: times in milliseconds as
  \<open>u64\<close>, hash maps, and searches in vectors.

  A \<open>u64\<close> is a natural number here, with the saturation or the wrap-around of each operation written out,
  since times only meet in comparisons and differences. A \<open>HashMap\<close> is an association list with distinct keys
  whose order stands for the order in which the map is iterated; Rust leaves that order open, and it matters
  only where two entries have the same time.
\<close>

section \<open>Integers\<close>

definition U64_MAX :: nat where "U64_MAX = 2 ^ 64 - 1"

definition U32_MAX :: nat where "U32_MAX = 2 ^ 32 - 1"

definition u64_saturating_add :: "nat \<Rightarrow> nat \<Rightarrow> nat" where
  "u64_saturating_add a b = min (a + b) U64_MAX"

definition u64_saturating_mul :: "nat \<Rightarrow> nat \<Rightarrow> nat" where
  "u64_saturating_mul a b = min (a * b) U64_MAX"

text \<open>A sum or product that overflows wraps in a release build.\<close>

definition u64_add :: "nat \<Rightarrow> nat \<Rightarrow> nat" where
  "u64_add a b = (a + b) mod 2 ^ 64"

definition u64_mul :: "nat \<Rightarrow> nat \<Rightarrow> nat" where
  "u64_mul a b = (a * b) mod 2 ^ 64"

section \<open>Vectors and maps\<close>

definition swap_remove :: "nat \<Rightarrow> 'a list \<Rightarrow> 'a list" where
  "swap_remove i xs = butlast (xs[i := List.last xs])"

definition remove_at :: "nat \<Rightarrow> 'a list \<Rightarrow> 'a list" where
  "remove_at i xs = take i xs @ drop (Suc i) xs"

definition insert_at :: "nat \<Rightarrow> 'a \<Rightarrow> 'a list \<Rightarrow> 'a list" where
  "insert_at i x xs = take i xs @ x # drop i xs"

fun iter_position :: "('a \<Rightarrow> bool) \<Rightarrow> 'a list \<Rightarrow> nat option" where
  "iter_position p [] = None"
| "iter_position p (x # xs) = (if p x then Some 0 else map_option Suc (iter_position p xs))"

text \<open>\<open>Iterator::min_by_key\<close>: the first of the least.\<close>

fun min_by_key :: "('a \<Rightarrow> nat) \<Rightarrow> 'a list \<Rightarrow> 'a option" where
  "min_by_key f [] = None"
| "min_by_key f (x # xs) =
     (case min_by_key f xs of None \<Rightarrow> Some x | Some y \<Rightarrow> if f y < f x then Some y else Some x)"

text \<open>\<open>HashMap::retain\<close>.\<close>

definition retain :: "('k \<Rightarrow> 'v \<Rightarrow> bool) \<Rightarrow> ('k \<times> 'v) list \<Rightarrow> ('k \<times> 'v) list" where
  "retain p m = filter (\<lambda>(k, v). p k v) m"

section \<open>Lemmas\<close>

lemma min_by_key_in: "min_by_key f xs = Some x \<Longrightarrow> x \<in> set xs"
  by (induction xs arbitrary: x) (auto split: option.splits if_splits)

lemma min_by_key_None [simp]: "min_by_key f xs = None \<longleftrightarrow> xs = []"
  by (cases xs) (auto split: option.splits)

lemma min_by_key_least: "min_by_key f xs = Some x \<Longrightarrow> y \<in> set xs \<Longrightarrow> f x \<le> f y"
proof (induction xs arbitrary: x y)
  case (Cons a xs)
  show ?case
  proof (cases "min_by_key f xs")
    case None
    with Cons.prems show ?thesis by simp
  next
    case (Some m)
    have m: "f m \<le> f z" if "z \<in> set xs" for z using Cons.IH [OF Some that] .
    from Cons.prems(1) Some have x: "x = (if f m < f a then m else a)" by auto
    from Cons.prems(2) consider "y = a" | "y \<in> set xs" by auto
    then show ?thesis using m x by cases (force, fastforce)
  qed
qed simp

lemma iter_position_Some:
  "iter_position p xs = Some i \<Longrightarrow> i < length xs \<and> p (xs ! i) \<and> (\<forall>j < i. \<not> p (xs ! j))"
proof (induction xs arbitrary: i)
  case (Cons x xs)
  show ?case
  proof (cases "p x")
    case True
    with Cons.prems show ?thesis by simp
  next
    case False
    with Cons.prems obtain k where k: "iter_position p xs = Some k" "i = Suc k" by auto
    have "\<not> p ((x # xs) ! j)" if "j < Suc k" for j using that Cons.IH [OF k(1)] False by (cases j) auto
    then show ?thesis using Cons.IH [OF k(1)] k(2) by simp
  qed
qed simp

lemma iter_position_None: "iter_position p xs = None \<longleftrightarrow> (\<forall>x \<in> set xs. \<not> p x)"
  by (induction xs) auto

lemma remove_at_length [simp]: "i < length xs \<Longrightarrow> length (remove_at i xs) = length xs - 1"
  by (simp add: remove_at_def)

lemma set_remove_at: "set (remove_at i xs) \<subseteq> set xs"
  unfolding remove_at_def by (auto dest: in_set_takeD in_set_dropD)

lemma remove_at_insert [simp]: "i < length xs \<Longrightarrow> insert_at i (xs ! i) (remove_at i xs) = xs"
  by (simp add: insert_at_def remove_at_def id_take_nth_drop [symmetric])

lemma retain_keys: "set (map fst (retain p m)) \<subseteq> set (map fst m)"
  by (auto simp: retain_def)

lemma distinct_retain [simp]: "distinct (map fst m) \<Longrightarrow> distinct (map fst (retain p m))"
  unfolding retain_def by (induction m) auto

lemma length_retain: "length (retain p m) \<le> length m"
  by (simp add: retain_def)

lemma map_of_retain:
  "distinct (map fst m) \<Longrightarrow> map_of (retain p m) k = (case map_of m k of None \<Rightarrow> None | Some v \<Rightarrow> if p k v then Some v else None)"
proof (induction m)
  case (Cons e m)
  obtain a v where e: "e = (a, v)" by (cases e)
  have "map_of m a = None" using Cons.prems by (auto simp: e map_of_eq_None_iff)
  then show ?case using Cons by (auto simp: retain_def e split: option.splits)
qed (simp add: retain_def)

lemma length_alist_update: "length (AList.update k v m) = (if k \<in> fst ` set m then length m else Suc (length m))"
  by (induction m) auto

lemma length_alist_delete: "distinct (map fst m) \<Longrightarrow> k \<in> fst ` set m \<Longrightarrow> Suc (length (AList.delete k m)) = length m"
proof (induction m)
  case (Cons e m)
  have "filter (\<lambda>(k', v). k \<noteq> k') m = m" if "k \<notin> fst ` set m" using that by (force simp: filter_id_conv)
  then show ?case using Cons by (cases e) (auto simp: AList.delete_eq)
qed simp

lemma alist_update_in: "x \<in> set (AList.update k v m) \<Longrightarrow> x = (k, v) \<or> x \<in> set m"
  by (induction m) (auto split: if_splits)

lemma alist_delete_in: "x \<in> set (AList.delete k m) \<Longrightarrow> x \<in> set m"
  by (auto simp: AList.delete_eq)

end
