(* ===== verification/Rate_Limits.thy ===== *)
theory Rate_Limits
  imports Std
begin

text \<open>
  Two token buckets: the one that limits pairing and challenges per client address
  (\<open>sheprd-remote-control/src/auth/limits.rs\<close>) and the one of the push relay
  (\<open>sheprd-push-relay/src/limit.rs\<close>). The locale \<open>limiter\<close> is what both promise; each interprets it.
\<close>

section \<open>Buckets per client address\<close>

record Bucket =
  bk_tokens :: nat
  bk_refilled_ms :: nat
  bk_used_ms :: nat

record 'k RateLimiter =
  rl_buckets :: "('k \<times> Bucket) list"
  rl_capacity :: nat
  rl_max_keys :: nat
  rl_refill_ms :: nat

definition RateLimiter_new :: "nat \<Rightarrow> nat \<Rightarrow> nat \<Rightarrow> 'k RateLimiter" where
  "RateLimiter_new capacity refill_ms max_keys =
     \<lparr>rl_buckets = [], rl_capacity = max capacity 1, rl_max_keys = max max_keys 1, rl_refill_ms = max refill_ms 1\<rparr>"

definition refill :: "Bucket \<Rightarrow> nat \<Rightarrow> nat \<Rightarrow> nat \<Rightarrow> Bucket" where
  "refill bucket capacity refill_ms now_ms =
     (let earned = (now_ms - bk_refilled_ms bucket) div refill_ms
      in if earned = 0 then bucket
         else let sum = u64_saturating_add (bk_tokens bucket) earned;
                  tokens = min (if sum \<le> U32_MAX then sum else U32_MAX) capacity
              in bucket\<lparr>bk_tokens := tokens,
                        bk_refilled_ms := (if tokens = capacity then now_ms
                                           else u64_add (bk_refilled_ms bucket) (u64_mul earned refill_ms))\<rparr>)"

definition evict :: "'k RateLimiter \<Rightarrow> nat \<Rightarrow> 'k RateLimiter" where
  "evict self now_ms =
     (let refilled = map (\<lambda>(k, b). (k, refill b (rl_capacity self) (rl_refill_ms self) now_ms)) (rl_buckets self);
          kept = retain (\<lambda>k b. bk_tokens b < rl_capacity self) refilled
      in if length kept < rl_max_keys self then self\<lparr>rl_buckets := kept\<rparr>
         else case min_by_key (\<lambda>(k, b). bk_used_ms b) kept of
                None \<Rightarrow> self\<lparr>rl_buckets := kept\<rparr>
              | Some (oldest, _) \<Rightarrow> self\<lparr>rl_buckets := AList.delete oldest kept\<rparr>)"

definition RateLimiter_allow :: "'k RateLimiter \<Rightarrow> 'k \<Rightarrow> nat \<Rightarrow> 'k RateLimiter \<times> bool" where
  "RateLimiter_allow self key now_ms =
     (let self = (if map_of (rl_buckets self) key = None \<and> rl_max_keys self \<le> length (rl_buckets self)
                  then evict self now_ms else self);
          bucket = (case map_of (rl_buckets self) key of Some b \<Rightarrow> b
                    | None \<Rightarrow> \<lparr>bk_tokens = rl_capacity self, bk_refilled_ms = now_ms, bk_used_ms = now_ms\<rparr>);
          bucket = refill bucket (rl_capacity self) (rl_refill_ms self) now_ms;
          bucket = bucket\<lparr>bk_used_ms := max (bk_used_ms bucket) now_ms\<rparr>
      in if bk_tokens bucket = 0 then (self\<lparr>rl_buckets := AList.update key bucket (rl_buckets self)\<rparr>, False)
         else (self\<lparr>rl_buckets := AList.update key (bucket\<lparr>bk_tokens := bk_tokens bucket - 1\<rparr>) (rl_buckets self)\<rparr>, True))"

section \<open>Buckets of the push relay\<close>

definition MINUTE_MS :: nat where "MINUTE_MS = 60000"

definition MAX_KEYS :: nat where "MAX_KEYS = 65536"

record Rate =
  rt_burst :: nat
  rt_per_minute :: nat

record Rates =
  rs_device :: Rate
  rs_handle :: Rate
  rs_revoke :: Rate
  rs_source :: Rate

definition Rates_default :: Rates where
  "Rates_default = \<lparr>rs_device = \<lparr>rt_burst = 60, rt_per_minute = 120\<rparr>, rs_handle = \<lparr>rt_burst = 30, rt_per_minute = 60\<rparr>,
     rs_revoke = \<lparr>rt_burst = 30, rt_per_minute = 1\<rparr>, rs_source = \<lparr>rt_burst = 120, rt_per_minute = 600\<rparr>\<rparr>"

record MilliBucket =
  mb_milli :: nat
  mb_updated_ms :: nat

record 'k Limiter =
  lm_buckets :: "('k \<times> MilliBucket) list"
  lm_max_keys :: nat
  lm_rate :: Rate

definition Limiter_bounded :: "Rate \<Rightarrow> nat \<Rightarrow> 'k Limiter" where
  "Limiter_bounded rate max_keys = \<lparr>lm_buckets = [], lm_max_keys = max_keys, lm_rate = rate\<rparr>"

definition Limiter_new :: "Rate \<Rightarrow> 'k Limiter" where
  "Limiter_new rate = Limiter_bounded rate MAX_KEYS"

definition refilled :: "MilliBucket \<Rightarrow> Rate \<Rightarrow> nat \<Rightarrow> nat" where
  "refilled bucket rate now_ms =
     (let elapsed = now_ms - mb_updated_ms bucket;
          gained = u64_mul (u64_saturating_mul elapsed (rt_per_minute rate)) 1000 div MINUTE_MS
      in min (u64_saturating_add (mb_milli bucket) gained) (rt_burst rate * 1000))"

definition Limiter_allow :: "'k Limiter \<Rightarrow> 'k \<Rightarrow> nat \<Rightarrow> 'k Limiter \<times> bool" where
  "Limiter_allow self key now_ms =
     (let rate = lm_rate self;
          full = rt_burst rate * 1000;
          absent = (lm_max_keys self \<le> length (lm_buckets self) \<and> map_of (lm_buckets self) key = None);
          self = (if absent then self\<lparr>lm_buckets := retain (\<lambda>k b. refilled b rate now_ms < full) (lm_buckets self)\<rparr> else self)
      in if absent \<and> lm_max_keys self \<le> length (lm_buckets self) then (self, False)
         else let bucket = (case map_of (lm_buckets self) key of Some b \<Rightarrow> b
                            | None \<Rightarrow> \<lparr>mb_milli = full, mb_updated_ms = now_ms\<rparr>);
                  milli = refilled bucket rate now_ms
              in if milli < 1000
                 then (self\<lparr>lm_buckets := AList.update key \<lparr>mb_milli = milli, mb_updated_ms = now_ms\<rparr> (lm_buckets self)\<rparr>, False)
                 else (self\<lparr>lm_buckets := AList.update key \<lparr>mb_milli = milli - 1000, mb_updated_ms = now_ms\<rparr> (lm_buckets self)\<rparr>, True))"

datatype IpAddr = V4 "32 word" | V6 "128 word"

text \<open>\<open>IpAddr::to_canonical\<close>: an IPv4 address mapped into IPv6 is that address.\<close>

definition to_canonical :: "IpAddr \<Rightarrow> IpAddr" where
  "to_canonical address = (case address of V4 a \<Rightarrow> V4 a
     | V6 a \<Rightarrow> if drop_bit 32 a = 65535 then V4 (ucast a) else V6 a)"

definition source_key :: "IpAddr \<Rightarrow> IpAddr" where
  "source_key address = (case to_canonical address of
     V6 a \<Rightarrow> V6 (a AND NOT (ucast (-1 :: 64 word))) | V4 a \<Rightarrow> V4 a)"

section \<open>What a limiter promises\<close>

text \<open>
  A limiter grants a key what its budget until a time allows: a call takes the cost of a grant off the budget
  of its key and gives no key more. \<open>inv t\<close> holds of a limiter all of whose calls were made by time \<open>t\<close>, and
  \<open>ok\<close> says when a call keeps the books.
\<close>

fun calls :: "('s \<Rightarrow> 'k \<Rightarrow> nat \<Rightarrow> 's \<times> bool) \<Rightarrow> 's \<Rightarrow> ('k \<times> nat) list \<Rightarrow> 's \<times> ('k \<times> nat) list" where
  "calls allow s [] = (s, [])"
| "calls allow s ((k, now) # cs) =
     (let (s, granted) = allow s k now; (s, gs) = calls allow s cs
      in (s, if granted then (k, now) # gs else gs))"

fun allowed_calls :: "('s \<Rightarrow> 'k \<Rightarrow> nat \<Rightarrow> 's \<times> bool) \<Rightarrow> ('s \<Rightarrow> 'k \<Rightarrow> nat \<Rightarrow> bool) \<Rightarrow> 's \<Rightarrow> ('k \<times> nat) list \<Rightarrow> bool" where
  "allowed_calls allow ok s [] = True"
| "allowed_calls allow ok s ((k, now) # cs) = (ok s k now \<and> allowed_calls allow ok (fst (allow s k now)) cs)"

definition grants :: "'k \<Rightarrow> ('k \<times> nat) list \<Rightarrow> nat" where
  "grants k gs = length (filter (\<lambda>(k', now). k' = k) gs)"

locale limiter =
  fixes allow :: "'s \<Rightarrow> 'k \<Rightarrow> nat \<Rightarrow> 's \<times> bool"
    and ok :: "'s \<Rightarrow> 'k \<Rightarrow> nat \<Rightarrow> bool"
    and inv :: "nat \<Rightarrow> nat \<Rightarrow> 's \<Rightarrow> bool"
    and budget :: "nat \<Rightarrow> nat \<Rightarrow> 'k \<Rightarrow> 's \<Rightarrow> nat"
    and cost :: nat
  assumes inv_allow: "inv t b s \<Longrightarrow> t \<le> now \<Longrightarrow> now \<le> b \<Longrightarrow> inv now b (fst (allow s k now))"
    and budget_allow: "inv t b s \<Longrightarrow> t \<le> now \<Longrightarrow> now \<le> b \<Longrightarrow> ok s k now \<Longrightarrow>
      budget now b k' (fst (allow s k now)) + (if k' = k \<and> snd (allow s k now) then cost else 0) \<le> budget t b k' s"
begin

lemma calls_inv:
  assumes "inv t b s" "sorted (t # map snd cs)" "\<forall>now \<in> snd ` set cs. now \<le> b"
  shows "inv (List.last (t # map snd cs)) b (fst (calls allow s cs))"
  using assms
proof (induction cs arbitrary: s t)
  case (Cons c cs)
  obtain k' now where c: "c = (k', now)" by (cases c)
  have "t \<le> now" "now \<le> b" using Cons.prems by (auto simp: c)
  then show ?case using Cons.IH [of now "fst (allow s k' now)"] inv_allow [OF Cons.prems(1)] Cons.prems
    by (simp add: c split_beta Let_def)
qed simp

lemma granted_within_budget:
  assumes "inv t b s" "sorted (t # map snd cs)" "\<forall>now \<in> snd ` set cs. now \<le> b" "allowed_calls allow ok s cs"
  shows "cost * grants k (snd (calls allow s cs)) \<le> budget t b k s"
  using assms
proof (induction cs arbitrary: s t)
  case Nil
  then show ?case by (simp add: grants_def)
next
  case (Cons c cs)
  obtain k' now where c: "c = (k', now)" by (cases c)
  let ?s = "fst (allow s k' now)"
  have le: "t \<le> now" "now \<le> b" using Cons.prems by (auto simp: c)
  have "cost * grants k (snd (calls allow ?s cs)) \<le> budget now b k ?s"
    using Cons.IH [of now ?s] inv_allow [OF Cons.prems(1) le] Cons.prems by (simp add: c)
  moreover have "budget now b k ?s + (if k = k' \<and> snd (allow s k' now) then cost else 0) \<le> budget t b k s"
    using budget_allow [OF Cons.prems(1) le] Cons.prems(4) by (simp add: c)
  ultimately show ?case by (auto simp: c grants_def split_beta Let_def split: if_splits)
qed

end

section \<open>The buckets per address keep it\<close>

text \<open>Whether a call leaves out the step that forgets a key which is still being limited.\<close>

definition has_room :: "'k RateLimiter \<Rightarrow> 'k \<Rightarrow> nat \<Rightarrow> bool" where
  "has_room self key now_ms \<longleftrightarrow> map_of (rl_buckets self) key \<noteq> None \<or> length (rl_buckets self) < rl_max_keys self \<or>
     length (filter (\<lambda>(k, b). bk_tokens (refill b (rl_capacity self) (rl_refill_ms self) now_ms) < rl_capacity self)
       (rl_buckets self)) < rl_max_keys self"

definition limiter_inv :: "nat \<Rightarrow> nat \<Rightarrow> 'k RateLimiter \<Rightarrow> bool" where
  "limiter_inv t b self \<longleftrightarrow> b \<le> U64_MAX \<and> 1 \<le> rl_capacity self \<and> rl_capacity self \<le> U32_MAX \<and> 1 \<le> rl_refill_ms self \<and>
     1 \<le> rl_max_keys self \<and> length (rl_buckets self) \<le> rl_max_keys self \<and> distinct (map fst (rl_buckets self)) \<and>
     (\<forall>(k, bucket) \<in> set (rl_buckets self). bk_tokens bucket < rl_capacity self \<and> bk_refilled_ms bucket \<le> t)"

definition bucket_budget :: "nat \<Rightarrow> nat \<Rightarrow> nat \<Rightarrow> nat \<Rightarrow> Bucket \<Rightarrow> nat" where
  "bucket_budget cap r t b bucket =
     (let bucket' = refill bucket cap r t in bk_tokens bucket' + (b - bk_refilled_ms bucket') div r)"

definition limiter_budget :: "nat \<Rightarrow> nat \<Rightarrow> 'k \<Rightarrow> 'k RateLimiter \<Rightarrow> nat" where
  "limiter_budget t b k self = (case map_of (rl_buckets self) k of
     None \<Rightarrow> rl_capacity self + (b - t) div rl_refill_ms self
   | Some bucket \<Rightarrow> bucket_budget (rl_capacity self) (rl_refill_ms self) t b bucket)"

lemma refill_cases:
  assumes "bk_tokens bucket < cap" "cap \<le> U32_MAX" "now \<le> U64_MAX" "1 \<le> r"
  shows "refill bucket cap r now =
    (let e = (now - bk_refilled_ms bucket) div r
     in if bk_tokens bucket + e < cap
        then bucket\<lparr>bk_tokens := bk_tokens bucket + e, bk_refilled_ms := bk_refilled_ms bucket + e * r\<rparr>
        else bucket\<lparr>bk_tokens := cap, bk_refilled_ms := now\<rparr>)"
proof -
  let ?e = "(now - bk_refilled_ms bucket) div r"
  have e: "?e * r \<le> now - bk_refilled_ms bucket" using div_times_less_eq_dividend by blast
  have max: "U32_MAX \<le> U64_MAX" "U64_MAX < 2 ^ 64" by (simp_all add: U32_MAX_def U64_MAX_def)
  show ?thesis
  proof (cases "?e = 0")
    case True
    then show ?thesis using assms by (simp add: refill_def)
  next
    case False
    then have "bk_refilled_ms bucket \<le> now" by (cases "bk_refilled_ms bucket \<le> now") auto
    then have "bk_refilled_ms bucket + ?e * r \<le> now" using e by linarith
    then have "u64_add (bk_refilled_ms bucket) (u64_mul ?e r) = bk_refilled_ms bucket + ?e * r"
      using assms max by (simp add: u64_add_def u64_mul_def)
    then show ?thesis using assms max False by (auto simp: refill_def u64_saturating_add_def Let_def min_def)
  qed
qed

lemma refill_facts:
  assumes "bk_tokens bucket < cap" "cap \<le> U32_MAX" "now \<le> U64_MAX" "1 \<le> r" "bk_refilled_ms bucket \<le> now"
  shows "bk_tokens (refill bucket cap r now) \<le> cap" "bk_refilled_ms (refill bucket cap r now) \<le> now"
    "bk_tokens (refill bucket cap r now) = cap \<Longrightarrow> bk_refilled_ms (refill bucket cap r now) = now"
    "(now - bk_refilled_ms (refill bucket cap r now)) div r = 0"
proof -
  let ?e = "(now - bk_refilled_ms bucket) div r"
  have split: "now - bk_refilled_ms bucket = ?e * r + (now - bk_refilled_ms bucket) mod r" by simp
  have "(now - bk_refilled_ms bucket) mod r < r" using assms(4) by simp
  then have "now - (bk_refilled_ms bucket + ?e * r) < r" "bk_refilled_ms bucket + ?e * r \<le> now" using split assms(5) by linarith+
  then show "bk_tokens (refill bucket cap r now) \<le> cap" "bk_refilled_ms (refill bucket cap r now) \<le> now"
    "bk_tokens (refill bucket cap r now) = cap \<Longrightarrow> bk_refilled_ms (refill bucket cap r now) = now"
    "(now - bk_refilled_ms (refill bucket cap r now)) div r = 0"
    using assms by (auto simp: refill_cases Let_def)
qed

lemma div_shift: fixes r :: nat shows "0 < r \<Longrightarrow> e * r \<le> m \<Longrightarrow> e + (m - e * r) div r = m div r"
  by (metis add.commute div_mult_self1 le_add_diff_inverse2 less_not_refl2 mult.commute)

lemma div_add_le: fixes r :: nat shows "x div r + y div r \<le> (x + y) div r"
  by (simp add: div_add1_eq [of x y r])

lemma bucket_budget_mono:
  assumes b: "bk_tokens bucket < cap" "cap \<le> U32_MAX" "b \<le> U64_MAX" "1 \<le> r" "bk_refilled_ms bucket \<le> t" "t \<le> now" "now \<le> b"
  shows "bucket_budget cap r now b bucket \<le> bucket_budget cap r t b bucket"
    and "bucket_budget cap r t b bucket \<le> cap + (b - t) div r"
proof -
  let ?R = "bk_refilled_ms bucket" and ?T = "bk_tokens bucket"
  have steps: "(u - ?R) div r * r \<le> b - ?R" "(u - ?R) div r + (b - u) div r \<le> (b - ?R) div r" if "?R \<le> u" "u \<le> b" for u
    using that order_trans [OF div_times_less_eq_dividend diff_le_mono [OF that(2)]] div_add_le [of "u - ?R" r "b - u"] by auto
  have budget: "bucket_budget cap r u b bucket =
      (if ?T + (u - ?R) div r < cap then ?T + (b - ?R) div r else cap + (b - u) div r)" if "?R \<le> u" "u \<le> b" for u
  proof -
    let ?e = "(u - ?R) div r"
    have "refill bucket cap r u = (if ?T + ?e < cap then bucket\<lparr>bk_tokens := ?T + ?e, bk_refilled_ms := ?R + ?e * r\<rparr>
        else bucket\<lparr>bk_tokens := cap, bk_refilled_ms := u\<rparr>)"
      using b that refill_cases [of bucket cap u r] by (simp add: Let_def)
    moreover have "?e + (b - (?R + ?e * r)) div r = (b - ?R) div r"
      using b(4) div_shift [of r ?e "b - ?R"] steps(1) [OF that] by simp
    ultimately show ?thesis unfolding bucket_budget_def Let_def by (simp split: if_split)
  qed
  have up: "(t - ?R) div r \<le> (now - ?R) div r" "(b - now) div r \<le> (b - t) div r" using b by (simp_all add: div_le_mono)
  show "bucket_budget cap r now b bucket \<le> bucket_budget cap r t b bucket"
    using budget [of t] budget [of now] steps [of now] steps [of t] up b by auto
  have "(b - ?R) div r \<le> (t - ?R) div r + (b - t) div r + 1"
  proof -
    have "(b - ?R) div r = ((t - ?R) + (b - t)) div r" using b by simp
    also have "\<dots> \<le> (t - ?R) div r + (b - t) div r + 1"
    proof -
      have "((t - ?R) mod r + (b - t) mod r) div r < 2"
        using b mod_less_divisor [of r "t - ?R"] mod_less_divisor [of r "b - t"] by (intro less_mult_imp_div_less) linarith
      then show ?thesis by (simp add: div_add1_eq [of "t - ?R" "b - t" r])
    qed
    finally show ?thesis .
  qed
  then show "bucket_budget cap r t b bucket \<le> cap + (b - t) div r" using budget [of t] b by auto
qed

lemma bucket_budget_spend:
  assumes "bk_tokens bucket < cap" "cap \<le> U32_MAX" "b \<le> U64_MAX" "1 \<le> r" "bk_refilled_ms bucket \<le> now" "now \<le> b"
    and "tokens < cap" "tokens \<le> bk_tokens (refill bucket cap r now)"
  shows "bucket_budget cap r now b ((refill bucket cap r now)\<lparr>bk_used_ms := u, bk_tokens := tokens\<rparr>) +
      (bk_tokens (refill bucket cap r now) - tokens) = bucket_budget cap r now b bucket"
  using assms refill_facts [of bucket cap now r]
  by (simp add: bucket_budget_def refill_cases [of "(refill bucket cap r now)\<lparr>bk_used_ms := u, bk_tokens := tokens\<rparr>"] Let_def)

lemma evict_room:
  assumes "limiter_inv t b self" "t \<le> now" "now \<le> b" "has_room self key now"
    "map_of (rl_buckets self) key = None" "rl_max_keys self \<le> length (rl_buckets self)"
  shows "evict self now = self\<lparr>rl_buckets := retain (\<lambda>k b. bk_tokens b < rl_capacity self)
      (map (\<lambda>(k, b). (k, refill b (rl_capacity self) (rl_refill_ms self) now)) (rl_buckets self))\<rparr>"
proof -
  have "length (retain (\<lambda>k b. bk_tokens b < rl_capacity self)
      (map (\<lambda>(k, b). (k, refill b (rl_capacity self) (rl_refill_ms self) now)) (rl_buckets self))) < rl_max_keys self"
    using assms by (auto simp: has_room_def retain_def filter_map comp_def case_prod_beta')
  then show ?thesis by (simp add: evict_def Let_def)
qed

lemma evict_inv:
  assumes "limiter_inv t b self" "t \<le> now" "now \<le> b"
  shows "limiter_inv now b (evict self now)" "length (rl_buckets (evict self now)) < rl_max_keys (evict self now)"
    "rl_capacity (evict self now) = rl_capacity self" "rl_refill_ms (evict self now) = rl_refill_ms self"
    "rl_max_keys (evict self now) = rl_max_keys self"
    "set (map fst (rl_buckets (evict self now))) \<subseteq> set (map fst (rl_buckets self))"
proof -
  let ?bs = "map (\<lambda>(k, b). (k, refill b (rl_capacity self) (rl_refill_ms self) now)) (rl_buckets self)"
  let ?kept = "retain (\<lambda>k b. bk_tokens b < rl_capacity self) ?bs"
  have fst: "map fst ?bs = map fst (rl_buckets self)" by (simp add: split_beta)
  have old: "bk_tokens bucket < rl_capacity self" "bk_refilled_ms bucket \<le> now" if "(k, bucket) \<in> set (rl_buckets self)" for k bucket
    using assms that by (force simp: limiter_inv_def)+
  have kept: "\<forall>(k, bucket) \<in> set ?kept. bk_tokens bucket < rl_capacity self \<and> bk_refilled_ms bucket \<le> now"
    using assms old refill_facts(2) [of _ "rl_capacity self" now "rl_refill_ms self"]
    by (fastforce simp: retain_def limiter_inv_def)
  have len: "length ?kept \<le> rl_max_keys self"
    using assms length_retain [of _ ?bs] order_trans by (fastforce simp: limiter_inv_def)
  have dis: "distinct (map fst ?kept)" by (rule distinct_retain, unfold fst) (use assms in \<open>simp add: limiter_inv_def\<close>)
  have sub: "set (map fst ?kept) \<subseteq> set (map fst (rl_buckets self))" using retain_keys [of _ ?bs] fst by metis
  obtain kept' where ev: "evict self now = self\<lparr>rl_buckets := kept'\<rparr>" "set kept' \<subseteq> set ?kept" "distinct (map fst kept')"
    "length kept' < rl_max_keys self"
  proof (cases "length ?kept < rl_max_keys self")
    case True
    then show ?thesis using that [of ?kept] dis by (simp add: evict_def Let_def)
  next
    case False
    with assms have "?kept \<noteq> []" by (auto simp: limiter_inv_def)
    then obtain oldest bucket where m: "min_by_key (\<lambda>(k, b). bk_used_ms b) ?kept = Some (oldest, bucket)"
      by (metis min_by_key_None not_None_eq surj_pair)
    have "oldest \<in> fst ` set ?kept" using min_by_key_in [OF m] by force
    then have "length (AList.delete oldest ?kept) < rl_max_keys self" using length_alist_delete [OF dis] len by fastforce
    then show ?thesis using that [of "AList.delete oldest ?kept"] dis m False
      by (simp add: evict_def Let_def AList.distinct_delete) (auto simp: AList.delete_eq)
  qed
  show "limiter_inv now b (evict self now)" "length (rl_buckets (evict self now)) < rl_max_keys (evict self now)"
    "rl_capacity (evict self now) = rl_capacity self" "rl_refill_ms (evict self now) = rl_refill_ms self"
    "rl_max_keys (evict self now) = rl_max_keys self"
    using assms ev kept by (auto simp: limiter_inv_def)
  show "set (map fst (rl_buckets (evict self now))) \<subseteq> set (map fst (rl_buckets self))"
    using sub ev(1,2) by auto
qed

lemma allow_evicts:
  assumes "map_of (rl_buckets self) key = None" "rl_max_keys self \<le> length (rl_buckets self)" "limiter_inv t b self" "t \<le> now" "now \<le> b"
  shows "RateLimiter_allow self key now = RateLimiter_allow (evict self now) key now"
  using assms evict_inv(2,6) [OF assms(3-5)] unfolding RateLimiter_allow_def by (simp add: Let_def)

definition bucket_of :: "'k RateLimiter \<Rightarrow> 'k \<Rightarrow> nat \<Rightarrow> Bucket" where
  "bucket_of self key now = refill (case map_of (rl_buckets self) key of Some b \<Rightarrow> b
     | None \<Rightarrow> \<lparr>bk_tokens = rl_capacity self, bk_refilled_ms = now, bk_used_ms = now\<rparr>) (rl_capacity self) (rl_refill_ms self) now"

lemma allow_spends:
  assumes "map_of (rl_buckets self) key \<noteq> None \<or> length (rl_buckets self) < rl_max_keys self"
  shows "RateLimiter_allow self key now =
    (self\<lparr>rl_buckets := AList.update key ((bucket_of self key now)\<lparr>bk_used_ms := max (bk_used_ms (bucket_of self key now)) now,
        bk_tokens := bk_tokens (bucket_of self key now) - 1\<rparr>) (rl_buckets self)\<rparr>, 0 < bk_tokens (bucket_of self key now))"
proof -
  have no: "\<not> (map_of (rl_buckets self) key = None \<and> rl_max_keys self \<le> length (rl_buckets self))" using assms by auto
  have zero: "bk_tokens b = 0 \<Longrightarrow> b\<lparr>bk_used_ms := u, bk_tokens := 0\<rparr> = b\<lparr>bk_used_ms := u\<rparr>" for b u
    by (cases b) simp
  have "RateLimiter_allow self key now = (let b = bucket_of self key now; b = b\<lparr>bk_used_ms := max (bk_used_ms b) now\<rparr>
      in if bk_tokens b = 0 then (self\<lparr>rl_buckets := AList.update key b (rl_buckets self)\<rparr>, False)
         else (self\<lparr>rl_buckets := AList.update key (b\<lparr>bk_tokens := bk_tokens b - 1\<rparr>) (rl_buckets self)\<rparr>, True))"
    unfolding RateLimiter_allow_def bucket_of_def Let_def if_not_P [OF no] by (rule refl)
  then show ?thesis by (cases "bk_tokens (bucket_of self key now) = 0") (simp_all add: Let_def zero)
qed

lemma bucket_of_facts:
  assumes "limiter_inv t b self" "t \<le> now" "now \<le> b"
  shows "bk_tokens (bucket_of self key now) \<le> rl_capacity self" "bk_refilled_ms (bucket_of self key now) \<le> now"
    "bucket_budget (rl_capacity self) (rl_refill_ms self) now b ((bucket_of self key now)\<lparr>bk_used_ms := u, bk_tokens := bk_tokens (bucket_of self key now) - 1\<rparr>) +
       (if 0 < bk_tokens (bucket_of self key now) then 1 else 0) \<le> limiter_budget t b key self"
proof -
  note inv = assms(1) [unfolded limiter_inv_def]
  have "bk_tokens (bucket_of self key now) \<le> rl_capacity self \<and> bk_refilled_ms (bucket_of self key now) \<le> now \<and>
    bucket_budget (rl_capacity self) (rl_refill_ms self) now b ((bucket_of self key now)\<lparr>bk_used_ms := u, bk_tokens := bk_tokens (bucket_of self key now) - 1\<rparr>) +
       (if 0 < bk_tokens (bucket_of self key now) then 1 else 0) \<le> limiter_budget t b key self"
  proof (cases "map_of (rl_buckets self) key")
    case None
    have "(b - now) div rl_refill_ms self \<le> (b - t) div rl_refill_ms self" using assms by (simp add: div_le_mono)
    then show ?thesis using None inv assms by (auto simp: bucket_of_def limiter_budget_def bucket_budget_def refill_def)
  next
    case (Some bucket)
    then have bk: "bk_tokens bucket < rl_capacity self" "bk_refilled_ms bucket \<le> t"
      using inv map_of_SomeD [OF Some] by auto
    let ?b = "refill bucket (rl_capacity self) (rl_refill_ms self) now"
    have "bucket_budget (rl_capacity self) (rl_refill_ms self) now b (?b\<lparr>bk_used_ms := u, bk_tokens := bk_tokens ?b - 1\<rparr>) +
       (bk_tokens ?b - (bk_tokens ?b - 1)) = bucket_budget (rl_capacity self) (rl_refill_ms self) now b bucket"
      using bk inv assms refill_facts(1) [of bucket "rl_capacity self" now "rl_refill_ms self"]
      by (intro bucket_budget_spend) auto
    moreover have "bucket_budget (rl_capacity self) (rl_refill_ms self) now b bucket \<le> bucket_budget (rl_capacity self) (rl_refill_ms self) t b bucket"
      using bk inv assms by (intro bucket_budget_mono) auto
    ultimately show ?thesis
      using Some bk inv assms refill_facts(1,2) [of bucket "rl_capacity self" now "rl_refill_ms self"]
      by (auto simp: bucket_of_def limiter_budget_def)
  qed
  then show "bk_tokens (bucket_of self key now) \<le> rl_capacity self" "bk_refilled_ms (bucket_of self key now) \<le> now"
    "bucket_budget (rl_capacity self) (rl_refill_ms self) now b ((bucket_of self key now)\<lparr>bk_used_ms := u, bk_tokens := bk_tokens (bucket_of self key now) - 1\<rparr>) +
       (if 0 < bk_tokens (bucket_of self key now) then 1 else 0) \<le> limiter_budget t b key self"
    by blast+
qed

lemma limiter_inv_later: "limiter_inv t b self \<Longrightarrow> t \<le> now \<Longrightarrow> limiter_inv now b self"
  unfolding limiter_inv_def by fastforce

lemma budget_later:
  assumes "limiter_inv t b self" "t \<le> now" "now \<le> b"
  shows "limiter_budget now b k self \<le> limiter_budget t b k self"
proof (cases "map_of (rl_buckets self) k")
  case None
  then show ?thesis using assms by (simp add: limiter_budget_def div_le_mono)
next
  case (Some bucket)
  then have "bk_tokens bucket < rl_capacity self" "bk_refilled_ms bucket \<le> t"
    using assms(1) map_of_SomeD [OF Some] by (auto simp: limiter_inv_def)
  then show ?thesis using Some assms by (auto simp: limiter_budget_def limiter_inv_def intro!: bucket_budget_mono)
qed

lemma allow_inv_present:
  assumes "map_of (rl_buckets self) key \<noteq> None \<or> length (rl_buckets self) < rl_max_keys self"
    "limiter_inv t b self" "t \<le> now" "now \<le> b"
  shows "limiter_inv now b (fst (RateLimiter_allow self key now))"
proof -
  have "key \<in> fst ` set (rl_buckets self) \<or> length (rl_buckets self) < rl_max_keys self"
    using assms(1) by (auto simp: map_of_eq_None_iff)
  then show ?thesis
    using limiter_inv_later [OF assms(2,3)] bucket_of_facts(1,2) [OF assms(2-4), of key]
    unfolding limiter_inv_def by (auto simp: allow_spends [OF assms(1)] length_alist_update AList.distinct_update dest!: alist_update_in)
qed

lemma allow_inv:
  assumes "limiter_inv t b self" "t \<le> now" "now \<le> b"
  shows "limiter_inv now b (fst (RateLimiter_allow self key now))"
proof (cases "map_of (rl_buckets self) key \<noteq> None \<or> length (rl_buckets self) < rl_max_keys self")
  case True
  then show ?thesis using assms by (rule allow_inv_present)
next
  case False
  then show ?thesis
    using allow_evicts [of self key t b now] allow_inv_present [of "evict self now" key now b now] evict_inv(1,2) [OF assms] assms
    by simp
qed

lemma allow_budget_present:
  assumes "map_of (rl_buckets self) key \<noteq> None \<or> length (rl_buckets self) < rl_max_keys self"
    "limiter_inv t b self" "t \<le> now" "now \<le> b"
  shows "limiter_budget now b k (fst (RateLimiter_allow self key now)) +
      (if k = key \<and> snd (RateLimiter_allow self key now) then 1 else 0) \<le> limiter_budget t b k self"
proof (cases "k = key")
  case True
  then show ?thesis using bucket_of_facts(3) [OF assms(2-4), of key]
    by (simp add: allow_spends [OF assms(1)] limiter_budget_def [of now] AList.update_conv')
next
  case False
  then have "limiter_budget now b k (fst (RateLimiter_allow self key now)) = limiter_budget now b k self"
    by (simp add: allow_spends [OF assms(1)] limiter_budget_def AList.update_conv' split: option.split)
  then show ?thesis using False budget_later [OF assms(2-4)] by simp
qed

lemma evict_budget:
  assumes "limiter_inv t b self" "t \<le> now" "now \<le> b" "has_room self key now"
    "map_of (rl_buckets self) key = None" "rl_max_keys self \<le> length (rl_buckets self)"
  shows "limiter_budget now b k (evict self now) \<le> limiter_budget now b k self"
proof -
  note ev = evict_room [OF assms]
  note inv = assms(1) [unfolded limiter_inv_def]
  have map: "map_of (map (\<lambda>(k, b). (k, f b)) al) k = map_option f (map_of al k)" for f :: "Bucket \<Rightarrow> Bucket" and al and k :: 'a
    by (induction al) auto
  have "distinct (map fst (map (\<lambda>(k, b). (k, refill b (rl_capacity self) (rl_refill_ms self) now)) (rl_buckets self)))"
    using inv by (simp add: comp_def case_prod_beta')
  note look = map_of_retain [OF this, of _ k]
  show ?thesis
  proof (cases "map_of (rl_buckets self) k")
    case None
    then show ?thesis by (simp add: ev limiter_budget_def look map)
  next
    case (Some bucket)
    then have bk: "bk_tokens bucket < rl_capacity self" "bk_refilled_ms bucket \<le> now"
      using inv map_of_SomeD [OF Some] assms(2) by auto
    let ?b = "refill bucket (rl_capacity self) (rl_refill_ms self) now"
    note f = refill_facts [of bucket "rl_capacity self" now "rl_refill_ms self"]
    show ?thesis
    proof (cases "bk_tokens ?b < rl_capacity self")
      case True
      have "?b\<lparr>bk_used_ms := bk_used_ms ?b, bk_tokens := bk_tokens ?b\<rparr> = ?b" by simp
      then have "bucket_budget (rl_capacity self) (rl_refill_ms self) now b ?b = bucket_budget (rl_capacity self) (rl_refill_ms self) now b bucket"
        using bucket_budget_spend [of bucket "rl_capacity self" b "rl_refill_ms self" now "bk_tokens ?b" "bk_used_ms ?b"]
          True bk inv assms(3) by simp
      then show ?thesis using True Some by (simp add: ev limiter_budget_def look map)
    next
      case False
      then have "bk_tokens ?b = rl_capacity self" "bk_refilled_ms ?b = now" using f bk inv assms(3) by auto
      then show ?thesis using False Some by (simp add: ev limiter_budget_def look map bucket_budget_def)
    qed
  qed
qed

interpretation pairing: limiter RateLimiter_allow has_room limiter_inv limiter_budget 1
proof (unfold_locales, goal_cases)
  case (1 t b s now k)
  then show ?case by (rule allow_inv)
next
  case (2 t b s now k k')
  show ?case
  proof (cases "map_of (rl_buckets s) k \<noteq> None \<or> length (rl_buckets s) < rl_max_keys s")
    case True
    then show ?thesis using 2 by (intro allow_budget_present)
  next
    case False
    have "limiter_budget now b k' (evict s now) \<le> limiter_budget t b k' s"
      using 2 False evict_budget [of t b s now k k'] budget_later [of t b s now k'] by (auto simp: not_less)
    then show ?thesis
      using 2 False allow_evicts [of s k t b now] evict_inv(1,2) [OF 2(1-3)] allow_budget_present [of "evict s now" k now b now k']
      by (simp add: not_less)
  qed
qed

lemma limiter_budget_le:
  assumes "limiter_inv t b self" "t \<le> b"
  shows "limiter_budget t b k self \<le> rl_capacity self + (b - t) div rl_refill_ms self"
proof (cases "map_of (rl_buckets self) k")
  case None
  then show ?thesis by (simp add: limiter_budget_def)
next
  case (Some bucket)
  then have "bk_tokens bucket < rl_capacity self" "bk_refilled_ms bucket \<le> t"
    using assms(1) map_of_SomeD [OF Some] by (auto simp: limiter_inv_def)
  then show ?thesis using Some assms by (auto simp: limiter_budget_def limiter_inv_def intro!: bucket_budget_mono)
qed

lemma allow_settings:
  "rl_capacity (fst (RateLimiter_allow self key now)) = rl_capacity self"
  "rl_refill_ms (fst (RateLimiter_allow self key now)) = rl_refill_ms self"
  "rl_max_keys (fst (RateLimiter_allow self key now)) = rl_max_keys self"
proof -
  have e: "rl_capacity (evict self now) = rl_capacity self" "rl_refill_ms (evict self now) = rl_refill_ms self"
    "rl_max_keys (evict self now) = rl_max_keys self"
    by (auto simp: evict_def Let_def split: option.split)
  show "rl_capacity (fst (RateLimiter_allow self key now)) = rl_capacity self"
    "rl_refill_ms (fst (RateLimiter_allow self key now)) = rl_refill_ms self"
    "rl_max_keys (fst (RateLimiter_allow self key now)) = rl_max_keys self"
    by (simp_all add: RateLimiter_allow_def Let_def e)
qed

lemma calls_settings:
  "rl_capacity (fst (calls RateLimiter_allow self cs)) = rl_capacity self \<and>
   rl_refill_ms (fst (calls RateLimiter_allow self cs)) = rl_refill_ms self \<and>
   rl_max_keys (fst (calls RateLimiter_allow self cs)) = rl_max_keys self"
  by (induction cs arbitrary: self) (auto simp: split_beta Let_def allow_settings)

lemma limiter_new_inv:
  "capacity \<le> U32_MAX \<Longrightarrow> b \<le> U64_MAX \<Longrightarrow> limiter_inv t b (RateLimiter_new capacity refill_ms max_keys)"
  by (auto simp: limiter_inv_def RateLimiter_new_def U32_MAX_def)

section \<open>The buckets of the relay keep it\<close>

definition relay_inv :: "nat \<Rightarrow> nat \<Rightarrow> 'k Limiter \<Rightarrow> bool" where
  "relay_inv t b self \<longleftrightarrow> b * rt_per_minute (lm_rate self) * 1000 \<le> U64_MAX \<and> rt_burst (lm_rate self) \<le> U32_MAX \<and>
     distinct (map fst (lm_buckets self)) \<and> length (lm_buckets self) \<le> lm_max_keys self \<and>
     (\<forall>(k, bucket) \<in> set (lm_buckets self). mb_updated_ms bucket \<le> t)"

text \<open>In units of a thousandth of a push over a minute of milliseconds, so that nothing is rounded.\<close>

definition milli_budget :: "Rate \<Rightarrow> nat \<Rightarrow> nat \<Rightarrow> MilliBucket \<Rightarrow> nat" where
  "milli_budget rate t b bucket =
     min (mb_milli bucket * MINUTE_MS + (t - mb_updated_ms bucket) * rt_per_minute rate * 1000) (rt_burst rate * 1000 * MINUTE_MS)
       + (b - t) * rt_per_minute rate * 1000"

definition relay_budget :: "nat \<Rightarrow> nat \<Rightarrow> 'k \<Rightarrow> 'k Limiter \<Rightarrow> nat" where
  "relay_budget t b k self = (let rate = lm_rate self in case map_of (lm_buckets self) k of
     None \<Rightarrow> rt_burst rate * 1000 * MINUTE_MS + (b - t) * rt_per_minute rate * 1000
   | Some bucket \<Rightarrow> milli_budget rate t b bucket)"

lemma refilled_exact:
  assumes "now * rt_per_minute rate * 1000 \<le> U64_MAX" "rt_burst rate \<le> U32_MAX"
  shows "refilled bucket rate now = min (mb_milli bucket + (now - mb_updated_ms bucket) * rt_per_minute rate * 1000 div MINUTE_MS) (rt_burst rate * 1000)"
proof -
  let ?e = "now - mb_updated_ms bucket"
  have "?e * rt_per_minute rate * 1000 \<le> now * rt_per_minute rate * 1000" by (intro mult_le_mono) auto
  then have e: "?e * rt_per_minute rate * 1000 \<le> U64_MAX" using assms(1) by (rule order_trans)
  have "u64_mul (min x U64_MAX) 1000 = x * 1000" if "x * 1000 \<le> U64_MAX" for x
    using that by (simp add: u64_mul_def U64_MAX_def min_def)
  then have "u64_mul (u64_saturating_mul ?e (rt_per_minute rate)) 1000 = ?e * rt_per_minute rate * 1000"
    using e unfolding u64_saturating_mul_def by blast
  moreover have "rt_burst rate * 1000 \<le> U64_MAX" using assms(2) by (simp add: U32_MAX_def U64_MAX_def)
  ultimately show ?thesis by (simp add: refilled_def u64_saturating_add_def Let_def)
qed

lemma refilled_budget:
  assumes "now * rt_per_minute rate * 1000 \<le> U64_MAX" "rt_burst rate \<le> U32_MAX" "mb_updated_ms bucket \<le> t" "t \<le> now" "now \<le> b"
  shows "refilled bucket rate now * MINUTE_MS + (b - now) * rt_per_minute rate * 1000 \<le> milli_budget rate t b bucket"
    and "milli_budget rate now b bucket \<le> milli_budget rate t b bucket"
    and "refilled bucket rate now \<le> rt_burst rate * 1000"
proof -
  let ?p = "rt_per_minute rate * 1000" and ?F = "rt_burst rate * 1000 * MINUTE_MS"
  have n: "now - mb_updated_ms bucket = (t - mb_updated_ms bucket) + (now - t)" "b - t = (now - t) + (b - now)" using assms by auto
  have split: "(now - mb_updated_ms bucket) * ?p = (t - mb_updated_ms bucket) * ?p + (now - t) * ?p"
    "(b - t) * ?p = (now - t) * ?p + (b - now) * ?p"
    unfolding n by (simp_all only: add_mult_distrib)
  show mono: "milli_budget rate now b bucket \<le> milli_budget rate t b bucket"
    unfolding milli_budget_def mult.assoc split by simp
  let ?g = "(now - mb_updated_ms bucket) * rt_per_minute rate * 1000"
  have "(mb_milli bucket + ?g div MINUTE_MS) * MINUTE_MS \<le> mb_milli bucket * MINUTE_MS + ?g"
    unfolding add_mult_distrib by (rule add_left_mono [OF div_times_less_eq_dividend])
  then have "refilled bucket rate now * MINUTE_MS \<le> min (mb_milli bucket * MINUTE_MS + ?g) ?F"
    unfolding refilled_exact [OF assms(1,2)] nat_mult_min_left by (intro min.mono) simp_all
  then show "refilled bucket rate now * MINUTE_MS + (b - now) * rt_per_minute rate * 1000 \<le> milli_budget rate t b bucket"
    using mono unfolding milli_budget_def by linarith
  show "refilled bucket rate now \<le> rt_burst rate * 1000" unfolding refilled_exact [OF assms(1,2)] by simp
qed

lemma relay_later: "relay_inv t b self \<Longrightarrow> t \<le> now \<Longrightarrow> relay_inv now b self"
  unfolding relay_inv_def by fastforce

lemma relay_budget_later:
  assumes "relay_inv t b self" "t \<le> now" "now \<le> b"
  shows "relay_budget now b k self \<le> relay_budget t b k self"
proof (cases "map_of (lm_buckets self) k")
  case None
  then show ?thesis using assms by (simp add: relay_budget_def Let_def diff_le_mono2)
next
  case (Some bucket)
  have "now * rt_per_minute (lm_rate self) * 1000 \<le> b * rt_per_minute (lm_rate self) * 1000" using assms by (intro mult_le_mono) auto
  then have "now * rt_per_minute (lm_rate self) * 1000 \<le> U64_MAX" using assms(1) unfolding relay_inv_def by linarith
  moreover have "mb_updated_ms bucket \<le> t" using assms map_of_SomeD [OF Some] by (auto simp: relay_inv_def)
  ultimately show ?thesis using Some assms refilled_budget(2) [of now "lm_rate self" bucket t b]
    by (simp add: relay_budget_def relay_inv_def Let_def)
qed

lemma relay_drops_full:
  assumes "relay_inv t b self" "t \<le> now" "now \<le> b"
    and "bs = retain (\<lambda>k b. refilled b (lm_rate self) now < rt_burst (lm_rate self) * 1000) (lm_buckets self)"
  shows "relay_inv now b (self\<lparr>lm_buckets := bs\<rparr>)" "relay_budget now b k (self\<lparr>lm_buckets := bs\<rparr>) \<le> relay_budget t b k self"
proof -
  note inv = assms(1) [unfolded relay_inv_def]
  show "relay_inv now b (self\<lparr>lm_buckets := bs\<rparr>)"
    using relay_later [OF assms(1,2)] length_retain [of _ "lm_buckets self"] order_trans
    by (auto simp: relay_inv_def assms(4) retain_def intro: distinct_map_filter order_trans [OF length_filter_le])
  have look: "map_of bs k = (case map_of (lm_buckets self) k of None \<Rightarrow> None
      | Some v \<Rightarrow> if refilled v (lm_rate self) now < rt_burst (lm_rate self) * 1000 then Some v else None)"
    unfolding assms(4) by (rule map_of_retain) (use inv in blast)
  show "relay_budget now b k (self\<lparr>lm_buckets := bs\<rparr>) \<le> relay_budget t b k self"
  proof (cases "map_of (lm_buckets self) k")
    case None
    then show ?thesis using look relay_budget_later [OF assms(1-3), of k] by (simp add: relay_budget_def)
  next
    case (Some bucket)
    have "now * rt_per_minute (lm_rate self) * 1000 \<le> b * rt_per_minute (lm_rate self) * 1000" using assms by (intro mult_le_mono) auto
    then have up: "now * rt_per_minute (lm_rate self) * 1000 \<le> U64_MAX" using inv by linarith
    have "mb_updated_ms bucket \<le> t" using inv map_of_SomeD [OF Some] by auto
    note r = refilled_budget [OF up _ this assms(2,3)]
    show ?thesis
    proof (cases "refilled bucket (lm_rate self) now < rt_burst (lm_rate self) * 1000")
      case True
      then show ?thesis using look Some relay_budget_later [OF assms(1-3), of k] by (simp add: relay_budget_def)
    next
      case False
      then have "refilled bucket (lm_rate self) now = rt_burst (lm_rate self) * 1000" using r(3) inv by simp
      then show ?thesis using r(1) inv look Some False by (simp add: relay_budget_def Let_def)
    qed
  qed
qed

text \<open>The call once the table has a place for its key.\<close>

definition relay_spend :: "'k Limiter \<Rightarrow> 'k \<Rightarrow> nat \<Rightarrow> 'k Limiter \<times> bool" where
  "relay_spend self key now =
     (let bucket = (case map_of (lm_buckets self) key of Some b \<Rightarrow> b
                    | None \<Rightarrow> \<lparr>mb_milli = rt_burst (lm_rate self) * 1000, mb_updated_ms = now\<rparr>);
          milli = refilled bucket (lm_rate self) now;
          granted = (1000 \<le> milli)
      in (self\<lparr>lm_buckets := AList.update key \<lparr>mb_milli = (if granted then milli - 1000 else milli), mb_updated_ms = now\<rparr> (lm_buckets self)\<rparr>, granted))"

lemma relay_spend_law:
  assumes "relay_inv t b self" "t \<le> now" "now \<le> b" "map_of (lm_buckets self) key \<noteq> None \<or> length (lm_buckets self) < lm_max_keys self"
  shows "relay_inv now b (fst (relay_spend self key now))"
    "relay_budget now b k (fst (relay_spend self key now)) + (if k = key \<and> snd (relay_spend self key now) then 1000 * MINUTE_MS else 0)
       \<le> relay_budget t b k self"
proof -
  note inv = assms(1) [unfolded relay_inv_def]
  have room: "key \<in> fst ` set (lm_buckets self) \<or> length (lm_buckets self) < lm_max_keys self"
    using assms(4) by (auto simp: map_of_eq_None_iff)
  show "relay_inv now b (fst (relay_spend self key now))"
    using relay_later [OF assms(1,2)] room
    by (auto simp: relay_inv_def relay_spend_def Let_def length_alist_update AList.distinct_update dest!: alist_update_in)
  show "relay_budget now b k (fst (relay_spend self key now)) + (if k = key \<and> snd (relay_spend self key now) then 1000 * MINUTE_MS else 0)
       \<le> relay_budget t b k self"
  proof (cases "k = key")
    case False
    have "relay_budget now b k (fst (relay_spend self key now)) = relay_budget now b k self"
      using False by (simp add: relay_spend_def relay_budget_def Let_def AList.update_conv' split: option.split)
    then show ?thesis using False relay_budget_later [OF assms(1-3)] by simp
  next
    case True
    define bucket where "bucket = (case map_of (lm_buckets self) key of Some b \<Rightarrow> b
      | None \<Rightarrow> \<lparr>mb_milli = rt_burst (lm_rate self) * 1000, mb_updated_ms = now\<rparr>)"
    define milli where "milli = refilled bucket (lm_rate self) now"
    have "now * rt_per_minute (lm_rate self) * 1000 \<le> b * rt_per_minute (lm_rate self) * 1000" using assms by (intro mult_le_mono) auto
    then have up: "now * rt_per_minute (lm_rate self) * 1000 \<le> U64_MAX" using inv by linarith
    have "milli * MINUTE_MS + (b - now) * rt_per_minute (lm_rate self) * 1000 \<le> relay_budget t b key self"
    proof (cases "map_of (lm_buckets self) key")
      case None
      have "(b - now) * rt_per_minute (lm_rate self) * 1000 \<le> (b - t) * rt_per_minute (lm_rate self) * 1000"
        using assms by (intro mult_le_mono) auto
      moreover have "milli \<le> rt_burst (lm_rate self) * 1000"
        unfolding milli_def refilled_exact [OF up conjunct1 [OF conjunct2 [OF inv]]] by simp
      ultimately show ?thesis using None by (simp add: relay_budget_def Let_def add_mono)
    next
      case (Some b')
      then have "mb_updated_ms b' \<le> t" using inv map_of_SomeD [OF Some] by auto
      then show ?thesis using refilled_budget(1) [OF up _ _ assms(2,3), of b'] inv Some
        by (simp add: milli_def bucket_def relay_budget_def Let_def)
    qed
    moreover have "relay_budget now b key (fst (relay_spend self key now)) \<le>
        (if 1000 \<le> milli then milli - 1000 else milli) * MINUTE_MS + (b - now) * rt_per_minute (lm_rate self) * 1000"
      by (simp add: relay_spend_def relay_budget_def milli_budget_def Let_def AList.update_conv' bucket_def [symmetric] milli_def [symmetric])
    moreover have "snd (relay_spend self key now) = (1000 \<le> milli)"
      by (simp add: relay_spend_def Let_def bucket_def [symmetric] milli_def [symmetric])
    moreover have "1000 \<le> milli \<Longrightarrow> (milli - 1000) * MINUTE_MS + 1000 * MINUTE_MS = milli * MINUTE_MS"
      by (simp add: diff_mult_distrib MINUTE_MS_def)
    ultimately show ?thesis using True by auto
  qed
qed

lemma Limiter_allow_cases:
  fixes self :: "'k Limiter" and now :: nat
  defines "kept \<equiv> self\<lparr>lm_buckets := retain (\<lambda>k b. refilled b (lm_rate self) now < rt_burst (lm_rate self) * 1000) (lm_buckets self)\<rparr>"
  shows "Limiter_allow self key now =
    (if map_of (lm_buckets self) key \<noteq> None \<or> length (lm_buckets self) < lm_max_keys self then relay_spend self key now
     else if length (lm_buckets kept) < lm_max_keys kept then relay_spend kept key now
     else (kept, False))"
  unfolding Limiter_allow_def relay_spend_def kept_def Let_def by (simp add: not_less not_le cong: option.case_cong if_cong)

interpretation relay: limiter Limiter_allow "\<lambda>s k now. True" relay_inv relay_budget "1000 * MINUTE_MS"
proof (unfold_locales, goal_cases)
  case (1 t b s now k)
  show ?case using relay_spend_law(1) [OF 1] relay_drops_full(1) [OF 1 refl] relay_spend_law(1) [OF relay_drops_full(1) [OF 1 refl]] 1
    by (simp add: Limiter_allow_cases)
next
  case (2 t b s now k k')
  note drop = relay_drops_full [OF 2(1-3) refl]
  show ?case
  proof (cases "map_of (lm_buckets s) k \<noteq> None \<or> length (lm_buckets s) < lm_max_keys s")
    case True
    then show ?thesis using relay_spend_law(2) [OF 2(1-3) True] by (simp add: Limiter_allow_cases)
  next
    case False
    show ?thesis
      using False drop(2) [where k = k'] relay_spend_law(2) [OF drop(1) order_refl 2(3), where key = k and k = k']
      by (auto simp: Limiter_allow_cases intro: order_trans)
  qed
qed

lemma relay_settings: "lm_rate (fst (Limiter_allow self key now)) = lm_rate self" "lm_max_keys (fst (Limiter_allow self key now)) = lm_max_keys self"
  by (simp_all add: Limiter_allow_def Let_def)

lemma relay_calls_settings: "lm_rate (fst (calls Limiter_allow self cs)) = lm_rate self \<and> lm_max_keys (fst (calls Limiter_allow self cs)) = lm_max_keys self"
  by (induction cs arbitrary: self) (auto simp: split_beta Let_def relay_settings)

lemma allowed_all [simp]: "allowed_calls allow (\<lambda>s k now. True) s cs"
  by (induction cs arbitrary: s) auto

lemma relay_budget_le: "relay_budget a b k self \<le> rt_burst (lm_rate self) * 1000 * MINUTE_MS + (b - a) * rt_per_minute (lm_rate self) * 1000"
  by (auto simp: relay_budget_def milli_budget_def Let_def split: option.split)

text \<open>
  The refill of a relay bucket is rounded down to a thousandth at every call, and the call counts the whole time
  as used: at one push a minute, a key that asks again within 60 milliseconds earns nothing in between.
\<close>

lemma refill_rounds_away:
  assumes "map_of (lm_buckets self) key = Some \<lparr>mb_milli = 0, mb_updated_ms = t\<rparr>" "rt_per_minute (lm_rate self) = 1" "d < 60"
  shows "Limiter_allow self key (t + d) = (self\<lparr>lm_buckets := AList.update key \<lparr>mb_milli = 0, mb_updated_ms = t + d\<rparr> (lm_buckets self)\<rparr>, False)"
proof -
  have "u64_mul (u64_saturating_mul d 1) 1000 = d * 1000" using assms(3) by (simp add: u64_mul_def u64_saturating_mul_def U64_MAX_def)
  then show ?thesis using assms by (simp add: Limiter_allow_cases relay_spend_def refilled_def Let_def MINUTE_MS_def u64_saturating_add_def)
qed

lemma relay_calls_bound:
  fixes k :: 'k and window :: "('k \<times> nat) list"
  assumes "rt_burst rate \<le> U32_MAX" "b * rt_per_minute rate * 1000 \<le> U64_MAX" "sorted (map snd (earlier @ window))"
    "\<forall>t \<in> snd ` set earlier. t \<le> a" "\<forall>t \<in> snd ` set window. a \<le> t \<and> t \<le> b" "a \<le> b"
    and self: "self = fst (calls Limiter_allow (Limiter_bounded rate max_keys) earlier)"
  shows "grants k (snd (calls Limiter_allow self window)) \<le> rt_burst rate + (b - a) * rt_per_minute rate div MINUTE_MS \<and>
    length (lm_buckets (fst (calls Limiter_allow self window))) \<le> max_keys"
proof -
  have srt: "sorted (map snd earlier)" "sorted (map snd window)" using assms(3) by (auto simp: sorted_append)
  have "relay_inv (List.last (0 # map snd earlier)) b self" unfolding self
    using assms(1,2,4,6) srt by (intro relay.calls_inv) (force simp: relay_inv_def Limiter_bounded_def)+
  moreover have "List.last (0 # map snd earlier) \<le> a" using assms(4) by (cases earlier rule: rev_cases) auto
  ultimately have inv: "relay_inv a b self" by (rule relay_later)
  have settings: "lm_rate self = rate" "lm_max_keys self = max_keys"
    using relay_calls_settings [of "Limiter_bounded rate max_keys :: 'k Limiter" earlier] by (simp_all add: self Limiter_bounded_def)
  have run: "sorted (a # map snd window)" "\<forall>t \<in> snd ` set window. t \<le> b" using srt(2) assms(5) by auto
  let ?g = "grants k (snd (calls Limiter_allow self window))"
  have "1000 * MINUTE_MS * ?g \<le> rt_burst rate * 1000 * MINUTE_MS + (b - a) * rt_per_minute rate * 1000"
    using relay.granted_within_budget [OF inv run allowed_all, of k] relay_budget_le [of a b k self] by (simp add: settings)
  then have "?g * MINUTE_MS \<le> rt_burst rate * MINUTE_MS + (b - a) * rt_per_minute rate" by (simp add: MINUTE_MS_def)
  then have "?g * MINUTE_MS div MINUTE_MS \<le> (rt_burst rate * MINUTE_MS + (b - a) * rt_per_minute rate) div MINUTE_MS" by (rule div_le_mono)
  then have "?g \<le> rt_burst rate + (b - a) * rt_per_minute rate div MINUTE_MS" by (simp add: MINUTE_MS_def)
  moreover have "length (lm_buckets (fst (calls Limiter_allow self window))) \<le> max_keys"
    using relay.calls_inv [OF inv run] relay_calls_settings [of self window] by (simp add: relay_inv_def settings)
  ultimately show ?thesis by blast
qed

section \<open>Properties\<close>

text \<open>
  C30. However a client address spreads its requests, within any span of time it is granted at most the burst
  and one more for every refill interval of the span, for as long as no bucket has to be forgotten that is
  still short of tokens; and whatever is asked, the limiter remembers at most \<open>max_keys\<close> addresses.
\<close>

theorem rate_bound:
  fixes k :: 'k and window :: "('k \<times> nat) list"
  assumes "capacity \<le> U32_MAX" "b \<le> U64_MAX" "sorted (map snd (earlier @ window))"
    "\<forall>t \<in> snd ` set earlier. t \<le> a" "\<forall>t \<in> snd ` set window. a \<le> t \<and> t \<le> b" "a \<le> b"
    and self: "self = fst (calls RateLimiter_allow (RateLimiter_new capacity refill_ms max_keys) earlier)"
  shows "(allowed_calls RateLimiter_allow has_room self window \<longrightarrow>
      grants k (snd (calls RateLimiter_allow self window)) \<le> max capacity 1 + (b - a) div max refill_ms 1) \<and>
    length (rl_buckets (fst (calls RateLimiter_allow self window))) \<le> max max_keys 1"
proof -
  let ?new = "RateLimiter_new capacity refill_ms max_keys :: 'k RateLimiter"
  have srt: "sorted (map snd earlier)" "sorted (map snd window)" using assms(3) by (auto simp: sorted_append)
  have "limiter_inv (List.last (0 # map snd earlier)) b self" unfolding self
    using limiter_new_inv [OF assms(1,2)] srt assms(4,6) by (intro pairing.calls_inv) force+
  moreover have "List.last (0 # map snd earlier) \<le> a" using assms(4) by (cases earlier rule: rev_cases) auto
  ultimately have inv: "limiter_inv a b self" by (rule limiter_inv_later)
  have settings: "rl_capacity self = max capacity 1" "rl_refill_ms self = max refill_ms 1" "rl_max_keys self = max max_keys 1"
    using calls_settings [of ?new earlier] by (simp_all add: self RateLimiter_new_def)
  have run: "sorted (a # map snd window)" "\<forall>t \<in> snd ` set window. t \<le> b" using srt(2) assms(5) by auto
  have "grants k (snd (calls RateLimiter_allow self window)) \<le> max capacity 1 + (b - a) div max refill_ms 1"
    if "allowed_calls RateLimiter_allow has_room self window"
    using pairing.granted_within_budget [OF inv run that, of k] limiter_budget_le [OF inv assms(6), of k] by (simp add: settings)
  moreover have "length (rl_buckets (fst (calls RateLimiter_allow self window))) \<le> max max_keys 1"
    using pairing.calls_inv [OF inv run] calls_settings [of self window] by (simp add: limiter_inv_def settings)
  ultimately show ?thesis by blast
qed

lemmas limiter_eval = RateLimiter_new_def RateLimiter_allow_def has_room_def evict_def refill_def retain_def grants_def
  u64_saturating_add_def u64_add_def u64_mul_def u64_saturating_mul_def U32_MAX_def U64_MAX_def Let_def

theorem rate_bound_witness:
  "grants (1 :: nat) (snd (calls RateLimiter_allow (RateLimiter_new 2 1000 2) [(1, 0), (1, 10), (1, 20), (1, 1000)])) = 3 \<and>
   grants (1 :: nat) (snd (calls RateLimiter_allow (RateLimiter_new 2 1000 2) [(1, 0), (1, 10), (1, 20), (1, 1000)])) \<le> 3"
proof -
  let ?new = "RateLimiter_new 2 1000 2" and ?window = "[(1 :: nat, 0), (1, 10), (1, 20), (1, 1000 :: nat)]"
  have room: "allowed_calls RateLimiter_allow has_room ?new ?window" by (simp add: limiter_eval)
  have run: "snd (calls RateLimiter_allow ?new ?window) = [(1, 0), (1, 10), (1, 1000)]" by (simp add: limiter_eval)
  have "grants 1 (snd (calls RateLimiter_allow ?new ?window)) \<le> max 2 1 + (1000 - 0) div max 1000 1"
    by (rule rate_bound [of 2 1000 "[]" ?window 0 ?new 1000 2 1, THEN conjunct1, THEN mp, OF _ _ _ _ _ _ _ room])
      (simp_all add: U32_MAX_def U64_MAX_def)
  then show ?thesis unfolding run by (simp add: grants_def)
qed

text \<open>
  The push relay grants a key within any span of time at most its burst and its rate times the span, whatever
  other keys are used and however many: buckets are only dropped when they are full, and a key that finds no room
  is refused. It tracks at most \<open>max_keys\<close> keys.
\<close>

theorem relay_rate_bound:
  fixes k :: 'k and window :: "('k \<times> nat) list"
  assumes "rt_burst rate \<le> U32_MAX" "b * rt_per_minute rate * 1000 \<le> U64_MAX" "sorted (map snd (earlier @ window))"
    "\<forall>t \<in> snd ` set earlier. t \<le> a" "\<forall>t \<in> snd ` set window. a \<le> t \<and> t \<le> b" "a \<le> b"
    and self: "self = fst (calls Limiter_allow (Limiter_bounded rate max_keys) earlier)"
  shows "grants k (snd (calls Limiter_allow self window)) \<le> rt_burst rate + (b - a) * rt_per_minute rate div MINUTE_MS \<and>
    length (lm_buckets (fst (calls Limiter_allow self window))) \<le> max_keys"
  using relay_calls_bound [OF assms] .

lemmas relay_eval = Limiter_bounded_def Limiter_allow_def refilled_def MINUTE_MS_def limiter_eval

text \<open>
  The bucket of the relay takes an earlier time as its own, so a request that read the clock earlier and is counted
  later lets the time in between be credited again: here at two requests in one second, the bound is passed.
\<close>

lemma earlier_time_credited_again:
  "grants (1 :: nat) (snd (calls Limiter_allow (Limiter_bounded \<lparr>rt_burst = 1, rt_per_minute = 60\<rparr> 1)
     [(1, 0), (1, 1000), (1, 0), (1, 1000)])) = 3"
  by (simp add: relay_eval grants_def)

theorem relay_rate_bound_witness:
  "grants (1 :: nat) (snd (calls Limiter_allow (Limiter_bounded \<lparr>rt_burst = 2, rt_per_minute = 60\<rparr> 1)
      [(1, 0), (1, 10), (1, 20), (1, 1000)])) = 3 \<and> (3 :: nat) \<le> 2 + 1000 * 60 div 60000"
proof -
  let ?new = "Limiter_bounded \<lparr>rt_burst = 2, rt_per_minute = 60\<rparr> 1"
    and ?window = "[(1 :: nat, 0), (1, 10), (1, 20), (1, 1000 :: nat)]"
  have run: "snd (calls Limiter_allow ?new ?window) = [(1, 0), (1, 10), (1, 1000)]" by (simp add: relay_eval)
  have "grants 1 (snd (calls Limiter_allow ?new ?window)) \<le> rt_burst \<lparr>rt_burst = 2, rt_per_minute = 60\<rparr> +
      (1000 - 0) * rt_per_minute \<lparr>rt_burst = 2, rt_per_minute = 60\<rparr> div MINUTE_MS"
    by (rule relay_rate_bound [of _ 1000 "[]" ?window 0 ?new 1 1, THEN conjunct1]) (simp_all add: U32_MAX_def U64_MAX_def)
  then show ?thesis unfolding run by (simp add: grants_def MINUTE_MS_def)
qed

end
