(* ===== verification/Auth_Base.thy ===== *)
theory Auth_Base
  imports Rate_Limits
begin

text \<open>
  What the parts of \<open>sheprd-remote-control/src/auth\<close> share: its errors, public keys, device names, secrets, and
  the atomic replacement of a file of the state directory (\<open>auth.rs\<close>, and \<open>write_private\<close> of \<open>auth/devices.rs\<close>).

  The packages base64, sha2, p256, hkdf and aes-gcm are the fields of \<open>AuthLib\<close>. The system is \<open>Env\<close>: what the
  next draws of randomness give, the files, and what the next file operations return, so a property over all of
  them is one over every failure.
\<close>

section \<open>The environment\<close>

type_synonym PairingId = str
type_synonym DeviceId = str
type_synonym ClaimId = str
type_synonym Path = "str list"

text \<open>An I/O error: its number, and for a write how many bytes were written before it.\<close>

type_synonym io_error = "nat \<times> nat"

record AuthLib =
  b64_encode :: "bytes \<Rightarrow> str"
  b64_decode_slice :: "nat \<Rightarrow> str \<Rightarrow> bytes option"
  b64_encoded_len :: "nat \<Rightarrow> nat option"
  sha256_of :: "bytes \<Rightarrow> bytes"
  sec1_point :: "bytes \<Rightarrow> bool"
  signature_from_slice :: "bytes \<Rightarrow> bool"
  p256_verify :: "bytes \<Rightarrow> bytes \<Rightarrow> bytes \<Rightarrow> bool"

record Env =
  ev_draws :: "(nat \<Rightarrow> u8) option list"
  ev_files :: "Path \<Rightarrow> bytes option"
  ev_io :: "io_error option list"
  ev_pid :: nat
  ev_temp :: nat

section \<open>Errors\<close>

datatype StoreOperation = CreateDirectory | CreateTemporary | Read | Replace | Sync | Write

datatype LinksError = Busy | InvalidHost | InvalidOutcome | NotPairing | TooMany | UnknownHost

datatype AuthError =
    AlreadyClaimed
  | CodeMismatch
  | Encode
  | ExpiredToken
  | InvalidKey
  | InvalidName
  | InvalidSignature
  | InvalidToken
  | Links LinksError
  | NearbyBusy
  | NearbyCrypto
  | NearbyExhausted
  | NoAddress
  | NoPairing
  | NotClaimed
  | Random
  | RateLimited
  | Store StoreOperation Path io_error
  | StoreFormat Path
  | UnknownChallenge
  | UnknownClaim
  | UnknownDevice
  | UnknownNearby
  | UnknownPairing
  | UnknownPresence

datatype ErrorCode = Code_UnknownPairing | Code_UnknownDevice | Code_NotClaimed | Code_Unsupported | Code_NoPairing | Code_Unsaved | Code_Other

fun ErrorCode_from :: "AuthError \<Rightarrow> ErrorCode" where
  "ErrorCode_from UnknownPairing = Code_UnknownPairing"
| "ErrorCode_from UnknownDevice = Code_UnknownDevice"
| "ErrorCode_from NotClaimed = Code_NotClaimed"
| "ErrorCode_from NoPairing = Code_NoPairing"
| "ErrorCode_from Encode = Code_Unsaved"
| "ErrorCode_from (Store operation path source) = Code_Unsaved"
| "ErrorCode_from _ = Code_Other"

section \<open>Secrets, keys and names\<close>

definition PUBLIC_KEY_LEN :: nat where "PUBLIC_KEY_LEN = 65"

definition SECRET_LEN :: nat where "SECRET_LEN = 32"

definition decode_fixed :: "AuthLib \<Rightarrow> nat \<Rightarrow> str \<Rightarrow> bytes option" where
  "decode_fixed lib n encoded =
     (case b64_encoded_len lib n of None \<Rightarrow> None
      | Some len \<Rightarrow>
          if str_len encoded \<noteq> len then None
          else case b64_decode_slice lib n encoded of None \<Rightarrow> None
               | Some written \<Rightarrow> if length written = n then Some written else None)"

definition sha256 :: "AuthLib \<Rightarrow> bytes list \<Rightarrow> bytes" where
  "sha256 lib parts = sha256_of lib (concat parts)"

definition constant_time_eq :: "bytes \<Rightarrow> bytes \<Rightarrow> bool" where
  "constant_time_eq left right =
     (if length left \<noteq> length right then False
      else fold (\<lambda>(l, r) difference. difference OR (l XOR r)) (zip left right) 0 = 0)"

definition random_bytes :: "nat \<Rightarrow> Env \<Rightarrow> (bytes, AuthError) result \<times> Env" where
  "random_bytes n env = (case ev_draws env of
     Some draw # draws \<Rightarrow> (Inr (map draw [0..<n]), env\<lparr>ev_draws := draws\<rparr>)
   | None # draws \<Rightarrow> (Inl Random, env\<lparr>ev_draws := draws\<rparr>)
   | [] \<Rightarrow> (Inl Random, env))"

definition random_id :: "AuthLib \<Rightarrow> Env \<Rightarrow> (str, AuthError) result \<times> Env" where
  "random_id lib env = (case random_bytes 16 env of
     (Inl e, env) \<Rightarrow> (Inl e, env) | (Inr bytes, env) \<Rightarrow> (Inr (b64_encode lib bytes), env))"

type_synonym PublicKey = bytes

definition PublicKey_parse :: "AuthLib \<Rightarrow> str \<Rightarrow> (PublicKey, AuthError) result" where
  "PublicKey_parse lib encoded =
     (case decode_fixed lib PUBLIC_KEY_LEN encoded of
        None \<Rightarrow> Inl InvalidKey
      | Some bytes \<Rightarrow> if bytes ! 0 \<noteq> 4 then Inl InvalidKey else if \<not> sec1_point lib bytes then Inl InvalidKey else Inr bytes)"

definition verifying_key :: "AuthLib \<Rightarrow> PublicKey \<Rightarrow> (bytes, AuthError) result" where
  "verifying_key lib key = (if sec1_point lib key then Inr key else Inl InvalidKey)"

text \<open>\<open>char::is_control\<close>: the category Cc.\<close>

definition char_is_control :: "scalar \<Rightarrow> bool" where
  "char_is_control c \<longleftrightarrow> c < 32 \<or> (127 \<le> c \<and> c < 160)"

definition device_name :: "str \<Rightarrow> (str, AuthError) result" where
  "device_name name =
     (let name = trim name
      in if \<not> (1 \<le> length name \<and> length name \<le> 64) \<or> list_ex char_is_control name then Inl InvalidName else Inr name)"

definition str_bytes :: "str \<Rightarrow> bytes" where
  "str_bytes s = concat (map encode_utf8 s)"

text \<open>\<open>u32::from_be_bytes\<close> of the first four bytes, and a number printed with at least six digits.\<close>

definition from_be_4 :: "bytes \<Rightarrow> nat" where
  "from_be_4 digest = ((unat (digest ! 0) * 256 + unat (digest ! 1)) * 256 + unat (digest ! 2)) * 256 + unat (digest ! 3)"

definition six_digits :: "nat \<Rightarrow> str" where
  "six_digits n = (let d = chars (decimal n) in replicate (6 - length d) 48 @ d)"

section \<open>Files\<close>

definition io_call :: "Env \<Rightarrow> io_error option \<times> Env" where
  "io_call env = (case ev_io env of [] \<Rightarrow> (None, env) | r # rs \<Rightarrow> (r, env\<lparr>ev_io := rs\<rparr>))"

definition put_file :: "Path \<Rightarrow> bytes option \<Rightarrow> Env \<Rightarrow> Env" where
  "put_file path content env = env\<lparr>ev_files := (ev_files env)(path := content)\<rparr>"

definition path_parent :: "Path \<Rightarrow> Path" where
  "path_parent path = (if path = [] then [chars ''.''] else butlast path)"

definition path_name :: "Path \<Rightarrow> str" where
  "path_name path = (if path = [] then [] else List.last path)"

text \<open>
  The steps of \<open>write_private\<close> after the temporary file is open: write, sync, rename. The value is the failure and
  the environment then.
\<close>

definition write_and_rename :: "Path \<Rightarrow> Path \<Rightarrow> bytes \<Rightarrow> Env \<Rightarrow> AuthError option \<times> Env" where
  "write_and_rename temp path content env =
     (case io_call env of
        (Some e, env) \<Rightarrow> (Some (Store Write temp e), put_file temp (Some (take (snd e) content)) env)
      | (None, env) \<Rightarrow>
          let env = put_file temp (Some content) env
          in case io_call env of
               (Some e, env) \<Rightarrow> (Some (Store Sync temp e), env)
             | (None, env) \<Rightarrow>
                 case io_call env of
                   (Some e, env) \<Rightarrow> (Some (Store Replace path e), env)
                 | (None, env) \<Rightarrow> (None, put_file temp None (put_file path (Some content) env)))"

definition temp_path :: "Path \<Rightarrow> Env \<Rightarrow> Path" where
  "temp_path path env = path_parent path @
     [chars ''.'' @ path_name path @ chars ''-'' @ chars (decimal (ev_pid env)) @ chars ''-'' @ chars (decimal (ev_temp env)) @ chars ''.tmp'']"

definition write_private :: "Path \<Rightarrow> bytes \<Rightarrow> Env \<Rightarrow> (unit, AuthError) result \<times> Env" where
  "write_private path content env =
     (let parent = path_parent path
      in case io_call env of
           (Some e, env) \<Rightarrow> (Inl (Store CreateDirectory parent e), env)
         | (None, env) \<Rightarrow>
             let temp = temp_path path env; env = env\<lparr>ev_temp := u64_add (ev_temp env) 1\<rparr>
             in case io_call env of
                  (Some e, env) \<Rightarrow> (Inl (Store CreateTemporary path e), env)
                | (None, env) \<Rightarrow>
                    case write_and_rename temp path content (put_file temp (Some []) env) of
                      (Some failed, env) \<Rightarrow>
                        (case io_call env of
                           (Some e, env) \<Rightarrow> (Inl failed, env)
                         | (None, env) \<Rightarrow> (Inl failed, put_file temp None env))
                    | (None, env) \<Rightarrow>
                        case io_call env of
                          (Some e, env) \<Rightarrow> (Inl (Store Sync parent e), env)
                        | (None, env) \<Rightarrow> (Inr (), env))"

section \<open>Lemmas\<close>

lemma xor_zero: "(a :: 'a::len word) XOR b = 0 \<longleftrightarrow> a = b"
  by (metis xor.assoc xor.left_neutral xor.right_neutral xor_self_eq)

lemma constant_time_eq_iff [simp]: "constant_time_eq left right \<longleftrightarrow> left = right"
proof (cases "length left = length right")
  case True
  have "fold (\<lambda>(l, r) difference. difference OR (l XOR r)) (zip left right) d = 0 \<longleftrightarrow> d = 0 \<and> left = right" for d
    using True by (induction left right arbitrary: d rule: list_induct2) (auto simp: or_eq_0_iff xor_zero)
  then show ?thesis using True by (simp add: constant_time_eq_def)
qed (auto simp: constant_time_eq_def)

lemma io_call_frame: "io_call env = (r, env') \<Longrightarrow> ev_files env' = ev_files env \<and> ev_draws env' = ev_draws env \<and> ev_pid env' = ev_pid env \<and> ev_temp env' = ev_temp env"
  by (auto simp: io_call_def split: list.splits)

lemma random_bytes_frame:
  "random_bytes n env = (r, env') \<Longrightarrow> ev_files env' = ev_files env \<and> ev_io env' = ev_io env"
  "random_bytes n env = (Inr bytes, env') \<Longrightarrow> length bytes = n"
  by (auto simp: random_bytes_def split: list.splits option.splits)

lemma random_id_frame: "random_id lib env = (r, env') \<Longrightarrow> ev_files env' = ev_files env \<and> ev_io env' = ev_io env"
  by (auto simp: random_id_def dest: random_bytes_frame split: sum.splits prod.splits)

text \<open>Names that start with a dot are those of temporary files.\<close>

definition dotted :: "Path \<Rightarrow> bool" where
  "dotted path \<longleftrightarrow> path \<noteq> [] \<and> take 1 (List.last path) = chars ''.''"

lemma temp_dotted: "dotted (temp_path path env)"
  by (simp add: dotted_def temp_path_def chars_def)

lemma put_file_simps [simp]:
  "ev_draws (put_file p c env) = ev_draws env" "ev_io (put_file p c env) = ev_io env"
  "ev_files (put_file p c env) = (ev_files env)(p := c)"
  by (simp_all add: put_file_def)

lemma write_and_rename_files:
  assumes "write_and_rename temp path content env = (r, env')" "temp \<noteq> path"
  shows "ev_draws env' = ev_draws env \<and> (\<forall>q. q \<noteq> temp \<longrightarrow> q \<noteq> path \<longrightarrow> ev_files env' q = ev_files env q) \<and>
    ev_files env' path = (if r = None then Some content else ev_files env path) \<and>
    (\<forall>e. r = Some e \<longrightarrow> (\<exists>operation at source. e = Store operation at source))"
  using assms
  by (auto simp: write_and_rename_def Let_def split: prod.splits option.splits dest!: io_call_frame)

text \<open>
  A failed replacement leaves the file as it was, but for one case: when the rename succeeded and the sync of the
  directory after it failed, the new content is there although an error is returned.
\<close>

lemma write_private_files:
  assumes "write_private path content env = (r, env')" "\<not> dotted path"
  shows "ev_draws env' = ev_draws env"
    "q \<noteq> path \<Longrightarrow> \<not> dotted q \<Longrightarrow> ev_files env' q = ev_files env q"
    "r = Inr u \<Longrightarrow> ev_files env' path = Some content"
    "r = Inl e \<Longrightarrow> ev_files env' path = ev_files env path \<or>
       (ev_files env' path = Some content \<and> (\<exists>source. e = Store Sync (path_parent path) source))"
    "r = Inl e \<Longrightarrow> \<exists>operation at source. e = Store operation at source"
proof -
  have temp: "temp_path path env \<noteq> path" "dotted (temp_path path env)" for env using assms(2) temp_dotted [of path env] by auto
  have other: "q \<noteq> temp_path path env" if "\<not> dotted q" for q env using that temp(2) by metis
  have "ev_draws env' = ev_draws env \<and> (\<forall>q. q \<noteq> path \<longrightarrow> \<not> dotted q \<longrightarrow> ev_files env' q = ev_files env q) \<and>
    (case r of Inr u \<Rightarrow> ev_files env' path = Some content
     | Inl e \<Rightarrow> (ev_files env' path = ev_files env path \<or>
         (ev_files env' path = Some content \<and> (\<exists>source. e = Store Sync (path_parent path) source))) \<and>
         (\<exists>operation at source. e = Store operation at source))"
    using assms(1) temp temp(1) [symmetric] other unfolding write_private_def Let_def
    by (auto split: prod.splits option.splits dest!: io_call_frame write_and_rename_files [OF _ temp(1)])
  then show "ev_draws env' = ev_draws env" "q \<noteq> path \<Longrightarrow> \<not> dotted q \<Longrightarrow> ev_files env' q = ev_files env q"
    "r = Inr u \<Longrightarrow> ev_files env' path = Some content"
    "r = Inl e \<Longrightarrow> ev_files env' path = ev_files env path \<or>
       (ev_files env' path = Some content \<and> (\<exists>source. e = Store Sync (path_parent path) source))"
    "r = Inl e \<Longrightarrow> \<exists>operation at source. e = Store operation at source"
    by auto
qed

lemma synced_replaced:
  assumes "write_private path content env = (r, env')" "\<not> dotted path" "r = Inl (Store Sync (path_parent path) source)"
  shows "ev_files env' path = Some content"
proof -
  have temp: "temp_path path env \<noteq> path" for env using assms(2) temp_dotted [of path env] by auto
  have len: "temp_path path env \<noteq> path_parent path" for env by (simp add: temp_path_def)
  show ?thesis
    using assms(1,3) len len [symmetric] temp [symmetric] unfolding write_private_def Let_def
    by (auto simp: write_and_rename_def Let_def split: prod.splits option.splits dest!: io_call_frame write_and_rename_files [OF _ temp])
qed

end
