(* ===== verification/Device_Store.thy ===== *)
theory Device_Store
  imports Auth_Base "HOL-Library.List_Lexorder"
begin

text \<open>
  The paired devices and their file (\<open>sheprd-remote-control/src/auth/devices.rs\<close>), with the records of
  \<open>control/hosts.rs\<close> and \<open>auth/links.rs\<close> a device holds. serde_json is a record of functions.
\<close>

section \<open>Data\<close>

type_synonym HostId = str

text \<open>A value of serde_json that the store keeps without reading it, as its text.\<close>

type_synonym json = bytes

record Enrolled =
  en_device :: DeviceId
  en_computer :: str
  en_fingerprint :: str
  en_origins :: "str list"

record Link =
  lk_host :: HostId
  lk_name :: str
  lk_paired :: "Enrolled option"

record NewDevice =
  nd_app :: "str option"
  nd_id :: DeviceId
  nd_name :: str
  nd_public_key :: PublicKey

record DeviceRecord =
  dr_app :: "str option"
  dr_id :: DeviceId
  dr_name :: str
  dr_public_key :: PublicKey
  dr_created_ms :: nat
  dr_last_seen_ms :: "nat option"
  dr_push :: "json option"
  dr_apns :: "json option"
  dr_via :: "str option"
  dr_links :: "Link list"

record StoreFile =
  sf_version :: nat
  sf_devices :: "DeviceRecord list"

record Devices =
  dv_path :: Path
  dv_records :: "DeviceRecord list"
  dv_stored_seen :: "DeviceId \<Rightarrow> nat option"

text \<open>\<open>control::Device\<close>, what Sheprd is told of a device. The hosts are filled in by the caller.\<close>

record ControlDevice =
  cd_id :: DeviceId
  cd_name :: str
  cd_created_ms :: nat
  cd_last_seen_ms :: "nat option"
  cd_push :: bool
  cd_connected :: bool
  cd_via :: "str option"

record StoreLib =
  js_to_vec_pretty :: "StoreFile \<Rightarrow> bytes option"
  js_from_slice :: "bytes \<Rightarrow> StoreFile option"

definition FILE_NAME :: str where "FILE_NAME = chars ''devices.json''"

definition VERSION :: nat where "VERSION = 1"

definition TOUCH_PERSIST_MS :: nat where "TOUCH_PERSIST_MS = 60000"

section \<open>Operations\<close>

fun update_first :: "('a \<Rightarrow> bool) \<Rightarrow> ('a \<Rightarrow> 'a) \<Rightarrow> 'a list \<Rightarrow> 'a list" where
  "update_first p f [] = []"
| "update_first p f (x # xs) = (if p x then f x # xs else x # update_first p f xs)"

text \<open>\<open>fs::read\<close>: the bytes, no such file, or another error.\<close>

datatype FsRead = Bytes bytes | NotFound | ReadFailed io_error

definition fs_read :: "Path \<Rightarrow> Env \<Rightarrow> FsRead \<times> Env" where
  "fs_read path env = (case io_call env of
     (Some e, env) \<Rightarrow> (ReadFailed e, env)
   | (None, env) \<Rightarrow> ((case ev_files env path of None \<Rightarrow> NotFound | Some bytes \<Rightarrow> Bytes bytes), env))"

definition Devices_load :: "StoreLib \<Rightarrow> Path \<Rightarrow> Env \<Rightarrow> (Devices, AuthError) result \<times> Env" where
  "Devices_load json state_dir env =
     (let path = state_dir @ [FILE_NAME];
          start = (\<lambda>records. Inr \<lparr>dv_path = path, dv_records = records,
            dv_stored_seen = map_of (rev (List.map_filter (\<lambda>r. map_option (\<lambda>seen. (dr_id r, seen)) (dr_last_seen_ms r)) records))\<rparr>)
      in case fs_read path env of
           (Bytes bytes, env) \<Rightarrow>
             ((case js_from_slice json bytes of None \<Rightarrow> Inl (StoreFormat path) | Some file \<Rightarrow> start (sf_devices file)), env)
         | (NotFound, env) \<Rightarrow> (start [], env)
         | (ReadFailed e, env) \<Rightarrow> (Inl (Store Read path e), env))"

definition Devices_len :: "Devices \<Rightarrow> nat" where "Devices_len self = length (dv_records self)"

definition Devices_ids :: "Devices \<Rightarrow> DeviceId list" where "Devices_ids self = map dr_id (dv_records self)"

definition Devices_get :: "Devices \<Rightarrow> DeviceId \<Rightarrow> DeviceRecord option" where
  "Devices_get self ident = List.find (\<lambda>r. dr_id r = ident) (dv_records self)"

definition Devices_save :: "StoreLib \<Rightarrow> Devices \<Rightarrow> Env \<Rightarrow> (unit, AuthError) result \<times> Env" where
  "Devices_save json self env =
     (case js_to_vec_pretty json \<lparr>sf_version = VERSION, sf_devices = dv_records self\<rparr> of
        None \<Rightarrow> (Inl Encode, env)
      | Some content \<Rightarrow> write_private (dv_path self) content env)"

definition save_or_undo :: "StoreLib \<Rightarrow> (Devices \<Rightarrow> Devices) \<Rightarrow> Devices \<Rightarrow> Env \<Rightarrow> (unit, AuthError) result \<times> Devices \<times> Env" where
  "save_or_undo json undo self env = (case Devices_save json self env of
     (Inl e, env) \<Rightarrow> (Inl e, undo self, env) | (Inr u, env) \<Rightarrow> (Inr u, self, env))"

text \<open>\<open>record_mut\<close> and a change through the reference it gives.\<close>

definition with_record :: "DeviceId \<Rightarrow> (DeviceRecord \<Rightarrow> DeviceRecord) \<Rightarrow> Devices \<Rightarrow> Devices" where
  "with_record ident change self = self\<lparr>dv_records := update_first (\<lambda>r. dr_id r = ident) change (dv_records self)\<rparr>"

definition add_with :: "StoreLib \<Rightarrow> NewDevice \<Rightarrow> nat \<Rightarrow> str option \<Rightarrow> Link list \<Rightarrow> Devices \<Rightarrow> Env \<Rightarrow> (unit, AuthError) result \<times> Devices \<times> Env" where
  "add_with json device now_ms via links self env =
     save_or_undo json (\<lambda>d. d\<lparr>dv_records := butlast (dv_records d)\<rparr>)
       (self\<lparr>dv_records := dv_records self @
          [\<lparr>dr_app = nd_app device, dr_id = nd_id device, dr_name = nd_name device, dr_public_key = nd_public_key device,
            dr_created_ms = now_ms, dr_last_seen_ms = None, dr_push = None, dr_apns = None, dr_via = via, dr_links = links\<rparr>]\<rparr>) env"

definition Devices_apps :: "Devices \<Rightarrow> str list" where
  "Devices_apps self = remdups_adj (sort (List.map_filter dr_app (dv_records self)))"

definition Devices_list :: "(DeviceId \<Rightarrow> bool) \<Rightarrow> Devices \<Rightarrow> ControlDevice list" where
  "Devices_list connected self = map (\<lambda>r.
     \<lparr>cd_id = dr_id r, cd_name = dr_name r, cd_created_ms = dr_created_ms r, cd_last_seen_ms = dr_last_seen_ms r,
      cd_push = (dr_push r \<noteq> None), cd_connected = connected (dr_id r), cd_via = dr_via r\<rparr>) (dv_records self)"

definition set_link :: "StoreLib \<Rightarrow> DeviceId \<Rightarrow> Link \<Rightarrow> Devices \<Rightarrow> Env \<Rightarrow> (unit, AuthError) result \<times> Devices \<times> Env" where
  "set_link json ident link self env =
     (case Devices_get self ident of
        None \<Rightarrow> (Inl UnknownDevice, self, env)
      | Some r \<Rightarrow>
          let previous = dr_links r;
              links = (if list_ex (\<lambda>known. lk_host known = lk_host link) previous
                       then update_first (\<lambda>known. lk_host known = lk_host link) (\<lambda>_. link) previous
                       else previous @ [link])
          in save_or_undo json (with_record ident (\<lambda>r. r\<lparr>dr_links := previous\<rparr>))
               (with_record ident (\<lambda>r. r\<lparr>dr_links := links\<rparr>) self) env)"

definition touch :: "StoreLib \<Rightarrow> DeviceId \<Rightarrow> nat \<Rightarrow> Devices \<Rightarrow> Env \<Rightarrow> (unit, AuthError) result \<times> Devices \<times> Env" where
  "touch json ident now_ms self env =
     (case Devices_get self ident of
        None \<Rightarrow> (Inl UnknownDevice, self, env)
      | Some r \<Rightarrow>
          let self = with_record ident (\<lambda>r. r\<lparr>dr_last_seen_ms := Some now_ms\<rparr>) self;
              stale = (case dv_stored_seen self ident of None \<Rightarrow> True | Some stored \<Rightarrow> TOUCH_PERSIST_MS \<le> now_ms - stored)
          in if \<not> stale then (Inr (), self, env)
             else case Devices_save json self env of
                    (Inl e, env) \<Rightarrow> (Inl e, self, env)
                  | (Inr u, env) \<Rightarrow> (Inr (), self\<lparr>dv_stored_seen := (dv_stored_seen self)(ident \<mapsto> now_ms)\<rparr>, env))"

definition rekey :: "StoreLib \<Rightarrow> DeviceId \<Rightarrow> PublicKey \<Rightarrow> Devices \<Rightarrow> Env \<Rightarrow> (unit, AuthError) result \<times> Devices \<times> Env" where
  "rekey json ident public_key self env =
     (case Devices_get self ident of
        None \<Rightarrow> (Inl UnknownDevice, self, env)
      | Some r \<Rightarrow>
          save_or_undo json (with_record ident (\<lambda>r'. r'\<lparr>dr_public_key := dr_public_key r, dr_push := dr_push r\<rparr>))
            (with_record ident (\<lambda>r. r\<lparr>dr_public_key := public_key, dr_push := None\<rparr>) self) env)"

definition Devices_revoke :: "StoreLib \<Rightarrow> DeviceId \<Rightarrow> Devices \<Rightarrow> Env \<Rightarrow> (bool, AuthError) result \<times> Devices \<times> Env" where
  "Devices_revoke json ident self env =
     (case iter_position (\<lambda>r. dr_id r = ident) (dv_records self) of
        None \<Rightarrow> (Inr False, self, env)
      | Some index \<Rightarrow>
          let r = dv_records self ! index
          in case save_or_undo json (\<lambda>d. d\<lparr>dv_records := insert_at index r (dv_records d)\<rparr>)
                    (self\<lparr>dv_records := remove_at index (dv_records self)\<rparr>) env of
               (Inl e, self, env) \<Rightarrow> (Inl e, self, env)
             | (Inr u, self, env) \<Rightarrow> (Inr True, self\<lparr>dv_stored_seen := (dv_stored_seen self)(ident := None)\<rparr>, env))"

definition set_push :: "StoreLib \<Rightarrow> DeviceId \<Rightarrow> json option \<Rightarrow> Devices \<Rightarrow> Env \<Rightarrow> (unit, AuthError) result \<times> Devices \<times> Env" where
  "set_push json ident push self env =
     (case Devices_get self ident of
        None \<Rightarrow> (Inl UnknownDevice, self, env)
      | Some r \<Rightarrow>
          save_or_undo json (with_record ident (\<lambda>r'. r'\<lparr>dr_push := dr_push r\<rparr>))
            (with_record ident (\<lambda>r. r\<lparr>dr_push := push\<rparr>) self) env)"

definition set_apns :: "StoreLib \<Rightarrow> DeviceId \<Rightarrow> json option \<Rightarrow> Devices \<Rightarrow> Env \<Rightarrow> (unit, AuthError) result \<times> Devices \<times> Env" where
  "set_apns json ident apns self env =
     (case Devices_get self ident of
        None \<Rightarrow> (Inl UnknownDevice, self, env)
      | Some r \<Rightarrow>
          save_or_undo json (with_record ident (\<lambda>r'. r'\<lparr>dr_apns := dr_apns r\<rparr>))
            (with_record ident (\<lambda>r. r\<lparr>dr_apns := apns\<rparr>) self) env)"

definition idle :: "nat \<Rightarrow> nat \<Rightarrow> DeviceRecord \<Rightarrow> bool" where
  "idle now_ms idle_ms r \<longleftrightarrow>
     idle_ms \<le> now_ms - (case dr_last_seen_ms r of None \<Rightarrow> dr_created_ms r | Some seen \<Rightarrow> seen)"

definition Devices_expire_idle :: "StoreLib \<Rightarrow> nat \<Rightarrow> nat \<Rightarrow> Devices \<Rightarrow> Env \<Rightarrow> (DeviceId list, AuthError) result \<times> Devices \<times> Env" where
  "Devices_expire_idle json now_ms idle_ms self env =
     (if \<not> list_ex (idle now_ms idle_ms) (dv_records self) then (Inr [], self, env)
      else let previous = dv_records self
           in case save_or_undo json (\<lambda>d. d\<lparr>dv_records := previous\<rparr>)
                     (self\<lparr>dv_records := filter (\<lambda>r. \<not> idle now_ms idle_ms r) previous\<rparr>) env of
                (Inl e, self, env) \<Rightarrow> (Inl e, self, env)
              | (Inr u, self, env) \<Rightarrow>
                  let expired = map dr_id (filter (idle now_ms idle_ms) previous)
                  in (Inr expired, self\<lparr>dv_stored_seen := (\<lambda>ident. if ident \<in> set expired then None else dv_stored_seen self ident)\<rparr>, env))"

fun failure :: "('a, AuthError) result \<Rightarrow> AuthError option" where
  "failure (Inl e) = Some e"
| "failure (Inr a) = None"

text \<open>The changes of the store, in any order.\<close>

datatype DevOp =
    Op_add NewDevice nat "str option" "Link list"
  | Op_set_link DeviceId Link
  | Op_touch DeviceId nat
  | Op_rekey DeviceId PublicKey
  | Op_revoke DeviceId
  | Op_set_push DeviceId "json option"
  | Op_set_apns DeviceId "json option"
  | Op_expire_idle nat nat

fun dev_step :: "StoreLib \<Rightarrow> DevOp \<Rightarrow> Devices \<Rightarrow> Env \<Rightarrow> AuthError option \<times> Devices \<times> Env" where
  "dev_step json (Op_add d now via links) self env = map_prod failure id (add_with json d now via links self env)"
| "dev_step json (Op_set_link i l) self env = map_prod failure id (set_link json i l self env)"
| "dev_step json (Op_touch i now) self env = map_prod failure id (touch json i now self env)"
| "dev_step json (Op_rekey i k) self env = map_prod failure id (rekey json i k self env)"
| "dev_step json (Op_revoke i) self env = map_prod failure id (Devices_revoke json i self env)"
| "dev_step json (Op_set_push i v) self env = map_prod failure id (set_push json i v self env)"
| "dev_step json (Op_set_apns i v) self env = map_prod failure id (set_apns json i v self env)"
| "dev_step json (Op_expire_idle now ms) self env = map_prod failure id (Devices_expire_idle json now ms self env)"

fun dev_run :: "StoreLib \<Rightarrow> DevOp list \<Rightarrow> Devices \<Rightarrow> Env \<Rightarrow> AuthError option list \<times> Devices \<times> Env" where
  "dev_run json [] self env = ([], self, env)"
| "dev_run json (op # ops) self env =
     (let (r, self, env) = dev_step json op self env; (rs, self, env) = dev_run json ops self env in (r # rs, self, env))"

section \<open>Lemmas\<close>

text \<open>A record without the time it was last seen, the only field that memory may hold and the disk not yet.\<close>

definition unseen :: "DeviceRecord \<Rightarrow> DeviceRecord" where
  "unseen r = r\<lparr>dr_last_seen_ms := None\<rparr>"

definition on_disk :: "StoreLib \<Rightarrow> Devices \<Rightarrow> Env \<Rightarrow> bool" where
  "on_disk json self env \<longleftrightarrow> (case ev_files env (dv_path self) of
     None \<Rightarrow> dv_records self = []
   | Some content \<Rightarrow> (\<exists>file. js_from_slice json content = Some file \<and> map unseen (sf_devices file) = map unseen (dv_records self)))"

definition json_reads :: "StoreLib \<Rightarrow> bool" where
  "json_reads json \<longleftrightarrow> (\<forall>file content. js_to_vec_pretty json file = Some content \<longrightarrow> js_from_slice json content = Some file)"

lemma on_disk_seen [simp]: "on_disk json (self\<lparr>dv_stored_seen := s\<rparr>) env = on_disk json self env"
  by (simp add: on_disk_def split: option.split)

lemma update_first_undo:
  assumes "List.find p xs = Some x" "\<And>y. p (f y) = p y" "g (f x) = x"
  shows "update_first p g (update_first p f xs) = xs"
  using assms by (induction xs) (auto split: if_splits)

lemma update_first_map:
  assumes "\<And>y. h (f y) = h y" shows "map h (update_first p f xs) = map h xs"
  using assms by (induction xs) auto

lemma with_record_simps [simp]:
  "dv_path (with_record i f d) = dv_path d" "dv_stored_seen (with_record i f d) = dv_stored_seen d"
  by (simp_all add: with_record_def)

lemma with_record_undo:
  assumes "Devices_get self i = Some r" "\<And>y. dr_id (f y) = dr_id y" "g (f r) = r"
  shows "with_record i g (with_record i f self) = self"
  using update_first_undo [of "\<lambda>r. dr_id r = i" "dv_records self" r f g] assms
  by (simp add: with_record_def Devices_get_def)

lemma save_law:
  assumes "Devices_save json self env = (r, env')" "\<not> dotted (dv_path self)" "json_reads json"
  shows "r = Inr u \<Longrightarrow> on_disk json self env'"
    and "r = Inl e \<Longrightarrow> ev_files env' (dv_path self) = ev_files env (dv_path self) \<or> (\<exists>source. e = Store Sync (path_parent (dv_path self)) source)"
    and "q \<noteq> dv_path self \<Longrightarrow> \<not> dotted q \<Longrightarrow> ev_files env' q = ev_files env q"
    and "ev_draws env' = ev_draws env"
proof -
  have "(\<forall>u. r = Inr u \<longrightarrow> on_disk json self env') \<and>
    (\<forall>e. r = Inl e \<longrightarrow> ev_files env' (dv_path self) = ev_files env (dv_path self) \<or> (\<exists>source. e = Store Sync (path_parent (dv_path self)) source)) \<and>
    (\<forall>q. q \<noteq> dv_path self \<longrightarrow> \<not> dotted q \<longrightarrow> ev_files env' q = ev_files env q) \<and> ev_draws env' = ev_draws env"
  proof (cases "js_to_vec_pretty json \<lparr>sf_version = VERSION, sf_devices = dv_records self\<rparr>")
    case None
    then show ?thesis using assms(1) by (auto simp: Devices_save_def)
  next
    case (Some content)
    then have "write_private (dv_path self) content env = (r, env')" using assms(1) by (simp add: Devices_save_def)
    note w = write_private_files [OF this assms(2)]
    have "js_from_slice json content = Some \<lparr>sf_version = VERSION, sf_devices = dv_records self\<rparr>"
      using Some assms(3) by (simp add: json_reads_def)
    then have "on_disk json self env'" if "r = Inr u" for u using w(3) [OF that] by (simp add: on_disk_def)
    moreover have "ev_files env' (dv_path self) = ev_files env (dv_path self) \<or> (\<exists>source. e = Store Sync (path_parent (dv_path self)) source)"
      if "r = Inl e" for e using w(4) [OF that] by blast
    ultimately show ?thesis using w(1,2) by blast
  qed
  then show "r = Inr u \<Longrightarrow> on_disk json self env'"
    and "r = Inl e \<Longrightarrow> ev_files env' (dv_path self) = ev_files env (dv_path self) \<or> (\<exists>source. e = Store Sync (path_parent (dv_path self)) source)"
    and "q \<noteq> dv_path self \<Longrightarrow> \<not> dotted q \<Longrightarrow> ev_files env' q = ev_files env q"
    and "ev_draws env' = ev_draws env"
    by blast+
qed

text \<open>What a change promises: when it fails memory is what it was and so is the file, but for the sync of the directory.\<close>

definition store_kept :: "StoreLib \<Rightarrow> Devices \<Rightarrow> Env \<Rightarrow> AuthError option \<times> Devices \<times> Env \<Rightarrow> bool" where
  "store_kept json self env = (\<lambda>(r, self', env').
     dv_path self' = dv_path self \<and>
     (\<forall>q. q \<noteq> dv_path self \<longrightarrow> \<not> dotted q \<longrightarrow> ev_files env' q = ev_files env q) \<and>
     (case r of None \<Rightarrow> on_disk json self' env' \<or> (map unseen (dv_records self') = map unseen (dv_records self) \<and>
           ev_files env' (dv_path self) = ev_files env (dv_path self))
      | Some e \<Rightarrow> map unseen (dv_records self') = map unseen (dv_records self) \<and>
          (ev_files env' (dv_path self) = ev_files env (dv_path self) \<or> (\<exists>source. e = Store Sync (path_parent (dv_path self)) source))))"

lemma kept_seen [simp]: "store_kept json self env (r, self'\<lparr>dv_stored_seen := s\<rparr>, env') = store_kept json self env (r, self', env')"
  by (cases r) (simp_all add: store_kept_def)

lemma save_or_undo_kept:
  assumes "save_or_undo json undo self1 env = (r, self2, env')" "\<not> dotted (dv_path self)" "json_reads json"
    "undo self1 = self" "dv_path self1 = dv_path self"
  shows "store_kept json self env (failure r, self2, env')"
proof -
  obtain r0 env0 where save: "Devices_save json self1 env = (r0, env0)" by fastforce
  have "\<not> dotted (dv_path self1)" using assms by simp
  note law = save_law [OF save this assms(3)]
  show ?thesis
  proof (cases r0)
    case (Inl e)
    then have eq: "r = Inl e" "self2 = self" "env' = env0" using assms(1,4) save by (auto simp: save_or_undo_def)
    show ?thesis unfolding eq store_kept_def using law(2) [OF Inl] law(3) assms(5) by simp
  next
    case (Inr u)
    then have eq: "failure r = None" "self2 = self1" "env' = env0" using assms(1) save by (auto simp: save_or_undo_def)
    show ?thesis unfolding eq store_kept_def using law(1) [OF Inr] law(3) assms(5) by simp
  qed
qed

lemma with_record_kept:
  assumes "case Devices_get self i of None \<Rightarrow> res = (Inl UnknownDevice, self, env)
      | Some r \<Rightarrow> res = save_or_undo json (with_record i (g r)) (with_record i (f r) self) env"
    and "\<not> dotted (dv_path self)" "json_reads json" "\<And>r y. dr_id (f r y) = dr_id y" "\<And>r. g r (f r r) = r"
  shows "store_kept json self env (map_prod failure id res)"
proof (cases "Devices_get self i")
  case None
  then show ?thesis using assms(1) by (simp add: store_kept_def)
next
  case (Some r)
  obtain x d e where res: "res = (x, d, e)" by (cases res)
  have s: "save_or_undo json (with_record i (g r)) (with_record i (f r) self) env = (x, d, e)" using assms(1) Some res by simp
  have "store_kept json self env (failure x, d, e)"
    by (rule save_or_undo_kept [OF s assms(2,3)]) (use assms(4,5) with_record_undo [OF Some, of "f r" "g r"] in auto)
  then show ?thesis by (simp add: res)
qed

lemma add_with_kept:
  assumes "\<not> dotted (dv_path self)" "json_reads json"
  shows "store_kept json self env (map_prod failure id (add_with json d now via links self env))"
proof -
  obtain x d' e where add: "add_with json d now via links self env = (x, d', e)" by (rule prod_cases3)
  have "store_kept json self env (failure x, d', e)"
    by (rule save_or_undo_kept [OF add [unfolded add_with_def] assms]) auto
  then show ?thesis by (simp add: add)
qed

lemma set_link_kept:
  assumes "\<not> dotted (dv_path self)" "json_reads json"
  shows "store_kept json self env (map_prod failure id (set_link json i l self env))"
proof -
  let ?links = "\<lambda>previous. if list_ex (\<lambda>known. lk_host known = lk_host l) previous
      then update_first (\<lambda>known. lk_host known = lk_host l) (\<lambda>_. l) previous else previous @ [l]"
  show ?thesis
    by (rule with_record_kept [where i = i and f = "\<lambda>r y. y\<lparr>dr_links := ?links (dr_links r)\<rparr>" and g = "\<lambda>r y. y\<lparr>dr_links := dr_links r\<rparr>"])
      (use assms in \<open>auto simp: set_link_def Let_def split: option.splits\<close>)
qed

lemma rekey_kept:
  assumes "\<not> dotted (dv_path self)" "json_reads json"
  shows "store_kept json self env (map_prod failure id (rekey json i k self env))"
  by (rule with_record_kept [where i = i and f = "\<lambda>r y. y\<lparr>dr_public_key := k, dr_push := None\<rparr>"
        and g = "\<lambda>r y. y\<lparr>dr_public_key := dr_public_key r, dr_push := dr_push r\<rparr>"])
    (use assms in \<open>auto simp: rekey_def split: option.splits\<close>)

lemma set_push_kept:
  assumes "\<not> dotted (dv_path self)" "json_reads json"
  shows "store_kept json self env (map_prod failure id (set_push json i v self env))"
  by (rule with_record_kept [where i = i and f = "\<lambda>r y. y\<lparr>dr_push := v\<rparr>" and g = "\<lambda>r y. y\<lparr>dr_push := dr_push r\<rparr>"])
    (use assms in \<open>auto simp: set_push_def split: option.splits\<close>)

lemma set_apns_kept:
  assumes "\<not> dotted (dv_path self)" "json_reads json"
  shows "store_kept json self env (map_prod failure id (set_apns json i v self env))"
  by (rule with_record_kept [where i = i and f = "\<lambda>r y. y\<lparr>dr_apns := v\<rparr>" and g = "\<lambda>r y. y\<lparr>dr_apns := dr_apns r\<rparr>"])
    (use assms in \<open>auto simp: set_apns_def split: option.splits\<close>)

lemma touch_kept:
  assumes "\<not> dotted (dv_path self)" "json_reads json"
  shows "store_kept json self env (map_prod failure id (touch json i now self env))"
proof (cases "Devices_get self i")
  case None
  then show ?thesis by (simp add: touch_def store_kept_def)
next
  case (Some r)
  let ?self = "with_record i (\<lambda>r. r\<lparr>dr_last_seen_ms := Some now\<rparr>) self"
  have same: "map unseen (dv_records ?self) = map unseen (dv_records self)"
    by (simp add: with_record_def unseen_def update_first_map)
  obtain r0 env0 where save: "Devices_save json ?self env = (r0, env0)" by fastforce
  note law = save_law [OF save _ assms(2)]
  show ?thesis using Some save law assms(1) same
    by (cases r0) (auto simp: touch_def Let_def store_kept_def)
qed

lemma revoke_kept:
  assumes "\<not> dotted (dv_path self)" "json_reads json"
  shows "store_kept json self env (map_prod failure id (Devices_revoke json i self env))"
proof (cases "iter_position (\<lambda>r. dr_id r = i) (dv_records self)")
  case None
  then show ?thesis by (simp add: Devices_revoke_def store_kept_def)
next
  case (Some index)
  have "index < length (dv_records self)" using iter_position_Some [OF Some] by simp
  obtain x d' e where s: "save_or_undo json (\<lambda>d. d\<lparr>dv_records := insert_at index (dv_records self ! index) (dv_records d)\<rparr>)
      (self\<lparr>dv_records := remove_at index (dv_records self)\<rparr>) env = (x, d', e)" by (rule prod_cases3)
  have kept: "store_kept json self env (failure x, d', e)"
    by (rule save_or_undo_kept [OF s]) (use assms \<open>index < _\<close> in auto)
  show ?thesis using Some s kept by (cases x) (simp_all add: Devices_revoke_def Let_def)
qed

lemma expire_idle_kept:
  assumes "\<not> dotted (dv_path self)" "json_reads json"
  shows "store_kept json self env (map_prod failure id (Devices_expire_idle json now ms self env))"
proof -
  obtain x d' e where s: "save_or_undo json (\<lambda>d. d\<lparr>dv_records := dv_records self\<rparr>)
        (self\<lparr>dv_records := filter (\<lambda>r. \<not> idle now ms r) (dv_records self)\<rparr>) env = (x, d', e)" by (rule prod_cases3)
  have "store_kept json self env (failure x, d', e)" by (rule save_or_undo_kept [OF s]) (use assms in auto)
  moreover have "store_kept json self env (None, self, env)" by (simp add: store_kept_def)
  ultimately show ?thesis using s by (cases x) (simp_all add: Devices_expire_idle_def Let_def)
qed

lemmas op_kept = add_with_kept set_link_kept rekey_kept set_push_kept set_apns_kept touch_kept revoke_kept expire_idle_kept

lemma dev_step_kept:
  assumes "\<not> dotted (dv_path self)" "json_reads json"
  shows "store_kept json self env (dev_step json op self env)"
  by (cases op) (simp_all add: op_kept [OF assms])

lemma on_disk_step:
  assumes "\<not> dotted (dv_path self)" "json_reads json" "on_disk json self env" "dev_step json op self env = (r, self', env')"
    "\<forall>source. r \<noteq> Some (Store Sync (path_parent (dv_path self)) source)"
  shows "on_disk json self' env' \<and> dv_path self' = dv_path self"
proof -
  have kept: "store_kept json self env (r, self', env')" using dev_step_kept [OF assms(1,2), of env op] assms(4) by simp
  have same: "on_disk json self' env'" if "dv_path self' = dv_path self" "map unseen (dv_records self') = map unseen (dv_records self)"
    "ev_files env' (dv_path self) = ev_files env (dv_path self)"
    using assms(3) that by (auto simp: on_disk_def split: option.splits)
  show ?thesis using kept assms(5) same by (cases r) (auto simp: store_kept_def)
qed

lemma on_disk_run:
  assumes "\<not> dotted (dv_path self)" "json_reads json" "on_disk json self env" "dev_run json ops self env = (rs, self', env')"
    "\<forall>source. Some (Store Sync (path_parent (dv_path self)) source) \<notin> set rs"
  shows "on_disk json self' env' \<and> dv_path self' = dv_path self"
  using assms
proof (induction ops arbitrary: self env rs)
  case (Cons op ops)
  obtain r s1 e1 where step: "dev_step json op self env = (r, s1, e1)" by (rule prod_cases3)
  obtain rs1 where run: "dev_run json ops s1 e1 = (rs1, self', env')" "rs = r # rs1"
    using Cons.prems(4) step by (auto split: prod.splits)
  have s1: "on_disk json s1 e1 \<and> dv_path s1 = dv_path self"
    using on_disk_step [OF Cons.prems(1-3) step] Cons.prems(5) run(2) by auto
  then show ?case using Cons.IH [OF _ Cons.prems(2) _ run(1)] Cons.prems(1,5) run(2) by auto
qed simp

lemma load_on_disk:
  assumes "Devices_load json dir env = (Inr self, env')"
  shows "dv_path self = dir @ [FILE_NAME]" "on_disk json self env'" "\<not> dotted (dv_path self)"
proof -
  obtain r e where read: "fs_read (dir @ [FILE_NAME]) env = (r, e)" by fastforce
  have there: "r = Bytes bytes \<Longrightarrow> ev_files e (dir @ [FILE_NAME]) = Some bytes" "r = NotFound \<Longrightarrow> ev_files e (dir @ [FILE_NAME]) = None" for bytes
    using read by (auto simp: fs_read_def dest!: io_call_frame split: prod.splits option.splits)
  have load: "dv_path self = dir @ [FILE_NAME] \<and> on_disk json self env'"
  proof (cases r)
    case (Bytes bytes)
    then show ?thesis using assms read there(1) by (auto simp: Devices_load_def on_disk_def Let_def split: option.splits)
  next
    case NotFound
    then show ?thesis using assms read there(2) by (auto simp: Devices_load_def on_disk_def Let_def)
  next
    case (ReadFailed x)
    then show ?thesis using assms read by (simp add: Devices_load_def Let_def)
  qed
  then show "dv_path self = dir @ [FILE_NAME]" "on_disk json self env'" by blast+
  show "\<not> dotted (dv_path self)" using load by (simp add: dotted_def FILE_NAME_def chars_def)
qed

section \<open>Properties\<close>

text \<open>
  C12. After any changes to a loaded device store, failed writes included, a restart reads back the devices that memory
  holds, apart from the time each was last seen, unless a sync of the state directory failed after the file
  was replaced. A change that fails leaves the devices in memory as they were.
\<close>

theorem device_store_durable:
  assumes "Devices_load json dir env0 = (Inr self0, env1)" "json_reads json"
    "dev_run json ops self0 env1 = (rs, self, env)" "ev_io env = []"
    "\<forall>source. Some (Store Sync dir source) \<notin> set rs"
  shows "(\<exists>again. Devices_load json dir env = (Inr again, env) \<and> map unseen (dv_records again) = map unseen (dv_records self)) \<and>
    (\<forall>op. let (r, self', env') = dev_step json op self env in r \<noteq> None \<longrightarrow> map unseen (dv_records self') = map unseen (dv_records self))"
proof -
  note load = load_on_disk [OF assms(1)]
  have "path_parent (dv_path self0) = dir" by (simp add: load(1) path_parent_def)
  then have run: "on_disk json self env" "dv_path self = dir @ [FILE_NAME]"
    using on_disk_run [OF load(3) assms(2) load(2) assms(3)] assms(5) load(1) by auto
  have "\<exists>again. Devices_load json dir env = (Inr again, env) \<and> map unseen (dv_records again) = map unseen (dv_records self)"
    using run assms(4) by (auto simp: Devices_load_def fs_read_def io_call_def on_disk_def Let_def split: option.splits)
  moreover have "let (r, self', env') = dev_step json op self env in r \<noteq> None \<longrightarrow> map unseen (dv_records self') = map unseen (dv_records self)" for op
    using dev_step_kept [of self json env op] assms(2) load(1,3) run(2) by (auto simp: store_kept_def split: option.splits)
  ultimately show ?thesis by blast
qed

text \<open>An example of the packages: one store file that serde_json can write.\<close>

definition sample_phone :: NewDevice where
  "sample_phone = \<lparr>nd_app = None, nd_id = chars ''d1'', nd_name = chars ''phone'', nd_public_key = [4]\<rparr>"

definition sample_file :: StoreFile where
  "sample_file = \<lparr>sf_version = 1, sf_devices = [\<lparr>dr_app = None, dr_id = chars ''d1'', dr_name = chars ''phone'', dr_public_key = [4],
     dr_created_ms = 5, dr_last_seen_ms = None, dr_push = None, dr_apns = None, dr_via = None, dr_links = []\<rparr>]\<rparr>"

definition sample_json :: StoreLib where
  "sample_json = \<lparr>js_to_vec_pretty = (\<lambda>file. if file = sample_file then Some [1] else None),
     js_from_slice = (\<lambda>content. if content = [1] then Some sample_file else None)\<rparr>"

definition quiet_env :: "io_error option list \<Rightarrow> Env" where
  "quiet_env io = \<lparr>ev_draws = [], ev_files = (\<lambda>_. None), ev_io = io, ev_pid = 1, ev_temp = 1\<rparr>"

lemmas store_eval = sample_phone_def sample_file_def sample_json_def quiet_env_def Devices_load_def fs_read_def io_call_def add_with_def
  save_or_undo_def Devices_save_def write_private_def write_and_rename_def Let_def VERSION_def path_parent_def

lemma sample_json_reads: "json_reads sample_json"
  by (simp add: json_reads_def sample_json_def)

lemma json_fields: "js_to_vec_pretty sample_json sample_file = Some [1]" "js_from_slice sample_json [1] = Some sample_file"
  by (simp_all add: sample_json_def)

text \<open>
  When the sync of the directory fails after the rename, the device is reported as not stored and memory forgets it,
  but the file holds it: a restart finds it paired.
\<close>

lemma sync_failure_keeps_device:
  assumes "json_reads json" "\<not> dotted (dv_path self)"
    "add_with json device now via links self env = (Inl (Store Sync (path_parent (dv_path self)) source), self', env')"
  shows "self' = self \<and> (\<exists>content file. ev_files env' (dv_path self) = Some content \<and> js_from_slice json content = Some file \<and>
    nd_id device \<in> dr_id ` set (sf_devices file))"
proof -
  let ?r = "\<lparr>dr_app = nd_app device, dr_id = nd_id device, dr_name = nd_name device, dr_public_key = nd_public_key device,
            dr_created_ms = now, dr_last_seen_ms = None, dr_push = None, dr_apns = None, dr_via = via, dr_links = links\<rparr>"
  let ?self = "self\<lparr>dv_records := dv_records self @ [?r]\<rparr>"
  obtain r0 env0 where save: "Devices_save json ?self env = (r0, env0)" by fastforce
  have r0: "r0 = Inl (Store Sync (path_parent (dv_path self)) source)" and self: "self' = self" "env' = env0"
    using assms(3) save by (auto simp: add_with_def save_or_undo_def split: sum.splits)
  obtain content where content: "js_to_vec_pretty json \<lparr>sf_version = VERSION, sf_devices = dv_records ?self\<rparr> = Some content"
      "write_private (dv_path self) content env = (r0, env0)"
    using save r0 by (auto simp: Devices_save_def split: option.splits)
  have "ev_files env0 (dv_path self) = Some content"
    using synced_replaced [OF content(2) assms(2) r0] .
  then show ?thesis using content(1) assms(1) self unfolding json_reads_def by fastforce
qed

theorem device_store_durable_witness:
  "\<exists>again. Devices_load sample_json [] (snd (snd (dev_run sample_json [Op_add sample_phone 5 None []] \<lparr>dv_path = [FILE_NAME], dv_records = [], dv_stored_seen = Map.empty\<rparr> (quiet_env [])))) =
     (Inr again, snd (snd (dev_run sample_json [Op_add sample_phone 5 None []] \<lparr>dv_path = [FILE_NAME], dv_records = [], dv_stored_seen = Map.empty\<rparr> (quiet_env [])))) \<and>
   map unseen (dv_records again) = map unseen (sf_devices sample_file)"
proof -
  let ?self = "\<lparr>dv_path = [FILE_NAME], dv_records = [], dv_stored_seen = Map.empty\<rparr>"
  have load: "Devices_load sample_json [] (quiet_env []) = (Inr ?self, quiet_env [])"
    by (simp add: Devices_load_def fs_read_def io_call_def quiet_env_def List.map_filter_simps)
  obtain rs self env where run: "dev_run sample_json [Op_add sample_phone 5 None []] ?self (quiet_env []) = (rs, self, env)" by (rule prod_cases3)
  have "rs = [None]" "dv_records self = sf_devices sample_file" "ev_io env = []"
    using run by (auto simp: store_eval)
  then show ?thesis using device_store_durable [OF load sample_json_reads run] run by (simp add: \<open>rs = [None]\<close>)
qed

end
