(* ===== verification/Pairing.thy ===== *)
theory Pairing
  imports Device_Store
begin

text \<open>
  The pairing the desktop dialog holds open (\<open>sheprd-remote-control/src/auth/pairing.rs\<close>): tokens, the claim of a
  phone, the answer of a person, and the outcomes phones may still poll.
\<close>

section \<open>Data\<close>

definition TOKEN_TTL_MS :: nat where "TOKEN_TTL_MS = 60000"

definition APPROVAL_TTL_MS :: nat where "APPROVAL_TTL_MS = 120000"

definition MAX_NEARBY_REVEALS :: nat where "MAX_NEARBY_REVEALS = 3"

definition REMEMBERED_OUTCOMES :: nat where "REMEMBERED_OUTCOMES = 8"

datatype PairingState =
    State_Waiting (expires_in_ms: nat)
  | State_Claimed (device_name_of: str) (code_of: str) (app_of: "str option")
  | State_Approved DeviceId
  | State_Denied
  | State_Expired

record Claim =
  cl_id :: ClaimId
  cl_code :: str
  cl_expires_ms :: nat

record Offer =
  of_id :: PairingId
  of_url :: str
  of_fingerprint :: str
  of_expires_in_ms :: nat
  of_addresses :: "str list"

record NearbyToken =
  nt_digest :: bytes
  nt_code :: str
  nt_expires_ms :: nat

datatype Phase =
    Waiting
  | Claimed ClaimId NewDevice str nat
  | Finished "ClaimId option" PairingState

record Open =
  op_id :: PairingId
  op_token_digest :: bytes
  op_token_expires_ms :: nat
  op_nearby :: "NearbyToken option"
  op_nearby_reveals :: nat
  op_phase :: Phase

type_synonym Outcomes = "(ClaimId \<times> PairingState) list"

record Pairings =
  pg_open :: "Open option"
  pg_outcomes :: Outcomes

definition Pairings_default :: Pairings where
  "Pairings_default = \<lparr>pg_open = None, pg_outcomes = []\<rparr>"

section \<open>Operations\<close>

definition NearbyToken_live :: "NearbyToken \<Rightarrow> nat \<Rightarrow> bool" where
  "NearbyToken_live self now_ms \<longleftrightarrow> now_ms < nt_expires_ms self"

definition claimable_until :: "Open \<Rightarrow> nat" where
  "claimable_until self = (case op_nearby self of
     None \<Rightarrow> op_token_expires_ms self | Some nearby \<Rightarrow> max (nt_expires_ms nearby) (op_token_expires_ms self))"

definition unclaimed :: "Open \<Rightarrow> bool" where
  "unclaimed self = (case op_phase self of Waiting \<Rightarrow> True | Finished None _ \<Rightarrow> True | _ \<Rightarrow> False)"

definition Open_view :: "Open \<Rightarrow> nat \<Rightarrow> PairingState" where
  "Open_view self now_ms = (case op_phase self of
     Waiting \<Rightarrow> State_Waiting (claimable_until self - now_ms)
   | Claimed claim device code deadline \<Rightarrow> State_Claimed (nd_name device) code (nd_app device)
   | Finished claim state \<Rightarrow> state)"

text \<open>\<open>settle\<close>, with the phase it replaced.\<close>

definition settle :: "Open \<Rightarrow> Outcomes \<Rightarrow> PairingState \<Rightarrow> Open \<times> Outcomes \<times> Phase" where
  "settle opn outcomes state = (case op_phase opn of
     Claimed claim device code deadline \<Rightarrow>
       let outcomes = (if length outcomes = REMEMBERED_OUTCOMES then tl outcomes else outcomes)
       in (opn\<lparr>op_phase := Finished (Some claim) state\<rparr>, outcomes @ [(claim, state)], op_phase opn)
   | _ \<Rightarrow> (opn, outcomes, Waiting))"

definition refresh :: "Open \<Rightarrow> Outcomes \<Rightarrow> nat \<Rightarrow> Open \<times> Outcomes" where
  "refresh opn outcomes now_ms = (case op_phase opn of
     Waiting \<Rightarrow> if claimable_until opn \<le> now_ms then (opn\<lparr>op_phase := Finished None State_Expired\<rparr>, outcomes) else (opn, outcomes)
   | Claimed claim device code deadline_ms \<Rightarrow>
       if deadline_ms \<le> now_ms then (let (opn, outcomes, _) = settle opn outcomes State_Expired in (opn, outcomes)) else (opn, outcomes)
   | Finished claim state \<Rightarrow> (opn, outcomes))"

definition find_open :: "Open option \<Rightarrow> PairingId \<Rightarrow> (Open, AuthError) result" where
  "find_open opn ident = (case opn of
     Some o' \<Rightarrow> if op_id o' = ident then Inr o' else Inl UnknownPairing | None \<Rightarrow> Inl UnknownPairing)"

definition Pairings_close :: "Pairings \<Rightarrow> Pairings" where
  "Pairings_close self = (case pg_open self of
     None \<Rightarrow> self
   | Some opn \<Rightarrow> let (_, outcomes, _) = settle opn (pg_outcomes self) State_Denied in \<lparr>pg_open = None, pg_outcomes = outcomes\<rparr>)"

definition Pairings_mint :: "AuthLib \<Rightarrow> Pairings \<Rightarrow> nat \<Rightarrow> str list \<Rightarrow> str \<Rightarrow> Env \<Rightarrow> (Offer, AuthError) result \<times> Pairings \<times> Env" where
  "Pairings_mint lib self now_ms origins fingerprint env =
     (case origins of [] \<Rightarrow> (Inl NoAddress, self, env)
      | origin # _ \<Rightarrow>
          case random_bytes SECRET_LEN env of
            (Inl e, env) \<Rightarrow> (Inl e, self, env)
          | (Inr token, env) \<Rightarrow>
              let keep = (case pg_open self of Some opn \<Rightarrow> if unclaimed opn then Some opn else None | None \<Rightarrow> None);
                  (drawn, env) = (case keep of
                     Some opn \<Rightarrow> (Inr (op_id opn, op_nearby opn, op_nearby_reveals opn), env)
                   | None \<Rightarrow> (case random_id lib env of
                       (Inl e, env) \<Rightarrow> (Inl e, env) | (Inr ident, env) \<Rightarrow> (Inr (ident, None, 0), env)))
              in case drawn of
                   Inl e \<Rightarrow> (Inl e, self, env)
                 | Inr (ident, nearby, reveals) \<Rightarrow>
                     let self = Pairings_close self
                     in (Inr \<lparr>of_id = ident,
                              of_url = origin @ chars ''/pair#t='' @ b64_encode lib token @ chars ''&fp='' @ filter (\<lambda>c. c \<noteq> 58) fingerprint,
                              of_fingerprint = fingerprint, of_expires_in_ms = TOKEN_TTL_MS, of_addresses = origins\<rparr>,
                         self\<lparr>pg_open := Some \<lparr>op_id = ident, op_token_digest = sha256 lib [token],
                           op_token_expires_ms = u64_saturating_add now_ms TOKEN_TTL_MS, op_nearby = nearby,
                           op_nearby_reveals = reveals, op_phase = Waiting\<rparr>\<rparr>, env))"

definition matching_code :: "AuthLib \<Rightarrow> bytes \<Rightarrow> bytes \<Rightarrow> bytes \<Rightarrow> str" where
  "matching_code lib token public_key nonce = six_digits (from_be_4 (sha256 lib [token, public_key, nonce]) mod 1000000)"

text \<open>The draws of a claim, in the order the code makes them: nonce, claim and device.\<close>

definition claim_draws :: "AuthLib \<Rightarrow> Env \<Rightarrow> (bytes \<times> str \<times> str, AuthError) result \<times> Env" where
  "claim_draws lib env = (case random_bytes SECRET_LEN env of
     (Inl e, env) \<Rightarrow> (Inl e, env)
   | (Inr nonce, env) \<Rightarrow> (case random_id lib env of
       (Inl e, env) \<Rightarrow> (Inl e, env)
     | (Inr claim, env) \<Rightarrow> (case random_id lib env of
         (Inl e, env) \<Rightarrow> (Inl e, env)
       | (Inr device, env) \<Rightarrow> (Inr (nonce, claim, device), env))))"

text \<open>The second half of \<open>claim\<close>, once the pairing waits and the token given has not expired.\<close>

definition claim_waiting :: "AuthLib \<Rightarrow> Open \<Rightarrow> bool \<Rightarrow> bytes \<Rightarrow> str \<Rightarrow> str \<Rightarrow> nat \<Rightarrow> Env \<Rightarrow> (Claim, AuthError) result \<times> Open \<times> Env" where
  "claim_waiting lib opn nearby token device_name_input public_key now_ms env =
     (case device_name device_name_input of
        Inl e \<Rightarrow> (Inl e, opn, env)
      | Inr name \<Rightarrow>
          case PublicKey_parse lib public_key of
            Inl e \<Rightarrow> (Inl e, opn, env)
          | Inr key \<Rightarrow>
              case claim_draws lib env of
                (Inl e, env) \<Rightarrow> (Inl e, opn, env)
              | (Inr (nonce, claim, ident), env) \<Rightarrow>
                  let device = \<lparr>nd_app = None, nd_id = ident, nd_name = name, nd_public_key = key\<rparr>;
                      (code, left) = (case op_nearby opn of
                         Some t \<Rightarrow> if nearby then (nt_code t, None) else (matching_code lib token key nonce, Some t)
                       | None \<Rightarrow> (matching_code lib token key nonce, None));
                      deadline = u64_saturating_add now_ms APPROVAL_TTL_MS
                  in (Inr \<lparr>cl_id = claim, cl_code = code, cl_expires_ms = deadline\<rparr>,
                      opn\<lparr>op_nearby := left, op_phase := Claimed claim device code deadline\<rparr>, env))"

definition Pairings_claim :: "AuthLib \<Rightarrow> Pairings \<Rightarrow> str \<Rightarrow> str \<Rightarrow> str \<Rightarrow> nat \<Rightarrow> Env \<Rightarrow> (Claim, AuthError) result \<times> Pairings \<times> Env" where
  "Pairings_claim lib self token device_name_input public_key now_ms env =
     (case decode_fixed lib SECRET_LEN token of
        None \<Rightarrow> (Inl InvalidToken, self, env)
      | Some token \<Rightarrow>
          let digest = sha256 lib [token]
          in case pg_open self of
               None \<Rightarrow> (Inl InvalidToken, self, env)
             | Some opn \<Rightarrow>
                 let nearby = (case op_nearby opn of None \<Rightarrow> False | Some t \<Rightarrow> constant_time_eq (nt_digest t) digest)
                 in if \<not> nearby \<and> \<not> constant_time_eq (op_token_digest opn) digest then (Inl InvalidToken, self, env)
                    else let (opn, outcomes) = refresh opn (pg_outcomes self) now_ms;
                             self = \<lparr>pg_open = Some opn, pg_outcomes = outcomes\<rparr>
                         in case op_phase opn of
                              Finished None _ \<Rightarrow> (Inl ExpiredToken, self, env)
                            | Finished (Some _) _ \<Rightarrow> (Inl AlreadyClaimed, self, env)
                            | Claimed claim device code deadline \<Rightarrow>
                                (let (opn, outcomes, _) = settle opn outcomes State_Denied
                                 in (Inl AlreadyClaimed, \<lparr>pg_open = Some opn, pg_outcomes = outcomes\<rparr>, env))
                            | Waiting \<Rightarrow>
                                if (if nearby then \<not> (case op_nearby opn of None \<Rightarrow> False | Some t \<Rightarrow> NearbyToken_live t now_ms)
                                    else op_token_expires_ms opn \<le> now_ms)
                                then (Inl ExpiredToken, self, env)
                                else case claim_waiting lib opn nearby token device_name_input public_key now_ms env of
                                       (r, opn, env) \<Rightarrow> (r, self\<lparr>pg_open := Some opn\<rparr>, env))"

definition Pairings_waiting :: "Pairings \<Rightarrow> nat \<Rightarrow> bool \<times> Pairings" where
  "Pairings_waiting self now_ms = (case pg_open self of
     None \<Rightarrow> (False, self)
   | Some opn \<Rightarrow> let (opn, outcomes) = refresh opn (pg_outcomes self) now_ms
                 in (op_phase opn = Waiting, \<lparr>pg_open = Some opn, pg_outcomes = outcomes\<rparr>))"

definition set_nearby :: "AuthLib \<Rightarrow> Pairings \<Rightarrow> bytes \<Rightarrow> str \<Rightarrow> nat \<Rightarrow> (unit, AuthError) result \<times> Pairings" where
  "set_nearby lib self token code now_ms =
     (let (waits, self) = Pairings_waiting self now_ms
      in if \<not> waits then (Inl NoPairing, self)
         else case pg_open self of
                None \<Rightarrow> (Inl NoPairing, self)
              | Some opn \<Rightarrow>
                  if MAX_NEARBY_REVEALS \<le> op_nearby_reveals opn then (Inl NearbyExhausted, self)
                  else (Inr (), self\<lparr>pg_open := Some (opn\<lparr>op_nearby_reveals := op_nearby_reveals opn + 1,
                         op_nearby := Some \<lparr>nt_digest = sha256 lib [token], nt_code = code,
                           nt_expires_ms = u64_saturating_add now_ms TOKEN_TTL_MS\<rparr>\<rparr>)\<rparr>))"

definition claimed_from :: "Pairings \<Rightarrow> ClaimId \<Rightarrow> str \<Rightarrow> Pairings" where
  "claimed_from self claim origin = (case pg_open self of
     None \<Rightarrow> self
   | Some opn \<Rightarrow> (case op_phase opn of
       Claimed ident device code deadline \<Rightarrow>
         if ident = claim then self\<lparr>pg_open := Some (opn\<lparr>op_phase := Claimed ident (device\<lparr>nd_app := Some origin\<rparr>) code deadline\<rparr>)\<rparr> else self
     | _ \<Rightarrow> self))"

definition Pairings_state :: "Pairings \<Rightarrow> PairingId \<Rightarrow> nat \<Rightarrow> (PairingState, AuthError) result \<times> Pairings" where
  "Pairings_state self ident now_ms = (case find_open (pg_open self) ident of
     Inl e \<Rightarrow> (Inl e, self)
   | Inr opn \<Rightarrow> let (opn, outcomes) = refresh opn (pg_outcomes self) now_ms
                in (Inr (Open_view opn now_ms), \<lparr>pg_open = Some opn, pg_outcomes = outcomes\<rparr>))"

definition claim_status :: "Pairings \<Rightarrow> ClaimId \<Rightarrow> nat \<Rightarrow> (PairingState, AuthError) result \<times> Pairings" where
  "claim_status self ident now_ms =
     (let self = (case pg_open self of None \<Rightarrow> self
                  | Some opn \<Rightarrow> let (opn, outcomes) = refresh opn (pg_outcomes self) now_ms
                                in \<lparr>pg_open = Some opn, pg_outcomes = outcomes\<rparr>);
          remembered = ok_or (map_of (rev (pg_outcomes self)) ident) UnknownClaim
      in case pg_open self of
           None \<Rightarrow> (remembered, self)
         | Some opn \<Rightarrow> (case op_phase opn of
             Claimed claim device code deadline \<Rightarrow>
               if claim = ident then (Inr (Open_view opn now_ms), self) else (remembered, self)
           | _ \<Rightarrow> (remembered, self)))"

text \<open>\<open>answer\<close>: \<open>keep\<close> is the closure that stores the device, on a state of its own.\<close>

definition Pairings_answer :: "Pairings \<Rightarrow> PairingId \<Rightarrow> bool \<Rightarrow> nat \<Rightarrow> (NewDevice \<Rightarrow> 's \<Rightarrow> (unit, AuthError) result \<times> 's) \<Rightarrow> 's
    \<Rightarrow> (NewDevice option, AuthError) result \<times> Pairings \<times> 's" where
  "Pairings_answer self ident allow now_ms keep s = (case find_open (pg_open self) ident of
     Inl e \<Rightarrow> (Inl e, self, s)
   | Inr opn \<Rightarrow>
       let (opn, outcomes) = refresh opn (pg_outcomes self) now_ms;
           after = (\<lambda>state. let (opn, outcomes, _) = settle opn outcomes state in \<lparr>pg_open = Some opn, pg_outcomes = outcomes\<rparr>)
       in case op_phase opn of
            Claimed claim device code deadline \<Rightarrow>
              if \<not> allow then (Inr None, after State_Denied, s)
              else (case keep device s of
                      (Inl e, s) \<Rightarrow> (Inl e, after State_Denied, s)
                    | (Inr u, s) \<Rightarrow> (Inr (Some device), after (State_Approved (nd_id device)), s))
          | _ \<Rightarrow> (Inl NotClaimed, \<lparr>pg_open = Some opn, pg_outcomes = outcomes\<rparr>, s))"

definition Pairings_cancel :: "Pairings \<Rightarrow> PairingId \<Rightarrow> (unit, AuthError) result \<times> Pairings" where
  "Pairings_cancel self ident = (case find_open (pg_open self) ident of
     Inl e \<Rightarrow> (Inl e, self) | Inr opn \<Rightarrow> (Inr (), Pairings_close self))"

end
