(* ===== verification/Auth_Sessions.thy ===== *)
theory Auth_Sessions
  imports Pairing
begin

text \<open>
  How a paired phone proves itself: signed challenges and bearer tokens (\<open>auth/session.rs\<close>), presence over
  Bluetooth (\<open>auth/presence.rs\<close>), the handoff to a Home Screen app (\<open>auth/handoff.rs\<close>) and the two steps of nearby
  pairing (\<open>auth/nearby.rs\<close>), of \<open>sheprd-remote-control/src\<close>.
\<close>

section \<open>Sessions\<close>

type_synonym ChallengeId = str

definition CHALLENGE_TTL_MS :: nat where "CHALLENGE_TTL_MS = 60000"

definition SESSION_TTL_MS :: nat where "SESSION_TTL_MS = 12 * 60 * 60 * 1000"

definition MAX_CHALLENGES_PER_DEVICE :: nat where "MAX_CHALLENGES_PER_DEVICE = 8"

definition MAX_SESSIONS_PER_DEVICE :: nat where "MAX_SESSIONS_PER_DEVICE = 16"

definition SIGNED_PREFIX :: bytes where "SIGNED_PREFIX = as_bytes ''herdr-remote-session'' @ [0]"

definition SIGNATURE_LEN :: nat where "SIGNATURE_LEN = 64"

record Challenge =
  ch_id :: ChallengeId
  ch_nonce :: str
  ch_expires_ms :: nat

record AuthSession =
  as_token :: str
  as_device :: DeviceId
  as_expires_ms :: nat

record PendingChallenge =
  pc_device :: DeviceId
  pc_nonce :: bytes
  pc_issued_ms :: nat
  pc_expires_ms :: nat

record LiveSession =
  lv_device :: DeviceId
  lv_issued_ms :: nat
  lv_expires_ms :: nat

record Sessions =
  ss_challenges :: "(ChallengeId \<times> PendingChallenge) list"
  ss_sessions :: "(bytes \<times> LiveSession) list"

definition Sessions_default :: Sessions where
  "Sessions_default = \<lparr>ss_challenges = [], ss_sessions = []\<rparr>"

definition signed_message :: "bytes \<Rightarrow> bytes" where
  "signed_message nonce = SIGNED_PREFIX @ nonce"

text \<open>The oldest entry of a device goes when it has \<open>limit\<close> of them.\<close>

definition drop_oldest :: "('v \<Rightarrow> DeviceId) \<Rightarrow> ('v \<Rightarrow> nat) \<Rightarrow> nat \<Rightarrow> DeviceId \<Rightarrow> ('k \<times> 'v) list \<Rightarrow> ('k \<times> 'v) list" where
  "drop_oldest owner issued limit device m =
     (let owned = filter (\<lambda>(k, v). owner v = device) m
      in if limit \<le> length owned
         then (case min_by_key (\<lambda>(k, v). issued v) owned of None \<Rightarrow> m | Some (oldest, _) \<Rightarrow> AList.delete oldest m)
         else m)"

definition Sessions_challenge :: "AuthLib \<Rightarrow> Sessions \<Rightarrow> DeviceId \<Rightarrow> nat \<Rightarrow> Devices \<Rightarrow> Env \<Rightarrow> (Challenge, AuthError) result \<times> Sessions \<times> Env" where
  "Sessions_challenge lib self device now_ms devices env =
     (if Devices_get devices device = None then (Inl UnknownDevice, self, env)
      else let live = retain (\<lambda>_ p. now_ms < pc_expires_ms p) (ss_challenges self);
               self = self\<lparr>ss_challenges := drop_oldest pc_device pc_issued_ms MAX_CHALLENGES_PER_DEVICE device live\<rparr>
           in case random_bytes SECRET_LEN env of
                (Inl e, env) \<Rightarrow> (Inl e, self, env)
              | (Inr nonce, env) \<Rightarrow>
                  case random_id lib env of
                    (Inl e, env) \<Rightarrow> (Inl e, self, env)
                  | (Inr ident, env) \<Rightarrow>
                      let expires = u64_saturating_add now_ms CHALLENGE_TTL_MS
                      in (Inr \<lparr>ch_id = ident, ch_nonce = b64_encode lib nonce, ch_expires_ms = expires\<rparr>,
                          self\<lparr>ss_challenges := AList.update ident
                            \<lparr>pc_device = device, pc_nonce = nonce, pc_issued_ms = now_ms, pc_expires_ms = expires\<rparr> (ss_challenges self)\<rparr>,
                          env))"

definition Sessions_start :: "AuthLib \<Rightarrow> Sessions \<Rightarrow> DeviceId \<Rightarrow> nat \<Rightarrow> Env \<Rightarrow> (AuthSession, AuthError) result \<times> Sessions \<times> Env" where
  "Sessions_start lib self device now_ms env =
     (let live = retain (\<lambda>_ l. now_ms < lv_expires_ms l) (ss_sessions self);
          self = self\<lparr>ss_sessions := drop_oldest lv_device lv_issued_ms MAX_SESSIONS_PER_DEVICE device live\<rparr>
      in case random_bytes SECRET_LEN env of
           (Inl e, env) \<Rightarrow> (Inl e, self, env)
         | (Inr token, env) \<Rightarrow>
             let expires = u64_saturating_add now_ms SESSION_TTL_MS
             in (Inr \<lparr>as_token = b64_encode lib token, as_device = device, as_expires_ms = expires\<rparr>,
                 self\<lparr>ss_sessions := AList.update (sha256 lib [token])
                   \<lparr>lv_device = device, lv_issued_ms = now_ms, lv_expires_ms = expires\<rparr> (ss_sessions self)\<rparr>, env))"

definition Sessions_verify :: "AuthLib \<Rightarrow> Sessions \<Rightarrow> ChallengeId \<Rightarrow> str \<Rightarrow> nat \<Rightarrow> Devices \<Rightarrow> Env \<Rightarrow> (AuthSession, AuthError) result \<times> Sessions \<times> Env" where
  "Sessions_verify lib self challenge signature now_ms devices env =
     (let found = map_of (ss_challenges self) challenge;
          self = self\<lparr>ss_challenges := AList.delete challenge (ss_challenges self)\<rparr>
      in case found of
           None \<Rightarrow> (Inl UnknownChallenge, self, env)
         | Some pending \<Rightarrow>
             if \<not> now_ms < pc_expires_ms pending then (Inl UnknownChallenge, self, env)
             else case decode_fixed lib SIGNATURE_LEN signature of
                    None \<Rightarrow> (Inl InvalidSignature, self, env)
                  | Some bytes \<Rightarrow>
                      if \<not> signature_from_slice lib bytes then (Inl InvalidSignature, self, env)
                      else case Devices_get devices (pc_device pending) of
                             None \<Rightarrow> (Inl UnknownDevice, self, env)
                           | Some r \<Rightarrow>
                               case verifying_key lib (dr_public_key r) of
                                 Inl e \<Rightarrow> (Inl e, self, env)
                               | Inr key \<Rightarrow>
                                   if \<not> p256_verify lib key (signed_message (pc_nonce pending)) bytes then (Inl InvalidSignature, self, env)
                                   else Sessions_start lib self (pc_device pending) now_ms env)"

definition Sessions_authenticate :: "AuthLib \<Rightarrow> Sessions \<Rightarrow> str \<Rightarrow> nat \<Rightarrow> DeviceId option \<times> Sessions" where
  "Sessions_authenticate lib self bearer now_ms =
     (case decode_fixed lib SECRET_LEN bearer of
        None \<Rightarrow> (None, self)
      | Some token \<Rightarrow>
          let digest = sha256 lib [token]
          in case map_of (ss_sessions self) digest of
               None \<Rightarrow> (None, self)
             | Some live \<Rightarrow>
                 if lv_expires_ms live \<le> now_ms then (None, self\<lparr>ss_sessions := AList.delete digest (ss_sessions self)\<rparr>)
                 else (Some (lv_device live), self))"

definition end_device :: "Sessions \<Rightarrow> DeviceId \<Rightarrow> Sessions" where
  "end_device self device =
     \<lparr>ss_challenges = retain (\<lambda>_ p. pc_device p \<noteq> device) (ss_challenges self),
      ss_sessions = retain (\<lambda>_ l. lv_device l \<noteq> device) (ss_sessions self)\<rparr>"

section \<open>Presence\<close>

definition NONCE_TTL_MS :: nat where "NONCE_TTL_MS = 30000"

definition MAX_PENDING_PER_DEVICE :: nat where "MAX_PENDING_PER_DEVICE = 4"

definition MAX_PENDING :: nat where "MAX_PENDING = 64"

definition PREFIX :: bytes where "PREFIX = as_bytes ''herdr-presence-v1''"

definition CHALLENGE_PREFIX :: bytes where "CHALLENGE_PREFIX = as_bytes ''herdr-presence-challenge-v1''"

definition HINT_PREFIX :: bytes where "HINT_PREFIX = as_bytes ''herdr-presence-hint-v1''"

definition HINT_LEN :: nat where "HINT_LEN = 16"

definition DAY_MS :: nat where "DAY_MS = 86400000"

record PendingPresence =
  pp_device :: DeviceId
  pp_nonce :: bytes
  pp_expires_ms :: nat

record Presences =
  pr_pending :: "PendingPresence list"

definition be_bytes_32 :: "nat \<Rightarrow> bytes" where
  "be_bytes_32 n = [of_nat (n div 16777216), of_nat (n div 65536), of_nat (n div 256), of_nat n]"

definition hint :: "AuthLib \<Rightarrow> DeviceId \<Rightarrow> nat \<Rightarrow> bytes" where
  "hint lib device day =
     (let day = be_bytes_32 (if day \<le> U32_MAX then day else U32_MAX)
      in take HINT_LEN (sha256 lib [HINT_PREFIX, str_bytes device, day]))"

definition challenge_message :: "bytes \<Rightarrow> DeviceId \<Rightarrow> bytes" where
  "challenge_message nonce device = CHALLENGE_PREFIX @ nonce @ str_bytes device"

definition presence_message :: "bytes \<Rightarrow> bytes \<Rightarrow> bytes" where
  "presence_message fingerprint nonce = PREFIX @ fingerprint @ nonce"

definition hinted_device :: "AuthLib \<Rightarrow> bytes \<Rightarrow> nat \<Rightarrow> Devices \<Rightarrow> DeviceId option" where
  "hinted_device lib given today devices =
     List.find (\<lambda>device. fold (\<lambda>day found. found \<or> constant_time_eq given (hint lib device day))
       [today - 1, today, u64_saturating_add today 1] False) (Devices_ids devices)"

definition Presences_challenge :: "AuthLib \<Rightarrow> Presences \<Rightarrow> str \<Rightarrow> nat \<Rightarrow> Devices \<Rightarrow> Env
    \<Rightarrow> (DeviceId \<times> bytes, AuthError) result \<times> Presences \<times> Env" where
  "Presences_challenge lib self text now_ms devices env =
     (case decode_fixed lib HINT_LEN text of
        None \<Rightarrow> (Inl UnknownPresence, self, env)
      | Some given \<Rightarrow>
          case hinted_device lib given (now_ms div DAY_MS) devices of
            None \<Rightarrow> (Inl UnknownPresence, self, env)
          | Some device \<Rightarrow>
              let pending = filter (\<lambda>p. now_ms < pp_expires_ms p) (pr_pending self);
                  waiting = length (filter (\<lambda>p. pp_device p = device) pending);
                  pending = (if MAX_PENDING_PER_DEVICE \<le> waiting
                             then (case iter_position (\<lambda>p. pp_device p = device) pending of None \<Rightarrow> pending | Some oldest \<Rightarrow> remove_at oldest pending)
                             else pending);
                  pending = (if MAX_PENDING \<le> length pending then tl pending else pending)
              in case random_bytes SECRET_LEN env of
                   (Inl e, env) \<Rightarrow> (Inl e, \<lparr>pr_pending = pending\<rparr>, env)
                 | (Inr nonce, env) \<Rightarrow>
                     (Inr (device, nonce),
                      \<lparr>pr_pending = pending @ [\<lparr>pp_device = device, pp_nonce = nonce, pp_expires_ms = u64_saturating_add now_ms NONCE_TTL_MS\<rparr>]\<rparr>, env))"

definition Presences_prove :: "AuthLib \<Rightarrow> Presences \<Rightarrow> str \<Rightarrow> str \<Rightarrow> bytes \<Rightarrow> nat \<Rightarrow> Devices \<Rightarrow> (DeviceId, AuthError) result \<times> Presences" where
  "Presences_prove lib self nonce signature fingerprint now_ms devices =
     (case decode_fixed lib SECRET_LEN nonce of
        None \<Rightarrow> (Inl UnknownPresence, self)
      | Some given \<Rightarrow>
          case iter_position (\<lambda>p. constant_time_eq given (pp_nonce p)) (pr_pending self) of
            None \<Rightarrow> (Inl UnknownPresence, self)
          | Some index \<Rightarrow>
              let pending = pr_pending self ! index;
                  self = \<lparr>pr_pending = remove_at index (pr_pending self)\<rparr>
              in if pp_expires_ms pending \<le> now_ms then (Inl UnknownPresence, self)
                 else case decode_fixed lib SIGNATURE_LEN signature of
                        None \<Rightarrow> (Inl UnknownPresence, self)
                      | Some bytes \<Rightarrow>
                          if \<not> signature_from_slice lib bytes then (Inl UnknownPresence, self)
                          else case Devices_get devices (pp_device pending) of
                                 None \<Rightarrow> (Inl UnknownPresence, self)
                               | Some r \<Rightarrow>
                                   case verifying_key lib (dr_public_key r) of
                                     Inl _ \<Rightarrow> (Inl UnknownPresence, self)
                                   | Inr key \<Rightarrow>
                                       if p256_verify lib key (presence_message fingerprint (pp_nonce pending)) bytes
                                       then (Inr (pp_device pending), self) else (Inl UnknownPresence, self))"

section \<open>Handoffs\<close>

definition HANDOFF_TTL_MS :: nat where "HANDOFF_TTL_MS = 24 * 60 * 60000"

definition HANDOFFS_FILE :: str where "HANDOFFS_FILE = chars ''handoffs.json''"

record Handoff =
  ho_token :: str
  ho_expires_ms :: nat

record Handoffs =
  hs_open :: "(DeviceId \<times> (bytes \<times> nat)) list"
  hs_path :: "Path option"

record Saved =
  sv_device :: DeviceId
  sv_digest :: str
  sv_expires_ms :: nat

text \<open>serde_json on the list of saved handoffs.\<close>

record HandoffLib =
  hj_to_vec :: "Saved list \<Rightarrow> bytes option"
  hj_from_slice :: "bytes \<Rightarrow> Saved list option"

definition Handoffs_load :: "AuthLib \<Rightarrow> HandoffLib \<Rightarrow> Path \<Rightarrow> Env \<Rightarrow> Handoffs \<times> Env" where
  "Handoffs_load lib json state_dir env =
     (let path = state_dir @ [HANDOFFS_FILE]; (read, env) = fs_read path env;
          saved = (case read of Bytes bytes \<Rightarrow> (case hj_from_slice json bytes of None \<Rightarrow> [] | Some s \<Rightarrow> s) | _ \<Rightarrow> []);
          entries = List.map_filter (\<lambda>s. map_option (\<lambda>digest. (sv_device s, (digest, sv_expires_ms s))) (decode_fixed lib 32 (sv_digest s))) saved
      in (\<lparr>hs_open = fold (\<lambda>(k, v). AList.update k v) entries [], hs_path = Some path\<rparr>, env))"

definition Handoffs_save :: "AuthLib \<Rightarrow> HandoffLib \<Rightarrow> Handoffs \<Rightarrow> Env \<Rightarrow> (unit, AuthError) result \<times> Env" where
  "Handoffs_save lib json self env = (case hs_path self of
     None \<Rightarrow> (Inr (), env)
   | Some path \<Rightarrow>
       (case hj_to_vec json (map (\<lambda>(device, digest, expires). \<lparr>sv_device = device, sv_digest = b64_encode lib digest, sv_expires_ms = expires\<rparr>) (hs_open self)) of
          None \<Rightarrow> (Inl Encode, env)
        | Some content \<Rightarrow> write_private path content env))"

definition Handoffs_mint :: "AuthLib \<Rightarrow> HandoffLib \<Rightarrow> Handoffs \<Rightarrow> DeviceId \<Rightarrow> nat \<Rightarrow> Env \<Rightarrow> (Handoff, AuthError) result \<times> Handoffs \<times> Env" where
  "Handoffs_mint lib json self device now_ms env =
     (let self = self\<lparr>hs_open := retain (\<lambda>_ (_, expires). now_ms < expires) (hs_open self)\<rparr>
      in case random_bytes SECRET_LEN env of
           (Inl e, env) \<Rightarrow> (Inl e, self, env)
         | (Inr secret, env) \<Rightarrow>
             let token = b64_encode lib secret;
                 expires = u64_add now_ms HANDOFF_TTL_MS;
                 self = self\<lparr>hs_open := AList.update device (sha256 lib [str_bytes token], expires) (hs_open self)\<rparr>
             in case Handoffs_save lib json self env of
                  (Inl e, env) \<Rightarrow> (Inl e, self, env)
                | (Inr u, env) \<Rightarrow> (Inr \<lparr>ho_token = token, ho_expires_ms = expires\<rparr>, self, env))"

definition Handoffs_redeem :: "AuthLib \<Rightarrow> HandoffLib \<Rightarrow> Handoffs \<Rightarrow> str \<Rightarrow> nat \<Rightarrow> Env \<Rightarrow> (DeviceId option, AuthError) result \<times> Handoffs \<times> Env" where
  "Handoffs_redeem lib json self token now_ms env =
     (let digest = sha256 lib [str_bytes token]
      in case List.find (\<lambda>(_, (stored, expires)). now_ms < expires \<and> constant_time_eq stored digest) (hs_open self) of
           None \<Rightarrow> (Inr None, self, env)
         | Some (device, entry) \<Rightarrow>
             let self = self\<lparr>hs_open := AList.delete device (hs_open self)\<rparr>
             in case Handoffs_save lib json self env of
                  (Inl e, env) \<Rightarrow> (Inl e, self\<lparr>hs_open := AList.update device entry (hs_open self)\<rparr>, env)
                | (Inr u, env) \<Rightarrow> (Inr (Some device), self, env))"

definition Handoffs_forget :: "AuthLib \<Rightarrow> HandoffLib \<Rightarrow> Handoffs \<Rightarrow> DeviceId \<Rightarrow> Env \<Rightarrow> (unit, AuthError) result \<times> Handoffs \<times> Env" where
  "Handoffs_forget lib json self device env =
     (if map_of (hs_open self) device = None then (Inr (), self, env)
      else let self = self\<lparr>hs_open := AList.delete device (hs_open self)\<rparr>
           in case Handoffs_save lib json self env of (r, env) \<Rightarrow> (r, self, env))"

section \<open>Nearby pairing\<close>

text \<open>p256, hkdf and aes-gcm on secret keys, and serde_json on the sealed offer.\<close>

record NearbyLib =
  secret_from_slice :: "bytes \<Rightarrow> bool"
  point_of_secret :: "bytes \<Rightarrow> bytes"
  diffie_hellman :: "bytes \<Rightarrow> bytes \<Rightarrow> bytes"
  hkdf_expand :: "bytes \<Rightarrow> bytes \<Rightarrow> bytes \<Rightarrow> bytes option"
  aes_encrypt :: "bytes \<Rightarrow> bytes \<Rightarrow> bytes \<Rightarrow> bytes \<Rightarrow> bytes option"
  offer_to_vec :: "str \<Rightarrow> str list \<Rightarrow> bytes option"

definition COMMIT_DOMAIN :: bytes where "COMMIT_DOMAIN = as_bytes ''herdr-sas-commit-v1''"

definition CODE_DOMAIN :: bytes where "CODE_DOMAIN = as_bytes ''herdr-sas-code-v1''"

definition KEY_INFO :: bytes where "KEY_INFO = as_bytes ''herdr-sas-key-v1''"

definition NEARBY_TTL_MS :: nat where "NEARBY_TTL_MS = 60000"

definition MAX_NEARBY_SESSIONS :: nat where "MAX_NEARBY_SESSIONS = 4"

definition AES_NONCE_LEN :: nat where "AES_NONCE_LEN = 12"

record NearbySession =
  ns_id :: str
  ns_secret :: bytes
  ns_phone :: PublicKey
  ns_nonce :: bytes
  ns_expires_ms :: nat

record NearbyStarted =
  st_session :: str
  st_computer :: str
  st_fingerprint :: str
  st_public_key :: str
  st_commit :: str

record NearbyRevealed =
  rv_nonce :: str
  rv_sealed :: str

definition commit :: "AuthLib \<Rightarrow> bytes \<Rightarrow> bytes \<Rightarrow> bytes \<Rightarrow> bytes" where
  "commit lib daemon_key phone_key daemon_nonce = sha256 lib [COMMIT_DOMAIN, daemon_key, phone_key, daemon_nonce]"

definition transcript :: "bytes \<Rightarrow> bytes \<Rightarrow> bytes \<Rightarrow> bytes \<Rightarrow> bytes \<Rightarrow> bytes" where
  "transcript phone_key daemon_key phone_nonce daemon_nonce fingerprint =
     phone_key @ daemon_key @ phone_nonce @ daemon_nonce @ fingerprint"

definition sas_code :: "AuthLib \<Rightarrow> bytes \<Rightarrow> str" where
  "sas_code lib script = six_digits (from_be_4 (sha256 lib [CODE_DOMAIN, script]) mod 1000000)"

definition sas_key :: "AuthLib \<Rightarrow> NearbyLib \<Rightarrow> bytes \<Rightarrow> bytes \<Rightarrow> (bytes, AuthError) result" where
  "sas_key lib near shared script = ok_or (hkdf_expand near (sha256 lib [script]) shared KEY_INFO) NearbyCrypto"

definition seal :: "NearbyLib \<Rightarrow> bytes \<Rightarrow> bytes \<Rightarrow> bytes \<Rightarrow> (bytes, AuthError) result" where
  "seal near key nonce plaintext = (case aes_encrypt near key nonce plaintext KEY_INFO of
     None \<Rightarrow> Inl NearbyCrypto | Some sealed \<Rightarrow> Inr (nonce @ sealed))"

definition shared_secret :: "AuthLib \<Rightarrow> NearbyLib \<Rightarrow> bytes \<Rightarrow> PublicKey \<Rightarrow> (bytes, AuthError) result" where
  "shared_secret lib near daemon phone = (if sec1_point lib phone then Inr (diffie_hellman near daemon phone) else Inl InvalidKey)"

text \<open>\<open>u8::from_str_radix(text, 16)\<close> on two characters, a plus sign before a digit included.\<close>

definition hex_digit :: "scalar \<Rightarrow> nat option" where
  "hex_digit c = (if 48 \<le> c \<and> c \<le> 57 then Some (c - 48) else if 65 \<le> c \<and> c \<le> 70 then Some (c - 55)
     else if 97 \<le> c \<and> c \<le> 102 then Some (c - 87) else None)"

fun hex_pair :: "bytes \<Rightarrow> u8 option" where
  "hex_pair [a, b] = (case (hex_digit (unat a), hex_digit (unat b)) of
     (Some x, Some y) \<Rightarrow> Some (of_nat (16 * x + y))
   | (None, Some y) \<Rightarrow> if a = 43 then Some (of_nat y) else None
   | _ \<Rightarrow> None)"
| "hex_pair _ = None"

fun hex_pairs :: "bytes \<Rightarrow> bytes option" where
  "hex_pairs (a # b # rest) = (case hex_pair [a, b] of None \<Rightarrow> None | Some x \<Rightarrow> map_option ((#) x) (hex_pairs rest))"
| "hex_pairs [] = Some []"
| "hex_pairs [a] = None"

definition fingerprint_bytes :: "str \<Rightarrow> bytes option" where
  "fingerprint_bytes fingerprint =
     (let digits = filter (\<lambda>b. b \<noteq> 58) (str_bytes fingerprint) in if length digits \<noteq> 64 then None else hex_pairs digits)"

definition hex_upper :: "nat \<Rightarrow> scalar" where
  "hex_upper d = (if d < 10 then 48 + d else 55 + d)"

definition fingerprint_hex :: "bytes \<Rightarrow> str" where
  "fingerprint_hex bytes = concat (map (\<lambda>b. [hex_upper (unat b div 16), hex_upper (unat b mod 16)]) bytes)"

definition Exchange_reveal :: "AuthLib \<Rightarrow> NearbyLib \<Rightarrow> bytes \<Rightarrow> PublicKey \<Rightarrow> bytes \<Rightarrow> bytes \<Rightarrow> bytes \<Rightarrow> bytes \<Rightarrow> str list \<Rightarrow> bytes
    \<Rightarrow> (str \<times> bytes, AuthError) result" where
  "Exchange_reveal lib near daemon phone phone_nonce daemon_nonce fingerprint token origins aes_nonce =
     (let script = transcript phone (point_of_secret near daemon) phone_nonce daemon_nonce fingerprint
      in and_then (shared_secret lib near daemon phone) (\<lambda>shared.
         and_then (sas_key lib near shared script) (\<lambda>key.
         and_then (ok_or (offer_to_vec near (b64_encode lib token) origins) NearbyCrypto) (\<lambda>plaintext.
         and_then (seal near key aes_nonce plaintext) (\<lambda>sealed. Inr (sas_code lib script, sealed))))))"

text \<open>The loop of \<open>random_secret\<close> draws until a value is a valid scalar; it ends with the draws of the environment.\<close>

function random_secret :: "NearbyLib \<Rightarrow> Env \<Rightarrow> (bytes, AuthError) result \<times> Env" where
  "random_secret near env = (case random_bytes 32 env of
     (Inl e, env) \<Rightarrow> (Inl e, env)
   | (Inr bytes, env) \<Rightarrow> if secret_from_slice near bytes then (Inr bytes, env) else random_secret near env)"
  by pat_completeness auto
termination
  by (relation "measure (\<lambda>(near, env). length (ev_draws env))")
    (auto simp: random_bytes_def split: list.splits option.splits)

declare random_secret.simps [simp del]

definition Nearby_start :: "AuthLib \<Rightarrow> NearbyLib \<Rightarrow> NearbySession list \<Rightarrow> str \<Rightarrow> str \<Rightarrow> str \<Rightarrow> nat \<Rightarrow> Env
    \<Rightarrow> (NearbyStarted, AuthError) result \<times> NearbySession list \<times> Env" where
  "Nearby_start lib near self phone_key computer fingerprint now_ms env =
     (case PublicKey_parse lib phone_key of
        Inl e \<Rightarrow> (Inl e, self, env)
      | Inr phone \<Rightarrow>
          case fingerprint_bytes fingerprint of
            None \<Rightarrow> (Inl NearbyCrypto, self, env)
          | Some fp \<Rightarrow>
              let self = filter (\<lambda>s. now_ms < ns_expires_ms s) self
              in if MAX_NEARBY_SESSIONS \<le> length self then (Inl NearbyBusy, self, env)
                 else case random_secret near env of
                        (Inl e, env) \<Rightarrow> (Inl e, self, env)
                      | (Inr secret, env) \<Rightarrow>
                          case random_bytes SECRET_LEN env of
                            (Inl e, env) \<Rightarrow> (Inl e, self, env)
                          | (Inr nonce, env) \<Rightarrow>
                              let point = point_of_secret near secret
                              in case random_id lib env of
                                   (Inl e, env) \<Rightarrow> (Inl e, self, env)
                                 | (Inr ident, env) \<Rightarrow>
                                     (Inr \<lparr>st_session = ident, st_computer = computer, st_fingerprint = fingerprint_hex fp,
                                           st_public_key = b64_encode lib point, st_commit = b64_encode lib (commit lib point phone nonce)\<rparr>,
                                      self @ [\<lparr>ns_id = ident, ns_secret = secret, ns_phone = phone, ns_nonce = nonce,
                                               ns_expires_ms = u64_saturating_add now_ms NEARBY_TTL_MS\<rparr>], env))"

definition Nearby_take :: "NearbySession list \<Rightarrow> str \<Rightarrow> nat \<Rightarrow> (NearbySession, AuthError) result \<times> NearbySession list" where
  "Nearby_take self ident now_ms =
     (let self = filter (\<lambda>s. now_ms < ns_expires_ms s) self
      in case iter_position (\<lambda>s. constant_time_eq (str_bytes (ns_id s)) (str_bytes ident)) self of
           None \<Rightarrow> (Inl UnknownNearby, self)
         | Some index \<Rightarrow> (Inr (self ! index), swap_remove index self))"

definition StartedSession_reveal :: "AuthLib \<Rightarrow> NearbyLib \<Rightarrow> NearbySession \<Rightarrow> str \<Rightarrow> str \<Rightarrow> bytes \<Rightarrow> str list \<Rightarrow> Env
    \<Rightarrow> (NearbyRevealed \<times> str, AuthError) result \<times> Env" where
  "StartedSession_reveal lib near self phone_nonce fingerprint token origins env =
     (case decode_fixed lib SECRET_LEN phone_nonce of
        None \<Rightarrow> (Inl NearbyCrypto, env)
      | Some given \<Rightarrow>
          case fingerprint_bytes fingerprint of
            None \<Rightarrow> (Inl NearbyCrypto, env)
          | Some fp \<Rightarrow>
              case random_bytes AES_NONCE_LEN env of
                (Inl e, env) \<Rightarrow> (Inl e, env)
              | (Inr aes_nonce, env) \<Rightarrow>
                  (and_then (Exchange_reveal lib near (ns_secret self) (ns_phone self) given (ns_nonce self) fp token origins aes_nonce)
                     (\<lambda>(code, sealed). Inr (\<lparr>rv_nonce = b64_encode lib (ns_nonce self), rv_sealed = b64_encode lib sealed\<rparr>, code)), env))"

end
