(* ===== verification/Host_Links.thy ===== *)
theory Host_Links
  imports Auth_Sessions
begin

text \<open>
  Phones' requests to be paired with the other hosts of the desktop, and the revocations owed to those hosts
  (\<open>auth/links.rs\<close> and \<open>control/hosts.rs\<close> of \<open>sheprd-remote-control/src\<close>).
\<close>

section \<open>Data\<close>

definition MAX_HOSTS :: nat where "MAX_HOSTS = 256"

definition MAX_HOST_TEXT :: nat where "MAX_HOST_TEXT = 256"

definition MAX_REASON :: nat where "MAX_REASON = 512"

definition MAX_ORIGINS :: nat where "MAX_ORIGINS = 32"

definition REVOKES_FILE :: str where "REVOKES_FILE = chars ''host-revokes.json''"

definition MAX_ASKS :: nat where "MAX_ASKS = 256"

definition MAX_REVOKES :: nat where "MAX_REVOKES = 1024"

definition TAKEN_TTL_MS :: nat where "TAKEN_TTL_MS = 10 * 60 * 1000"

definition QUEUED_TTL_MS :: nat where "QUEUED_TTL_MS = 24 * 60 * 60 * 1000"

record Host =
  ht_id :: HostId
  ht_name :: str

datatype HostState = Offered | Allowed | Asking | Pending | Paired Enrolled | Failed str

record HostLink =
  hl_host :: HostId
  hl_name :: str
  hl_state :: HostState

record HostPairing =
  hp_device :: DeviceId
  hp_host :: HostId
  hp_name :: str
  hp_public_key :: str
  hp_confirm :: bool
  hp_replace :: "DeviceId option"

record Enroll =
  er_name :: str
  er_public_key :: str
  er_via :: str
  er_replace :: "DeviceId option"

datatype HostOutcome = Outcome_Paired Enrolled | Outcome_Failed str | Outcome_Denied

record HostRevoke =
  hr_host :: HostId
  hr_device :: DeviceId

datatype Stage = Queued | Taken | Stage_Failed str

record Ask =
  ak_name :: str
  ak_public_key :: PublicKey
  ak_confirm :: bool
  ak_replace :: "DeviceId option"
  ak_stage :: Stage
  ak_since_ms :: nat

record Links =
  ln_hosts :: "Host list"
  ln_asks :: "((DeviceId \<times> HostId) \<times> Ask) list"
  ln_revokes :: "HostRevoke list"
  ln_revokes_path :: Path

text \<open>serde_json on the revocations.\<close>

record RevokeLib =
  rj_to_vec_pretty :: "HostRevoke list \<Rightarrow> bytes option"
  rj_from_slice :: "bytes \<Rightarrow> HostRevoke list option"

section \<open>Operations\<close>

definition host_text :: "str \<Rightarrow> bool" where
  "host_text v \<longleftrightarrow> v \<noteq> [] \<and> str_len v \<le> MAX_HOST_TEXT \<and> \<not> list_ex char_is_control v"

definition Host_valid :: "Host \<Rightarrow> bool" where
  "Host_valid self \<longleftrightarrow> host_text (ht_id self) \<and> host_text (ht_name self)"

definition Enrolled_valid :: "Enrolled \<Rightarrow> bool" where
  "Enrolled_valid self \<longleftrightarrow> host_text (en_device self) \<and> host_text (en_computer self) \<and> host_text (en_fingerprint self) \<and>
     length (en_origins self) \<le> MAX_ORIGINS \<and> list_all host_text (en_origins self)"

definition Links_load :: "RevokeLib \<Rightarrow> Path \<Rightarrow> Env \<Rightarrow> Links \<times> Env" where
  "Links_load json state_dir env =
     (let path = state_dir @ [REVOKES_FILE]; (read, env) = fs_read path env
      in (\<lparr>ln_hosts = [], ln_asks = [],
           ln_revokes = (case read of Bytes bytes \<Rightarrow> (case rj_from_slice json bytes of None \<Rightarrow> [] | Some rs \<Rightarrow> rs) | _ \<Rightarrow> []),
           ln_revokes_path = path\<rparr>, env))"

fun first_by_id :: "HostId set \<Rightarrow> Host list \<Rightarrow> Host list" where
  "first_by_id seen [] = []"
| "first_by_id seen (h # hs) = (if ht_id h \<in> seen then first_by_id seen hs else h # first_by_id (insert (ht_id h) seen) hs)"

definition set_hosts :: "Links \<Rightarrow> Host list \<Rightarrow> (unit, AuthError) result \<times> Links" where
  "set_hosts self hosts =
     (if MAX_HOSTS < length hosts \<or> \<not> list_all Host_valid hosts then (Inl (Links InvalidHost), self)
      else (Inr (), self\<lparr>ln_hosts := first_by_id {} hosts\<rparr>))"

definition allowed :: "Links \<Rightarrow> HostId list \<Rightarrow> Link list" where
  "allowed self ids = map (\<lambda>h. \<lparr>lk_host = ht_id h, lk_name = ht_name h, lk_paired = None\<rparr>)
     (filter (\<lambda>h. ht_id h \<in> set ids) (ln_hosts self))"

definition Links_refresh :: "Links \<Rightarrow> nat \<Rightarrow> Links" where
  "Links_refresh self now_ms =
     (let asks = retain (\<lambda>_ ask. ak_stage ask = Taken \<or> now_ms - ak_since_ms ask < QUEUED_TTL_MS) (ln_asks self)
      in self\<lparr>ln_asks := map (\<lambda>(k, ask).
           (k, if ak_stage ask = Taken \<and> TAKEN_TTL_MS \<le> now_ms - ak_since_ms ask
               then ask\<lparr>ak_stage := Stage_Failed (chars ''Sheprd did not finish pairing this host''), ak_since_ms := now_ms\<rparr> else ask)) asks\<rparr>)"

definition Links_state :: "Links \<Rightarrow> DeviceRecord \<Rightarrow> HostId \<Rightarrow> HostState" where
  "Links_state self device host = (case map_of (ln_asks self) (dr_id device, host) of
     Some ask \<Rightarrow> (case ak_stage ask of
        Stage_Failed reason \<Rightarrow> Failed reason
      | _ \<Rightarrow> if ak_confirm ask then Asking else Pending)
   | None \<Rightarrow> (case List.find (\<lambda>link. lk_host link = host) (dr_links device) of
        Some link \<Rightarrow> (case lk_paired link of Some enrolled \<Rightarrow> Paired enrolled | None \<Rightarrow> Allowed)
      | None \<Rightarrow> Offered))"

definition Links_view :: "Links \<Rightarrow> DeviceRecord \<Rightarrow> nat \<Rightarrow> HostLink list \<times> Links" where
  "Links_view self device now_ms =
     (let self = Links_refresh self now_ms;
          known = map (\<lambda>h. (ht_id h, ht_name h)) (ln_hosts self);
          gone = map (\<lambda>l. (lk_host l, lk_name l)) (filter (\<lambda>l. \<not> list_ex (\<lambda>h. ht_id h = lk_host l) (ln_hosts self)) (dr_links device))
      in (map (\<lambda>(host, name). \<lparr>hl_host = host, hl_name = name, hl_state = Links_state self device host\<rparr>) (known @ gone), self))"

definition ask :: "AuthLib \<Rightarrow> Links \<Rightarrow> DeviceRecord \<Rightarrow> HostId \<Rightarrow> str \<Rightarrow> nat \<Rightarrow> (HostState, AuthError) result \<times> Links" where
  "ask lib self device host public_key now_ms =
     (let self = Links_refresh self now_ms
      in case PublicKey_parse lib public_key of
           Inl e \<Rightarrow> (Inl e, self)
         | Inr public_key \<Rightarrow>
             let link = List.find (\<lambda>l. lk_host l = host) (dr_links device)
             in if link = None \<and> \<not> list_ex (\<lambda>known. ht_id known = host) (ln_hosts self) then (Inl (Links UnknownHost), self)
                else let key = (dr_id device, host);
                         refused = (case map_of (ln_asks self) key of
                           Some a \<Rightarrow> if ak_stage a = Taken then Some Busy else None
                         | None \<Rightarrow> if MAX_ASKS \<le> length (ln_asks self) then Some TooMany else None)
                     in case refused of
                          Some e \<Rightarrow> (Inl (Links e), self)
                        | None \<Rightarrow>
                            case device_name (dr_name device) of
                              Inl e \<Rightarrow> (Inl e, self)
                            | Inr name \<Rightarrow>
                                let self = self\<lparr>ln_asks := AList.update key
                                      \<lparr>ak_name = name, ak_public_key = public_key, ak_confirm = (link = None),
                                       ak_replace = (case link of None \<Rightarrow> None | Some l \<Rightarrow> map_option en_device (lk_paired l)),
                                       ak_stage = Queued, ak_since_ms = now_ms\<rparr> (ln_asks self)\<rparr>
                                in (Inr (Links_state self device host), self))"

definition Links_take :: "AuthLib \<Rightarrow> Links \<Rightarrow> nat \<Rightarrow> HostPairing list \<times> Links" where
  "Links_take lib self now_ms =
     (let self = Links_refresh self now_ms
      in (map (\<lambda>((device, host), a). \<lparr>hp_device = device, hp_host = host, hp_name = ak_name a, hp_public_key = b64_encode lib (ak_public_key a),
                hp_confirm = ak_confirm a, hp_replace = ak_replace a\<rparr>) (filter (\<lambda>(_, a). ak_stage a = Queued) (ln_asks self)),
          self\<lparr>ln_asks := map (\<lambda>(k, a). (k, if ak_stage a = Queued then a\<lparr>ak_stage := Taken, ak_since_ms := now_ms\<rparr> else a)) (ln_asks self)\<rparr>))"

definition replace_revokes :: "RevokeLib \<Rightarrow> Links \<Rightarrow> HostRevoke list \<Rightarrow> Env \<Rightarrow> (unit, AuthError) result \<times> Links \<times> Env" where
  "replace_revokes json self revokes env = (case rj_to_vec_pretty json revokes of
     None \<Rightarrow> (Inl Encode, self, env)
   | Some content \<Rightarrow> (case write_private (ln_revokes_path self) content env of
       (Inl e, env) \<Rightarrow> (Inl e, self, env) | (Inr u, env) \<Rightarrow> (Inr (), self\<lparr>ln_revokes := revokes\<rparr>, env)))"

definition owe :: "RevokeLib \<Rightarrow> Links \<Rightarrow> HostRevoke list \<Rightarrow> Env \<Rightarrow> (unit, AuthError) result \<times> Links \<times> Env" where
  "owe json self owed env =
     (let revokes = fold (\<lambda>r rs. if r \<in> set rs then rs else rs @ [r]) owed (ln_revokes self)
      in if length revokes = length (ln_revokes self) then (Inr (), self, env)
         else replace_revokes json self (drop (length revokes - MAX_REVOKES) revokes) env)"

definition Links_revoked :: "RevokeLib \<Rightarrow> Links \<Rightarrow> HostRevoke \<Rightarrow> Env \<Rightarrow> (unit, AuthError) result \<times> Links \<times> Env" where
  "Links_revoked json self revoke env =
     (let revokes = filter (\<lambda>owed. owed \<noteq> revoke) (ln_revokes self)
      in if length revokes = length (ln_revokes self) then (Inr (), self, env) else replace_revokes json self revokes env)"

definition Links_forget :: "RevokeLib \<Rightarrow> Links \<Rightarrow> DeviceRecord \<Rightarrow> Env \<Rightarrow> (unit, AuthError) result \<times> Links \<times> Env" where
  "Links_forget json self device env =
     owe json (self\<lparr>ln_asks := retain (\<lambda>(ident, _) _. ident \<noteq> dr_id device) (ln_asks self)\<rparr>)
       (List.map_filter (\<lambda>l. map_option (\<lambda>p. \<lparr>hr_host = lk_host l, hr_device = en_device p\<rparr>) (lk_paired l)) (dr_links device)) env"

text \<open>The name \<open>finish\<close> keeps for a host: the one Sheprd gives it, the one of the link, or the one the host gave.\<close>

definition host_name :: "Links \<Rightarrow> Devices \<Rightarrow> DeviceId \<Rightarrow> HostId \<Rightarrow> Enrolled \<Rightarrow> str" where
  "host_name self devices device host enrolled = (case List.find (\<lambda>h. ht_id h = host) (ln_hosts self) of
     Some known \<Rightarrow> ht_name known
   | None \<Rightarrow> (case Devices_get devices device of
       None \<Rightarrow> en_computer enrolled
     | Some r \<Rightarrow> (case List.find (\<lambda>l. lk_host l = host) (dr_links r) of None \<Rightarrow> en_computer enrolled | Some l \<Rightarrow> lk_name l)))"

definition finish :: "AuthLib \<Rightarrow> StoreLib \<Rightarrow> RevokeLib \<Rightarrow> Links \<Rightarrow> Devices \<Rightarrow> DeviceId \<Rightarrow> HostId \<Rightarrow> str option \<Rightarrow> HostOutcome \<Rightarrow> nat \<Rightarrow> Env
    \<Rightarrow> (unit, AuthError) result \<times> Links \<times> Devices \<times> Env" where
  "finish lib store json self devices device host public_key outcome now_ms env =
     (let self = Links_refresh self now_ms; key = (device, host)
      in case (case public_key of None \<Rightarrow> Inr None
               | Some text \<Rightarrow> (case PublicKey_parse lib text of Inl e \<Rightarrow> Inl e | Inr k \<Rightarrow> Inr (Some k))) of
           Inl e \<Rightarrow> (Inl e, self, devices, env)
         | Inr attempt \<Rightarrow>
             let found = (case map_of (ln_asks self) key of None \<Rightarrow> None
                          | Some a \<Rightarrow> if ak_stage a = Taken \<and> (attempt = None \<or> attempt = Some (ak_public_key a)) then Some a else None)
             in case found of
                  None \<Rightarrow>
                    (case outcome of
                       Outcome_Paired enrolled \<Rightarrow>
                         if Enrolled_valid enrolled
                         then (case owe json self [\<lparr>hr_host = host, hr_device = en_device enrolled\<rparr>] env of
                                 (Inl e, self, env) \<Rightarrow> (Inl e, self, devices, env)
                               | (Inr u, self, env) \<Rightarrow> (Inl (Links NotPairing), self, devices, env))
                         else (Inl (Links NotPairing), self, devices, env)
                     | _ \<Rightarrow> (Inl (Links NotPairing), self, devices, env))
                | Some a \<Rightarrow>
                    (case outcome of
                       Outcome_Paired enrolled \<Rightarrow>
                         if \<not> Enrolled_valid enrolled then (Inl (Links InvalidOutcome), self, devices, env)
                         else (case set_link store device
                                 \<lparr>lk_host = host, lk_name = host_name self devices device host enrolled, lk_paired = Some enrolled\<rparr> devices env of
                                 (Inl e, devices, env) \<Rightarrow> (Inl e, self, devices, env)
                               | (Inr u, devices, env) \<Rightarrow> (Inr (), self\<lparr>ln_asks := AList.delete key (ln_asks self)\<rparr>, devices, env))
                     | Outcome_Failed reason \<Rightarrow>
                         (Inr (), self\<lparr>ln_asks := AList.update key (a\<lparr>ak_stage := Stage_Failed (take MAX_REASON reason), ak_since_ms := now_ms\<rparr>) (ln_asks self)\<rparr>,
                          devices, env)
                     | Outcome_Denied \<Rightarrow> (Inr (), self\<lparr>ln_asks := AList.delete key (ln_asks self)\<rparr>, devices, env)))"

end
