(* ===== verification/Auth.thy ===== *)
theory Auth
  imports Host_Links
begin

text \<open>
  Everything the remote control server needs to pair and authenticate phones (\<open>Auth\<close> of
  \<open>sheprd-remote-control/src/auth.rs\<close>), composed of the parts of the theories it imports, and the operations in
  any order as steps. The server holds it behind a mutex, so its operations run one after another.
\<close>

section \<open>Data\<close>

text \<open>The packages the operations call.\<close>

record Packages =
  pk_lib :: AuthLib
  pk_near :: NearbyLib
  pk_store :: StoreLib
  pk_handoff :: HandoffLib
  pk_revoke :: RevokeLib

record Limits =
  lt_pair_burst :: nat
  lt_pair_refill_ms :: nat
  lt_challenge_burst :: nat
  lt_challenge_refill_ms :: nat
  lt_addresses :: nat

definition Limits_default :: Limits where
  "Limits_default = \<lparr>lt_pair_burst = 5, lt_pair_refill_ms = 12000, lt_challenge_burst = 20, lt_challenge_refill_ms = 3000, lt_addresses = 1024\<rparr>"

record Auth =
  au_apps :: "str list"
  au_challenge_limit :: "IpAddr RateLimiter"
  au_devices :: Devices
  au_handoffs :: Handoffs
  au_links :: Links
  au_nearby :: "NearbySession list"
  au_pair_limit :: "IpAddr RateLimiter"
  au_pairings :: Pairings
  au_presence :: Presences
  au_revoked :: nat
  au_sessions :: Sessions

section \<open>Operations\<close>

definition Auth_load :: "Packages \<Rightarrow> Path \<Rightarrow> Limits \<Rightarrow> Env \<Rightarrow> (Auth, AuthError) result \<times> Env" where
  "Auth_load pk state_dir limits env = (case Devices_load (pk_store pk) state_dir env of
     (Inl e, env) \<Rightarrow> (Inl e, env)
   | (Inr devices, env) \<Rightarrow>
       let (handoffs, env) = Handoffs_load (pk_lib pk) (pk_handoff pk) state_dir env;
           (links, env) = Links_load (pk_revoke pk) state_dir env
       in (Inr \<lparr>au_apps = Devices_apps devices,
                au_challenge_limit = RateLimiter_new (lt_challenge_burst limits) (lt_challenge_refill_ms limits) (lt_addresses limits),
                au_devices = devices, au_handoffs = handoffs, au_links = links, au_nearby = [],
                au_pair_limit = RateLimiter_new (lt_pair_burst limits) (lt_pair_refill_ms limits) (lt_addresses limits),
                au_pairings = Pairings_default, au_presence = \<lparr>pr_pending = []\<rparr>, au_revoked = 0, au_sessions = Sessions_default\<rparr>, env))"

definition note_revoked :: "Auth \<Rightarrow> Auth" where
  "note_revoked self = self\<lparr>au_revoked := u64_add (au_revoked self) 1\<rparr>"

definition sync_apps :: "Auth \<Rightarrow> Auth" where
  "sync_apps self = self\<lparr>au_apps := Devices_apps (au_devices self)\<rparr>"

definition Auth_mint :: "Packages \<Rightarrow> Auth \<Rightarrow> nat \<Rightarrow> str list \<Rightarrow> str \<Rightarrow> Env \<Rightarrow> (Offer, AuthError) result \<times> Auth \<times> Env" where
  "Auth_mint pk self now_ms origins fingerprint env =
     (case Pairings_mint (pk_lib pk) (au_pairings self) now_ms origins fingerprint env of
        (r, pairings, env) \<Rightarrow> (r, self\<lparr>au_pairings := pairings\<rparr>, env))"

definition Auth_pairing :: "Auth \<Rightarrow> PairingId \<Rightarrow> nat \<Rightarrow> (PairingState, AuthError) result \<times> Auth" where
  "Auth_pairing self ident now_ms = (case Pairings_state (au_pairings self) ident now_ms of
     (r, pairings) \<Rightarrow> (r, self\<lparr>au_pairings := pairings\<rparr>))"

definition Auth_cancel :: "Auth \<Rightarrow> PairingId \<Rightarrow> (unit, AuthError) result \<times> Auth" where
  "Auth_cancel self ident = (case Pairings_cancel (au_pairings self) ident of
     (r, pairings) \<Rightarrow> (r, self\<lparr>au_pairings := pairings\<rparr>))"

definition Auth_claim :: "Packages \<Rightarrow> Auth \<Rightarrow> IpAddr \<Rightarrow> str \<Rightarrow> str \<Rightarrow> str \<Rightarrow> nat \<Rightarrow> Env \<Rightarrow> (Claim, AuthError) result \<times> Auth \<times> Env" where
  "Auth_claim pk self client token name public_key now_ms env =
     (let (granted, self) = (case RateLimiter_allow (au_pair_limit self) client now_ms of (l, g) \<Rightarrow> (g, self\<lparr>au_pair_limit := l\<rparr>))
      in if \<not> granted then (Inl RateLimited, self, env)
         else case Pairings_claim (pk_lib pk) (au_pairings self) token name public_key now_ms env of
                (r, pairings, env) \<Rightarrow> (r, self\<lparr>au_pairings := pairings\<rparr>, env))"

definition pairing_open :: "Auth \<Rightarrow> nat \<Rightarrow> bool \<times> Auth" where
  "pairing_open self now_ms = (case Pairings_waiting (au_pairings self) now_ms of (w, pairings) \<Rightarrow> (w, self\<lparr>au_pairings := pairings\<rparr>))"

definition nearby_start :: "Packages \<Rightarrow> Auth \<Rightarrow> IpAddr option \<Rightarrow> str \<Rightarrow> str \<Rightarrow> str \<Rightarrow> nat \<Rightarrow> Env \<Rightarrow> (NearbyStarted, AuthError) result \<times> Auth \<times> Env" where
  "nearby_start pk self client public_key computer fingerprint now_ms env =
     (let (granted, self) = (case client of None \<Rightarrow> (True, self)
        | Some c \<Rightarrow> (case RateLimiter_allow (au_pair_limit self) c now_ms of (l, g) \<Rightarrow> (g, self\<lparr>au_pair_limit := l\<rparr>)))
      in if \<not> granted then (Inl RateLimited, self, env)
         else let (waits, self) = pairing_open self now_ms
              in if \<not> waits then (Inl NoPairing, self, env)
                 else case Nearby_start (pk_lib pk) (pk_near pk) (au_nearby self) public_key computer fingerprint now_ms env of
                        (r, nearby, env) \<Rightarrow> (r, self\<lparr>au_nearby := nearby\<rparr>, env))"

definition nearby_reveal :: "Packages \<Rightarrow> Auth \<Rightarrow> str \<Rightarrow> str \<Rightarrow> str \<Rightarrow> str list \<Rightarrow> nat \<Rightarrow> Env \<Rightarrow> (NearbyRevealed, AuthError) result \<times> Auth \<times> Env" where
  "nearby_reveal pk self session nonce fingerprint origins now_ms env =
     (case Nearby_take (au_nearby self) session now_ms of
        (Inl e, nearby) \<Rightarrow> (Inl e, self\<lparr>au_nearby := nearby\<rparr>, env)
      | (Inr started, nearby) \<Rightarrow>
          let (waits, self) = pairing_open (self\<lparr>au_nearby := nearby\<rparr>) now_ms
          in if \<not> waits then (Inl NoPairing, self, env)
             else case random_bytes SECRET_LEN env of
                    (Inl e, env) \<Rightarrow> (Inl e, self, env)
                  | (Inr token, env) \<Rightarrow>
                      case StartedSession_reveal (pk_lib pk) (pk_near pk) started nonce fingerprint token origins env of
                        (Inl e, env) \<Rightarrow> (Inl e, self, env)
                      | (Inr (revealed, code), env) \<Rightarrow>
                          case set_nearby (pk_lib pk) (au_pairings self) token code now_ms of
                            (Inl e, pairings) \<Rightarrow> (Inl e, self\<lparr>au_pairings := pairings\<rparr>, env)
                          | (Inr u, pairings) \<Rightarrow> (Inr revealed, self\<lparr>au_pairings := pairings\<rparr>, env))"

definition presence_challenge :: "Packages \<Rightarrow> Auth \<Rightarrow> str \<Rightarrow> nat \<Rightarrow> Env \<Rightarrow> (DeviceId \<times> bytes, AuthError) result \<times> Auth \<times> Env" where
  "presence_challenge pk self text now_ms env =
     (case Presences_challenge (pk_lib pk) (au_presence self) text now_ms (au_devices self) env of
        (r, presence, env) \<Rightarrow> (r, self\<lparr>au_presence := presence\<rparr>, env))"

definition presence_prove :: "Packages \<Rightarrow> Auth \<Rightarrow> str \<Rightarrow> str \<Rightarrow> bytes \<Rightarrow> nat \<Rightarrow> (DeviceId, AuthError) result \<times> Auth" where
  "presence_prove pk self nonce signature fingerprint now_ms =
     (case Presences_prove (pk_lib pk) (au_presence self) nonce signature fingerprint now_ms (au_devices self) of
        (r, presence) \<Rightarrow> (r, self\<lparr>au_presence := presence\<rparr>))"

definition Auth_claimed_from :: "Auth \<Rightarrow> ClaimId \<Rightarrow> str \<Rightarrow> Auth" where
  "Auth_claimed_from self claim origin = self\<lparr>au_pairings := claimed_from (au_pairings self) claim origin\<rparr>"

definition Auth_claim_status :: "Auth \<Rightarrow> ClaimId \<Rightarrow> nat \<Rightarrow> (PairingState, AuthError) result \<times> Auth" where
  "Auth_claim_status self ident now_ms = (case claim_status (au_pairings self) ident now_ms of
     (r, pairings) \<Rightarrow> (r, self\<lparr>au_pairings := pairings\<rparr>))"

text \<open>The check of the code an approval names, and the answer itself.\<close>

definition shown_matches :: "(PairingState, AuthError) result \<Rightarrow> str \<Rightarrow> bool" where
  "shown_matches state shown = (case state of
     Inr (State_Claimed name code app) \<Rightarrow> constant_time_eq (str_bytes code) (str_bytes shown) | _ \<Rightarrow> False)"

definition answer_stored :: "Packages \<Rightarrow> Auth \<Rightarrow> PairingId \<Rightarrow> bool \<Rightarrow> HostId list \<Rightarrow> nat \<Rightarrow> Env \<Rightarrow> (PairingState, AuthError) result \<times> Auth \<times> Env" where
  "answer_stored pk self ident allow hosts now_ms env =
     (let links = allowed (au_links self) hosts
      in case Pairings_answer (au_pairings self) ident allow now_ms
                (\<lambda>device (devices, env). case add_with (pk_store pk) device now_ms None links devices env of (r, devices, env) \<Rightarrow> (r, devices, env))
                (au_devices self, env) of
           (Inl e, pairings, devices, env) \<Rightarrow> (Inl e, self\<lparr>au_pairings := pairings, au_devices := devices\<rparr>, env)
         | (Inr d, pairings, devices, env) \<Rightarrow>
             let self = sync_apps (self\<lparr>au_pairings := pairings, au_devices := devices\<rparr>);
                 (r, self) = Auth_pairing self ident now_ms
             in (r, self, env))"

definition answer_with_hosts :: "Packages \<Rightarrow> Auth \<Rightarrow> PairingId \<Rightarrow> bool \<Rightarrow> str \<Rightarrow> HostId list \<Rightarrow> nat \<Rightarrow> Env \<Rightarrow> (PairingState, AuthError) result \<times> Auth \<times> Env" where
  "answer_with_hosts pk self ident allow shown hosts now_ms env =
     (if \<not> allow then answer_stored pk self ident allow hosts now_ms env
      else let (state, self) = Auth_pairing self ident now_ms
           in case state of
                Inl e \<Rightarrow> (Inl e, self, env)
              | Inr s \<Rightarrow>
                  if shown_matches (Inr s) shown then answer_stored pk self ident allow hosts now_ms env
                  else case Pairings_answer (au_pairings self) ident False now_ms (\<lambda>_ s. (Inr (), s)) () of
                         (Inl e, pairings, _) \<Rightarrow> (Inl e, self\<lparr>au_pairings := pairings\<rparr>, env)
                       | (Inr d, pairings, _) \<Rightarrow> (Inl CodeMismatch, self\<lparr>au_pairings := pairings\<rparr>, env))"

definition Auth_challenge :: "Packages \<Rightarrow> Auth \<Rightarrow> IpAddr \<Rightarrow> DeviceId \<Rightarrow> nat \<Rightarrow> Env \<Rightarrow> (Challenge, AuthError) result \<times> Auth \<times> Env" where
  "Auth_challenge pk self client device now_ms env =
     (let (granted, self) = (case RateLimiter_allow (au_challenge_limit self) client now_ms of (l, g) \<Rightarrow> (g, self\<lparr>au_challenge_limit := l\<rparr>))
      in if \<not> granted then (Inl RateLimited, self, env)
         else case Sessions_challenge (pk_lib pk) (au_sessions self) device now_ms (au_devices self) env of
                (r, sessions, env) \<Rightarrow> (r, self\<lparr>au_sessions := sessions\<rparr>, env))"

definition Auth_verify :: "Packages \<Rightarrow> Auth \<Rightarrow> ChallengeId \<Rightarrow> str \<Rightarrow> nat \<Rightarrow> Env \<Rightarrow> (AuthSession, AuthError) result \<times> Auth \<times> Env" where
  "Auth_verify pk self challenge signature now_ms env =
     (case Sessions_verify (pk_lib pk) (au_sessions self) challenge signature now_ms (au_devices self) env of
        (Inl e, sessions, env) \<Rightarrow> (Inl e, self\<lparr>au_sessions := sessions\<rparr>, env)
      | (Inr session, sessions, env) \<Rightarrow>
          case touch (pk_store pk) (as_device session) now_ms (au_devices self) env of
            (Inl e, devices, env) \<Rightarrow> (Inl e, self\<lparr>au_sessions := sessions, au_devices := devices\<rparr>, env)
          | (Inr u, devices, env) \<Rightarrow> (Inr session, self\<lparr>au_sessions := sessions, au_devices := devices\<rparr>, env))"

definition Auth_authenticate :: "Packages \<Rightarrow> Auth \<Rightarrow> str \<Rightarrow> nat \<Rightarrow> DeviceId option \<times> Auth" where
  "Auth_authenticate pk self bearer now_ms = (case Sessions_authenticate (pk_lib pk) (au_sessions self) bearer now_ms of
     (d, sessions) \<Rightarrow> (d, self\<lparr>au_sessions := sessions\<rparr>))"

definition Auth_handoff :: "Packages \<Rightarrow> Auth \<Rightarrow> DeviceId \<Rightarrow> nat \<Rightarrow> Env \<Rightarrow> (Handoff, AuthError) result \<times> Auth \<times> Env" where
  "Auth_handoff pk self device now_ms env =
     (if Devices_get (au_devices self) device = None then (Inl UnknownDevice, self, env)
      else case Handoffs_mint (pk_lib pk) (pk_handoff pk) (au_handoffs self) device now_ms env of
             (r, handoffs, env) \<Rightarrow> (r, self\<lparr>au_handoffs := handoffs\<rparr>, env))"

definition Auth_redeem :: "Packages \<Rightarrow> Auth \<Rightarrow> IpAddr \<Rightarrow> str \<Rightarrow> str \<Rightarrow> nat \<Rightarrow> Env \<Rightarrow> (DeviceId, AuthError) result \<times> Auth \<times> Env" where
  "Auth_redeem pk self client token public_key now_ms env =
     (let (granted, self) = (case RateLimiter_allow (au_pair_limit self) client now_ms of (l, g) \<Rightarrow> (g, self\<lparr>au_pair_limit := l\<rparr>))
      in if \<not> granted then (Inl RateLimited, self, env)
         else case PublicKey_parse (pk_lib pk) public_key of
                Inl e \<Rightarrow> (Inl e, self, env)
              | Inr key \<Rightarrow>
                  case Handoffs_redeem (pk_lib pk) (pk_handoff pk) (au_handoffs self) token now_ms env of
                    (Inl e, handoffs, env) \<Rightarrow> (Inl e, self\<lparr>au_handoffs := handoffs\<rparr>, env)
                  | (Inr None, handoffs, env) \<Rightarrow> (Inl InvalidToken, self\<lparr>au_handoffs := handoffs\<rparr>, env)
                  | (Inr (Some device), handoffs, env) \<Rightarrow>
                      let self = self\<lparr>au_handoffs := handoffs\<rparr>
                      in case rekey (pk_store pk) device key (au_devices self) env of
                           (Inl e, devices, env) \<Rightarrow> (Inl e, self\<lparr>au_devices := devices\<rparr>, env)
                         | (Inr u, devices, env) \<Rightarrow>
                             (Inr device, note_revoked (self\<lparr>au_devices := devices, au_sessions := end_device (au_sessions self) device\<rparr>), env))"

definition Auth_revoke :: "Packages \<Rightarrow> Auth \<Rightarrow> DeviceId \<Rightarrow> Env \<Rightarrow> (bool, AuthError) result \<times> Auth \<times> Env" where
  "Auth_revoke pk self device env =
     (let (forgotten, self, env) = (case Devices_get (au_devices self) device of
            None \<Rightarrow> (Inr (), self, env)
          | Some r \<Rightarrow> (case Links_forget (pk_revoke pk) (au_links self) r env of (x, links, env) \<Rightarrow> (x, self\<lparr>au_links := links\<rparr>, env)))
      in case forgotten of
           Inl e \<Rightarrow> (Inl e, self, env)
         | Inr u \<Rightarrow>
             let (_, handoffs, env) = Handoffs_forget (pk_lib pk) (pk_handoff pk) (au_handoffs self) device env;
                 self = note_revoked (self\<lparr>au_handoffs := handoffs, au_sessions := end_device (au_sessions self) device\<rparr>);
                 (r, devices, env) = Devices_revoke (pk_store pk) device (au_devices self) env
             in (r, sync_apps (self\<lparr>au_devices := devices\<rparr>), env))"

definition device_list :: "Auth \<Rightarrow> (DeviceId \<Rightarrow> bool) \<Rightarrow> nat \<Rightarrow> (ControlDevice \<times> HostLink list) list \<times> Auth" where
  "device_list self connected now_ms =
     (let (views, links) = fold (\<lambda>r (views, links). case Links_view links r now_ms of (v, links) \<Rightarrow> (views @ [v], links))
            (dv_records (au_devices self)) ([], au_links self)
      in (zip (Devices_list connected (au_devices self)) views, self\<lparr>au_links := links\<rparr>))"

definition Auth_set_hosts :: "Auth \<Rightarrow> Host list \<Rightarrow> (unit, AuthError) result \<times> Auth" where
  "Auth_set_hosts self hosts = (case set_hosts (au_links self) hosts of (r, links) \<Rightarrow> (r, self\<lparr>au_links := links\<rparr>))"

definition host_links :: "Auth \<Rightarrow> DeviceId \<Rightarrow> nat \<Rightarrow> (HostLink list, AuthError) result \<times> Auth" where
  "host_links self device now_ms = (case Devices_get (au_devices self) device of
     None \<Rightarrow> (Inl UnknownDevice, self)
   | Some r \<Rightarrow> (case Links_view (au_links self) r now_ms of (v, links) \<Rightarrow> (Inr v, self\<lparr>au_links := links\<rparr>)))"

definition ask_host :: "Packages \<Rightarrow> Auth \<Rightarrow> DeviceId \<Rightarrow> HostId \<Rightarrow> str \<Rightarrow> nat \<Rightarrow> (HostState, AuthError) result \<times> Auth" where
  "ask_host pk self device host public_key now_ms = (case Devices_get (au_devices self) device of
     None \<Rightarrow> (Inl UnknownDevice, self)
   | Some r \<Rightarrow> (case ask (pk_lib pk) (au_links self) r host public_key now_ms of (x, links) \<Rightarrow> (x, self\<lparr>au_links := links\<rparr>)))"

definition take_host_pairings :: "Packages \<Rightarrow> Auth \<Rightarrow> nat \<Rightarrow> HostPairing list \<times> Auth" where
  "take_host_pairings pk self now_ms = (case Links_take (pk_lib pk) (au_links self) now_ms of (ps, links) \<Rightarrow> (ps, self\<lparr>au_links := links\<rparr>))"

definition host_paired :: "Packages \<Rightarrow> Auth \<Rightarrow> DeviceId \<Rightarrow> HostId \<Rightarrow> str option \<Rightarrow> HostOutcome \<Rightarrow> nat \<Rightarrow> Env \<Rightarrow> (unit, AuthError) result \<times> Auth \<times> Env" where
  "host_paired pk self device host public_key outcome now_ms env =
     (case finish (pk_lib pk) (pk_store pk) (pk_revoke pk) (au_links self) (au_devices self) device host public_key outcome now_ms env of
        (r, links, devices, env) \<Rightarrow> (r, self\<lparr>au_links := links, au_devices := devices\<rparr>, env))"

definition host_revoked :: "Packages \<Rightarrow> Auth \<Rightarrow> HostRevoke \<Rightarrow> Env \<Rightarrow> (unit, AuthError) result \<times> Auth \<times> Env" where
  "host_revoked pk self revoke env = (case Links_revoked (pk_revoke pk) (au_links self) revoke env of
     (r, links, env) \<Rightarrow> (r, self\<lparr>au_links := links\<rparr>, env))"

definition Auth_enroll :: "Packages \<Rightarrow> Auth \<Rightarrow> Enroll \<Rightarrow> nat \<Rightarrow> Env \<Rightarrow> (DeviceId, AuthError) result \<times> Auth \<times> Env" where
  "Auth_enroll pk self enroll now_ms env =
     (case PublicKey_parse (pk_lib pk) (er_public_key enroll) of
        Inl e \<Rightarrow> (Inl e, self, env)
      | Inr key \<Rightarrow>
          case device_name (er_name enroll) of
            Inl e \<Rightarrow> (Inl e, self, env)
          | Inr name \<Rightarrow>
              case device_name (er_via enroll) of
                Inl e \<Rightarrow> (Inl e, self, env)
              | Inr via \<Rightarrow>
                  let (replaced, self, env) = (case er_replace enroll of
                        None \<Rightarrow> (Inr True, self, env)
                      | Some old \<Rightarrow> (case Devices_get (au_devices self) old of
                            None \<Rightarrow> (Inr True, self, env)
                          | Some r \<Rightarrow> if dr_via r \<noteq> None then Auth_revoke pk self old env else (Inr True, self, env)))
                  in case replaced of
                       Inl e \<Rightarrow> (Inl e, self, env)
                     | Inr b \<Rightarrow>
                         case random_id (pk_lib pk) env of
                           (Inl e, env) \<Rightarrow> (Inl e, self, env)
                         | (Inr ident, env) \<Rightarrow>
                             case add_with (pk_store pk) \<lparr>nd_app = None, nd_id = ident, nd_name = name, nd_public_key = key\<rparr> now_ms (Some via) [] (au_devices self) env of
                               (Inl e, devices, env) \<Rightarrow> (Inl e, self\<lparr>au_devices := devices\<rparr>, env)
                             | (Inr u, devices, env) \<Rightarrow> (Inr ident, self\<lparr>au_devices := devices\<rparr>, env))"

definition Auth_expire_idle :: "Packages \<Rightarrow> Auth \<Rightarrow> nat \<Rightarrow> nat \<Rightarrow> Env \<Rightarrow> (DeviceId list, AuthError) result \<times> Auth \<times> Env" where
  "Auth_expire_idle pk self now_ms idle_ms env =
     (case Devices_expire_idle (pk_store pk) now_ms idle_ms (au_devices self) env of
        (Inl e, devices, env) \<Rightarrow> (Inl e, self\<lparr>au_devices := devices\<rparr>, env)
      | (Inr expired, devices, env) \<Rightarrow>
          let self = self\<lparr>au_devices := devices, au_sessions := fold (\<lambda>device sessions. end_device sessions device) expired (au_sessions self)\<rparr>
          in (Inr expired, if expired = [] then self else sync_apps (note_revoked self), env))"

section \<open>Steps\<close>

text \<open>Every operation of the server on its state, with the arguments a caller may give it.\<close>

datatype AuthOp =
    Op_mint nat "str list" str
  | Op_pairing PairingId nat
  | Op_cancel PairingId
  | Op_claim IpAddr str str str nat
  | Op_pairing_open nat
  | Op_nearby_start "IpAddr option" str str str nat
  | Op_nearby_reveal str str str "str list" nat
  | Op_presence_challenge str nat
  | Op_presence_prove str str bytes nat
  | Op_claimed_from ClaimId str
  | Op_claim_status ClaimId nat
  | Op_answer PairingId bool str "HostId list" nat
  | Op_challenge IpAddr DeviceId nat
  | Op_verify ChallengeId str nat
  | Op_authenticate str nat
  | Op_handoff DeviceId nat
  | Op_redeem IpAddr str str nat
  | Op_revoke_device DeviceId
  | Op_device_list "DeviceId \<Rightarrow> bool" nat
  | Op_set_hosts "Host list"
  | Op_host_links DeviceId nat
  | Op_ask_host DeviceId HostId str nat
  | Op_take_host_pairings nat
  | Op_host_paired DeviceId HostId "str option" HostOutcome nat
  | Op_host_revoked HostRevoke
  | Op_enroll Enroll nat
  | Op_expire nat nat
  | Op_push DeviceId "json option"
  | Op_apns DeviceId "json option"

fun auth_step :: "Packages \<Rightarrow> AuthOp \<Rightarrow> Auth \<times> Env \<Rightarrow> Auth \<times> Env" where
  "auth_step pk (Op_mint now origins fp) (a, env) = snd (Auth_mint pk a now origins fp env)"
| "auth_step pk (Op_pairing ident now) (a, env) = (snd (Auth_pairing a ident now), env)"
| "auth_step pk (Op_cancel ident) (a, env) = (snd (Auth_cancel a ident), env)"
| "auth_step pk (Op_claim client token name key now) (a, env) = snd (Auth_claim pk a client token name key now env)"
| "auth_step pk (Op_pairing_open now) (a, env) = (snd (pairing_open a now), env)"
| "auth_step pk (Op_nearby_start client key computer fp now) (a, env) = snd (nearby_start pk a client key computer fp now env)"
| "auth_step pk (Op_nearby_reveal session nonce fp origins now) (a, env) = snd (nearby_reveal pk a session nonce fp origins now env)"
| "auth_step pk (Op_presence_challenge text now) (a, env) = snd (presence_challenge pk a text now env)"
| "auth_step pk (Op_presence_prove nonce sig fp now) (a, env) = (snd (presence_prove pk a nonce sig fp now), env)"
| "auth_step pk (Op_claimed_from claim origin) (a, env) = (Auth_claimed_from a claim origin, env)"
| "auth_step pk (Op_claim_status claim now) (a, env) = (snd (Auth_claim_status a claim now), env)"
| "auth_step pk (Op_answer ident allow shown hosts now) (a, env) = snd (answer_with_hosts pk a ident allow shown hosts now env)"
| "auth_step pk (Op_challenge client device now) (a, env) = snd (Auth_challenge pk a client device now env)"
| "auth_step pk (Op_verify challenge sig now) (a, env) = snd (Auth_verify pk a challenge sig now env)"
| "auth_step pk (Op_authenticate bearer now) (a, env) = (snd (Auth_authenticate pk a bearer now), env)"
| "auth_step pk (Op_handoff device now) (a, env) = snd (Auth_handoff pk a device now env)"
| "auth_step pk (Op_redeem client token key now) (a, env) = snd (Auth_redeem pk a client token key now env)"
| "auth_step pk (Op_revoke_device device) (a, env) = snd (Auth_revoke pk a device env)"
| "auth_step pk (Op_device_list connected now) (a, env) = (snd (device_list a connected now), env)"
| "auth_step pk (Op_set_hosts hosts) (a, env) = (snd (Auth_set_hosts a hosts), env)"
| "auth_step pk (Op_host_links device now) (a, env) = (snd (host_links a device now), env)"
| "auth_step pk (Op_ask_host device host key now) (a, env) = (snd (ask_host pk a device host key now), env)"
| "auth_step pk (Op_take_host_pairings now) (a, env) = (snd (take_host_pairings pk a now), env)"
| "auth_step pk (Op_host_paired device host key outcome now) (a, env) = snd (host_paired pk a device host key outcome now env)"
| "auth_step pk (Op_host_revoked revoke) (a, env) = snd (host_revoked pk a revoke env)"
| "auth_step pk (Op_enroll enroll now) (a, env) = snd (Auth_enroll pk a enroll now env)"
| "auth_step pk (Op_expire now ms) (a, env) = snd (Auth_expire_idle pk a now ms env)"
| "auth_step pk (Op_push device v) (a, env) =
     (case set_push (pk_store pk) device v (au_devices a) env of (r, devices, env) \<Rightarrow> (a\<lparr>au_devices := devices\<rparr>, env))"
| "auth_step pk (Op_apns device v) (a, env) =
     (case set_apns (pk_store pk) device v (au_devices a) env of (r, devices, env) \<Rightarrow> (a\<lparr>au_devices := devices\<rparr>, env))"

end
