(* ===== verification/Auth_Facts.thy ===== *)
theory Auth_Facts
  imports Auth
begin

text \<open>
  What each part of the authentication does to the facts its safety rests on: the draws left, the ids stored, the
  devices of sessions and challenges, and the tokens and claim of the open pairing.
\<close>

section \<open>Draws\<close>

text \<open>Draws are used up; none is added.\<close>

definition spends :: "Env \<Rightarrow> Env \<Rightarrow> bool" where
  "spends env env' \<longleftrightarrow> set (ev_draws env') \<subseteq> set (ev_draws env)"

text \<open>No draw of \<open>n\<close> bytes that is left gives a value of \<open>p\<close>.\<close>

definition avoids :: "nat \<Rightarrow> (bytes \<Rightarrow> bool) \<Rightarrow> Env \<Rightarrow> bool" where
  "avoids n p env \<longleftrightarrow> (\<forall>f. Some f \<in> set (ev_draws env) \<longrightarrow> \<not> p (map f [0..<n]))"

lemma spends_refl [simp]: "spends env env" and spends_trans: "spends a b \<Longrightarrow> spends b c \<Longrightarrow> spends a c"
  by (auto simp: spends_def)

lemma avoids_spends: "avoids n p env \<Longrightarrow> spends env env' \<Longrightarrow> avoids n p env'"
  by (auto simp: avoids_def spends_def)

lemma spends_random_bytes: "random_bytes n env = (r, env') \<Longrightarrow> spends env env'"
  by (auto simp: random_bytes_def spends_def split: list.splits option.splits)

lemma random_bytes_avoids: "avoids n p env \<Longrightarrow> random_bytes n env = (Inr bytes, env') \<Longrightarrow> \<not> p bytes"
  by (auto simp: random_bytes_def avoids_def split: list.splits option.splits)

lemma spends_random_id: "random_id lib env = (r, env') \<Longrightarrow> spends env env'"
  by (auto simp: random_id_def dest: spends_random_bytes split: prod.splits sum.splits)

lemma random_id_avoids: "avoids 16 (\<lambda>b. b64_encode lib b = d) env \<Longrightarrow> random_id lib env = (Inr ident, env') \<Longrightarrow> ident \<noteq> d"
  by (auto simp: random_id_def dest!: random_bytes_avoids split: prod.splits sum.splits)

lemma spends_write_private: "write_private path content env = (r, env') \<Longrightarrow> spends env env'"
  by (auto simp: write_private_def write_and_rename_def Let_def spends_def
      split: prod.splits option.splits dest!: io_call_frame)

lemma spends_save: "Devices_save json self env = (r, env') \<Longrightarrow> spends env env'"
  by (auto simp: Devices_save_def dest: spends_write_private split: option.splits)

section \<open>Stored ids\<close>

lemma save_or_undo_result:
  "save_or_undo json undo self env = (r, self', env') \<Longrightarrow> self' = (case r of Inl e \<Rightarrow> undo self | Inr u \<Rightarrow> self) \<and> spends env env'"
  by (auto simp: save_or_undo_def dest: spends_save split: prod.splits sum.splits)

lemma ids_with_record: "(\<And>r. dr_id (f r) = dr_id r) \<Longrightarrow> Devices_ids (with_record i f d) = Devices_ids d"
  by (simp add: Devices_ids_def with_record_def update_first_map)

lemma Devices_get_ids: "Devices_get self i \<noteq> None \<longleftrightarrow> i \<in> set (Devices_ids self)"
  by (auto simp: Devices_get_def Devices_ids_def find_None_iff)

lemma add_with_ids:
  assumes "add_with json device now via links self env = (r, self', env')"
  shows "Devices_ids self' = Devices_ids self @ (case r of Inl e \<Rightarrow> [] | Inr u \<Rightarrow> [nd_id device]) \<and> spends env env'"
  using save_or_undo_result [OF assms [unfolded add_with_def]] by (auto simp: Devices_ids_def split: sum.splits)

lemma field_ids:
  "set_link json i l self env = (r, self', env') \<Longrightarrow> Devices_ids self' = Devices_ids self \<and> spends env env'"
  "rekey json i k self env = (r, self', env') \<Longrightarrow> Devices_ids self' = Devices_ids self \<and> spends env env'"
  "set_push json i v self env = (r, self', env') \<Longrightarrow> Devices_ids self' = Devices_ids self \<and> spends env env'"
  "set_apns json i v self env = (r, self', env') \<Longrightarrow> Devices_ids self' = Devices_ids self \<and> spends env env'"
  by (auto simp: set_link_def rekey_def set_push_def set_apns_def Let_def ids_with_record
      split: option.splits sum.splits dest!: save_or_undo_result)

lemma touch_ids: "touch json i now self env = (r, self', env') \<Longrightarrow> Devices_ids self' = Devices_ids self \<and> spends env env'"
proof -
  have seen: "Devices_ids (d\<lparr>dv_stored_seen := s\<rparr>) = Devices_ids d" for d :: Devices and s by (simp add: Devices_ids_def)
  show "touch json i now self env = (r, self', env') \<Longrightarrow> Devices_ids self' = Devices_ids self \<and> spends env env'"
    by (auto simp: touch_def Let_def ids_with_record seen dest: spends_save split: option.splits sum.splits prod.splits if_splits)
qed

lemma revoke_ids:
  assumes "Devices_revoke json i self env = (r, self', env')"
  shows "set (Devices_ids self') \<subseteq> set (Devices_ids self)" "set (Devices_ids self) \<subseteq> insert i (set (Devices_ids self'))"
    "r = Inr b \<Longrightarrow> distinct (Devices_ids self) \<Longrightarrow> i \<notin> set (Devices_ids self')" "spends env env'"
proof -
  have "set (Devices_ids self') \<subseteq> set (Devices_ids self) \<and> set (Devices_ids self) \<subseteq> insert i (set (Devices_ids self')) \<and>
    (\<forall>b. r = Inr b \<longrightarrow> distinct (Devices_ids self) \<longrightarrow> i \<notin> set (Devices_ids self')) \<and> spends env env'"
  proof (cases "iter_position (\<lambda>r. dr_id r = i) (dv_records self)")
    case None
    then have "i \<notin> set (Devices_ids self)" by (auto simp: Devices_ids_def iter_position_None)
    then show ?thesis using assms None by (auto simp: Devices_revoke_def)
  next
    case (Some index)
    let ?rs = "dv_records self"
    have pos: "index < length ?rs" "dr_id (?rs ! index) = i" using iter_position_Some [OF Some] by auto
    have split: "?rs = take index ?rs @ ?rs ! index # drop (Suc index) ?rs" by (rule id_take_nth_drop [OF pos(1)])
    have undone: "insert_at index (?rs ! index) (remove_at index ?rs) = ?rs" using pos by simp
    have ids: "Devices_ids self = map dr_id (take index ?rs) @ i # map dr_id (drop (Suc index) ?rs)"
      unfolding Devices_ids_def by (subst split) (simp add: pos)
    obtain x d e where s: "save_or_undo json (\<lambda>d. d\<lparr>dv_records := insert_at index (?rs ! index) (dv_records d)\<rparr>)
        (self\<lparr>dv_records := remove_at index ?rs\<rparr>) env = (x, d, e)" by (rule prod_cases3)
    note res = save_or_undo_result [OF s]
    show ?thesis
    proof (cases x)
      case (Inl err)
      then have "r = Inl err" "self' = d" "env' = e" using assms Some s by (auto simp: Devices_revoke_def Let_def)
      then show ?thesis using res Inl undone by (auto simp: Devices_ids_def)
    next
      case (Inr u)
      then have "Devices_ids self' = map dr_id (remove_at index ?rs)" "env' = e"
        using assms Some s res by (auto simp: Devices_revoke_def Let_def Devices_ids_def)
      then show ?thesis using ids res by (auto simp: remove_at_def)
    qed
  qed
  then show "set (Devices_ids self') \<subseteq> set (Devices_ids self)" "set (Devices_ids self) \<subseteq> insert i (set (Devices_ids self'))"
    "r = Inr b \<Longrightarrow> distinct (Devices_ids self) \<Longrightarrow> i \<notin> set (Devices_ids self')" "spends env env'" by blast+
qed

lemma expire_ids:
  assumes "Devices_expire_idle json now ms self env = (r, self', env')"
  shows "set (Devices_ids self') \<subseteq> set (Devices_ids self) \<and> set (Devices_ids self) \<subseteq> set (Devices_ids self') \<union> (case r of Inl e \<Rightarrow> {} | Inr gone \<Rightarrow> set gone) \<and>
    spends env env'"
proof -
  obtain x d e where s: "save_or_undo json (\<lambda>d. d\<lparr>dv_records := dv_records self\<rparr>)
      (self\<lparr>dv_records := filter (\<lambda>r. \<not> idle now ms r) (dv_records self)\<rparr>) env = (x, d, e)" by (rule prod_cases3)
  have parts: "set (Devices_ids self) = dr_id ` {r \<in> set (dv_records self). \<not> idle now ms r} \<union> dr_id ` {r \<in> set (dv_records self). idle now ms r}"
    by (auto simp: Devices_ids_def)
  show ?thesis
  proof (cases x)
    case (Inl err)
    then show ?thesis using assms s save_or_undo_result [OF s] by (auto simp: Devices_expire_idle_def Let_def Devices_ids_def split: if_splits)
  next
    case (Inr u)
    then show ?thesis unfolding parts using assms s save_or_undo_result [OF s]
      by (auto simp: Devices_expire_idle_def Let_def Devices_ids_def split: if_splits)
  qed
qed

section \<open>The devices of sessions and challenges\<close>

definition owned :: "DeviceId set \<Rightarrow> Sessions \<Rightarrow> bool" where
  "owned D s \<longleftrightarrow> (\<forall>(k, p) \<in> set (ss_challenges s). pc_device p \<in> D) \<and> (\<forall>(k, l) \<in> set (ss_sessions s). lv_device l \<in> D)"

lemma owned_mono: "owned D s \<Longrightarrow> D \<subseteq> E \<Longrightarrow> owned E s"
  by (fastforce simp: owned_def)

lemma drop_oldest_in: "x \<in> set (drop_oldest owner issued limit device m) \<Longrightarrow> x \<in> set m"
  by (auto simp: drop_oldest_def Let_def split: if_splits option.splits dest: alist_delete_in)

lemma retain_in: "(k, v) \<in> set (retain p m) \<longleftrightarrow> (k, v) \<in> set m \<and> p k v"
  by (auto simp: retain_def)

lemma owned_challenge:
  assumes "Sessions_challenge lib s device now devices env = (r, s', env')" "owned D s" "device \<in> set (Devices_ids devices) \<Longrightarrow> device \<in> D"
  shows "owned D s' \<and> spends env env'"
  using assms Devices_get_ids [of devices device]
  by (fastforce simp: Sessions_challenge_def Let_def owned_def retain_in split: if_splits prod.splits sum.splits
      dest!: alist_update_in drop_oldest_in dest: spends_random_bytes spends_random_id intro: spends_trans)

lemma owned_start:
  assumes "Sessions_start lib s device now env = (r, s', env')" "owned D s" "device \<in> D"
  shows "owned D s' \<and> spends env env' \<and> (\<forall>session. r = Inr session \<longrightarrow> as_device session = device)"
  using assms
  by (auto simp: Sessions_start_def Let_def owned_def retain_in split: prod.splits sum.splits
      dest!: alist_update_in drop_oldest_in dest: spends_random_bytes)

lemma owned_verify:
  assumes "Sessions_verify lib s challenge sig now devices env = (r, s', env')" "owned D s"
  shows "owned D s' \<and> spends env env' \<and> (\<forall>session. r = Inr session \<longrightarrow> as_device session \<in> D \<inter> set (Devices_ids devices))"
proof -
  let ?s = "s\<lparr>ss_challenges := AList.delete challenge (ss_challenges s)\<rparr>"
  have less: "owned D ?s" using assms(2) by (auto simp: owned_def dest: alist_delete_in)
  have known: "i \<in> set (Devices_ids devices)" if "Devices_get devices i = Some x" for i x using that Devices_get_ids [of devices i] by simp
  have dev: "pc_device p \<in> D" if "map_of (ss_challenges s) challenge = Some p" for p
    using assms(2) map_of_SomeD [OF that] by (auto simp: owned_def)
  show ?thesis
    using assms(1) less dev owned_start [of lib ?s _ now env r s' env' D] known
    by (auto simp: Sessions_verify_def Let_def split: option.splits if_splits sum.splits)
qed

lemma owned_authenticate:
  assumes "Sessions_authenticate lib s bearer now = (r, s')" "owned D s"
  shows "owned D s' \<and> (\<forall>d. r = Some d \<longrightarrow> d \<in> D)"
  using assms by (fastforce simp: Sessions_authenticate_def Let_def owned_def split: option.splits if_splits
      dest: alist_delete_in dest!: map_of_SomeD)

lemma owned_end_device: "owned D s \<Longrightarrow> owned (D - {d}) (end_device s d)"
  by (auto simp: owned_def end_device_def retain_in)

lemma owned_end_devices: "owned D s \<Longrightarrow> owned (D - set ds) (fold (\<lambda>d s. end_device s d) ds s)"
proof (induction ds arbitrary: D s)
  case (Cons d ds)
  have "D - set (d # ds) = D - {d} - set ds" by auto
  then show ?case using Cons.IH [OF owned_end_device [OF Cons.prems]] by simp
qed simp

section \<open>The open pairing\<close>

text \<open>
  What every operation but a mint, a reveal and an accepted claim does to the open pairing: its tokens stay, it
  does not start to wait again, and a claim on it is the one it had.
\<close>

definition quiet :: "Pairings \<Rightarrow> Pairings \<Rightarrow> bool" where
  "quiet p p' \<longleftrightarrow> (\<forall>o'. pg_open p' = Some o' \<longrightarrow> (\<exists>opn. pg_open p = Some opn \<and> op_id o' = op_id opn \<and>
     op_token_digest o' = op_token_digest opn \<and> op_token_expires_ms o' = op_token_expires_ms opn \<and>
     op_nearby o' = op_nearby opn \<and> op_nearby_reveals o' = op_nearby_reveals opn \<and>
     (unclaimed o' \<longrightarrow> unclaimed opn) \<and> (op_phase o' = Waiting \<longrightarrow> op_phase opn = Waiting) \<and>
     (\<forall>claim device code deadline. op_phase o' = Claimed claim device code deadline \<longrightarrow>
        (\<exists>app. op_phase opn = Claimed claim (device\<lparr>nd_app := app\<rparr>) code deadline))))"

definition pairings_bounded :: "Pairings \<Rightarrow> bool" where
  "pairings_bounded p \<longleftrightarrow> length (pg_outcomes p) \<le> REMEMBERED_OUTCOMES \<and>
     (\<forall>opn. pg_open p = Some opn \<longrightarrow> op_nearby_reveals opn \<le> MAX_NEARBY_REVEALS)"

definition quietly :: "Pairings \<Rightarrow> Pairings \<Rightarrow> bool" where
  "quietly p p' \<longleftrightarrow> quiet p p' \<and> (pairings_bounded p \<longrightarrow> pairings_bounded p')"

lemma device_app_id [simp]: "device\<lparr>nd_app := nd_app device\<rparr> = (device :: NewDevice)"
  by (cases device) simp

lemma quiet_refl [simp]: "quiet p p"
proof -
  have "\<exists>app. Claimed c d code dl = Claimed c (d\<lparr>nd_app := app\<rparr>) code dl" for c d code dl
    by (rule exI [of _ "nd_app d"]) simp
  then show ?thesis by (auto simp: quiet_def)
qed

lemma quiet_trans: "quiet p q \<Longrightarrow> quiet q r \<Longrightarrow> quiet p r"
  unfolding quiet_def by fastforce

lemma quietly_refl [simp]: "quietly p p" and quietly_trans: "quietly p q \<Longrightarrow> quietly q r \<Longrightarrow> quietly p r"
  by (auto simp: quietly_def intro: quiet_refl quiet_trans)

lemma settle_facts:
  assumes "settle opn outcomes state = (o', outcomes', was)"
  shows "op_id o' = op_id opn" "op_token_digest o' = op_token_digest opn" "op_token_expires_ms o' = op_token_expires_ms opn"
    "op_nearby o' = op_nearby opn" "op_nearby_reveals o' = op_nearby_reveals opn"
    "length outcomes \<le> REMEMBERED_OUTCOMES \<Longrightarrow> length outcomes' \<le> REMEMBERED_OUTCOMES"
    "op_phase o' = op_phase opn \<or> (\<exists>c d code dl. op_phase opn = Claimed c d code dl \<and> op_phase o' = Finished (Some c) state)"
    "\<nexists>c d code dl. op_phase o' = Claimed c d code dl"
  using assms by (cases "op_phase opn"; auto simp: settle_def Let_def REMEMBERED_OUTCOMES_def split: if_splits)+

lemma refresh_facts:
  assumes "refresh opn outcomes now = (o', outcomes')"
  shows "op_id o' = op_id opn" "op_token_digest o' = op_token_digest opn" "op_token_expires_ms o' = op_token_expires_ms opn"
    "op_nearby o' = op_nearby opn" "op_nearby_reveals o' = op_nearby_reveals opn"
    "length outcomes \<le> REMEMBERED_OUTCOMES \<Longrightarrow> length outcomes' \<le> REMEMBERED_OUTCOMES"
    "(op_phase o' = op_phase opn \<and> (\<forall>c d code dl. op_phase o' = Claimed c d code dl \<longrightarrow> now < dl) \<and> (op_phase o' = Waiting \<longrightarrow> now < claimable_until o'))
      \<or> (op_phase opn = Waiting \<and> op_phase o' = Finished None State_Expired)
      \<or> (\<exists>c d code dl. op_phase opn = Claimed c d code dl \<and> op_phase o' = Finished (Some c) State_Expired)"
  using assms by (cases "op_phase opn"; auto simp: refresh_def settle_def Let_def REMEMBERED_OUTCOMES_def claimable_until_def split: if_splits)+

lemma quietly_open:
  assumes "pg_open p = Some opn" "op_id o' = op_id opn" "op_token_digest o' = op_token_digest opn"
    "op_token_expires_ms o' = op_token_expires_ms opn" "op_nearby o' = op_nearby opn" "op_nearby_reveals o' = op_nearby_reveals opn"
    "length (pg_outcomes p) \<le> REMEMBERED_OUTCOMES \<Longrightarrow> length outcomes' \<le> REMEMBERED_OUTCOMES"
    "op_phase o' = op_phase opn \<or> (op_phase opn = Waiting \<and> op_phase o' = Finished None s) \<or> (\<exists>c s. op_phase o' = Finished (Some c) s)"
  shows "quietly p \<lparr>pg_open = Some o', pg_outcomes = outcomes'\<rparr>"
proof -
  have app: "\<exists>app. d = d\<lparr>nd_app := app\<rparr>" for d :: NewDevice by (rule exI [of _ "nd_app d"]) simp
  show ?thesis using assms app by (cases "op_phase opn") (auto simp: quietly_def quiet_def pairings_bounded_def unclaimed_def)
qed

lemma quietly_refresh:
  assumes "pg_open p = Some opn" "refresh opn (pg_outcomes p) now = (o', outcomes')"
  shows "quietly p \<lparr>pg_open = Some o', pg_outcomes = outcomes'\<rparr>"
  by (rule quietly_open [OF assms(1)]) (use refresh_facts [OF assms(2)] in auto)

lemma quietly_settle:
  assumes "pg_open p = Some opn" "settle opn (pg_outcomes p) s = (o', outcomes', was)"
  shows "quietly p \<lparr>pg_open = Some o', pg_outcomes = outcomes'\<rparr>"
  by (rule quietly_open [OF assms(1)]) (use settle_facts [OF assms(2)] in auto)

lemma quietly_close: "quietly p (Pairings_close p)" "pg_open (Pairings_close p) = None"
  using settle_facts(6) [of _ "pg_outcomes p" State_Denied]
  by (auto simp: Pairings_close_def quietly_def quiet_def pairings_bounded_def Let_def split: option.splits prod.splits)

lemma quietly_waiting: "Pairings_waiting p now = (w, p') \<Longrightarrow> quietly p p' \<and> (w \<longrightarrow> (\<exists>opn. pg_open p' = Some opn \<and> op_phase opn = Waiting))"
  by (auto simp: Pairings_waiting_def Let_def split: option.splits prod.splits intro: quietly_refresh)

lemma quietly_state: "Pairings_state p ident now = (r, p') \<Longrightarrow> quietly p p'"
  by (auto simp: Pairings_state_def find_open_def Let_def split: option.splits prod.splits if_splits intro: quietly_refresh)

lemma quietly_cancel: "Pairings_cancel p ident = (r, p') \<Longrightarrow> quietly p p'"
  using quietly_close(1) [of p] by (auto simp: Pairings_cancel_def split: sum.splits)

lemma quietly_claim_status: "claim_status p ident now = (r, p') \<Longrightarrow> quietly p p'"
  by (auto simp: claim_status_def Let_def split: option.splits prod.splits Phase.splits if_splits intro: quietly_refresh)

lemma quietly_claimed_from: "quietly p (claimed_from p claim origin)"
proof -
  have "\<exists>app. Claimed c d code dl = Claimed c (d\<lparr>nd_app := app\<rparr>) code dl" for c d code dl
    by (rule exI [of _ "nd_app d"]) simp
  then show ?thesis
    using quietly_refl [of p]
    by (auto simp: claimed_from_def quietly_def quiet_def pairings_bounded_def unclaimed_def split: option.splits Phase.splits)
qed

lemma quietly_answer:
  assumes "Pairings_answer p ident allow now keep s = (r, p', s')"
  shows "quietly p p'"
    "(\<forall>d. r \<noteq> Inr (Some d)) \<and> s' = s \<or>
     (\<exists>opn claim device code deadline u. pg_open p = Some opn \<and> op_id opn = ident \<and> op_phase opn = Claimed claim device code deadline \<and>
        now < deadline \<and> allow \<and> s' = snd (keep device s) \<and>
        (case fst (keep device s) of Inl e \<Rightarrow> r = Inl e | Inr u \<Rightarrow> r = Inr (Some device)))"
proof -
  have "quietly p p' \<and> ((\<forall>d. r \<noteq> Inr (Some d)) \<and> s' = s \<or>
     (\<exists>opn claim device code deadline u. pg_open p = Some opn \<and> op_id opn = ident \<and> op_phase opn = Claimed claim device code deadline \<and>
        now < deadline \<and> allow \<and> s' = snd (keep device s) \<and>
        (case fst (keep device s) of Inl e \<Rightarrow> r = Inl e | Inr u \<Rightarrow> r = Inr (Some device))))"
  proof (cases "find_open (pg_open p) ident")
    case (Inl e)
    then show ?thesis using assms by (auto simp: Pairings_answer_def)
  next
    case (Inr opn)
    then have opn: "pg_open p = Some opn" "op_id opn = ident" by (auto simp: find_open_def split: option.splits if_splits)
    obtain o1 out1 where rf: "refresh opn (pg_outcomes p) now = (o1, out1)" by fastforce
    note q = quietly_refresh [OF opn(1) rf]
    have after: "quietly p \<lparr>pg_open = Some o2, pg_outcomes = out2\<rparr>" if "settle o1 out1 state = (o2, out2, was)" for o2 out2 state was
      using quietly_trans [OF q] quietly_settle [of "\<lparr>pg_open = Some o1, pg_outcomes = out1\<rparr>" o1 state o2 out2 was] that by simp
    show ?thesis
    proof (cases "op_phase o1")
      case (Claimed claim device code deadline)
      then have same: "op_phase opn = Claimed claim device code deadline" "now < deadline"
        using refresh_facts(7) [OF rf] by auto
      obtain k s2 where keep: "keep device s = (k, s2)" by fastforce
      have "quietly p p'" using assms Inr rf Claimed keep after
        by (auto simp: Pairings_answer_def Let_def split: prod.splits if_splits sum.splits)
      moreover have "\<not> allow \<Longrightarrow> r = Inr None \<and> s' = s"
        "allow \<Longrightarrow> s' = s2 \<and> (case k of Inl e \<Rightarrow> r = Inl e | Inr u \<Rightarrow> r = Inr (Some device))"
        using assms Inr rf Claimed keep by (auto simp: Pairings_answer_def Let_def split: prod.splits sum.splits)
      ultimately show ?thesis using opn same keep by (cases allow) auto
    qed (use assms Inr rf q in \<open>auto simp: Pairings_answer_def\<close>)
  qed
  then show "quietly p p'"
    "(\<forall>d. r \<noteq> Inr (Some d)) \<and> s' = s \<or>
     (\<exists>opn claim device code deadline u. pg_open p = Some opn \<and> op_id opn = ident \<and> op_phase opn = Claimed claim device code deadline \<and>
        now < deadline \<and> allow \<and> s' = snd (keep device s) \<and>
        (case fst (keep device s) of Inl e \<Rightarrow> r = Inl e | Inr u \<Rightarrow> r = Inr (Some device)))"
    by blast+
qed

lemma mint_facts:
  assumes "Pairings_mint lib p now origins fp env = (r, p', env')"
  shows "spends env env' \<and> (pairings_bounded p \<longrightarrow> pairings_bounded p') \<and>
    (p' = p \<or> (\<exists>o'. pg_open p' = Some o' \<and> op_phase o' = Waiting \<and>
        (\<forall>P. avoids SECRET_LEN P env \<longrightarrow> (\<exists>token. op_token_digest o' = sha256 lib [token] \<and> \<not> P token)) \<and>
        (\<forall>t. op_nearby o' = Some t \<longrightarrow> (\<exists>opn. pg_open p = Some opn \<and> unclaimed opn \<and> op_nearby opn = Some t))))"
proof -
  have bounded: "pairings_bounded (Pairings_close p)" if "pairings_bounded p"
    using that quietly_close(1) [of p] by (simp add: quietly_def)
  have bound: "pairings_bounded ((Pairings_close p)\<lparr>pg_open := Some o'\<rparr>)" if "pairings_bounded p" "op_nearby_reveals o' \<le> MAX_NEARBY_REVEALS" for o'
    using bounded [OF that(1)] that(2) by (simp add: pairings_bounded_def)
  have reveals: "op_nearby_reveals opn \<le> MAX_NEARBY_REVEALS" if "pairings_bounded p" "pg_open p = Some opn" for opn
    using that by (simp add: pairings_bounded_def)
  show ?thesis
    using assms bound reveals
    by (auto simp: Pairings_mint_def Let_def split: list.splits prod.splits sum.splits option.splits if_splits
        dest: spends_random_bytes spends_random_id intro: spends_trans dest!: random_bytes_avoids)
qed

lemma set_nearby_facts:
  assumes "set_nearby lib p token code now = (r, p')"
  shows "(pairings_bounded p \<longrightarrow> pairings_bounded p') \<and>
    (quietly p p' \<or> (\<exists>opn o'. pg_open p = Some opn \<and> op_phase opn = Waiting \<and> pg_open p' = Some o' \<and> op_phase o' = Waiting \<and>
        op_token_digest o' = op_token_digest opn \<and> (\<exists>t. op_nearby o' = Some t \<and> nt_digest t = sha256 lib [token])))"
proof -
  obtain w p1 where w: "Pairings_waiting p now = (w, p1)" by fastforce
  note q = quietly_waiting [OF w]
  show ?thesis
  proof (cases "w \<and> (\<exists>o1. pg_open p1 = Some o1 \<and> op_nearby_reveals o1 < MAX_NEARBY_REVEALS)")
    case False
    then have "p' = p1" using assms w by (auto simp: set_nearby_def Let_def split: option.splits if_splits)
    then show ?thesis using q by (auto simp: quietly_def)
  next
    case True
    then obtain o1 where o1: "pg_open p1 = Some o1" "op_phase o1 = Waiting" "op_nearby_reveals o1 < MAX_NEARBY_REVEALS" using q by auto
    then obtain opn where opn: "pg_open p = Some opn" "op_phase opn = Waiting" "op_token_digest o1 = op_token_digest opn"
      using q by (auto simp: quietly_def quiet_def)
    have p': "p' = p1\<lparr>pg_open := Some (o1\<lparr>op_nearby_reveals := op_nearby_reveals o1 + 1,
        op_nearby := Some \<lparr>nt_digest = sha256 lib [token], nt_code = code, nt_expires_ms = u64_saturating_add now TOKEN_TTL_MS\<rparr>\<rparr>)\<rparr>"
      using assms w True o1 by (auto simp: set_nearby_def Let_def)
    then show ?thesis using q o1 opn by (auto simp: quietly_def pairings_bounded_def)
  qed
qed

lemma claim_draws_facts:
  assumes "claim_draws lib env = (r, env')"
  shows "spends env env' \<and> (\<forall>nonce claim device d. r = Inr (nonce, claim, device) \<longrightarrow> avoids 16 (\<lambda>b. b64_encode lib b = d) env \<longrightarrow> device \<noteq> d)"
proof -
  have "spends env env'" using assms
    by (auto simp: claim_draws_def split: prod.splits sum.splits; meson spends_random_bytes spends_random_id spends_trans)
  moreover have "device \<noteq> d" if r: "r = Inr (nonce, claim, device)" "avoids 16 (\<lambda>b. b64_encode lib b = d) env" for nonce claim device d
  proof -
    obtain e1 e2 where steps: "random_bytes SECRET_LEN env = (Inr nonce, e1)" "random_id lib e1 = (Inr claim, e2)" "random_id lib e2 = (Inr device, env')"
      using assms r(1) by (auto simp: claim_draws_def split: prod.splits sum.splits)
    have "spends env e2" using spends_random_bytes [OF steps(1)] spends_random_id [OF steps(2)] by (rule spends_trans)
    then show ?thesis using random_id_avoids [OF avoids_spends [OF r(2)] steps(3)] by blast
  qed
  ultimately show ?thesis by blast
qed

text \<open>What an accepted claim has done: a token that still held was used on a pairing that waited.\<close>

definition accepted :: "AuthLib \<Rightarrow> Pairings \<Rightarrow> str \<Rightarrow> nat \<Rightarrow> Claim \<Rightarrow> NewDevice \<Rightarrow> Pairings \<Rightarrow> bool" where
  "accepted lib p token now c device p' \<longleftrightarrow> (\<exists>bytes opn o'. decode_fixed lib SECRET_LEN token = Some bytes \<and>
     pg_open p = Some opn \<and> op_phase opn = Waiting \<and>
     ((op_token_digest opn = sha256 lib [bytes] \<and> now < op_token_expires_ms opn) \<or>
      (\<exists>t. op_nearby opn = Some t \<and> nt_digest t = sha256 lib [bytes] \<and> now < nt_expires_ms t \<and> cl_code c = nt_code t)) \<and>
     pg_open p' = Some o' \<and> op_id o' = op_id opn \<and> op_token_digest o' = op_token_digest opn \<and> op_nearby_reveals o' = op_nearby_reveals opn \<and>
     op_phase o' = Claimed (cl_id c) device (cl_code c) (cl_expires_ms c) \<and>
     cl_expires_ms c = u64_saturating_add now APPROVAL_TTL_MS)"

lemma claim_waiting_facts:
  assumes "claim_waiting lib opn nearby token name key now env = (r, o', env')"
  shows "spends env env' \<and> (case r of Inl e \<Rightarrow> o' = opn
    | Inr c \<Rightarrow> op_id o' = op_id opn \<and> op_token_digest o' = op_token_digest opn \<and> op_nearby_reveals o' = op_nearby_reveals opn \<and>
        cl_expires_ms c = u64_saturating_add now APPROVAL_TTL_MS \<and>
        (nearby \<longrightarrow> (\<forall>t. op_nearby opn = Some t \<longrightarrow> cl_code c = nt_code t)) \<and>
        (\<exists>device. op_phase o' = Claimed (cl_id c) device (cl_code c) (cl_expires_ms c) \<and>
           device_name name = Inr (nd_name device) \<and> PublicKey_parse lib key = Inr (nd_public_key device) \<and>
           (\<forall>d. avoids 16 (\<lambda>b. b64_encode lib b = d) env \<longrightarrow> nd_id device \<noteq> d)))"
proof (cases "device_name name")
  case (Inl e)
  then show ?thesis using assms by (auto simp: claim_waiting_def)
next
  case name: (Inr nm)
  show ?thesis
  proof (cases "PublicKey_parse lib key")
    case (Inl e)
    then show ?thesis using assms name by (auto simp: claim_waiting_def)
  next
    case key: (Inr k)
    obtain x env1 where draws: "claim_draws lib env = (x, env1)" by fastforce
    show ?thesis
    proof (cases x)
      case (Inl e)
      then show ?thesis using assms name key draws claim_draws_facts [OF draws] by (auto simp: claim_waiting_def)
    next
      case (Inr y)
      then show ?thesis using assms name key draws claim_draws_facts [OF draws]
        by (cases y) (auto simp: claim_waiting_def Let_def split: option.splits if_splits)
    qed
  qed
qed

lemma claim_facts:
  assumes "Pairings_claim lib p token name key now env = (r, p', env')"
  shows "spends env env' \<and> (pairings_bounded p \<longrightarrow> pairings_bounded p') \<and> (case r of Inl e \<Rightarrow> quietly p p'
    | Inr c \<Rightarrow> \<exists>device. accepted lib p token now c device p' \<and> device_name name = Inr (nd_name device) \<and>
        PublicKey_parse lib key = Inr (nd_public_key device) \<and> (\<forall>d. avoids 16 (\<lambda>b. b64_encode lib b = d) env \<longrightarrow> nd_id device \<noteq> d))"
proof (cases "\<exists>bytes opn. decode_fixed lib SECRET_LEN token = Some bytes \<and> pg_open p = Some opn \<and>
    ((\<exists>t. op_nearby opn = Some t \<and> nt_digest t = sha256 lib [bytes]) \<or> op_token_digest opn = sha256 lib [bytes])")
  case False
  then have "r = Inl InvalidToken \<and> p' = p \<and> env' = env"
    using assms by (auto simp: Pairings_claim_def Let_def split: option.splits if_splits)
  then show ?thesis by simp
next
  case True
  then obtain bytes opn where start: "decode_fixed lib SECRET_LEN token = Some bytes" "pg_open p = Some opn"
    "(\<exists>t. op_nearby opn = Some t \<and> nt_digest t = sha256 lib [bytes]) \<or> op_token_digest opn = sha256 lib [bytes]" by blast
  define nearby where "nearby = (case op_nearby opn of None \<Rightarrow> False | Some t \<Rightarrow> nt_digest t = sha256 lib [bytes])"
  have match: "nearby \<or> op_token_digest opn = sha256 lib [bytes]" using start(3) by (auto simp: nearby_def)
  obtain o1 out1 where rf: "refresh opn (pg_outcomes p) now = (o1, out1)" by fastforce
  let ?p1 = "\<lparr>pg_open = Some o1, pg_outcomes = out1\<rparr>"
  note q = quietly_refresh [OF start(2) rf] and f = refresh_facts [OF rf]
  have nb: "(case op_nearby opn of None \<Rightarrow> False | Some t \<Rightarrow> constant_time_eq (nt_digest t) (sha256 lib [bytes])) = nearby"
    by (simp add: nearby_def split: option.split)
  have guard: "\<not> (\<not> nearby \<and> \<not> constant_time_eq (op_token_digest opn) (sha256 lib [bytes]))" using match by simp
  have run: "(r, p', env') = (case op_phase o1 of
        Finished None _ \<Rightarrow> (Inl ExpiredToken, ?p1, env)
      | Finished (Some _) _ \<Rightarrow> (Inl AlreadyClaimed, ?p1, env)
      | Claimed claim device code deadline \<Rightarrow>
          (let (opn, outcomes, _) = settle o1 out1 State_Denied in (Inl AlreadyClaimed, \<lparr>pg_open = Some opn, pg_outcomes = outcomes\<rparr>, env))
      | Waiting \<Rightarrow>
          if (if nearby then \<not> (case op_nearby o1 of None \<Rightarrow> False | Some t \<Rightarrow> NearbyToken_live t now) else op_token_expires_ms o1 \<le> now)
          then (Inl ExpiredToken, ?p1, env)
          else case claim_waiting lib o1 nearby bytes name key now env of (r, opn, env) \<Rightarrow> (r, ?p1\<lparr>pg_open := Some opn\<rparr>, env))"
    unfolding assms [symmetric] Pairings_claim_def start(1,2) option.case Let_def nb if_not_P [OF guard] rf prod.case by (rule refl)
  have bounded: "pairings_bounded p \<longrightarrow> pairings_bounded ?p1" using q by (simp add: quietly_def)
  show ?thesis
  proof (cases "op_phase o1")
    case (Finished c s)
    then show ?thesis using run q bounded by (cases c) auto
  next
    case (Claimed c d code dl)
    obtain o2 out2 was where st: "settle o1 out1 State_Denied = (o2, out2, was)" by (rule prod_cases3)
    have "quietly p \<lparr>pg_open = Some o2, pg_outcomes = out2\<rparr>"
      using quietly_trans [OF q] quietly_settle [of ?p1 o1 State_Denied o2 out2 was] st by simp
    then show ?thesis using run Claimed st by (auto simp: quietly_def)
  next
    case Waiting
    then have "op_phase opn = Waiting" using f(7) by auto
    obtain x o2 env2 where cw: "claim_waiting lib o1 nearby bytes name key now env = (x, o2, env2)" by (rule prod_cases3)
    note cwf = claim_waiting_facts [OF cw]
    show ?thesis
    proof (cases "if nearby then \<not> (case op_nearby o1 of None \<Rightarrow> False | Some t \<Rightarrow> NearbyToken_live t now) else op_token_expires_ms o1 \<le> now")
      case True
      have "(r, p', env') = (Inl ExpiredToken, ?p1, env)" using run unfolding Waiting Phase.case if_P [OF True] .
      then show ?thesis using q bounded by simp
    next
      case False
      have eq: "r = x" "p' = ?p1\<lparr>pg_open := Some o2\<rparr>" "env' = env2"
        using run unfolding Waiting Phase.case if_not_P [OF False] cw by simp_all
      show ?thesis
      proof (cases x)
        case (Inl e)
        then show ?thesis using eq cwf q bounded by simp
      next
        case (Inr c)
        have "accepted lib p token now c device p'" if "op_phase o2 = Claimed (cl_id c) device (cl_code c) (cl_expires_ms c)" for device
          unfolding accepted_def using start(1,2) \<open>op_phase opn = Waiting\<close> match that False f(1-5) cwf Inr eq(2)
          by (auto simp: nearby_def NearbyToken_live_def split: option.splits if_splits)
        then show ?thesis using eq cwf bounded Inr by (auto simp: pairings_bounded_def)
      qed
    qed
  qed
qed

end
