(* ===== verification/Auth_Effects.thy ===== *)
theory Auth_Effects
  imports Auth_Facts
begin

text \<open>
  What each operation of \<open>Auth\<close> may do to the stored ids, to sessions and challenges, and to the open pairing.
\<close>

section \<open>The effect of an operation\<close>

text \<open>An approval of the device of the open claim, naming its code in time.\<close>

definition approves :: "AuthOp \<Rightarrow> Pairings \<Rightarrow> DeviceId \<Rightarrow> bool" where
  "approves op p d \<longleftrightarrow> (\<exists>ident shown hosts now opn claim device code deadline.
     op = Op_answer ident True shown hosts now \<and> pg_open p = Some opn \<and> op_id opn = ident \<and>
     op_phase opn = Claimed claim device code deadline \<and> nd_id device = d \<and> str_bytes code = str_bytes shown \<and> now < deadline)"

lemma quietly_claimed:
  assumes "quietly p p'" "pg_open p' = Some o'" "op_phase o' = Claimed claim device code deadline"
  shows "\<exists>opn app. pg_open p = Some opn \<and> op_id opn = op_id o' \<and> op_phase opn = Claimed claim (device\<lparr>nd_app := app\<rparr>) code deadline"
  using assms by (auto simp: quietly_def quiet_def)

lemma answer_stored_facts:
  assumes "answer_stored pk a ident allow hosts now env = (r, a', env')"
  shows "quietly (au_pairings a) (au_pairings a')" "spends env env'" "au_sessions a' = au_sessions a"
    "Devices_ids (au_devices a') = Devices_ids (au_devices a) \<or>
     (\<exists>opn claim device code deadline. pg_open (au_pairings a) = Some opn \<and> op_id opn = ident \<and>
        op_phase opn = Claimed claim device code deadline \<and> now < deadline \<and> allow \<and>
        Devices_ids (au_devices a') = Devices_ids (au_devices a) @ [nd_id device])"
proof -
  let ?keep = "\<lambda>device (devices, env). case add_with (pk_store pk) device now None (allowed (au_links a) hosts) devices env of (r, devices, env) \<Rightarrow> (r, devices, env)"
  obtain x p1 ds e1 where ans: "Pairings_answer (au_pairings a) ident allow now ?keep (au_devices a, env) = (x, p1, ds, e1)"
    by (metis prod_cases4)
  note q = quietly_answer [OF ans]
  have keep: "?keep device (au_devices a, env) = add_with (pk_store pk) device now None (allowed (au_links a) hosts) (au_devices a) env" for device
    by (simp add: case_prod_beta')
  have a': "au_devices a' = ds" "env' = e1" "au_sessions a' = au_sessions a" "quietly p1 (au_pairings a')"
    using assms ans quietly_state [of p1 ident now]
    by (auto simp: answer_stored_def Let_def Auth_pairing_def sync_apps_def split: sum.splits prod.splits)
  have added: "spends env e \<and> Devices_ids d = Devices_ids (au_devices a) @ (case y of Inl _ \<Rightarrow> [] | Inr _ \<Rightarrow> [nd_id device])"
    if "add_with (pk_store pk) device now None (allowed (au_links a) hosts) (au_devices a) env = (y, d, e)" for y d e device
    using add_with_ids [OF that] by simp
  show "quietly (au_pairings a) (au_pairings a')" using q(1) a'(4) by (rule quietly_trans)
  show "au_sessions a' = au_sessions a" by (rule a'(3))
  have "spends env e1 \<and> (Devices_ids ds = Devices_ids (au_devices a) \<or>
     (\<exists>opn claim device code deadline. pg_open (au_pairings a) = Some opn \<and> op_id opn = ident \<and>
        op_phase opn = Claimed claim device code deadline \<and> now < deadline \<and> allow \<and>
        Devices_ids ds = Devices_ids (au_devices a) @ [nd_id device]))"
    using q(2)
  proof
    assume "\<exists>opn claim device code deadline u. pg_open (au_pairings a) = Some opn \<and> op_id opn = ident \<and> op_phase opn = Claimed claim device code deadline \<and>
        now < deadline \<and> allow \<and> (ds, e1) = snd (?keep device (au_devices a, env)) \<and>
        (case fst (?keep device (au_devices a, env)) of Inl e \<Rightarrow> x = Inl e | Inr u \<Rightarrow> x = Inr (Some device))"
    then obtain opn claim device code deadline where c: "pg_open (au_pairings a) = Some opn" "op_id opn = ident"
      "op_phase opn = Claimed claim device code deadline" "now < deadline" "allow"
      "(ds, e1) = snd (add_with (pk_store pk) device now None (allowed (au_links a) hosts) (au_devices a) env)"
      unfolding keep by blast
    obtain y where "add_with (pk_store pk) device now None (allowed (au_links a) hosts) (au_devices a) env = (y, ds, e1)"
      using c(6) by (metis prod.collapse)
    from added [OF this] c show ?thesis by (cases y) auto
  qed simp
  then show "spends env env'" "Devices_ids (au_devices a') = Devices_ids (au_devices a) \<or>
     (\<exists>opn claim device code deadline. pg_open (au_pairings a) = Some opn \<and> op_id opn = ident \<and>
        op_phase opn = Claimed claim device code deadline \<and> now < deadline \<and> allow \<and>
        Devices_ids (au_devices a') = Devices_ids (au_devices a) @ [nd_id device])"
    using a'(1,2) by auto
qed

lemma answer_facts:
  assumes "answer_with_hosts pk a ident allow shown hosts now env = (r, a', env')"
  shows "quietly (au_pairings a) (au_pairings a')" "spends env env'" "au_sessions a' = au_sessions a"
    "Devices_ids (au_devices a') = Devices_ids (au_devices a) \<or>
     (\<exists>d. approves (Op_answer ident allow shown hosts now) (au_pairings a) d \<and> Devices_ids (au_devices a') = Devices_ids (au_devices a) @ [d])"
proof -
  obtain st a1 where state: "Auth_pairing a ident now = (st, a1)" by fastforce
  then have p1: "quietly (au_pairings a) (au_pairings a1)" "au_devices a1 = au_devices a" "au_sessions a1 = au_sessions a" "au_links a1 = au_links a"
    using quietly_state [of "au_pairings a" ident now] by (auto simp: Auth_pairing_def split: prod.splits)
  have "quietly (au_pairings a) (au_pairings a') \<and> spends env env' \<and> au_sessions a' = au_sessions a \<and>
    (Devices_ids (au_devices a') = Devices_ids (au_devices a) \<or>
     (\<exists>d. approves (Op_answer ident allow shown hosts now) (au_pairings a) d \<and> Devices_ids (au_devices a') = Devices_ids (au_devices a) @ [d]))"
  proof (cases "allow \<and> shown_matches st shown")
    case True
    then obtain name code app where st: "st = Inr (State_Claimed name code app)" "str_bytes code = str_bytes shown"
      by (auto simp: shown_matches_def split: sum.splits PairingState.splits)
    have run: "answer_stored pk a1 ident True hosts now env = (r, a', env')"
      using assms True state st by (simp add: answer_with_hosts_def)
    obtain o1 where o1: "pg_open (au_pairings a1) = Some o1" "Open_view o1 now = State_Claimed name code app"
      using state st by (auto simp: Auth_pairing_def Pairings_state_def Let_def split: prod.splits sum.splits)
    have d: "approves (Op_answer ident allow shown hosts now) (au_pairings a) (nd_id device)"
      if "op_id o1 = ident" "op_phase o1 = Claimed claim device code' deadline" "now < deadline" for claim device code' deadline
      using quietly_claimed [OF p1(1) o1(1) that(2)] that o1(2) st(2) True by (auto simp: approves_def Open_view_def)
    note f = answer_stored_facts [OF run]
    show ?thesis using f(1-4) d o1(1) p1 quietly_trans [OF p1(1) f(1)] by auto
  next
    case False
    show ?thesis
    proof (cases allow)
      case True
      obtain x p2 u where ans: "Pairings_answer (au_pairings a1) ident False now (\<lambda>_ s. (Inr (), s)) () = (x, p2, u)" by (rule prod_cases3)
      show ?thesis using True False assms state ans p1 quietly_trans [OF p1(1) quietly_answer(1) [OF ans]]
        by (auto simp: answer_with_hosts_def split: sum.splits prod.splits if_splits)
    next
      case False
      then have "answer_stored pk a ident False hosts now env = (r, a', env')" using assms by (simp add: answer_with_hosts_def)
      from answer_stored_facts [OF this] show ?thesis by auto
    qed
  qed
  then show "quietly (au_pairings a) (au_pairings a')" "spends env env'" "au_sessions a' = au_sessions a"
    "Devices_ids (au_devices a') = Devices_ids (au_devices a) \<or>
     (\<exists>d. approves (Op_answer ident allow shown hosts now) (au_pairings a) d \<and> Devices_ids (au_devices a') = Devices_ids (au_devices a) @ [d])"
    by blast+
qed

lemma redeem_frame: "Handoffs_redeem lib json h token now env = (r, h', env') \<Longrightarrow> spends env env'"
  "Handoffs_mint lib json h device now env = (r2, h', env') \<Longrightarrow> spends env env'"
  "Handoffs_forget lib json h device env = (r3, h', env') \<Longrightarrow> spends env env'"
proof -
  have save: "spends env env'" if "Handoffs_save lib json h env = (r, env')" for h env r env'
    using that by (auto simp: Handoffs_save_def dest: spends_write_private split: option.splits)
  show "Handoffs_redeem lib json h token now env = (r, h', env') \<Longrightarrow> spends env env'"
    by (auto simp: Handoffs_redeem_def Let_def dest: save split: option.splits prod.splits sum.splits)
  show "Handoffs_mint lib json h device now env = (r2, h', env') \<Longrightarrow> spends env env'"
    by (auto simp: Handoffs_mint_def Let_def split: prod.splits sum.splits; meson save spends_random_bytes spends_trans)
  show "Handoffs_forget lib json h device env = (r3, h', env') \<Longrightarrow> spends env env'"
    by (auto simp: Handoffs_forget_def Let_def dest: save split: prod.splits if_splits)
qed

lemma spends_owe: "owe json l owed env = (r, l', env') \<Longrightarrow> spends env env'"
  by (auto simp: owe_def replace_revokes_def Let_def dest: spends_write_private split: option.splits prod.splits sum.splits if_splits)

lemma spends_links:
  "Links_forget json l r env = (x, l', env') \<Longrightarrow> spends env env'"
  "Links_revoked json l revoke env = (x, l', env') \<Longrightarrow> spends env env'"
  by (auto simp: Links_forget_def Links_revoked_def replace_revokes_def Let_def dest: spends_owe spends_write_private
      split: option.splits prod.splits sum.splits if_splits)

lemma finish_facts:
  "finish lib store json l devices device host key outcome now env = (r, l', devices', env') \<Longrightarrow> Devices_ids devices' = Devices_ids devices \<and> spends env env'"
  by (auto simp: finish_def Let_def split: sum.splits option.splits HostOutcome.splits if_splits prod.splits
      dest: spends_owe dest!: field_ids(1))

lemma revoke_facts:
  assumes "Auth_revoke pk a device env = (r, a', env')"
  shows "spends env env' \<and> au_pairings a' = au_pairings a \<and> set (Devices_ids (au_devices a')) \<subseteq> set (Devices_ids (au_devices a)) \<and>
    (r = Inr b \<longrightarrow> distinct (Devices_ids (au_devices a)) \<longrightarrow> device \<notin> set (Devices_ids (au_devices a'))) \<and>
    (\<forall>D. owned D (au_sessions a) \<longrightarrow> owned (D - (set (Devices_ids (au_devices a)) - set (Devices_ids (au_devices a')))) (au_sessions a')) \<and>
    (r = Inr b \<longrightarrow> au_sessions a' = end_device (au_sessions a) device)"
proof -
  obtain x a1 e1 where fg: "(case Devices_get (au_devices a) device of None \<Rightarrow> (Inr (), a, env)
      | Some r \<Rightarrow> (case Links_forget (pk_revoke pk) (au_links a) r env of (x, links, env) \<Rightarrow> (x, a\<lparr>au_links := links\<rparr>, env))) = (x, a1, e1)"
    by (rule prod_cases3)
  have a1: "au_pairings a1 = au_pairings a" "au_sessions a1 = au_sessions a" "au_devices a1 = au_devices a" "spends env e1"
    using fg spends_links(1) [of "pk_revoke pk" "au_links a" _ env] by (auto split: option.splits prod.splits)
  show ?thesis
  proof (cases x)
    case (Inl e)
    then show ?thesis using assms fg a1 by (auto simp: Auth_revoke_def Let_def)
  next
    case (Inr u)
    obtain y h e2 where hf: "Handoffs_forget (pk_lib pk) (pk_handoff pk) (au_handoffs a1) device e1 = (y, h, e2)" by (rule prod_cases3)
    obtain z d e3 where rv: "Devices_revoke (pk_store pk) device (au_devices a) e2 = (z, d, e3)" by (rule prod_cases3)
    have eq: "r = z" "env' = e3" "au_devices a' = d" "au_pairings a' = au_pairings a" "au_sessions a' = end_device (au_sessions a) device"
      using assms fg Inr hf rv a1 by (auto simp: Auth_revoke_def Let_def note_revoked_def sync_apps_def)
    note ids = revoke_ids [OF rv]
    have "spends env e3" using a1(4) redeem_frame(3) [OF hf] ids(4) by (blast intro: spends_trans)
    moreover have "owned (D - (set (Devices_ids (au_devices a)) - set (Devices_ids d))) (end_device (au_sessions a) device)"
      if "owned D (au_sessions a)" for D
      using owned_end_device [OF that, of device] ids(2) by (auto simp: owned_def end_device_def retain_in)
    ultimately show ?thesis using eq ids by auto
  qed
qed

abbreviation ids_of :: "Auth \<Rightarrow> DeviceId set" where
  "ids_of a \<equiv> set (Devices_ids (au_devices a))"

lemma spends_random_secret: "random_secret near env = (r, env') \<Longrightarrow> spends env env'"
proof (induction near env arbitrary: r env' rule: random_secret.induct)
  case (1 near env)
  obtain x e where rb: "random_bytes 32 env = (x, e)" by fastforce
  show ?case
  proof (cases x)
    case (Inl err)
    then show ?thesis using 1(2) rb spends_random_bytes [OF rb] by (simp add: random_secret.simps [of near env])
  next
    case (Inr bytes)
    show ?thesis
    proof (cases "secret_from_slice near bytes")
      case True
      then show ?thesis using 1(2) rb Inr spends_random_bytes [OF rb] by (simp add: random_secret.simps [of near env])
    next
      case False
      have "random_secret near e = (r, env')" using 1(2) rb Inr False by (simp add: random_secret.simps [of near env])
      then have "spends e env'" using 1(1) [OF rb [symmetric] Inr False] by blast
      then show ?thesis using spends_random_bytes [OF rb] spends_trans by blast
    qed
  qed
qed

lemma spends_nearby:
  "Nearby_start lib near s key computer fp now env = (r, s', env') \<Longrightarrow> spends env env'"
  "StartedSession_reveal lib near session nonce fp token origins env = (x, env') \<Longrightarrow> spends env env'"
  by (auto simp: Nearby_start_def StartedSession_reveal_def Let_def split: sum.splits option.splits if_splits prod.splits;
      meson spends_random_secret spends_random_bytes spends_random_id spends_trans)+

lemma presence_challenge_spends: "Presences_challenge lib s text now devices env = (r, s', env') \<Longrightarrow> spends env env'"
  by (auto simp: Presences_challenge_def Let_def split: option.splits sum.splits prod.splits dest: spends_random_bytes)

text \<open>The operations on the pairing, the limits, presence, handoffs and links alone leave sessions and stored ids as they were.\<close>

lemmas auth_op_defs = Auth_mint_def Auth_pairing_def Auth_cancel_def Auth_claim_def pairing_open_def nearby_start_def nearby_reveal_def
  presence_challenge_def presence_prove_def Auth_claimed_from_def Auth_claim_status_def Auth_challenge_def Auth_verify_def
  Auth_authenticate_def Auth_handoff_def device_list_def Auth_set_hosts_def host_links_def ask_host_def take_host_pairings_def
  host_paired_def host_revoked_def Let_def

lemma nearby_reveal_facts:
  assumes "nearby_reveal pk a session nonce fp origins now env = (r, a', env')"
  shows "spends env env' \<and> au_sessions a' = au_sessions a \<and> au_devices a' = au_devices a \<and>
    (pairings_bounded (au_pairings a) \<longrightarrow> pairings_bounded (au_pairings a')) \<and>
    (quietly (au_pairings a) (au_pairings a') \<or>
     (\<exists>opn o' t token. pg_open (au_pairings a) = Some opn \<and> op_phase opn = Waiting \<and> pg_open (au_pairings a') = Some o' \<and> op_phase o' = Waiting \<and>
        op_token_digest o' = op_token_digest opn \<and> op_nearby o' = Some t \<and> nt_digest t = sha256 (pk_lib pk) [token] \<and>
        (\<forall>P. avoids SECRET_LEN P env \<longrightarrow> \<not> P token)))"
proof -
  obtain x n1 where tk: "Nearby_take (au_nearby a) session now = (x, n1)" by fastforce
  obtain w p1 where w: "Pairings_waiting (au_pairings a) now = (w, p1)" by fastforce
  note q = quietly_waiting [OF w]
  show ?thesis
  proof (cases "\<exists>started token e1 y e2 revealed code. x = Inr started \<and> w \<and> random_bytes SECRET_LEN env = (Inr token, e1) \<and>
      StartedSession_reveal (pk_lib pk) (pk_near pk) started nonce fp token origins e1 = (Inr (revealed, code), e2)")
    case False
    have "au_pairings a' = au_pairings a \<or> au_pairings a' = p1" "au_sessions a' = au_sessions a" "au_devices a' = au_devices a" "spends env env'"
      using assms tk w False unfolding nearby_reveal_def pairing_open_def Let_def
      by (auto split: sum.splits prod.splits if_splits; meson spends_random_bytes spends_nearby(2) spends_trans)+
    then show ?thesis using q by (auto simp: quietly_def)
  next
    case True
    then obtain started token e1 e2 revealed code where s: "x = Inr started" "w" "random_bytes SECRET_LEN env = (Inr token, e1)"
      "StartedSession_reveal (pk_lib pk) (pk_near pk) started nonce fp token origins e1 = (Inr (revealed, code), e2)" by blast
    obtain y p2 where sn: "set_nearby (pk_lib pk) p1 token code now = (y, p2)" by fastforce
    have a': "au_pairings a' = p2" "au_sessions a' = au_sessions a" "au_devices a' = au_devices a" "env' = e2"
      using assms tk w s sn unfolding nearby_reveal_def pairing_open_def Let_def by (auto split: sum.splits)
    have sp: "spends env e2" using spends_random_bytes [OF s(3)] spends_nearby(2) [OF s(4)] by (rule spends_trans)
    have fresh: "\<not> P token" if "avoids SECRET_LEN P env" for P using random_bytes_avoids [OF that s(3)] .
    note f = set_nearby_facts [OF sn]
    have earlier: "\<exists>opn. pg_open (au_pairings a) = Some opn \<and> op_phase opn = Waiting \<and> op_token_digest o1 = op_token_digest opn"
      if "pg_open p1 = Some o1" "op_phase o1 = Waiting" for o1
      using q that by (auto simp: quietly_def quiet_def)
    from f consider "quietly p1 p2" | o1 o' t where "pg_open p1 = Some o1" "op_phase o1 = Waiting" "pg_open p2 = Some o'" "op_phase o' = Waiting"
        "op_token_digest o' = op_token_digest o1" "op_nearby o' = Some t" "nt_digest t = sha256 (pk_lib pk) [token]" by blast
    then show ?thesis
    proof cases
      case 1
      then show ?thesis using q a' sp f quietly_trans by (auto simp: quietly_def)
    next
      case 2
      then show ?thesis using earlier [OF 2(1,2)] a' sp f q fresh by (auto simp: quietly_def)
    qed
  qed
qed

section \<open>Every operation\<close>

lemma step_spends: "auth_step pk op (a, env) = (a', env') \<Longrightarrow> spends env env'"
proof (cases op)
  case (Op_answer i al sh h now)
  then show "auth_step pk op (a, env) = (a', env') \<Longrightarrow> spends env env'"
    using answer_facts(2) [of pk a i al sh h now env] by (cases "answer_with_hosts pk a i al sh h now env") auto
next
  case (Op_nearby_reveal s n fp os now)
  then show "auth_step pk op (a, env) = (a', env') \<Longrightarrow> spends env env'"
    using nearby_reveal_facts [of pk a s n fp os now env] by (cases "nearby_reveal pk a s n fp os now env") auto
next
  case (Op_revoke_device d)
  then show "auth_step pk op (a, env) = (a', env') \<Longrightarrow> spends env env'"
    using revoke_facts [of pk a d env] by (cases "Auth_revoke pk a d env") auto
next
  case (Op_enroll e now)
  then show "auth_step pk op (a, env) = (a', env') \<Longrightarrow> spends env env'"
    using revoke_facts [of pk a _ env]
    by (auto simp: Auth_enroll_def Let_def split: sum.splits prod.splits option.splits if_splits;
        meson spends_random_id add_with_ids spends_trans)
next
  case (Op_verify c s now)
  then show "auth_step pk op (a, env) = (a', env') \<Longrightarrow> spends env env'"
    using owned_verify [of "pk_lib pk" "au_sessions a" c s now "au_devices a" env _ _ _ UNIV]
    by (auto simp: Auth_verify_def owned_def split: sum.splits prod.splits; meson touch_ids spends_trans)
next
  case (Op_challenge c d now)
  then show "auth_step pk op (a, env) = (a', env') \<Longrightarrow> spends env env'"
    using owned_challenge [of "pk_lib pk" "au_sessions a" d now "au_devices a" env _ _ _ UNIV]
    by (auto simp: Auth_challenge_def owned_def Let_def split: prod.splits if_splits)
next
  case (Op_redeem c tk key now)
  then show "auth_step pk op (a, env) = (a', env') \<Longrightarrow> spends env env'"
    by (auto simp: Auth_redeem_def Let_def split: sum.splits prod.splits option.splits if_splits;
        meson redeem_frame(1) field_ids(2) spends_trans)
qed (auto simp: auth_op_defs Auth_expire_idle_def split: prod.splits sum.splits if_splits option.splits
    dest: mint_facts claim_facts redeem_frame spends_nearby presence_challenge_spends spends_links finish_facts expire_ids field_ids)

text \<open>Sessions and challenges only come from a device that is stored, and go with it.\<close>

definition sessions_follow :: "AuthOp \<Rightarrow> Auth \<Rightarrow> Auth \<Rightarrow> bool" where
  "sessions_follow op a a' \<longleftrightarrow> (\<forall>D. owned D (au_sessions a) \<longrightarrow>
     (\<forall>client d now. op = Op_challenge client d now \<longrightarrow> d \<in> ids_of a \<longrightarrow> d \<in> D) \<longrightarrow>
     owned (D - (ids_of a - ids_of a')) (au_sessions a'))"

lemma follow_same: "au_sessions a' = au_sessions a \<Longrightarrow> ids_of a \<subseteq> ids_of a' \<Longrightarrow> sessions_follow op a a'"
proof -
  assume s: "au_sessions a' = au_sessions a" and "ids_of a \<subseteq> ids_of a'"
  then have "D - (ids_of a - ids_of a') = D" for D by blast
  then show "sessions_follow op a a'" by (simp add: sessions_follow_def s)
qed

lemma enroll_facts:
  assumes "Auth_enroll pk a e now env = (r, a', env')"
  shows "sessions_follow (Op_enroll e now) a a'" "au_pairings a' = au_pairings a"
    "\<forall>d. d \<in> ids_of a' \<longrightarrow> avoids 16 (\<lambda>b. b64_encode (pk_lib pk) b = d) env \<longrightarrow> d \<in> ids_of a"
proof -
  have "sessions_follow (Op_enroll e now) a a' \<and> au_pairings a' = au_pairings a \<and>
    (\<forall>d. d \<in> ids_of a' \<longrightarrow> avoids 16 (\<lambda>b. b64_encode (pk_lib pk) b = d) env \<longrightarrow> d \<in> ids_of a)"
  proof (cases "\<exists>key name via. PublicKey_parse (pk_lib pk) (er_public_key e) = Inr key \<and> device_name (er_name e) = Inr name \<and> device_name (er_via e) = Inr via")
    case False
    then have "a' = a" using assms by (auto simp: Auth_enroll_def split: sum.splits)
    then show ?thesis by (simp add: follow_same)
  next
    case True
    then obtain key name via where ok: "PublicKey_parse (pk_lib pk) (er_public_key e) = Inr key" "device_name (er_name e) = Inr name" "device_name (er_via e) = Inr via" by blast
    obtain x a1 e1 where rp: "(case er_replace e of None \<Rightarrow> (Inr True, a, env) | Some old \<Rightarrow> (case Devices_get (au_devices a) old of
        None \<Rightarrow> (Inr True, a, env) | Some r \<Rightarrow> if dr_via r \<noteq> None then Auth_revoke pk a old env else (Inr True, a, env))) = (x, a1, e1)"
      by (rule prod_cases3)
    have a1: "spends env e1" "au_pairings a1 = au_pairings a" "ids_of a1 \<subseteq> ids_of a"
      "\<And>D. owned D (au_sessions a) \<Longrightarrow> owned (D - (ids_of a - ids_of a1)) (au_sessions a1)"
    proof -
      have "owned (D - (ids_of a - ids_of a)) (au_sessions a)" if "owned D (au_sessions a)" for D using that by simp
      then show "spends env e1" "au_pairings a1 = au_pairings a" "ids_of a1 \<subseteq> ids_of a"
        "\<And>D. owned D (au_sessions a) \<Longrightarrow> owned (D - (ids_of a - ids_of a1)) (au_sessions a1)"
        using rp revoke_facts [of pk a _ env x a1 e1] by (auto split: option.splits if_splits)
    qed
    obtain y e2 where rid: "random_id (pk_lib pk) e1 = (y, e2)" by fastforce
    show ?thesis
    proof (cases "\<exists>u i. x = Inr u \<and> y = Inr i")
      case False
      then have "a' = a1" using assms ok rp rid by (auto simp: Auth_enroll_def Let_def split: sum.splits)
      then show ?thesis using a1 by (auto simp: sessions_follow_def)
    next
      case True
      then obtain u i where xy: "x = Inr u" "y = Inr i" by blast
      obtain z ds e3 where ad: "add_with (pk_store pk) \<lparr>nd_app = None, nd_id = i, nd_name = name, nd_public_key = key\<rparr> now (Some via) [] (au_devices a1) e2 = (z, ds, e3)"
        by (rule prod_cases3)
      have a': "a' = a1\<lparr>au_devices := ds\<rparr>" using assms ok rp rid xy ad by (auto simp: Auth_enroll_def Let_def split: sum.splits)
      have ids: "ids_of a1 \<subseteq> ids_of a'" "ids_of a' \<subseteq> insert i (ids_of a1)"
        using add_with_ids [OF ad] a' by (auto split: sum.splits)
      have fresh: "i \<noteq> d" if "avoids 16 (\<lambda>b. b64_encode (pk_lib pk) b = d) env" for d
        using random_id_avoids [OF avoids_spends [OF that a1(1)] rid [unfolded xy]] .
      have "owned (D - (ids_of a - ids_of a')) (au_sessions a')" if "owned D (au_sessions a)" for D
      proof (rule owned_mono)
        show "owned (D - (ids_of a - ids_of a1)) (au_sessions a')" using a1(4) [OF that] a' by simp
      qed (use ids(1) in blast)
      then have "sessions_follow (Op_enroll e now) a a'" unfolding sessions_follow_def by blast
      moreover have "d \<in> ids_of a" if "d \<in> ids_of a'" "avoids 16 (\<lambda>b. b64_encode (pk_lib pk) b = d) env" for d
        using ids(2) that fresh [OF that(2)] a1(3) by blast
      moreover have "au_pairings a' = au_pairings a" using a' a1(2) by simp
      ultimately show ?thesis by blast
    qed
  qed
  then show "sessions_follow (Op_enroll e now) a a'" "au_pairings a' = au_pairings a"
    "\<forall>d. d \<in> ids_of a' \<longrightarrow> avoids 16 (\<lambda>b. b64_encode (pk_lib pk) b = d) env \<longrightarrow> d \<in> ids_of a" by blast+
qed

lemma redeem_facts:
  assumes "Auth_redeem pk a client token key now env = (r, a', env')"
  shows "au_pairings a' = au_pairings a" "Devices_ids (au_devices a') = Devices_ids (au_devices a)"
    "au_sessions a' = au_sessions a \<or> (\<exists>d. au_sessions a' = end_device (au_sessions a) d)"
  using assms
  by (auto simp: Auth_redeem_def Let_def note_revoked_def split: sum.splits prod.splits option.splits if_splits dest!: field_ids(2))

lemma expire_facts:
  assumes "Auth_expire_idle pk a now ms env = (r, a', env')"
  shows "sessions_follow op a a'" "au_pairings a' = au_pairings a" "ids_of a' \<subseteq> ids_of a"
proof -
  obtain x ds e where ex: "Devices_expire_idle (pk_store pk) now ms (au_devices a) env = (x, ds, e)" by (rule prod_cases3)
  note ids = expire_ids [OF ex]
  have eq: "au_pairings a' = au_pairings a" "au_devices a' = ds"
    "au_sessions a' = (case x of Inl _ \<Rightarrow> au_sessions a | Inr gone \<Rightarrow> fold (\<lambda>d s. end_device s d) gone (au_sessions a))"
    using assms ex by (auto simp: Auth_expire_idle_def Let_def note_revoked_def sync_apps_def split: sum.splits if_splits)
  show "au_pairings a' = au_pairings a" "ids_of a' \<subseteq> ids_of a" using eq ids by auto
  show "sessions_follow op a a'"
  proof (cases x)
    case (Inl err)
    then show ?thesis using eq ids by (intro follow_same) auto
  next
    case (Inr gone)
    have "owned (D - (ids_of a - ids_of a')) (au_sessions a')" if "owned D (au_sessions a)" for D
    proof -
      have keep: "owned (D - set gone) (au_sessions a')" using owned_end_devices [OF that, of gone] eq(3) Inr by simp
      have "D - set gone \<subseteq> D - (ids_of a - ids_of a')" using ids Inr eq(2) by auto
      then show ?thesis by (rule owned_mono [OF keep])
    qed
    then show ?thesis by (simp add: sessions_follow_def)
  qed
qed

lemma owned_ended: "owned D s \<Longrightarrow> owned D (end_device s d)"
  by (auto simp: owned_def end_device_def retain_in)

lemma step_sessions:
  assumes "auth_step pk op (a, env) = (a', env')"
  shows "sessions_follow op a a'"
proof (cases op)
  case (Op_answer i al sh h now)
  then show ?thesis using assms answer_facts(3,4) [of pk a i al sh h now env]
    by (cases "answer_with_hosts pk a i al sh h now env") (auto intro!: follow_same)
next
  case (Op_nearby_reveal s n fp os now)
  then show ?thesis using assms nearby_reveal_facts [of pk a s n fp os now env]
    by (cases "nearby_reveal pk a s n fp os now env") (auto intro!: follow_same)
next
  case (Op_revoke_device d)
  then show ?thesis using assms revoke_facts [of pk a d env]
    by (cases "Auth_revoke pk a d env") (auto simp: sessions_follow_def)
next
  case (Op_enroll e now)
  then show ?thesis using assms enroll_facts(1) [of pk a e now env] by (cases "Auth_enroll pk a e now env") auto
next
  case (Op_expire now ms)
  then show ?thesis using assms expire_facts(1) [of pk a now ms env] by (cases "Auth_expire_idle pk a now ms env") auto
next
  case (Op_redeem c tk key now)
  then show ?thesis using assms redeem_facts(2,3) [of pk a c tk key now env]
    by (cases "Auth_redeem pk a c tk key now env") (auto simp: sessions_follow_def owned_ended)
next
  case (Op_challenge c d now)
  obtain l g where lim: "RateLimiter_allow (au_challenge_limit a) c now = (l, g)" by fastforce
  obtain x s e where ch: "Sessions_challenge (pk_lib pk) (au_sessions a) d now (au_devices a) env = (x, s, e)" by (rule prod_cases3)
  show ?thesis using assms Op_challenge lim ch owned_challenge [OF ch]
    by (auto simp: Auth_challenge_def Let_def sessions_follow_def split: if_splits)
next
  case (Op_verify c sig now)
  obtain x s e where v: "Sessions_verify (pk_lib pk) (au_sessions a) c sig now (au_devices a) env = (x, s, e)" by (rule prod_cases3)
  have "au_sessions a' = s" "ids_of a' = ids_of a"
    using assms Op_verify v by (auto simp: Auth_verify_def split: sum.splits prod.splits dest!: touch_ids)
  then show ?thesis using owned_verify [OF v] by (simp add: sessions_follow_def)
next
  case (Op_authenticate b now)
  obtain x s where v: "Sessions_authenticate (pk_lib pk) (au_sessions a) b now = (x, s)" by fastforce
  have "au_sessions a' = s" "ids_of a' = ids_of a" using assms Op_authenticate v by (auto simp: Auth_authenticate_def)
  then show ?thesis using owned_authenticate [OF v] by (simp add: sessions_follow_def)
qed (use assms in \<open>auto simp: auth_op_defs intro!: follow_same split: prod.splits sum.splits if_splits option.splits
    dest!: finish_facts field_ids\<close>)

lemma step_ids:
  assumes "auth_step pk op (a, env) = (a', env')" "d \<in> ids_of a'" "d \<notin> ids_of a"
  shows "approves op (au_pairings a) d \<or> (\<exists>e now. op = Op_enroll e now \<and> \<not> avoids 16 (\<lambda>b. b64_encode (pk_lib pk) b = d) env)"
proof (cases op)
  case (Op_answer i al sh h now)
  then show ?thesis using assms answer_facts(4) [of pk a i al sh h now env]
    by (cases "answer_with_hosts pk a i al sh h now env") auto
next
  case (Op_nearby_reveal s n fp os now)
  then show ?thesis using assms nearby_reveal_facts [of pk a s n fp os now env]
    by (cases "nearby_reveal pk a s n fp os now env") auto
next
  case (Op_revoke_device x)
  then show ?thesis using assms revoke_facts [of pk a x env] by (cases "Auth_revoke pk a x env") auto
next
  case (Op_enroll e now)
  then show ?thesis using assms enroll_facts(3) [of pk a e now env] by (cases "Auth_enroll pk a e now env") auto
next
  case (Op_expire now ms)
  then show ?thesis using assms expire_facts(3) [of pk a now ms env] by (cases "Auth_expire_idle pk a now ms env") auto
next
  case (Op_redeem c tk key now)
  then show ?thesis using assms redeem_facts(2) [of pk a c tk key now env] by (cases "Auth_redeem pk a c tk key now env") auto
next
  case (Op_verify c sig now)
  then show ?thesis using assms by (auto simp: Auth_verify_def split: sum.splits prod.splits dest!: touch_ids)
qed (use assms in \<open>auto simp: auth_op_defs split: prod.splits sum.splits if_splits option.splits dest!: finish_facts field_ids\<close>)

text \<open>What an operation may do to the open pairing.\<close>

datatype PairingEffect = Quiet | Rotated | Sealed | Accepted

fun pairing_effect :: "Packages \<Rightarrow> AuthOp \<Rightarrow> Env \<Rightarrow> Pairings \<Rightarrow> Pairings \<Rightarrow> PairingEffect \<Rightarrow> bool" where
  "pairing_effect pk op env p p' Quiet = quietly p p'"
| "pairing_effect pk op env p p' Rotated = (\<exists>o'. pg_open p' = Some o' \<and> op_phase o' = Waiting \<and>
     (\<forall>P. avoids SECRET_LEN P env \<longrightarrow> (\<exists>token. op_token_digest o' = sha256 (pk_lib pk) [token] \<and> \<not> P token)) \<and>
     (\<forall>t. op_nearby o' = Some t \<longrightarrow> (\<exists>opn. pg_open p = Some opn \<and> unclaimed opn \<and> op_nearby opn = Some t)))"
| "pairing_effect pk op env p p' Sealed = (\<exists>opn o' t token. pg_open p = Some opn \<and> op_phase opn = Waiting \<and> pg_open p' = Some o' \<and> op_phase o' = Waiting \<and>
     op_token_digest o' = op_token_digest opn \<and> op_nearby o' = Some t \<and> nt_digest t = sha256 (pk_lib pk) [token] \<and>
     (\<forall>P. avoids SECRET_LEN P env \<longrightarrow> \<not> P token))"
| "pairing_effect pk op env p p' Accepted = (\<exists>client token name key now c device. op = Op_claim client token name key now \<and>
     accepted (pk_lib pk) p token now c device p' \<and> device_name name = Inr (nd_name device) \<and>
     PublicKey_parse (pk_lib pk) key = Inr (nd_public_key device) \<and>
     (\<forall>d. avoids 16 (\<lambda>b. b64_encode (pk_lib pk) b = d) env \<longrightarrow> nd_id device \<noteq> d))"

lemma step_pairings:
  assumes "auth_step pk op (a, env) = (a', env')"
  shows "(\<exists>e. pairing_effect pk op env (au_pairings a) (au_pairings a') e) \<and> (pairings_bounded (au_pairings a) \<longrightarrow> pairings_bounded (au_pairings a'))"
proof -
  have quiet: ?thesis if q: "quietly (au_pairings a) (au_pairings a')"
  proof -
    have "pairing_effect pk op env (au_pairings a) (au_pairings a') Quiet" using q by simp
    then show ?thesis using q unfolding quietly_def by blast
  qed
  show ?thesis
  proof (cases op)
    case (Op_answer i al sh h now)
    then show ?thesis using assms answer_facts(1) [of pk a i al sh h now env] quiet
      by (cases "answer_with_hosts pk a i al sh h now env") auto
  next
    case (Op_nearby_reveal s n fp os now)
    then have rev: "nearby_reveal pk a s n fp os now env = (fst (nearby_reveal pk a s n fp os now env), a', env')"
      using assms by (metis auth_step.simps(7) prod.collapse)
    show ?thesis using nearby_reveal_facts [OF rev] pairing_effect.simps(1,3) by metis
  next
    case (Op_mint now os fp)
    obtain r p e where m: "Pairings_mint (pk_lib pk) (au_pairings a) now os fp env = (r, p, e)" by (rule prod_cases3)
    have "au_pairings a' = p" using assms Op_mint m by (auto simp: Auth_mint_def)
    then show ?thesis using mint_facts [OF m] pairing_effect.simps(1,2) quietly_refl by metis
  next
    case (Op_claim c tk nm key now)
    obtain l g where lim: "RateLimiter_allow (au_pair_limit a) c now = (l, g)" by fastforce
    obtain r p e where m: "Pairings_claim (pk_lib pk) (au_pairings a) tk nm key now env = (r, p, e)" by (rule prod_cases3)
    show ?thesis
    proof (cases g)
      case True
      then have p: "au_pairings a' = p" using assms Op_claim lim m by (auto simp: Auth_claim_def Let_def)
      show ?thesis
      proof (cases r)
        case (Inl err)
        then show ?thesis using claim_facts [OF m] p quiet by simp
      next
        case (Inr c')
        then have "pairing_effect pk op env (au_pairings a) (au_pairings a') Accepted"
          using claim_facts [OF m] p Op_claim by auto
        then show ?thesis using claim_facts [OF m] p by blast
      qed
    next
      case False
      then show ?thesis using assms Op_claim lim quiet by (auto simp: Auth_claim_def Let_def)
    qed
  next
    case (Op_revoke_device d)
    then show ?thesis using assms revoke_facts [of pk a d env] quiet by (cases "Auth_revoke pk a d env") auto
  next
    case (Op_enroll e now)
    then show ?thesis using assms enroll_facts(2) [of pk a e now env] quiet by (cases "Auth_enroll pk a e now env") auto
  next
    case (Op_expire now ms)
    then show ?thesis using assms expire_facts(2) [of pk a now ms env] quiet by (cases "Auth_expire_idle pk a now ms env") auto
  next
    case (Op_redeem c tk key now)
    then show ?thesis using assms redeem_facts(1) [of pk a c tk key now env] quiet by (cases "Auth_redeem pk a c tk key now env") auto
  qed (use assms quiet in \<open>auto simp: auth_op_defs quietly_claimed_from dest: quietly_state quietly_cancel quietly_claim_status quietly_waiting
      split: prod.splits sum.splits if_splits option.splits\<close>)
qed

end
