(* ===== verification/Auth_Example.thy ===== *)
theory Auth_Example
  imports Auth_Effects
begin

text \<open>
  A run of the remote access server on concrete packages, for the witnesses: a pairing is opened, a phone claims it, a
  person allows it, and the device is revoked.
\<close>

definition same :: "nat \<Rightarrow> 'a \<Rightarrow> 'a list" where
  "same n x = replicate n x"

lemma same_facts [simp]: "length (same n x) = n" "map f (same n x) = same n (f x)" "same n x = same n y \<longleftrightarrow> n = 0 \<or> x = y" "i < n \<Longrightarrow> same n x ! i = x"
  by (auto simp: same_def)

lemma same_draw: "map (\<lambda>i. x) [0..<n] = same n x"
  by (simp add: same_def map_replicate_const)

definition example_lib :: AuthLib where
  "example_lib = \<lparr>b64_encode = map unat, b64_decode_slice = (\<lambda>n s. Some (map of_nat s)), b64_encoded_len = Some,
     sha256_of = (\<lambda>b. b), sec1_point = (\<lambda>b. True), signature_from_slice = (\<lambda>b. True), p256_verify = (\<lambda>k m s. True)\<rparr>"

definition example_pk :: Packages where
  "example_pk = \<lparr>pk_lib = example_lib, pk_near = \<lparr>secret_from_slice = (\<lambda>b. True), point_of_secret = (\<lambda>b. b), diffie_hellman = (\<lambda>a b. a @ b),
       hkdf_expand = (\<lambda>a b c. Some b), aes_encrypt = (\<lambda>a b c d. Some c), offer_to_vec = (\<lambda>a b. Some [])\<rparr>, pk_store = \<lparr>js_to_vec_pretty = (\<lambda>f. Some []), js_from_slice = (\<lambda>b. None)\<rparr>,
     pk_handoff = \<lparr>hj_to_vec = (\<lambda>s. Some []), hj_from_slice = (\<lambda>b. None)\<rparr>,
     pk_revoke = \<lparr>rj_to_vec_pretty = (\<lambda>s. Some []), rj_from_slice = (\<lambda>b. None)\<rparr>\<rparr>"

definition example_env :: Env where
  "example_env = \<lparr>ev_draws = map (\<lambda>n. Some (\<lambda>i. n)) [6, 2, 3, 4, 5], ev_files = (\<lambda>p. None), ev_io = [], ev_pid = 1, ev_temp = 0\<rparr>"

definition example_start :: Auth where
  "example_start = projr (fst (Auth_load example_pk [] Limits_default example_env))"

definition example_ops :: "AuthOp list" where
  "example_ops = [Op_mint 10 [chars ''https://a''] [], Op_claim (V4 1) (same 32 6) (chars ''phone'') (same 65 4) 20,
     Op_answer (same 16 2) True (six_digits 58054) [] 30]"

lemma example_loads: "Auth_load example_pk [] Limits_default example_env = (Inr example_start, example_env)"
  by (simp add: example_start_def Auth_load_def Devices_load_def Handoffs_load_def Links_load_def fs_read_def io_call_def example_env_def Let_def)

lemma example_empty: "ids_of example_start = {}"
  by (simp add: example_start_def Auth_load_def Devices_load_def Handoffs_load_def Links_load_def fs_read_def io_call_def example_env_def Let_def Devices_ids_def)

lemmas example_defs = example_ops_def example_start_def Auth_load_def Devices_load_def Handoffs_load_def Links_load_def fs_read_def io_call_def example_env_def Let_def
   Auth_mint_def Pairings_mint_def random_bytes_def random_id_def Pairings_default_def Pairings_close_def example_pk_def example_lib_def same_draw
   TOKEN_TTL_MS_def SECRET_LEN_def sha256_def u64_saturating_add_def U64_MAX_def PUBLIC_KEY_LEN_def

definition example_open :: Open where
  "example_open = \<lparr>op_id = same 16 2, op_token_digest = same 32 6, op_token_expires_ms = 60010, op_nearby = None, op_nearby_reveals = 0, op_phase = Waiting\<rparr>"

definition example_paired :: Open where
  "example_paired = example_open\<lparr>op_phase := Finished (Some (same 16 4)) (State_Approved (same 16 5))\<rparr>"

definition example_device :: NewDevice where
  "example_device = \<lparr>nd_app = None, nd_id = same 16 5, nd_name = chars ''phone'', nd_public_key = same 65 4\<rparr>"

lemma example_code: "matching_code example_lib (same 32 6) k n = six_digits 58054"
  by (simp add: matching_code_def from_be_4_def example_defs nth_append)

lemma example_name: "device_name (chars ''phone'') = Inr (chars ''phone'')"
  by (simp add: device_name_def trim_def chars_def char_is_control_def is_whitespace_def)

lemma example_fixed: "c < 128 \<Longrightarrow> decode_fixed example_lib n (same n c) = Some (same n (of_nat c))"
  by (simp add: decode_fixed_def example_lib_def str_len_def same_def sum_list_replicate encode_utf8_def)

lemma example_claim: "claim_waiting example_lib example_open False (same 32 6) (chars ''phone'') (same 65 4) 20 (example_env\<lparr>ev_draws := drop 2 (ev_draws example_env)\<rparr>) =
    (Inr \<lparr>cl_id = same 16 4, cl_code = six_digits 58054, cl_expires_ms = 120020\<rparr>,
     example_open\<lparr>op_phase := Claimed (same 16 4) example_device (six_digits 58054) 120020\<rparr>, example_env\<lparr>ev_draws := []\<rparr>)"
  by (simp add: claim_waiting_def example_name PublicKey_parse_def PUBLIC_KEY_LEN_def example_fixed example_code claim_draws_def random_bytes_def random_id_def Let_def
      example_open_def example_device_def example_env_def same_draw APPROVAL_TTL_MS_def u64_saturating_add_def U64_MAX_def, simp add: example_lib_def)

definition example_env2 :: Env where
  "example_env2 = example_env\<lparr>ev_draws := drop 2 (ev_draws example_env)\<rparr>"

definition example_offered :: Auth where
  "example_offered = example_start\<lparr>au_pairings := \<lparr>pg_open = Some example_open, pg_outcomes = []\<rparr>\<rparr>"

definition example_waits :: "IpAddr RateLimiter \<Rightarrow> Auth" where
  "example_waits l = example_start\<lparr>au_pair_limit := l,
     au_pairings := \<lparr>pg_open = Some (example_open\<lparr>op_phase := Claimed (same 16 4) example_device (six_digits 58054) 120020\<rparr>), pg_outcomes = []\<rparr>\<rparr>"

lemma example_minted: "snd (Auth_mint example_pk example_start 10 [chars ''https://a''] [] example_env) = (example_offered, example_env2)"
  by (simp add: example_defs example_open_def example_offered_def example_env2_def)

lemma example_claimed:
  obtains l c where "Auth_claim example_pk example_offered (V4 1) (same 32 6) (chars ''phone'') (same 65 4) 20 example_env2 =
    (Inr c, example_waits l, example_env\<lparr>ev_draws := []\<rparr>)"
proof -
  obtain l where g: "RateLimiter_allow (au_pair_limit example_start) (V4 1) 20 = (l, True)"
    by (simp add: example_defs RateLimiter_allow_def RateLimiter_new_def Limits_default_def refill_def)
  have o: "op_nearby example_open = None" "op_token_digest example_open = same 32 6" "op_phase example_open = Waiting" "op_token_expires_ms example_open = 60010"
    "refresh example_open [] 20 = (example_open, [])"
    by (simp_all add: example_open_def refresh_def claimable_until_def)
  have d: "sha256 example_lib [b] = b" for b by (simp add: sha256_def example_lib_def)
  have t: "decode_fixed example_lib 32 (same 32 6) = Some (same 32 6)" using example_fixed [of 6 32] by simp
  have c: "Pairings_claim example_lib \<lparr>pg_open = Some example_open, pg_outcomes = []\<rparr> (same 32 6) (chars ''phone'') (same 65 4) 20 example_env2 =
    (Inr \<lparr>cl_id = same 16 4, cl_code = six_digits 58054, cl_expires_ms = 120020\<rparr>,
     \<lparr>pg_open = Some (example_open\<lparr>op_phase := Claimed (same 16 4) example_device (six_digits 58054) 120020\<rparr>), pg_outcomes = []\<rparr>, example_env\<lparr>ev_draws := []\<rparr>)"
    unfolding Pairings_claim_def SECRET_LEN_def Let_def t d example_env2_def by (simp add: o example_claim)
  have k: "pk_lib example_pk = example_lib" by (simp add: example_pk_def)
  show ?thesis using that [of _ l] by (simp add: example_offered_def example_waits_def Auth_claim_def g c k)
qed

lemma write_private_quiet:
  assumes "ev_io env = []"
  obtains env' where "write_private path content env = (Inr (), env')" "ev_io env' = []" "ev_draws env' = ev_draws env"
  using assms by (auto simp: write_private_def write_and_rename_def io_call_def Let_def put_file_def)

lemma example_answered:
  obtains a' env' where "snd (answer_with_hosts example_pk (example_waits l) (same 16 2) True (six_digits 58054) [] 30 (example_env\<lparr>ev_draws := []\<rparr>)) = (a', env')"
    "map (\<lambda>r. (dr_id r, dr_links r)) (dv_records (au_devices a')) = [(same 16 5, [])]" "ev_draws env' = []" "ev_io env' = []"
    "hs_open (au_handoffs a') = []" "pg_open (au_pairings a') = Some example_paired"
proof -
  obtain env1 where w: "write_private [FILE_NAME] [] (example_env\<lparr>ev_draws := []\<rparr>) = (Inr (), env1)" "ev_io env1 = []" "ev_draws env1 = []"
    using write_private_quiet [of "example_env\<lparr>ev_draws := []\<rparr>" "[FILE_NAME]" "[]"] by (auto simp: example_env_def)
  have p: "js_to_vec_pretty (pk_store example_pk) f = Some []" for f by (simp add: example_pk_def)
  have d: "dv_path (au_devices example_start) = [FILE_NAME]" "dv_records (au_devices example_start) = []" "hs_open (au_handoffs example_start) = []"
    "ln_hosts (au_links example_start) = []"
    by (simp_all add: example_start_def Auth_load_def Devices_load_def Handoffs_load_def Links_load_def fs_read_def io_call_def example_env_def Let_def)
  obtain a' env' where s: "snd (answer_with_hosts example_pk (example_waits l) (same 16 2) True (six_digits 58054) [] 30 (example_env\<lparr>ev_draws := []\<rparr>)) = (a', env')" by fastforce
  then show ?thesis using that [OF s] w(2,3)
    by (auto simp: example_waits_def answer_with_hosts_def Auth_pairing_def Pairings_state_def find_open_def refresh_def example_open_def Open_view_def shown_matches_def answer_stored_def
      Pairings_answer_def Let_def add_with_def save_or_undo_def Devices_save_def sync_apps_def settle_def REMEMBERED_OUTCOMES_def
      example_device_def example_paired_def d p w allowed_def)
qed

lemma example_run:
  obtains a env where "fold (auth_step example_pk) example_ops (example_start, example_env) = (a, env)"
    "map (\<lambda>r. (dr_id r, dr_links r)) (dv_records (au_devices a)) = [(same 16 5, [])]" "ev_draws env = []" "ev_io env = []"
    "hs_open (au_handoffs a) = []" "pg_open (au_pairings a) = Some example_paired"
proof -
  obtain l c where c: "Auth_claim example_pk example_offered (V4 1) (same 32 6) (chars ''phone'') (same 65 4) 20 example_env2 =
    (Inr c, example_waits l, example_env\<lparr>ev_draws := []\<rparr>)" by (rule example_claimed)
  obtain a env where a: "snd (answer_with_hosts example_pk (example_waits l) (same 16 2) True (six_digits 58054) [] 30 (example_env\<lparr>ev_draws := []\<rparr>)) = (a, env)"
    "map (\<lambda>r. (dr_id r, dr_links r)) (dv_records (au_devices a)) = [(same 16 5, [])]" "ev_draws env = []" "ev_io env = []"
    "hs_open (au_handoffs a) = []" "pg_open (au_pairings a) = Some example_paired" by (rule example_answered)
  show ?thesis using that a(2-6) by (simp add: example_ops_def example_minted c a(1))
qed

lemma example_revoked:
  assumes "map (\<lambda>r. (dr_id r, dr_links r)) (dv_records (au_devices a)) = [(d, [])]" "ev_io env = []" "hs_open (au_handoffs a) = []"
  obtains a' env' where "Auth_revoke example_pk a d env = (Inr True, a', env')"
proof -
  obtain r where r: "dv_records (au_devices a) = [r]" "dr_id r = d" "dr_links r = []" using assms(1) by auto
  obtain env' where "write_private (dv_path (au_devices a)) [] env = (Inr (), env')" using write_private_quiet [OF assms(2)] .
  then show ?thesis using that assms(3) r
    by (simp add: Auth_revoke_def Devices_get_def Links_forget_def owe_def Handoffs_forget_def Devices_revoke_def save_or_undo_def Devices_save_def
        note_revoked_def Let_def example_pk_def List.map_filter_simps)
qed
end
