(* ===== verification/Auth_Safety.thy ===== *)
theory Auth_Safety
  imports Auth_Example
begin

text \<open>
  What holds of the authentication of phones whatever is asked of it, in any order: who gets access, that tokens and
  nonces work once, and that a revoked device stays out. The locale \<open>single_use\<close> is the contract of everything that
  works once; each kind of secret interprets it.
\<close>

section \<open>What works once\<close>

primrec used_times :: "('o \<Rightarrow> 's \<Rightarrow> 's) \<Rightarrow> ('o \<Rightarrow> 's \<Rightarrow> bool) \<Rightarrow> 'o list \<Rightarrow> 's \<Rightarrow> nat" where
  "used_times step used [] s = 0"
| "used_times step used (op # ops) s = (if used op s then 1 else 0) + used_times step used ops (step op s)"

text \<open>
  A secret \<open>k\<close> is fresh when no draw to come repeats it, and gone when no operation would accept it. Accepting it makes
  it go, and it stays gone.
\<close>

locale single_use =
  fixes step :: "'o \<Rightarrow> 's \<Rightarrow> 's"
    and used :: "'k \<Rightarrow> 'o \<Rightarrow> 's \<Rightarrow> bool"
    and fresh :: "'k \<Rightarrow> 's \<Rightarrow> bool"
    and gone :: "'k \<Rightarrow> 's \<Rightarrow> bool"
  assumes fresh_step: "fresh k s \<Longrightarrow> fresh k (step op s)"
    and used_gone: "fresh k s \<Longrightarrow> used k op s \<Longrightarrow> gone k (step op s)"
    and gone_step: "fresh k s \<Longrightarrow> gone k s \<Longrightarrow> gone k (step op s)"
    and gone_unused: "gone k s \<Longrightarrow> \<not> used k op s"
begin

lemma gone_never: "fresh k s \<Longrightarrow> gone k s \<Longrightarrow> used_times step (used k) ops s = 0"
  by (induction ops arbitrary: s) (simp_all add: gone_unused gone_step fresh_step)

lemma at_most_once: "fresh k s \<Longrightarrow> used_times step (used k) ops s \<le> 1"
  by (induction ops arbitrary: s) (simp_all add: gone_never used_gone fresh_step)

end

text \<open>The token of a pairing, by its digest.\<close>

definition token_used :: "Packages \<Rightarrow> bytes \<Rightarrow> AuthOp \<Rightarrow> Auth \<times> Env \<Rightarrow> bool" where
  "token_used pk digest op s = (case op of
     Op_claim client token name key now \<Rightarrow>
       map_option (\<lambda>b. sha256 (pk_lib pk) [b]) (decode_fixed (pk_lib pk) SECRET_LEN token) = Some digest \<and>
       is_ok (fst (Auth_claim pk (fst s) client token name key now (snd s)))
   | _ \<Rightarrow> False)"

definition token_fresh :: "Packages \<Rightarrow> bytes \<Rightarrow> Auth \<times> Env \<Rightarrow> bool" where
  "token_fresh pk digest s \<longleftrightarrow> avoids SECRET_LEN (\<lambda>b. sha256 (pk_lib pk) [b] = digest) (snd s)"

definition token_gone :: "bytes \<Rightarrow> Auth \<times> Env \<Rightarrow> bool" where
  "token_gone digest s \<longleftrightarrow> (\<forall>opn. pg_open (au_pairings (fst s)) = Some opn \<longrightarrow>
     (op_phase opn = Waiting \<longrightarrow> op_token_digest opn \<noteq> digest) \<and>
     (unclaimed opn \<longrightarrow> (\<forall>t. op_nearby opn = Some t \<longrightarrow> nt_digest t \<noteq> digest)))"

lemma unclaimed_phase: "op_phase opn = Waiting \<Longrightarrow> unclaimed opn" "op_phase opn = Claimed c d code dl \<Longrightarrow> \<not> unclaimed opn"
  by (simp_all add: unclaimed_def)

lemma claim_accepts:
  assumes "is_ok (fst (Auth_claim pk a client token name key now env))"
  shows "\<exists>c device. accepted (pk_lib pk) (au_pairings a) token now c device (au_pairings (fst (snd (Auth_claim pk a client token name key now env))))"
proof -
  obtain l g where lim: "RateLimiter_allow (au_pair_limit a) client now = (l, g)" by fastforce
  obtain r p e where m: "Pairings_claim (pk_lib pk) (au_pairings a) token name key now env = (r, p, e)" by (rule prod_cases3)
  have run: "g" "is_ok r" "au_pairings (fst (snd (Auth_claim pk a client token name key now env))) = p"
    using assms lim m by (auto simp: Auth_claim_def Let_def split: if_splits)
  show ?thesis using claim_facts [OF m] run(2) by (cases r) (auto simp: run(3))
qed

interpretation pairing_token: single_use "auth_step pk" "token_used pk" "token_fresh pk" token_gone for pk
proof (unfold_locales, goal_cases)
  case (1 k s op)
  obtain a env where s: "s = (a, env)" by (cases s)
  obtain a' env' where st: "auth_step pk op (a, env) = (a', env')" by fastforce
  show ?case using 1 step_spends [OF st] avoids_spends by (auto simp: token_fresh_def s st)
next
  case (2 k s op)
  obtain a env where s: "s = (a, env)" by (cases s)
  from 2(2) obtain client token name key now where op: "op = Op_claim client token name key now"
    and ok: "is_ok (fst (Auth_claim pk a client token name key now env))" by (auto simp: token_used_def s split: AuthOp.splits)
  from claim_accepts [OF ok] show ?case
    by (auto simp: token_gone_def accepted_def s op unclaimed_phase)
next
  case (3 k s op)
  obtain a env where s: "s = (a, env)" by (cases s)
  obtain a' env' where st: "auth_step pk op (a, env) = (a', env')" by fastforce
  obtain e where "pairing_effect pk op env (au_pairings a) (au_pairings a') e" using step_pairings [OF st] by blast
  then show ?case
  proof (cases e)
    case Quiet
    then show ?thesis using \<open>pairing_effect pk op env _ _ e\<close> 3(2)
      by (fastforce simp: quietly_def quiet_def token_gone_def s st)
  next
    case Rotated
    then show ?thesis using \<open>pairing_effect pk op env _ _ e\<close> 3 by (fastforce simp: token_gone_def token_fresh_def s st)
  next
    case Sealed
    then show ?thesis using \<open>pairing_effect pk op env _ _ e\<close> 3 by (fastforce simp: token_gone_def token_fresh_def s st)
  next
    case Accepted
    then show ?thesis using \<open>pairing_effect pk op env _ _ e\<close> by (auto simp: token_gone_def accepted_def s st unclaimed_phase)
  qed
next
  case (4 k s op)
  obtain a env where s: "s = (a, env)" by (cases s)
  show ?case
  proof
    assume "token_used pk k op s"
    then obtain client token name key now where op: "op = Op_claim client token name key now"
      "map_option (\<lambda>b. sha256 (pk_lib pk) [b]) (decode_fixed (pk_lib pk) SECRET_LEN token) = Some k"
      and ok: "is_ok (fst (Auth_claim pk a client token name key now env))" by (auto simp: token_used_def s split: AuthOp.splits)
    from claim_accepts [OF ok] op(2) 4 show False by (auto simp: token_gone_def accepted_def s unclaimed_phase)
  qed
qed

text \<open>A challenge, by its id.\<close>

definition challenge_used :: "Packages \<Rightarrow> ChallengeId \<Rightarrow> AuthOp \<Rightarrow> Auth \<times> Env \<Rightarrow> bool" where
  "challenge_used pk ident op s = (case op of
     Op_verify challenge signature now \<Rightarrow> challenge = ident \<and> is_ok (fst (Auth_verify pk (fst s) challenge signature now (snd s)))
   | _ \<Rightarrow> False)"

definition challenge_fresh :: "Packages \<Rightarrow> ChallengeId \<Rightarrow> Auth \<times> Env \<Rightarrow> bool" where
  "challenge_fresh pk ident s \<longleftrightarrow> avoids 16 (\<lambda>b. b64_encode (pk_lib pk) b = ident) (snd s)"

definition challenge_gone :: "ChallengeId \<Rightarrow> Auth \<times> Env \<Rightarrow> bool" where
  "challenge_gone ident s \<longleftrightarrow> map_of (ss_challenges (au_sessions (fst s))) ident = None"

lemma map_of_fewer: "set m' \<subseteq> set m \<Longrightarrow> map_of m k = None \<Longrightarrow> map_of m' k = None"
  by (auto simp: map_of_eq_None_iff)

lemma start_challenges: "Sessions_start lib s device now env = (r, s', env') \<Longrightarrow> ss_challenges s' = ss_challenges s"
  by (auto simp: Sessions_start_def Let_def split: prod.splits sum.splits)

lemma verify_challenges:
  "Sessions_verify lib s challenge sig now devices env = (r, s', env') \<Longrightarrow> ss_challenges s' = AList.delete challenge (ss_challenges s)"
  by (auto simp: Sessions_verify_def Let_def split: option.splits if_splits sum.splits dest: start_challenges)

lemma verify_known:
  "Sessions_verify lib s challenge sig now devices env = (Inr session, s', env') \<Longrightarrow> map_of (ss_challenges s) challenge \<noteq> None"
  by (auto simp: Sessions_verify_def Let_def split: option.splits)

lemma challenge_challenges:
  assumes "Sessions_challenge lib s device now devices env = (r, s', env')" "avoids 16 (\<lambda>b. b64_encode lib b = ident) env"
    "map_of (ss_challenges s) ident = None"
  shows "map_of (ss_challenges s') ident = None"
proof -
  let ?kept = "drop_oldest pc_device pc_issued_ms MAX_CHALLENGES_PER_DEVICE device (retain (\<lambda>_ p. now < pc_expires_ms p) (ss_challenges s))"
  have "set ?kept \<subseteq> set (ss_challenges s)" by (auto simp: retain_in dest!: drop_oldest_in)
  then have kept: "map_of ?kept ident = None" using assms(3) by (rule map_of_fewer)
  show ?thesis
  proof (cases "Devices_get devices device")
    case None
    then show ?thesis using assms(1,3) by (auto simp: Sessions_challenge_def)
  next
    case (Some r)
    obtain x e1 where rb: "random_bytes SECRET_LEN env = (x, e1)" by fastforce
    obtain y e2 where ri: "random_id lib e1 = (y, e2)" by fastforce
    have "i \<noteq> ident" if "y = Inr i" for i
      using random_id_avoids [OF avoids_spends [OF assms(2) spends_random_bytes [OF rb]]] ri that by blast
    then show ?thesis using assms(1) Some rb ri kept
      by (auto simp: Sessions_challenge_def Let_def AList.update_conv' split: sum.splits)
  qed
qed

lemma ended_challenges: "map_of (ss_challenges s) ident = None \<Longrightarrow> map_of (ss_challenges (end_device s d)) ident = None"
  by (rule map_of_fewer [of _ "ss_challenges s"]) (auto simp: end_device_def retain_in)

lemma ended_all_challenges:
  "map_of (ss_challenges s) ident = None \<Longrightarrow> map_of (ss_challenges (fold (\<lambda>d s. end_device s d) ds s)) ident = None"
  by (induction ds arbitrary: s) (simp_all add: ended_challenges)

lemma revoke_challenges:
  "Auth_revoke pk a d env = (r, a', env') \<Longrightarrow> au_sessions a' = au_sessions a \<or> au_sessions a' = end_device (au_sessions a) d"
  by (auto simp: Auth_revoke_def Let_def note_revoked_def sync_apps_def split: option.splits prod.splits sum.splits)

lemma step_challenges:
  assumes "auth_step pk op (a, env) = (a', env')" "challenge_fresh pk ident (a, env)" "challenge_gone ident (a, env)"
  shows "challenge_gone ident (a', env')"
proof (cases op)
  case (Op_answer i al sh h now)
  then show ?thesis using assms answer_facts(3) [of pk a i al sh h now env]
    by (cases "answer_with_hosts pk a i al sh h now env") (auto simp: challenge_gone_def)
next
  case (Op_nearby_reveal s n fp os now)
  then show ?thesis using assms nearby_reveal_facts [of pk a s n fp os now env]
    by (cases "nearby_reveal pk a s n fp os now env") (auto simp: challenge_gone_def)
next
  case (Op_revoke_device d)
  then show ?thesis using assms revoke_challenges [of pk a d env]
    by (cases "Auth_revoke pk a d env") (auto simp: challenge_gone_def ended_challenges)
next
  case (Op_enroll e now)
  have "au_sessions a' = au_sessions a \<or> (\<exists>d. au_sessions a' = end_device (au_sessions a) d)"
    using assms Op_enroll
    by (auto simp: Auth_enroll_def Let_def split: sum.splits prod.splits option.splits if_splits dest!: revoke_challenges)
  then show ?thesis using assms(3) by (auto simp: challenge_gone_def ended_challenges)
next
  case (Op_expire now ms)
  then show ?thesis using assms
    by (auto simp: Auth_expire_idle_def Let_def challenge_gone_def note_revoked_def sync_apps_def ended_all_challenges split: sum.splits prod.splits if_splits)
next
  case (Op_redeem c tk key now)
  then show ?thesis using assms redeem_facts(3) [of pk a c tk key now env]
    by (cases "Auth_redeem pk a c tk key now env") (auto simp: challenge_gone_def ended_challenges)
next
  case (Op_challenge c d now)
  obtain x s e where ch: "Sessions_challenge (pk_lib pk) (au_sessions a) d now (au_devices a) env = (x, s, e)" by (rule prod_cases3)
  show ?thesis using assms Op_challenge ch challenge_challenges [OF ch]
    by (auto simp: Auth_challenge_def Let_def challenge_gone_def challenge_fresh_def split: if_splits prod.splits)
next
  case (Op_verify c sig now)
  obtain x s e where v: "Sessions_verify (pk_lib pk) (au_sessions a) c sig now (au_devices a) env = (x, s, e)" by (rule prod_cases3)
  have "au_sessions a' = s" using assms Op_verify v by (auto simp: Auth_verify_def split: sum.splits prod.splits)
  then show ?thesis using verify_challenges [OF v] assms(3) by (simp add: challenge_gone_def AList.delete_conv')
next
  case (Op_authenticate b now)
  then show ?thesis using assms
    by (auto simp: Auth_authenticate_def Sessions_authenticate_def Let_def challenge_gone_def split: option.splits if_splits prod.splits)
qed (use assms in \<open>auto simp: auth_op_defs challenge_gone_def split: prod.splits sum.splits if_splits option.splits\<close>)

interpretation session_challenge: single_use "auth_step pk" "challenge_used pk" "challenge_fresh pk" challenge_gone for pk
proof (unfold_locales, goal_cases)
  case (1 k s op)
  obtain a env where s: "s = (a, env)" by (cases s)
  obtain a' env' where st: "auth_step pk op (a, env) = (a', env')" by fastforce
  show ?case using 1 step_spends [OF st] avoids_spends by (auto simp: challenge_fresh_def s st)
next
  case (2 k s op)
  obtain a env where s: "s = (a, env)" by (cases s)
  from 2(2) obtain sig now where op: "op = Op_verify k sig now" by (auto simp: challenge_used_def s split: AuthOp.splits)
  obtain x ss e where v: "Sessions_verify (pk_lib pk) (au_sessions a) k sig now (au_devices a) env = (x, ss, e)" by (rule prod_cases3)
  have "au_sessions (fst (auth_step pk op s)) = ss" using op s v by (auto simp: Auth_verify_def split: sum.splits prod.splits)
  then show ?case using verify_challenges [OF v] by (simp add: challenge_gone_def AList.delete_conv')
next
  case (3 k s op)
  then show ?case using step_challenges [of pk op "fst s" "snd s"] by (cases s) (metis prod.collapse fst_conv snd_conv)
next
  case (4 k s op)
  obtain a env where s: "s = (a, env)" by (cases s)
  show ?case using 4 verify_known [of "pk_lib pk" "au_sessions a" k _ _ "au_devices a" env]
    by (auto simp: challenge_used_def challenge_gone_def s Auth_verify_def split: AuthOp.splits sum.splits prod.splits)
qed

text \<open>A presence nonce.\<close>

definition nonce_count :: "bytes \<Rightarrow> Auth \<Rightarrow> nat" where
  "nonce_count n a = count_list (map pp_nonce (pr_pending (au_presence a))) n"

definition nonce_used :: "Packages \<Rightarrow> bytes \<Rightarrow> AuthOp \<Rightarrow> Auth \<times> Env \<Rightarrow> bool" where
  "nonce_used pk n op s = (case op of
     Op_presence_prove nonce signature fp now \<Rightarrow> decode_fixed (pk_lib pk) SECRET_LEN nonce = Some n \<and>
       is_ok (fst (presence_prove pk (fst s) nonce signature fp now))
   | _ \<Rightarrow> False)"

definition nonce_fresh :: "bytes \<Rightarrow> Auth \<times> Env \<Rightarrow> bool" where
  "nonce_fresh n s \<longleftrightarrow> avoids SECRET_LEN (\<lambda>b. b = n) (snd s) \<and> nonce_count n (fst s) \<le> 1"

definition nonce_gone :: "bytes \<Rightarrow> Auth \<times> Env \<Rightarrow> bool" where
  "nonce_gone n s \<longleftrightarrow> nonce_count n (fst s) = 0"

lemma count_remove_at: "count_list (map f (remove_at i xs)) n \<le> count_list (map f xs) n"
  "i < length xs \<Longrightarrow> f (xs ! i) = n \<Longrightarrow> Suc (count_list (map f (remove_at i xs)) n) = count_list (map f xs) n"
proof -
  have split: "xs = take i xs @ xs ! i # drop (Suc i) xs" if "i < length xs" using id_take_nth_drop [OF that] .
  show "count_list (map f (remove_at i xs)) n \<le> count_list (map f xs) n"
  proof (cases "i < length xs")
    case True
    then show ?thesis unfolding remove_at_def by (subst (3) split) simp_all
  qed (simp add: remove_at_def)
  show "i < length xs \<Longrightarrow> f (xs ! i) = n \<Longrightarrow> Suc (count_list (map f (remove_at i xs)) n) = count_list (map f xs) n"
    unfolding remove_at_def by (subst (3) split) simp_all
qed

lemma count_filter_le: "count_list (map f (filter p xs)) n \<le> count_list (map f xs) n"
  by (induction xs) auto

lemma count_tl_le: "count_list (map f (tl xs)) n \<le> count_list (map f xs) n"
  by (cases xs) auto

lemma presence_challenge_nonces:
  assumes "Presences_challenge lib s text now devices env = (r, s', env')" "avoids SECRET_LEN (\<lambda>b. b = n) env"
  shows "count_list (map pp_nonce (pr_pending s')) n \<le> count_list (map pp_nonce (pr_pending s)) n"
proof (cases "\<exists>given device. decode_fixed lib HINT_LEN text = Some given \<and> hinted_device lib given (now div DAY_MS) devices = Some device")
  case False
  then have "s' = s" using assms(1) by (auto simp: Presences_challenge_def split: option.splits)
  then show ?thesis by simp
next
  case True
  then obtain given device where ok: "decode_fixed lib HINT_LEN text = Some given" "hinted_device lib given (now div DAY_MS) devices = Some device" by blast
  define live where "live = filter (\<lambda>p. now < pp_expires_ms p) (pr_pending s)"
  define capped where "capped = (if MAX_PENDING_PER_DEVICE \<le> length (filter (\<lambda>p. pp_device p = device) live)
      then (case iter_position (\<lambda>p. pp_device p = device) live of None \<Rightarrow> live | Some oldest \<Rightarrow> remove_at oldest live) else live)"
  define kept where "kept = (if MAX_PENDING \<le> length capped then tl capped else capped)"
  have "count_list (map pp_nonce kept) n \<le> count_list (map pp_nonce capped) n" by (simp add: kept_def count_tl_le)
  also have "\<dots> \<le> count_list (map pp_nonce live) n" by (auto simp: capped_def count_remove_at split: option.split)
  also have "\<dots> \<le> count_list (map pp_nonce (pr_pending s)) n" by (simp add: live_def count_filter_le)
  finally have le: "count_list (map pp_nonce kept) n \<le> count_list (map pp_nonce (pr_pending s)) n" .
  obtain x e1 where rb: "random_bytes SECRET_LEN env = (x, e1)" by fastforce
  have run: "pr_pending s' = kept @ (case x of Inl e \<Rightarrow> [] | Inr nonce \<Rightarrow> [\<lparr>pp_device = device, pp_nonce = nonce, pp_expires_ms = u64_saturating_add now NONCE_TTL_MS\<rparr>])"
    using assms(1) ok rb unfolding Presences_challenge_def Let_def live_def [symmetric] capped_def [symmetric] kept_def [symmetric]
    by (auto simp: live_def [symmetric] capped_def [symmetric] kept_def split: sum.splits)
  have "nonce \<noteq> n" if "x = Inr nonce" for nonce using random_bytes_avoids [OF assms(2)] rb that by blast
  then show ?thesis using run le by (cases x) auto
qed

lemma prove_nonces:
  assumes "Presences_prove lib s nonce sig fp now devices = (r, s')"
  shows "count_list (map pp_nonce (pr_pending s')) n \<le> count_list (map pp_nonce (pr_pending s)) n"
    "is_ok r \<Longrightarrow> decode_fixed lib SECRET_LEN nonce = Some n \<Longrightarrow> Suc (count_list (map pp_nonce (pr_pending s')) n) = count_list (map pp_nonce (pr_pending s)) n"
proof -
  have "count_list (map pp_nonce (pr_pending s')) n \<le> count_list (map pp_nonce (pr_pending s)) n \<and>
    (is_ok r \<longrightarrow> decode_fixed lib SECRET_LEN nonce = Some n \<longrightarrow> Suc (count_list (map pp_nonce (pr_pending s')) n) = count_list (map pp_nonce (pr_pending s)) n)"
  proof (cases "\<exists>given index. decode_fixed lib SECRET_LEN nonce = Some given \<and> iter_position (\<lambda>p. given = pp_nonce p) (pr_pending s) = Some index")
    case False
    then have "s' = s \<and> \<not> is_ok r" using assms by (auto simp: Presences_prove_def split: option.splits)
    then show ?thesis by simp
  next
    case True
    then obtain given index where ok: "decode_fixed lib SECRET_LEN nonce = Some given" "iter_position (\<lambda>p. given = pp_nonce p) (pr_pending s) = Some index" by blast
    have "pr_pending s' = remove_at index (pr_pending s)"
      using assms ok unfolding Presences_prove_def by (auto simp: Let_def split: option.splits if_splits sum.splits)
    then show ?thesis using iter_position_Some [OF ok(2)] ok(1) by (simp add: count_remove_at)
  qed
  then show "count_list (map pp_nonce (pr_pending s')) n \<le> count_list (map pp_nonce (pr_pending s)) n"
    "is_ok r \<Longrightarrow> decode_fixed lib SECRET_LEN nonce = Some n \<Longrightarrow> Suc (count_list (map pp_nonce (pr_pending s')) n) = count_list (map pp_nonce (pr_pending s)) n"
    by blast+
qed

lemma presence_frame:
  "Auth_revoke pk a d env = (r, a', env') \<Longrightarrow> au_presence a' = au_presence a"
  "Auth_enroll pk a e now env = (r2, a', env') \<Longrightarrow> au_presence a' = au_presence a"
  "nearby_reveal pk a s n fp os now env = (r3, a', env') \<Longrightarrow> au_presence a' = au_presence a"
  "answer_with_hosts pk a i al sh h now env = (r4, a', env') \<Longrightarrow> au_presence a' = au_presence a"
  "Auth_redeem pk a c tk key now env = (r5, a', env') \<Longrightarrow> au_presence a' = au_presence a"
proof -
  show r: "Auth_revoke pk a d env = (r, a', env') \<Longrightarrow> au_presence a' = au_presence a" for a d env r a' env'
    by (auto simp: Auth_revoke_def Let_def note_revoked_def sync_apps_def split: option.splits prod.splits sum.splits)
  show "Auth_enroll pk a e now env = (r2, a', env') \<Longrightarrow> au_presence a' = au_presence a"
    by (auto simp: Auth_enroll_def Let_def split: sum.splits prod.splits option.splits if_splits dest!: r)
  show "nearby_reveal pk a s n fp os now env = (r3, a', env') \<Longrightarrow> au_presence a' = au_presence a"
    by (auto simp: nearby_reveal_def pairing_open_def Let_def split: sum.splits prod.splits if_splits)
  have "answer_stored pk a i al h now env = (r4, a', env') \<Longrightarrow> au_presence a' = au_presence a" for a i al h now env r4 a' env'
    by (auto simp: answer_stored_def Auth_pairing_def sync_apps_def Let_def split: sum.splits prod.splits)
  then show "answer_with_hosts pk a i al sh h now env = (r4, a', env') \<Longrightarrow> au_presence a' = au_presence a"
    by (fastforce simp: answer_with_hosts_def Auth_pairing_def Let_def split: sum.splits prod.splits if_splits)
  show "Auth_redeem pk a c tk key now env = (r5, a', env') \<Longrightarrow> au_presence a' = au_presence a"
    by (auto simp: Auth_redeem_def Let_def note_revoked_def split: sum.splits prod.splits option.splits if_splits)
qed

lemma step_nonces:
  assumes "auth_step pk op (a, env) = (a', env')" "avoids SECRET_LEN (\<lambda>b. b = n) env"
  shows "nonce_count n a' \<le> nonce_count n a"
proof (cases op)
  case (Op_presence_challenge tx now)
  obtain x s e where ch: "Presences_challenge (pk_lib pk) (au_presence a) tx now (au_devices a) env = (x, s, e)" by (rule prod_cases3)
  have "au_presence a' = s" using assms Op_presence_challenge ch by (auto simp: presence_challenge_def)
  then show ?thesis using presence_challenge_nonces [OF ch assms(2)] by (simp add: nonce_count_def)
next
  case (Op_presence_prove nonce sig fp now)
  obtain x s where ch: "Presences_prove (pk_lib pk) (au_presence a) nonce sig fp now (au_devices a) = (x, s)" by fastforce
  have "au_presence a' = s" using assms Op_presence_prove ch by (auto simp: presence_prove_def)
  then show ?thesis using prove_nonces(1) [OF ch] by (simp add: nonce_count_def)
next
  case (Op_answer i al sh h now)
  then show ?thesis using assms presence_frame(4) [of pk a i al sh h now env]
    by (cases "answer_with_hosts pk a i al sh h now env") (auto simp: nonce_count_def)
next
  case (Op_nearby_reveal s n fp os now)
  then show ?thesis using assms presence_frame(3) [of pk a s n fp os now env]
    by (cases "nearby_reveal pk a s n fp os now env") (auto simp: nonce_count_def)
next
  case (Op_revoke_device d)
  then show ?thesis using assms presence_frame(1) [of pk a d env] by (cases "Auth_revoke pk a d env") (auto simp: nonce_count_def)
next
  case (Op_enroll e now)
  then show ?thesis using assms presence_frame(2) [of pk a e now env] by (cases "Auth_enroll pk a e now env") (auto simp: nonce_count_def)
next
  case (Op_redeem c tk key now)
  then show ?thesis using assms presence_frame(5) [of pk a c tk key now env] by (cases "Auth_redeem pk a c tk key now env") (auto simp: nonce_count_def)
qed (use assms in \<open>auto simp: auth_op_defs Auth_expire_idle_def note_revoked_def sync_apps_def nonce_count_def
    split: prod.splits sum.splits if_splits option.splits\<close>)

lemma nonce_proved:
  assumes "nonce_used pk n op (a, env)"
  shows "Suc (nonce_count n (fst (auth_step pk op (a, env)))) = nonce_count n a"
proof -
  from assms obtain nonce sig fp now where op: "op = Op_presence_prove nonce sig fp now" "decode_fixed (pk_lib pk) SECRET_LEN nonce = Some n"
    "is_ok (fst (presence_prove pk a nonce sig fp now))" by (auto simp: nonce_used_def split: AuthOp.splits)
  obtain x s where ch: "Presences_prove (pk_lib pk) (au_presence a) nonce sig fp now (au_devices a) = (x, s)" by fastforce
  show ?thesis using prove_nonces(2) [OF ch] op ch by (auto simp: presence_prove_def nonce_count_def)
qed

interpretation presence_nonce: single_use "auth_step pk" "nonce_used pk" nonce_fresh nonce_gone for pk
proof (unfold_locales, goal_cases)
  case (1 k s op)
  obtain a env where s: "s = (a, env)" by (cases s)
  obtain a' env' where st: "auth_step pk op (a, env) = (a', env')" by fastforce
  show ?case using 1 step_spends [OF st] step_nonces [OF st, of k] avoids_spends by (auto simp: nonce_fresh_def s st)
next
  case (2 k s op)
  then show ?case using nonce_proved [of pk k op "fst s" "snd s"] by (cases s) (auto simp: nonce_fresh_def nonce_gone_def)
next
  case (3 k s op)
  obtain a env where s: "s = (a, env)" by (cases s)
  obtain a' env' where st: "auth_step pk op (a, env) = (a', env')" by fastforce
  show ?case using 3 step_nonces [OF st, of k] by (auto simp: nonce_fresh_def nonce_gone_def s st)
next
  case (4 k s op)
  then show ?case using nonce_proved [of pk k op "fst s" "snd s"] by (cases s) (auto simp: nonce_gone_def)
qed

text \<open>A handoff token, by the digest of its text.\<close>

definition digest_count :: "bytes \<Rightarrow> (DeviceId \<times> (bytes \<times> nat)) list \<Rightarrow> nat" where
  "digest_count digest entries = length (filter (\<lambda>(device, stored, expires). stored = digest) entries)"

definition handoff_used :: "Packages \<Rightarrow> bytes \<Rightarrow> AuthOp \<Rightarrow> Auth \<times> Env \<Rightarrow> bool" where
  "handoff_used pk digest op s = (case op of
     Op_redeem client token key now \<Rightarrow> sha256 (pk_lib pk) [str_bytes token] = digest \<and>
       is_ok (fst (Auth_redeem pk (fst s) client token key now (snd s)))
   | _ \<Rightarrow> False)"

definition handoff_fresh :: "Packages \<Rightarrow> bytes \<Rightarrow> Auth \<times> Env \<Rightarrow> bool" where
  "handoff_fresh pk digest s \<longleftrightarrow> avoids SECRET_LEN (\<lambda>b. sha256 (pk_lib pk) [str_bytes (b64_encode (pk_lib pk) b)] = digest) (snd s) \<and>
     distinct (map fst (hs_open (au_handoffs (fst s)))) \<and> digest_count digest (hs_open (au_handoffs (fst s))) \<le> 1"

definition handoff_gone :: "bytes \<Rightarrow> Auth \<times> Env \<Rightarrow> bool" where
  "handoff_gone digest s \<longleftrightarrow> digest_count digest (hs_open (au_handoffs (fst s))) = 0"

lemma digest_update:
  "digest_count digest (AList.update device (stored, expires) m) \<le> digest_count digest m + (if stored = digest then 1 else 0)"
  by (induction m) (auto simp: digest_count_def)

lemma digest_fewer: "digest_count digest (filter p m) \<le> digest_count digest m"
  unfolding digest_count_def by (induction m) auto

lemma digest_delete:
  assumes "distinct (map fst m)" "(device, stored, expires) \<in> set m"
  shows "digest_count digest (AList.delete device m) + (if stored = digest then 1 else 0) = digest_count digest m"
  using assms
proof (induction m)
  case (Cons e m)
  obtain k v w where e: "e = (k, v, w)" by (cases e) auto
  show ?case
  proof (cases "k = device")
    case True
    then have "device \<notin> fst ` set m" using Cons.prems by (auto simp: e)
    then have "filter (\<lambda>(k', v). device \<noteq> k') m = m" "(device, stored, expires) \<notin> set m" by (force simp: filter_id_conv)+
    then show ?thesis using Cons.prems True by (simp add: e digest_count_def AList.delete_eq)
  next
    case False
    then show ?thesis using Cons by (auto simp: e digest_count_def AList.delete_eq)
  qed
qed simp

lemma delete_distinct: "distinct (map fst m) \<Longrightarrow> distinct (map fst (AList.delete k m))"
  by (simp add: AList.distinct_delete)

lemma mint_handoffs:
  assumes "Handoffs_mint lib json h device now env = (r, h', env')"
    "avoids SECRET_LEN (\<lambda>b. sha256 lib [str_bytes (b64_encode lib b)] = digest) env" "distinct (map fst (hs_open h))"
  shows "distinct (map fst (hs_open h'))" "digest_count digest (hs_open h') \<le> digest_count digest (hs_open h)"
proof -
  let ?live = "retain (\<lambda>_ (_, expires). now < expires) (hs_open h)"
  have live: "distinct (map fst ?live)" "digest_count digest ?live \<le> digest_count digest (hs_open h)"
    using assms(3) by (simp_all add: retain_def digest_fewer distinct_map_filter)
  obtain x e1 where rb: "random_bytes SECRET_LEN env = (x, e1)" by fastforce
  have "hs_open h' = (case x of Inl e \<Rightarrow> ?live
      | Inr secret \<Rightarrow> AList.update device (sha256 lib [str_bytes (b64_encode lib secret)], u64_add now HANDOFF_TTL_MS) ?live)"
    using assms(1) rb by (auto simp: Handoffs_mint_def Let_def split: sum.splits prod.splits)
  moreover have "sha256 lib [str_bytes (b64_encode lib secret)] \<noteq> digest" if "x = Inr secret" for secret
    using random_bytes_avoids [OF assms(2)] rb that by blast
  ultimately show "distinct (map fst (hs_open h'))" "digest_count digest (hs_open h') \<le> digest_count digest (hs_open h)"
    using live digest_update [of digest device "sha256 lib [str_bytes (b64_encode lib (projr x))]" "u64_add now HANDOFF_TTL_MS" ?live]
    by (cases x; simp add: AList.distinct_update)+
qed

lemma redeem_handoffs:
  assumes "Handoffs_redeem lib json h token now env = (r, h', env')" "distinct (map fst (hs_open h))"
  shows "distinct (map fst (hs_open h'))" "digest_count digest (hs_open h') \<le> digest_count digest (hs_open h)"
    "r = Inr (Some device) \<Longrightarrow> Suc (digest_count (sha256 lib [str_bytes token]) (hs_open h')) = digest_count (sha256 lib [str_bytes token]) (hs_open h)"
proof -
  have "distinct (map fst (hs_open h')) \<and> digest_count digest (hs_open h') \<le> digest_count digest (hs_open h) \<and>
    (r = Inr (Some device) \<longrightarrow> Suc (digest_count (sha256 lib [str_bytes token]) (hs_open h')) = digest_count (sha256 lib [str_bytes token]) (hs_open h))"
  proof (cases "List.find (\<lambda>(_, (stored, expires)). now < expires \<and> constant_time_eq stored (sha256 lib [str_bytes token])) (hs_open h)")
    case None
    then show ?thesis using assms by (auto simp: Handoffs_redeem_def Let_def)
  next
    case (Some e)
    obtain d stored expires where e: "e = (d, stored, expires)" by (cases e) auto
    have inn: "(d, stored, expires) \<in> set (hs_open h)" "stored = sha256 lib [str_bytes token]"
      using Some by (auto simp: e find_Some_iff in_set_conv_nth)
    let ?less = "AList.delete d (hs_open h)"
    obtain x env1 where sv: "Handoffs_save lib json (h\<lparr>hs_open := ?less\<rparr>) env = (x, env1)" by fastforce
    have res: "hs_open h' = (case x of Inl e \<Rightarrow> AList.update d (stored, expires) ?less | Inr u \<Rightarrow> ?less)"
      "r = (case x of Inl e \<Rightarrow> Inl e | Inr u \<Rightarrow> Inr (Some d))"
      using assms(1) Some e sv by (auto simp: Handoffs_redeem_def Let_def split: sum.splits)
    have "digest_count digest (AList.update d (stored, expires) ?less) \<le> digest_count digest (hs_open h)"
      using digest_update [of digest d stored expires ?less] digest_delete [OF assms(2) inn(1), of digest] by linarith
    then show ?thesis using res digest_delete [OF assms(2) inn(1), of digest] digest_delete [OF assms(2) inn(1), of "sha256 lib [str_bytes token]"]
        inn(2) assms(2) by (cases x) (auto simp: AList.distinct_update delete_distinct)
  qed
  then show "distinct (map fst (hs_open h'))" "digest_count digest (hs_open h') \<le> digest_count digest (hs_open h)"
    "r = Inr (Some device) \<Longrightarrow> Suc (digest_count (sha256 lib [str_bytes token]) (hs_open h')) = digest_count (sha256 lib [str_bytes token]) (hs_open h)"
    by blast+
qed

lemma forget_handoffs:
  assumes "Handoffs_forget lib json h device env = (r, h', env')" "distinct (map fst (hs_open h))"
  shows "distinct (map fst (hs_open h'))" "digest_count digest (hs_open h') \<le> digest_count digest (hs_open h)"
proof -
  have "hs_open h' = hs_open h \<or> hs_open h' = AList.delete device (hs_open h)"
    using assms(1) by (auto simp: Handoffs_forget_def Let_def split: if_splits prod.splits)
  then show "distinct (map fst (hs_open h'))" "digest_count digest (hs_open h') \<le> digest_count digest (hs_open h)"
    using assms(2) digest_fewer [of digest _ "hs_open h"] by (auto simp: delete_distinct) (simp add: AList.delete_eq)
qed

lemma handoff_frame:
  "Auth_revoke pk a d env = (r, a', env') \<Longrightarrow> au_handoffs a' = au_handoffs a \<or>
     (\<exists>e x e'. Handoffs_forget (pk_lib pk) (pk_handoff pk) (au_handoffs a) d e = (x, au_handoffs a', e'))"
  "Auth_enroll pk a en now env = (r2, a', env') \<Longrightarrow> au_handoffs a' = au_handoffs a \<or>
     (\<exists>d e x e'. Handoffs_forget (pk_lib pk) (pk_handoff pk) (au_handoffs a) d e = (x, au_handoffs a', e'))"
  "nearby_reveal pk a s n fp os now env = (r3, a', env') \<Longrightarrow> au_handoffs a' = au_handoffs a"
  "answer_with_hosts pk a i al sh h now env = (r4, a', env') \<Longrightarrow> au_handoffs a' = au_handoffs a"
proof -
  show r: "Auth_revoke pk a d env = (r, a', env') \<Longrightarrow> au_handoffs a' = au_handoffs a \<or>
     (\<exists>e x e'. Handoffs_forget (pk_lib pk) (pk_handoff pk) (au_handoffs a) d e = (x, au_handoffs a', e'))" for a d env r a' env'
    by (auto simp: Auth_revoke_def Let_def note_revoked_def sync_apps_def split: option.splits prod.splits sum.splits)
  show "Auth_enroll pk a en now env = (r2, a', env') \<Longrightarrow> au_handoffs a' = au_handoffs a \<or>
     (\<exists>d e x e'. Handoffs_forget (pk_lib pk) (pk_handoff pk) (au_handoffs a) d e = (x, au_handoffs a', e'))"
    by (auto simp: Auth_enroll_def Let_def split: sum.splits prod.splits option.splits if_splits dest!: r)
  show "nearby_reveal pk a s n fp os now env = (r3, a', env') \<Longrightarrow> au_handoffs a' = au_handoffs a"
    by (auto simp: nearby_reveal_def pairing_open_def Let_def split: sum.splits prod.splits if_splits)
  have "answer_stored pk a i al h now env = (r4, a', env') \<Longrightarrow> au_handoffs a' = au_handoffs a" for a i al h now env r4 a' env'
    by (auto simp: answer_stored_def Auth_pairing_def sync_apps_def Let_def split: sum.splits prod.splits)
  then show "answer_with_hosts pk a i al sh h now env = (r4, a', env') \<Longrightarrow> au_handoffs a' = au_handoffs a"
    by (fastforce simp: answer_with_hosts_def Auth_pairing_def Let_def split: sum.splits prod.splits if_splits)
qed

lemma redeem_run:
  assumes "Auth_redeem pk a client token key now env = (r, a', env')"
  shows "au_handoffs a' = au_handoffs a \<and> \<not> is_ok r \<or> (\<exists>e x e'. Handoffs_redeem (pk_lib pk) (pk_handoff pk) (au_handoffs a) token now e = (x, au_handoffs a', e') \<and>
    (is_ok r \<longrightarrow> (\<exists>d. x = Inr (Some d))))"
  using assms by (auto simp: Auth_redeem_def Let_def note_revoked_def split: sum.splits prod.splits option.splits if_splits; blast)

text \<open>Entries of the handoff table: keys stay distinct and a digest that is not drawn again is not added.\<close>

definition entries_kept :: "bytes \<Rightarrow> Auth \<Rightarrow> Auth \<Rightarrow> bool" where
  "entries_kept digest a a' \<longleftrightarrow> distinct (map fst (hs_open (au_handoffs a'))) \<and>
     digest_count digest (hs_open (au_handoffs a')) \<le> digest_count digest (hs_open (au_handoffs a))"

lemma step_handoffs:
  assumes "auth_step pk op (a, env) = (a', env')" "handoff_fresh pk digest (a, env)"
  shows "entries_kept digest a a'"
proof -
  have dis: "distinct (map fst (hs_open (au_handoffs a)))"
    and av: "avoids SECRET_LEN (\<lambda>b. sha256 (pk_lib pk) [str_bytes (b64_encode (pk_lib pk) b)] = digest) env"
    using assms(2) by (simp_all add: handoff_fresh_def)
  have same: ?thesis if "au_handoffs a' = au_handoffs a" using that dis by (simp add: entries_kept_def)
  have forgot: ?thesis if "Handoffs_forget (pk_lib pk) (pk_handoff pk) (au_handoffs a) d e = (x, au_handoffs a', e')" for d e x e'
    using forget_handoffs [OF that dis] by (simp add: entries_kept_def)
  show ?thesis
  proof (cases op)
    case (Op_handoff d now)
    show ?thesis
    proof (cases "Devices_get (au_devices a) d")
      case None
      then show ?thesis using assms Op_handoff same by (auto simp: Auth_handoff_def)
    next
      case (Some rec)
      obtain x h e where m: "Handoffs_mint (pk_lib pk) (pk_handoff pk) (au_handoffs a) d now env = (x, h, e)" by (rule prod_cases3)
      have "au_handoffs a' = h" using assms Op_handoff Some m by (auto simp: Auth_handoff_def)
      then show ?thesis using mint_handoffs [OF m av dis] by (simp add: entries_kept_def)
    qed
  next
    case (Op_redeem c tk key now)
    then obtain r where "Auth_redeem pk a c tk key now env = (r, a', env')" using assms by (cases "Auth_redeem pk a c tk key now env") auto
    from redeem_run [OF this] show ?thesis using same redeem_handoffs(1,2) [OF _ dis] by (auto simp: entries_kept_def)
  next
    case (Op_revoke_device d)
    then obtain r where "Auth_revoke pk a d env = (r, a', env')" using assms by (cases "Auth_revoke pk a d env") auto
    from handoff_frame(1) [OF this] show ?thesis using same forgot by auto
  next
    case (Op_enroll e now)
    then obtain r where "Auth_enroll pk a e now env = (r, a', env')" using assms by (cases "Auth_enroll pk a e now env") auto
    from handoff_frame(2) [OF this] show ?thesis using same forgot by auto
  next
    case (Op_answer i al sh h now)
    then show ?thesis using assms handoff_frame(4) [of pk a i al sh h now env] same by (cases "answer_with_hosts pk a i al sh h now env") auto
  next
    case (Op_nearby_reveal s n fp os now)
    then show ?thesis using assms handoff_frame(3) [of pk a s n fp os now env] same by (cases "nearby_reveal pk a s n fp os now env") auto
  qed (use assms same in \<open>auto simp: auth_op_defs Auth_expire_idle_def note_revoked_def sync_apps_def
      split: prod.splits sum.splits if_splits option.splits\<close>)
qed

lemma handoff_redeemed:
  assumes "handoff_used pk digest op (a, env)" "distinct (map fst (hs_open (au_handoffs a)))"
  shows "Suc (digest_count digest (hs_open (au_handoffs (fst (auth_step pk op (a, env)))))) = digest_count digest (hs_open (au_handoffs a))"
proof -
  from assms(1) obtain c tk key now where op: "op = Op_redeem c tk key now" "sha256 (pk_lib pk) [str_bytes tk] = digest"
    "is_ok (fst (Auth_redeem pk a c tk key now env))" by (auto simp: handoff_used_def split: AuthOp.splits)
  obtain r a' env' where run: "Auth_redeem pk a c tk key now env = (r, a', env')" by (rule prod_cases3)
  then obtain e e' d where "Handoffs_redeem (pk_lib pk) (pk_handoff pk) (au_handoffs a) tk now e = (Inr (Some d), au_handoffs a', e')"
    using redeem_run [OF run] op(3) by auto
  from redeem_handoffs(3) [OF this assms(2) refl] show ?thesis using op run by simp
qed

interpretation handoff_token: single_use "auth_step pk" "handoff_used pk" "handoff_fresh pk" handoff_gone for pk
proof (unfold_locales, goal_cases)
  case (1 k s op)
  obtain a env where s: "s = (a, env)" by (cases s)
  obtain a' env' where st: "auth_step pk op (a, env) = (a', env')" by fastforce
  show ?case using 1 step_spends [OF st] step_handoffs [OF st, of k] avoids_spends by (auto simp: handoff_fresh_def entries_kept_def s st)
next
  case (2 k s op)
  then show ?case using handoff_redeemed [of pk k op "fst s" "snd s"] by (cases s) (auto simp: handoff_fresh_def handoff_gone_def)
next
  case (3 k s op)
  obtain a env where s: "s = (a, env)" by (cases s)
  obtain a' env' where st: "auth_step pk op (a, env) = (a', env')" by fastforce
  show ?case using 3 step_handoffs [OF st, of k] by (auto simp: handoff_gone_def entries_kept_def s st)
next
  case (4 k s op)
  obtain a env where s: "s = (a, env)" by (cases s)
  show ?case
  proof
    assume "handoff_used pk k op s"
    then obtain c tk key now where op: "op = Op_redeem c tk key now" "sha256 (pk_lib pk) [str_bytes tk] = k"
      "is_ok (fst (Auth_redeem pk a c tk key now env))" by (auto simp: handoff_used_def s split: AuthOp.splits)
    have none: "List.find (\<lambda>(_, (stored, expires)). now < expires \<and> stored = k) (hs_open (au_handoffs a)) = None"
      using 4 by (auto simp: handoff_gone_def digest_count_def s find_None_iff filter_empty_conv)
    show False using op(3) none unfolding Auth_redeem_def Handoffs_redeem_def op(2)
      by (auto simp: Let_def split: sum.splits prod.splits if_splits)
  qed
qed

section \<open>Who gets access\<close>

abbreviation run_ops :: "Packages \<Rightarrow> AuthOp list \<Rightarrow> Auth \<times> Env \<Rightarrow> Auth \<times> Env" where
  "run_ops pk ops s \<equiv> fold (auth_step pk) ops s"

text \<open>Sessions and challenges belong to stored devices.\<close>

definition access_inv :: "Auth \<times> Env \<Rightarrow> bool" where
  "access_inv s \<longleftrightarrow> owned (ids_of (fst s)) (au_sessions (fst s))"

interpretation access: preserved "auth_step pk" access_inv for pk
proof (unfold_locales, goal_cases)
  case (1 s op)
  obtain a env where s: "s = (a, env)" by (cases s)
  obtain a' env' where st: "auth_step pk op (a, env) = (a', env')" by fastforce
  have "owned (ids_of a - (ids_of a - ids_of a')) (au_sessions a')"
    using step_sessions [OF st] 1 by (auto simp: sessions_follow_def access_inv_def s)
  then have "owned (ids_of a') (au_sessions a')" by (rule owned_mono) blast
  then show ?case by (simp add: access_inv_def s st)
qed

text \<open>A device is locked out when it is not stored, nothing is open for it, and its id will not be drawn.\<close>

definition locked :: "Packages \<Rightarrow> DeviceId \<Rightarrow> Auth \<times> Env \<Rightarrow> bool" where
  "locked pk d s \<longleftrightarrow> d \<notin> ids_of (fst s) \<and> owned (- {d}) (au_sessions (fst s)) \<and>
     (\<forall>opn claim device code deadline. pg_open (au_pairings (fst s)) = Some opn \<longrightarrow> op_phase opn = Claimed claim device code deadline \<longrightarrow> nd_id device \<noteq> d) \<and>
     avoids 16 (\<lambda>b. b64_encode (pk_lib pk) b = d) (snd s)"

interpretation lock: preserved "auth_step pk" "locked pk d" for pk d
proof (unfold_locales, goal_cases)
  case (1 s op)
  obtain a env where s: "s = (a, env)" by (cases s)
  obtain a' env' where st: "auth_step pk op (a, env) = (a', env')" by fastforce
  note l = 1 [unfolded locked_def s, simplified]
  have "d \<notin> ids_of a'" using step_ids [OF st, of d] l by (auto simp: approves_def)
  moreover have "owned (- {d}) (au_sessions a')"
  proof -
    have "owned (- {d} - (ids_of a - ids_of a')) (au_sessions a')" using step_sessions [OF st] l by (auto simp: sessions_follow_def)
    then show ?thesis by (rule owned_mono) blast
  qed
  moreover have "nd_id device \<noteq> d" if "pg_open (au_pairings a') = Some opn" "op_phase opn = Claimed claim device code deadline" for opn claim device code deadline
  proof -
    obtain e where eff: "pairing_effect pk op env (au_pairings a) (au_pairings a') e" using step_pairings [OF st] by blast
    show ?thesis
    proof (cases e)
      case Quiet
      then show ?thesis using quietly_claimed [of "au_pairings a" "au_pairings a'", OF _ that] eff l by auto
    next
      case Accepted
      then show ?thesis using eff that l by (auto simp: accepted_def)
    qed (use eff that in auto)
  qed
  moreover have "avoids 16 (\<lambda>b. b64_encode (pk_lib pk) b = d) env'" using avoids_spends [OF _ step_spends [OF st]] l by blast
  ultimately show ?case by (simp add: locked_def s st)
qed

lemma prove_known: "Presences_prove lib s nonce sig fp now devices = (Inr d, s') \<Longrightarrow> d \<in> set (Devices_ids devices)"
proof -
  have "Devices_get devices i = Some r \<Longrightarrow> i \<in> set (Devices_ids devices)" for i r using Devices_get_ids [of devices i] by simp
  then show "Presences_prove lib s nonce sig fp now devices = (Inr d, s') \<Longrightarrow> d \<in> set (Devices_ids devices)"
    by (auto simp: Presences_prove_def Let_def split: option.splits if_splits sum.splits)
qed

text \<open>What a phone can get as a device: a request authenticated, a session started, a presence proved.\<close>

definition gets_access :: "Packages \<Rightarrow> Auth \<times> Env \<Rightarrow> DeviceId \<Rightarrow> bool" where
  "gets_access pk s d \<longleftrightarrow> (\<exists>bearer now. fst (Auth_authenticate pk (fst s) bearer now) = Some d) \<or>
     (\<exists>challenge signature now session. fst (Auth_verify pk (fst s) challenge signature now (snd s)) = Inr session \<and> as_device session = d) \<or>
     (\<exists>nonce signature fp now. fst (presence_prove pk (fst s) nonce signature fp now) = Inr d)"

lemma access_owned:
  assumes "gets_access pk (a, env) d" "owned D (au_sessions a)"
  shows "d \<in> ids_of a \<or> d \<in> D"
proof -
  from assms(1) consider bearer now where "fst (Auth_authenticate pk a bearer now) = Some d"
    | c sg now session where "fst (Auth_verify pk a c sg now env) = Inr session" "as_device session = d"
    | n sg fp now where "fst (presence_prove pk a n sg fp now) = Inr d" by (auto simp: gets_access_def)
  then show ?thesis
  proof cases
    case 1
    then show ?thesis using owned_authenticate [of "pk_lib pk" "au_sessions a" bearer now _ _ D] assms(2)
      by (cases "Sessions_authenticate (pk_lib pk) (au_sessions a) bearer now") (auto simp: Auth_authenticate_def)
  next
    case 2
    obtain x ss e where v: "Sessions_verify (pk_lib pk) (au_sessions a) c sg now (au_devices a) env = (x, ss, e)" by (rule prod_cases3)
    show ?thesis using 2 v owned_verify [OF v assms(2)] by (auto simp: Auth_verify_def split: sum.splits prod.splits)
  next
    case 3
    then show ?thesis using prove_known [of "pk_lib pk" "au_presence a" n sg fp now "au_devices a" d]
      by (cases "Presences_prove (pk_lib pk) (au_presence a) n sg fp now (au_devices a)") (auto simp: presence_prove_def)
  qed
qed

lemma load_starts:
  assumes "Auth_load pk dir limits env0 = (Inr a, env)"
  shows "access_inv (a, env)" "pg_open (au_pairings a) = None"
  using assms by (auto simp: Auth_load_def access_inv_def owned_def Sessions_default_def Pairings_default_def Let_def split: sum.splits prod.splits)

text \<open>The claim of a device, and where the claim of the open pairing comes from.\<close>

definition claimed_by :: "Packages \<Rightarrow> Auth \<times> Env \<Rightarrow> AuthOp \<Rightarrow> DeviceId \<Rightarrow> str \<Rightarrow> nat \<Rightarrow> bool" where
  "claimed_by pk s op d code deadline \<longleftrightarrow> (\<exists>client token name key now c device. op = Op_claim client token name key now \<and>
     accepted (pk_lib pk) (au_pairings (fst s)) token now c device (au_pairings (fst (auth_step pk op s))) \<and>
     nd_id device = d \<and> cl_code c = code \<and> cl_expires_ms c = deadline)"

lemma claimed_origin:
  assumes "pg_open (au_pairings (fst s)) = None" "pg_open (au_pairings (fst (run_ops pk ops s))) = Some opn"
    "op_phase opn = Claimed claim device code deadline"
  shows "\<exists>pre op post. ops = pre @ op # post \<and> claimed_by pk (run_ops pk pre s) op (nd_id device) code deadline"
  using assms(2,3)
proof (induction ops arbitrary: opn device rule: rev_induct)
  case Nil
  then show ?case using assms(1) by simp
next
  case (snoc op ops)
  obtain a env where mid: "run_ops pk ops s = (a, env)" by (cases "run_ops pk ops s")
  obtain a' env' where st: "auth_step pk op (a, env) = (a', env')" by fastforce
  have last: "pg_open (au_pairings a') = Some opn" using snoc.prems(1) by (simp add: mid st)
  obtain e where eff: "pairing_effect pk op env (au_pairings a) (au_pairings a') e" using step_pairings [OF st] by blast
  show ?case
  proof (cases e)
    case Quiet
    then have q: "quietly (au_pairings a) (au_pairings a')" using eff by simp
    obtain o0 app where "pg_open (au_pairings a) = Some o0" "op_phase o0 = Claimed claim (device\<lparr>nd_app := app\<rparr>) code deadline"
      using quietly_claimed [OF q last snoc.prems(2)] by blast
    then obtain pre op1 post where "ops = pre @ op1 # post" "claimed_by pk (run_ops pk pre s) op1 (nd_id device) code deadline"
      using snoc.IH [of o0 "device\<lparr>nd_app := app\<rparr>"] by (auto simp: mid)
    then show ?thesis by (intro exI [of _ pre] exI [of _ op1] exI [of _ "post @ [op]"]) simp
  next
    case Accepted
    have "claimed_by pk (run_ops pk ops s) op (nd_id device) code deadline"
      using eff Accepted last snoc.prems(2) by (fastforce simp: claimed_by_def accepted_def mid st)
    then show ?thesis by blast
  qed (use eff last snoc.prems in auto)
qed

lemma stored_origin:
  assumes "d \<in> ids_of (fst (run_ops pk ops s))" "d \<notin> ids_of (fst s)"
  shows "\<exists>pre op post. ops = pre @ op # post \<and> (approves op (au_pairings (fst (run_ops pk pre s))) d \<or> (\<exists>e now. op = Op_enroll e now))"
  using assms(1)
proof (induction ops rule: rev_induct)
  case Nil
  then show ?case using assms(2) by simp
next
  case (snoc op ops)
  obtain a env where mid: "run_ops pk ops s = (a, env)" by (cases "run_ops pk ops s")
  obtain a' env' where st: "auth_step pk op (a, env) = (a', env')" by fastforce
  show ?case
  proof (cases "d \<in> ids_of a")
    case True
    then obtain pre op1 post where "ops = pre @ op1 # post" "approves op1 (au_pairings (fst (run_ops pk pre s))) d \<or> (\<exists>e now. op1 = Op_enroll e now)"
      using snoc.IH by (auto simp: mid)
    then show ?thesis by (intro exI [of _ pre] exI [of _ op1] exI [of _ "post @ [op]"]) simp
  next
    case False
    have "d \<in> ids_of a'" using snoc.prems by (simp add: mid st)
    then show ?thesis using step_ids [OF st _ False] by (intro exI [of _ ops] exI [of _ op] exI [of _ "[]"]) (auto simp: mid)
  qed
qed

section \<open>Properties\<close>

text \<open>
  C9. A device that was not in the store when the server started is only ever stored because a person approved it: some
  earlier operation claimed the open pairing with a live token of it, and a later one answered that claim within two
  minutes, naming the code of the claim. The one other way is an enrolment over the control socket.
\<close>

theorem paired_only_if_approved:
  assumes "Auth_load pk dir limits env0 = (Inr a0, env1)" "d \<notin> ids_of a0" "d \<in> ids_of (fst (run_ops pk ops (a0, env1)))"
  shows "(\<exists>e now. Op_enroll e now \<in> set ops) \<or>
    (\<exists>pre claim mid ident shown hosts now post code deadline.
       ops = pre @ claim # mid @ Op_answer ident True shown hosts now # post \<and>
       claimed_by pk (run_ops pk pre (a0, env1)) claim d code deadline \<and> str_bytes code = str_bytes shown \<and> now < deadline)"
proof -
  obtain before op post where o: "ops = before @ op # post"
    "approves op (au_pairings (fst (run_ops pk before (a0, env1)))) d \<or> (\<exists>e now. op = Op_enroll e now)"
    using stored_origin [OF assms(3)] assms(2) by auto
  show ?thesis
  proof (cases "\<exists>e now. op = Op_enroll e now")
    case True
    then show ?thesis using o(1) by auto
  next
    case False
    then obtain ident shown hosts now opn claim device code deadline where ap:
      "op = Op_answer ident True shown hosts now" "pg_open (au_pairings (fst (run_ops pk before (a0, env1)))) = Some opn"
      "op_phase opn = Claimed claim device code deadline" "nd_id device = d" "str_bytes code = str_bytes shown" "now < deadline"
      using o(2) by (auto simp: approves_def)
    obtain pre op1 mid where "before = pre @ op1 # mid" "claimed_by pk (run_ops pk pre (a0, env1)) op1 (nd_id device) code deadline"
      using claimed_origin [OF _ ap(2,3)] load_starts(2) [OF assms(1)] by auto
    then have "ops = pre @ op1 # mid @ Op_answer ident True shown hosts now # post" "claimed_by pk (run_ops pk pre (a0, env1)) op1 d code deadline"
      using o(1) ap(1,4) by auto
    then show ?thesis using ap(5,6) by blast
  qed
qed

theorem paired_only_if_approved_witness:
  "same 16 5 \<in> ids_of (fst (run_ops example_pk example_ops (example_start, example_env))) \<and>
    (\<exists>pre claim mid ident shown hosts now post code deadline.
       example_ops = pre @ claim # mid @ Op_answer ident True shown hosts now # post \<and>
       claimed_by example_pk (run_ops example_pk pre (example_start, example_env)) claim (same 16 5) code deadline \<and>
       str_bytes code = str_bytes shown \<and> now < deadline)"
proof -
  have in_store: "same 16 5 \<in> ids_of (fst (run_ops example_pk example_ops (example_start, example_env)))"
    by (rule example_run) (auto simp: Devices_ids_def)
  moreover have "\<not> (\<exists>e now. Op_enroll e now \<in> set example_ops)" by (simp add: example_ops_def)
  moreover have "same 16 5 \<notin> ids_of example_start" by (simp add: example_empty)
  ultimately show ?thesis using paired_only_if_approved [OF example_loads _ in_store] by blast
qed

text \<open>
  C10. In every state the server can reach, only devices in the store get access: a bearer token, a signed challenge and a
  presence proof are accepted for stored devices alone. And once a device is revoked no later operation gives it access,
  however the old tokens, challenges and nonces are used, unless its id is drawn again.
\<close>

theorem revoked_stays_out:
  assumes "Auth_load pk dir limits env0 = (Inr a0, env1)" "run_ops pk ops (a0, env1) = (a, env)"
  shows "(\<forall>d. gets_access pk (a, env) d \<longrightarrow> d \<in> ids_of a) \<and>
    (\<forall>d b a' env' later. Auth_revoke pk a d env = (Inr b, a', env') \<longrightarrow> distinct (Devices_ids (au_devices a)) \<longrightarrow>
       avoids 16 (\<lambda>x. b64_encode (pk_lib pk) x = d) env \<longrightarrow>
       (\<forall>opn claim device code deadline. pg_open (au_pairings a) = Some opn \<longrightarrow> op_phase opn = Claimed claim device code deadline \<longrightarrow> nd_id device \<noteq> d) \<longrightarrow>
       \<not> gets_access pk (run_ops pk later (a', env')) d)"
proof -
  have inv: "owned (ids_of a) (au_sessions a)" using access.run_kept [OF load_starts(1) [OF assms(1)], of pk ops] assms(2) by (simp add: access_inv_def)
  have "d \<in> ids_of a" if "gets_access pk (a, env) d" for d using access_owned [OF that inv] by blast
  moreover have "\<not> gets_access pk (run_ops pk later (a', env')) d"
    if rv: "Auth_revoke pk a d env = (Inr b, a', env')" and "distinct (Devices_ids (au_devices a))"
      "avoids 16 (\<lambda>x. b64_encode (pk_lib pk) x = d) env"
      "\<forall>opn claim device code deadline. pg_open (au_pairings a) = Some opn \<longrightarrow> op_phase opn = Claimed claim device code deadline \<longrightarrow> nd_id device \<noteq> d"
    for d b a' env' later
  proof -
    note f = revoke_facts [OF rv, of b]
    have "owned (- {d}) (au_sessions a')"
      using owned_end_device [OF owned_mono [OF inv, of UNIV]] f by (simp add: Compl_eq_Diff_UNIV)
    then have "locked pk d (a', env')" using f that avoids_spends by (auto simp: locked_def)
    then have l: "locked pk d (run_ops pk later (a', env'))" by (rule lock.run_kept)
    obtain a2 e2 where s2: "run_ops pk later (a', env') = (a2, e2)" by fastforce
    show ?thesis using access_owned [of pk a2 e2 d "- {d}"] l by (auto simp: s2 locked_def)
  qed
  ultimately show ?thesis by blast
qed

theorem revoked_stays_out_witness:
  "\<exists>a env a' env'. run_ops example_pk example_ops (example_start, example_env) = (a, env) \<and> ids_of a = {same 16 5} \<and>
     Auth_revoke example_pk a (same 16 5) env = (Inr True, a', env') \<and>
     \<not> gets_access example_pk (run_ops example_pk example_ops (a', env')) (same 16 5)"
proof -
  obtain a env where run: "run_ops example_pk example_ops (example_start, example_env) = (a, env)"
    "map (\<lambda>r. (dr_id r, dr_links r)) (dv_records (au_devices a)) = [(same 16 5, [])]" "ev_draws env = []" "ev_io env = []"
    "hs_open (au_handoffs a) = []" "pg_open (au_pairings a) = Some example_paired" by (rule example_run)
  obtain a' env' where rv: "Auth_revoke example_pk a (same 16 5) env = (Inr True, a', env')" using example_revoked [OF run(2,4,5)] .
  have ids: "Devices_ids (au_devices a) = [same 16 5]" using run(2) by (auto simp: Devices_ids_def)
  have "\<not> gets_access example_pk (run_ops example_pk example_ops (a', env')) (same 16 5)"
    using revoked_stays_out [OF example_loads run(1)] rv ids run(3,6) by (auto simp: avoids_def example_paired_def)
  then show ?thesis using run(1) rv ids by auto
qed

text \<open>
  C11. Whatever is asked of the server in any order, a pairing token is claimed at most once, a session challenge is
  answered at most once, a presence nonce is accepted at most once and a handoff token is redeemed at most once, for
  as long as the secrets still to be drawn differ from it.
\<close>

theorem secrets_work_once:
  shows "(token_fresh pk digest s \<longrightarrow> used_times (auth_step pk) (token_used pk digest) ops s \<le> 1) \<and>
    (challenge_fresh pk ident s \<longrightarrow> used_times (auth_step pk) (challenge_used pk ident) ops s \<le> 1) \<and>
    (nonce_fresh nonce s \<longrightarrow> used_times (auth_step pk) (nonce_used pk nonce) ops s \<le> 1) \<and>
    (handoff_fresh pk handoff s \<longrightarrow> used_times (auth_step pk) (handoff_used pk handoff) ops s \<le> 1)"
  using pairing_token.at_most_once session_challenge.at_most_once presence_nonce.at_most_once handoff_token.at_most_once by blast

theorem secrets_work_once_witness:
  "token_fresh example_pk (same 32 6) (example_offered, example_env2) \<and>
   used_times (auth_step example_pk) (token_used example_pk (same 32 6)) [example_ops ! 1, example_ops ! 1] (example_offered, example_env2) = 1 \<and>
   challenge_fresh example_pk (same 16 9) (example_offered, example_env2) \<and> nonce_fresh (same 32 9) (example_offered, example_env2) \<and>
   handoff_fresh example_pk (same 32 9) (example_offered, example_env2) \<and>
   used_times (auth_step example_pk) (challenge_used example_pk (same 16 9)) example_ops (example_offered, example_env2) \<le> 1 \<and>
   used_times (auth_step example_pk) (nonce_used example_pk (same 32 9)) example_ops (example_offered, example_env2) \<le> 1 \<and>
   used_times (auth_step example_pk) (handoff_used example_pk (same 32 9)) example_ops (example_offered, example_env2) \<le> 1"
proof -
  obtain l c where c: "Auth_claim example_pk example_offered (V4 1) (same 32 6) (chars ''phone'') (same 65 4) 20 example_env2 =
    (Inr c, example_waits l, example_env\<lparr>ev_draws := []\<rparr>)" by (rule example_claimed)
  have k: "pk_lib example_pk = example_lib" by (simp add: example_pk_def)
  have digest: "sha256 example_lib [b] = b" for b by (simp add: sha256_def example_lib_def)
  have draws: "ev_draws example_env2 = map (\<lambda>n. Some (\<lambda>i. n)) [3, 4, 5]" by (simp add: example_env2_def example_env_def)
  have "token_used example_pk (same 32 6) (example_ops ! 1) (example_offered, example_env2)"
    using c by (simp add: token_used_def example_ops_def k digest SECRET_LEN_def example_fixed)
  moreover have "token_fresh example_pk (same 32 6) (example_offered, example_env2)"
    by (simp add: token_fresh_def avoids_def draws k digest SECRET_LEN_def same_draw)
  moreover have "challenge_fresh example_pk (same 16 9) (example_offered, example_env2)"
    by (simp add: challenge_fresh_def avoids_def draws k same_draw, simp add: example_lib_def)
  moreover have "nonce_fresh (same 32 9) (example_offered, example_env2)"
    by (simp add: nonce_fresh_def avoids_def draws SECRET_LEN_def same_draw nonce_count_def example_offered_def example_defs)
  moreover have "handoff_fresh example_pk (same 32 9) (example_offered, example_env2)"
    by (simp add: handoff_fresh_def avoids_def draws k digest SECRET_LEN_def same_draw digest_count_def, simp add: example_lib_def str_bytes_def same_def example_offered_def example_defs encode_utf8_def)
  ultimately show ?thesis
    using secrets_work_once [of example_pk "same 32 6" "(example_offered, example_env2)" "[example_ops ! 1, example_ops ! 1]" "same 16 9" "same 32 9" "same 32 9"]
      secrets_work_once [of example_pk "same 32 6" "(example_offered, example_env2)" example_ops "same 16 9" "same 32 9" "same 32 9"] by simp
qed

end
