(* ===== verification/Push_Seal.thy ===== *)
theory Push_Seal
  imports Auth_Base
begin

text \<open>
  What a push carries through the relay: push tokens and bytes sealed to one key (\<open>sheprd-apns/src/token.rs\<close>,
  \<open>seal.rs\<close>), and the credentials and handles of the relay (\<open>sheprd-push-relay/src/credential.rs\<close>, \<open>handle.rs\<close>).
  The packages p256, hkdf, aes-gcm, hmac, base64 and serde_json are the fields of \<open>SealLib\<close>; a secret key is its
  bytes and a public key its SEC1 point.
\<close>

section \<open>Sealed bytes\<close>

record RawHandle =
  rh_credential :: str
  rh_id :: str
  rh_kind :: str
  rh_token :: str

record SealLib =
  sl_public :: "bytes \<Rightarrow> bytes"
  sl_secret_ok :: "bytes \<Rightarrow> bool"
  sl_point_ok :: "bytes \<Rightarrow> bool"
  sl_diffie_hellman :: "bytes \<Rightarrow> bytes \<Rightarrow> bytes"
  sl_hkdf :: "bytes \<Rightarrow> bytes \<Rightarrow> bytes \<Rightarrow> bytes option"
  sl_encrypt :: "bytes \<Rightarrow> bytes \<Rightarrow> bytes \<Rightarrow> bytes \<Rightarrow> bytes option"
  sl_decrypt :: "bytes \<Rightarrow> bytes \<Rightarrow> bytes \<Rightarrow> bytes \<Rightarrow> bytes option"
  sl_hmac_key :: "bytes \<Rightarrow> bool"
  sl_hmac :: "bytes \<Rightarrow> bytes \<Rightarrow> bytes"
  sl_sha256 :: "bytes \<Rightarrow> bytes"
  sl_encode :: "bytes \<Rightarrow> str"
  sl_decode :: "str \<Rightarrow> bytes option"
  sl_handle_json :: "bytes \<Rightarrow> RawHandle option"

datatype SealError = Seal_DeviceToken | Seal_Open | Seal_Random | Seal_Seal

definition HANDLE_INFO :: bytes where "HANDLE_INFO = as_bytes ''sheprd-relay-handle-v1''"

definition POINT_LEN :: nat where "POINT_LEN = 65"

definition NONCE_LEN :: nat where "NONCE_LEN = 12"

text \<open>The key both sides derive; \<open>Aes256Gcm::new_from_slice\<close> takes every key of 32 bytes.\<close>

definition cipher :: "SealLib \<Rightarrow> bytes \<Rightarrow> bytes \<Rightarrow> bytes \<Rightarrow> bytes \<Rightarrow> bytes option" where
  "cipher lib shared ephemeral_point recipient_point info = sl_hkdf lib (ephemeral_point @ recipient_point) shared info"

definition seal_with :: "SealLib \<Rightarrow> bytes \<Rightarrow> bytes \<Rightarrow> bytes \<Rightarrow> bytes \<Rightarrow> bytes \<Rightarrow> (bytes, SealError) result" where
  "seal_with lib device plaintext info ephemeral nonce =
     (let ephemeral_point = sl_public lib ephemeral;
          shared = sl_diffie_hellman lib ephemeral device
      in case cipher lib shared ephemeral_point device info of
           None \<Rightarrow> Inl Seal_Seal
         | Some key \<Rightarrow>
             case sl_encrypt lib key nonce plaintext info of
               None \<Rightarrow> Inl Seal_Seal
             | Some ciphertext \<Rightarrow> Inr (ephemeral_point @ nonce @ ciphertext))"

text \<open>The loop that draws the one-time key; it ends with the draws of the environment.\<close>

function ephemeral_secret :: "SealLib \<Rightarrow> Env \<Rightarrow> (bytes, SealError) result \<times> Env" where
  "ephemeral_secret lib env = (case random_bytes 32 env of
     (Inl e, env) \<Rightarrow> (Inl Seal_Random, env)
   | (Inr bytes, env) \<Rightarrow> if sl_secret_ok lib bytes then (Inr bytes, env) else ephemeral_secret lib env)"
  by pat_completeness auto
termination
  by (relation "measure (\<lambda>(lib, env). length (ev_draws env))")
    (auto simp: random_bytes_def split: list.splits option.splits)

declare ephemeral_secret.simps [simp del]

definition seal_to :: "SealLib \<Rightarrow> bytes \<Rightarrow> bytes \<Rightarrow> bytes \<Rightarrow> Env \<Rightarrow> (bytes, SealError) result \<times> Env" where
  "seal_to lib device plaintext info env = (case random_bytes NONCE_LEN env of
     (Inl e, env) \<Rightarrow> (Inl Seal_Random, env)
   | (Inr nonce, env) \<Rightarrow>
       case ephemeral_secret lib env of
         (Inl e, env) \<Rightarrow> (Inl e, env)
       | (Inr ephemeral, env) \<Rightarrow> (seal_with lib device plaintext info ephemeral nonce, env))"

definition seal_open :: "SealLib \<Rightarrow> bytes \<Rightarrow> bytes \<Rightarrow> bytes \<Rightarrow> (bytes, SealError) result" where
  "seal_open lib key sealed info =
     (if length sealed < POINT_LEN then Inl Seal_Open
      else let point = take POINT_LEN sealed; rest = drop POINT_LEN sealed
           in if length rest < NONCE_LEN then Inl Seal_Open
              else let nonce = take NONCE_LEN rest; ciphertext = drop NONCE_LEN rest
                   in if \<not> sl_point_ok lib point then Inl Seal_Open
                      else case cipher lib (sl_diffie_hellman lib key point) point (sl_public lib key) info of
                             None \<Rightarrow> Inl Seal_Open
                           | Some k \<Rightarrow> ok_or (sl_decrypt lib k nonce ciphertext info) Seal_Open)"

section \<open>Push tokens\<close>

type_synonym DeviceToken = str

definition MIN_TOKEN :: nat where "MIN_TOKEN = 16"

definition MAX_TOKEN :: nat where "MAX_TOKEN = 256"

definition ascii_hexdigit :: "u8 \<Rightarrow> bool" where
  "ascii_hexdigit b \<longleftrightarrow> (48 \<le> b \<and> b \<le> 57) \<or> (65 \<le> b \<and> b \<le> 70) \<or> (97 \<le> b \<and> b \<le> 102)"

definition DeviceToken_parse :: "str \<Rightarrow> (DeviceToken, SealError) result" where
  "DeviceToken_parse hex =
     (let hex = trim hex; bytes = str_len hex div 2
      in if even (str_len hex) \<and> MIN_TOKEN \<le> bytes \<and> bytes \<le> MAX_TOKEN \<and> list_all ascii_hexdigit (str_bytes hex)
         then Inr (str_lower hex) else Inl Seal_DeviceToken)"

section \<open>Credentials\<close>

datatype ApnsHost = Production | Sandbox

type_synonym RelayDevice = bytes

definition LIFETIME_S :: nat where "LIFETIME_S = 30 * 24 * 60 * 60"

definition DEVICE_LEN :: nat where "DEVICE_LEN = 16"

definition FACTS_LEN :: nat where "FACTS_LEN = DEVICE_LEN + 1 + 8"

definition MAC_LEN :: nat where "MAC_LEN = 32"

record Credential =
  cr_device :: RelayDevice
  cr_environment :: ApnsHost
  cr_expires_s :: nat

text \<open>\<open>u64::to_be_bytes\<close> and \<open>from_be_bytes\<close>.\<close>

definition be_bytes_64 :: "nat \<Rightarrow> bytes" where
  "be_bytes_64 n = map (\<lambda>i. of_nat (n div 256 ^ i)) [7, 6, 5, 4, 3, 2, 1, 0]"

definition of_be_64 :: "bytes \<Rightarrow> nat" where
  "of_be_64 bs = foldl (\<lambda>acc b. acc * 256 + unat b) 0 bs"

text \<open>An issuer is the secret its HMAC is keyed with.\<close>

type_synonym Issuer = bytes

definition Issuer_new :: "SealLib \<Rightarrow> bytes \<Rightarrow> Issuer option" where
  "Issuer_new lib secret = (if sl_hmac_key lib secret then Some secret else None)"

definition Issuer_issue :: "SealLib \<Rightarrow> Issuer \<Rightarrow> RelayDevice \<Rightarrow> ApnsHost \<Rightarrow> nat \<Rightarrow> str" where
  "Issuer_issue lib self device environment now_s =
     (let facts = device @ [case environment of Production \<Rightarrow> 0 | Sandbox \<Rightarrow> 1] @ be_bytes_64 (u64_add now_s LIFETIME_S)
      in sl_encode lib (facts @ sl_hmac lib self facts))"

definition Issuer_check :: "SealLib \<Rightarrow> Issuer \<Rightarrow> str \<Rightarrow> Credential option" where
  "Issuer_check lib self text = (case sl_decode lib text of
     None \<Rightarrow> None
   | Some bytes \<Rightarrow>
       if length bytes \<noteq> FACTS_LEN + MAC_LEN then None
       else let facts = take FACTS_LEN bytes; mac = drop FACTS_LEN bytes
            in if sl_hmac lib self facts \<noteq> mac then None
               else let device = take DEVICE_LEN facts; rest = drop DEVICE_LEN facts;
                        environment = take 1 rest; expires = drop 1 rest
                    in case (if environment = [0] then Some Production else if environment = [1] then Some Sandbox else None) of
                         None \<Rightarrow> None
                       | Some host \<Rightarrow> Some \<lparr>cr_device = device, cr_environment = host, cr_expires_s = of_be_64 expires\<rparr>)"

section \<open>Handles\<close>

datatype PushType = Push_Alert | Push_Background | Push_LiveActivity

datatype HandleKind = Kind_Activity | Kind_Alert | Kind_PushToStart

definition Kind_allows :: "HandleKind \<Rightarrow> PushType \<Rightarrow> bool" where
  "Kind_allows self push_type = (case self of
     Kind_Alert \<Rightarrow> push_type = Push_Alert \<or> push_type = Push_Background
   | _ \<Rightarrow> push_type = Push_LiveActivity)"

record RelayHandle =
  hd_credential :: str
  hd_id :: str
  hd_kind :: HandleKind
  hd_token :: DeviceToken

type_synonym Keyring = "(str \<times> bytes) list"

definition MAX_HANDLE :: nat where "MAX_HANDLE = 2048"

definition ID_LEN :: nat where "ID_LEN = 32"

definition KEY_ID_BYTES :: nat where "KEY_ID_BYTES = 4"

text \<open>\<open>{byte:02x}\<close>.\<close>

definition hex_lower :: "u8 \<Rightarrow> str" where
  "hex_lower b = (let digit = (\<lambda>n. if n < 10 then 48 + n else 87 + n) in [digit (unat b div 16), digit (unat b mod 16)])"

definition key_id :: "SealLib \<Rightarrow> bytes \<Rightarrow> str" where
  "key_id lib key = concat (map hex_lower (take KEY_ID_BYTES (sl_sha256 lib (sl_public lib key))))"

definition Keyring_new :: "SealLib \<Rightarrow> bytes \<Rightarrow> bytes option \<Rightarrow> Keyring" where
  "Keyring_new lib current previous =
     map (\<lambda>key. (key_id lib key, key)) (current # (case previous of None \<Rightarrow> [] | Some key \<Rightarrow> [key]))"

definition valid_id :: "str \<Rightarrow> bool" where
  "valid_id ident \<longleftrightarrow> str_len ident = ID_LEN \<and> list_all (\<lambda>b. (48 \<le> b \<and> b \<le> 57) \<or> (97 \<le> b \<and> b \<le> 102)) (str_bytes ident)"

text \<open>The derived reader of a handle: the names of the kinds, and \<open>DeviceToken\<close> through its \<open>TryFrom\<close>.\<close>

definition kind_named :: "str \<Rightarrow> HandleKind option" where
  "kind_named name = (if name = chars ''activity'' then Some Kind_Activity else if name = chars ''alert'' then Some Kind_Alert
     else if name = chars ''push_to_start'' then Some Kind_PushToStart else None)"

definition handle_from_slice :: "SealLib \<Rightarrow> bytes \<Rightarrow> RelayHandle option" where
  "handle_from_slice lib bytes = (case sl_handle_json lib bytes of
     None \<Rightarrow> None
   | Some raw \<Rightarrow>
       case (kind_named (rh_kind raw), DeviceToken_parse (rh_token raw)) of
         (Some kind, Inr token) \<Rightarrow> Some \<lparr>hd_credential = rh_credential raw, hd_id = rh_id raw, hd_kind = kind, hd_token = token\<rparr>
       | _ \<Rightarrow> None)"

definition Keyring_open :: "SealLib \<Rightarrow> Keyring \<Rightarrow> str \<Rightarrow> RelayHandle option" where
  "Keyring_open lib self text =
     (if MAX_HANDLE < str_len text then None
      else case split_once 46 text of
             None \<Rightarrow> None
           | Some (which, sealed) \<Rightarrow>
               case List.find (\<lambda>(ident, key). ident = which) self of
                 None \<Rightarrow> None
               | Some (_, key) \<Rightarrow>
                   case sl_decode lib sealed of
                     None \<Rightarrow> None
                   | Some sealed \<Rightarrow>
                       case seal_open lib key sealed HANDLE_INFO of
                         Inl e \<Rightarrow> None
                       | Inr opened \<Rightarrow>
                           case handle_from_slice lib opened of
                             None \<Rightarrow> None
                           | Some handle \<Rightarrow> if valid_id (hd_id handle) then Some handle else None)"

section \<open>Lemmas\<close>

text \<open>What the packages document: key agreement, authenticated encryption and base64 are inverse, and lengths.\<close>

definition seal_laws :: "SealLib \<Rightarrow> bool" where
  "seal_laws lib \<longleftrightarrow>
     (\<forall>a b. sl_diffie_hellman lib a (sl_public lib b) = sl_diffie_hellman lib b (sl_public lib a)) \<and>
     (\<forall>a. length (sl_public lib a) = POINT_LEN \<and> sl_point_ok lib (sl_public lib a)) \<and>
     (\<forall>key nonce msg aad c. sl_encrypt lib key nonce msg aad = Some c \<longrightarrow> sl_decrypt lib key nonce c aad = Some msg) \<and>
     (\<forall>secret facts. length (sl_hmac lib secret facts) = MAC_LEN) \<and>
     (\<forall>bytes. sl_decode lib (sl_encode lib bytes) = Some bytes)"

lemma of_be_64_bytes: "n \<le> U64_MAX \<Longrightarrow> of_be_64 (be_bytes_64 n) = n"
proof -
  assume "n \<le> U64_MAX"
  then have "n < 256 ^ 8" by (simp add: U64_MAX_def)
  then have top: "n div 256 ^ 7 < 256" by (simp add: div_less_iff_less_mult)
  have step: "n div 256 ^ Suc i * 256 + n div 256 ^ i mod 256 = n div 256 ^ i" for i
    by (simp add: div_mult2_eq mult.commute [of _ "256 ^ i"])
  have u: "unat (of_nat k :: u8) = k mod 256" for k by (simp add: unat_of_nat)
  have "of_be_64 (be_bytes_64 n) = (((((((n div 256 ^ 7 * 256 + n div 256 ^ 6 mod 256) * 256 + n div 256 ^ 5 mod 256) * 256 + n div 256 ^ 4 mod 256) * 256 +
      n div 256 ^ 3 mod 256) * 256 + n div 256 ^ 2 mod 256) * 256 + n div 256 ^ 1 mod 256) * 256 + n div 256 ^ 0 mod 256)"
    using top by (simp add: of_be_64_def be_bytes_64_def u)
  also have "\<dots> = n"
    using step [of 6] step [of 5] step [of 4] step [of 3] step [of 2] step [of 1] step [of 0] by simp
  finally show ?thesis .
qed

lemma length_be_bytes_64 [simp]: "length (be_bytes_64 n) = 8"
  by (simp add: be_bytes_64_def)

lemma open_sealed:
  assumes "seal_laws lib" "length nonce = NONCE_LEN" "seal_with lib (sl_public lib key) plaintext info ephemeral nonce = Inr sealed"
  shows "seal_open lib key sealed info = Inr plaintext"
proof -
  from assms(3) obtain k c where k: "cipher lib (sl_diffie_hellman lib ephemeral (sl_public lib key)) (sl_public lib ephemeral) (sl_public lib key) info = Some k"
    "sl_encrypt lib k nonce plaintext info = Some c" "sealed = sl_public lib ephemeral @ nonce @ c"
    by (auto simp: seal_with_def Let_def split: option.splits)
  then show ?thesis using assms(1,2) by (simp add: seal_open_def seal_laws_def Let_def ok_or_def)
qed

lemma check_issued:
  assumes "seal_laws lib" "length device = DEVICE_LEN" "now_s + LIFETIME_S \<le> U64_MAX"
  shows "Issuer_check lib self (Issuer_issue lib self device environment now_s) =
    Some \<lparr>cr_device = device, cr_environment = environment, cr_expires_s = now_s + LIFETIME_S\<rparr>"
proof -
  have "u64_add now_s LIFETIME_S = now_s + LIFETIME_S" using assms(3) by (simp add: u64_add_def U64_MAX_def)
  then show ?thesis using assms of_be_64_bytes [OF assms(3)]
    by (cases environment) (simp_all add: Issuer_check_def Issuer_issue_def seal_laws_def Let_def FACTS_LEN_def DEVICE_LEN_def MAC_LEN_def)
qed

lemma check_sound:
  assumes "Issuer_check lib self text = Some credential"
  obtains facts where "sl_decode lib text = Some (facts @ sl_hmac lib self facts)" "length facts = FACTS_LEN"
    "cr_device credential = take DEVICE_LEN facts" "cr_expires_s credential = of_be_64 (drop (DEVICE_LEN + 1) facts)"
proof -
  from assms obtain bytes where b: "sl_decode lib text = Some bytes" "length bytes = FACTS_LEN + MAC_LEN"
    "sl_hmac lib self (take FACTS_LEN bytes) = drop FACTS_LEN bytes"
    "cr_device credential = take DEVICE_LEN (take FACTS_LEN bytes)"
    "cr_expires_s credential = of_be_64 (drop 1 (drop DEVICE_LEN (take FACTS_LEN bytes)))"
    by (auto simp: Issuer_check_def Let_def split: option.splits if_splits)
  show ?thesis using that [of "take FACTS_LEN bytes"] b by (simp add: add.commute)
qed

end
