(* ===== verification/Push_Relay.thy ===== *)
theory Push_Relay
  imports Push_Seal
begin

text \<open>
  The push relay (\<open>sheprd-push-relay/src\<close>): revocations (\<open>store.rs\<close>), the checks of a push or a revocation in order
  (\<open>relay.rs\<close>), the replies as they reach the daemon (\<open>web.rs\<close>, \<open>outcome\<close> of \<open>sheprd-apns/src/send.rs\<close>,
  \<open>sheprd-apns/src/relay.rs\<close>), and requests that run at the same time. The relay keeps no lock between the source
  check, the check for a revocation, the counting and the post, so those are the steps other requests come between.
\<close>

section \<open>Revocations\<close>

datatype Revoked = Revoked_Device RelayDevice | Revoked_Handle str

datatype RelayStoreError = Store_Full

type_synonym Memory = "(str \<times> nat) list"

definition MAX_MEMORY :: nat where "MAX_MEMORY = 2 ^ 20"

definition Revoked_key :: "Revoked \<Rightarrow> str" where
  "Revoked_key self = (case self of
     Revoked_Device device \<Rightarrow> chars ''device:'' @ concat (map hex_lower device)
   | Revoked_Handle ident \<Rightarrow> chars ''handle:'' @ ident)"

definition Memory_revoke :: "Memory \<Rightarrow> Revoked \<Rightarrow> nat \<Rightarrow> (unit, RelayStoreError) result \<times> Memory" where
  "Memory_revoke self what until_s =
     (let key = Revoked_key what
      in if MAX_MEMORY \<le> length self \<and> map_of self key = None then (Inl Store_Full, self)
         else (Inr (), AList.update key (max until_s (case map_of self key of None \<Rightarrow> 0 | Some until \<Rightarrow> until)) self))"

definition Memory_is_revoked :: "Memory \<Rightarrow> RelayDevice \<Rightarrow> str \<Rightarrow> bool" where
  "Memory_is_revoked self device handle \<longleftrightarrow>
     map_of self (Revoked_key (Revoked_Device device)) \<noteq> None \<or> map_of self (Revoked_key (Revoked_Handle handle)) \<noteq> None"

definition Memory_purge :: "Memory \<Rightarrow> nat \<Rightarrow> nat \<times> Memory" where
  "Memory_purge self now_s =
     (let kept = retain (\<lambda>_ until_s. now_s < until_s) self in (length self - length kept, kept))"

section \<open>Requests and replies\<close>

datatype Priority = Low | High

record Push =
  ps_body :: bytes
  ps_collapse_id :: "str option"
  ps_priority :: Priority
  ps_push_type :: PushType

datatype Outcome = Outcome_Delivered | Outcome_Gone | Outcome_RateLimited | Outcome_Rejected "str option" nat

record PushRequest =
  pq_collapse_id :: "str option"
  pq_handle :: str
  pq_payload :: str
  pq_priority :: Priority
  pq_push_type :: PushType

record RevokeRequest =
  rq_handle :: str

datatype RelayReply =
    Reply_Delivered | Reply_Expired | Reply_Gone | Reply_Invalid | Reply_Limited | Reply_Refused | Reply_Revoked | Reply_Unavailable

definition MAX_COLLAPSE_ID :: nat where "MAX_COLLAPSE_ID = 64"

definition MAX_APNS_PAYLOAD :: nat where "MAX_APNS_PAYLOAD = 4096"

text \<open>serde_json: whether a text is a JSON object, and the bodies of requests.\<close>

record WebLib =
  wl_object :: "str \<Rightarrow> bool"
  wl_push :: "bytes \<Rightarrow> PushRequest option"
  wl_revoke :: "bytes \<Rightarrow> RevokeRequest option"
  wl_reason :: "bytes \<Rightarrow> str option"

definition valid_payload :: "WebLib \<Rightarrow> str \<Rightarrow> bool" where
  "valid_payload web payload \<longleftrightarrow> str_len payload \<le> MAX_APNS_PAYLOAD \<and> wl_object web payload"

text \<open>\<open>u8::is_ascii_graphic\<close> is the range from 33 to 126.\<close>

definition valid_collapse_id :: "str option \<Rightarrow> bool" where
  "valid_collapse_id ident = (case ident of None \<Rightarrow> True
     | Some s \<Rightarrow> 1 \<le> str_len s \<and> str_len s \<le> MAX_COLLAPSE_ID \<and> list_all (\<lambda>b. 33 \<le> b \<and> b \<le> 126) (str_bytes s))"

definition reply :: "Outcome \<Rightarrow> RelayReply" where
  "reply outcome = (case outcome of
     Outcome_Delivered \<Rightarrow> Reply_Delivered
   | Outcome_Gone \<Rightarrow> Reply_Gone
   | Outcome_RateLimited \<Rightarrow> Reply_Limited
   | Outcome_Rejected reason status \<Rightarrow> if status = 403 \<or> 500 \<le> status then Reply_Unavailable else Reply_Refused)"

text \<open>\<open>outcome\<close> of \<open>send.rs\<close>: APNs's answer from its status and body.\<close>

definition apns_outcome :: "WebLib \<Rightarrow> nat \<Rightarrow> bytes \<Rightarrow> Outcome" where
  "apns_outcome web status body =
     (let reason = wl_reason web body
      in if status = 200 then Outcome_Delivered
         else if status = 410 \<or> (status = 400 \<and> (reason = Some (chars ''BadDeviceToken'') \<or> reason = Some (chars ''DeviceTokenNotForTopic'')))
              then Outcome_Gone
         else if status = 429 then Outcome_RateLimited
         else Outcome_Rejected reason status)"

definition Reply_status :: "RelayReply \<Rightarrow> nat" where
  "Reply_status self = (case self of
     Reply_Delivered \<Rightarrow> 200 | Reply_Revoked \<Rightarrow> 200 | Reply_Expired \<Rightarrow> 401 | Reply_Gone \<Rightarrow> 410 | Reply_Invalid \<Rightarrow> 400
   | Reply_Limited \<Rightarrow> 429 | Reply_Refused \<Rightarrow> 403 | Reply_Unavailable \<Rightarrow> 503)"

datatype RelayOutcome = Relay_Delivered | Relay_Gone | Relay_Stale | Relay_Limited | Relay_Invalid | Relay_Unavailable

definition from_status :: "nat \<Rightarrow> RelayOutcome" where
  "from_status status =
     (if status = 200 then Relay_Delivered else if status = 410 then Relay_Gone
      else if status = 401 \<or> status = 403 then Relay_Stale else if status = 429 then Relay_Limited
      else if status = 400 then Relay_Invalid else Relay_Unavailable)"

text \<open>
  \<open>retrying\<close>: \<open>attempt k\<close> is the outcome of try \<open>k\<close>, which is unavailable also when it fails or takes too long. The
  value is the outcome and how many tries were made.
\<close>

definition RETRIES :: nat where "RETRIES = 2"

fun retrying_from :: "nat \<Rightarrow> (nat \<Rightarrow> RelayOutcome) \<Rightarrow> nat \<Rightarrow> RelayOutcome \<Rightarrow> RelayOutcome \<times> nat" where
  "retrying_from 0 attempt tries outcome = (outcome, tries)"
| "retrying_from (Suc delays) attempt tries outcome =
     (if outcome \<noteq> Relay_Unavailable then (outcome, tries) else retrying_from delays attempt (Suc tries) (attempt tries))"

definition retrying :: "nat \<Rightarrow> (nat \<Rightarrow> RelayOutcome) \<Rightarrow> RelayOutcome \<times> nat" where
  "retrying delays attempt = retrying_from delays attempt 1 (attempt 0)"

section \<open>The relay\<close>

record RelayLimits =
  rl_device :: "RelayDevice Limiter"
  rl_handle :: "str Limiter"
  rl_revoke :: "RelayDevice Limiter"
  rl_source :: "IpAddr Limiter"

record Relay =
  ry_environment :: ApnsHost
  ry_issuer :: Issuer
  ry_keys :: Keyring
  ry_limits :: RelayLimits
  ry_store :: Memory

definition Relay_new :: "ApnsHost \<Rightarrow> Issuer \<Rightarrow> Keyring \<Rightarrow> Memory \<Rightarrow> Rates \<Rightarrow> Relay" where
  "Relay_new environment issuer keys store rates =
     \<lparr>ry_environment = environment, ry_issuer = issuer, ry_keys = keys,
      ry_limits = \<lparr>rl_device = Limiter_new (rs_device rates), rl_handle = Limiter_new (rs_handle rates),
                   rl_revoke = Limiter_new (rs_revoke rates), rl_source = Limiter_new (rs_source rates)\<rparr>,
      ry_store = store\<rparr>"

definition source_allowed :: "Relay \<Rightarrow> IpAddr \<Rightarrow> nat \<Rightarrow> bool \<times> Relay" where
  "source_allowed self source now_ms =
     (let (l, granted) = Limiter_allow (rl_source (ry_limits self)) (source_key source) now_ms
      in (granted, self\<lparr>ry_limits := (ry_limits self)\<lparr>rl_source := l\<rparr>\<rparr>))"

definition opened :: "SealLib \<Rightarrow> Relay \<Rightarrow> str \<Rightarrow> (RelayHandle \<times> Credential, RelayReply) result" where
  "opened lib self text = (case Keyring_open lib (ry_keys self) text of
     None \<Rightarrow> Inl Reply_Refused
   | Some handle \<Rightarrow> (case Issuer_check lib (ry_issuer self) (hd_credential handle) of
       None \<Rightarrow> Inl Reply_Refused
     | Some credential \<Rightarrow> if cr_environment credential = ry_environment self then Inr (handle, credential) else Inl Reply_Refused))"

definition device_allowed :: "Relay \<Rightarrow> RelayDevice \<Rightarrow> nat \<Rightarrow> bool \<times> Relay" where
  "device_allowed self device now_ms =
     (let (l, granted) = Limiter_allow (rl_device (ry_limits self)) device now_ms
      in (granted, self\<lparr>ry_limits := (ry_limits self)\<lparr>rl_device := l\<rparr>\<rparr>))"

definition handle_allowed :: "Relay \<Rightarrow> str \<Rightarrow> nat \<Rightarrow> bool \<times> Relay" where
  "handle_allowed self ident now_ms =
     (let (l, granted) = Limiter_allow (rl_handle (ry_limits self)) ident now_ms
      in (granted, self\<lparr>ry_limits := (ry_limits self)\<lparr>rl_handle := l\<rparr>\<rparr>))"

definition revoke_allowed :: "Relay \<Rightarrow> RelayDevice \<Rightarrow> nat \<Rightarrow> bool \<times> Relay" where
  "revoke_allowed self device now_ms =
     (let (l, granted) = Limiter_allow (rl_revoke (ry_limits self)) device now_ms
      in (granted, self\<lparr>ry_limits := (ry_limits self)\<lparr>rl_revoke := l\<rparr>\<rparr>))"

text \<open>The parts of \<open>push\<close> between its locks: after the source, after the check for a revocation, and the post.\<close>

definition push_opened :: "SealLib \<Rightarrow> Relay \<Rightarrow> PushRequest \<Rightarrow> nat \<Rightarrow> (RelayHandle \<times> Credential, RelayReply) result" where
  "push_opened lib self request now_ms = (case opened lib self (pq_handle request) of
     Inl r \<Rightarrow> Inl r
   | Inr (handle, credential) \<Rightarrow>
       if cr_expires_s credential \<le> now_ms div 1000 then Inl Reply_Expired else Inr (handle, credential))"

definition push_counted :: "WebLib \<Rightarrow> Relay \<Rightarrow> PushRequest \<Rightarrow> RelayHandle \<Rightarrow> Credential \<Rightarrow> nat \<Rightarrow> (Push, RelayReply) result \<times> Relay" where
  "push_counted web self request handle credential now_ms =
     (if \<not> Kind_allows (hd_kind handle) (pq_push_type request) then (Inl Reply_Refused, self)
      else if \<not> valid_payload web (pq_payload request) \<or> \<not> valid_collapse_id (pq_collapse_id request) then (Inl Reply_Invalid, self)
      else let (granted, self) = device_allowed self (cr_device credential) now_ms
           in if \<not> granted then (Inl Reply_Limited, self)
              else let (granted, self) = handle_allowed self (hd_id handle) now_ms
                   in if \<not> granted then (Inl Reply_Limited, self)
                      else (Inr \<lparr>ps_body = str_bytes (pq_payload request), ps_collapse_id = pq_collapse_id request,
                                 ps_priority = pq_priority request, ps_push_type = pq_push_type request\<rparr>, self))"

text \<open>What the gateway answers, or \<open>None\<close> when APNs could not be reached.\<close>

type_synonym Gateway = "DeviceToken \<Rightarrow> Push \<Rightarrow> nat \<Rightarrow> Outcome option"

definition posted :: "Outcome option \<Rightarrow> RelayReply" where
  "posted answer = (case answer of Some outcome \<Rightarrow> reply outcome | None \<Rightarrow> Reply_Unavailable)"

text \<open>The whole of \<open>push\<close>, with what it posts.\<close>

definition Relay_push :: "SealLib \<Rightarrow> WebLib \<Rightarrow> Gateway \<Rightarrow> Relay \<Rightarrow> IpAddr \<Rightarrow> PushRequest \<Rightarrow> nat
    \<Rightarrow> RelayReply \<times> (DeviceToken \<times> Push) option \<times> Relay" where
  "Relay_push lib web gateway self source request now_ms =
     (let (granted, self) = source_allowed self source now_ms
      in if \<not> granted then (Reply_Limited, None, self)
         else case push_opened lib self request now_ms of
                Inl r \<Rightarrow> (r, None, self)
              | Inr (handle, credential) \<Rightarrow>
                  if Memory_is_revoked (ry_store self) (cr_device credential) (hd_id handle) then (Reply_Gone, None, self)
                  else case push_counted web self request handle credential now_ms of
                         (Inl r, self) \<Rightarrow> (r, None, self)
                       | (Inr push, self) \<Rightarrow>
                           (posted (gateway (hd_token handle) push (now_ms div 1000)), Some (hd_token handle, push), self))"

text \<open>The parts of \<open>revoke\<close>.\<close>

definition revoke_opened :: "SealLib \<Rightarrow> Relay \<Rightarrow> RevokeRequest \<Rightarrow> nat \<Rightarrow> (RelayHandle \<times> Credential, RelayReply) result" where
  "revoke_opened lib self request now_ms = (case opened lib self (rq_handle request) of
     Inl r \<Rightarrow> Inl r
   | Inr (handle, credential) \<Rightarrow>
       if cr_expires_s credential \<le> now_ms div 1000 then Inl Reply_Revoked else Inr (handle, credential))"

definition revoke_counted :: "Relay \<Rightarrow> Credential \<Rightarrow> nat \<Rightarrow> bool \<times> Relay" where
  "revoke_counted self credential now_ms =
     (let (granted, self) = device_allowed self (cr_device credential) now_ms
      in if granted then revoke_allowed self (cr_device credential) now_ms else (False, self))"

definition revoke_stored :: "Relay \<Rightarrow> RelayHandle \<Rightarrow> Credential \<Rightarrow> RelayReply \<times> Relay" where
  "revoke_stored self handle credential =
     (case Memory_revoke (ry_store self) (Revoked_Handle (hd_id handle)) (cr_expires_s credential) of
        (Inl e, store) \<Rightarrow> (Reply_Unavailable, self\<lparr>ry_store := store\<rparr>)
      | (Inr u, store) \<Rightarrow> (Reply_Revoked, self\<lparr>ry_store := store\<rparr>))"

definition Relay_revoke :: "SealLib \<Rightarrow> Relay \<Rightarrow> IpAddr \<Rightarrow> RevokeRequest \<Rightarrow> nat \<Rightarrow> RelayReply \<times> Relay" where
  "Relay_revoke lib self source request now_ms =
     (let (granted, self) = source_allowed self source now_ms
      in if \<not> granted then (Reply_Limited, self)
         else case revoke_opened lib self request now_ms of
                Inl r \<Rightarrow> (r, self)
              | Inr (handle, credential) \<Rightarrow>
                  let (granted, self) = revoke_counted self credential now_ms
                  in if \<not> granted then (Reply_Limited, self) else revoke_stored self handle credential)"

text \<open>The bodies of requests (\<open>parsed\<close>, \<open>push\<close> and \<open>revoke\<close> of \<open>web.rs\<close>).\<close>

definition parsed :: "'r option \<Rightarrow> Relay \<Rightarrow> IpAddr \<Rightarrow> nat \<Rightarrow> ('r, RelayReply) result \<times> Relay" where
  "parsed read relay source now_ms = (case read of
     Some request \<Rightarrow> (Inr request, relay)
   | None \<Rightarrow> (let (granted, relay) = source_allowed relay source now_ms
             in (Inl (if granted then Reply_Invalid else Reply_Limited), relay)))"

definition web_push :: "SealLib \<Rightarrow> WebLib \<Rightarrow> Gateway \<Rightarrow> Relay \<Rightarrow> IpAddr \<Rightarrow> bytes \<Rightarrow> nat \<Rightarrow> RelayReply \<times> (DeviceToken \<times> Push) option \<times> Relay" where
  "web_push lib web gateway relay source body now_ms = (case parsed (wl_push web body) relay source now_ms of
     (Inl r, relay) \<Rightarrow> (r, None, relay)
   | (Inr request, relay) \<Rightarrow> Relay_push lib web gateway relay source request now_ms)"

definition web_revoke :: "SealLib \<Rightarrow> WebLib \<Rightarrow> Relay \<Rightarrow> IpAddr \<Rightarrow> bytes \<Rightarrow> nat \<Rightarrow> RelayReply \<times> Relay" where
  "web_revoke lib web relay source body now_ms = (case parsed (wl_revoke web body) relay source now_ms of
     (Inl r, relay) \<Rightarrow> (r, relay)
   | (Inr request, relay) \<Rightarrow> Relay_revoke lib relay source request now_ms)"

end
