(* ===== verification/Push_Example.thy ===== *)
theory Push_Example
  imports Push_Relay
begin

text \<open>A relay on concrete packages, with one handle sealed to it, for the witnesses.\<close>

definition toy_base :: SealLib where
  "toy_base = \<lparr>sl_public = (\<lambda>key. replicate 65 4), sl_secret_ok = (\<lambda>key. True), sl_point_ok = (\<lambda>point. True),
     sl_diffie_hellman = (\<lambda>key point. []), sl_hkdf = (\<lambda>salt shared info. Some []), sl_encrypt = (\<lambda>key nonce msg aad. Some msg),
     sl_decrypt = (\<lambda>key nonce msg aad. Some msg), sl_hmac_key = (\<lambda>key. True), sl_hmac = (\<lambda>key facts. replicate 32 0),
     sl_sha256 = (\<lambda>bytes. replicate 32 0), sl_encode = map unat, sl_decode = (\<lambda>text. Some (map of_nat text)),
     sl_handle_json = (\<lambda>bytes. None)\<rparr>"

definition toy_device :: RelayDevice where "toy_device = replicate 16 7"

definition toy_credential :: str where "toy_credential = Issuer_issue toy_base [] toy_device Production 1000"

definition toy_lib :: SealLib where
  "toy_lib = toy_base\<lparr>sl_handle_json := (\<lambda>bytes. Some \<lparr>rh_credential = toy_credential, rh_id = replicate 32 97, rh_kind = chars ''alert'',
     rh_token = replicate 32 97\<rparr>)\<rparr>"

definition toy_handle :: RelayHandle where
  "toy_handle = \<lparr>hd_credential = toy_credential, hd_id = replicate 32 97, hd_kind = Kind_Alert, hd_token = replicate 32 97\<rparr>"

definition toy_sealed :: bytes where "toy_sealed = replicate 65 4 @ replicate 12 0"

definition toy_text :: str where "toy_text = key_id toy_lib [] @ 46 # sl_encode toy_lib toy_sealed"

definition toy_request :: PushRequest where
  "toy_request = \<lparr>pq_collapse_id = None, pq_handle = toy_text, pq_payload = chars ''{}'', pq_priority = High, pq_push_type = Push_Alert\<rparr>"

definition toy_web :: WebLib where
  "toy_web = \<lparr>wl_object = (\<lambda>s. True), wl_push = (\<lambda>b. None), wl_revoke = (\<lambda>b. None), wl_reason = (\<lambda>b. None)\<rparr>"

definition toy_push :: Push where
  "toy_push = \<lparr>ps_body = str_bytes (chars ''{}''), ps_collapse_id = None, ps_priority = High, ps_push_type = Push_Alert\<rparr>"

definition toy_relay :: Relay where
  "toy_relay = Relay_new Production [] (Keyring_new toy_lib [] None) [] Rates_default"

lemma toy_laws: "seal_laws toy_lib"
  by (simp add: seal_laws_def toy_lib_def toy_base_def POINT_LEN_def MAC_LEN_def comp_def)

lemma toy_issued: "hd_credential toy_handle = Issuer_issue toy_lib [] toy_device Production 1000"
  by (simp add: toy_handle_def toy_credential_def Issuer_issue_def toy_lib_def toy_base_def)

lemma str_len_ascii: "list_all (\<lambda>c. c < 128) s \<Longrightarrow> str_len s = length s \<and> str_bytes s = map of_nat s"
  by (induction s) (auto simp: str_len_def str_bytes_def encode_utf8_def)

lemma toy_reads: "handle_from_slice toy_lib [] = Some toy_handle"
proof -
  have "trim (replicate 32 97) = replicate 32 97" by (rule trim_id) (auto simp: is_whitespace_def)
  moreover have "list_all (\<lambda>c. c < 128) (replicate 32 (97 :: nat))" by (simp add: list_all_iff)
  ultimately have "DeviceToken_parse (replicate 32 97) = Inr (replicate 32 97)"
    using str_len_ascii [of "replicate 32 97"]
    by (simp add: DeviceToken_parse_def Let_def MIN_TOKEN_def MAX_TOKEN_def list_all_iff ascii_hexdigit_def str_lower_def scalar_lower_def)
  then show ?thesis by (simp add: handle_from_slice_def toy_lib_def toy_handle_def kind_named_def chars_def)
qed

lemma toy_id: "valid_id (hd_id toy_handle)"
  using str_len_ascii [of "replicate 32 97"] by (simp add: valid_id_def toy_handle_def ID_LEN_def list_all_iff)

lemma toy_seals: "seal_with toy_lib (sl_public toy_lib []) [] HANDLE_INFO [] (replicate 12 0) = Inr toy_sealed"
  by (simp add: seal_with_def cipher_def toy_lib_def toy_base_def toy_sealed_def)

lemma toy_text_len: "str_len toy_text \<le> MAX_HANDLE"
proof -
  have "hex_lower 0 = [48, 48]" by (simp add: hex_lower_def)
  then have t: "toy_text = concat (replicate 4 [48, 48]) @ 46 # replicate 65 4 @ replicate 12 0"
    by (simp add: toy_text_def key_id_def toy_lib_def toy_base_def toy_sealed_def KEY_ID_BYTES_def)
  have "list_all (\<lambda>c. c < 128) toy_text" unfolding t list_all_iff by auto
  moreover have "length toy_text = 8 + 1 + 77" unfolding t by (simp add: length_concat sum_list_replicate)
  ultimately show ?thesis using str_len_ascii [of toy_text] by (simp add: MAX_HANDLE_def)
qed

lemma toy_payload: "valid_payload toy_web (pq_payload toy_request)"
  using str_len_ascii [of "chars ''{}''"] by (simp add: valid_payload_def toy_web_def toy_request_def MAX_APNS_PAYLOAD_def chars_def)

end
