(* ===== verification/Push_Safety.thy ===== *)
theory Push_Safety
  imports Push_Example "HOL-Library.Sublist"
begin

text \<open>
  The push relay with requests that run at the same time: a request is a task, and a step of it is what the code does
  under one lock. A revocation answered before a push arrives keeps that push from APNs, pushes of a device keep to its
  rate, and a push with a fresh handle arrives.
\<close>

section \<open>Requests that run at the same time\<close>

datatype PushTask =
    Task_push IpAddr PushRequest nat
  | Task_check PushRequest nat RelayHandle Credential
  | Task_count PushRequest nat RelayHandle Credential
  | Task_post PushRequest nat RelayHandle Push
  | Task_revoke IpAddr RevokeRequest nat
  | Task_revoke_count RevokeRequest nat RelayHandle Credential
  | Task_revoke_store RevokeRequest RelayHandle Credential
  | Task_done RelayReply

text \<open>One step of a task: the relay and the task after it, and whether it posted. \<open>answer\<close> is what APNs answers a post.\<close>

fun task_step :: "SealLib \<Rightarrow> WebLib \<Rightarrow> Outcome option \<Rightarrow> PushTask \<Rightarrow> Relay \<Rightarrow> Relay \<times> PushTask" where
  "task_step lib web answer (Task_push source request now_ms) self =
     (let (granted, self) = source_allowed self source now_ms
      in if \<not> granted then (self, Task_done Reply_Limited)
         else case push_opened lib self request now_ms of
                Inl r \<Rightarrow> (self, Task_done r)
              | Inr (handle, credential) \<Rightarrow> (self, Task_check request now_ms handle credential))"
| "task_step lib web answer (Task_check request now_ms handle credential) self =
     (if Memory_is_revoked (ry_store self) (cr_device credential) (hd_id handle) then (self, Task_done Reply_Gone)
      else (self, Task_count request now_ms handle credential))"
| "task_step lib web answer (Task_count request now_ms handle credential) self =
     (case push_counted web self request handle credential now_ms of
        (Inl r, self) \<Rightarrow> (self, Task_done r)
      | (Inr push, self) \<Rightarrow> (self, Task_post request now_ms handle push))"
| "task_step lib web answer (Task_post request now_ms handle push) self = (self, Task_done (posted answer))"
| "task_step lib web answer (Task_revoke source request now_ms) self =
     (let (granted, self) = source_allowed self source now_ms
      in if \<not> granted then (self, Task_done Reply_Limited)
         else case revoke_opened lib self request now_ms of
                Inl r \<Rightarrow> (self, Task_done r)
              | Inr (handle, credential) \<Rightarrow> (self, Task_revoke_count request now_ms handle credential))"
| "task_step lib web answer (Task_revoke_count request now_ms handle credential) self =
     (let (granted, self) = revoke_counted self credential now_ms
      in if \<not> granted then (self, Task_done Reply_Limited) else (self, Task_revoke_store request handle credential))"
| "task_step lib web answer (Task_revoke_store request handle credential) self =
     (let (r, self) = revoke_stored self handle credential in (self, Task_done r))"
| "task_step lib web answer (Task_done r) self = (self, Task_done r)"

record RelayWorld =
  wo_relay :: Relay
  wo_tasks :: "PushTask list"
  wo_clock :: nat
  wo_posts :: "(nat \<times> str \<times> nat) list"

datatype RelayAction =
    Arrive_push IpAddr PushRequest
  | Arrive_revoke IpAddr RevokeRequest
  | Advance nat "Outcome option"
  | Purge
  | Tick nat

definition posts_of :: "nat \<Rightarrow> PushTask \<Rightarrow> nat \<Rightarrow> (nat \<times> str \<times> nat) list" where
  "posts_of i task clock = (case task of Task_post request now_ms handle push \<Rightarrow> [(i, pq_handle request, clock)] | _ \<Rightarrow> [])"

fun relay_act :: "SealLib \<Rightarrow> WebLib \<Rightarrow> RelayAction \<Rightarrow> RelayWorld \<Rightarrow> RelayWorld" where
  "relay_act lib web (Arrive_push source request) w = w\<lparr>wo_tasks := wo_tasks w @ [Task_push source request (wo_clock w)]\<rparr>"
| "relay_act lib web (Arrive_revoke source request) w = w\<lparr>wo_tasks := wo_tasks w @ [Task_revoke source request (wo_clock w)]\<rparr>"
| "relay_act lib web (Advance i answer) w =
     (if i < length (wo_tasks w)
      then let (relay, task) = task_step lib web answer (wo_tasks w ! i) (wo_relay w)
           in w\<lparr>wo_relay := relay, wo_tasks := (wo_tasks w)[i := task], wo_posts := wo_posts w @ posts_of i (wo_tasks w ! i) (wo_clock w)\<rparr>
      else w)"
| "relay_act lib web Purge w =
     w\<lparr>wo_relay := (wo_relay w)\<lparr>ry_store := snd (Memory_purge (ry_store (wo_relay w)) (wo_clock w div 1000))\<rparr>\<rparr>"
| "relay_act lib web (Tick ms) w = w\<lparr>wo_clock := wo_clock w + ms\<rparr>"

definition RelayWorld_new :: "Relay \<Rightarrow> nat \<Rightarrow> RelayWorld" where
  "RelayWorld_new relay clock = \<lparr>wo_relay = relay, wo_tasks = [], wo_clock = clock, wo_posts = []\<rparr>"

section \<open>What every step keeps\<close>

lemma source_keeps: "source_allowed self source now = (g, self') \<Longrightarrow> ry_environment self' = ry_environment self \<and> ry_issuer self' = ry_issuer self \<and> ry_keys self' = ry_keys self \<and> ry_store self' = ry_store self"
  by (auto simp: source_allowed_def Let_def split: prod.splits)

lemma counted_keeps: "push_counted web self request handle credential now = (r, self') \<Longrightarrow> ry_environment self' = ry_environment self \<and> ry_issuer self' = ry_issuer self \<and> ry_keys self' = ry_keys self \<and> ry_store self' = ry_store self"
  by (auto simp: push_counted_def device_allowed_def handle_allowed_def Let_def split: prod.splits if_splits)

lemma revoke_counted_keeps: "revoke_counted self credential now = (g, self') \<Longrightarrow> ry_environment self' = ry_environment self \<and> ry_issuer self' = ry_issuer self \<and> ry_keys self' = ry_keys self \<and> ry_store self' = ry_store self"
  by (auto simp: revoke_counted_def device_allowed_def revoke_allowed_def Let_def split: prod.splits if_splits)

lemma opened_cong:
  "ry_environment self' = ry_environment self \<and> ry_issuer self' = ry_issuer self \<and> ry_keys self' = ry_keys self \<and> R \<Longrightarrow> opened lib self' = opened lib self"
  by (rule ext) (simp add: opened_def cong: option.case_cong)

lemmas source_opened = opened_cong [OF source_keeps]
lemmas counted_opened = opened_cong [OF counted_keeps]
lemmas revoke_counted_opened = opened_cong [OF revoke_counted_keeps]

lemma stored_opened: "revoke_stored self handle credential = (r, self') \<Longrightarrow> opened lib self' = opened lib self"
  by (rule opened_cong [where R = True]) (auto simp: revoke_stored_def split: prod.splits sum.splits)

lemma task_step_opened:
  assumes "task_step lib web answer task self = (self', task')"
  shows "opened lib self' = opened lib self"
  using assms by (cases task) (auto simp: Let_def split: prod.splits if_splits sum.splits
    dest: source_opened [where lib = lib] counted_opened [where lib = lib] revoke_counted_opened [where lib = lib] stored_opened [where lib = lib])

lemma act_opened: "opened lib (wo_relay (relay_act lib web act w)) = opened lib (wo_relay w)"
proof (cases act)
  case (Advance i answer)
  obtain self' task' where st: "task_step lib web answer (wo_tasks w ! i) (wo_relay w) = (self', task')" by fastforce
  show ?thesis using task_step_opened [OF st] by (simp add: Advance st)
next
  case Purge
  then show ?thesis by (intro opened_cong [where R = True]) simp
qed simp_all

text \<open>The credential a task goes by is that of the handle in its request, and its time is not ahead of the clock.\<close>

definition task_ok :: "SealLib \<Rightarrow> Relay \<Rightarrow> nat \<Rightarrow> PushTask \<Rightarrow> bool" where
  "task_ok lib self clock task = (case task of
     Task_push source request now \<Rightarrow> now \<le> clock
   | Task_check request now handle credential \<Rightarrow> opened lib self (pq_handle request) = Inr (handle, credential)
   | Task_count request now handle credential \<Rightarrow> opened lib self (pq_handle request) = Inr (handle, credential)
   | Task_post request now handle push \<Rightarrow> True
   | Task_revoke source request now \<Rightarrow> now \<le> clock
   | Task_revoke_count request now handle credential \<Rightarrow> opened lib self (rq_handle request) = Inr (handle, credential)
   | Task_revoke_store request handle credential \<Rightarrow> opened lib self (rq_handle request) = Inr (handle, credential)
   | Task_done r \<Rightarrow> True)"

definition world_ok :: "SealLib \<Rightarrow> RelayWorld \<Rightarrow> bool" where
  "world_ok lib w \<longleftrightarrow> list_all (task_ok lib (wo_relay w) (wo_clock w)) (wo_tasks w)"

lemma task_ok_cong:
  assumes "task_ok lib self clock task" "opened lib self' = opened lib self" "clock \<le> clock'"
  shows "task_ok lib self' clock' task"
  using assms by (auto simp: task_ok_def split: PushTask.splits)

lemma push_opened_ok: "push_opened lib self request now = Inr (handle, credential) \<Longrightarrow> opened lib self (pq_handle request) = Inr (handle, credential)"
  by (auto simp: push_opened_def split: sum.splits prod.splits if_splits)

lemma revoke_opened_ok: "revoke_opened lib self request now = Inr (handle, credential) \<Longrightarrow> opened lib self (rq_handle request) = Inr (handle, credential)"
  by (auto simp: revoke_opened_def split: sum.splits prod.splits if_splits)

lemma task_step_ok:
  assumes "task_step lib web answer task self = (self', task')" "task_ok lib self clock task"
  shows "task_ok lib self' clock task'"
  using assms
  by (cases task) (auto simp: task_ok_def Let_def split: prod.splits if_splits sum.splits
    dest: source_opened [where lib = lib] counted_opened [where lib = lib] revoke_counted_opened [where lib = lib] push_opened_ok revoke_opened_ok)

interpretation world: preserved "relay_act lib web" "world_ok lib" for lib web
proof (unfold_locales, goal_cases)
  case (1 w act)
  have o: "opened lib (wo_relay (relay_act lib web act w)) = opened lib (wo_relay w)" by (rule act_opened)
  show ?case
  proof (cases act)
    case (Advance i answer)
    obtain self' task' where st: "task_step lib web answer (wo_tasks w ! i) (wo_relay w) = (self', task')" by fastforce
    have "task_ok lib self' (wo_clock w) t" if "i < length (wo_tasks w)" "t \<in> set ((wo_tasks w)[i := task'])" for t
    proof -
      have "t = task' \<or> t \<in> set (wo_tasks w)" using that(2) set_update_subset_insert by fastforce
      then show ?thesis using task_step_ok [OF st] task_ok_cong [of lib "wo_relay w" "wo_clock w" t self'] task_step_opened [OF st] 1 that(1)
        by (auto simp: world_ok_def list_all_iff)
    qed
    then show ?thesis using 1 by (auto simp: world_ok_def Advance st list_all_iff)
  next
    case Purge
    then show ?thesis using 1 o task_ok_cong [OF _ o, of "wo_clock w"] by (auto simp: world_ok_def list_all_iff)
  next
    case (Tick ms)
    then show ?thesis using 1 task_ok_cong [OF _ refl] by (auto simp: world_ok_def list_all_iff)
  qed (use 1 in \<open>auto simp: world_ok_def list_all_iff task_ok_def\<close>)
qed

section \<open>Revocations last\<close>

text \<open>What the relay relies on of a store: a revocation it accepted covers its handle until the date given, whatever else is revoked and purged.\<close>

locale revocations =
  fixes revoke :: "'s \<Rightarrow> Revoked \<Rightarrow> nat \<Rightarrow> (unit, 'e) result \<times> 's"
    and purge :: "'s \<Rightarrow> nat \<Rightarrow> nat \<times> 's"
    and covers :: "Revoked \<Rightarrow> nat \<Rightarrow> 's \<Rightarrow> bool"
  assumes revoke_covers: "revoke s what u = (Inr x, s') \<Longrightarrow> covers what u s'"
    and revoke_keeps: "revoke s other v = (r, s') \<Longrightarrow> covers what u s \<Longrightarrow> covers what u s'"
    and purge_keeps: "purge s now = (n, s') \<Longrightarrow> covers what u s \<Longrightarrow> now < u \<Longrightarrow> covers what u s'"
begin

text \<open>Covered until a date, or past it.\<close>

lemma purge_or_past: "purge s now = (n, s') \<Longrightarrow> covers what u s \<or> u \<le> now \<Longrightarrow> covers what u s' \<or> u \<le> now"
  using purge_keeps by (cases "now < u") auto

end

definition Memory_covers :: "Revoked \<Rightarrow> nat \<Rightarrow> Memory \<Rightarrow> bool" where
  "Memory_covers what until_s self \<longleftrightarrow> (\<exists>v \<ge> until_s. (Revoked_key what, v) \<in> set self)"

lemma update_entry: "(k, w) \<in> set (AList.update k w m)"
  by (induction m) auto

lemma update_others: "(k, v) \<in> set m \<Longrightarrow> (k, v) \<in> set (AList.update k' w m) \<or> (k' = k \<and> map_of m k = Some v)"
  by (induction m) auto

interpretation memory: revocations Memory_revoke Memory_purge Memory_covers
proof (unfold_locales, goal_cases)
  case (1 s what u x s')
  let ?new = "max u (case map_of s (Revoked_key what) of None \<Rightarrow> 0 | Some until \<Rightarrow> until)"
  have "s' = AList.update (Revoked_key what) ?new s" using 1 by (simp add: Memory_revoke_def Let_def split: if_splits)
  then show ?case using update_entry [of "Revoked_key what" ?new s] unfolding Memory_covers_def by (meson max.cobounded1)
next
  case (2 s other v r s' what u)
  from 2(2) obtain v' where v': "u \<le> v'" "(Revoked_key what, v') \<in> set s" by (auto simp: Memory_covers_def)
  let ?new = "max v (case map_of s (Revoked_key other) of None \<Rightarrow> 0 | Some until \<Rightarrow> until)"
  consider "s' = s" | "s' = AList.update (Revoked_key other) ?new s"
    using 2(1) by (auto simp: Memory_revoke_def Let_def split: if_splits)
  then show ?case
  proof cases
    case 2
    have "(Revoked_key what, v') \<in> set s' \<or> (Revoked_key what, ?new) \<in> set s' \<and> v' \<le> ?new"
      using update_others [OF v'(2), of "Revoked_key other" ?new] update_entry [of "Revoked_key other" ?new s] by (auto simp: 2)
    then show ?thesis using v'(1) unfolding Memory_covers_def by (meson order_trans)
  qed (use 2(2) in simp)
next
  case (3 s now n s' what u)
  then show ?case by (auto simp: Memory_purge_def Memory_covers_def retain_def Let_def)
qed

lemma covered_revoked: "Memory_covers (Revoked_Handle ident) u self \<Longrightarrow> Memory_is_revoked self device ident"
  by (force simp: Memory_covers_def Memory_is_revoked_def map_of_eq_None_iff)

text \<open>
  From a time on when the handle in \<open>ht\<close> is revoked until \<open>u\<close>: it is covered or the date is past, no task from \<open>n\<close> on is
  past its check for a revocation before that date, and none has posted.
\<close>

definition past_check :: "str \<Rightarrow> PushTask \<Rightarrow> bool" where
  "past_check ht task = (case task of
     Task_count request now handle credential \<Rightarrow> pq_handle request = ht
   | Task_post request now handle push \<Rightarrow> pq_handle request = ht
   | _ \<Rightarrow> False)"

definition silenced :: "SealLib \<Rightarrow> str \<Rightarrow> RelayHandle \<Rightarrow> nat \<Rightarrow> nat \<Rightarrow> RelayWorld \<Rightarrow> bool" where
  "silenced lib ht handle u n w \<longleftrightarrow> world_ok lib w \<and> (\<exists>credential. opened lib (wo_relay w) ht = Inr (handle, credential)) \<and>
     (Memory_covers (Revoked_Handle (hd_id handle)) u (ry_store (wo_relay w)) \<or> u \<le> wo_clock w div 1000) \<and>
     (\<forall>i. n \<le> i \<longrightarrow> i < length (wo_tasks w) \<longrightarrow> past_check ht (wo_tasks w ! i) \<longrightarrow> u \<le> wo_clock w div 1000) \<and>
     (\<forall>(i, text, t) \<in> set (wo_posts w). n \<le> i \<longrightarrow> text = ht \<longrightarrow> u \<le> t div 1000)"

lemma task_step_store:
  assumes "task_step lib web answer task self = (self', task')" "Memory_covers what u (ry_store self)"
  shows "Memory_covers what u (ry_store self')"
  using assms by (cases task) (auto simp: Let_def revoke_stored_def split: prod.splits if_splits sum.splits
    dest!: source_keeps counted_keeps revoke_counted_keeps dest: memory.revoke_keeps)

text \<open>A task only gets past the check of a covered handle when it was past it before.\<close>

lemma task_step_past:
  assumes "task_step lib web answer task self = (self', task')" "past_check ht task'" "task_ok lib self clock task"
    "opened lib self ht = Inr (handle, credential)"
  shows "past_check ht task \<or> \<not> Memory_covers (Revoked_Handle (hd_id handle)) u (ry_store self)"
  using assms covered_revoked
  by (cases task) (auto simp: past_check_def task_ok_def Let_def split: prod.splits if_splits sum.splits)

lemma silenced_step:
  assumes "silenced lib ht handle u n w" "wo_relay w' = self'" "task_step lib web answer (wo_tasks w ! i) (wo_relay w) = (self', task')"
    "wo_tasks w' = (wo_tasks w)[i := task']" "wo_clock w' = wo_clock w" "i < length (wo_tasks w)"
    "n \<le> j" "j < length (wo_tasks w)" "past_check ht (wo_tasks w' ! j)"
  shows "u \<le> wo_clock w div 1000"
proof (cases "j = i")
  case True
  obtain credential where o: "opened lib (wo_relay w) ht = Inr (handle, credential)" using assms(1) by (auto simp: silenced_def)
  have "task_ok lib (wo_relay w) (wo_clock w) (wo_tasks w ! i)" using assms(1,6) by (simp add: silenced_def world_ok_def list_all_length)
  then have "past_check ht (wo_tasks w ! i) \<or> \<not> Memory_covers (Revoked_Handle (hd_id handle)) u (ry_store (wo_relay w))"
    using task_step_past [OF assms(3) _ _ o] assms(4,6,9) True by simp
  then show ?thesis using assms(1,6,7) True by (auto simp: silenced_def)
next
  case False
  then show ?thesis using assms(1,4,7,8,9) by (auto simp: silenced_def)
qed

lemma silencedI:
  assumes "silenced lib ht handle u n w" "w' = relay_act lib web act w"
    "Memory_covers (Revoked_Handle (hd_id handle)) u (ry_store (wo_relay w)) \<or> u \<le> wo_clock w div 1000 \<Longrightarrow>
      Memory_covers (Revoked_Handle (hd_id handle)) u (ry_store (wo_relay w')) \<or> u \<le> wo_clock w' div 1000"
    "\<And>i. n \<le> i \<Longrightarrow> i < length (wo_tasks w') \<Longrightarrow> past_check ht (wo_tasks w' ! i) \<Longrightarrow> u \<le> wo_clock w' div 1000"
    "\<And>i ht' t. (i, ht', t) \<in> set (wo_posts w') - set (wo_posts w) \<Longrightarrow> n \<le> i \<Longrightarrow> ht' = ht \<Longrightarrow> u \<le> t div 1000"
  shows "silenced lib ht handle u n w'"
proof -
  note s = assms(1) [unfolded silenced_def]
  have "world_ok lib w'" using s assms(2) world.kept by blast
  moreover have "\<exists>credential. opened lib (wo_relay w') ht = Inr (handle, credential)" using s by (simp add: assms(2) act_opened)
  moreover have "u \<le> t div 1000" if "(i, ht', t) \<in> set (wo_posts w')" "n \<le> i" "ht' = ht" for i ht' t
    using s assms(5) [of i ht' t] that by (cases "(i, ht', t) \<in> set (wo_posts w)") auto
  moreover have "Memory_covers (Revoked_Handle (hd_id handle)) u (ry_store (wo_relay w')) \<or> u \<le> wo_clock w' div 1000"
    using s assms(3) by blast
  ultimately show ?thesis using assms(4) unfolding silenced_def by auto
qed

interpretation silence: preserved "relay_act lib web" "silenced lib ht handle u n" for lib web ht handle u n
proof (unfold_locales, goal_cases)
  case (1 w act)
  have past: "n \<le> i \<Longrightarrow> i < length (wo_tasks w) \<Longrightarrow> past_check ht (wo_tasks w ! i) \<Longrightarrow> u \<le> wo_clock w div 1000" for i
    using 1 by (simp add: silenced_def)
  show ?case
  proof (cases act)
    case (Advance i answer)
    show ?thesis
    proof (cases "i < length (wo_tasks w)")
      case True
      obtain self' task' where st: "task_step lib web answer (wo_tasks w ! i) (wo_relay w) = (self', task')" by fastforce
      show ?thesis
      proof (rule silencedI [OF 1 refl], goal_cases)
        case 1
        then show ?case using task_step_store [OF st] by (auto simp: Advance True st)
      next
        case (2 j)
        then show ?case using silenced_step [OF \<open>silenced lib ht handle u n w\<close> _ st _ _ True, of "relay_act lib web act w" j] by (simp add: Advance True st)
      next
        case (3 j ht' t)
        then have "past_check ht (wo_tasks w ! i)" "t = wo_clock w" "j = i"
          by (auto simp: Advance True st posts_of_def past_check_def split: PushTask.splits)
        then show ?case using past True 3(2) by simp
      qed
    qed (use 1 in \<open>simp add: Advance\<close>)
  next
    case Purge
    obtain k m where "Memory_purge (ry_store (wo_relay w)) (wo_clock w div 1000) = (k, m)" by fastforce
    then show ?thesis using past by (intro silencedI [OF 1 refl]) (auto simp: Purge dest: memory.purge_or_past)
  next
    case (Tick ms)
    have "u \<le> wo_clock w div 1000 \<Longrightarrow> u \<le> (wo_clock w + ms) div 1000" by (meson div_le_mono le_add1 order_trans)
    then show ?thesis using past by (intro silencedI [OF 1 refl]) (auto simp: Tick)
  qed (rule silencedI [OF 1 refl]; use past in \<open>auto simp: nth_append past_check_def split: if_splits\<close>)+
qed

text \<open>The task of a revocation that is not answered yet.\<close>

definition revokes :: "PushTask \<Rightarrow> str \<Rightarrow> bool" where
  "revokes task ht = (case task of
     Task_revoke source request now \<Rightarrow> rq_handle request = ht
   | Task_revoke_count request now handle credential \<Rightarrow> rq_handle request = ht
   | Task_revoke_store request handle credential \<Rightarrow> rq_handle request = ht
   | _ \<Rightarrow> False)"

lemma answered_covers:
  assumes "task_step lib web answer task self = (self', Task_done Reply_Revoked)" "revokes task ht" "task_ok lib self clock task"
  shows "\<exists>handle credential. opened lib self ht = Inr (handle, credential) \<and>
    (Memory_covers (Revoked_Handle (hd_id handle)) (cr_expires_s credential) (ry_store self') \<or> cr_expires_s credential \<le> clock div 1000)"
proof (cases task)
  case (Task_revoke source request now)
  obtain g self1 where s1: "source_allowed self source now = (g, self1)" by fastforce
  have "g" "revoke_opened lib self1 request now = Inl Reply_Revoked" using assms(1) s1 by (auto simp: Task_revoke split: if_splits sum.splits prod.splits)
  then obtain handle credential where "opened lib self1 (rq_handle request) = Inr (handle, credential)" "cr_expires_s credential \<le> now div 1000"
    by (auto simp: revoke_opened_def opened_def split: sum.splits prod.splits if_splits option.splits)
  moreover have "now div 1000 \<le> clock div 1000" using assms(3) by (simp add: Task_revoke task_ok_def div_le_mono)
  ultimately show ?thesis using assms(2) source_opened [OF s1, of lib] by (auto simp: Task_revoke revokes_def)
next
  case (Task_revoke_store request handle credential)
  have "opened lib self ht = Inr (handle, credential)" using assms(2,3) by (simp add: Task_revoke_store revokes_def task_ok_def)
  moreover have "Memory_covers (Revoked_Handle (hd_id handle)) (cr_expires_s credential) (ry_store self')"
    using assms(1) by (auto simp: Task_revoke_store revoke_stored_def split: prod.splits sum.splits dest: memory.revoke_covers)
  ultimately show ?thesis by blast
qed (use assms in \<open>auto simp: revokes_def split: prod.splits if_splits\<close>)

definition posts_known :: "RelayWorld \<Rightarrow> bool" where
  "posts_known w \<longleftrightarrow> (\<forall>(k, h, c) \<in> set (wo_posts w). k < length (wo_tasks w))"

interpretation known: preserved "relay_act lib web" posts_known for lib web
proof (unfold_locales, goal_cases)
  case (1 w act)
  then show ?case by (cases act) (auto simp: posts_known_def posts_of_def split: PushTask.splits prod.splits)
qed

lemma posts_early: "(k, h, c) \<in> set (wo_posts (fold (relay_act lib web) acts (RelayWorld_new relay start))) \<Longrightarrow>
    k < length (wo_tasks (fold (relay_act lib web) acts (RelayWorld_new relay start)))"
  using known.run_kept [of "RelayWorld_new relay start" lib web acts] by (auto simp: posts_known_def RelayWorld_new_def)

text \<open>A task run alone to its end.\<close>

fun run_task :: "nat \<Rightarrow> SealLib \<Rightarrow> WebLib \<Rightarrow> Outcome option \<Rightarrow> PushTask \<Rightarrow> Relay \<Rightarrow> Relay \<times> PushTask" where
  "run_task 0 lib web answer task self = (self, task)"
| "run_task (Suc n) lib web answer task self =
     (let (self, task) = task_step lib web answer task self in run_task n lib web answer task self)"

lemma run_task_done [simp]: "run_task n lib web answer (Task_done r) self = (self, Task_done r)"
  by (induction n) auto

section \<open>The rate of a device\<close>

text \<open>Requests one after another, in the order of their times: for every post its device and time, and the relay then.\<close>

datatype RelayCall = Call_push IpAddr PushRequest nat | Call_revoke IpAddr RevokeRequest nat | Call_purge nat

fun call_time :: "RelayCall \<Rightarrow> nat" where
  "call_time (Call_push source request now_ms) = now_ms"
| "call_time (Call_revoke source request now_ms) = now_ms"
| "call_time (Call_purge now_ms) = now_ms"

fun serve_call :: "SealLib \<Rightarrow> WebLib \<Rightarrow> Gateway \<Rightarrow> RelayCall \<Rightarrow> Relay \<Rightarrow> (RelayDevice \<times> nat) list \<times> Relay" where
  "serve_call lib web gateway (Call_push source request now_ms) self =
     (let (r, post, self') = Relay_push lib web gateway self source request now_ms
      in (case (post, opened lib self (pq_handle request)) of
            (Some p, Inr (handle, credential)) \<Rightarrow> [(cr_device credential, now_ms)] | _ \<Rightarrow> [], self'))"
| "serve_call lib web gateway (Call_revoke source request now_ms) self = ([], snd (Relay_revoke lib self source request now_ms))"
| "serve_call lib web gateway (Call_purge now_ms) self = ([], self\<lparr>ry_store := snd (Memory_purge (ry_store self) (now_ms div 1000))\<rparr>)"

fun serve :: "SealLib \<Rightarrow> WebLib \<Rightarrow> Gateway \<Rightarrow> RelayCall list \<Rightarrow> Relay \<Rightarrow> (RelayDevice \<times> nat) list \<times> Relay" where
  "serve lib web gateway [] self = ([], self)"
| "serve lib web gateway (c # cs) self =
     (let (posts, self) = serve_call lib web gateway c self; (later, self) = serve lib web gateway cs self in (posts @ later, self))"

text \<open>A request asks the limiter of devices at most once, at its own time, and posts only when that is granted.\<close>

definition asks :: "RelayDevice Limiter \<Rightarrow> (RelayDevice \<times> nat) list \<Rightarrow> nat list \<Rightarrow> (RelayDevice \<times> nat) list \<Rightarrow> RelayDevice Limiter \<Rightarrow> bool" where
  "asks l cs ts posts l' \<longleftrightarrow> l' = fst (calls Limiter_allow l cs) \<and> subseq (map snd cs) ts \<and>
     (\<forall>d. grants d posts \<le> grants d (snd (calls Limiter_allow l cs)))"

lemma push_asks:
  assumes "serve_call lib web gateway (Call_push source request now) self = (posts, self')"
  shows "\<exists>cs. asks (rl_device (ry_limits self)) cs [now] posts (rl_device (ry_limits self'))"
proof -
  obtain g self1 where s1: "source_allowed self source now = (g, self1)" by fastforce
  have l1: "rl_device (ry_limits self1) = rl_device (ry_limits self)" using s1 by (auto simp: source_allowed_def split: prod.splits)
  note o1 = source_opened [OF s1, of lib]
  show ?thesis
  proof (cases "\<exists>handle credential. g \<and> push_opened lib self1 request now = Inr (handle, credential) \<and>
      \<not> Memory_is_revoked (ry_store self1) (cr_device credential) (hd_id handle)")
    case True
    then obtain handle credential where t: "g" "push_opened lib self1 request now = Inr (handle, credential)"
      "\<not> Memory_is_revoked (ry_store self1) (cr_device credential) (hd_id handle)" by blast
    obtain r self2 where s2: "push_counted web self1 request handle credential now = (r, self2)" by fastforce
    have o: "opened lib self (pq_handle request) = Inr (handle, credential)" using push_opened_ok [OF t(2)] by (simp add: o1)
    have p: "posts = (case r of Inl e \<Rightarrow> [] | Inr push \<Rightarrow> [(cr_device credential, now)])" "self' = self2"
      using assms s1 t s2 o by (auto simp: Relay_push_def split: sum.splits)
    obtain l2 g2 where d: "Limiter_allow (rl_device (ry_limits self)) (cr_device credential) now = (l2, g2)" by fastforce
    have "(rl_device (ry_limits self2) = rl_device (ry_limits self) \<and> (\<exists>e. r = Inl e)) \<or>
        (rl_device (ry_limits self2) = l2 \<and> (g2 \<or> (\<exists>e. r = Inl e)))"
      using s2 d l1 by (auto simp: push_counted_def device_allowed_def handle_allowed_def Let_def split: if_splits prod.splits)
    then consider "rl_device (ry_limits self2) = rl_device (ry_limits self)" "\<exists>e. r = Inl e"
      | "rl_device (ry_limits self2) = l2" "g2 \<or> (\<exists>e. r = Inl e)" by blast
    then show ?thesis
    proof cases
      case 1
      then show ?thesis by (intro exI [of _ "[]"]) (auto simp: asks_def p grants_def)
    next
      case 2
      then show ?thesis by (intro exI [of _ "[(cr_device credential, now)]"]) (auto simp: asks_def p d grants_def split: sum.splits)
    qed
  next
    case False
    then have "posts = [] \<and> self' = self1" using assms s1 by (auto simp: Relay_push_def split: sum.splits if_splits)
    then show ?thesis using l1 by (intro exI [of _ "[]"]) (auto simp: asks_def grants_def)
  qed
qed

lemma revoke_asks:
  assumes "Relay_revoke lib self source request now = (r, self')"
  shows "\<exists>cs. asks (rl_device (ry_limits self)) cs [now] [] (rl_device (ry_limits self'))"
proof -
  obtain g self1 where s1: "source_allowed self source now = (g, self1)" by fastforce
  have l1: "rl_device (ry_limits self1) = rl_device (ry_limits self)" using s1 by (auto simp: source_allowed_def split: prod.splits)
  have none: ?thesis if "self' = self1" using that l1 by (intro exI [of _ "[]"]) (auto simp: asks_def grants_def)
  show ?thesis
  proof (cases "g")
    case True
    show ?thesis
    proof (cases "revoke_opened lib self1 request now")
      case (Inl e)
      then show ?thesis using assms s1 True none by (auto simp: Relay_revoke_def)
    next
      case (Inr hc)
      obtain handle credential where hc: "hc = (handle, credential)" by (cases hc)
      obtain l2 g2 where d: "Limiter_allow (rl_device (ry_limits self)) (cr_device credential) now = (l2, g2)" by fastforce
      have "rl_device (ry_limits self') = l2"
        using assms s1 True Inr hc d l1
        by (auto simp: Relay_revoke_def revoke_counted_def device_allowed_def revoke_allowed_def revoke_stored_def Let_def split: if_splits prod.splits sum.splits)
      then show ?thesis by (intro exI [of _ "[(cr_device credential, now)]"]) (auto simp: asks_def d grants_def)
    qed
  qed (use assms s1 none in \<open>auto simp: Relay_revoke_def\<close>)
qed

lemma calls_append: "calls allow s (xs @ ys) = (fst (calls allow (fst (calls allow s xs)) ys), snd (calls allow s xs) @ snd (calls allow (fst (calls allow s xs)) ys))"
  by (induction xs arbitrary: s) (auto simp: Let_def split_beta)

lemma asks_append:
  assumes "asks l cs ts posts l1" "asks l1 cs' ts' posts' l2"
  shows "asks l (cs @ cs') (ts @ ts') (posts @ posts') l2"
  using assms by (auto simp: asks_def calls_append grants_def intro: list_emb_append_mono add_mono)

lemma subseq_members: "subseq xs ys \<Longrightarrow> set xs \<subseteq> set ys"
  by (induction rule: list_emb.induct) auto

lemma sorted_subseq_list: "subseq xs ys \<Longrightarrow> sorted ys \<Longrightarrow> sorted (xs :: nat list)"
  by (induction rule: list_emb.induct) (auto dest: subseq_members)

lemma serve_asks:
  assumes "serve lib web gateway cs self = (posts, self')"
  shows "\<exists>ks. asks (rl_device (ry_limits self)) ks (map call_time cs) posts (rl_device (ry_limits self'))"
  using assms
proof (induction cs arbitrary: self posts)
  case Nil
  then show ?case by (intro exI [of _ "[]"]) (auto simp: asks_def)
next
  case (Cons c cs)
  obtain p1 self1 where c: "serve_call lib web gateway c self = (p1, self1)" by fastforce
  obtain p2 where rest: "serve lib web gateway cs self1 = (p2, self')" "posts = p1 @ p2"
    using Cons.prems c by (auto simp: Let_def split: prod.splits)
  have "\<exists>ks. asks (rl_device (ry_limits self)) ks [call_time c] p1 (rl_device (ry_limits self1))"
  proof (cases c)
    case (Call_push source request now)
    then show ?thesis using push_asks c by simp
  next
    case (Call_revoke source request now)
    then show ?thesis using revoke_asks [of lib self source request now] c by (auto simp: prod_eq_iff)
  next
    case (Call_purge now)
    then show ?thesis using c by (intro exI [of _ "[]"]) (auto simp: asks_def)
  qed
  then show ?case using Cons.IH [OF rest(1)] asks_append rest(2) by fastforce
qed

section \<open>Fresh handles\<close>

lemma hex_lower_dot: "46 \<notin> set (hex_lower b)"
  by (auto simp: hex_lower_def Let_def)

lemma key_id_dot: "46 \<notin> set (key_id lib key)"
  using hex_lower_dot by (auto simp: key_id_def)

lemma handle_opens:
  assumes "seal_laws lib" "length nonce = NONCE_LEN" "seal_with lib (sl_public lib key) json HANDLE_INFO ephemeral nonce = Inr sealed"
    "handle_from_slice lib json = Some handle" "valid_id (hd_id handle)" "str_len (key_id lib key @ 46 # sl_encode lib sealed) \<le> MAX_HANDLE"
    "key = current \<or> (previous = Some key \<and> key_id lib key \<noteq> key_id lib current)"
  shows "Keyring_open lib (Keyring_new lib current previous) (key_id lib key @ 46 # sl_encode lib sealed) = Some handle"
proof -
  have "\<exists>i. List.find (\<lambda>(ident, k). ident = key_id lib key) (Keyring_new lib current previous) = Some (i, key)"
    using assms(7) by (auto simp: Keyring_new_def)
  moreover have "sl_decode lib (sl_encode lib sealed) = Some sealed" using assms(1) by (simp add: seal_laws_def)
  ultimately show ?thesis
    using assms(4-6) open_sealed [OF assms(1-3)] split_once_app [OF key_id_dot, of lib key] by (auto simp: Keyring_open_def)
qed

lemma first_grant: "1 \<le> rt_burst rate \<Longrightarrow> snd (Limiter_allow (Limiter_new rate) k now)"
  by (simp add: Limiter_allow_def Limiter_new_def Limiter_bounded_def MAX_KEYS_def refilled_def u64_saturating_add_def u64_saturating_mul_def
      u64_mul_def MINUTE_MS_def U64_MAX_def min_def Let_def)

lemma handle_posts:
  assumes "seal_laws lib" "length device = DEVICE_LEN" "issued_s + LIFETIME_S \<le> U64_MAX" "now_ms div 1000 < issued_s + LIFETIME_S"
    "handle_from_slice lib json = Some handle" "hd_credential handle = Issuer_issue lib issuer device environment issued_s" "valid_id (hd_id handle)"
    "seal_with lib (sl_public lib key) json HANDLE_INFO ephemeral nonce = Inr sealed" "length nonce = NONCE_LEN"
    "key = current \<or> (previous = Some key \<and> key_id lib key \<noteq> key_id lib current)"
    "pq_handle request = key_id lib key @ 46 # sl_encode lib sealed" "str_len (pq_handle request) \<le> MAX_HANDLE"
    "Kind_allows (hd_kind handle) (pq_push_type request)" "valid_payload web (pq_payload request)" "valid_collapse_id (pq_collapse_id request)"
    "\<not> Memory_is_revoked store device (hd_id handle)"
    "1 \<le> rt_burst (rs_source rates)" "1 \<le> rt_burst (rs_device rates)" "1 \<le> rt_burst (rs_handle rates)"
    "push = \<lparr>ps_body = str_bytes (pq_payload request), ps_collapse_id = pq_collapse_id request, ps_priority = pq_priority request, ps_push_type = pq_push_type request\<rparr>"
  shows "\<exists>relay'. Relay_push lib web gateway (Relay_new environment issuer (Keyring_new lib current previous) store rates) source request now_ms =
    (posted (gateway (hd_token handle) push (now_ms div 1000)), Some (hd_token handle, push), relay')"
proof -
  let ?relay = "Relay_new environment issuer (Keyring_new lib current previous) store rates"
  let ?c = "\<lparr>cr_device = device, cr_environment = environment, cr_expires_s = issued_s + LIFETIME_S\<rparr>"
  obtain relay1 where r1: "source_allowed ?relay source now_ms = (True, relay1)" "rl_device (ry_limits relay1) = Limiter_new (rs_device rates)"
      "rl_handle (ry_limits relay1) = Limiter_new (rs_handle rates)"
    using first_grant [OF assms(17), of "source_key source" now_ms] by (auto simp: source_allowed_def Relay_new_def split_beta)
  have "opened lib ?relay (pq_handle request) = Inr (handle, ?c)"
    using handle_opens [OF assms(1,9,8,5,7) _ assms(10)] assms(6,11,12) check_issued [OF assms(1-3)] by (simp add: opened_def Relay_new_def)
  then have open1: "push_opened lib relay1 request now_ms = Inr (handle, ?c)"
    using assms(4) source_opened [OF r1(1), of lib] by (simp add: push_opened_def)
  have "ry_store relay1 = store" using source_keeps [OF r1(1)] by (simp add: Relay_new_def)
  moreover obtain relay2 where "push_counted web relay1 request handle ?c now_ms = (Inr push, relay2)"
    using assms(13-15,20) r1(2,3) first_grant [OF assms(18), of device now_ms] first_grant [OF assms(19), of "hd_id handle" now_ms]
    by (auto simp: push_counted_def device_allowed_def handle_allowed_def split_beta)
  ultimately show ?thesis using r1(1) open1 assms(16) by (simp add: Relay_push_def)
qed

section \<open>An example\<close>

definition toy_claim :: Credential where
  "toy_claim = \<lparr>cr_device = toy_device, cr_environment = Production, cr_expires_s = 1000 + LIFETIME_S\<rparr>"

lemma toy_limits: "1000 + LIFETIME_S \<le> U64_MAX" "length toy_device = DEVICE_LEN"
  by (simp_all add: LIFETIME_S_def U64_MAX_def toy_device_def DEVICE_LEN_def)

lemma toy_opens: "opened toy_lib toy_relay toy_text = Inr (toy_handle, toy_claim)"
proof -
  have "Keyring_open toy_lib (Keyring_new toy_lib [] None) toy_text = Some toy_handle"
    using handle_opens [OF toy_laws _ toy_seals toy_reads toy_id, of "[]" None] toy_text_len by (simp add: toy_text_def NONCE_LEN_def)
  then show ?thesis using check_issued [OF toy_laws toy_limits(2,1), of "[]" Production] toy_issued
    by (simp add: opened_def toy_relay_def Relay_new_def toy_claim_def)
qed

lemma toy_posts:
  "\<exists>relay'. Relay_push toy_lib toy_web gateway toy_relay (V4 1) toy_request 2000000 =
     (posted (gateway (hd_token toy_handle) toy_push 2000), Some (hd_token toy_handle, toy_push), relay')"
proof -
  have "\<exists>relay'. Relay_push toy_lib toy_web gateway (Relay_new Production [] (Keyring_new toy_lib [] None) [] Rates_default) (V4 1) toy_request 2000000 =
     (posted (gateway (hd_token toy_handle) toy_push (2000000 div 1000)), Some (hd_token toy_handle, toy_push), relay')"
    by (rule handle_posts [OF toy_laws toy_limits(2,1) _ toy_reads toy_issued toy_id toy_seals, where previous = None])
      (use toy_text_len toy_payload in \<open>simp_all add: LIFETIME_S_def NONCE_LEN_def toy_request_def toy_text_def toy_handle_def Kind_allows_def
        valid_collapse_id_def Memory_is_revoked_def Rates_default_def toy_push_def\<close>)
  then show ?thesis by (simp add: toy_relay_def)
qed

definition toy_acts :: "RelayAction list" where
  "toy_acts = [Arrive_revoke (V4 1) \<lparr>rq_handle = toy_text\<rparr>, Advance 0 None, Advance 0 None]"

lemma toy_revoking:
  obtains relay where "fold (relay_act toy_lib toy_web) toy_acts (RelayWorld_new toy_relay 2000000) =
    \<lparr>wo_relay = relay, wo_tasks = [Task_revoke_store \<lparr>rq_handle = toy_text\<rparr> toy_handle toy_claim], wo_clock = 2000000, wo_posts = []\<rparr>" "ry_store relay = []"
proof -
  have burst: "1 \<le> rt_burst (rs_source Rates_default)" "1 \<le> rt_burst (rs_device Rates_default)" "1 \<le> rt_burst (rs_revoke Rates_default)"
    by (simp_all add: Rates_default_def)
  obtain relay1 where r1: "source_allowed toy_relay (V4 1) 2000000 = (True, relay1)" "rl_device (ry_limits relay1) = Limiter_new (rs_device Rates_default)"
      "rl_revoke (ry_limits relay1) = Limiter_new (rs_revoke Rates_default)"
    using first_grant [OF burst(1), of "source_key (V4 1)" 2000000] by (auto simp: source_allowed_def toy_relay_def Relay_new_def split_beta)
  have store: "ry_store relay1 = []" using source_keeps [OF r1(1)] by (simp add: toy_relay_def Relay_new_def)
  have o: "revoke_opened toy_lib relay1 \<lparr>rq_handle = toy_text\<rparr> 2000000 = Inr (toy_handle, toy_claim)"
    using toy_opens source_opened [OF r1(1), of toy_lib] by (simp add: revoke_opened_def toy_claim_def LIFETIME_S_def)
  obtain relay2 where r2: "revoke_counted relay1 toy_claim 2000000 = (True, relay2)"
    using r1(2,3) first_grant [OF burst(2), of toy_device 2000000] first_grant [OF burst(3), of toy_device 2000000]
    by (auto simp: revoke_counted_def device_allowed_def revoke_allowed_def toy_claim_def split_beta)
  have "ry_store relay2 = []" using revoke_counted_keeps [OF r2] store by simp
  then show ?thesis using that [of relay2] r1(1) o r2 by (simp add: toy_acts_def RelayWorld_new_def posts_of_def)
qed

section \<open>Properties\<close>

text \<open>
  C16. Once a revocation has been answered, a push with the same handle that arrives later never reaches APNs while the
  handle's credential lasts, however requests, purges and the passing of time come between their steps.
\<close>

theorem revoked_handle_silent:
  assumes "w0 = fold (relay_act lib web) acts (RelayWorld_new relay start)" "i < length (wo_tasks w0)" "revokes (wo_tasks w0 ! i) ht"
    "w1 = relay_act lib web (Advance i answer) w0" "wo_tasks w1 ! i = Task_done Reply_Revoked"
  shows "\<exists>handle credential. opened lib relay ht = Inr (handle, credential) \<and>
    (\<forall>(j, h, t) \<in> set (wo_posts (fold (relay_act lib web) later w1)).
       length (wo_tasks w0) \<le> j \<longrightarrow> h = ht \<longrightarrow> cr_expires_s credential \<le> t div 1000)"
proof -
  have ok: "world_ok lib w0" unfolding assms(1) by (rule world.run_kept) (simp add: world_ok_def RelayWorld_new_def)
  have start: "opened lib (wo_relay w0) = opened lib relay"
    unfolding assms(1) by (induction acts rule: rev_induct) (simp_all add: RelayWorld_new_def act_opened)
  have early: "k < length (wo_tasks w0)" if "(k, h, c) \<in> set (wo_posts w0)" for k h c
    using posts_early that unfolding assms(1) by blast
  obtain self' task' where st: "task_step lib web answer (wo_tasks w0 ! i) (wo_relay w0) = (self', task')" by fastforce
  then have "task' = Task_done Reply_Revoked" using assms(2,4,5) by simp
  then obtain handle credential where c: "opened lib (wo_relay w0) ht = Inr (handle, credential)"
    "Memory_covers (Revoked_Handle (hd_id handle)) (cr_expires_s credential) (ry_store self') \<or> cr_expires_s credential \<le> wo_clock w0 div 1000"
    using answered_covers [OF _ assms(3), of lib web answer "wo_relay w0" self' "wo_clock w0"] st ok assms(2) by (auto simp: world_ok_def list_all_length)
  have "silenced lib ht handle (cr_expires_s credential) (length (wo_tasks w0)) w1"
    using world.kept [OF ok, of web "Advance i answer"] c act_opened [of lib web "Advance i answer" w0] assms(2,3) early
    unfolding silenced_def assms(4) by (auto simp: st posts_of_def revokes_def split: PushTask.splits dest: leD)
  then have "silenced lib ht handle (cr_expires_s credential) (length (wo_tasks w0)) (fold (relay_act lib web) later w1)" by (rule silence.run_kept)
  then show ?thesis using c(1) start unfolding silenced_def by auto
qed


theorem revoked_handle_silent_witness:
  "\<exists>w0. w0 = fold (relay_act toy_lib toy_web) toy_acts (RelayWorld_new toy_relay 2000000) \<and>
     wo_tasks (relay_act toy_lib toy_web (Advance 0 None) w0) ! 0 = Task_done Reply_Revoked \<and>
     (\<exists>handle credential. opened toy_lib toy_relay toy_text = Inr (handle, credential) \<and>
       (\<forall>(j, h, t) \<in> set (wo_posts (fold (relay_act toy_lib toy_web) [Arrive_push (V4 1) toy_request, Advance 1 None, Advance 1 None]
            (relay_act toy_lib toy_web (Advance 0 None) w0))).
          length (wo_tasks w0) \<le> j \<longrightarrow> h = toy_text \<longrightarrow> cr_expires_s credential \<le> t div 1000))"
proof -
  obtain relay where w: "fold (relay_act toy_lib toy_web) toy_acts (RelayWorld_new toy_relay 2000000) =
    \<lparr>wo_relay = relay, wo_tasks = [Task_revoke_store \<lparr>rq_handle = toy_text\<rparr> toy_handle toy_claim], wo_clock = 2000000, wo_posts = []\<rparr>" "ry_store relay = []"
    by (rule toy_revoking)
  let ?w0 = "fold (relay_act toy_lib toy_web) toy_acts (RelayWorld_new toy_relay 2000000)"
  have answered: "wo_tasks (relay_act toy_lib toy_web (Advance 0 None) ?w0) ! 0 = Task_done Reply_Revoked"
    unfolding w(1) using w(2) by (simp add: revoke_stored_def Memory_revoke_def MAX_MEMORY_def Let_def)
  have "0 < length (wo_tasks ?w0)" "revokes (wo_tasks ?w0 ! 0) toy_text" unfolding w(1) by (simp_all add: revokes_def)
  then show ?thesis
    using revoked_handle_silent [OF refl _ _ refl answered, of toy_text "[Arrive_push (V4 1) toy_request, Advance 1 None, Advance 1 None]"] answered by blast
qed

text \<open>
  C31. The requests of one device, however many handles it makes and addresses they come from, reach APNs at most as
  often as its burst and its rate times the span allow, when they are handled in the order of their times.
\<close>

theorem device_rate_bound:
  assumes "rt_burst (rs_device rates) \<le> U32_MAX" "b * rt_per_minute (rs_device rates) * 1000 \<le> U64_MAX"
    "sorted (map call_time (earlier @ window))" "\<forall>c \<in> set earlier. call_time c \<le> a"
    "\<forall>c \<in> set window. a \<le> call_time c \<and> call_time c \<le> b" "a \<le> b"
    "relay = snd (serve lib web gateway earlier (Relay_new environment issuer keys store rates))"
  shows "grants d (fst (serve lib web gateway window relay)) \<le>
    rt_burst (rs_device rates) + (b - a) * rt_per_minute (rs_device rates) div MINUTE_MS"
proof -
  let ?new = "Relay_new environment issuer keys store rates"
  obtain p1 p2 relay2 where run: "serve lib web gateway earlier ?new = (p1, relay)" "serve lib web gateway window relay = (p2, relay2)"
    using assms(7) by (metis prod.collapse)
  obtain ks where ks: "asks (Limiter_bounded (rs_device rates) MAX_KEYS) ks (map call_time earlier) p1 (rl_device (ry_limits relay))"
    using serve_asks [OF run(1)] by (auto simp: Relay_new_def Limiter_new_def)
  obtain ls where ls: "asks (rl_device (ry_limits relay)) ls (map call_time window) p2 (rl_device (ry_limits relay2))"
    using serve_asks [OF run(2)] by blast
  have sub: "subseq (map snd ks) (map call_time earlier)" "subseq (map snd ls) (map call_time window)" using ks ls by (simp_all add: asks_def)
  have "subseq (map snd (ks @ ls)) (map call_time (earlier @ window))" using sub by (simp add: list_emb_append_mono)
  then have "sorted (map snd (ks @ ls))" using assms(3) by (rule sorted_subseq_list)
  moreover have "\<forall>t \<in> snd ` set ks. t \<le> a" using subseq_members [OF sub(1)] assms(4) by fastforce
  moreover have "\<forall>t \<in> snd ` set ls. a \<le> t \<and> t \<le> b" using subseq_members [OF sub(2)] assms(5) by fastforce
  ultimately have "grants d (snd (calls Limiter_allow (rl_device (ry_limits relay)) ls)) \<le>
      rt_burst (rs_device rates) + (b - a) * rt_per_minute (rs_device rates) div MINUTE_MS"
    using relay_calls_bound [OF assms(1,2) _ _ _ assms(6), of ks ls "rl_device (ry_limits relay)" MAX_KEYS d] ks by (simp add: asks_def)
  moreover have "grants d p2 \<le> grants d (snd (calls Limiter_allow (rl_device (ry_limits relay)) ls))" using ls by (simp add: asks_def)
  ultimately show ?thesis by (simp add: run(2))
qed

theorem device_rate_bound_witness:
  "grants toy_device (fst (serve toy_lib toy_web (\<lambda>t p s. None) [Call_push (V4 1) toy_request 2000000] toy_relay)) = 1 \<and>
   grants toy_device (fst (serve toy_lib toy_web (\<lambda>t p s. None) [Call_push (V4 1) toy_request 2000000] toy_relay)) \<le>
     rt_burst (rs_device Rates_default) + (2000000 - 0) * rt_per_minute (rs_device Rates_default) div MINUTE_MS"
proof -
  let ?call = "[Call_push (V4 1) toy_request 2000000]"
  have "grants toy_device (fst (serve toy_lib toy_web (\<lambda>t p s. None) ?call toy_relay)) \<le>
     rt_burst (rs_device Rates_default) + (2000000 - 0) * rt_per_minute (rs_device Rates_default) div MINUTE_MS"
    by (rule device_rate_bound [where earlier = "[]" and environment = Production and issuer = "[]" and keys = "Keyring_new toy_lib [] None" and store = "[]"
          and lib = toy_lib and web = toy_web and gateway = "\<lambda>t p s. None"])
      (simp_all add: Rates_default_def U32_MAX_def U64_MAX_def toy_relay_def)
  moreover obtain relay' where "Relay_push toy_lib toy_web (\<lambda>t p s. None) toy_relay (V4 1) toy_request 2000000 =
     (Reply_Unavailable, Some (hd_token toy_handle, toy_push), relay')" using toy_posts [of "\<lambda>t p s. None"] by (auto simp: posted_def)
  then have "grants toy_device (fst (serve toy_lib toy_web (\<lambda>t p s. None) ?call toy_relay)) = 1"
    using toy_opens by (simp add: grants_def toy_request_def toy_claim_def)
  ultimately show ?thesis by blast
qed

text \<open>
  C17. A push with a handle that a phone made is posted: from a credential the relay issued, sealed with the push token to
  one of the relay's keys, the relay reads back the token and the device, and hands the payload to APNs for that token as
  long as the credential lasts, is not revoked, and nothing was counted yet.
\<close>

theorem fresh_handle_posts:
  assumes "seal_laws lib" "length device = DEVICE_LEN" "issued_s + LIFETIME_S \<le> U64_MAX" "now_ms div 1000 < issued_s + LIFETIME_S"
    "handle_from_slice lib json = Some handle" "hd_credential handle = Issuer_issue lib issuer device environment issued_s" "valid_id (hd_id handle)"
    "seal_with lib (sl_public lib key) json HANDLE_INFO ephemeral nonce = Inr sealed" "length nonce = NONCE_LEN"
    "key = current \<or> (previous = Some key \<and> key_id lib key \<noteq> key_id lib current)"
    "pq_handle request = key_id lib key @ 46 # sl_encode lib sealed" "str_len (pq_handle request) \<le> MAX_HANDLE"
    "Kind_allows (hd_kind handle) (pq_push_type request)" "valid_payload web (pq_payload request)" "valid_collapse_id (pq_collapse_id request)"
    "\<not> Memory_is_revoked store device (hd_id handle)"
    "1 \<le> rt_burst (rs_source rates)" "1 \<le> rt_burst (rs_device rates)" "1 \<le> rt_burst (rs_handle rates)"
    "push = \<lparr>ps_body = str_bytes (pq_payload request), ps_collapse_id = pq_collapse_id request, ps_priority = pq_priority request, ps_push_type = pq_push_type request\<rparr>"
  shows "\<exists>relay'. Relay_push lib web gateway (Relay_new environment issuer (Keyring_new lib current previous) store rates) source request now_ms =
    (posted (gateway (hd_token handle) push (now_ms div 1000)), Some (hd_token handle, push), relay')"
  by (rule handle_posts [OF assms])

theorem fresh_handle_posts_witness:
  "\<exists>relay'. Relay_push toy_lib toy_web (\<lambda>t p s. Some Outcome_Delivered) (Relay_new Production [] (Keyring_new toy_lib [] None) [] Rates_default) (V4 1) toy_request 2000000 =
     (Reply_Delivered, Some (replicate 32 97, toy_push), relay')"
proof -
  have "\<exists>relay'. Relay_push toy_lib toy_web (\<lambda>t p s. Some Outcome_Delivered) (Relay_new Production [] (Keyring_new toy_lib [] None) [] Rates_default) (V4 1) toy_request 2000000 =
     (posted (Some Outcome_Delivered), Some (hd_token toy_handle, toy_push), relay')"
    by (rule fresh_handle_posts [OF toy_laws toy_limits(2,1) _ toy_reads toy_issued toy_id toy_seals, where previous = None])
      (use toy_text_len toy_payload in \<open>simp_all add: LIFETIME_S_def NONCE_LEN_def toy_request_def toy_text_def toy_handle_def Kind_allows_def
        valid_collapse_id_def Memory_is_revoked_def Rates_default_def toy_push_def\<close>)
  then show ?thesis by (simp add: posted_def reply_def toy_handle_def)
qed

text \<open>
  Run alone, the steps of a request are its handler: the same reply and the same relay, for pushes and revocations.
\<close>

theorem tasks_are_handlers:
  "run_task 4 lib web answer (Task_push source request now_ms) self =
     (case Relay_push lib web (\<lambda>token push now_s. answer) self source request now_ms of (r, post, self') \<Rightarrow> (self', Task_done r)) \<and>
   run_task 3 lib web answer (Task_revoke source rq now_ms) self =
     (case Relay_revoke lib self source rq now_ms of (r, self') \<Rightarrow> (self', Task_done r))"
  by (simp add: Relay_push_def Relay_revoke_def Let_def numeral_eq_Suc split: prod.split sum.split)

end
