(* ===== verification/Chat_Model.thy ===== *)
theory Chat_Model
  imports Std
begin

text \<open>
  The conversation of a chat and its reducer: the crate sheprd-chat-protocol (\<open>model.rs\<close>, \<open>model/activity.rs\<close>,
  \<open>model/question_answers.rs\<close>, \<open>media.rs\<close>, \<open>change.rs\<close>, \<open>wire.rs\<close>).

  A \<open>String\<close> is a \<open>str\<close> here, the list of its characters, with \<open>str_len\<close> its length in bytes. The ids and
  times, \<open>u64\<close> in the code, are natural numbers. An \<open>apply\<close> returns the transcript as it leaves it, with its
  error or nothing, so that what an error leaves behind is part of the model.
\<close>

section \<open>Binary search\<close>

text \<open>
  \<open>slice::binary_search_by\<close>: \<open>n\<close> candidates start at \<open>base\<close>, and each step halves them, by whether the
  element in the middle is past the target.
\<close>

function bsearch_base :: "('a \<Rightarrow> bool) \<Rightarrow> 'a list \<Rightarrow> nat \<Rightarrow> nat \<Rightarrow> nat" where
  "bsearch_base past xs base n =
     (if n \<le> 1 then base
      else let half = n div 2; mid = base + half in
        bsearch_base past xs (if past (xs ! mid) then base else mid) (n - half))"
  by pat_completeness auto
termination by (relation "measure (\<lambda>(_, _, _, n). n)") auto

declare bsearch_base.simps [simp del]

definition binary_search_by_key :: "nat \<Rightarrow> ('a \<Rightarrow> nat) \<Rightarrow> 'a list \<Rightarrow> nat option" where
  "binary_search_by_key b f xs =
     (if xs = [] then None
      else let base = bsearch_base (\<lambda>x. b < f x) xs 0 (length xs) in
        if f (xs ! base) = b then Some base else None)"

text \<open>\<open>slice::partition_point\<close>, which searches for the first element without the property.\<close>

definition partition_point :: "('a \<Rightarrow> bool) \<Rightarrow> 'a list \<Rightarrow> nat" where
  "partition_point p xs =
     (if xs = [] then 0
      else let base = bsearch_base (\<lambda>x. \<not> p x) xs 0 (length xs) in
        if p (xs ! base) then Suc base else base)"

section \<open>Pictures\<close>

datatype Author = Author_User | Author_Agent

datatype ImageType = Type_Gif | Type_Jpeg | Type_Png | Type_Webp

definition MAX_IMAGE_DATA :: nat where "MAX_IMAGE_DATA = 5 * 1024 * 1024"

record Image =
  pic_data :: str
  pic_kind :: ImageType

fun ImageType_mime :: "ImageType \<Rightarrow> str" where
  "ImageType_mime Type_Gif = chars ''image/gif''"
| "ImageType_mime Type_Jpeg = chars ''image/jpeg''"
| "ImageType_mime Type_Png = chars ''image/png''"
| "ImageType_mime Type_Webp = chars ''image/webp''"

definition ImageType_from_mime :: "str \<Rightarrow> ImageType option" where
  "ImageType_from_mime mime =
     (let essence = trim (hd (split_on 59 mime)) in
      case List.find (\<lambda>kind. str_lower (ImageType_mime kind) = str_lower essence) [Type_Gif, Type_Jpeg, Type_Png, Type_Webp] of
        Some kind \<Rightarrow> Some kind
      | None \<Rightarrow> if str_lower essence = str_lower (chars ''image/jpg'') then Some Type_Jpeg else None)"

definition base64_byte :: "scalar \<Rightarrow> bool" where
  "base64_byte c \<longleftrightarrow> ascii_digit c \<or> (65 \<le> c \<and> c \<le> 90) \<or> (97 \<le> c \<and> c \<le> 122) \<or> c = 43 \<or> c = 47 \<or> c = 61"

definition Image_new :: "str \<Rightarrow> str \<Rightarrow> Image option" where
  "Image_new mime data =
     (case ImageType_from_mime mime of
        None \<Rightarrow> None
      | Some kind \<Rightarrow>
          if data \<noteq> [] \<and> str_len data \<le> MAX_IMAGE_DATA \<and> list_all base64_byte data
          then Some \<lparr>pic_data = data, pic_kind = kind\<rparr> else None)"

section \<open>The conversation\<close>

type_synonym EntryId = nat
type_synonym PermissionId = nat
type_synonym Uuid = nat
type_synonym CommandId = Uuid

datatype ChatStatus = Status_Starting | Status_Idle | Status_Working | Status_Failed str | Status_Exited str

fun accepts_prompts :: "ChatStatus \<Rightarrow> bool" where
  "accepts_prompts Status_Idle = True"
| "accepts_prompts Status_Working = True"
| "accepts_prompts Status_Starting = True"
| "accepts_prompts (Status_Failed _) = False"
| "accepts_prompts (Status_Exited _) = False"

datatype NoticeLevel = Notice_Info | Notice_Warning | Notice_Error

datatype ToolKind =
    Kind_Read | Kind_Edit | Kind_Delete | Kind_Move | Kind_Search | Kind_Execute | Kind_Think | Kind_Fetch | Kind_SwitchMode | Kind_Subagent | Kind_Other

datatype ToolStatus = Tool_Pending | Tool_InProgress | Tool_Completed | Tool_Failed

datatype ToolContent =
    Content_Text str
  | Content_Diff str "str option" str
  | Content_Image Image
  | Content_Terminal str

record Tool =
  tl_call_id :: str
  tl_content :: "ToolContent list"
  tl_kind :: ToolKind
  tl_locations :: "str list"
  tl_parent :: "str option"
  tl_started_ms :: "nat option"
  tl_status :: ToolStatus
  tl_title :: str

datatype TurnEnd = End_Done | End_Cancelled | End_Limit | End_Refused | End_Failed | End_Other

record Tokens =
  tk_cached :: nat
  tk_input :: nat
  tk_output :: nat
  tk_thought :: nat
  tk_total :: nat

record TurnSummary =
  ts_duration_ms :: nat
  ts_ended_ms :: "nat option"
  ts_end :: TurnEnd
  ts_tokens :: "Tokens option"

record QuestionAnswer =
  qa_question :: str
  qa_answer :: str

datatype EntryKind =
    Entry_User str nat
  | Entry_Agent str
  | Entry_Thought str
  | Entry_Image Author Image
  | Entry_Tool Tool
  | Entry_Turn TurnSummary
  | Entry_Notice "QuestionAnswer list" "str option" NoticeLevel str

record Entry =
  en_id :: EntryId
  en_kind :: EntryKind

text \<open>\<open>EntryKind::text\<close>, and what a write through \<open>text_mut\<close> leaves.\<close>

fun EntryKind_text :: "EntryKind \<Rightarrow> str option" where
  "EntryKind_text (Entry_User t _) = Some t"
| "EntryKind_text (Entry_Agent t) = Some t"
| "EntryKind_text (Entry_Thought t) = Some t"
| "EntryKind_text (Entry_Notice _ _ _ t) = Some t"
| "EntryKind_text (Entry_Image _ _) = None"
| "EntryKind_text (Entry_Tool _) = None"
| "EntryKind_text (Entry_Turn _) = None"

fun EntryKind_text_mut :: "(str \<Rightarrow> str) \<Rightarrow> EntryKind \<Rightarrow> EntryKind option" where
  "EntryKind_text_mut f (Entry_User t files) = Some (Entry_User (f t) files)"
| "EntryKind_text_mut f (Entry_Agent t) = Some (Entry_Agent (f t))"
| "EntryKind_text_mut f (Entry_Thought t) = Some (Entry_Thought (f t))"
| "EntryKind_text_mut f (Entry_Notice answers details level t) = Some (Entry_Notice answers details level (f t))"
| "EntryKind_text_mut f (Entry_Image _ _) = None"
| "EntryKind_text_mut f (Entry_Tool _) = None"
| "EntryKind_text_mut f (Entry_Turn _) = None"

datatype PermissionKind = AllowOnce | AllowAlways | RejectOnce | RejectAlways | Permission_Other

definition PermissionKind_allows :: "PermissionKind \<Rightarrow> bool" where
  "PermissionKind_allows k \<longleftrightarrow> k = AllowOnce \<or> k = AllowAlways"

record PermissionOption =
  po_id :: str
  po_kind :: PermissionKind
  po_name :: str

record Permission =
  pm_call_id :: "str option"
  pm_id :: PermissionId
  pm_options :: "PermissionOption list"
  pm_title :: str

definition allow_option :: "Permission \<Rightarrow> PermissionOption option" where
  "allow_option p =
     (case List.find (\<lambda>opt. po_kind opt = AllowOnce) (pm_options p) of
        Some opt \<Rightarrow> Some opt
      | None \<Rightarrow> List.find (\<lambda>opt. po_kind opt = AllowAlways) (pm_options p))"

datatype PlanPriority = Plan_High | Plan_Low | Plan_Medium

datatype PlanStatus = Plan_InProgress | Plan_Completed | Plan_Pending

record PlanEntry =
  pe_content :: str
  pe_priority :: PlanPriority
  pe_status :: PlanStatus

record ChatMode =
  mo_description :: "str option"
  mo_id :: str
  mo_name :: str

record ChatModes =
  mos_available :: "ChatMode list"
  mos_current :: str

definition ChatModes_current :: "ChatModes \<Rightarrow> ChatMode option" where
  "ChatModes_current m = List.find (\<lambda>mode. mo_id mode = mos_current m) (mos_available m)"

record Attachment =
  at_path :: str

definition MAX_ATTACHMENTS :: nat where "MAX_ATTACHMENTS = 10"

text \<open>The last part of the path that is not empty, between slashes and backslashes.\<close>

definition Attachment_name :: "Attachment \<Rightarrow> str" where
  "Attachment_name a =
     (case List.find (\<lambda>part. part \<noteq> []) (rev (split_by (\<lambda>c. c = 47 \<or> c = 92) (at_path a))) of
        Some part \<Rightarrow> part
      | None \<Rightarrow> at_path a)"

record ChatQueued =
  qu_attachments :: "Attachment list"
  qu_id :: CommandId
  qu_text :: str

record SessionInfo =
  si_cwd :: "str option"
  si_id :: str
  si_title :: "str option"

record SlashCommand =
  sc_description :: str
  sc_hint :: "str option"
  sc_name :: str

record Cost =
  co_currency :: str
  co_micros :: nat

record Usage =
  us_cost :: "Cost option"
  us_size :: nat
  us_used :: nat

definition Usage_percent :: "Usage \<Rightarrow> nat" where
  "Usage_percent u =
     (if us_size u = 0 then 0
      else min (u64_saturating_mul (us_used u) 100 div us_size u) 100)"

record Turn =
  tu_started_ms :: nat

datatype OptionCategory = Option_Mode | Option_Model | Option_ModelConfig | Option_ThoughtLevel | Option_Other

record Choice =
  cc_description :: "str option"
  cc_group :: "str option"
  cc_id :: str
  cc_name :: str

datatype OptionKind = Select "Choice list" str | Toggle bool

datatype OptionValue = Value_Choice str | Value_Toggle bool

record ConfigOption =
  cg_category :: OptionCategory
  cg_description :: "str option"
  cg_id :: str
  cg_kind :: OptionKind
  cg_name :: str

definition current_name :: "ConfigOption \<Rightarrow> str" where
  "current_name opt =
     (case cg_kind opt of
        Select choices current \<Rightarrow>
          (case List.find (\<lambda>choice. cc_id choice = current) choices of Some choice \<Rightarrow> cc_name choice | None \<Rightarrow> current)
      | Toggle current \<Rightarrow> if current then chars ''On'' else chars ''Off'')"

fun option_accepts :: "OptionKind \<Rightarrow> OptionValue \<Rightarrow> bool" where
  "option_accepts (Select choices _) (Value_Choice i) = list_ex (\<lambda>choice. cc_id choice = i) choices"
| "option_accepts (Toggle _) (Value_Toggle _) = True"
| "option_accepts _ _ = False"

definition ConfigOption_accepts :: "ConfigOption \<Rightarrow> OptionValue \<Rightarrow> bool" where
  "ConfigOption_accepts opt v = option_accepts (cg_kind opt) v"

section \<open>Activities\<close>

definition MAX_ACTIVITIES :: nat where "MAX_ACTIVITIES = 32"
definition MAX_ACTIVITY_TEXT :: nat where "MAX_ACTIVITY_TEXT = 1024"

datatype ActivityKind = Activity_Subagent | Activity_Shell | Activity_Other

datatype ActivityState = Activity_Running | Activity_Failed | Activity_Killed | Activity_Finished

record Activity =
  ac_call_id :: str
  ac_detail :: "str option"
  ac_finished_ms :: "nat option"
  ac_kind :: ActivityKind
  ac_label :: str
  ac_started_ms :: nat
  ac_state :: ActivityState

definition is_running :: "Activity \<Rightarrow> bool" where
  "is_running a \<longleftrightarrow> ac_state a = Activity_Running"

definition Activity_fits :: "Activity \<Rightarrow> bool" where
  "Activity_fits a \<longleftrightarrow>
     list_all (\<lambda>t. str_len t \<le> MAX_ACTIVITY_TEXT)
       ([ac_call_id a, ac_label a] @ (case ac_detail a of None \<Rightarrow> [] | Some d \<Rightarrow> [d]))"

section \<open>Historical questions\<close>

definition MAX_QUESTION_ANSWERS :: nat where "MAX_QUESTION_ANSWERS = 32"
definition MAX_QUESTION_TEXT :: nat where "MAX_QUESTION_TEXT = 128 * 1024"

text \<open>\<open>Iterator::all\<close> with the running total of the bytes.\<close>

fun question_text_fits :: "nat \<Rightarrow> QuestionAnswer list \<Rightarrow> bool" where
  "question_text_fits n [] = True"
| "question_text_fits n (a # as) =
     (let n' = u64_saturating_add (u64_saturating_add n (str_len (qa_question a))) (str_len (qa_answer a)) in
      n' \<le> MAX_QUESTION_TEXT \<and> question_text_fits n' as)"

definition valid_question_answers :: "QuestionAnswer list \<Rightarrow> bool" where
  "valid_question_answers answers \<longleftrightarrow> length answers \<le> MAX_QUESTION_ANSWERS \<and> question_text_fits 0 answers"

section \<open>Transcripts and their changes\<close>

record Transcript =
  tr_activities :: "Activity list"
  tr_agent :: str
  tr_auto_accept :: bool
  tr_clients :: nat
  tr_commands :: "SlashCommand list"
  tr_entries :: "Entry list"
  tr_modes :: "ChatModes option"
  tr_options :: "ConfigOption list"
  tr_permissions :: "Permission list"
  tr_plan :: "PlanEntry list"
  tr_queued :: "ChatQueued list"
  tr_read_only :: bool
  tr_session :: "SessionInfo option"
  tr_status :: ChatStatus
  tr_truncated :: bool
  tr_turn :: "Turn option"
  tr_usage :: "Usage option"

definition Transcript_new :: "str \<Rightarrow> Transcript" where
  "Transcript_new agent =
     \<lparr>tr_activities = [], tr_agent = agent, tr_auto_accept = False, tr_clients = 0, tr_commands = [],
      tr_entries = [], tr_modes = None, tr_options = [], tr_permissions = [], tr_plan = [], tr_queued = [],
      tr_read_only = False, tr_session = None, tr_status = Status_Starting, tr_truncated = False, tr_turn = None,
      tr_usage = None\<rparr>"

definition entry_position :: "Transcript \<Rightarrow> EntryId \<Rightarrow> nat option" where
  "entry_position self i = binary_search_by_key i en_id (tr_entries self)"

definition Transcript_entry :: "Transcript \<Rightarrow> EntryId \<Rightarrow> Entry option" where
  "Transcript_entry self i = map_option ((!) (tr_entries self)) (entry_position self i)"

definition last_entry_id :: "Transcript \<Rightarrow> EntryId option" where
  "last_entry_id self = (if tr_entries self = [] then None else Some (en_id (last (tr_entries self))))"

definition is_blocked :: "Transcript \<Rightarrow> bool" where
  "is_blocked self \<longleftrightarrow> tr_permissions self \<noteq> []"

definition Transcript_option :: "Transcript \<Rightarrow> OptionCategory \<Rightarrow> ConfigOption option" where
  "Transcript_option self category = List.find (\<lambda>opt. cg_category opt = category) (tr_options self)"

record RunningCount =
  rc_other :: nat
  rc_shells :: nat
  rc_subagents :: nat

fun count_activity :: "RunningCount \<Rightarrow> Activity \<Rightarrow> RunningCount" where
  "count_activity n a =
     (case ac_kind a of
        Activity_Subagent \<Rightarrow> n\<lparr>rc_subagents := rc_subagents n + 1\<rparr>
      | Activity_Shell \<Rightarrow> n\<lparr>rc_shells := rc_shells n + 1\<rparr>
      | Activity_Other \<Rightarrow> n\<lparr>rc_other := rc_other n + 1\<rparr>)"

definition Transcript_running :: "Transcript \<Rightarrow> RunningCount" where
  "Transcript_running self =
     foldl count_activity \<lparr>rc_other = 0, rc_shells = 0, rc_subagents = 0\<rparr> (filter is_running (tr_activities self))"

definition RunningCount_total :: "RunningCount \<Rightarrow> nat" where
  "RunningCount_total n = rc_other n + rc_shells n + rc_subagents n"

definition Transcript_activity :: "Transcript \<Rightarrow> str \<Rightarrow> Activity option" where
  "Transcript_activity self call_id = List.find (\<lambda>a. ac_call_id a = call_id) (tr_activities self)"

datatype ChatChange =
    Change_Push Entry
  | Change_Append EntryId str
  | Change_Replace Entry
  | Change_Truncate EntryId
  | Change_Status ChatStatus
  | Change_PermissionAsked Permission
  | Change_PermissionResolved PermissionId
  | Change_Plan "PlanEntry list"
  | Change_Modes "ChatModes option"
  | Change_CurrentMode str
  | Change_Options "ConfigOption list"
  | Change_Turn "Turn option"
  | Change_Queue "ChatQueued list"
  | Change_Clients nat
  | Change_Session "SessionInfo option"
  | Change_Commands "SlashCommand list"
  | Change_Usage "Usage option"
  | Change_AutoAccept bool
  | Change_Activity Activity

datatype ChatError =
    ActivityLimit
  | ActivityText
  | DuplicatePermission PermissionId
  | EntryOrder EntryId EntryId
  | NoModes
  | NotText EntryId
  | QuestionAnswersLimit EntryId
  | UnknownEntry EntryId
  | UnknownPermission PermissionId

text \<open>The entry whose questions \<open>apply\<close> looks at first.\<close>

fun notice_answers :: "ChatChange \<Rightarrow> (EntryId \<times> QuestionAnswer list) option" where
  "notice_answers (Change_Push e) =
     (case en_kind e of Entry_Notice answers _ _ _ \<Rightarrow> Some (en_id e, answers) | _ \<Rightarrow> None)"
| "notice_answers (Change_Replace e) =
     (case en_kind e of Entry_Notice answers _ _ _ \<Rightarrow> Some (en_id e, answers) | _ \<Rightarrow> None)"
| "notice_answers _ = None"

text \<open>\<open>Transcript::record\<close>: the state it leaves, and its result.\<close>

definition record_activity :: "Transcript \<Rightarrow> Activity \<Rightarrow> Transcript \<times> (ChatError + unit)" where
  "record_activity self a =
     (if \<not> Activity_fits a then (self, Inl ActivityText)
      else case iter_position (\<lambda>known. ac_call_id known = ac_call_id a) (tr_activities self) of
        Some i \<Rightarrow> (self\<lparr>tr_activities := (tr_activities self)[i := a]\<rparr>, Inr ())
      | None \<Rightarrow>
          if MAX_ACTIVITIES \<le> length (tr_activities self) then
            case iter_position (\<lambda>known. \<not> is_running known) (tr_activities self) of
              None \<Rightarrow> (self, Inl ActivityLimit)
            | Some ended \<Rightarrow> (self\<lparr>tr_activities := remove_at ended (tr_activities self) @ [a]\<rparr>, Inr ())
          else (self\<lparr>tr_activities := tr_activities self @ [a]\<rparr>, Inr ()))"

fun apply_change :: "Transcript \<Rightarrow> ChatChange \<Rightarrow> Transcript \<times> (ChatError + unit)" where
  "apply_change self (Change_Push e) =
     (case last_entry_id self of
        Some l \<Rightarrow>
          if en_id e \<le> l then (self, Inl (EntryOrder (en_id e) l))
          else (self\<lparr>tr_entries := tr_entries self @ [e]\<rparr>, Inr ())
      | None \<Rightarrow> (self\<lparr>tr_entries := tr_entries self @ [e]\<rparr>, Inr ()))"
| "apply_change self (Change_Append i t) =
     (case entry_position self i of
        None \<Rightarrow> (self, Inl (UnknownEntry i))
      | Some index \<Rightarrow>
          (case EntryKind_text_mut (\<lambda>s. s @ t) (en_kind (tr_entries self ! index)) of
             None \<Rightarrow> (self, Inl (NotText i))
           | Some kind \<Rightarrow>
               (self\<lparr>tr_entries := (tr_entries self)[index := (tr_entries self ! index)\<lparr>en_kind := kind\<rparr>]\<rparr>, Inr ())))"
| "apply_change self (Change_Replace e) =
     (case entry_position self (en_id e) of
        None \<Rightarrow> (self, Inl (UnknownEntry (en_id e)))
      | Some index \<Rightarrow> (self\<lparr>tr_entries := (tr_entries self)[index := e]\<rparr>, Inr ()))"
| "apply_change self (Change_Truncate before) =
     (let keep = partition_point (\<lambda>e. en_id e < before) (tr_entries self) in
      if 0 < keep then (self\<lparr>tr_entries := drop keep (tr_entries self), tr_truncated := True\<rparr>, Inr ())
      else (self, Inr ()))"
| "apply_change self (Change_Status status) = (self\<lparr>tr_status := status\<rparr>, Inr ())"
| "apply_change self (Change_PermissionAsked p) =
     (if list_ex (\<lambda>known. pm_id known = pm_id p) (tr_permissions self) then (self, Inl (DuplicatePermission (pm_id p)))
      else (self\<lparr>tr_permissions := tr_permissions self @ [p]\<rparr>, Inr ()))"
| "apply_change self (Change_PermissionResolved i) =
     (case iter_position (\<lambda>p. pm_id p = i) (tr_permissions self) of
        None \<Rightarrow> (self, Inl (UnknownPermission i))
      | Some index \<Rightarrow> (self\<lparr>tr_permissions := remove_at index (tr_permissions self)\<rparr>, Inr ()))"
| "apply_change self (Change_Plan plan) = (self\<lparr>tr_plan := plan\<rparr>, Inr ())"
| "apply_change self (Change_Modes modes) = (self\<lparr>tr_modes := modes\<rparr>, Inr ())"
| "apply_change self (Change_CurrentMode i) =
     (case tr_modes self of
        None \<Rightarrow> (self, Inl NoModes)
      | Some modes \<Rightarrow> (self\<lparr>tr_modes := Some (modes\<lparr>mos_current := i\<rparr>)\<rparr>, Inr ()))"
| "apply_change self (Change_Options options) = (self\<lparr>tr_options := options\<rparr>, Inr ())"
| "apply_change self (Change_Turn turn) = (self\<lparr>tr_turn := turn\<rparr>, Inr ())"
| "apply_change self (Change_Queue queued) = (self\<lparr>tr_queued := queued\<rparr>, Inr ())"
| "apply_change self (Change_Clients count) = (self\<lparr>tr_clients := count\<rparr>, Inr ())"
| "apply_change self (Change_Session session) = (self\<lparr>tr_session := session\<rparr>, Inr ())"
| "apply_change self (Change_Commands commands) = (self\<lparr>tr_commands := commands\<rparr>, Inr ())"
| "apply_change self (Change_Usage usage) = (self\<lparr>tr_usage := usage\<rparr>, Inr ())"
| "apply_change self (Change_AutoAccept on) = (self\<lparr>tr_auto_accept := on\<rparr>, Inr ())"
| "apply_change self (Change_Activity a) = record_activity self a"

definition Transcript_apply :: "Transcript \<Rightarrow> ChatChange \<Rightarrow> Transcript \<times> (ChatError + unit)" where
  "Transcript_apply self change =
     (case notice_answers change of
        Some (i, answers) \<Rightarrow>
          if valid_question_answers answers then apply_change self change else (self, Inl (QuestionAnswersLimit i))
      | None \<Rightarrow> apply_change self change)"

section \<open>Messages\<close>

definition CHAT_VERSION :: nat where "CHAT_VERSION = 1"
definition REVISION :: nat where "REVISION = 1"
definition MAX_PROMPT_SIZE :: nat where "MAX_PROMPT_SIZE = 256 * 1024"

record Cursor =
  cu_epoch :: Uuid
  cu_seq :: nat

datatype ChatCommand =
    Command_Prompt str "Attachment list"
  | Command_Cancel
  | Command_Answer str PermissionId
  | Command_SetMode str
  | Command_SetOption str OptionValue
  | Command_Unqueue CommandId
  | Command_SetAutoAccept bool

datatype Rejection =
    EmptyPrompt | PromptTooLong | NotReady | NotWorking | Rejected_UnknownPermission | UnknownOption | UnknownMode
  | UnknownSetting | UnknownQueued | AgentUnavailable | TooManyAttachments | QueueFull | UnknownFile | Unsupported
  | Rejected_Other

datatype ByeReason = Bye_Version nat | Bye_Exiting | Bye_Handshake

datatype ChatServerMessage =
    Msg_Welcome str "str option" nat
  | Msg_Snapshot Cursor Transcript
  | Msg_Change ChatChange Cursor
  | Msg_Ack CommandId "Rejection option"
  | Msg_Bye ByeReason

datatype ChatClientKind = Client_Gui | Client_Cli | Client_Remote | Client_Other

datatype ChatClientMessage =
    Client_Hello ChatClientKind nat "Cursor option" nat
  | Client_Command ChatCommand CommandId

section \<open>Lemmas on searches\<close>

lemma bsearch_base_point:
  assumes "\<And>i. i < length xs \<Longrightarrow> past (xs ! i) \<longleftrightarrow> k \<le> i"
    and "0 < n" "base + n \<le> length xs" "base = 0 \<or> base < k" "k \<le> base + n"
  shows "bsearch_base past xs base n = k - 1"
  using assms
proof (induction past xs base n rule: bsearch_base.induct)
  case (1 past xs base n)
  show ?case
  proof (cases "n \<le> 1")
    case True
    with 1 show ?thesis by (subst bsearch_base.simps) auto
  next
    case False
    let ?half = "n div 2" and ?mid = "base + n div 2"
    let ?base = "if past (xs ! ?mid) then base else ?mid"
    have mid: "?mid < length xs" "past (xs ! ?mid) \<longleftrightarrow> k \<le> ?mid" using False 1 by auto
    have "bsearch_base past xs ?base (n - ?half) = k - 1"
      by (rule 1(1) [OF False refl refl]) (use False 1 mid in auto)
    then show ?thesis using False by (subst bsearch_base.simps) (simp add: Let_def)
  qed
qed

lemma bsearch_base_full:
  assumes "\<And>i. i < length xs \<Longrightarrow> past (xs ! i) \<longleftrightarrow> k \<le> i" "k \<le> length xs" "xs \<noteq> []"
  shows "bsearch_base past xs 0 (length xs) = k - 1"
  using assms by (intro bsearch_base_point) auto

lemma partition_point_eq:
  assumes "\<And>i. i < length xs \<Longrightarrow> p (xs ! i) \<longleftrightarrow> i < k" "k \<le> length xs"
  shows "partition_point p xs = k"
proof (cases "xs = []")
  case False
  have "bsearch_base (\<lambda>x. \<not> p x) xs 0 (length xs) = k - 1"
    by (rule bsearch_base_full) (use False assms in auto)
  moreover have "k - 1 < length xs" using False assms(2) by (cases xs) auto
  ultimately show ?thesis using False assms(1) [of "k - 1"] assms(2)
    by (cases "k = 0") (simp_all add: partition_point_def Let_def)
qed (use assms in \<open>simp add: partition_point_def\<close>)

lemma takeWhile_sorted_iff:
  assumes "sorted_wrt (\<lambda>x y. f x \<le> (f y :: nat)) xs" "i < length xs"
  shows "f (xs ! i) < b \<longleftrightarrow> i < length (takeWhile (\<lambda>x. f x < b) xs)"
proof -
  let ?k = "length (takeWhile (\<lambda>x. f x < b) xs)"
  have "f (xs ! i) < b" if "i < ?k" using that by (metis nth_mem set_takeWhileD takeWhile_nth)
  moreover have "\<not> f (xs ! i) < b" if "?k \<le> i"
  proof -
    have "?k < length xs" using that assms(2) by simp
    from nth_length_takeWhile [OF this] have "b \<le> f (xs ! ?k)" by simp
    moreover have "f (xs ! ?k) \<le> f (xs ! i)" using that assms by (cases "?k = i") (auto simp: sorted_wrt_iff_nth_less)
    ultimately show ?thesis by simp
  qed
  ultimately show ?thesis by (meson not_le)
qed

lemma partition_point_sorted:
  "sorted_wrt (\<lambda>x y. f x \<le> (f y :: nat)) xs \<Longrightarrow>
   partition_point (\<lambda>x. f x < b) xs = length (takeWhile (\<lambda>x. f x < b) xs)"
  by (rule partition_point_eq) (simp_all add: takeWhile_sorted_iff length_takeWhile_le)

lemma iter_position_unique:
  assumes "i < length xs" "p (xs ! i)" "\<And>j. j < length xs \<Longrightarrow> p (xs ! j) \<Longrightarrow> j = i"
  shows "iter_position p xs = Some i"
proof (cases "iter_position p xs")
  case None
  then have "\<not> p (xs ! i)" using assms(1) by (simp add: iter_position_None)
  with assms(2) show ?thesis by simp
next
  case (Some j)
  with iter_position_Some [OF this] assms(3) show ?thesis by auto
qed

text \<open>On entries in increasing order, the binary search finds what a search from the start finds.\<close>

lemma binary_search_linear:
  assumes "sorted_wrt (\<lambda>x y. f x < (f y :: nat)) xs"
  shows "binary_search_by_key b f xs = iter_position (\<lambda>x. f x = b) xs"
proof (cases "xs = []")
  case False
  let ?k = "length (takeWhile (\<lambda>x. f x < Suc b) xs)"
  have le: "sorted_wrt (\<lambda>x y. f x \<le> f y) xs" using assms by (rule sorted_wrt_mono_rel [rotated]) simp
  have past: "b < f (xs ! i) \<longleftrightarrow> ?k \<le> i" if "i < length xs" for i
    using takeWhile_sorted_iff [OF le that, of "Suc b"] by auto
  have k: "?k \<le> length xs" by (rule length_takeWhile_le)
  have base: "bsearch_base (\<lambda>x. b < f x) xs 0 (length xs) = ?k - 1"
    by (rule bsearch_base_full) (use False past k in auto)
  have uniq: "j = i" if "i < length xs" "j < length xs" "f (xs ! i) = f (xs ! j)" for i j
    using assms that by (metis linorder_neq_iff nat_less_le sorted_wrt_iff_nth_less)
  show ?thesis
  proof (cases "f (xs ! (?k - 1)) = b")
    case True
    have "?k - 1 < length xs" using False k by (cases xs) auto
    then have "iter_position (\<lambda>x. f x = b) xs = Some (?k - 1)"
      using True uniq by (intro iter_position_unique) auto
    then show ?thesis using False True base by (simp add: binary_search_by_key_def Let_def)
  next
    case no: False
    have "f (xs ! i) \<noteq> b" if i: "i < length xs" for i
    proof
      assume b: "f (xs ! i) = b"
      then have lt: "i < ?k" using past [OF i] by simp
      then have k1: "?k - 1 < length xs" "\<not> ?k \<le> ?k - 1" using k by linarith+
      then have "f (xs ! (?k - 1)) \<le> b" using past [OF k1(1)] by simp
      moreover have "i < ?k - 1" using lt no b by (cases "i = ?k - 1") auto
      ultimately show False using sorted_wrt_nth_less [OF assms _ k1(1), of i] b by simp
    qed
    then have "iter_position (\<lambda>x. f x = b) xs = None" by (force simp: iter_position_None in_set_conv_nth)
    then show ?thesis using False no base by (simp add: binary_search_by_key_def Let_def)
  qed
qed (simp add: binary_search_by_key_def)

section \<open>Well-formed transcripts\<close>

definition entries_ordered :: "Entry list \<Rightarrow> bool" where
  "entries_ordered es \<longleftrightarrow> sorted_wrt (\<lambda>a b. en_id a < en_id b) es"

text \<open>
  Entries in increasing order of their ids, no question asked twice, and at most \<open>MAX_ACTIVITIES\<close> activities, each
  with its own call and within its bound.
\<close>

definition transcript_ok :: "Transcript \<Rightarrow> bool" where
  "transcript_ok self \<longleftrightarrow>
     entries_ordered (tr_entries self) \<and> distinct (map pm_id (tr_permissions self)) \<and>
     length (tr_activities self) \<le> MAX_ACTIVITIES \<and> distinct (map ac_call_id (tr_activities self)) \<and>
     list_all Activity_fits (tr_activities self)"

lemma entries_ordered_append:
  "entries_ordered (es @ [e]) \<longleftrightarrow> entries_ordered es \<and> (es = [] \<or> en_id (last es) < en_id e)"
proof (cases es rule: rev_cases)
  case (snoc fs f)
  then show ?thesis by (auto simp: entries_ordered_def sorted_wrt_append)
qed (simp add: entries_ordered_def)

lemma entries_ordered_single [simp]: "entries_ordered []" "entries_ordered [e]"
  by (simp_all add: entries_ordered_def)

lemma entries_ordered_drop: "entries_ordered es \<Longrightarrow> entries_ordered (drop n es)"
  by (simp add: entries_ordered_def sorted_wrt_drop)

lemma entries_ordered_update:
  "entries_ordered es \<Longrightarrow> en_id e = en_id (es ! i) \<Longrightarrow> entries_ordered (es[i := e])"
  by (cases "i < length es") (auto simp: entries_ordered_def sorted_wrt_iff_nth_less nth_list_update)

lemma entry_position_linear:
  "entries_ordered (tr_entries self) \<Longrightarrow>
   entry_position self i = iter_position (\<lambda>e. en_id e = i) (tr_entries self)"
  by (simp add: entry_position_def entries_ordered_def binary_search_linear)

lemma entry_position_Some:
  "entries_ordered (tr_entries self) \<Longrightarrow> entry_position self i = Some k \<Longrightarrow>
   k < length (tr_entries self) \<and> en_id (tr_entries self ! k) = i"
  by (auto simp: entry_position_linear dest: iter_position_Some)

lemma truncate_keeps:
  assumes "entries_ordered es"
  shows "drop (partition_point (\<lambda>e. en_id e < before) es) es = filter (\<lambda>e. before \<le> en_id e) es"
proof -
  have le: "sorted_wrt (\<lambda>a b. en_id a \<le> en_id b) es"
    using assms unfolding entries_ordered_def by (rule sorted_wrt_mono_rel [rotated]) simp
  have "dropWhile (\<lambda>e. en_id e < before) es = filter (\<lambda>e. before \<le> en_id e) es"
    using le by (induction es) (auto simp: not_less intro!: sym [OF filter_True])
  then show ?thesis using partition_point_sorted [OF le] by (simp add: dropWhile_eq_drop)
qed

lemma distinct_remove_at: "distinct (map f xs) \<Longrightarrow> distinct (map f (remove_at i xs))"
  by (auto simp: remove_at_def take_map [symmetric] drop_map [symmetric] set_take_disj_set_drop_if_distinct)

text \<open>The three ways an activity is kept: in place, in the room of one that ended, and at the end.\<close>

lemma activities_update:
  assumes "distinct (map g xs)" "i < length xs" "g a = g (xs ! i)"
  shows "distinct (map g (xs[i := a]))"
proof -
  have "map g (xs[i := a]) = map g xs" using assms(2,3) by (simp add: map_update list_update_same_conv)
  then show ?thesis using assms(1) by simp
qed

lemma record_activity_cases:
  assumes "record_activity self a = (self', r)"
  obtains "self' = self" "r \<noteq> Inr ()"
  | i where "i < length (tr_activities self)" "ac_call_id (tr_activities self ! i) = ac_call_id a" "Activity_fits a"
      "self' = self\<lparr>tr_activities := (tr_activities self)[i := a]\<rparr>" "r = Inr ()"
  | i where "i < length (tr_activities self)" "ac_call_id a \<notin> ac_call_id ` set (tr_activities self)" "Activity_fits a"
      "\<not> is_running (tr_activities self ! i)" "MAX_ACTIVITIES \<le> length (tr_activities self)"
      "self' = self\<lparr>tr_activities := remove_at i (tr_activities self) @ [a]\<rparr>" "r = Inr ()"
  | "length (tr_activities self) < MAX_ACTIVITIES" "ac_call_id a \<notin> ac_call_id ` set (tr_activities self)" "Activity_fits a"
      "self' = self\<lparr>tr_activities := tr_activities self @ [a]\<rparr>" "r = Inr ()"
  using assms
  by (fastforce simp: record_activity_def iter_position_None dest: iter_position_Some split: if_splits option.splits)

lemma record_activity_ok:
  assumes "transcript_ok self" "record_activity self a = (self', r)"
  shows "transcript_ok self'"
  using assms(2)
proof (cases rule: record_activity_cases)
  case (2 i)
  then show ?thesis using assms(1) set_update_subset_insert [of "tr_activities self" i a]
    by (auto simp: transcript_ok_def list_all_iff activities_update)
next
  case (3 i)
  then show ?thesis using assms(1) set_remove_at [of i "tr_activities self"]
    by (auto simp: transcript_ok_def list_all_iff distinct_remove_at)
next
  case 4
  then show ?thesis using assms(1) by (auto simp: transcript_ok_def)
qed (use assms(1) in simp)

lemma apply_change_ok:
  assumes "transcript_ok self" "apply_change self change = (self', r)"
  shows "transcript_ok self'"
proof -
  have ord: "entries_ordered (tr_entries self)" using assms(1) by (simp add: transcript_ok_def)
  show ?thesis
  proof (cases change)
    case (Change_Push e)
    then show ?thesis using assms
      by (auto simp: transcript_ok_def entries_ordered_append last_entry_id_def split: if_splits option.splits)
  next
    case (Change_Append i t)
    then show ?thesis using assms ord
      by (auto simp: transcript_ok_def split: option.splits intro!: entries_ordered_update)
  next
    case (Change_Replace e)
    then show ?thesis using assms ord
      by (auto simp: transcript_ok_def split: option.splits intro!: entries_ordered_update)
        (simp add: entry_position_Some)
  next
    case (Change_Truncate before)
    then show ?thesis using assms by (auto simp: transcript_ok_def Let_def entries_ordered_drop split: if_splits)
  next
    case (Change_PermissionAsked p)
    then show ?thesis using assms by (fastforce simp: transcript_ok_def list_ex_iff split: if_splits)
  next
    case (Change_PermissionResolved i)
    then show ?thesis using assms by (auto simp: transcript_ok_def distinct_remove_at split: option.splits)
  next
    case (Change_CurrentMode i)
    then show ?thesis using assms by (auto simp: transcript_ok_def split: option.splits)
  next
    case (Change_Activity a)
    then show ?thesis using assms record_activity_ok by simp
  qed (use assms in \<open>auto simp: transcript_ok_def\<close>)
qed

lemma apply_ok: "transcript_ok self \<Longrightarrow> transcript_ok (fst (Transcript_apply self change))"
  using apply_change_ok [of self change]
  by (auto simp: Transcript_apply_def split: option.splits prod.splits) (metis prod.exhaust_sel)+

text \<open>An error leaves the transcript as it was.\<close>

lemma apply_change_err: "apply_change self change = (self', Inl e) \<Longrightarrow> self' = self"
  by (cases change)
    (auto simp: Let_def elim: record_activity_cases split: if_splits option.splits)

lemma apply_err: "Transcript_apply self change = (self', Inl e) \<Longrightarrow> self' = self"
  using apply_change_err by (auto simp: Transcript_apply_def split: option.splits if_splits)

lemma Transcript_new_ok [simp]: "transcript_ok (Transcript_new agent)"
  by (simp add: Transcript_new_def transcript_ok_def entries_ordered_def MAX_ACTIVITIES_def)

end
