(* ===== verification/Chat_Project.thy ===== *)
theory Chat_Project
  imports Chat_Model
begin

text \<open>
  What the chat program makes of the agent's updates: \<open>project.rs\<close> and \<open>project/activity.rs\<close> of the crate
  sheprd-acp. The updates come decoded: the readers of the agent's JSON, its tags and its to-do lists are
  parameters of an update (the fields of \<open>SessionUpdate\<close>).
\<close>

section \<open>Bounded text\<close>

definition MAX_ENTRY_TEXT :: nat where "MAX_ENTRY_TEXT = 256 * 1024"

text \<open>A line break, an ellipsis and the note.\<close>

definition TRUNCATED :: str where "TRUNCATED = 10 # 8230 # chars '' (truncated)''"

text \<open>\<open>str::truncate\<close> at the last character boundary at or before \<open>n\<close> bytes.\<close>

fun take_bytes :: "nat \<Rightarrow> str \<Rightarrow> str" where
  "take_bytes n [] = []"
| "take_bytes n (c # cs) =
     (let w = length (encode_utf8 c) in if w \<le> n then c # take_bytes (n - w) cs else [])"

definition text_clip :: "nat \<Rightarrow> str \<Rightarrow> str option" where
  "text_clip have t =
     (if MAX_ENTRY_TEXT < have then None
      else let room = MAX_ENTRY_TEXT - have in
        if room < str_len TRUNCATED + 4 then None
        else if str_len t \<le> room then Some t
        else Some (take_bytes (room - str_len TRUNCATED) t @ TRUNCATED))"

definition bounded :: "str \<Rightarrow> str" where
  "bounded t = (case text_clip 0 t of Some u \<Rightarrow> u | None \<Rightarrow> [])"

section \<open>Activities\<close>

record Report =
  rp_detail :: "str option"
  rp_kind :: ActivityKind
  rp_label :: "str option"
  rp_state :: ActivityState

record Tag =
  tg_activity :: "Report option"
  tg_parent :: "str option"

definition activity_clip :: "str \<Rightarrow> str" where
  "activity_clip t = take_bytes MAX_ACTIVITY_TEXT (trim (takeWhile (\<lambda>c. c \<noteq> 10) t))"

definition Tag_mark :: "Tag \<Rightarrow> Tool \<Rightarrow> Tool" where
  "Tag_mark self tool =
     (let tool = (case tg_activity self of
                    Some report \<Rightarrow> if rp_kind report = Activity_Subagent then tool\<lparr>tl_kind := Kind_Subagent\<rparr> else tool
                  | None \<Rightarrow> tool)
      in case tg_parent self of
           Some parent \<Rightarrow> tool\<lparr>tl_parent := Some (activity_clip parent)\<rparr>
         | None \<Rightarrow> tool)"

definition reported_activity :: "str \<Rightarrow> str \<Rightarrow> Report \<Rightarrow> nat \<Rightarrow> Activity option \<Rightarrow> Activity" where
  "reported_activity call_id title report now known =
     \<lparr>ac_call_id = call_id,
      ac_detail = (case rp_detail report of
                     Some d \<Rightarrow> Some (activity_clip d)
                   | None \<Rightarrow> Option.bind known ac_detail),
      ac_finished_ms = (if rp_state report = Activity_Running then None else Some now),
      ac_kind = rp_kind report,
      ac_label = (case rp_label report of
                    Some l \<Rightarrow> activity_clip l
                  | None \<Rightarrow> (case known of None \<Rightarrow> activity_clip title | Some k \<Rightarrow> ac_label k)),
      ac_started_ms = (case known of None \<Rightarrow> now | Some k \<Rightarrow> ac_started_ms k),
      ac_state = rp_state report\<rparr>"

definition activity_record :: "Transcript \<Rightarrow> str \<Rightarrow> str \<Rightarrow> Report \<Rightarrow> nat \<Rightarrow> ChatChange option" where
  "activity_record transcript call_id title report now =
     (if MAX_ACTIVITY_TEXT < str_len call_id then None
      else let known = Transcript_activity transcript call_id in
        if (case known of Some k \<Rightarrow> \<not> is_running k | None \<Rightarrow> rp_state report \<noteq> Activity_Running) then None
        else if known = None \<and> MAX_ACTIVITIES \<le> length (tr_activities transcript)
                \<and> list_all is_running (tr_activities transcript) then None
        else let activity = reported_activity call_id title report now known in
          if Some activity = known then None else Some (Change_Activity activity))"

definition activity_step :: "Transcript \<Rightarrow> str \<Rightarrow> str \<Rightarrow> ChatChange option" where
  "activity_step transcript parent title =
     (case Transcript_activity transcript parent of
        None \<Rightarrow> None
      | Some known \<Rightarrow>
          if \<not> is_running known then None
          else let detail = activity_clip title in
            if ac_detail known = Some detail then None
            else Some (Change_Activity (known\<lparr>ac_detail := Some detail\<rparr>)))"

definition kill_all :: "Transcript \<Rightarrow> nat \<Rightarrow> ChatChange list" where
  "kill_all transcript now =
     map (\<lambda>a. Change_Activity (a\<lparr>ac_finished_ms := Some now, ac_state := Activity_Killed\<rparr>))
       (filter is_running (tr_activities transcript))"

section \<open>The projector\<close>

definition MAX_STEPS :: nat where "MAX_STEPS = 64"
definition MAX_SKIPPED :: nat where "MAX_SKIPPED = 1024"
definition MAX_ACTIVITIES_TRACKED :: nat where "MAX_ACTIVITIES_TRACKED = 2 * MAX_ACTIVITIES"

datatype TextStream = Stream_User | Stream_Agent | Stream_Thought

record OpenText =
  op_entry :: EntryId
  op_message :: "str option"
  op_stream :: TextStream

record Projector =
  pr_next :: nat
  pr_open :: "OpenText option"
  pr_planned :: bool
  pr_skipped :: "(str \<times> str) list"
  pr_steps :: "(str \<times> nat) list"
  pr_todos :: "str list"
  pr_tools :: "(str \<times> EntryId) list"

definition Projector_after :: "EntryId \<Rightarrow> Projector" where
  "Projector_after l =
     \<lparr>pr_next = l, pr_open = None, pr_planned = False, pr_skipped = [], pr_steps = [], pr_todos = [], pr_tools = []\<rparr>"

definition Projector_default :: Projector where
  "Projector_default = Projector_after 0"

definition next_id :: "Projector \<Rightarrow> EntryId \<times> Projector" where
  "next_id self = (pr_next self + 1, self\<lparr>pr_next := pr_next self + 1\<rparr>)"

definition renumber :: "Projector \<Rightarrow> EntryId \<Rightarrow> EntryId \<times> Projector" where
  "renumber self old =
     (let (new, self) = next_id self in
      (new, self\<lparr>pr_open := (case pr_open self of
                                Some open \<Rightarrow> if op_entry open = old then Some (open\<lparr>op_entry := new\<rparr>) else Some open
                              | None \<Rightarrow> None),
                 pr_tools := map (\<lambda>(call, i). (call, if i = old then new else i)) (pr_tools self)\<rparr>))"

definition Projector_close :: "Projector \<Rightarrow> Projector" where
  "Projector_close self = self\<lparr>pr_open := None\<rparr>"

text \<open>An entry of its own, which ends the one still streaming.\<close>

definition push_entry :: "Projector \<Rightarrow> EntryKind \<Rightarrow> ChatChange \<times> Projector" where
  "push_entry self kind =
     (let (i, self) = next_id (Projector_close self) in (Change_Push \<lparr>en_id = i, en_kind = kind\<rparr>, self))"

definition Projector_notice :: "Projector \<Rightarrow> NoticeLevel \<Rightarrow> str \<Rightarrow> ChatChange \<times> Projector" where
  "Projector_notice self level t = push_entry self (Entry_Notice [] None level (bounded t))"

definition Projector_turn :: "Projector \<Rightarrow> TurnSummary \<Rightarrow> ChatChange \<times> Projector" where
  "Projector_turn self summary = push_entry self (Entry_Turn summary)"

definition Projector_image :: "Projector \<Rightarrow> Author \<Rightarrow> Image \<Rightarrow> ChatChange \<times> Projector" where
  "Projector_image self author pic = push_entry self (Entry_Image author pic)"

definition Projector_prompt :: "Projector \<Rightarrow> str \<Rightarrow> nat \<Rightarrow> ChatChange \<times> Projector" where
  "Projector_prompt self t files = push_entry self (Entry_User (bounded t) files)"

fun stream_entry :: "TextStream \<Rightarrow> str \<Rightarrow> EntryKind" where
  "stream_entry Stream_User t = Entry_User t 0"
| "stream_entry Stream_Agent t = Entry_Agent t"
| "stream_entry Stream_Thought t = Entry_Thought t"

text \<open>The entry that still streams, when this text goes on with it.\<close>

definition streaming :: "Projector \<Rightarrow> Transcript \<Rightarrow> TextStream \<Rightarrow> str option \<Rightarrow> EntryId option" where
  "streaming self transcript stream message =
     (case pr_open self of
        Some open \<Rightarrow>
          if op_stream open = stream \<and> op_message open = message \<and> last_entry_id transcript = Some (op_entry open)
          then Some (op_entry open) else None
      | None \<Rightarrow> None)"

definition entry_text_len :: "Transcript \<Rightarrow> EntryId \<Rightarrow> nat" where
  "entry_text_len transcript i =
     (case Option.bind (Transcript_entry transcript i) (\<lambda>e. EntryKind_text (en_kind e)) of
        Some t \<Rightarrow> str_len t
      | None \<Rightarrow> 0)"

definition Projector_text ::
  "Projector \<Rightarrow> Transcript \<Rightarrow> TextStream \<Rightarrow> str option \<Rightarrow> str \<Rightarrow> ChatChange option \<times> Projector" where
  "Projector_text self transcript stream message t =
     (if t = [] then (None, self)
      else case streaming self transcript stream message of
        Some i \<Rightarrow>
          (map_option (Change_Append i) (text_clip (entry_text_len transcript i) t), self)
      | None \<Rightarrow>
          (let (i, self) = next_id self;
               self = self\<lparr>pr_open := Some \<lparr>op_entry = i, op_message = message, op_stream = stream\<rparr>\<rparr>
           in (Some (Change_Push \<lparr>en_id = i, en_kind = stream_entry stream (bounded t)\<rparr>), self)))"

definition Tool_new :: "str \<Rightarrow> Tool" where
  "Tool_new call_id =
     \<lparr>tl_call_id = call_id, tl_content = [], tl_kind = Kind_Other, tl_locations = [], tl_parent = None,
      tl_started_ms = None, tl_status = Tool_Pending, tl_title = call_id\<rparr>"

definition known_tool :: "Projector \<Rightarrow> Transcript \<Rightarrow> str \<Rightarrow> (EntryId \<times> Tool) option" where
  "known_tool self transcript call_id =
     (case Option.bind (map_of (pr_tools self) call_id) (Transcript_entry transcript) of
        Some e \<Rightarrow> (case en_kind e of Entry_Tool tool \<Rightarrow> Some (en_id e, tool) | _ \<Rightarrow> None)
      | None \<Rightarrow> None)"

definition Projector_tool ::
  "Projector \<Rightarrow> Transcript \<Rightarrow> str \<Rightarrow> (Tool \<Rightarrow> Tool) \<Rightarrow> ChatChange \<times> Projector" where
  "Projector_tool self transcript call_id update =
     (case known_tool self transcript call_id of
        Some (i, tool) \<Rightarrow> (Change_Replace \<lparr>en_id = i, en_kind = Entry_Tool (update tool)\<rparr>, self)
      | None \<Rightarrow>
          (let (i, self) = next_id (Projector_close self);
               self = self\<lparr>pr_tools := AList.update call_id i (pr_tools self)\<rparr>
           in (Change_Push \<lparr>en_id = i, en_kind = Entry_Tool (update (Tool_new call_id))\<rparr>, self)))"

definition forget_before :: "Projector \<Rightarrow> EntryId \<Rightarrow> Projector" where
  "forget_before self before = self\<lparr>pr_tools := retain (\<lambda>_ i. before \<le> i) (pr_tools self)\<rparr>"

definition Projector_skip :: "Projector \<Rightarrow> Transcript \<Rightarrow> str \<Rightarrow> str \<Rightarrow> Projector" where
  "Projector_skip self transcript call parent =
     (let running = (\<lambda>p. case Transcript_activity transcript p of Some a \<Rightarrow> is_running a | None \<Rightarrow> False);
          skipped = (if MAX_SKIPPED \<le> length (pr_skipped self) then retain (\<lambda>_ p. running p) (pr_skipped self)
                     else pr_skipped self)
      in self\<lparr>pr_skipped := (if length skipped < MAX_SKIPPED then AList.update call parent skipped else skipped)\<rparr>)"

definition Projector_admit :: "Projector \<Rightarrow> Transcript \<Rightarrow> str \<Rightarrow> bool \<times> Projector" where
  "Projector_admit self transcript parent =
     (let steps = (if MAX_ACTIVITIES_TRACKED < length (pr_steps self)
                   then retain (\<lambda>call _. Transcript_activity transcript call \<noteq> None) (pr_steps self)
                   else pr_steps self);
          count = (case map_of steps parent of Some n \<Rightarrow> n | None \<Rightarrow> 0) + 1
      in (count \<le> MAX_STEPS, self\<lparr>pr_steps := AList.update parent count steps\<rparr>))"

definition unfinished :: "ToolStatus \<Rightarrow> bool" where
  "unfinished s \<longleftrightarrow> s = Tool_Pending \<or> s = Tool_InProgress"

text \<open>The update of a call that is shown: what the message says, its tag, and when it was first seen unfinished.\<close>

definition tagged_update :: "Tag \<Rightarrow> nat \<Rightarrow> (Tool \<Rightarrow> Tool) \<Rightarrow> Tool \<Rightarrow> Tool" where
  "tagged_update tag now update tool =
     (let tool = Tag_mark tag (update tool) in
      if unfinished (tl_status tool) \<and> tl_started_ms tool = None then tool\<lparr>tl_started_ms := Some now\<rparr> else tool)"

fun change_tool :: "ChatChange \<Rightarrow> Tool option" where
  "change_tool (Change_Push e) = (case en_kind e of Entry_Tool tool \<Rightarrow> Some tool | _ \<Rightarrow> None)"
| "change_tool (Change_Replace e) = (case en_kind e of Entry_Tool tool \<Rightarrow> Some tool | _ \<Rightarrow> None)"
| "change_tool _ = None"

text \<open>The call's own change when it is shown, or what it says when it is past the cap.\<close>

definition tagged_call ::
  "Projector \<Rightarrow> Transcript \<Rightarrow> str \<Rightarrow> Tag \<Rightarrow> nat \<Rightarrow> (Tool \<Rightarrow> Tool) \<Rightarrow> ChatChange list \<times> Tool option \<times> Projector" where
  "tagged_call self transcript call_id tag now update =
     (let shown = map_of (pr_tools self) call_id \<noteq> None;
          step = (if shown then None else tg_parent tag);
          skipped = map_of (pr_skipped self) call_id \<noteq> None;
          (admitted, self) = (if skipped then (False, self)
                              else case step of
                                None \<Rightarrow> (True, self)
                              | Some parent \<Rightarrow> Projector_admit self transcript parent)
      in if admitted then
           (let (change, self) = Projector_tool self transcript call_id (tagged_update tag now update)
            in ([change], change_tool change, self))
         else
           (let found = update (Tool_new call_id);
                self = (if tl_status found = Tool_Completed \<or> tl_status found = Tool_Failed
                        then self\<lparr>pr_skipped := AList.delete call_id (pr_skipped self)\<rparr>
                        else case step of
                          Some parent \<Rightarrow> Projector_skip self transcript call_id parent
                        | None \<Rightarrow> self)
            in ([], Some found, self)))"

definition Projector_tagged ::
  "Projector \<Rightarrow> Transcript \<Rightarrow> str \<Rightarrow> Tag \<Rightarrow> nat \<Rightarrow> (Tool \<Rightarrow> Tool) \<Rightarrow> ChatChange list \<times> Projector" where
  "Projector_tagged self transcript call_id tag now update =
     (let (changes, tool, self) = tagged_call self transcript call_id tag now update in
      case tool of
        None \<Rightarrow> (changes, self)
      | Some tool \<Rightarrow>
          (changes
           @ (case tg_activity tag of
                Some report \<Rightarrow>
                  (case activity_record transcript call_id (tl_title tool) report now of Some c \<Rightarrow> [c] | None \<Rightarrow> [])
              | None \<Rightarrow> [])
           @ (case tg_parent tag of
                Some parent \<Rightarrow> (case activity_step transcript parent (tl_title tool) of Some c \<Rightarrow> [c] | None \<Rightarrow> [])
              | None \<Rightarrow> []), self))"

section \<open>Updates\<close>

record ToolCall =
  cl_title :: str
  cl_kind :: ToolKind
  cl_status :: ToolStatus
  cl_content :: "ToolContent list"
  cl_locations :: "str list"

record ToolFields =
  fl_title :: "str option"
  fl_kind :: "ToolKind option"
  fl_status :: "ToolStatus option"
  fl_content :: "ToolContent list option"
  fl_locations :: "str list option"

definition apply_call :: "ToolCall \<Rightarrow> Tool \<Rightarrow> Tool" where
  "apply_call call tool =
     tool\<lparr>tl_title := cl_title call, tl_kind := cl_kind call, tl_status := cl_status call,
          tl_content := cl_content call, tl_locations := cl_locations call\<rparr>"

definition apply_fields :: "ToolFields \<Rightarrow> Tool \<Rightarrow> Tool" where
  "apply_fields upd tool =
     tool\<lparr>tl_title := (case fl_title upd of Some t \<Rightarrow> t | None \<Rightarrow> tl_title tool),
          tl_kind := (case fl_kind upd of Some k \<Rightarrow> k | None \<Rightarrow> tl_kind tool),
          tl_status := (case fl_status upd of Some s \<Rightarrow> s | None \<Rightarrow> tl_status tool),
          tl_content := (case fl_content upd of Some c \<Rightarrow> c | None \<Rightarrow> tl_content tool),
          tl_locations := (case fl_locations upd of Some l \<Rightarrow> l | None \<Rightarrow> tl_locations tool)\<rparr>"

text \<open>
  A decoded update. A chunk carries the picture it is, its message and its text; a call its tag, whether it keeps
  a to-do list, and the list its input holds; an update of a call whether the call stays a to-do call.
\<close>

datatype SessionUpdate =
    Update_Chunk TextStream "Image option" "str option" str
  | Update_ToolCall str Tag bool "PlanEntry list option" ToolCall
  | Update_ToolCallUpdate str Tag bool "PlanEntry list option" ToolFields
  | Update_Plan "PlanEntry list"
  | Update_Commands "SlashCommand list"
  | Update_CurrentMode str
  | Update_SessionTitle "str option option"
  | Update_Usage Usage
  | Update_Notice NoticeLevel str
  | Update_Unknown

definition Tag_default :: Tag where
  "Tag_default = \<lparr>tg_activity = None, tg_parent = None\<rparr>"

definition todo_plan :: "Projector \<Rightarrow> PlanEntry list option \<Rightarrow> ChatChange list" where
  "todo_plan self plan =
     (case plan of Some steps \<Rightarrow> if pr_planned self then [] else [Change_Plan steps] | None \<Rightarrow> [])"

definition Projector_chunk ::
  "Projector \<Rightarrow> Transcript \<Rightarrow> TextStream \<Rightarrow> Image option \<Rightarrow> str option \<Rightarrow> str \<Rightarrow> ChatChange option \<times> Projector" where
  "Projector_chunk self transcript stream media message t =
     (case (media, stream) of
        (Some pic, Stream_User) \<Rightarrow> (let (c, self) = Projector_image self Author_User pic in (Some c, self))
      | (Some pic, Stream_Agent) \<Rightarrow> (let (c, self) = Projector_image self Author_Agent pic in (Some c, self))
      | _ \<Rightarrow> Projector_text self transcript stream message t)"

definition list_of_option :: "'a option \<Rightarrow> 'a list" where
  "list_of_option x = (case x of Some a \<Rightarrow> [a] | None \<Rightarrow> [])"

definition update_call ::
  "Projector \<Rightarrow> Transcript \<Rightarrow> nat \<Rightarrow> str \<Rightarrow> Tag \<Rightarrow> ToolFields \<Rightarrow> ChatChange list \<times> Projector" where
  "update_call self transcript now call_id tag upd =
     (let shown = (case map_of (pr_tools self) call_id of Some i \<Rightarrow> Transcript_entry transcript i \<noteq> None | None \<Rightarrow> False)
      in case (tg_activity tag, Transcript_activity transcript call_id) of
           (Some report, Some known) \<Rightarrow>
             if \<not> shown then (list_of_option (activity_record transcript call_id (ac_label known) report now), self)
             else Projector_tagged self transcript call_id tag now (apply_fields upd)
         | _ \<Rightarrow> Projector_tagged self transcript call_id tag now (apply_fields upd))"

fun Projector_update ::
  "Projector \<Rightarrow> Transcript \<Rightarrow> nat \<Rightarrow> SessionUpdate \<Rightarrow> ChatChange list \<times> Projector" where
  "Projector_update self transcript now (Update_Chunk stream media message t) =
     (let (c, self) = Projector_chunk self transcript stream media message t in (list_of_option c, self))"
| "Projector_update self transcript now (Update_ToolCall call_id tag todo plan call) =
     (if tag = Tag_default \<and> length (pr_todos self) < MAX_SKIPPED \<and> todo
      then (let self = self\<lparr>pr_todos := List.insert call_id (pr_todos self)\<rparr> in (todo_plan self plan, self))
      else Projector_tagged self transcript call_id tag now (apply_call call))"
| "Projector_update self transcript now (Update_ToolCallUpdate call_id tag stays_tool plan upd) =
     (if call_id \<in> set (pr_todos self) then
        (let stays = (tag = Tag_default \<and> stays_tool);
             ended = (fl_status upd = Some Tool_Completed \<or> fl_status upd = Some Tool_Failed);
             self = (if \<not> stays \<or> ended then self\<lparr>pr_todos := removeAll call_id (pr_todos self)\<rparr> else self)
         in if stays then (todo_plan self plan, self)
            else update_call self transcript now call_id tag upd)
      else update_call self transcript now call_id tag upd)"
| "Projector_update self transcript now (Update_Plan plan) = ([Change_Plan plan], self\<lparr>pr_planned := True\<rparr>)"
| "Projector_update self transcript now (Update_Commands commands) = ([Change_Commands commands], self)"
| "Projector_update self transcript now (Update_CurrentMode i) =
     ((if tr_modes transcript = None then [] else [Change_CurrentMode i]), self)"
| "Projector_update self transcript now (Update_SessionTitle title) =
     ((case tr_session transcript of
         Some session \<Rightarrow>
           [Change_Session (Some (case title of Some t \<Rightarrow> session\<lparr>si_title := t\<rparr> | None \<Rightarrow> session))]
       | None \<Rightarrow> []), self)"
| "Projector_update self transcript now (Update_Usage usage) = ([Change_Usage (Some usage)], self)"
| "Projector_update self transcript now (Update_Notice level t) =
     (let (c, self) = Projector_notice self level t in ([c], self))"
| "Projector_update self transcript now Update_Unknown = ([], self)"

section \<open>Lemmas\<close>

lemma take_bytes_len: "str_len (take_bytes n t) \<le> n"
  by (induction n t rule: take_bytes.induct) (auto simp: str_len_def Let_def)

lemma str_len_append [simp]: "str_len (s @ t) = str_len s + str_len t"
  by (simp add: str_len_def)

lemma text_clip_room: "text_clip have t = Some u \<Longrightarrow> have + str_len u \<le> MAX_ENTRY_TEXT"
  using take_bytes_len [of "MAX_ENTRY_TEXT - have - str_len TRUNCATED" t]
  by (auto simp: text_clip_def Let_def split: if_splits)

lemma bounded_len: "str_len (bounded t) \<le> MAX_ENTRY_TEXT"
  using text_clip_room [of 0 t] by (auto simp: bounded_def str_len_def split: option.splits)

lemma activity_clip_len: "str_len (activity_clip t) \<le> MAX_ACTIVITY_TEXT"
  by (simp add: activity_clip_def take_bytes_len)

lemma find_Some: "List.find p xs = Some x \<Longrightarrow> p x \<and> x \<in> set xs"
  by (induction xs) (auto split: if_splits)

lemma Transcript_activity_Some:
  "Transcript_activity transcript call_id = Some a \<Longrightarrow> ac_call_id a = call_id \<and> a \<in> set (tr_activities transcript)"
  by (auto simp: Transcript_activity_def dest: find_Some)

end
