(* ===== verification/Chat_Session.thy ===== *)
theory Chat_Session
  imports Chat_Project "HOL-Library.Monad_Syntax" "HOL-Library.Sublist"
begin

text \<open>
  The chat program's session: its state, how a change is applied, logged and sent to every attached client, and how
  a client attaches (\<open>session.rs\<close>, \<open>session/pictures.rs\<close> and \<open>attach/downgrade.rs\<close> of the crate sheprd-acp).

  \<open>emit\<close> calls itself: for the pictures a change brings, for the entries it makes the transcript drop and for the
  count of clients it changes. It is a function of a fuel here, and \<open>emit_total\<close> shows how much is enough for every
  call, so \<open>Session_emit\<close> is the \<open>emit\<close> of the code. A queue of messages (a bounded channel of crossbeam) has a handle;
  its messages stay there until its writer takes them. Files on disk are read through \<open>ChatIo\<close>.
\<close>

section \<open>Limits and sizes\<close>

definition LOG :: nat where "LOG = 8192"
definition LOG_BYTES :: nat where "LOG_BYTES = 32 * 1024 * 1024"
definition HANDLED :: nat where "HANDLED = 256"
definition MAX_ENTRIES :: nat where "MAX_ENTRIES = 2000"
definition MAX_TRANSCRIPT_TEXT :: nat where "MAX_TRANSCRIPT_TEXT = 2 * 1024 * 1024"
definition MAX_TRANSCRIPT_MEDIA :: nat where "MAX_TRANSCRIPT_MEDIA = 8 * 1024 * 1024"
definition CLIENT_QUEUE :: nat where "CLIENT_QUEUE = 4096"

definition opt_len :: "str option \<Rightarrow> nat" where
  "opt_len x = (case x of Some t \<Rightarrow> str_len t | None \<Rightarrow> 0)"

fun content_size :: "ToolContent \<Rightarrow> nat" where
  "content_size (Content_Text t) = str_len t"
| "content_size (Content_Diff new old path) = str_len new + opt_len old + str_len path"
| "content_size (Content_Terminal i) = str_len i"
| "content_size (Content_Image _) = 0"

fun kind_size :: "EntryKind \<Rightarrow> nat" where
  "kind_size (Entry_Notice answers details _ t) =
     str_len t + opt_len details + sum_list (map (\<lambda>a. str_len (qa_question a) + str_len (qa_answer a)) answers)"
| "kind_size (Entry_Tool tool) =
     str_len (tl_title tool) + sum_list (map str_len (tl_locations tool)) + sum_list (map content_size (tl_content tool))"
| "kind_size (Entry_Turn _) = 32"
| "kind_size kind = opt_len (EntryKind_text kind)"

definition entry_size :: "Entry \<Rightarrow> nat" where
  "entry_size e = kind_size (en_kind e)"

fun content_media :: "ToolContent \<Rightarrow> nat" where
  "content_media (Content_Image pic) = str_len (pic_data pic)"
| "content_media _ = 0"

definition entry_media :: "Entry \<Rightarrow> nat" where
  "entry_media e =
     (case en_kind e of
        Entry_Image _ pic \<Rightarrow> str_len (pic_data pic)
      | Entry_Tool tool \<Rightarrow> sum_list (map content_media (tl_content tool))
      | _ \<Rightarrow> 0)"

fun change_size :: "ChatChange \<Rightarrow> nat" where
  "change_size (Change_Push e) = entry_size e + entry_media e"
| "change_size (Change_Replace e) = entry_size e + entry_media e"
| "change_size (Change_Append _ t) = str_len t"
| "change_size _ = 64"

text \<open>The loop of \<open>keep_from\<close>: what is kept, with the totals of its text and its media.\<close>

fun shed :: "Entry list \<Rightarrow> nat \<Rightarrow> nat \<Rightarrow> nat" where
  "shed (e # f # es) t media =
     (if MAX_TRANSCRIPT_TEXT < t \<or> MAX_TRANSCRIPT_MEDIA < media
      then Suc (shed (f # es) (t - entry_size e) (media - entry_media e)) else 0)"
| "shed _ t media = 0"

definition keep_from :: "Entry list \<Rightarrow> nat" where
  "keep_from entries =
     (let drop0 = length entries - MAX_ENTRIES; kept = drop drop0 entries in
      drop0 + shed kept (sum_list (map entry_size kept)) (sum_list (map entry_media kept)))"

section \<open>State\<close>

type_synonym ConnId = nat

text \<open>A bounded channel: its messages, its capacity, and whether its receiver is still there.\<close>

record 'm Channel =
  cn_queue :: "'m list"
  cn_cap :: nat
  cn_open :: bool

definition try_send :: "'m Channel \<Rightarrow> 'm \<Rightarrow> 'm Channel option" where
  "try_send ch m =
     (if cn_open ch \<and> length (cn_queue ch) < cn_cap ch then Some (ch\<lparr>cn_queue := cn_queue ch @ [m]\<rparr>) else None)"

record Subscriber =
  sb_conn :: ConnId
  sb_local :: bool
  sb_outbox :: nat

record Attach =
  ah_conn :: ConnId
  ah_local :: bool
  ah_outbox :: nat
  ah_since :: "Cursor option"

datatype PaneActivity = Pane_Idle | Pane_Working | Pane_Blocked

datatype SessionReport = Report_Activity PaneActivity | Report_Opened str | Report_Prompt str

datatype PendingRequest =
    Pending_Initialize | Pending_NewSession | Pending_LoadSession | Pending_Prompt | Pending_SetMode str
  | Pending_SetOption

record ChatConfig =
  cc_agent :: str
  cc_cwd :: str
  cc_exit_with_agent :: bool
  cc_load :: "str option"
  cc_login_hint :: "str option"
  cc_pane :: "str option"
  cc_require_load :: bool

record Asked =
  ak_options :: "str list"
  ak_request :: nat

record Pictures =
  pi_open :: "EntryId option"
  pi_tools :: "str list"

text \<open>What the session queues for the agent: a prompt's blocks are given by their JSON text.\<close>

datatype AgentRequest =
    Req_Initialize
  | Req_NewSession str
  | Req_LoadSession str str
  | Req_Prompt str "str list"
  | Req_SetMode str str
  | Req_SetOption str str OptionValue

datatype PermissionOutcome = Outcome_Selected str | Outcome_Cancelled

datatype AgentLine =
    Line_Request nat AgentRequest
  | Line_Cancel str
  | Line_Answer nat PermissionOutcome
  | Line_MethodNotFound nat
  | Line_InvalidParams nat

record ChatSession =
  ss_accepts_embedded :: bool
  ss_accepts_image :: bool
  ss_acp_session :: "str option"
  ss_activity :: "PaneActivity option"
  ss_asked :: "(PermissionId \<times> Asked) list"
  ss_config :: ChatConfig
  ss_epoch :: Uuid
  ss_handled :: "(CommandId \<times> Rejection option) list"
  ss_log :: "(nat \<times> ChatChange) list"
  ss_log_bytes :: nat
  ss_next_permission :: nat
  ss_next_request :: nat
  ss_outbox :: "AgentLine Channel"
  ss_pending :: "(nat \<times> PendingRequest) list"
  ss_pictures :: Pictures
  ss_projector :: Projector
  ss_ready :: bool
  ss_reports :: "SessionReport list"
  ss_seq :: nat
  ss_subscribers :: "Subscriber list"
  ss_channels :: "nat \<Rightarrow> ChatServerMessage Channel"
  ss_transcript :: Transcript
  ss_turn :: "nat option"

text \<open>
  What the session reads of the machine: the pictures a message links (\<open>pictures::linked\<close> and \<open>pictures::read\<close>) and
  those of a tool call's files, whether an attached file can be sent, what it is sent as, and the clock.
\<close>

record ChatIo =
  io_linked :: "str \<Rightarrow> Image list"
  io_files :: "Tool \<Rightarrow> ToolContent list"
  io_readable :: "Attachment \<Rightarrow> bool"
  io_prepare :: "Attachment \<Rightarrow> str \<times> Image option"
  io_now :: nat

text \<open>\<open>Session::new\<close>, with the history a continued session opens with.\<close>

definition ChatSession_new ::
  "ChatConfig \<Rightarrow> Transcript option \<Rightarrow> Uuid \<Rightarrow> AgentLine Channel \<Rightarrow> (nat \<Rightarrow> ChatServerMessage Channel) \<Rightarrow> ChatSession" where
  "ChatSession_new config history epoch outbox channels =
     (let transcript = Transcript_new (cc_agent config);
          transcript = (case history of
                          Some h \<Rightarrow> transcript\<lparr>tr_entries := tr_entries h, tr_truncated := tr_truncated h, tr_usage := tr_usage h\<rparr>
                        | None \<Rightarrow> transcript);
          projector = (case last_entry_id transcript of Some i \<Rightarrow> Projector_after i | None \<Rightarrow> Projector_default)
      in \<lparr>ss_accepts_embedded = False, ss_accepts_image = False, ss_acp_session = None, ss_activity = None, ss_asked = [],
          ss_config = config, ss_epoch = epoch, ss_handled = [], ss_log = [], ss_log_bytes = 0, ss_next_permission = 0,
          ss_next_request = 0, ss_outbox = outbox, ss_pending = [],
          ss_pictures = \<lparr>pi_open = None, pi_tools = []\<rparr>, ss_projector = projector, ss_ready = False, ss_reports = [],
          ss_seq = 0, ss_subscribers = [], ss_channels = channels, ss_transcript = transcript, ss_turn = None\<rparr>)"

definition Session_cursor :: "ChatSession \<Rightarrow> Cursor" where
  "Session_cursor self = \<lparr>cu_epoch = ss_epoch self, cu_seq = ss_seq self\<rparr>"

definition remote_clients :: "ChatSession \<Rightarrow> nat" where
  "remote_clients self = min (length (filter (\<lambda>s. \<not> sb_local s) (ss_subscribers self))) U32_MAX"

definition report_activity :: "ChatSession \<Rightarrow> ChatSession" where
  "report_activity self =
     (let activity = (if is_blocked (ss_transcript self) then Pane_Blocked
                      else if tr_status (ss_transcript self) = Status_Working then Pane_Working
                      else Pane_Idle)
      in if ss_activity self \<noteq> Some activity
         then self\<lparr>ss_activity := Some activity, ss_reports := ss_reports self @ [Report_Activity activity]\<rparr> else self)"

section \<open>Emitting a change\<close>

text \<open>The loop that makes room in the log for a change of \<open>size\<close> bytes.\<close>

fun evict_log :: "nat \<Rightarrow> (nat \<times> ChatChange) list \<Rightarrow> nat \<Rightarrow> (nat \<times> ChatChange) list \<times> nat" where
  "evict_log room [] weight = ([], weight)"
| "evict_log room (old # log) weight =
     (if length (old # log) = LOG \<or> LOG_BYTES < weight + room
      then evict_log room log (weight - change_size (snd old)) else (old # log, weight))"

text \<open>\<open>subscribers.retain\<close> with \<open>try_send\<close>: a client whose queue takes no more is dropped.\<close>

fun broadcast ::
  "Subscriber list \<Rightarrow> (nat \<Rightarrow> 'm Channel) \<Rightarrow> 'm \<Rightarrow> Subscriber list \<times> (nat \<Rightarrow> 'm Channel)" where
  "broadcast [] channels m = ([], channels)"
| "broadcast (s # ss) channels m =
     (case try_send (channels (sb_outbox s)) m of
        Some ch \<Rightarrow> (let (kept, channels') = broadcast ss (channels(sb_outbox s := ch)) m in (s # kept, channels'))
      | None \<Rightarrow> broadcast ss channels m)"

fun forget_truncated :: "ChatChange \<Rightarrow> Projector \<Rightarrow> Projector" where
  "forget_truncated (Change_Truncate before) projector = forget_before projector before"
| "forget_truncated _ projector = projector"

text \<open>The part of \<open>emit\<close> between the change that fits and the calls it leads to.\<close>

definition publish :: "ChatSession \<Rightarrow> Transcript \<Rightarrow> ChatChange \<Rightarrow> ChatSession" where
  "publish self transcript change =
     (let self = self\<lparr>ss_transcript := transcript, ss_projector := forget_truncated change (ss_projector self),
                      ss_seq := ss_seq self + 1\<rparr>;
          (log, weight) = evict_log (change_size change) (ss_log self) (ss_log_bytes self);
          self = self\<lparr>ss_log := log @ [(ss_seq self, change)], ss_log_bytes := weight + change_size change\<rparr>;
          (kept, channels) = broadcast (ss_subscribers self) (ss_channels self) (Msg_Change change (Session_cursor self))
      in self\<lparr>ss_subscribers := kept, ss_channels := channels\<rparr>)"

fun changes_entry :: "ChatChange \<Rightarrow> bool" where
  "changes_entry (Change_Push _) = True"
| "changes_entry (Change_Append _ _) = True"
| "changes_entry (Change_Replace _) = True"
| "changes_entry _ = False"

text \<open>The pictures an agent's message links, each an entry before the next.\<close>

fun emit_pictures ::
  "(ChatSession \<Rightarrow> ChatChange \<Rightarrow> ChatSession option) \<Rightarrow> ChatSession \<Rightarrow> Image list \<Rightarrow> ChatSession option" where
  "emit_pictures emit self [] = Some self"
| "emit_pictures emit self (pic # pics) =
     (let (change, projector) = Projector_image (ss_projector self) Author_Agent pic in
      emit (self\<lparr>ss_projector := projector\<rparr>) change \<bind> (\<lambda>self. emit_pictures emit self pics))"

definition linked_pictures :: "ChatIo \<Rightarrow> Transcript \<Rightarrow> EntryId \<Rightarrow> Image list" where
  "linked_pictures io transcript i =
     (case Transcript_entry transcript i of
        Some e \<Rightarrow> (case en_kind e of Entry_Agent t \<Rightarrow> io_linked io t | _ \<Rightarrow> [])
      | None \<Rightarrow> [])"

definition note_message :: "ChatSession \<Rightarrow> Entry \<Rightarrow> ChatSession" where
  "note_message self e =
     (case en_kind e of
        Entry_Agent _ \<Rightarrow> self\<lparr>ss_pictures := (ss_pictures self)\<lparr>pi_open := Some (en_id e)\<rparr>\<rparr>
      | _ \<Rightarrow> self)"

fun pictures_before ::
  "(ChatSession \<Rightarrow> ChatChange \<Rightarrow> ChatSession option) \<Rightarrow> ChatIo \<Rightarrow> ChatSession \<Rightarrow> ChatChange
   \<Rightarrow> (ChatSession \<times> ChatChange) option" where
  "pictures_before emit io self (Change_Push e) =
     (case pi_open (ss_pictures self) of
        Some open \<Rightarrow>
          if open = en_id e then Some (self, Change_Push e)
          else
            (let pics = linked_pictures io (ss_transcript self) open;
                 self = self\<lparr>ss_pictures := (ss_pictures self)\<lparr>pi_open := None\<rparr>\<rparr>
             in do {
                  self \<leftarrow> emit_pictures emit self pics;
                  let (e, self) =
                    (if pics = [] then (e, self)
                     else let (new, projector) = renumber (ss_projector self) (en_id e)
                          in (e\<lparr>en_id := new\<rparr>, self\<lparr>ss_projector := projector\<rparr>));
                  Some (note_message self e, Change_Push e) })
      | None \<Rightarrow> Some (note_message self e, Change_Push e))"
| "pictures_before emit io self change = Some (self, change)"

text \<open>The pictures of a finished call's files, when it shows none of its own.\<close>

fun content_is_image :: "ToolContent \<Rightarrow> bool" where
  "content_is_image (Content_Image _) = True"
| "content_is_image _ = False"

definition of_tool :: "ChatIo \<Rightarrow> Tool \<Rightarrow> ToolContent list" where
  "of_tool io tool =
     (if tl_status tool \<noteq> Tool_Completed \<or> list_ex content_is_image (tl_content tool) then [] else io_files io tool)"

fun changed_tool :: "ChatChange \<Rightarrow> (Entry \<times> Tool) option" where
  "changed_tool (Change_Push e) = (case en_kind e of Entry_Tool tool \<Rightarrow> Some (e, tool) | _ \<Rightarrow> None)"
| "changed_tool (Change_Replace e) = (case en_kind e of Entry_Tool tool \<Rightarrow> Some (e, tool) | _ \<Rightarrow> None)"
| "changed_tool _ = None"

definition pictures_after ::
  "(ChatSession \<Rightarrow> ChatChange \<Rightarrow> ChatSession option) \<Rightarrow> ChatIo \<Rightarrow> ChatSession \<Rightarrow> ChatChange \<Rightarrow> ChatSession option" where
  "pictures_after emit io self change =
     (case changed_tool change of
        None \<Rightarrow> Some self
      | Some (e, tool) \<Rightarrow>
          if tl_status tool \<noteq> Tool_Completed \<or> tl_call_id tool \<in> set (pi_tools (ss_pictures self)) then Some self
          else
            (let self = self\<lparr>ss_pictures := (ss_pictures self)\<lparr>pi_tools := tl_call_id tool # pi_tools (ss_pictures self)\<rparr>\<rparr>;
                 pics = of_tool io tool
             in if pics = [] then Some self
                else emit self (Change_Replace (e\<lparr>en_kind := Entry_Tool (tool\<lparr>tl_content := tl_content tool @ pics\<rparr>)\<rparr>))))"

definition bound ::
  "(ChatSession \<Rightarrow> ChatChange \<Rightarrow> ChatSession option) \<Rightarrow> ChatSession \<Rightarrow> ChatSession option" where
  "bound emit self =
     (let entries = tr_entries (ss_transcript self); n = keep_from entries in
      if 0 < n then emit self (Change_Truncate (en_id (entries ! n))) else Some self)"

definition emit_body ::
  "(ChatSession \<Rightarrow> ChatChange \<Rightarrow> ChatSession option) \<Rightarrow> ChatIo \<Rightarrow> ChatSession \<Rightarrow> ChatChange \<Rightarrow> ChatSession option" where
  "emit_body emit io self change =
     do {
       (self, change) \<leftarrow> pictures_before emit io self change;
       (case Transcript_apply (ss_transcript self) change of
          (_, Inl _) \<Rightarrow> Some self
        | (transcript, Inr _) \<Rightarrow>
            do {
              let before = remote_clients self;
              let self = publish self transcript change;
              self \<leftarrow> (if changes_entry change then bound emit self else Some self);
              self \<leftarrow> (if remote_clients self \<noteq> before then emit self (Change_Clients (remote_clients self)) else Some self);
              pictures_after emit io (report_activity self) change })
     }"

primrec emit_fuel :: "nat \<Rightarrow> ChatIo \<Rightarrow> ChatSession \<Rightarrow> ChatChange \<Rightarrow> ChatSession option" where
  "emit_fuel 0 = (\<lambda>io self change. None)"
| "emit_fuel (Suc n) = (\<lambda>io self change. emit_body (emit_fuel n io) io self change)"

definition Session_emit :: "ChatIo \<Rightarrow> ChatSession \<Rightarrow> ChatChange \<Rightarrow> ChatSession" where
  "Session_emit io self change =
     (case emit_fuel (length (ss_subscribers self) + 4) io self change of Some self' \<Rightarrow> self' | None \<Rightarrow> self)"

definition emit_all :: "ChatIo \<Rightarrow> ChatSession \<Rightarrow> ChatChange list \<Rightarrow> ChatSession" where
  "emit_all io self changes = foldl (Session_emit io) self changes"

section \<open>Clients\<close>

definition Session_detach :: "ChatIo \<Rightarrow> ChatSession \<Rightarrow> ConnId \<Rightarrow> ChatSession" where
  "Session_detach io self conn =
     (let before = remote_clients self;
          self = self\<lparr>ss_subscribers := filter (\<lambda>s. sb_conn s \<noteq> conn) (ss_subscribers self)\<rparr>
      in if remote_clients self \<noteq> before then Session_emit io self (Change_Clients (remote_clients self)) else self)"

definition send_to :: "ChatIo \<Rightarrow> ChatSession \<Rightarrow> ConnId \<Rightarrow> ChatServerMessage \<Rightarrow> ChatSession" where
  "send_to io self conn m =
     (case List.find (\<lambda>s. sb_conn s = conn) (ss_subscribers self) of
        None \<Rightarrow> self
      | Some s \<Rightarrow>
          (case try_send (ss_channels self (sb_outbox s)) m of
             Some ch \<Rightarrow> self\<lparr>ss_channels := (ss_channels self)(sb_outbox s := ch)\<rparr>
           | None \<Rightarrow> Session_detach io self conn))"

definition Session_ack :: "ChatIo \<Rightarrow> ChatSession \<Rightarrow> ConnId \<Rightarrow> CommandId \<Rightarrow> Rejection option \<Rightarrow> ChatSession" where
  "Session_ack io self conn i rejected =
     (let handled = (if length (ss_handled self) = HANDLED then tl (ss_handled self) else ss_handled self);
          self = self\<lparr>ss_handled := handled @ [(i, rejected)]\<rparr>
      in send_to io self conn (Msg_Ack i rejected))"

fun bye_all :: "Subscriber list \<Rightarrow> (nat \<Rightarrow> ChatServerMessage Channel) \<Rightarrow> ByeReason \<Rightarrow> nat \<Rightarrow> ChatServerMessage Channel" where
  "bye_all [] channels reason = channels"
| "bye_all (s # ss) channels reason =
     bye_all ss (case try_send (channels (sb_outbox s)) (Msg_Bye reason) of
                   Some ch \<Rightarrow> channels(sb_outbox s := ch)
                 | None \<Rightarrow> channels) reason"

definition Session_bye :: "ChatSession \<Rightarrow> ByeReason \<Rightarrow> ChatSession" where
  "Session_bye self reason =
     self\<lparr>ss_subscribers := [], ss_channels := bye_all (ss_subscribers self) (ss_channels self) reason\<rparr>"

text \<open>\<open>Iterator::all\<close> over \<open>try_send\<close>: whether every message was taken, and the queue as it is left.\<close>

fun send_all :: "'m Channel \<Rightarrow> 'm list \<Rightarrow> bool \<times> 'm Channel" where
  "send_all ch [] = (True, ch)"
| "send_all ch (m # ms) = (case try_send ch m of Some ch' \<Rightarrow> send_all ch' ms | None \<Rightarrow> (False, ch))"

definition catch_up :: "ChatSession \<Rightarrow> Cursor option \<Rightarrow> Cursor option" where
  "catch_up self since =
     (let first = (case ss_log self of (seq, _) # _ \<Rightarrow> seq | [] \<Rightarrow> ss_seq self + 1) in
      case since of
        Some c \<Rightarrow>
          if cu_epoch c = ss_epoch self \<and> cu_seq c \<le> ss_seq self \<and> first \<le> cu_seq c + 1 then Some c else None
      | None \<Rightarrow> None)"

definition attach_messages :: "ChatSession \<Rightarrow> Cursor option \<Rightarrow> ChatServerMessage list" where
  "attach_messages self since =
     (case catch_up self since of
        Some c \<Rightarrow>
          map (\<lambda>(seq, change). Msg_Change change \<lparr>cu_epoch = ss_epoch self, cu_seq = seq\<rparr>)
            (filter (\<lambda>(seq, _). cu_seq c < seq) (ss_log self))
      | None \<Rightarrow> [Msg_Snapshot (Session_cursor self) (ss_transcript self)])"

definition Session_attach :: "ChatIo \<Rightarrow> ChatSession \<Rightarrow> Attach \<Rightarrow> ChatSession" where
  "Session_attach io self attach =
     (let k = ah_outbox attach;
          welcome = Msg_Welcome (cc_agent (ss_config self)) (cc_pane (ss_config self)) CHAT_VERSION
      in case try_send (ss_channels self k) welcome of
           None \<Rightarrow> self
         | Some ch \<Rightarrow>
             (let (sent, ch) = send_all ch (attach_messages self (ah_since attach));
                  self = self\<lparr>ss_channels := (ss_channels self)(k := ch)\<rparr>
              in if \<not> sent then self
                 else
                   (let self = self\<lparr>ss_subscribers := ss_subscribers self
                                      @ [\<lparr>sb_conn = ah_conn attach, sb_local = ah_local attach, sb_outbox = k\<rparr>]\<rparr>
                    in if ah_local attach then self
                       else Session_emit io self (Change_Clients (remote_clients self)))))"

section \<open>Older clients\<close>

record Downgrade =
  dg_clients :: "nat option"
  dg_revision :: nat

definition Downgrade_new :: "nat \<Rightarrow> Downgrade" where
  "Downgrade_new revision = \<lparr>dg_clients = None, dg_revision = revision\<rparr>"

definition Downgrade_current :: "Downgrade \<Rightarrow> bool" where
  "Downgrade_current self \<longleftrightarrow> REVISION \<le> dg_revision self"

fun downgrade_change :: "Downgrade \<Rightarrow> ChatChange \<Rightarrow> Cursor \<Rightarrow> Downgrade \<times> ChatServerMessage option" where
  "downgrade_change self (Change_Clients count) cursor =
     (self\<lparr>dg_clients := Some count\<rparr>, Some (Msg_Change (Change_Clients count) cursor))"
| "downgrade_change self (Change_Activity a) cursor =
     (self, map_option (\<lambda>count. Msg_Change (Change_Clients count) cursor) (dg_clients self))"
| "downgrade_change self change cursor = (self, Some (Msg_Change change cursor))"

fun downgrade_message :: "Downgrade \<Rightarrow> ChatServerMessage \<Rightarrow> Downgrade \<times> ChatServerMessage option" where
  "downgrade_message self (Msg_Snapshot cursor transcript) =
     (self\<lparr>dg_clients := Some (tr_clients transcript)\<rparr>, Some (Msg_Snapshot cursor transcript))"
| "downgrade_message self (Msg_Change change cursor) = downgrade_change self change cursor"
| "downgrade_message self m = (self, Some m)"

definition Downgrade_message :: "Downgrade \<Rightarrow> ChatServerMessage \<Rightarrow> Downgrade \<times> ChatServerMessage option" where
  "Downgrade_message self m = (if Downgrade_current self then (self, Some m) else downgrade_message self m)"

section \<open>What an emission does to the session\<close>

text \<open>
  The part of the session its clients depend on, and the steps an emission takes on it: a change that fits is
  published, and nothing else touches it. A relation that holds of both steps holds of an emission.
\<close>

definition same_core :: "ChatSession \<Rightarrow> ChatSession \<Rightarrow> bool" where
  "same_core s s' \<longleftrightarrow>
     ss_epoch s' = ss_epoch s \<and> ss_seq s' = ss_seq s \<and> ss_log s' = ss_log s \<and> ss_log_bytes s' = ss_log_bytes s \<and>
     ss_transcript s' = ss_transcript s \<and> ss_subscribers s' = ss_subscribers s \<and> ss_channels s' = ss_channels s \<and>
     ss_handled s' = ss_handled s \<and> ss_config s' = ss_config s"

locale silently =
  fixes rel :: "ChatSession \<Rightarrow> ChatSession \<Rightarrow> bool"
  assumes rel_trans: "rel s s' \<Longrightarrow> rel s' s'' \<Longrightarrow> rel s s''"
    and rel_silent: "same_core s s' \<Longrightarrow> rel s s'"
begin

lemma rel_refl: "rel s s"
  by (rule rel_silent) (simp add: same_core_def)

lemma report_activity_rel: "rel s (report_activity s)"
  by (rule rel_silent) (simp add: same_core_def report_activity_def Let_def)

lemma note_message_rel: "rel s (note_message s e)"
  by (rule rel_silent) (simp add: same_core_def note_message_def split: EntryKind.split)

lemma emit_pictures_rel:
  assumes "\<And>s c s'. emit s c = Some s' \<Longrightarrow> rel s s'" "emit_pictures emit s pics = Some s'"
  shows "rel s s'"
  using assms(2)
proof (induction pics arbitrary: s)
  case (Cons pic pics)
  obtain c p where c: "Projector_image (ss_projector s) Author_Agent pic = (c, p)" by (cases "Projector_image (ss_projector s) Author_Agent pic")
  with Cons.prems obtain s1 where s1: "emit (s\<lparr>ss_projector := p\<rparr>) c = Some s1" "emit_pictures emit s1 pics = Some s'"
    by (auto simp: bind_eq_Some_conv)
  have "rel s (s\<lparr>ss_projector := p\<rparr>)" by (rule rel_silent) (simp add: same_core_def)
  from rel_trans [OF this rel_trans [OF assms(1) [OF s1(1)] Cons.IH [OF s1(2)]]] show ?case .
qed (simp add: rel_refl)

lemma pictures_before_rel:
  assumes "\<And>s c s'. emit s c = Some s' \<Longrightarrow> rel s s'" "pictures_before emit io s c = Some (s', c')"
  shows "rel s s'"
proof -
  have silent: "rel s (s\<lparr>ss_pictures := x\<rparr>)" "rel s (s\<lparr>ss_projector := y\<rparr>)" for s x y
    by (rule rel_silent, simp add: same_core_def)+
  show ?thesis
  proof (cases c)
    case (Change_Push e)
    show ?thesis
    proof (cases "\<exists>i. pi_open (ss_pictures s) = Some i \<and> i \<noteq> en_id e")
      case True
      then obtain i where i: "pi_open (ss_pictures s) = Some i" "i \<noteq> en_id e" by blast
      let ?pics = "linked_pictures io (ss_transcript s) i"
      let ?s1 = "s\<lparr>ss_pictures := (ss_pictures s)\<lparr>pi_open := None\<rparr>\<rparr>"
      let ?new = "\<lambda>s2. fst (renumber (ss_projector s2) (en_id e))" and ?p = "\<lambda>s2. snd (renumber (ss_projector s2) (en_id e))"
      from assms(2) i Change_Push obtain s2 where s2: "emit_pictures emit ?s1 ?pics = Some s2"
        and s': "s' = (if ?pics = [] then note_message s2 e else note_message (s2\<lparr>ss_projector := ?p s2\<rparr>) (e\<lparr>en_id := ?new s2\<rparr>))"
        by (auto simp: bind_eq_Some_conv Let_def case_prod_beta split: if_splits)
      have r2: "rel s s2" using rel_trans [OF silent(1) emit_pictures_rel [OF assms(1) s2]] .
      from s' show ?thesis
        using rel_trans [OF rel_trans [OF r2 silent(2)] note_message_rel] rel_trans [OF r2 note_message_rel] by simp
    next
      case False
      with assms(2) Change_Push show ?thesis
        by (auto simp: rel_refl note_message_rel split: option.splits if_splits)
    qed
  qed (use assms(2) in \<open>auto simp: rel_refl\<close>)
qed

lemma bound_rel:
  assumes "\<And>s c s'. emit s c = Some s' \<Longrightarrow> rel s s'" "bound emit s = Some s'"
  shows "rel s s'"
  using assms by (auto simp: bound_def Let_def rel_refl split: if_splits)

lemma pictures_after_rel:
  assumes "\<And>s c s'. emit s c = Some s' \<Longrightarrow> rel s s'" "pictures_after emit io s c = Some s'"
  shows "rel s s'"
proof -
  have silent: "rel s (s\<lparr>ss_pictures := x\<rparr>)" for x by (rule rel_silent) (simp add: same_core_def)
  from assms(2) show ?thesis
    by (auto simp: pictures_after_def Let_def rel_refl silent intro: rel_trans [OF silent assms(1)] split: option.splits if_splits)
qed

end

locale emission = silently +
  assumes rel_publish: "Transcript_apply (ss_transcript s) change = (transcript, Inr u) \<Longrightarrow> rel s (publish s transcript change)"
begin

lemma emit_body_rel:
  assumes emit: "\<And>s c s'. emit s c = Some s' \<Longrightarrow> rel s s'" and body: "emit_body emit io s c = Some s'"
  shows "rel s s'"
proof -
  from body obtain s1 c1 where 1: "pictures_before emit io s c = Some (s1, c1)"
    by (auto simp: emit_body_def bind_eq_Some_conv)
  note r1 = pictures_before_rel [OF emit 1]
  obtain t r where t: "Transcript_apply (ss_transcript s1) c1 = (t, r)" by (cases "Transcript_apply (ss_transcript s1) c1")
  show ?thesis
  proof (cases r)
    case (Inl e)
    with body 1 t have "s' = s1" by (simp add: emit_body_def)
    with r1 show ?thesis by simp
  next
    case (Inr u)
    let ?s2 = "publish s1 t c1"
    from body 1 t Inr obtain s3 s4 where
      3: "(if changes_entry c1 then bound emit ?s2 else Some ?s2) = Some s3" and
      4: "(if remote_clients s3 \<noteq> remote_clients s1 then emit s3 (Change_Clients (remote_clients s3)) else Some s3) = Some s4" and
      5: "pictures_after emit io (report_activity s4) c1 = Some s'"
      by (auto simp: emit_body_def Let_def bind_eq_Some_conv)
    have "rel s1 ?s2" using rel_publish t Inr by blast
    moreover have "rel ?s2 s3" using 3 bound_rel [where emit = emit, OF emit] by (auto simp: rel_refl split: if_splits)
    moreover have "rel s3 s4" using 4 emit by (auto simp: rel_refl split: if_splits)
    moreover have "rel (report_activity s4) s'" using pictures_after_rel [where emit = emit, OF emit 5] .
    ultimately show ?thesis using r1 report_activity_rel rel_trans by meson
  qed
qed

lemma emit_fuel_rel: "emit_fuel n io s c = Some s' \<Longrightarrow> rel s s'"
  by (induction n arbitrary: s c s') (auto intro: emit_body_rel)

lemma Session_emit_rel: "rel s (Session_emit io s c)"
  using emit_fuel_rel by (auto simp: Session_emit_def rel_refl split: option.split)

end

text \<open>The same for relations that only hold of a whole emission.\<close>

locale emitted = silently +
  assumes rel_emit: "rel s (Session_emit io s c)"

sublocale emission \<subseteq> emitted
  by unfold_locales (rule Session_emit_rel)

text \<open>Clients only leave during an emission.\<close>

lemma broadcast_subseq: "subseq (fst (broadcast ss channels m)) ss"
proof (induction ss arbitrary: channels)
  case (Cons s ss)
  then show ?case by (cases "try_send (channels (sb_outbox s)) m") (simp_all add: case_prod_beta Let_def list_emb_Cons)
qed simp

lemma publish_fields [simp]:
  "ss_transcript (publish s transcript c) = transcript"
  "ss_epoch (publish s transcript c) = ss_epoch s"
  "ss_seq (publish s transcript c) = ss_seq s + 1"
  "ss_handled (publish s transcript c) = ss_handled s"
  "ss_config (publish s transcript c) = ss_config s"
  "ss_pictures (publish s transcript c) = ss_pictures s"
  "ss_asked (publish s transcript c) = ss_asked s"
  "ss_turn (publish s transcript c) = ss_turn s"
  "ss_ready (publish s transcript c) = ss_ready s"
  "ss_projector (publish s transcript c) = forget_truncated c (ss_projector s)"
  by (simp_all add: publish_def Let_def split: prod.split)

lemma publish_subscribers:
  "ss_subscribers (publish s transcript c) =
     fst (broadcast (ss_subscribers s) (ss_channels s) (Msg_Change c \<lparr>cu_epoch = ss_epoch s, cu_seq = ss_seq s + 1\<rparr>))"
  "ss_channels (publish s transcript c) =
     snd (broadcast (ss_subscribers s) (ss_channels s) (Msg_Change c \<lparr>cu_epoch = ss_epoch s, cu_seq = ss_seq s + 1\<rparr>))"
  by (simp_all add: publish_def Let_def Session_cursor_def split: prod.split)

interpretation leaving: emission "\<lambda>s s'. subseq (ss_subscribers s') (ss_subscribers s)"
  by unfold_locales (auto simp: same_core_def publish_subscribers broadcast_subseq intro: subseq_order.trans)

lemma remote_clients_fewer:
  assumes "subseq (ss_subscribers s') (ss_subscribers s)" "remote_clients s' \<noteq> remote_clients s"
  shows "length (ss_subscribers s') < length (ss_subscribers s)"
proof -
  have "ss_subscribers s' \<noteq> ss_subscribers s" using assms(2) by (auto simp: remote_clients_def)
  then have "length (ss_subscribers s') \<noteq> length (ss_subscribers s)" using subseq_same_length [OF assms(1)] by blast
  then show ?thesis using list_emb_length [OF assms(1)] by simp
qed

section \<open>An emission ends\<close>

lemma report_activity_pictures [simp]:
  "ss_pictures (report_activity s) = ss_pictures s" "ss_subscribers (report_activity s) = ss_subscribers s"
  by (simp_all add: report_activity_def Let_def)

text \<open>The part of \<open>emit\<close> after the publication, with the calls it makes.\<close>

lemma emit_body_total:
  assumes before: "pictures_before emit io s c = Some (s1, c1)"
    and bound: "\<And>t u. Transcript_apply (ss_transcript s1) c1 = (t, Inr u) \<Longrightarrow> changes_entry c1 \<Longrightarrow>
                  \<exists>s'. bound emit (publish s1 t c1) = Some s' \<and> ss_pictures s' = ss_pictures s1
                       \<and> subseq (ss_subscribers s') (ss_subscribers s1)"
    and clients: "\<And>s2 k. length (ss_subscribers s2) < length (ss_subscribers s1) \<Longrightarrow>
                  \<exists>s'. emit s2 (Change_Clients k) = Some s' \<and> ss_pictures s' = ss_pictures s2
                       \<and> subseq (ss_subscribers s') (ss_subscribers s2)"
    and after: "\<And>s2. ss_pictures s2 = ss_pictures s1 \<Longrightarrow> subseq (ss_subscribers s2) (ss_subscribers s1) \<Longrightarrow>
                  \<exists>s'. pictures_after emit io s2 c1 = Some s' \<and> P s'"
    and err: "P s1"
  shows "\<exists>s'. emit_body emit io s c = Some s' \<and> P s'"
proof -
  obtain t r where t: "Transcript_apply (ss_transcript s1) c1 = (t, r)" by (cases "Transcript_apply (ss_transcript s1) c1")
  show ?thesis
  proof (cases r)
    case (Inl e)
    then show ?thesis using before t err by (simp add: emit_body_def)
  next
    case (Inr u)
    let ?s2 = "publish s1 t c1"
    have pub: "subseq (ss_subscribers ?s2) (ss_subscribers s1)" by (simp add: publish_subscribers broadcast_subseq)
    obtain s3 where s3: "(if changes_entry c1 then bound emit ?s2 else Some ?s2) = Some s3" "ss_pictures s3 = ss_pictures s1"
      "subseq (ss_subscribers s3) (ss_subscribers s1)"
      using bound t Inr pub by (cases "changes_entry c1") auto
    obtain s4 where s4: "(if remote_clients s3 \<noteq> remote_clients s1 then emit s3 (Change_Clients (remote_clients s3)) else Some s3) = Some s4"
      "ss_pictures s4 = ss_pictures s1" "subseq (ss_subscribers s4) (ss_subscribers s1)"
    proof (cases "remote_clients s3 = remote_clients s1")
      case False
      with clients [of s3 "remote_clients s3"] remote_clients_fewer [OF s3(3)] s3 that show ?thesis
        by (auto intro: subseq_order.trans)
    qed (use s3 that in simp)
    obtain s' where s': "pictures_after emit io (report_activity s4) c1 = Some s'" "P s'" using after [of "report_activity s4"] s4 by auto
    have "emit_body emit io s c = pictures_after emit io (report_activity s4) c1"
      using before t Inr s3(1) s4(1) by (simp add: emit_body_def Let_def)
    with s' show ?thesis by simp
  qed
qed

definition settled :: "Pictures \<Rightarrow> ChatChange \<Rightarrow> bool" where
  "settled pics c \<longleftrightarrow>
     (case c of Change_Push e \<Rightarrow> pi_open pics = None | _ \<Rightarrow> True) \<and>
     (case changed_tool c of Some (e, tool) \<Rightarrow> tl_status tool \<noteq> Tool_Completed \<or> tl_call_id tool \<in> set (pi_tools pics) | None \<Rightarrow> True)"

lemma pictures_before_plain: "\<not> changes_entry c \<Longrightarrow> pictures_before emit io s c = Some (s, c)"
  by (cases c) auto

lemma pictures_after_quiet: "settled (ss_pictures s) c \<Longrightarrow> pictures_after emit io s c = Some s"
  by (auto simp: pictures_after_def settled_def split: option.splits)

lemma plain_quiet: "\<not> changes_entry c \<Longrightarrow> settled pics c"
  by (cases c) (auto simp: settled_def)

lemma emit_plain:
  assumes "\<not> changes_entry c" "length (ss_subscribers s) < n"
  shows "\<exists>s'. emit_fuel n io s c = Some s' \<and> ss_pictures s' = ss_pictures s \<and> subseq (ss_subscribers s') (ss_subscribers s)"
  using assms
proof (induction n arbitrary: s c)
  case (Suc n)
  have "\<exists>s'. emit_body (emit_fuel n io) io s c = Some s' \<and> ss_pictures s' = ss_pictures s \<and> subseq (ss_subscribers s') (ss_subscribers s)"
  proof (rule emit_body_total)
    show "\<exists>s'. pictures_after (emit_fuel n io) io s2 c = Some s' \<and> ss_pictures s' = ss_pictures s \<and> subseq (ss_subscribers s') (ss_subscribers s)"
      if "ss_pictures s2 = ss_pictures s" "subseq (ss_subscribers s2) (ss_subscribers s)" for s2
      using that Suc.prems(1) by (simp add: pictures_after_quiet plain_quiet)
  qed (use Suc in \<open>auto simp: pictures_before_plain\<close>)
  then show ?case by simp
qed simp

lemma bound_total:
  assumes "length (ss_subscribers s) < n"
  shows "\<exists>s'. bound (emit_fuel n io) s = Some s' \<and> ss_pictures s' = ss_pictures s \<and> subseq (ss_subscribers s') (ss_subscribers s)"
  using assms emit_plain [of "Change_Truncate (en_id (tr_entries (ss_transcript s) ! keep_from (tr_entries (ss_transcript s))))" s n io]
  by (auto simp: bound_def Let_def)

text \<open>The pictures an emission leaves when it takes none.\<close>

fun noted :: "ChatChange \<Rightarrow> Pictures \<Rightarrow> Pictures" where
  "noted (Change_Push e) pics = (case en_kind e of Entry_Agent _ \<Rightarrow> pics\<lparr>pi_open := Some (en_id e)\<rparr> | _ \<Rightarrow> pics)"
| "noted _ pics = pics"

lemma noted_tools [simp]: "pi_tools (noted c pics) = pi_tools pics"
  by (cases c) (auto split: EntryKind.split)

lemma pictures_before_quiet:
  "settled (ss_pictures s) c \<Longrightarrow> pictures_before emit io s c = Some (s\<lparr>ss_pictures := noted c (ss_pictures s)\<rparr>, c)"
  by (cases c) (auto simp: settled_def note_message_def split: EntryKind.splits)

lemma emit_quiet:
  assumes "settled (ss_pictures s) c" "length (ss_subscribers s) + 1 < n"
  shows "\<exists>s'. emit_fuel n io s c = Some s' \<and> ss_pictures s' = noted c (ss_pictures s) \<and> subseq (ss_subscribers s') (ss_subscribers s)"
proof -
  obtain m where m: "n = Suc m" "length (ss_subscribers s) < m" using assms(2) by (cases n) auto
  let ?s1 = "s\<lparr>ss_pictures := noted c (ss_pictures s)\<rparr>"
  have q: "changed_tool c = None \<or> (\<exists>e tool. changed_tool c = Some (e, tool) \<and>
      (tl_status tool \<noteq> Tool_Completed \<or> tl_call_id tool \<in> set (pi_tools (ss_pictures s))))"
    using assms(1) by (auto simp: settled_def split: option.splits)
  have "\<exists>s'. emit_body (emit_fuel m io) io s c = Some s' \<and> ss_pictures s' = noted c (ss_pictures s) \<and> subseq (ss_subscribers s') (ss_subscribers s)"
  proof (rule emit_body_total)
    show "pictures_before (emit_fuel m io) io s c = Some (?s1, c)" using assms(1) by (rule pictures_before_quiet)
    show "\<exists>s'. bound (emit_fuel m io) (publish ?s1 t c) = Some s' \<and> ss_pictures s' = ss_pictures ?s1 \<and>
        subseq (ss_subscribers s') (ss_subscribers ?s1)" for t
    proof -
      have sub: "subseq (ss_subscribers (publish ?s1 t c)) (ss_subscribers s)" by (simp add: publish_subscribers broadcast_subseq)
      then have "length (ss_subscribers (publish ?s1 t c)) < m" using m list_emb_length [OF sub] by simp
      from bound_total [OF this] sub show ?thesis by (auto intro: subseq_order.trans)
    qed
    show "\<exists>s'. emit_fuel m io s2 (Change_Clients k) = Some s' \<and> ss_pictures s' = ss_pictures s2 \<and>
        subseq (ss_subscribers s') (ss_subscribers s2)" if "length (ss_subscribers s2) < length (ss_subscribers ?s1)" for s2 k
      using emit_plain [of "Change_Clients k" s2 m io] that m by simp
    show "\<exists>s'. pictures_after (emit_fuel m io) io s2 c = Some s' \<and> ss_pictures s' = noted c (ss_pictures s) \<and>
        subseq (ss_subscribers s') (ss_subscribers s)"
      if "ss_pictures s2 = ss_pictures ?s1" "subseq (ss_subscribers s2) (ss_subscribers ?s1)" for s2
      using that q by (auto simp: pictures_after_def)
  qed simp
  with m show ?thesis by simp
qed

lemma emit_pictures_total:
  assumes "pi_open (ss_pictures s) = None" "length (ss_subscribers s) + 1 < n"
  shows "\<exists>s'. emit_pictures (emit_fuel n io) s pics = Some s' \<and> pi_open (ss_pictures s') = None \<and> subseq (ss_subscribers s') (ss_subscribers s)"
  using assms
proof (induction pics arbitrary: s)
  case (Cons pic pics)
  obtain e p where c: "Projector_image (ss_projector s) Author_Agent pic = (Change_Push e, p)" "en_kind e = Entry_Image Author_Agent pic"
    by (auto simp: Projector_image_def push_entry_def next_id_def)
  have q: "settled (ss_pictures s) (Change_Push e)" using Cons.prems(1) c(2) by (simp add: settled_def)
  obtain s1 where s1: "emit_fuel n io (s\<lparr>ss_projector := p\<rparr>) (Change_Push e) = Some s1"
    "pi_open (ss_pictures s1) = None" "subseq (ss_subscribers s1) (ss_subscribers s)"
    using emit_quiet [of "s\<lparr>ss_projector := p\<rparr>" "Change_Push e" n io] q Cons.prems c(2) by auto
  have "length (ss_subscribers s1) + 1 < n" using s1(3) Cons.prems(2) list_emb_length [OF s1(3)] by simp
  from Cons.IH [OF s1(2) this] s1 c(1) show ?case by (auto intro: subseq_order.trans)
qed simp

lemma pictures_before_total:
  assumes "length (ss_subscribers s) + 1 < n"
  shows "\<exists>s' c'. pictures_before (emit_fuel n io) io s c = Some (s', c') \<and> subseq (ss_subscribers s') (ss_subscribers s)"
proof (cases "\<exists>e i. c = Change_Push e \<and> pi_open (ss_pictures s) = Some i \<and> i \<noteq> en_id e")
  case True
  then obtain e i where c: "c = Change_Push e" "pi_open (ss_pictures s) = Some i" "i \<noteq> en_id e" by blast
  let ?s1 = "s\<lparr>ss_pictures := (ss_pictures s)\<lparr>pi_open := None\<rparr>\<rparr>"
  obtain s2 where s2: "emit_pictures (emit_fuel n io) ?s1 (linked_pictures io (ss_transcript s) i) = Some s2"
    "subseq (ss_subscribers s2) (ss_subscribers s)"
    using emit_pictures_total [of ?s1 n io "linked_pictures io (ss_transcript s) i"] assms by auto
  have "ss_subscribers (note_message x e') = ss_subscribers x" for x e'
    by (simp add: note_message_def split: EntryKind.split)
  then show ?thesis using c s2 by (auto simp: Let_def split: prod.split)
next
  case False
  then show ?thesis by (cases c) (auto simp: note_message_def split: option.splits EntryKind.splits)
qed

lemma pictures_after_total:
  assumes "length (ss_subscribers s) + 1 < n"
  shows "\<exists>s'. pictures_after (emit_fuel n io) io s c = Some s'"
proof (cases "changed_tool c")
  case (Some x)
  obtain e tool where x: "x = (e, tool)" by (cases x)
  let ?s1 = "s\<lparr>ss_pictures := (ss_pictures s)\<lparr>pi_tools := tl_call_id tool # pi_tools (ss_pictures s)\<rparr>\<rparr>"
  let ?c1 = "Change_Replace (e\<lparr>en_kind := Entry_Tool (tool\<lparr>tl_content := tl_content tool @ of_tool io tool\<rparr>)\<rparr>)"
  have "settled (ss_pictures ?s1) ?c1" by (simp add: settled_def)
  from emit_quiet [OF this] assms Some x show ?thesis by (auto simp: pictures_after_def Let_def)
qed (simp add: pictures_after_def)

text \<open>Fuel for the clients that may leave one by one and for three calls inside each other.\<close>

lemma emit_total:
  assumes "length (ss_subscribers s) + 4 \<le> n"
  shows "\<exists>s'. emit_fuel n io s c = Some s'"
proof -
  obtain m where m: "n = Suc m" "length (ss_subscribers s) + 2 < m" using assms by (cases n) auto
  obtain s1 c1 where s1: "pictures_before (emit_fuel m io) io s c = Some (s1, c1)" "subseq (ss_subscribers s1) (ss_subscribers s)"
    using pictures_before_total [of s m io c] m by auto
  have len: "length (ss_subscribers s1) + 2 < m" using m list_emb_length [OF s1(2)] by simp
  have "\<exists>s'. emit_body (emit_fuel m io) io s c = Some s' \<and> True"
  proof (rule emit_body_total [OF s1(1)])
    show "\<exists>s'. bound (emit_fuel m io) (publish s1 t c1) = Some s' \<and> ss_pictures s' = ss_pictures s1 \<and>
        subseq (ss_subscribers s') (ss_subscribers s1)" for t
    proof -
      have sub: "subseq (ss_subscribers (publish s1 t c1)) (ss_subscribers s1)" by (simp add: publish_subscribers broadcast_subseq)
      then have "length (ss_subscribers (publish s1 t c1)) < m" using len list_emb_length [OF sub] by simp
      from bound_total [OF this] sub show ?thesis by (auto intro: subseq_order.trans)
    qed
    show "\<exists>s'. emit_fuel m io s2 (Change_Clients k) = Some s' \<and> ss_pictures s' = ss_pictures s2 \<and>
        subseq (ss_subscribers s') (ss_subscribers s2)" if "length (ss_subscribers s2) < length (ss_subscribers s1)" for s2 k
      using emit_plain [of "Change_Clients k" s2 m io] that len by simp
    show "\<exists>s'. pictures_after (emit_fuel m io) io s2 c1 = Some s' \<and> True"
      if "subseq (ss_subscribers s2) (ss_subscribers s1)" for s2
      using pictures_after_total [of s2 m io c1] len list_emb_length [OF that] by simp
  qed simp
  with m show ?thesis by simp
qed

lemma Session_emit_eq: "emit_fuel (length (ss_subscribers s) + 4) io s c = Some (Session_emit io s c)"
  using emit_total [of s "length (ss_subscribers s) + 4" io c] by (auto simp: Session_emit_def)

end
