(* ===== verification/Chat_Commands.thy ===== *)
theory Chat_Commands
  imports Chat_Session
begin

text \<open>
  What the chat program's session does with its inputs: the commands of its clients (\<open>session/commands.rs\<close>) and the
  messages of its agent (\<open>session/agent.rs\<close>), with the requests and failures of \<open>session.rs\<close>.

  The agent's JSON values, of a type of their own, are read through \<open>AcpLib\<close>, which stands for serde_json and the types
  of the agent protocol's package. The clock is read once in a step.
\<close>

section \<open>What the agent's values say\<close>

datatype StopReason = Stop_EndTurn | Stop_Cancelled | Stop_MaxTokens | Stop_MaxTurnRequests | Stop_Refusal | Stop_Other

text \<open>The handshake's answer: embedded files, images, and whether sessions can be loaded.\<close>

record InitializeResponse =
  ir_embedded :: bool
  ir_image :: bool
  ir_load_session :: bool

text \<open>A question: the session it is for, the call, what the call says, and its options.\<close>

record PermissionRequest =
  rq_session :: str
  rq_call :: str
  rq_fields :: ToolFields
  rq_options :: "PermissionOption list"

record AgentError =
  ae_auth_required :: bool
  ae_message :: str

record 'v AcpLib =
  al_initialize :: "'v \<Rightarrow> str + InitializeResponse"
  al_options :: "'v \<Rightarrow> ConfigOption list option"
  al_load_modes :: "'v \<Rightarrow> ChatModes option"
  al_new_session :: "'v \<Rightarrow> str + (str \<times> ChatModes option)"
  al_prompt :: "'v \<Rightarrow> StopReason option"
  al_tokens :: "'v \<Rightarrow> Tokens option"
  al_session_id :: "'v \<Rightarrow> str option"
  al_config_update :: "'v \<Rightarrow> ConfigOption list option"
  al_notification :: "'v \<Rightarrow> (str \<times> SessionUpdate) option"
  al_permission :: "'v \<Rightarrow> PermissionRequest option"

datatype 'v Inbound =
    Inbound_Request nat str 'v
  | Inbound_Notification str 'v
  | Inbound_Response nat "AgentError + 'v"
  | Inbound_Closed "str option"

section \<open>Statuses, queues and failures\<close>

definition Session_status :: "ChatIo \<Rightarrow> ChatSession \<Rightarrow> ChatStatus \<Rightarrow> ChatSession" where
  "Session_status io self status =
     (if tr_status (ss_transcript self) \<noteq> status then Session_emit io self (Change_Status status) else self)"

definition queue_changed :: "ChatIo \<Rightarrow> ChatSession \<Rightarrow> ChatQueued list \<Rightarrow> ChatSession" where
  "queue_changed io self queued = Session_emit io self (Change_Queue queued)"

definition clear_queue :: "ChatIo \<Rightarrow> ChatSession \<Rightarrow> ChatSession" where
  "clear_queue io self = (if tr_queued (ss_transcript self) \<noteq> [] then queue_changed io self [] else self)"

text \<open>A change the projector makes, emitted.\<close>

definition emit_made :: "ChatIo \<Rightarrow> ChatSession \<Rightarrow> ChatChange \<times> Projector \<Rightarrow> ChatSession" where
  "emit_made io self made = Session_emit io (self\<lparr>ss_projector := snd made\<rparr>) (fst made)"

definition Session_notice :: "ChatIo \<Rightarrow> ChatSession \<Rightarrow> NoticeLevel \<Rightarrow> str \<Rightarrow> ChatSession" where
  "Session_notice io self level t = emit_made io self (Projector_notice (ss_projector self) level t)"

definition Session_fail :: "ChatIo \<Rightarrow> ChatSession \<Rightarrow> str \<Rightarrow> ChatSession" where
  "Session_fail io self message =
     clear_queue io (Session_status io (Session_notice io self Notice_Error message) (Status_Failed message))"

definition AGENT_STALLED :: str where
  "AGENT_STALLED = chars ''the agent stopped reading its input''"

definition Session_request :: "ChatIo \<Rightarrow> ChatSession \<Rightarrow> AgentRequest \<Rightarrow> PendingRequest \<Rightarrow> bool \<times> ChatSession" where
  "Session_request io self req pending =
     (let self = self\<lparr>ss_next_request := ss_next_request self + 1\<rparr>; i = ss_next_request self in
      case try_send (ss_outbox self) (Line_Request i req) of
        Some out \<Rightarrow> (True, self\<lparr>ss_outbox := out, ss_pending := AList.update i pending (ss_pending self)\<rparr>)
      | None \<Rightarrow> (False, Session_fail io self AGENT_STALLED))"

text \<open>\<open>Outbox::respond\<close> and \<open>Outbox::notify\<close>: whether the line was queued.\<close>

definition send_line :: "ChatSession \<Rightarrow> AgentLine \<Rightarrow> bool \<times> ChatSession" where
  "send_line self line =
     (case try_send (ss_outbox self) line of
        Some out \<Rightarrow> (True, self\<lparr>ss_outbox := out\<rparr>)
      | None \<Rightarrow> (False, self))"

definition Session_start :: "ChatIo \<Rightarrow> ChatSession \<Rightarrow> ChatSession" where
  "Session_start io self = report_activity (snd (Session_request io self Req_Initialize Pending_Initialize))"

section \<open>Questions\<close>

definition Session_resolve :: "ChatIo \<Rightarrow> ChatSession \<Rightarrow> PermissionId \<Rightarrow> str option \<Rightarrow> ChatSession" where
  "Session_resolve io self permission opt =
     (case map_of (ss_asked self) permission of
        None \<Rightarrow> self
      | Some asked \<Rightarrow>
          (let self = self\<lparr>ss_asked := AList.delete permission (ss_asked self)\<rparr>;
               outcome = (case opt of Some i \<Rightarrow> Outcome_Selected i | None \<Rightarrow> Outcome_Cancelled);
               (sent, self) = send_line self (Line_Answer (ak_request asked) outcome);
               self = (if sent then self else Session_fail io self AGENT_STALLED)
           in Session_emit io self (Change_PermissionResolved permission)))"

definition resolve_all :: "ChatIo \<Rightarrow> ChatSession \<Rightarrow> ChatSession" where
  "resolve_all io self = foldl (\<lambda>self p. Session_resolve io self p None) self (sort (map fst (ss_asked self)))"

definition auto_answer :: "ChatIo \<Rightarrow> ChatSession \<Rightarrow> PermissionId \<Rightarrow> ChatSession" where
  "auto_answer io self permission =
     (if \<not> tr_auto_accept (ss_transcript self) then self
      else case Option.bind (List.find (\<lambda>asked. pm_id asked = permission) (tr_permissions (ss_transcript self))) allow_option of
        Some opt \<Rightarrow> Session_resolve io self permission (Some (po_id opt))
      | None \<Rightarrow> self)"

definition set_auto_accept :: "ChatIo \<Rightarrow> ChatSession \<Rightarrow> bool \<Rightarrow> ChatSession" where
  "set_auto_accept io self on =
     (let self = (if tr_auto_accept (ss_transcript self) \<noteq> on then Session_emit io self (Change_AutoAccept on) else self) in
      if on then foldl (auto_answer io) self (map pm_id (tr_permissions (ss_transcript self))) else self)"

definition Session_answer :: "ChatIo \<Rightarrow> ChatSession \<Rightarrow> PermissionId \<Rightarrow> str \<Rightarrow> ChatSession \<times> Rejection option" where
  "Session_answer io self permission opt =
     (case map_of (ss_asked self) permission of
        None \<Rightarrow> (self, Some Rejected_UnknownPermission)
      | Some asked \<Rightarrow>
          if opt \<notin> set (ak_options asked) then (self, Some UnknownOption)
          else (Session_resolve io self permission (Some opt), None))"

section \<open>Prompts\<close>

definition MAX_QUEUED :: nat where "MAX_QUEUED = 32"
definition MAX_QUEUED_TEXT :: nat where "MAX_QUEUED_TEXT = 1024 * 1024"

text \<open>A paper clip and a space before each file's name.\<close>

definition ATTACHED :: str where "ATTACHED = [128206, 32]"

definition shown_prompt :: "str \<Rightarrow> Attachment list \<Rightarrow> str" where
  "shown_prompt t attachments =
     foldl (\<lambda>shown a. (if shown = [] then [] else shown @ [10]) @ ATTACHED @ Attachment_name a) t attachments"

text \<open>The prepared files' pictures, each an entry, and the blocks of the prompt.\<close>

fun emit_prepared :: "ChatIo \<Rightarrow> ChatSession \<Rightarrow> (str \<times> Image option) list \<Rightarrow> ChatSession" where
  "emit_prepared io self [] = self"
| "emit_prepared io self ((_, pic) # items) =
     emit_prepared io
       (case pic of Some p \<Rightarrow> emit_made io self (Projector_image (ss_projector self) Author_User p) | None \<Rightarrow> self) items"

definition prompt_blocks :: "str \<Rightarrow> (str \<times> Image option) list \<Rightarrow> str list" where
  "prompt_blocks t items = (if trim t = [] then [] else [t]) @ map fst items"

definition send_prompt :: "ChatIo \<Rightarrow> ChatSession \<Rightarrow> str \<Rightarrow> Attachment list \<Rightarrow> ChatSession" where
  "send_prompt io self t attachments =
     (case ss_acp_session self of
        None \<Rightarrow> self
      | Some session \<Rightarrow>
          (let prepared = map (io_prepare io) attachments;
               shown = shown_prompt t attachments;
               self = emit_made io self (Projector_prompt (ss_projector self) shown (length attachments));
               self = emit_prepared io self prepared;
               (sent, self) = Session_request io self (Req_Prompt session (prompt_blocks t prepared)) Pending_Prompt
           in if \<not> sent then self
              else
                (let self = self\<lparr>ss_reports := ss_reports self @ [Report_Prompt shown], ss_turn := Some (ss_next_request self)\<rparr>;
                     self = Session_emit io self (Change_Turn (Some \<lparr>tu_started_ms = io_now io\<rparr>))
                 in Session_status io self Status_Working)))"

definition Session_prompt ::
  "ChatIo \<Rightarrow> ChatSession \<Rightarrow> CommandId \<Rightarrow> str \<Rightarrow> Attachment list \<Rightarrow> ChatSession \<times> Rejection option" where
  "Session_prompt io self i t attachments =
     (if trim t = [] \<and> attachments = [] then (self, Some EmptyPrompt)
      else if MAX_ATTACHMENTS < length attachments then (self, Some TooManyAttachments)
      else if \<not> list_all (io_readable io) attachments then (self, Some UnknownFile)
      else if MAX_PROMPT_SIZE < str_len t then (self, Some PromptTooLong)
      else if \<not> accepts_prompts (tr_status (ss_transcript self)) then (self, Some NotReady)
      else if ss_turn self \<noteq> None \<or> \<not> ss_ready self then
        (let waiting = tr_queued (ss_transcript self);
             text_size = sum_list (map (\<lambda>q. str_len (qu_text q)) waiting)
         in if MAX_QUEUED \<le> length waiting \<or> MAX_QUEUED_TEXT < text_size + str_len t then (self, Some QueueFull)
            else (queue_changed io self (waiting @ [\<lparr>qu_attachments = attachments, qu_id = i, qu_text = t\<rparr>]), None))
      else (send_prompt io self t attachments, None))"

definition next_queued :: "ChatIo \<Rightarrow> ChatSession \<Rightarrow> ChatSession" where
  "next_queued io self =
     (if ss_turn self \<noteq> None \<or> \<not> ss_ready self then self
      else case tr_queued (ss_transcript self) of
        [] \<Rightarrow> self
      | queued # rest \<Rightarrow> send_prompt io (queue_changed io self rest) (qu_text queued) (qu_attachments queued))"

definition Session_cancel :: "ChatIo \<Rightarrow> ChatSession \<Rightarrow> ChatSession \<times> Rejection option" where
  "Session_cancel io self =
     (if ss_turn self = None \<and> tr_queued (ss_transcript self) = [] then (self, Some NotWorking)
      else
        (let self = resolve_all io (clear_queue io self) in
         case (ss_turn self, ss_acp_session self) of
           (Some _, Some session) \<Rightarrow>
             (let (sent, self) = send_line self (Line_Cancel session) in
              if sent then (self, None) else (Session_fail io self AGENT_STALLED, Some AgentUnavailable))
         | _ \<Rightarrow> (self, None)))"

definition Session_unqueue :: "ChatIo \<Rightarrow> ChatSession \<Rightarrow> CommandId \<Rightarrow> ChatSession \<times> Rejection option" where
  "Session_unqueue io self i =
     (let queued = tr_queued (ss_transcript self) in
      case iter_position (\<lambda>q. qu_id q = i) queued of
        None \<Rightarrow> (self, Some UnknownQueued)
      | Some index \<Rightarrow> (Session_emit io self (Change_Queue (remove_at index queued)), None))"

section \<open>Settings\<close>

definition set_mode :: "ChatIo \<Rightarrow> ChatSession \<Rightarrow> str \<Rightarrow> ChatSession \<times> Rejection option" where
  "set_mode io self mode =
     (case ss_acp_session self of
        None \<Rightarrow> (self, Some NotReady)
      | Some session \<Rightarrow>
          if \<not> (case tr_modes (ss_transcript self) of
                   Some modes \<Rightarrow> list_ex (\<lambda>known. mo_id known = mode) (mos_available modes) | None \<Rightarrow> False)
          then (self, Some UnknownMode)
          else (let (sent, self) = Session_request io self (Req_SetMode session mode) (Pending_SetMode mode) in
                (self, if sent then None else Some AgentUnavailable)))"

definition set_option :: "ChatIo \<Rightarrow> ChatSession \<Rightarrow> str \<Rightarrow> OptionValue \<Rightarrow> ChatSession \<times> Rejection option" where
  "set_option io self i v =
     (case ss_acp_session self of
        None \<Rightarrow> (self, Some NotReady)
      | Some session \<Rightarrow>
          if \<not> list_ex (\<lambda>opt. cg_id opt = i \<and> ConfigOption_accepts opt v) (tr_options (ss_transcript self))
          then (self, Some UnknownSetting)
          else (let (sent, self) = Session_request io self (Req_SetOption session i v) Pending_SetOption in
                (self, if sent then None else Some AgentUnavailable)))"

section \<open>Commands\<close>

fun run_command :: "ChatIo \<Rightarrow> ChatSession \<Rightarrow> CommandId \<Rightarrow> ChatCommand \<Rightarrow> ChatSession \<times> Rejection option" where
  "run_command io self i (Command_Prompt t attachments) = Session_prompt io self i t attachments"
| "run_command io self i Command_Cancel = Session_cancel io self"
| "run_command io self i (Command_Answer opt permission) = Session_answer io self permission opt"
| "run_command io self i (Command_SetMode mode) = set_mode io self mode"
| "run_command io self i (Command_SetOption opt v) = set_option io self opt v"
| "run_command io self i (Command_Unqueue q) = Session_unqueue io self q"
| "run_command io self i (Command_SetAutoAccept on) = (set_auto_accept io self on, None)"

definition Session_command :: "ChatIo \<Rightarrow> ChatSession \<Rightarrow> ConnId \<Rightarrow> CommandId \<Rightarrow> ChatCommand \<Rightarrow> ChatSession" where
  "Session_command io self conn i command =
     (case List.find (\<lambda>(handled, _). handled = i) (ss_handled self) of
        Some (_, rejected) \<Rightarrow> send_to io self conn (Msg_Ack i rejected)
      | None \<Rightarrow> (let (self, rejected) = run_command io self i command in Session_ack io self conn i rejected))"

section \<open>The agent\<close>

definition initialized :: "'v AcpLib \<Rightarrow> ChatIo \<Rightarrow> ChatSession \<Rightarrow> AgentError + 'v \<Rightarrow> ChatSession" where
  "initialized lib io self result =
     (case result of
        Inl err \<Rightarrow> Session_fail io self (chars ''The agent refused the handshake: '' @ ae_message err)
      | Inr v \<Rightarrow>
          (case al_initialize lib v of
             Inl err \<Rightarrow> Session_fail io self (chars ''The agent's handshake was invalid: '' @ err)
           | Inr response \<Rightarrow>
               (let self = self\<lparr>ss_accepts_embedded := ir_embedded response, ss_accepts_image := ir_image response\<rparr>;
                    cwd = cc_cwd (ss_config self);
                    new = (\<lambda>self. snd (Session_request io self (Req_NewSession cwd) Pending_NewSession))
                in case cc_load (ss_config self) of
                     None \<Rightarrow> new self
                   | Some i \<Rightarrow>
                       if ir_load_session response then
                         snd (Session_request io (self\<lparr>ss_acp_session := Some i\<rparr>) (Req_LoadSession i cwd) Pending_LoadSession)
                       else if cc_require_load (ss_config self) then
                         Session_fail io self (cc_agent (ss_config self) @ chars '' cannot continue session '' @ i
                           @ chars '', so no new session was started.'')
                       else
                         new (Session_notice io self Notice_Warning
                                (chars ''This agent cannot continue a session; starting a new one.'')))))"

text \<open>A session that is open: its options, its modes, and the prompts that waited for it.\<close>

definition opened_session :: "ChatIo \<Rightarrow> ChatSession \<Rightarrow> ConfigOption list \<Rightarrow> ChatModes option \<Rightarrow> ChatSession" where
  "opened_session io self options modes =
     (case ss_acp_session self of
        None \<Rightarrow> self
      | Some i \<Rightarrow>
          (let self = self\<lparr>ss_ready := True, ss_reports := ss_reports self @ [Report_Opened i]\<rparr>;
               self = Session_emit io self
                        (Change_Session (Some \<lparr>si_cwd = Some (cc_cwd (ss_config self)), si_id = i, si_title = None\<rparr>));
               self = (case modes of Some _ \<Rightarrow> Session_emit io self (Change_Modes modes) | None \<Rightarrow> self);
               self = (if options \<noteq> [] then Session_emit io self (Change_Options options) else self);
               self = self\<lparr>ss_projector := Projector_close (ss_projector self)\<rparr>
           in next_queued io (Session_status io self Status_Idle)))"

definition session_opened :: "'v AcpLib \<Rightarrow> ChatIo \<Rightarrow> ChatSession \<Rightarrow> bool \<Rightarrow> AgentError + 'v \<Rightarrow> ChatSession" where
  "session_opened lib io self loaded result =
     (case result of
        Inl err \<Rightarrow>
          Session_fail io self
            (if ae_auth_required err then
               (case cc_login_hint (ss_config self) of
                  Some hint \<Rightarrow> cc_agent (ss_config self) @ chars '' needs you to sign in: '' @ hint
                | None \<Rightarrow> cc_agent (ss_config self) @ chars '' needs you to sign in first.'')
             else chars ''Could not start the session: '' @ ae_message err)
      | Inr v \<Rightarrow>
          (let options = (case al_options lib v of Some os \<Rightarrow> os | None \<Rightarrow> []) in
           if loaded then opened_session io self options (al_load_modes lib v)
           else
             (case al_new_session lib v of
                Inl err \<Rightarrow> Session_fail io self (chars ''The agent's session was invalid: '' @ err)
              | Inr (i, modes) \<Rightarrow> opened_session io (self\<lparr>ss_acp_session := Some i\<rparr>) options modes)))"

fun turn_end :: "StopReason \<Rightarrow> TurnEnd" where
  "turn_end Stop_EndTurn = End_Done"
| "turn_end Stop_Cancelled = End_Cancelled"
| "turn_end Stop_MaxTokens = End_Limit"
| "turn_end Stop_MaxTurnRequests = End_Limit"
| "turn_end Stop_Refusal = End_Refused"
| "turn_end Stop_Other = End_Other"

definition turn_result :: "'v AcpLib \<Rightarrow> AgentError + 'v \<Rightarrow> TurnEnd \<times> Tokens option \<times> str option" where
  "turn_result lib result =
     (case result of
        Inl err \<Rightarrow> (End_Failed, None, Some (ae_message err))
      | Inr v \<Rightarrow>
          (case al_prompt lib v of
             Some reason \<Rightarrow> (turn_end reason, al_tokens lib v, None)
           | None \<Rightarrow> (End_Other, None, None)))"

definition turn_ended :: "'v AcpLib \<Rightarrow> ChatIo \<Rightarrow> ChatSession \<Rightarrow> nat \<Rightarrow> AgentError + 'v \<Rightarrow> ChatSession" where
  "turn_ended lib io self i result =
     (if ss_turn self \<noteq> Some i then self
      else
        (let self = resolve_all io (self\<lparr>ss_turn := None\<rparr>);
             self = self\<lparr>ss_projector := Projector_close (ss_projector self)\<rparr>;
             (end', tokens, error) = turn_result lib result;
             self = (case error of Some message \<Rightarrow> Session_notice io self Notice_Error message | None \<Rightarrow> self);
             started = (case tr_turn (ss_transcript self) of Some turn \<Rightarrow> tu_started_ms turn | None \<Rightarrow> io_now io);
             summary = \<lparr>ts_duration_ms = io_now io - started, ts_ended_ms = Some (io_now io), ts_end = end', ts_tokens = tokens\<rparr>;
             self = emit_made io self (Projector_turn (ss_projector self) summary);
             self = Session_emit io self (Change_Turn None);
             self = (if tr_status (ss_transcript self) = Status_Working then Session_status io self Status_Idle else self)
         in next_queued io self))"

definition Session_response ::
  "'v AcpLib \<Rightarrow> ChatIo \<Rightarrow> ChatSession \<Rightarrow> nat \<Rightarrow> PendingRequest \<Rightarrow> AgentError + 'v \<Rightarrow> ChatSession" where
  "Session_response lib io self i pending result =
     (case pending of
        Pending_Initialize \<Rightarrow> initialized lib io self result
      | Pending_NewSession \<Rightarrow> session_opened lib io self False result
      | Pending_LoadSession \<Rightarrow> session_opened lib io self True result
      | Pending_Prompt \<Rightarrow> turn_ended lib io self i result
      | Pending_SetOption \<Rightarrow>
          (case result of
             Inr v \<Rightarrow> (case al_options lib v of Some options \<Rightarrow> Session_emit io self (Change_Options options) | None \<Rightarrow> self)
           | Inl err \<Rightarrow> Session_notice io self Notice_Warning (chars ''Could not change the setting: '' @ ae_message err))
      | Pending_SetMode mode \<Rightarrow>
          (case result of
             Inr _ \<Rightarrow> Session_emit io self (Change_CurrentMode mode)
           | Inl err \<Rightarrow> Session_notice io self Notice_Warning (chars ''Could not change mode: '' @ ae_message err)))"

definition session_update :: "'v AcpLib \<Rightarrow> ChatIo \<Rightarrow> ChatSession \<Rightarrow> 'v \<Rightarrow> ChatSession" where
  "session_update lib io self params =
     (let ours = (case al_session_id lib params of Some i \<Rightarrow> ss_acp_session self = Some i | None \<Rightarrow> False) in
      case (if ours then al_config_update lib params else None) of
        Some options \<Rightarrow> Session_emit io self (Change_Options options)
      | None \<Rightarrow>
          (case al_notification lib params of
             None \<Rightarrow> self
           | Some (i, update) \<Rightarrow>
               if ss_acp_session self \<noteq> Some i then self
               else
                 (let (changes, projector) = Projector_update (ss_projector self) (ss_transcript self) (io_now io) update
                  in emit_all io (self\<lparr>ss_projector := projector\<rparr>) changes)))"

definition ask_permission :: "ChatIo \<Rightarrow> ChatSession \<Rightarrow> nat \<Rightarrow> PermissionRequest \<Rightarrow> ChatSession" where
  "ask_permission io self i request =
     (let (tool, projector) = Projector_tool (ss_projector self) (ss_transcript self) (rq_call request) (apply_fields (rq_fields request));
          title = (case fl_title (rq_fields request) of
                     Some t \<Rightarrow> t
                   | None \<Rightarrow> (case change_tool tool of Some found \<Rightarrow> tl_title found | None \<Rightarrow> chars ''The agent asks for permission''));
          self = Session_emit io (self\<lparr>ss_projector := projector\<rparr>) tool;
          self = self\<lparr>ss_next_permission := ss_next_permission self + 1\<rparr>;
          permission = ss_next_permission self;
          self = self\<lparr>ss_asked := AList.update permission
                        \<lparr>ak_options = map po_id (rq_options request), ak_request = i\<rparr> (ss_asked self)\<rparr>;
          self = Session_emit io self (Change_PermissionAsked
                   \<lparr>pm_call_id = Some (rq_call request), pm_id = permission, pm_options = rq_options request, pm_title = title\<rparr>)
      in auto_answer io self permission)"

definition agent_request :: "'v AcpLib \<Rightarrow> ChatIo \<Rightarrow> ChatSession \<Rightarrow> nat \<Rightarrow> str \<Rightarrow> 'v \<Rightarrow> ChatSession" where
  "agent_request lib io self i name params =
     (if name \<noteq> chars ''session/request_permission'' then snd (send_line self (Line_MethodNotFound i))
      else case al_permission lib params of
        Some request \<Rightarrow>
          if ss_acp_session self = Some (rq_session request) then ask_permission io self i request
          else snd (send_line self (Line_InvalidParams i))
      | None \<Rightarrow> snd (send_line self (Line_InvalidParams i)))"

fun Session_agent :: "'v AcpLib \<Rightarrow> ChatIo \<Rightarrow> ChatSession \<Rightarrow> 'v Inbound \<Rightarrow> ChatSession" where
  "Session_agent lib io self (Inbound_Response i result) =
     (case map_of (ss_pending self) i of
        None \<Rightarrow> self
      | Some pending \<Rightarrow>
          Session_response lib io (self\<lparr>ss_pending := AList.delete i (ss_pending self)\<rparr>) i pending result)"
| "Session_agent lib io self (Inbound_Notification name params) =
     (if name = chars ''session/update'' then session_update lib io self params else self)"
| "Session_agent lib io self (Inbound_Request i name params) = agent_request lib io self i name params"
| "Session_agent lib io self (Inbound_Closed (Some err)) = Session_fail io self err"
| "Session_agent lib io self (Inbound_Closed None) = self"

definition decimal_int :: "int \<Rightarrow> str" where
  "decimal_int n = (if n < 0 then 45 # chars (decimal (nat (- n))) else chars (decimal (nat n)))"

definition exit_summary :: "str \<Rightarrow> int option \<Rightarrow> str" where
  "exit_summary agent code =
     (case code of
        None \<Rightarrow> agent @ chars '' was stopped.''
      | Some n \<Rightarrow>
          if n = 0 then agent @ chars '' exited.'' else agent @ chars '' exited with status '' @ decimal_int n @ chars ''.'')"

definition Session_exited :: "ChatIo \<Rightarrow> ChatSession \<Rightarrow> int option \<Rightarrow> str list \<Rightarrow> ChatSession" where
  "Session_exited io self code stderr =
     (let summary = exit_summary (cc_agent (ss_config self)) code;
          message = (if stderr \<noteq> [] \<and> code \<noteq> Some 0 then summary @ 10 # join 10 stderr else summary);
          self = self\<lparr>ss_asked := []\<rparr>;
          self = emit_all io self (map (Change_PermissionResolved \<circ> pm_id) (tr_permissions (ss_transcript self)));
          self = self\<lparr>ss_turn := None, ss_ready := False\<rparr>;
          self = (if tr_turn (ss_transcript self) \<noteq> None then Session_emit io self (Change_Turn None) else self);
          self = clear_queue io self;
          self = emit_all io self (kill_all (ss_transcript self) (io_now io));
          self = Session_notice io self (if code = Some 0 then Notice_Info else Notice_Error) message
      in Session_status io self (Status_Exited summary))"

section \<open>Inputs\<close>

datatype 'v SessionInput =
    Input_Agent "'v Inbound"
  | Input_AgentExited "int option" "str list"
  | Input_Attach Attach
  | Input_Command ChatCommand ConnId CommandId
  | Input_Detach ConnId
  | Input_Shutdown
  | Input_Unsupported ConnId CommandId

datatype Flow = Flow_Continue | Flow_Exit

fun Session_handle :: "'v AcpLib \<Rightarrow> ChatIo \<Rightarrow> ChatSession \<Rightarrow> 'v SessionInput \<Rightarrow> ChatSession \<times> Flow" where
  "Session_handle lib io self (Input_Agent inbound) = (Session_agent lib io self inbound, Flow_Continue)"
| "Session_handle lib io self (Input_AgentExited code stderr) =
     (let self = Session_exited io self code stderr in
      if cc_exit_with_agent (ss_config self) then (Session_bye self Bye_Exiting, Flow_Exit) else (self, Flow_Continue))"
| "Session_handle lib io self (Input_Attach attach) = (Session_attach io self attach, Flow_Continue)"
| "Session_handle lib io self (Input_Command command conn i) = (Session_command io self conn i command, Flow_Continue)"
| "Session_handle lib io self (Input_Detach conn) = (Session_detach io self conn, Flow_Continue)"
| "Session_handle lib io self (Input_Unsupported conn i) = (Session_ack io self conn i (Some Unsupported), Flow_Continue)"
| "Session_handle lib io self Input_Shutdown = (Session_bye self Bye_Exiting, Flow_Exit)"

section \<open>The session's thread\<close>

text \<open>
  One turn of the thread: when it takes an input, its clients and the agent have read from their queues, and closed
  them, as they like.
\<close>

record 'v Wakeup =
  wk_io :: ChatIo
  wk_channels :: "nat \<Rightarrow> ChatServerMessage Channel"
  wk_outbox :: "AgentLine Channel"
  wk_input :: "'v SessionInput"

definition woken :: "'v Wakeup \<Rightarrow> ChatSession \<Rightarrow> ChatSession" where
  "woken w self = self\<lparr>ss_channels := wk_channels w, ss_outbox := wk_outbox w\<rparr>"

definition session_begin ::
  "ChatConfig \<Rightarrow> Transcript option \<Rightarrow> Uuid \<Rightarrow> AgentLine Channel \<Rightarrow> (nat \<Rightarrow> ChatServerMessage Channel) \<Rightarrow> ChatIo
   \<Rightarrow> (NoticeLevel \<times> str) list \<Rightarrow> ChatSession" where
  "session_begin config history epoch outbox channels io notices =
     (let session = ChatSession_new config history epoch outbox channels;
          session = foldl (\<lambda>session (level, t). Session_notice io session level t) session notices
      in Session_start io session)"

fun session_loop :: "'v AcpLib \<Rightarrow> ChatSession \<Rightarrow> 'v Wakeup list \<Rightarrow> ChatSession" where
  "session_loop lib self [] = self"
| "session_loop lib self (w # ws) =
     (case Session_handle lib (wk_io w) (woken w self) (wk_input w) of
        (self, Flow_Exit) \<Rightarrow> self
      | (self, Flow_Continue) \<Rightarrow> session_loop lib self ws)"

section \<open>Every input is a sequence of emissions\<close>

named_theorems steps \<open>what a step of the session keeps of a relation\<close>

context emitted
begin

lemma silent_step: "rel s s1 \<Longrightarrow> same_core s1 s2 \<Longrightarrow> rel s s2"
  using rel_trans rel_silent by blast

lemma emit_step [steps]: "rel s s1 \<Longrightarrow> rel s (Session_emit io s1 c)"
  using rel_trans rel_emit by blast

lemma foldl_step: "(\<And>s1 x. rel s s1 \<Longrightarrow> rel s (f s1 x)) \<Longrightarrow> rel s s1 \<Longrightarrow> rel s (foldl f s1 xs)"
  by (induction xs arbitrary: s1) auto

lemma emit_all_step [steps]: "rel s s1 \<Longrightarrow> rel s (emit_all io s1 cs)"
  unfolding emit_all_def by (intro foldl_step steps)

lemma update_steps [steps]:
  assumes "rel s s1"
  shows "rel s (s1\<lparr>ss_projector := a\<rparr>)" "rel s (s1\<lparr>ss_outbox := b\<rparr>)" "rel s (s1\<lparr>ss_pending := c\<rparr>)" "rel s (s1\<lparr>ss_turn := d\<rparr>)"
    "rel s (s1\<lparr>ss_ready := e\<rparr>)" "rel s (s1\<lparr>ss_reports := f\<rparr>)" "rel s (s1\<lparr>ss_asked := g\<rparr>)" "rel s (s1\<lparr>ss_next_permission := h\<rparr>)"
    "rel s (s1\<lparr>ss_next_request := i\<rparr>)" "rel s (s1\<lparr>ss_acp_session := j\<rparr>)" "rel s (s1\<lparr>ss_accepts_image := k\<rparr>)"
    "rel s (s1\<lparr>ss_accepts_embedded := l\<rparr>)"
  using assms by (auto intro!: silent_step [OF assms] simp: same_core_def)

lemma report_step [steps]: "rel s s1 \<Longrightarrow> rel s (report_activity s1)"
  by (erule silent_step) (simp add: same_core_def report_activity_def Let_def)

lemma small_steps [steps]:
  assumes "rel s s1"
  shows "rel s (Session_status io s1 status)" "rel s (queue_changed io s1 queued)" "rel s (emit_made io s1 made)"
  using assms by (auto simp: Session_status_def queue_changed_def emit_made_def intro!: steps)

lemma clear_queue_step [steps]: "rel s s1 \<Longrightarrow> rel s (clear_queue io s1)"
  by (auto simp: clear_queue_def intro!: steps)

lemma fail_step [steps]: "rel s s1 \<Longrightarrow> rel s (Session_notice io s1 level t)" "rel s s1 \<Longrightarrow> rel s (Session_fail io s1 t)"
  by (auto simp: Session_notice_def Session_fail_def intro!: steps)

lemma request_step [steps]: "rel s s1 \<Longrightarrow> rel s (snd (Session_request io s1 req pending))"
  by (auto simp: Session_request_def Let_def intro!: steps split: option.split)

lemma send_line_step [steps]: "rel s s1 \<Longrightarrow> rel s (snd (send_line s1 line))"
  by (auto simp: send_line_def intro!: steps split: option.split)

lemma resolve_step [steps]: "rel s s1 \<Longrightarrow> rel s (Session_resolve io s1 p opt)"
  by (auto simp: Session_resolve_def Let_def case_prod_beta intro!: steps split: option.split)

lemma resolve_all_step [steps]: "rel s s1 \<Longrightarrow> rel s (resolve_all io s1)"
  unfolding resolve_all_def by (intro foldl_step steps)

lemma auto_answer_step [steps]: "rel s s1 \<Longrightarrow> rel s (auto_answer io s1 p)"
  by (auto simp: auto_answer_def intro!: steps split: option.split)

lemma set_auto_accept_step [steps]: "rel s s1 \<Longrightarrow> rel s (set_auto_accept io s1 on)"
  by (auto simp: set_auto_accept_def Let_def intro!: foldl_step steps)

lemma answer_step [steps]: "rel s s1 \<Longrightarrow> rel s (fst (Session_answer io s1 p opt))"
  by (auto simp: Session_answer_def intro!: steps split: option.split)

lemma emit_prepared_step [steps]: "rel s s1 \<Longrightarrow> rel s (emit_prepared io s1 items)"
proof (induction items arbitrary: s1)
  case (Cons item items)
  obtain block pic where "item = (block, pic)" by (cases item)
  then show ?case using Cons small_steps(3) [OF Cons.prems] by (cases pic) auto
qed simp

lemma send_prompt_step [steps]: "rel s s1 \<Longrightarrow> rel s (send_prompt io s1 t attachments)"
  by (auto simp: send_prompt_def Let_def case_prod_beta intro!: steps split: option.split)

lemma prompt_steps [steps]:
  assumes "rel s s1"
  shows "rel s (fst (Session_prompt io s1 i t attachments))" "rel s (next_queued io s1)" "rel s (fst (Session_unqueue io s1 i))"
  using assms
  by (auto simp: Session_prompt_def next_queued_def Session_unqueue_def Let_def intro!: steps split: option.split list.split)

lemma cancel_step [steps]: "rel s s1 \<Longrightarrow> rel s (fst (Session_cancel io s1))"
  by (auto simp: Session_cancel_def Let_def case_prod_beta intro!: steps split: option.split)

lemma setting_steps [steps]:
  assumes "rel s s1"
  shows "rel s (fst (set_mode io s1 m))" "rel s (fst (set_option io s1 i v))"
  using assms by (auto simp: set_mode_def set_option_def Let_def case_prod_beta intro!: steps split: option.split)

lemma run_command_step [steps]: "rel s s1 \<Longrightarrow> rel s (fst (run_command io s1 i command))"
  by (cases command) (auto intro!: steps)

lemma initialized_step [steps]: "rel s s1 \<Longrightarrow> rel s (initialized lib io s1 result)"
  by (auto simp: initialized_def Let_def intro!: steps split: sum.split option.split)

lemma opened_step [steps]: "rel s s1 \<Longrightarrow> rel s (opened_session io s1 options modes)"
  by (auto simp: opened_session_def Let_def intro!: steps split: option.split)

lemma session_opened_step [steps]: "rel s s1 \<Longrightarrow> rel s (session_opened lib io s1 loaded result)"
  by (auto simp: session_opened_def Let_def intro!: steps split: sum.split option.split)

lemma turn_ended_step [steps]: "rel s s1 \<Longrightarrow> rel s (turn_ended lib io s1 i result)"
  by (auto simp: turn_ended_def Let_def case_prod_beta intro!: steps split: option.split)

lemma response_step [steps]: "rel s s1 \<Longrightarrow> rel s (Session_response lib io s1 i pending result)"
  by (auto simp: Session_response_def intro!: steps split: PendingRequest.split sum.split option.split)

lemma session_update_step [steps]: "rel s s1 \<Longrightarrow> rel s (session_update lib io s1 params)"
  by (auto simp: session_update_def Let_def case_prod_beta intro!: steps split: option.split)

lemma agent_request_step [steps]: "rel s s1 \<Longrightarrow> rel s (agent_request lib io s1 i name params)"
  by (auto simp: agent_request_def ask_permission_def Let_def case_prod_beta intro!: steps split: option.split)

lemma agent_step [steps]: "rel s s1 \<Longrightarrow> rel s (Session_agent lib io s1 inbound)"
  by (induction lib io s1 inbound rule: Session_agent.induct) (auto intro!: steps split: option.split)

lemma exited_step [steps]: "rel s s1 \<Longrightarrow> rel s (Session_exited io s1 code stderr)"
  by (auto simp: Session_exited_def Let_def intro!: steps)

lemma Session_start_step [steps]: "rel s s1 \<Longrightarrow> rel s (Session_start io s1)"
  by (auto simp: Session_start_def intro!: steps)

end

text \<open>
  The steps that are not emissions: what is remembered of commands, clients that leave, and the answers and farewells
  queued for them.
\<close>

locale session_steps = emitted +
  assumes rel_handled: "rel s (s\<lparr>ss_handled := handled\<rparr>)"
    and rel_leave: "rel s (s\<lparr>ss_subscribers := filter p (ss_subscribers s)\<rparr>)"
    and rel_ack: "try_send (ss_channels s k) (Msg_Ack i rejected) = Some ch \<Longrightarrow> rel s (s\<lparr>ss_channels := (ss_channels s)(k := ch)\<rparr>)"
    and rel_bye: "try_send (ss_channels s k) (Msg_Bye reason) = Some ch \<Longrightarrow> ss_subscribers s = [] \<Longrightarrow>
                  rel s (s\<lparr>ss_channels := (ss_channels s)(k := ch)\<rparr>)"
begin

lemma detach_step [steps]: "rel s s1 \<Longrightarrow> rel s (Session_detach io s1 conn)"
  using rel_trans [OF _ rel_leave] by (auto simp: Session_detach_def Let_def intro!: steps)

lemma send_ack_step [steps]: "rel s s1 \<Longrightarrow> rel s (send_to io s1 conn (Msg_Ack i rejected))"
  using rel_trans [OF _ rel_ack] by (auto simp: send_to_def intro!: steps split: option.split)

lemma ack_step [steps]: "rel s s1 \<Longrightarrow> rel s (Session_ack io s1 conn i rejected)"
  using rel_trans [OF _ rel_handled] by (auto simp: Session_ack_def Let_def intro!: steps)

lemma bye_all_step:
  assumes "rel s (s1\<lparr>ss_channels := channels\<rparr>)" "ss_subscribers s1 = []"
  shows "rel s (s1\<lparr>ss_channels := bye_all ss channels reason\<rparr>)"
  using assms(1)
proof (induction ss arbitrary: channels)
  case (Cons x xs)
  show ?case
  proof (cases "try_send (channels (sb_outbox x)) (Msg_Bye reason)")
    case None
    with Cons show ?thesis by simp
  next
    case (Some ch)
    with rel_bye [of "s1\<lparr>ss_channels := channels\<rparr>" "sb_outbox x" reason ch]
    have "rel s (s1\<lparr>ss_channels := channels(sb_outbox x := ch)\<rparr>)"
      using rel_trans [OF Cons.prems] assms(2) by simp
    with Cons.IH Some show ?thesis by simp
  qed
qed simp

lemma bye_step [steps]: "rel s s1 \<Longrightarrow> rel s (Session_bye s1 reason)"
proof -
  assume "rel s s1"
  then have "rel s (s1\<lparr>ss_subscribers := []\<rparr>)" using rel_trans [OF _ rel_leave [of s1 "\<lambda>_. False"]] by simp
  then show ?thesis
    using bye_all_step [where s = s and ?s1.0 = "s1\<lparr>ss_subscribers := []\<rparr>" and channels = "ss_channels s1"]
    by (simp add: Session_bye_def)
qed

lemma command_step [steps]: "rel s s1 \<Longrightarrow> rel s (Session_command io s1 conn i command)"
  by (auto simp: Session_command_def Let_def case_prod_beta intro!: steps split: option.split)

lemma handle_step:
  assumes "rel s s1" "\<And>attach. input \<noteq> Input_Attach attach"
  shows "rel s (fst (Session_handle lib io s1 input))"
  using assms by (cases input) (auto simp: Let_def intro!: steps)

end

section \<open>A command is run once\<close>

text \<open>Only an acknowledgement changes what is remembered of commands.\<close>

interpretation remembered: emission "\<lambda>s s'. ss_handled s' = ss_handled s"
  by unfold_locales (auto simp: same_core_def)

lemma emit_handled [simp]: "ss_handled (Session_emit io s c) = ss_handled s"
  by (rule remembered.Session_emit_rel)

lemma handled_fields [simp]:
  "ss_handled (Session_detach io s conn) = ss_handled s"
  "ss_handled (Session_bye s reason) = ss_handled s"
  "ss_handled (Session_attach io s attach) = ss_handled s"
  "ss_handled (Session_exited io s code stderr) = ss_handled s"
  "ss_handled (Session_agent lib io s inbound) = ss_handled s"
  "ss_handled (fst (run_command io s i command)) = ss_handled s"
  using remembered.exited_step [of s s] remembered.agent_step [of s s] remembered.run_command_step [of s s]
  by (auto simp: Session_detach_def Session_bye_def Session_attach_def Let_def case_prod_beta split: option.split)

lemma send_to_handled [simp]: "ss_handled (send_to io s conn m) = ss_handled s"
  by (auto simp: send_to_def split: option.split)

definition remember :: "(CommandId \<times> Rejection option) list \<Rightarrow> CommandId \<times> Rejection option \<Rightarrow> (CommandId \<times> Rejection option) list" where
  "remember handled x = (if length handled = HANDLED then tl handled else handled) @ [x]"

lemma woken_handled [simp]: "ss_handled (woken w s) = ss_handled s"
  by (simp add: woken_def)

lemma ack_handled [simp]: "ss_handled (Session_ack io s conn i rejected) = remember (ss_handled s) (i, rejected)"
  by (simp add: Session_ack_def remember_def Let_def)

definition acknowledges :: "'v SessionInput \<Rightarrow> bool" where
  "acknowledges input \<longleftrightarrow> (case input of Input_Command _ _ _ \<Rightarrow> True | Input_Unsupported _ _ \<Rightarrow> True | _ \<Rightarrow> False)"

lemma command_handled:
  "ss_handled (Session_command io s conn i command) =
     (if i \<in> fst ` set (ss_handled s) then ss_handled s
      else remember (ss_handled s) (i, snd (run_command io s i command)))"
proof (cases "List.find (\<lambda>(h, _). h = i) (ss_handled s)")
  case None
  then have "i \<notin> fst ` set (ss_handled s)" by (auto simp: find_None_iff)
  with None show ?thesis by (simp add: Session_command_def Let_def case_prod_beta)
next
  case (Some x)
  then have "i \<in> fst ` set (ss_handled s)" by (force dest!: find_Some simp: case_prod_beta)
  with Some show ?thesis by (simp add: Session_command_def case_prod_beta)
qed

lemma handle_handled:
  "ss_handled (fst (Session_handle lib io s input)) = ss_handled s
   \<or> acknowledges input \<and> (\<exists>x. ss_handled (fst (Session_handle lib io s input)) = remember (ss_handled s) x)"
  by (cases input) (auto simp: acknowledges_def Let_def command_handled)

lemma length_remember: "length handled \<le> HANDLED \<Longrightarrow> length (remember handled x) \<le> HANDLED"
  by (auto simp: remember_def HANDLED_def)

text \<open>An answer that \<open>n\<close> later ones followed is remembered, and found first, as long as they leave it room.\<close>

definition answered :: "CommandId \<Rightarrow> Rejection option \<Rightarrow> nat \<Rightarrow> (CommandId \<times> Rejection option) list \<Rightarrow> bool" where
  "answered i r n handled \<longleftrightarrow>
     length handled \<le> HANDLED \<and> (\<exists>xs ys. handled = xs @ (i, r) # ys \<and> i \<notin> fst ` set xs \<and> length ys \<le> n)"

lemma answered_remember:
  assumes "answered i r n handled" "Suc n < HANDLED"
  shows "answered i r (Suc n) (remember handled x)"
proof -
  obtain xs ys where h: "handled = xs @ (i, r) # ys" "i \<notin> fst ` set xs" "length ys \<le> n" "length handled \<le> HANDLED"
    using assms(1) by (auto simp: answered_def)
  show ?thesis
  proof (cases "length handled = HANDLED")
    case True
    then obtain z zs where z: "xs = z # zs" using h assms(2) by (cases xs) auto
    then have "remember handled x = zs @ (i, r) # (ys @ [x])" "i \<notin> fst ` set zs" using True h by (auto simp: remember_def)
    with h z True show ?thesis unfolding answered_def by fastforce
  next
    case False
    then have "remember handled x = xs @ (i, r) # (ys @ [x])" using h by (simp add: remember_def)
    with h length_remember [OF h(4), of x] show ?thesis unfolding answered_def by fastforce
  qed
qed

lemma answered_mono: "answered i r n handled \<Longrightarrow> n \<le> m \<Longrightarrow> answered i r m handled"
  by (force simp: answered_def)

lemma answered_find: "answered i r n handled \<Longrightarrow> List.find (\<lambda>(h, _). h = i) handled = Some (i, r)"
proof -
  have "List.find (\<lambda>(h, _). h = i) (xs @ (i, r) # ys) = Some (i, r)" if "i \<notin> fst ` set xs" for xs ys
    using that by (induction xs) auto
  then show "answered i r n handled \<Longrightarrow> ?thesis" by (auto simp: answered_def)
qed

lemma run_answered:
  assumes "answered i r n (ss_handled s)" "n + length (filter (\<lambda>w. acknowledges (wk_input w)) ws) < HANDLED"
  shows "answered i r (n + length (filter (\<lambda>w. acknowledges (wk_input w)) ws)) (ss_handled (session_loop lib s ws))"
  using assms
proof (induction ws arbitrary: s n)
  case (Cons w ws)
  obtain s1 flow where s1: "Session_handle lib (wk_io w) (woken w s) (wk_input w) = (s1, flow)"
    by (cases "Session_handle lib (wk_io w) (woken w s) (wk_input w)")
  note step = handle_handled [of lib "wk_io w" "woken w s" "wk_input w", unfolded s1, simplified]
  let ?n = "if acknowledges (wk_input w) then Suc n else n"
  have "?n < HANDLED" "?n + length (filter (\<lambda>w. acknowledges (wk_input w)) ws) < HANDLED" using Cons.prems(2) by auto
  moreover from this have "answered i r ?n (ss_handled s1)"
    using step answered_remember [OF Cons.prems(1)] answered_mono [OF Cons.prems(1), of "Suc n"] Cons.prems(1) by auto
  ultimately show ?case using s1 Cons.IH [of ?n s1] answered_mono [of i r ?n "ss_handled s1"] by (auto split: Flow.split)
qed simp

lemma run_bound: "length (ss_handled s) \<le> HANDLED \<Longrightarrow> length (ss_handled (session_loop lib s ws)) \<le> HANDLED"
proof (induction ws arbitrary: s)
  case (Cons w ws)
  obtain s1 flow where s1: "Session_handle lib (wk_io w) (woken w s) (wk_input w) = (s1, flow)"
    by (cases "Session_handle lib (wk_io w) (woken w s) (wk_input w)")
  have "length (ss_handled s1) \<le> HANDLED"
    using handle_handled [of lib "wk_io w" "woken w s" "wk_input w", unfolded s1] length_remember [OF Cons.prems] Cons.prems by auto
  with Cons.IH s1 show ?case by (auto split: Flow.split)
qed simp

lemma begin_handled [simp]: "ss_handled (session_begin config history epoch outbox channels io notices) = []"
proof -
  have "ss_handled (foldl (\<lambda>s (level, t). Session_notice io s level t) s notices) = ss_handled s" for s
    by (induction notices arbitrary: s) (auto simp: remembered.fail_step(1))
  then show ?thesis
    by (simp add: session_begin_def Let_def remembered.Session_start_step) (simp add: ChatSession_new_def Let_def)
qed

end
