(* ===== verification/Chat_Client.thy ===== *)
theory Chat_Client
  imports Chat_Model
begin

text \<open>
  The clients of a chat program: the window's session (\<open>chat/session.rs\<close> of sheprd-gpui, with its errors in
  \<open>chat.rs\<close>), the remote access server's copy of a chat (\<open>hub/chat.rs\<close> of sheprd-remote-control) and the view in
  the chat's own pane (\<open>tui/view.rs\<close> of sheprd-acp). A session returns its state with its result, so what an error
  leaves is part of the model; a fresh id of a command is an argument.
\<close>

section \<open>The window's session\<close>

definition SENDS :: nat where "SENDS = 2"
definition MAX_PENDING_COMMANDS :: nat where "MAX_PENDING_COMMANDS = 32"

record PendingCommand =
  pc_command :: ChatCommand
  pc_id :: CommandId
  pc_sends :: nat

text \<open>\<open>Error_Link\<close> stands for the errors of the connection itself.\<close>

datatype ChatLinkError =
    Error_Apply ChatError
  | Error_Busy
  | Error_Bye ByeReason
  | Error_Handshake
  | Error_Link
  | Error_ReadOnly
  | Error_Stream "Cursor option" Cursor
  | Error_Version nat

fun desynced :: "ChatLinkError \<Rightarrow> bool" where
  "desynced (Error_Stream _ _) = True"
| "desynced (Error_Apply _) = True"
| "desynced _ = False"

record WindowSession =
  ws_agent :: str
  ws_cursor :: "Cursor option"
  ws_pending :: "PendingCommand list"
  ws_rejection :: "Rejection option"
  ws_revisions :: "(EntryId \<times> nat) list"
  ws_revision :: nat
  ws_snapshots :: nat
  ws_tail_changed :: bool
  ws_transcript :: Transcript
  ws_welcomed :: bool

definition WindowSession_default :: WindowSession where
  "WindowSession_default =
     \<lparr>ws_agent = [], ws_cursor = None, ws_pending = [], ws_rejection = None, ws_revisions = [], ws_revision = 0,
      ws_snapshots = 0, ws_tail_changed = False, ws_transcript = Transcript_new [], ws_welcomed = False\<rparr>"

definition ws_begin :: "WindowSession \<Rightarrow> WindowSession" where
  "ws_begin self = self\<lparr>ws_welcomed := False\<rparr>"

definition ws_lost :: "WindowSession \<Rightarrow> ChatLinkError \<Rightarrow> WindowSession" where
  "ws_lost self err =
     (let self = self\<lparr>ws_welcomed := False\<rparr> in if desynced err then self\<lparr>ws_cursor := None\<rparr> else self)"

definition ws_since :: "WindowSession \<Rightarrow> Cursor option" where
  "ws_since self = ws_cursor self"

definition ws_synced :: "WindowSession \<Rightarrow> bool" where
  "ws_synced self \<longleftrightarrow> 0 < ws_snapshots self"

definition ws_live :: "WindowSession \<Rightarrow> bool" where
  "ws_live self \<longleftrightarrow> ws_welcomed self \<and> ws_cursor self \<noteq> None"

definition set_observed_status :: "WindowSession \<Rightarrow> ChatStatus \<Rightarrow> WindowSession \<times> bool" where
  "set_observed_status self status =
     (if \<not> tr_read_only (ws_transcript self) \<or> tr_status (ws_transcript self) = status then (self, False)
      else (self\<lparr>ws_transcript := (ws_transcript self)\<lparr>tr_status := status\<rparr>\<rparr>, True))"

definition ws_shown_agent :: "WindowSession \<Rightarrow> str" where
  "ws_shown_agent self = (if tr_agent (ws_transcript self) = [] then ws_agent self else tr_agent (ws_transcript self))"

definition take_tail_changed :: "WindowSession \<Rightarrow> WindowSession \<times> bool" where
  "take_tail_changed self = (self\<lparr>ws_tail_changed := False\<rparr>, ws_tail_changed self)"

text \<open>\<open>keys\<close>: an entry's revision, with the latest of a sub-agent's steps for its call.\<close>

definition revision_of :: "WindowSession \<Rightarrow> EntryId \<Rightarrow> nat" where
  "revision_of self i = (case map_of (ws_revisions self) i of Some r \<Rightarrow> r | None \<Rightarrow> 0)"

definition step_revision :: "WindowSession \<Rightarrow> str \<Rightarrow> nat" where
  "step_revision self call_id =
     foldl (\<lambda>latest e. case en_kind e of
                Entry_Tool tool \<Rightarrow> if tl_parent tool = Some call_id then max latest (revision_of self (en_id e)) else latest
              | _ \<Rightarrow> latest)
       0 (tr_entries (ws_transcript self))"

definition ws_keys :: "WindowSession \<Rightarrow> (EntryId \<times> nat) list" where
  "ws_keys self =
     map (\<lambda>e. (en_id e, max (revision_of self (en_id e))
                 (case en_kind e of Entry_Tool tool \<Rightarrow> step_revision self (tl_call_id tool) | _ \<Rightarrow> 0)))
       (tr_entries (ws_transcript self))"

definition ws_resend :: "WindowSession \<Rightarrow> WindowSession \<times> ChatClientMessage list" where
  "ws_resend self =
     (let kept = filter (\<lambda>p. pc_sends p < SENDS) (ws_pending self);
          rejection = (if length kept < length (ws_pending self) then Some Unsupported else ws_rejection self)
      in (self\<lparr>ws_pending := kept, ws_rejection := rejection\<rparr>, map (\<lambda>p. Client_Command (pc_command p) (pc_id p)) kept))"

definition ws_submit :: "WindowSession \<Rightarrow> CommandId \<Rightarrow> ChatCommand \<Rightarrow> WindowSession \<times> (ChatLinkError + ChatClientMessage)" where
  "ws_submit self i command =
     (if tr_read_only (ws_transcript self) then (self, Inl Error_ReadOnly)
      else if MAX_PENDING_COMMANDS \<le> length (ws_pending self) then (self, Inl Error_Busy)
      else (self\<lparr>ws_rejection := None,
                 ws_pending := ws_pending self
                   @ [\<lparr>pc_command = command, pc_id = i, pc_sends = (if ws_welcomed self then 1 else 0)\<rparr>]\<rparr>,
            Inr (Client_Command command i)))"

text \<open>The change right after the one applied last, \<open>checked_add\<close> included.\<close>

definition cursor_follows :: "Cursor option \<Rightarrow> Cursor \<Rightarrow> bool" where
  "cursor_follows known cursor =
     (case known of
        Some after \<Rightarrow>
          cu_epoch after = cu_epoch cursor \<and> cu_seq after < U64_MAX \<and> cu_seq after + 1 = cu_seq cursor
      | None \<Rightarrow> False)"

definition touch_entry :: "WindowSession \<Rightarrow> EntryId \<Rightarrow> WindowSession" where
  "touch_entry self i = self\<lparr>ws_revisions := AList.update i (ws_revision self) (ws_revisions self)\<rparr>"

definition ws_touch :: "WindowSession \<Rightarrow> ChatChange \<Rightarrow> WindowSession" where
  "ws_touch self change =
     (let self = self\<lparr>ws_revision := ws_revision self + 1\<rparr> in
      case change of
        Change_Push e \<Rightarrow> touch_entry self (en_id e)
      | Change_Replace e \<Rightarrow> touch_entry self (en_id e)
      | Change_Append i _ \<Rightarrow> touch_entry self i
      | Change_Truncate _ \<Rightarrow>
          self\<lparr>ws_revisions := retain (\<lambda>i _. binary_search_by_key i en_id (tr_entries (ws_transcript self)) \<noteq> None)
                                (ws_revisions self)\<rparr>
      | _ \<Rightarrow> self)"

definition list_last :: "'a list \<Rightarrow> 'a option" where
  "list_last xs = (if xs = [] then None else Some (last xs))"

fun ws_message :: "WindowSession \<Rightarrow> ChatServerMessage \<Rightarrow> WindowSession \<times> (ChatLinkError + bool)" where
  "ws_message self (Msg_Welcome agent _ version) =
     (if version \<noteq> CHAT_VERSION then (self, Inl (Error_Version version))
      else (self\<lparr>ws_agent := agent, ws_welcomed := True,
                 ws_pending := map (\<lambda>p. p\<lparr>pc_sends := min (pc_sends p + 1) 255\<rparr>) (ws_pending self)\<rparr>, Inr True))"
| "ws_message self (Msg_Snapshot cursor transcript) =
     (self\<lparr>ws_tail_changed := (ws_tail_changed self
             \<or> list_last (tr_entries (ws_transcript self)) \<noteq> list_last (tr_entries transcript)),
           ws_transcript := transcript, ws_cursor := Some cursor, ws_revisions := [],
           ws_snapshots := ws_snapshots self + 1\<rparr>, Inr True)"
| "ws_message self (Msg_Change change cursor) =
     (if \<not> cursor_follows (ws_cursor self) cursor then (self, Inl (Error_Stream (ws_cursor self) cursor))
      else case Transcript_apply (ws_transcript self) change of
        (transcript, Inl err) \<Rightarrow> (self\<lparr>ws_transcript := transcript\<rparr>, Inl (Error_Apply err))
      | (transcript, Inr _) \<Rightarrow> (ws_touch (self\<lparr>ws_transcript := transcript, ws_cursor := Some cursor\<rparr>) change, Inr True))"
| "ws_message self (Msg_Ack i rejected) =
     (let self = self\<lparr>ws_pending := filter (\<lambda>p. pc_id p \<noteq> i) (ws_pending self)\<rparr>;
          shown = (if rejected = Some Rejected_UnknownPermission then None else rejected)
      in if shown \<noteq> None then (self\<lparr>ws_rejection := shown\<rparr>, Inr True) else (self, Inr False))"
| "ws_message self (Msg_Bye reason) = (self, Inl (Error_Bye reason))"

fun is_welcome :: "ChatServerMessage \<Rightarrow> bool" where
  "is_welcome (Msg_Welcome _ _ _) = True"
| "is_welcome _ = False"

definition ws_receive :: "WindowSession \<Rightarrow> ChatServerMessage \<Rightarrow> WindowSession \<times> (ChatLinkError + bool)" where
  "ws_receive self m =
     (if \<not> is_welcome m \<and> \<not> ws_welcomed self then (self, Inl Error_Handshake) else ws_message self m)"

text \<open>A message as \<open>poll\<close> takes it: an error ends the connection, with what \<open>lost\<close> leaves.\<close>

definition ws_poll :: "WindowSession \<Rightarrow> ChatServerMessage \<Rightarrow> WindowSession \<times> bool" where
  "ws_poll self m =
     (case ws_receive self m of
        (self, Inr _) \<Rightarrow> (self, True)
      | (self, Inl err) \<Rightarrow> (ws_lost self err, False))"

section \<open>The remote access server's copy\<close>

datatype HubEvent = Hub_Reset Transcript Cursor | Hub_Change ChatChange Cursor | Hub_Connection

record HubChat =
  hc_cursor :: "Cursor option"
  hc_transcript :: Transcript
  hc_connected :: bool
  hc_events :: "HubEvent list"

definition HubChat_default :: HubChat where
  "HubChat_default = \<lparr>hc_cursor = None, hc_transcript = Transcript_new [], hc_connected = False, hc_events = []\<rparr>"

definition hub_publish :: "HubChat \<Rightarrow> HubEvent \<Rightarrow> HubChat" where
  "hub_publish self event = self\<lparr>hc_events := hc_events self @ [event]\<rparr>"

definition set_connected :: "HubChat \<Rightarrow> bool \<Rightarrow> HubChat" where
  "set_connected self connected =
     (if hc_connected self \<noteq> connected then hub_publish (self\<lparr>hc_connected := connected\<rparr>) Hub_Connection else self)"

fun hub_receive :: "HubChat \<Rightarrow> ChatServerMessage \<Rightarrow> HubChat \<times> bool" where
  "hub_receive self (Msg_Welcome _ _ _) = (set_connected self True, True)"
| "hub_receive self (Msg_Snapshot cursor transcript) =
     (hub_publish (self\<lparr>hc_cursor := Some cursor, hc_transcript := transcript\<rparr>) (Hub_Reset transcript cursor), True)"
| "hub_receive self (Msg_Change change cursor) =
     (case Transcript_apply (hc_transcript self) change of
        (transcript, Inl _) \<Rightarrow> (self\<lparr>hc_transcript := transcript, hc_cursor := None\<rparr>, False)
      | (transcript, Inr _) \<Rightarrow>
          (hub_publish (self\<lparr>hc_transcript := transcript, hc_cursor := Some cursor\<rparr>) (Hub_Change change cursor), True))"
| "hub_receive self (Msg_Ack _ _) = (self, True)"
| "hub_receive self (Msg_Bye _) = (self, False)"

section \<open>The view in the pane\<close>

record PaneView =
  pv_cursor :: "Cursor option"
  pv_transcript :: Transcript
  pv_cached :: "EntryId list"
  pv_flash :: "Rejection option"
  pv_choice :: nat

datatype Received = Received_Applied | Received_Resync | Received_Closed

definition pv_options :: "PaneView \<Rightarrow> nat" where
  "pv_options self = (case tr_permissions (pv_transcript self) of p # _ \<Rightarrow> length (pm_options p) | [] \<Rightarrow> 0)"

fun pv_invalidate :: "PaneView \<Rightarrow> ChatChange \<Rightarrow> PaneView" where
  "pv_invalidate self (Change_Push e) = self\<lparr>pv_cached := removeAll (en_id e) (pv_cached self)\<rparr>"
| "pv_invalidate self (Change_Replace e) = self\<lparr>pv_cached := removeAll (en_id e) (pv_cached self)\<rparr>"
| "pv_invalidate self (Change_Append i _) = self\<lparr>pv_cached := removeAll i (pv_cached self)\<rparr>"
| "pv_invalidate self (Change_Truncate before) = self\<lparr>pv_cached := filter (\<lambda>i. before \<le> i) (pv_cached self)\<rparr>"
| "pv_invalidate self _ = self"

definition pv_applied :: "PaneView \<Rightarrow> PaneView \<times> Received" where
  "pv_applied self = (if pv_options self \<le> pv_choice self then self\<lparr>pv_choice := 0\<rparr> else self, Received_Applied)"

definition pv_follows :: "Cursor option \<Rightarrow> Cursor \<Rightarrow> bool" where
  "pv_follows known cursor =
     (case known of
        Some k \<Rightarrow> cu_epoch k = cu_epoch cursor \<and> u64_add (cu_seq k) 1 = cu_seq cursor
      | None \<Rightarrow> False)"

fun pv_receive :: "PaneView \<Rightarrow> ChatServerMessage \<Rightarrow> PaneView \<times> Received" where
  "pv_receive self (Msg_Welcome _ _ _) = pv_applied self"
| "pv_receive self (Msg_Snapshot cursor transcript) =
     pv_applied (self\<lparr>pv_transcript := transcript, pv_cursor := Some cursor, pv_cached := []\<rparr>)"
| "pv_receive self (Msg_Change change cursor) =
     (if \<not> pv_follows (pv_cursor self) cursor then (self\<lparr>pv_cursor := None\<rparr>, Received_Resync)
      else case Transcript_apply (pv_transcript self) change of
        (transcript, Inl _) \<Rightarrow> (self\<lparr>pv_transcript := transcript, pv_cursor := None\<rparr>, Received_Resync)
      | (transcript, Inr _) \<Rightarrow>
          pv_applied (pv_invalidate (self\<lparr>pv_transcript := transcript, pv_cursor := Some cursor\<rparr>) change))"
| "pv_receive self (Msg_Ack _ rejected) = pv_applied (self\<lparr>pv_flash := rejected\<rparr>)"
| "pv_receive self (Msg_Bye _) = (self, Received_Closed)"

text \<open>A message as the view's event loop takes it: whether it reads on from this attachment.\<close>

definition pv_poll :: "PaneView \<Rightarrow> ChatServerMessage \<Rightarrow> PaneView \<times> bool" where
  "pv_poll self m = (case pv_receive self m of (self, r) \<Rightarrow> (self, r = Received_Applied))"

end
