(* ===== verification/Chat_Sync.thy ===== *)
theory Chat_Sync
  imports Chat_Commands Chat_Client
begin

text \<open>
  A chat program and the copies its clients keep, with the queues and connections between them: what is in flight
  brings an attached client exactly to the program's transcript, however often connections are lost, clients fall
  behind and the program's log is cut.
\<close>

section \<open>Streams\<close>

text \<open>
  What a client at position \<open>p\<close> of the program's changes may be sent, where \<open>H n\<close> is the transcript after \<open>n\<close>
  changes, and where it brings the client.
\<close>

fun follows :: "(nat \<Rightarrow> Transcript) \<Rightarrow> Uuid \<Rightarrow> nat option \<Rightarrow> ChatServerMessage list \<Rightarrow> bool" where
  "follows H epoch p [] = True"
| "follows H epoch p (Msg_Change c cursor # ms) =
     (case p of
        Some n \<Rightarrow>
          cursor = \<lparr>cu_epoch = epoch, cu_seq = Suc n\<rparr> \<and> Transcript_apply (H n) c = (H (Suc n), Inr ())
          \<and> follows H epoch (Some (Suc n)) ms
      | None \<Rightarrow> False)"
| "follows H epoch p (Msg_Snapshot cursor t # ms) =
     (cu_epoch cursor = epoch \<and> t = H (cu_seq cursor) \<and> follows H epoch (Some (cu_seq cursor)) ms)"
| "follows H epoch p (Msg_Welcome _ _ _ # ms) = follows H epoch p ms"
| "follows H epoch p (Msg_Ack _ _ # ms) = follows H epoch p ms"
| "follows H epoch p (Msg_Bye _ # ms) = follows H epoch p ms"

fun position_after :: "nat option \<Rightarrow> ChatServerMessage list \<Rightarrow> nat option" where
  "position_after p [] = p"
| "position_after p (Msg_Change _ cursor # ms) = position_after (Some (cu_seq cursor)) ms"
| "position_after p (Msg_Snapshot cursor _ # ms) = position_after (Some (cu_seq cursor)) ms"
| "position_after p (_ # ms) = position_after p ms"

lemma position_after_append [simp]: "position_after p (ms @ ms') = position_after (position_after p ms) ms'"
  by (induction p ms rule: position_after.induct) auto

lemma follows_append [simp]:
  "follows H epoch p (ms @ ms') \<longleftrightarrow> follows H epoch p ms \<and> follows H epoch (position_after p ms) ms'"
  by (induction H epoch p ms rule: follows.induct) (auto split: option.splits)

definition agree_upto :: "nat \<Rightarrow> (nat \<Rightarrow> Transcript) \<Rightarrow> (nat \<Rightarrow> Transcript) \<Rightarrow> bool" where
  "agree_upto n H H' \<longleftrightarrow> (\<forall>m \<le> n. H' m = H m)"

text \<open>A stream that ends by position \<open>n\<close> only depends on the transcripts up to it.\<close>

fun upto_position :: "nat \<Rightarrow> ChatServerMessage list \<Rightarrow> bool" where
  "upto_position n [] = True"
| "upto_position n (Msg_Change _ cursor # ms) = (cu_seq cursor \<le> n \<and> upto_position n ms)"
| "upto_position n (Msg_Snapshot cursor _ # ms) = (cu_seq cursor \<le> n \<and> upto_position n ms)"
| "upto_position n (_ # ms) = upto_position n ms"

lemma upto_position_append [simp]: "upto_position n (ms @ ms') \<longleftrightarrow> upto_position n ms \<and> upto_position n ms'"
  by (induction n ms rule: upto_position.induct) auto

lemma upto_position_mono: "upto_position n ms \<Longrightarrow> n \<le> m \<Longrightarrow> upto_position m ms"
  by (induction n ms rule: upto_position.induct) auto

lemma follows_agree:
  "follows H epoch p ms \<Longrightarrow> upto_position n ms \<Longrightarrow> agree_upto n H H' \<Longrightarrow> follows H' epoch p ms"
  by (induction H epoch p ms rule: follows.induct) (auto simp: agree_upto_def split: option.splits)

section \<open>The program's log\<close>

definition logged :: "(nat \<Rightarrow> Transcript) \<Rightarrow> ChatSession \<Rightarrow> bool" where
  "logged H s \<longleftrightarrow>
     H (ss_seq s) = ss_transcript s \<and> length (ss_log s) \<le> ss_seq s \<and>
     map fst (ss_log s) = [Suc (ss_seq s) - length (ss_log s)..<Suc (ss_seq s)] \<and>
     (\<forall>(n, c) \<in> set (ss_log s). Transcript_apply (H (n - 1)) c = (H n, Inr ()))"

lemma evict_log_drop: "\<exists>n. fst (evict_log room log weight) = drop n log"
proof (induction log arbitrary: weight)
  case (Cons x log)
  obtain n where "fst (evict_log room log (weight - change_size (snd x))) = drop n log" using Cons.IH by blast
  then have "fst (evict_log room (x # log) weight) = drop (Suc n) (x # log) \<or> fst (evict_log room (x # log) weight) = drop 0 (x # log)"
    by auto
  then show ?case by blast
qed simp

lemma publish_log: "\<exists>n. ss_log (publish s t c) = drop n (ss_log s) @ [(Suc (ss_seq s), c)]"
  using evict_log_drop [of "change_size c" "ss_log s" "ss_log_bytes s"]
  by (auto simp: publish_def Let_def case_prod_beta)

lemma publish_logged:
  assumes "logged H s" "Transcript_apply (ss_transcript s) c = (t, Inr u)"
  shows "logged (H(Suc (ss_seq s) := t)) (publish s t c)"
proof -
  obtain n where log: "ss_log (publish s t c) = drop n (ss_log s) @ [(Suc (ss_seq s), c)]" using publish_log by blast
  let ?k = "length (ss_log s)"
  have keys: "map fst (ss_log s) = [Suc (ss_seq s) - ?k..<Suc (ss_seq s)]" "?k \<le> ss_seq s" "H (ss_seq s) = ss_transcript s"
    using assms(1) by (auto simp: logged_def)
  have "map fst (drop n (ss_log s)) = [Suc (ss_seq s) - (?k - n)..<Suc (ss_seq s)]"
    unfolding drop_map [symmetric] keys(1) using keys(2) by (auto simp: drop_upt intro!: arg_cong2 [where f = upt])
  moreover have "Transcript_apply ((H(Suc (ss_seq s) := t)) (m - 1)) d = ((H(Suc (ss_seq s) := t)) m, Inr ())"
    if "(m, d) \<in> set (drop n (ss_log s))" for m d
  proof -
    have "(m, d) \<in> set (ss_log s)" using that by (rule in_set_dropD)
    moreover from this have "m \<in> set (map fst (ss_log s))" by force
    ultimately show ?thesis using assms(1) keys(1) by (auto simp: logged_def)
  qed
  ultimately show ?thesis using keys assms(2) log by (auto simp: logged_def)
qed

text \<open>The changes a client that resumes is sent: those after its cursor, all of them.\<close>

definition change_message :: "Uuid \<Rightarrow> nat \<times> ChatChange \<Rightarrow> ChatServerMessage" where
  "change_message epoch = (\<lambda>(seq, c). Msg_Change c \<lparr>cu_epoch = epoch, cu_seq = seq\<rparr>)"

lemma follows_log:
  assumes "map fst l = [Suc n..<Suc n + length l]"
    and "\<forall>(m, c) \<in> set l. Transcript_apply (H (m - 1)) c = (H m, Inr ())"
  shows "follows H epoch (Some n) (map (change_message epoch) l)
    \<and> position_after (Some n) (map (change_message epoch) l) = Some (n + length l) \<and> upto_position (n + length l) (map (change_message epoch) l)"
  using assms
proof (induction l arbitrary: n)
  case (Cons x l)
  obtain m c where x: "x = (m, c)" by (cases x)
  have "[Suc n..<Suc n + length (x # l)] = Suc n # [Suc (Suc n)..<Suc (Suc n) + length l]"
    by (simp add: upt_conv_Cons del: upt_Suc)
  then have m: "m = Suc n" "map fst l = [Suc (Suc n)..<Suc (Suc n) + length l]" using Cons.prems(1) x by simp_all
  have "Transcript_apply (H n) c = (H (Suc n), Inr ())" using Cons.prems(2) x m by auto
  with Cons.IH [OF m(2)] Cons.prems(2) x m(1) show ?case by (simp add: change_message_def)
qed simp

lemma filter_log:
  assumes "map fst l = [a..<b]" "a \<le> Suc n" "n < b"
  shows "map fst (filter (\<lambda>(m, _). n < m) l) = [Suc n..<b]"
proof -
  have "map fst (filter (\<lambda>(m, _). n < m) l) = filter (\<lambda>m. n < m) (map fst l)"
    by (induction l) auto
  also have "\<dots> = filter (\<lambda>m. n < m) [a..<b]" using assms(1) by simp
  also have "[a..<b] = [a..<Suc n] @ [Suc n..<b]" using assms(2,3) by (metis Suc_leI le_add_diff_inverse upt_add_eq_append)
  finally show ?thesis by (simp add: filter_id_conv)
qed

section \<open>One client's queue\<close>

definition outboxes :: "ChatSession \<Rightarrow> nat list" where
  "outboxes s = map sb_outbox (ss_subscribers s)"

definition ends_link :: "ChatServerMessage \<Rightarrow> bool" where
  "ends_link m \<longleftrightarrow> (case m of Msg_Bye _ \<Rightarrow> True | Msg_Welcome _ _ version \<Rightarrow> version \<noteq> CHAT_VERSION | _ \<Rightarrow> False)"

text \<open>
  The queue with handle \<open>k\<close>, after the messages \<open>w\<close> already taken from it, for a client at position \<open>p\<close>: a stream
  of the program's changes, complete as long as the client is attached.
\<close>

definition feeding :: "(nat \<Rightarrow> Transcript) \<Rightarrow> nat \<Rightarrow> nat option \<Rightarrow> ChatServerMessage list \<Rightarrow> ChatSession \<Rightarrow> bool" where
  "feeding H k p w s \<longleftrightarrow>
     (let ms = w @ cn_queue (ss_channels s k) in
      logged H s \<and> count_list (outboxes s) k \<le> 1 \<and> follows H (ss_epoch s) p ms \<and> upto_position (ss_seq s) ms \<and>
      (k \<in> set (outboxes s) \<longrightarrow> position_after p ms = Some (ss_seq s) \<and> list_all (\<lambda>m. \<not> ends_link m) ms))"

lemma broadcast_other:
  "k \<notin> sb_outbox ` set ss \<Longrightarrow> snd (broadcast ss channels m) k = channels k"
proof (induction ss arbitrary: channels)
  case (Cons s ss)
  then show ?case by (cases "try_send (channels (sb_outbox s)) m") (auto simp: case_prod_beta Let_def)
qed simp

lemma broadcast_kept: "set (fst (broadcast ss channels m)) \<subseteq> set ss"
proof (induction ss arbitrary: channels)
  case (Cons s ss)
  then show ?case
    by (cases "try_send (channels (sb_outbox s)) m") (simp_all add: case_prod_beta Let_def subset_insertI2 insert_mono)
qed simp

lemma count_list_subseq: "subseq xs ys \<Longrightarrow> count_list xs k \<le> count_list ys k"
  by (induction rule: list_emb.induct) auto

lemma broadcast_own:
  assumes "count_list (map sb_outbox ss) k = 1"
  shows "case try_send (channels k) m of
      Some ch \<Rightarrow> snd (broadcast ss channels m) k = ch
    | None \<Rightarrow> snd (broadcast ss channels m) k = channels k \<and> k \<notin> sb_outbox ` set (fst (broadcast ss channels m))"
  using assms
proof (induction ss arbitrary: channels)
  case (Cons s ss)
  show ?case
  proof (cases "sb_outbox s = k")
    case True
    with Cons.prems have none: "k \<notin> sb_outbox ` set ss" by (auto simp: count_list_0_iff)
    then have "k \<notin> sb_outbox ` set (fst (broadcast ss channels m))" for channels :: "nat \<Rightarrow> 'a Channel"
      using broadcast_kept [of ss channels m] by blast
    then show ?thesis using True none
      by (cases "try_send (channels k) m") (auto simp: case_prod_beta Let_def broadcast_other)
  next
    case False
    with Cons.prems have once: "count_list (map sb_outbox ss) k = 1" by simp
    show ?thesis
    proof (cases "try_send (channels (sb_outbox s)) m")
      case None
      then show ?thesis using Cons.IH [OF once, of channels] by (simp split: option.splits)
    next
      case (Some ch)
      have "(channels(sb_outbox s := ch)) k = channels k" using False by simp
      with Cons.IH [OF once, of "channels(sb_outbox s := ch)"] Some False show ?thesis
        by (simp add: case_prod_beta Let_def del: fun_upd_apply split: option.splits)
    qed
  qed
qed simp

text \<open>Every step of the program but the attachment of this client keeps its queue fed.\<close>

lemma try_send_Some:
  "try_send ch m = Some ch' \<longleftrightarrow> cn_open ch \<and> length (cn_queue ch) < cn_cap ch \<and> ch' = ch\<lparr>cn_queue := cn_queue ch @ [m]\<rparr>"
  by (auto simp: try_send_def)

lemma agree_upto_upd: "agree_upto n H (H(Suc n := t))"
  by (simp add: agree_upto_def)

lemma publish_feeding:
  assumes "feeding H k p w s" "Transcript_apply (ss_transcript s) c = (t, Inr u)"
  shows "feeding (H(Suc (ss_seq s) := t)) k p w (publish s t c)"
proof -
  let ?H = "H(Suc (ss_seq s) := t)" and ?s = "publish s t c"
  let ?m = "Msg_Change c \<lparr>cu_epoch = ss_epoch s, cu_seq = ss_seq s + 1\<rparr>"
  let ?ms = "w @ cn_queue (ss_channels s k)"
  have f: "logged H s" "count_list (outboxes s) k \<le> 1" "follows H (ss_epoch s) p ?ms" "upto_position (ss_seq s) ?ms"
    "k \<in> set (outboxes s) \<longrightarrow> position_after p ?ms = Some (ss_seq s) \<and> list_all (\<lambda>m. \<not> ends_link m) ?ms"
    using assms(1) by (simp_all add: feeding_def Let_def)
  have old: "follows ?H (ss_epoch s) p ?ms" "upto_position (Suc (ss_seq s)) ?ms"
    using follows_agree [OF f(3,4) agree_upto_upd] upto_position_mono [OF f(4)] by auto
  have log: "logged ?H ?s" using publish_logged [OF f(1) assms(2)] .
  have "subseq (outboxes ?s) (outboxes s)"
    by (simp add: outboxes_def publish_subscribers broadcast_subseq subseq_map)
  then have once: "count_list (outboxes ?s) k \<le> 1" by (rule le_trans [OF count_list_subseq f(2)])
  show ?thesis
  proof (cases "k \<in> set (outboxes s)")
    case False
    then have none: "k \<notin> sb_outbox ` set (ss_subscribers s)" by (simp add: outboxes_def)
    then have "ss_channels ?s k = ss_channels s k" by (simp add: publish_subscribers broadcast_other)
    moreover have "k \<notin> set (outboxes ?s)"
      using none image_mono [OF broadcast_kept [of "ss_subscribers s" "ss_channels s" ?m], of sb_outbox]
      by (auto simp: publish_subscribers outboxes_def)
    ultimately have "ss_channels ?s k = ss_channels s k" "k \<notin> set (outboxes ?s)" by simp_all
    then show ?thesis using log once old by (simp add: feeding_def Let_def)
  next
    case True
    then have own: "count_list (map sb_outbox (ss_subscribers s)) k = 1"
      using f(2) by (auto simp: outboxes_def count_list_0_iff le_Suc_eq)
    note b = broadcast_own [OF own, of "ss_channels s" ?m]
    have here: "H (ss_seq s) = ss_transcript s" using f(1) by (simp add: logged_def)
    show ?thesis
    proof (cases "try_send (ss_channels s k) ?m")
      case None
      with b have "ss_channels ?s k = ss_channels s k" "k \<notin> set (outboxes ?s)" by (simp_all add: publish_subscribers outboxes_def)
      then show ?thesis using log once old by (simp add: feeding_def Let_def)
    next
      case (Some ch)
      with b have "snd (broadcast (ss_subscribers s) (ss_channels s) ?m) k = ch" by (simp only: option.case)
      then have "ss_channels ?s k = ch" by (simp add: publish_subscribers)
      then have "cn_queue (ss_channels ?s k) = cn_queue (ss_channels s k) @ [?m]" using Some by (simp add: try_send_Some)
      then show ?thesis using log once old f(5) True here assms(2)
        by (simp add: feeding_def Let_def ends_link_def)
    qed
  qed
qed

definition keeps_feeding :: "nat \<Rightarrow> nat option \<Rightarrow> ChatServerMessage list \<Rightarrow> ChatSession \<Rightarrow> ChatSession \<Rightarrow> bool" where
  "keeps_feeding k p w s s' \<longleftrightarrow>
     ss_epoch s' = ss_epoch s \<and> ss_seq s \<le> ss_seq s' \<and> (k \<in> set (outboxes s') \<longrightarrow> k \<in> set (outboxes s)) \<and>
     (\<exists>x. cn_queue (ss_channels s' k) = cn_queue (ss_channels s k) @ x) \<and>
     (\<forall>H. feeding H k p w s \<longrightarrow> (\<exists>H'. feeding H' k p w s' \<and> agree_upto (ss_seq s) H H'))"

lemma agree_upto_refl [simp]: "agree_upto n H H"
  by (simp add: agree_upto_def)

lemma agree_upto_trans: "agree_upto n H H' \<Longrightarrow> agree_upto m H' H'' \<Longrightarrow> n \<le> m \<Longrightarrow> agree_upto n H H''"
  by (simp add: agree_upto_def)

lemma keeps_feeding_trans:
  assumes "keeps_feeding k p w s s'" "keeps_feeding k p w s' s''"
  shows "keeps_feeding k p w s s''"
  unfolding keeps_feeding_def
proof (intro conjI allI impI)
  fix H assume "feeding H k p w s"
  then obtain H' where H': "feeding H' k p w s'" "agree_upto (ss_seq s) H H'" using assms(1) by (auto simp: keeps_feeding_def)
  then obtain H'' where "feeding H'' k p w s''" "agree_upto (ss_seq s') H' H''" using assms(2) by (auto simp: keeps_feeding_def)
  then show "\<exists>H''. feeding H'' k p w s'' \<and> agree_upto (ss_seq s) H H''"
    using agree_upto_trans [OF H'(2)] assms(1) by (auto simp: keeps_feeding_def)
next
  obtain x y where "cn_queue (ss_channels s' k) = cn_queue (ss_channels s k) @ x" "cn_queue (ss_channels s'' k) = cn_queue (ss_channels s' k) @ y"
    using assms unfolding keeps_feeding_def by blast
  then show "\<exists>x. cn_queue (ss_channels s'' k) = cn_queue (ss_channels s k) @ x" by simp
qed (use assms in \<open>auto simp: keeps_feeding_def\<close>)

lemma keeps_feedingI:
  "ss_epoch s' = ss_epoch s \<Longrightarrow> ss_seq s' = ss_seq s \<Longrightarrow> (k \<in> set (outboxes s') \<Longrightarrow> k \<in> set (outboxes s)) \<Longrightarrow>
   \<exists>x. cn_queue (ss_channels s' k) = cn_queue (ss_channels s k) @ x \<Longrightarrow>
   (\<And>H. feeding H k p w s \<Longrightarrow> feeding H k p w s') \<Longrightarrow> keeps_feeding k p w s s'"
  unfolding keeps_feeding_def by (metis agree_upto_refl order_refl)

text \<open>What a broadcast does to this client's queue and to its place among the clients.\<close>

lemma broadcast_extends: "\<exists>x. cn_queue (snd (broadcast ss channels m) k) = cn_queue (channels k) @ x"
proof (induction ss arbitrary: channels)
  case (Cons s ss)
  show ?case
  proof (cases "try_send (channels (sb_outbox s)) m")
    case None
    then show ?thesis using Cons.IH by simp
  next
    case (Some ch)
    obtain x where "cn_queue (snd (broadcast ss (channels(sb_outbox s := ch)) m) k) = cn_queue ((channels(sb_outbox s := ch)) k) @ x"
      using Cons.IH by blast
    moreover have "\<exists>y. cn_queue ((channels(sb_outbox s := ch)) k) = cn_queue (channels k) @ y"
      using Some by (cases "k = sb_outbox s") (auto simp: try_send_Some)
    moreover have "snd (broadcast (s # ss) channels m) = snd (broadcast ss (channels(sb_outbox s := ch)) m)"
      using Some by (simp add: case_prod_beta Let_def)
    ultimately show ?thesis by (metis append.assoc)
  qed
qed simp

lemma publish_extends:
  "\<exists>x. cn_queue (ss_channels (publish s t c) k) = cn_queue (ss_channels s k) @ x"
  "k \<in> set (outboxes (publish s t c)) \<Longrightarrow> k \<in> set (outboxes s)"
  using broadcast_extends [of "ss_subscribers s" "ss_channels s"]
    image_mono [OF broadcast_kept [of "ss_subscribers s" "ss_channels s" "Msg_Change c \<lparr>cu_epoch = ss_epoch s, cu_seq = ss_seq s + 1\<rparr>"], of sb_outbox]
  by (auto simp: publish_subscribers outboxes_def)

lemma logged_cong:
  "ss_seq s' = ss_seq s \<Longrightarrow> ss_log s' = ss_log s \<Longrightarrow> ss_transcript s' = ss_transcript s \<Longrightarrow> logged H s' = logged H s"
  by (simp add: logged_def)

lemma feeding_leave:
  assumes "feeding H k p w s"
  shows "feeding H k p w (s\<lparr>ss_subscribers := filter q (ss_subscribers s)\<rparr>)"
proof -
  have "count_list (map sb_outbox (filter q xs)) k \<le> count_list (map sb_outbox xs) k" for xs by (induction xs) auto
  moreover have "count_list (map sb_outbox (ss_subscribers s)) k \<le> 1"
    using assms by (simp add: feeding_def outboxes_def Let_def)
  ultimately have "count_list (map sb_outbox (filter q (ss_subscribers s))) k \<le> 1" using le_trans by blast
  then show ?thesis using assms logged_cong [of "s\<lparr>ss_subscribers := filter q (ss_subscribers s)\<rparr>" s H]
    by (auto simp: feeding_def outboxes_def Let_def)
qed

lemma feeding_answer:
  assumes "feeding H k p w s" "try_send (ss_channels s j) m = Some ch"
    and "(\<exists>i r. m = Msg_Ack i r) \<or> (\<exists>r. m = Msg_Bye r) \<and> ss_subscribers s = []"
  shows "feeding H k p w (s\<lparr>ss_channels := (ss_channels s)(j := ch)\<rparr>)"
proof (cases "j = k")
  case True
  have "logged H (s\<lparr>ss_channels := (ss_channels s)(j := ch)\<rparr>) = logged H s" by (rule logged_cong) simp_all
  then show ?thesis using assms True by (auto simp: feeding_def outboxes_def Let_def try_send_Some ends_link_def)
next
  case False
  have "logged H (s\<lparr>ss_channels := (ss_channels s)(j := ch)\<rparr>) = logged H s" by (rule logged_cong) simp_all
  then show ?thesis using assms(1) False by (simp add: feeding_def outboxes_def Let_def)
qed

interpretation feed: emission "keeps_feeding k p w" for k p w
proof unfold_locales
  show "keeps_feeding k p w s s''" if "keeps_feeding k p w s s'" "keeps_feeding k p w s' s''" for s s' s''
    using keeps_feeding_trans that .
  show "keeps_feeding k p w s s'" if "same_core s s'" for s s'
  proof (rule keeps_feedingI)
    have "logged H s' = logged H s" for H using that by (intro logged_cong) (simp_all add: same_core_def)
    then show "feeding H k p w s'" if "feeding H k p w s" for H
      using that \<open>same_core s s'\<close> by (simp add: feeding_def same_core_def outboxes_def Let_def)
  qed (use that in \<open>simp_all add: same_core_def outboxes_def\<close>)
  show "keeps_feeding k p w s (publish s t c)" if "Transcript_apply (ss_transcript s) c = (t, Inr u)" for s c t u
    unfolding keeps_feeding_def
    using publish_feeding [OF _ that] agree_upto_upd publish_extends [where s = s and t = t and c = c and k = k] by fastforce
qed

interpretation fed: session_steps "keeps_feeding k p w" for k p w
proof unfold_locales
  show "keeps_feeding k p w s (s\<lparr>ss_handled := handled\<rparr>)" for s handled
  proof (rule keeps_feedingI)
    have "logged H (s\<lparr>ss_handled := handled\<rparr>) = logged H s" for H by (rule logged_cong) simp_all
    then show "feeding H k p w (s\<lparr>ss_handled := handled\<rparr>)" if "feeding H k p w s" for H
      using that by (simp add: feeding_def outboxes_def Let_def)
  qed (simp_all add: outboxes_def)
  show "keeps_feeding k p w s (s\<lparr>ss_subscribers := filter q (ss_subscribers s)\<rparr>)" for s q
    by (rule keeps_feedingI) (auto simp: feeding_leave outboxes_def)
  show "keeps_feeding k p w s (s\<lparr>ss_channels := (ss_channels s)(j := ch)\<rparr>)"
    if "try_send (ss_channels s j) (Msg_Ack i rejected) = Some ch" for s j i rejected ch
    by (rule keeps_feedingI) (use that in \<open>auto intro: feeding_answer simp: outboxes_def try_send_Some\<close>)
  show "keeps_feeding k p w s (s\<lparr>ss_channels := (ss_channels s)(j := ch)\<rparr>)"
    if "try_send (ss_channels s j) (Msg_Bye reason) = Some ch" "ss_subscribers s = []" for s j reason ch
    by (rule keeps_feedingI) (use that in \<open>auto intro: feeding_answer simp: outboxes_def try_send_Some\<close>)
qed

text \<open>Another client attaches.\<close>

lemma feeding_other:
  assumes "feeding H k p w s" "channels k = ss_channels s k" "k \<notin> sb_outbox ` set ss"
  shows "feeding H k p w (s\<lparr>ss_channels := channels, ss_subscribers := ss_subscribers s @ ss\<rparr>)"
proof -
  have "logged H (s\<lparr>ss_channels := channels, ss_subscribers := ss_subscribers s @ ss\<rparr>) = logged H s" by (rule logged_cong) simp_all
  moreover have "count_list (map sb_outbox ss) k = 0" using assms(3) by (simp add: count_list_0_iff)
  ultimately show ?thesis using assms by (auto simp: feeding_def outboxes_def Let_def)
qed

lemma keeps_feeding_other:
  assumes "channels k = ss_channels s k" "k \<notin> sb_outbox ` set ss"
  shows "keeps_feeding k p w s (s\<lparr>ss_channels := channels, ss_subscribers := ss_subscribers s @ ss\<rparr>)"
  by (rule keeps_feedingI) (use assms in \<open>auto simp: feeding_other outboxes_def\<close>)

lemma attach_other:
  assumes "ah_outbox a \<noteq> k"
  shows "keeps_feeding k p w s (Session_attach io s a)"
proof (cases "try_send (ss_channels s (ah_outbox a)) (Msg_Welcome (cc_agent (ss_config s)) (cc_pane (ss_config s)) CHAT_VERSION)")
  case None
  then show ?thesis by (simp add: Session_attach_def Let_def feed.rel_refl)
next
  case (Some ch)
  obtain sent ch' where sent: "send_all ch (attach_messages s (ah_since a)) = (sent, ch')" by (cases "send_all ch (attach_messages s (ah_since a))")
  let ?channels = "(ss_channels s)(ah_outbox a := ch')"
  let ?sub = "\<lparr>sb_conn = ah_conn a, sb_local = ah_local a, sb_outbox = ah_outbox a\<rparr>"
  have 1: "keeps_feeding k p w s (s\<lparr>ss_channels := ?channels\<rparr>)"
    using keeps_feeding_other [of ?channels k s "[]" p w] assms by simp
  have 2: "keeps_feeding k p w s (s\<lparr>ss_channels := ?channels, ss_subscribers := ss_subscribers s @ [?sub]\<rparr>)"
    by (rule keeps_feeding_other) (use assms in simp_all)
  show ?thesis
  proof (cases "ah_local a")
    case True
    with Some sent 1 2 show ?thesis by (simp add: Session_attach_def Let_def)
  next
    case False
    with Some sent 1 feed.emit_step [OF 2] show ?thesis by (simp add: Session_attach_def Let_def)
  qed
qed

text \<open>This client attaches: a greeting, then what it misses, as far as its queue takes it.\<close>

lemma send_all_takes:
  "send_all ch ms = (sent, ch') \<Longrightarrow> \<exists>n. cn_queue ch' = cn_queue ch @ take n ms \<and> (sent \<longrightarrow> length ms \<le> n)"
proof (induction ms arbitrary: ch)
  case (Cons m ms)
  show ?case
  proof (cases "try_send ch m")
    case None
    with Cons.prems show ?thesis by (auto intro: exI [of _ 0])
  next
    case (Some ch1)
    with Cons obtain n where "cn_queue ch' = cn_queue ch1 @ take n ms" "sent \<longrightarrow> length ms \<le> n" by auto
    with Some show ?thesis by (auto simp: try_send_Some intro!: exI [of _ "Suc n"])
  qed
qed simp

definition resumes :: "ChatSession \<Rightarrow> Cursor option \<Rightarrow> nat option \<Rightarrow> bool" where
  "resumes s since p \<longleftrightarrow> (\<forall>c. since = Some c \<and> cu_epoch c = ss_epoch s \<longrightarrow> p = Some (cu_seq c))"

lemma attach_messages_feed:
  assumes "logged H s" "resumes s since p"
  shows "follows H (ss_epoch s) p (attach_messages s since) \<and> position_after p (attach_messages s since) = Some (ss_seq s)
    \<and> upto_position (ss_seq s) (attach_messages s since) \<and> list_all (\<lambda>m. \<not> ends_link m) (attach_messages s since)"
proof (cases "catch_up s since")
  case None
  then show ?thesis using assms(1) by (simp add: attach_messages_def logged_def Session_cursor_def ends_link_def)
next
  case (Some c)
  then have c: "since = Some c" "cu_epoch c = ss_epoch s" "cu_seq c \<le> ss_seq s"
    and first: "(case ss_log s of (seq, _) # _ \<Rightarrow> seq | [] \<Rightarrow> ss_seq s + 1) \<le> cu_seq c + 1"
    by (auto simp: catch_up_def Let_def split: option.splits if_splits)
  let ?n = "cu_seq c" and ?a = "Suc (ss_seq s) - length (ss_log s)"
  let ?l = "filter (\<lambda>(m, _). cu_seq c < m) (ss_log s)"
  have log: "map fst (ss_log s) = [?a..<Suc (ss_seq s)]" "length (ss_log s) \<le> ss_seq s"
    "\<forall>(m, c) \<in> set (ss_log s). Transcript_apply (H (m - 1)) c = (H m, Inr ())"
    using assms(1) by (simp_all add: logged_def)
  have "?a \<le> Suc ?n"
  proof (cases "ss_log s")
    case Nil
    with first show ?thesis by simp
  next
    case (Cons x l)
    then have "fst x = hd [?a..<Suc (ss_seq s)]" using log(1) by (metis list.sel(1) list.simps(9))
    moreover have "?a < Suc (ss_seq s)" using Cons by simp
    ultimately have "fst x = ?a" by (simp del: upt_Suc)
    with first Cons show ?thesis by (auto simp: case_prod_beta)
  qed
  from filter_log [OF log(1) this] c(3) have keys: "map fst ?l = [Suc ?n..<Suc (ss_seq s)]" by simp
  then have len: "length ?l = ss_seq s - ?n" by (metis diff_Suc_Suc length_map length_upt)
  have "follows H (ss_epoch s) (Some ?n) (map (change_message (ss_epoch s)) ?l)
    \<and> position_after (Some ?n) (map (change_message (ss_epoch s)) ?l) = Some (?n + length ?l)
    \<and> upto_position (?n + length ?l) (map (change_message (ss_epoch s)) ?l)"
    by (rule follows_log) (use keys len c(3) log(3) in auto)
  moreover have "attach_messages s since = map (change_message (ss_epoch s)) ?l"
    using Some by (simp add: attach_messages_def change_message_def)
  moreover have "p = Some ?n" using assms(2) c by (simp add: resumes_def)
  ultimately show ?thesis using len c(3) by (auto simp: change_message_def ends_link_def list_all_iff)
qed

lemma attach_own:
  assumes "logged H s" "ah_outbox a \<notin> set (outboxes s)" "cn_queue (ss_channels s (ah_outbox a)) = []" "resumes s (ah_since a) p"
    and s': "s' = Session_attach io s a"
  shows "\<exists>H'. feeding H' (ah_outbox a) p [] s' \<and> agree_upto (ss_seq s) H H' \<and> ss_epoch s' = ss_epoch s \<and> ss_seq s \<le> ss_seq s'
    \<and> (ah_outbox a \<in> set (outboxes s') \<longrightarrow> (\<exists>n q ms. cn_queue (ss_channels s' (ah_outbox a)) = Msg_Welcome n q CHAT_VERSION # ms))"
proof -
  let ?k = "ah_outbox a"
  let ?m = "Msg_Welcome (cc_agent (ss_config s)) (cc_pane (ss_config s)) CHAT_VERSION"
  let ?ms = "attach_messages s (ah_since a)"
  note stream = attach_messages_feed [OF assms(1,4)]
  have none: "count_list (outboxes s) ?k = 0" using assms(2) by (simp add: count_list_0_iff)
  show ?thesis
  proof (cases "try_send (ss_channels s ?k) ?m")
    case None
    then have "s' = s" by (simp add: s' Session_attach_def Let_def)
    then show ?thesis using assms(1-3) none by (auto simp: feeding_def Let_def intro!: exI [of _ H])
  next
    case (Some ch)
    obtain sent ch' where sent: "send_all ch ?ms = (sent, ch')" by (cases "send_all ch ?ms")
    obtain n where n: "cn_queue ch' = ?m # take n ?ms" "sent \<longrightarrow> length ?ms \<le> n"
      using send_all_takes [OF sent] Some assms(3) by (auto simp: try_send_Some)
    have split: "?ms = take n ?ms @ drop n ?ms" by simp
    have take: "follows H (ss_epoch s) p (take n ?ms)" "upto_position (ss_seq s) (take n ?ms)"
      using stream by (metis follows_append upto_position_append split)+
    let ?s1 = "s\<lparr>ss_channels := (ss_channels s)(?k := ch')\<rparr>"
    let ?sub = "\<lparr>sb_conn = ah_conn a, sb_local = ah_local a, sb_outbox = ?k\<rparr>"
    let ?s2 = "?s1\<lparr>ss_subscribers := ss_subscribers s @ [?sub]\<rparr>"
    have log: "logged H ?s1 = logged H s" "logged H ?s2 = logged H s" by (rule logged_cong; simp)+
    have f1: "feeding H ?k p [] ?s1" using log assms(1,2) n(1) take none by (simp add: feeding_def Let_def outboxes_def)
    show ?thesis
    proof (cases sent)
      case False
      then have "s' = ?s1" using Some sent by (simp add: s' Session_attach_def Let_def)
      with f1 assms(2) show ?thesis by (auto simp: outboxes_def intro!: exI [of _ H])
    next
      case True
      then have all: "take n ?ms = ?ms" using n(2) by simp
      have f2: "feeding H ?k p [] ?s2"
        using log assms(1) n(1) all stream none by (simp add: feeding_def Let_def outboxes_def ends_link_def)
      have s'2: "s' = (if ah_local a then ?s2 else Session_emit io ?s2 (Change_Clients (remote_clients ?s2)))"
        using Some sent True by (simp add: s' Session_attach_def Let_def)
      have keep: "keeps_feeding ?k p [] ?s2 s'"
        unfolding s'2 using feed.rel_refl feed.rel_emit by simp
      then obtain H' where "feeding H' ?k p [] s'" "agree_upto (ss_seq ?s2) H H'" using f2 unfolding keeps_feeding_def by blast
      moreover obtain x where "cn_queue (ss_channels s' ?k) = cn_queue (ss_channels ?s2 ?k) @ x"
        using keep unfolding keeps_feeding_def by blast
      ultimately show ?thesis using keep n(1) unfolding keeps_feeding_def by auto
    qed
  qed
qed

text \<open>The log by itself, for a client that is not connected.\<close>

definition keeps_log :: "ChatSession \<Rightarrow> ChatSession \<Rightarrow> bool" where
  "keeps_log s s' \<longleftrightarrow>
     ss_epoch s' = ss_epoch s \<and> ss_seq s \<le> ss_seq s' \<and> (\<forall>H. logged H s \<longrightarrow> (\<exists>H'. logged H' s' \<and> agree_upto (ss_seq s) H H'))"

lemma keeps_logI:
  "ss_epoch s' = ss_epoch s \<Longrightarrow> ss_seq s' = ss_seq s \<Longrightarrow> ss_log s' = ss_log s \<Longrightarrow> ss_transcript s' = ss_transcript s \<Longrightarrow>
   keeps_log s s'"
  unfolding keeps_log_def using logged_cong [of s' s] agree_upto_refl by auto

lemma keeps_log_trans:
  assumes "keeps_log s s'" "keeps_log s' s''"
  shows "keeps_log s s''"
  unfolding keeps_log_def
proof (intro conjI allI impI)
  fix H assume "logged H s"
  then obtain H' where H': "logged H' s'" "agree_upto (ss_seq s) H H'" using assms(1) by (auto simp: keeps_log_def)
  then obtain H'' where "logged H'' s''" "agree_upto (ss_seq s') H' H''" using assms(2) by (auto simp: keeps_log_def)
  then show "\<exists>H''. logged H'' s'' \<and> agree_upto (ss_seq s) H H''"
    using agree_upto_trans [OF H'(2)] assms(1) by (auto simp: keeps_log_def)
qed (use assms in \<open>auto simp: keeps_log_def\<close>)

interpretation logs: emission keeps_log
proof unfold_locales
  show "keeps_log s s''" if "keeps_log s s'" "keeps_log s' s''" for s s' s''
    using keeps_log_trans that .
  show "keeps_log s (publish s t c)" if "Transcript_apply (ss_transcript s) c = (t, Inr u)" for s c t u
    unfolding keeps_log_def using publish_logged [OF _ that] agree_upto_upd by fastforce
qed (auto intro: keeps_logI simp: same_core_def)

interpretation kept: session_steps keeps_log
  by unfold_locales (auto intro: keeps_logI)

lemma attach_keeps_log: "keeps_log s (Session_attach io s a)"
  by (auto simp: Session_attach_def Let_def case_prod_beta intro!: logs.emit_step keeps_logI split: option.split)

lemma handle_keeps_log: "keeps_log s (fst (Session_handle lib io s input))"
proof (cases "\<exists>a. input = Input_Attach a")
  case True
  then show ?thesis using attach_keeps_log by auto
next
  case False
  then show ?thesis using kept.handle_step [OF logs.rel_refl] by blast
qed

lemma handle_keeps_feeding:
  assumes "\<And>a. input = Input_Attach a \<Longrightarrow> ah_outbox a \<noteq> k"
  shows "keeps_feeding k p w s (fst (Session_handle lib io s input))"
proof (cases "\<exists>a. input = Input_Attach a")
  case True
  then show ?thesis using attach_other assms by auto
next
  case False
  then show ?thesis using fed.handle_step [OF feed.rel_refl] by blast
qed

section \<open>Clients\<close>

text \<open>
  What a client promises: a greeting makes it ready; then it takes a snapshot and the change after the last, and
  answers do not touch its copy; what it refuses leaves its copy and at most drops its cursor.
\<close>

definition unspoiled :: "('c \<Rightarrow> Cursor option) \<Rightarrow> ('c \<Rightarrow> Transcript) \<Rightarrow> 'c \<Rightarrow> 'c \<Rightarrow> bool" where
  "unspoiled cursor transcript c c' \<longleftrightarrow> transcript c' = transcript c \<and> (cursor c' = cursor c \<or> cursor c' = None)"

text \<open>A client's place in the changes of the run \<open>epoch\<close>, and that its copy is the transcript there.\<close>

definition place :: "('c \<Rightarrow> Cursor option) \<Rightarrow> Uuid \<Rightarrow> 'c \<Rightarrow> nat option" where
  "place cursor epoch c =
     (case cursor c of Some cur \<Rightarrow> if cu_epoch cur = epoch then Some (cu_seq cur) else None | None \<Rightarrow> None)"

definition copies ::
  "('c \<Rightarrow> Cursor option) \<Rightarrow> ('c \<Rightarrow> Transcript) \<Rightarrow> (nat \<Rightarrow> Transcript) \<Rightarrow> Uuid \<Rightarrow> nat \<Rightarrow> 'c \<Rightarrow> bool" where
  "copies cursor transcript H epoch n c \<longleftrightarrow> (\<forall>m. place cursor epoch c = Some m \<longrightarrow> m \<le> n \<and> transcript c = H m)"

locale chat_client =
  fixes receive :: "'c \<Rightarrow> ChatServerMessage \<Rightarrow> 'c \<times> bool"
    and cursor :: "'c \<Rightarrow> Cursor option"
    and transcript :: "'c \<Rightarrow> Transcript"
    and ready :: "'c \<Rightarrow> bool"
  assumes refused: "receive c m = (c', False) \<Longrightarrow> unspoiled cursor transcript c c'"
    and greeting: "receive c (Msg_Welcome a q v) = (c', True) \<Longrightarrow> ready c' \<and> cursor c' = cursor c \<and> transcript c' = transcript c"
    and greeted: "\<exists>c'. receive c (Msg_Welcome a q CHAT_VERSION) = (c', True)"
    and unready: "\<not> ready c \<Longrightarrow> \<not> is_welcome m \<Longrightarrow> \<exists>c'. receive c m = (c', False)"
    and snapshot: "ready c \<Longrightarrow> \<exists>c'. receive c (Msg_Snapshot cur t) = (c', True) \<and> ready c' \<and> cursor c' = Some cur \<and> transcript c' = t"
    and change: "ready c \<Longrightarrow> cursor c = Some \<lparr>cu_epoch = e, cu_seq = n\<rparr> \<Longrightarrow> n < U64_MAX \<Longrightarrow>
                 Transcript_apply (transcript c) ch = (t, Inr ()) \<Longrightarrow>
                 \<exists>c'. receive c (Msg_Change ch \<lparr>cu_epoch = e, cu_seq = Suc n\<rparr>) = (c', True) \<and> ready c' \<and>
                      cursor c' = Some \<lparr>cu_epoch = e, cu_seq = Suc n\<rparr> \<and> transcript c' = t"
    and ack: "ready c \<Longrightarrow> \<exists>c'. receive c (Msg_Ack i r) = (c', True) \<and> ready c' \<and> cursor c' = cursor c \<and> transcript c' = transcript c"
    and bye: "\<exists>c'. receive c (Msg_Bye reason) = (c', False)"
begin

lemma copies_unspoiled: "copies cursor transcript H epoch n c \<Longrightarrow> unspoiled cursor transcript c c' \<Longrightarrow> copies cursor transcript H epoch n c'"
  by (auto simp: copies_def unspoiled_def place_def)

lemma copies_agree: "copies cursor transcript H epoch n c \<Longrightarrow> agree_upto n H H' \<Longrightarrow> n \<le> n' \<Longrightarrow> copies cursor transcript H' epoch n' c"
  by (auto simp: copies_def agree_upto_def)

text \<open>A client takes the next message of a stream of its own position.\<close>

lemma receive_next:
  assumes "copies cursor transcript H epoch n c" "follows H epoch (place cursor epoch c) (m # ms)" "upto_position n (m # ms)" "n \<le> U64_MAX"
    and "receive c m = (c', True)"
  shows "copies cursor transcript H epoch n c' \<and> follows H epoch (place cursor epoch c') ms \<and> place cursor epoch c' = position_after (place cursor epoch c) [m] \<and> ready c'"
proof (cases m)
  case (Msg_Welcome a q v)
  with assms greeting show ?thesis by (auto simp: copies_def place_def)
next
  case (Msg_Snapshot cur t)
  have "ready c" using unready [of c m] assms(5) Msg_Snapshot by fastforce
  from snapshot [OF this, of cur t] have "ready c'" "cursor c' = Some cur" "transcript c' = t" using assms(5) Msg_Snapshot by auto
  with assms(2,3) Msg_Snapshot show ?thesis by (auto simp: copies_def place_def)
next
  case (Msg_Change ch cur)
  have r: "ready c" using unready [of c m] assms(5) Msg_Change by fastforce
  obtain k where k: "place cursor epoch c = Some k" "cur = \<lparr>cu_epoch = epoch, cu_seq = Suc k\<rparr>"
    "Transcript_apply (H k) ch = (H (Suc k), Inr ())" "follows H epoch (Some (Suc k)) ms"
    using assms(2) Msg_Change by (auto split: option.splits)
  have here: "cursor c = Some \<lparr>cu_epoch = epoch, cu_seq = k\<rparr>" "transcript c = H k"
    using k(1) assms(1) by (auto simp: place_def copies_def split: option.splits if_splits)
  have "k < U64_MAX" "Suc k \<le> n" using assms(3,4) Msg_Change k(2) by auto
  with change [OF r here(1), of ch "H (Suc k)"] k(3) here(2) assms(5) Msg_Change k(2)
  have "ready c'" "cursor c' = Some cur" "transcript c' = H (Suc k)" by auto
  with k \<open>Suc k \<le> n\<close> Msg_Change show ?thesis by (auto simp: copies_def place_def)
next
  case (Msg_Ack i rj)
  have "ready c" using unready [of c m] assms(5) Msg_Ack by fastforce
  from ack [OF this, of i rj] assms Msg_Ack show ?thesis by (auto simp: copies_def place_def)
next
  case (Msg_Bye reason)
  with bye [of c reason] assms(5) show ?thesis by auto
qed

text \<open>A client that is ready refuses nothing that does not end the connection.\<close>

lemma receive_ready:
  assumes "copies cursor transcript H epoch n c" "follows H epoch (place cursor epoch c) (m # ms)" "upto_position n (m # ms)" "n \<le> U64_MAX"
    and "ready c \<or> is_welcome m" "\<not> ends_link m"
  shows "\<exists>c'. receive c m = (c', True)"
proof (cases m)
  case (Msg_Change ch cur)
  then have r: "ready c" using assms(5) by auto
  obtain k where k: "place cursor epoch c = Some k" "cur = \<lparr>cu_epoch = epoch, cu_seq = Suc k\<rparr>"
    "Transcript_apply (H k) ch = (H (Suc k), Inr ())"
    using assms(2) Msg_Change by (auto split: option.splits)
  have here: "cursor c = Some \<lparr>cu_epoch = epoch, cu_seq = k\<rparr>" "transcript c = H k"
    using k(1) assms(1) by (auto simp: place_def copies_def split: option.splits if_splits)
  have "k < U64_MAX" using assms(3,4) Msg_Change k(2) by auto
  with change [OF r here(1), of ch "H (Suc k)"] k here(2) Msg_Change show ?thesis by auto
next
  case (Msg_Snapshot cur t)
  then have "ready c" using assms(5) by auto
  from snapshot [OF this, of cur t] Msg_Snapshot show ?thesis by blast
next
  case (Msg_Ack i rj)
  then have "ready c" using assms(5) by auto
  from ack [OF this, of i rj] Msg_Ack show ?thesis by blast
qed (use assms(6) greeted in \<open>auto simp: ends_link_def\<close>)

end

section \<open>A program and one of its clients\<close>

text \<open>
  The session, a client, the handle of the queue its connection reads from, and what the connection's writer took from
  the queue and the client has not read yet.
\<close>

record 'c ChatWorld =
  wd_server :: ChatSession
  wd_client :: 'c
  wd_link :: "nat option"
  wd_wire :: "ChatServerMessage list"

text \<open>
  A program starts with an epoch of its own, whatever the client kept of earlier ones. The session handles any input,
  other clients' queues are read and closed, the agent reads its own, and this client connects from its cursor, reads,
  refuses a message, loses its connection or changes by itself. The session's counter of changes does not wrap.
\<close>

inductive chat_reachable ::
  "'v AcpLib \<Rightarrow> ('c \<Rightarrow> ChatServerMessage \<Rightarrow> 'c \<times> bool) \<Rightarrow> ('c \<Rightarrow> Cursor option) \<Rightarrow> ('c \<Rightarrow> Transcript) \<Rightarrow> ('c \<Rightarrow> bool)
   \<Rightarrow> 'c ChatWorld \<Rightarrow> bool"
  for lib receive cursor transcript ready where
  world_new:
    "(\<And>cur. cursor c = Some cur \<Longrightarrow> cu_epoch cur \<noteq> epoch) \<Longrightarrow>
     chat_reachable lib receive cursor transcript ready
       \<lparr>wd_server = ChatSession_new config history epoch outbox channels, wd_client = c, wd_link = None, wd_wire = []\<rparr>"
| world_start:
    "chat_reachable lib receive cursor transcript ready w \<Longrightarrow>
     s' = Session_start io (wd_server w) \<or> s' = Session_notice io (wd_server w) level t \<Longrightarrow> ss_seq s' \<le> U64_MAX \<Longrightarrow>
     chat_reachable lib receive cursor transcript ready (w\<lparr>wd_server := s'\<rparr>)"
| world_input:
    "chat_reachable lib receive cursor transcript ready w \<Longrightarrow>
     (\<And>a. input = Input_Attach a \<Longrightarrow> wd_link w \<noteq> Some (ah_outbox a)) \<Longrightarrow>
     s' = fst (Session_handle lib io (wd_server w) input) \<Longrightarrow> ss_seq s' \<le> U64_MAX \<Longrightarrow>
     chat_reachable lib receive cursor transcript ready (w\<lparr>wd_server := s'\<rparr>)"
| world_others:
    "chat_reachable lib receive cursor transcript ready w \<Longrightarrow>
     (\<And>k. wd_link w = Some k \<Longrightarrow> channels k = ss_channels (wd_server w) k) \<Longrightarrow>
     chat_reachable lib receive cursor transcript ready (w\<lparr>wd_server := (wd_server w)\<lparr>ss_channels := channels, ss_outbox := outbox\<rparr>\<rparr>)"
| world_connect:
    "chat_reachable lib receive cursor transcript ready w \<Longrightarrow> wd_link w = None \<Longrightarrow>
     k \<notin> set (outboxes (wd_server w)) \<Longrightarrow> cn_queue (ss_channels (wd_server w) k) = [] \<Longrightarrow>
     cursor c' = cursor (wd_client w) \<Longrightarrow> transcript c' = transcript (wd_client w) \<Longrightarrow>
     s' = Session_attach io (wd_server w) \<lparr>ah_conn = conn, ah_local = loc, ah_outbox = k, ah_since = cursor (wd_client w)\<rparr> \<Longrightarrow>
     ss_seq s' \<le> U64_MAX \<Longrightarrow>
     chat_reachable lib receive cursor transcript ready \<lparr>wd_server = s', wd_client = c', wd_link = Some k, wd_wire = []\<rparr>"
| world_write:
    "chat_reachable lib receive cursor transcript ready w \<Longrightarrow> wd_link w = Some k \<Longrightarrow>
     ch = ss_channels (wd_server w) k \<Longrightarrow> cn_queue ch = m # ms \<Longrightarrow>
     chat_reachable lib receive cursor transcript ready
       (w\<lparr>wd_server := (wd_server w)\<lparr>ss_channels := (ss_channels (wd_server w))(k := ch\<lparr>cn_queue := ms\<rparr>)\<rparr>, wd_wire := wd_wire w @ [m]\<rparr>)"
| world_read:
    "chat_reachable lib receive cursor transcript ready w \<Longrightarrow> wd_wire w = m # ms \<Longrightarrow> receive (wd_client w) m = (c', True) \<Longrightarrow>
     chat_reachable lib receive cursor transcript ready (w\<lparr>wd_client := c', wd_wire := ms\<rparr>)"
| world_refuse:
    "chat_reachable lib receive cursor transcript ready w \<Longrightarrow> wd_wire w = m # ms \<Longrightarrow> receive (wd_client w) m = (c', False) \<Longrightarrow>
     chat_reachable lib receive cursor transcript ready (w\<lparr>wd_client := c', wd_link := None, wd_wire := []\<rparr>)"
| world_lose:
    "chat_reachable lib receive cursor transcript ready w \<Longrightarrow> unspoiled cursor transcript (wd_client w) c' \<Longrightarrow>
     chat_reachable lib receive cursor transcript ready (w\<lparr>wd_client := c', wd_link := None, wd_wire := []\<rparr>)"
| world_local:
    "chat_reachable lib receive cursor transcript ready w \<Longrightarrow>
     cursor c' = cursor (wd_client w) \<Longrightarrow> transcript c' = transcript (wd_client w) \<Longrightarrow> ready c' = ready (wd_client w) \<Longrightarrow>
     chat_reachable lib receive cursor transcript ready (w\<lparr>wd_client := c'\<rparr>)"

definition in_flight :: "nat \<Rightarrow> 'c ChatWorld \<Rightarrow> ChatServerMessage list" where
  "in_flight k w = wd_wire w @ cn_queue (ss_channels (wd_server w) k)"

definition chat_world_ok ::
  "('c \<Rightarrow> Cursor option) \<Rightarrow> ('c \<Rightarrow> Transcript) \<Rightarrow> ('c \<Rightarrow> bool) \<Rightarrow> (nat \<Rightarrow> Transcript) \<Rightarrow> 'c ChatWorld \<Rightarrow> bool" where
  "chat_world_ok cursor transcript ready H w \<longleftrightarrow>
     (let s = wd_server w; c = wd_client w in
      logged H s \<and> ss_seq s \<le> U64_MAX \<and> copies cursor transcript H (ss_epoch s) (ss_seq s) c \<and>
      (wd_link w = None \<longrightarrow> wd_wire w = []) \<and>
      (\<forall>k. wd_link w = Some k \<longrightarrow>
         feeding H k (place cursor (ss_epoch s) c) (wd_wire w) s \<and>
         (k \<in> set (outboxes s) \<longrightarrow> ready c \<or> (\<exists>m ms. in_flight k w = m # ms \<and> is_welcome m))))"

context chat_client
begin

text \<open>The session takes a step that does not attach this client.\<close>

lemma server_step:
  assumes "chat_world_ok cursor transcript ready H w" "keeps_log (wd_server w) s'" "ss_seq s' \<le> U64_MAX"
    and "\<And>k. wd_link w = Some k \<Longrightarrow> keeps_feeding k (place cursor (ss_epoch (wd_server w)) (wd_client w)) (wd_wire w) (wd_server w) s'"
  shows "\<exists>H'. chat_world_ok cursor transcript ready H' (w\<lparr>wd_server := s'\<rparr>)"
proof (cases "wd_link w")
  case None
  obtain H' where "logged H' s'" "agree_upto (ss_seq (wd_server w)) H H'" "ss_epoch s' = ss_epoch (wd_server w)" "ss_seq (wd_server w) \<le> ss_seq s'"
    using assms(1,2) unfolding chat_world_ok_def keeps_log_def Let_def by blast
  then show ?thesis using assms(1,3) None copies_agree by (auto simp: chat_world_ok_def Let_def intro!: exI [of _ H'])
next
  case (Some k)
  note keep = assms(4) [OF Some, unfolded keeps_feeding_def]
  have ok: "feeding H k (place cursor (ss_epoch (wd_server w)) (wd_client w)) (wd_wire w) (wd_server w)"
    "copies cursor transcript H (ss_epoch (wd_server w)) (ss_seq (wd_server w)) (wd_client w)"
    "k \<in> set (outboxes (wd_server w)) \<longrightarrow> ready (wd_client w) \<or> (\<exists>m ms. in_flight k w = m # ms \<and> is_welcome m)"
    using assms(1) Some by (auto simp: chat_world_ok_def Let_def)
  obtain H' where H': "feeding H' k (place cursor (ss_epoch (wd_server w)) (wd_client w)) (wd_wire w) s'" "agree_upto (ss_seq (wd_server w)) H H'"
    using keep ok(1) by blast
  obtain x where x: "cn_queue (ss_channels s' k) = cn_queue (ss_channels (wd_server w) k) @ x" using keep by blast
  have "in_flight k (w\<lparr>wd_server := s'\<rparr>) = in_flight k w @ x" by (simp add: in_flight_def x)
  moreover have "logged H' s'" using H'(1) by (simp add: feeding_def Let_def)
  ultimately show ?thesis
    using keep ok H' assms(3) Some copies_agree [OF ok(2) H'(2)] by (auto simp: chat_world_ok_def Let_def intro!: exI [of _ H'])
qed

lemma place_cong: "cursor c' = cursor c \<Longrightarrow> place cursor epoch c' = place cursor epoch c"
  by (simp add: place_def)

lemma copies_cong:
  "cursor c' = cursor c \<Longrightarrow> transcript c' = transcript c \<Longrightarrow> copies cursor transcript H epoch n c' = copies cursor transcript H epoch n c"
  by (simp add: copies_def place_def)

text \<open>A client that lost its connection keeps its copy.\<close>

lemma offline_ok:
  "chat_world_ok cursor transcript ready H w \<Longrightarrow> unspoiled cursor transcript (wd_client w) c' \<Longrightarrow>
   chat_world_ok cursor transcript ready H (w\<lparr>wd_client := c', wd_link := None, wd_wire := []\<rparr>)"
  using copies_unspoiled by (auto simp: chat_world_ok_def Let_def)

lemma read_ok:
  assumes "chat_world_ok cursor transcript ready H w" "wd_wire w = m # ms" "receive (wd_client w) m = (c', True)"
  shows "chat_world_ok cursor transcript ready H (w\<lparr>wd_client := c', wd_wire := ms\<rparr>)"
proof -
  let ?s = "wd_server w" and ?c = "wd_client w"
  obtain k where k: "wd_link w = Some k" using assms(1,2) by (cases "wd_link w") (auto simp: chat_world_ok_def Let_def)
  let ?q = "cn_queue (ss_channels ?s k)"
  have ok: "copies cursor transcript H (ss_epoch ?s) (ss_seq ?s) ?c" "ss_seq ?s \<le> U64_MAX"
    and f: "feeding H k (place cursor (ss_epoch ?s) ?c) (m # ms) ?s"
    using assms(1,2) k by (auto simp: chat_world_ok_def Let_def)
  have "follows H (ss_epoch ?s) (place cursor (ss_epoch ?s) ?c) (m # (ms @ ?q))" "upto_position (ss_seq ?s) (m # (ms @ ?q))"
    using f by (simp_all add: feeding_def Let_def)
  note nx = receive_next [OF ok(1) this ok(2) assms(3)]
  have parts: "logged H ?s" "count_list (outboxes ?s) k \<le> 1"
    "k \<in> set (outboxes ?s) \<longrightarrow> position_after (place cursor (ss_epoch ?s) ?c) ([m] @ (ms @ ?q)) = Some (ss_seq ?s)
       \<and> list_all (\<lambda>m. \<not> ends_link m) (ms @ ?q)"
    using f by (auto simp: feeding_def Let_def simp del: position_after_append)
  have "upto_position (ss_seq ?s) ([m] @ (ms @ ?q))" using f by (simp add: feeding_def Let_def)
  then have "upto_position (ss_seq ?s) (ms @ ?q)" by (simp only: upto_position_append)
  moreover have "position_after p (m # ms @ ?q) = position_after (position_after p [m]) (ms @ ?q)" for p
    using position_after_append [of p "[m]" "ms @ ?q"] by simp
  ultimately have "feeding H k (place cursor (ss_epoch ?s) c') ms ?s"
    using parts nx unfolding feeding_def Let_def by (auto simp del: follows_append upto_position_append)
  then show ?thesis using assms(1) k nx by (auto simp: chat_world_ok_def Let_def)
qed

lemma connect_ok:
  assumes "chat_world_ok cursor transcript ready H w" "k \<notin> set (outboxes (wd_server w))" "cn_queue (ss_channels (wd_server w) k) = []"
    "cursor c' = cursor (wd_client w)" "transcript c' = transcript (wd_client w)"
    and s': "s' = Session_attach io (wd_server w) \<lparr>ah_conn = conn, ah_local = loc, ah_outbox = k, ah_since = cursor (wd_client w)\<rparr>"
    and "ss_seq s' \<le> U64_MAX"
  shows "\<exists>H'. chat_world_ok cursor transcript ready H' \<lparr>wd_server = s', wd_client = c', wd_link = Some k, wd_wire = []\<rparr>"
proof -
  let ?s = "wd_server w" and ?c = "wd_client w"
  let ?a = "\<lparr>ah_conn = conn, ah_local = loc, ah_outbox = k, ah_since = cursor ?c\<rparr>"
  have ok: "logged H ?s" "copies cursor transcript H (ss_epoch ?s) (ss_seq ?s) ?c" using assms(1) by (auto simp: chat_world_ok_def Let_def)
  have "resumes ?s (ah_since ?a) (place cursor (ss_epoch ?s) ?c)" by (auto simp: resumes_def place_def)
  with attach_own [OF ok(1), of ?a "place cursor (ss_epoch ?s) ?c" s' io] assms(2,3) s' obtain H' where
    H': "feeding H' k (place cursor (ss_epoch ?s) ?c) [] s'" "agree_upto (ss_seq ?s) H H'" "ss_epoch s' = ss_epoch ?s" "ss_seq ?s \<le> ss_seq s'"
    "k \<in> set (outboxes s') \<longrightarrow> (\<exists>n q ms. cn_queue (ss_channels s' k) = Msg_Welcome n q CHAT_VERSION # ms)"
    by auto
  have "logged H' s'" using H'(1) by (simp add: feeding_def Let_def)
  moreover have "copies cursor transcript H' (ss_epoch s') (ss_seq s') c'"
    using copies_agree [OF ok(2) H'(2,4)] H'(3) copies_cong [OF assms(4,5)] by simp
  ultimately show ?thesis using H' assms(7) place_cong [OF assms(4)]
    by (fastforce simp: chat_world_ok_def Let_def in_flight_def intro!: exI [of _ H'])
qed

lemma reachable_ok: "chat_reachable lib receive cursor transcript ready w \<Longrightarrow> \<exists>H. chat_world_ok cursor transcript ready H w"
proof (induction rule: chat_reachable.induct)
  case (world_new c epoch config history outbox channels)
  let ?s = "ChatSession_new config history epoch outbox channels"
  have "logged (\<lambda>_. ss_transcript ?s) ?s" by (simp add: logged_def ChatSession_new_def Let_def)
  moreover have "ss_seq ?s \<le> U64_MAX" by (simp add: ChatSession_new_def Let_def)
  moreover have "ss_epoch ?s = epoch" by (simp add: ChatSession_new_def Let_def)
  moreover from this have "place cursor (ss_epoch ?s) c = None"
    using world_new by (simp add: place_def split: option.splits)
  ultimately show ?case by (auto simp: chat_world_ok_def Let_def copies_def)
next
  case (world_start w s' io level t)
  then have "keeps_log (wd_server w) s'" "\<And>k p v. keeps_feeding k p v (wd_server w) s'"
    using logs.Session_start_step [OF logs.rel_refl] logs.fail_step(1) [OF logs.rel_refl]
      feed.Session_start_step [OF feed.rel_refl] feed.fail_step(1) [OF feed.rel_refl] by auto
  with world_start server_step show ?case by blast
next
  case (world_input w input s' io)
  then have "keeps_log (wd_server w) s'" using handle_keeps_log by blast
  moreover have "keeps_feeding k p v (wd_server w) s'" if "wd_link w = Some k" for k p v
    unfolding world_input(3) by (rule handle_keeps_feeding) (use world_input(2) that in auto)
  ultimately show ?case using server_step world_input by blast
next
  case (world_others w channels outbox)
  then obtain H where H: "chat_world_ok cursor transcript ready H w" by blast
  let ?s' = "(wd_server w)\<lparr>ss_channels := channels, ss_outbox := outbox\<rparr>"
  have "keeps_log (wd_server w) ?s'" by (rule keeps_logI) simp_all
  moreover have "keeps_feeding k p v (wd_server w) ?s'" if "wd_link w = Some k" for k p v
    using feed.update_steps(2) [OF keeps_feeding_other [of channels k "wd_server w" "[]" p v]] world_others(2) [OF that] by simp
  moreover have "ss_seq ?s' \<le> U64_MAX" using H by (simp add: chat_world_ok_def Let_def)
  ultimately show ?case using server_step [OF H] by blast
next
  case (world_connect w k c' s' io conn loc)
  then show ?case using connect_ok by blast
next
  case (world_write w k ch m ms)
  then obtain H where H: "chat_world_ok cursor transcript ready H w" by blast
  let ?s' = "(wd_server w)\<lparr>ss_channels := (ss_channels (wd_server w))(k := ch\<lparr>cn_queue := ms\<rparr>)\<rparr>"
  have log: "logged H ?s' = logged H (wd_server w)" by (rule logged_cong) simp_all
  have "feeding H k p (wd_wire w @ [m]) ?s' = feeding H k p (wd_wire w) (wd_server w)" for p
    using world_write(3,4) log by (simp add: feeding_def Let_def outboxes_def)
  then have "chat_world_ok cursor transcript ready H (w\<lparr>wd_server := ?s', wd_wire := wd_wire w @ [m]\<rparr>)"
    using H world_write(2-4) log by (simp add: chat_world_ok_def Let_def in_flight_def outboxes_def)
  then show ?case by blast
next
  case (world_read w m ms c')
  then show ?case using read_ok by blast
next
  case (world_refuse w m ms c')
  then show ?case using offline_ok refused by blast
next
  case (world_lose w c')
  then show ?case using offline_ok by blast
next
  case (world_local w c')
  then obtain H where "chat_world_ok cursor transcript ready H w" by blast
  then have "chat_world_ok cursor transcript ready H (w\<lparr>wd_client := c'\<rparr>)"
    using copies_cong [OF world_local(2,3)] place_cong [OF world_local(2)] world_local(4)
    by (simp add: chat_world_ok_def Let_def in_flight_def)
  then show ?case by blast
qed

end

text \<open>The client after it read some messages, if it refused none.\<close>

fun read_all :: "('c \<Rightarrow> ChatServerMessage \<Rightarrow> 'c \<times> bool) \<Rightarrow> 'c \<Rightarrow> ChatServerMessage list \<Rightarrow> 'c option" where
  "read_all receive c [] = Some c"
| "read_all receive c (m # ms) = (case receive c m of (c', True) \<Rightarrow> read_all receive c' ms | (c', False) \<Rightarrow> None)"

context chat_client
begin

lemma read_all_follows:
  assumes "copies cursor transcript H epoch n c" "follows H epoch (place cursor epoch c) ms" "upto_position n ms" "n \<le> U64_MAX"
    and "ready c \<or> (\<exists>m ms'. ms = m # ms' \<and> is_welcome m)" "list_all (\<lambda>m. \<not> ends_link m) ms"
  shows "\<exists>c'. read_all receive c ms = Some c' \<and> copies cursor transcript H epoch n c'
    \<and> place cursor epoch c' = position_after (place cursor epoch c) ms"
  using assms
proof (induction ms arbitrary: c)
  case (Cons m ms)
  obtain c1 where c1: "receive c m = (c1, True)" using receive_ready Cons.prems by fastforce
  note nx = receive_next [OF Cons.prems(1-4) c1]
  have "upto_position n ms" using Cons.prems(3) upto_position_append [of n "[m]" ms] by simp
  with Cons.IH [of c1] nx Cons.prems(4,6) obtain c' where
    c': "read_all receive c1 ms = Some c'" "copies cursor transcript H epoch n c'" "place cursor epoch c' = position_after (place cursor epoch c1) ms"
    by auto
  moreover have "position_after (place cursor epoch c) (m # ms) = position_after (place cursor epoch c1) ms"
    using nx position_after_append [of "place cursor epoch c" "[m]" ms] by simp
  ultimately show ?case using c1 by simp
qed simp

lemma place_cursor: "place cursor (ss_epoch s) c = Some (ss_seq s) \<longleftrightarrow> cursor c = Some (Session_cursor s)"
  by (auto simp: place_def Session_cursor_def split: option.splits if_splits)

lemma same_cursor:
  assumes "chat_reachable lib receive cursor transcript ready w" "cursor (wd_client w) = Some (Session_cursor (wd_server w))"
  shows "transcript (wd_client w) = ss_transcript (wd_server w)"
proof -
  obtain H where "chat_world_ok cursor transcript ready H w" using reachable_ok [OF assms(1)] by blast
  then have "copies cursor transcript H (ss_epoch (wd_server w)) (ss_seq (wd_server w)) (wd_client w)"
    "H (ss_seq (wd_server w)) = ss_transcript (wd_server w)"
    by (simp_all add: chat_world_ok_def Let_def logged_def)
  moreover have "place cursor (ss_epoch (wd_server w)) (wd_client w) = Some (ss_seq (wd_server w))" using assms(2) place_cursor by simp
  ultimately show ?thesis by (simp add: copies_def)
qed

lemma catches_up:
  assumes "chat_reachable lib receive cursor transcript ready w" "wd_link w = Some k" "k \<in> set (outboxes (wd_server w))"
  shows "\<exists>c. read_all receive (wd_client w) (in_flight k w) = Some c \<and> cursor c = Some (Session_cursor (wd_server w))
    \<and> transcript c = ss_transcript (wd_server w)"
proof -
  let ?s = "wd_server w" and ?c = "wd_client w"
  obtain H where H: "chat_world_ok cursor transcript ready H w" using reachable_ok [OF assms(1)] by blast
  have ok: "copies cursor transcript H (ss_epoch ?s) (ss_seq ?s) ?c" "ss_seq ?s \<le> U64_MAX" "H (ss_seq ?s) = ss_transcript ?s"
    and f: "feeding H k (place cursor (ss_epoch ?s) ?c) (wd_wire w) ?s"
    and r: "ready ?c \<or> (\<exists>m ms. in_flight k w = m # ms \<and> is_welcome m)"
    using H assms(2,3) by (auto simp: chat_world_ok_def Let_def logged_def)
  have ms: "follows H (ss_epoch ?s) (place cursor (ss_epoch ?s) ?c) (in_flight k w)" "upto_position (ss_seq ?s) (in_flight k w)"
    "position_after (place cursor (ss_epoch ?s) ?c) (in_flight k w) = Some (ss_seq ?s)" "list_all (\<lambda>m. \<not> ends_link m) (in_flight k w)"
    using f assms(3) by (simp_all add: feeding_def Let_def in_flight_def)
  from read_all_follows [OF ok(1) ms(1,2) ok(2) r ms(4)] ms(3) obtain c where
    c: "read_all receive ?c (in_flight k w) = Some c" "copies cursor transcript H (ss_epoch ?s) (ss_seq ?s) c"
    "place cursor (ss_epoch ?s) c = Some (ss_seq ?s)"
    by auto
  then show ?thesis using ok(3) place_cursor by (auto simp: copies_def)
qed

end

section \<open>The three clients\<close>

lemma touch_fields [simp]:
  "ws_cursor (ws_touch s c) = ws_cursor s" "ws_transcript (ws_touch s c) = ws_transcript s" "ws_welcomed (ws_touch s c) = ws_welcomed s"
  by (simp_all add: ws_touch_def touch_entry_def Let_def split: ChatChange.split)

lemma set_connected_fields [simp]:
  "hc_cursor (set_connected s b) = hc_cursor s" "hc_transcript (set_connected s b) = hc_transcript s"
  by (simp_all add: set_connected_def hub_publish_def)

lemma pv_fields [simp]:
  "pv_cursor (fst (pv_applied v)) = pv_cursor v" "pv_transcript (fst (pv_applied v)) = pv_transcript v" "snd (pv_applied v) = Received_Applied"
  "pv_cursor (pv_invalidate v c) = pv_cursor v" "pv_transcript (pv_invalidate v c) = pv_transcript v"
  by (simp_all add: pv_applied_def) (cases c; simp)+

interpretation window: chat_client ws_poll ws_cursor ws_transcript ws_welcomed
proof unfold_locales
  show "unspoiled ws_cursor ws_transcript c c'" if "ws_poll c m = (c', False)" for c m c'
  proof (cases m)
    case (Msg_Change ch cur)
    obtain t r where t: "Transcript_apply (ws_transcript c) ch = (t, r)" by (cases "Transcript_apply (ws_transcript c) ch")
    then have "r = Inl e \<Longrightarrow> t = ws_transcript c" for e using apply_err by blast
    with that t Msg_Change show ?thesis
      by (cases r) (auto simp: ws_poll_def ws_receive_def ws_lost_def Let_def unspoiled_def split: if_splits)
  qed (use that in \<open>auto simp: ws_poll_def ws_receive_def ws_lost_def Let_def unspoiled_def split: if_splits\<close>)
qed (auto simp: ws_poll_def ws_receive_def cursor_follows_def Let_def split: if_splits)

interpretation hub: chat_client hub_receive hc_cursor hc_transcript "\<lambda>_. True"
proof unfold_locales
  show "unspoiled hc_cursor hc_transcript c c'" if "hub_receive c m = (c', False)" for c m c'
  proof (cases m)
    case (Msg_Change ch cur)
    obtain t r where t: "Transcript_apply (hc_transcript c) ch = (t, r)" by (cases "Transcript_apply (hc_transcript c) ch")
    then have "r = Inl e \<Longrightarrow> t = hc_transcript c" for e using apply_err by blast
    with that t Msg_Change show ?thesis by (cases r) (auto simp: unspoiled_def)
  qed (use that in \<open>auto simp: unspoiled_def\<close>)
qed (auto simp: hub_publish_def)

interpretation view: chat_client pv_poll pv_cursor pv_transcript "\<lambda>_. True"
proof unfold_locales
  show "unspoiled pv_cursor pv_transcript c c'" if "pv_poll c m = (c', False)" for c m c'
  proof (cases m)
    case (Msg_Change ch cur)
    obtain t r where t: "Transcript_apply (pv_transcript c) ch = (t, r)" by (cases "Transcript_apply (pv_transcript c) ch")
    then have "r = Inl e \<Longrightarrow> t = pv_transcript c" for e using apply_err by blast
    with that t Msg_Change show ?thesis
      by (cases r) (auto simp: unspoiled_def pv_poll_def case_prod_beta split: if_splits)
  qed (use that in \<open>auto simp: unspoiled_def pv_poll_def case_prod_beta\<close>)
qed (auto simp: pv_poll_def pv_follows_def u64_add_def U64_MAX_def case_prod_beta)

text \<open>The window's own steps: a connection, a lost one, a command and a new attempt at the commands not answered.\<close>

lemma window_steps:
  "ws_cursor (ws_begin c) = ws_cursor c" "ws_transcript (ws_begin c) = ws_transcript c"
  "unspoiled ws_cursor ws_transcript c (ws_lost c err)"
  "ws_cursor (fst (ws_submit c i command)) = ws_cursor c" "ws_transcript (fst (ws_submit c i command)) = ws_transcript c"
  "ws_welcomed (fst (ws_submit c i command)) = ws_welcomed c"
  "ws_cursor (fst (ws_resend c)) = ws_cursor c" "ws_transcript (fst (ws_resend c)) = ws_transcript c"
  "ws_welcomed (fst (ws_resend c)) = ws_welcomed c"
  by (auto simp: ws_begin_def ws_lost_def ws_submit_def ws_resend_def Let_def unspoiled_def)

text \<open>The view in the pane catches up in the same way.\<close>

theorem view_catches_up:
  assumes "chat_reachable lib pv_poll pv_cursor pv_transcript (\<lambda>_. True) w" "wd_link w = Some k"
    "k \<in> set (outboxes (wd_server w))"
  shows "\<exists>c. read_all pv_poll (wd_client w) (in_flight k w) = Some c \<and> pv_cursor c = Some (Session_cursor (wd_server w))
    \<and> pv_transcript c = ss_transcript (wd_server w)"
  using view.catches_up [OF assms] .

end
