(* ===== verification/Chat_Bounds.thy ===== *)
theory Chat_Bounds
  imports Chat_Commands
begin

text \<open>
  What a chat program keeps is bounded: its transcript is well-formed and within the limits on entries, text and media,
  and so is the log of changes its clients resume from.
\<close>

section \<open>The limits\<close>

definition within_limits :: "Entry list \<Rightarrow> bool" where
  "within_limits es \<longleftrightarrow>
     length es \<le> MAX_ENTRIES \<and>
     (sum_list (map entry_size es) \<le> MAX_TRANSCRIPT_TEXT \<and> sum_list (map entry_media es) \<le> MAX_TRANSCRIPT_MEDIA
      \<or> length es \<le> 1)"

lemma sum_list_drop: "sum_list (map f (drop n es)) \<le> (sum_list (map f es) :: nat)"
  by (metis append_take_drop_id le_add2 map_append sum_list_append)

lemma within_limits_drop: "within_limits es \<Longrightarrow> within_limits (drop n es)"
  using sum_list_drop [of entry_size n es] sum_list_drop [of entry_media n es] by (auto simp: within_limits_def)

lemma shed_limits:
  assumes "t = sum_list (map entry_size es)" "m = sum_list (map entry_media es)" "n = shed es t m"
  shows "(es \<noteq> [] \<longrightarrow> n < length es) \<and> (es = [] \<longrightarrow> n = 0) \<and>
    (sum_list (map entry_size (drop n es)) \<le> MAX_TRANSCRIPT_TEXT \<and> sum_list (map entry_media (drop n es)) \<le> MAX_TRANSCRIPT_MEDIA
     \<or> length (drop n es) \<le> 1)"
  using assms by (induction es t m arbitrary: n rule: shed.induct) auto

lemma keep_from_limits: "within_limits (drop (keep_from es) es)" "es \<noteq> [] \<Longrightarrow> keep_from es < length es" "keep_from [] = 0"
proof -
  let ?d = "length es - MAX_ENTRIES" and ?kept = "drop (length es - MAX_ENTRIES) es"
  let ?n = "shed ?kept (sum_list (map entry_size ?kept)) (sum_list (map entry_media ?kept))"
  have k: "keep_from es = ?d + ?n" by (simp add: keep_from_def Let_def)
  then have d: "drop (keep_from es) es = drop ?n ?kept" by (simp add: add.commute)
  note n = shed_limits [OF refl refl refl, of ?kept]
  have "length (drop ?n ?kept) \<le> MAX_ENTRIES" by auto
  with n d show "within_limits (drop (keep_from es) es)" unfolding within_limits_def by simp
  show "keep_from es < length es" if "es \<noteq> []"
  proof -
    have "0 < MAX_ENTRIES" by (simp add: MAX_ENTRIES_def)
    then have "?kept \<noteq> []" using that by (cases "length es") auto
    with n have "?n < length ?kept" by blast
    then have "?d + ?n < length es" unfolding length_drop by linarith
    with k show ?thesis by simp
  qed
qed (simp add: keep_from_def)

text \<open>A truncation from the entry at \<open>n\<close> drops exactly those before it.\<close>

lemma truncate_at:
  assumes "entries_ordered es" "n < length es"
  shows "filter (\<lambda>e. en_id (es ! n) \<le> en_id e) es = drop n es"
proof -
  have ord: "en_id (es ! i) < en_id (es ! j)" if "i < j" "j < length es" for i j
    using assms(1) that by (simp add: entries_ordered_def sorted_wrt_iff_nth_less)
  have "\<not> en_id (es ! n) \<le> en_id e" if "e \<in> set (take n es)" for e
    using that ord [OF _ assms(2)] assms(2) by (auto simp: in_set_conv_nth not_le)
  then have "filter (\<lambda>e. en_id (es ! n) \<le> en_id e) (take n es) = []" by (simp add: filter_empty_conv)
  moreover have "filter (\<lambda>e. en_id (es ! n) \<le> en_id e) (drop n es) = drop n es"
  proof (rule filter_True, rule ballI)
    fix e assume "e \<in> set (drop n es)"
    then obtain j where j: "j < length es - n" "e = es ! (n + j)" using assms(2) by (auto simp: in_set_conv_nth)
    then show "en_id (es ! n) \<le> en_id e" using ord [of n "n + j"] assms(2) by (cases "j = 0") (auto simp: less_imp_le)
  qed
  moreover have "filter P es = filter P (take n es) @ filter P (drop n es)" for P
    by (metis append_take_drop_id filter_append)
  ultimately show ?thesis by simp
qed

section \<open>The transcript\<close>

definition roomy :: "ChatSession \<Rightarrow> bool" where
  "roomy s \<longleftrightarrow> transcript_ok (ss_transcript s) \<and> within_limits (tr_entries (ss_transcript s))"

text \<open>A change that is not of an entry at most truncates, and nothing that follows it touches the entries.\<close>

lemma plain_apply:
  assumes "\<not> changes_entry c" "Transcript_apply T c = (t, Inr u)"
  shows "\<exists>n. tr_entries t = drop n (tr_entries T)"
proof -
  have "notice_answers c = None" using assms(1) by (cases c) auto
  then have "apply_change T c = (t, Inr u)" using assms(2) by (simp add: Transcript_apply_def)
  then show ?thesis using assms(1)
    by (cases c)
      (auto simp: Let_def elim!: record_activity_cases split: if_splits option.splits intro: exI [of _ 0])
qed

lemma clients_apply: "Transcript_apply T (Change_Clients k) = (T\<lparr>tr_clients := k\<rparr>, Inr ())"
  by (simp add: Transcript_apply_def)

lemma clients_ok: "transcript_ok (T\<lparr>tr_clients := k\<rparr>) = transcript_ok T"
  by (simp add: transcript_ok_def)

lemma plain_emit:
  assumes "emit_fuel n io s c = Some s'" "\<not> changes_entry c" "Transcript_apply (ss_transcript s) c = (t, Inr u)"
  shows "tr_entries (ss_transcript s') = tr_entries t \<and> transcript_ok (ss_transcript s') = transcript_ok t"
  using assms
proof (induction n arbitrary: s c s' t u)
  case (Suc n)
  let ?s1 = "publish s t c"
  have "changed_tool c = None" using Suc.prems(2) by (cases c) auto
  then have after: "pictures_after emit io s2 c = Some s2" for emit s2 by (simp add: pictures_after_def)
  have "(if remote_clients ?s1 \<noteq> remote_clients s then emit_fuel n io ?s1 (Change_Clients (remote_clients ?s1)) else Some ?s1)
      \<bind> (\<lambda>s2. Some (report_activity s2)) = Some s'"
    using Suc.prems after by (simp add: emit_body_def pictures_before_plain Let_def)
  then obtain s2 where s2: "s' = report_activity s2"
    "(if remote_clients ?s1 \<noteq> remote_clients s then emit_fuel n io ?s1 (Change_Clients (remote_clients ?s1)) else Some ?s1) = Some s2"
    by (auto simp: bind_eq_Some_conv)
  have "tr_entries (ss_transcript s2) = tr_entries t \<and> transcript_ok (ss_transcript s2) = transcript_ok t"
    using s2(2) Suc.IH [OF _ _ clients_apply] by (auto simp: clients_ok split: if_splits)
  moreover have "ss_transcript s' = ss_transcript s2" using s2(1) by (simp add: report_activity_def Let_def)
  ultimately show ?case by simp
qed simp

interpretation room: silently "\<lambda>s s'. roomy s \<longrightarrow> roomy s'"
  by unfold_locales (auto simp: same_core_def roomy_def)

lemma bound_roomy:
  assumes "bound (emit_fuel n io) s = Some s'" "transcript_ok (ss_transcript s)"
  shows "roomy s'"
proof (cases "keep_from (tr_entries (ss_transcript s)) = 0")
  case True
  then have "s' = s" using assms(1) by (simp add: bound_def Let_def)
  then show ?thesis using assms(2) keep_from_limits(1) [of "tr_entries (ss_transcript s)"] True by (simp add: roomy_def)
next
  case False
  let ?T = "ss_transcript s" and ?es = "tr_entries (ss_transcript s)"
  let ?c = "Change_Truncate (en_id (?es ! keep_from ?es))"
  obtain t r where t: "Transcript_apply ?T ?c = (t, r)" by (cases "Transcript_apply ?T ?c")
  have ord: "entries_ordered ?es" using assms(2) by (simp add: transcript_ok_def)
  have "keep_from ?es < length ?es" using False keep_from_limits(2,3) by (cases "?es = []") auto
  then have cut: "drop (partition_point (\<lambda>e. en_id e < en_id (?es ! keep_from ?es)) ?es) ?es = drop (keep_from ?es) ?es"
    using truncate_at [OF ord] truncate_keeps [OF ord] by simp
  have "tr_entries t = drop (partition_point (\<lambda>e. en_id e < en_id (?es ! keep_from ?es)) ?es) ?es \<and> r = Inr ()"
    using t by (auto simp: Transcript_apply_def Let_def split: if_splits)
  then have "tr_entries t = drop (keep_from ?es) ?es" "r = Inr ()" unfolding cut by simp_all
  moreover have "transcript_ok t" using apply_ok [OF assms(2), of ?c] t by simp
  moreover have "emit_fuel n io s ?c = Some s'" using assms(1) False by (simp add: bound_def Let_def)
  ultimately show ?thesis using plain_emit [of n io s ?c s' t "()"] t keep_from_limits(1) [of ?es] by (simp add: roomy_def)
qed

lemma emit_body_roomy:
  assumes emit: "\<And>s c s'. emit_fuel n io s c = Some s' \<Longrightarrow> roomy s \<longrightarrow> roomy s'"
    and body: "emit_body (emit_fuel n io) io s c = Some s'" and ok: "roomy s"
  shows "roomy s'"
proof -
  from body obtain s1 c1 where 1: "pictures_before (emit_fuel n io) io s c = Some (s1, c1)"
    by (auto simp: emit_body_def bind_eq_Some_conv)
  have ok1: "roomy s1" using room.pictures_before_rel [OF _ 1] emit ok by blast
  obtain t r where t: "Transcript_apply (ss_transcript s1) c1 = (t, r)" by (cases "Transcript_apply (ss_transcript s1) c1")
  show ?thesis
  proof (cases r)
    case (Inl e)
    with body 1 t ok1 show ?thesis by (simp add: emit_body_def)
  next
    case (Inr u)
    let ?s2 = "publish s1 t c1"
    from body 1 t Inr obtain s3 s4 where
      3: "(if changes_entry c1 then bound (emit_fuel n io) ?s2 else Some ?s2) = Some s3" and
      4: "(if remote_clients s3 \<noteq> remote_clients s1 then emit_fuel n io s3 (Change_Clients (remote_clients s3)) else Some s3) = Some s4" and
      5: "pictures_after (emit_fuel n io) io (report_activity s4) c1 = Some s'"
      by (auto simp: emit_body_def Let_def bind_eq_Some_conv)
    have t_ok: "transcript_ok t" using apply_ok [of "ss_transcript s1" c1] t ok1 by (simp add: roomy_def)
    have "roomy s3"
    proof (cases "changes_entry c1")
      case True
      with 3 t_ok bound_roomy [of n io ?s2 s3] show ?thesis by simp
    next
      case False
      with 3 plain_apply [OF False] t Inr t_ok ok1 within_limits_drop show ?thesis by (fastforce simp: roomy_def)
    qed
    then have "roomy s4" using 4 emit by (auto split: if_splits)
    then have "roomy (report_activity s4)" using room.report_activity_rel by blast
    with room.pictures_after_rel [OF _ 5] emit show ?thesis by blast
  qed
qed

lemma emit_fuel_roomy: "emit_fuel n io s c = Some s' \<Longrightarrow> roomy s \<longrightarrow> roomy s'"
proof (induction n arbitrary: s c s')
  case (Suc n)
  then have "emit_body (emit_fuel n io) io s c = Some s'" by simp
  with emit_body_roomy Suc.IH show ?case by blast
qed simp

section \<open>The log\<close>

definition log_weight :: "(nat \<times> ChatChange) list \<Rightarrow> nat" where
  "log_weight log = sum_list (map (\<lambda>(_, c). change_size c) log)"

definition log_ok :: "ChatSession \<Rightarrow> bool" where
  "log_ok s \<longleftrightarrow>
     length (ss_log s) \<le> LOG \<and> ss_log_bytes s = log_weight (ss_log s) \<and> (ss_log_bytes s \<le> LOG_BYTES \<or> length (ss_log s) \<le> 1)"

lemma evict_log_ok:
  assumes "evict_log room log weight = (log', weight')" "weight = log_weight log" "length log \<le> LOG"
  shows "length log' < LOG \<and> weight' = log_weight log' \<and> (weight' + room \<le> LOG_BYTES \<or> log' = [])"
  using assms
proof (induction room log weight rule: evict_log.induct)
  case (2 room old log weight)
  then show ?case by (auto simp: log_weight_def case_prod_beta split: if_splits)
qed (simp add: log_weight_def LOG_def)

lemma publish_log_ok:
  assumes "log_ok s"
  shows "log_ok (publish s t c)"
proof -
  obtain log w where ev: "evict_log (change_size c) (ss_log s) (ss_log_bytes s) = (log, w)"
    by (cases "evict_log (change_size c) (ss_log s) (ss_log_bytes s)")
  have "ss_log (publish s t c) = log @ [(Suc (ss_seq s), c)]" "ss_log_bytes (publish s t c) = w + change_size c"
    by (simp_all add: publish_def Let_def case_prod_beta ev)
  with evict_log_ok [OF ev] assms show ?thesis by (auto simp: log_ok_def log_weight_def)
qed

interpretation log_room: emission "\<lambda>s s'. log_ok s \<longrightarrow> log_ok s'"
proof unfold_locales
  show "log_ok s \<longrightarrow> log_ok s'" if "same_core s s'" for s s' using that by (auto simp: same_core_def log_ok_def)
qed (auto intro: publish_log_ok)

section \<open>A run of the session\<close>

definition session_ok :: "ChatSession \<Rightarrow> bool" where
  "session_ok s \<longleftrightarrow> roomy s \<and> log_ok s"

lemma session_ok_cong [simp]:
  "session_ok (s\<lparr>ss_handled := handled\<rparr>) = session_ok s"
  "session_ok (s\<lparr>ss_subscribers := subscribers\<rparr>) = session_ok s"
  "session_ok (s\<lparr>ss_channels := channels\<rparr>) = session_ok s"
  "session_ok (woken w s) = session_ok s"
  by (simp_all add: session_ok_def roomy_def log_ok_def woken_def)

interpretation sound: session_steps "\<lambda>s s'. session_ok s \<longrightarrow> session_ok s'"
proof unfold_locales
  show "session_ok s \<longrightarrow> session_ok (Session_emit io s c)" for io s c
    using emit_fuel_roomy [OF Session_emit_eq] log_room.rel_emit by (auto simp: session_ok_def)
qed (auto simp: same_core_def session_ok_def roomy_def log_ok_def)

lemma attach_sound: "session_ok s \<Longrightarrow> session_ok (Session_attach io s a)"
  using sound.rel_emit by (auto simp: Session_attach_def Let_def case_prod_beta split: option.split)

lemma handle_sound: "session_ok s \<Longrightarrow> session_ok (fst (Session_handle lib io s input))"
  using sound.handle_step [of s s input lib io] attach_sound by (cases input) auto

lemma loop_sound: "session_ok s \<Longrightarrow> session_ok (session_loop lib s ws)"
proof (induction ws arbitrary: s)
  case (Cons w ws)
  then have "session_ok (fst (Session_handle lib (wk_io w) (woken w s) (wk_input w)))" by (intro handle_sound) simp
  with Cons.IH show ?case by (auto split: prod.split Flow.split)
qed simp

lemma begin_sound:
  assumes "\<And>h. history = Some h \<Longrightarrow> entries_ordered (tr_entries h) \<and> within_limits (tr_entries h)"
  shows "session_ok (session_begin config history epoch outbox channels io notices)"
proof -
  let ?s = "ChatSession_new config history epoch outbox channels"
  have "within_limits []" by (simp add: within_limits_def)
  then have new: "session_ok ?s" using assms Transcript_new_ok [of "cc_agent config"]
    by (auto simp: session_ok_def roomy_def log_ok_def log_weight_def ChatSession_new_def Let_def transcript_ok_def
        Transcript_new_def split: option.split)
  have "session_ok (foldl (\<lambda>s (level, t). Session_notice io s level t) s notices)" if "session_ok s" for s
    using that sound.fail_step(1) by (induction notices arbitrary: s) auto
  with new sound.Session_start_step show ?thesis by (simp add: session_begin_def Let_def)
qed

end
