(* ===== verification/Chat_Safety.thy ===== *)
theory Chat_Safety
  imports Chat_Sync Chat_Bounds
begin

text \<open>
  What a chat program promises its clients, with a small program and two of its clients as examples.
\<close>

section \<open>An example\<close>

definition example_config :: ChatConfig where
  "example_config =
     \<lparr>cc_agent = [], cc_cwd = [], cc_exit_with_agent = False, cc_load = None, cc_login_hint = None, cc_pane = None,
      cc_require_load = False\<rparr>"

definition example_chat_io :: ChatIo where
  "example_chat_io =
     \<lparr>io_linked = \<lambda>_. [], io_files = \<lambda>_. [], io_readable = \<lambda>_. True, io_prepare = \<lambda>_. ([], None), io_now = 0\<rparr>"

definition example_acp :: "unit AcpLib" where
  "example_acp =
     \<lparr>al_initialize = \<lambda>_. Inl [], al_options = \<lambda>_. None, al_load_modes = \<lambda>_. None, al_new_session = \<lambda>_. Inl [],
      al_prompt = \<lambda>_. None, al_tokens = \<lambda>_. None, al_session_id = \<lambda>_. None, al_config_update = \<lambda>_. None,
      al_notification = \<lambda>_. None, al_permission = \<lambda>_. None\<rparr>"

definition example_queue :: "'m Channel" where
  "example_queue = \<lparr>cn_queue = [], cn_cap = 8, cn_open = True\<rparr>"

definition example_chat :: ChatSession where
  "example_chat = ChatSession_new example_config None 1 example_queue (\<lambda>_. example_queue)"

definition example_attach :: Attach where
  "example_attach = \<lparr>ah_conn = 1, ah_local = True, ah_outbox = 0, ah_since = None\<rparr>"

definition example_world :: "'c \<Rightarrow> 'c ChatWorld" where
  "example_world c =
     \<lparr>wd_server = Session_attach example_chat_io example_chat example_attach, wd_client = c, wd_link = Some 0, wd_wire = []\<rparr>"

lemmas example_chat_defs =
  example_config_def example_chat_io_def example_acp_def example_queue_def example_chat_def example_attach_def
  example_world_def ChatSession_new_def Session_attach_def attach_messages_def catch_up_def try_send_def last_entry_id_def
  Session_cursor_def Transcript_new_def outboxes_def

lemma example_world_reachable:
  assumes "cursor c = None"
  shows "chat_reachable example_acp receive cursor transcript ready (example_world c)"
proof -
  have "chat_reachable example_acp receive cursor transcript ready
      \<lparr>wd_server = example_chat, wd_client = c, wd_link = None, wd_wire = []\<rparr>"
    unfolding example_chat_def by (rule world_new) (simp add: assms)
  from world_connect [OF this, of 0 c _ example_chat_io 1 True]
  show ?thesis by (simp add: example_chat_defs assms Let_def)
qed

section \<open>Clients follow the program\<close>

text \<open>
  C13. An attached window misses nothing: however its connections were lost and resumed, other clients came and fell
  behind, and the program's log was cut, it accepts every message on its way to it, in order, and then its cursor is the
  program's and its transcript is the program's, entry by entry.
\<close>

theorem window_catches_up:
  assumes "chat_reachable lib ws_poll ws_cursor ws_transcript ws_welcomed w" "wd_link w = Some k"
    "k \<in> set (outboxes (wd_server w))"
  shows "\<exists>c. read_all ws_poll (wd_client w) (in_flight k w) = Some c \<and> ws_cursor c = Some (Session_cursor (wd_server w))
    \<and> ws_transcript c = ss_transcript (wd_server w)"
  using window.catches_up [OF assms] .

theorem window_catches_up_witness:
  "chat_reachable example_acp ws_poll ws_cursor ws_transcript ws_welcomed (example_world WindowSession_default) \<and>
   (\<exists>c. read_all ws_poll WindowSession_default (in_flight 0 (example_world WindowSession_default)) = Some c \<and>
        ws_cursor c = Some \<lparr>cu_epoch = 1, cu_seq = 0\<rparr> \<and> ws_transcript c = Transcript_new [])"
proof -
  let ?w = "example_world WindowSession_default"
  have reach: "chat_reachable example_acp ws_poll ws_cursor ws_transcript ws_welcomed ?w"
    by (rule example_world_reachable) (simp add: WindowSession_default_def)
  have "0 \<in> set (outboxes (wd_server ?w))" "wd_link ?w = Some 0" "wd_client ?w = WindowSession_default"
    "Session_cursor (wd_server ?w) = \<lparr>cu_epoch = 1, cu_seq = 0\<rparr>" "ss_transcript (wd_server ?w) = Transcript_new []"
    by (simp_all add: example_chat_defs Let_def)
  with window_catches_up [OF reach, of 0] reach show ?thesis by simp
qed

text \<open>
  C23. The remote access server never shows a conversation that differs from the program's at the same position: whenever
  its cursor is the program's, its transcript is.
\<close>

theorem hub_same_cursor:
  assumes "chat_reachable lib hub_receive hc_cursor hc_transcript (\<lambda>_. True) w"
    "hc_cursor (wd_client w) = Some (Session_cursor (wd_server w))"
  shows "hc_transcript (wd_client w) = ss_transcript (wd_server w)"
  using hub.same_cursor [OF assms] .

theorem hub_same_cursor_witness:
  "\<exists>w. chat_reachable example_acp hub_receive hc_cursor hc_transcript (\<lambda>_. True) w \<and>
     hc_cursor (wd_client w) = Some (Session_cursor (wd_server w)) \<and> hc_transcript (wd_client w) = ss_transcript (wd_server w)"
proof -
  let ?R = "chat_reachable example_acp hub_receive hc_cursor hc_transcript (\<lambda>_. True)"
  let ?w0 = "example_world HubChat_default"
  have r0: "?R ?w0" by (rule example_world_reachable) (simp add: HubChat_default_def)
  have q0: "cn_queue (ss_channels (wd_server ?w0) 0) =
      [Msg_Welcome [] None CHAT_VERSION, Msg_Snapshot \<lparr>cu_epoch = 1, cu_seq = 0\<rparr> (Transcript_new [])]"
    by (simp add: example_chat_defs Let_def)
  define s where "s = wd_server ?w0"
  have s: "Session_cursor s = \<lparr>cu_epoch = 1, cu_seq = 0\<rparr>" by (simp add: s_def example_chat_defs Let_def)
  have w0: "?w0 = \<lparr>wd_server = s, wd_client = HubChat_default, wd_link = Some 0, wd_wire = []\<rparr>"
    by (simp add: s_def example_world_def)
  define s1 where "s1 = s\<lparr>ss_channels := (ss_channels s)(0 := (ss_channels s 0)\<lparr>cn_queue := [Msg_Snapshot \<lparr>cu_epoch = 1, cu_seq = 0\<rparr> (Transcript_new [])]\<rparr>)\<rparr>"
  have r1: "?R \<lparr>wd_server = s1, wd_client = HubChat_default, wd_link = Some 0, wd_wire = [Msg_Welcome [] None CHAT_VERSION]\<rparr>"
    using world_write [OF r0 _ refl q0] by (simp add: w0 s1_def)
  define c1 where "c1 = fst (hub_receive HubChat_default (Msg_Welcome [] None CHAT_VERSION))"
  have r2: "?R \<lparr>wd_server = s1, wd_client = c1, wd_link = Some 0, wd_wire = []\<rparr>"
    using world_read [OF r1] by (simp add: c1_def)
  define s2 where "s2 = s1\<lparr>ss_channels := (ss_channels s1)(0 := (ss_channels s1 0)\<lparr>cn_queue := []\<rparr>)\<rparr>"
  have r3: "?R \<lparr>wd_server = s2, wd_client = c1, wd_link = Some 0, wd_wire = [Msg_Snapshot \<lparr>cu_epoch = 1, cu_seq = 0\<rparr> (Transcript_new [])]\<rparr>"
    using world_write [OF r2 _ refl] by (simp add: s2_def s1_def)
  define c2 where "c2 = fst (hub_receive c1 (Msg_Snapshot \<lparr>cu_epoch = 1, cu_seq = 0\<rparr> (Transcript_new [])))"
  have r4: "?R \<lparr>wd_server = s2, wd_client = c2, wd_link = Some 0, wd_wire = []\<rparr>"
    using world_read [OF r3] by (simp add: c2_def)
  have "hc_cursor c2 = Some (Session_cursor s2)" using s by (simp add: c2_def hub_publish_def s2_def s1_def Session_cursor_def)
  with hub_same_cursor [OF r4] r4 show ?thesis by (intro exI) auto
qed

section \<open>The program\<close>

text \<open>
  C14. A command that a client sends again after a reconnect is not run twice: once the session has run it, then until
  256 further commands are acknowledged, whatever else happens, sending it again only repeats the first answer.
\<close>

theorem command_runs_once:
  fixes before after :: "'v Wakeup list"
  assumes s: "s = woken w0 (session_loop lib (session_begin config history epoch outbox channels io0 notices) before)"
    and new: "i \<notin> fst ` set (ss_handled s)"
    and few: "length (filter (\<lambda>w. acknowledges (wk_input w)) after) < HANDLED"
    and s': "s' = woken w (session_loop lib (Session_command io s conn i command) after)"
  shows "Session_command io' s' conn' i command' = send_to io' s' conn' (Msg_Ack i (snd (run_command io s i command)))"
proof -
  let ?r = "snd (run_command io s i command)"
  have bound: "length (ss_handled s) \<le> HANDLED" unfolding s woken_handled by (rule run_bound) simp
  have "answered i ?r 0 (remember (ss_handled s) (i, ?r))"
    using length_remember [OF bound, of "(i, ?r)"] new
    unfolding answered_def remember_def by (cases "ss_handled s") (auto simp: HANDLED_def)
  then have "answered i ?r 0 (ss_handled (Session_command io s conn i command))" using new by (simp add: command_handled)
  from answered_find [OF run_answered [OF this]] few s'
  have "List.find (\<lambda>(h, _). h = i) (ss_handled s') = Some (i, ?r)" by simp
  then show ?thesis by (simp add: Session_command_def)
qed

definition example_wakeup :: "unit Wakeup" where
  "example_wakeup =
     \<lparr>wk_io = example_chat_io, wk_channels = \<lambda>_. example_queue, wk_outbox = example_queue, wk_input = Input_Detach 1\<rparr>"

definition example_begun :: ChatSession where
  "example_begun = session_begin example_config None 1 example_queue (\<lambda>_. example_queue) example_chat_io []"

theorem command_runs_once_witness:
  "\<forall>command. Session_command example_chat_io
       (woken example_wakeup (session_loop example_acp (Session_command example_chat_io (woken example_wakeup example_begun) 1 7 Command_Cancel) []))
       2 7 command =
     send_to example_chat_io
       (woken example_wakeup (session_loop example_acp (Session_command example_chat_io (woken example_wakeup example_begun) 1 7 Command_Cancel) []))
       2 (Msg_Ack 7 (Some NotWorking))"
proof -
  let ?s = "woken example_wakeup (session_loop example_acp example_begun [])"
  have "ss_turn ?s = None \<and> tr_queued (ss_transcript ?s) = []"
    by (simp add: example_chat_defs example_begun_def session_begin_def woken_def Session_start_def Session_request_def
        report_activity_def Let_def)
  then have "snd (run_command example_chat_io ?s 7 Command_Cancel) = Some NotWorking" by (simp add: Session_cancel_def)
  moreover have "7 \<notin> fst ` set (ss_handled ?s)" by (simp add: example_begun_def)
  ultimately show ?thesis
    using command_runs_once [where s = ?s and before = "[]" and after = "[]" and lib = example_acp and i = 7 and command = Command_Cancel
          and io = example_chat_io and conn = 1 and w = example_wakeup,
        unfolded example_begun_def, OF refl _ _ refl]
    by (simp add: example_begun_def HANDLED_def)
qed

text \<open>
  C15. Whatever its agent sends and its clients ask, a chat program's transcript stays well-formed, with at most 2000
  entries, 2 MB of text and 8 MB of media (unless one entry alone exceeds them), and its log of changes stays within 8192
  changes and 32 MB (unless one change alone exceeds them), of which it keeps an exact count.
\<close>

theorem session_bounded:
  assumes "\<And>h. history = Some h \<Longrightarrow> entries_ordered (tr_entries h) \<and> within_limits (tr_entries h)"
    and "s = session_loop lib (session_begin config history epoch outbox channels io notices) ws"
  shows "transcript_ok (ss_transcript s) \<and> length (tr_entries (ss_transcript s)) \<le> MAX_ENTRIES \<and>
    (sum_list (map entry_size (tr_entries (ss_transcript s))) \<le> MAX_TRANSCRIPT_TEXT \<and>
     sum_list (map entry_media (tr_entries (ss_transcript s))) \<le> MAX_TRANSCRIPT_MEDIA
     \<or> length (tr_entries (ss_transcript s)) = 1) \<and>
    length (ss_log s) \<le> LOG \<and> ss_log_bytes s = log_weight (ss_log s) \<and>
    (ss_log_bytes s \<le> LOG_BYTES \<or> length (ss_log s) = 1)"
proof -
  have "session_ok s" unfolding assms(2) by (rule loop_sound, rule begin_sound) (rule assms(1))
  then have "transcript_ok (ss_transcript s)" "within_limits (tr_entries (ss_transcript s))" "log_ok s"
    by (simp_all add: session_ok_def roomy_def)
  then show ?thesis
    by (cases "tr_entries (ss_transcript s)"; cases "ss_log s") (auto simp: within_limits_def log_ok_def log_weight_def)
qed

theorem session_bounded_witness:
  "length (tr_entries (ss_transcript (session_loop example_acp example_begun [example_wakeup]))) \<le> 2000 \<and>
   length (ss_log (session_loop example_acp example_begun [example_wakeup])) \<le> 8192"
  using session_bounded [where history = None and lib = example_acp and ws = "[example_wakeup]", OF _ refl]
  unfolding example_begun_def MAX_ENTRIES_def LOG_def by blast

section \<open>Conversations\<close>

text \<open>
  C24. Every change keeps a transcript well-formed: its entries in increasing order of their ids, no question asked twice,
  at most 32 activities, each of a call of its own and within its bounds. A change that does not fit is an error and
  leaves the transcript as it was.
\<close>

theorem transcript_stays_well_formed:
  assumes "transcript_ok self" "Transcript_apply self change = (self', r)"
  shows "transcript_ok self' \<and> (r \<noteq> Inr () \<longrightarrow> self' = self)"
  using assms apply_ok [of self change] apply_err [of self change self'] by (cases r) auto

theorem transcript_stays_well_formed_witness:
  "transcript_ok ((Transcript_new [])\<lparr>tr_entries := [\<lparr>en_id = 4, en_kind = Entry_Agent []\<rparr>]\<rparr>)"
  using transcript_stays_well_formed [where self = "Transcript_new []"
      and change = "Change_Push \<lparr>en_id = 4, en_kind = Entry_Agent []\<rparr>" and r = "Inr ()", OF Transcript_new_ok]
  by (simp add: Transcript_apply_def Transcript_new_def last_entry_id_def)

text \<open>
  C25. An emission ends, although it calls itself: for the pictures a message links, for a truncation, for the clients
  that fell behind and for a finished call's pictures.
\<close>

theorem emission_ends: "emit_fuel (length (ss_subscribers s) + 4) io s c = Some (Session_emit io s c)"
  by (rule Session_emit_eq)

end
