(* ===== verification/Spec2Isabelle.thy ===== *)
theory Spec2Isabelle
  imports Client_Requests Client_Reader Surface_Reuse Core_Calls Core_Events Saved_Tabs Terminal_Scan Terminal_Input Schedule_Next
    Auth_Safety Push_Safety Chat_Safety
begin

text \<open>
  A verification development of Sheprd, a desktop client for terminal sessions that a daemon keeps. This
  theory imports every other one; each of them holds the definitions of one part of the code, translated
  operation by operation, the lemmas about them and its properties, numbered C1, C2 and so on.

  \<^bold>\<open>The program.\<close> The daemon sends a client snapshots of its workspaces and surfaces of the shown tab: whole
  frames, patches of rows, scrolls followed by a patch, span deltas, and surfaces that reuse the cells on
  screen (\<open>crates/sheprd-protocol\<close>). The client reads them from a stream that cuts and stalls, checks and
  applies them, keeps the images they name, and writes the commands and input of the app under a lease of
  one request (\<open>crates/sheprd-client\<close>). Newer sessions talk to a core process over numbered channels
  (\<open>crates/sheprd-core-client\<close>), show its terminals in split panes that are saved with the tab
  (\<open>crates/sheprd-session\<close>), and emulate the terminal in the app, which scans what the program prints and
  encodes what the user types (\<open>crates/sheprd-terminal\<close>). Scripts run on schedules
  (\<open>crates/sheprd-automation\<close>). Phones reach the daemon through a remote access server, which pairs them when a
  person allows it and lets only paired devices in (\<open>crates/sheprd-remote-control\<close>), and notifications reach
  them through a relay (\<open>crates/sheprd-push-relay\<close>). A conversation with a coding agent is held by a chat program
  (\<open>crates/sheprd-acp\<close>), which talks to the agent and sends every change of the transcript
  (\<open>crates/sheprd-chat-protocol\<close>) to its clients: the view in its pane, the app's window and the remote access server.

  \<^bold>\<open>The theories.\<close>

  \<^item> \<open>Prelude\<close>: widths, bytes, results, slice writes, little-endian and decimal forms, UTF-8; the locale
    \<open>preserved\<close> (an invariant that every operation keeps holds after any run) and the locale \<open>transducer\<close>
    (a machine fed byte by byte does the same however its input is cut).
  \<^item> \<open>Wire\<close>: the messages and records of \<open>wire.rs\<close>, \<open>endpoint.rs\<close> and \<open>error.rs\<close>, with the source's
    constructors, fields and widths.
  \<^item> \<open>Codec\<close>: \<open>codec.rs\<close> and \<open>clipboard.rs\<close>. Framing is a round trip, what is read is exactly a frame, and
    clipboard images stay within their limits.
  \<^item> \<open>Frame\<close>: \<open>frame.rs\<close>. Validation implies every slice bound of the commit, so a patch either fails and
    changes nothing or refines a row update of the screen. The locale \<open>surface_update\<close> is the contract of
    the four ways to change a surface (one revision on, the same boot and size, a valid frame) and proves
    once that updates are applied in order and only once; \<open>Frame\<close>, \<open>Surface_Scroll\<close>, \<open>Surface_Delta\<close> and
    \<open>Surface_Reuse\<close> interpret it.
  \<^item> \<open>Surface_Scroll\<close>: \<open>surface_scroll.rs\<close>, with the in-place row swaps of the source, shown equal to moving
    the rows of each region. \<open>Surface_Delta\<close>: \<open>surface_delta.rs\<close>, whose checks make the reconstruction total.
    \<open>Surface_Reuse\<close>: \<open>surface_reuse.rs\<close> and \<open>surface_prefix.rs\<close>.
  \<^item> \<open>Image_Store\<close>: \<open>surface_images.rs\<close>. The budgets and the exact byte count hold in every reachable store,
    by rule induction.
  \<^item> \<open>Client_State\<close>: the records, limits, methods, health and deadlines of \<open>session.rs\<close>, \<open>barrier.rs\<close>,
    \<open>method.rs\<close> and \<open>limits.rs\<close>. \<open>Client_Session\<close>: every message handler and the command policy, as actions
    on a world of the session, the delivered events and the written messages; an action is \<open>None\<close> where the
    code would panic. \<open>Client_Invariant\<close>: a weakest-precondition calculus for those actions and the invariant
    of a connection, kept by every message and command. \<open>Client_Requests\<close>: the requests of a connection, as
    they are written, in flight and answered. \<open>Client_Reader\<close>: the incremental reader and writer of
    \<open>frame.rs\<close>, and when input may overtake an unfinished frame.
  \<^item> \<open>Core_Frame\<close>, \<open>Core_Hello\<close> and \<open>Core_Stream\<close>: \<open>frame.rs\<close>, \<open>hello.rs\<close>, \<open>method.rs\<close>, \<open>stream.rs\<close> and the lines of
    \<open>event.rs\<close> of the core client. The compacting decoder equals the decoding of the whole stream; an inbox
    gives every byte once; which cores the handshake accepts.
  \<^item> \<open>Core_Connection\<close> and \<open>Core_Calls\<close>: \<open>connection.rs\<close>. The tables the threads share are one record, inboxes and
    reply channels are objects at an address, and \<open>conn_run\<close> runs any interleaving of the worker, callers and
    readers. \<open>Core_Calls\<close> interprets \<open>preserved\<close> on those steps, and shows that calls get their own answers, that
    streams deliver what arrives from their answer on in order, and lose only what a failed read had taken, that a lost connection settles every call and stream, and
    that the frames handled are those of the bytes after the handshake line.
  \<^item> \<open>Core_Events\<close>: \<open>event.rs\<close>, \<open>wire.rs\<close>, the subscriptions of \<open>stream.rs\<close>, and \<open>backend.rs\<close>. What the app holds after
    the changes it is told is what the core's own records say, for a core that announces its changes as its events are
    documented.
  \<^item> \<open>Floats\<close>, \<open>Panes\<close> and \<open>Saved_Tabs\<close>: \<open>panes.rs\<close> and \<open>saved.rs\<close>. Binary32 shares are rounded as the code rounds them
    (\<open>Floats\<close>); the pane found in a direction is compared with the rectangles themselves;
    \<open>Panes\<close> interprets \<open>preserved\<close> on the pane operations.
  \<^item> \<open>Terminal_Scan\<close> and \<open>Terminal_Input\<close>: \<open>scan.rs\<close>, \<open>modes.rs\<close>, \<open>input.rs\<close> and \<open>input/\<close>. \<open>Terminal_Scan\<close>
    interprets \<open>transducer\<close> on the scanner.
  \<^item> \<open>Strings\<close>: the operations of \<open>str\<close>; \<open>Schedule_Text\<close>, \<open>Cron\<close>, \<open>Schedule_Next\<close>: \<open>schedule.rs\<close>, \<open>schedule/cron.rs\<close> and \<open>schedule/next.rs\<close>. What
    is printed reads back, cron fields mean what cron means, the walk for the next firing ends at the first
    match but for those minutes a step of it goes past where the clock changes, and missed firings collapse into the last one.
  \<^item> \<open>Std\<close>: the operations of \<open>u64\<close>, \<open>Vec\<close> and \<open>HashMap\<close> the next theories use. \<open>Rate_Limits\<close>: \<open>auth/limits.rs\<close> and the
    relay's \<open>limit.rs\<close>; the locale \<open>limiter\<close> is what both promise of the grants of a key in a span of time, and
    each interprets it.
  \<^item> \<open>Auth_Base\<close>: the errors, keys, secrets and names of \<open>auth.rs\<close> and the atomic replacement of a file, with a
    failure at any of its steps. \<open>Device_Store\<close>: \<open>auth/devices.rs\<close>, whose file refines the devices in memory.
    \<open>Pairing\<close>: \<open>auth/pairing.rs\<close>. \<open>Auth_Sessions\<close>: \<open>auth/session.rs\<close>, \<open>presence.rs\<close>, \<open>handoff.rs\<close>, \<open>nearby.rs\<close>.
    \<open>Host_Links\<close>: \<open>auth/links.rs\<close> and \<open>control/hosts.rs\<close>. \<open>Auth\<close>: the state of \<open>auth.rs\<close>, every method of it, and
    \<open>auth_step\<close>, one operation of the server with any arguments.
  \<^item> \<open>Auth_Facts\<close> and \<open>Auth_Effects\<close>: what each operation leaves of the draws, the devices, the sessions and the open
    pairing. \<open>Auth_Example\<close>: a concrete run. \<open>Auth_Safety\<close>: the locale \<open>single_use\<close> (a secret that is gone once it was
    accepted and stays gone is accepted at most once), interpreted on pairing tokens, challenges, presence nonces
    and handoff tokens, and the properties of the server over all sequences of operations.
  \<^item> \<open>Push_Seal\<close>: \<open>seal.rs\<close> and \<open>token.rs\<close> of \<open>sheprd-apns\<close>, \<open>credential.rs\<close> and \<open>handle.rs\<close> of the push relay. \<open>Push_Relay\<close>:
    \<open>store.rs\<close>, \<open>relay.rs\<close>, \<open>web.rs\<close>, and the daemon's side in \<open>send.rs\<close> and \<open>relay.rs\<close> of \<open>sheprd-apns\<close>. \<open>Push_Example\<close>: a concrete
    relay. \<open>Push_Safety\<close>: requests as tasks that advance one lock at a time in any interleaving, shown to be the
    handlers when run alone; the locale \<open>revocations\<close> is what the relay relies on of its store, interpreted on the one
    in memory. A revoked handle stays silent, the pushes of a device keep to its rate (on the locale \<open>limiter\<close>), and a
    fresh handle is posted.
  \<^item> \<open>Chat_Model\<close>: the transcript, its changes and the messages of \<open>sheprd-chat-protocol\<close>, with the binary searches it uses
    shown equal to linear ones. \<open>Chat_Project\<close>: \<open>project.rs\<close> and \<open>project/activity.rs\<close> of \<open>sheprd-acp\<close>, which turn an agent's
    updates into changes. \<open>Chat_Session\<close>: the state of \<open>session.rs\<close> and how it emits a change, with \<open>session/pictures.rs\<close> and
    \<open>attach/downgrade.rs\<close>. The locales \<open>silently\<close>, \<open>emission\<close> and \<open>emitted\<close> are what a relation between sessions needs to
    hold of an emission. \<open>Chat_Commands\<close>: \<open>session/commands.rs\<close>, \<open>session/agent.rs\<close>, every input of the session and its
    thread; the locale \<open>session_steps\<close> carries a relation over every input.
  \<^item> \<open>Chat_Client\<close>: the copies the window, the remote access server and the view in the pane keep. \<open>Chat_Sync\<close>: the
    program, one client and the queue between them, in any order of steps; the locale \<open>chat_client\<close> is what a client
    promises of each message, interpreted on all three, and gives that they catch up. \<open>Chat_Bounds\<close>: the limits of the
    transcript and of the log, in every run. \<open>Chat_Safety\<close>: the properties, with a small program as example.

  \<^bold>\<open>Code outside the repository\<close> is an argument of the definitions that call it: bincode, base64 and
  serde_json (\<open>Externals\<close> of \<open>Client_Session\<close>, and arguments of the codecs), the JSON readers of saved tabs (\<open>Saved_Tabs\<close>),
  of core messages (\<open>JsonLib\<close> of \<open>Core_Connection\<close>) and of core events (\<open>EventLib\<close> of \<open>Core_Events\<close>),
  Unicode case mapping (\<open>Terminal_Input\<close>), the time zone library (\<open>TimeLib\<close> of \<open>Schedule_Next\<close>), base64, hashes and
  signatures (\<open>AuthLib\<close> of \<open>Auth_Base\<close>), key agreement and encryption (\<open>NearbyLib\<close> of \<open>Auth_Sessions\<close>, \<open>SealLib\<close> of \<open>Push_Seal\<close>) and the JSON of
  the files of the server (\<open>StoreLib\<close>, \<open>HandoffLib\<close>, \<open>RevokeLib\<close>), and the agent client protocol (\<open>AcpLib\<close> of \<open>Chat_Commands\<close>). What a
  property needs of it is a hypothesis of that property, with a witness on a concrete instance; the time
  library is instantiated with UTC on the proleptic Gregorian calendar.

  \<^bold>\<open>Conventions.\<close> Integers that can wrap or overflow are words, or natural numbers with the check written
  out; \<open>usize\<close> is \<open>nat\<close>, since every sum in it is bounded by the frame limits. Errors are \<open>Inl\<close>, panics and
  loops that do not end are \<open>None\<close>. The stream a reader or writer uses is the list of what its calls
  return, so a property over all such lists is one over all interleavings. In the same way the randomness and the
  outcomes of file operations are lists in \<open>Env\<close>. Times in milliseconds are \<open>nat\<close>, with \<open>u64\<close> saturation and wrap
  written out; the counter of a conversation's changes and the ids of its entries are \<open>nat\<close>, and the properties of
  clients assume that the counter stays a \<open>u64\<close>. A \<open>HashMap\<close> is a list of pairs; where the code takes the first of equal entries of one, the model
  takes the first of the list.

  \<^bold>\<open>Bounds.\<close> The one definition with fuel is \<open>emit_fuel\<close>: an emission calls itself for pictures, a truncation and clients
  that fell behind. Each of the latter leaves fewer clients and the others nest at most three deep, so the number of
  clients and four is enough (\<open>emission_ends\<close>). Other loops are structural recursions or have a measure; the only one that
  may not end is \<open>cron_loop\<close>, a partial function with value \<open>None\<close> then: it ends when the zone's next hour
  lies ahead (\<open>cron_first_match\<close>), and the lemma \<open>cron_loop_diverges\<close> says when it does not.

  \<^bold>\<open>Not modelled.\<close> Sockets, threads, channels and processes; logging; the serde derives; the grid of
  the emulator, which is the alacritty_terminal package; the names of time zones and the text of a whole
  schedule; the servers and the requests around the authentication state; the user interface and the remaining
  crates (usage, version control, updates, push delivery, scripting), which are I/O and glue around services the sources only call.
\<close>

end
